(* ===== verification/Prelude.thy ===== *)
theory Prelude
  imports Main "HOL-Library.Word"
begin

unbundle bit_operations_syntax

text \<open>
  Shared by every component: the C types of the firmware and of the Atari driver as machine words,
  big-endian byte sequences, the Atari's memory as a function from addresses to bytes, and the
  generic lemmas and collections the component theories use.
\<close>

section \<open>Types\<close>

type_synonym BYTE = "8 word"
type_synonym WORD = "16 word"
type_synonym DWORD = "32 word"

text \<open>The Atari's address space: one byte at every 32-bit address.\<close>

type_synonym ram = "DWORD \<Rightarrow> BYTE"

named_theorems step_defs \<open>definitions of the small operations, unfolded together in step proofs\<close>
named_theorems inv_rules \<open>preservation of the component invariants\<close>

section \<open>Lists\<close>

lemma nth_map_upt_list [simp]: "map (\<lambda>i. xs ! i) [0..<length xs] = xs"
  by (rule map_nth)

lemma take_drop_slice:
  "take a (drop n xs) @ take b (drop (n + a) xs) = take (a + b) (drop n xs)"
  by (simp add: take_add add.commute)

lemma length_foldl_update:
  "length (foldl (\<lambda>d i. d[i := f i]) xs is) = length xs"
  by (induction "is" arbitrary: xs) auto

lemma foldl_update_upt:
  "n \<le> length xs \<Longrightarrow> foldl (\<lambda>d i. d[i := f i]) xs [0..<n] = map f [0..<n] @ drop n xs"
proof (induction n)
  case 0
  then show ?case by simp
next
  case (Suc n)
  then have "drop n xs = xs ! n # drop (Suc n) xs"
    by (simp add: Cons_nth_drop_Suc)
  with Suc show ?case by (simp add: list_update_append)
qed

lemma drop_eq_ConsD: "drop n xs = y # ys \<Longrightarrow> n < length xs \<and> xs ! n = y \<and> drop (Suc n) xs = ys"
  by (metis drop_all leI list.distinct(1) Cons_nth_drop_Suc list.inject)

lemma map_update_same: "f y = f (xs ! i) \<Longrightarrow> map f (xs[i := y]) = map f xs"
  by (cases "i < length xs") (simp_all add: map_update list_update_beyond, metis list_update_id nth_map)

definition overwrite :: "'a list \<Rightarrow> 'a list \<Rightarrow> 'a list" where
  "overwrite xs ys = take (length xs) (ys @ drop (length ys) xs)"

lemma length_overwrite [simp]: "length (overwrite xs ys) = length xs"
  by (simp add: overwrite_def)

section \<open>Words\<close>

lemma unat_word8_lt [simp]: "unat (x :: BYTE) < 256"
  using unsigned_less [of x] by simp

lemma unat_word16_lt [simp]: "unat (x :: WORD) < 65536"
  using unsigned_less [of x] by simp

lemma unat_word32_lt [simp]: "unat (x :: DWORD) < 4294967296"
  using unsigned_less [of x] by simp

lemma unat_ucast_up [simp]:
  "unat (ucast (x :: WORD) :: DWORD) = unat x"
  "unat (ucast (y :: BYTE) :: DWORD) = unat y"
  "unat (ucast (y :: BYTE) :: WORD) = unat y"
proof -
  have "unat x < 2 ^ 32" using unat_word16_lt [of x] by (rule less_trans) simp
  then show "unat (ucast x :: DWORD) = unat x" by (simp add: unsigned_ucast_eq take_bit_nat_eq_self)
  have "unat y < 2 ^ 32" using unat_word8_lt [of y] by (rule less_trans) simp
  then show "unat (ucast y :: DWORD) = unat y" by (simp add: unsigned_ucast_eq take_bit_nat_eq_self)
  have "unat y < 2 ^ 16" using unat_word8_lt [of y] by (rule less_trans) simp
  then show "unat (ucast y :: WORD) = unat y" by (simp add: unsigned_ucast_eq take_bit_nat_eq_self)
qed

lemma unat_ucast_down [simp]:
  "unat (ucast (x :: DWORD) :: WORD) = unat x mod 65536"
  "unat (ucast (x :: DWORD) :: BYTE) = unat x mod 256"
  "unat (ucast (z :: WORD) :: BYTE) = unat z mod 256"
  by (simp_all add: unsigned_ucast_eq take_bit_eq_mod)

lemma unat_and_mask:
  "unat ((x :: 'a::len word) AND mask n) = unat x mod 2 ^ n"
  by (metis take_bit_eq_mask take_bit_eq_mod unsigned_take_bit_eq)

lemma and_63_mod: "unat ((x :: BYTE) AND 0x3f) = unat x mod 64"
proof -
  have "(0x3f :: BYTE) = mask 6" by (simp add: mask_eq_exp_minus_1)
  then have "unat (x AND 0x3f) = unat x mod 2 ^ 6" by (simp only: unat_and_mask)
  then show ?thesis by simp
qed

lemma unat_Suc_8: "unat (x :: BYTE) < 255 \<Longrightarrow> unat (x + 1) = Suc (unat x)"
  by (simp add: unat_word_ariths)

lemma unat_pred: "(x :: 'a::len word) \<noteq> 0 \<Longrightarrow> unat (x - 1) = unat x - 1"
  by (simp add: unat_minus_one)

lemma or_other_bits: "m AND t = 0 \<Longrightarrow> (x OR m) AND t = x AND (t :: 'a::len word)"
  by (simp add: bit.conj_disj_distrib2)

lemma and_not_other_bits: "m AND t = 0 \<Longrightarrow> (x AND NOT m) AND t = x AND (t :: 'a::len word)"
  by (rule bit_word_eqI) (auto simp: bit_eq_iff bit_simps)

section \<open>Big-endian numbers\<close>

definition be16 :: "BYTE \<Rightarrow> BYTE \<Rightarrow> WORD" where
  "be16 hi lo = push_bit 8 (ucast hi) OR ucast lo"

definition be32 :: "BYTE \<Rightarrow> BYTE \<Rightarrow> BYTE \<Rightarrow> BYTE \<Rightarrow> DWORD" where
  "be32 a b c d = push_bit 24 (ucast a) OR push_bit 16 (ucast b) OR push_bit 8 (ucast c) OR ucast d"

definition be32_bytes :: "DWORD \<Rightarrow> BYTE list" where
  "be32_bytes w = [ucast (drop_bit 24 w), ucast (drop_bit 16 w), ucast (drop_bit 8 w), ucast w]"

definition be16_bytes :: "WORD \<Rightarrow> BYTE list" where
  "be16_bytes w = [ucast (drop_bit 8 w), ucast w]"

lemma be16_bytes_be16: "be16 (ucast (drop_bit 8 x)) (ucast x) = x"
proof (rule bit_word_eqI)
  fix n
  assume "n < LENGTH(16)"
  then consider "8 \<le> n" "n < 16" | "n < 8" by fastforce
  then show "bit (be16 (ucast (drop_bit 8 x)) (ucast x)) n = bit x n"
    by cases (simp_all add: be16_def bit_simps less_diff_conv2)
qed

section \<open>Memory\<close>

fun mem_put :: "ram \<Rightarrow> DWORD \<Rightarrow> BYTE list \<Rightarrow> ram" where
  "mem_put m a [] = m"
| "mem_put m a (b # bs) = mem_put (m(a := b)) (a + 1) bs"

definition mem_get :: "ram \<Rightarrow> DWORD \<Rightarrow> nat \<Rightarrow> BYTE list" where
  "mem_get m a n = map (\<lambda>i. m (a + of_nat i)) [0..<n]"

definition rd16 :: "ram \<Rightarrow> DWORD \<Rightarrow> WORD" where
  "rd16 m a = be16 (m a) (m (a + 1))"

definition rd32 :: "ram \<Rightarrow> DWORD \<Rightarrow> DWORD" where
  "rd32 m a = be32 (m a) (m (a + 1)) (m (a + 2)) (m (a + 3))"

lemma length_mem_get [simp]: "length (mem_get m a n) = n"
  by (simp add: mem_get_def)

lemma mem_get_0 [simp]: "mem_get m a 0 = []"
  by (simp add: mem_get_def)

end
