(* ===== verification/CircBuf.thy ===== *)
theory CircBuf
  imports Prelude
begin

text \<open>
  The 64-byte circular buffers of the floppy firmware (\<open>TCircBuffer\<close> of src/ce_franz_fw/defs.h,
  \<open>circularInit\<close>, \<open>cicrularAdd\<close> and \<open>cicrularGet\<close> of src/ce_franz_fw/main.c) and the interface
  under which the interrupt handlers use them: a bounded first-in first-out queue of bytes.
\<close>

section \<open>The interface: a bounded queue\<close>

text \<open>
  What a client may rely on. \<open>items\<close> is the queue's content, oldest first; \<open>add\<close> drops its
  argument when the queue is full; \<open>get\<close> on an empty queue returns \<open>dflt\<close> and changes nothing.
\<close>

locale bounded_queue =
  fixes inv :: "'q \<Rightarrow> bool"
    and items :: "'q \<Rightarrow> 'a list"
    and cap :: nat
    and dflt :: 'a
    and add :: "'q \<Rightarrow> 'a \<Rightarrow> 'q"
    and get :: "'q \<Rightarrow> 'q \<times> 'a"
  assumes inv_add: "inv q \<Longrightarrow> inv (add q x)"
    and inv_get: "inv q \<Longrightarrow> inv (fst (get q))"
    and items_bound: "inv q \<Longrightarrow> length (items q) \<le> cap"
    and items_add: "inv q \<Longrightarrow> items (add q x) = (if length (items q) < cap then items q @ [x] else items q)"
    and items_get: "inv q \<Longrightarrow> items (fst (get q)) = tl (items q)"
    and value_get: "inv q \<Longrightarrow> snd (get q) = (if items q = [] then dflt else hd (items q))"
begin

text \<open>
  A run of the queue: \<open>Some x\<close> is an \<open>add\<close>, \<open>None\<close> a \<open>get\<close>. The run returns the last queue, the
  values accepted and the values delivered by the gets that found something.
\<close>

fun run :: "'q \<Rightarrow> 'a option list \<Rightarrow> 'q \<times> 'a list \<times> 'a list" where
  "run q [] = (q, [], [])"
| "run q (Some x # es) =
     (let (q', acc, del) = run (add q x) es
      in (q', (if length (items q) < cap then x # acc else acc), del))"
| "run q (None # es) =
     (let (q', acc, del) = run (fst (get q)) es
      in (q', acc, (if items q = [] then del else snd (get q) # del)))"

lemma run_inv: "inv q \<Longrightarrow> inv (fst (run q es))"
  by (induction q es rule: run.induct) (auto simp: Let_def inv_add inv_get split: prod.splits)

text \<open>Nothing accepted is lost, duplicated or reordered.\<close>

lemma run_fifo:
  assumes "inv q" and "run q es = (q', acc, del)"
  shows "items q @ acc = del @ items q'"
  using assms
proof (induction q es arbitrary: q' acc del rule: run.induct)
  case (1 q)
  then show ?case by simp
next
  case (2 q x es)
  obtain q1 a d where r: "run (add q x) es = (q1, a, d)"
    by (cases "run (add q x) es") auto
  from 2 r have "items (add q x) @ a = d @ items q1"
    by (auto intro: inv_add)
  with 2 r show ?case by (auto simp: items_add split: if_splits)
next
  case (3 q es)
  obtain q1 a d where r: "run (fst (get q)) es = (q1, a, d)"
    by (cases "run (fst (get q)) es") auto
  from 3 r have "tl (items q) @ a = d @ items q1"
    using items_get [of q] by (auto dest: inv_get)
  with 3 r show ?case
    by (cases "items q") (auto simp: value_get)
qed

text \<open>Taking the oldest element and sending it keeps the sequence sent-then-waiting.\<close>

lemma pull_send:
  assumes "inv q" and "items q \<noteq> []"
  shows "snd (get q) # items (fst (get q)) = items q"
  using assms by (simp add: items_get value_get)

lemma length_add:
  assumes "inv q"
  shows "length (items (add q x)) \<le> Suc (length (items q))"
  using assms by (simp add: items_add)

end

section \<open>The circular buffer of the floppy firmware\<close>

abbreviation (input) CIRCBUFFER_SIZE :: nat where "CIRCBUFFER_SIZE \<equiv> 64"
abbreviation (input) CIRCBUFFER_POSMASK :: BYTE where "CIRCBUFFER_POSMASK \<equiv> 0x3f"

record TCircBuffer =
  cb_addPos :: BYTE
  cb_getPos :: BYTE
  cb_count :: BYTE
  cb_data :: "BYTE list"

definition circularInit :: "TCircBuffer \<Rightarrow> TCircBuffer" where
  "circularInit cb =
     cb\<lparr>cb_addPos := 0, cb_getPos := 0, cb_count := 0,
        cb_data := foldl (\<lambda>d i. d[i := 0]) (cb_data cb) [0..<CIRCBUFFER_SIZE]\<rparr>"

definition cicrularAdd :: "TCircBuffer \<Rightarrow> BYTE \<Rightarrow> TCircBuffer" where
  "cicrularAdd cb val =
     (if unat (cb_count cb) \<ge> CIRCBUFFER_SIZE then cb
      else cb\<lparr>cb_count := cb_count cb + 1,
              cb_data := (cb_data cb)[unat (cb_addPos cb) := val],
              cb_addPos := (cb_addPos cb + 1) AND CIRCBUFFER_POSMASK\<rparr>)"

definition cicrularGet :: "TCircBuffer \<Rightarrow> TCircBuffer \<times> BYTE" where
  "cicrularGet cb =
     (if cb_count cb = 0 then (cb, 0)
      else (cb\<lparr>cb_count := cb_count cb - 1,
               cb_getPos := (cb_getPos cb + 1) AND CIRCBUFFER_POSMASK\<rparr>,
            cb_data cb ! unat (cb_getPos cb)))"

definition cb_inv :: "TCircBuffer \<Rightarrow> bool" where
  "cb_inv cb \<longleftrightarrow>
     length (cb_data cb) = CIRCBUFFER_SIZE \<and>
     unat (cb_getPos cb) < CIRCBUFFER_SIZE \<and>
     unat (cb_count cb) \<le> CIRCBUFFER_SIZE \<and>
     unat (cb_addPos cb) = (unat (cb_getPos cb) + unat (cb_count cb)) mod CIRCBUFFER_SIZE"

definition cb_items :: "TCircBuffer \<Rightarrow> BYTE list" where
  "cb_items cb =
     map (\<lambda>i. cb_data cb ! ((unat (cb_getPos cb) + i) mod CIRCBUFFER_SIZE)) [0..<unat (cb_count cb)]"

lemma length_cb_items: "length (cb_items cb) = unat (cb_count cb)"
  by (simp add: cb_items_def)

lemma cb_items_Nil_iff: "cb_items cb = [] \<longleftrightarrow> cb_count cb = 0"
  by (simp add: cb_items_def unat_eq_0)

lemma cb_inv_init:
  "length (cb_data cb) = CIRCBUFFER_SIZE \<Longrightarrow> cb_inv (circularInit cb) \<and> cb_items (circularInit cb) = []"
  by (simp add: cb_inv_def circularInit_def cb_items_def length_foldl_update [where f = "\<lambda>_. 0"])

lemma unat_inc_mask: "unat (p :: BYTE) < 64 \<Longrightarrow> unat ((p + 1) AND 0x3f) = (unat p + 1) mod 64"
  by (simp only: and_63_mod unat_Suc_8 Suc_eq_plus1)

lemma cb_inv_add: "cb_inv cb \<Longrightarrow> cb_inv (cicrularAdd cb v)"
  by (auto simp: cb_inv_def cicrularAdd_def unat_inc_mask unat_Suc_8 mod_Suc_eq)

lemma cb_inv_get:
  assumes "cb_inv cb"
  shows "cb_inv (fst (cicrularGet cb))"
proof (cases "cb_count cb = 0")
  case True
  with assms show ?thesis by (simp add: cicrularGet_def)
next
  case False
  then obtain m where m: "unat (cb_count cb) = Suc m"
    by (metis not0_implies_Suc unat_eq_0)
  have "(Suc g mod 64 + m) mod 64 = Suc (g + m) mod 64" for g :: nat
    by (metis add_Suc mod_add_left_eq)
  with assms False m show ?thesis
    by (auto simp: cb_inv_def cicrularGet_def unat_inc_mask unat_pred)
qed

lemma mod_ring_neq:
  fixes i n g :: nat
  assumes "i < n" and "n < 64"
  shows "(g + i) mod 64 \<noteq> (g + n) mod 64"
proof
  assume "(g + i) mod 64 = (g + n) mod 64"
  then have "64 dvd (g + n) - (g + i)"
    using mod_eq_dvd_iff_nat [of "g + i" "g + n" 64] assms by simp
  with assms show False by (auto dest: dvd_imp_le)
qed

lemma cb_items_add:
  assumes "cb_inv cb"
  shows "cb_items (cicrularAdd cb v) = (if length (cb_items cb) < CIRCBUFFER_SIZE then cb_items cb @ [v] else cb_items cb)"
proof (cases "unat (cb_count cb) < CIRCBUFFER_SIZE")
  case True
  let ?n = "unat (cb_count cb)" and ?g = "unat (cb_getPos cb)"
  from True have c: "unat (cb_count cb + 1) = Suc ?n" by (simp add: unat_Suc_8)
  from assms have a: "unat (cb_addPos cb) = (?g + ?n) mod 64" and l: "length (cb_data cb) = 64"
    by (simp_all add: cb_inv_def)
  have keep: "(cb_data cb)[(?g + ?n) mod 64 := v] ! ((?g + i) mod 64) = cb_data cb ! ((?g + i) mod 64)"
    if "i < ?n" for i
    using mod_ring_neq [OF that True, of ?g] by simp
  from True show ?thesis
    by (auto simp: length_cb_items cb_items_def cicrularAdd_def c a l keep)
next
  case False
  then show ?thesis by (simp add: length_cb_items cicrularAdd_def)
qed

lemma cb_items_get:
  assumes "cb_inv cb"
  shows "cb_items (fst (cicrularGet cb)) = tl (cb_items cb)"
proof (cases "cb_count cb = 0")
  case True
  then show ?thesis by (simp add: cicrularGet_def cb_items_def)
next
  case False
  then obtain m where m: "unat (cb_count cb) = Suc m"
    by (metis not0_implies_Suc unat_eq_0)
  from assms have g: "unat (cb_getPos cb) < 64" by (simp add: cb_inv_def)
  have "(((unat (cb_getPos cb) + 1) mod 64) + i) mod 64 = (unat (cb_getPos cb) + Suc i) mod 64" for i
    by (simp add: mod_add_left_eq)
  with False m g show ?thesis
    by (simp add: cicrularGet_def cb_items_def unat_inc_mask unat_pred upt_rec [of 0 "Suc m"]
        map_Suc_upt [symmetric] del: upt_Suc)
qed

lemma cb_value_get:
  assumes "cb_inv cb"
  shows "snd (cicrularGet cb) = (if cb_items cb = [] then 0 else hd (cb_items cb))"
proof (cases "cb_count cb = 0")
  case True
  then show ?thesis by (simp add: cicrularGet_def cb_items_def)
next
  case False
  with assms show ?thesis
    by (simp add: cicrularGet_def cb_items_Nil_iff cb_inv_def) (simp add: cb_items_def hd_map hd_upt unat_gt_0)
qed

interpretation cb: bounded_queue cb_inv cb_items CIRCBUFFER_SIZE 0 cicrularAdd cicrularGet
proof unfold_locales
  show "cb_inv q \<Longrightarrow> length (cb_items q) \<le> CIRCBUFFER_SIZE" for q
    by (simp add: cb_inv_def length_cb_items)
qed (simp_all add: cb_inv_add cb_inv_get cb_items_add cb_items_get cb_value_get)

end
