(* ===== verification/FranzUart.thy ===== *)
theory FranzUart
  imports CircBuf
begin

text \<open>
  The serial multiplexer of the floppy firmware: the three USART interrupt handlers of
  src/ce_franz_fw/main.c, which pass bytes between the Raspberry Pi (USART1), the ST's IKBD port
  (USART2) and the original keyboard (USART3) through \<open>buff0\<close> and \<open>buff1\<close>. Bytes for the Raspberry
  Pi travel as pairs of a source mark and the byte.

  The registers a handler reads are its input (\<open>usart_regs\<close>); what it writes to the data registers
  is appended to \<open>tx1\<close> and \<open>tx2\<close>, oldest first.
\<close>

section \<open>State and handlers\<close>

abbreviation (input) USART_FLAG_TXE :: WORD where "USART_FLAG_TXE \<equiv> 0x0080"
abbreviation (input) USART_FLAG_RXNE :: WORD where "USART_FLAG_RXNE \<equiv> 0x0020"
abbreviation (input) UARTMARK_STCMD :: BYTE where "UARTMARK_STCMD \<equiv> 0xAA"
abbreviation (input) UARTMARK_KEYBDATA :: BYTE where "UARTMARK_KEYBDATA \<equiv> 0xBB"

record usart_regs =
  sr1 :: WORD
  sr2 :: WORD
  sr3 :: WORD
  dr1 :: BYTE
  dr2 :: BYTE
  dr3 :: BYTE

record uart =
  buff0 :: TCircBuffer
  buff1 :: TCircBuffer
  hostIsUp :: bool
  usart1_cr1 :: WORD
  usart2_cr1 :: WORD
  tx1 :: "BYTE list"
  tx2 :: "BYTE list"

definition can_tx :: "WORD \<Rightarrow> bool" where
  "can_tx sr \<longleftrightarrow> sr AND USART_FLAG_TXE \<noteq> 0"

definition received :: "WORD \<Rightarrow> bool" where
  "received sr \<longleftrightarrow> sr AND USART_FLAG_RXNE \<noteq> 0"

definition to_ikbd :: "BYTE \<Rightarrow> usart_regs \<Rightarrow> uart \<Rightarrow> uart" where
  "to_ikbd val r u =
     (if cb_count (buff0 u) > 0 \<or> \<not> can_tx (sr2 r)
      then u\<lparr>buff0 := cicrularAdd (buff0 u) val, usart2_cr1 := usart2_cr1 u OR USART_FLAG_TXE\<rparr>
      else u\<lparr>tx2 := tx2 u @ [val]\<rparr>)"

definition usart1_tx :: "usart_regs \<Rightarrow> uart \<Rightarrow> uart" where
  "usart1_tx r u =
     (if can_tx (sr1 r) then
        if cb_count (buff1 u) > 0 then
          let (b, val) = cicrularGet (buff1 u) in u\<lparr>buff1 := b, tx1 := tx1 u @ [val]\<rparr>
        else u\<lparr>usart1_cr1 := usart1_cr1 u AND NOT USART_FLAG_TXE\<rparr>
      else u)"

definition USART1_IRQHandler :: "usart_regs \<Rightarrow> uart \<Rightarrow> uart" where
  "USART1_IRQHandler r u = usart1_tx r (if received (sr1 r) then to_ikbd (dr1 r) r u else u)"

definition send_mark :: "BYTE \<Rightarrow> usart_regs \<Rightarrow> uart \<Rightarrow> uart" where
  "send_mark mark r u =
     (if cb_count (buff1 u) > 0 \<or> \<not> can_tx (sr1 r)
      then u\<lparr>buff1 := cicrularAdd (buff1 u) mark\<rparr>
      else u\<lparr>tx1 := tx1 u @ [mark]\<rparr>)"

definition queue_for_rpi :: "BYTE \<Rightarrow> BYTE \<Rightarrow> usart_regs \<Rightarrow> uart \<Rightarrow> uart" where
  "queue_for_rpi mark val r u0 =
     (let u = send_mark mark r u0
      in u\<lparr>buff1 := cicrularAdd (buff1 u) val, usart1_cr1 := usart1_cr1 u OR USART_FLAG_TXE\<rparr>)"

definition usart2_tx :: "usart_regs \<Rightarrow> uart \<Rightarrow> uart" where
  "usart2_tx r u =
     (if can_tx (sr2 r) then
        if cb_count (buff0 u) > 0 then
          let (b, val) = cicrularGet (buff0 u) in u\<lparr>buff0 := b, tx2 := tx2 u @ [val]\<rparr>
        else u\<lparr>usart2_cr1 := usart2_cr1 u AND NOT USART_FLAG_TXE\<rparr>
      else u)"

definition USART2_IRQHandler :: "usart_regs \<Rightarrow> uart \<Rightarrow> uart" where
  "USART2_IRQHandler r u =
     usart2_tx r
       (if received (sr2 r) then
          if hostIsUp u then queue_for_rpi UARTMARK_STCMD (dr2 r) r u else u
        else u)"

definition USART3_IRQHandler :: "usart_regs \<Rightarrow> uart \<Rightarrow> uart" where
  "USART3_IRQHandler r u =
     (if received (sr3 r) then
        if hostIsUp u then queue_for_rpi UARTMARK_KEYBDATA (dr3 r) r u
        else to_ikbd (dr3 r) r u
      else u)"

section \<open>Streams\<close>

text \<open>
  What has been sent and what still waits, as one stream per direction: no handler may take a byte
  out of it or change its order.
\<close>

definition uart_inv :: "uart \<Rightarrow> bool" where
  "uart_inv u \<longleftrightarrow> cb_inv (buff0 u) \<and> cb_inv (buff1 u)"

definition rpi_stream :: "uart \<Rightarrow> BYTE list" where
  "rpi_stream u = tx1 u @ cb_items (buff1 u)"

definition ikbd_stream :: "uart \<Rightarrow> BYTE list" where
  "ikbd_stream u = tx2 u @ cb_items (buff0 u)"

datatype uart_event =
    IRQ1 usart_regs
  | IRQ2 usart_regs
  | IRQ3 usart_regs
  | Host bool \<comment> \<open>\<open>spiDma_txRx\<close> sets or clears \<open>hostIsUp\<close>\<close>

fun uart_step :: "uart \<Rightarrow> uart_event \<Rightarrow> uart" where
  "uart_step u (IRQ1 r) = USART1_IRQHandler r u"
| "uart_step u (IRQ2 r) = USART2_IRQHandler r u"
| "uart_step u (IRQ3 r) = USART3_IRQHandler r u"
| "uart_step u (Host b) = u\<lparr>hostIsUp := b\<rparr>"

definition uart_run :: "uart \<Rightarrow> uart_event list \<Rightarrow> uart" where
  "uart_run u es = foldl uart_step u es"

text \<open>The bytes an event is meant to append to each stream.\<close>

fun rpi_frame :: "uart \<Rightarrow> uart_event \<Rightarrow> BYTE list" where
  "rpi_frame u (IRQ2 r) = (if received (sr2 r) \<and> hostIsUp u then [UARTMARK_STCMD, dr2 r] else [])"
| "rpi_frame u (IRQ3 r) = (if received (sr3 r) \<and> hostIsUp u then [UARTMARK_KEYBDATA, dr3 r] else [])"
| "rpi_frame u _ = []"

fun ikbd_bytes :: "uart \<Rightarrow> uart_event \<Rightarrow> BYTE list" where
  "ikbd_bytes u (IRQ1 r) = (if received (sr1 r) then [dr1 r] else [])"
| "ikbd_bytes u (IRQ3 r) = (if received (sr3 r) \<and> \<not> hostIsUp u then [dr3 r] else [])"
| "ikbd_bytes u _ = []"

text \<open>Room for everything the event wants to store.\<close>

definition roomy :: "uart \<Rightarrow> uart_event \<Rightarrow> bool" where
  "roomy u e \<longleftrightarrow>
     length (cb_items (buff1 u)) + length (rpi_frame u e) \<le> CIRCBUFFER_SIZE \<and>
     length (cb_items (buff0 u)) + length (ikbd_bytes u e) \<le> CIRCBUFFER_SIZE"

fun roomy_run :: "uart \<Rightarrow> uart_event list \<Rightarrow> bool" where
  "roomy_run u [] = True"
| "roomy_run u (e # es) = (roomy u e \<and> roomy_run (uart_step u e) es)"

fun rpi_frames :: "uart \<Rightarrow> uart_event list \<Rightarrow> BYTE list" where
  "rpi_frames u [] = []"
| "rpi_frames u (e # es) = rpi_frame u e @ rpi_frames (uart_step u e) es"

fun ikbd_all :: "uart \<Rightarrow> uart_event list \<Rightarrow> BYTE list" where
  "ikbd_all u [] = []"
| "ikbd_all u (e # es) = ikbd_bytes u e @ ikbd_all (uart_step u e) es"

section \<open>One handler\<close>

lemma uart_inv_frame [simp]:
  "uart_inv (u\<lparr>hostIsUp := b\<rparr>) = uart_inv u"
  "uart_inv (u\<lparr>tx1 := x\<rparr>) = uart_inv u"
  "uart_inv (u\<lparr>tx2 := x\<rparr>) = uart_inv u"
  "uart_inv (u\<lparr>usart1_cr1 := c\<rparr>) = uart_inv u"
  "uart_inv (u\<lparr>usart2_cr1 := c\<rparr>) = uart_inv u"
  by (simp_all add: uart_inv_def)

lemma uart_inv_buffers [simp]:
  "uart_inv u \<Longrightarrow> uart_inv (u\<lparr>buff0 := cicrularAdd (buff0 u) v\<rparr>)"
  "uart_inv u \<Longrightarrow> uart_inv (u\<lparr>buff1 := cicrularAdd (buff1 u) v\<rparr>)"
  "uart_inv u \<Longrightarrow> uart_inv (u\<lparr>buff0 := fst (cicrularGet (buff0 u))\<rparr>)"
  "uart_inv u \<Longrightarrow> uart_inv (u\<lparr>buff1 := fst (cicrularGet (buff1 u))\<rparr>)"
  by (simp_all add: uart_inv_def cb.inv_add cb.inv_get)

lemmas uart_parts = to_ikbd_def send_mark_def queue_for_rpi_def usart1_tx_def usart2_tx_def Let_def case_prod_beta

lemma uart_inv_parts [simp]:
  "uart_inv u \<Longrightarrow> uart_inv (to_ikbd v r u)"
  "uart_inv u \<Longrightarrow> uart_inv (queue_for_rpi m v r u)"
  "uart_inv u \<Longrightarrow> uart_inv (usart1_tx r u)"
  "uart_inv u \<Longrightarrow> uart_inv (usart2_tx r u)"
  by (simp_all add: uart_inv_def uart_parts cb.inv_add cb.inv_get)

lemma uart_inv_step: "uart_inv u \<Longrightarrow> uart_inv (uart_step u e)"
  by (cases e)
    (simp_all add: USART1_IRQHandler_def USART2_IRQHandler_def USART3_IRQHandler_def)

lemma count_pos_items: "cb_count cb > 0 \<longleftrightarrow> cb_items cb \<noteq> []"
  by (simp add: cb_items_Nil_iff word_gt_0)

lemma tx_streams:
  assumes "uart_inv u"
  shows "rpi_stream (usart1_tx r u) = rpi_stream u" "ikbd_stream (usart1_tx r u) = ikbd_stream u"
    "rpi_stream (usart2_tx r u) = rpi_stream u" "ikbd_stream (usart2_tx r u) = ikbd_stream u"
  using assms
  by (simp_all add: usart1_tx_def usart2_tx_def rpi_stream_def ikbd_stream_def uart_inv_def case_prod_beta
      count_pos_items cb.pull_send)

lemma to_ikbd_streams:
  assumes "uart_inv u"
  shows "rpi_stream (to_ikbd v r u) = rpi_stream u"
    and "length (cb_items (buff0 u)) < CIRCBUFFER_SIZE \<Longrightarrow> ikbd_stream (to_ikbd v r u) = ikbd_stream u @ [v]"
  using assms
  by (auto simp: to_ikbd_def rpi_stream_def ikbd_stream_def uart_inv_def count_pos_items cb.items_add)

lemma send_mark_stream:
  assumes "uart_inv u" and "length (cb_items (buff1 u)) < CIRCBUFFER_SIZE"
  shows "rpi_stream (send_mark m r u) = rpi_stream u @ [m]"
    and "length (cb_items (buff1 (send_mark m r u))) \<le> Suc (length (cb_items (buff1 u)))"
  using assms
  by (auto simp: send_mark_def rpi_stream_def uart_inv_def count_pos_items cb.items_add cb.length_add)

lemma queue_for_rpi_streams:
  assumes "uart_inv u"
  shows "ikbd_stream (queue_for_rpi m v r u) = ikbd_stream u"
    and "length (cb_items (buff1 u)) + 2 \<le> CIRCBUFFER_SIZE \<Longrightarrow>
      rpi_stream (queue_for_rpi m v r u) = rpi_stream u @ [m, v]"
proof -
  show "ikbd_stream (queue_for_rpi m v r u) = ikbd_stream u"
    by (simp add: queue_for_rpi_def send_mark_def ikbd_stream_def Let_def)
  assume room: "length (cb_items (buff1 u)) + 2 \<le> CIRCBUFFER_SIZE"
  let ?u = "send_mark m r u"
  from assms have "cb_inv (buff1 ?u)"
    by (simp add: send_mark_def uart_inv_def cb.inv_add)
  moreover have "length (cb_items (buff1 ?u)) < CIRCBUFFER_SIZE"
    using send_mark_stream(2) [OF assms, of m r] room by simp
  ultimately have "rpi_stream (queue_for_rpi m v r u) = rpi_stream ?u @ [v]"
    by (simp add: queue_for_rpi_def rpi_stream_def Let_def cb.items_add)
  also have "rpi_stream ?u = rpi_stream u @ [m]"
    using assms room by (simp add: send_mark_stream(1))
  finally show "rpi_stream (queue_for_rpi m v r u) = rpi_stream u @ [m, v]" by simp
qed

lemma uart_step_streams:
  assumes "uart_inv u" and "roomy u e"
  shows "rpi_stream (uart_step u e) = rpi_stream u @ rpi_frame u e"
    and "ikbd_stream (uart_step u e) = ikbd_stream u @ ikbd_bytes u e"
proof -
  from assms have "rpi_stream (uart_step u e) = rpi_stream u @ rpi_frame u e \<and>
      ikbd_stream (uart_step u e) = ikbd_stream u @ ikbd_bytes u e"
  proof (cases e)
    case (IRQ1 r)
    with assms show ?thesis
      by (cases "received (sr1 r)") (simp_all add: USART1_IRQHandler_def roomy_def tx_streams to_ikbd_streams)
  next
    case (IRQ2 r)
    with assms show ?thesis
      by (cases "received (sr2 r)"; cases "hostIsUp u")
        (simp_all add: USART2_IRQHandler_def roomy_def tx_streams queue_for_rpi_streams)
  next
    case (IRQ3 r)
    with assms show ?thesis
      by (cases "received (sr3 r)"; cases "hostIsUp u")
        (simp_all add: USART3_IRQHandler_def roomy_def to_ikbd_streams queue_for_rpi_streams)
  next
    case (Host b)
    then show ?thesis by (simp add: rpi_stream_def ikbd_stream_def)
  qed
  then show "rpi_stream (uart_step u e) = rpi_stream u @ rpi_frame u e"
    and "ikbd_stream (uart_step u e) = ikbd_stream u @ ikbd_bytes u e"
    by simp_all
qed

section \<open>Runs\<close>

lemma uart_run_simps [simp]:
  "uart_run u [] = u"
  "uart_run u (e # es) = uart_run (uart_step u e) es"
  by (simp_all add: uart_run_def)

lemma uart_run_inv: "uart_inv u \<Longrightarrow> uart_inv (uart_run u es)"
  by (induction es arbitrary: u) (simp_all add: uart_inv_step)

definition uart_reset :: "uart \<Rightarrow> uart" where
  "uart_reset u = u\<lparr>buff0 := circularInit (buff0 u), buff1 := circularInit (buff1 u)\<rparr>"

text \<open>
  C25: in any run of the three interrupt handlers that never meets a full buffer, every byte received
  while the Raspberry Pi is up leaves for it right after its source mark, in order of arrival; every
  byte meant for the IKBD leaves in order; nothing is lost, duplicated or reordered in between.
\<close>

theorem uart_streams_in_order:
  assumes "uart_inv u" and "roomy_run u es"
  shows "rpi_stream (uart_run u es) = rpi_stream u @ rpi_frames u es \<and>
         ikbd_stream (uart_run u es) = ikbd_stream u @ ikbd_all u es"
  using assms
proof (induction es arbitrary: u)
  case Nil
  then show ?case by simp
next
  case (Cons e es)
  from Cons.prems have "uart_inv (uart_step u e)" by (simp add: uart_inv_step)
  with Cons show ?case by (simp add: uart_step_streams)
qed

definition uart0 :: uart where
  "uart0 = uart_reset \<lparr>buff0 = \<lparr>cb_addPos = 0, cb_getPos = 0, cb_count = 0, cb_data = replicate 64 7\<rparr>,
     buff1 = \<lparr>cb_addPos = 5, cb_getPos = 0, cb_count = 5, cb_data = replicate 64 9\<rparr>,
     hostIsUp = True, usart1_cr1 = 0, usart2_cr1 = 0, tx1 = [], tx2 = []\<rparr>"

definition regs0 :: usart_regs where
  "regs0 = \<lparr>sr1 = 0x20, sr2 = 0xA0, sr3 = 0x20, dr1 = 1, dr2 = 2, dr3 = 3\<rparr>"

lemma uart0_inv: "uart_inv uart0"
  by (simp add: uart0_def uart_reset_def uart_inv_def cb_inv_init)

theorem uart_streams_in_order_witness:
  "rpi_stream (uart_run uart0 [IRQ3 regs0, IRQ1 regs0, IRQ2 regs0]) = [0xBB, 3, 0xAA, 2] \<and>
   ikbd_stream (uart_run uart0 [IRQ3 regs0, IRQ1 regs0, IRQ2 regs0]) = [1]"
proof -
  let ?es = "[IRQ3 regs0, IRQ1 regs0, IRQ2 regs0]"
  have room: "roomy_run uart0 ?es" by code_simp
  have "rpi_stream uart0 @ rpi_frames uart0 ?es = [0xBB, 3, 0xAA, 2]"
    and "ikbd_stream uart0 @ ikbd_all uart0 ?es = [1]"
    by code_simp+
  with uart_streams_in_order [OF uart0_inv room] show ?thesis by simp
qed

text \<open>
  The mark and its byte are stored one after the other without a common check, so when exactly
  one place is left the mark goes out without its byte, and the Raspberry Pi takes the next mark for
  the data of this one.
\<close>

lemma uart_full_breaks_pair:
  assumes "uart_inv u" and "hostIsUp u" and "received (sr2 r)"
    and "length (cb_items (buff1 u)) = 63"
  shows "rpi_stream (USART2_IRQHandler r u) = rpi_stream u @ [UARTMARK_STCMD]"
proof -
  let ?u = "send_mark UARTMARK_STCMD r u"
  from assms have ne: "cb_items (buff1 u) \<noteq> []" by auto
  from assms ne have full: "cb_items (buff1 ?u) = cb_items (buff1 u) @ [UARTMARK_STCMD]" and i: "cb_inv (buff1 ?u)"
    by (simp_all add: send_mark_def count_pos_items uart_inv_def cb.items_add cb.inv_add)
  from full assms have "length (cb_items (buff1 ?u)) = 64" by simp
  with i have "cb_items (cicrularAdd (buff1 ?u) (dr2 r)) = cb_items (buff1 ?u)"
    by (simp add: cb.items_add)
  then have "rpi_stream (queue_for_rpi UARTMARK_STCMD (dr2 r) r u) = rpi_stream ?u"
    by (simp add: queue_for_rpi_def rpi_stream_def Let_def)
  also have "\<dots> = rpi_stream u @ [UARTMARK_STCMD]"
    using assms by (simp add: send_mark_stream(1))
  finally show ?thesis
    using assms by (simp add: USART2_IRQHandler_def tx_streams)
qed

definition uart63 :: uart where
  "uart63 = uart0\<lparr>buff1 := \<lparr>cb_addPos = 63, cb_getPos = 0, cb_count = 63, cb_data = replicate 64 0\<rparr>\<rparr>"

theorem uart_full_breaks_pair_witness:
  "rpi_stream (USART2_IRQHandler regs0 uart63) = replicate 63 0 @ [UARTMARK_STCMD]"
proof -
  have i: "uart_inv uart63" "hostIsUp uart63" "received (sr2 regs0)" "length (cb_items (buff1 uart63)) = 63"
    by code_simp+
  have "rpi_stream uart63 = replicate 63 0" by code_simp
  with uart_full_breaks_pair [OF i] show ?thesis by simp
qed

end
