(* ===== verification/FranzState.thy ===== *)
theory FranzState
  imports FranzUart
begin

text \<open>
  The state of the floppy firmware (src/ce_franz_fw): the globals of main.c, the two locals of
  \<open>main\<close> that live across iterations and the GPIO registers the code writes. Arrays are lists,
  pointers between the two write buffers are indices. \<open>setupAtnBuffers\<close>, \<open>init_hw_sw\<close> (its software
  part), the pin helpers of floppyhelpers.c and the time-out of timers.c are here too.
\<close>

section \<open>Constants\<close>

abbreviation (input) WRITEBUFFER_SIZE :: nat where "WRITEBUFFER_SIZE \<equiv> 550"
abbreviation (input) READTRACKDATA_SIZE :: nat where "READTRACKDATA_SIZE \<equiv> 15000"

abbreviation (input) ATN_SYNC_WORD :: WORD where "ATN_SYNC_WORD \<equiv> 0xcafe"
abbreviation (input) ATN_FW_VERSION :: WORD where "ATN_FW_VERSION \<equiv> 0x01"
abbreviation (input) ATN_SECTOR_WRITTEN :: WORD where "ATN_SECTOR_WRITTEN \<equiv> 0x03"
abbreviation (input) ATN_SEND_TRACK :: WORD where "ATN_SEND_TRACK \<equiv> 0x04"
abbreviation (input) ATN_SENDFWVERSION_LEN :: WORD where "ATN_SENDFWVERSION_LEN \<equiv> 8"
abbreviation (input) ATN_SENDTRACK_REQ_LEN_TX :: WORD where "ATN_SENDTRACK_REQ_LEN_TX \<equiv> 6"
abbreviation (input) ATN_SENDTRACK_REQ_LEN_RX :: WORD where "ATN_SENDTRACK_REQ_LEN_RX \<equiv> 7500"

abbreviation (input) CMD_WRITE_PROTECT_OFF :: BYTE where "CMD_WRITE_PROTECT_OFF \<equiv> 0x10"
abbreviation (input) CMD_WRITE_PROTECT_ON :: BYTE where "CMD_WRITE_PROTECT_ON \<equiv> 0x20"
abbreviation (input) CMD_DISK_CHANGE_OFF :: BYTE where "CMD_DISK_CHANGE_OFF \<equiv> 0x30"
abbreviation (input) CMD_DISK_CHANGE_ON :: BYTE where "CMD_DISK_CHANGE_ON \<equiv> 0x40"
abbreviation (input) CMD_CURRENT_SECTOR :: BYTE where "CMD_CURRENT_SECTOR \<equiv> 0x50"
abbreviation (input) CMD_GET_FW_VERSION :: BYTE where "CMD_GET_FW_VERSION \<equiv> 0x60"
abbreviation (input) CMD_SET_DRIVE_ID_0 :: BYTE where "CMD_SET_DRIVE_ID_0 \<equiv> 0x70"
abbreviation (input) CMD_SET_DRIVE_ID_1 :: BYTE where "CMD_SET_DRIVE_ID_1 \<equiv> 0x80"
abbreviation (input) CMD_DRIVE_ENABLED :: BYTE where "CMD_DRIVE_ENABLED \<equiv> 0xa0"
abbreviation (input) CMD_DRIVE_DISABLED :: BYTE where "CMD_DRIVE_DISABLED \<equiv> 0xb0"
abbreviation (input) CMD_MARK_READ_BYTE :: BYTE where "CMD_MARK_READ_BYTE \<equiv> 0xF0"
abbreviation (input) CMD_TRACK_STREAM_END_BYTE :: BYTE where "CMD_TRACK_STREAM_END_BYTE \<equiv> 0xF0"

text \<open>Pins of GPIOB.\<close>

abbreviation (input) DIR :: WORD where "DIR \<equiv> 0x0004"
abbreviation (input) SIDE1 :: WORD where "SIDE1 \<equiv> 0x0040"
abbreviation (input) WGATE :: WORD where "WGATE \<equiv> 0x0080"
abbreviation (input) WR_PROTECT :: WORD where "WR_PROTECT \<equiv> 0x0100"
abbreviation (input) DISK_CHANGE :: WORD where "DISK_CHANGE \<equiv> 0x0200"
abbreviation (input) TRACK0 :: WORD where "TRACK0 \<equiv> 0x0400"
abbreviation (input) MOTOR_ENABLE :: WORD where "MOTOR_ENABLE \<equiv> 0x1000"
abbreviation (input) DRIVE_SELECT0 :: WORD where "DRIVE_SELECT0 \<equiv> 0x2000"
abbreviation (input) DRIVE_SELECT1 :: WORD where "DRIVE_SELECT1 \<equiv> 0x4000"
abbreviation (input) ATN :: WORD where "ATN \<equiv> 0x8000"

section \<open>State\<close>

record TDrivePosition =
  dp_track :: BYTE
  dp_side :: BYTE

record SStreamed =
  ss_side :: BYTE
  ss_track :: BYTE
  ss_sector :: BYTE

record TWriteBuffer =
  wb_buffer :: "WORD list"
  wb_count :: WORD
  wb_readyToSend :: bool
  wb_next :: nat

record TOutputFlags =
  stWantsTheStream :: bool
  weAreReceivingTrack :: bool
  updatePosition :: bool
  outputsAreEnabled :: bool

text \<open>Where the running SPI receive DMA stores: the command buffer, the track or the dummy word.\<close>

datatype rx_dest = RxCmd | RxTrack | RxFake

record franz =
  wrBuffer :: "TWriteBuffer list"
  wrNow :: nat
  streamed :: SStreamed
  mfmReadStreamBuffer :: "WORD list"
  mfmWriteStreamBuffer :: "WORD list"
  lastMfmWriteTC :: WORD
  drive_select :: WORD
  sendFwVersion :: bool
  sendTrackRequest :: bool
  atnSendFwVersion :: "WORD list"
  atnSendTrackRequest :: "WORD list"
  cmdBuffer :: "BYTE list"
  readTrackData :: "BYTE list"
  inIndexGet :: nat
  gapIndex :: nat
  spiDmaIsIdle :: bool
  spiDmaTXidle :: bool
  spiDmaRXidle :: bool
  dp_now :: TDrivePosition
  dp_next :: TDrivePosition
  lastRequested :: TDrivePosition
  dp_prev :: TDrivePosition
  lastRequestTime :: WORD
  rpiIsUp :: bool
  driveId :: BYTE
  driveEnabled :: bool
  isDiskChanged :: bool
  isWriteProtected :: bool
  trackStreamedCount :: WORD
  outFlags :: TOutputFlags
  prevStepTime :: WORD
  ATNcodePrev :: WORD
  toStart :: WORD
  cndtr3 :: WORD
  cndtr2 :: WORD
  rxDest :: rx_dest
  spiLog :: "(WORD list \<times> WORD) list"
  gpioB_odr :: WORD
  gpioA_crl :: DWORD
  gpioA_crh :: DWORD
  gpioB_crh :: DWORD
  indexCount :: BYTE
  prevWGate :: WORD

text \<open>\<open>GPIOB->BSRR = m\<close> sets the pins of \<open>m\<close>, \<open>GPIOB->BRR = m\<close> clears them.\<close>

definition bsrr :: "WORD \<Rightarrow> franz \<Rightarrow> franz" where
  "bsrr m f = f\<lparr>gpioB_odr := gpioB_odr f OR m\<rparr>"

definition brr :: "WORD \<Rightarrow> franz \<Rightarrow> franz" where
  "brr m f = f\<lparr>gpioB_odr := gpioB_odr f AND NOT m\<rparr>"

section \<open>Pin helpers (floppyhelpers.c)\<close>

definition FloppyMFMread_Enable :: "franz \<Rightarrow> franz" where
  "FloppyMFMread_Enable f = f\<lparr>gpioA_crh := (gpioA_crh f AND NOT 0x0000000f) OR 0x0000000f\<rparr>"

definition FloppyMFMread_Disable :: "franz \<Rightarrow> franz" where
  "FloppyMFMread_Disable f = f\<lparr>gpioA_crh := (gpioA_crh f AND NOT 0x0000000f) OR 0x00000004\<rparr>"

definition FloppyIndex_Enable :: "franz \<Rightarrow> franz" where
  "FloppyIndex_Enable f = f\<lparr>gpioA_crl := (gpioA_crl f AND NOT 0x000000f0) OR 0x000000b0\<rparr>"

definition FloppyIndex_Disable :: "franz \<Rightarrow> franz" where
  "FloppyIndex_Disable f = f\<lparr>gpioA_crl := (gpioA_crl f AND NOT 0x000000f0) OR 0x00000040\<rparr>"

definition FloppyOut_Enable :: "franz \<Rightarrow> franz" where
  "FloppyOut_Enable f =
     FloppyMFMread_Enable (FloppyIndex_Enable
       (f\<lparr>gpioB_crh := (gpioB_crh f AND NOT 0x00000fff) OR 0x00000777\<rparr>))"

definition FloppyOut_Disable :: "franz \<Rightarrow> franz" where
  "FloppyOut_Disable f =
     FloppyMFMread_Disable (FloppyIndex_Disable
       (f\<lparr>gpioB_crh := (gpioB_crh f AND NOT 0x00000fff) OR 0x00000444\<rparr>))"

section \<open>Time-out (timers.c)\<close>

definition timeoutStart :: "WORD \<Rightarrow> franz \<Rightarrow> franz" where
  "timeoutStart tim4 f = f\<lparr>toStart := tim4\<rparr>"

definition timeout :: "WORD \<Rightarrow> franz \<Rightarrow> bool" where
  "timeout tim4 f \<longleftrightarrow> tim4 - toStart f > 2000"

section \<open>Initialisation\<close>

text \<open>\<open>REQUEST_TRACK\<close> and \<open>FORCE_REQUEST_TRACK\<close>, at time \<open>t\<close> of TIM4.\<close>

definition REQUEST_TRACK :: "WORD \<Rightarrow> franz \<Rightarrow> franz" where
  "REQUEST_TRACK t f =
     f\<lparr>dp_next := dp_now f, sendTrackRequest := True, lastRequestTime := t, trackStreamedCount := 0\<rparr>"

definition FORCE_REQUEST_TRACK :: "WORD \<Rightarrow> franz \<Rightarrow> franz" where
  "FORCE_REQUEST_TRACK t f =
     (let g = REQUEST_TRACK t f
      in g\<lparr>lastRequestTime := lastRequestTime g - 35,
           lastRequested := \<lparr>dp_track = 0xff, dp_side = 0xff\<rparr>\<rparr>)"

definition setupDriveSelect :: "franz \<Rightarrow> franz" where
  "setupDriveSelect f =
     (if \<not> driveEnabled f then f\<lparr>drive_select := 0xffff\<rparr>
      else if driveId f = 0 then f\<lparr>drive_select := MOTOR_ENABLE OR DRIVE_SELECT0\<rparr>
      else f\<lparr>drive_select := MOTOR_ENABLE OR DRIVE_SELECT1\<rparr>)"

definition setupDiskChangeWriteProtect :: "franz \<Rightarrow> franz" where
  "setupDiskChangeWriteProtect f =
     (if isDiskChanged f
      then brr DISK_CHANGE ((if isWriteProtected f then bsrr WR_PROTECT else brr WR_PROTECT) f)
      else bsrr DISK_CHANGE ((if isWriteProtected f then brr WR_PROTECT else bsrr WR_PROTECT) f))"

definition fillReadStreamBufferWithDummyData :: "franz \<Rightarrow> franz" where
  "fillReadStreamBufferWithDummyData f =
     f\<lparr>mfmReadStreamBuffer := foldl (\<lambda>b i. b[i := 7]) (mfmReadStreamBuffer f) [0..<16]\<rparr>"

definition init_wrBuffer :: "nat \<Rightarrow> TWriteBuffer \<Rightarrow> TWriteBuffer" where
  "init_wrBuffer other b =
     b\<lparr>wb_buffer := (foldl (\<lambda>d i. d[i := 0]) (wb_buffer b) [0..<WRITEBUFFER_SIZE])
                       [0 := ATN_SYNC_WORD, 1 := ATN_SECTOR_WRITTEN],
       wb_count := 4, wb_readyToSend := False, wb_next := other\<rparr>"

definition setupAtnBuffers :: "franz \<Rightarrow> franz" where
  "setupAtnBuffers f =
     f\<lparr>atnSendFwVersion := (atnSendFwVersion f)
          [0 := ATN_SYNC_WORD, 1 := ATN_FW_VERSION, 4 := 0xf017, 5 := 0x0413, 6 := 0, 7 := 0],
       atnSendTrackRequest := (atnSendTrackRequest f)
          [0 := ATN_SYNC_WORD, 1 := ATN_SEND_TRACK, 5 := 0],
       wrBuffer := [init_wrBuffer 1 (wrBuffer f ! 0), init_wrBuffer 0 (wrBuffer f ! 1)],
       wrNow := 0\<rparr>"

text \<open>
  The software part of \<open>init_hw_sw\<close>: flags, the track buffer, the MFM read buffer and the drive
  position, and the pins the pin helpers drive. The clock, timer, DMA and USART set-up calls of the
  vendor library have no state here.
\<close>

definition init_hw_sw :: "franz \<Rightarrow> franz" where
  "init_hw_sw f =
     (let f = bsrr (DIR OR WGATE) f;
          f = FloppyOut_Disable
                (f\<lparr>driveId := 0, driveEnabled := True, isDiskChanged := False, isWriteProtected := False\<rparr>);
          f = f\<lparr>gpioA_crl := (gpioA_crl f AND NOT 0xffffff00) OR 0xbbbb4b00,
                gpioA_crh := (gpioA_crh f AND NOT 0x00000ff0) OR 0x000004b0,
                gpioB_crh := (gpioB_crh f AND NOT 0xf000f000) OR 0x30004000\<rparr>
      in f\<lparr>readTrackData := foldl (\<lambda>d i. d[i := CMD_TRACK_STREAM_END_BYTE]) (readTrackData f) [0..<READTRACKDATA_SIZE],
           spiDmaIsIdle := True, spiDmaTXidle := True, spiDmaRXidle := True,
           mfmReadStreamBuffer := foldl (\<lambda>b i. b[i := 7]) (mfmReadStreamBuffer f) [0..<16],
           inIndexGet := 0,
           dp_now := \<lparr>dp_track = 0, dp_side = 0\<rparr>,
           streamed := \<lparr>ss_side = 0xff, ss_track = 0xff, ss_sector = 0xff\<rparr>,
           dp_prev := (dp_prev f)\<lparr>dp_side := 0\<rparr>,
           dp_next := \<lparr>dp_track = 0, dp_side = 0\<rparr>,
           lastRequested := \<lparr>dp_track = 0xff, dp_side = 0xff\<rparr>,
           lastMfmWriteTC := 0, lastRequestTime := 0\<rparr>)"

text \<open>
  \<open>main\<close> up to its loop, at time \<open>t\<close>. \<open>wgate\<close> is the initial value \<open>WGATE\<close> of \<open>prevWGate\<close>. The
  circular buffers are those of theory FranzUart.
\<close>

definition main_init :: "WORD \<Rightarrow> franz \<Rightarrow> franz" where
  "main_init t f =
     (let f = f\<lparr>indexCount := 0, prevWGate := WGATE, prevStepTime := 0, sendFwVersion := False, sendTrackRequest := False\<rparr>;
          f = init_hw_sw (setupAtnBuffers f);
          f = setupDriveSelect f;
          f = brr ATN (brr (TRACK0 OR DISK_CHANGE) (bsrr (WR_PROTECT OR DISK_CHANGE) f));
          f = setupDiskChangeWriteProtect f
      in REQUEST_TRACK t f)"

section \<open>Invariant\<close>

definition wb_ok :: "TWriteBuffer \<Rightarrow> bool" where
  "wb_ok b \<longleftrightarrow> length (wb_buffer b) = WRITEBUFFER_SIZE \<and>
     4 \<le> unat (wb_count b) \<and> unat (wb_count b) \<le> WRITEBUFFER_SIZE \<and>
     wb_buffer b ! 0 = ATN_SYNC_WORD \<and> wb_buffer b ! 1 = ATN_SECTOR_WRITTEN"

definition wr_inv :: "franz \<Rightarrow> bool" where
  "wr_inv f \<longleftrightarrow> length (wrBuffer f) = 2 \<and> wrNow f < 2 \<and>
     wb_ok (wrBuffer f ! 0) \<and> wb_next (wrBuffer f ! 0) = 1 \<and>
     wb_ok (wrBuffer f ! 1) \<and> wb_next (wrBuffer f ! 1) = 0"

text \<open>
  The MFM timer stops for good when it is ever loaded with 0 (the warning in init.c), so the read
  buffer must only hold the three legal pulse lengths.
\<close>

definition mfm_ok :: "franz \<Rightarrow> bool" where
  "mfm_ok f \<longleftrightarrow> length (mfmReadStreamBuffer f) = 16 \<and> set (mfmReadStreamBuffer f) \<subseteq> {7, 11, 15} \<and>
     length (readTrackData f) = READTRACKDATA_SIZE \<and> inIndexGet f < READTRACKDATA_SIZE \<and> gapIndex f < 3 \<and>
     length (mfmWriteStreamBuffer f) = 16"

definition pos_ok :: "franz \<Rightarrow> bool" where
  "pos_ok f \<longleftrightarrow> dp_track (dp_now f) \<le> 85 \<and>
     (gpioB_odr f AND TRACK0 = 0 \<longleftrightarrow> dp_track (dp_now f) = 0)"

definition franz_inv :: "franz \<Rightarrow> bool" where
  "franz_inv f \<longleftrightarrow> wr_inv f \<and> mfm_ok f \<and> pos_ok f \<and>
     length (atnSendFwVersion f) = 8 \<and> length (atnSendTrackRequest f) = 6 \<and> length (cmdBuffer f) = 16"

text \<open>The arrays have their declared sizes before \<open>main\<close> runs.\<close>

definition franz_shape :: "franz \<Rightarrow> bool" where
  "franz_shape f \<longleftrightarrow> length (wrBuffer f) = 2 \<and> (\<forall>b \<in> set (wrBuffer f). length (wb_buffer b) = WRITEBUFFER_SIZE) \<and>
     length (mfmReadStreamBuffer f) = 16 \<and> length (mfmWriteStreamBuffer f) = 16 \<and>
     length (readTrackData f) = READTRACKDATA_SIZE \<and> gapIndex f = 0 \<and>
     length (atnSendFwVersion f) = 8 \<and> length (atnSendTrackRequest f) = 6 \<and> length (cmdBuffer f) = 16"

end
