(* ===== verification/FranzMfm.thy ===== *)
theory FranzMfm
  imports FranzState
begin

text \<open>
  The MFM streams of the floppy firmware (src/ce_franz_fw/main.c): reading the track data received
  from the host (\<open>getNextMFMbyte\<close>, \<open>fillMfmTimesForDMA\<close>, \<open>updateStreamPositionByFloppyPosition\<close>) and
  turning captured write pulses into words (\<open>getMfmWriteTimes\<close>, the \<open>wrBuffer_add\<close> macro).
\<close>

section \<open>Operations\<close>

definition readTrackData_justMove :: "franz \<Rightarrow> franz" where
  "readTrackData_justMove f =
     f\<lparr>inIndexGet := (if inIndexGet f + 1 \<ge> READTRACKDATA_SIZE then 0 else inIndexGet f + 1)\<rparr>"

definition readTrackData_get_noMove :: "franz \<Rightarrow> BYTE" where
  "readTrackData_get_noMove f = readTrackData f ! inIndexGet f"

definition readTrackData_goToStart :: "franz \<Rightarrow> franz" where
  "readTrackData_goToStart f = f\<lparr>inIndexGet := 0\<rparr>"

text \<open>\<open>CMD_CURRENT_SECTOR\<close>: side, track and sector follow.\<close>

definition read_sector_mark :: "franz \<Rightarrow> franz" where
  "read_sector_mark f =
     (let f = readTrackData_justMove (f\<lparr>streamed := (streamed f)\<lparr>ss_side := readTrackData_get_noMove f\<rparr>\<rparr>);
          f = readTrackData_justMove (f\<lparr>streamed := (streamed f)\<lparr>ss_track := readTrackData_get_noMove f\<rparr>\<rparr>)
      in readTrackData_justMove (f\<lparr>streamed := (streamed f)\<lparr>ss_sector := readTrackData_get_noMove f\<rparr>\<rparr>))"

text \<open>
  The loop of \<open>getNextMFMbyte\<close>. The counter starts at 15000 and is decremented before it is tested,
  so the body runs at most 14999 times: the first argument.
\<close>

fun mfm_scan :: "nat \<Rightarrow> franz \<Rightarrow> franz \<times> BYTE option" where
  "mfm_scan 0 f = (f, None)"
| "mfm_scan (Suc n) f =
     (let val = readTrackData_get_noMove f
      in if val = CMD_TRACK_STREAM_END_BYTE then (f, None)
         else let f = readTrackData_justMove f
              in if val = 0 then mfm_scan n f
                 else if val = CMD_CURRENT_SECTOR then mfm_scan n (read_sector_mark f)
                 else (f\<lparr>gapIndex := 0\<rparr>, Some val))"

definition gap :: "BYTE list" where
  "gap = [0xa9, 0x6a, 0x96]"

definition getNextMFMbyte :: "franz \<Rightarrow> franz \<times> BYTE" where
  "getNextMFMbyte f =
     (case mfm_scan 14999 f of
        (f, Some val) \<Rightarrow> (f, val)
      | (f, None) \<Rightarrow>
          (f\<lparr>gapIndex := (if gapIndex f + 1 > 2 then 0 else gapIndex f + 1)\<rparr>, gap ! gapIndex f))"

definition mfmTimes :: "WORD list" where
  "mfmTimes = [7, 7, 11, 15]"

text \<open>
  One pass of the loop of \<open>fillMfmTimesForDMA\<close>: the state, the byte being shifted out and the index in
  the read buffer.
\<close>

definition fill_one :: "nat \<Rightarrow> franz \<times> BYTE \<times> nat \<Rightarrow> franz \<times> BYTE \<times> nat" where
  "fill_one i s =
     (case s of (f, times4, ind) \<Rightarrow>
        let (f, times4) = (if i = 0 \<or> i = 4 then getNextMFMbyte f else (f, times4));
            time = mfmTimes ! unat (drop_bit 6 times4)
        in (f\<lparr>mfmReadStreamBuffer := (mfmReadStreamBuffer f)[ind := time]\<rparr>, push_bit 2 times4, ind + 1))"

definition fillMfmTimesForDMA :: "bool \<Rightarrow> franz \<Rightarrow> franz" where
  "fillMfmTimesForDMA tc5 f = fst (fold fill_one [0..<8] (f, 0, if tc5 then 8 else 0))"

text \<open>\<open>fillMfmTimesWithDummy\<close> only clears the DMA flags and fills the buffer with 4 us pulses.\<close>

definition fillMfmTimesWithDummy :: "franz \<Rightarrow> franz" where
  "fillMfmTimesWithDummy f = fillReadStreamBufferWithDummyData f"

definition first_end :: "BYTE list \<Rightarrow> nat" where
  "first_end xs = length (takeWhile (\<lambda>b. b \<noteq> CMD_TRACK_STREAM_END_BYTE) xs)"

definition updateStreamPositionByFloppyPosition :: "DWORD \<Rightarrow> franz \<Rightarrow> franz" where
  "updateStreamPositionByFloppyPosition mediaPosition f =
     (let i = of_nat (first_end (readTrackData f)) :: DWORD;
          pos = (i * mediaPosition) div 400
      in f\<lparr>inIndexGet := unat (ucast pos :: WORD)\<rparr>)"

text \<open>\<open>wrBuffer_add(X)\<close>\<close>

definition wrBuffer_add :: "WORD \<Rightarrow> franz \<Rightarrow> franz" where
  "wrBuffer_add x f =
     (let b = wrBuffer f ! wrNow f
      in if unat (wb_count b) < WRITEBUFFER_SIZE
         then f\<lparr>wrBuffer := (wrBuffer f)[wrNow f :=
                  b\<lparr>wb_buffer := (wb_buffer b)[unat (wb_count b) := x], wb_count := wb_count b + 1\<rparr>]\<rparr>
         else f)"

abbreviation (input) MFM_4US :: WORD where "MFM_4US \<equiv> 1"
abbreviation (input) MFM_6US :: WORD where "MFM_6US \<equiv> 2"
abbreviation (input) MFM_8US :: WORD where "MFM_8US \<equiv> 3"

text \<open>The captured values become differences, from the last one down; the first one of the half is
  compared with the last one of the half before.\<close>

definition write_diffs :: "nat \<Rightarrow> WORD \<Rightarrow> WORD list \<Rightarrow> WORD list" where
  "write_diffs ind1 lastTC buf =
     (let buf = foldl (\<lambda>b i. b[ind1 - i := b ! (ind1 - i) - b ! (ind1 - i - 1)]) buf [0..<7]
      in buf[ind1 - 7 := buf ! (ind1 - 7) - lastTC])"

definition mfm_code :: "WORD \<Rightarrow> WORD option" where
  "mfm_code tmp =
     (if tmp < 20 then None
      else if tmp < 36 then Some MFM_4US
      else if tmp < 50 then Some MFM_6US
      else if tmp < 65 then Some MFM_8US
      else None)"

definition add_code :: "WORD \<Rightarrow> WORD \<Rightarrow> WORD" where
  "add_code wval tmp = (case mfm_code tmp of None \<Rightarrow> wval | Some val \<Rightarrow> push_bit 2 wval OR val)"

text \<open>
  \<open>ht6\<close> is the half-transfer flag. The only caller checks first that this flag or the
  transfer-complete flag is set, so without it the second half is complete.
\<close>

definition getMfmWriteTimes :: "bool \<Rightarrow> franz \<Rightarrow> franz" where
  "getMfmWriteTimes ht6 f =
     (let (ind1, ind2) = (if ht6 then (7, 0) else (15, 8));
          tmp = mfmWriteStreamBuffer f ! ind1;
          buf = write_diffs ind1 (lastMfmWriteTC f) (mfmWriteStreamBuffer f);
          f = f\<lparr>mfmWriteStreamBuffer := buf, lastMfmWriteTC := tmp\<rparr>;
          wval = foldl add_code 0 (map (\<lambda>i. buf ! (ind2 + i)) [0..<8])
      in wrBuffer_add wval f)"

section \<open>The invariant of the read side\<close>

lemma mfm_ok_simps [simp]:
  "mfm_ok (f\<lparr>streamed := s\<rparr>) = mfm_ok f"
  "length (mfmReadStreamBuffer f) = 16 \<Longrightarrow> mfm_ok (readTrackData_goToStart f) = mfm_ok (f\<lparr>inIndexGet := 0\<rparr>)"
  by (simp_all add: mfm_ok_def readTrackData_goToStart_def)

lemma mfm_ok_move [simp]: "mfm_ok f \<Longrightarrow> mfm_ok (readTrackData_justMove f)"
  by (simp add: mfm_ok_def readTrackData_justMove_def)

lemma mfm_ok_sector_mark [simp]: "mfm_ok f \<Longrightarrow> mfm_ok (read_sector_mark f)"
  by (simp add: read_sector_mark_def Let_def)

lemma mfm_ok_gap: "mfm_ok f \<Longrightarrow> g < 3 \<Longrightarrow> mfm_ok (f\<lparr>gapIndex := g\<rparr>)"
  by (simp add: mfm_ok_def)

lemma mfm_ok_scan: "mfm_ok f \<Longrightarrow> mfm_ok (fst (mfm_scan n f))"
  by (induction n f rule: mfm_scan.induct) (simp_all add: Let_def mfm_ok_gap)

lemma mfm_ok_getNext: "mfm_ok f \<Longrightarrow> mfm_ok (fst (getNextMFMbyte f))"
  using mfm_ok_scan [of f 14999]
  by (auto simp: getNextMFMbyte_def mfm_ok_def split: prod.splits option.splits)

lemma mfmTimes_nth: "mfmTimes ! unat (drop_bit 6 (b :: BYTE)) \<in> {7, 11, 15}"
proof -
  have "unat (drop_bit 6 b) = unat b div 64"
    unfolding unat_drop_bit_eq by (simp add: drop_bit_eq_div)
  with unat_word8_lt [of b] have "unat (drop_bit 6 b) < 4" by linarith
  then have "unat (drop_bit 6 b) \<in> {0, 1, 2, 3}" by auto
  then show ?thesis by (auto simp: mfmTimes_def)
qed

lemma mfm_ok_fill_one:
  assumes "mfm_ok (fst s)"
  shows "mfm_ok (fst (fill_one i s))"
proof -
  obtain f b n where s: "s = (f, b, n)" by (cases s) auto
  have upd: "mfm_ok (g\<lparr>mfmReadStreamBuffer := (mfmReadStreamBuffer g)[k := mfmTimes ! unat (drop_bit 6 c)]\<rparr>)"
    if "mfm_ok g" for g k and c :: BYTE
    using that mfmTimes_nth [of c] by (auto simp: mfm_ok_def dest!: set_mp [OF set_update_subset_insert])
  from assms s have "mfm_ok f" by simp
  then show ?thesis
    using mfm_ok_getNext [of f] by (auto simp: s fill_one_def Let_def upd split: prod.splits)
qed

lemma mfm_ok_fold_fill: "mfm_ok (fst s) \<Longrightarrow> mfm_ok (fst (fold fill_one is s))"
  by (induction "is" arbitrary: s) (simp_all add: mfm_ok_fill_one)

lemma mfm_ok_fill: "mfm_ok f \<Longrightarrow> mfm_ok (fillMfmTimesForDMA tc5 f)"
  by (simp add: fillMfmTimesForDMA_def mfm_ok_fold_fill)

lemma first_end_le: "first_end xs \<le> length xs"
  by (simp add: first_end_def length_takeWhile_le)

end
