(* ===== verification/FranzStream.thy ===== *)
theory FranzStream
  imports FranzMfm
begin

text \<open>
  \<open>getNextMFMbyte\<close> on a well-formed track: the data bytes come out in order, and at every byte the
  reported side, track and sector are those of the sector mark last passed.
\<close>

section \<open>Reading a well-formed track\<close>

text \<open>
  What the host puts into a track: sector marks, MFM bytes (four 2-bit codes, none of them 0) and
  empty bytes. Such data bytes can never be taken for a command.
\<close>

datatype mfm_item = Sector BYTE BYTE BYTE | Data BYTE | Skip

fun mfm_enc :: "mfm_item \<Rightarrow> BYTE list" where
  "mfm_enc (Sector s t n) = [CMD_CURRENT_SECTOR, s, t, n]"
| "mfm_enc (Data b) = [b]"
| "mfm_enc Skip = [0]"

definition mfm_codes :: "BYTE \<Rightarrow> BYTE list" where
  "mfm_codes b = map (\<lambda>k. drop_bit 6 (push_bit (2 * k) b)) [0..<4]"

definition valid_mfm :: "BYTE \<Rightarrow> bool" where
  "valid_mfm b \<longleftrightarrow> 0 \<notin> set (mfm_codes b)"

fun mfm_valid :: "mfm_item \<Rightarrow> bool" where
  "mfm_valid (Data b) = valid_mfm b"
| "mfm_valid _ = True"

fun mfm_data :: "mfm_item list \<Rightarrow> BYTE list" where
  "mfm_data [] = []"
| "mfm_data (Data b # is) = b # mfm_data is"
| "mfm_data (_ # is) = mfm_data is"

fun sector_upd :: "SStreamed \<Rightarrow> mfm_item \<Rightarrow> SStreamed" where
  "sector_upd st (Sector s t n) = st\<lparr>ss_side := s, ss_track := t, ss_sector := n\<rparr>"
| "sector_upd st _ = st"

text \<open>The sector the firmware must report after delivering the first \<open>k\<close> data bytes.\<close>

fun sector_at :: "nat \<Rightarrow> SStreamed \<Rightarrow> mfm_item list \<Rightarrow> SStreamed" where
  "sector_at 0 st is = st"
| "sector_at (Suc k) st [] = st"
| "sector_at (Suc k) st (Data b # is) = sector_at k st is"
| "sector_at (Suc k) st (i # is) = sector_at (Suc k) (sector_upd st i) is"

fun mfm_take :: "nat \<Rightarrow> franz \<Rightarrow> franz \<times> BYTE list" where
  "mfm_take 0 f = (f, [])"
| "mfm_take (Suc k) f =
     (let (f, b) = getNextMFMbyte f; (f, bs) = mfm_take k f in (f, b # bs))"

definition track_at :: "franz \<Rightarrow> mfm_item list \<Rightarrow> BYTE list \<Rightarrow> bool" where
  "track_at f is rest \<longleftrightarrow> length (readTrackData f) = READTRACKDATA_SIZE \<and>
     drop (inIndexGet f) (readTrackData f) = concat (map mfm_enc is) @ rest \<and> rest \<noteq> []"

lemma valid_mfm_not_command:
  "valid_mfm b \<Longrightarrow> b \<noteq> 0 \<and> b \<noteq> CMD_CURRENT_SECTOR \<and> b \<noteq> CMD_TRACK_STREAM_END_BYTE"
  by (auto simp: valid_mfm_def mfm_codes_def upt_rec)

lemma drop_justMove:
  assumes "drop (inIndexGet f) (readTrackData f) = x # xs" and "xs \<noteq> []"
    and "length (readTrackData f) = READTRACKDATA_SIZE"
  shows "readTrackData_get_noMove f = x"
    and "readTrackData_justMove f = f\<lparr>inIndexGet := Suc (inIndexGet f)\<rparr>"
    and "drop (Suc (inIndexGet f)) (readTrackData f) = xs"
proof -
  from drop_eq_ConsD [OF assms(1)]
  have i: "inIndexGet f < length (readTrackData f)" "readTrackData f ! inIndexGet f = x"
    and d: "drop (Suc (inIndexGet f)) (readTrackData f) = xs" by auto
  from d assms(2) have "Suc (inIndexGet f) < length (readTrackData f)"
    by (metis drop_all leI)
  with assms(3) show "readTrackData_justMove f = f\<lparr>inIndexGet := Suc (inIndexGet f)\<rparr>"
    by (simp add: readTrackData_justMove_def)
  show "readTrackData_get_noMove f = x" using i by (simp add: readTrackData_get_noMove_def)
  show "drop (Suc (inIndexGet f)) (readTrackData f) = xs" by (rule d)
qed

lemma track_at_move:
  assumes "drop (inIndexGet f) (readTrackData f) = x # concat (map mfm_enc is) @ rest" and "rest \<noteq> []"
    and "length (readTrackData f) = READTRACKDATA_SIZE"
  shows "readTrackData_get_noMove f = x" and "track_at (readTrackData_justMove f) is rest"
    and "streamed (readTrackData_justMove f) = streamed f"
  using drop_justMove [OF assms(1) _ assms(3)] assms(2,3)
  by (simp_all add: track_at_def)

lemma track_at_sector_mark:
  assumes "drop (inIndexGet f) (readTrackData f) = s # t # n # concat (map mfm_enc is) @ rest" and "rest \<noteq> []"
    and "length (readTrackData f) = READTRACKDATA_SIZE"
  shows "track_at (read_sector_mark f) is rest"
    and "streamed (read_sector_mark f) = sector_upd (streamed f) (Sector s t n)"
proof -
  let ?f1 = "f\<lparr>streamed := (streamed f)\<lparr>ss_side := s\<rparr>, inIndexGet := Suc (inIndexGet f)\<rparr>"
  let ?f2 = "?f1\<lparr>streamed := (streamed ?f1)\<lparr>ss_track := t\<rparr>, inIndexGet := Suc (inIndexGet ?f1)\<rparr>"
  note 1 = drop_justMove [OF assms(1) _ assms(3), simplified]
  have 1: "readTrackData_get_noMove f = s"
    "readTrackData_justMove (f\<lparr>streamed := (streamed f)\<lparr>ss_side := s\<rparr>\<rparr>) = ?f1"
    "drop (inIndexGet ?f1) (readTrackData ?f1) = t # n # concat (map mfm_enc is) @ rest"
    using drop_justMove [of "f\<lparr>streamed := (streamed f)\<lparr>ss_side := s\<rparr>\<rparr>" s] drop_justMove [of f s] assms by simp_all
  have 2: "readTrackData_get_noMove ?f1 = t"
    "readTrackData_justMove (?f1\<lparr>streamed := (streamed ?f1)\<lparr>ss_track := t\<rparr>\<rparr>) = ?f2"
    "drop (inIndexGet ?f2) (readTrackData ?f2) = n # concat (map mfm_enc is) @ rest"
    using drop_justMove [of "?f1\<lparr>streamed := (streamed ?f1)\<lparr>ss_track := t\<rparr>\<rparr>" t] drop_justMove [of ?f1 t] 1(3) assms(2,3)
    by simp_all
  have 3: "readTrackData_get_noMove ?f2 = n"
    using drop_justMove(1) [of ?f2 n] 2(3) assms(2,3) by simp
  have m: "read_sector_mark f = readTrackData_justMove (?f2\<lparr>streamed := (streamed ?f2)\<lparr>ss_sector := n\<rparr>\<rparr>)"
    unfolding read_sector_mark_def Let_def 1(1,2) 2(1,2) 3 ..
  show "track_at (read_sector_mark f) is rest"
    unfolding m by (rule track_at_move(2) [of _ n]) (use 2(3) assms in simp_all)
  show "streamed (read_sector_mark f) = sector_upd (streamed f) (Sector s t n)"
    unfolding m using track_at_move(3) [of "?f2\<lparr>streamed := (streamed ?f2)\<lparr>ss_sector := n\<rparr>\<rparr>" n "is" rest] 2(3) assms by simp
qed

lemma mfm_scan_finds:
  assumes "track_at f (pre @ Data b # post) rest" and "mfm_data pre = []" and "valid_mfm b" and "length pre < n"
  shows "\<exists>g. mfm_scan n f = (g, Some b) \<and> track_at g post rest \<and> streamed g = foldl sector_upd (streamed f) pre"
  using assms
proof (induction pre arbitrary: f n)
  case Nil
  then obtain m where n: "n = Suc m" by (cases n) auto
  from Nil.prems(1) have d: "drop (inIndexGet f) (readTrackData f) = b # concat (map mfm_enc post) @ rest"
    "rest \<noteq> []" "length (readTrackData f) = READTRACKDATA_SIZE"
    by (simp_all add: track_at_def)
  note mv = track_at_move [OF d]
  from mv Nil.prems(3) show ?case
    by (auto simp: n Let_def dest: valid_mfm_not_command) (simp_all add: track_at_def)
next
  case (Cons i pre)
  then obtain m where n: "n = Suc m" and m: "length pre < m" by (cases n) auto
  show ?case
  proof (cases i)
    case (Sector s t k)
    from Cons.prems(1) Sector have d: "drop (inIndexGet f) (readTrackData f) =
        CMD_CURRENT_SECTOR # s # t # k # concat (map mfm_enc (pre @ Data b # post)) @ rest"
      "rest \<noteq> []" "length (readTrackData f) = READTRACKDATA_SIZE"
      by (simp_all add: track_at_def)
    let ?f = "readTrackData_justMove f"
    from drop_justMove [OF d(1) _ d(3)] have j: "readTrackData_get_noMove f = CMD_CURRENT_SECTOR"
      "drop (inIndexGet ?f) (readTrackData ?f) = s # t # k # concat (map mfm_enc (pre @ Data b # post)) @ rest"
      "length (readTrackData ?f) = READTRACKDATA_SIZE" "streamed ?f = streamed f"
      using d by simp_all
    note sm = track_at_sector_mark [OF j(2) d(2) j(3)]
    from Cons.IH [OF sm(1) _ Cons.prems(3) m] Cons.prems(2) Sector sm(2) j(1,4)
    show ?thesis by (auto simp: n Let_def)
  next
    case (Data c)
    with Cons.prems(2) show ?thesis by simp
  next
    case Skip
    from Cons.prems(1) Skip have d: "drop (inIndexGet f) (readTrackData f) =
        0 # concat (map mfm_enc (pre @ Data b # post)) @ rest"
      "rest \<noteq> []" "length (readTrackData f) = READTRACKDATA_SIZE"
      by (simp_all add: track_at_def)
    note mv = track_at_move [OF d]
    from Cons.IH [OF mv(2) _ Cons.prems(3) m] Cons.prems(2) Skip mv
    show ?thesis by (auto simp: n Let_def)
  qed
qed

lemma mfm_data_append: "mfm_data (xs @ ys) = mfm_data xs @ mfm_data ys"
  by (induction xs rule: mfm_data.induct) simp_all

lemma split_first_data:
  "mfm_data is = b # bs \<Longrightarrow> \<exists>pre post. is = pre @ Data b # post \<and> mfm_data pre = [] \<and> mfm_data post = bs"
proof (induction "is")
  case (Cons i "is")
  show ?case
  proof (cases "\<exists>c. i = Data c")
    case True
    with Cons.prems have "i # is = [] @ Data b # is \<and> mfm_data [] = [] \<and> mfm_data is = bs" by auto
    then show ?thesis by blast
  next
    case False
    then have skip: "mfm_data (i # xs) = mfm_data xs" for xs by (cases i) auto
    with Cons obtain pre post where "is = pre @ Data b # post" "mfm_data pre = []" "mfm_data post = bs" by auto
    with skip have "i # is = (i # pre) @ Data b # post \<and> mfm_data (i # pre) = [] \<and> mfm_data post = bs" by simp
    then show ?thesis by blast
  qed
qed simp

lemma sector_at_split:
  "mfm_data pre = [] \<Longrightarrow> sector_at (Suc k) st (pre @ Data b # post) = sector_at k (foldl sector_upd st pre) post"
  by (induction pre arbitrary: st rule: mfm_data.induct) auto

lemma length_mfm_enc: "length is \<le> length (concat (map mfm_enc is))"
proof (induction "is")
  case (Cons i "is")
  then show ?case by (cases i) auto
qed simp

lemma mfm_take_items:
  assumes "track_at f is rest" and "list_all mfm_valid is" and "k \<le> length (mfm_data is)"
  shows "snd (mfm_take k f) = take k (mfm_data is) \<and>
         streamed (fst (mfm_take k f)) = sector_at k (streamed f) is"
  using assms
proof (induction k arbitrary: f "is")
  case 0
  then show ?case by simp
next
  case (Suc k)
  then obtain b bs where "mfm_data is = b # bs" by (cases "mfm_data is") auto
  then obtain pre post where sp: "is = pre @ Data b # post" "mfm_data pre = []" "mfm_data post = bs"
    using split_first_data by blast
  from Suc.prems(1) have "length (concat (map mfm_enc is) @ rest) \<le> READTRACKDATA_SIZE"
    unfolding track_at_def by (metis length_drop diff_le_self)
  moreover from Suc.prems(1) have "length rest > 0" by (simp add: track_at_def)
  ultimately have "length pre < 14999" using length_mfm_enc [of pre] sp(1) by (cases rest) auto
  with Suc.prems sp mfm_scan_finds [of f pre b post rest 14999]
  obtain g where g: "mfm_scan 14999 f = (g, Some b)" "track_at g post rest"
    "streamed g = foldl sector_upd (streamed f) pre" by auto
  from Suc.IH [OF g(2)] Suc.prems sp g(1,3) show ?case
    by (auto simp: getNextMFMbyte_def case_prod_beta sector_at_split mfm_data_append)
qed

text \<open>
  C26: on a track of sector marks, MFM data bytes and empty bytes, starting anywhere at an item
  boundary, the firmware delivers exactly the data bytes in order, never taking one for a mark or a
  mark for data, and after the first \<open>k\<close> of them it reports the sector of the last mark before
  the \<open>k\<close>th.
\<close>

theorem mfm_stream_in_order:
  assumes "track_at f is rest" and "list_all mfm_valid is" and "k \<le> length (mfm_data is)"
  shows "snd (mfm_take k f) = take k (mfm_data is) \<and>
         streamed (fst (mfm_take k f)) = sector_at k (streamed f) is"
  by (rule mfm_take_items [OF assms])

end
