(* ===== verification/FranzPulse.thy ===== *)
theory FranzPulse
  imports FranzStream
begin

text \<open>
  Pulse streams of the floppy firmware: what \<open>fillMfmTimesForDMA\<close> puts into the read buffer, what
  \<open>getMfmWriteTimes\<close> makes of pulses captured by the timer that counts to 255, and the position in the
  track stream.
\<close>

lemma moves_readbuf:
  "readTrackData_justMove (f\<lparr>mfmReadStreamBuffer := x\<rparr>) = readTrackData_justMove f\<lparr>mfmReadStreamBuffer := x\<rparr>"
  "readTrackData_get_noMove (f\<lparr>mfmReadStreamBuffer := x\<rparr>) = readTrackData_get_noMove f"
  by (simp_all add: readTrackData_justMove_def readTrackData_get_noMove_def)

lemma streamed_readbuf:
  "f\<lparr>mfmReadStreamBuffer := x, streamed := s\<rparr> = f\<lparr>streamed := s, mfmReadStreamBuffer := x\<rparr>"
  "streamed (f\<lparr>mfmReadStreamBuffer := x\<rparr>) = streamed f"
  by simp_all

lemma sector_mark_readbuf:
  "read_sector_mark (f\<lparr>mfmReadStreamBuffer := x\<rparr>) = read_sector_mark f\<lparr>mfmReadStreamBuffer := x\<rparr>"
  by (simp only: read_sector_mark_def Let_def moves_readbuf streamed_readbuf franz.simps)

lemma mfm_scan_readbuf_upd:
  "mfm_scan n (f\<lparr>mfmReadStreamBuffer := x\<rparr>) =
   (fst (mfm_scan n f)\<lparr>mfmReadStreamBuffer := x\<rparr>, snd (mfm_scan n f))"
proof (induction n arbitrary: f)
  case 0
  then show ?case by simp
next
  case (Suc n)
  show ?case
    by (simp only: mfm_scan.simps Let_def moves_readbuf sector_mark_readbuf Suc.IH if_distrib [of fst] if_distrib [of snd]
        fst_conv snd_conv split: if_split) simp
qed

lemma moves_keep_readbuf [simp]:
  "mfmReadStreamBuffer (readTrackData_justMove f) = mfmReadStreamBuffer f"
  "mfmReadStreamBuffer (read_sector_mark f) = mfmReadStreamBuffer f"
  by (simp_all add: readTrackData_justMove_def read_sector_mark_def Let_def)

lemma mfm_scan_readbuf: "mfmReadStreamBuffer (fst (mfm_scan n f)) = mfmReadStreamBuffer f"
  by (induction n arbitrary: f) (simp_all add: Let_def)

lemma getNextMFMbyte_readbuf:
  "getNextMFMbyte (f\<lparr>mfmReadStreamBuffer := x\<rparr>) =
   (fst (getNextMFMbyte f)\<lparr>mfmReadStreamBuffer := x\<rparr>, snd (getNextMFMbyte f))"
  "mfmReadStreamBuffer (fst (getNextMFMbyte f)) = mfmReadStreamBuffer f"
  using mfm_scan_readbuf [of 14999 f]
  by (auto simp: getNextMFMbyte_def mfm_scan_readbuf_upd split: prod.splits option.splits)

definition byte_times :: "BYTE \<Rightarrow> WORD list" where
  "byte_times b = map (\<lambda>c. mfmTimes ! unat c) (mfm_codes b)"

text \<open>
  Every refill of the MFM timer's buffer puts the pulse lengths of the next two MFM bytes, eight
  in all, into the half the DMA has just finished, and leaves the half it is sending alone.
\<close>

lemma fill_streams_two_bytes:
  assumes "length (mfmReadStreamBuffer f) = 16"
  shows "fillMfmTimesForDMA tc5 f =
    fst (mfm_take 2 f)\<lparr>mfmReadStreamBuffer :=
      (if tc5 then take 8 (mfmReadStreamBuffer f) @ concat (map byte_times (snd (mfm_take 2 f)))
       else concat (map byte_times (snd (mfm_take 2 f))) @ drop 8 (mfmReadStreamBuffer f))\<rparr>"
proof -
  obtain x0 x1 x2 x3 x4 x5 x6 x7 x8 x9 xa xb xc xd xe xf where
    x: "mfmReadStreamBuffer f = [x0,x1,x2,x3,x4,x5,x6,x7,x8,x9,xa,xb,xc,xd,xe,xf]"
    using assms by (auto simp: numeral_eq_Suc length_Suc_conv)
  have u: "[0..<8] = [0,1,2,3,4,5,6,7::nat]" "[0..<4] = [0,1,2,3::nat]" by (simp_all add: upt_rec)
  have p: "push_bit 6 b = 64 * b" for b :: BYTE by (simp add: push_bit_eq_mult)
  have t: "mfm_take 2 f = (let (f, b) = getNextMFMbyte f; (f, c) = getNextMFMbyte f in (f, [b, c]))"
    by (simp add: numeral_2_eq_2 case_prod_beta Let_def)
  show ?thesis
    by (simp add: fillMfmTimesForDMA_def u fill_one_def Let_def case_prod_beta getNextMFMbyte_readbuf
        byte_times_def mfm_codes_def t x p)
qed

section \<open>Captured write pulses\<close>

text \<open>Timestamps of pulses \<open>ds\<close> ticks apart, the first one measured from \<open>c\<close>.\<close>

fun stamps :: "WORD \<Rightarrow> WORD list \<Rightarrow> WORD list" where
  "stamps c [] = []"
| "stamps c (d # ds) = (c + d) # stamps (c + d) ds"

lemma length_stamps [simp]: "length (stamps c ds) = length ds"
  by (induction ds arbitrary: c) auto

lemma eight_list:
  assumes "length xs = 8"
  obtains a b c d e f g h where "xs = [a, b, c, d, e, f, g, h]"
  using assms that by (auto simp: numeral_eq_Suc length_Suc_conv)

lemma write_diffs_half:
  assumes "length ds = 8" and "length other = 8"
  shows "write_diffs 7 c (stamps c ds @ other) = ds @ other"
    and "write_diffs 15 c (other @ stamps c ds) = other @ ds"
proof -
  obtain d0 d1 d2 d3 d4 d5 d6 d7 where d: "ds = [d0, d1, d2, d3, d4, d5, d6, d7]"
    using assms(1) by (rule eight_list)
  obtain o0 o1 o2 o3 o4 o5 o6 o7 where o: "other = [o0, o1, o2, o3, o4, o5, o6, o7]"
    using assms(2) by (rule eight_list)
  have u: "[0..<7] = [0, 1, 2, 3, 4, 5, 6::nat]" by (simp add: upt_rec)
  show "write_diffs 7 c (stamps c ds @ other) = ds @ other"
    and "write_diffs 15 c (other @ stamps c ds) = other @ ds"
    by (simp_all add: write_diffs_def d o u Let_def)
qed

text \<open>
  For pulses captured \<open>ds\<close> ticks apart, also across a wrap of the 16-bit timestamps and across the
  border between two halves of the capture buffer, the half becomes one word of the codes of \<open>ds\<close>
  added to the write buffer; the other half is kept and the last timestamp starts the next half.
\<close>

lemma getMfmWriteTimes_codes:
  assumes "length ds = 8" and "length other = 8"
    and "mfmWriteStreamBuffer f = (if ht6 then stamps (lastMfmWriteTC f) ds @ other else other @ stamps (lastMfmWriteTC f) ds)"
  shows "getMfmWriteTimes ht6 f =
    wrBuffer_add (foldl add_code 0 ds)
      (f\<lparr>mfmWriteStreamBuffer := (if ht6 then ds @ other else other @ ds),
         lastMfmWriteTC := last (stamps (lastMfmWriteTC f) ds)\<rparr>)"
proof -
  obtain d0 d1 d2 d3 d4 d5 d6 d7 where d: "ds = [d0, d1, d2, d3, d4, d5, d6, d7]"
    using assms(1) by (rule eight_list)
  obtain o0 o1 o2 o3 o4 o5 o6 o7 where o: "other = [o0, o1, o2, o3, o4, o5, o6, o7]"
    using assms(2) by (rule eight_list)
  have u: "[0..<8] = [0, 1, 2, 3, 4, 5, 6, 7::nat]" by (simp add: upt_rec)
  show ?thesis
    using write_diffs_half [OF assms(1,2), of "lastMfmWriteTC f"]
    by (cases ht6) (simp_all add: getMfmWriteTimes_def assms(3) Let_def u d o)
qed

section \<open>The capture timer\<close>

text \<open>
  The values that the capture timer stores for pulses that end \<open>ds\<close> ticks apart, from tick \<open>t\<close> on: its
  period is 0xff (timers.c), so that it counts modulo 256.
\<close>

fun captured :: "nat \<Rightarrow> nat list \<Rightarrow> WORD list" where
  "captured t [] = []"
| "captured t (d # ds) = of_nat ((t + d) mod 256) # captured (t + d) ds"

text \<open>What the code takes for the distances: the 16-bit differences of the values.\<close>

fun differences :: "nat \<Rightarrow> nat list \<Rightarrow> WORD list" where
  "differences t [] = []"
| "differences t (d # ds) = (of_nat ((t + d) mod 256) - of_nat (t mod 256)) # differences (t + d) ds"

lemma length_captured [simp]: "length (captured t ds) = length ds" "length (differences t ds) = length ds"
  by (induction ds arbitrary: t) simp_all

lemma captured_stamps: "captured t ds = stamps (of_nat (t mod 256)) (differences t ds)"
  by (induction ds arbitrary: t) simp_all

lemma captured_last: "ds \<noteq> [] \<Longrightarrow> last (captured t ds) = of_nat ((t + sum_list ds) mod 256)"
proof (induction ds arbitrary: t)
  case (Cons d ds)
  then have "ds \<noteq> [] \<Longrightarrow> captured (t + d) ds \<noteq> []" by (cases ds) simp_all
  then show ?case using Cons.IH [of "t + d"] by (cases "ds = []") (simp_all add: add.assoc)
qed simp

text \<open>
  A pulse of code \<open>c\<close> of the 2 MHz stream timer lasts 3.6 ticks of the 7.2 MHz capture timer for each
  tick; the capture sees a whole number of ticks next to it.
\<close>

definition pulse_near :: "BYTE \<Rightarrow> nat \<Rightarrow> bool" where
  "pulse_near c d \<longleftrightarrow> 36 * (unat (mfmTimes ! unat c) + 1) < 10 * d + 10 \<and> 10 * d < 36 * (unat (mfmTimes ! unat c) + 1) + 10"

text \<open>The codes of the pulses that end before the timer starts over.\<close>

fun kept_codes :: "nat \<Rightarrow> nat list \<Rightarrow> BYTE list \<Rightarrow> BYTE list" where
  "kept_codes t (d # ds) (c # cs) = (if t mod 256 + d < 256 then [c] else []) @ kept_codes (t + d) ds cs"
| "kept_codes t _ _ = []"

definition add_bits :: "WORD \<Rightarrow> BYTE \<Rightarrow> WORD" where
  "add_bits w c = push_bit 2 w OR ucast c"

definition code_word :: "BYTE list \<Rightarrow> WORD" where
  "code_word cs = foldl add_bits 0 cs"

lemma code_values: "c \<noteq> 0 \<Longrightarrow> unat (c :: BYTE) < 4 \<Longrightarrow> c = 1 \<or> c = 2 \<or> c = 3"
proof -
  assume "c \<noteq> 0" "unat (c :: BYTE) < 4"
  then have "unat c \<in> {1, 2, 3}" by (auto simp: unat_eq_0 less_Suc_eq numeral_eq_Suc)
  then show ?thesis by (auto dest!: arg_cong [of _ _ "word_of_nat :: nat \<Rightarrow> BYTE"])
qed

lemma near_range:
  assumes "c = 1 \<or> c = 2 \<or> c = 3" and "pulse_near c d"
  shows "20 \<le> d" and "d < 65" and "mfm_code (of_nat d) = Some (ucast c)"
proof -
  have d: "c = 1 \<and> d \<in> {28, 29} \<or> c = 2 \<and> d \<in> {43, 44} \<or> c = 3 \<and> d \<in> {57, 58}"
    using assms by (auto simp: pulse_near_def mfmTimes_def)
  then show "20 \<le> d" "d < 65" by auto
  from d show "mfm_code (of_nat d) = Some (ucast c)" by (auto simp: mfm_code_def)
qed

lemma difference_code:
  assumes "c = 1 \<or> c = 2 \<or> c = 3" and "pulse_near c d"
  shows "mfm_code (of_nat ((t + d) mod 256) - of_nat (t mod 256)) = (if t mod 256 + d < 256 then Some (ucast c) else None)"
proof -
  note r = near_range [OF assms]
  have m: "(t + d) mod 256 = (t mod 256 + d) mod 256" by (simp add: mod_simps)
  have lt: "t mod 256 < 256" by simp
  show ?thesis
  proof (cases "t mod 256 + d < 256")
    case True
    then have "of_nat ((t + d) mod 256) - of_nat (t mod 256) = (of_nat d :: WORD)" unfolding m by simp
    then show ?thesis using True r(3) by simp
  next
    case False
    define x where "x = t mod 256"
    have x: "x < 256" "256 \<le> x + d" using lt False by (simp_all add: x_def)
    have "(t + d) mod 256 = x + d - 256" using x r(2) unfolding m x_def [symmetric] by (simp add: le_mod_geq)
    then have "unat (of_nat ((t + d) mod 256) - of_nat x :: WORD) = 65536 + d - 256"
      using x r(1,2) by (simp add: unat_sub_if_size word_size unat_of_nat)
    then have "65 \<le> unat (of_nat ((t + d) mod 256) - of_nat x :: WORD)" using r(1) by simp
    then have "mfm_code (of_nat ((t + d) mod 256) - of_nat x) = None" by (simp add: mfm_code_def word_less_nat_alt)
    then show ?thesis using False by (simp add: x_def)
  qed
qed

lemma turn_over:
  fixes t d n :: nat
  assumes "d < 256"
  shows "(t mod 256 + (d + n)) div 256 = ((t + d) mod 256 + n) div 256 + (if t mod 256 + d < 256 then 0 else 1)"
    and "t mod 256 + d < 256 \<Longrightarrow> (t + d) mod 256 = t mod 256 + d"
proof -
  have lt: "t mod 256 < 256" by simp
  have m: "(t + d) mod 256 = (t mod 256 + d) mod 256" by (simp add: mod_simps)
  show e: "t mod 256 + d < 256 \<Longrightarrow> (t + d) mod 256 = t mod 256 + d" unfolding m by simp
  show "(t mod 256 + (d + n)) div 256 = ((t + d) mod 256 + n) div 256 + (if t mod 256 + d < 256 then 0 else 1)"
  proof (cases "t mod 256 + d < 256")
    case True
    then show ?thesis using e by (simp add: add.assoc)
  next
    case False
    then have "(t + d) mod 256 = t mod 256 + d - 256" using lt assms unfolding m by (simp add: le_mod_geq)
    then have "t mod 256 + (d + n) = ((t + d) mod 256 + n) + 256" using False by simp
    then show ?thesis using False by (simp only: div_add_self2) simp
  qed
qed

lemma codes_captured:
  assumes "list_all2 pulse_near cs ds" and "\<forall>c\<in>set cs. c = 1 \<or> c = 2 \<or> c = 3"
  shows "foldl add_code w (differences t ds) = foldl add_bits w (kept_codes t ds cs) \<and>
    length (kept_codes t ds cs) + (t mod 256 + sum_list ds) div 256 = length cs \<and>
    (t mod 256 + sum_list ds < 256 \<longrightarrow> kept_codes t ds cs = cs)"
  using assms
proof (induction cs ds arbitrary: w t rule: list_all2_induct)
  case (Cons c cs d ds)
  have c: "c = 1 \<or> c = 2 \<or> c = 3" using Cons.prems by simp
  note dc = difference_code [OF c Cons.hyps(1), of t]
  have "d < 256" using near_range(2) [OF c Cons.hyps(1)] by simp
  note to = turn_over [OF this, of t]
  have IH: "foldl add_code w (differences (t + d) ds) = foldl add_bits w (kept_codes (t + d) ds cs)"
    "length (kept_codes (t + d) ds cs) + ((t + d) mod 256 + sum_list ds) div 256 = length cs"
    "(t + d) mod 256 + sum_list ds < 256 \<longrightarrow> kept_codes (t + d) ds cs = cs" for w
    using Cons.IH Cons.prems by simp_all
  have "foldl add_code w (differences t (d # ds)) = foldl add_bits w (kept_codes t (d # ds) (c # cs))"
    using IH(1) by (simp add: add_code_def add_bits_def dc)
  moreover have "length (kept_codes t (d # ds) (c # cs)) + (t mod 256 + sum_list (d # ds)) div 256 = length (c # cs)"
    using IH(2) to(1) [of "sum_list ds"] by (simp split: if_split_asm)
  moreover have "t mod 256 + sum_list (d # ds) < 256 \<longrightarrow> kept_codes t (d # ds) (c # cs) = c # cs"
    using IH(3) to(2) by simp
  ultimately show ?case by blast
qed simp

lemma unat_top2: "unat (drop_bit 6 (b :: BYTE)) < 4"
proof -
  have "unat (drop_bit 6 b) = unat b div 64"
    unfolding unat_drop_bit_eq by (simp add: drop_bit_eq_div)
  with unat_word8_lt [of b] show ?thesis by linarith
qed

lemma four_codes:
  fixes b :: BYTE and w :: WORD
  shows "(((push_bit 8 w OR push_bit 6 (ucast (drop_bit 6 b))) OR push_bit 4 (ucast (drop_bit 6 (push_bit 2 b)))) OR
      push_bit 2 (ucast (drop_bit 6 (push_bit 4 b)))) OR ucast (drop_bit 6 (push_bit 6 b))
    = push_bit 8 w OR ucast b"
proof (rule bit_word_eqI)
  fix n
  assume "n < LENGTH(16)"
  have s: "Suc (Suc (n - 2)) = n" if "2 \<le> n" using that by arith
  have top: "bit b n \<Longrightarrow> n < 8" by (drule bit_imp_le_length) simp
  show "bit ((((push_bit 8 w OR push_bit 6 (ucast (drop_bit 6 b))) OR push_bit 4 (ucast (drop_bit 6 (push_bit 2 b)))) OR
        push_bit 2 (ucast (drop_bit 6 (push_bit 4 b)))) OR ucast (drop_bit 6 (push_bit 6 b))) n
      = bit (push_bit 8 w OR ucast b) n"
    using \<open>n < LENGTH(16)\<close> s top
    by (cases "8 \<le> n"; cases "6 \<le> n"; cases "4 \<le> n"; cases "2 \<le> n") (auto simp: bit_simps)
qed

lemma byte_bits: "foldl add_bits w (mfm_codes b) = push_bit 8 w OR ucast b"
proof -
  have u: "[0..<4] = [0, 1, 2, 3::nat]" by (simp add: upt_rec)
  show ?thesis by (simp add: mfm_codes_def u add_bits_def push_bit_or push_bit_push_bit four_codes)
qed

text \<open>
  C27: the pulses of two MFM bytes, captured by the timer that starts over after 255: the word that is added
  to the write buffer has the codes of exactly those of the eight pulses that end before the timer starts
  over, the others are left out as too long. One is left out for every time the timer starts over, and as
  eight pulses last at least 224 ticks that is once or twice for most words; only when it does not
  happen, the word has the two bytes, high byte first. The next word starts from the last captured value.
\<close>

theorem captured_word:
  assumes "valid_mfm b1" and "valid_mfm b2" and "codes = mfm_codes b1 @ mfm_codes b2" and "list_all2 pulse_near codes ds"
    and "length other = 8" and "lastMfmWriteTC f = of_nat (t mod 256)"
    and "mfmWriteStreamBuffer f = (if ht6 then captured t ds @ other else other @ captured t ds)"
  shows "(\<exists>buf. getMfmWriteTimes ht6 f = wrBuffer_add (code_word (kept_codes t ds codes))
      (f\<lparr>mfmWriteStreamBuffer := buf, lastMfmWriteTC := of_nat ((t + sum_list ds) mod 256)\<rparr>)) \<and>
    length (kept_codes t ds codes) + (t mod 256 + sum_list ds) div 256 = 8 \<and>
    (t mod 256 + sum_list ds < 256 \<longrightarrow> code_word (kept_codes t ds codes) = be16 b1 b2)"
proof -
  have l: "length codes = 8" by (simp add: assms(3) mfm_codes_def)
  then have ld: "length ds = 8" using assms(4) by (simp add: list_all2_lengthD)
  have "c \<noteq> 0 \<and> unat c < 4" if "c \<in> set codes" for c
    using that assms(1,2) unat_top2 unfolding assms(3) by (auto simp: valid_mfm_def mfm_codes_def)
  then have v: "\<forall>c\<in>set codes. c = 1 \<or> c = 2 \<or> c = 3" using code_values by blast
  note k = codes_captured [OF assms(4) v, of 0 t]
  have "last (captured t ds) = of_nat ((t + sum_list ds) mod 256)" by (rule captured_last) (use ld in auto)
  moreover have "mfmWriteStreamBuffer f = (if ht6 then stamps (lastMfmWriteTC f) (differences t ds) @ other
      else other @ stamps (lastMfmWriteTC f) (differences t ds))"
    unfolding assms(6,7) captured_stamps ..
  from getMfmWriteTimes_codes [OF _ assms(5) this] ld
  have "getMfmWriteTimes ht6 f = wrBuffer_add (foldl add_code 0 (differences t ds))
      (f\<lparr>mfmWriteStreamBuffer := (if ht6 then differences t ds @ other else other @ differences t ds),
         lastMfmWriteTC := last (captured t ds)\<rparr>)"
    by (simp add: captured_stamps assms(6))
  moreover have "code_word codes = be16 b1 b2"
    by (simp add: code_word_def assms(3) byte_bits be16_def)
  ultimately show ?thesis using k l unfolding code_word_def by auto
qed

section \<open>Stream position\<close>

lemma stream_position:
  assumes "length (readTrackData f) = READTRACKDATA_SIZE" and "unat m < 400"
  shows "inIndexGet (updateStreamPositionByFloppyPosition m f) = first_end (readTrackData f) * unat m div 400"
proof -
  let ?i = "first_end (readTrackData f)"
  from first_end_le [of "readTrackData f"] assms(1) have i: "?i \<le> 15000" by simp
  then have p: "?i * unat m \<le> 15000 * 399"
    using assms(2) by (intro mult_le_mono) simp_all
  have "unat (of_nat ?i :: DWORD) = ?i"
    using i by (simp add: unat_of_nat)
  then have "unat ((of_nat ?i :: DWORD) * m div 400) = ?i * unat m div 400"
    using p by (simp add: unat_div unat_word_ariths)
  moreover have "?i * unat m div 400 < 65536" using p by (simp add: div_less_iff_less_mult less_eq_Suc_le)
  ultimately show ?thesis
    by (simp add: updateStreamPositionByFloppyPosition_def Let_def unsigned_ucast_eq take_bit_nat_eq_self)
qed

lemma stream_position_in_track:
  assumes "length (readTrackData f) = READTRACKDATA_SIZE" and "unat m < 400"
  shows "inIndexGet (updateStreamPositionByFloppyPosition m f) \<le> first_end (readTrackData f) \<and>
    (0 < first_end (readTrackData f) \<longrightarrow> inIndexGet (updateStreamPositionByFloppyPosition m f) < first_end (readTrackData f))"
proof -
  let ?i = "first_end (readTrackData f)"
  have "?i * unat m div 400 \<le> ?i * 400 div 400"
    using assms(2) by (intro div_le_mono mult_le_mono2) simp
  moreover have "?i * unat m div 400 < ?i" if "0 < ?i"
    using that assms(2) by (simp add: div_less_iff_less_mult)
  ultimately show ?thesis unfolding stream_position [OF assms] by simp
qed

text \<open>
  C33: after a track has been received, the stream resumes at the position of the turning disk: at the
  timer's 400th parts of a turn it is the same part of the track's data, rounded down, without
  overflow for any track, and inside the data.
\<close>

theorem stream_position_value:
  assumes "length (readTrackData f) = READTRACKDATA_SIZE" and "unat m < 400"
  shows "inIndexGet (updateStreamPositionByFloppyPosition m f) = first_end (readTrackData f) * unat m div 400 \<and>
    (0 < first_end (readTrackData f) \<longrightarrow> inIndexGet (updateStreamPositionByFloppyPosition m f) < first_end (readTrackData f))"
  using stream_position [OF assms] stream_position_in_track [OF assms] by blast

end
