(* ===== verification/FranzMain.thy ===== *)
theory FranzMain
  imports FranzPulse
begin

text \<open>
  The floppy firmware's main loop, its SPI transfers to the host, the step interrupt and the host
  commands (src/ce_franz_fw/main.c), as a step relation with its invariant.

  Hardware is input: the value of every timer and input register read in an iteration, the DMA flags
  and, while a transfer is waited for, the polls of the timer and the DMA interrupts between them.
  The step and DMA interrupts run between iterations and between polls. A transfer appends the words
  it sends and the count it receives to \<open>spiLog\<close>.
\<close>

section \<open>SPI transfers\<close>

definition dma_received :: "franz \<Rightarrow> franz" where
  "dma_received f =
     (if weAreReceivingTrack (outFlags f)
      then f\<lparr>outFlags := (outFlags f)\<lparr>weAreReceivingTrack := False, updatePosition := True\<rparr>\<rparr>
      else f)"

definition DMA1_Channel3_IRQHandler :: "franz \<Rightarrow> franz" where
  "DMA1_Channel3_IRQHandler f =
     (let f = (brr ATN f)\<lparr>spiDmaTXidle := True\<rparr>
      in if spiDmaRXidle f then dma_received (f\<lparr>spiDmaIsIdle := True\<rparr>) else f)"

definition DMA1_Channel2_IRQHandler :: "franz \<Rightarrow> franz" where
  "DMA1_Channel2_IRQHandler f =
     (let f = f\<lparr>spiDmaRXidle := True\<rparr>
      in if spiDmaTXidle f then dma_received (f\<lparr>spiDmaIsIdle := True\<rparr>) else f)"

text \<open>The DMA controller finishes a direction: its counter is 0 and the interrupt fires.\<close>

definition tx_complete :: "franz \<Rightarrow> franz" where
  "tx_complete f = DMA1_Channel3_IRQHandler (f\<lparr>cndtr3 := 0\<rparr>)"

definition rx_complete :: "BYTE list \<Rightarrow> franz \<Rightarrow> franz" where
  "rx_complete bs f =
     DMA1_Channel2_IRQHandler
       ((case rxDest f of
           RxCmd \<Rightarrow> f\<lparr>cmdBuffer := overwrite (cmdBuffer f) bs\<rparr>
         | RxTrack \<Rightarrow> f\<lparr>readTrackData := overwrite (readTrackData f) bs\<rparr>
         | RxFake \<Rightarrow> f)\<lparr>cndtr2 := 0\<rparr>)"

text \<open>What happens while the firmware waits: a poll of the timer, or an interrupt.\<close>

datatype poll = Poll WORD | TxDone | RxDone "BYTE list"

fun spiDma_waitForFinish :: "poll list \<Rightarrow> franz \<Rightarrow> (franz \<times> poll list) option" where
  "spiDma_waitForFinish [] f = (if spiDmaIsIdle f then Some (f, []) else None)"
| "spiDma_waitForFinish (p # ps) f =
     (if spiDmaIsIdle f then Some (f, p # ps)
      else case p of
        Poll t \<Rightarrow> (if timeout t f then Some (dma_received (f\<lparr>spiDmaIsIdle := True\<rparr>), ps)
                   else spiDma_waitForFinish ps f)
      | TxDone \<Rightarrow> spiDma_waitForFinish ps (tx_complete f)
      | RxDone bs \<Rightarrow> spiDma_waitForFinish ps (rx_complete bs f))"

text \<open>
  \<open>spiDma_txRx\<close>, with the transmit buffer as argument and result: words 2 and 3 receive the lengths.
  \<open>None\<close>: still waiting when the polls are over. \<open>waitForSPIidle\<close> only waits for the SPI's flags.
\<close>

definition spiDma_txRx ::
  "poll list \<Rightarrow> WORD \<Rightarrow> WORD list \<Rightarrow> WORD \<Rightarrow> rx_dest \<Rightarrow> franz \<Rightarrow> (franz \<times> WORD list) option" where
  "spiDma_txRx ps txCount txBfr rxCount dest f =
     (let txBfr = txBfr[2 := txCount, 3 := rxCount]
      in case spiDma_waitForFinish ps f of
           None \<Rightarrow> None
         | Some (f, _) \<Rightarrow>
             let f = (if ATNcodePrev f = ATN_FW_VERSION
                      then f\<lparr>rpiIsUp := (cndtr3 f = 0 \<and> cndtr2 f = 0)\<rparr> else f);
                 f = f\<lparr>ATNcodePrev := txBfr ! 1,
                       spiDmaTXidle := (txCount = 0), spiDmaRXidle := (rxCount = 0), spiDmaIsIdle := False,
                       cndtr3 := txCount, cndtr2 := rxCount, rxDest := dest,
                       spiLog := spiLog f @ [(take (unat txCount) txBfr, rxCount)]\<rparr>;
                 f = (if txCount \<noteq> 0 then bsrr ATN f else f)
             in Some (f, txBfr))"

section \<open>Host commands and the step interrupt\<close>

definition processHostCommand :: "WORD \<Rightarrow> BYTE \<Rightarrow> franz \<Rightarrow> franz" where
  "processHostCommand t val f =
     (if val = CMD_WRITE_PROTECT_OFF then setupDiskChangeWriteProtect (f\<lparr>isWriteProtected := False\<rparr>)
      else if val = CMD_WRITE_PROTECT_ON then setupDiskChangeWriteProtect (f\<lparr>isWriteProtected := True\<rparr>)
      else if val = CMD_DISK_CHANGE_OFF then setupDiskChangeWriteProtect (f\<lparr>isDiskChanged := False\<rparr>)
      else if val = CMD_DISK_CHANGE_ON
      then FORCE_REQUEST_TRACK t (setupDiskChangeWriteProtect (f\<lparr>isDiskChanged := True\<rparr>))
      else if val = CMD_GET_FW_VERSION then f\<lparr>sendFwVersion := True\<rparr>
      else if val = CMD_SET_DRIVE_ID_0 then setupDriveSelect (f\<lparr>driveId := 0\<rparr>)
      else if val = CMD_SET_DRIVE_ID_1 then setupDriveSelect (f\<lparr>driveId := 1\<rparr>)
      else if val = CMD_DRIVE_ENABLED then setupDriveSelect (f\<lparr>driveEnabled := True\<rparr>)
      else if val = CMD_DRIVE_DISABLED then setupDriveSelect (f\<lparr>driveEnabled := False\<rparr>)
      else f)"

text \<open>\<open>EXTI3_IRQHandler\<close> at time \<open>t\<close> of TIM4 with the inputs \<open>idr\<close>.\<close>

definition EXTI3_IRQHandler :: "WORD \<Rightarrow> WORD \<Rightarrow> franz \<Rightarrow> franz" where
  "EXTI3_IRQHandler t idr f =
     (let dif = t - prevStepTime f;
          dif = (if dif > 255 then 255 else dif)
      in if dif < 2 then f
         else let f = f\<lparr>prevStepTime := t\<rparr>
              in if idr AND MOTOR_ENABLE \<noteq> 0 then f
                 else let tr = dp_track (dp_now f);
                          f = (if idr AND DIR \<noteq> 0
                               then if tr > 0
                                    then REQUEST_TRACK t (f\<lparr>dp_now := (dp_now f)\<lparr>dp_track := tr - 1\<rparr>\<rparr>) else f
                               else if tr < 85
                                    then REQUEST_TRACK t (f\<lparr>dp_now := (dp_now f)\<lparr>dp_track := tr + 1\<rparr>\<rparr>) else f)
                      in if dp_track (dp_now f) = 0 then brr TRACK0 f else bsrr TRACK0 f)"

section \<open>The main loop\<close>

record main_in =
  mi_time :: WORD
  mi_polls :: "poll list"
  mi_idr :: WORD
  mi_tim3 :: WORD
  mi_capture :: "WORD list"
  mi_ht6 :: bool
  mi_tc6 :: bool
  mi_ht5 :: bool
  mi_tc5 :: bool
  mi_index :: bool
  mi_tim2 :: DWORD

definition main_receiving :: "franz \<Rightarrow> franz" where
  "main_receiving f =
     (if sendTrackRequest f
      then (fillReadStreamBufferWithDummyData f)\<lparr>outFlags := (outFlags f)\<lparr>weAreReceivingTrack := True\<rparr>\<rparr>
      else f)"

definition main_position :: "main_in \<Rightarrow> franz \<Rightarrow> franz" where
  "main_position i f =
     (if updatePosition (outFlags f)
      then updateStreamPositionByFloppyPosition (mi_tim2 i) (f\<lparr>outFlags := (outFlags f)\<lparr>updatePosition := False\<rparr>\<rparr>)
      else f)"

definition main_outputs :: "franz \<Rightarrow> franz" where
  "main_outputs f =
     (if stWantsTheStream (outFlags f) \<and> \<not> weAreReceivingTrack (outFlags f)
      then if \<not> outputsAreEnabled (outFlags f)
           then (FloppyOut_Enable f)\<lparr>outFlags := (outFlags f)\<lparr>outputsAreEnabled := True\<rparr>\<rparr> else f
      else if outputsAreEnabled (outFlags f)
           then (FloppyOut_Disable f)\<lparr>outFlags := (outFlags f)\<lparr>outputsAreEnabled := False\<rparr>\<rparr> else f)"

definition send_fw :: "main_in \<Rightarrow> franz \<Rightarrow> franz option" where
  "send_fw i f =
     (let f = (if isDiskChanged f then setupDiskChangeWriteProtect (f\<lparr>isDiskChanged := False\<rparr>) else f);
          f = timeoutStart (mi_time i) f
      in case spiDma_txRx (mi_polls i) ATN_SENDFWVERSION_LEN (atnSendFwVersion f) ATN_SENDFWVERSION_LEN RxCmd f of
           None \<Rightarrow> None
         | Some (f, buf) \<Rightarrow> Some (f\<lparr>atnSendFwVersion := buf, sendFwVersion := False\<rparr>))"

definition send_track_request :: "main_in \<Rightarrow> franz \<Rightarrow> franz option" where
  "send_track_request i f =
     (if mi_time i - lastRequestTime f \<ge> 30
      then let f = f\<lparr>sendTrackRequest := False\<rparr>
           in if dp_track (dp_next f) \<noteq> dp_track (lastRequested f) \<or> dp_side (dp_next f) \<noteq> dp_side (lastRequested f)
              then let f = timeoutStart (mi_time i) (f\<lparr>lastRequested := dp_next f\<rparr>);
                       buf = (atnSendTrackRequest f)
                               [4 := push_bit 8 (ucast (dp_side (dp_next f))) OR ucast (dp_track (dp_next f))]
                   in case spiDma_txRx (mi_polls i) ATN_SENDTRACK_REQ_LEN_TX buf ATN_SENDTRACK_REQ_LEN_RX RxTrack f of
                        None \<Rightarrow> None
                      | Some (f, buf) \<Rightarrow>
                          Some (f\<lparr>atnSendTrackRequest := buf, outFlags := (outFlags f)\<lparr>weAreReceivingTrack := True\<rparr>\<rparr>)
              else Some f
      else Some f)"

definition send_written :: "main_in \<Rightarrow> franz \<Rightarrow> franz option" where
  "send_written i f =
     (let f = timeoutStart (mi_time i) f; b = wrBuffer f ! wrNow f
      in case spiDma_txRx (mi_polls i) (wb_count b) (wb_buffer b) 1 RxFake f of
           None \<Rightarrow> None
         | Some (f, buf) \<Rightarrow>
             let f = f\<lparr>wrBuffer := (wrBuffer f)[wrNow f := b\<lparr>wb_buffer := buf, wb_readyToSend := False\<rparr>]\<rparr>;
                 n = wb_next b
             in Some (f\<lparr>wrNow := n,
                        wrBuffer := (wrBuffer f)[n := (wrBuffer f ! n)\<lparr>wb_readyToSend := False, wb_count := 4\<rparr>]\<rparr>))"

text \<open>
  In \<open>main\<close> the name \<open>spiDmaIsIdle\<close> is a local that hides the global flag and is never assigned after
  its initialisation to \<open>TRUE\<close>, so this branch is always taken.
\<close>

definition main_spi :: "main_in \<Rightarrow> franz \<Rightarrow> franz option" where
  "main_spi i f =
     (if sendFwVersion f then send_fw i f
      else if sendTrackRequest f then send_track_request i f
      else if wb_readyToSend (wrBuffer f ! wrNow f) then send_written i f
      else Some f)"

definition main_commands :: "main_in \<Rightarrow> franz \<Rightarrow> franz" where
  "main_commands i f =
     (if cmdBuffer f ! 0 \<noteq> CMD_MARK_READ_BYTE
      then let f = fold (\<lambda>k f. processHostCommand (mi_time i) (cmdBuffer f ! k) f) [0..<12] f
           in f\<lparr>cmdBuffer := (cmdBuffer f)[0 := CMD_MARK_READ_BYTE]\<rparr>
      else f)"

definition set_ready :: "bool \<Rightarrow> franz \<Rightarrow> franz" where
  "set_ready r f = f\<lparr>wrBuffer := (wrBuffer f)[wrNow f := (wrBuffer f ! wrNow f)\<lparr>wb_readyToSend := r\<rparr>]\<rparr>"

definition sector_word :: "SStreamed \<Rightarrow> WORD" where
  "sector_word st =
     (let wval = push_bit 8 (ucast (ss_track st)) OR ucast (ss_sector st)
      in if ss_side st \<noteq> 0 then wval OR 0x8000 else wval)"

definition main_wgate :: "main_in \<Rightarrow> franz \<Rightarrow> franz" where
  "main_wgate i f =
     (let f = f\<lparr>outFlags := (outFlags f)\<lparr>stWantsTheStream := (mi_idr i AND drive_select f = 0)\<rparr>\<rparr>;
          WGate = mi_idr i AND WGATE
      in if prevWGate f \<noteq> WGate
         then let f = (if WGate = 0
                       then wrBuffer_add (sector_word (streamed f)) (set_ready False (f\<lparr>lastMfmWriteTC := mi_tim3 i\<rparr>))
                       else set_ready True (wrBuffer_add 0 f))
              in f\<lparr>prevWGate := WGate\<rparr>
         else f)"

definition main_mfm :: "main_in \<Rightarrow> franz \<Rightarrow> franz" where
  "main_mfm i f =
     (let f = (if mi_idr i AND WGATE = 0 \<and> (mi_tc6 i \<or> mi_ht6 i)
               then getMfmWriteTimes (mi_ht6 i) (f\<lparr>mfmWriteStreamBuffer := mi_capture i\<rparr>) else f)
      in if mi_tc5 i \<or> mi_ht5 i then fillMfmTimesForDMA (mi_tc5 i) f else f)"

definition main_index :: "main_in \<Rightarrow> franz \<Rightarrow> franz" where
  "main_index i f =
     (if mi_index i
      then let f = readTrackData_goToStart f;
               f = f\<lparr>trackStreamedCount := trackStreamedCount f + 1\<rparr>;
               f = (if trackStreamedCount f \<ge> 2 \<and>
                       (ss_track (streamed f) \<noteq> dp_track (dp_now f) \<or> ss_side (streamed f) \<noteq> dp_side (dp_now f))
                    then REQUEST_TRACK (mi_time i) f else f);
               f = f\<lparr>streamed := (streamed f)\<lparr>ss_track := 0xff, ss_side := 0xff\<rparr>\<rparr>;
               f = fillReadStreamBufferWithDummyData f;
               f = f\<lparr>indexCount := indexCount f + 1\<rparr>
           in if indexCount f = 5 then f\<lparr>indexCount := 0, sendFwVersion := True\<rparr> else f
      else f)"

definition main_side :: "main_in \<Rightarrow> franz \<Rightarrow> franz" where
  "main_side i f =
     (if mi_idr i AND MOTOR_ENABLE \<noteq> 0 then f
      else let f = f\<lparr>dp_now := (dp_now f)\<lparr>dp_side := (if mi_idr i AND SIDE1 \<noteq> 0 then 0 else 1)\<rparr>\<rparr>
           in if dp_side (dp_prev f) \<noteq> dp_side (dp_now f)
              then (REQUEST_TRACK (mi_time i) f)\<lparr>dp_prev := (dp_prev f)\<lparr>dp_side := dp_side (dp_now f)\<rparr>\<rparr>
              else f)"

definition main_iter :: "main_in \<Rightarrow> franz \<Rightarrow> franz option" where
  "main_iter i f =
     (case main_spi i (main_outputs (main_position i (main_receiving f))) of
        None \<Rightarrow> None
      | Some f \<Rightarrow> Some (main_side i (main_index i (main_mfm i (main_wgate i (main_commands i f))))))"

end
