(* ===== verification/FranzInv.thy ===== *)
theory FranzInv
  imports FranzMain
begin

text \<open>
  The invariant of the floppy firmware and its preservation by every operation of the main loop and
  by the interrupts: write buffers within their size and linked to each other, read position and MFM
  times in range, the track between 0 and 85 and the TRACK0 pin true to it.
\<close>

section \<open>The invariant\<close>

lemma franz_inv_frame [simp]:
  "franz_inv (f\<lparr>streamed := a1\<rparr>) = franz_inv f"
  "franz_inv (f\<lparr>lastMfmWriteTC := a2\<rparr>) = franz_inv f"
  "franz_inv (f\<lparr>drive_select := a3\<rparr>) = franz_inv f"
  "franz_inv (f\<lparr>sendFwVersion := a4\<rparr>) = franz_inv f"
  "franz_inv (f\<lparr>sendTrackRequest := a5\<rparr>) = franz_inv f"
  "franz_inv (f\<lparr>spiDmaIsIdle := a6\<rparr>) = franz_inv f"
  "franz_inv (f\<lparr>spiDmaTXidle := a7\<rparr>) = franz_inv f"
  "franz_inv (f\<lparr>spiDmaRXidle := a8\<rparr>) = franz_inv f"
  "franz_inv (f\<lparr>dp_next := a9\<rparr>) = franz_inv f"
  "franz_inv (f\<lparr>lastRequested := b1\<rparr>) = franz_inv f"
  "franz_inv (f\<lparr>dp_prev := b2\<rparr>) = franz_inv f"
  "franz_inv (f\<lparr>lastRequestTime := b3\<rparr>) = franz_inv f"
  "franz_inv (f\<lparr>rpiIsUp := b4\<rparr>) = franz_inv f"
  "franz_inv (f\<lparr>driveId := b5\<rparr>) = franz_inv f"
  "franz_inv (f\<lparr>driveEnabled := b6\<rparr>) = franz_inv f"
  "franz_inv (f\<lparr>isDiskChanged := b7\<rparr>) = franz_inv f"
  "franz_inv (f\<lparr>isWriteProtected := b8\<rparr>) = franz_inv f"
  "franz_inv (f\<lparr>trackStreamedCount := b9\<rparr>) = franz_inv f"
  "franz_inv (f\<lparr>outFlags := c1\<rparr>) = franz_inv f"
  "franz_inv (f\<lparr>prevStepTime := c2\<rparr>) = franz_inv f"
  "franz_inv (f\<lparr>ATNcodePrev := c3\<rparr>) = franz_inv f"
  "franz_inv (f\<lparr>toStart := c4\<rparr>) = franz_inv f"
  "franz_inv (f\<lparr>cndtr3 := c5\<rparr>) = franz_inv f"
  "franz_inv (f\<lparr>cndtr2 := c6\<rparr>) = franz_inv f"
  "franz_inv (f\<lparr>rxDest := c7\<rparr>) = franz_inv f"
  "franz_inv (f\<lparr>spiLog := c8\<rparr>) = franz_inv f"
  "franz_inv (f\<lparr>gpioA_crl := c9\<rparr>) = franz_inv f"
  "franz_inv (f\<lparr>gpioA_crh := d1\<rparr>) = franz_inv f"
  "franz_inv (f\<lparr>gpioB_crh := d2\<rparr>) = franz_inv f"
  "franz_inv (f\<lparr>indexCount := d3\<rparr>) = franz_inv f"
  "franz_inv (f\<lparr>prevWGate := d4\<rparr>) = franz_inv f"
  by (simp_all add: franz_inv_def wr_inv_def mfm_ok_def pos_ok_def)

lemma franz_inv_pins [simp]:
  "m AND TRACK0 = 0 \<Longrightarrow> franz_inv (bsrr m f) = franz_inv f"
  "m AND TRACK0 = 0 \<Longrightarrow> franz_inv (brr m f) = franz_inv f"
  by (simp_all add: franz_inv_def wr_inv_def mfm_ok_def pos_ok_def bsrr_def brr_def or_other_bits and_not_other_bits)

lemma franz_inv_side [simp]:
  "franz_inv (f\<lparr>dp_now := (dp_now f)\<lparr>dp_side := s\<rparr>\<rparr>) = franz_inv f"
  by (simp add: franz_inv_def wr_inv_def mfm_ok_def pos_ok_def)

lemma franz_inv_buffers [simp]:
  "franz_inv f \<Longrightarrow> length v = 8 \<Longrightarrow> franz_inv (f\<lparr>atnSendFwVersion := v\<rparr>)"
  "franz_inv f \<Longrightarrow> length v = 6 \<Longrightarrow> franz_inv (f\<lparr>atnSendTrackRequest := v\<rparr>)"
  "franz_inv f \<Longrightarrow> length c = 16 \<Longrightarrow> franz_inv (f\<lparr>cmdBuffer := c\<rparr>)"
  "franz_inv f \<Longrightarrow> length c = READTRACKDATA_SIZE \<Longrightarrow> franz_inv (f\<lparr>readTrackData := c\<rparr>)"
  "franz_inv f \<Longrightarrow> length w = 16 \<Longrightarrow> franz_inv (f\<lparr>mfmWriteStreamBuffer := w\<rparr>)"
  "franz_inv f \<Longrightarrow> n < READTRACKDATA_SIZE \<Longrightarrow> franz_inv (f\<lparr>inIndexGet := n\<rparr>)"
  by (simp_all add: franz_inv_def wr_inv_def mfm_ok_def pos_ok_def)

lemma franz_inv_lengths:
  assumes "franz_inv f"
  shows "length (atnSendFwVersion f) = 8" "length (atnSendTrackRequest f) = 6" "length (cmdBuffer f) = 16"
    "length (readTrackData f) = READTRACKDATA_SIZE" "length (mfmReadStreamBuffer f) = 16"
    "length (wrBuffer f) = 2" "wrNow f < 2" "wb_ok (wrBuffer f ! wrNow f)" "wb_next (wrBuffer f ! wrNow f) = 1 - wrNow f"
    "wb_ok (wrBuffer f ! (1 - wrNow f))" "wb_next (wrBuffer f ! (1 - wrNow f)) = wrNow f"
  using assms by (auto simp: franz_inv_def wr_inv_def mfm_ok_def less_2_cases_iff)

lemma franz_inv_wrBuffer:
  assumes "franz_inv f" and "wb_ok b" and "wb_next b = 1 - k" and "k < 2"
  shows "franz_inv (f\<lparr>wrBuffer := (wrBuffer f)[k := b]\<rparr>)"
  using assms by (auto simp: franz_inv_def wr_inv_def mfm_ok_def pos_ok_def less_2_cases_iff)

lemma franz_inv_wrNow: "franz_inv f \<Longrightarrow> k < 2 \<Longrightarrow> franz_inv (f\<lparr>wrNow := k\<rparr>)"
  by (simp add: franz_inv_def wr_inv_def mfm_ok_def pos_ok_def)

lemma dummy_data_value: "length xs = 16 \<Longrightarrow> foldl (\<lambda>b i. b[i := 7]) xs [0..<16] = replicate 16 (7::WORD)"
  by (simp add: foldl_update_upt [where f = "\<lambda>_. 7"] map_replicate_const)

lemma franz_inv_dummy [simp]: "franz_inv f \<Longrightarrow> franz_inv (fillReadStreamBufferWithDummyData f)"
  by (auto simp: fillReadStreamBufferWithDummyData_def franz_inv_lengths dummy_data_value)
    (simp add: franz_inv_def wr_inv_def mfm_ok_def pos_ok_def)

lemma franz_inv_setup [simp]:
  "franz_inv f \<Longrightarrow> franz_inv (setupDriveSelect f)"
  "franz_inv f \<Longrightarrow> franz_inv (setupDiskChangeWriteProtect f)"
  "franz_inv f \<Longrightarrow> franz_inv (REQUEST_TRACK t f)"
  "franz_inv f \<Longrightarrow> franz_inv (FORCE_REQUEST_TRACK t f)"
  "franz_inv f \<Longrightarrow> franz_inv (timeoutStart t f)"
  "franz_inv f \<Longrightarrow> franz_inv (FloppyOut_Enable f)"
  "franz_inv f \<Longrightarrow> franz_inv (FloppyOut_Disable f)"
  by (simp_all add: setupDriveSelect_def setupDiskChangeWriteProtect_def REQUEST_TRACK_def FORCE_REQUEST_TRACK_def
      timeoutStart_def FloppyOut_Enable_def FloppyOut_Disable_def FloppyMFMread_Enable_def FloppyMFMread_Disable_def
      FloppyIndex_Enable_def FloppyIndex_Disable_def Let_def)

lemma franz_inv_irqs [simp]:
  "franz_inv f \<Longrightarrow> franz_inv (dma_received f)"
  "franz_inv f \<Longrightarrow> franz_inv (tx_complete f)"
  "franz_inv f \<Longrightarrow> franz_inv (rx_complete bs f)"
  by (simp_all add: dma_received_def tx_complete_def rx_complete_def DMA1_Channel3_IRQHandler_def DMA1_Channel2_IRQHandler_def
      Let_def franz_inv_lengths split: rx_dest.split)

lemma franz_inv_wait: "franz_inv f \<Longrightarrow> spiDma_waitForFinish ps f = Some (g, qs) \<Longrightarrow> franz_inv g"
  by (induction ps f arbitrary: g qs rule: spiDma_waitForFinish.induct) (auto split: if_splits poll.splits)

lemma franz_inv_txRx:
  assumes "franz_inv f" and "spiDma_txRx ps n buf m d f = Some (g, buf')"
  shows "franz_inv g" and "buf' = buf[2 := n, 3 := m]" 
  using assms by (auto simp: spiDma_txRx_def Let_def split: option.splits prod.splits if_splits dest: franz_inv_wait)

lemma txRx_inv:
  "spiDma_txRx ps n buf m d f = Some (g, buf') \<Longrightarrow> franz_inv f \<Longrightarrow> franz_inv g \<and> buf' = buf[2 := n, 3 := m]"
  by (blast dest: franz_inv_txRx)

text \<open>Waiting and starting a transfer leave the write buffers and the requested position alone.\<close>

definition kept :: "franz \<Rightarrow> TWriteBuffer list \<times> nat \<times> TDrivePosition \<times> TDrivePosition \<times> (WORD list \<times> WORD) list \<times> bool" where
  "kept f = (wrBuffer f, wrNow f, dp_next f, lastRequested f, spiLog f, sendTrackRequest f)"

lemma kept_irq:
  "kept (dma_received f) = kept f" "kept (tx_complete f) = kept f" "kept (rx_complete bs f) = kept f"
  "kept (f\<lparr>spiDmaIsIdle := b\<rparr>) = kept f"
  by (simp_all add: kept_def dma_received_def tx_complete_def rx_complete_def DMA1_Channel3_IRQHandler_def
      DMA1_Channel2_IRQHandler_def Let_def brr_def split: rx_dest.split)

lemma wait_kept: "spiDma_waitForFinish ps f = Some (g, qs) \<Longrightarrow> kept g = kept f"
proof (induction ps arbitrary: f)
  case (Cons p ps)
  then show ?case by (cases p) (auto simp: kept_irq split: if_splits)
qed (simp split: if_splits)

lemma txRx_frame:
  assumes "spiDma_txRx ps n buf m d f = Some (g, buf')"
  shows "wrBuffer g = wrBuffer f" "wrNow g = wrNow f" "dp_next g = dp_next f" "lastRequested g = lastRequested f"
    "spiLog g = spiLog f @ [(take (unat n) buf', m)]" "sendTrackRequest g = sendTrackRequest f"
proof -
  from assms obtain h qs where h: "spiDma_waitForFinish ps f = Some (h, qs)"
    by (auto simp: spiDma_txRx_def Let_def split: option.splits)
  from wait_kept [OF h] assms h
  show "wrBuffer g = wrBuffer f" "wrNow g = wrNow f" "dp_next g = dp_next f" "lastRequested g = lastRequested f"
    "spiLog g = spiLog f @ [(take (unat n) buf', m)]" "sendTrackRequest g = sendTrackRequest f"
    by (auto simp: spiDma_txRx_def Let_def bsrr_def kept_def split: if_splits)
qed

lemma wb_ok_updates [simp]:
  "wb_ok b \<Longrightarrow> wb_ok (b\<lparr>wb_readyToSend := r\<rparr>)"
  "wb_ok b \<Longrightarrow> wb_ok (b\<lparr>wb_buffer := (wb_buffer b)[2 := x, 3 := y], wb_readyToSend := r\<rparr>)"
  "wb_ok b \<Longrightarrow> wb_ok (b\<lparr>wb_readyToSend := r, wb_count := 4\<rparr>)"
  by (simp_all add: wb_ok_def)

lemma franz_inv_send_fw:
  assumes "franz_inv f" and "send_fw i f = Some g"
  shows "franz_inv g"
proof -
  from assms(1) have "franz_inv (timeoutStart (mi_time i)
      (if isDiskChanged f then setupDiskChangeWriteProtect (f\<lparr>isDiskChanged := False\<rparr>) else f))"
    by simp
  note t = txRx_inv [OF _ this]
  from assms show ?thesis
    by (auto simp: send_fw_def Let_def franz_inv_lengths split: option.splits prod.splits dest!: t)
qed

lemma franz_inv_send_track_request:
  assumes "franz_inv f" and "send_track_request i f = Some g"
  shows "franz_inv g"
proof -
  from assms(1) have "franz_inv (timeoutStart (mi_time i) (f\<lparr>sendTrackRequest := False, lastRequested := dp_next f\<rparr>))"
    by simp
  note t = txRx_inv [OF _ this]
  from assms show ?thesis
    by (auto simp: send_track_request_def Let_def franz_inv_lengths split: option.splits prod.splits if_splits dest!: t)
qed

lemma franz_inv_send_written:
  assumes "franz_inv f" and "send_written i f = Some g"
  shows "franz_inv g"
proof -
  let ?f = "timeoutStart (mi_time i) f"
  let ?b = "wrBuffer ?f ! wrNow ?f"
  from assms(1) have inv: "franz_inv ?f" by simp
  from assms(2) obtain h buf where h: "spiDma_txRx (mi_polls i) (wb_count ?b) (wb_buffer ?b) 1 RxFake ?f = Some (h, buf)"
    and g: "g = (let k = h\<lparr>wrBuffer := (wrBuffer h)[wrNow h := ?b\<lparr>wb_buffer := buf, wb_readyToSend := False\<rparr>]\<rparr>
      in k\<lparr>wrNow := wb_next ?b,
           wrBuffer := (wrBuffer k)[wb_next ?b := (wrBuffer k ! wb_next ?b)\<lparr>wb_readyToSend := False, wb_count := 4\<rparr>]\<rparr>)"
    by (auto simp: send_written_def Let_def split: option.splits prod.splits)
  from franz_inv_txRx [OF inv h] have inv_h: "franz_inv h"
    and buf: "buf = (wb_buffer ?b)[2 := wb_count ?b, 3 := 1]" by auto
  note l = franz_inv_lengths [OF inv] and fr = txRx_frame [OF h]
  let ?k = "h\<lparr>wrBuffer := (wrBuffer h)[wrNow h := ?b\<lparr>wb_buffer := buf, wb_readyToSend := False\<rparr>]\<rparr>"
  have k: "franz_inv ?k"
    using l fr by (intro franz_inv_wrBuffer [OF inv_h]) (simp_all add: buf)
  have n: "wb_next ?b = 1 - wrNow ?k" "wrNow ?k < 2"
    using l fr by simp_all
  note lk = franz_inv_lengths [OF k]
  let ?n = "?k\<lparr>wrNow := wb_next ?b\<rparr>"
  from n have inv_n: "franz_inv ?n" by (intro franz_inv_wrNow [OF k]) simp
  from lk(11) n have "wb_next (wrBuffer ?k ! wb_next ?b) = 1 - wb_next ?b" by simp
  then have "franz_inv (?n\<lparr>wrBuffer := (wrBuffer ?n)[wb_next ?b := (wrBuffer ?n ! wb_next ?b)\<lparr>wb_readyToSend := False, wb_count := 4\<rparr>]\<rparr>)"
    using lk(10) n by (intro franz_inv_wrBuffer [OF inv_n]) simp_all
  then show ?thesis by (simp add: g Let_def)
qed

lemma franz_inv_main_spi: "main_spi i f = Some g \<Longrightarrow> franz_inv f \<Longrightarrow> franz_inv g"
  unfolding main_spi_def
  by (auto split: if_splits intro: franz_inv_send_fw franz_inv_send_track_request franz_inv_send_written)

lemma franz_inv_command [simp]: "franz_inv f \<Longrightarrow> franz_inv (processHostCommand t v f)"
  by (simp add: processHostCommand_def)

lemma franz_inv_main_commands: "franz_inv f \<Longrightarrow> franz_inv (main_commands i f)"
proof -
  have "franz_inv g \<Longrightarrow> franz_inv (fold (\<lambda>k f. processHostCommand (mi_time i) (cmdBuffer f ! k) f) ks g)" for ks g
    by (induction ks arbitrary: g) simp_all
  then show "franz_inv f \<Longrightarrow> franz_inv (main_commands i f)"
    by (simp add: main_commands_def Let_def franz_inv_lengths)
qed

lemma franz_inv_set_ready: "franz_inv f \<Longrightarrow> franz_inv (set_ready r f)"
  unfolding set_ready_def by (rule franz_inv_wrBuffer) (simp_all add: franz_inv_lengths)

lemma franz_inv_wrBuffer_add:
  assumes "franz_inv f"
  shows "franz_inv (wrBuffer_add x f)"
proof (cases "unat (wb_count (wrBuffer f ! wrNow f)) < WRITEBUFFER_SIZE")
  case True
  note l = franz_inv_lengths [OF assms]
  from True have "unat (wb_count (wrBuffer f ! wrNow f) + 1) = Suc (unat (wb_count (wrBuffer f ! wrNow f)))"
    by (simp add: unat_word_ariths)
  with True l(8) have "wb_ok ((wrBuffer f ! wrNow f)
      \<lparr>wb_buffer := (wb_buffer (wrBuffer f ! wrNow f))[unat (wb_count (wrBuffer f ! wrNow f)) := x],
       wb_count := wb_count (wrBuffer f ! wrNow f) + 1\<rparr>)"
    by (auto simp: wb_ok_def)
  from franz_inv_wrBuffer [OF assms this, of "wrNow f"] l True show ?thesis
    by (simp add: wrBuffer_add_def Let_def)
next
  case False
  with assms show ?thesis by (simp add: wrBuffer_add_def Let_def)
qed

lemma franz_inv_main_wgate: "franz_inv f \<Longrightarrow> franz_inv (main_wgate i f)"
  by (simp add: main_wgate_def Let_def franz_inv_set_ready franz_inv_wrBuffer_add)

text \<open>The read side only touches its own fields.\<close>

definition rest_of :: "franz \<Rightarrow> TWriteBuffer list \<times> nat \<times> TDrivePosition \<times> WORD \<times> WORD list \<times> WORD list \<times> BYTE list" where
  "rest_of f = (wrBuffer f, wrNow f, dp_now f, gpioB_odr f, atnSendFwVersion f, atnSendTrackRequest f, cmdBuffer f)"

lemma franz_inv_rest:
  "franz_inv f \<Longrightarrow> rest_of g = rest_of f \<Longrightarrow> mfm_ok g \<Longrightarrow> franz_inv g"
  by (simp add: franz_inv_def rest_of_def wr_inv_def pos_ok_def)

lemma rest_of_scan: "rest_of (fst (mfm_scan n f)) = rest_of f"
proof (induction n arbitrary: f)
  case (Suc n)
  have "rest_of (readTrackData_justMove f) = rest_of f" "rest_of (read_sector_mark f) = rest_of f" for f
    by (simp_all add: rest_of_def readTrackData_justMove_def read_sector_mark_def Let_def)
  moreover have "rest_of (f\<lparr>gapIndex := 0\<rparr>) = rest_of f" for f by (simp add: rest_of_def)
  ultimately show ?case by (simp add: Let_def Suc)
qed simp

lemma rest_of_getNext: "rest_of (fst (getNextMFMbyte f)) = rest_of f"
  using rest_of_scan [of 14999 f] by (auto simp: getNextMFMbyte_def rest_of_def split: prod.splits option.splits)

lemma rest_of_fill_one: "rest_of (fst (fill_one i s)) = rest_of (fst s)"
  using rest_of_getNext [of "fst s"] by (auto simp: fill_one_def Let_def rest_of_def split: prod.splits)

lemma rest_of_fill: "rest_of (fillMfmTimesForDMA tc5 f) = rest_of f"
proof -
  have "rest_of (fst (fold fill_one ks s)) = rest_of (fst s)" for ks s
    by (induction ks arbitrary: s) (simp_all add: rest_of_fill_one)
  then show ?thesis by (simp add: fillMfmTimesForDMA_def)
qed

lemma franz_inv_fill: "franz_inv f \<Longrightarrow> franz_inv (fillMfmTimesForDMA tc5 f)"
  by (rule franz_inv_rest [of f]) (simp_all add: rest_of_fill mfm_ok_fill franz_inv_def)

lemma length_write_diffs [simp]: "length (write_diffs k c xs) = length xs"
proof -
  have "length (foldl (\<lambda>b i. b[k - i := b ! (k - i) - b ! (k - i - 1)]) ys is) = length ys" for ys :: "WORD list" and "is"
    by (induction "is" arbitrary: ys) simp_all
  then show ?thesis by (simp add: write_diffs_def Let_def)
qed

lemma franz_inv_getMfmWriteTimes:
  assumes "franz_inv f" and "length (mfmWriteStreamBuffer f) = 16"
  shows "franz_inv (getMfmWriteTimes ht6 f)"
  using assms by (simp add: getMfmWriteTimes_def Let_def case_prod_beta franz_inv_wrBuffer_add)

text \<open>What the hardware guarantees: TIM2 counts 0 to 399, the capture buffer has 16 entries.\<close>

definition mi_ok :: "main_in \<Rightarrow> bool" where
  "mi_ok i \<longleftrightarrow> unat (mi_tim2 i) < 400 \<and> length (mi_capture i) = 16"

lemma franz_inv_main_mfm: "mi_ok i \<Longrightarrow> franz_inv f \<Longrightarrow> franz_inv (main_mfm i f)"
  by (simp add: main_mfm_def Let_def franz_inv_fill franz_inv_getMfmWriteTimes mi_ok_def)

lemma franz_inv_main_index: "franz_inv f \<Longrightarrow> franz_inv (main_index i f)"
  by (simp add: main_index_def Let_def readTrackData_goToStart_def)

lemma franz_inv_main_side: "franz_inv f \<Longrightarrow> franz_inv (main_side i f)"
  by (simp add: main_side_def Let_def)

lemma franz_inv_main_position:
  assumes "mi_ok i" and "franz_inv f"
  shows "franz_inv (main_position i f)"
proof (cases "updatePosition (outFlags f)")
  case True
  let ?f = "f\<lparr>outFlags := (outFlags f)\<lparr>updatePosition := False\<rparr>\<rparr>"
  from assms have m: "unat (mi_tim2 i) < 400" and l: "length (readTrackData ?f) = READTRACKDATA_SIZE"
    by (simp_all add: mi_ok_def franz_inv_lengths)
  have "inIndexGet (updateStreamPositionByFloppyPosition (mi_tim2 i) ?f) < READTRACKDATA_SIZE"
    using stream_position_in_track [OF l m] first_end_le [of "readTrackData ?f"] l by fastforce
  with assms(2) True show ?thesis
    by (simp add: main_position_def updateStreamPositionByFloppyPosition_def Let_def)
next
  case False
  with assms show ?thesis by (simp add: main_position_def)
qed

lemma franz_inv_main_iter: "mi_ok i \<Longrightarrow> franz_inv f \<Longrightarrow> main_iter i f = Some g \<Longrightarrow> franz_inv g"
  by (auto simp: main_iter_def main_outputs_def main_receiving_def franz_inv_main_side franz_inv_main_index
      franz_inv_main_mfm franz_inv_main_wgate franz_inv_main_commands franz_inv_main_position
      split: option.splits dest!: franz_inv_main_spi)

lemma bsrr_brr_TRACK0:
  "gpioB_odr (brr TRACK0 f) AND TRACK0 = 0" "gpioB_odr (bsrr TRACK0 f) AND TRACK0 = TRACK0"
  by (simp_all add: brr_def bsrr_def bit.conj_disj_distrib2 bit_eq_iff bit_simps)

end
