(* ===== verification/FranzRun.thy ===== *)
theory FranzRun
  imports FranzInv
begin

text \<open>
  Runs of the floppy firmware (src/ce_franz_fw/main.c): iterations of the main loop interleaved with
  the step and DMA interrupts, as a step relation from the state \<open>main\<close> starts its loop in. What
  every reachable state satisfies, what a written sector becomes on the SPI, and when a track is
  requested from the host.
\<close>

section \<open>The step interrupt\<close>

lemma franz_inv_track:
  assumes "franz_inv f" and "t \<le> 85"
  shows "t = 0 \<Longrightarrow> franz_inv (brr TRACK0 (f\<lparr>dp_now := (dp_now f)\<lparr>dp_track := t\<rparr>\<rparr>))"
    and "t \<noteq> 0 \<Longrightarrow> franz_inv (bsrr TRACK0 (f\<lparr>dp_now := (dp_now f)\<lparr>dp_track := t\<rparr>\<rparr>))"
  using assms bsrr_brr_TRACK0 [of "f\<lparr>dp_now := (dp_now f)\<lparr>dp_track := t\<rparr>\<rparr>"]
  by (auto simp: franz_inv_def wr_inv_def mfm_ok_def pos_ok_def brr_def bsrr_def)

definition step_track :: "WORD \<Rightarrow> BYTE \<Rightarrow> BYTE" where
  "step_track idr tr =
     (if idr AND DIR \<noteq> 0 then if tr > 0 then tr - 1 else tr else if tr < 85 then tr + 1 else tr)"

lemma step_track_le: "tr \<le> 85 \<Longrightarrow> step_track idr tr \<le> 85"
proof -
  assume "tr \<le> 85"
  then have t: "unat tr \<le> 85" by (simp add: word_le_nat_alt)
  have "unat (tr - 1) \<le> 85" if "tr > 0" using that t by (simp add: unat_minus_one word_gt_0)
  moreover have "unat (tr + 1) \<le> 85" if "tr < 85"
    using that by (simp add: word_less_nat_alt unat_word_ariths)
  ultimately show ?thesis using t by (simp add: step_track_def word_le_nat_alt)
qed

text \<open>The step interrupt in closed form: a new request exactly when the head moved.\<close>

lemma EXTI3_eq:
  "EXTI3_IRQHandler t idr f =
    (if t - prevStepTime f < 2 then f
     else let g = f\<lparr>prevStepTime := t\<rparr>; tr = step_track idr (dp_track (dp_now f))
       in if idr AND MOTOR_ENABLE \<noteq> 0 then g
          else let h = (if tr = 0 then brr TRACK0 else bsrr TRACK0) (g\<lparr>dp_now := (dp_now g)\<lparr>dp_track := tr\<rparr>\<rparr>)
            in if tr \<noteq> dp_track (dp_now f) then REQUEST_TRACK t h else h)"
proof -
  have clamp: "(if t - prevStepTime f > 255 then 255 else t - prevStepTime f) < 2 \<longleftrightarrow> t - prevStepTime f < 2"
    by (auto simp: word_less_nat_alt)
  have req: "brr m (REQUEST_TRACK t x) = REQUEST_TRACK t (brr m x)" "bsrr m (REQUEST_TRACK t x) = REQUEST_TRACK t (bsrr m x)" for m x
    by (simp_all add: brr_def bsrr_def REQUEST_TRACK_def)
  have same: "x\<lparr>dp_now := (dp_now x)\<lparr>dp_track := dp_track (dp_now x)\<rparr>\<rparr> = x" for x :: franz
    by simp
  have ne: "x - 1 \<noteq> x" "x + 1 \<noteq> x" for x :: BYTE by simp_all
  show ?thesis
    unfolding EXTI3_IRQHandler_def Let_def clamp
    by (simp add: step_track_def req same ne) (simp add: REQUEST_TRACK_def)
qed

lemma franz_inv_EXTI3:
  assumes "franz_inv f"
  shows "franz_inv (EXTI3_IRQHandler t idr f)"
proof -
  let ?g = "f\<lparr>prevStepTime := t\<rparr>" and ?tr = "step_track idr (dp_track (dp_now f))"
  from assms have g: "franz_inv ?g" by simp
  from assms have "dp_track (dp_now f) \<le> 85" by (simp add: franz_inv_def pos_ok_def)
  then have "?tr \<le> 85" by (rule step_track_le)
  from franz_inv_track [OF g this]
  have "franz_inv ((if ?tr = 0 then brr TRACK0 else bsrr TRACK0) (?g\<lparr>dp_now := (dp_now ?g)\<lparr>dp_track := ?tr\<rparr>\<rparr>))"
    by simp
  then obtain h where h: "(if ?tr = 0 then brr TRACK0 else bsrr TRACK0) (?g\<lparr>dp_now := (dp_now ?g)\<lparr>dp_track := ?tr\<rparr>\<rparr>) = h"
    and "franz_inv h" by blast
  then show ?thesis
    unfolding EXTI3_eq Let_def h using assms by simp
qed

section \<open>Runs of the firmware\<close>

datatype franz_event = Iterate main_in | Step WORD WORD | DmaTx | DmaRx "BYTE list"

inductive franz_step :: "franz \<Rightarrow> franz_event \<Rightarrow> franz \<Rightarrow> bool" where
  iterate: "mi_ok i \<Longrightarrow> main_iter i f = Some g \<Longrightarrow> franz_step f (Iterate i) g"
| step_irq: "franz_step f (Step t idr) (EXTI3_IRQHandler t idr f)"
| dma_tx: "\<not> spiDmaTXidle f \<Longrightarrow> franz_step f DmaTx (tx_complete f)"
| dma_rx: "\<not> spiDmaRXidle f \<Longrightarrow> franz_step f (DmaRx bs) (rx_complete bs f)"

inductive_cases franz_stepE: "franz_step f e g"

inductive franz_reach :: "franz \<Rightarrow> bool" where
  start: "franz_shape f \<Longrightarrow> franz_reach (main_init t f)"
| step: "franz_reach f \<Longrightarrow> franz_step f e g \<Longrightarrow> franz_reach g"

lemma franz_step_inv: "franz_step f e g \<Longrightarrow> franz_inv f \<Longrightarrow> franz_inv g"
  by (induction rule: franz_step.induct) (auto simp: franz_inv_EXTI3 intro: franz_inv_main_iter)

lemma wb_ok_init:
  "length (wb_buffer b) = WRITEBUFFER_SIZE \<Longrightarrow> wb_ok (init_wrBuffer k b) \<and> wb_next (init_wrBuffer k b) = k"
  by (simp add: wb_ok_def init_wrBuffer_def length_foldl_update [where f = "\<lambda>_. 0"])

lemma track_fill_value:
  "length xs = READTRACKDATA_SIZE \<Longrightarrow> length (foldl (\<lambda>d i. d[i := CMD_TRACK_STREAM_END_BYTE]) xs [0..<READTRACKDATA_SIZE]) = READTRACKDATA_SIZE"
  by (simp only: length_foldl_update [where f = "\<lambda>_. CMD_TRACK_STREAM_END_BYTE"])

lemma brr_clears: "gpioB_odr (brr (m OR k) f) AND m = 0"
  by (rule bit_word_eqI) (auto simp: brr_def bit_simps)

text \<open>Every field of the invariant after \<open>main\<close>'s initialisation.\<close>

lemma init_hw_sw_fields:
  assumes "franz_shape f"
  shows "length (readTrackData (init_hw_sw f)) = READTRACKDATA_SIZE" "mfmReadStreamBuffer (init_hw_sw f) = replicate 16 7"
    "inIndexGet (init_hw_sw f) = 0" "gapIndex (init_hw_sw f) = 0" "dp_track (dp_now (init_hw_sw f)) = 0"
    "mfmWriteStreamBuffer (init_hw_sw f) = mfmWriteStreamBuffer f" "wrBuffer (init_hw_sw f) = wrBuffer f"
    "wrNow (init_hw_sw f) = wrNow f" "atnSendFwVersion (init_hw_sw f) = atnSendFwVersion f"
    "atnSendTrackRequest (init_hw_sw f) = atnSendTrackRequest f" "cmdBuffer (init_hw_sw f) = cmdBuffer f"
  using assms unfolding franz_shape_def
  by (simp_all add: init_hw_sw_def Let_def bsrr_def FloppyOut_Disable_def FloppyMFMread_Disable_def FloppyIndex_Disable_def
      dummy_data_value track_fill_value)

lemma franz_inv_init:
  assumes "franz_shape f"
  shows "franz_inv (main_init t f)"
proof -
  let ?a = "setupAtnBuffers (f\<lparr>indexCount := 0, prevWGate := WGATE, prevStepTime := 0, sendFwVersion := False, sendTrackRequest := False\<rparr>)"
  let ?g = "setupDriveSelect (init_hw_sw ?a)"
  have sh: "franz_shape ?a"
    using assms by (auto simp: franz_shape_def setupAtnBuffers_def init_wrBuffer_def length_foldl_update [where f = "\<lambda>_. 0"])
  have dr: "x \<in> {f, f\<lparr>drive_select := v\<rparr>} \<Longrightarrow> wr_inv x = wr_inv f" for x f v by (auto simp: wr_inv_def)
  obtain b0 b1 where b: "wrBuffer f = [b0, b1]" and lb: "length (wb_buffer b0) = WRITEBUFFER_SIZE" "length (wb_buffer b1) = WRITEBUFFER_SIZE"
    using assms by (auto simp: franz_shape_def numeral_2_eq_2 length_Suc_conv)
  note fields = init_hw_sw_fields [OF sh]
  let ?h = "brr (TRACK0 OR DISK_CHANGE) (bsrr (WR_PROTECT OR DISK_CHANGE) ?g)"
  have "wr_inv ?h"
    using fields(7,8) b lb wb_ok_init [of b0 1] wb_ok_init [of b1 0]
    by (simp add: wr_inv_def brr_def bsrr_def setupDriveSelect_def setupAtnBuffers_def)
  moreover have "mfm_ok ?h"
    using fields(1-4,6) assms by (simp add: mfm_ok_def brr_def bsrr_def setupDriveSelect_def franz_shape_def setupAtnBuffers_def)
  moreover have "gpioB_odr ?h AND TRACK0 = 0"
    by (rule brr_clears)
  then have "pos_ok ?h"
    using fields(5) by (simp add: pos_ok_def) (simp add: brr_def bsrr_def setupDriveSelect_def)
  moreover have "length (atnSendFwVersion ?h) = 8" "length (atnSendTrackRequest ?h) = 6" "length (cmdBuffer ?h) = 16"
    using fields(9-11) assms by (simp_all add: brr_def bsrr_def setupDriveSelect_def franz_shape_def setupAtnBuffers_def)
  ultimately have "franz_inv ?h" by (simp add: franz_inv_def)
  then show ?thesis by (simp add: main_init_def Let_def)
qed

lemma franz_reach_inv: "franz_reach f \<Longrightarrow> franz_inv f"
  by (induction rule: franz_reach.induct) (auto intro: franz_inv_init franz_step_inv)

text \<open>
  C17: in every state reachable from power-on, in any interleaving of main-loop iterations with the
  step and DMA interrupts: the head is on a track from 0 to 85 and the TRACK0 pin is low exactly on
  track 0; the read buffer of the MFM timer holds sixteen values, each a legal pulse length and none
  of them the 0 that would stop the timer; the index into the track data is inside it; both write
  buffers keep their size, their message header and a count between the header's four words and the
  buffer's 550.
\<close>

theorem franz_reachable_inv:
  assumes "franz_reach f"
  shows "dp_track (dp_now f) \<le> 85 \<and> (gpioB_odr f AND TRACK0 = 0 \<longleftrightarrow> dp_track (dp_now f) = 0) \<and>
    length (mfmReadStreamBuffer f) = 16 \<and> set (mfmReadStreamBuffer f) \<subseteq> {7, 11, 15} \<and>
    length (readTrackData f) = READTRACKDATA_SIZE \<and> inIndexGet f < READTRACKDATA_SIZE \<and>
    length (wrBuffer f) = 2 \<and> wrNow f < 2 \<and> wb_ok (wrBuffer f ! 0) \<and> wb_ok (wrBuffer f ! 1)"
  using franz_reach_inv [OF assms] by (simp_all add: franz_inv_def pos_ok_def mfm_ok_def wr_inv_def)

section \<open>Written sectors\<close>

definition cur :: "franz \<Rightarrow> TWriteBuffer" where
  "cur f = wrBuffer f ! wrNow f"

definition wr_words :: "franz \<Rightarrow> WORD list" where
  "wr_words f = take (unat (wb_count (cur f))) (wb_buffer (cur f))"

lemma wb_ok_cur: "franz_inv f \<Longrightarrow> wb_ok (cur f)"
  by (simp add: cur_def franz_inv_lengths)

lemma cur_update [simp]: "franz_inv f \<Longrightarrow> cur (f\<lparr>wrBuffer := (wrBuffer f)[wrNow f := b]\<rparr>) = b"
  by (simp add: cur_def franz_inv_lengths)

lemma set_ready_frame [simp]:
  "franz_inv f \<Longrightarrow> wr_words (set_ready r f) = wr_words f"
  "franz_inv f \<Longrightarrow> wb_readyToSend (cur (set_ready r f)) = r"
  "wrNow (set_ready r f) = wrNow f" "spiLog (set_ready r f) = spiLog f" "prevWGate (set_ready r f) = prevWGate f"
  by (simp_all add: wr_words_def set_ready_def) (simp_all add: cur_def franz_inv_lengths)

lemma wrBuffer_add_frame [simp]:
  "wrNow (wrBuffer_add x f) = wrNow f" "spiLog (wrBuffer_add x f) = spiLog f" "prevWGate (wrBuffer_add x f) = prevWGate f"
  by (simp_all add: wrBuffer_add_def Let_def)

lemma wr_words_add:
  assumes "franz_inv f"
  shows "wr_words (wrBuffer_add x f) = (if length (wr_words f) < WRITEBUFFER_SIZE then wr_words f @ [x] else wr_words f)"
proof -
  from wb_ok_cur [OF assms] have l: "length (wb_buffer (cur f)) = 550" "unat (wb_count (cur f)) \<le> 550"
    by (simp_all add: wb_ok_def)
  show ?thesis
  proof (cases "unat (wb_count (cur f)) < 550")
    case True
    then have "unat (wb_count (cur f) + 1) = Suc (unat (wb_count (cur f)))" by (simp add: unat_word_ariths)
    with True l show ?thesis
      by (simp add: wr_words_def wrBuffer_add_def Let_def assms flip: cur_def) (simp add: take_Suc_conv_app_nth)
  next
    case False
    with l show ?thesis by (simp add: wr_words_def wrBuffer_add_def Let_def flip: cur_def)
  qed
qed

lemma wrBuffer_adds:
  assumes "franz_inv f" and "length (wr_words f) + length ws \<le> WRITEBUFFER_SIZE"
  shows "wr_words (fold wrBuffer_add ws f) = wr_words f @ ws \<and> franz_inv (fold wrBuffer_add ws f) \<and>
    wrNow (fold wrBuffer_add ws f) = wrNow f \<and> spiLog (fold wrBuffer_add ws f) = spiLog f \<and>
    prevWGate (fold wrBuffer_add ws f) = prevWGate f"
  using assms
proof (induction ws arbitrary: f)
  case (Cons w ws)
  from Cons.IH [of "wrBuffer_add w f"] Cons.prems show ?case
    by (simp add: franz_inv_wrBuffer_add wr_words_add)
qed simp

lemma wr_words_other [simp]:
  "wr_words (f\<lparr>outFlags := x\<rparr>) = wr_words f" "wr_words (f\<lparr>lastMfmWriteTC := y\<rparr>) = wr_words f"
  "wr_words (f\<lparr>prevWGate := z\<rparr>) = wr_words f" "wr_words (timeoutStart t f) = wr_words f"
  "cur (f\<lparr>prevWGate := z\<rparr>) = cur f" "cur (timeoutStart t f) = cur f" "wrNow (timeoutStart t f) = wrNow f"
  "spiLog (timeoutStart t f) = spiLog f" "wrBuffer (timeoutStart t f) = wrBuffer f"
  by (simp_all add: wr_words_def cur_def timeoutStart_def)

lemma wgate_falls:
  assumes "franz_inv f" and "prevWGate f \<noteq> 0" and "mi_idr i AND WGATE = 0" and "length (wr_words f) < WRITEBUFFER_SIZE"
  shows "wr_words (main_wgate i f) = wr_words f @ [sector_word (streamed f)]" "wrNow (main_wgate i f) = wrNow f"
    "spiLog (main_wgate i f) = spiLog f" "prevWGate (main_wgate i f) = 0"
  using assms by (simp_all add: main_wgate_def Let_def wr_words_add franz_inv_set_ready)

lemma wgate_rises:
  assumes "franz_inv f" and "prevWGate f = 0" and "mi_idr i AND WGATE \<noteq> 0" and "length (wr_words f) < WRITEBUFFER_SIZE"
  shows "wr_words (main_wgate i f) = wr_words f @ [0]" "wrNow (main_wgate i f) = wrNow f"
    "spiLog (main_wgate i f) = spiLog f"
  using assms by (simp_all add: main_wgate_def Let_def wr_words_add franz_inv_wrBuffer_add)

lemma send_written_log:
  assumes "franz_inv f" and "send_written i f = Some g"
  shows "spiLog g = spiLog f @ [((wr_words f)[2 := wb_count (cur f), 3 := 1], 1)]" "wrNow g = 1 - wrNow f"
    "wb_count (cur g) = 4" "\<not> wb_readyToSend (cur g)"
proof -
  let ?f = "timeoutStart (mi_time i) f"
  let ?b = "wrBuffer ?f ! wrNow ?f"
  from assms(2) obtain h buf where h: "spiDma_txRx (mi_polls i) (wb_count ?b) (wb_buffer ?b) 1 RxFake ?f = Some (h, buf)"
    and g: "g = (let k = h\<lparr>wrBuffer := (wrBuffer h)[wrNow h := ?b\<lparr>wb_buffer := buf, wb_readyToSend := False\<rparr>]\<rparr>
      in k\<lparr>wrNow := wb_next ?b,
           wrBuffer := (wrBuffer k)[wb_next ?b := (wrBuffer k ! wb_next ?b)\<lparr>wb_readyToSend := False, wb_count := 4\<rparr>]\<rparr>)"
    by (auto simp: send_written_def Let_def split: option.splits prod.splits)
  from assms(1) have inv: "franz_inv ?f" by simp
  note l = franz_inv_lengths [OF inv] and fr = txRx_frame [OF h] and t = franz_inv_txRx(2) [OF inv h]
  show "wrNow g = 1 - wrNow f" "wb_count (cur g) = 4" "\<not> wb_readyToSend (cur g)"
    using l fr by (simp_all add: g Let_def cur_def)
  show "spiLog g = spiLog f @ [((wr_words f)[2 := wb_count (cur f), 3 := 1], 1)]"
    using fr t by (simp add: g Let_def wr_words_def cur_def take_update_swap)
qed

lemma take_four: "4 \<le> length xs \<Longrightarrow> take 4 xs = [xs ! 0, xs ! 1, xs ! 2, xs ! 3]"
  by (auto simp: numeral_eq_Suc Suc_le_length_iff)

lemma wr_words_length: "franz_inv f \<Longrightarrow> length (wr_words f) = unat (wb_count (cur f))"
  using wb_ok_cur [of f] by (simp add: wr_words_def wb_ok_def)

text \<open>
  C18: when the write gate falls, pulses are captured and the gate rises again, the host receives one
  message: sync word, code, its own length in words, the length to receive, the sector under the head
  (side in bit 15, track, sector number), the captured words in order and a final 0. The other write
  buffer becomes the current one, with an empty message.
\<close>

theorem sector_written_message:
  assumes "franz_inv f" and "wb_count (cur f) = 4" and "prevWGate f \<noteq> 0"
    and "mi_idr i1 AND WGATE = 0" and "mi_idr i2 AND WGATE \<noteq> 0" and "length ws \<le> 544"
    and "send_written i3 (main_wgate i2 (fold wrBuffer_add ws (main_wgate i1 f))) = Some g"
  shows "spiLog g = spiLog f @
            [([ATN_SYNC_WORD, ATN_SECTOR_WRITTEN, of_nat (length ws + 6), 1, sector_word (streamed f)] @ ws @ [0], 1)] \<and>
         wrNow g = 1 - wrNow f \<and> wb_count (cur g) = 4 \<and> \<not> wb_readyToSend (cur g)"
proof -
  from wb_ok_cur [OF assms(1)] assms(2) obtain x y where
    w0: "wr_words f = [ATN_SYNC_WORD, ATN_SECTOR_WRITTEN, x, y]"
    by (auto simp: wb_ok_def wr_words_def take_four)
  let ?f1 = "main_wgate i1 f" and ?h = "sector_word (streamed f)"
  let ?f2 = "fold wrBuffer_add ws ?f1"
  let ?f3 = "main_wgate i2 ?f2"
  have 1: "franz_inv ?f1" "wr_words ?f1 = wr_words f @ [?h]" "wrNow ?f1 = wrNow f" "spiLog ?f1 = spiLog f" "prevWGate ?f1 = 0"
    using wgate_falls [OF assms(1,3,4)] w0 assms(1) by (simp_all add: franz_inv_main_wgate)
  have 2: "franz_inv ?f2" "wr_words ?f2 = wr_words ?f1 @ ws" "wrNow ?f2 = wrNow f" "spiLog ?f2 = spiLog f" "prevWGate ?f2 = 0"
    using wrBuffer_adds [OF 1(1), of ws] 1 w0 assms(6) by simp_all
  have 3: "franz_inv ?f3" "wr_words ?f3 = wr_words ?f2 @ [0]" "wrNow ?f3 = wrNow f" "spiLog ?f3 = spiLog f"
    using wgate_rises [OF 2(1,5) assms(5)] 1(2) 2 w0 assms(6) by (simp_all add: franz_inv_main_wgate)
  have w: "wr_words ?f3 = [ATN_SYNC_WORD, ATN_SECTOR_WRITTEN, x, y, ?h] @ ws @ [0]"
    by (simp add: 3(2) 2(2) 1(2) w0)
  then have "length (wr_words ?f3) = length ws + 6" by simp
  then have n: "wb_count (cur ?f3) = of_nat (length ws + 6)"
    using wr_words_length [OF 3(1)] by (metis of_nat_unat word_of_nat_eq_iff ucast_id)
  show ?thesis
    using send_written_log [OF 3(1) assms(7)] 3 by (simp add: w n)
qed

section \<open>Track requests\<close>

text \<open>
  The only place that requests a track is \<open>main_spi\<close>: it never repeats the request before, at most one
  transfer starts, and what is asked for is the head position of the last \<open>REQUEST_TRACK\<close>.
\<close>

lemma txRx_buf:
  "spiDma_txRx ps n buf m d f = Some (g, buf') \<Longrightarrow> buf' = buf[2 := n, 3 := m]"
  by (auto simp: spiDma_txRx_def Let_def split: option.splits prod.splits)

lemma send_track_request_sends:
  assumes "send_track_request i f = Some g" and "\<not> mi_time i - lastRequestTime f < 30" and "dp_next f \<noteq> lastRequested f"
    and "length (atnSendTrackRequest f) = 6" and "atnSendTrackRequest f ! 1 = ATN_SEND_TRACK"
  shows "lastRequested g = dp_next f \<and> \<not> sendTrackRequest g \<and>
     (\<exists>m. spiLog g = spiLog f @ [(m, ATN_SENDTRACK_REQ_LEN_RX)] \<and> m ! 1 = ATN_SEND_TRACK \<and>
          m ! 4 = push_bit 8 (ucast (dp_side (dp_next f))) OR ucast (dp_track (dp_next f)))"
proof -
  let ?f = "timeoutStart (mi_time i) (f\<lparr>sendTrackRequest := False, lastRequested := dp_next f\<rparr>)"
  let ?buf = "(atnSendTrackRequest f)[4 := push_bit 8 (ucast (dp_side (dp_next f))) OR ucast (dp_track (dp_next f))]"
  from assms(3) have "dp_track (dp_next f) \<noteq> dp_track (lastRequested f) \<or> dp_side (dp_next f) \<noteq> dp_side (lastRequested f)"
    by (metis TDrivePosition.equality old.unit.exhaust)
  with assms(1,2) obtain h buf where
    h: "spiDma_txRx (mi_polls i) ATN_SENDTRACK_REQ_LEN_TX ?buf ATN_SENDTRACK_REQ_LEN_RX RxTrack ?f = Some (h, buf)"
    and g: "g = h\<lparr>atnSendTrackRequest := buf, outFlags := (outFlags h)\<lparr>weAreReceivingTrack := True\<rparr>\<rparr>"
    by (auto simp: send_track_request_def Let_def timeoutStart_def not_less split: option.splits prod.splits)
  from txRx_frame [OF h] txRx_buf [OF h] assms(4,5) show ?thesis
    by (auto simp: g timeoutStart_def)
qed

text \<open>
  A pending track request waits until 30 ticks (15 ms) after the last head movement, is dropped
  when that track was the one requested before, and otherwise sends exactly one message with the side
  and track of that last movement and clears itself.
\<close>

lemma track_request_limiter:
  assumes "main_spi i f = Some g" and "\<not> sendFwVersion f" and "sendTrackRequest f"
    and "length (atnSendTrackRequest f) = 6" and "atnSendTrackRequest f ! 1 = ATN_SEND_TRACK"
  shows "(if mi_time i - lastRequestTime f < 30 then g = f
          else if dp_next f = lastRequested f then g = f\<lparr>sendTrackRequest := False\<rparr>
          else lastRequested g = dp_next f \<and> \<not> sendTrackRequest g \<and>
            (\<exists>m. spiLog g = spiLog f @ [(m, ATN_SENDTRACK_REQ_LEN_RX)] \<and> m ! 1 = ATN_SEND_TRACK \<and>
                 m ! 4 = push_bit 8 (ucast (dp_side (dp_next f))) OR ucast (dp_track (dp_next f))))"
proof -
  from assms(1-3) have s: "send_track_request i f = Some g" by (simp add: main_spi_def)
  from s have "mi_time i - lastRequestTime f < 30 \<Longrightarrow> g = f"
    by (auto simp: send_track_request_def Let_def not_le [symmetric] split: if_splits)
  moreover from s have "\<not> mi_time i - lastRequestTime f < 30 \<Longrightarrow> dp_next f = lastRequested f \<Longrightarrow> g = f\<lparr>sendTrackRequest := False\<rparr>"
    by (auto simp: send_track_request_def Let_def not_less split: if_splits)
  moreover note send_track_request_sends [OF s _ _ assms(4,5)]
  ultimately show ?thesis by presburger
qed

end
