(* ===== verification/FranzWitness.thy ===== *)
theory FranzWitness
  imports FranzRun
begin

text \<open>
  The floppy firmware on concrete data: the RAM before power-on, the state after \<open>main\<close>'s
  initialisation, a small track, and the properties of the firmware applied to them.
\<close>

definition franz_off :: franz where
  "franz_off = \<lparr>
     wrBuffer = replicate 2 \<lparr>wb_buffer = replicate 550 0, wb_count = 0, wb_readyToSend = False, wb_next = 0\<rparr>,
     wrNow = 0, streamed = \<lparr>ss_side = 0, ss_track = 0, ss_sector = 0\<rparr>,
     mfmReadStreamBuffer = replicate 16 0, mfmWriteStreamBuffer = replicate 16 0, lastMfmWriteTC = 0,
     drive_select = 0, sendFwVersion = False, sendTrackRequest = False,
     atnSendFwVersion = replicate 8 0, atnSendTrackRequest = replicate 6 0, cmdBuffer = replicate 16 0,
     readTrackData = replicate 15000 0, inIndexGet = 0, gapIndex = 0,
     spiDmaIsIdle = False, spiDmaTXidle = False, spiDmaRXidle = False,
     dp_now = \<lparr>dp_track = 0, dp_side = 0\<rparr>, dp_next = \<lparr>dp_track = 0, dp_side = 0\<rparr>,
     lastRequested = \<lparr>dp_track = 0, dp_side = 0\<rparr>, dp_prev = \<lparr>dp_track = 0, dp_side = 0\<rparr>,
     lastRequestTime = 0, rpiIsUp = False, driveId = 0, driveEnabled = False, isDiskChanged = False,
     isWriteProtected = False, trackStreamedCount = 0,
     outFlags = \<lparr>stWantsTheStream = False, weAreReceivingTrack = False, updatePosition = False, outputsAreEnabled = False\<rparr>,
     prevStepTime = 0, ATNcodePrev = 0, toStart = 0, cndtr3 = 0, cndtr2 = 0, rxDest = RxFake, spiLog = [],
     gpioB_odr = 0, gpioA_crl = 0, gpioA_crh = 0, gpioB_crh = 0, indexCount = 0, prevWGate = 0\<rparr>"

lemma franz_off_shape: "franz_shape franz_off"
  by (simp add: franz_off_def franz_shape_def)

definition franz_on :: franz where
  "franz_on = main_init 7 franz_off"

lemma franz_on_reach: "franz_reach franz_on"
  unfolding franz_on_def by (rule start [OF franz_off_shape])

theorem franz_reachable_inv_witness:
  "dp_track (dp_now (EXTI3_IRQHandler 5 0 franz_on)) = 1 \<and> gpioB_odr (EXTI3_IRQHandler 5 0 franz_on) AND TRACK0 \<noteq> 0"
proof -
  have "franz_reach (EXTI3_IRQHandler 5 0 franz_on)"
    by (rule step [OF franz_on_reach step_irq])
  note inv = franz_reachable_inv [OF this]
  have "dp_track (dp_now franz_on) = 0" "prevStepTime franz_on = 0"
    by (simp_all add: franz_on_def main_init_def init_hw_sw_def setupAtnBuffers_def Let_def REQUEST_TRACK_def bsrr_def brr_def
     setupDiskChangeWriteProtect_def setupDriveSelect_def FloppyOut_Disable_def FloppyMFMread_Disable_def FloppyIndex_Disable_def)
  then have "dp_track (dp_now (EXTI3_IRQHandler 5 0 franz_on)) = 1"
    by (simp add: EXTI3_eq Let_def step_track_def bsrr_def brr_def REQUEST_TRACK_def)
  with inv show ?thesis by simp
qed

definition franz_track :: franz where
  "franz_track = franz_off\<lparr>readTrackData := [0x50, 0, 1, 2, 0x55, 0, 0x66] @ replicate 14993 0xF0\<rparr>"

abbreviation (input) items0 :: "mfm_item list" where
  "items0 \<equiv> [Sector 0 1 2, Data 0x55, Skip, Data 0x66]"

lemma franz_track_items:
  "track_at franz_track items0 (replicate 14993 0xF0)" "list_all mfm_valid items0" "2 \<le> length (mfm_data items0)"
  "sector_at 2 (streamed franz_track) items0 = \<lparr>ss_side = 0, ss_track = 1, ss_sector = 2\<rparr>"
  "mfmReadStreamBuffer franz_track = replicate 16 0"
proof -
  show "sector_at 2 (streamed franz_track) items0 = \<lparr>ss_side = 0, ss_track = 1, ss_sector = 2\<rparr>"
    by (simp add: franz_track_def franz_off_def numeral_2_eq_2)
qed (simp_all add: track_at_def franz_track_def franz_off_def valid_mfm_def mfm_codes_def upt_rec)

theorem mfm_stream_in_order_witness:
  "snd (mfm_take 2 franz_track) = [0x55, 0x66] \<and>
   streamed (fst (mfm_take 2 franz_track)) = \<lparr>ss_side = 0, ss_track = 1, ss_sector = 2\<rparr>"
  using mfm_stream_in_order [OF franz_track_items(1,2,3)] franz_track_items(4) by simp

theorem fill_streams_two_bytes_witness:
  "mfmReadStreamBuffer (fillMfmTimesForDMA False franz_track) =
   [7, 7, 7, 7, 7, 11, 7, 11] @ replicate 8 0"
proof -
  have t: "snd (mfm_take 2 franz_track) = [0x55, 0x66]"
    using mfm_take_items [OF franz_track_items(1,2,3)] by simp
  have l: "length (mfmReadStreamBuffer franz_track) = 16" by (simp add: franz_track_items)
  have b: "concat (map byte_times [0x55, 0x66]) = [7, 7, 7, 7, 7, 11, 7, 11]" by code_simp
  show ?thesis unfolding fill_streams_two_bytes [OF l] t b by (simp add: franz_track_items)
qed

theorem getMfmWriteTimes_codes_witness:
  "getMfmWriteTimes True (franz_off\<lparr>mfmWriteStreamBuffer := stamps 0 (replicate 8 30) @ replicate 8 0\<rparr>) =
   wrBuffer_add 0x5555 (franz_off\<lparr>mfmWriteStreamBuffer := replicate 8 30 @ replicate 8 0, lastMfmWriteTC := 240\<rparr>)"
proof -
  let ?f = "franz_off\<lparr>mfmWriteStreamBuffer := stamps 0 (replicate 8 30) @ replicate 8 0\<rparr>"
  have l: "lastMfmWriteTC ?f = 0" by (simp add: franz_off_def)
  have a: "foldl add_code 0 (replicate 8 30) = 0x5555" by code_simp
  have b: "last (stamps 0 (replicate 8 30)) = 240" by code_simp
  have "mfmWriteStreamBuffer ?f = (if True then stamps (lastMfmWriteTC ?f) (replicate 8 30) @ replicate 8 0
    else replicate 8 0 @ stamps (lastMfmWriteTC ?f) (replicate 8 30))" by (simp add: l)
  from getMfmWriteTimes_codes [OF _ _ this] show ?thesis unfolding l a b by simp
qed

text \<open>Eight pulses of 29 ticks from tick 100 on: one of them spans the wrap and is missing from the word.\<close>

theorem captured_word_witness:
  "\<exists>buf. getMfmWriteTimes True (franz_off\<lparr>mfmWriteStreamBuffer := captured 100 (replicate 8 29) @ replicate 8 0, lastMfmWriteTC := 100\<rparr>) =
    wrBuffer_add 0x1555 (franz_off\<lparr>mfmWriteStreamBuffer := buf, lastMfmWriteTC := 76\<rparr>)"
proof -
  let ?f = "franz_off\<lparr>mfmWriteStreamBuffer := captured 100 (replicate 8 29) @ replicate 8 0, lastMfmWriteTC := 100\<rparr>"
  have v: "valid_mfm 0x55" by code_simp
  have c: "mfm_codes 0x55 @ mfm_codes 0x55 = replicate 8 1" by code_simp
  have p: "list_all2 pulse_near (mfm_codes 0x55 @ mfm_codes 0x55) (replicate 8 29)" unfolding c by code_simp
  have k: "code_word (kept_codes 100 (replicate 8 29) (mfm_codes 0x55 @ mfm_codes 0x55)) = 0x1555" unfolding c by code_simp
  have s: "(100 + sum_list (replicate 8 (29 :: nat))) mod 256 = 76" by (simp add: sum_list_replicate)
  have "lastMfmWriteTC ?f = of_nat (100 mod 256)" "mfmWriteStreamBuffer ?f = (if True then captured 100 (replicate 8 29) @ replicate 8 0
    else replicate 8 0 @ captured 100 (replicate 8 29))" by simp_all
  from captured_word [OF v v refl p _ this] show ?thesis unfolding k s by auto
qed

theorem stream_position_value_witness:
  "inIndexGet (updateStreamPositionByFloppyPosition 200 franz_track) = 3"
proof -
  have "length (readTrackData franz_track) = READTRACKDATA_SIZE" "unat (200 :: DWORD) < 400"
    and "first_end (readTrackData franz_track) = 7"
    by (simp_all add: franz_track_def first_end_def)
  then show ?thesis using stream_position_value [of franz_track 200] by simp
qed


text \<open>Inputs of a main loop iteration: the SPI finishes both directions while it is waited for.\<close>

definition main_in0 :: "WORD \<Rightarrow> WORD \<Rightarrow> main_in" where
  "main_in0 t idr = \<lparr>mi_time = t, mi_polls = [], mi_idr = idr, mi_tim3 = 0, mi_capture = replicate 16 0,
     mi_ht6 = False, mi_tc6 = False, mi_ht5 = False, mi_tc5 = False, mi_index = False, mi_tim2 = 0\<rparr>"

lemmas franz_on_simps = franz_on_def main_init_def init_hw_sw_def setupAtnBuffers_def Let_def REQUEST_TRACK_def bsrr_def
  brr_def setupDiskChangeWriteProtect_def setupDriveSelect_def FloppyOut_Disable_def FloppyMFMread_Disable_def
  FloppyIndex_Disable_def

lemma franz_on_fields:
  "wb_count (cur franz_on) = 4" "prevWGate franz_on = WGATE" "spiDmaIsIdle franz_on" "wrNow franz_on = 0"
  "sector_word (streamed franz_on) = 0xffff" "\<not> sendFwVersion franz_on" "sendTrackRequest franz_on"
  "lastRequestTime franz_on = 7" "dp_next franz_on = \<lparr>dp_track = 0, dp_side = 0\<rparr>"
  "lastRequested franz_on = \<lparr>dp_track = 0xff, dp_side = 0xff\<rparr>"
  by (simp_all add: franz_on_simps cur_def init_wrBuffer_def sector_word_def del: upt_rec_numeral)

lemma franz_on_fields':
  "spiLog franz_on = []" "atnSendTrackRequest franz_on = [ATN_SYNC_WORD, ATN_SEND_TRACK, 0, 0, 0, 0]"
proof -
  have r: "replicate 6 (0 :: WORD) = [0, 0, 0, 0, 0, 0]" by (simp add: numeral_eq_Suc)
  show "spiLog franz_on = []" by (simp add: franz_on_simps franz_off_def del: upt_rec_numeral)
  show "atnSendTrackRequest franz_on = [ATN_SYNC_WORD, ATN_SEND_TRACK, 0, 0, 0, 0]"
    by (simp add: franz_on_simps franz_off_def r del: upt_rec_numeral)
qed

theorem track_request_limiter_witness:
  "\<exists>g m. main_spi (main_in0 50 0) franz_on = Some g \<and> spiLog g = [(m, ATN_SENDTRACK_REQ_LEN_RX)] \<and> m ! 1 = ATN_SEND_TRACK \<and> m ! 4 = 0"
proof -
  have "main_spi (main_in0 50 0) franz_on \<noteq> None"
    using franz_on_fields
    by (simp add: main_spi_def send_track_request_def Let_def main_in0_def spiDma_txRx_def timeoutStart_def)
  then obtain g where g: "main_spi (main_in0 50 0) franz_on = Some g" by blast
  have l: "length (atnSendTrackRequest franz_on) = 6" "atnSendTrackRequest franz_on ! 1 = ATN_SEND_TRACK"
    by (simp_all add: franz_on_fields')
  from track_request_limiter [OF g franz_on_fields(6,7) l] g show ?thesis
    by (auto simp: franz_on_fields franz_on_fields' main_in0_def)
qed

theorem sector_written_message_witness:
  "\<exists>g. send_written (main_in0 9 0x80) (main_wgate (main_in0 8 0x80) (fold wrBuffer_add [0x5555] (main_wgate (main_in0 7 0) franz_on))) = Some g \<and>
    spiLog g = [([ATN_SYNC_WORD, ATN_SECTOR_WRITTEN, 7, 1, 0xffff, 0x5555, 0], 1)]"
proof -
  let ?f = "main_wgate (main_in0 8 0x80) (fold wrBuffer_add [0x5555] (main_wgate (main_in0 7 0) franz_on))"
  have "spiDmaIsIdle ?f"
    using franz_on_fields(3) by (simp add: main_wgate_def Let_def wrBuffer_add_def set_ready_def)
  then obtain g where g: "send_written (main_in0 9 0x80) ?f = Some g"
    by (auto simp: send_written_def spiDma_txRx_def Let_def main_in0_def timeoutStart_def)
  have "franz_inv franz_on" by (rule franz_reach_inv [OF franz_on_reach])
  from sector_written_message [OF this franz_on_fields(1) _ _ _ _ g] g show ?thesis
    by (simp add: franz_on_fields franz_on_fields' main_in0_def)
qed

end
