(* ===== verification/GdIf.thy ===== *)
theory GdIf
  imports Prelude
begin

text \<open>
  The GEMDOS driver (src/ce_dd_prg): its global state, the commands it sends to the CosmosEx over the
  hard disk bus (hdd_if.c), and its own string functions (stdlib.c).

  The bus and everything behind it is a parameter, the device: a function from its state, the
  direction, the command bytes, the bytes of the buffer the DMA would read and the sector count to the
  new state, success, the status byte and the bytes the DMA stored at the start of the buffer. The
  Atari's RAM is a function from addresses to bytes; the driver's own buffers are lists.
\<close>

section \<open>State\<close>

record THDif =
  hd_success :: bool
  hd_status :: BYTE
  hd_retriesDone :: int
  hd_maxRetries :: int
  hd_hostId :: BYTE

record TFileBuffer =
  fb_isOpen :: bool
  fb_rCount :: WORD
  fb_rStart :: WORD
  fb_rBuf :: "BYTE list"
  fb_currentPos :: DWORD
  fb_bytesToEOF :: DWORD
  fb_bytesToEOFinvalid :: bool
  fb_wCount :: WORD
  fb_wBuf :: "BYTE list"

record 'h gd =
  gd_host :: 'h
  hdIf :: THDif
  mtx :: BYTE
  gd_ram :: ram
  commandShort :: "BYTE list"
  commandLong :: "BYTE list"
  pDmaBuffer :: "BYTE list"
  pDtaBuffer :: "BYTE list"
  FastRAMBuffer :: "BYTE list"
  fileBufs :: "TFileBuffer list"
  pDta :: DWORD
  dtaBufferValidForPDta :: DWORD
  fsnextIsForUs :: bool
  currentDrive :: BYTE
  ceDrives :: WORD
  ceMediach :: WORD
  lastCeDrivesUpdate :: DWORD
  lastMediachUpdate :: DWORD
  forceSetdrv :: bool
  tosDta :: DWORD

type_synonym 'h device = "'h \<Rightarrow> bool \<Rightarrow> BYTE list \<Rightarrow> BYTE list \<Rightarrow> WORD \<Rightarrow> 'h \<times> bool \<times> BYTE \<times> BYTE list"

abbreviation (input) ACSI_READ :: bool where "ACSI_READ \<equiv> True"
abbreviation (input) ACSI_WRITE :: bool where "ACSI_WRITE \<equiv> False"
abbreviation (input) MAXSECTORS :: nat where "MAXSECTORS \<equiv> 254"
abbreviation (input) FASTRAM_BUFFER_SIZE :: nat where "FASTRAM_BUFFER_SIZE \<equiv> 4096"
abbreviation (input) DMA_BUFFER_SIZE :: nat where "DMA_BUFFER_SIZE \<equiv> 512"
abbreviation (input) RW_BUFFER_SIZE :: nat where "RW_BUFFER_SIZE \<equiv> 512"
abbreviation (input) MAX_FILES :: nat where "MAX_FILES \<equiv> 40"

text \<open>Status bytes (gemdos_errno.h).\<close>

abbreviation (input) E_OK :: BYTE where "E_OK \<equiv> 0"
abbreviation (input) RW_ALL_TRANSFERED :: BYTE where "RW_ALL_TRANSFERED \<equiv> 0"
abbreviation (input) RW_PARTIAL_TRANSFER :: BYTE where "RW_PARTIAL_TRANSFER \<equiv> 1"
abbreviation (input) E_NOTHANDLED :: BYTE where "E_NOTHANDLED \<equiv> 0x7f"
abbreviation (input) E_WAITING_FOR_MOUNT :: BYTE where "E_WAITING_FOR_MOUNT \<equiv> 0x7e"
abbreviation (input) EFILNF :: BYTE where "EFILNF \<equiv> 0xdf"
abbreviation (input) ENHNDL :: BYTE where "ENHNDL \<equiv> 0xdd"
abbreviation (input) EACCDN :: BYTE where "EACCDN \<equiv> 0xdc"
abbreviation (input) EIHNDL :: BYTE where "EIHNDL \<equiv> 0xdb"
abbreviation (input) ENMFIL :: BYTE where "ENMFIL \<equiv> 0xcf"
abbreviation (input) EINTRN :: BYTE where "EINTRN \<equiv> 0xbf"

text \<open>\<open>extendByteToDword\<close>: the status byte as a signed number.\<close>

definition extendByteToDword :: "BYTE \<Rightarrow> DWORD" where
  "extendByteToDword b = scast b"

section \<open>Commands with retries (hdd_if.c)\<close>

definition overlay :: "BYTE list \<Rightarrow> BYTE list \<Rightarrow> BYTE list" where
  "overlay buf ds = ds @ drop (length ds) buf"

definition cmd_intern ::
  "'h device \<Rightarrow> bool \<Rightarrow> BYTE list \<Rightarrow> BYTE list \<Rightarrow> WORD \<Rightarrow> 'h gd \<times> BYTE list \<Rightarrow> 'h gd \<times> BYTE list" where
  "cmd_intern dev rd cmd data n s =
     (case s of (g, buf) \<Rightarrow>
        case dev (gd_host g) rd cmd data n of (h, ok, st, ds) \<Rightarrow>
          (g\<lparr>gd_host := h, hdIf := (hdIf g)\<lparr>hd_success := ok, hd_status := st\<rparr>\<rparr>, overlay buf ds))"

definition retry_cmd :: "BYTE list \<Rightarrow> BYTE list" where
  "retry_cmd cmd = (if length cmd = 6 then cmd[3 := cmd ! 3 OR 0x80] else cmd[4 := cmd ! 4 OR 0x80])"

function hdd_retries ::
  "'h device \<Rightarrow> bool \<Rightarrow> BYTE list \<Rightarrow> BYTE list \<Rightarrow> WORD \<Rightarrow> 'h gd \<times> BYTE list \<Rightarrow> 'h gd \<times> BYTE list" where
  "hdd_retries dev rd cmd data n (g, buf) =
     (if hd_retriesDone (hdIf g) \<ge> hd_maxRetries (hdIf g) then (g, buf)
      else let s = cmd_intern dev rd cmd data n
                     (g\<lparr>hdIf := (hdIf g)\<lparr>hd_retriesDone := hd_retriesDone (hdIf g) + 1\<rparr>\<rparr>, buf)
           in if hd_success (hdIf (fst s)) then s else hdd_retries dev rd cmd data n s)"
  by pat_completeness auto
termination
  by (relation "measure (\<lambda>(dev, rd, cmd, data, n, s). nat (hd_maxRetries (hdIf (fst s)) - hd_retriesDone (hdIf (fst s))))")
    (auto simp: cmd_intern_def split: prod.splits)

declare hdd_retries.simps [simp del]

text \<open>
  The result carries the bytes stored at the start of the buffer. With \<open>lock\<close> the wait for the mutex
  is over when the command starts, so it is free then.
\<close>

definition hddIfCmd_withRetries_worker ::
  "'h device \<Rightarrow> bool \<Rightarrow> BYTE list \<Rightarrow> BYTE list \<Rightarrow> WORD \<Rightarrow> bool \<Rightarrow> 'h gd \<Rightarrow> 'h gd \<times> BYTE list" where
  "hddIfCmd_withRetries_worker dev rd cmd data n lock g =
     (let unlock = (\<lambda>s. if lock then ((fst s)\<lparr>mtx := 0\<rparr>, snd s) else s);
          g = (if lock then g\<lparr>mtx := 0x80\<rparr> else g);
          g = g\<lparr>hdIf := (hdIf g)\<lparr>hd_retriesDone := 0\<rparr>\<rparr>
      in if drop_bit 5 (cmd ! 0) = hd_hostId (hdIf g)
         then unlock (g\<lparr>hdIf := (hdIf g)\<lparr>hd_success := False\<rparr>\<rparr>, [])
         else let s = cmd_intern dev rd cmd data n (g, [])
              in if hd_success (hdIf (fst s)) then unlock s
                 else if hd_maxRetries (hdIf (fst s)) < 1 then unlock s
                 else unlock (hdd_retries dev rd (retry_cmd cmd) data n s))"

definition hddIfCmd_withRetries_lock ::
  "'h device \<Rightarrow> bool \<Rightarrow> BYTE list \<Rightarrow> BYTE list \<Rightarrow> WORD \<Rightarrow> 'h gd \<Rightarrow> 'h gd \<times> BYTE list" where
  "hddIfCmd_withRetries_lock dev rd cmd data n g = hddIfCmd_withRetries_worker dev rd cmd data n True g"

definition hddIfCmd_withRetries_nolock ::
  "'h device \<Rightarrow> bool \<Rightarrow> BYTE list \<Rightarrow> BYTE list \<Rightarrow> WORD \<Rightarrow> 'h gd \<Rightarrow> 'h gd \<times> BYTE list" where
  "hddIfCmd_withRetries_nolock dev rd cmd data n g = hddIfCmd_withRetries_worker dev rd cmd data n False g"

datatype hdd_interface = IF_NONE | IF_ACSI | IF_SCSI_TT | IF_SCSI_FALCON

text \<open>\<open>hdd_if_select\<close> chooses the device functions, which are the parameter, and the reserved id.\<close>

definition hdd_if_select :: "hdd_interface \<Rightarrow> THDif \<Rightarrow> THDif" where
  "hdd_if_select t i =
     i\<lparr>hd_hostId := (case t of IF_SCSI_TT \<Rightarrow> 7 | IF_SCSI_FALCON \<Rightarrow> 0 | _ \<Rightarrow> 0xff)\<rparr>"

section \<open>Specification of the retries\<close>

text \<open>Send the commands one after the other until one succeeds.\<close>

fun until_ok :: "'h device \<Rightarrow> bool \<Rightarrow> BYTE list list \<Rightarrow> BYTE list \<Rightarrow> WORD \<Rightarrow> 'h \<times> bool \<times> BYTE \<times> BYTE list \<Rightarrow>
    'h \<times> bool \<times> BYTE \<times> BYTE list" where
  "until_ok dev rd [] data n s = s"
| "until_ok dev rd (c # cs) data n (h, ok, st, buf) =
     (case dev h rd c data n of (h, ok, st, ds) \<Rightarrow>
        if ok then (h, ok, st, overlay buf ds) else until_ok dev rd cs data n (h, ok, st, overlay buf ds))"

definition outcome :: "'h gd \<times> BYTE list \<Rightarrow> 'h \<times> bool \<times> BYTE \<times> BYTE list" where
  "outcome s = (gd_host (fst s), hd_success (hdIf (fst s)), hd_status (hdIf (fst s)), snd s)"

lemma outcome_intern:
  "outcome (cmd_intern dev rd cmd data n (g, buf)) =
     (case dev (gd_host g) rd cmd data n of (h, ok, st, ds) \<Rightarrow> (h, ok, st, overlay buf ds))"
  by (simp add: outcome_def cmd_intern_def split: prod.split)

lemma hdd_retries_until_ok:
  "outcome (hdd_retries dev rd cmd data n s) =
     until_ok dev rd (replicate (nat (hd_maxRetries (hdIf (fst s)) - hd_retriesDone (hdIf (fst s)))) cmd) data n (outcome s)"
proof (induction dev rd cmd data n s rule: hdd_retries.induct [case_names retry])
  case (retry dev rd cmd data n g buf)
  show ?case
  proof (cases "hd_retriesDone (hdIf g) \<ge> hd_maxRetries (hdIf g)")
    case True
    then show ?thesis by (simp add: hdd_retries.simps)
  next
    case False
    let ?g = "g\<lparr>hdIf := (hdIf g)\<lparr>hd_retriesDone := hd_retriesDone (hdIf g) + 1\<rparr>\<rparr>"
    let ?s = "cmd_intern dev rd cmd data n (?g, buf)"
    from False have "nat (hd_maxRetries (hdIf g) - hd_retriesDone (hdIf g)) =
        Suc (nat (hd_maxRetries (hdIf g) - (hd_retriesDone (hdIf g) + 1)))" by simp
    then have r: "replicate (nat (hd_maxRetries (hdIf g) - hd_retriesDone (hdIf g))) cmd =
        cmd # replicate (nat (hd_maxRetries (hdIf g) - (hd_retriesDone (hdIf g) + 1))) cmd" by simp
    have keep: "hd_maxRetries (hdIf (fst ?s)) = hd_maxRetries (hdIf g)"
      "hd_retriesDone (hdIf (fst ?s)) = hd_retriesDone (hdIf g) + 1"
      by (simp_all add: cmd_intern_def split: prod.split)
    have ok: "outcome ?s = (case dev (gd_host g) rd cmd data n of (h, ok, st, ds) \<Rightarrow> (h, ok, st, overlay buf ds))"
      by (simp add: outcome_intern)
    obtain h k st ds where d: "dev (gd_host g) rd cmd data n = (h, k, st, ds)" by (cases "dev (gd_host g) rd cmd data n")
    from ok d have o: "outcome ?s = (h, k, st, overlay buf ds)" by simp
    then have k: "hd_success (hdIf (fst ?s)) = k" by (simp add: outcome_def)
    have g: "outcome (g, buf) = (gd_host g, hd_success (hdIf g), hd_status (hdIf g), buf)" by (simp add: outcome_def)
    show ?thesis
    proof (cases k)
      case True
      with k o d False show ?thesis by (simp add: hdd_retries.simps [of _ _ _ _ _ g] Let_def r g)
    next
      case nk: False
      with k have "\<not> hd_success (hdIf (fst ?s))" by simp
      from retry.IH [OF False refl this] have
        "outcome (hdd_retries dev rd cmd data n ?s) =
          until_ok dev rd (replicate (nat (hd_maxRetries (hdIf g) - (hd_retriesDone (hdIf g) + 1))) cmd) data n (h, k, st, overlay buf ds)"
        unfolding keep o .
      with k nk d False show ?thesis by (simp add: hdd_retries.simps [of _ _ _ _ _ g] Let_def r g)
    qed
  qed
qed


lemma worker_until_ok:
  assumes "drop_bit 5 (cmd ! 0) \<noteq> hd_hostId (hdIf g)"
  shows "outcome (hddIfCmd_withRetries_worker dev rd cmd data n lock g) =
    until_ok dev rd (cmd # replicate (nat (hd_maxRetries (hdIf g))) (retry_cmd cmd)) data n
      (gd_host g, hd_success (hdIf g), hd_status (hdIf g), [])"
proof -
  let ?g = "(if lock then g\<lparr>mtx := 0x80\<rparr> else g)\<lparr>hdIf := (hdIf g)\<lparr>hd_retriesDone := 0\<rparr>\<rparr>"
  let ?s = "cmd_intern dev rd cmd data n (?g, [])"
  have un: "outcome (if lock then ((fst s)\<lparr>mtx := 0\<rparr>, snd s) else s) = outcome s" for s :: "'a gd \<times> BYTE list"
    by (simp add: outcome_def)
  have keep: "hd_maxRetries (hdIf (fst ?s)) = hd_maxRetries (hdIf g)" "hd_retriesDone (hdIf (fst ?s)) = 0"
    by (simp_all add: cmd_intern_def split: prod.split)
  obtain h k st ds where d: "dev (gd_host g) rd cmd data n = (h, k, st, ds)" by (cases "dev (gd_host g) rd cmd data n")
  then have o: "outcome ?s = (h, k, st, overlay [] ds)" by (simp add: outcome_intern)
  then have k: "hd_success (hdIf (fst ?s)) = k" by (simp add: outcome_def)
  have "outcome (hddIfCmd_withRetries_worker dev rd cmd data n lock g) =
      (if k \<or> hd_maxRetries (hdIf g) < 1 then outcome ?s else outcome (hdd_retries dev rd (retry_cmd cmd) data n ?s))"
    using assms k keep(1)
    by (cases lock) (simp_all add: hddIfCmd_withRetries_worker_def Let_def un [of _, simplified] outcome_def)
  also have "\<dots> = until_ok dev rd (cmd # replicate (nat (hd_maxRetries (hdIf g))) (retry_cmd cmd)) data n
      (gd_host g, hd_success (hdIf g), hd_status (hdIf g), [])"
    unfolding hdd_retries_until_ok keep o by (simp add: d)
  finally show ?thesis .
qed


section \<open>What a command keeps\<close>

definition rest_gd where
  "rest_gd g = ((gd_ram g, commandShort g, commandLong g, pDmaBuffer g, pDtaBuffer g, FastRAMBuffer g, fileBufs g),
     (pDta g, dtaBufferValidForPDta g, fsnextIsForUs g, currentDrive g, ceDrives g, ceMediach g, lastCeDrivesUpdate g,
      lastMediachUpdate g, forceSetdrv g, tosDta g), (hd_maxRetries (hdIf g), hd_hostId (hdIf g)))"

lemma rest_intern: "rest_gd (fst (cmd_intern dev rd cmd data n s)) = rest_gd (fst s)"
  by (simp add: rest_gd_def cmd_intern_def case_prod_beta)

lemma rest_upd [simp]:
  "rest_gd (g\<lparr>mtx := m\<rparr>) = rest_gd g"
  "hd_maxRetries i = hd_maxRetries (hdIf g) \<Longrightarrow> hd_hostId i = hd_hostId (hdIf g) \<Longrightarrow>
    rest_gd (g\<lparr>hdIf := i\<rparr>) = rest_gd g"
  by (simp_all add: rest_gd_def)

lemma rest_retries: "rest_gd (fst (hdd_retries dev rd cmd data n s)) = rest_gd (fst s)"
proof (induction dev rd cmd data n s rule: hdd_retries.induct [case_names retry])
  case (retry dev rd cmd data n g buf)
  let ?s = "cmd_intern dev rd cmd data n (g\<lparr>hdIf := (hdIf g)\<lparr>hd_retriesDone := hd_retriesDone (hdIf g) + 1\<rparr>\<rparr>, buf)"
  have "rest_gd (fst ?s) = rest_gd g" by (simp add: rest_intern)
  with retry show ?case by (simp add: hdd_retries.simps [of _ _ _ _ _ g] Let_def)
qed

lemma rest_worker: "rest_gd (fst (hddIfCmd_withRetries_worker dev rd cmd data n lock g)) = rest_gd g"
  by (simp add: hddIfCmd_withRetries_worker_def Let_def rest_intern rest_retries)

lemma worker_unlocks: "mtx (fst (hddIfCmd_withRetries_worker dev rd cmd data n True g)) = 0"
  by (simp add: hddIfCmd_withRetries_worker_def Let_def)

text \<open>
  C19: a command of the driver that is not for the reserved SCSI id is sent at most 1 + maxRetries
  times, first as it is and then with the retry flag in its module byte, until it succeeds; the result,
  the data and the device's state are those of the last attempt, nothing else of the driver changes,
  and the bus mutex is free afterwards on every path.
\<close>

theorem hdd_retry_protocol:
  assumes "drop_bit 5 (cmd ! 0) \<noteq> hd_hostId (hdIf g)"
  shows "outcome (hddIfCmd_withRetries_lock dev rd cmd data n g) =
      until_ok dev rd (cmd # replicate (nat (hd_maxRetries (hdIf g))) (retry_cmd cmd)) data n
        (gd_host g, hd_success (hdIf g), hd_status (hdIf g), []) \<and>
    rest_gd (fst (hddIfCmd_withRetries_lock dev rd cmd data n g)) = rest_gd g \<and>
    mtx (fst (hddIfCmd_withRetries_lock dev rd cmd data n g)) = 0"
  unfolding hddIfCmd_withRetries_lock_def
  using worker_until_ok [OF assms] rest_worker worker_unlocks by blast

section \<open>Memory and string functions of the driver (stdlib.c)\<close>

text \<open>\<open>memcpy\<close> into RAM is \<open>mem_put\<close>, from RAM \<open>mem_get\<close>. Characters are bytes.\<close>

text \<open>The terminated string at an address, at most \<open>n\<close> characters: what \<open>strncpy\<close> copies.\<close>

fun strncpy_bytes :: "ram \<Rightarrow> DWORD \<Rightarrow> nat \<Rightarrow> BYTE list" where
  "strncpy_bytes m a 0 = []"
| "strncpy_bytes m a (Suc n) = (if m a = 0 then [0] else m a # strncpy_bytes m (a + 1) n)"

definition strlen :: "ram \<Rightarrow> DWORD \<Rightarrow> nat" where
  "strlen m a = (case List.find (\<lambda>i. m (a + of_nat i) = 0) [0..<2048] of Some i \<Rightarrow> i | None \<Rightarrow> 0)"

definition strlen_buf :: "BYTE list \<Rightarrow> nat" where
  "strlen_buf xs = (case List.find (\<lambda>i. xs ! i = 0) [0..<2048] of Some i \<Rightarrow> i | None \<Rightarrow> 0)"

text \<open>\<open>strncpy\<close> into a buffer at an offset; it writes the terminator only when it meets it.\<close>

definition buf_put :: "BYTE list \<Rightarrow> nat \<Rightarrow> BYTE list \<Rightarrow> BYTE list" where
  "buf_put buf k xs = take k buf @ overwrite (drop k buf) xs"

definition getDword :: "BYTE list \<Rightarrow> nat \<Rightarrow> DWORD" where
  "getDword xs k = be32 (xs ! k) (xs ! (k + 1)) (xs ! (k + 2)) (xs ! (k + 3))"

definition getWord :: "BYTE list \<Rightarrow> nat \<Rightarrow> WORD" where
  "getWord xs k = be16 (xs ! k) (xs ! (k + 1))"

lemma length_buf_put [simp]: "k \<le> length buf \<Longrightarrow> length (buf_put buf k xs) = length buf"
  by (simp add: buf_put_def)

section \<open>Sending a command\<close>

definition set_short :: "BYTE \<Rightarrow> BYTE \<Rightarrow> 'h gd \<Rightarrow> 'h gd" where
  "set_short fn arg g = g\<lparr>commandShort := (commandShort g)[4 := fn, 5 := arg]\<rparr>"

text \<open>\<open>(*hdIf.cmd)(ACSI_READ, commandShort, CMD_LENGTH_SHORT, pDmaBuffer, 1)\<close> and its relatives.\<close>

definition hd_read_short :: "'h device \<Rightarrow> 'h gd \<Rightarrow> 'h gd" where
  "hd_read_short dev g =
     (let (g, ds) = hddIfCmd_withRetries_lock dev ACSI_READ (commandShort g) (pDmaBuffer g) 1 g
      in g\<lparr>pDmaBuffer := overwrite (pDmaBuffer g) ds\<rparr>)"

definition hd_write_short :: "'h device \<Rightarrow> 'h gd \<Rightarrow> 'h gd" where
  "hd_write_short dev g = fst (hddIfCmd_withRetries_lock dev ACSI_WRITE (commandShort g) (pDmaBuffer g) 1 g)"

definition hd_read_long :: "'h device \<Rightarrow> 'h gd \<Rightarrow> 'h gd" where
  "hd_read_long dev g =
     (let (g, ds) = hddIfCmd_withRetries_lock dev ACSI_READ (commandLong g) (pDmaBuffer g) 1 g
      in g\<lparr>pDmaBuffer := overwrite (pDmaBuffer g) ds\<rparr>)"

end
