(* ===== verification/GdRw.thy ===== *)
theory GdRw
  imports GdIf
begin

text \<open>
  Reading and writing files in the GEMDOS driver (src/ce_dd_prg/gemdos_rw.c): the per-file buffers,
  the transfers, and the handlers \<open>custom_fread\<close> and \<open>custom_fwrite\<close>.

  A handler takes its parameters from RAM at the stack pointer. It ends in a value, in a call of the
  operating system's own function, whose result is then the handler's, or, where the code indexes
  \<open>fileBufs\<close> with 40, outside the array.
\<close>

section \<open>Results and handles\<close>

datatype gd_call =
    Fread WORD DWORD DWORD | Fwrite WORD DWORD DWORD | Fclose WORD | Fseek DWORD WORD WORD
  | Fdatime DWORD WORD WORD | Fcreate DWORD WORD | Fopen DWORD WORD | Fsfirst DWORD WORD | Fsnext
  | Fattrib DWORD WORD WORD | Frename DWORD DWORD | Fdelete DWORD | Dfree DWORD WORD | Dcreate DWORD
  | Ddelete DWORD | Dsetpath DWORD | Dgetpath DWORD WORD | Mediach WORD | Getbpb WORD

datatype gd_result = Ret DWORD | CALL_OLD_GD gd_call | OutOfBounds

definition handleIsFromCE :: "WORD \<Rightarrow> bool" where
  "handleIsFromCE x \<longleftrightarrow> x \<ge> 80 \<and> x \<le> 120"

definition handleAtariToCE :: "WORD \<Rightarrow> WORD" where
  "handleAtariToCE x = x - 80"

definition handleCEtoAtari :: "WORD \<Rightarrow> WORD" where
  "handleCEtoAtari x = x + 80"

definition fb :: "'h gd \<Rightarrow> WORD \<Rightarrow> TFileBuffer" where
  "fb g c = fileBufs g ! unat c"

definition set_fb :: "WORD \<Rightarrow> TFileBuffer \<Rightarrow> 'h gd \<Rightarrow> 'h gd" where
  "set_fb c b g = g\<lparr>fileBufs := (fileBufs g)[unat c := b]\<rparr>"

section \<open>Transfers\<close>

text \<open>The end of \<open>readData\<close> and \<open>writeData\<close>: how much was transferred.\<close>

definition rw_result :: "'h device \<Rightarrow> WORD \<Rightarrow> DWORD \<Rightarrow> 'h gd \<Rightarrow> 'h gd \<times> DWORD" where
  "rw_result dev c cnt g =
     (if \<not> hd_success (hdIf g) then (g, 0)
      else if hd_status (hdIf g) = RW_ALL_TRANSFERED then (g, cnt)
      else if hd_status (hdIf g) \<noteq> RW_PARTIAL_TRANSFER then (g, 0)
      else let g = hd_read_short dev (set_short 0x63 (ucast c) g)
           in if \<not> hd_success (hdIf g) \<or> hd_status (hdIf g) \<noteq> E_OK then (g, 0)
              else (g, getDword (pDmaBuffer g) 0))"

definition sectors :: "DWORD \<Rightarrow> WORD" where
  "sectors cnt = ucast (drop_bit 9 (cnt + 511))"

text \<open>\<open>readData\<close> also returns the bytes stored at \<open>bfr\<close>.\<close>

definition readData :: "'h device \<Rightarrow> WORD \<Rightarrow> DWORD \<Rightarrow> BYTE \<Rightarrow> 'h gd \<Rightarrow> 'h gd \<times> BYTE list \<times> DWORD" where
  "readData dev c cnt seekOffset g =
     (let g = g\<lparr>commandLong := (commandLong g)
                 [5 := 0x3f, 6 := ucast c, 10 := seekOffset,
                  7 := ucast (drop_bit 16 cnt), 8 := ucast (drop_bit 8 cnt), 9 := ucast cnt]\<rparr>;
          (g, ds) = hddIfCmd_withRetries_lock dev ACSI_READ (commandLong g) [] (sectors cnt) g;
          (g, res) = rw_result dev c cnt g
      in (g, ds, res))"

text \<open>\<open>bfr\<close> is the content of the buffer, in whole sectors.\<close>

definition writeData :: "'h device \<Rightarrow> WORD \<Rightarrow> BYTE list \<Rightarrow> DWORD \<Rightarrow> 'h gd \<Rightarrow> 'h gd \<times> DWORD" where
  "writeData dev c bfr cnt g =
     (let g = g\<lparr>commandLong := (commandLong g)
                 [5 := 0x40, 6 := ucast c,
                  7 := ucast (drop_bit 16 cnt), 8 := ucast (drop_bit 8 cnt), 9 := ucast cnt]\<rparr>;
          (g, _) = hddIfCmd_withRetries_lock dev ACSI_WRITE (commandLong g) bfr (sectors cnt) g
      in rw_result dev c cnt g)"

definition fillReadBuffer :: "'h device \<Rightarrow> WORD \<Rightarrow> 'h gd \<Rightarrow> 'h gd" where
  "fillReadBuffer dev c g =
     (if unat c \<ge> MAX_FILES then g
      else let g = set_fb c ((fb g c)\<lparr>fb_rCount := 0, fb_rStart := 0\<rparr>) g;
               (g, ds, res) = readData dev c 512 0 g
           in set_fb c ((fb g c)\<lparr>fb_rBuf := overwrite (fb_rBuf (fb g c)) ds, fb_rCount := ucast res\<rparr>) g)"

definition commitChanges :: "'h device \<Rightarrow> WORD \<Rightarrow> 'h gd \<Rightarrow> 'h gd \<times> bool" where
  "commitChanges dev c g =
     (if unat c \<ge> MAX_FILES then (g, False)
      else if fb_wCount (fb g c) = 0 then (g, True)
      else let (g, res) = writeData dev c (fb_wBuf (fb g c)) (ucast (fb_wCount (fb g c))) g;
               ok = (res = ucast (fb_wCount (fb g c)))
           in (set_fb c ((fb g c)\<lparr>fb_wCount := 0\<rparr>) g, ok))"

definition initFileBuffer :: "WORD \<Rightarrow> 'h gd \<Rightarrow> 'h gd" where
  "initFileBuffer c g =
     (if unat c \<ge> MAX_FILES then g
      else set_fb c ((fb g c)\<lparr>fb_isOpen := False, fb_currentPos := 0, fb_rCount := 0, fb_rStart := 0,
                              fb_bytesToEOF := 0, fb_bytesToEOFinvalid := True, fb_wCount := 0\<rparr>) g)"

definition getBytesToEof :: "'h device \<Rightarrow> WORD \<Rightarrow> 'h gd \<Rightarrow> 'h gd" where
  "getBytesToEof dev c g =
     (let g = hd_read_short dev (set_short 0x65 (ucast c) g)
      in if \<not> hd_success (hdIf g) \<or> hd_status (hdIf g) \<noteq> E_OK
         then set_fb c ((fb g c)\<lparr>fb_bytesToEOF := 0, fb_bytesToEOFinvalid := False\<rparr>) g
         else set_fb c ((fb g c)\<lparr>fb_bytesToEOF := getDword (pDmaBuffer g) 0, fb_bytesToEOFinvalid := False\<rparr>) g)"

section \<open>Reading\<close>

definition data_left :: "TFileBuffer \<Rightarrow> WORD" where
  "data_left b = fb_rCount b - fb_rStart b"

function fread_small_loop ::
  "'h device \<Rightarrow> WORD \<Rightarrow> DWORD \<Rightarrow> DWORD \<Rightarrow> DWORD \<Rightarrow> 'h gd \<Rightarrow> 'h gd \<times> DWORD" where
  "fread_small_loop dev c countDone countNeeded buffer g =
     (if countNeeded = 0 then (g, countDone)
      else let g = (if data_left (fb g c) = 0 then fillReadBuffer dev c g else g);
               dataLeft = data_left (fb g c)
           in if dataLeft = 0 then (g, countDone)
              else let copyCount = (if ucast dataLeft > countNeeded then ucast countNeeded else dataLeft);
                       b = fb g c;
                       g = g\<lparr>gd_ram := mem_put (gd_ram g) buffer
                                (take (unat copyCount) (drop (unat (fb_rStart b)) (fb_rBuf b)))\<rparr>;
                       g = set_fb c (b\<lparr>fb_rStart := fb_rStart b + copyCount\<rparr>) g
                   in fread_small_loop dev c (countDone + ucast copyCount) (countNeeded - ucast copyCount)
                        (buffer + ucast copyCount) g)"
  by pat_completeness auto
termination
proof (relation "measure (\<lambda>(dev, c, countDone, countNeeded, buffer, g). unat countNeeded)", goal_cases)
  case (2 dev c countDone countNeeded buffer g x xa xb xc xd xe)
  let ?cc = "if ucast xa > countNeeded then ucast countNeeded else xa :: WORD"
  have "0 < unat ?cc \<and> unat ?cc \<le> unat countNeeded"
  proof (cases "ucast xa > countNeeded")
    case True
    then have "unat countNeeded < unat xa" by (simp add: word_less_nat_alt)
    moreover have "unat xa < 65536" by simp
    ultimately have "unat countNeeded mod 65536 = unat countNeeded" by (intro mod_less) linarith
    with True 2(1) show ?thesis by (simp add: unat_gt_0)
  next
    case False
    with 2(4) show ?thesis by (simp add: unat_gt_0 word_less_nat_alt not_less)
  qed
  then have "0 < unat (ucast ?cc :: DWORD) \<and> (ucast ?cc :: DWORD) \<le> countNeeded"
    by (simp only: word_le_nat_alt unat_ucast_up)
  with 2(5) show ?case by (auto simp: unat_sub word_le_nat_alt)
qed simp

declare fread_small_loop.simps [simp del]

definition fread_small :: "'h device \<Rightarrow> WORD \<Rightarrow> DWORD \<Rightarrow> DWORD \<Rightarrow> 'h gd \<Rightarrow> 'h gd \<times> DWORD" where
  "fread_small dev c countNeeded buffer g =
     (let (g, countDone) = fread_small_loop dev c 0 countNeeded buffer g
      in (set_fb c ((fb g c)\<lparr>fb_bytesToEOF := fb_bytesToEOF (fb g c) - countDone\<rparr>) g, countDone))"


text \<open>The second phase of \<open>fread_big\<close>, block by block. The last result is false when a block came short.\<close>

definition block_size :: "bool \<Rightarrow> DWORD" where
  "block_size toFastRam = (if toFastRam then of_nat FASTRAM_BUFFER_SIZE else of_nat (MAXSECTORS * 512))"

definition this_read :: "bool \<Rightarrow> DWORD \<Rightarrow> DWORD" where
  "this_read toFastRam countNeeded =
     (let down = countNeeded AND 0xfffffe00 in if down < block_size toFastRam then down else block_size toFastRam)"

definition store_block :: "bool \<Rightarrow> DWORD \<Rightarrow> DWORD \<Rightarrow> BYTE list \<Rightarrow> 'h gd \<Rightarrow> 'h gd" where
  "store_block toFastRam buffer sz ds g =
     (if toFastRam
      then let g = g\<lparr>FastRAMBuffer := overwrite (FastRAMBuffer g) ds\<rparr>
           in g\<lparr>gd_ram := mem_put (gd_ram g) buffer (take (unat sz) (FastRAMBuffer g))\<rparr>
      else g\<lparr>gd_ram := mem_put (gd_ram g) buffer ds\<rparr>)"

lemma and_not_mask: "(n::'a::len word) AND NOT (mask k) = n - take_bit k n"
proof -
  have "n AND NOT (mask k) = push_bit k (drop_bit k n)"
    by (rule bit_word_eqI) (auto simp: bit_simps)
  also have "\<dots> = n - take_bit k n" by (metis add_diff_cancel_right' bits_ident)
  finally show ?thesis .
qed
lemma down_512: "unat (n AND 0xfffffe00 :: DWORD) = unat n div 512 * 512"
proof -
  have "(0xfffffe00 :: DWORD) = NOT (mask 9)" by (simp add: mask_eq_exp_minus_1)
  then have "n AND 0xfffffe00 = n - take_bit 9 n" by (simp only: and_not_mask)
  moreover have t: "unat (take_bit 9 n) = unat n mod 512" by (simp add: take_bit_eq_mod unat_mod)
  ultimately have "unat (n AND 0xfffffe00) = unat n - unat n mod 512"
    by (simp add: unat_sub word_le_nat_alt)
  then show ?thesis by (simp add: minus_mod_eq_div_mult)
qed

lemma this_read_bounds:
  assumes "512 \<le> n"
  shows "512 \<le> this_read fr n" and "this_read fr n \<le> n"
proof -
  from assms have n: "512 \<le> unat n" by (simp add: word_le_nat_alt)
  then have "512 \<le> unat n div 512 * 512" by (simp add: div_greater_zero_iff)
  moreover have "unat n div 512 * 512 \<le> unat n" by simp
  moreover have "unat (block_size fr) = (if fr then 4096 else 130048)" by (simp add: block_size_def)
  ultimately show "512 \<le> this_read fr n" and "this_read fr n \<le> n"
    by (auto simp: this_read_def Let_def word_le_nat_alt word_less_nat_alt down_512 not_less split: if_splits)
qed

function fread_blocks ::
  "'h device \<Rightarrow> WORD \<Rightarrow> bool \<Rightarrow> BYTE \<Rightarrow> DWORD \<Rightarrow> DWORD \<Rightarrow> DWORD \<Rightarrow> 'h gd \<Rightarrow> 'h gd \<times> DWORD \<times> DWORD \<times> DWORD \<times> bool" where
  "fread_blocks dev c toFastRam seekOffset countDone countNeeded buffer g =
     (if countNeeded < 512 then (g, countDone, countNeeded, buffer, True)
      else let sz = this_read toFastRam countNeeded;
               (g, ds, res) = readData dev c sz seekOffset g;
               g = store_block toFastRam buffer sz ds g;
               g = set_fb c ((fb g c)\<lparr>fb_bytesToEOF := fb_bytesToEOF (fb g c) - res\<rparr>) g
           in if res \<noteq> sz
              then (set_fb c ((fb g c)\<lparr>fb_bytesToEOF := 0\<rparr>) g, countDone + res, countNeeded - res, buffer + res, False)
              else fread_blocks dev c toFastRam seekOffset (countDone + res) (countNeeded - res) (buffer + res) g)"
  by pat_completeness auto
termination
proof (relation "measure (\<lambda>(dev, c, fr, so, countDone, countNeeded, buffer, g). unat countNeeded)", goal_cases)
  case (2 dev c fr so countDone countNeeded buffer g x xa y xb ya xc xd)
  then have "512 \<le> countNeeded" by (simp add: not_less)
  with 2 this_read_bounds [of countNeeded fr] show ?case
    by (auto simp: unat_sub word_le_nat_alt)
qed simp

declare fread_blocks.simps [simp del]

text \<open>The third phase: the rest that is no whole block goes through the buffer.\<close>

definition fread_rest :: "'h device \<Rightarrow> WORD \<Rightarrow> DWORD \<Rightarrow> DWORD \<Rightarrow> DWORD \<Rightarrow> 'h gd \<Rightarrow> 'h gd \<times> DWORD" where
  "fread_rest dev c countDone countNeeded buffer g =
     (if countNeeded \<noteq> 0
      then let g = fillReadBuffer dev c g;
               b = fb g c;
               rest = (if countNeeded \<le> ucast (fb_rCount b) then countNeeded else ucast (fb_rCount b));
               g = g\<lparr>gd_ram := mem_put (gd_ram g) buffer
                        (take (unat rest) (drop (unat (fb_rStart b)) (fb_rBuf b)))\<rparr>;
               g = set_fb c (b\<lparr>fb_rStart := fb_rStart b + ucast rest, fb_bytesToEOF := fb_bytesToEOF b - rest\<rparr>) g
           in (g, countDone + rest)
      else (g, countDone))"

text \<open>The count is clipped to the file, then the second and the third phase run.\<close>

definition fread_unbuffered ::
  "'h device \<Rightarrow> WORD \<Rightarrow> BYTE \<Rightarrow> DWORD \<Rightarrow> DWORD \<Rightarrow> DWORD \<Rightarrow> 'h gd \<Rightarrow> 'h gd \<times> DWORD" where
  "fread_unbuffered dev c seekOffset countDone countNeeded buffer g =
     (let countNeeded = (if fb_bytesToEOF (fb g c) < countNeeded then fb_bytesToEOF (fb g c) else countNeeded);
          toFastRam = (buffer \<ge> 0x1000000);
          (g, countDone, countNeeded, buffer, ok) =
            fread_blocks dev c toFastRam seekOffset countDone countNeeded buffer g
      in if \<not> ok then (g, countDone) else fread_rest dev c countDone countNeeded buffer g)"

text \<open>
  The first phase: buffered data is used up, except that one byte may be left behind to make the
  address even; \<open>seekOffset\<close> then asks the host to go back by one.
\<close>

definition fread_big :: "'h device \<Rightarrow> WORD \<Rightarrow> DWORD \<Rightarrow> DWORD \<Rightarrow> 'h gd \<Rightarrow> 'h gd \<times> DWORD" where
  "fread_big dev c countNeeded buffer g =
     (let bufferIsOdd = (buffer AND 1 \<noteq> 0);
          g = (if bufferIsOdd \<and> data_left (fb g c) = 0 then fillReadBuffer dev c g else g);
          dataLeft = data_left (fb g c)
      in if bufferIsOdd \<and> dataLeft = 0 then (set_fb c ((fb g c)\<lparr>fb_bytesToEOF := 0\<rparr>) g, 0)
         else let dataLeftIsOdd = (dataLeft AND 1 \<noteq> 0);
                  less = (if bufferIsOdd then \<not> dataLeftIsOdd else dataLeft \<noteq> 0 \<and> dataLeftIsOdd);
                  dataLeft = (if less then dataLeft - 1 else dataLeft);
                  seekOffset = (if less then 0xff else 0);
                  b = fb g c;
                  g = g\<lparr>gd_ram := mem_put (gd_ram g) buffer
                           (take (unat dataLeft) (drop (unat (fb_rStart b)) (fb_rBuf b)))\<rparr>;
                  g = set_fb c (b\<lparr>fb_bytesToEOF := fb_bytesToEOF b - ucast dataLeft, fb_rStart := 0, fb_rCount := 0\<rparr>) g
              in fread_unbuffered dev c seekOffset (ucast dataLeft) (countNeeded - ucast dataLeft) (buffer + ucast dataLeft) g)"

definition custom_fread :: "'h device \<Rightarrow> DWORD \<Rightarrow> 'h gd \<Rightarrow> 'h gd \<times> gd_result" where
  "custom_fread dev sp g =
     (let atariHandle = rd16 (gd_ram g) sp;
          count = rd32 (gd_ram g) (sp + 2);
          buffer = rd32 (gd_ram g) (sp + 6)
      in if \<not> handleIsFromCE atariHandle then (g, CALL_OLD_GD (Fread atariHandle count buffer))
         else let c = handleAtariToCE atariHandle
              in if unat c \<ge> MAX_FILES then (g, OutOfBounds)
                 else if \<not> fb_isOpen (fb g c) then (g, Ret (extendByteToDword EIHNDL))
                 else let g = (if fb_bytesToEOFinvalid (fb g c) then getBytesToEof dev c g else g);
                          (g, res) = (if count \<le> 1024 then fread_small dev c count buffer g
                                      else fread_big dev c count buffer g);
                          g = (if 0 <s res
                               then set_fb c ((fb g c)\<lparr>fb_currentPos := fb_currentPos (fb g c) + res\<rparr>) g else g)
                      in (g, Ret res))"

section \<open>Writing\<close>

text \<open>The content of RAM the bus would read for a transfer of \<open>sz\<close> bytes.\<close>

definition sector_bytes :: "ram \<Rightarrow> DWORD \<Rightarrow> DWORD \<Rightarrow> BYTE list" where
  "sector_bytes m a sz = mem_get m a (unat (sectors sz) * 512)"

function fwrite_blocks ::
  "'h device \<Rightarrow> WORD \<Rightarrow> bool \<Rightarrow> DWORD \<Rightarrow> DWORD \<Rightarrow> DWORD \<Rightarrow> 'h gd \<Rightarrow> 'h gd \<times> DWORD" where
  "fwrite_blocks dev c toFastRam bytesWritten remCount buffer g =
     (if remCount = 0 then (g, bytesWritten)
      else let sz = (if remCount < block_size toFastRam then remCount else block_size toFastRam);
               (g, bfr) = (if toFastRam
                           then let g = g\<lparr>FastRAMBuffer := overwrite (FastRAMBuffer g) (mem_get (gd_ram g) buffer (unat sz))\<rparr>
                                in (g, take (unat (sectors sz) * 512) (FastRAMBuffer g))
                           else (g, sector_bytes (gd_ram g) buffer sz));
               (g, res) = writeData dev c bfr sz g
           in if res \<noteq> sz then (g, bytesWritten + res)
              else fwrite_blocks dev c toFastRam (bytesWritten + res) (remCount - res) (buffer + res) g)"
  by pat_completeness auto
termination
proof (relation "measure (\<lambda>(dev, c, fr, w, remCount, buffer, g). unat remCount)", goal_cases)
  case (2 dev c fr w remCount buffer g x xa y xb ya xc yb)
  let ?sz = "if remCount < block_size fr then remCount else block_size fr"
  have "0 < unat (block_size fr)" by (simp add: block_size_def)
  with 2 have "0 < unat ?sz \<and> unat ?sz \<le> unat remCount"
    by (auto simp: word_less_nat_alt not_less unat_gt_0)
  with 2 show ?case by (auto simp: unat_sub word_le_nat_alt)
qed simp

declare fwrite_blocks.simps [simp del]

text \<open>\<open>memcpy(&fb->wBuf[k], buffer, n)\<close>\<close>

definition wbuf_put :: "TFileBuffer \<Rightarrow> nat \<Rightarrow> BYTE list \<Rightarrow> TFileBuffer" where
  "wbuf_put b k bs = b\<lparr>fb_wBuf := buf_put (fb_wBuf b) k bs\<rparr>"

definition add_pos :: "WORD \<Rightarrow> DWORD \<Rightarrow> 'h gd \<Rightarrow> 'h gd" where
  "add_pos c n g = set_fb c ((fb g c)\<lparr>fb_currentPos := fb_currentPos (fb g c) + n\<rparr>) g"

text \<open>Writing at most 512 bytes.\<close>

definition fwrite_small :: "'h device \<Rightarrow> WORD \<Rightarrow> DWORD \<Rightarrow> DWORD \<Rightarrow> 'h gd \<Rightarrow> 'h gd \<times> DWORD" where
  "fwrite_small dev c count buffer g =
     (let b = fb g c;
          spaceLeft = 512 - fb_wCount b
      in if count \<le> ucast spaceLeft
         then let b = (wbuf_put b (unat (fb_wCount b)) (mem_get (gd_ram g) buffer (unat count)))
                        \<lparr>fb_wCount := fb_wCount b + ucast count\<rparr>
              in (add_pos c count (set_fb c b g), count)
         else let rest = ucast (count - ucast spaceLeft) :: WORD;
                  b = (wbuf_put b (unat (fb_wCount b)) (mem_get (gd_ram g) buffer (unat spaceLeft)))
                        \<lparr>fb_wCount := fb_wCount b + spaceLeft\<rparr>;
                  (g, _) = commitChanges dev c (set_fb c b g);
                  b = (wbuf_put (fb g c) 0 (mem_get (gd_ram g) (buffer + ucast spaceLeft) (unat rest)))\<lparr>fb_wCount := rest\<rparr>
              in (add_pos c count (set_fb c b g), count))"

text \<open>What is left after the write buffer was used: to the buffer, or directly from RAM.\<close>

definition fwrite_rest :: "'h device \<Rightarrow> WORD \<Rightarrow> DWORD \<Rightarrow> DWORD \<Rightarrow> DWORD \<Rightarrow> DWORD \<Rightarrow> 'h gd \<Rightarrow> 'h gd \<times> DWORD" where
  "fwrite_rest dev c count bytesWritten remCount buffer g =
     (if remCount < of_nat RW_BUFFER_SIZE
      then let b = (wbuf_put (fb g c) 0 (mem_get (gd_ram g) buffer (unat remCount)))
                     \<lparr>fb_wCount := fb_wCount (fb g c) + ucast remCount\<rparr>
           in (add_pos c count (set_fb c b g), count)
      else let (g, written) = fwrite_blocks dev c (0x1000000 \<le>s buffer) bytesWritten remCount buffer g
           in (add_pos c written g, written))"

text \<open>Writing more than 512 bytes: the buffer is filled, up to one byte to make the address even, and sent first.\<close>

definition fwrite_big :: "'h device \<Rightarrow> WORD \<Rightarrow> DWORD \<Rightarrow> DWORD \<Rightarrow> 'h gd \<Rightarrow> 'h gd \<times> DWORD" where
  "fwrite_big dev c count buffer g =
     (let spaceLeft = 512 - fb_wCount (fb g c);
          bufferIsOdd = (buffer AND 1 \<noteq> 0);
          spaceLeftIsOdd = (spaceLeft AND 1 \<noteq> 0)
      in if fb_wCount (fb g c) \<noteq> 0 \<or> bufferIsOdd
         then let (g, spaceLeft) =
                    (if \<not> bufferIsOdd then (g, if spaceLeftIsOdd then spaceLeft - 1 else spaceLeft)
                     else if \<not> spaceLeftIsOdd
                     then if spaceLeft > 0 then (g, spaceLeft - 1) else (fst (commitChanges dev c g), 512 - 1)
                     else (g, spaceLeft));
                  b = fb g c;
                  b = (wbuf_put b (unat (fb_wCount b)) (mem_get (gd_ram g) buffer (unat spaceLeft)))
                        \<lparr>fb_wCount := fb_wCount b + spaceLeft\<rparr>;
                  (g, res) = commitChanges dev c (set_fb c b g)
              in if \<not> res then (g, 0)
                 else fwrite_rest dev c count (ucast spaceLeft) (count - ucast spaceLeft) (buffer + ucast spaceLeft) g
         else fwrite_rest dev c count 0 count buffer g)"

definition custom_fwrite :: "'h device \<Rightarrow> DWORD \<Rightarrow> 'h gd \<Rightarrow> 'h gd \<times> gd_result" where
  "custom_fwrite dev sp g =
     (let atariHandle = rd16 (gd_ram g) sp;
          count = rd32 (gd_ram g) (sp + 2);
          buffer = rd32 (gd_ram g) (sp + 6)
      in if \<not> handleIsFromCE atariHandle then (g, CALL_OLD_GD (Fwrite atariHandle count buffer))
         else let c = handleAtariToCE atariHandle
              in if unat c \<ge> MAX_FILES then (g, OutOfBounds)
                 else if \<not> fb_isOpen (fb g c) then (g, Ret (extendByteToDword EIHNDL))
                 else let g = set_fb c ((fb g c)\<lparr>fb_bytesToEOFinvalid := True\<rparr>) g;
                          (g, res) = (if count \<le> of_nat RW_BUFFER_SIZE then fwrite_small dev c count buffer g
                                      else fwrite_big dev c count buffer g)
                      in (g, Ret res))"

end
