(* ===== verification/GdServer.thy ===== *)
theory GdServer
  imports GdRw
begin

text \<open>
  The contract between the driver's file functions and the file server behind the bus, as a locale:
  what the commands Fread, Fwrite, Fseek, the transfer count and the distance to the end of file do to
  an open file. Inside it, what the driver's transfer functions achieve.
\<close>

section \<open>Files\<close>

record hfile =
  hf_data :: "BYTE list"
  hf_pos :: nat
  hf_last :: nat
  hf_writable :: bool

definition pad16 :: "BYTE list \<Rightarrow> BYTE list" where
  "pad16 xs = xs @ replicate ((16 - length xs mod 16) mod 16) 0"

text \<open>Writing \<open>ys\<close> at offset \<open>p\<close>, with zeros between the old end and \<open>p\<close>.\<close>

definition put_at :: "nat \<Rightarrow> BYTE list \<Rightarrow> BYTE list \<Rightarrow> BYTE list" where
  "put_at p ys xs = (if ys = [] then xs
     else take p xs @ replicate (p - length xs) 0 @ ys @ drop (p + length ys) xs)"

definition count24 :: "BYTE list \<Rightarrow> nat" where
  "count24 cmd = unat (cmd ! 7) * 65536 + unat (cmd ! 8) * 256 + unat (cmd ! 9)"

definition long_cmd :: "BYTE \<Rightarrow> BYTE list \<Rightarrow> bool" where
  "long_cmd fn cmd \<longleftrightarrow> length cmd = 13 \<and> cmd ! 0 AND 0x1f = 0x1f \<and> cmd ! 1 = 0xA0 \<and> cmd ! 2 = 0x43 \<and>
     cmd ! 3 = 0x45 \<and> cmd ! 4 = 3 \<and> cmd ! 5 = fn"

definition short_cmd :: "BYTE \<Rightarrow> BYTE list \<Rightarrow> bool" where
  "short_cmd fn cmd \<longleftrightarrow> length cmd = 6 \<and> cmd ! 0 AND 0x1f = 0 \<and> cmd ! 1 = 0x43 \<and> cmd ! 2 = 0x45 \<and>
     cmd ! 3 = 3 \<and> cmd ! 4 = fn"

text \<open>The target of a seek; the offset is signed, the mode anything but 1 and 2 means from the start.\<close>

definition seek_target :: "hfile \<Rightarrow> DWORD \<Rightarrow> BYTE \<Rightarrow> int" where
  "seek_target f offset mode =
     sint offset + (if mode = 1 then int (hf_pos f) else if mode = 2 then int (length (hf_data f)) else 0)"

definition to_eof :: "hfile \<Rightarrow> DWORD" where
  "to_eof f = of_nat (length (hf_data f)) - of_nat (hf_pos f)"

locale file_server =
  fixes dev :: "'h device" and opened :: "'h \<Rightarrow> BYTE \<Rightarrow> hfile option"
  assumes read_law: "\<lbrakk>long_cmd 0x3f cmd; opened h (cmd ! 6) = Some f; count24 cmd mod 16 = 0; count24 cmd \<le> 130048;
        0 \<le> int (hf_pos f) + sint (cmd ! 10); q = nat (int (hf_pos f) + sint (cmd ! 10)); q < 2147483648;
        got = take (count24 cmd) (drop q (hf_data f))\<rbrakk> \<Longrightarrow>
      \<exists>h'. dev h True cmd d s = (h', True, if length got = count24 cmd then RW_ALL_TRANSFERED else RW_PARTIAL_TRANSFER, pad16 got) \<and>
        opened h' = (opened h)(cmd ! 6 \<mapsto> f\<lparr>hf_pos := q + length got, hf_last := length got\<rparr>)"
    and write_law: "\<lbrakk>long_cmd 0x40 cmd; opened h (cmd ! 6) = Some f; hf_writable f; count24 cmd \<le> 130048;
        count24 cmd + (16 - count24 cmd mod 16) mod 16 \<le> length d\<rbrakk> \<Longrightarrow>
      \<exists>h' ds. dev h False cmd d s = (h', True, RW_ALL_TRANSFERED, ds) \<and>
        opened h' = (opened h)(cmd ! 6 \<mapsto> f\<lparr>hf_data := put_at (hf_pos f) (take (count24 cmd) d) (hf_data f),
          hf_pos := hf_pos f + count24 cmd, hf_last := count24 cmd\<rparr>)"
    and count_law: "\<lbrakk>short_cmd 0x63 cmd; opened h (cmd ! 5) = Some f\<rbrakk> \<Longrightarrow>
      \<exists>h'. dev h True cmd d s = (h', True, E_OK, pad16 (be32_bytes (of_nat (hf_last f)))) \<and> opened h' = opened h"
    and eof_law: "\<lbrakk>short_cmd 0x65 cmd; opened h (cmd ! 5) = Some f\<rbrakk> \<Longrightarrow>
      \<exists>h'. dev h True cmd d s = (h', True, E_OK, pad16 (be32_bytes (to_eof f))) \<and> opened h' = opened h"
    and seek_law: "\<lbrakk>long_cmd 0x42 cmd; opened h (cmd ! 10) = Some f; t = seek_target f (getDword cmd 6) (cmd ! 11);
        0 \<le> t; t < 2147483648; g = f\<lparr>hf_pos := nat t\<rparr>\<rbrakk> \<Longrightarrow>
      \<exists>h'. dev h True cmd d s = (h', True, E_OK, pad16 (be32_bytes (of_nat (hf_pos g)) @ be32_bytes (to_eof g))) \<and>
        opened h' = (opened h)(cmd ! 10 \<mapsto> g)"

section \<open>The driver's invariant\<close>

definition fb_shape :: "TFileBuffer \<Rightarrow> bool" where
  "fb_shape b \<longleftrightarrow> length (fb_rBuf b) = RW_BUFFER_SIZE \<and> length (fb_wBuf b) = RW_BUFFER_SIZE"

definition drv_ok :: "'h gd \<Rightarrow> bool" where
  "drv_ok g \<longleftrightarrow> long_cmd (commandLong g ! 5) (commandLong g) \<and> short_cmd (commandShort g ! 4) (commandShort g) \<and>
     drop_bit 5 (commandLong g ! 0) \<noteq> hd_hostId (hdIf g) \<and> drop_bit 5 (commandShort g ! 0) \<noteq> hd_hostId (hdIf g) \<and>
     length (pDmaBuffer g) = DMA_BUFFER_SIZE \<and> length (FastRAMBuffer g) = FASTRAM_BUFFER_SIZE \<and>
     length (fileBufs g) = MAX_FILES \<and> (\<forall>b \<in> set (fileBufs g). fb_shape b)"

text \<open>What a transfer leaves alone.\<close>

definition kept_gd where
  "kept_gd g = (gd_ram g, FastRAMBuffer g, fileBufs g, pDtaBuffer g,
     (pDta g, dtaBufferValidForPDta g, fsnextIsForUs g, currentDrive g, ceDrives g, ceMediach g,
      lastCeDrivesUpdate g, lastMediachUpdate g, forceSetdrv g, tosDta g))"

lemma kept_gdD:
  assumes "kept_gd g = kept_gd g'"
  shows "gd_ram g = gd_ram g'" "FastRAMBuffer g = FastRAMBuffer g'" "fileBufs g = fileBufs g'"
    "fb g c = fb g' c" "pDtaBuffer g = pDtaBuffer g'" "pDta g = pDta g'"
  using assms by (simp_all add: kept_gd_def fb_def)

lemma kept_gd_simps [simp]:
  "kept_gd (g\<lparr>commandLong := x\<rparr>) = kept_gd g" "kept_gd (g\<lparr>commandShort := y\<rparr>) = kept_gd g"
  "kept_gd (g\<lparr>pDmaBuffer := z\<rparr>) = kept_gd g" "kept_gd (set_short fn a g) = kept_gd g"
  by (simp_all add: kept_gd_def set_short_def)

section \<open>A command that succeeds at once\<close>

definition hd_done :: "'h \<Rightarrow> BYTE \<Rightarrow> 'h gd \<Rightarrow> 'h gd" where
  "hd_done h st g = g\<lparr>gd_host := h, hdIf := (hdIf g)\<lparr>hd_success := True, hd_status := st, hd_retriesDone := 0\<rparr>, mtx := 0\<rparr>"

lemma hd_ok:
  assumes "dev (gd_host g) rd cmd data n = (h, True, st, ds)" and "drop_bit 5 (cmd ! 0) \<noteq> hd_hostId (hdIf g)"
  shows "hddIfCmd_withRetries_lock dev rd cmd data n g = (hd_done h st g, ds)"
proof -
  have "overlay [] ds = ds" by (simp add: overlay_def)
  then show ?thesis
    using assms
    by (simp add: hddIfCmd_withRetries_lock_def hddIfCmd_withRetries_worker_def Let_def cmd_intern_def hd_done_def)
qed

lemma hd_done_simps [simp]:
  "kept_gd (hd_done h st g) = kept_gd g" "gd_host (hd_done h st g) = h"
  "hd_success (hdIf (hd_done h st g))" "hd_status (hdIf (hd_done h st g)) = st"
  "hd_hostId (hdIf (hd_done h st g)) = hd_hostId (hdIf g)"
  "commandLong (hd_done h st g) = commandLong g" "commandShort (hd_done h st g) = commandShort g"
  "pDmaBuffer (hd_done h st g) = pDmaBuffer g" "drv_ok (hd_done h st g) = drv_ok g"
  by (simp_all add: hd_done_def kept_gd_def drv_ok_def)

lemma be32_bytes_be32: "be32 (ucast (drop_bit 24 x)) (ucast (drop_bit 16 x)) (ucast (drop_bit 8 x)) (ucast x) = x"
proof (rule bit_word_eqI)
  fix n
  assume "n < LENGTH(32)"
  then consider "24 \<le> n" "n < 32" | "16 \<le> n" "n < 24" | "8 \<le> n" "n < 16" | "n < 8" by fastforce
  then show "bit (be32 (ucast (drop_bit 24 x)) (ucast (drop_bit 16 x)) (ucast (drop_bit 8 x)) (ucast x)) n = bit x n"
    by cases (simp_all add: be32_def bit_simps less_diff_conv2)
qed

lemma nth_overwrite: "k < length ys \<Longrightarrow> k < length buf \<Longrightarrow> overwrite buf ys ! k = ys ! k"
  by (simp add: overwrite_def nth_append)

lemma be32_getDword:
  assumes "4 \<le> length buf"
  shows "getDword (overwrite buf (pad16 (be32_bytes x @ ys))) 0 = x"
proof -
  let ?zs = "pad16 (be32_bytes x @ ys)"
  have l: "4 \<le> length ?zs" by (simp add: pad16_def be32_bytes_def)
  have n: "?zs ! 0 = ucast (drop_bit 24 x)" "?zs ! 1 = ucast (drop_bit 16 x)" "?zs ! 2 = ucast (drop_bit 8 x)" "?zs ! 3 = ucast x"
    by (simp_all add: pad16_def be32_bytes_def)
  have o: "overwrite buf ?zs ! k = ?zs ! k" if "k < 4" for k
    using that l assms by (intro nth_overwrite) linarith+
  show ?thesis
    by (simp only: getDword_def o [of 0] o [of 1] o [of 2] o [of 3] n be32_bytes_be32 add_0 rel_simps)
qed


section \<open>Transfers\<close>

lemma count24_bytes:
  assumes "unat (cnt :: DWORD) < 16777216"
  shows "unat (ucast (drop_bit 16 cnt) :: BYTE) * 65536 + unat (ucast (drop_bit 8 cnt) :: BYTE) * 256 +
    unat (ucast cnt :: BYTE) = unat cnt"
proof -
  have d: "unat (drop_bit 16 cnt) = unat cnt div 65536" "unat (drop_bit 8 cnt) = unat cnt div 256"
    unfolding unat_drop_bit_eq by (simp_all add: drop_bit_eq_div)
  have "unat cnt div 65536 < 256" using assms by (simp add: div_less_iff_less_mult)
  then have "unat (ucast (drop_bit 16 cnt) :: BYTE) = unat cnt div 65536" by (simp only: unat_ucast_down d mod_less)
  moreover have "unat cnt = unat cnt div 256 * 256 + unat cnt mod 256" by simp
  moreover have "unat cnt div 256 = unat cnt div 65536 * 256 + unat cnt div 256 mod 256"
    using div_mult_mod_eq [of "unat cnt div 256" 256] by (simp add: div_mult2_eq [symmetric])
  ultimately show ?thesis unfolding unat_ucast_down d(2) by linarith
qed

lemma drv_ok_long:
  assumes "drv_ok g" and "cmd = commandLong g" and "length xs = 13" and "take 5 xs = take 5 (commandLong g)"
  shows "drv_ok (g\<lparr>commandLong := xs\<rparr>)" and "long_cmd (xs ! 5) xs" and "drop_bit 5 (xs ! 0) \<noteq> hd_hostId (hdIf g)"
proof -
  have "xs ! k = commandLong g ! k" if "k < 5" for k
    using that assms(4) by (metis nth_take)
  from this [of 0] this [of 1] this [of 2] this [of 3] this [of 4] assms
  show "drv_ok (g\<lparr>commandLong := xs\<rparr>)" and "long_cmd (xs ! 5) xs" and "drop_bit 5 (xs ! 0) \<noteq> hd_hostId (hdIf g)"
    by (simp_all add: drv_ok_def long_cmd_def)
qed

lemma drv_ok_short:
  assumes "drv_ok g"
  shows "drv_ok (set_short fn a g)" and "short_cmd fn (commandShort (set_short fn a g))"
    and "commandShort (set_short fn a g) ! 5 = a" and "drop_bit 5 (commandShort (set_short fn a g) ! 0) \<noteq> hd_hostId (hdIf (set_short fn a g))"
    and "gd_host (set_short fn a g) = gd_host g"
  using assms by (simp_all add: drv_ok_def short_cmd_def set_short_def)

lemma drv_ok_dma: "length z = 512 \<Longrightarrow> drv_ok k \<Longrightarrow> drv_ok (k\<lparr>pDmaBuffer := z\<rparr>)"
  by (simp add: drv_ok_def)

lemma unat_of_nat32: "n < 4294967296 \<Longrightarrow> unat (of_nat n :: DWORD) = n"
  by (simp add: unat_of_nat)

context file_server
begin

lemma short_read:
  assumes "drv_ok g" and "dev (gd_host g) True (commandShort (set_short fn a g)) (pDmaBuffer g) 1 = (h, True, E_OK, pad16 (be32_bytes x))"
  shows "\<exists>g'. hd_read_short dev (set_short fn a g) = g' \<and> drv_ok g' \<and> kept_gd g' = kept_gd g \<and> gd_host g' = h \<and>
    hd_success (hdIf g') \<and> hd_status (hdIf g') = E_OK \<and> getDword (pDmaBuffer g') 0 = x"
proof -
  let ?g = "set_short fn a g"
  note ok = drv_ok_short [OF assms(1), of fn a]
  have p: "pDmaBuffer ?g = pDmaBuffer g" "length (pDmaBuffer g) = 512" using assms(1) by (simp_all add: set_short_def drv_ok_def)
  have "hddIfCmd_withRetries_lock dev True (commandShort ?g) (pDmaBuffer ?g) 1 ?g = (hd_done h E_OK ?g, pad16 (be32_bytes x))"
    by (rule hd_ok) (use assms ok p in simp_all)
  then have r: "hd_read_short dev ?g = (hd_done h E_OK ?g)\<lparr>pDmaBuffer := overwrite (pDmaBuffer g) (pad16 (be32_bytes x))\<rparr>"
    by (simp add: hd_read_short_def p)
  have "drv_ok (hd_read_short dev ?g)" using ok(1) p by (simp add: r drv_ok_dma)
  moreover have "getDword (pDmaBuffer (hd_read_short dev ?g)) 0 = x"
    using be32_getDword [of "pDmaBuffer g" x "[]"] p by (simp add: r)
  ultimately show ?thesis by (simp add: r)
qed

lemma rw_result_ok:
  assumes "drv_ok g" and "hd_success (hdIf g)" and "opened (gd_host g) (ucast c) = Some f"
    and "hd_status (hdIf g) = (if of_nat (hf_last f) = cnt then RW_ALL_TRANSFERED else RW_PARTIAL_TRANSFER)"
  shows "\<exists>g'. rw_result dev c cnt g = (g', of_nat (hf_last f)) \<and> drv_ok g' \<and> kept_gd g' = kept_gd g \<and>
    opened (gd_host g') = opened (gd_host g)"
proof (cases "of_nat (hf_last f) = cnt")
  case True
  then show ?thesis using assms by (simp add: rw_result_def)
next
  case False
  let ?g = "set_short 0x63 (ucast c) g"
  note ok = drv_ok_short [OF assms(1), of "0x63" "ucast c"]
  from count_law [OF ok(2), of "gd_host g" f "pDmaBuffer g" 1] ok(3) assms(3)
  obtain h where "dev (gd_host g) True (commandShort ?g) (pDmaBuffer g) 1 = (h, True, E_OK, pad16 (be32_bytes (of_nat (hf_last f))))"
    and h: "opened h = opened (gd_host g)" by auto
  from short_read [OF assms(1) this(1)] h False assms(2,4) show ?thesis
    by (auto simp: rw_result_def Let_def)
qed

lemma readData_ok:
  assumes "drv_ok g" and "opened (gd_host g) (ucast c) = Some f" and "unat cnt mod 16 = 0" and "unat cnt \<le> 130048"
    and "0 \<le> int (hf_pos f) + sint off" and "q = nat (int (hf_pos f) + sint off)"
    and "got = take (unat cnt) (drop q (hf_data f))" and "q < 2147483648"
  shows "\<exists>g'. readData dev c cnt off g = (g', pad16 got, of_nat (length got)) \<and> drv_ok g' \<and> kept_gd g' = kept_gd g \<and>
    opened (gd_host g') = (opened (gd_host g))(ucast c \<mapsto> f\<lparr>hf_pos := q + length got, hf_last := length got\<rparr>)"
proof -
  let ?cmd = "(commandLong g)[5 := 0x3f, 6 := ucast c, 10 := off,
      7 := ucast (drop_bit 16 cnt), 8 := ucast (drop_bit 8 cnt), 9 := ucast cnt]"
  let ?g = "g\<lparr>commandLong := ?cmd\<rparr>" and ?f = "f\<lparr>hf_pos := q + length got, hf_last := length got\<rparr>"
  have l: "length (commandLong g) = 13" using assms(1) by (simp add: drv_ok_def long_cmd_def)
  have "take 5 ?cmd = take 5 (commandLong g)" by (simp add: take_update_cancel)
  note ok = drv_ok_long [OF assms(1) refl _ this, unfolded length_list_update, OF l]
  have cmd: "?cmd ! 5 = 0x3f" "?cmd ! 6 = ucast c" "?cmd ! 10 = off" "count24 ?cmd = unat cnt"
    using l count24_bytes [of cnt] assms(4) by (simp_all add: count24_def)
  from read_law [OF ok(2) [unfolded cmd(1)], of "gd_host g" f q got "[]" "sectors cnt"] assms(2-8)
  obtain h where d: "dev (gd_host g) True ?cmd [] (sectors cnt) =
      (h, True, if length got = unat cnt then RW_ALL_TRANSFERED else RW_PARTIAL_TRANSFER, pad16 got)"
    and h: "opened h = (opened (gd_host g))(ucast c \<mapsto> ?f)"
    unfolding cmd by auto
  have le: "length got \<le> unat cnt" by (simp add: assms(7))
  have eq: "(of_nat (length got) = cnt) = (length got = unat cnt)"
    using unat_of_nat32 [of "length got"] le assms(4) by auto
  let ?st = "if length got = unat cnt then RW_ALL_TRANSFERED else RW_PARTIAL_TRANSFER"
  have s: "hddIfCmd_withRetries_lock dev True ?cmd [] (sectors cnt) ?g = (hd_done h ?st ?g, pad16 got)"
    by (rule hd_ok) (use d ok in simp_all)
  have "\<exists>g'. rw_result dev c cnt (hd_done h ?st ?g) = (g', of_nat (hf_last ?f)) \<and> drv_ok g' \<and>
      kept_gd g' = kept_gd (hd_done h ?st ?g) \<and> opened (gd_host g') = opened (gd_host (hd_done h ?st ?g))"
    by (rule rw_result_ok) (use ok h eq in simp_all)
  then obtain g' where "rw_result dev c cnt (hd_done h ?st ?g) = (g', of_nat (length got))" "drv_ok g'"
    "kept_gd g' = kept_gd g" "opened (gd_host g') = opened h" by auto
  with s h show ?thesis by (simp add: readData_def Let_def)
qed

end

end
