(* ===== verification/GdRead.thy ===== *)
theory GdRead
  imports GdServer
begin

text \<open>
  Reading in the driver, against the file server's contract: the buffered read delivers the file's
  bytes from the stream position on; the block read does so when no byte has to be given back to the
  host, and what it delivers otherwise is computed exactly.
\<close>

section \<open>The read buffer and the file\<close>

definition left_in :: "TFileBuffer \<Rightarrow> nat" where
  "left_in b = unat (fb_rCount b) - unat (fb_rStart b)"

text \<open>The buffered bytes are the last ones before the host's position.\<close>

definition rbuf_rel :: "TFileBuffer \<Rightarrow> hfile \<Rightarrow> bool" where
  "rbuf_rel b f \<longleftrightarrow> unat (fb_rStart b) \<le> unat (fb_rCount b) \<and> unat (fb_rCount b) \<le> RW_BUFFER_SIZE \<and>
     left_in b \<le> hf_pos f \<and> (0 < left_in b \<longrightarrow> hf_pos f \<le> length (hf_data f)) \<and>
     take (left_in b) (drop (unat (fb_rStart b)) (fb_rBuf b)) = take (left_in b) (drop (hf_pos f - left_in b) (hf_data f))"

definition stream_pos :: "TFileBuffer \<Rightarrow> hfile \<Rightarrow> nat" where
  "stream_pos b f = hf_pos f - left_in b"

definition stream :: "('h \<Rightarrow> BYTE \<Rightarrow> hfile option) \<Rightarrow> 'h gd \<Rightarrow> WORD \<Rightarrow> hfile \<Rightarrow> bool" where
  "stream op g c f \<longleftrightarrow> drv_ok g \<and> unat c < MAX_FILES \<and> op (gd_host g) (ucast c) = Some f \<and> rbuf_rel (fb g c) f \<and>
     length (hf_data f) < 2147483648 \<and> hf_pos f < 2147483648"

definition fb_view where
  "fb_view b = (fb_isOpen b, fb_currentPos b, fb_bytesToEOF b, fb_bytesToEOFinvalid b, fb_wCount b, fb_wBuf b)"

text \<open>From \<open>g\<close> to \<open>g'\<close> only the handle's read buffer and host position and the RAM have changed.\<close>

definition moved ::
  "('h \<Rightarrow> BYTE \<Rightarrow> hfile option) \<Rightarrow> WORD \<Rightarrow> 'h gd \<Rightarrow> hfile \<Rightarrow> 'h gd \<Rightarrow> hfile \<Rightarrow> bool" where
  "moved op c g f g' f' \<longleftrightarrow> stream op g' c f' \<and> hf_data f' = hf_data f \<and> hf_writable f' = hf_writable f \<and>
     fb_view (fb g' c) = fb_view (fb g c) \<and> (\<forall>d. d \<noteq> c \<longrightarrow> fb g' d = fb g d) \<and>
     (\<forall>k. k \<noteq> ucast c \<longrightarrow> op (gd_host g') k = op (gd_host g) k)"

lemma moved_refl: "stream op g c f \<Longrightarrow> moved op c g f g f"
  by (simp add: moved_def)

lemma moved_trans: "moved op c g f g' f' \<Longrightarrow> moved op c g' f' g'' f'' \<Longrightarrow> moved op c g f g'' f''"
  by (simp add: moved_def)

lemma unat_data_left: "rbuf_rel b f \<Longrightarrow> unat (data_left b) = left_in b"
  by (simp add: data_left_def left_in_def rbuf_rel_def unat_sub word_le_nat_alt)

lemma drv_ok_length: "drv_ok g \<Longrightarrow> length (fileBufs g) = 40"
  by (simp add: drv_ok_def)

lemma set_fb_simps [simp]:
  "gd_host (set_fb c b g) = gd_host g" "gd_ram (set_fb c b g) = gd_ram g" "hdIf (set_fb c b g) = hdIf g"
  "FastRAMBuffer (set_fb c b g) = FastRAMBuffer g" "pDmaBuffer (set_fb c b g) = pDmaBuffer g"
  by (simp_all add: set_fb_def)

lemma fb_set_fb:
  assumes "drv_ok g" and "unat c < 40"
  shows "fb (set_fb c b g) c = b" and "d \<noteq> c \<Longrightarrow> fb (set_fb c b g) d = fb g d"
  using assms by (simp_all add: fb_def set_fb_def drv_ok_def word_unat_eq_iff nth_list_update)

lemma fb_ram [simp]: "fb (g\<lparr>gd_ram := m\<rparr>) c = fb g c" "gd_host (g\<lparr>gd_ram := m\<rparr>) = gd_host g"
  "fb (g\<lparr>FastRAMBuffer := x\<rparr>) c = fb g c"
  by (simp_all add: fb_def)

lemma drv_ok_ram [simp]: "drv_ok (g\<lparr>gd_ram := m\<rparr>) = drv_ok g"
  by (simp add: drv_ok_def)

lemma drv_ok_set_fb: "drv_ok g \<Longrightarrow> fb_shape b \<Longrightarrow> drv_ok (set_fb c b g)"
  by (auto simp: drv_ok_def set_fb_def dest!: set_mp [OF set_update_subset_insert])

lemma drv_ok_fb: "drv_ok g \<Longrightarrow> unat c < 40 \<Longrightarrow> fb_shape (fb g c)"
  by (simp add: drv_ok_def fb_def)

lemma mem_put_append: "mem_put m a (xs @ ys) = mem_put (mem_put m a xs) (a + of_nat (length xs)) ys"
  by (induction xs arbitrary: m a) (simp_all add: algebra_simps)

text \<open>Replacing a handle's buffer by one that is in step with the file again.\<close>

lemma moved_set_fb:
  assumes "drv_ok g'" and "unat c < 40" and "stream op g c f" and "op (gd_host g') = (op (gd_host g))(ucast c \<mapsto> f')"
    and "hf_data f' = hf_data f" and "hf_writable f' = hf_writable f" and "hf_pos f' < 2147483648"
    and "\<And>d. d \<noteq> c \<Longrightarrow> fb g' d = fb g d" and "fb_shape b" and "rbuf_rel b f'" and "fb_view b = fb_view (fb g c)"
  shows "moved op c g f (set_fb c b g') f'"
  using assms fb_set_fb [OF assms(1,2)]
  by (auto simp: moved_def stream_def drv_ok_set_fb)

lemma take_overwrite: "length xs \<le> length buf \<Longrightarrow> take (length xs) (overwrite buf (xs @ ys)) = xs"
  by (simp add: overwrite_def)

context file_server
begin

lemma fill_ok:
  assumes "stream opened g c f" and "left_in (fb g c) = 0"
  shows "\<exists>f'. moved opened c g f (fillReadBuffer dev c g) f' \<and> gd_ram (fillReadBuffer dev c g) = gd_ram g \<and>
    FastRAMBuffer (fillReadBuffer dev c g) = FastRAMBuffer g \<and>
    stream_pos (fb (fillReadBuffer dev c g) c) f' = stream_pos (fb g c) f \<and>
    left_in (fb (fillReadBuffer dev c g) c) = min 512 (length (hf_data f) - stream_pos (fb g c) f) \<and>
    fb_rStart (fb (fillReadBuffer dev c g) c) = 0"
proof -
  let ?b = "(fb g c)\<lparr>fb_rCount := 0, fb_rStart := 0\<rparr>"
  let ?g = "set_fb c ?b g" and ?got = "take 512 (drop (hf_pos f) (hf_data f))"
  let ?f = "f\<lparr>hf_pos := hf_pos f + length ?got, hf_last := length ?got\<rparr>"
  from assms(1) have st: "drv_ok g" "unat c < 40" "opened (gd_host g) (ucast c) = Some f" "rbuf_rel (fb g c) f"
    "length (hf_data f) < 2147483648" "hf_pos f < 2147483648" by (simp_all add: stream_def)
  have sh: "fb_shape (fb g c)" by (rule drv_ok_fb [OF st(1,2)])
  then have "fb_shape ?b" by (simp add: fb_shape_def)
  with st(1) have ok: "drv_ok ?g" by (rule drv_ok_set_fb)
  note fbg = fb_set_fb [OF st(1,2)]
  obtain g1 where r: "readData dev c 512 0 ?g = (g1, pad16 ?got, of_nat (length ?got))" and g1: "drv_ok g1" "kept_gd g1 = kept_gd ?g"
    and h1: "opened (gd_host g1) = (opened (gd_host ?g))(ucast c \<mapsto> ?f)"
    using readData_ok [OF ok, of c f 512 0 "hf_pos f" ?got] st(3,6) by auto
  let ?b' = "?b\<lparr>fb_rBuf := overwrite (fb_rBuf ?b) (pad16 ?got), fb_rCount := ucast (of_nat (length ?got) :: DWORD)\<rparr>"
  have fb1: "fb g1 d = fb ?g d" for d by (rule kept_gdD(4) [OF g1(2)])
  then have fr: "fillReadBuffer dev c g = set_fb c ?b' g1"
    using st(2) r fbg(1) by (simp add: fillReadBuffer_def Let_def not_le [symmetric])
  have len: "length ?got \<le> 512" by simp
  have cnt: "unat (fb_rCount ?b') = length ?got"
    using len by (simp add: unat_of_nat32)
  have buf: "take (length ?got) (overwrite (fb_rBuf ?b) (pad16 ?got)) = ?got"
    unfolding pad16_def by (rule take_overwrite) (use sh len in \<open>simp add: fb_shape_def\<close>)
  have l': "left_in ?b' = length ?got" unfolding left_in_def cnt by simp
  have rel: "rbuf_rel ?b' ?f"
    unfolding rbuf_rel_def l' cnt using buf len by (auto simp: min_def)
  have pos: "hf_pos ?f < 2147483648" using st(5,6) by (auto simp: min_def)
  have m: "moved opened c g f (set_fb c ?b' g1) ?f"
    by (rule moved_set_fb [OF g1(1) st(2) assms(1)])
      (use h1 pos rel fb1 fbg sh in \<open>simp_all add: fb_shape_def fb_view_def\<close>)
  moreover have "stream_pos ?b' ?f = stream_pos (fb g c) f"
    using assms(2) by (simp only: stream_pos_def l') (simp add: stream_pos_def)
  moreover have "left_in ?b' = min 512 (length (hf_data f) - stream_pos (fb g c) f)"
    unfolding l' using assms(2) by (simp add: stream_pos_def min_def)
  ultimately show ?thesis
    using fb_set_fb(1) [OF g1(1) st(2)] kept_gdD(1,2) [OF g1(2)] unfolding fr by auto
qed


lemma consume:
  assumes "stream opened g c f" and "unat n \<le> left_in (fb g c)" and "b = (fb g c)\<lparr>fb_rStart := fb_rStart (fb g c) + n\<rparr>"
  shows "moved opened c g f (set_fb c b (g\<lparr>gd_ram := m\<rparr>)) f"
    and "stream_pos b f = stream_pos (fb g c) f + unat n" and "left_in b = left_in (fb g c) - unat n"
    and "take (unat n) (drop (unat (fb_rStart (fb g c))) (fb_rBuf (fb g c))) = take (unat n) (drop (stream_pos (fb g c) f) (hf_data f))"
proof -
  from assms(1) have st: "drv_ok g" "unat c < 40" "opened (gd_host g) (ucast c) = Some f" "rbuf_rel (fb g c) f"
    "hf_pos f < 2147483648" by (simp_all add: stream_def)
  let ?b0 = "fb g c"
  have l: "unat (fb_rStart ?b0) \<le> unat (fb_rCount ?b0)" "unat (fb_rCount ?b0) \<le> 512" "left_in ?b0 \<le> hf_pos f"
    "0 < left_in ?b0 \<longrightarrow> hf_pos f \<le> length (hf_data f)"
    and e: "take (left_in ?b0) (drop (unat (fb_rStart ?b0)) (fb_rBuf ?b0)) = take (left_in ?b0) (drop (hf_pos f - left_in ?b0) (hf_data f))"
    using st(4) by (simp_all add: rbuf_rel_def)
  from assms(2) l(1,2) have s: "unat (fb_rStart ?b0 + n) = unat (fb_rStart ?b0) + unat n"
    by (simp add: left_in_def unat_word_ariths)
  then show left: "left_in b = left_in ?b0 - unat n" by (simp add: left_in_def assms(3))
  show "stream_pos b f = stream_pos ?b0 f + unat n"
    unfolding stream_pos_def left using assms(2) l(3) by simp
  show t: "take (unat n) (drop (unat (fb_rStart ?b0)) (fb_rBuf ?b0)) = take (unat n) (drop (stream_pos ?b0 f) (hf_data f))"
    using arg_cong [OF e, of "take (unat n)"] assms(2) by (simp add: stream_pos_def min_absorb1)
  have "take (left_in ?b0 - unat n) (drop (unat n) (drop (unat (fb_rStart ?b0)) (fb_rBuf ?b0))) =
      take (left_in ?b0 - unat n) (drop (unat n) (drop (hf_pos f - left_in ?b0) (hf_data f)))"
    using arg_cong [OF e, of "drop (unat n)"] by (simp add: drop_take)
  moreover have "unat n + (hf_pos f - left_in ?b0) = hf_pos f - (left_in ?b0 - unat n)" using assms(2) l(3) by simp
  ultimately have rel: "rbuf_rel b f"
    using l assms(2) unfolding rbuf_rel_def left by (simp add: assms(3) s left_in_def add.commute [of "unat n" "unat (fb_rStart (fb g c))"]) linarith?
  show "moved opened c g f (set_fb c b (g\<lparr>gd_ram := m\<rparr>)) f"
    by (rule moved_set_fb [OF _ st(2) assms(1)])
      (use st rel drv_ok_fb [OF st(1,2)] in \<open>simp_all add: assms(3) fb_shape_def fb_view_def fun_upd_idem\<close>)
qed

lemma refill_ok:
  assumes "stream opened g c f" and "g1 = (if data_left (fb g c) = 0 then fillReadBuffer dev c g else g)"
  shows "\<exists>f1. moved opened c g f g1 f1 \<and> gd_ram g1 = gd_ram g \<and> FastRAMBuffer g1 = FastRAMBuffer g \<and>
    stream_pos (fb g1 c) f1 = stream_pos (fb g c) f \<and> unat (data_left (fb g1 c)) = left_in (fb g1 c) \<and>
    left_in (fb g1 c) \<le> length (hf_data f) - stream_pos (fb g c) f \<and>
    (left_in (fb g1 c) = 0 \<longrightarrow> length (hf_data f) \<le> stream_pos (fb g c) f)"
proof -
  have rel: "rbuf_rel (fb g c) f" using assms(1) by (simp add: stream_def)
  show ?thesis
  proof (cases "left_in (fb g c) = 0")
    case True
    then have "g1 = fillReadBuffer dev c g" using unat_data_left [OF rel] assms(2) by (simp add: unat_eq_0)
    with fill_ok [OF assms(1) True] obtain f1 where "moved opened c g f g1 f1" "gd_ram g1 = gd_ram g"
      "FastRAMBuffer g1 = FastRAMBuffer g" "stream_pos (fb g1 c) f1 = stream_pos (fb g c) f"
      "left_in (fb g1 c) = min 512 (length (hf_data f) - stream_pos (fb g c) f)" by auto
    moreover from this(1) have "rbuf_rel (fb g1 c) f1" by (simp add: moved_def stream_def)
    ultimately show ?thesis by (intro exI [of _ f1]) (auto simp: unat_data_left)
  next
    case False
    then have "g1 = g" using unat_data_left [OF rel] assms(2) by auto
    with False moved_refl [OF assms(1)] unat_data_left [OF rel] rel show ?thesis
      by (intro exI [of _ f]) (auto simp: rbuf_rel_def stream_pos_def)
  qed
qed

end

text \<open>The number of bytes one pass of the buffered read copies, and the pass itself.\<close>

definition copy_count :: "WORD \<Rightarrow> DWORD \<Rightarrow> WORD" where
  "copy_count l n = (if ucast l > n then ucast n else l)"

lemma unat_copy_count: "unat (copy_count l n) = min (unat l) (unat n)"
proof (cases "ucast l > n")
  case True
  then have "unat n < unat l" by (simp add: word_less_nat_alt)
  moreover have "unat l < 65536" by simp
  ultimately have "unat n mod 65536 = unat n" by (intro mod_less) linarith
  with True \<open>unat n < unat l\<close> show ?thesis by (simp add: copy_count_def)
next
  case False
  then show ?thesis by (simp add: copy_count_def word_less_nat_alt not_less)
qed

lemma small_loop_step:
  assumes "n \<noteq> 0" and "g1 = (if data_left (fb g c) = 0 then fillReadBuffer dev c g else g)"
    and "data_left (fb g1 c) \<noteq> 0" and "cc = copy_count (data_left (fb g1 c)) n" and "b = fb g1 c"
  shows "fread_small_loop dev c cd n buffer g =
    fread_small_loop dev c (cd + ucast cc) (n - ucast cc) (buffer + ucast cc)
      (set_fb c (b\<lparr>fb_rStart := fb_rStart b + cc\<rparr>)
        (g1\<lparr>gd_ram := mem_put (gd_ram g1) buffer (take (unat cc) (drop (unat (fb_rStart b)) (fb_rBuf b)))\<rparr>))"
  unfolding fread_small_loop.simps [of dev c cd n] Let_def
  using assms(1,3) unfolding assms(2) [symmetric] copy_count_def [symmetric] by (simp add: assms(4,5))

lemma small_loop_end:
  assumes "g1 = (if data_left (fb g c) = 0 then fillReadBuffer dev c g else g)" and "data_left (fb g1 c) = 0" and "n \<noteq> 0"
  shows "fread_small_loop dev c cd n buffer g = (g1, cd)"
  unfolding fread_small_loop.simps [of dev c cd n] Let_def
  using assms(2,3) unfolding assms(1) [symmetric] by simp

context file_server
begin

lemma small_loop_ok:
  assumes "stream opened g c f" and "P = stream_pos (fb g c) f" and "got = take (unat n) (drop P (hf_data f))"
  shows "\<exists>g' f'. fread_small_loop dev c cd n buffer g = (g', cd + of_nat (length got)) \<and> moved opened c g f g' f' \<and>
    gd_ram g' = mem_put (gd_ram g) buffer got \<and> stream_pos (fb g' c) f' = P + length got \<and> FastRAMBuffer g' = FastRAMBuffer g"
  using assms
proof (induction "unat n" arbitrary: n cd buffer g f P got rule: less_induct)
  case less
  show ?case
  proof (cases "n = 0")
    case True
    then show ?thesis using less.prems moved_refl [OF less.prems(1)]
      by (intro exI [of _ g] exI [of _ f]) (simp add: fread_small_loop.simps)
  next
    case n0: False
    define g1 where g1: "g1 = (if data_left (fb g c) = 0 then fillReadBuffer dev c g else g)"
    from refill_ok [OF less.prems(1) g1] obtain f1 where f1: "moved opened c g f g1 f1" "gd_ram g1 = gd_ram g"
      "FastRAMBuffer g1 = FastRAMBuffer g" "stream_pos (fb g1 c) f1 = P" "unat (data_left (fb g1 c)) = left_in (fb g1 c)"
      "left_in (fb g1 c) \<le> length (hf_data f) - P" "left_in (fb g1 c) = 0 \<longrightarrow> length (hf_data f) \<le> P"
      unfolding less.prems(2) [symmetric] by (elim exE conjE) (rule that)
    from f1(1) have st1: "stream opened g1 c f1" and d1: "hf_data f1 = hf_data f" by (simp_all add: moved_def)
    show ?thesis
    proof (cases "data_left (fb g1 c) = 0")
      case True
      with f1(5,7) have "got = []" by (simp add: less.prems(3))
      with small_loop_end [OF g1 True n0] f1 show ?thesis by (intro exI [of _ g1] exI [of _ f1]) simp
    next
      case l0: False
      have l1: "0 < left_in (fb g1 c)" using l0 unat_eq_0 [of "data_left (fb g1 c)"] f1(5) by simp
      define cc where cc: "cc = copy_count (data_left (fb g1 c)) n"
      define m where m: "m = take (unat cc) (drop P (hf_data f))"
      define got2 where got2: "got2 = take (unat (n - ucast cc)) (drop (P + unat cc) (hf_data f))"
      have "unat cc = min (left_in (fb g1 c)) (unat n)" by (simp add: cc unat_copy_count f1(5))
      moreover have "0 < unat n" using n0 by (simp add: unat_gt_0)
      moreover note l1
      ultimately have le: "unat cc \<le> left_in (fb g1 c)" "unat cc \<le> unat n" "0 < unat cc" by auto
      let ?b = "(fb g1 c)\<lparr>fb_rStart := fb_rStart (fb g1 c) + cc\<rparr>"
      define g2 where g2: "g2 = set_fb c ?b (g1\<lparr>gd_ram := mem_put (gd_ram g) buffer m\<rparr>)"
      have co1: "moved opened c g1 f1 g2 f1" unfolding g2 by (rule consume(1) [OF st1 le(1) refl])
      note co2 = consume(2) [OF st1 le(1) refl, unfolded f1(4)]
      note co4 = consume(4) [OF st1 le(1) refl, unfolded f1(4) d1, folded m]
      have lm: "length m = unat cc" using le f1(6) by (simp add: m)
      have st2: "stream opened g2 c f1" using co1 by (simp add: moved_def)
      have "fb g2 c = ?b"
        unfolding g2 by (rule fb_set_fb(1)) (use st1 in \<open>simp_all add: stream_def\<close>)
      then have p2: "stream_pos (fb g2 c) f1 = P + unat cc" using co2 by simp
      have nn: "unat (n - ucast cc) = unat n - unat cc" using le by (simp add: unat_sub word_le_nat_alt)
      have got: "got = m @ got2"
        unfolding nn less.prems(3) m got2 using le(2) take_drop_slice [of "unat cc" P "hf_data f" "unat n - unat cc"] by simp
      have "unat (n - ucast cc) < unat n" unfolding nn using le by simp
      from less.hyps [OF this st2 p2 [symmetric] got2 [folded d1], of "cd + ucast cc" "buffer + ucast cc"]
      obtain g' f' where ih: "fread_small_loop dev c (cd + ucast cc) (n - ucast cc) (buffer + ucast cc) g2 =
          (g', cd + ucast cc + of_nat (length got2))"
        "moved opened c g2 f1 g' f'" "gd_ram g' = mem_put (gd_ram g2) (buffer + ucast cc) got2"
        "stream_pos (fb g' c) f' = P + unat cc + length got2" "FastRAMBuffer g' = FastRAMBuffer g2"
        by blast
      have cw: "(of_nat (unat cc) :: DWORD) = ucast cc" by (metis of_nat_unat ucast_id unat_ucast_up(1))
      have un: "fread_small_loop dev c cd n buffer g = (g', cd + of_nat (length got))"
        unfolding small_loop_step [OF n0 g1 l0 cc refl] co4 f1(2) g2 [symmetric] ih(1) got
        by (simp add: lm cw add.assoc)
      have "moved opened c g f g' f'"
        by (rule moved_trans [OF f1(1) moved_trans [OF co1 ih(2)]])
      moreover have "gd_ram g' = mem_put (gd_ram g) buffer got"
        unfolding got mem_put_append lm cw ih(3) by (simp add: g2)
      ultimately show ?thesis
        using ih(4,5) f1(3) un by (intro exI [of _ g'] exI [of _ f']) (simp add: got lm g2)
    qed
  qed
qed

end

end
