(* ===== verification/GdBig.thy ===== *)
theory GdBig
  imports GdRead
begin

text \<open>
  The handlers of Fread: small reads, and big reads with their block transfers, for every alignment of
  the destination and the buffered data.
\<close>

section \<open>Open files\<close>

definition others :: "('h \<Rightarrow> BYTE \<Rightarrow> hfile option) \<Rightarrow> WORD \<Rightarrow> 'h gd \<Rightarrow> 'h gd \<Rightarrow> bool" where
  "others op c g g' \<longleftrightarrow> (\<forall>d. d \<noteq> c \<longrightarrow> fb g' d = fb g d) \<and> (\<forall>k. k \<noteq> ucast c \<longrightarrow> op (gd_host g') k = op (gd_host g) k)"

lemma others_refl [simp]: "others op c g g"
  by (simp add: others_def)

lemma others_trans: "others op c g g' \<Longrightarrow> others op c g' g'' \<Longrightarrow> others op c g g''"
  by (simp add: others_def)

text \<open>
  A handle open for reading at stream position \<open>P\<close> of file \<open>f\<close>: nothing waits to be written and the
  driver's position and, where it is valid, its distance to the end are those of the stream.
\<close>

definition open_at :: "('h \<Rightarrow> BYTE \<Rightarrow> hfile option) \<Rightarrow> 'h gd \<Rightarrow> WORD \<Rightarrow> hfile \<Rightarrow> nat \<Rightarrow> bool" where
  "open_at op g c f P \<longleftrightarrow> stream op g c f \<and> fb_isOpen (fb g c) \<and> fb_wCount (fb g c) = 0 \<and>
     stream_pos (fb g c) f = P \<and> fb_currentPos (fb g c) = of_nat P \<and>
     (if fb_bytesToEOFinvalid (fb g c) then left_in (fb g c) = 0
      else fb_bytesToEOF (fb g c) = of_nat (length (hf_data f)) - of_nat P)"

text \<open>What a read of \<open>n\<close> bytes to \<open>buffer\<close> must do.\<close>

definition read_done ::
  "('h \<Rightarrow> BYTE \<Rightarrow> hfile option) \<Rightarrow> WORD \<Rightarrow> hfile \<Rightarrow> nat \<Rightarrow> DWORD \<Rightarrow> nat \<Rightarrow> 'h gd \<Rightarrow> 'h gd \<times> gd_result \<Rightarrow> bool" where
  "read_done op c f P buffer n g r \<longleftrightarrow>
     (let got = take n (drop P (hf_data f))
      in snd r = Ret (of_nat (length got)) \<and> gd_ram (fst r) = mem_put (gd_ram g) buffer got \<and> others op c g (fst r) \<and>
         (\<exists>f'. open_at op (fst r) c f' (P + length got) \<and> hf_data f' = hf_data f \<and> hf_writable f' = hf_writable f))"

lemma moved_others: "moved op c g f g' f' \<Longrightarrow> others op c g g'"
  by (simp add: moved_def others_def)

lemma stream_len: "stream op g c f \<Longrightarrow> length (hf_data f) < 2147483648"
  by (simp add: stream_def)

lemma stream_pos_len: "stream op g c f \<Longrightarrow> stream_pos (fb g c) f < 2147483648"
  by (simp add: stream_def stream_pos_def less_imp_diff_less)

text \<open>Changing the bookkeeping of a handle.\<close>

lemma stream_book:
  assumes "stream op g c f"
  shows "stream op (set_fb c ((fb g c)\<lparr>fb_bytesToEOF := x\<rparr>) g) c f"
    and "stream op (set_fb c ((fb g c)\<lparr>fb_currentPos := x\<rparr>) g) c f"
    and "stream op (set_fb c ((fb g c)\<lparr>fb_bytesToEOF := x, fb_bytesToEOFinvalid := i\<rparr>) g) c f"
    and "others op c g (set_fb c b g)"
  using assms fb_set_fb [of g c] drv_ok_fb [of g c]
  by (auto simp: stream_def others_def rbuf_rel_def left_in_def fb_shape_def drv_ok_set_fb)

lemma fb_set: "stream op g c f \<Longrightarrow> fb (set_fb c b g) c = b"
  by (simp add: stream_def fb_set_fb)

context file_server
begin

lemma fread_small_ok:
  assumes "stream opened g c f" and "P = stream_pos (fb g c) f" and "got = take (unat n) (drop P (hf_data f))"
  shows "\<exists>g' f'. fread_small dev c n buffer g = (g', of_nat (length got)) \<and> stream opened g' c f' \<and>
    hf_data f' = hf_data f \<and> hf_writable f' = hf_writable f \<and> others opened c g g' \<and>
    gd_ram g' = mem_put (gd_ram g) buffer got \<and> stream_pos (fb g' c) f' = P + length got \<and>
    fb_isOpen (fb g' c) = fb_isOpen (fb g c) \<and> fb_currentPos (fb g' c) = fb_currentPos (fb g c) \<and>
    fb_wCount (fb g' c) = fb_wCount (fb g c) \<and> fb_bytesToEOFinvalid (fb g' c) = fb_bytesToEOFinvalid (fb g c) \<and>
    fb_bytesToEOF (fb g' c) = fb_bytesToEOF (fb g c) - of_nat (length got)"
proof -
  from small_loop_ok [OF assms, of 0 buffer] obtain g1 f1 where
    r: "fread_small_loop dev c 0 n buffer g = (g1, of_nat (length got))" and m: "moved opened c g f g1 f1"
    and ram: "gd_ram g1 = mem_put (gd_ram g) buffer got" and p: "stream_pos (fb g1 c) f1 = P + length got" by auto
  let ?b = "(fb g1 c)\<lparr>fb_bytesToEOF := fb_bytesToEOF (fb g1 c) - of_nat (length got)\<rparr>"
  let ?g = "set_fb c ?b g1"
  from m have st: "stream opened g1 c f1" by (simp add: moved_def)
  have f: "fread_small dev c n buffer g = (?g, of_nat (length got))" by (simp add: fread_small_def r)
  have b: "fb ?g c = ?b" by (rule fb_set [OF st])
  have v: "fb_view (fb g1 c) = fb_view (fb g c)" "hf_data f1 = hf_data f" "hf_writable f1 = hf_writable f"
    using m by (simp_all add: moved_def)
  have p': "stream_pos ?b f1 = P + length got" using p by (simp add: stream_pos_def left_in_def)
  have "stream opened ?g c f1" by (rule stream_book(1) [OF st])
  moreover have "others opened c g ?g" by (rule others_trans [OF moved_others [OF m] stream_book(4) [OF st]])
  ultimately show ?thesis using v ram p' unfolding f by (intro exI [of _ ?g] exI [of _ f1]) (simp add: fb_set [OF st] fb_view_def)
qed

lemma getBytesToEof_ok:
  assumes "stream opened g c f"
  shows "\<exists>g'. getBytesToEof dev c g = g' \<and> stream opened g' c f \<and> others opened c g g' \<and> gd_ram g' = gd_ram g \<and>
    fb g' c = (fb g c)\<lparr>fb_bytesToEOF := to_eof f, fb_bytesToEOFinvalid := False\<rparr>"
proof -
  from assms have st: "drv_ok g" "unat c < 40" "opened (gd_host g) (ucast c) = Some f" by (simp_all add: stream_def)
  let ?g = "set_short 0x65 (ucast c) g"
  note ok = drv_ok_short [OF st(1), of "0x65" "ucast c"]
  from eof_law [OF ok(2), of "gd_host g" f "pDmaBuffer g" 1] ok(3) st(3)
  obtain h where "dev (gd_host g) True (commandShort ?g) (pDmaBuffer g) 1 = (h, True, E_OK, pad16 (be32_bytes (to_eof f)))"
    and h: "opened h = opened (gd_host g)" by auto
  from short_read [OF st(1) this(1)] obtain g1 where r: "hd_read_short dev ?g = g1" "drv_ok g1" "kept_gd g1 = kept_gd g"
    "gd_host g1 = h" "hd_success (hdIf g1)" "hd_status (hdIf g1) = E_OK" "getDword (pDmaBuffer g1) 0 = to_eof f" by blast
  have fbs: "fb g1 d = fb g d" for d by (rule kept_gdD(4) [OF r(3)])
  have st1: "stream opened g1 c f" using assms r(2,4) h fbs by (simp add: stream_def)
  let ?b = "(fb g1 c)\<lparr>fb_bytesToEOF := to_eof f, fb_bytesToEOFinvalid := False\<rparr>"
  have e: "getBytesToEof dev c g = set_fb c ?b g1"
    using r by (simp add: getBytesToEof_def Let_def)
  have "others opened c g g1" using h r(4) fbs by (simp add: others_def)
  then have "others opened c g (set_fb c ?b g1)" by (rule others_trans [OF _ stream_book(4) [OF st1]])
  then show ?thesis
    unfolding e using stream_book(3) [OF st1] fb_set [OF st1] kept_gdD(1) [OF r(3)] by (simp add: fbs)
qed


lemma refresh_ok:
  assumes "open_at opened g c f P" and "g1 = (if fb_bytesToEOFinvalid (fb g c) then getBytesToEof dev c g else g)"
  shows "open_at opened g1 c f P" and "\<not> fb_bytesToEOFinvalid (fb g1 c)" and "others opened c g g1" and "gd_ram g1 = gd_ram g"
proof -
  have "open_at opened g1 c f P \<and> \<not> fb_bytesToEOFinvalid (fb g1 c) \<and> others opened c g g1 \<and> gd_ram g1 = gd_ram g"
  proof (cases "fb_bytesToEOFinvalid (fb g c)")
    case True
    have "stream opened g c f" using assms(1) by (simp add: open_at_def)
    from getBytesToEof_ok [OF this] True assms show ?thesis
      by (auto simp: open_at_def to_eof_def stream_pos_def left_in_def)
  next
    case False
    with assms show ?thesis by simp
  qed
  then show "open_at opened g1 c f P" and "\<not> fb_bytesToEOFinvalid (fb g1 c)" and "others opened c g g1" and "gd_ram g1 = gd_ram g"
    by simp_all
qed

end

lemma ce_handle:
  assumes "unat c < 40"
  shows "handleIsFromCE (handleCEtoAtari c)" and "handleAtariToCE (handleCEtoAtari c) = c"
  using assms by (simp_all add: handleIsFromCE_def handleCEtoAtari_def handleAtariToCE_def word_le_nat_alt unat_word_ariths)

lemma sless_of_nat: "n < 2147483648 \<Longrightarrow> (0 :: DWORD) <s of_nat n \<longleftrightarrow> 0 < n"
  by (simp add: word_sless_alt signed_of_nat signed_take_bit_int_eq_self)

text \<open>The end of \<open>custom_fread\<close>: the position moves by what was read.\<close>

lemma advance:
  assumes "stream op g1 c f'" and "hf_data f' = hf_data f" and "stream_pos (fb g1 c) f' = P + k" and "k \<le> length (hf_data f) - P"
    and "fb_isOpen (fb g1 c)" and "fb_wCount (fb g1 c) = 0" and "fb_currentPos (fb g1 c) = of_nat P"
    and "\<not> fb_bytesToEOFinvalid (fb g1 c)"
    and "fb_bytesToEOF (fb g1 c) = of_nat (length (hf_data f)) - of_nat (P + k)"
    and "g2 = (if 0 <s (of_nat k :: DWORD) then set_fb c ((fb g1 c)\<lparr>fb_currentPos := fb_currentPos (fb g1 c) + of_nat k\<rparr>) g1 else g1)"
  shows "open_at op g2 c f' (P + k)" and "others op c g1 g2" and "gd_ram g2 = gd_ram g1"
proof -
  from stream_len [OF assms(1)] assms(2,4) have k: "k < 2147483648" by simp
  note sl = sless_of_nat [OF k]
  show "gd_ram g2 = gd_ram g1" by (simp add: assms(10))
  show "others op c g1 g2" by (simp add: assms(10) stream_book(4) [OF assms(1)])
  show "open_at op g2 c f' (P + k)"
    using assms(1-9) stream_book(2) [OF assms(1)] unfolding assms(10) sl
    by (cases "0 < k") (simp_all add: open_at_def fb_set [OF assms(1)] stream_pos_def left_in_def)
qed

context file_server
begin

lemma custom_fread_small_ok:
  assumes "open_at opened g c f P" and "rd16 (gd_ram g) sp = handleCEtoAtari c" and "rd32 (gd_ram g) (sp + 2) \<le> 1024"
  shows "read_done opened c f P (rd32 (gd_ram g) (sp + 6)) (unat (rd32 (gd_ram g) (sp + 2))) g (custom_fread dev sp g)"
proof -
  let ?n = "rd32 (gd_ram g) (sp + 2)" and ?buf = "rd32 (gd_ram g) (sp + 6)"
  let ?got = "take (unat ?n) (drop P (hf_data f))"
  define g1 where g1: "g1 = (if fb_bytesToEOFinvalid (fb g c) then getBytesToEof dev c g else g)"
  note re = refresh_ok [OF assms(1) g1]
  have st: "stream opened g1 c f" and P: "P = stream_pos (fb g1 c) f" using re(1) by (simp_all add: open_at_def)
  have c: "unat c < 40" using st by (simp add: stream_def)
  from fread_small_ok [OF st P refl, of ?n ?buf] obtain g2 f' where
    r: "fread_small dev c ?n ?buf g1 = (g2, of_nat (length ?got))" and st2: "stream opened g2 c f'"
    and d: "hf_data f' = hf_data f" "hf_writable f' = hf_writable f" and o: "others opened c g1 g2"
    and ram: "gd_ram g2 = mem_put (gd_ram g1) ?buf ?got" and p: "stream_pos (fb g2 c) f' = P + length ?got"
    and b: "fb_isOpen (fb g2 c) = fb_isOpen (fb g1 c)" "fb_currentPos (fb g2 c) = fb_currentPos (fb g1 c)"
      "fb_wCount (fb g2 c) = fb_wCount (fb g1 c)" "fb_bytesToEOFinvalid (fb g2 c) = fb_bytesToEOFinvalid (fb g1 c)"
      "fb_bytesToEOF (fb g2 c) = fb_bytesToEOF (fb g1 c) - of_nat (length ?got)" by blast
  define g3 where g3: "g3 = (if 0 <s (of_nat (length ?got) :: DWORD)
    then set_fb c ((fb g2 c)\<lparr>fb_currentPos := fb_currentPos (fb g2 c) + of_nat (length ?got)\<rparr>) g2 else g2)"
  have k: "length ?got \<le> length (hf_data f) - P" by simp
  have b1: "fb_isOpen (fb g2 c)" "fb_wCount (fb g2 c) = 0" "fb_currentPos (fb g2 c) = of_nat P" "\<not> fb_bytesToEOFinvalid (fb g2 c)"
    "fb_bytesToEOF (fb g2 c) = of_nat (length (hf_data f)) - of_nat (P + length ?got)"
    using b re(1,2) by (simp_all add: open_at_def)
  note adv = advance [OF st2 d(1) p k b1 g3]
  have "fb_isOpen (fb g c)" using assms(1) by (simp add: open_at_def)
  then have "custom_fread dev sp g = (g3, Ret (of_nat (length ?got)))"
    using c assms(3) unfolding custom_fread_def Let_def assms(2) ce_handle(2) [OF c] g1 [symmetric] r g3
    by (simp add: ce_handle(1) [OF c] not_le [symmetric] r [unfolded g1])
  then show ?thesis
    using adv d ram re(3,4) others_trans [OF others_trans [OF re(3) o] adv(2)] unfolding read_done_def Let_def by auto
qed

end

section \<open>Blocks\<close>

lemma this_read_value:
  "unat (this_read fr n) = min (unat n div 512 * 512) (if fr then 4096 else 130048)"
proof -
  have b: "unat (block_size fr) = (if fr then 4096 else 130048)" by (simp add: block_size_def)
  show ?thesis unfolding this_read_def Let_def word_less_nat_alt down_512 b if_distrib [of unat] min_def
    by (cases fr) auto
qed

lemma this_read_mod: "unat (this_read fr n) mod 512 = 0"
  by (simp add: this_read_value min_def)

lemma store_block_ram:
  assumes "length got = unat sz" and "unat sz mod 16 = 0" and "fr \<Longrightarrow> unat sz \<le> length (FastRAMBuffer g)"
  shows "gd_ram (store_block fr buffer sz (pad16 got) g) = mem_put (gd_ram g) buffer got"
    and "gd_host (store_block fr buffer sz (pad16 got) g) = gd_host g" and "fb (store_block fr buffer sz (pad16 got) g) = fb g"
    and "drv_ok g \<Longrightarrow> drv_ok (store_block fr buffer sz (pad16 got) g)"
proof -
  have p: "pad16 got = got" using assms(1,2) by (simp add: pad16_def)
  have "fr \<Longrightarrow> take (unat sz) (overwrite (FastRAMBuffer g) got) = got"
    using take_overwrite [of got "FastRAMBuffer g" "[]"] assms by simp
  then show "gd_ram (store_block fr buffer sz (pad16 got) g) = mem_put (gd_ram g) buffer got"
    by (simp add: store_block_def p Let_def)
  show "gd_host (store_block fr buffer sz (pad16 got) g) = gd_host g"
    by (simp add: store_block_def Let_def)
  show "fb (store_block fr buffer sz (pad16 got) g) = fb g"
    by (rule ext) (simp add: store_block_def Let_def fb_def)
  show "drv_ok g \<Longrightarrow> drv_ok (store_block fr buffer sz (pad16 got) g)"
    by (simp add: store_block_def Let_def drv_ok_def)
qed

context file_server
begin

lemma block_step:
  assumes "stream opened g c f" and "left_in (fb g c) = 0" and "512 \<le> n" and "sz = this_read fr n"
    and "0 \<le> int (hf_pos f) + sint off" and "q = nat (int (hf_pos f) + sint off)"
    and "got = take (unat sz) (drop q (hf_data f))" and "q + unat sz \<le> length (hf_data f)"
  shows "\<exists>g' f'. fread_blocks dev c fr off cd n buffer g = fread_blocks dev c fr off (cd + sz) (n - sz) (buffer + sz) g' \<and>
    stream opened g' c f' \<and> hf_data f' = hf_data f \<and> hf_writable f' = hf_writable f \<and> others opened c g g' \<and>
    gd_ram g' = mem_put (gd_ram g) buffer got \<and> hf_pos f' = q + unat sz \<and>
    fb g' c = (fb g c)\<lparr>fb_bytesToEOF := fb_bytesToEOF (fb g c) - sz\<rparr>"
proof -
  from assms(1) have st: "drv_ok g" "unat c < 40" "opened (gd_host g) (ucast c) = Some f" "rbuf_rel (fb g c) f"
    "length (hf_data f) < 2147483648" by (simp_all add: stream_def)
  have sz: "unat sz \<le> 130048" "fr \<Longrightarrow> unat sz \<le> 4096" "unat sz mod 512 = 0"
    using this_read_mod [of fr n] by (simp_all add: assms(4) this_read_value min_def)
  then have sz16: "unat sz mod 16 = 0" using mod_mod_cancel [of 16 512 "unat sz"] by simp
  have len: "length got = unat sz" using assms(7,8) by simp
  obtain g1 where r: "readData dev c sz off g = (g1, pad16 got, of_nat (length got))" "drv_ok g1" "kept_gd g1 = kept_gd g"
    and h: "opened (gd_host g1) = (opened (gd_host g))(ucast c \<mapsto> f\<lparr>hf_pos := q + length got, hf_last := length got\<rparr>)"
    using readData_ok [OF st(1,3) sz16 sz(1) assms(5-7)] assms(8) st(5) by fastforce
  have res: "of_nat (length got) = sz" by (simp add: len)
  note k = kept_gdD [OF r(3)]
  let ?f = "f\<lparr>hf_pos := q + length got, hf_last := length got\<rparr>"
  let ?g2 = "store_block fr buffer sz (pad16 got) g1"
  have fast: "fr \<Longrightarrow> unat sz \<le> length (FastRAMBuffer g1)" using sz(2) r(2) by (simp add: drv_ok_def)
  note sb = store_block_ram [OF len sz16 fast, where fr = fr and buffer = buffer]
  have rel: "rbuf_rel (fb g c) ?f" using st(4) assms(2) by (simp add: rbuf_rel_def)
  have st2: "stream opened ?g2 c ?f"
    using st(2,5) sb r(2) h rel k(4) len assms(8) by (simp add: stream_def)
  have o2: "others opened c g ?g2" using h sb k(4) by (simp add: others_def)
  let ?b = "(fb ?g2 c)\<lparr>fb_bytesToEOF := fb_bytesToEOF (fb ?g2 c) - sz\<rparr>"
  let ?g3 = "set_fb c ?b ?g2"
  have "fread_blocks dev c fr off cd n buffer g = fread_blocks dev c fr off (cd + sz) (n - sz) (buffer + sz) ?g3"
    using assms(3) unfolding fread_blocks.simps [of dev c fr off cd n] Let_def assms(4) [symmetric] r(1) res
    by (simp add: not_less [symmetric])
  moreover have "stream opened ?g3 c ?f" by (rule stream_book(1) [OF st2])
  moreover have "others opened c g ?g3" by (rule others_trans [OF o2 stream_book(4) [OF st2]])
  moreover have "fb ?g3 c = ?b" by (rule fb_set [OF st2])
  ultimately show ?thesis
    using sb k(1,4) len by (intro exI [of _ ?g3] exI [of _ ?f]) simp
qed


lemma blocks_end: "n < 512 \<Longrightarrow> fread_blocks dev c fr off cd n buffer g = (g, cd, n, buffer, True)"
  by (simp add: fread_blocks.simps [of _ _ _ _ _ n])

lemma blocks_ok:
  assumes "stream opened g c f" and "left_in (fb g c) = 0" and "unat n \<le> length (hf_data f) - hf_pos f"
    and "m = unat n div 512 * 512"
  shows "\<exists>g' f'. fread_blocks dev c fr 0 cd n buffer g = (g', cd + of_nat m, n - of_nat m, buffer + of_nat m, True) \<and>
    stream opened g' c f' \<and> hf_data f' = hf_data f \<and> hf_writable f' = hf_writable f \<and> others opened c g g' \<and>
    gd_ram g' = mem_put (gd_ram g) buffer (take m (drop (hf_pos f) (hf_data f))) \<and> hf_pos f' = hf_pos f + m \<and>
    fb g' c = (fb g c)\<lparr>fb_bytesToEOF := fb_bytesToEOF (fb g c) - of_nat m\<rparr>"
  using assms
proof (induction "unat n" arbitrary: n cd buffer g f m rule: less_induct)
  case less
  show ?case
  proof (cases "n < 512")
    case True
    then have "m = 0" using less.prems(4) by (simp add: word_less_nat_alt)
    with True less.prems(1) show ?thesis
      by (intro exI [of _ g] exI [of _ f]) (simp add: blocks_end)
  next
    case False
    then have n: "512 \<le> n" by simp
    define sz where sz: "sz = this_read fr n"
    from this_read_bounds [OF n, of fr] have b: "512 \<le> unat sz" "unat sz \<le> unat n" by (simp_all add: sz word_le_nat_alt)
    have md: "unat sz mod 512 = 0" by (simp add: sz this_read_mod)
    define got where got: "got = take (unat sz) (drop (hf_pos f) (hf_data f))"
    have q: "0 \<le> int (hf_pos f) + sint (0 :: BYTE)" "hf_pos f = nat (int (hf_pos f) + sint (0 :: BYTE))" by simp_all
    have e: "hf_pos f + unat sz \<le> length (hf_data f)" using b less.prems(3) by linarith
    from block_step [OF less.prems(1,2) n sz q got e, of cd buffer] obtain g1 f1 where
      1: "fread_blocks dev c fr 0 cd n buffer g = fread_blocks dev c fr 0 (cd + sz) (n - sz) (buffer + sz) g1"
      "stream opened g1 c f1" "hf_data f1 = hf_data f" "hf_writable f1 = hf_writable f" "others opened c g g1"
      "gd_ram g1 = mem_put (gd_ram g) buffer got" "hf_pos f1 = hf_pos f + unat sz"
      "fb g1 c = (fb g c)\<lparr>fb_bytesToEOF := fb_bytesToEOF (fb g c) - sz\<rparr>" by blast
    have nn: "unat (n - sz) = unat n - unat sz" using b by (simp add: unat_sub word_le_nat_alt)
    have lt: "unat (n - sz) < unat n" using b nn by simp
    have l1: "left_in (fb g1 c) = 0" using less.prems(2) by (simp add: 1(8) left_in_def)
    have le1: "unat (n - sz) \<le> length (hf_data f1) - hf_pos f1" using less.prems(3) b by (simp add: 1(3,7) nn)
    define m2 where m2: "m2 = unat (n - sz) div 512 * 512"
    have m: "m = unat sz + m2"
    proof -
      have "unat n = unat (n - sz) + unat sz div 512 * 512" using nn b md by (simp add: minus_mod_eq_div_mult [symmetric])
      then have "unat n div 512 = unat (n - sz) div 512 + unat sz div 512" by simp
      then show ?thesis using md by (simp add: less.prems(4) m2 add_mult_distrib minus_mod_eq_div_mult [symmetric])
    qed
    from less.hyps [OF lt 1(2) l1 le1 m2, of "cd + sz" "buffer + sz"] obtain g2 f2 where
      2: "fread_blocks dev c fr 0 (cd + sz) (n - sz) (buffer + sz) g1 =
        (g2, cd + sz + of_nat m2, n - sz - of_nat m2, buffer + sz + of_nat m2, True)"
      "stream opened g2 c f2" "hf_data f2 = hf_data f1" "hf_writable f2 = hf_writable f1" "others opened c g1 g2"
      "gd_ram g2 = mem_put (gd_ram g1) (buffer + sz) (take m2 (drop (hf_pos f1) (hf_data f1)))" "hf_pos f2 = hf_pos f1 + m2"
      "fb g2 c = (fb g1 c)\<lparr>fb_bytesToEOF := fb_bytesToEOF (fb g1 c) - of_nat m2\<rparr>" by blast
    have w: "(of_nat m :: DWORD) = sz + of_nat m2" by (simp add: m)
    have "length got = unat sz" using e by (simp add: got)
    then have "mem_put (gd_ram g) buffer (take m (drop (hf_pos f) (hf_data f))) = gd_ram g2"
      unfolding 2(6) 1(3,6,7) m take_drop_slice [symmetric] mem_put_append got [symmetric] by simp
    then show ?thesis
      using 1 2 others_trans [OF 1(5) 2(5)] by (intro exI [of _ g2] exI [of _ f2]) (simp add: w m algebra_simps)
  qed
qed

text \<open>
  From host position \<open>q\<close> on: with no byte given back, or with one given back when a single block does.
\<close>

lemma blocks_from_ok:
  assumes "stream opened g c f" and "left_in (fb g c) = 0" and "unat n \<le> length (hf_data f) - q" and "m = unat n div 512 * 512"
    and "off = 0 \<and> hf_pos f = q \<or> off = 0xff \<and> hf_pos f = Suc q \<and> 512 \<le> n \<and> m \<le> (if fr then 4096 else 130048)"
  shows "\<exists>g' f'. fread_blocks dev c fr off cd n buffer g = (g', cd + of_nat m, n - of_nat m, buffer + of_nat m, True) \<and>
    stream opened g' c f' \<and> hf_data f' = hf_data f \<and> hf_writable f' = hf_writable f \<and> others opened c g g' \<and>
    gd_ram g' = mem_put (gd_ram g) buffer (take m (drop q (hf_data f))) \<and> hf_pos f' = q + m \<and>
    fb g' c = (fb g c)\<lparr>fb_bytesToEOF := fb_bytesToEOF (fb g c) - of_nat m\<rparr>"
proof (cases "off = 0 \<and> hf_pos f = q")
  case True
  with blocks_ok [OF assms(1,2) _ assms(4), of fr cd buffer] assms(3) show ?thesis by simp
next
  case False
  with assms(5) have a: "off = 0xff" "hf_pos f = Suc q" "512 \<le> n" "m \<le> (if fr then 4096 else 130048)" by auto
  define sz where sz: "sz = this_read fr n"
  have szm: "unat sz = m" unfolding sz this_read_value using a(4) assms(4) by (simp add: min_def)
  have q: "0 \<le> int (hf_pos f) + sint off" "q = nat (int (hf_pos f) + sint off)" using a(1,2) by simp_all
  have e: "q + unat sz \<le> length (hf_data f)"
  proof -
    have "m \<le> unat n" by (simp add: assms(4))
    moreover have "512 \<le> unat n" using a(3) by (simp add: word_le_nat_alt)
    ultimately show ?thesis using assms(3) szm by linarith
  qed
  from block_step [OF assms(1,2) a(3) sz q refl e, of cd buffer] obtain g1 f1 where
    1: "fread_blocks dev c fr off cd n buffer g = fread_blocks dev c fr off (cd + sz) (n - sz) (buffer + sz) g1"
    "stream opened g1 c f1" "hf_data f1 = hf_data f" "hf_writable f1 = hf_writable f" "others opened c g g1"
    "gd_ram g1 = mem_put (gd_ram g) buffer (take (unat sz) (drop q (hf_data f)))" "hf_pos f1 = q + unat sz"
    "fb g1 c = (fb g c)\<lparr>fb_bytesToEOF := fb_bytesToEOF (fb g c) - sz\<rparr>" by blast
  have "sz \<le> n" using this_read_bounds [OF a(3)] by (simp add: sz)
  then have "unat (n - sz) = unat n mod 512"
    using szm by (simp add: unat_sub word_le_nat_alt assms(4) modulo_nat_def mult.commute)
  then have "n - sz < 512" by (simp add: word_less_nat_alt)
  note fin = blocks_end [OF this]
  have w: "(of_nat m :: DWORD) = sz" by (simp add: szm [symmetric])
  show ?thesis using 1 fin by (intro exI [of _ g1] exI [of _ f1]) (simp add: w szm)
qed


lemma rest_ok:
  assumes "stream opened g c f" and "left_in (fb g c) = 0" and "unat n \<le> length (hf_data f) - hf_pos f" and "n < 512"
  shows "\<exists>g' f'. fread_rest dev c cd n buffer g = (g', cd + n) \<and> stream opened g' c f' \<and> hf_data f' = hf_data f \<and>
    hf_writable f' = hf_writable f \<and> others opened c g g' \<and>
    gd_ram g' = mem_put (gd_ram g) buffer (take (unat n) (drop (hf_pos f) (hf_data f))) \<and>
    stream_pos (fb g' c) f' = hf_pos f + unat n \<and> fb_isOpen (fb g' c) = fb_isOpen (fb g c) \<and>
    fb_currentPos (fb g' c) = fb_currentPos (fb g c) \<and> fb_wCount (fb g' c) = fb_wCount (fb g c) \<and>
    fb_bytesToEOFinvalid (fb g' c) = fb_bytesToEOFinvalid (fb g c) \<and>
    fb_bytesToEOF (fb g' c) = fb_bytesToEOF (fb g c) - n"
proof (cases "n = 0")
  case True
  then show ?thesis using assms(1,2)
    by (intro exI [of _ g] exI [of _ f]) (simp add: fread_rest_def stream_pos_def)
next
  case False
  define g1 where g1: "g1 = fillReadBuffer dev c g"
  have p0: "stream_pos (fb g c) f = hf_pos f" using assms(2) by (simp add: stream_pos_def)
  from fill_ok [OF assms(1,2), folded g1] obtain f1 where 1: "moved opened c g f g1 f1" "gd_ram g1 = gd_ram g"
    "stream_pos (fb g1 c) f1 = hf_pos f" "left_in (fb g1 c) = min 512 (length (hf_data f) - hf_pos f)" "fb_rStart (fb g1 c) = 0"
    unfolding p0 by blast
  from 1(1) have st1: "stream opened g1 c f1" and d: "hf_data f1 = hf_data f" "hf_writable f1 = hf_writable f"
    and v: "fb_view (fb g1 c) = fb_view (fb g c)" by (simp_all add: moved_def)
  have n: "unat n < 512" using assms(4) by (simp add: word_less_nat_alt)
  have cnt: "unat (fb_rCount (fb g1 c)) = left_in (fb g1 c)" using 1(5) by (simp add: left_in_def)
  with 1(4) n assms(3) have "unat n \<le> unat (fb_rCount (fb g1 c))" by simp
  then have le: "n \<le> ucast (fb_rCount (fb g1 c))" by (simp add: word_le_nat_alt)
  have un: "unat (ucast n :: WORD) = unat n" using n by simp
  then have le2: "unat (ucast n :: WORD) \<le> left_in (fb g1 c)" using cnt \<open>unat n \<le> unat (fb_rCount (fb g1 c))\<close> by simp
  let ?m = "mem_put (gd_ram g1) buffer (take (unat n) (drop (unat (fb_rStart (fb g1 c))) (fb_rBuf (fb g1 c))))"
  let ?b1 = "(fb g1 c)\<lparr>fb_rStart := fb_rStart (fb g1 c) + ucast n\<rparr>"
  let ?b = "?b1\<lparr>fb_bytesToEOF := fb_bytesToEOF (fb g1 c) - n\<rparr>"
  note co1 = consume(1) [OF st1 le2 refl, of ?m] and co2 = consume(2) [OF st1 le2 refl, unfolded un 1(3)]
    and co4 = consume(4) [OF st1 le2 refl, unfolded un 1(3) d]
  let ?g2 = "set_fb c ?b1 (g1\<lparr>gd_ram := ?m\<rparr>)" and ?g3 = "set_fb c ?b (g1\<lparr>gd_ram := ?m\<rparr>)"
  have st2: "stream opened ?g2 c f1" using co1 by (simp add: moved_def)
  have str: "stream opened (g1\<lparr>gd_ram := x\<rparr>) c f1" for x using st1 by (simp add: stream_def)
  have b2: "fb ?g2 c = ?b1" "fb ?g3 c = ?b" by (rule fb_set [OF str])+
  have e: "set_fb c ((fb ?g2 c)\<lparr>fb_bytesToEOF := fb_bytesToEOF (fb g1 c) - n\<rparr>) ?g2 = ?g3"
    unfolding b2 by (simp add: set_fb_def)
  have st3: "stream opened ?g3 c f1" using stream_book(1) [OF st2] unfolding e [symmetric] .
  have o3: "others opened c g ?g3"
    using others_trans [OF others_trans [OF moved_others [OF 1(1)] moved_others [OF co1]] stream_book(4) [OF st2]]
    unfolding e [symmetric] .
  have r: "fread_rest dev c cd n buffer g = (?g3, cd + n)"
    using False le by (simp add: fread_rest_def Let_def flip: g1)
  have p3: "stream_pos ?b f1 = hf_pos f + unat n" using co2 by (simp add: stream_pos_def left_in_def)
  show ?thesis
    unfolding r using st3 o3 d v p3 co4 1(2) by (intro exI [of _ ?g3] exI [of _ f1]) (simp add: fb_set [OF str] fb_view_def)
qed

lemma unbuffered_ok:
  assumes "stream opened g c f" and "left_in (fb g c) = 0" and "q \<le> length (hf_data f)"
    and "fb_bytesToEOF (fb g c) = of_nat (length (hf_data f)) - of_nat q" and "k = min (unat n) (length (hf_data f) - q)"
    and "off = 0 \<and> hf_pos f = q \<or>
      off = 0xff \<and> hf_pos f = Suc q \<and> 512 \<le> k \<and> k div 512 * 512 \<le> (if buffer \<ge> 0x1000000 then 4096 else 130048)"
  shows "\<exists>g' f'. fread_unbuffered dev c off cd n buffer g = (g', cd + of_nat k) \<and> stream opened g' c f' \<and> hf_data f' = hf_data f \<and>
    hf_writable f' = hf_writable f \<and> others opened c g g' \<and>
    gd_ram g' = mem_put (gd_ram g) buffer (take k (drop q (hf_data f))) \<and>
    stream_pos (fb g' c) f' = q + k \<and> fb_isOpen (fb g' c) = fb_isOpen (fb g c) \<and>
    fb_currentPos (fb g' c) = fb_currentPos (fb g c) \<and> fb_wCount (fb g' c) = fb_wCount (fb g c) \<and>
    fb_bytesToEOFinvalid (fb g' c) = fb_bytesToEOFinvalid (fb g c) \<and>
    fb_bytesToEOF (fb g' c) = fb_bytesToEOF (fb g c) - of_nat k"
proof -
  note len = stream_len [OF assms(1)]
  define n1 where n1: "n1 = (if fb_bytesToEOF (fb g c) < n then fb_bytesToEOF (fb g c) else n)"
  have e: "fb_bytesToEOF (fb g c) = of_nat (length (hf_data f) - q)" using assms(3,4) by (simp add: of_nat_diff)
  then have ue: "unat (fb_bytesToEOF (fb g c)) = length (hf_data f) - q" using len by (simp add: unat_of_nat32)
  have un1: "unat n1 = k" unfolding n1 using ue by (simp add: assms(5) word_less_nat_alt min_def)
  then have n1k: "n1 = of_nat k" by (metis of_nat_unat ucast_id)
  let ?fr = "buffer \<ge> 0x1000000"
  define m where m: "m = unat n1 div 512 * 512"
  have off: "off = 0 \<and> hf_pos f = q \<or> off = 0xff \<and> hf_pos f = Suc q \<and> 512 \<le> n1 \<and> m \<le> (if ?fr then 4096 else 130048)"
    using assms(6) by (simp add: word_le_nat_alt m un1)
  have le: "unat n1 \<le> length (hf_data f) - q" by (simp add: un1 assms(5))
  from blocks_from_ok [OF assms(1,2) le m off, of cd buffer] obtain g1 f1 where
    1: "fread_blocks dev c ?fr off cd n1 buffer g = (g1, cd + of_nat m, n1 - of_nat m, buffer + of_nat m, True)"
    "stream opened g1 c f1" "hf_data f1 = hf_data f" "hf_writable f1 = hf_writable f" "others opened c g g1"
    "gd_ram g1 = mem_put (gd_ram g) buffer (take m (drop q (hf_data f)))" "hf_pos f1 = q + m"
    "fb g1 c = (fb g c)\<lparr>fb_bytesToEOF := fb_bytesToEOF (fb g c) - of_nat m\<rparr>" by blast
  have mk: "m \<le> k" by (simp add: m un1)
  have r: "k - m = k mod 512" by (simp add: m un1 minus_div_mult_eq_mod)
  have "n1 - of_nat m = of_nat (k - m)" using mk by (simp add: n1k of_nat_diff)
  then have un2: "unat (n1 - of_nat m) = k - m" using r by (simp add: unat_of_nat32)
  have lt: "n1 - of_nat m < 512" using r un2 by (simp add: word_less_nat_alt)
  have l1: "left_in (fb g1 c) = 0" using assms(2) by (simp add: 1(8) left_in_def)
  have le1: "unat (n1 - of_nat m) \<le> length (hf_data f1) - hf_pos f1" using le mk by (simp add: 1(3,7) un2 un1)
  from rest_ok [OF 1(2) l1 le1 lt, of "cd + of_nat m" "buffer + of_nat m"] obtain g2 f2 where
    2: "fread_rest dev c (cd + of_nat m) (n1 - of_nat m) (buffer + of_nat m) g1 = (g2, cd + of_nat m + (n1 - of_nat m))"
    "stream opened g2 c f2" "hf_data f2 = hf_data f1" "hf_writable f2 = hf_writable f1" "others opened c g1 g2"
    "gd_ram g2 = mem_put (gd_ram g1) (buffer + of_nat m) (take (k - m) (drop (q + m) (hf_data f)))"
    "stream_pos (fb g2 c) f2 = q + m + (k - m)" "fb_isOpen (fb g2 c) = fb_isOpen (fb g1 c)"
    "fb_currentPos (fb g2 c) = fb_currentPos (fb g1 c)" "fb_wCount (fb g2 c) = fb_wCount (fb g1 c)"
    "fb_bytesToEOFinvalid (fb g2 c) = fb_bytesToEOFinvalid (fb g1 c)"
    "fb_bytesToEOF (fb g2 c) = fb_bytesToEOF (fb g1 c) - (n1 - of_nat m)" unfolding un2 1(3,7) by blast
  have u: "fread_unbuffered dev c off cd n buffer g = (g2, cd + of_nat k)"
    using 2(1) unfolding fread_unbuffered_def Let_def n1 [symmetric] 1(1) by (simp add: n1k)
  have lm: "length (take m (drop q (hf_data f))) = m" using mk assms(5) by simp
  have sl: "take k (drop q (hf_data f)) = take m (drop q (hf_data f)) @ take (k - m) (drop (q + m) (hf_data f))"
    using take_drop_slice [of m q "hf_data f" "k - m"] mk by simp
  have "gd_ram g2 = mem_put (gd_ram g) buffer (take k (drop q (hf_data f)))"
    unfolding 2(6) 1(6) sl mem_put_append lm ..
  then show ?thesis
    unfolding u using 1 2 others_trans [OF 1(5) 2(5)] mk by (intro exI [of _ g2] exI [of _ f2]) (simp add: n1k)
qed

end

section \<open>Big reads\<close>

lemma and_1_odd: "(x AND 1 \<noteq> 0) = odd (unat (x :: 'a::len word))"
proof -
  have "(x AND 1 = 0) = (unat (x AND mask 1) = 0)" by (simp only: mask_1 unat_eq_0)
  also have "\<dots> = even (unat x)" by (simp only: unat_and_mask) (simp add: even_iff_mod_2_eq_zero)
  finally show ?thesis by simp
qed

text \<open>Bytes in the buffer when the first phase starts, and how many of them it uses.\<close>

definition buffered :: "DWORD \<Rightarrow> nat \<Rightarrow> nat \<Rightarrow> nat" where
  "buffered buffer l rem = (if odd (unat buffer) \<and> l = 0 then min 512 rem else l)"

definition used :: "DWORD \<Rightarrow> nat \<Rightarrow> nat" where
  "used buffer l = (if odd (unat buffer + l) then l - 1 else l)"

text \<open>
  No buffered byte is left behind, or one is and the rest of the request needs exactly one block.
\<close>

definition aligned_or_one_block :: "DWORD \<Rightarrow> nat \<Rightarrow> nat \<Rightarrow> bool" where
  "aligned_or_one_block buffer l k \<longleftrightarrow> l = 0 \<or> even (unat buffer + l) \<or>
     512 \<le> k - used buffer l \<and>
     (k - used buffer l) div 512 * 512 \<le> (if buffer + of_nat (used buffer l) \<ge> 0x1000000 then FASTRAM_BUFFER_SIZE else MAXSECTORS * 512)"

context file_server
begin

lemma fread_big_ok:
  assumes "stream opened g c f" and "P = stream_pos (fb g c) f" and "P \<le> length (hf_data f)"
    and "fb_bytesToEOF (fb g c) = of_nat (length (hf_data f)) - of_nat P" and "512 \<le> unat n"
    and "k = min (unat n) (length (hf_data f) - P)"
    and "aligned_or_one_block buffer (buffered buffer (left_in (fb g c)) (length (hf_data f) - P)) k"
  shows "\<exists>g' f'. fread_big dev c n buffer g = (g', of_nat k) \<and> stream opened g' c f' \<and> hf_data f' = hf_data f \<and>
    hf_writable f' = hf_writable f \<and> others opened c g g' \<and>
    gd_ram g' = mem_put (gd_ram g) buffer (take k (drop P (hf_data f))) \<and>
    stream_pos (fb g' c) f' = P + k \<and> fb_isOpen (fb g' c) = fb_isOpen (fb g c) \<and>
    fb_currentPos (fb g' c) = fb_currentPos (fb g c) \<and> fb_wCount (fb g' c) = fb_wCount (fb g c) \<and>
    fb_bytesToEOFinvalid (fb g' c) = fb_bytesToEOFinvalid (fb g c) \<and>
    fb_bytesToEOF (fb g' c) = of_nat (length (hf_data f)) - of_nat (P + k)"
proof -
  let ?D = "hf_data f" and ?odd = "odd (unat buffer)"
  define g1 where g1: "g1 = (if ?odd \<and> data_left (fb g c) = 0 then fillReadBuffer dev c g else g)"
  have rel: "rbuf_rel (fb g c) f" using assms(1) by (simp add: stream_def)
  have z: "data_left (fb g c) = 0 \<longleftrightarrow> left_in (fb g c) = 0" using unat_data_left [OF rel] by (metis unat_eq_0)
  define l where l: "l = buffered buffer (left_in (fb g c)) (length ?D - P)"
  have "\<exists>f1. moved opened c g f g1 f1 \<and> gd_ram g1 = gd_ram g \<and> stream_pos (fb g1 c) f1 = P \<and> left_in (fb g1 c) = l"
  proof (cases "?odd \<and> left_in (fb g c) = 0")
    case True
    with z have "g1 = fillReadBuffer dev c g" by (simp add: g1)
    with fill_ok [OF assms(1)] True show ?thesis by (auto simp: l buffered_def assms(2))
  next
    case False
    with z have "g1 = g" by (auto simp: g1)
    with False moved_refl [OF assms(1)] assms(2) show ?thesis by (auto simp: l buffered_def)
  qed
  then obtain f1 where 1: "moved opened c g f g1 f1" "gd_ram g1 = gd_ram g" "stream_pos (fb g1 c) f1 = P" "left_in (fb g1 c) = l"
    by blast
  from 1(1) have st1: "stream opened g1 c f1" and d: "hf_data f1 = ?D" "hf_writable f1 = hf_writable f"
    and v: "fb_view (fb g1 c) = fb_view (fb g c)" by (simp_all add: moved_def)
  have rel1: "rbuf_rel (fb g1 c) f1" using st1 by (simp add: stream_def)
  have ul: "unat (data_left (fb g1 c)) = l" using unat_data_left [OF rel1] 1(4) by simp
  have len: "length ?D < 2147483648" by (rule stream_len [OF assms(1)])
  have l512: "l \<le> 512" and lD: "l \<le> length ?D - P" and pos: "hf_pos f1 = P + l"
    using rel1 1(3,4) d by (auto simp: rbuf_rel_def stream_pos_def left_in_def)
  show ?thesis
  proof (cases "?odd \<and> l = 0")
    case True
    then have "length ?D \<le> P" using assms(5) by (auto simp: l buffered_def min_def split: if_splits)
    then have k: "k = 0" "length ?D = P" using assms(3,6) by simp_all
    let ?g2 = "set_fb c ((fb g1 c)\<lparr>fb_bytesToEOF := 0\<rparr>) g1"
    have dz: "data_left (fb g1 c) = 0" using True ul by (metis unat_eq_0)
    have r: "fread_big dev c n buffer g = (?g2, 0)"
      unfolding fread_big_def Let_def and_1_odd g1 [symmetric] using True dz by simp
    have p2: "stream_pos ((fb g1 c)\<lparr>fb_bytesToEOF := 0\<rparr>) f1 = P" using 1(3) by (simp add: stream_pos_def left_in_def)
    show ?thesis unfolding r
      using stream_book(1) [OF st1, of 0] d v 1(2) p2 others_trans [OF moved_others [OF 1(1)] stream_book(4) [OF st1]]
      by (intro exI [of _ ?g2] exI [of _ f1]) (simp add: k fb_set [OF st1] fb_view_def)
  next
    case False
    define u where u: "u = used buffer l"
    define less where less: "less = odd (unat buffer + l)"
    have ul2: "u \<le> l" "less \<Longrightarrow> l = Suc u" "\<not> less \<Longrightarrow> u = l"
      using False by (auto simp: u used_def less)
    define w where w: "w = (if less then data_left (fb g1 c) - 1 else data_left (fb g1 c))"
    have "less \<Longrightarrow> data_left (fb g1 c) \<noteq> 0" using ul ul2(2) by auto
    then have uw: "unat w = u" using ul ul2 by (auto simp: w unat_pred)
    have cw: "(ucast w :: DWORD) = of_nat u" by (metis of_nat_unat ucast_id unat_ucast_up(1) uw)
    have dz: "data_left (fb g1 c) = 0 \<longleftrightarrow> l = 0" using ul by (metis unat_eq_0)
    have le: "unat w \<le> left_in (fb g1 c)" using uw ul2(1) 1(4) by simp
    let ?m = "mem_put (gd_ram g) buffer (take u (drop P ?D))"
    note co4 = consume(4) [OF st1 le refl, unfolded uw 1(3) d]
    let ?b = "(fb g1 c)\<lparr>fb_bytesToEOF := fb_bytesToEOF (fb g1 c) - ucast w, fb_rStart := 0, fb_rCount := 0\<rparr>"
    define g2 where g2: "g2 = set_fb c ?b (g1\<lparr>gd_ram := ?m\<rparr>)"
    have str: "stream opened (g1\<lparr>gd_ram := ?m\<rparr>) c f1" using st1 by (simp add: stream_def)
    have b2: "fb g2 c = ?b" unfolding g2 by (rule fb_set [OF str])
    have "rbuf_rel ?b f1" by (simp add: rbuf_rel_def left_in_def)
    then have st2: "stream opened g2 c f1"
      using st1 fb_set_fb [of "g1\<lparr>gd_ram := ?m\<rparr>" c] drv_ok_fb [of g1 c]
      by (simp add: stream_def g2 drv_ok_set_fb fb_shape_def)
    have o2: "others opened c g g2"
    proof -
      have "others opened c g1 (g1\<lparr>gd_ram := ?m\<rparr>)" by (simp add: others_def)
      from others_trans [OF moved_others [OF 1(1)] others_trans [OF this stream_book(4) [OF str]]] show ?thesis unfolding g2 .
    qed
    have r: "fread_big dev c n buffer g =
        fread_unbuffered dev c (if less then 0xff else 0) (of_nat u) (n - of_nat u) (buffer + of_nat u) g2"
    proof -
      have ls: "(if ?odd then \<not> odd (unat (data_left (fb g1 c))) else data_left (fb g1 c) \<noteq> 0 \<and> odd (unat (data_left (fb g1 c)))) = less"
        using False dz by (auto simp: less ul)
      show ?thesis
        unfolding fread_big_def Let_def and_1_odd g1 [symmetric] ls w [symmetric] cw
        using False dz co4 1(2) cw by (auto simp: g2 uw)
    qed
    have left2: "left_in (fb g2 c) = 0" by (simp add: b2 left_in_def)
    have q: "P + u \<le> length ?D" using ul2(1) lD assms(3) by simp
    have eof2: "fb_bytesToEOF (fb g2 c) = of_nat (length ?D) - of_nat (P + u)"
      using v assms(4) by (simp add: b2 cw fb_view_def)
    have un: "u \<le> unat n" using ul2(1) l512 assms(5) by simp
    have nn: "unat (n - of_nat u) = unat n - u"
      using un uw by (simp add: unat_sub word_le_nat_alt flip: cw)
    have kk: "k - u = min (unat (n - of_nat u)) (length ?D - (P + u))" by (simp add: nn assms(6))
    have uk: "u \<le> k" using un ul2(1) lD by (simp add: assms(6))
    have off: "(if less then 0xff else 0) = (0 :: BYTE) \<and> hf_pos f1 = P + u \<or>
        (if less then 0xff else 0) = (0xff :: BYTE) \<and> hf_pos f1 = Suc (P + u) \<and> 512 \<le> k - u \<and>
        (k - u) div 512 * 512 \<le> (if buffer + of_nat u \<ge> 0x1000000 then 4096 else 130048)"
    proof (cases less)
      case True
      then have "odd (unat buffer + l)" "l \<noteq> 0" using less ul2 by simp_all
      with assms(7) True pos ul2 show ?thesis
        unfolding l [symmetric] aligned_or_one_block_def u [symmetric] by (auto split: if_splits)
    next
      case False
      with pos ul2 show ?thesis by simp
    qed
    from unbuffered_ok [OF st2 left2 q [folded d(1)] eof2 [folded d(1)] kk [folded d(1)] off, of "of_nat u"] obtain g3 f3 where
      3: "fread_unbuffered dev c (if less then 0xff else 0) (of_nat u) (n - of_nat u) (buffer + of_nat u) g2 = (g3, of_nat u + of_nat (k - u))"
      "stream opened g3 c f3" "hf_data f3 = ?D" "hf_writable f3 = hf_writable f" "others opened c g2 g3"
      "gd_ram g3 = mem_put (gd_ram g2) (buffer + of_nat u) (take (k - u) (drop (P + u) ?D))"
      "stream_pos (fb g3 c) f3 = P + u + (k - u)" "fb_isOpen (fb g3 c) = fb_isOpen (fb g2 c)"
      "fb_currentPos (fb g3 c) = fb_currentPos (fb g2 c)" "fb_wCount (fb g3 c) = fb_wCount (fb g2 c)"
      "fb_bytesToEOFinvalid (fb g3 c) = fb_bytesToEOFinvalid (fb g2 c)"
      "fb_bytesToEOF (fb g3 c) = fb_bytesToEOF (fb g2 c) - of_nat (k - u)" unfolding d by blast
    have ke: "of_nat u + of_nat (k - u) = (of_nat k :: DWORD)" using uk by (simp flip: of_nat_add)
    have lt: "length (take u (drop P ?D)) = u" using q by simp
    have sl: "take k (drop P ?D) = take u (drop P ?D) @ take (k - u) (drop (P + u) ?D)"
      using take_drop_slice [of u P ?D "k - u"] uk by simp
    have "gd_ram g3 = mem_put (gd_ram g) buffer (take k (drop P ?D))"
      unfolding 3(6) sl mem_put_append lt by (simp add: g2)
    moreover have "fb_bytesToEOF (fb g3 c) = of_nat (length ?D) - of_nat (P + k)"
      unfolding 3(12) eof2 ke [symmetric] of_nat_add using uk by (simp add: of_nat_diff)
    ultimately show ?thesis
      unfolding r 3(1) ke using 3 v uk others_trans [OF o2 3(5)]
      by (intro exI [of _ g3] exI [of _ f3]) (simp add: b2 fb_view_def)
  qed
qed


lemma custom_fread_ok:
  assumes "open_at opened g c f P" and "rd16 (gd_ram g) sp = handleCEtoAtari c"
    and "P \<le> length (hf_data f)"
    and "n = rd32 (gd_ram g) (sp + 2)" and "buffer = rd32 (gd_ram g) (sp + 6)"
    and "n \<le> 1024 \<or> aligned_or_one_block buffer (buffered buffer (left_in (fb g c)) (length (hf_data f) - P))
        (min (unat n) (length (hf_data f) - P))"
  shows "read_done opened c f P buffer (unat n) g (custom_fread dev sp g)"
proof (cases "n \<le> 1024")
  case True
  with custom_fread_small_ok [OF assms(1,2)] show ?thesis by (simp add: assms(4,5))
next
  case False
  then have n: "512 \<le> unat n" by (simp add: word_le_nat_alt)
  let ?got = "take (unat n) (drop P (hf_data f))" and ?k = "min (unat n) (length (hf_data f) - P)"
  have gk: "length ?got = ?k" "take ?k (drop P (hf_data f)) = ?got" by (auto simp: min_def)
  define g1 where g1: "g1 = (if fb_bytesToEOFinvalid (fb g c) then getBytesToEof dev c g else g)"
  note re = refresh_ok [OF assms(1) g1]
  have st: "stream opened g1 c f" and P: "P = stream_pos (fb g1 c) f"
    and eof: "fb_bytesToEOF (fb g1 c) = of_nat (length (hf_data f)) - of_nat P"
    using re(1,2) by (simp_all add: open_at_def)
  have c: "unat c < 40" using st by (simp add: stream_def)
  have "left_in (fb g1 c) = left_in (fb g c)"
    using assms(1) re(1) by (auto simp: open_at_def stream_def rbuf_rel_def stream_pos_def)
  with assms(6) False have al: "aligned_or_one_block buffer (buffered buffer (left_in (fb g1 c)) (length (hf_data f) - P)) ?k" by simp
  from fread_big_ok [OF st P assms(3) eof n refl al] obtain g2 f' where
    r: "fread_big dev c n buffer g1 = (g2, of_nat ?k)" and st2: "stream opened g2 c f'"
    and d: "hf_data f' = hf_data f" "hf_writable f' = hf_writable f" and o: "others opened c g1 g2"
    and ram: "gd_ram g2 = mem_put (gd_ram g1) buffer ?got" and p: "stream_pos (fb g2 c) f' = P + ?k"
    and b: "fb_isOpen (fb g2 c) = fb_isOpen (fb g1 c)" "fb_currentPos (fb g2 c) = fb_currentPos (fb g1 c)"
      "fb_wCount (fb g2 c) = fb_wCount (fb g1 c)" "fb_bytesToEOFinvalid (fb g2 c) = fb_bytesToEOFinvalid (fb g1 c)"
      "fb_bytesToEOF (fb g2 c) = of_nat (length (hf_data f)) - of_nat (P + ?k)" unfolding gk by blast
  define g3 where g3: "g3 = (if 0 <s (of_nat ?k :: DWORD)
    then set_fb c ((fb g2 c)\<lparr>fb_currentPos := fb_currentPos (fb g2 c) + of_nat ?k\<rparr>) g2 else g2)"
  have k: "?k \<le> length (hf_data f) - P" by simp
  have b1: "fb_isOpen (fb g2 c)" "fb_wCount (fb g2 c) = 0" "fb_currentPos (fb g2 c) = of_nat P" "\<not> fb_bytesToEOFinvalid (fb g2 c)"
    using b re(1,2) by (simp_all add: open_at_def)
  note adv = advance [OF st2 d(1) p k b1 b(5) g3]
  have "fb_isOpen (fb g c)" using assms(1) by (simp add: open_at_def)
  then have "custom_fread dev sp g = (g3, Ret (of_nat ?k))"
    using c False unfolding custom_fread_def Let_def assms(2) ce_handle(2) [OF c] g1 [symmetric] assms(4,5) [symmetric] r g3
    by (simp add: ce_handle(1) [OF c] not_le [symmetric] r [unfolded g1])
  then show ?thesis
    using adv d ram re(3,4) others_trans [OF others_trans [OF re(3) o] adv(2)] unfolding read_done_def Let_def gk by auto
qed

end

end
