(* ===== verification/GdWrite.thy ===== *)
theory GdWrite
  imports GdBig
begin

text \<open>
  Writing in the driver, against the file server's contract: at every moment the file's content is the
  host's content with the write buffer put at the host's position, and a write extends exactly that.
\<close>

section \<open>Writing at a position\<close>

lemma put_at_Nil [simp]: "put_at p [] xs = xs"
  by (simp add: put_at_def)

lemma put_at_append: "put_at (p + length a) b (put_at p a xs) = put_at p (a @ b) xs"
proof (cases "a = [] \<or> b = []")
  case True
  then show ?thesis by auto
next
  case False
  then have ab: "a \<noteq> []" "b \<noteq> []" by simp_all
  let ?y = "take p xs @ replicate (p - length xs) 0 @ a @ drop (p + length a) xs"
  have l: "length (take p xs @ replicate (p - length xs) 0 @ a) = p + length a" by simp
  have t: "take (p + length a) ?y = take p xs @ replicate (p - length xs) 0 @ a"
    using l by (metis append.assoc append_eq_conv_conj)
  have "drop (p + length a) ?y = drop (p + length a) xs" using l by (metis append.assoc append_eq_conv_conj)
  moreover have "drop (p + length a + length b) z = drop (length b) (drop (p + length a) z)" for z :: "BYTE list"
    by (simp add: add.commute add.left_commute)
  ultimately have d: "drop (p + length a + length b) ?y = drop (p + length a + length b) xs" by (simp only:)
  have "p + length a - length ?y = 0" by simp
  then show ?thesis
    unfolding put_at_def using ab t d by (simp del: take_append drop_append length_append) (simp add: add.assoc)
qed

lemma mem_get_append: "mem_get m a (n + k) = mem_get m a n @ mem_get m (a + of_nat n) k"
  by (rule nth_equalityI) (auto simp: mem_get_def nth_append of_nat_diff)


text \<open>Padding to 16 stays inside any multiple of 16.\<close>

lemma pad_le:
  assumes "n \<le> s" and "s mod 16 = 0"
  shows "n + (16 - n mod 16) mod 16 \<le> (s :: nat)"
proof (cases "n mod 16 = 0")
  case False
  obtain k where k: "s = 16 * k" using assms(2) by auto
  obtain j m where n: "n = 16 * j + m" and m: "m = n mod 16" "m < 16"
    using div_mult_mod_eq [of n 16] by (metis mod_less_divisor mult.commute zero_less_numeral)
  from n k assms(1) False m have "j < k" by (cases "j < k") auto
  then have "n + (16 - m) \<le> s" using k n m(2) by simp
  then show ?thesis using False by (simp flip: m(1))
qed (use assms in simp)

section \<open>A file being written\<close>

definition wstream :: "('h \<Rightarrow> BYTE \<Rightarrow> hfile option) \<Rightarrow> 'h gd \<Rightarrow> WORD \<Rightarrow> hfile \<Rightarrow> bool" where
  "wstream op g c f \<longleftrightarrow> drv_ok g \<and> unat c < MAX_FILES \<and> op (gd_host g) (ucast c) = Some f \<and> hf_writable f \<and>
     unat (fb_wCount (fb g c)) \<le> RW_BUFFER_SIZE"

text \<open>The bytes waiting in the write buffer; the content and the position with them.\<close>

definition pending :: "TFileBuffer \<Rightarrow> BYTE list" where
  "pending b = take (unat (fb_wCount b)) (fb_wBuf b)"

definition wdata :: "TFileBuffer \<Rightarrow> hfile \<Rightarrow> BYTE list" where
  "wdata b f = put_at (hf_pos f) (pending b) (hf_data f)"

definition wpos :: "TFileBuffer \<Rightarrow> hfile \<Rightarrow> nat" where
  "wpos b f = hf_pos f + length (pending b)"

lemma length_pending: "wstream op g c f \<Longrightarrow> length (pending (fb g c)) = unat (fb_wCount (fb g c))"
  using drv_ok_fb [of g c] by (simp add: wstream_def pending_def fb_shape_def)

text \<open>\<open>b'\<close> is \<open>b\<close> with another write buffer and stream position.\<close>

definition wsame :: "TFileBuffer \<Rightarrow> TFileBuffer \<Rightarrow> bool" where
  "wsame b b' \<longleftrightarrow> fb_isOpen b' = fb_isOpen b \<and> fb_rCount b' = fb_rCount b \<and> fb_rStart b' = fb_rStart b \<and>
     fb_rBuf b' = fb_rBuf b \<and> fb_bytesToEOFinvalid b' = fb_bytesToEOFinvalid b"

lemma wsame_refl [simp]: "wsame b b"
  by (simp add: wsame_def)

lemma wsame_trans: "wsame a b \<Longrightarrow> wsame b d \<Longrightarrow> wsame a d"
  by (simp add: wsame_def)

lemma wsame_upd [simp]:
  "wsame b (b\<lparr>fb_wCount := n\<rparr>)" "wsame b (wbuf_put b k xs)" "wsame b (b\<lparr>fb_currentPos := p\<rparr>)"
  "wsame b ((wbuf_put b k xs)\<lparr>fb_wCount := n\<rparr>)"
  by (simp_all add: wsame_def wbuf_put_def)

lemma wstream_set_fb:
  assumes "wstream op g c f" and "fb_shape b" and "unat (fb_wCount b) \<le> 512"
  shows "wstream op (set_fb c b g) c f" and "fb (set_fb c b g) c = b" and "others op c g (set_fb c b g)"
  using assms fb_set_fb [of g c] by (auto simp: wstream_def others_def drv_ok_set_fb)

lemma wstream_fb: "wstream op g c f \<Longrightarrow> fb_shape (fb g c)"
  by (simp add: wstream_def drv_ok_fb)

lemma take_buf_put: "k + length xs \<le> length buf \<Longrightarrow> take (k + length xs) (buf_put buf k xs) = take k buf @ xs"
  using take_overwrite [of xs "drop k buf" "[]"] by (cases xs) (auto simp: buf_put_def min_def)

lemma fb_shape_wput: "fb_shape b \<Longrightarrow> k \<le> 512 \<Longrightarrow> fb_shape ((wbuf_put b k xs)\<lparr>fb_wCount := n\<rparr>)"
  by (simp add: fb_shape_def wbuf_put_def)

lemma pending_wput:
  assumes "fb_shape b" and "unat n = k + length xs" and "k + length xs \<le> 512"
  shows "pending ((wbuf_put b k xs)\<lparr>fb_wCount := n\<rparr>) = take k (fb_wBuf b) @ xs"
  using assms take_buf_put [of k xs "fb_wBuf b"] by (simp add: pending_def wbuf_put_def fb_shape_def)

text \<open>\<open>g'\<close> is \<open>g\<close> after \<open>bs\<close> was written at the position.\<close>

definition wrote ::
  "('h \<Rightarrow> BYTE \<Rightarrow> hfile option) \<Rightarrow> WORD \<Rightarrow> BYTE list \<Rightarrow> 'h gd \<Rightarrow> hfile \<Rightarrow> 'h gd \<Rightarrow> hfile \<Rightarrow> bool" where
  "wrote op c bs g f g' f' \<longleftrightarrow> wstream op g' c f' \<and> wdata (fb g' c) f' = put_at (wpos (fb g c) f) bs (wdata (fb g c) f) \<and>
     wpos (fb g' c) f' = wpos (fb g c) f + length bs \<and> wsame (fb g c) (fb g' c) \<and> others op c g g' \<and> gd_ram g' = gd_ram g"

lemma wrote_trans:
  assumes "wrote op c xs g f g' f'" and "wrote op c ys g' f' g'' f''"
  shows "wrote op c (xs @ ys) g f g'' f''"
  using assms others_trans [of op c g g' g''] wsame_trans [of "fb g c" "fb g' c" "fb g'' c"]
  by (simp add: wrote_def put_at_append add.assoc)

text \<open>Appending to the write buffer.\<close>

lemma buffer_bytes:
  assumes "wstream op g c f" and "unat (fb_wCount (fb g c)) + length xs \<le> 512" and "unat n = unat (fb_wCount (fb g c)) + length xs"
    and "b = (wbuf_put (fb g c) (unat (fb_wCount (fb g c))) xs)\<lparr>fb_wCount := n\<rparr>"
  shows "wrote op c xs g f (set_fb c b g) f" and "fb (set_fb c b g) c = b"
proof -
  note sh = wstream_fb [OF assms(1)]
  have le: "unat (fb_wCount (fb g c)) \<le> 512" using assms(2) by simp
  have shb: "fb_shape b" unfolding assms(4) by (rule fb_shape_wput [OF sh le])
  have nb: "unat (fb_wCount b) \<le> 512" using assms(2,3) by (simp add: assms(4))
  note s = wstream_set_fb [OF assms(1) shb nb]
  show "fb (set_fb c b g) c = b" by (rule s(2))
  have p: "pending b = pending (fb g c) @ xs"
    using pending_wput [OF sh assms(3,2)] by (simp add: assms(4) pending_def)
  have "wdata b f = put_at (wpos (fb g c) f) xs (wdata (fb g c) f)"
    by (simp add: wdata_def wpos_def p put_at_append)
  moreover have "wpos b f = wpos (fb g c) f + length xs" by (simp add: wpos_def p)
  ultimately show "wrote op c xs g f (set_fb c b g) f"
    using s by (simp add: wrote_def assms(4))
qed

context file_server
begin

lemma writeData_ok:
  assumes "drv_ok g" and "opened (gd_host g) (ucast c) = Some f" and "hf_writable f" and "unat cnt \<le> 130048"
    and "unat cnt + (16 - unat cnt mod 16) mod 16 \<le> length bfr"
  shows "\<exists>g'. writeData dev c bfr cnt g = (g', cnt) \<and> drv_ok g' \<and> kept_gd g' = kept_gd g \<and>
    opened (gd_host g') = (opened (gd_host g))(ucast c \<mapsto> f\<lparr>hf_data := put_at (hf_pos f) (take (unat cnt) bfr) (hf_data f),
      hf_pos := hf_pos f + unat cnt, hf_last := unat cnt\<rparr>)"
proof -
  let ?cmd = "(commandLong g)[5 := 0x40, 6 := ucast c,
      7 := ucast (drop_bit 16 cnt), 8 := ucast (drop_bit 8 cnt), 9 := ucast cnt]"
  let ?g = "g\<lparr>commandLong := ?cmd\<rparr>"
  have l: "length (commandLong g) = 13" using assms(1) by (simp add: drv_ok_def long_cmd_def)
  have "take 5 ?cmd = take 5 (commandLong g)" by (simp add: take_update_cancel)
  note ok = drv_ok_long [OF assms(1) refl _ this, unfolded length_list_update, OF l]
  have cmd: "?cmd ! 5 = 0x40" "?cmd ! 6 = ucast c" "count24 ?cmd = unat cnt"
    using l count24_bytes [of cnt] assms(4) by (simp_all add: count24_def)
  from write_law [OF ok(2) [unfolded cmd(1)], of "gd_host g" f bfr "sectors cnt"] assms(2-5)
  obtain h ds where d: "dev (gd_host g) False ?cmd bfr (sectors cnt) = (h, True, RW_ALL_TRANSFERED, ds)"
    and h: "opened h = (opened (gd_host g))(ucast c \<mapsto> f\<lparr>hf_data := put_at (hf_pos f) (take (unat cnt) bfr) (hf_data f),
      hf_pos := hf_pos f + unat cnt, hf_last := unat cnt\<rparr>)"
    unfolding cmd by auto
  have s: "hddIfCmd_withRetries_lock dev False ?cmd bfr (sectors cnt) ?g = (hd_done h RW_ALL_TRANSFERED ?g, ds)"
    by (rule hd_ok) (use d ok in simp_all)
  show ?thesis
    using s h ok(1) by (intro exI [of _ "hd_done h RW_ALL_TRANSFERED ?g"]) (simp add: writeData_def Let_def rw_result_def)
qed

lemma commit_ok:
  assumes "wstream opened g c f"
  shows "\<exists>g' f'. commitChanges dev c g = (g', True) \<and> wrote opened c [] g f g' f' \<and> fb_wCount (fb g' c) = 0 \<and>
    fb_currentPos (fb g' c) = fb_currentPos (fb g c)"
proof (cases "fb_wCount (fb g c) = 0")
  case True
  then show ?thesis using assms
    by (intro exI [of _ g] exI [of _ f]) (simp add: commitChanges_def wrote_def wstream_def)
next
  case False
  let ?n = "fb_wCount (fb g c)"
  from assms have st: "drv_ok g" "unat c < 40" "opened (gd_host g) (ucast c) = Some f" "hf_writable f" "unat ?n \<le> 512"
    by (simp_all add: wstream_def)
  note sh = wstream_fb [OF assms]
  have n: "unat (ucast ?n :: DWORD) \<le> 130048" "unat (ucast ?n :: DWORD) = unat ?n" using st(5) by simp_all
  have "unat ?n + (16 - unat ?n mod 16) mod 16 \<le> 512" by (rule pad_le) (use st(5) in simp_all)
  then have l: "unat (ucast ?n :: DWORD) + (16 - unat (ucast ?n :: DWORD) mod 16) mod 16 \<le> length (fb_wBuf (fb g c))"
    using sh by (simp add: fb_shape_def)
  from writeData_ok [OF st(1,3,4) n(1) l] obtain g1 where
    1: "writeData dev c (fb_wBuf (fb g c)) (ucast ?n) g = (g1, ucast ?n)" "drv_ok g1" "kept_gd g1 = kept_gd g"
    and h: "opened (gd_host g1) = (opened (gd_host g))(ucast c \<mapsto> f\<lparr>hf_data := put_at (hf_pos f) (pending (fb g c)) (hf_data f),
      hf_pos := hf_pos f + unat ?n, hf_last := unat ?n\<rparr>)"
    unfolding n(2) pending_def by blast
  let ?f = "f\<lparr>hf_data := put_at (hf_pos f) (pending (fb g c)) (hf_data f), hf_pos := hf_pos f + unat ?n, hf_last := unat ?n\<rparr>"
  let ?b = "(fb g1 c)\<lparr>fb_wCount := 0\<rparr>"
  note k = kept_gdD [OF 1(3)]
  have w1: "wstream opened g1 c ?f" using st 1(2) h k(4) by (simp add: wstream_def)
  have shb: "fb_shape ?b" using wstream_fb [OF w1] by (simp add: fb_shape_def)
  have s: "wstream opened (set_fb c ?b g1) c ?f" "fb (set_fb c ?b g1) c = ?b" "others opened c g1 (set_fb c ?b g1)"
    by (rule wstream_set_fb [OF w1 shb], simp)+
  have o: "others opened c g g1" using h k(4) by (simp add: others_def)
  have "commitChanges dev c g = (set_fb c ?b g1, True)"
    using False st(2) 1(1) k(4) by (simp add: commitChanges_def Let_def)
  moreover have "wrote opened c [] g f (set_fb c ?b g1) ?f"
    using s others_trans [OF o s(3)] length_pending [OF assms] k(1,4)
    by (simp add: wrote_def wdata_def wpos_def pending_def)
  ultimately show ?thesis using s(2) k(4) by auto
qed


lemma direct_write:
  assumes "wstream opened g c f" and "fb_wCount (fb g c) = 0" and "unat cnt \<le> 130048"
    and "unat cnt + (16 - unat cnt mod 16) mod 16 \<le> length bfr"
  shows "\<exists>g' f'. writeData dev c bfr cnt g = (g', cnt) \<and> wrote opened c (take (unat cnt) bfr) g f g' f' \<and> fb g' c = fb g c"
proof -
  from assms(1) have st: "drv_ok g" "unat c < 40" "opened (gd_host g) (ucast c) = Some f" "hf_writable f" by (simp_all add: wstream_def)
  from writeData_ok [OF st(1,3,4) assms(3,4)] obtain g1 where
    1: "writeData dev c bfr cnt g = (g1, cnt)" "drv_ok g1" "kept_gd g1 = kept_gd g"
    and h: "opened (gd_host g1) = (opened (gd_host g))(ucast c \<mapsto> f\<lparr>hf_data := put_at (hf_pos f) (take (unat cnt) bfr) (hf_data f),
      hf_pos := hf_pos f + unat cnt, hf_last := unat cnt\<rparr>)" by blast
  note k = kept_gdD [OF 1(3)]
  let ?f = "f\<lparr>hf_data := put_at (hf_pos f) (take (unat cnt) bfr) (hf_data f), hf_pos := hf_pos f + unat cnt, hf_last := unat cnt\<rparr>"
  have "length (take (unat cnt) bfr) = unat cnt" using assms(4) by simp
  then have "wrote opened c (take (unat cnt) bfr) g f g1 ?f"
    using st 1(2) h k(1,4) assms(2) by (simp add: wrote_def wstream_def wdata_def wpos_def pending_def others_def del: length_take)
  with 1(1) k(4) show ?thesis by blast
qed

lemma wrote_pos:
  assumes "wrote opened c xs g f g' f'"
  shows "wrote opened c xs g f (add_pos c n g') f'" and "fb_currentPos (fb (add_pos c n g') c) = fb_currentPos (fb g' c) + n"
proof -
  have w: "wstream opened g' c f'" using assms by (simp add: wrote_def)
  let ?b = "(fb g' c)\<lparr>fb_currentPos := fb_currentPos (fb g' c) + n\<rparr>"
  have "fb_shape ?b" "unat (fb_wCount ?b) \<le> 512" using wstream_fb [OF w] w by (simp_all add: fb_shape_def wstream_def)
  note s = wstream_set_fb [OF w this]
  have e: "add_pos c n g' = set_fb c ?b g'" by (simp add: add_pos_def)
  show "fb_currentPos (fb (add_pos c n g') c) = fb_currentPos (fb g' c) + n" unfolding e s(2) by simp
  have "wsame (fb g c) ?b" using assms by (simp add: wrote_def wsame_def)
  moreover have "others opened c g (set_fb c ?b g')" using assms others_trans [OF _ s(3)] by (simp add: wrote_def)
  ultimately show "wrote opened c xs g f (add_pos c n g') f'"
    using assms s(1) unfolding e wrote_def s(2) by (simp add: wdata_def wpos_def pending_def)
qed

end

lemma pad_sectors:
  assumes "unat sz \<le> 130048"
  shows "unat sz + (16 - unat sz mod 16) mod 16 \<le> unat (sectors sz) * 512" and "unat (sectors sz) * 512 < unat sz + 512"
    and "unat sz \<le> 4096 \<Longrightarrow> unat (sectors sz) * 512 \<le> 4096"
proof -
  have "unat (sz + 511) = unat sz + 511" using assms by (simp add: unat_word_ariths)
  then have d: "unat (drop_bit 9 (sz + 511)) = (unat sz + 511) div 512"
    unfolding unat_drop_bit_eq by (simp add: drop_bit_eq_div)
  have "(unat sz + 511) div 512 < 65536" using assms by (simp add: div_less_iff_less_mult)
  then have e: "unat (sectors sz) = (unat sz + 511) div 512" unfolding sectors_def unat_ucast_down d by simp
  have m: "(unat sz + 511) div 512 * 512 + (unat sz + 511) mod 512 = unat sz + 511" by (rule div_mult_mod_eq)
  have lt: "(unat sz + 511) mod 512 < 512" by simp
  show "unat (sectors sz) * 512 < unat sz + 512" unfolding e using m by linarith
  show "unat (sectors sz) * 512 \<le> 4096" if "unat sz \<le> 4096"
  proof -
    have "(unat sz + 511) div 512 < 9" using that by (simp add: div_less_iff_less_mult)
    then show ?thesis unfolding e by simp
  qed
  let ?s = "(unat sz + 511) div 512 * 512"
  have "unat sz \<le> ?s" using m lt by linarith
  moreover have "?s mod 16 = 0" using mod_mod_cancel [of 16 512 ?s] by simp
  ultimately show "unat sz + (16 - unat sz mod 16) mod 16 \<le> unat (sectors sz) * 512" unfolding e by (rule pad_le)
qed


lemma mem_get_take: "n \<le> k \<Longrightarrow> take n (mem_get m a k) = mem_get m a n"
  by (simp add: mem_get_def take_map)

lemma wstream_ram_irrelevant [simp]: "wstream op (g\<lparr>FastRAMBuffer := x\<rparr>) c f = wstream op g c f"
  if "length x = 4096" "drv_ok g"
  using that by (simp add: wstream_def drv_ok_def)

section \<open>The write handler\<close>

context file_server
begin

lemma fwrite_small_ok:
  assumes "wstream opened g c f" and "unat n \<le> 512" and "bs = mem_get (gd_ram g) buffer (unat n)"
  shows "\<exists>g' f'. fwrite_small dev c n buffer g = (g', n) \<and> wrote opened c bs g f g' f' \<and>
    fb_currentPos (fb g' c) = fb_currentPos (fb g c) + n"
proof -
  let ?w = "fb_wCount (fb g c)"
  have w: "unat ?w \<le> 512" using assms(1) by (simp add: wstream_def)
  define s where s: "s = 512 - ?w"
  have us: "unat s = 512 - unat ?w" using w by (simp add: s unat_sub word_le_nat_alt)
  show ?thesis
  proof (cases "n \<le> ucast s")
    case True
    then have le: "unat ?w + unat n \<le> 512" using us w by (simp add: word_le_nat_alt)
    let ?b = "(wbuf_put (fb g c) (unat ?w) bs)\<lparr>fb_wCount := ?w + ucast n\<rparr>"
    have "unat (?w + ucast n) = unat ?w + length bs" using le by (simp add: unat_word_ariths assms(3))
    note b = buffer_bytes [OF assms(1) _ this refl]
    have lb: "unat ?w + length bs \<le> 512" using le by (simp add: assms(3))
    let ?g = "add_pos c n (set_fb c ?b g)"
    have "fwrite_small dev c n buffer g = (?g, n)"
      using True by (simp add: fwrite_small_def Let_def assms(3) flip: s)
    then show ?thesis using wrote_pos [OF b(1) [OF lb], of n] b(2) [OF lb] by (auto simp: wbuf_put_def)
  next
    case False
    then have gt: "unat s < unat n" by (simp add: word_le_nat_alt)
    let ?xs = "mem_get (gd_ram g) buffer (unat s)" and ?ys = "mem_get (gd_ram g) (buffer + ucast s) (unat n - unat s)"
    have bs: "bs = ?xs @ ?ys" using gt mem_get_append [of "gd_ram g" buffer "unat s" "unat n - unat s"] by (simp add: assms(3))
    let ?b = "(wbuf_put (fb g c) (unat ?w) ?xs)\<lparr>fb_wCount := ?w + s\<rparr>"
    have lx: "unat ?w + length ?xs \<le> 512" "unat (?w + s) = unat ?w + length ?xs" using us w by (simp_all add: unat_word_ariths)
    note b = buffer_bytes [OF assms(1) lx refl]
    have "wstream opened (set_fb c ?b g) c f" using b(1) by (simp add: wrote_def)
    from commit_ok [OF this] obtain g1 f1 where 1: "commitChanges dev c (set_fb c ?b g) = (g1, True)"
      "wrote opened c [] (set_fb c ?b g) f g1 f1" "fb_wCount (fb g1 c) = 0"
      "fb_currentPos (fb g1 c) = fb_currentPos (fb (set_fb c ?b g) c)" by blast
    let ?rest = "ucast (n - ucast s) :: WORD"
    have ns: "unat (n - ucast s) = unat n - unat s" using gt by (simp add: unat_sub word_le_nat_alt)
    then have ur: "unat ?rest = unat n - unat s" using assms(2) by simp
    let ?b2 = "(wbuf_put (fb g1 c) (unat (fb_wCount (fb g1 c))) ?ys)\<lparr>fb_wCount := ?rest\<rparr>"
    have w1: "wstream opened g1 c f1" using 1(2) by (simp add: wrote_def)
    have ly: "unat (fb_wCount (fb g1 c)) + length ?ys \<le> 512" "unat ?rest = unat (fb_wCount (fb g1 c)) + length ?ys"
      using 1(3) assms(2) ur by simp_all
    note b2 = buffer_bytes [OF w1 ly refl]
    have ram: "gd_ram g1 = gd_ram g" using 1(2) b(1) by (simp add: wrote_def)
    let ?g = "add_pos c n (set_fb c ?b2 g1)"
    have "fwrite_small dev c n buffer g = (?g, n)"
      using False 1(1,3) ur by (simp add: fwrite_small_def Let_def ram flip: s)
    moreover have "wrote opened c bs g f (set_fb c ?b2 g1) f1"
      using wrote_trans [OF wrote_trans [OF b(1) 1(2)] b2(1)] by (simp add: bs)
    moreover have "fb_currentPos (fb (set_fb c ?b2 g1) c) = fb_currentPos (fb g c)"
      using b(2) b2(2) 1(4) by (simp add: wbuf_put_def)
    ultimately show ?thesis using wrote_pos by (metis (no_types, lifting))
  qed
qed

lemma fwrite_blocks_ok:
  assumes "wstream opened g c f" and "fb_wCount (fb g c) = 0"
  shows "\<exists>g' f'. fwrite_blocks dev c fr w n buffer g = (g', w + n) \<and>
    wrote opened c (mem_get (gd_ram g) buffer (unat n)) g f g' f' \<and> fb_wCount (fb g' c) = 0 \<and>
    fb_currentPos (fb g' c) = fb_currentPos (fb g c)"
  using assms
proof (induction "unat n" arbitrary: n w buffer g f rule: less_induct)
  case less
  show ?case
  proof (cases "n = 0")
    case True
    with less.prems show ?thesis
      by (intro exI [of _ g] exI [of _ f]) (simp add: fwrite_blocks.simps wrote_def)
  next
    case False
    define sz where sz: "sz = (if n < block_size fr then n else block_size fr)"
    have bs: "unat (block_size fr) = (if fr then 4096 else 130048)" by (simp add: block_size_def)
    have z: "0 < unat sz" "unat sz \<le> unat n" "unat sz \<le> 130048" "fr \<Longrightarrow> unat sz \<le> 4096"
      using False bs by (auto simp: sz word_less_nat_alt not_less unat_gt_0 split: if_splits)
    define g1 where g1: "g1 = (if fr then g\<lparr>FastRAMBuffer := overwrite (FastRAMBuffer g) (mem_get (gd_ram g) buffer (unat sz))\<rparr> else g)"
    define bfr where bfr: "bfr = (if fr then take (unat (sectors sz) * 512) (FastRAMBuffer g1) else sector_bytes (gd_ram g) buffer sz)"
    have lf: "length (FastRAMBuffer g) = 4096" "drv_ok g" using less.prems(1) by (simp_all add: wstream_def drv_ok_def)
    have sec: "unat sz \<le> unat (sectors sz) * 512" using pad_sectors(1) [OF z(3)] by simp
    have lb: "length bfr = unat (sectors sz) * 512"
      using pad_sectors(3) [OF z(3)] z(4) lf by (auto simp: bfr g1 sector_bytes_def)
    have tk: "take (unat sz) bfr = mem_get (gd_ram g) buffer (unat sz)"
    proof (cases fr)
      case True
      have "take (unat sz) (overwrite (FastRAMBuffer g) (mem_get (gd_ram g) buffer (unat sz))) = mem_get (gd_ram g) buffer (unat sz)"
        using take_overwrite [of "mem_get (gd_ram g) buffer (unat sz)" "FastRAMBuffer g" "[]"] z(4) [OF True] lf by simp
      with True sec show ?thesis by (simp add: bfr g1 min_def)
    next
      case False
      with sec show ?thesis by (simp add: bfr sector_bytes_def mem_get_take)
    qed
    have w1: "wstream opened g1 c f" "fb g1 c = fb g c" "gd_ram g1 = gd_ram g" "others opened c g g1"
      using less.prems(1) lf by (auto simp: g1 others_def)
    have l2: "unat sz + (16 - unat sz mod 16) mod 16 \<le> length bfr" using pad_sectors(1) [OF z(3)] lb by simp
    have "fb_wCount (fb g1 c) = 0" using less.prems(2) w1(2) by simp
    from direct_write [OF w1(1) this z(3) l2] obtain g2 f2 where
      2: "writeData dev c bfr sz g1 = (g2, sz)" "wrote opened c (mem_get (gd_ram g) buffer (unat sz)) g1 f g2 f2" "fb g2 c = fb g1 c"
      unfolding tk by blast
    have nn: "unat (n - sz) = unat n - unat sz" using z(2) by (simp add: unat_sub word_le_nat_alt)
    have "unat (n - sz) < unat n" using z nn by simp
    moreover have "wstream opened g2 c f2" using 2(2) by (simp add: wrote_def)
    moreover have "fb_wCount (fb g2 c) = 0" using 2(3) w1(2) less.prems(2) by simp
    ultimately obtain g3 f3 where 3: "fwrite_blocks dev c fr (w + sz) (n - sz) (buffer + sz) g2 = (g3, w + sz + (n - sz))"
      "wrote opened c (mem_get (gd_ram g2) (buffer + sz) (unat (n - sz))) g2 f2 g3 f3" "fb_wCount (fb g3 c) = 0"
      "fb_currentPos (fb g3 c) = fb_currentPos (fb g2 c)" using less.hyps by blast
    have "fwrite_blocks dev c fr w n buffer g = fwrite_blocks dev c fr (w + sz) (n - sz) (buffer + sz) g2"
      using False 2(1) by (simp add: fwrite_blocks.simps [of dev c fr w n] Let_def bfr g1 flip: sz split: if_splits)
    moreover have "wrote opened c (mem_get (gd_ram g) buffer (unat n)) g1 f g3 f3"
    proof -
      have "gd_ram g2 = gd_ram g" using 2(2) w1(3) by (simp add: wrote_def)
      then show ?thesis
        using wrote_trans [OF 2(2) 3(2)] mem_get_append [of "gd_ram g" buffer "unat sz" "unat n - unat sz"] z(2) by (simp add: nn)
    qed
    then have "wrote opened c (mem_get (gd_ram g) buffer (unat n)) g f g3 f3"
      using others_trans [OF w1(4)] by (simp add: wrote_def w1)
    ultimately show ?thesis using 3 2(3) w1(2) by auto
  qed
qed

lemma fwrite_rest_ok:
  assumes "wstream opened g c f" and "fb_wCount (fb g c) = 0" and "bw + rem = n"
  shows "\<exists>g' f'. fwrite_rest dev c n bw rem buffer g = (g', n) \<and>
    wrote opened c (mem_get (gd_ram g) buffer (unat rem)) g f g' f' \<and> fb_currentPos (fb g' c) = fb_currentPos (fb g c) + n"
proof (cases "rem < 512")
  case True
  let ?xs = "mem_get (gd_ram g) buffer (unat rem)"
  let ?b = "(wbuf_put (fb g c) (unat (fb_wCount (fb g c))) ?xs)\<lparr>fb_wCount := fb_wCount (fb g c) + ucast rem\<rparr>"
  have l: "unat (fb_wCount (fb g c)) + length ?xs \<le> 512" "unat (fb_wCount (fb g c) + ucast rem) = unat (fb_wCount (fb g c)) + length ?xs"
    using True assms(2) by (simp_all add: word_less_nat_alt)
  note b = buffer_bytes [OF assms(1) l refl]
  have "fwrite_rest dev c n bw rem buffer g = (add_pos c n (set_fb c ?b g), n)"
    using True assms(2) by (simp add: fwrite_rest_def)
  then show ?thesis using wrote_pos [OF b(1), of n] b(2) by (auto simp: wbuf_put_def)
next
  case False
  from fwrite_blocks_ok [OF assms(1,2), of "0x1000000 \<le>s buffer" bw rem buffer] obtain g1 f1 where
    1: "fwrite_blocks dev c (0x1000000 \<le>s buffer) bw rem buffer g = (g1, n)"
    "wrote opened c (mem_get (gd_ram g) buffer (unat rem)) g f g1 f1" "fb_currentPos (fb g1 c) = fb_currentPos (fb g c)"
    unfolding assms(3) by blast
  have "fwrite_rest dev c n bw rem buffer g = (add_pos c n g1, n)"
    using False 1(1) by (simp add: fwrite_rest_def)
  then show ?thesis using wrote_pos [OF 1(2), of n] 1(3) by auto
qed


lemma fwrite_big_ok:
  assumes "wstream opened g c f" and "512 < unat n" and "bs = mem_get (gd_ram g) buffer (unat n)"
  shows "\<exists>g' f'. fwrite_big dev c n buffer g = (g', n) \<and> wrote opened c bs g f g' f' \<and>
    fb_currentPos (fb g' c) = fb_currentPos (fb g c) + n"
proof (cases "fb_wCount (fb g c) \<noteq> 0 \<or> odd (unat buffer)")
  case False
  then have w0: "fb_wCount (fb g c) = 0" by simp
  have "fwrite_big dev c n buffer g = fwrite_rest dev c n 0 n buffer g"
    unfolding fwrite_big_def Let_def and_1_odd using False by simp
  then show ?thesis using fwrite_rest_ok [OF assms(1) w0, of 0 n n buffer] by (simp add: assms(3))
next
  case True
  have w: "unat (fb_wCount (fb g c)) \<le> 512" using assms(1) by (simp add: wstream_def)
  define s where s: "s = 512 - fb_wCount (fb g c)"
  have us: "unat s = 512 - unat (fb_wCount (fb g c))" using w by (simp add: s unat_sub word_le_nat_alt)
  define p where p: "p = (if even (unat buffer) then (g, if odd (unat s) then s - 1 else s)
    else if even (unat s) then if s > 0 then (g, s - 1) else (fst (commitChanges dev c g), 512 - 1) else (g, s))"
  obtain g0 s0 where gs: "p = (g0, s0)" by (cases p)
  have "\<exists>f0. wrote opened c [] g f g0 f0 \<and> fb_currentPos (fb g0 c) = fb_currentPos (fb g c) \<and>
      unat (fb_wCount (fb g0 c)) + unat s0 \<le> 512"
  proof (cases "odd (unat buffer) \<and> s = 0")
    case True
    then have "p = (fst (commitChanges dev c g), 511)" by (simp add: p)
    with commit_ok [OF assms(1)] gs show ?thesis by auto
  next
    case False
    have "wrote opened c [] g f g f" using assms(1) by (simp add: wrote_def)
    moreover have "g0 = g" using False gs by (auto simp: p word_gt_0 split: if_splits)
    moreover have "unat s0 \<le> unat s"
    proof -
      have "unat (s - 1) \<le> unat s" if "s \<noteq> 0" using that by (simp add: unat_pred)
      moreover have "odd (unat s) \<Longrightarrow> s \<noteq> 0" by auto
      ultimately show ?thesis using False gs by (auto simp: p word_gt_0 split: if_splits)
    qed
    ultimately show ?thesis using us w by auto
  qed
  then obtain f0 where 0: "wrote opened c [] g f g0 f0" "fb_currentPos (fb g0 c) = fb_currentPos (fb g c)"
    "unat (fb_wCount (fb g0 c)) + unat s0 \<le> 512" by blast
  let ?xs = "mem_get (gd_ram g) buffer (unat s0)" and ?ys = "mem_get (gd_ram g) (buffer + ucast s0) (unat n - unat s0)"
  have s0n: "unat s0 \<le> unat n" using 0(3) assms(2) by simp
  have bs: "bs = ?xs @ ?ys" using s0n mem_get_append [of "gd_ram g" buffer "unat s0" "unat n - unat s0"] by (simp add: assms(3))
  have ram0: "gd_ram g0 = gd_ram g" and w0: "wstream opened g0 c f0" using 0(1) by (simp_all add: wrote_def)
  let ?b = "(wbuf_put (fb g0 c) (unat (fb_wCount (fb g0 c))) ?xs)\<lparr>fb_wCount := fb_wCount (fb g0 c) + s0\<rparr>"
  have lx: "unat (fb_wCount (fb g0 c)) + length ?xs \<le> 512" "unat (fb_wCount (fb g0 c) + s0) = unat (fb_wCount (fb g0 c)) + length ?xs"
    using 0(3) by (simp_all add: unat_word_ariths)
  note b = buffer_bytes [OF w0 lx refl]
  have "wstream opened (set_fb c ?b g0) c f0" using b(1) by (simp add: wrote_def)
  from commit_ok [OF this] obtain g1 f1 where 1: "commitChanges dev c (set_fb c ?b g0) = (g1, True)"
    "wrote opened c [] (set_fb c ?b g0) f0 g1 f1" "fb_wCount (fb g1 c) = 0"
    "fb_currentPos (fb g1 c) = fb_currentPos (fb (set_fb c ?b g0) c)" by blast
  have ram1: "gd_ram g1 = gd_ram g" using 1(2) ram0 by (simp add: wrote_def)
  have w1: "wstream opened g1 c f1" using 1(2) by (simp add: wrote_def)
  have ns: "unat (n - ucast s0) = unat n - unat s0" using s0n by (simp add: unat_sub word_le_nat_alt)
  have "ucast s0 + (n - ucast s0) = n" by simp
  from fwrite_rest_ok [OF w1 1(3) this, of "buffer + ucast s0"] obtain g2 f2 where
    2: "fwrite_rest dev c n (ucast s0) (n - ucast s0) (buffer + ucast s0) g1 = (g2, n)" "wrote opened c ?ys g1 f1 g2 f2"
    "fb_currentPos (fb g2 c) = fb_currentPos (fb g1 c) + n" unfolding ram1 ns by blast
  have "fwrite_big dev c n buffer g = (g2, n)"
  proof -
    have "fwrite_big dev c n buffer g =
        (let (g, s0) = p; b = fb g c;
             b = (wbuf_put b (unat (fb_wCount b)) (mem_get (gd_ram g) buffer (unat s0)))\<lparr>fb_wCount := fb_wCount b + s0\<rparr>;
             (g, res) = commitChanges dev c (set_fb c b g)
         in if \<not> res then (g, 0) else fwrite_rest dev c n (ucast s0) (n - ucast s0) (buffer + ucast s0) g)"
      unfolding fwrite_big_def Let_def and_1_odd s [symmetric] p using True by simp
    then show ?thesis by (simp add: gs Let_def ram0 1(1) 2(1))
  qed
  moreover have "wrote opened c bs g f g2 f2"
    using wrote_trans [OF 0(1) wrote_trans [OF b(1) wrote_trans [OF 1(2) 2(2)]]] by (simp add: bs)
  ultimately show ?thesis using 0(2) 1(4) 2(3) b(2) by (auto simp: wbuf_put_def)
qed

end

text \<open>
  A handle open for writing at position \<open>P\<close> of a file with content \<open>D\<close>, the bytes in the write buffer
  included.
\<close>

definition writing_at ::
  "('h \<Rightarrow> BYTE \<Rightarrow> hfile option) \<Rightarrow> 'h gd \<Rightarrow> WORD \<Rightarrow> hfile \<Rightarrow> BYTE list \<Rightarrow> nat \<Rightarrow> bool" where
  "writing_at op g c f D P \<longleftrightarrow> wstream op g c f \<and> fb_isOpen (fb g c) \<and> wdata (fb g c) f = D \<and> wpos (fb g c) f = P \<and>
     fb_currentPos (fb g c) = of_nat P"

context file_server
begin

lemma custom_fwrite_ok:
  assumes "writing_at opened g c f D P" and "rd16 (gd_ram g) sp = handleCEtoAtari c"
    and "n = rd32 (gd_ram g) (sp + 2)" and "bs = mem_get (gd_ram g) (rd32 (gd_ram g) (sp + 6)) (unat n)"
  shows "\<exists>g' f'. custom_fwrite dev sp g = (g', Ret n) \<and> writing_at opened g' c f' (put_at P bs D) (P + unat n) \<and>
    others opened c g g' \<and> gd_ram g' = gd_ram g"
proof -
  let ?b = "(fb g c)\<lparr>fb_bytesToEOFinvalid := True\<rparr>" and ?buf = "rd32 (gd_ram g) (sp + 6)"
  let ?g = "set_fb c ?b g"
  from assms(1) have ws: "wstream opened g c f" and wr: "fb_isOpen (fb g c)" "wdata (fb g c) f = D" "wpos (fb g c) f = P"
    "fb_currentPos (fb g c) = of_nat P" by (simp_all add: writing_at_def)
  have c: "unat c < 40" using ws by (simp add: wstream_def)
  have "fb_shape ?b" "unat (fb_wCount ?b) \<le> 512" using wstream_fb [OF ws] ws by (simp_all add: fb_shape_def wstream_def)
  note s = wstream_set_fb [OF ws this]
  have sm: "wdata ?b f = D" "wpos ?b f = P" using wr(2,3) by (simp_all add: wdata_def wpos_def pending_def)
  define r where r: "r = (if n \<le> 512 then fwrite_small dev c n ?buf ?g else fwrite_big dev c n ?buf ?g)"
  have "\<exists>g' f'. r = (g', n) \<and> wrote opened c bs ?g f g' f' \<and> fb_currentPos (fb g' c) = fb_currentPos (fb ?g c) + n"
    using fwrite_small_ok [OF s(1), of n bs ?buf] fwrite_big_ok [OF s(1), of n bs ?buf]
    by (cases "n \<le> 512") (simp_all add: r assms(4) word_le_nat_alt)
  then obtain g' f' where 1: "r = (g', n)" "wrote opened c bs ?g f g' f'"
    "fb_currentPos (fb g' c) = fb_currentPos (fb ?g c) + n" by blast
  have "custom_fwrite dev sp g = (g', Ret n)"
    using c wr(1) 1(1) unfolding custom_fwrite_def Let_def assms(2) ce_handle(2) [OF c] assms(3) [symmetric]
    by (simp add: ce_handle(1) [OF c] not_le [symmetric] r split: if_splits)
  moreover have "length bs = unat n" by (simp add: assms(4))
  then have "writing_at opened g' c f' (put_at P bs D) (P + unat n)"
    using 1(2,3) wr(1,4) unfolding wrote_def s(2) sm writing_at_def by (simp add: wsame_def)
  ultimately show ?thesis
    using 1(2) others_trans [OF s(3)] by (auto simp: wrote_def)
qed

end

end
