(* ===== verification/GdHost.thy ===== *)
theory GdHost
  imports GdWrite
begin

text \<open>
  The file server of the CosmosEx as the driver meets it: the handlers of
  src/ce_main_app/translated/translateddisk_gemdos.cpp for Fcreate, Fopen, Fread, Fwrite, Fseek, Fclose,
  the transfer count and the distance to the end of file, over the table of open files and the disk, and
  those for directory searches, over the table of find storages. It satisfies the contract the driver's transfer functions
  rely on, so their lemmas hold with it at the other end of the bus.

  A \<open>FILE\<close> of the C library is its content and position, taken from the disk at \<open>fopen\<close> and written back at
  \<open>fclose\<close>; a file is open under one handle at a time. The environment is a parameter: what a path of the
  Atari is on the host (\<open>createFullAtariPathAndFullHostPath\<close> with the read-only flag of its drive), whether
  the C library may open a file for reading or writing, and what a search finds: the status, or the entries
  of 23 bytes, for the attributes and the path. What the server does with any other command is the
  parameter \<open>rest\<close>. A command on a slot without a file, which the
  code would pass to the C library as a null pointer, gets no answer.
\<close>

section \<open>Open files\<close>

record TranslatedFiles =
  hostHandle :: "hfile option"
  atariHandle :: BYTE
  hostPath :: "BYTE list"

definition findFileHandleSlot :: "TranslatedFiles list \<Rightarrow> BYTE \<Rightarrow> nat option" where
  "findFileHandleSlot files h = List.find (\<lambda>i. atariHandle (files ! i) = h) [0..<length files]"

definition host_opened :: "TranslatedFiles list \<Rightarrow> BYTE \<Rightarrow> hfile option" where
  "host_opened files h = (case findFileHandleSlot files h of None \<Rightarrow> None | Some i \<Rightarrow> hostHandle (files ! i))"

definition put_file :: "nat \<Rightarrow> hfile \<Rightarrow> TranslatedFiles list \<Rightarrow> TranslatedFiles list" where
  "put_file i f files = files[i := (files ! i)\<lparr>hostHandle := Some f\<rparr>]"

section \<open>Handlers\<close>

text \<open>
  The answer of a handler: the files, whether there is one, the status and the data. With its slot
  found, a handler works on the file.
\<close>

type_synonym answer = "TranslatedFiles list \<times> bool \<times> BYTE \<times> BYTE list"

definition on_slot :: "TranslatedFiles list \<Rightarrow> BYTE \<Rightarrow> (nat \<Rightarrow> hfile \<Rightarrow> answer) \<Rightarrow> answer" where
  "on_slot files h k = (case findFileHandleSlot files h of None \<Rightarrow> (files, True, E_NOTHANDLED, [])
     | Some i \<Rightarrow> case hostHandle (files ! i) of None \<Rightarrow> (files, False, 0, []) | Some f \<Rightarrow> k i f)"

definition get24bits :: "BYTE list \<Rightarrow> nat \<Rightarrow> nat" where
  "get24bits cmd k = unat (cmd ! k) * 65536 + unat (cmd ! (k + 1)) * 256 + unat (cmd ! (k + 2))"

text \<open>\<open>fseek\<close>: it fails before the start and where a 32 bit \<open>long\<close> could not tell the position.\<close>

definition host_fseek :: "int \<Rightarrow> hfile \<Rightarrow> hfile option" where
  "host_fseek t f = (if 0 \<le> t \<and> t < 2147483648 then Some (f\<lparr>hf_pos := nat t\<rparr>) else None)"

definition getByteCountToEOF :: "hfile \<Rightarrow> DWORD" where
  "getByteCountToEOF f = of_nat (length (hf_data f)) - of_nat (hf_pos f)"

definition onFread :: "BYTE list \<Rightarrow> TranslatedFiles list \<Rightarrow> answer" where
  "onFread cmd files =
     (let byteCount = get24bits cmd 6; seekOffset = sint (cmd ! 9)
      in on_slot files (cmd ! 5) (\<lambda>i f.
           if byteCount > 254 * 512 then (files, True, EINTRN, [])
           else case if seekOffset \<noteq> 0 then host_fseek (int (hf_pos f) + seekOffset) f else Some f of
                  None \<Rightarrow> (files, True, EINTRN, [])
                | Some f \<Rightarrow>
                    let pad = (16 - byteCount mod 16) mod 16;
                        got = take (byteCount + pad) (drop (hf_pos f) (hf_data f));
                        files = put_file i (f\<lparr>hf_pos := hf_pos f + length got, hf_last := length got\<rparr>) files
                    in (files, True, if length got = byteCount then RW_ALL_TRANSFERED else RW_PARTIAL_TRANSFER, pad16 got)))"

definition onFwrite :: "BYTE list \<Rightarrow> BYTE list \<Rightarrow> TranslatedFiles list \<Rightarrow> answer" where
  "onFwrite cmd data files =
     (let byteCount = get24bits cmd 6
      in on_slot files (cmd ! 5) (\<lambda>i f.
           if byteCount > 254 * 512 then (files, True, EINTRN, [])
           else if length data < byteCount + (16 - byteCount mod 16) mod 16 then (files, True, EINTRN, [])
           else let n = (if hf_writable f then byteCount else 0);
                    f = f\<lparr>hf_data := put_at (hf_pos f) (take n data) (hf_data f), hf_pos := hf_pos f + n, hf_last := n\<rparr>
                in (put_file i f files, True, if n = byteCount then RW_ALL_TRANSFERED else RW_PARTIAL_TRANSFER, [])))"

definition onRWDataCount :: "BYTE list \<Rightarrow> TranslatedFiles list \<Rightarrow> answer" where
  "onRWDataCount cmd files =
     on_slot files (cmd ! 5) (\<lambda>i f. (files, True, E_OK, pad16 (be32_bytes (of_nat (hf_last f)))))"

definition onFseek :: "BYTE list \<Rightarrow> TranslatedFiles list \<Rightarrow> answer" where
  "onFseek cmd files =
     on_slot files (cmd ! 9) (\<lambda>i f.
       case host_fseek (seek_target f (getDword cmd 5) (cmd ! 10)) f of
         None \<Rightarrow> (files, True, EINTRN, [])
       | Some f \<Rightarrow> (put_file i f files, True, E_OK,
                     pad16 (be32_bytes (of_nat (hf_pos f)) @ be32_bytes (getByteCountToEOF f))))"

definition getByteCountToEndOfFile :: "BYTE list \<Rightarrow> TranslatedFiles list \<Rightarrow> answer" where
  "getByteCountToEndOfFile cmd files =
     on_slot files (cmd ! 5) (\<lambda>i f. (files, True, E_OK, pad16 (be32_bytes (getByteCountToEOF f))))"

section \<open>Searches\<close>

record TFindStorage =
  fs_dta :: DWORD
  fs_entries :: "BYTE list list"

text \<open>Storages are allocated when they are needed, at most \<open>MAX_FIND_STORAGES\<close>.\<close>

abbreviation (input) MAX_FIND_STORAGES :: nat where "MAX_FIND_STORAGES \<equiv> 32"

definition getFindStorageIndexByDta :: "TFindStorage list \<Rightarrow> DWORD \<Rightarrow> nat option" where
  "getFindStorageIndexByDta fss dta = List.find (\<lambda>i. fs_dta (fss ! i) = dta) [0..<length fss]"

definition fs_cleared :: TFindStorage where
  "fs_cleared = \<lparr>fs_dta = 0, fs_entries = []\<rparr>"

definition getEmptyFindStorageIndex :: "TFindStorage list \<Rightarrow> (TFindStorage list \<times> nat) option" where
  "getEmptyFindStorageIndex fss =
     (case getFindStorageIndexByDta fss 0 of Some i \<Rightarrow> Some (fss, i)
      | None \<Rightarrow> if length fss < MAX_FIND_STORAGES then Some (fss @ [fs_cleared], length fss) else None)"

type_synonym find_answer = "TFindStorage list \<times> bool \<times> BYTE \<times> BYTE list"

definition onFsfirst :: "(BYTE \<Rightarrow> BYTE list \<Rightarrow> BYTE + BYTE list list) \<Rightarrow> BYTE list \<Rightarrow> TFindStorage list \<Rightarrow> find_answer" where
  "onFsfirst look data fss =
     (if length data < 512 then (fss, True, EINTRN, [])
      else let dta = getDword data 0
           in case look (data ! 4) (takeWhile (\<lambda>x. x \<noteq> 0) (drop 5 data)) of
                Inl st \<Rightarrow> (fss, True, st, [])
              | Inr es \<Rightarrow>
                  if es = [] then (fss, True, EFILNF, [])
                  else case (case getFindStorageIndexByDta fss dta of Some i \<Rightarrow> Some (fss, i) | None \<Rightarrow> getEmptyFindStorageIndex fss) of
                         None \<Rightarrow> (fss, True, EFILNF, [])
                       | Some (fss, i) \<Rightarrow> (fss[i := \<lparr>fs_dta = dta, fs_entries = es\<rparr>], True, E_OK, []))"

text \<open>An index behind the entries makes the count negative; the code would then copy from a wrong place.\<close>

definition onFsnext :: "BYTE list \<Rightarrow> TFindStorage list \<Rightarrow> find_answer" where
  "onFsnext cmd fss =
     (let dirIndex = unat (getWord cmd 9)
      in case getFindStorageIndexByDta fss (getDword cmd 5) of
           None \<Rightarrow> (fss, True, ENMFIL, [])
         | Some i \<Rightarrow>
             let es = fs_entries (fss ! i); dtaSpace = (512 - 2) div 23
             in if length es = dirIndex then (fss[i := fs_cleared], True, ENMFIL, [])
                else if length es < dirIndex then (fss, False, 0, [])
                else let dtaToSend = min (length es - dirIndex) dtaSpace
                     in (fss, True, E_OK, pad16 (be16_bytes (of_nat dtaToSend) @ concat (take dtaToSend (drop dirIndex es)))))"

definition host_onFsnext_last :: "BYTE list \<Rightarrow> TFindStorage list \<Rightarrow> find_answer" where
  "host_onFsnext_last cmd fss =
     (case getFindStorageIndexByDta fss (getDword cmd 5) of
        None \<Rightarrow> (fss, True, EIHNDL, [])
      | Some i \<Rightarrow> (fss[i := fs_cleared], True, E_OK, []))"

section \<open>Creating, opening and closing\<close>

record ce_host =
  h_files :: "TranslatedFiles list"
  h_finds :: "TFindStorage list"
  h_disk :: "BYTE list \<Rightarrow> BYTE list option"

datatype path_result = NotOurs | WaitingForMount | HostPath "BYTE list" bool

record host_env =
  he_look :: "BYTE \<Rightarrow> BYTE list \<Rightarrow> BYTE + BYTE list list"
  he_resolve :: "BYTE list \<Rightarrow> path_result"
  he_fopen :: "BYTE list \<Rightarrow> bool \<Rightarrow> bool"

type_synonym host_answer = "ce_host \<times> bool \<times> BYTE \<times> BYTE list"

definition findEmptyFileSlot :: "TranslatedFiles list \<Rightarrow> nat option" where
  "findEmptyFileSlot files = List.find (\<lambda>i. hostHandle (files ! i) = None) [0..<length files]"

definition pathContainsWildCards :: "BYTE list \<Rightarrow> bool" where
  "pathContainsWildCards path \<longleftrightarrow> (\<exists>x \<in> set (take 2048 path). x = 0x3f \<or> x = 0x2a)"

definition c_string :: "BYTE list \<Rightarrow> BYTE list" where
  "c_string = takeWhile (\<lambda>x. x \<noteq> 0)"

text \<open>A fresh slot; the count of its last transfer, which only follows a transfer, starts at 0.\<close>

definition new_file :: "nat \<Rightarrow> BYTE list \<Rightarrow> bool \<Rightarrow> BYTE list \<Rightarrow> TranslatedFiles list \<Rightarrow> TranslatedFiles list" where
  "new_file i d w path files =
     files[i := \<lparr>hostHandle = Some \<lparr>hf_data = d, hf_pos = 0, hf_last = 0, hf_writable = w\<rparr>,
                 atariHandle = of_nat i, hostPath = path\<rparr>]"

definition onFcreate :: "host_env \<Rightarrow> BYTE list \<Rightarrow> ce_host \<Rightarrow> host_answer" where
  "onFcreate env data h =
     (if length data < 512 then (h, True, EINTRN, [])
      else if pathContainsWildCards (c_string (drop 1 data)) then (h, True, EACCDN, [])
      else case he_resolve env (c_string (drop 1 data)) of
             NotOurs \<Rightarrow> (h, True, E_NOTHANDLED, [])
           | WaitingForMount \<Rightarrow> (h, True, E_WAITING_FOR_MOUNT, [])
           | HostPath path readOnly \<Rightarrow>
               if readOnly then (h, True, EACCDN, [])
               else case findEmptyFileSlot (h_files h) of
                      None \<Rightarrow> (h, True, ENHNDL, [])
                    | Some i \<Rightarrow>
                        if \<not> he_fopen env path True then (h, True, EACCDN, [])
                        else (h\<lparr>h_disk := (h_disk h)(path \<mapsto> []), h_files := new_file i [] True path (h_files h)\<rparr>,
                              True, of_nat i, []))"

definition onFopen :: "host_env \<Rightarrow> BYTE list \<Rightarrow> ce_host \<Rightarrow> host_answer" where
  "onFopen env data h =
     (if length data < 512 then (h, True, EINTRN, [])
      else let mode = data ! 0 AND 7
           in case he_resolve env (c_string (drop 1 data)) of
                NotOurs \<Rightarrow> (h, True, E_NOTHANDLED, [])
              | WaitingForMount \<Rightarrow> (h, True, E_WAITING_FOR_MOUNT, [])
              | HostPath path readOnly \<Rightarrow>
                  if mode \<noteq> 0 \<and> readOnly then (h, True, EACCDN, [])
                  else case findEmptyFileSlot (h_files h) of
                         None \<Rightarrow> (h, True, ENHNDL, [])
                       | Some i \<Rightarrow>
                           let justRead = (mode \<noteq> 1 \<and> mode \<noteq> 2)
                           in case h_disk h path of
                                None \<Rightarrow> (h, True, if justRead then EFILNF else EACCDN, [])
                              | Some d \<Rightarrow>
                                  if \<not> he_fopen env path (\<not> justRead) then (h, True, EACCDN, [])
                                  else (h\<lparr>h_files := new_file i d (\<not> justRead) path (h_files h)\<rparr>, True, of_nat i, []))"

definition onFclose :: "BYTE list \<Rightarrow> BYTE list \<Rightarrow> ce_host \<Rightarrow> host_answer" where
  "onFclose cmd data h =
     (case findFileHandleSlot (h_files h) (cmd ! 5) of
        None \<Rightarrow> (h, True, E_NOTHANDLED, [])
      | Some i \<Rightarrow>
          if length data < 16 then (h, True, EINTRN, [])
          else case hostHandle (h_files h ! i) of
                 None \<Rightarrow> (h, False, 0, [])
               | Some f \<Rightarrow>
                   (h\<lparr>h_disk := (if hf_writable f then (h_disk h)(hostPath (h_files h ! i) \<mapsto> hf_data f) else h_disk h),
                      h_files := (h_files h)[i := \<lparr>hostHandle = None, atariHandle = EIHNDL, hostPath = []\<rparr>]\<rparr>,
                    True, E_OK, []))"

section \<open>The dispatcher\<close>

definition files_answer :: "ce_host \<Rightarrow> answer \<Rightarrow> host_answer" where
  "files_answer h a = (case a of (fs, r) \<Rightarrow> (h\<lparr>h_files := fs\<rparr>, r))"

definition finds_answer :: "ce_host \<Rightarrow> find_answer \<Rightarrow> host_answer" where
  "finds_answer h a = (case a of (fs, r) \<Rightarrow> (h\<lparr>h_finds := fs\<rparr>, r))"

text \<open>An ICD command carries one byte before the six.\<close>

definition host_dev :: "host_env \<Rightarrow> ce_host device \<Rightarrow> ce_host device" where
  "host_dev env rest h rd cmd data n =
     (let pCmd = (if cmd ! 0 AND 0x1f = 0x1f then drop 1 cmd else cmd); fn = pCmd ! 4
      in if pCmd ! 1 \<noteq> 0x43 \<or> pCmd ! 2 \<noteq> 0x45 \<or> pCmd ! 3 \<noteq> 3 then rest h rd cmd data n
         else if fn = 0x4e then finds_answer h (onFsfirst (he_look env) data (h_finds h))
         else if fn = 0x4f then finds_answer h (onFsnext pCmd (h_finds h))
         else if fn = 0x3c then onFcreate env data h
         else if fn = 0x3d then onFopen env data h
         else if fn = 0x3e then onFclose pCmd data h
         else if fn = 0x3f then files_answer h (onFread pCmd (h_files h))
         else if fn = 0x40 then files_answer h (onFwrite pCmd data (h_files h))
         else if fn = 0x42 then files_answer h (onFseek pCmd (h_files h))
         else if fn = 0x63 then files_answer h (onRWDataCount pCmd (h_files h))
         else if fn = 0x64 then finds_answer h (host_onFsnext_last pCmd (h_finds h))
         else if fn = 0x65 then files_answer h (getByteCountToEndOfFile pCmd (h_files h))
         else rest h rd cmd data n)"

definition host_file :: "ce_host \<Rightarrow> BYTE \<Rightarrow> hfile option" where
  "host_file h = host_opened (h_files h)"

section \<open>The contract\<close>

lemma find_slot:
  assumes "findFileHandleSlot files h = Some i"
  shows "i < length files" and "atariHandle (files ! i) = h"
  using assms by (auto simp: findFileHandleSlot_def find_Some_iff)

lemma host_openedD:
  assumes "host_opened files h = Some f"
  obtains i where "findFileHandleSlot files h = Some i" "i < length files" "hostHandle (files ! i) = Some f"
proof -
  from assms obtain i where "findFileHandleSlot files h = Some i" "hostHandle (files ! i) = Some f"
    by (auto simp: host_opened_def split: option.splits)
  with find_slot(1) that show thesis by blast
qed

lemma on_slot_opened:
  assumes "host_opened files h = Some f"
  shows "\<exists>i. findFileHandleSlot files h = Some i \<and> (\<forall>k. on_slot files h k = k i f)"
  using assms by (auto simp: host_opened_def on_slot_def split: option.splits)

lemma atari_update: "i < length files \<Longrightarrow> atariHandle (files[i := (files ! i)\<lparr>hostHandle := x\<rparr>] ! j) = atariHandle (files ! j)"
  by (cases "i = j") simp_all

lemma put_file_opened:
  assumes "findFileHandleSlot files h = Some i"
  shows "host_opened (put_file i f files) = (host_opened files)(h \<mapsto> f)"
proof (rule ext)
  fix k
  note i = find_slot [OF assms]
  have s: "findFileHandleSlot (put_file i f files) k = findFileHandleSlot files k"
    by (simp add: findFileHandleSlot_def put_file_def atari_update i)
  show "host_opened (put_file i f files) k = ((host_opened files)(h \<mapsto> f)) k"
  proof (cases "k = h")
    case True
    with assms s i show ?thesis by (simp add: host_opened_def put_file_def)
  next
    case False
    then have "j \<noteq> i" if "findFileHandleSlot files k = Some j" for j using that i(2) find_slot(2) by blast
    with False s show ?thesis by (auto simp: host_opened_def put_file_def split: option.splits)
  qed
qed

lemma getDword_drop: "k + 4 < length cmd \<Longrightarrow> getDword (drop 1 cmd) k = getDword cmd (k + 1)"
  by (simp add: getDword_def)

lemma long_pCmd:
  assumes "long_cmd fn cmd"
  shows "drop 1 cmd ! 1 = 0x43" "drop 1 cmd ! 2 = 0x45" "drop 1 cmd ! 3 = 3" "drop 1 cmd ! 4 = fn" "cmd ! 0 AND 0x1f = 0x1f"
  using assms by (simp_all add: long_cmd_def flip: numeral_2_eq_2 numeral_3_eq_3)

lemmas host_cmd_defs = Let_def files_answer_def host_file_def long_cmd_def short_cmd_def host_dev_def count24_def get24bits_def

interpretation host: file_server "host_dev env rest" host_file for env rest
proof (unfold_locales, goal_cases)
  case (1 cmd h f q got d s)
  obtain i where i: "findFileHandleSlot (h_files h) (cmd ! 6) = Some i" "\<forall>k. on_slot (h_files h) (cmd ! 6) k = k i f"
    using on_slot_opened [OF 1(2) [unfolded host_file_def]] by blast
  have l: "length cmd = 13" and c: "get24bits (drop 1 cmd) 6 = count24 cmd" using 1(1) by (simp_all add: host_cmd_defs)
  have "host_dev env rest h True cmd d s = files_answer h (onFread (drop 1 cmd) (h_files h))" using long_pCmd [OF 1(1)] by (simp only: host_dev_def Let_def) simp
  moreover have "(if sint (cmd ! 10) \<noteq> 0 then host_fseek (int (hf_pos f) + sint (cmd ! 10)) f else Some f) = Some (f\<lparr>hf_pos := q\<rparr>)"
    using 1(5-7) by (auto simp: host_fseek_def)
  ultimately have "host_dev env rest h True cmd d s =
      files_answer h (put_file i (f\<lparr>hf_pos := q + length got, hf_last := length got\<rparr>) (h_files h), True,
       if length got = count24 cmd then RW_ALL_TRANSFERED else RW_PARTIAL_TRANSFER, pad16 got)"
    using l i 1(3,4,8) unfolding onFread_def c by (simp add: Let_def)
  then show ?case by (simp add: put_file_opened [OF i(1)] files_answer_def host_file_def)
next
  case (2 cmd h f d s)
  obtain i where i: "findFileHandleSlot (h_files h) (cmd ! 6) = Some i" "\<forall>k. on_slot (h_files h) (cmd ! 6) k = k i f"
    using on_slot_opened [OF 2(2) [unfolded host_file_def]] by blast
  have l: "length cmd = 13" and c: "get24bits (drop 1 cmd) 6 = count24 cmd" using 2(1) by (simp_all add: host_cmd_defs)
  have "host_dev env rest h False cmd d s = files_answer h (onFwrite (drop 1 cmd) d (h_files h))" using long_pCmd [OF 2(1)] by (simp only: host_dev_def Let_def) simp
  then show ?case
    using l i 2(3-5) put_file_opened [OF i(1)] unfolding onFwrite_def c by (simp add: Let_def files_answer_def host_file_def)
next
  case (3 cmd h f d s)
  then show ?case by (auto simp: host_cmd_defs onRWDataCount_def host_opened_def on_slot_def split: option.splits)
next
  case (4 cmd h f d s)
  then show ?case
    by (auto simp: host_cmd_defs getByteCountToEndOfFile_def getByteCountToEOF_def to_eof_def host_opened_def on_slot_def split: option.splits)
next
  case (5 cmd h f t g d s)
  obtain i where i: "findFileHandleSlot (h_files h) (cmd ! 10) = Some i" "\<forall>k. on_slot (h_files h) (cmd ! 10) k = k i f"
    using on_slot_opened [OF 5(2) [unfolded host_file_def]] by blast
  have l: "length cmd = 13" using 5(1) by (simp add: host_cmd_defs)
  have e: "getDword (drop (Suc 0) cmd) 5 = getDword cmd 6" using getDword_drop [of 5 cmd] l by simp
  have "host_dev env rest h True cmd d s = files_answer h (onFseek (drop 1 cmd) (h_files h))" using long_pCmd [OF 5(1)] by (simp only: host_dev_def Let_def) simp
  then show ?case
    using l i 5(3-6) put_file_opened [OF i(1)]
    by (simp add: files_answer_def host_file_def onFseek_def e host_fseek_def getByteCountToEOF_def to_eof_def)
qed

end
