(* ===== verification/GdDirs.thy ===== *)
theory GdDirs
  imports GdHost
begin

text \<open>
  The drives (src/ce_dd_prg/bios.c and the helpers at the end of gemdos.c) and the GEMDOS functions on
  drives and paths (first part of gemdos.c).

  \<open>isOurDrive\<close> may ask the host for the drives, so it changes the state. A call of the operating
  system's own function for its result, not as the end of a handler, is a parameter.
\<close>

section \<open>Drives of the CosmosEx (bios.c)\<close>

abbreviation (input) HZ_200 :: DWORD where "HZ_200 \<equiv> 0x4ba"

definition unhandled :: "'h gd \<Rightarrow> bool" where
  "unhandled g \<longleftrightarrow> \<not> hd_success (hdIf g) \<or> hd_status (hdIf g) = E_NOTHANDLED"

definition updateCeDrives :: "'h device \<Rightarrow> 'h gd \<Rightarrow> 'h gd" where
  "updateCeDrives dev g =
     (let now = rd32 (gd_ram g) HZ_200
      in if now - lastCeDrivesUpdate g < 600 then g
         else let g = hd_read_short dev (set_short 0x70 0 (g\<lparr>lastCeDrivesUpdate := now\<rparr>))
              in if unhandled g then g else g\<lparr>ceDrives := getWord (pDmaBuffer g) 0\<rparr>)"

definition updateCeMediach :: "'h device \<Rightarrow> 'h gd \<Rightarrow> 'h gd" where
  "updateCeMediach dev g =
     (let now = rd32 (gd_ram g) HZ_200
      in if now - lastMediachUpdate g < 600 then g
         else let g = hd_read_short dev (set_short 0x71 0 (g\<lparr>lastMediachUpdate := now\<rparr>))
              in if unhandled g then g else g\<lparr>ceMediach := getWord (pDmaBuffer g) 0\<rparr>)"

definition isOurDrive :: "'h device \<Rightarrow> WORD \<Rightarrow> bool \<Rightarrow> 'h gd \<Rightarrow> 'h gd \<times> bool" where
  "isOurDrive dev drive withCurrentDrive g =
     (let drive = (if withCurrentDrive then if drive = 0 then ucast (currentDrive g) else drive - 1 else drive)
      in if drive > 15 then (g, False)
         else if drive < 2 then (g, False)
         else let g = updateCeDrives dev g
              in (g, ceDrives g AND push_bit (unat drive) 1 \<noteq> 0))"

definition getDriveFromPath :: "DWORD \<Rightarrow> 'h gd \<Rightarrow> WORD" where
  "getDriveFromPath path g =
     (if strlen (gd_ram g) path < 3 then ucast (currentDrive g)
      else if gd_ram g (path + 1) \<noteq> 0x3a then ucast (currentDrive g)
      else let letter = gd_ram g path
           in if letter \<ge> 0x61 \<and> letter \<le> 0x7a then ucast (letter - 0x61)
              else if letter \<ge> 0x41 \<and> letter \<le> 0x5a then ucast (letter - 0x41)
              else ucast (currentDrive g))"

definition custom_mediach :: "'h device \<Rightarrow> DWORD \<Rightarrow> 'h gd \<Rightarrow> 'h gd \<times> gd_result" where
  "custom_mediach dev sp g =
     (let drive = rd16 (gd_ram g) sp;
          (g, ours) = isOurDrive dev drive False (updateCeDrives dev g)
      in if \<not> ours then (g, CALL_OLD_GD (Mediach drive))
         else let g = updateCeMediach dev g
              in (g, Ret (if ceMediach g AND push_bit (unat drive) 1 \<noteq> 0 then 2 else 0)))"

definition custom_drvmap :: "'h device \<Rightarrow> DWORD \<Rightarrow> 'h gd \<Rightarrow> 'h gd \<times> DWORD" where
  "custom_drvmap dev oldDrvmap g = (let g = updateCeDrives dev g in (g, oldDrvmap OR ucast (ceDrives g)))"

text \<open>The static \<open>bpb\<close> has an address.\<close>

definition custom_getbpb :: "'h device \<Rightarrow> DWORD \<Rightarrow> DWORD \<Rightarrow> 'h gd \<Rightarrow> 'h gd \<times> gd_result" where
  "custom_getbpb dev bpb sp g =
     (let drive = rd16 (gd_ram g) sp;
          (g, ours) = isOurDrive dev drive False (updateCeDrives dev g)
      in if \<not> ours then (g, CALL_OLD_GD (Getbpb drive))
         else let g = g\<lparr>ceMediach := ceMediach g AND NOT (push_bit (unat drive) 1)\<rparr>;
                  g = hd_read_short dev (set_short 0x72 (ucast drive) g)
              in if unhandled g then (g, CALL_OLD_GD (Getbpb drive))
                 else let g = g\<lparr>ceMediach := ceMediach g AND NOT (push_bit (unat drive) 1)\<rparr>
                      in (g\<lparr>gd_ram := mem_put (gd_ram g) bpb (take 18 (pDmaBuffer g))\<rparr>, Ret bpb))"

section \<open>Drive and path functions (gemdos.c)\<close>

definition custom_dgetdrv :: "'h device \<Rightarrow> DWORD \<Rightarrow> 'h gd \<Rightarrow> 'h gd \<times> gd_result" where
  "custom_dgetdrv dev oldDgetdrv g =
     (let (g, ours) = isOurDrive dev (ucast (currentDrive g)) False g;
          g = (if ours then g else g\<lparr>currentDrive := ucast oldDgetdrv\<rparr>)
      in (g, Ret (ucast (currentDrive g))))"

text \<open>The last result says whether the operating system's \<open>Dsetdrv\<close> was called.\<close>

definition custom_dsetdrv :: "'h device \<Rightarrow> DWORD \<Rightarrow> DWORD \<Rightarrow> 'h gd \<Rightarrow> 'h gd \<times> gd_result \<times> bool" where
  "custom_dsetdrv dev oldDrvmap sp g =
     (let drive = rd16 (gd_ram g) sp;
          change = (forceSetdrv g \<or> ucast drive \<noteq> currentDrive g);
          g = (if change
               then (hd_read_short dev (set_short 0x0e (ucast drive) (g\<lparr>currentDrive := ucast drive\<rparr>)))\<lparr>forceSetdrv := False\<rparr>
               else g);
          (g, res) = custom_drvmap dev oldDrvmap g
      in (g, Ret res, change))"

text \<open>The end of most handlers: the status byte, or the old function.\<close>

definition status_or :: "gd_call \<Rightarrow> 'h gd \<Rightarrow> 'h gd \<times> gd_result" where
  "status_or call g = (if unhandled g then (g, CALL_OLD_GD call) else (g, Ret (extendByteToDword (hd_status (hdIf g)))))"

definition custom_dfree :: "'h device \<Rightarrow> DWORD \<Rightarrow> 'h gd \<Rightarrow> 'h gd \<times> gd_result" where
  "custom_dfree dev sp g =
     (let pDiskInfo = rd32 (gd_ram g) sp;
          drive = rd16 (gd_ram g) (sp + 4);
          (g, ours) = isOurDrive dev drive True g
      in if \<not> ours then (g, CALL_OLD_GD (Dfree pDiskInfo drive))
         else let g = hd_read_short dev (set_short 0x36 (ucast drive) g)
              in if unhandled g then (g, CALL_OLD_GD (Dfree pDiskInfo drive))
                 else (g\<lparr>gd_ram := mem_put (gd_ram g) pDiskInfo (take 16 (pDmaBuffer g))\<rparr>,
                       Ret (extendByteToDword (hd_status (hdIf g)))))"

text \<open>Clearing the buffer and copying a path into it.\<close>

definition put_path :: "DWORD \<Rightarrow> 'h gd \<Rightarrow> 'h gd" where
  "put_path path g =
     g\<lparr>pDmaBuffer := overwrite (replicate DMA_BUFFER_SIZE 0) (strncpy_bytes (gd_ram g) path DMA_BUFFER_SIZE)\<rparr>"

text \<open>\<open>custom_dcreate\<close>, \<open>custom_ddelete\<close> and \<open>custom_fdelete\<close> differ in the function number only.\<close>

definition path_call :: "'h device \<Rightarrow> BYTE \<Rightarrow> (DWORD \<Rightarrow> gd_call) \<Rightarrow> DWORD \<Rightarrow> 'h gd \<Rightarrow> 'h gd \<times> gd_result" where
  "path_call dev fn old sp g =
     (let pPath = rd32 (gd_ram g) sp;
          (g, ours) = isOurDrive dev (getDriveFromPath pPath g) False g
      in if \<not> ours then (g, CALL_OLD_GD (old pPath))
         else status_or (old pPath) (hd_write_short dev (put_path pPath (set_short fn 0 g))))"

definition custom_dcreate :: "'h device \<Rightarrow> DWORD \<Rightarrow> 'h gd \<Rightarrow> 'h gd \<times> gd_result" where
  "custom_dcreate dev = path_call dev 0x39 Dcreate"

definition custom_ddelete :: "'h device \<Rightarrow> DWORD \<Rightarrow> 'h gd \<Rightarrow> 'h gd \<times> gd_result" where
  "custom_ddelete dev = path_call dev 0x3a Ddelete"

definition custom_fdelete :: "'h device \<Rightarrow> DWORD \<Rightarrow> 'h gd \<Rightarrow> 'h gd \<times> gd_result" where
  "custom_fdelete dev = path_call dev 0x41 Fdelete"

text \<open>
  \<open>custom_dsetpath\<close> asks again for as long as the host waits for a mount, so it may not return. The wait
  symbol on the console and the pause are not modelled.
\<close>

partial_function (option) dsetpath_loop :: "'h device \<Rightarrow> 'h gd \<Rightarrow> 'h gd option" where
  "dsetpath_loop dev g =
     (let g = hd_write_short dev g
      in if hd_success (hdIf g) \<and> hd_status (hdIf g) = E_WAITING_FOR_MOUNT then dsetpath_loop dev g
         else Some g)"

definition custom_dsetpath :: "'h device \<Rightarrow> DWORD \<Rightarrow> 'h gd \<Rightarrow> ('h gd \<times> gd_result) option" where
  "custom_dsetpath dev sp g =
     (let pPath = rd32 (gd_ram g) sp;
          (g, ours) = isOurDrive dev (getDriveFromPath pPath g) False g
      in if \<not> ours then Some (g, CALL_OLD_GD (Dsetpath pPath))
         else map_option (status_or (Dsetpath pPath)) (dsetpath_loop dev (put_path pPath (set_short 0x3b 0 g))))"

text \<open>\<open>strncpy\<close> from a buffer of the driver.\<close>

definition string_of :: "BYTE list \<Rightarrow> BYTE list" where
  "string_of xs = (let s = takeWhile (\<lambda>x. x \<noteq> 0) xs in if length s < length xs then s @ [0] else s)"

definition custom_dgetpath :: "'h device \<Rightarrow> DWORD \<Rightarrow> 'h gd \<Rightarrow> 'h gd \<times> gd_result" where
  "custom_dgetpath dev sp g =
     (let buffer = rd32 (gd_ram g) sp;
          drive = rd16 (gd_ram g) (sp + 4);
          (g, ours) = isOurDrive dev drive True g
      in if \<not> ours then (g, CALL_OLD_GD (Dgetpath buffer drive))
         else let g = hd_read_short dev (set_short 0x47 (ucast drive) g)
              in if unhandled g then (g, CALL_OLD_GD (Dgetpath buffer drive))
                 else (g\<lparr>gd_ram := mem_put (gd_ram g) buffer (string_of (pDmaBuffer g))\<rparr>,
                       Ret (extendByteToDword (hd_status (hdIf g)))))"

definition custom_frename :: "'h device \<Rightarrow> DWORD \<Rightarrow> 'h gd \<Rightarrow> 'h gd \<times> gd_result" where
  "custom_frename dev sp g =
     (let oldName = rd32 (gd_ram g) (sp + 2);
          newName = rd32 (gd_ram g) (sp + 6);
          (g, ours) = isOurDrive dev (getDriveFromPath oldName g) False g
      in if \<not> ours then (g, CALL_OLD_GD (Frename oldName newName))
         else let g = set_short 0x56 0 g;
                  buf = overwrite (replicate DMA_BUFFER_SIZE 0) (strncpy_bytes (gd_ram g) oldName (DMA_BUFFER_SIZE div 2 - 2));
                  oldLen = strlen_buf buf;
                  buf = buf_put buf (oldLen + 1) (strncpy_bytes (gd_ram g) newName (DMA_BUFFER_SIZE div 2 - 2))
              in status_or (Frename oldName newName) (hd_write_short dev (g\<lparr>pDmaBuffer := buf\<rparr>)))"

text \<open>
  In \<open>custom_fattrib\<close> and \<open>custom_fsfirst\<close> the copied name can be longer than the room behind the first
  bytes of the buffer.
\<close>

definition custom_fattrib :: "'h device \<Rightarrow> DWORD \<Rightarrow> 'h gd \<Rightarrow> 'h gd \<times> gd_result" where
  "custom_fattrib dev sp g =
     (let fileName = rd32 (gd_ram g) sp;
          flag = rd16 (gd_ram g) (sp + 4);
          attr = rd16 (gd_ram g) (sp + 6);
          (g, ours) = isOurDrive dev (getDriveFromPath fileName g) False g
      in if \<not> ours then (g, CALL_OLD_GD (Fattrib fileName flag attr))
         else let g = set_short 0x43 0 g;
                  name = strncpy_bytes (gd_ram g) fileName (DMA_BUFFER_SIZE - 1);
                  buf = (replicate DMA_BUFFER_SIZE 0)[0 := ucast flag, 1 := ucast attr]
              in if 2 + length name > DMA_BUFFER_SIZE then (g, OutOfBounds)
                 else status_or (Fattrib fileName flag attr) (hd_write_short dev (g\<lparr>pDmaBuffer := buf_put buf 2 name\<rparr>)))"

text \<open>\<open>sendStLog\<close> of the driver's log, with the text given as bytes.\<close>

definition sendStLog :: "'h device \<Rightarrow> BYTE list \<Rightarrow> 'h gd \<Rightarrow> 'h gd" where
  "sendStLog dev text g =
     (let g = set_short 0x85 0 g
      in hd_write_short dev (g\<lparr>pDmaBuffer := overwrite (pDmaBuffer g) (take 512 (string_of (text @ [0])))\<rparr>))"

end
