(* ===== verification/GdFiles.thy ===== *)
theory GdFiles
  imports GdDirs
begin

text \<open>
  The GEMDOS functions that search directories and those on file handles (second part of
  src/ce_dd_prg/gemdos.c). \<open>Fgetdta\<close>, the operating system's current DTA, is \<open>tosDta\<close>.
\<close>

section \<open>Searching\<close>

definition poke :: "DWORD \<Rightarrow> BYTE list \<Rightarrow> 'h gd \<Rightarrow> 'h gd" where
  "poke a xs g = g\<lparr>gd_ram := mem_put (gd_ram g) a xs\<rparr>"

text \<open>\<open>(*hdIf.cmd)(ACSI_READ, commandLong, CMD_LENGTH_LONG, pDtaBuffer, 1)\<close>\<close>

definition hd_read_dta :: "'h device \<Rightarrow> 'h gd \<Rightarrow> 'h gd" where
  "hd_read_dta dev g =
     (let (g, ds) = hddIfCmd_withRetries_lock dev ACSI_READ (commandLong g) (pDtaBuffer g) 1 g
      in g\<lparr>pDtaBuffer := overwrite (pDtaBuffer g) ds\<rparr>)"

definition custom_fsetdta :: "DWORD \<Rightarrow> 'h gd \<Rightarrow> 'h gd \<times> gd_result" where
  "custom_fsetdta sp g = (let p = rd32 (gd_ram g) sp in (g\<lparr>pDta := p, tosDta := p\<rparr>, Ret 0))"

definition onFsnext_last :: "'h device \<Rightarrow> 'h gd \<Rightarrow> 'h gd" where
  "onFsnext_last dev g =
     (let p = mem_get (gd_ram g) (pDta g) 4
      in hd_read_dta dev (g\<lparr>commandLong := (commandLong g)[5 := 0x64, 6 := p ! 0, 7 := p ! 1, 8 := p ! 2, 9 := p ! 3]\<rparr>))"

text \<open>The result is true for \<open>E_OK\<close> and false for \<open>ENMFIL\<close>.\<close>

definition getNextDTAsFromHost :: "'h device \<Rightarrow> 'h gd \<Rightarrow> 'h gd \<times> bool" where
  "getNextDTAsFromHost dev g =
     (let g = poke (pDta g + 8) [0, 0] (poke (pDta g + 6) [0, 0] g);
          p = mem_get (gd_ram g) (pDta g) 6;
          g = g\<lparr>commandLong := (commandLong g)[5 := 0x4f, 6 := p ! 0, 7 := p ! 1, 8 := p ! 2, 9 := p ! 3, 10 := p ! 4, 11 := p ! 5]\<rparr>;
          g = hd_read_dta dev (g\<lparr>dtaBufferValidForPDta := pDta g\<rparr>)
      in if \<not> hd_success (hdIf g) \<or> hd_status (hdIf g) \<noteq> E_OK then (g, False)
         else (poke (pDta g + 8) [pDtaBuffer g ! 0, pDtaBuffer g ! 1] g, True))"

text \<open>Telling the host that a search is over.\<close>

definition no_more :: "'h device \<Rightarrow> 'h gd \<Rightarrow> 'h gd \<times> gd_result" where
  "no_more dev g = (onFsnext_last dev g, Ret (extendByteToDword ENMFIL))"

definition no_more_stop :: "'h device \<Rightarrow> 'h gd \<Rightarrow> 'h gd \<times> gd_result" where
  "no_more_stop dev g = (let g = onFsnext_last dev g in (poke (pDta g + 10) [0] g, Ret (extendByteToDword ENMFIL)))"

text \<open>The next DTA from the buffer to the Atari.\<close>

definition copy_dta :: "'h device \<Rightarrow> 'h gd \<Rightarrow> 'h gd \<times> gd_result" where
  "copy_dta dev g =
     (let dtaCurrent = rd16 (gd_ram g) (pDta g + 6);
          dtaTotal = rd16 (gd_ram g) (pDta g + 8)
      in if dtaCurrent \<ge> dtaTotal then no_more dev g
         else let dtaOffset = 2 + 23 * unat dtaCurrent
              in if dtaOffset + 23 > length (pDtaBuffer g) then (g, OutOfBounds)
                 else let g = poke (pDta g + 6) (be16_bytes (dtaCurrent + 1)) g;
                          itemIndex = rd16 (gd_ram g) (pDta g + 4) + 1;
                          g = poke (pDta g + 4) (be16_bytes itemIndex) g
                      in (poke (pDta g + 21) (take 23 (drop dtaOffset (pDtaBuffer g))) g, Ret 0))"

definition copyNextDtaToAtari :: "'h device \<Rightarrow> 'h gd \<Rightarrow> 'h gd \<times> gd_result" where
  "copyNextDtaToAtari dev g =
     (let g = g\<lparr>pDta := tosDta g\<rparr>;
          dtaCurrent = rd16 (gd_ram g) (pDta g + 6);
          dtaTotal = rd16 (gd_ram g) (pDta g + 8)
      in if dtaCurrent \<ge> dtaTotal
         then if gd_ram g (pDta g + 10) = 0 then no_more dev g
              else let (g, ok) = getNextDTAsFromHost dev g
                   in if \<not> ok then no_more_stop dev g else copy_dta dev g
         else copy_dta dev g)"

definition ext_result :: "'h gd \<times> gd_result \<Rightarrow> 'h gd \<times> gd_result" where
  "ext_result r = (case snd r of Ret x \<Rightarrow> (fst r, Ret (extendByteToDword (ucast x))) | _ \<Rightarrow> r)"

definition custom_fsfirst :: "'h device \<Rightarrow> DWORD \<Rightarrow> 'h gd \<Rightarrow> 'h gd \<times> gd_result" where
  "custom_fsfirst dev sp g =
     (let fspec = rd32 (gd_ram g) sp;
          attribs = rd16 (gd_ram g) (sp + 4);
          (g, ours) = isOurDrive dev (getDriveFromPath fspec g) False g
      in if \<not> ours then (g\<lparr>fsnextIsForUs := False\<rparr>, CALL_OLD_GD (Fsfirst fspec attribs))
         else let g = g\<lparr>fsnextIsForUs := True, pDta := tosDta g\<rparr>;
                  g = poke (pDta g) (be32_bytes (pDta g) @ [0, 0, 0, 0, 0, 0, 1]) g;
                  g = set_short 0x4e 0 g;
                  name = strncpy_bytes (gd_ram g) fspec (DMA_BUFFER_SIZE - 1);
                  buf = overwrite (pDmaBuffer g) (mem_get (gd_ram g) (pDta g) 4 @ [ucast attribs])
              in if 5 + length name > DMA_BUFFER_SIZE then (g, OutOfBounds)
                 else let g = hd_write_short dev (g\<lparr>pDmaBuffer := buf_put buf 5 name\<rparr>)
                      in if unhandled g then (g\<lparr>fsnextIsForUs := False\<rparr>, CALL_OLD_GD (Fsfirst fspec attribs))
                         else if hd_status (hdIf g) \<noteq> E_OK then (g, Ret (extendByteToDword (hd_status (hdIf g))))
                         else ext_result (copyNextDtaToAtari dev g))"

definition custom_fsnext :: "'h device \<Rightarrow> 'h gd \<Rightarrow> 'h gd \<times> gd_result" where
  "custom_fsnext dev g =
     (if \<not> fsnextIsForUs g then (g, CALL_OLD_GD Fsnext)
      else let g = g\<lparr>pDta := tosDta g\<rparr>
           in if dtaBufferValidForPDta g \<noteq> pDta g
              then let (g, ok) = getNextDTAsFromHost dev g
                   in if \<not> ok then no_more_stop dev g else copyNextDtaToAtari dev g
              else copyNextDtaToAtari dev g)"

section \<open>File handles\<close>

text \<open>The parameters of Fcreate and Fopen: a byte and the name.\<close>

definition put_name :: "WORD \<Rightarrow> DWORD \<Rightarrow> 'h gd \<Rightarrow> 'h gd" where
  "put_name x name g =
     g\<lparr>pDmaBuffer := buf_put ((pDmaBuffer g)[0 := ucast x]) 1 (strncpy_bytes (gd_ram g) name (DMA_BUFFER_SIZE - 1))\<rparr>"

definition custom_fcreate :: "'h device \<Rightarrow> DWORD \<Rightarrow> 'h gd \<Rightarrow> 'h gd \<times> gd_result" where
  "custom_fcreate dev sp g =
     (let fileName = rd32 (gd_ram g) sp;
          attr = rd16 (gd_ram g) (sp + 4);
          (g, ours) = isOurDrive dev (getDriveFromPath fileName g) False g
      in if \<not> ours then (g, CALL_OLD_GD (Fcreate fileName attr))
         else let g = hd_write_short dev (put_name attr fileName (set_short 0x3c 0 g));
                  st = hd_status (hdIf g)
              in if unhandled g then (g, CALL_OLD_GD (Fcreate fileName attr))
                 else if st = ENHNDL \<or> st = EACCDN \<or> st = EINTRN then (g, Ret (extendByteToDword st))
                 else if unat st \<ge> MAX_FILES then (g, Ret (ucast EINTRN))
                 else let c = ucast st :: WORD
                      in (set_fb c ((fb g c)\<lparr>fb_isOpen := True, fb_currentPos := 0\<rparr>) g, Ret (ucast (handleCEtoAtari c))))"

definition custom_fopen :: "'h device \<Rightarrow> DWORD \<Rightarrow> 'h gd \<Rightarrow> 'h gd \<times> gd_result" where
  "custom_fopen dev sp g =
     (let fileName = rd32 (gd_ram g) sp;
          mode = rd16 (gd_ram g) (sp + 4);
          (g, ours) = isOurDrive dev (getDriveFromPath fileName g) False g
      in if \<not> ours then (g, CALL_OLD_GD (Fopen fileName mode))
         else let g = hd_write_short dev (put_name mode fileName (set_short 0x3d 0 g));
                  st = hd_status (hdIf g)
              in if unhandled g then (g, CALL_OLD_GD (Fopen fileName mode))
                 else if st = ENHNDL \<or> st = EACCDN \<or> st = EINTRN \<or> st = EFILNF then (g, Ret (extendByteToDword st))
                 else let c = ucast st :: WORD
                      in if unat c \<ge> MAX_FILES then (g, OutOfBounds)
                         else (getBytesToEof dev c (set_fb c ((fb g c)\<lparr>fb_isOpen := True, fb_currentPos := 0\<rparr>) g),
                               Ret (ucast (handleCEtoAtari c))))"

definition custom_fclose :: "'h device \<Rightarrow> DWORD \<Rightarrow> 'h gd \<Rightarrow> 'h gd \<times> gd_result" where
  "custom_fclose dev sp g =
     (let atariHandle = rd16 (gd_ram g) sp
      in if \<not> handleIsFromCE atariHandle then (g, CALL_OLD_GD (Fclose atariHandle))
         else let c = handleAtariToCE atariHandle
              in if unat c \<ge> MAX_FILES then (g, OutOfBounds)
                 else if \<not> fb_isOpen (fb g c) then (g, Ret (extendByteToDword EIHNDL))
                 else let (g, _) = commitChanges dev c g;
                          g = hd_write_short dev (set_short 0x3e (ucast c) (initFileBuffer c g))
                      in status_or (Fclose atariHandle) g)"

definition fseek_hdif_command :: "'h device \<Rightarrow> DWORD \<Rightarrow> BYTE \<Rightarrow> BYTE \<Rightarrow> 'h gd \<Rightarrow> 'h gd" where
  "fseek_hdif_command dev offset ceHandle seekMode g =
     hd_read_long dev
       (g\<lparr>commandLong := (commandLong g)
           [5 := 0x42, 6 := ucast (drop_bit 24 offset), 7 := ucast (drop_bit 16 offset), 8 := ucast (drop_bit 8 offset),
            9 := ucast offset, 10 := ceHandle, 11 := seekMode]\<rparr>)"

definition fseek_invalSeekStore :: "'h device \<Rightarrow> DWORD \<Rightarrow> WORD \<Rightarrow> BYTE \<Rightarrow> 'h gd \<Rightarrow> 'h gd" where
  "fseek_invalSeekStore dev offset c seekMode g =
     (let g = set_fb c ((fb g c)\<lparr>fb_rCount := 0, fb_rStart := 0\<rparr>) g;
          g = fseek_hdif_command dev offset (ucast c) seekMode g
      in if unhandled g then g
         else if hd_status (hdIf g) \<noteq> E_OK then g
         else set_fb c ((fb g c)\<lparr>fb_currentPos := getDword (pDmaBuffer g) 0, fb_bytesToEOF := getDword (pDmaBuffer g) 4,
                                 fb_bytesToEOFinvalid := False\<rparr>) g)"

text \<open>The result says whether the host must seek.\<close>

definition fseek_cur :: "'h device \<Rightarrow> DWORD \<Rightarrow> WORD \<Rightarrow> 'h gd \<Rightarrow> 'h gd \<times> bool" where
  "fseek_cur dev offset c g =
     (let newPos = ucast (fb_rStart (fb g c)) + offset
      in if newPos <s 0 \<or> int (unat (fb_rCount (fb g c))) \<le> sint newPos
         then (fseek_hdif_command dev (fb_currentPos (fb g c)) (ucast c) 0 g, True)
         else (set_fb c ((fb g c)\<lparr>fb_currentPos := fb_currentPos (fb g c) + offset, fb_rStart := ucast newPos\<rparr>) g, False))"

definition custom_fseek :: "'h device \<Rightarrow> DWORD \<Rightarrow> 'h gd \<Rightarrow> 'h gd \<times> gd_result" where
  "custom_fseek dev sp g =
     (let offset = rd32 (gd_ram g) sp;
          atariHandle = rd16 (gd_ram g) (sp + 4);
          seekMode = rd16 (gd_ram g) (sp + 6)
      in if \<not> handleIsFromCE atariHandle then (g, CALL_OLD_GD (Fseek offset atariHandle seekMode))
         else let c = handleAtariToCE atariHandle
              in if unat c \<ge> MAX_FILES then (g, OutOfBounds)
                 else if \<not> fb_isOpen (fb g c) then (g, Ret (extendByteToDword EIHNDL))
                 else let (g, _) = commitChanges dev c g;
                          g = (if seekMode = 1
                               then let (g, doRealSeek) = fseek_cur dev offset c g
                                    in if doRealSeek then fseek_invalSeekStore dev offset c (ucast seekMode) g else g
                               else fseek_invalSeekStore dev offset c (ucast seekMode) g)
                      in if hd_status (hdIf g) \<noteq> E_OK then (g, Ret (extendByteToDword (hd_status (hdIf g))))
                         else (g, Ret (fb_currentPos (fb g c))))"

definition custom_fdatime :: "'h device \<Rightarrow> DWORD \<Rightarrow> 'h gd \<Rightarrow> 'h gd \<times> gd_result" where
  "custom_fdatime dev sp g =
     (let pDatetime = rd32 (gd_ram g) sp;
          atariHandle = rd16 (gd_ram g) (sp + 4);
          flag = rd16 (gd_ram g) (sp + 6)
      in if \<not> handleIsFromCE atariHandle then (g, CALL_OLD_GD (Fdatime pDatetime atariHandle flag))
         else let c = handleAtariToCE atariHandle
              in if unat c \<ge> MAX_FILES then (g, OutOfBounds)
                 else if \<not> fb_isOpen (fb g c) then (g, Ret (extendByteToDword EIHNDL))
                 else let p = mem_get (gd_ram g) pDatetime 4;
                          g = g\<lparr>commandLong := (commandLong g)[5 := 0x57, 6 := ucast (push_bit 7 flag OR (c AND 0x7f)),
                                 7 := p ! 0, 8 := p ! 1, 9 := p ! 2, 10 := p ! 3]\<rparr>;
                          g = hd_read_long dev g;
                          g = (if flag \<noteq> 1 then poke pDatetime (take 4 (pDmaBuffer g)) g else g)
                      in if hd_success (hdIf g) \<and> hd_status (hdIf g) = E_OK then (g, Ret 0)
                         else (g, Ret (extendByteToDword EINTRN)))"

end
