(* ===== verification/GdSeek.thy ===== *)
theory GdSeek
  imports GdFiles
begin

text \<open>
  What Fseek achieves: waiting bytes are in the file, the host's position and the driver's are the
  target, and the handle can be read and written there.
\<close>

section \<open>Seek commands\<close>

lemma be32_getDword_second:
  assumes "8 \<le> length buf"
  shows "getDword (overwrite buf (pad16 (be32_bytes x @ be32_bytes y))) 4 = y"
proof -
  let ?zs = "pad16 (be32_bytes x @ be32_bytes y)"
  have l: "8 \<le> length ?zs" by (simp add: pad16_def be32_bytes_def)
  have n: "?zs ! 4 = ucast (drop_bit 24 y)" "?zs ! 5 = ucast (drop_bit 16 y)" "?zs ! 6 = ucast (drop_bit 8 y)" "?zs ! 7 = ucast y"
    by (simp_all add: pad16_def be32_bytes_def)
  have o: "overwrite buf ?zs ! k = ?zs ! k" if "k < 8" for k
    using that l assms by (intro nth_overwrite) linarith+
  have "getDword (overwrite buf ?zs) 4 = be32 (?zs ! 4) (?zs ! 5) (?zs ! 6) (?zs ! 7)"
    using o [of 4] o [of 5] o [of 6] o [of 7] by (simp add: getDword_def)
  then show ?thesis by (simp only: n be32_bytes_be32)
qed

context file_server
begin

lemma seek_command_ok:
  assumes "drv_ok g" and "opened (gd_host g) (ucast c) = Some f" and "t = seek_target f offset mode"
    and "0 \<le> t" and "t < 2147483648" and "f' = f\<lparr>hf_pos := nat t\<rparr>"
  shows "\<exists>g'. fseek_hdif_command dev offset (ucast c) mode g = g' \<and> drv_ok g' \<and> kept_gd g' = kept_gd g \<and>
    opened (gd_host g') = (opened (gd_host g))(ucast c \<mapsto> f') \<and> hd_success (hdIf g') \<and> hd_status (hdIf g') = E_OK \<and>
    getDword (pDmaBuffer g') 0 = of_nat (nat t) \<and> getDword (pDmaBuffer g') 4 = to_eof f'"
proof -
  let ?cmd = "(commandLong g)[5 := 0x42, 6 := ucast (drop_bit 24 offset), 7 := ucast (drop_bit 16 offset),
     8 := ucast (drop_bit 8 offset), 9 := ucast offset, 10 := ucast c, 11 := mode]"
  let ?g = "g\<lparr>commandLong := ?cmd\<rparr>"
  have l: "length (commandLong g) = 13" using assms(1) by (simp add: drv_ok_def long_cmd_def)
  have p: "length (pDmaBuffer g) = 512" using assms(1) by (simp add: drv_ok_def)
  have "take 5 ?cmd = take 5 (commandLong g)" by (simp add: take_update_cancel)
  note ok = drv_ok_long [OF assms(1) refl _ this, unfolded length_list_update, OF l]
  have cmd: "?cmd ! 5 = 0x42" "?cmd ! 10 = ucast c" "?cmd ! 11 = mode" using l by simp_all
  have off: "getDword ?cmd 6 = offset" using l by (simp add: getDword_def be32_bytes_be32)
  from seek_law [OF ok(2) [unfolded cmd(1)], of "gd_host g" f t f' "pDmaBuffer g" 1] assms(2-6)
  obtain h where d: "dev (gd_host g) True ?cmd (pDmaBuffer g) 1 =
      (h, True, E_OK, pad16 (be32_bytes (of_nat (hf_pos f')) @ be32_bytes (to_eof f')))"
    and h: "opened h = (opened (gd_host g))(ucast c \<mapsto> f')"
    unfolding cmd off by blast
  let ?ds = "pad16 (be32_bytes (of_nat (hf_pos f')) @ be32_bytes (to_eof f'))"
  have s: "hddIfCmd_withRetries_lock dev True ?cmd (pDmaBuffer g) 1 ?g = (hd_done h E_OK ?g, ?ds)"
    by (rule hd_ok) (use d ok in simp_all)
  have r: "fseek_hdif_command dev offset (ucast c) mode g = (hd_done h E_OK ?g)\<lparr>pDmaBuffer := overwrite (pDmaBuffer g) ?ds\<rparr>"
    by (simp add: fseek_hdif_command_def hd_read_long_def s)
  have "drv_ok ((hd_done h E_OK ?g)\<lparr>pDmaBuffer := overwrite (pDmaBuffer g) ?ds\<rparr>)" using ok(1) p by (simp add: drv_ok_dma)
  with h p show ?thesis
    using be32_getDword_second [of "pDmaBuffer g"] be32_getDword [of "pDmaBuffer g" _ "be32_bytes (to_eof f')"]
    by (simp add: r assms(6))
qed

lemma seek_store_ok:
  assumes "drv_ok g" and "unat c < 40" and "opened (gd_host g) (ucast c) = Some f" and "t = seek_target f offset mode"
    and "0 \<le> t" and "t < 2147483648" and "f' = f\<lparr>hf_pos := nat t\<rparr>"
  shows "\<exists>g'. fseek_invalSeekStore dev offset c mode g = g' \<and> drv_ok g' \<and> others opened c g g' \<and> gd_ram g' = gd_ram g \<and>
    opened (gd_host g') (ucast c) = Some f' \<and> hd_status (hdIf g') = E_OK \<and>
    fb g' c = (fb g c)\<lparr>fb_rCount := 0, fb_rStart := 0, fb_currentPos := of_nat (nat t), fb_bytesToEOF := to_eof f',
      fb_bytesToEOFinvalid := False\<rparr>"
proof -
  let ?b = "(fb g c)\<lparr>fb_rCount := 0, fb_rStart := 0\<rparr>"
  let ?g = "set_fb c ?b g"
  have sh: "fb_shape ?b" using drv_ok_fb [OF assms(1,2)] by (simp add: fb_shape_def)
  have ok: "drv_ok ?g" by (rule drv_ok_set_fb [OF assms(1) sh])
  have "gd_host ?g = gd_host g" by (simp add: set_fb_def)
  then have "opened (gd_host ?g) (ucast c) = Some f" using assms(3) by simp
  from seek_command_ok [OF ok this assms(4-7)] obtain g1 where
    1: "fseek_hdif_command dev offset (ucast c) mode ?g = g1" "drv_ok g1" "kept_gd g1 = kept_gd ?g"
    "opened (gd_host g1) = (opened (gd_host g))(ucast c \<mapsto> f')" "hd_success (hdIf g1)" "hd_status (hdIf g1) = E_OK"
    "getDword (pDmaBuffer g1) 0 = of_nat (nat t)" "getDword (pDmaBuffer g1) 4 = to_eof f'"
    using \<open>gd_host ?g = gd_host g\<close> by auto
  note k = kept_gdD [OF 1(3)]
  let ?b2 = "(fb g1 c)\<lparr>fb_currentPos := of_nat (nat t), fb_bytesToEOF := to_eof f', fb_bytesToEOFinvalid := False\<rparr>"
  have f1: "fb g1 c = ?b" "d \<noteq> c \<Longrightarrow> fb g1 d = fb g d" for d
    using fb_set_fb [OF assms(1,2)] k(4) by simp_all
  have e: "fseek_invalSeekStore dev offset c mode g = set_fb c ?b2 g1"
    using 1 by (simp add: fseek_invalSeekStore_def Let_def unhandled_def)
  have s2: "fb_shape ?b2" using sh by (simp add: f1 fb_shape_def)
  have "gd_host (set_fb c ?b2 g1) = gd_host g1" "hdIf (set_fb c ?b2 g1) = hdIf g1" "gd_ram (set_fb c ?b2 g1) = gd_ram g1"
    "gd_ram ?g = gd_ram g"
    by (simp_all add: set_fb_def)
  then show ?thesis
    unfolding e others_def using drv_ok_set_fb [OF 1(2) s2] fb_set_fb [OF 1(2) assms(2)] 1(4,6) f1 k(1)
    by (intro exI [of _ "set_fb c ?b2 g1"]) auto
qed

end

section \<open>Fseek\<close>

text \<open>
  A handle at stream position \<open>P\<close> of content \<open>D\<close>: open for reading, with what is buffered, or open for
  writing.
\<close>

definition at_pos ::
  "('h \<Rightarrow> BYTE \<Rightarrow> hfile option) \<Rightarrow> 'h gd \<Rightarrow> WORD \<Rightarrow> hfile \<Rightarrow> BYTE list \<Rightarrow> nat \<Rightarrow> bool" where
  "at_pos op g c f D P \<longleftrightarrow> open_at op g c f P \<and> hf_data f = D \<or>
     writing_at op g c f D P"

text \<open>The position a seek asks for.\<close>

definition target :: "BYTE list \<Rightarrow> nat \<Rightarrow> DWORD \<Rightarrow> WORD \<Rightarrow> int" where
  "target D P offset mode =
     sint offset + (if mode = 1 then int P else if mode = 2 then int (length D) else 0)"

text \<open>The handle after a seek to \<open>T\<close>: it can be read from there and, where the file is writable, written.\<close>

definition seeked ::
  "('h \<Rightarrow> BYTE \<Rightarrow> hfile option) \<Rightarrow> 'h gd \<Rightarrow> WORD \<Rightarrow> hfile \<Rightarrow> BYTE list \<Rightarrow> nat \<Rightarrow> bool" where
  "seeked op g c f D T \<longleftrightarrow> open_at op g c f T \<and> hf_data f = D \<and> fb_rCount (fb g c) = 0 \<and> fb_rStart (fb g c) = 0 \<and>
     (hf_writable f \<longrightarrow> writing_at op g c f D T)"

lemma at_posD:
  assumes "at_pos op g c f D P"
  shows "drv_ok g" "unat c < 40" "op (gd_host g) (ucast c) = Some f" "fb_isOpen (fb g c)" "fb_currentPos (fb g c) = of_nat P"
  using assms by (auto simp: at_pos_def open_at_def writing_at_def stream_def wstream_def)

lemma put_at_Nil_data [simp]: "fb_wCount b = 0 \<Longrightarrow> wdata b f = hf_data f" "fb_wCount b = 0 \<Longrightarrow> pending b = []"
  by (simp_all add: wdata_def pending_def)

lemma mode_byte:
  assumes "mode < 256"
  shows "(ucast (mode :: WORD) = (1 :: BYTE)) = (mode = 1)" "(ucast mode = (2 :: BYTE)) = (mode = 2)"
proof -
  have m: "unat mode < 256" using assms by (simp add: word_less_nat_alt)
  then have "unat (ucast mode :: BYTE) = unat mode" by simp
  then show "(ucast mode = (1 :: BYTE)) = (mode = 1)" "(ucast mode = (2 :: BYTE)) = (mode = 2)"
    by (simp_all add: word_unat_eq_iff)
qed

context file_server
begin

text \<open>The commit at the start of a seek or of a close.\<close>

lemma commit_any_ok:
  assumes "at_pos opened g c f D P"
  shows "\<exists>g' f'. commitChanges dev c g = (g', True) \<and> drv_ok g' \<and> others opened c g g' \<and> gd_ram g' = gd_ram g \<and>
    opened (gd_host g') (ucast c) = Some f' \<and> hf_data f' = D \<and> hf_writable f' = hf_writable f \<and>
    fb_isOpen (fb g' c) \<and> fb_currentPos (fb g' c) = of_nat P \<and> fb_wCount (fb g' c) = 0 \<and>
    fb_rCount (fb g' c) = fb_rCount (fb g c) \<and> fb_rStart (fb g' c) = fb_rStart (fb g c)"
  using assms unfolding at_pos_def
proof
  assume a: "open_at opened g c f P \<and> hf_data f = D"
  note d = at_posD [OF assms]
  have "commitChanges dev c g = (g, True)" using a d(2) by (simp add: commitChanges_def open_at_def)
  with a d show ?thesis by (intro exI [of _ g] exI [of _ f]) (simp add: open_at_def stream_pos_def)
next
  assume a: "writing_at opened g c f D P"
  then have w: "wstream opened g c f" and D: "wdata (fb g c) f = D" "wpos (fb g c) f = P" by (simp_all add: writing_at_def)
  from commit_ok [OF w] obtain g' f' where 1: "commitChanges dev c g = (g', True)" "wrote opened c [] g f g' f'"
    "fb_wCount (fb g' c) = 0" "fb_currentPos (fb g' c) = fb_currentPos (fb g c)" by blast
  have "wstream opened g' c f'" using 1(2) by (simp add: wrote_def)
  moreover have "hf_data f' = D" "hf_pos f' = P" using 1(2,3) D by (simp_all add: wrote_def wpos_def)
  moreover have "hf_writable f" "hf_writable f'" using w \<open>wstream opened g' c f'\<close> by (simp_all add: wstream_def)
  ultimately show ?thesis using 1 a
    by (intro exI [of _ g'] exI [of _ f']) (auto simp: wrote_def wstream_def writing_at_def wsame_def left_in_def)
qed

lemma seek_leaves:
  assumes "drv_ok g" and "unat c < 40" and "opened (gd_host g) (ucast c) = Some f" and "fb_isOpen (fb g c)"
    and "fb_wCount (fb g c) = 0" and "length (hf_data f) < 2147483648"
    and "t = seek_target f offset mode" and "0 \<le> t" and "t < 2147483648"
  shows "\<exists>g' f'. fseek_invalSeekStore dev offset c mode g = g' \<and> seeked opened g' c f' (hf_data f) (nat t) \<and>
    others opened c g g' \<and> gd_ram g' = gd_ram g \<and> hf_writable f' = hf_writable f \<and> hd_status (hdIf g') = E_OK \<and>
    fb_currentPos (fb g' c) = of_nat (nat t)"
proof -
  from seek_store_ok [OF assms(1-3,7-9) refl] obtain g' where
    1: "fseek_invalSeekStore dev offset c mode g = g'" "drv_ok g'" "others opened c g g'" "gd_ram g' = gd_ram g"
    "opened (gd_host g') (ucast c) = Some (f\<lparr>hf_pos := nat t\<rparr>)" "hd_status (hdIf g') = E_OK"
    and b: "fb g' c = (fb g c)\<lparr>fb_rCount := 0, fb_rStart := 0, fb_currentPos := of_nat (nat t),
      fb_bytesToEOF := to_eof (f\<lparr>hf_pos := nat t\<rparr>), fb_bytesToEOFinvalid := False\<rparr>" by blast
  let ?f = "f\<lparr>hf_pos := nat t\<rparr>"
  have lt: "nat t < 2147483648" using assms(8,9) by linarith
  have "stream opened g' c ?f"
    using 1(2,5) assms(2,6) lt by (simp add: stream_def b rbuf_rel_def left_in_def)
  then have "open_at opened g' c ?f (nat t)"
    using assms(4,5) by (simp add: open_at_def b stream_pos_def left_in_def to_eof_def)
  moreover have "hf_writable f \<longrightarrow> writing_at opened g' c ?f (hf_data f) (nat t)"
    using 1(2,5) assms(2,4,5) by (simp add: writing_at_def wstream_def b wpos_def)
  ultimately show ?thesis using 1 b by (intro exI [of _ g'] exI [of _ ?f]) (simp add: seeked_def)
qed

text \<open>
  A seek from the start or the end, or one relative to the position that leaves the buffer.
\<close>

lemma custom_fseek_ok:
  assumes "at_pos opened g c f D P" and "length D < 2147483648" and "P < 2147483648"
    and "rd16 (gd_ram g) (sp + 4) = handleCEtoAtari c"
    and "offset = rd32 (gd_ram g) sp" and "mode = rd16 (gd_ram g) (sp + 6)"
    and "T = target D P offset mode" and "0 \<le> T" and "T < 2147483648"
    and "mode < 256" and "mode = 1 \<Longrightarrow> ucast (fb_rStart (fb g c)) + offset <s 0 \<or>
      int (unat (fb_rCount (fb g c))) \<le> sint (ucast (fb_rStart (fb g c)) + offset)"
  shows "\<exists>g' f'. custom_fseek dev sp g = (g', Ret (of_nat (nat T))) \<and> seeked opened g' c f' D (nat T) \<and>
    others opened c g g' \<and> gd_ram g' = gd_ram g \<and> hf_writable f' = hf_writable f"
proof -
  from commit_any_ok [OF assms(1)] obtain g1 f1 where
    1: "commitChanges dev c g = (g1, True)" "drv_ok g1" "others opened c g g1" "gd_ram g1 = gd_ram g"
    "opened (gd_host g1) (ucast c) = Some f1" and d: "hf_data f1 = D" "hf_writable f1 = hf_writable f"
    and b: "fb_isOpen (fb g1 c)" "fb_currentPos (fb g1 c) = of_nat P" "fb_wCount (fb g1 c) = 0"
    "fb_rCount (fb g1 c) = fb_rCount (fb g c)" "fb_rStart (fb g1 c) = fb_rStart (fb g c)" by blast
  note c = at_posD(2) [OF assms(1)]
  have open': "fb_isOpen (fb g c)" by (rule at_posD(4) [OF assms(1)])
  define g2 where "g2 = (if mode = 1 then fseek_hdif_command dev (fb_currentPos (fb g1 c)) (ucast c) 0 g1 else g1)"
  have "\<exists>f2. drv_ok g2 \<and> others opened c g1 g2 \<and> gd_ram g2 = gd_ram g1 \<and> fb g2 c = fb g1 c \<and>
    opened (gd_host g2) (ucast c) = Some f2 \<and> hf_data f2 = D \<and> hf_writable f2 = hf_writable f \<and>
    seek_target f2 offset (ucast mode) = T"
  proof (cases "mode = 1")
    case True
    have sp: "sint (of_nat P :: DWORD) = int P" using assms(3) by (simp add: signed_of_nat signed_take_bit_int_eq_self)
    have t: "int P = seek_target f1 (of_nat P) 0" by (simp add: seek_target_def sp)
    from seek_command_ok [OF 1(2,5) t _ _ refl] assms(3) obtain g3 where
      3: "fseek_hdif_command dev (of_nat P) (ucast c) 0 g1 = g3" "drv_ok g3" "kept_gd g3 = kept_gd g1"
      "opened (gd_host g3) = (opened (gd_host g1))(ucast c \<mapsto> f1\<lparr>hf_pos := P\<rparr>)" by auto
    have "g2 = g3" using True 3(1) b(2) by (simp add: g2_def)
    then show ?thesis using 3 d kept_gdD [OF 3(3)] True
      by (intro exI [of _ "f1\<lparr>hf_pos := P\<rparr>"]) (auto simp: others_def seek_target_def assms(7) target_def)
  next
    case False
    with 1 d show ?thesis
      by (intro exI [of _ f1]) (simp add: g2_def seek_target_def assms(7) target_def mode_byte [OF assms(10)])
  qed
  then obtain f2 where 2: "drv_ok g2" "others opened c g1 g2" "gd_ram g2 = gd_ram g1" "fb g2 c = fb g1 c"
    "opened (gd_host g2) (ucast c) = Some f2" "hf_data f2 = D" "hf_writable f2 = hf_writable f"
    "T = seek_target f2 offset (ucast mode)" by auto
  have o: "fb_isOpen (fb g2 c)" "fb_wCount (fb g2 c) = 0" "length (hf_data f2) < 2147483648"
    using 2(4,6) b assms(2) by simp_all
  from seek_leaves [OF 2(1) c 2(5) o 2(8) assms(8,9)] obtain g3 f3 where
    3: "fseek_invalSeekStore dev offset c (ucast mode) g2 = g3" "seeked opened g3 c f3 D (nat T)" "others opened c g2 g3"
    "gd_ram g3 = gd_ram g2" "hf_writable f3 = hf_writable f" "hd_status (hdIf g3) = E_OK" "fb_currentPos (fb g3 c) = of_nat (nat T)"
    using 2(6,7) by auto
  have cur: "fseek_cur dev offset c g1 = (g2, True)" if "mode = 1"
    using assms(11) [OF that] b that by (simp add: fseek_cur_def Let_def g2_def)
  have "custom_fseek dev sp g = (g3, Ret (of_nat (nat T)))"
    using c 1(1) 3(1,6,7) cur open'
    unfolding custom_fseek_def Let_def assms(4) ce_handle(2) [OF c] assms(5,6) [symmetric]
    by (cases "mode = 1") (simp_all add: ce_handle(1) [OF c] not_le [symmetric] g2_def)
  then show ?thesis
    using 3 2(3) 1(4) others_trans [OF others_trans [OF 1(3) 2(2)] 3(3)] by (intro exI [of _ g3] exI [of _ f3]) simp
qed

end

end
