(* ===== verification/GdSpec.thy ===== *)
theory GdSpec
  imports GdSeek
begin

text \<open>
  The file functions of the driver with the host's file server at the other end of the bus, and
  concrete states at which the statements apply.
\<close>

section \<open>A concrete driver and host\<close>

definition fb0 :: TFileBuffer where
  "fb0 = \<lparr>fb_isOpen = True, fb_rCount = 0, fb_rStart = 0, fb_rBuf = replicate 512 0, fb_currentPos = 0,
     fb_bytesToEOF = 0, fb_bytesToEOFinvalid = True, fb_wCount = 0, fb_wBuf = replicate 512 0\<rparr>"

definition host0 :: ce_host where
  "host0 = \<lparr>h_files = [\<lparr>hostHandle = Some \<lparr>hf_data = [1, 2, 3, 4, 5], hf_pos = 0, hf_last = 0, hf_writable = True\<rparr>,
     atariHandle = 0, hostPath = [0x2f]\<rparr>], h_finds = [], h_disk = (\<lambda>_. None)\<rparr>"

text \<open>A driver at the address of the parameters \<open>ps\<close>, before any command.\<close>

definition gd0 :: "'h \<Rightarrow> BYTE list \<Rightarrow> 'h gd" where
  "gd0 h ps = \<lparr>gd_host = h, hdIf = \<lparr>hd_success = False, hd_status = 0, hd_retriesDone = 0, hd_maxRetries = 16, hd_hostId = 0xff\<rparr>,
     mtx = 0, gd_ram = mem_put (\<lambda>_. 0) 0x1000 ps, commandShort = [0, 0x43, 0x45, 3, 0, 0],
     commandLong = [0x1f, 0xA0, 0x43, 0x45, 3, 0, 0, 0, 0, 0, 0, 0, 0], pDmaBuffer = replicate 512 0,
     pDtaBuffer = replicate 512 0, FastRAMBuffer = replicate 4096 0, fileBufs = replicate 40 fb0, pDta = 0x800,
     dtaBufferValidForPDta = 0, fsnextIsForUs = False, currentDrive = 2, ceDrives = 0, ceMediach = 0,
     lastCeDrivesUpdate = 0, lastMediachUpdate = 0, forceSetdrv = True, tosDta = 0x800\<rparr>"

definition no_rest :: "'h device" where
  "no_rest h rd cmd data n = (h, False, 0, [])"

definition env0 :: host_env where
  "env0 = \<lparr>he_look = (\<lambda>a p. Inl EFILNF), he_resolve = (\<lambda>p. HostPath p False), he_fopen = (\<lambda>p w. True)\<rparr>"

lemma drv_ok_gd0 [simp]: "drv_ok (gd0 h ps)"
proof -
  have "drop_bit 5 (0x1f :: BYTE) = 0" by simp
  then show ?thesis by (simp add: drv_ok_def gd0_def long_cmd_def short_cmd_def fb_shape_def fb0_def)
qed

lemma gd0_fb: "unat c < 40 \<Longrightarrow> fb (gd0 h ps) c = fb0"
  by (simp add: fb_def gd0_def)

lemma gd0_ram: "gd_ram (gd0 h ps) = mem_put (\<lambda>_. 0) 0x1000 ps" "gd_host (gd0 h ps) = h"
  by (simp_all add: gd0_def)

lemma host0_file: "host_file host0 0 = Some \<lparr>hf_data = [1, 2, 3, 4, 5], hf_pos = 0, hf_last = 0, hf_writable = True\<rparr>"
  by (simp add: host_file_def host_opened_def findFileHandleSlot_def host0_def)

definition file0 :: hfile where
  "file0 = \<lparr>hf_data = [1, 2, 3, 4, 5], hf_pos = 0, hf_last = 0, hf_writable = True\<rparr>"

lemma gd0_open: "open_at host_file (gd0 host0 ps) 0 file0 0"
  by (simp add: open_at_def stream_def gd0_fb gd0_ram host0_file file0_def rbuf_rel_def left_in_def stream_pos_def fb0_def)

lemma gd0_writing: "writing_at host_file (gd0 host0 ps) 0 file0 [1, 2, 3, 4, 5] 0"
  by (simp add: writing_at_def wstream_def gd0_fb gd0_ram host0_file file0_def wpos_def fb0_def)

section \<open>Fread\<close>



section \<open>Fwrite\<close>

text \<open>
  C11: a write on a writable handle returns its length and has the effect of writing the bytes at the
  handle's position to content and buffer taken together, for every length, address and fill of the
  buffer; RAM and the other handles are untouched.
\<close>

theorem fwrite_exact:
  assumes "writing_at host_file g c f D P" and "rd16 (gd_ram g) sp = handleCEtoAtari c"
    and "n = rd32 (gd_ram g) (sp + 2)" and "bs = mem_get (gd_ram g) (rd32 (gd_ram g) (sp + 6)) (unat n)"
  shows "\<exists>g' f'. custom_fwrite (host_dev env rest) sp g = (g', Ret n) \<and>
    writing_at host_file g' c f' (put_at P bs D) (P + unat n) \<and> others host_file c g g' \<and> gd_ram g' = gd_ram g"
  using host.custom_fwrite_ok [OF assms] .

lemma fwrite_exact_witness:
  "\<exists>g' f'. custom_fwrite (host_dev env0 no_rest) 0x1000 (gd0 host0 [0, 80, 0, 0, 0, 2, 0, 0, 0x10, 0x0a, 7, 9]) = (g', Ret 2) \<and>
    writing_at host_file g' 0 f' [7, 9, 3, 4, 5] 2"
proof -
  let ?g = "gd0 host0 [0, 80, 0, 0, 0, 2, 0, 0, 0x10, 0x0a, 7, 9]"
  have p: "rd16 (gd_ram ?g) 0x1000 = handleCEtoAtari 0" "rd32 (gd_ram ?g) (0x1000 + 2) = 2" "rd32 (gd_ram ?g) (0x1000 + 6) = 0x100a"
    by (simp_all add: gd0_ram rd16_def rd32_def be16_def be32_def handleCEtoAtari_def)
  have "mem_get (gd_ram ?g) 0x100a 2 = [7, 9]" by (simp add: mem_get_def gd0_ram upt_rec)
  then show ?thesis
    using fwrite_exact [OF gd0_writing [of "[0, 80, 0, 0, 0, 2, 0, 0, 0x10, 0x0a, 7, 9]"] p(1), of 2 _ env0 no_rest] p(2,3)
    by (auto simp: put_at_def simp flip: numeral_2_eq_2)
qed

section \<open>Fseek\<close>

text \<open>
  C28: a seek from the start, from the end, or one from the current position that leaves the data buffered
  for reading, to a target from 0 to 2147483647, writes what is still buffered, returns the target position
  and leaves the handle at the target of unchanged content, ready to be read and, if the file is writable,
  written; RAM and the other handles are untouched. A seek from the current position inside the buffered data
  is excluded here and stated apart.
\<close>

theorem fseek_exact:
  assumes "at_pos host_file g c f D P" and "length D < 2147483648" and "P < 2147483648"
    and "rd16 (gd_ram g) (sp + 4) = handleCEtoAtari c"
    and "offset = rd32 (gd_ram g) sp" and "mode = rd16 (gd_ram g) (sp + 6)"
    and "T = target D P offset mode" and "0 \<le> T" and "T < 2147483648" and "mode < 256"
    and "mode = 1 \<Longrightarrow> ucast (fb_rStart (fb g c)) + offset <s 0 \<or>
      int (unat (fb_rCount (fb g c))) \<le> sint (ucast (fb_rStart (fb g c)) + offset)"
  shows "\<exists>g' f'. custom_fseek (host_dev env rest) sp g = (g', Ret (of_nat (nat T))) \<and> seeked host_file g' c f' D (nat T) \<and>
    others host_file c g g' \<and> gd_ram g' = gd_ram g \<and> hf_writable f' = hf_writable f"
  using host.custom_fseek_ok [OF assms] .

lemma fseek_exact_witness:
  "\<exists>g' f'. custom_fseek (host_dev env0 no_rest) 0x1000 (gd0 host0 [0xff, 0xff, 0xff, 0xfe, 0, 80, 0, 2]) = (g', Ret 3) \<and>
    seeked host_file g' 0 f' [1, 2, 3, 4, 5] 3"
proof -
  let ?g = "gd0 host0 [0xff, 0xff, 0xff, 0xfe, 0, 80, 0, 2]"
  have p: "rd16 (gd_ram ?g) (0x1000 + 4) = handleCEtoAtari 0" "rd32 (gd_ram ?g) 0x1000 = 0xfffffffe" "rd16 (gd_ram ?g) (0x1000 + 6) = 2"
    by (simp_all add: gd0_ram rd16_def rd32_def be16_def be32_def handleCEtoAtari_def)
  have "at_pos host_file ?g 0 file0 [1, 2, 3, 4, 5] 0" using gd0_writing by (simp add: at_pos_def)
  from fseek_exact [OF this _ _ p(1) refl refl refl, of env0 no_rest] p(2,3)
  show ?thesis by (auto simp: target_def)
qed

text \<open>
  C34: a seek from the current position inside the data buffered for reading moves the handle by the offset,
  in its stream and in the position it keeps, and sends nothing to the host. It returns the new position
  only if the host's last answer, to whichever function, was \<open>E_OK\<close>, and otherwise that status as an error;
  and the number of bytes left to the end of the file stays as it was before.
\<close>

theorem fseek_in_buffer:
  assumes "open_at host_file g c f P" and "rbuf_rel ((fb g c)\<lparr>fb_rStart := 0\<rparr>) f"
    and "rd16 (gd_ram g) (sp + 4) = handleCEtoAtari c" and "offset = rd32 (gd_ram g) sp" and "rd16 (gd_ram g) (sp + 6) = 1"
    and "new = int (unat (fb_rStart (fb g c))) + sint offset" and "0 \<le> new" and "new < int (unat (fb_rCount (fb g c)))"
  shows "\<exists>g'. custom_fseek dev sp g =
      (g', Ret (if hd_status (hdIf g) = E_OK then of_nat P + offset else extendByteToDword (hd_status (hdIf g)))) \<and>
    gd_host g' = gd_host g \<and> gd_ram g' = gd_ram g \<and> others host_file c g g' \<and> stream host_file g' c f \<and>
    int (stream_pos (fb g' c) f) = int P + sint offset \<and> fb_currentPos (fb g' c) = of_nat P + offset \<and>
    fb_bytesToEOF (fb g' c) = fb_bytesToEOF (fb g c) \<and> fb_bytesToEOFinvalid (fb g' c) = fb_bytesToEOFinvalid (fb g c)"
proof -
  let ?b = "fb g c" and ?np = "ucast (fb_rStart (fb g c)) + offset"
  from assms(1) have st: "stream host_file g c f" and o: "fb_isOpen ?b" "fb_wCount ?b = 0" "stream_pos ?b f = P" "fb_currentPos ?b = of_nat P"
    by (simp_all add: open_at_def)
  then have c: "unat c < 40" and rb: "rbuf_rel ?b f" by (simp_all add: stream_def)
  have r: "unat (fb_rStart ?b) \<le> unat (fb_rCount ?b)" "unat (fb_rCount ?b) \<le> 512" using rb by (simp_all add: rbuf_rel_def)
  have n512: "new < 512" using assms(8) r(2) by linarith
  have np: "?np = word_of_int new"
    unfolding assms(6) by simp
  have si: "sint ?np = new"
    unfolding np using assms(7) n512 by (simp add: signed_of_int signed_take_bit_int_eq_self)
  define nw :: WORD where "nw = ucast ?np"
  have un: "unat nw = nat new"
  proof -
    have "(ucast ?np :: WORD) = word_of_int new" unfolding np using assms(7) n512 by (simp add: unsigned_of_int take_bit_int_eq_self)
    then show ?thesis unfolding nw_def using assms(7) n512 by (simp add: unsigned_of_int take_bit_int_eq_self)
  qed
  let ?b' = "?b\<lparr>fb_currentPos := fb_currentPos ?b + offset, fb_rStart := nw\<rparr>"
  have cur: "fseek_cur dev offset c g = (set_fb c ?b' g, False)"
    unfolding fseek_cur_def Let_def nw_def using si assms(7,8) by (simp add: word_sless_alt)
  have commit: "commitChanges dev c g = (g, True)" using c o(2) by (simp add: commitChanges_def)
  have fb': "fb (set_fb c ?b' g) c = ?b'" by (rule fb_set [OF st])
  have e: "custom_fseek dev sp g = (set_fb c ?b' g,
      Ret (if hd_status (hdIf g) = E_OK then of_nat P + offset else extendByteToDword (hd_status (hdIf g))))"
    unfolding custom_fseek_def Let_def assms(3) ce_handle(2) [OF c] assms(4,5) [symmetric]
    using c o commit cur fb' by (simp add: ce_handle(1) [OF c] set_fb_def)
  have rel: "rbuf_rel ?b' f \<and> int (stream_pos ?b' f) = int P + sint offset"
  proof -
    let ?n = "unat (fb_rCount ?b)" and ?k = "nat new" and ?data = "hf_data f"
    have k: "?k < ?n" using assms(7,8) by linarith
    have w: "?n \<le> 512" "?n \<le> hf_pos f" "0 < ?n \<longrightarrow> hf_pos f \<le> length ?data"
      "take ?n (fb_rBuf ?b) = take ?n (drop (hf_pos f - ?n) ?data)"
      using assms(2) by (simp_all add: rbuf_rel_def left_in_def)
    have "take (?n - ?k) (drop ?k (fb_rBuf ?b)) = drop ?k (take ?n (fb_rBuf ?b))" by (simp add: drop_take)
    also have "\<dots> = take (?n - ?k) (drop (hf_pos f - ?n + ?k) ?data)" unfolding w(4) by (simp add: drop_take add.commute)
    also have "hf_pos f - ?n + ?k = hf_pos f - (?n - ?k)" using w(2) k by simp
    finally have t: "take (?n - ?k) (drop ?k (fb_rBuf ?b)) = take (?n - ?k) (drop (hf_pos f - (?n - ?k)) ?data)" .
    have "rbuf_rel ?b' f" using k w t by (simp add: rbuf_rel_def left_in_def un)
    moreover have "int (stream_pos ?b' f) = int P + sint offset"
    proof -
      have "P = hf_pos f - (?n - unat (fb_rStart ?b))" using o(3) by (simp add: stream_pos_def left_in_def)
      moreover have "stream_pos ?b' f = hf_pos f - (?n - ?k)" by (simp add: stream_pos_def left_in_def un)
      ultimately show ?thesis using k w(2) assms(6,7) r(1) by linarith
    qed
    ultimately show ?thesis by simp
  qed
  have "stream host_file (set_fb c ?b' g) c f"
    using st rel fb' drv_ok_fb [of g c] by (auto simp: stream_def fb_shape_def drv_ok_set_fb)
  then show ?thesis
    unfolding e using rel fb' o(4) stream_book(4) [OF st, of ?b'] by (intro exI [of _ "set_fb c ?b' g"]) (simp add: set_fb_def)
qed

text \<open>A handle that holds five bytes of which two are read; a seek forward by two, after a status that was not \<open>E_OK\<close>.\<close>

definition seek_example :: "ce_host gd" where
  "seek_example = (let g = gd0 (host0\<lparr>h_files := [\<lparr>hostHandle = Some (file0\<lparr>hf_pos := 5\<rparr>), atariHandle = 0, hostPath = [0x2f]\<rparr>]\<rparr>)
       [0, 0, 0, 2, 0, 80, 0, 1]
     in set_fb 0 (fb0\<lparr>fb_rCount := 5, fb_rStart := 2, fb_rBuf := [1, 2, 3, 4, 5] @ replicate 507 0, fb_currentPos := 2,
          fb_bytesToEOF := 3, fb_bytesToEOFinvalid := False\<rparr>) (g\<lparr>hdIf := (hdIf g)\<lparr>hd_status := EFILNF\<rparr>\<rparr>))"

lemma fseek_in_buffer_witness:
  "\<exists>g'. custom_fseek (host_dev env0 no_rest) 0x1000 seek_example = (g', Ret (extendByteToDword EFILNF)) \<and>
    stream_pos (fb g' 0) (file0\<lparr>hf_pos := 5\<rparr>) = 4 \<and> fb_currentPos (fb g' 0) = 4 \<and> fb_bytesToEOF (fb g' 0) = 3"
proof -
  let ?g = seek_example
  have g: "gd_ram ?g = mem_put (\<lambda>_. 0) 0x1000 [0, 0, 0, 2, 0, 80, 0, 1]" "hd_status (hdIf ?g) = EFILNF"
    by (simp_all add: seek_example_def Let_def set_fb_def gd0_ram)
  have p: "rd16 (gd_ram ?g) (0x1000 + 4) = handleCEtoAtari 0" "rd32 (gd_ram ?g) 0x1000 = 2" "rd16 (gd_ram ?g) (0x1000 + 6) = 1"
    by (simp_all add: g rd16_def rd32_def be16_def be32_def handleCEtoAtari_def)
  have b: "fb ?g 0 = fb0\<lparr>fb_rCount := 5, fb_rStart := 2, fb_rBuf := [1, 2, 3, 4, 5] @ replicate 507 0, fb_currentPos := 2,
      fb_bytesToEOF := 3, fb_bytesToEOFinvalid := False\<rparr>"
    by (simp add: seek_example_def Let_def fb_def set_fb_def gd0_def)
  have ok: "drv_ok ?g"
  proof -
    have "drv_ok (g\<lparr>hdIf := (hdIf g)\<lparr>hd_status := st\<rparr>\<rparr>)" if "drv_ok g" for st and g :: "ce_host gd"
      using that by (simp add: drv_ok_def)
    then show ?thesis unfolding seek_example_def Let_def by (intro drv_ok_set_fb) (simp_all add: fb_shape_def fb0_def)
  qed
  have f: "host_file (gd_host ?g) 0 = Some (file0\<lparr>hf_pos := 5\<rparr>)"
    by (simp add: seek_example_def Let_def set_fb_def gd0_def host_file_def host_opened_def findFileHandleSlot_def)
  have o: "open_at host_file ?g 0 (file0\<lparr>hf_pos := 5\<rparr>) 2"
    using ok f by (simp add: open_at_def stream_def b rbuf_rel_def left_in_def stream_pos_def fb0_def file0_def)
  have w: "rbuf_rel ((fb ?g 0)\<lparr>fb_rStart := 0\<rparr>) (file0\<lparr>hf_pos := 5\<rparr>)"
    by (simp add: b rbuf_rel_def left_in_def fb0_def file0_def)
  from fseek_in_buffer [OF o w p(1) refl p(3) refl, of "host_dev env0 no_rest"] show ?thesis
    by (auto simp: p(2) b g(2) fb0_def)
qed

text \<open>
  C29: what is written through a handle is read back through it: a write, a seek from the start and a read
  return the bytes of the content with the write applied, at the destination, whatever of it had been
  buffered; for a read of at most 1024 bytes or to an even address (a longer one to an odd address may meet
  the alignment that the reads above exclude).
\<close>

theorem write_seek_read:
  assumes "writing_at host_file g c f D P" and "rd16 (gd_ram g) sp1 = handleCEtoAtari c"
    and "n = rd32 (gd_ram g) (sp1 + 2)" and "bs = mem_get (gd_ram g) (rd32 (gd_ram g) (sp1 + 6)) (unat n)"
    and "E = put_at P bs D" and "length E < 2147483648" and "P + unat n < 2147483648"
    and "rd16 (gd_ram g) (sp2 + 4) = handleCEtoAtari c" and "rd32 (gd_ram g) sp2 = of_nat T"
    and "rd16 (gd_ram g) (sp2 + 6) = 0" and "T \<le> length E"
    and "rd16 (gd_ram g) sp3 = handleCEtoAtari c" and "m = rd32 (gd_ram g) (sp3 + 2)"
    and "buffer = rd32 (gd_ram g) (sp3 + 6)" and "m \<le> 1024 \<or> even (unat buffer)"
    and "dev = host_dev env rest" and "got = take (unat m) (drop T E)"
  shows "\<exists>g1 g2 g3. custom_fwrite dev sp1 g = (g1, Ret n) \<and> custom_fseek dev sp2 g1 = (g2, Ret (of_nat T)) \<and>
    custom_fread dev sp3 g2 = (g3, Ret (of_nat (length got))) \<and> gd_ram g3 = mem_put (gd_ram g) buffer got"
proof -
  from host.custom_fwrite_ok [OF assms(1-4), of env rest] obtain g1 f1 where
    1: "custom_fwrite dev sp1 g = (g1, Ret n)" "writing_at host_file g1 c f1 E (P + unat n)" "gd_ram g1 = gd_ram g"
    unfolding assms(5,16) by blast
  have T: "T < 2147483648" using assms(6,11) by simp
  then have t: "int T = target E (P + unat n) (of_nat T) 0"
    by (simp add: target_def signed_of_nat signed_take_bit_int_eq_self)
  have "at_pos host_file g1 c f1 E (P + unat n)" using 1(2) by (simp add: at_pos_def)
  from host.custom_fseek_ok [OF this assms(6,7), of sp2 "of_nat T" 0 "int T" env rest] T assms(8-10) obtain g2 f2 where
    2: "custom_fseek dev sp2 g1 = (g2, Ret (of_nat T))" "seeked host_file g2 c f2 E T" "gd_ram g2 = gd_ram g"
    unfolding assms(16) 1(3) t [symmetric] by auto
  have o: "open_at host_file g2 c f2 T" "hf_data f2 = E" "left_in (fb g2 c) = 0"
    using 2(2) by (simp_all add: seeked_def left_in_def)
  have "read_done host_file c f2 T buffer (unat m) g2 (custom_fread dev sp3 g2)"
    unfolding assms(16)
    by (rule host.custom_fread_ok [OF o(1)])
      (use assms(11-15) 2(3) o in \<open>auto simp: buffered_def aligned_or_one_block_def\<close>)
  then show ?thesis
    using 1(1) 2 o(2) assms(17) by (cases "custom_fread dev sp3 g2") (auto simp: read_done_def Let_def)
qed

text \<open>Write \<open>7, 9\<close>, seek to 1, read 3 bytes to \<open>0x2000\<close>.\<close>

lemma write_seek_read_witness:
  "\<exists>g1 g2 g3. let ps = [0, 80, 0, 0, 0, 2, 0, 0, 0x10, 0x0a, 7, 9, 0, 0, 0, 1, 0, 80, 0, 0, 0, 80, 0, 0, 0, 3, 0, 0, 0x20, 0] in
     custom_fwrite (host_dev env0 no_rest) 0x1000 (gd0 host0 ps) = (g1, Ret 2) \<and>
     custom_fseek (host_dev env0 no_rest) 0x100c g1 = (g2, Ret 1) \<and>
     custom_fread (host_dev env0 no_rest) 0x1014 g2 = (g3, Ret 3) \<and>
     gd_ram g3 = mem_put (gd_ram (gd0 host0 ps)) 0x2000 [9, 3, 4]"
proof -
  let ?g = "gd0 host0 [0, 80, 0, 0, 0, 2, 0, 0, 0x10, 0x0a, 7, 9, 0, 0, 0, 1, 0, 80, 0, 0, 0, 80, 0, 0, 0, 3, 0, 0, 0x20, 0]"
  have p: "rd16 (gd_ram ?g) 0x1000 = handleCEtoAtari 0" "rd32 (gd_ram ?g) (0x1000 + 2) = 2" "rd32 (gd_ram ?g) (0x1000 + 6) = 0x100a"
    "rd16 (gd_ram ?g) (0x100c + 4) = handleCEtoAtari 0" "rd32 (gd_ram ?g) 0x100c = 1" "rd16 (gd_ram ?g) (0x100c + 6) = 0"
    "rd16 (gd_ram ?g) 0x1014 = handleCEtoAtari 0" "rd32 (gd_ram ?g) (0x1014 + 2) = 3" "rd32 (gd_ram ?g) (0x1014 + 6) = 0x2000"
    by (simp_all add: gd0_ram rd16_def rd32_def be16_def be32_def handleCEtoAtari_def)
  have b: "[7, 9] = mem_get (gd_ram ?g) (rd32 (gd_ram ?g) (0x1000 + 6)) (unat (2 :: DWORD))"
    unfolding p(3) by (simp add: mem_get_def gd0_ram upt_rec)
  have e: "[7, 9, 3, 4, 5] = put_at 0 [7, 9] [1, 2, 3, 4, 5 :: BYTE]" by (simp add: put_at_def)
  have t: "rd32 (gd_ram ?g) 0x100c = of_nat 1" using p(5) by simp
  have got: "[9, 3, 4] = take (unat (3 :: DWORD)) (drop 1 [7, 9, 3, 4, 5 :: BYTE])" by simp
  from write_seek_read [OF gd0_writing p(1) p(2) [symmetric] b e _ _ p(4) t p(6) _ p(7) p(8) [symmetric] p(9) [symmetric] _ refl got,
      of env0 no_rest]
  show ?thesis by (simp add: Let_def)
qed

end
