(* ===== verification/GdSession.thy ===== *)
theory GdSession
  imports GdSpec
begin

text \<open>
  From Fclose to the next Fopen: what was written through a handle is on the host's disk when it is
  closed, and a handle opened on the path afterwards reads it. The frame of the host, its disk and the
  names in its table, is what the commands on open files keep.
\<close>

section \<open>The frame\<close>

definition frame where
  "frame h = (h_disk h, map hostPath (h_files h), map atariHandle (h_files h), map (\<lambda>s. hostHandle s = None) (h_files h))"

lemma map_put_file:
  assumes "i < length files" and "hostHandle (files ! i) = Some f"
  shows "map hostPath (put_file i g files) = map hostPath files" "map atariHandle (put_file i g files) = map atariHandle files"
    "map (\<lambda>s. hostHandle s = None) (put_file i g files) = map (\<lambda>s. hostHandle s = None) files"
  using assms by (simp_all add: put_file_def map_update list_update_same_conv)

lemma frame_put_file: "i < length (h_files h) \<Longrightarrow> hostHandle (h_files h ! i) = Some f \<Longrightarrow>
    frame (fst (files_answer h (put_file i g (h_files h), r))) = frame h"
  by (simp add: frame_def files_answer_def map_put_file)

lemma frame_same: "frame (fst (files_answer h (h_files h, r))) = frame h"
  by (simp add: frame_def files_answer_def)

lemma on_slot_frame:
  assumes "\<And>i f. i < length (h_files h) \<Longrightarrow> hostHandle (h_files h ! i) = Some f \<Longrightarrow> frame (fst (files_answer h (k i f))) = frame h"
  shows "frame (fst (files_answer h (on_slot (h_files h) a k))) = frame h"
  using assms find_slot(1) [of "h_files h" a]
  by (auto simp: on_slot_def frame_same split: option.split)

lemma write_frame:
  assumes "long_cmd 0x40 cmd"
  shows "frame (fst (host_dev env rest h rd cmd d n)) = frame h"
proof -
  have "host_dev env rest h rd cmd d n = files_answer h (onFwrite (drop 1 cmd) d (h_files h))"
    using long_pCmd [OF assms] by (simp only: host_dev_def Let_def) simp
  then show ?thesis
    unfolding onFwrite_def Let_def by (auto intro!: on_slot_frame frame_put_file simp: frame_same)
qed

text \<open>The drives the driver knows.\<close>

definition kept_drives where
  "kept_drives g = (gd_ram g, currentDrive g, ceDrives g, lastCeDrivesUpdate g)"

lemma kept_drives_simps [simp]:
  "kept_drives (hd_done h st g) = kept_drives g" "kept_drives (set_fb c b g) = kept_drives g"
  "kept_drives (g\<lparr>commandLong := x\<rparr>) = kept_drives g" "kept_drives (set_short fn a g) = kept_drives g"
  "kept_drives (g\<lparr>pDmaBuffer := y\<rparr>) = kept_drives g"
  by (simp_all add: kept_drives_def hd_done_def set_fb_def set_short_def)

lemma kept_drives_init [simp]: "kept_drives (initFileBuffer c g) = kept_drives g"
  by (simp add: initFileBuffer_def)

text \<open>The commit at the start of Fclose.\<close>

lemma commit_frame:
  assumes "drv_ok g" and "unat c < 40" and "unat (fb_wCount (fb g c)) \<le> 512" and "host_file (gd_host g) (ucast c) = Some f" and "hf_writable f"
  shows "frame (gd_host (fst (commitChanges (host_dev env rest) c g))) = frame (gd_host g) \<and>
    kept_drives (fst (commitChanges (host_dev env rest) c g)) = kept_drives g"
proof (cases "fb_wCount (fb g c) = 0")
  case True
  with assms(2) show ?thesis by (simp add: commitChanges_def)
next
  case False
  let ?n = "ucast (fb_wCount (fb g c)) :: DWORD" and ?bfr = "fb_wBuf (fb g c)"
  let ?cmd = "(commandLong g)[5 := 0x40, 6 := ucast c, 7 := ucast (drop_bit 16 ?n), 8 := ucast (drop_bit 8 ?n), 9 := ucast ?n]"
  let ?g = "g\<lparr>commandLong := ?cmd\<rparr>"
  have l: "length (commandLong g) = 13" using assms(1) by (simp add: drv_ok_def long_cmd_def)
  have "take 5 ?cmd = take 5 (commandLong g)" by (simp add: take_update_cancel)
  note ok = drv_ok_long [OF assms(1) refl _ this, unfolded length_list_update, OF l]
  have n: "unat ?n = unat (fb_wCount (fb g c))" by simp
  have cmd: "?cmd ! 5 = 0x40" "?cmd ! 6 = ucast c" "count24 ?cmd = unat ?n"
    using l count24_bytes [of ?n] assms(3) by (simp_all add: count24_def)
  have pad: "unat ?n + (16 - unat ?n mod 16) mod 16 \<le> length ?bfr"
    using pad_le [of "unat ?n" 512] drv_ok_fb [OF assms(1,2)] assms(3) by (simp add: fb_shape_def)
  from host.write_law [OF ok(2) [unfolded cmd(1)], of "gd_host g" f ?bfr env rest "sectors ?n"] assms(3-5) pad
  obtain h ds where d: "host_dev env rest (gd_host g) False ?cmd ?bfr (sectors ?n) = (h, True, RW_ALL_TRANSFERED, ds)"
    unfolding cmd n by auto
  have s: "hddIfCmd_withRetries_lock (host_dev env rest) False ?cmd ?bfr (sectors ?n) ?g = (hd_done h RW_ALL_TRANSFERED ?g, ds)"
    by (rule hd_ok) (use d ok in simp_all)
  have "gd_host (fst (commitChanges (host_dev env rest) c g)) = h" "kept_drives (fst (commitChanges (host_dev env rest) c g)) = kept_drives g"
    using False assms(2) s by (simp_all add: commitChanges_def Let_def writeData_def rw_result_def)
  moreover have "frame h = frame (gd_host g)" using write_frame [OF ok(2) [unfolded cmd(1)], of env rest "gd_host g" False ?bfr "sectors ?n"] d by simp
  ultimately show ?thesis by simp
qed

section \<open>Closing\<close>

definition table_ok :: "TranslatedFiles list \<Rightarrow> bool" where
  "table_ok files \<longleftrightarrow> length files = 40 \<and> (\<forall>i < 40. case hostHandle (files ! i) of
     None \<Rightarrow> atariHandle (files ! i) = EIHNDL | Some f \<Rightarrow> atariHandle (files ! i) = of_nat i)"

text \<open>The buffer of a handle that is not open.\<close>

definition fb_closed :: "TFileBuffer \<Rightarrow> bool" where
  "fb_closed b \<longleftrightarrow> fb_shape b \<and> \<not> fb_isOpen b \<and> fb_rCount b = 0 \<and> fb_rStart b = 0 \<and> fb_wCount b = 0 \<and> fb_bytesToEOFinvalid b"

text \<open>Driver and host agree on what is open.\<close>

definition session_ok :: "ce_host gd \<Rightarrow> bool" where
  "session_ok g \<longleftrightarrow> drv_ok g \<and> table_ok (h_files (gd_host g)) \<and>
     (\<forall>d. unat d < 40 \<longrightarrow> hostHandle (h_files (gd_host g) ! unat d) = None \<longrightarrow> fb_closed (fb g d))"

lemma table_nth: "table_ok files \<Longrightarrow> i < 40 \<Longrightarrow>
    atariHandle (files ! i) = (if hostHandle (files ! i) = None then EIHNDL else of_nat i)"
  by (auto simp: table_ok_def split: option.splits)

lemma unat_of_nat_byte: "i < 40 \<Longrightarrow> unat (of_nat i :: BYTE) = i"
  by (simp add: unat_of_nat)

lemma of_nat_byte_eq: "i < 40 \<Longrightarrow> j < 40 \<Longrightarrow> (of_nat i :: BYTE) = of_nat j \<longleftrightarrow> i = j"
  by (metis unat_of_nat_byte)

lemma of_nat_not_EIHNDL: "i < 40 \<Longrightarrow> (of_nat i :: BYTE) \<noteq> EIHNDL"
  using unat_of_nat_byte [of i] by auto

lemma table_find:
  assumes "table_ok files" and "i < 40"
  shows "findFileHandleSlot files (of_nat i) = (if hostHandle (files ! i) = None then None else Some i)"
proof -
  have l: "length files = 40" using assms(1) by (simp add: table_ok_def)
  have "atariHandle (files ! j) = of_nat i \<longleftrightarrow> j = i \<and> hostHandle (files ! i) \<noteq> None" if "j < 40" for j
    using table_nth [OF assms(1) that] of_nat_byte_eq [OF that assms(2)] of_nat_not_EIHNDL [OF assms(2)] by (auto dest: sym)
  then show ?thesis
    using assms(2) by (auto simp: findFileHandleSlot_def l find_Some_iff find_None_iff)
qed

lemma table_opened:
  assumes "table_ok files" and "i < 40"
  shows "host_opened files (of_nat i) = hostHandle (files ! i)"
  by (simp add: host_opened_def table_find [OF assms])

lemma frame_table:
  assumes "frame h = frame h'"
  shows "table_ok (h_files h) = table_ok (h_files h')" and "h_disk h = h_disk h'"
    and "length (h_files h) = length (h_files h')"
    and "i < length (h_files h) \<Longrightarrow> hostPath (h_files h ! i) = hostPath (h_files h' ! i)"
    and "i < length (h_files h) \<Longrightarrow> (hostHandle (h_files h ! i) = None) = (hostHandle (h_files h' ! i) = None)"
proof -
  have m: "map hostPath (h_files h) = map hostPath (h_files h')" "map atariHandle (h_files h) = map atariHandle (h_files h')"
    "map (\<lambda>s. hostHandle s = None) (h_files h) = map (\<lambda>s. hostHandle s = None) (h_files h')"
    using assms by (simp_all add: frame_def)
  show l: "length (h_files h) = length (h_files h')" by (rule map_eq_imp_length_eq [OF m(1)])
  show "h_disk h = h_disk h'" using assms by (simp add: frame_def)
  show "hostPath (h_files h ! i) = hostPath (h_files h' ! i)" if "i < length (h_files h)" for i
    using that l arg_cong [OF m(1), of "\<lambda>xs. xs ! i"] by simp
  show n: "(hostHandle (h_files h ! i) = None) = (hostHandle (h_files h' ! i) = None)" if "i < length (h_files h)" for i
    using that l arg_cong [OF m(3), of "\<lambda>xs. xs ! i"] by simp
  have a: "atariHandle (h_files h ! i) = atariHandle (h_files h' ! i)" if "i < length (h_files h)" for i
    using that l arg_cong [OF m(2), of "\<lambda>xs. xs ! i"] by simp
  have "(case hostHandle (h_files h ! i) of None \<Rightarrow> atariHandle (h_files h ! i) = EIHNDL | Some f \<Rightarrow> atariHandle (h_files h ! i) = of_nat i) =
      (case hostHandle (h_files h' ! i) of None \<Rightarrow> atariHandle (h_files h' ! i) = EIHNDL | Some f \<Rightarrow> atariHandle (h_files h' ! i) = of_nat i)"
    if "i < length (h_files h)" for i
    using n [OF that] a [OF that] by (auto split: option.splits)
  then show "table_ok (h_files h) = table_ok (h_files h')" unfolding table_ok_def using l by auto
qed

section \<open>Closing\<close>

lemma host_close:
  assumes "short_cmd 0x3e cmd" and "findFileHandleSlot (h_files h) (cmd ! 5) = Some i" and "hostHandle (h_files h ! i) = Some f"
    and "16 \<le> length d"
  shows "host_dev env rest h rd cmd d n =
    (h\<lparr>h_disk := (if hf_writable f then (h_disk h)(hostPath (h_files h ! i) \<mapsto> hf_data f) else h_disk h),
       h_files := (h_files h)[i := \<lparr>hostHandle = None, atariHandle = EIHNDL, hostPath = []\<rparr>]\<rparr>, True, E_OK, [])"
  using assms by (simp add: host_dev_def short_cmd_def Let_def onFclose_def)

text \<open>A write command that succeeds at once.\<close>

lemma hd_write_short_ok:
  assumes "drv_ok g" and "dev (gd_host g) False (commandShort g) (pDmaBuffer g) 1 = (h, True, st, ds)"
  shows "hd_write_short dev g = hd_done h st g"
proof -
  have "drop_bit 5 (commandShort g ! 0) \<noteq> hd_hostId (hdIf g)" using assms(1) by (simp add: drv_ok_def)
  from hd_ok [where dev = dev and rd = False, OF assms(2) this] show ?thesis by (simp add: hd_write_short_def)
qed

lemma table_close:
  assumes "table_ok files"
  shows "table_ok (files[i := \<lparr>hostHandle = None, atariHandle = EIHNDL, hostPath = []\<rparr>])"
  unfolding table_ok_def
proof (intro conjI allI impI)
  fix j :: nat
  assume "j < 40"
  with assms show "case hostHandle (files[i := \<lparr>hostHandle = None, atariHandle = EIHNDL, hostPath = []\<rparr>] ! j) of
      None \<Rightarrow> atariHandle (files[i := \<lparr>hostHandle = None, atariHandle = EIHNDL, hostPath = []\<rparr>] ! j) = EIHNDL
    | Some f \<Rightarrow> atariHandle (files[i := \<lparr>hostHandle = None, atariHandle = EIHNDL, hostPath = []\<rparr>] ! j) = of_nat j"
    by (cases "j = i") (auto simp: table_ok_def split: option.splits)
qed (use assms in \<open>simp add: table_ok_def\<close>)

lemma ucast_of_nat_unat: "unat c < 40 \<Longrightarrow> (ucast (c :: WORD) :: BYTE) = of_nat (unat c)"
  by (simp add: word_unat_eq_iff unat_of_nat)

lemma init_closed:
  assumes "drv_ok g" and "unat c < 40"
  shows "drv_ok (initFileBuffer c g)" and "fb_closed (fb (initFileBuffer c g) c)" and "d \<noteq> c \<Longrightarrow> fb (initFileBuffer c g) d = fb g d"
    and "gd_host (initFileBuffer c g) = gd_host g"
proof -
  let ?b = "(fb g c)\<lparr>fb_isOpen := False, fb_currentPos := 0, fb_rCount := 0, fb_rStart := 0,
     fb_bytesToEOF := 0, fb_bytesToEOFinvalid := True, fb_wCount := 0\<rparr>"
  have i: "initFileBuffer c g = set_fb c ?b g" using assms(2) by (simp add: initFileBuffer_def)
  have sh: "fb_shape ?b" using drv_ok_fb [OF assms] by (simp add: fb_shape_def)
  show "drv_ok (initFileBuffer c g)" unfolding i by (rule drv_ok_set_fb [OF assms(1) sh])
  show "fb_closed (fb (initFileBuffer c g) c)" unfolding i fb_set_fb(1) [OF assms] using sh by (simp add: fb_closed_def)
  show "d \<noteq> c \<Longrightarrow> fb (initFileBuffer c g) d = fb g d" unfolding i by (rule fb_set_fb(2) [OF assms])
  show "gd_host (initFileBuffer c g) = gd_host g" by (simp add: i set_fb_def)
qed

lemma fb_hd_done [simp]: "fb (hd_done h st g) d = fb g d" "fb (set_short fn a g) d = fb g d"
  by (simp_all add: fb_def hd_done_def set_short_def)

lemma fclose_stores:
  assumes "at_pos host_file g c f D P" and "hf_writable f" and "session_ok g"
    and "rd16 (gd_ram g) sp = handleCEtoAtari c" and "path = hostPath (h_files (gd_host g) ! unat c)"
  shows "\<exists>g'. custom_fclose (host_dev env rest) sp g = (g', Ret 0) \<and> session_ok g' \<and>
    h_disk (gd_host g') = (h_disk (gd_host g))(path \<mapsto> D) \<and> hostHandle (h_files (gd_host g') ! unat c) = None \<and>
    (\<forall>d. d \<noteq> c \<longrightarrow> fb g' d = fb g d) \<and> kept_drives g' = kept_drives g"
proof -
  note p = at_posD [OF assms(1)]
  have w: "unat (fb_wCount (fb g c)) \<le> 512"
    using assms(1) by (auto simp: at_pos_def open_at_def writing_at_def wstream_def)
  from host.commit_any_ok [OF assms(1)] obtain g1 f1 where
    1: "commitChanges (host_dev env rest) c g = (g1, True)" "drv_ok g1" "others host_file c g g1" "gd_ram g1 = gd_ram g"
    "host_file (gd_host g1) (ucast c) = Some f1" "hf_data f1 = D" "hf_writable f1" using assms(2) by metis
  have fr: "frame (gd_host g1) = frame (gd_host g)" and dr: "kept_drives g1 = kept_drives g"
    using commit_frame [OF p(1,2) w p(3) assms(2), of env rest] by (simp_all add: 1(1))
  note t = frame_table [OF fr]
  have tab: "table_ok (h_files (gd_host g1))" using assms(3) t(1) by (simp add: session_ok_def)
  then have len: "length (h_files (gd_host g1)) = 40" by (simp add: table_ok_def)
  note ic = init_closed [OF 1(2) p(2)]
  let ?g = "set_short 0x3e (ucast c) (initFileBuffer c g1)"
  note sh = drv_ok_short [OF ic(1), where fn = "0x3e" and a = "ucast c"]
  have op: "hostHandle (h_files (gd_host g1) ! unat c) = Some f1"
    using 1(5) unfolding host_file_def ucast_of_nat_unat [OF p(2)] table_opened [OF tab p(2)] .
  have find: "findFileHandleSlot (h_files (gd_host g1)) (commandShort ?g ! 5) = Some (unat c)"
    by (subst sh(3)) (simp only: ucast_of_nat_unat [OF p(2)] table_find [OF tab p(2)] op option.distinct if_False)
  let ?h = "(gd_host g1)\<lparr>h_disk := (h_disk (gd_host g1))(path \<mapsto> D),
     h_files := (h_files (gd_host g1))[unat c := \<lparr>hostHandle = None, atariHandle = EIHNDL, hostPath = []\<rparr>]\<rparr>"
  have path: "hostPath (h_files (gd_host g1) ! unat c) = path" using t(4) len p(2) by (simp add: assms(5))
  have hg: "gd_host ?g = gd_host g1" by (simp add: sh(5) ic(4))
  have "length (pDmaBuffer ?g) = 512" using sh(1) by (simp add: drv_ok_def)
  then have "host_dev env rest (gd_host ?g) False (commandShort ?g) (pDmaBuffer ?g) 1 = (?h, True, E_OK, [])"
    unfolding hg using host_close [OF sh(2) find op, of "pDmaBuffer ?g"] 1(6,7) path by simp
  from hd_write_short_ok [where dev = "host_dev env rest", OF sh(1) this] have c: "hd_write_short (host_dev env rest) ?g = hd_done ?h E_OK ?g" .
  have "custom_fclose (host_dev env rest) sp g = (hd_done ?h E_OK ?g, Ret 0)"
    using p(2,4) 1(1) c unfolding custom_fclose_def Let_def assms(4) ce_handle(2) [OF p(2)]
    by (simp add: ce_handle(1) [OF p(2)] not_le [symmetric] status_or_def unhandled_def extendByteToDword_def)
  moreover have "session_ok (hd_done ?h E_OK ?g)"
    unfolding session_ok_def
  proof (intro conjI allI impI)
    show "drv_ok (hd_done ?h E_OK ?g)" using sh(1) by simp
    show "table_ok (h_files (gd_host (hd_done ?h E_OK ?g)))" using table_close [OF tab] by simp
    fix d :: WORD
    assume d: "unat d < 40" and n: "hostHandle (h_files (gd_host (hd_done ?h E_OK ?g)) ! unat d) = None"
    show "fb_closed (fb (hd_done ?h E_OK ?g) d)"
    proof (cases "d = c")
      case True
      with ic(2) show ?thesis by simp
    next
      case False
      then have "unat d \<noteq> unat c" by (simp add: word_unat_eq_iff)
      with n have "hostHandle (h_files (gd_host g1) ! unat d) = None" by simp
      then have "hostHandle (h_files (gd_host g) ! unat d) = None" using t(5) len d by simp
      then have "fb_closed (fb g d)" using assms(3) d by (simp add: session_ok_def)
      then show ?thesis using False ic(3) 1(3) by (simp add: others_def)
    qed
  qed
  ultimately show ?thesis
    using len p(2) t(2) ic(3) 1(3) dr by (intro exI [of _ "hd_done ?h E_OK ?g"]) (simp add: others_def)
qed

section \<open>Opening\<close>

text \<open>The driver knows, from a map that is not older than three seconds, that the drive is the host's.\<close>

definition drive_known :: "'h gd \<Rightarrow> WORD \<Rightarrow> bool" where
  "drive_known g drive \<longleftrightarrow> 2 \<le> drive \<and> drive \<le> 15 \<and> rd32 (gd_ram g) HZ_200 - lastCeDrivesUpdate g < 600 \<and>
     ceDrives g AND push_bit (unat drive) 1 \<noteq> 0"

lemma drive_known_ours: "drive_known g drive \<Longrightarrow> isOurDrive dev drive False g = (g, True)"
  by (simp add: drive_known_def isOurDrive_def updateCeDrives_def Let_def not_less not_le)

lemma kept_drives_known:
  assumes "kept_drives g' = kept_drives g"
  shows "drive_known g' d = drive_known g d" and "getDriveFromPath p g' = getDriveFromPath p g" and "gd_ram g' = gd_ram g"
  using assms by (simp_all add: kept_drives_def drive_known_def getDriveFromPath_def Let_def)

text \<open>The name arrives at the host.\<close>

lemma c_string_append: "0 \<notin> set s \<Longrightarrow> c_string (s @ 0 # t) = s"
  unfolding c_string_def by (induction s) auto

lemma put_name_bytes:
  assumes "length (pDmaBuffer g) = 512" and "strncpy_bytes (gd_ram g) name 511 = s @ [0]" and "0 \<notin> set s"
  shows "length (pDmaBuffer (put_name x name g)) = 512" and "pDmaBuffer (put_name x name g) ! 0 = ucast x"
    and "c_string (drop 1 (pDmaBuffer (put_name x name g))) = s"
proof -
  let ?buf = "(pDmaBuffer g)[0 := ucast x]"
  have p: "pDmaBuffer (put_name x name g) = take 1 ?buf @ overwrite (drop 1 ?buf) (s @ [0])"
    using assms(2) by (simp add: put_name_def buf_put_def)
  have len: "length (strncpy_bytes m a n) \<le> n" for m a n
    by (induction n arbitrary: a) auto
  have l: "length (s @ [0]) \<le> 511" using len [of "gd_ram g" name 511] assms(2) by simp
  have one: "take 1 ?buf = [ucast x]" using assms(1) by (cases "pDmaBuffer g") simp_all
  show "length (pDmaBuffer (put_name x name g)) = 512" unfolding p using assms(1) by simp
  show "pDmaBuffer (put_name x name g) ! 0 = ucast x" unfolding p one by simp
  have "overwrite (drop 1 ?buf) (s @ [0]) = s @ 0 # drop (length s + 1) (drop 1 ?buf)"
    using l assms(1) by (simp add: overwrite_def)
  then show "c_string (drop 1 (pDmaBuffer (put_name x name g))) = s"
    unfolding p one using c_string_append [OF assms(3)] by simp
qed

lemma host_eof:
  assumes "short_cmd 0x65 cmd"
  shows "fst (host_dev env rest h rd cmd d n) = h"
  using assms by (auto simp: host_dev_def short_cmd_def Let_def getByteCountToEndOfFile_def files_answer_def on_slot_def split: option.split)

lemma table_new:
  assumes "table_ok files"
  shows "table_ok (new_file i d w path files)"
  unfolding table_ok_def
proof (intro conjI allI impI)
  fix j :: nat
  assume "j < 40"
  with assms show "case hostHandle (new_file i d w path files ! j) of
      None \<Rightarrow> atariHandle (new_file i d w path files ! j) = EIHNDL
    | Some f \<Rightarrow> atariHandle (new_file i d w path files ! j) = of_nat j"
    by (cases "j = i") (auto simp: table_ok_def new_file_def split: option.splits)
qed (use assms in \<open>simp add: table_ok_def new_file_def\<close>)

lemma eof_keeps_host:
  assumes "drv_ok g" and "host_file (gd_host g) (ucast c) = Some f"
  shows "gd_host (getBytesToEof (host_dev env rest) c g) = gd_host g"
    and "kept_drives (getBytesToEof (host_dev env rest) c g) = kept_drives g"
proof -
  let ?g = "set_short 0x65 (ucast c) g" and ?dev = "host_dev env rest"
  note sh = drv_ok_short [OF assms(1), where fn = "0x65" and a = "ucast c"]
  from host.eof_law [OF sh(2), of "gd_host g" f env rest "pDmaBuffer ?g" 1] assms(2)
  obtain h ds where d: "?dev (gd_host ?g) True (commandShort ?g) (pDmaBuffer ?g) 1 = (h, True, E_OK, ds)" unfolding sh(3,5) by auto
  have h: "h = gd_host g" using host_eof [OF sh(2), of env rest "gd_host ?g" True "pDmaBuffer ?g" 1] d sh(5) by simp
  from hd_ok [where dev = ?dev and rd = True, OF d sh(4)]
  have r: "hd_read_short ?dev ?g = (hd_done h E_OK ?g)\<lparr>pDmaBuffer := overwrite (pDmaBuffer ?g) ds\<rparr>"
    by (simp add: hd_read_short_def)
  show "gd_host (getBytesToEof ?dev c g) = gd_host g" "kept_drives (getBytesToEof ?dev c g) = kept_drives g"
    by (simp_all add: getBytesToEof_def Let_def r h set_fb_def) (simp_all add: kept_drives_def hd_done_def set_short_def)
qed

lemma findEmptyFileSlotD:
  assumes "findEmptyFileSlot files = Some i"
  shows "i < length files" and "hostHandle (files ! i) = None"
  using assms by (auto simp: findEmptyFileSlot_def find_Some_iff)

lemma fopen_reads:
  assumes "session_ok g" and "name = rd32 (gd_ram g) sp" and "drive_known g (getDriveFromPath name g)"
    and "strncpy_bytes (gd_ram g) name 511 = s @ [0]" and "0 \<notin> set s"
    and "m = ucast (rd16 (gd_ram g) (sp + 4)) AND (7 :: BYTE)" and "w = (m = 1 \<or> m = 2)"
    and "he_resolve env s = HostPath path ro" and "m = 0 \<or> \<not> ro" and "he_fopen env path w"
    and "h_disk (gd_host g) path = Some d" and "length d < 2147483648"
    and "findEmptyFileSlot (h_files (gd_host g)) = Some j"
  shows "\<exists>g' f. custom_fopen (host_dev env rest) sp g = (g', Ret (ucast (handleCEtoAtari (of_nat j)))) \<and>
    seeked host_file g' (of_nat j) f d 0 \<and> hf_writable f = w \<and> session_ok g' \<and> kept_drives g' = kept_drives g \<and>
    h_disk (gd_host g') = h_disk (gd_host g) \<and> hostPath (h_files (gd_host g') ! j) = path"
proof -
  let ?dev = "host_dev env rest"
  have tab: "table_ok (h_files (gd_host g))" and ok: "drv_ok g" using assms(1) by (simp_all add: session_ok_def)
  have len: "length (h_files (gd_host g)) = 40" using tab by (simp add: table_ok_def)
  note e = findEmptyFileSlotD [OF assms(13)]
  have j: "j < 40" using e(1) len by simp
  let ?g1 = "set_short 0x3d 0 g"
  let ?g2 = "put_name (rd16 (gd_ram g) (sp + 4)) name ?g1"
  note sh = drv_ok_short [OF ok, where fn = "0x3d" and a = "0"]
  have r1: "gd_ram ?g1 = gd_ram g" "pDmaBuffer ?g1 = pDmaBuffer g" by (simp_all add: set_short_def)
  have "length (pDmaBuffer ?g1) = 512" using sh(1) by (simp add: drv_ok_def)
  note nm = put_name_bytes [OF this, unfolded r1(1), OF assms(4,5), where x = "rd16 (gd_ram g) (sp + 4)"]
  have ok2: "drv_ok ?g2" using sh(1) nm(1) drv_ok_dma [of "pDmaBuffer ?g2" ?g1] by (simp add: put_name_def)
  have g2: "gd_host ?g2 = gd_host g" "commandShort ?g2 = commandShort ?g1" "kept_drives ?g2 = kept_drives g" "fb ?g2 c = fb g c" for c
    by (simp_all add: put_name_def set_short_def kept_drives_def fb_def)
  let ?h = "(gd_host g)\<lparr>h_files := new_file j d w path (h_files (gd_host g))\<rparr>"
  have "onFopen env (pDmaBuffer ?g2) (gd_host g) = (?h, True, of_nat j, [])"
    using nm assms(6-11,13) by (auto simp: onFopen_def Let_def)
  then have "?dev (gd_host ?g2) False (commandShort ?g2) (pDmaBuffer ?g2) 1 = (?h, True, of_nat j, [])"
    using sh(2) unfolding g2 by (simp add: host_dev_def short_cmd_def Let_def)
  from hd_write_short_ok [where dev = ?dev, OF ok2 this]
  have wr: "hd_write_short ?dev ?g2 = hd_done ?h (of_nat j) ?g2" .
  let ?c = "of_nat j :: WORD" and ?g3 = "hd_done ?h (of_nat j) ?g2"
  have uc: "unat ?c = j" using j by (simp add: unat_of_nat)
  have ub: "unat (of_nat j :: BYTE) = j" by (rule unat_of_nat_byte [OF j])
  have cb: "ucast (of_nat j :: BYTE) = ?c" using ub uc by (simp add: word_unat_eq_iff)
  have bc: "(ucast ?c :: BYTE) = of_nat j" using ub uc j by (simp add: word_unat_eq_iff)
  have c40: "unat ?c < 40" using uc j by simp
  have cl: "fb_closed (fb g ?c)" using assms(1) c40 e(2) uc by (simp add: session_ok_def)
  let ?b = "(fb ?g3 ?c)\<lparr>fb_isOpen := True, fb_currentPos := 0\<rparr>"
  let ?g4 = "set_fb ?c ?b ?g3" and ?f = "\<lparr>hf_data = d, hf_pos = 0, hf_last = 0, hf_writable = w\<rparr>"
  have ok3: "drv_ok ?g3" using ok2 by simp
  have b3: "fb ?g3 ?c = fb g ?c" using g2(4) by simp
  have "fb_shape ?b" using cl b3 by (simp add: fb_closed_def fb_shape_def)
  note ok4 = drv_ok_set_fb [OF ok3 this]
  note f4 = fb_set_fb [OF ok3 c40]
  have tab4: "table_ok (new_file j d w path (h_files (gd_host g)))" by (rule table_new [OF tab])
  have h4: "gd_host ?g4 = ?h" by (simp add: set_fb_def)
  have "host_file (gd_host ?g4) (ucast ?c) = Some ?f"
    unfolding h4 bc host_file_def using table_opened [OF tab4 j] e(1) by (simp add: new_file_def)
  then have st: "stream host_file ?g4 ?c ?f"
    using ok4 c40 f4(1) cl b3 assms(12) by (simp add: stream_def fb_closed_def rbuf_rel_def left_in_def)
  from host.getBytesToEof_ok [OF st, of env rest] obtain g5 where
    5: "getBytesToEof ?dev ?c ?g4 = g5" "stream host_file g5 ?c ?f" "others host_file ?c ?g4 g5" "gd_ram g5 = gd_ram ?g4"
    "fb g5 ?c = ?b\<lparr>fb_bytesToEOF := to_eof ?f, fb_bytesToEOFinvalid := False\<rparr>" using f4(1) by auto
  note k = eof_keeps_host [OF ok4 \<open>host_file (gd_host ?g4) (ucast ?c) = Some ?f\<close>, of env rest, unfolded 5(1) h4]
  have s5: "seeked host_file g5 ?c ?f d 0"
    using 5(2) cl b3 c40
    by (auto simp: seeked_def open_at_def writing_at_def wstream_def stream_def 5(5) stream_pos_def left_in_def to_eof_def fb_closed_def
        wpos_def)
  have "session_ok g5"
    unfolding session_ok_def k(1)
  proof (intro conjI allI impI)
    show "drv_ok g5" using 5(2) by (simp add: stream_def)
    show "table_ok (h_files ?h)" using tab4 by simp
    fix x :: WORD
    assume x: "unat x < 40" and n: "hostHandle (h_files ?h ! unat x) = None"
    then have "unat x \<noteq> j" using e(1) by (auto simp: new_file_def)
    then have "x \<noteq> ?c" using uc by auto
    then have "fb g5 x = fb g x" using 5(3) f4(2) g2(4) by (simp add: others_def)
    moreover have "hostHandle (h_files (gd_host g) ! unat x) = None" using n \<open>unat x \<noteq> j\<close> by (simp add: new_file_def)
    ultimately show "fb_closed (fb g5 x)" using assms(1) x by (simp add: session_ok_def)
  qed
  moreover have "kept_drives g5 = kept_drives g" using k(2) g2(3) by simp
  moreover have "custom_fopen ?dev sp g = (g5, Ret (ucast (handleCEtoAtari ?c)))"
  proof -
    have st: "(of_nat j :: BYTE) \<noteq> 0x7f" "(of_nat j :: BYTE) \<noteq> 0xdd" "(of_nat j :: BYTE) \<noteq> 0xdc" "(of_nat j :: BYTE) \<noteq> 0xbf"
      "(of_nat j :: BYTE) \<noteq> 0xdf"
      using ub j by auto
    show ?thesis
      unfolding custom_fopen_def Let_def assms(2) [symmetric] drive_known_ours [OF assms(3)] split if_False not_True_eq_False wr
      using st cb c40 5(1) by (simp add: unhandled_def not_le [symmetric])
  qed
  ultimately show ?thesis
    using s5 e(1) by (intro exI [of _ g5] exI [of _ ?f]) (simp add: k(1) new_file_def)
qed

end
