(* ===== verification/GdReopen.thy ===== *)
theory GdReopen
  imports GdSession
begin

text \<open>
  Closing a written file and opening its path again, with a concrete session.
\<close>

section \<open>Strings in RAM\<close>

lemma strlen_eq:
  assumes "n < 2048" and "m (a + of_nat n) = 0" and "\<And>i. i < n \<Longrightarrow> m (a + of_nat i) \<noteq> 0"
  shows "strlen m a = n"
proof -
  have "List.find (\<lambda>i. m (a + of_nat i) = 0) [0..<2048] = Some n"
    unfolding find_Some_iff using assms by (intro exI [of _ n]) (auto simp del: upt_rec_numeral)
  then show ?thesis by (simp add: strlen_def del: upt_rec_numeral)
qed

lemma strncpy_step: "0 < n \<Longrightarrow> strncpy_bytes m a n = (if m a = 0 then [0] else m a # strncpy_bytes m (a + 1) (n - 1))"
  by (cases n) simp_all

lemma path_on_C:
  assumes "m a = 0x43" and "m (a + 1) = 0x3a" and "m (a + 2) \<noteq> 0" and "m (a + 3) \<noteq> 0" and "m (a + 4) = 0" and "gd_ram g = m"
  shows "getDriveFromPath a g = 2"
proof -
  have len: "strlen m a = 4"
  proof (rule strlen_eq)
    fix i :: nat
    assume "i < 4"
    then consider "i = 0" | "i = 1" | "i = 2" | "i = 3" by linarith
    then show "m (a + of_nat i) \<noteq> 0" by cases (use assms(1-5) in simp_all)
  qed (use assms(5) in simp_all)
  show ?thesis unfolding getDriveFromPath_def assms(6) len using assms(1,2) by (simp add: Let_def)
qed

lemma empty_slot_exists:
  assumes "i < length files" and "hostHandle (files ! i) = None"
  shows "\<exists>j. findEmptyFileSlot files = Some j"
proof (cases "findEmptyFileSlot files")
  case None
  with assms show ?thesis by (auto simp: findEmptyFileSlot_def find_None_iff)
qed simp

section \<open>The round trip\<close>

text \<open>
  C30: a file that was written through a handle, closed, and opened again by its path has the content the
  writes made, those still buffered at the close included: the close succeeds and frees the handle on both
  sides, and the new handle, the first free one, is at the start of that content.
\<close>

theorem close_open_content:
  assumes "at_pos host_file g c f D P" and "hf_writable f" and "session_ok g" and "length D < 2147483648"
    and "rd16 (gd_ram g) sp1 = handleCEtoAtari c" and "path = hostPath (h_files (gd_host g) ! unat c)"
    and "name = rd32 (gd_ram g) sp2" and "drive_known g (getDriveFromPath name g)"
    and "strncpy_bytes (gd_ram g) name 511 = s @ [0]" and "0 \<notin> set s"
    and "m = ucast (rd16 (gd_ram g) (sp2 + 4)) AND (7 :: BYTE)" and "w = (m = 1 \<or> m = 2)"
    and "he_resolve env s = HostPath path ro" and "m = 0 \<or> \<not> ro" and "he_fopen env path w"
  shows "\<exists>g1 g2 j f'. custom_fclose (host_dev env rest) sp1 g = (g1, Ret 0) \<and>
    hostHandle (h_files (gd_host g1) ! unat c) = None \<and> fb_closed (fb g1 c) \<and>
    findEmptyFileSlot (h_files (gd_host g1)) = Some j \<and>
    custom_fopen (host_dev env rest) sp2 g1 = (g2, Ret (ucast (handleCEtoAtari (of_nat j)))) \<and>
    seeked host_file g2 (of_nat j) f' D 0 \<and> hf_writable f' = w \<and> session_ok g2"
proof -
  note c = at_posD(2) [OF assms(1)]
  from fclose_stores [OF assms(1-3,5,6), of env rest] obtain g1 where
    1: "custom_fclose (host_dev env rest) sp1 g = (g1, Ret 0)" "session_ok g1"
    "h_disk (gd_host g1) = (h_disk (gd_host g))(path \<mapsto> D)" "hostHandle (h_files (gd_host g1) ! unat c) = None"
    "kept_drives g1 = kept_drives g" by blast
  have t: "table_ok (h_files (gd_host g1))" using 1(2) by (simp add: session_ok_def)
  then have "unat c < length (h_files (gd_host g1))" using c by (simp add: table_ok_def)
  from empty_slot_exists [OF this 1(4)] obtain j where j: "findEmptyFileSlot (h_files (gd_host g1)) = Some j" ..
  note k = kept_drives_known [OF 1(5)]
  have d: "h_disk (gd_host g1) path = Some D" by (simp add: 1(3))
  from fopen_reads [OF 1(2), unfolded k, OF assms(7-15) d assms(4) j, of rest] obtain g2 f' where
    "custom_fopen (host_dev env rest) sp2 g1 = (g2, Ret (ucast (handleCEtoAtari (of_nat j))))"
    "seeked host_file g2 (of_nat j) f' D 0" "hf_writable f' = w" "session_ok g2" by blast
  moreover have "fb_closed (fb g1 c)" using 1(2,4) c by (simp add: session_ok_def)
  ultimately show ?thesis using 1(1,4) j by blast
qed

section \<open>A concrete session\<close>

definition fb1 :: TFileBuffer where
  "fb1 = fb0\<lparr>fb_isOpen := False\<rparr>"

definition host1 :: ce_host where
  "host1 = \<lparr>h_files = \<lparr>hostHandle = Some file0, atariHandle = 0, hostPath = [0x43, 0x3a, 0x5c, 0x58]\<rparr> #
     replicate 39 \<lparr>hostHandle = None, atariHandle = EIHNDL, hostPath = []\<rparr>, h_finds = [], h_disk = (\<lambda>_. None)\<rparr>"

definition gd1 :: "BYTE list \<Rightarrow> ce_host gd" where
  "gd1 ps = (gd0 host1 ps)\<lparr>fileBufs := fb0 # replicate 39 fb1, ceDrives := 4\<rparr>"

lemma gd1_simps: "gd_ram (gd1 ps) = mem_put (\<lambda>_. 0) 0x1000 ps" "gd_host (gd1 ps) = host1"
  "fb (gd1 ps) 0 = fb0" "unat d < 40 \<Longrightarrow> d \<noteq> 0 \<Longrightarrow> fb (gd1 ps) d = fb1"
  by (simp_all add: gd1_def gd0_def fb_def nth_Cons' word_unat_eq_iff)

lemma gd1_session: "session_ok (gd1 ps)"
proof -
  have "drv_ok (gd1 ps)"
    using drv_ok_gd0 [of host1 ps] by (simp add: gd1_def drv_ok_def fb1_def fb0_def fb_shape_def)
  moreover have "table_ok (h_files host1)"
    by (auto simp: table_ok_def host1_def nth_Cons' split: option.split)
  moreover have "fb_closed (fb (gd1 ps) d)" if "unat d < 40" "hostHandle (h_files host1 ! unat d) = None" for d
  proof -
    have "d \<noteq> 0" using that(2) by (auto simp: host1_def)
    then show ?thesis using gd1_simps(4) [OF that(1)] by (simp add: fb_closed_def fb1_def fb0_def fb_shape_def)
  qed
  ultimately show ?thesis by (simp add: session_ok_def gd1_simps)
qed

lemma gd1_file: "host_file host1 0 = Some file0"
  by (simp add: host_file_def host_opened_def findFileHandleSlot_def host1_def upt_rec)

lemma gd1_at: "at_pos host_file (gd1 ps) 0 file0 [1, 2, 3, 4, 5] 0"
proof -
  have "drv_ok (gd1 ps)" using gd1_session [of ps] by (simp add: session_ok_def)
  then show ?thesis
    by (simp add: at_pos_def writing_at_def wstream_def gd1_simps gd1_file wpos_def) (simp add: file0_def fb0_def)
qed

text \<open>Close handle 80, open \<open>C:\X\<close> for reading.\<close>

definition ps1 :: "BYTE list" where
  "ps1 = [0, 80, 0, 0, 0x10, 8, 0, 0, 0x43, 0x3a, 0x5c, 0x58, 0]"

lemma close_open_content_witness:
  "\<exists>g1 g2 f'. custom_fclose (host_dev env0 no_rest) 0x1000 (gd1 ps1) = (g1, Ret 0) \<and>
    custom_fopen (host_dev env0 no_rest) 0x1002 g1 = (g2, Ret 80) \<and> seeked host_file g2 0 f' [1, 2, 3, 4, 5] 0"
proof -
  have ram: "gd_ram (gd1 ps1) = mem_put (\<lambda>_. 0) 0x1000 [0, 80, 0, 0, 0x10, 8, 0, 0, 0x43, 0x3a, 0x5c, 0x58, 0]"
    by (simp add: gd1_simps ps1_def)
  have p: "rd16 (gd_ram (gd1 ps1)) 0x1000 = handleCEtoAtari 0" "rd32 (gd_ram (gd1 ps1)) 0x1002 = 0x1008"
    "rd16 (gd_ram (gd1 ps1)) 0x1006 = 0"
    by (simp_all add: ram rd16_def rd32_def be16_def be32_def handleCEtoAtari_def)
  have drv: "getDriveFromPath 0x1008 (gd1 ps1) = 2" by (rule path_on_C [OF _ _ _ _ _ ram]) simp_all
  have known: "drive_known (gd1 ps1) 2"
    by (simp add: drive_known_def ram rd32_def be32_def) (simp add: gd1_def gd0_def)
  have name: "strncpy_bytes (gd_ram (gd1 ps1)) 0x1008 511 = [0x43, 0x3a, 0x5c, 0x58] @ [0]"
    by (simp add: strncpy_step ram)
  have path: "hostPath (h_files (gd_host (gd1 ps1)) ! unat (0 :: WORD)) = [0x43, 0x3a, 0x5c, 0x58]"
    by (simp add: gd1_simps host1_def)
  have "\<exists>g1 g2 j f'. custom_fclose (host_dev env0 no_rest) 0x1000 (gd1 ps1) = (g1, Ret 0) \<and>
    hostHandle (h_files (gd_host g1) ! unat (0 :: WORD)) = None \<and> fb_closed (fb g1 0) \<and>
    findEmptyFileSlot (h_files (gd_host g1)) = Some j \<and>
    custom_fopen (host_dev env0 no_rest) 0x1002 g1 = (g2, Ret (ucast (handleCEtoAtari (of_nat j)))) \<and>
    seeked host_file g2 (of_nat j) f' [1, 2, 3, 4, 5] 0 \<and> hf_writable f' = False \<and> session_ok g2"
    by (rule close_open_content [OF gd1_at _ gd1_session _ p(1) path [symmetric] p(2) [symmetric], where s = "[0x43, 0x3a, 0x5c, 0x58]" and m = 0 and ro = False])
      (simp_all add: drv known name p(3) env0_def file0_def)
  then obtain g1 g2 j f' where 1: "custom_fclose (host_dev env0 no_rest) 0x1000 (gd1 ps1) = (g1, Ret 0)"
    "hostHandle (h_files (gd_host g1) ! 0) = None" "findEmptyFileSlot (h_files (gd_host g1)) = Some j"
    "custom_fopen (host_dev env0 no_rest) 0x1002 g1 = (g2, Ret (ucast (handleCEtoAtari (of_nat j))))"
    "seeked host_file g2 (of_nat j) f' [1, 2, 3, 4, 5] 0" by auto
  have "hostHandle (h_files (gd_host g1) ! i) \<noteq> None" if "i < j" for i
    using 1(3) that by (auto simp: findEmptyFileSlot_def find_Some_iff)
  from this [of 0] 1(2) have "\<not> 0 < j" by blast
  then have "j = 0" by simp
  with 1 show ?thesis by (auto simp: handleCEtoAtari_def)
qed

end
