(* ===== verification/GdMore.thy ===== *)
theory GdMore
  imports GdReopen
begin

text \<open>
  More of the driver: the retries, the wait for a mount, the layout of Frename's buffer, calls that are
  not the driver's, and indices outside the table of file buffers.
\<close>

section \<open>Retries\<close>

text \<open>A device that remembers the commands and succeeds on the second.\<close>

definition log_dev :: "BYTE list list device" where
  "log_dev h rd cmd data n = (h @ [cmd], h \<noteq> [], 7, [])"

lemma hdd_retry_protocol_witness:
  "outcome (hddIfCmd_withRetries_lock log_dev True [0, 0x43, 0x45, 3, 0x19, 0] [] 1 (gd0 [] [])) =
     ([[0, 0x43, 0x45, 3, 0x19, 0], [0, 0x43, 0x45, 0x83, 0x19, 0]], True, 7, [])"
proof -
  have "replicate (nat (hd_maxRetries (hdIf (gd0 [] [])))) (retry_cmd [0, 0x43, 0x45, 3, 0x19, 0]) =
      retry_cmd [0, 0x43, 0x45, 3, 0x19, 0] # replicate 15 (retry_cmd [0, 0x43, 0x45, 3, 0x19, 0])"
    by (simp add: gd0_def numeral_eq_Suc)
  moreover have "retry_cmd [0, 0x43, 0x45, 3, 0x19, 0] = [0, 0x43, 0x45, 0x83, 0x19, 0]" by (simp add: retry_cmd_def)
  ultimately show ?thesis
    using hdd_retry_protocol [of "[0, 0x43, 0x45, 3, 0x19, 0]" "gd0 [] []" log_dev True "[]" 1]
    by (simp add: gd0_def log_dev_def overlay_def)
qed

section \<open>Waiting for a mount\<close>

definition waiting :: "'h gd \<Rightarrow> bool" where
  "waiting g \<longleftrightarrow> hd_success (hdIf g) \<and> hd_status (hdIf g) = E_WAITING_FOR_MOUNT"

lemma dsetpath_loop_step:
  "dsetpath_loop dev g = (if waiting (hd_write_short dev g) then dsetpath_loop dev (hd_write_short dev g) else Some (hd_write_short dev g))"
  by (subst dsetpath_loop.simps) (simp add: waiting_def Let_def)

lemma dsetpath_loop_run:
  "(\<And>i. 0 < i \<Longrightarrow> i \<le> k \<Longrightarrow> waiting ((hd_write_short dev ^^ i) g)) \<Longrightarrow>
   dsetpath_loop dev g = dsetpath_loop dev ((hd_write_short dev ^^ k) g)"
proof (induction k)
  case (Suc k)
  then have "dsetpath_loop dev g = dsetpath_loop dev ((hd_write_short dev ^^ k) g)" by simp
  also have "\<dots> = dsetpath_loop dev ((hd_write_short dev ^^ Suc k) g)"
    using Suc.prems [of "Suc k"] by (subst dsetpath_loop_step) simp
  finally show ?case .
qed simp

text \<open>
  Dsetpath sends its command again for as long as the host answers that it waits for a mount, and
  returns with the first answer that is another one; it does not return exactly when there is none.
\<close>

lemma dsetpath_returns:
  "dsetpath_loop dev g =
     (if \<exists>k > 0. \<not> waiting ((hd_write_short dev ^^ k) g)
      then Some ((hd_write_short dev ^^ (LEAST k. 0 < k \<and> \<not> waiting ((hd_write_short dev ^^ k) g))) g) else None)"
proof (cases "\<exists>k > 0. \<not> waiting ((hd_write_short dev ^^ k) g)")
  case True
  define k where "k = (LEAST k. 0 < k \<and> \<not> waiting ((hd_write_short dev ^^ k) g))"
  from True have k: "0 < k \<and> \<not> waiting ((hd_write_short dev ^^ k) g)" unfolding k_def by (rule LeastI_ex)
  have least: "waiting ((hd_write_short dev ^^ i) g)" if "0 < i" "i < k" for i
    using that not_less_Least [of i "\<lambda>k. 0 < k \<and> \<not> waiting ((hd_write_short dev ^^ k) g)"] by (auto simp: k_def)
  obtain j where j: "k = Suc j" using k by (cases k) auto
  have "dsetpath_loop dev g = dsetpath_loop dev ((hd_write_short dev ^^ j) g)"
    by (rule dsetpath_loop_run) (use least j in simp)
  also have "\<dots> = Some ((hd_write_short dev ^^ k) g)" using k j by (subst dsetpath_loop_step) simp
  finally show ?thesis using True by (simp add: k_def)
next
  case False
  have "dsetpath_loop dev g = None"
  proof (rule ccontr)
    assume "dsetpath_loop dev g \<noteq> None"
    then obtain g' where "dsetpath_loop dev g = Some g'" by blast
    then have "\<not> (\<forall>k > 0. waiting ((hd_write_short dev ^^ k) g))"
    proof (rule dsetpath_loop.raw_induct [rotated])
      fix loop dev g g'
      assume ih: "\<And>dev g g'. loop dev g = Some g' \<Longrightarrow> \<not> (\<forall>k > 0. waiting ((hd_write_short dev ^^ k) g))"
        and r: "(let g = hd_write_short dev g in if hd_success (hdIf g) \<and> hd_status (hdIf g) = E_WAITING_FOR_MOUNT
          then loop dev g else Some g) = Some g'"
      show "\<not> (\<forall>k > 0. waiting ((hd_write_short dev ^^ k) g))"
      proof (cases "waiting (hd_write_short dev g)")
        case True
        then have "loop dev (hd_write_short dev g) = Some g'" using r by (simp add: waiting_def Let_def)
        from ih [OF this] obtain k where "0 < k" "\<not> waiting ((hd_write_short dev ^^ k) (hd_write_short dev g))" by blast
        then have "\<not> waiting ((hd_write_short dev ^^ Suc k) g)" by (simp add: funpow_swap1)
        then show ?thesis by blast
      next
        case False
        then have "\<not> waiting ((hd_write_short dev ^^ 1) g)" by simp
        then show ?thesis by (metis zero_less_one)
      qed
    qed
    with False show False by blast
  qed
  with False show ?thesis by simp
qed

section \<open>The names of Frename\<close>

text \<open>The characters \<open>strncpy\<close> copies, without the terminator.\<close>

definition str_at :: "ram \<Rightarrow> DWORD \<Rightarrow> nat \<Rightarrow> BYTE list" where
  "str_at m a n = c_string (strncpy_bytes m a n)"

text \<open>How the host's \<open>onFrename\<close> takes the two names from the buffer, whose characters it then converts.\<close>

definition frename_names :: "BYTE list \<Rightarrow> BYTE list \<times> BYTE list" where
  "frename_names data = (let old = c_string data in (old, c_string (drop (length old + 1) data)))"

lemma strncpy_cases:
  "strncpy_bytes m a n = str_at m a n @ [0] \<and> length (str_at m a n) < n \<or>
   strncpy_bytes m a n = str_at m a n \<and> length (str_at m a n) = n"
  unfolding str_at_def c_string_def by (induction m a n rule: strncpy_bytes.induct) auto

lemma zero_notin_str_at: "0 \<notin> set (str_at m a n)"
  unfolding str_at_def c_string_def by (auto dest: set_takeWhileD)

lemma length_str_at: "length (str_at m a n) \<le> n"
  using strncpy_cases [of m a n] by auto

text \<open>In a buffer of zeros the copied string is terminated.\<close>

lemma strncpy_zeros:
  assumes "n < k"
  shows "overwrite (replicate k 0) (strncpy_bytes m a n) = str_at m a n @ replicate (k - length (str_at m a n)) 0"
  using strncpy_cases [of m a n]
proof
  assume a: "strncpy_bytes m a n = str_at m a n @ [0] \<and> length (str_at m a n) < n"
  then obtain j where "k - length (str_at m a n) = Suc j" using assms by (cases "k - length (str_at m a n)") auto
  with a assms show ?thesis by (simp add: overwrite_def)
next
  assume "strncpy_bytes m a n = str_at m a n \<and> length (str_at m a n) = n"
  with assms show ?thesis by (simp add: overwrite_def)
qed

lemma c_string_zeros: "0 \<notin> set s \<Longrightarrow> 0 < k \<Longrightarrow> c_string (s @ replicate k 0) = s"
  using c_string_append [of s] by (cases k) simp_all

lemma strlen_buf_string:
  assumes "0 \<notin> set s" and "0 < k" and "length s < 2048"
  shows "strlen_buf (s @ replicate k 0) = length s"
proof -
  have "List.find (\<lambda>i. (s @ replicate k 0) ! i = 0) [0..<2048] = Some (length s)"
    unfolding find_Some_iff using assms
    by (intro exI [of _ "length s"]) (auto simp: nth_append simp del: upt_rec_numeral dest: nth_mem)
  then show ?thesis by (simp add: strlen_buf_def del: upt_rec_numeral)
qed

lemma overwrite_zeros_from:
  "overwrite (replicate (k + j) 0) xs = xs @ replicate (k + j - length xs) 0" if "length xs \<le> k + j" for xs :: "BYTE list"
  using that by (simp add: overwrite_def)

text \<open>
  The buffer Frename sends holds the two names, each cut after 254 characters, such that the host
  reads back exactly these two.
\<close>

lemma frename_round_trip:
  assumes "drive_known g (getDriveFromPath (rd32 (gd_ram g) (sp + 2)) g)"
    and "old = str_at (gd_ram g) (rd32 (gd_ram g) (sp + 2)) 254" and "new = str_at (gd_ram g) (rd32 (gd_ram g) (sp + 6)) 254"
  shows "\<exists>buf. custom_frename dev sp g =
      status_or (Frename (rd32 (gd_ram g) (sp + 2)) (rd32 (gd_ram g) (sp + 6)))
        (hd_write_short dev ((set_short 0x56 0 g)\<lparr>pDmaBuffer := buf\<rparr>)) \<and>
    length buf = 512 \<and> frename_names buf = (old, new)"
proof -
  let ?m = "gd_ram g" and ?a = "rd32 (gd_ram g) (sp + 2)" and ?b = "rd32 (gd_ram g) (sp + 6)"
  let ?buf1 = "overwrite (replicate 512 0) (strncpy_bytes ?m ?a 254)"
  have lo: "length old \<le> 254" and ln: "length new \<le> 254" using length_str_at assms(2,3) by simp_all
  have zo: "0 \<notin> set old" and zn: "0 \<notin> set new" using zero_notin_str_at assms(2,3) by simp_all
  have b1: "?buf1 = old @ replicate (512 - length old) 0" using strncpy_zeros [of 254 512 ?m ?a] by (simp add: assms(2))
  have l1: "strlen_buf ?buf1 = length old" unfolding b1 by (rule strlen_buf_string) (use zo lo in auto)
  let ?buf = "buf_put ?buf1 (length old + 1) (strncpy_bytes ?m ?b 254)"
  have "drop (length old + 1) ?buf1 = replicate (511 - length old) 0" by (simp add: b1)
  moreover have "take (length old + 1) ?buf1 = old @ [0]"
    using lo by (simp add: b1 min_def)
  ultimately have b: "?buf = old @ [0] @ overwrite (replicate (511 - length old) 0) (strncpy_bytes ?m ?b 254)"
    by (simp add: buf_put_def)
  also have "\<dots> = old @ [0] @ new @ replicate (511 - length old - length new) 0"
    using strncpy_zeros [of 254 "511 - length old" ?m ?b] lo by (simp add: assms(3))
  finally have b: "?buf = old @ [0] @ new @ replicate (511 - length old - length new) 0" .
  have "frename_names ?buf = (old, new)"
    unfolding b frename_names_def using c_string_append [OF zo] c_string_zeros [OF zn] lo ln by (simp add: Let_def)
  moreover have "length ?buf = 512" unfolding b using lo ln by simp
  moreover have "custom_frename dev sp g = status_or (Frename ?a ?b) (hd_write_short dev ((set_short 0x56 0 g)\<lparr>pDmaBuffer := ?buf\<rparr>))"
    unfolding custom_frename_def Let_def drive_known_ours [OF assms(1)] using l1 by (simp add: set_short_def)
  ultimately show ?thesis by blast
qed

text \<open>Rename \<open>C:\A\<close> to \<open>B\<close>.\<close>

definition ps2 :: "BYTE list" where
  "ps2 = [0, 0, 0, 0, 0x10, 0x0a, 0, 0, 0x10, 0x0f, 0x43, 0x3a, 0x5c, 0x41, 0, 0x42, 0]"

lemma ps2_ram: "gd_ram (gd1 ps2) = mem_put (\<lambda>_. 0) 0x1000 [0, 0, 0, 0, 0x10, 0x0a, 0, 0, 0x10, 0x0f, 0x43, 0x3a, 0x5c, 0x41, 0, 0x42, 0]"
  by (simp add: gd1_simps ps2_def)

lemma frename_round_trip_witness:
  "\<exists>buf. custom_frename no_rest 0x1000 (gd1 ps2) =
      status_or (Frename 0x100a 0x100f) (hd_write_short no_rest ((set_short 0x56 0 (gd1 ps2))\<lparr>pDmaBuffer := buf\<rparr>)) \<and>
    frename_names buf = ([0x43, 0x3a, 0x5c, 0x41], [0x42])"
proof -
  have p: "rd32 (gd_ram (gd1 ps2)) (0x1000 + 2) = 0x100a" "rd32 (gd_ram (gd1 ps2)) (0x1000 + 6) = 0x100f"
    by (simp_all add: ps2_ram rd32_def be32_def)
  have "getDriveFromPath 0x100a (gd1 ps2) = 2" by (rule path_on_C [OF _ _ _ _ _ ps2_ram]) simp_all
  moreover have "drive_known (gd1 ps2) 2"
    by (simp add: drive_known_def ps2_ram rd32_def be32_def) (simp add: gd1_def gd0_def)
  ultimately have k: "drive_known (gd1 ps2) (getDriveFromPath (rd32 (gd_ram (gd1 ps2)) (0x1000 + 2)) (gd1 ps2))"
    by (simp only: p)
  have "[0x43, 0x3a, 0x5c, 0x41] = str_at (gd_ram (gd1 ps2)) 0x100a 254" "[0x42] = str_at (gd_ram (gd1 ps2)) 0x100f 254"
    by (simp_all add: str_at_def c_string_def strncpy_step ps2_ram)
  from frename_round_trip [OF k this [folded p], of no_rest] show ?thesis unfolding p by blast
qed

section \<open>Calls that are not the driver's\<close>

text \<open>The driver knows, from a fresh drive map, that the drive is not the host's.\<close>

definition foreign :: "'h gd \<Rightarrow> WORD \<Rightarrow> bool" where
  "foreign g drive \<longleftrightarrow> rd32 (gd_ram g) HZ_200 - lastCeDrivesUpdate g < 600 \<and>
     (drive < 2 \<or> 15 < drive \<or> ceDrives g AND push_bit (unat drive) 1 = 0)"

lemma foreign_not_ours: "foreign g drive \<Longrightarrow> isOurDrive dev drive False g = (g, False)"
  by (auto simp: foreign_def isOurDrive_def updateCeDrives_def Let_def)

text \<open>
  With a fresh drive map that does not have the drive of the path, every function on a path leaves
  the driver, the RAM and the host as they are and calls the operating system's own function with the same
  arguments; Fsfirst also hands the following Fsnext to it.
\<close>

lemma foreign_drive_passed_on:
  assumes "foreign g (getDriveFromPath p g)" and "p = rd32 (gd_ram g) sp" and "x = rd16 (gd_ram g) (sp + 4)"
  shows "custom_dcreate dev sp g = (g, CALL_OLD_GD (Dcreate p)) \<and> custom_ddelete dev sp g = (g, CALL_OLD_GD (Ddelete p)) \<and>
      custom_fdelete dev sp g = (g, CALL_OLD_GD (Fdelete p)) \<and> custom_dsetpath dev sp g = Some (g, CALL_OLD_GD (Dsetpath p)) \<and>
      custom_fcreate dev sp g = (g, CALL_OLD_GD (Fcreate p x)) \<and> custom_fopen dev sp g = (g, CALL_OLD_GD (Fopen p x)) \<and>
      custom_fattrib dev sp g = (g, CALL_OLD_GD (Fattrib p x (rd16 (gd_ram g) (sp + 6)))) \<and>
      (let g' = g\<lparr>fsnextIsForUs := False\<rparr>
       in custom_fsfirst dev sp g = (g', CALL_OLD_GD (Fsfirst p x)) \<and> custom_fsnext dev g' = (g', CALL_OLD_GD Fsnext))"
  using foreign_not_ours [OF assms(1), of dev]
  by (simp add: custom_dcreate_def custom_ddelete_def custom_fdelete_def path_call_def custom_dsetpath_def custom_fcreate_def
      custom_fopen_def custom_fattrib_def custom_fsfirst_def custom_fsnext_def Let_def flip: assms(2,3))

text \<open>An empty path is on the current drive, 2, which is foreign without the bit in the map.\<close>

lemma foreign_drive_passed_on_witness:
  "custom_fopen no_rest 0x1000 (gd0 host0 []) = (gd0 host0 [], CALL_OLD_GD (Fopen 0 0))"
proof -
  have r: "rd32 (gd_ram (gd0 host0 [])) 0x1000 = 0" "rd16 (gd_ram (gd0 host0 [])) (0x1000 + 4) = 0" "rd32 (gd_ram (gd0 host0 [])) HZ_200 = 0"
    by (simp_all add: gd0_ram rd32_def rd16_def be32_def be16_def)
  have "ceDrives (gd0 host0 []) = 0" "lastCeDrivesUpdate (gd0 host0 []) = 0" by (simp_all add: gd0_def)
  then have "foreign (gd0 host0 []) (getDriveFromPath 0 (gd0 host0 []))" using r(3) by (simp add: foreign_def)
  from foreign_drive_passed_on [OF this r(1) [symmetric] r(2) [symmetric], of no_rest] show ?thesis by blast
qed

section \<open>Handles and the table of buffers\<close>

text \<open>The functions on a handle, with the place of the handle among the parameters.\<close>

definition handle_calls :: "'h device \<Rightarrow> (DWORD \<times> (DWORD \<Rightarrow> 'h gd \<Rightarrow> 'h gd \<times> gd_result)) list" where
  "handle_calls dev = [(0, custom_fread dev), (0, custom_fwrite dev), (0, custom_fclose dev), (4, custom_fseek dev), (4, custom_fdatime dev)]"

lemma ce_range:
  assumes "80 \<le> h" and "h \<le> 120"
  shows "40 \<le> unat (h - 80 :: WORD) \<longleftrightarrow> h = 120"
proof -
  have "unat (h - 80) = unat h - 80" using assms(1) by (simp add: unat_sub word_le_nat_alt)
  moreover have "80 \<le> unat h" "unat h \<le> 120" using assms by (simp_all add: word_le_nat_alt)
  moreover have "h = 120 \<longleftrightarrow> unat h = 120" by (simp add: word_unat_eq_iff)
  ultimately show ?thesis by linarith
qed

definition handle_outcome :: "WORD \<Rightarrow> 'h gd \<Rightarrow> 'h gd \<times> gd_result \<Rightarrow> bool" where
  "handle_outcome h g r \<longleftrightarrow> (snd r = OutOfBounds \<longleftrightarrow> h = 120) \<and>
    (80 \<le> h \<and> h < 120 \<and> \<not> fb_isOpen (fb g (h - 80)) \<longrightarrow> r = (g, Ret 0xffffffdb)) \<and>
    (h < 80 \<or> 120 < h \<longrightarrow> fst r = g \<and> (\<exists>old. snd r = CALL_OLD_GD old))"

text \<open>The three checks every one of them starts with.\<close>

lemma handle_checks:
  assumes "snd ok \<noteq> OutOfBounds"
  shows "handle_outcome h g (if \<not> handleIsFromCE h then (g, CALL_OLD_GD old)
     else if 40 \<le> unat (handleAtariToCE h) then (g, OutOfBounds)
     else if \<not> fb_isOpen (fb g (handleAtariToCE h)) then (g, Ret (extendByteToDword EIHNDL)) else ok)"
proof -
  have "(scast (0xdb :: BYTE) :: DWORD) = 0xffffffdb" by simp
  then show ?thesis
    using assms ce_range [of h]
    by (auto simp: handle_outcome_def handleIsFromCE_def handleAtariToCE_def extendByteToDword_def not_le not_less)
qed

text \<open>
  A function on a handle leaves the table of file buffers, which has 40 entries, exactly for the handle
  120, which the driver takes for its own; a handle of the driver that is not open is refused with EIHNDL
  and a handle of the operating system passed on, both without any effect.
\<close>

lemma handle_range:
  assumes "(k, call) \<in> set (handle_calls dev)" and "h = rd16 (gd_ram g) (sp + k)"
  shows "handle_outcome h g (call sp g)"
proof -
  consider "k = 0" "call = custom_fread dev" | "k = 0" "call = custom_fwrite dev" | "k = 0" "call = custom_fclose dev"
    | "k = 4" "call = custom_fseek dev" | "k = 4" "call = custom_fdatime dev"
    using assms(1) by (auto simp: handle_calls_def)
  then show ?thesis
  proof cases
    case 1
    then show ?thesis
      unfolding assms(2) by (simp only: custom_fread_def Let_def add_0_right) (rule handle_checks, simp split: prod.split)
  next
    case 2
    then show ?thesis
      unfolding assms(2) by (simp only: custom_fwrite_def Let_def add_0_right) (rule handle_checks, simp split: prod.split)
  next
    case 3
    then show ?thesis
      unfolding assms(2)
      by (simp only: custom_fclose_def Let_def add_0_right) (rule handle_checks, simp add: status_or_def split: prod.split)
  next
    case 4
    then show ?thesis
      unfolding assms(2) by (simp only: custom_fseek_def Let_def) (rule handle_checks, simp split: prod.split)
  next
    case 5
    then show ?thesis
      unfolding assms(2) by (simp only: custom_fdatime_def Let_def) (rule handle_checks, simp split: prod.split)
  qed
qed

lemma handle_range_witness:
  "snd (custom_fread no_rest 0x1000 (gd0 host0 [0, 120])) = OutOfBounds"
proof -
  have h: "120 = rd16 (gd_ram (gd0 host0 [0, 120])) (0x1000 + 0)" by (simp add: gd0_ram rd16_def be16_def)
  have "(0, custom_fread no_rest) \<in> set (handle_calls no_rest)" by (simp add: handle_calls_def)
  from handle_range [OF this h] show ?thesis by (simp add: handle_outcome_def)
qed

lemma c_string_id: "0 \<notin> set s \<Longrightarrow> c_string s = s"
  unfolding c_string_def by (induction s) auto

lemma c_string_strncpy:
  assumes "length buf = n"
  shows "c_string (overwrite buf (strncpy_bytes m a n)) = str_at m a n"
  using strncpy_cases [of m a n]
proof
  assume a: "strncpy_bytes m a n = str_at m a n @ [0] \<and> length (str_at m a n) < n"
  then have "overwrite buf (strncpy_bytes m a n) = str_at m a n @ 0 # drop (length (str_at m a n) + 1) buf"
    using a assms by (auto simp: overwrite_def)
  then show ?thesis by (simp add: c_string_append zero_notin_str_at)
next
  assume "strncpy_bytes m a n = str_at m a n \<and> length (str_at m a n) = n"
  then show ?thesis using assms by (simp add: overwrite_def c_string_id zero_notin_str_at)
qed

text \<open>
  The host answers Fopen with \<open>E_WAITING_FOR_MOUNT\<close> while it mounts the drive; the driver takes that
  status for a handle and marks as open an entry outside the table.
\<close>

lemma fopen_while_mounting:
  assumes "drive_known g (getDriveFromPath (rd32 (gd_ram g) sp) g)" and "drv_ok g"
    and "he_resolve env (str_at (gd_ram g) (rd32 (gd_ram g) sp) 511) = WaitingForMount"
  shows "snd (custom_fopen (host_dev env rest) sp g) = OutOfBounds"
proof -
  let ?dev = "host_dev env rest" and ?name = "rd32 (gd_ram g) sp"
  let ?g1 = "set_short 0x3d 0 g"
  let ?g2 = "put_name (rd16 (gd_ram g) (sp + 4)) ?name ?g1"
  note sh = drv_ok_short [OF assms(2), where fn = "0x3d" and a = "0"]
  have l: "length (pDmaBuffer ?g1) = 512" using sh(1) by (simp add: drv_ok_def)
  have r: "gd_ram ?g1 = gd_ram g" by (simp add: set_short_def)
  let ?buf = "(pDmaBuffer ?g1)[0 := ucast (rd16 (gd_ram g) (sp + 4))]"
  have p: "pDmaBuffer ?g2 = take 1 ?buf @ overwrite (drop 1 ?buf) (strncpy_bytes (gd_ram g) ?name 511)"
    by (simp add: put_name_def buf_put_def r)
  have len: "length (pDmaBuffer ?g2) = 512" unfolding p using l by simp
  have "c_string (drop 1 (pDmaBuffer ?g2)) = str_at (gd_ram g) ?name 511"
    unfolding p using l by (simp add: c_string_strncpy)
  then have "onFopen env (pDmaBuffer ?g2) (gd_host g) = (gd_host g, True, E_WAITING_FOR_MOUNT, [])"
    using len assms(3) by (simp add: onFopen_def)
  moreover have g2: "gd_host ?g2 = gd_host g" "commandShort ?g2 = commandShort ?g1" by (simp_all add: put_name_def set_short_def)
  ultimately have d: "?dev (gd_host ?g2) False (commandShort ?g2) (pDmaBuffer ?g2) 1 = (gd_host g, True, E_WAITING_FOR_MOUNT, [])"
    using sh(2) unfolding g2 by (simp add: host_dev_def short_cmd_def Let_def)
  have "drv_ok ?g2" using sh(1) len drv_ok_dma [of "pDmaBuffer ?g2" ?g1] by (simp add: put_name_def)
  from hd_write_short_ok [where dev = ?dev, OF this d]
  have "hd_write_short ?dev ?g2 = hd_done (gd_host g) E_WAITING_FOR_MOUNT ?g2" .
  then show ?thesis
    unfolding custom_fopen_def Let_def drive_known_ours [OF assms(1)] by (simp add: unhandled_def)
qed

text \<open>Opening \<open>C:\X\<close> while the host mounts.\<close>

lemma gd1_known: "drive_known (gd1 ps1) (getDriveFromPath (rd32 (gd_ram (gd1 ps1)) 0x1002) (gd1 ps1))"
  "rd32 (gd_ram (gd1 ps1)) 0x1002 = 0x1008"
proof -
  have ram: "gd_ram (gd1 ps1) = mem_put (\<lambda>_. 0) 0x1000 [0, 80, 0, 0, 0x10, 8, 0, 0, 0x43, 0x3a, 0x5c, 0x58, 0]"
    by (simp add: gd1_simps ps1_def)
  show p: "rd32 (gd_ram (gd1 ps1)) 0x1002 = 0x1008" by (simp add: ram rd32_def be32_def)
  have "getDriveFromPath 0x1008 (gd1 ps1) = 2" by (rule path_on_C [OF _ _ _ _ _ ram]) simp_all
  moreover have "drive_known (gd1 ps1) 2"
    by (simp add: drive_known_def ram rd32_def be32_def) (simp add: gd1_def gd0_def)
  ultimately show "drive_known (gd1 ps1) (getDriveFromPath (rd32 (gd_ram (gd1 ps1)) 0x1002) (gd1 ps1))"
    by (simp only: p)
qed

lemma fopen_while_mounting_witness:
  "snd (custom_fopen (host_dev (env0\<lparr>he_resolve := \<lambda>p. WaitingForMount\<rparr>) no_rest) 0x1002 (gd1 ps1)) = OutOfBounds"
  by (rule fopen_while_mounting [OF gd1_known(1)]) (use gd1_session [of ps1] in \<open>simp_all add: session_ok_def\<close>)

end
