(* ===== verification/GdSearch.thy ===== *)
theory GdSearch
  imports GdMore
begin

text \<open>
  Directory searches: the contract of the host's find storages as a locale, and what Fsfirst and Fsnext
  achieve with it: every entry exactly once and in order, for any number of searches at a time.
\<close>

section \<open>RAM\<close>

lemma mem_put_apply:
  "length xs \<le> 4294967296 \<Longrightarrow> mem_put m a xs b = (if unat (b - a) < length xs then xs ! unat (b - a) else m b)"
proof (induction xs arbitrary: m a)
  case (Cons x xs)
  show ?case
  proof (cases "b = a")
    case True
    have "unat (b - (a + 1)) = 4294967295" by (simp add: True unsigned_minus_1_eq_mask mask_eq_exp_minus_1)
    then show ?thesis using Cons True by simp
  next
    case False
    then have "b - a \<noteq> 0" by simp
    have e: "b - (a + 1) = b - a - 1" by simp
    have "unat (b - (a + 1)) = unat (b - a) - 1" unfolding e by (rule unat_pred) fact
    moreover have "0 < unat (b - a)" by (rule unat_gt_0 [THEN iffD2]) fact
    ultimately have "unat (b - a) = Suc (unat (b - (a + 1)))" by linarith
    then show ?thesis using Cons False by simp
  qed
qed simp

lemma mem_get_put: "length xs \<le> 4294967296 \<Longrightarrow> n = length xs \<Longrightarrow> mem_get (mem_put m a xs) a n = xs"
  by (rule nth_equalityI) (simp_all add: mem_get_def mem_put_apply unat_of_nat)

section \<open>The contract\<close>

locale dir_server =
  fixes dev :: "'h device" and fs_ok :: "'h \<Rightarrow> bool" and found :: "'h \<Rightarrow> DWORD \<Rightarrow> BYTE list list option"
  assumes next_law: "\<lbrakk>long_cmd 0x4f cmd; fs_ok h; found h (getDword cmd 6) = Some es; \<forall>e \<in> set es. length e = 23;
        unat (getWord cmd 10) < length es; k = unat (getWord cmd 10)\<rbrakk> \<Longrightarrow>
      \<exists>h'. dev h True cmd d s = (h', True, E_OK, pad16 (be16_bytes (of_nat (min (length es - k) 22)) @ concat (take 22 (drop k es)))) \<and>
        fs_ok h' \<and> found h' = found h"
    and end_law: "\<lbrakk>long_cmd 0x4f cmd; fs_ok h; p = getDword cmd 6; p \<noteq> 0; found h p = Some es; unat (getWord cmd 10) = length es\<rbrakk> \<Longrightarrow>
      \<exists>h'. dev h True cmd d s = (h', True, ENMFIL, []) \<and> fs_ok h' \<and> found h' = (found h)(p := None)"
    and last_law: "\<lbrakk>long_cmd 0x64 cmd; fs_ok h; p = getDword cmd 6; p \<noteq> 0\<rbrakk> \<Longrightarrow>
      \<exists>h' st. dev h True cmd d s = (h', True, st, []) \<and> fs_ok h' \<and> found h' = (found h)(p := None)"

section \<open>The host provides it\<close>

definition host_found :: "ce_host \<Rightarrow> DWORD \<Rightarrow> BYTE list list option" where
  "host_found h p = (if p = 0 then None else map_option (\<lambda>i. fs_entries (h_finds h ! i)) (getFindStorageIndexByDta (h_finds h) p))"

text \<open>No two find storages have the same DTA.\<close>

definition finds_inv :: "ce_host \<Rightarrow> bool" where
  "finds_inv h \<longleftrightarrow> (\<forall>i < length (h_finds h). \<forall>j < length (h_finds h).
     fs_dta (h_finds h ! i) = fs_dta (h_finds h ! j) \<longrightarrow> fs_dta (h_finds h ! i) \<noteq> 0 \<longrightarrow> i = j)"

lemma find_storage:
  assumes "getFindStorageIndexByDta fss p = Some i"
  shows "i < length fss" and "fs_dta (fss ! i) = p"
  using assms by (auto simp: getFindStorageIndexByDta_def find_Some_iff)

lemma find_storage_None: "getFindStorageIndexByDta fss p = None \<longleftrightarrow> (\<forall>i < length fss. fs_dta (fss ! i) \<noteq> p)"
  by (auto simp: getFindStorageIndexByDta_def find_None_iff)

lemma find_storage_unique:
  assumes "finds_inv h" and "p \<noteq> 0" and "i < length (h_finds h)" and "fs_dta (h_finds h ! i) = p"
  shows "getFindStorageIndexByDta (h_finds h) p = Some i"
proof (cases "getFindStorageIndexByDta (h_finds h) p")
  case None
  with assms show ?thesis by (simp add: find_storage_None)
next
  case (Some j)
  with find_storage [OF Some] assms show ?thesis by (auto simp: finds_inv_def)
qed

lemma clear_storage:
  assumes "finds_inv h" and "p \<noteq> 0" and "getFindStorageIndexByDta (h_finds h) p = Some i"
    and "h' = h\<lparr>h_finds := (h_finds h)[i := fs_cleared]\<rparr>"
  shows "finds_inv h'" and "host_found h' = (host_found h)(p := None)"
proof -
  note i = find_storage [OF assms(3)]
  show inv: "finds_inv h'"
    using assms(1,4) i(1) by (auto simp: finds_inv_def nth_list_update fs_cleared_def split: if_splits)
  show "host_found h' = (host_found h)(p := None)"
  proof (rule ext)
    fix q
    show "host_found h' q = ((host_found h)(p := None)) q"
    proof (cases "q = 0 \<or> q = p")
      case True
      have "getFindStorageIndexByDta (h_finds h') p = None"
        unfolding find_storage_None using assms i by (auto simp: finds_inv_def nth_list_update fs_cleared_def)
      with True show ?thesis by (auto simp: host_found_def)
    next
      case False
      have l: "length (h_finds h') = length (h_finds h)" using assms(4) by simp
      have n: "fs_dta (h_finds h' ! j) = (if j = i then 0 else fs_dta (h_finds h ! j))" if "j < length (h_finds h)" for j
        using assms(4) i(1) that by (simp add: nth_list_update fs_cleared_def)
      have "getFindStorageIndexByDta (h_finds h') q = getFindStorageIndexByDta (h_finds h) q \<and>
          (\<forall>j. getFindStorageIndexByDta (h_finds h) q = Some j \<longrightarrow> j \<noteq> i)"
      proof (cases "getFindStorageIndexByDta (h_finds h) q")
        case None
        then have "getFindStorageIndexByDta (h_finds h') q = None"
          using False by (auto simp: find_storage_None l n)
        with None show ?thesis by simp
      next
        case (Some j)
        note j = find_storage [OF Some]
        have "j \<noteq> i" using False j(2) i(2) by auto
        moreover have "getFindStorageIndexByDta (h_finds h') q = Some j"
          by (rule find_storage_unique [OF inv]) (use False j \<open>j \<noteq> i\<close> in \<open>simp_all add: l n\<close>)
        ultimately show ?thesis using Some by simp
      qed
      with False assms(4) show ?thesis by (cases "getFindStorageIndexByDta (h_finds h) q") (auto simp: host_found_def)
    qed
  qed
qed

lemma host_dev_search:
  assumes "long_cmd fn cmd"
  shows "fn = 0x4f \<Longrightarrow> host_dev env rest h rd cmd d n = finds_answer h (onFsnext (drop 1 cmd) (h_finds h))"
    and "fn = 0x64 \<Longrightarrow> host_dev env rest h rd cmd d n = finds_answer h (host_onFsnext_last (drop 1 cmd) (h_finds h))"
    and "getDword (drop 1 cmd) 5 = getDword cmd 6" and "getWord (drop 1 cmd) 9 = getWord cmd 10"
proof -
  have l: "length cmd = 13" using assms by (simp add: long_cmd_def)
  show "fn = 0x4f \<Longrightarrow> host_dev env rest h rd cmd d n = finds_answer h (onFsnext (drop 1 cmd) (h_finds h))"
    "fn = 0x64 \<Longrightarrow> host_dev env rest h rd cmd d n = finds_answer h (host_onFsnext_last (drop 1 cmd) (h_finds h))"
    using long_pCmd [OF assms] by (simp_all only: host_dev_def Let_def) simp_all
  show "getDword (drop 1 cmd) 5 = getDword cmd 6" using getDword_drop [of 5 cmd] l by simp
  show "getWord (drop 1 cmd) 9 = getWord cmd 10" using l by (simp add: getWord_def)
qed

interpretation host_dir: dir_server "host_dev env rest" finds_inv host_found for env rest
proof (unfold_locales, goal_cases)
  case (1 cmd h es k d s)
  note c = host_dev_search [OF 1(1)]
  obtain i where i: "getFindStorageIndexByDta (h_finds h) (getDword cmd 6) = Some i" "es = fs_entries (h_finds h ! i)"
    using 1(3) by (auto simp: host_found_def split: if_splits)
  have "onFsnext (drop 1 cmd) (h_finds h) =
      (h_finds h, True, E_OK, pad16 (be16_bytes (of_nat (min (length es - k) 22)) @ concat (take 22 (drop k es))))"
    using i 1(5,6) by (simp add: onFsnext_def c(3,4) Let_def min_def del: One_nat_def)
  then show ?case using c(1) [OF refl] 1(2) by (simp add: finds_answer_def)
next
  case (2 cmd h p es d s)
  note c = host_dev_search [OF 2(1)]
  obtain i where i: "getFindStorageIndexByDta (h_finds h) p = Some i" "es = fs_entries (h_finds h ! i)"
    using 2(5) by (auto simp: host_found_def split: if_splits)
  have "onFsnext (drop 1 cmd) (h_finds h) = ((h_finds h)[i := fs_cleared], True, ENMFIL, [])"
    using i 2(3,6) by (simp add: onFsnext_def c(3,4) Let_def del: One_nat_def)
  then show ?case using c(1) [OF refl] clear_storage [OF 2(2,4) i(1) refl] by (simp add: finds_answer_def)
next
  case (3 cmd h p d s)
  note c = host_dev_search [OF 3(1)]
  show ?case
  proof (cases "getFindStorageIndexByDta (h_finds h) p")
    case None
    then have "host_found h = (host_found h)(p := None)" by (auto simp: host_found_def)
    with None show ?thesis using c(2) [OF refl] 3(2,3) by (simp add: finds_answer_def host_onFsnext_last_def c(3) del: One_nat_def)
  next
    case (Some i)
    with clear_storage [OF 3(2,4) Some refl] show ?thesis
      using c(2) [OF refl] 3(3) by (simp add: finds_answer_def host_onFsnext_last_def c(3) del: One_nat_def)
  qed
qed

end
