(* ===== verification/GdNext.thy ===== *)
theory GdNext
  imports GdSearch
begin

text \<open>
  Fsnext against the contract of the find storages.
\<close>

section \<open>Entries in the buffer\<close>

lemma take_drop_concat:
  "\<forall>e \<in> set es. length e = n \<Longrightarrow> i < length es \<Longrightarrow> take n (drop (n * i) (concat es)) = es ! i"
proof (induction es arbitrary: i)
  case (Cons e es)
  show ?case
  proof (cases i)
    case (Suc j)
    then have "drop (n * i) (concat (e # es)) = drop (n * j) (concat es)" using Cons.prems by simp
    then show ?thesis using Cons Suc by simp
  qed (use Cons.prems in simp)
qed simp

lemma length_concat_same: "\<forall>e \<in> set es. length e = n \<Longrightarrow> length (concat es) = n * length es"
  by (induction es) simp_all

lemma overwrite_fits: "length ys \<le> length buf \<Longrightarrow> overwrite buf ys = ys @ drop (length ys) buf"
  by (simp add: overwrite_def)

text \<open>What the host sends for the entries from \<open>k\<close> on, and the entries in it.\<close>

definition dta_block :: "BYTE list list \<Rightarrow> nat \<Rightarrow> BYTE list" where
  "dta_block es k = pad16 (be16_bytes (of_nat (min (length es - k) 22)) @ concat (take 22 (drop k es)))"

lemma pad_512:
  assumes "n \<le> (508 :: nat)"
  shows "n + (16 - n mod 16) mod 16 \<le> 512"
proof -
  obtain a b where n: "n = 16 * a + b" and b: "b < 16" by (metis mult_div_mod_eq mod_less_divisor zero_less_numeral)
  have a: "a < 32" using assms n by simp
  show ?thesis
  proof (cases "b = 0")
    case True
    then show ?thesis using a by (simp add: n)
  next
    case False
    then have "(16 - b) mod 16 = 16 - b" by simp
    then have "n + (16 - n mod 16) mod 16 = 16 * a + 16" using b by (simp add: n)
    then show ?thesis using a by linarith
  qed
qed

lemma after_header:
  "length hdr = 2 \<Longrightarrow> m + 23 \<le> length xs \<Longrightarrow> take 23 (drop (2 + m) ((hdr @ xs) @ r)) = take 23 (drop m xs)"
  by simp

lemma dta_block_entries:
  assumes "length buf = 512" and "\<forall>e \<in> set es. length e = 23" and "i < min (length es - k) 22"
  shows "take 23 (drop (2 + 23 * i) (overwrite buf (dta_block es k))) = es ! (k + i)"
    and "getWord (overwrite buf (dta_block es k)) 0 = of_nat (min (length es - k) 22)"
proof -
  define xs where "xs = take 22 (drop k es)"
  define hdr where "hdr = be16_bytes (of_nat (min (length es - k) 22))"
  have all: "\<forall>e \<in> set xs. length e = 23" unfolding xs_def using assms(2) by (meson in_set_dropD in_set_takeD)
  have l: "length xs = min (length es - k) 22" by (simp add: xs_def min.commute)
  then have i: "i < length xs" "length xs \<le> 22" using assms(3) by simp_all
  have lc: "length (concat xs) = 23 * length xs" by (rule length_concat_same [OF all])
  have lh: "length hdr = 2" by (simp add: hdr_def be16_bytes_def)
  have "length (pad16 (hdr @ concat xs)) \<le> 512"
  proof -
    define n where "n = length (hdr @ concat xs)"
    have "n = 2 + 23 * length xs" by (simp only: n_def length_append lc lh)
    then have "n \<le> 508" using i(2) by linarith
    moreover have "length (pad16 (hdr @ concat xs)) = n + (16 - n mod 16) mod 16"
      unfolding n_def by (simp only: pad16_def length_append length_replicate)
    ultimately show ?thesis using pad_512 [of n] by simp
  qed
  moreover obtain zs where zs: "pad16 (hdr @ concat xs) = (hdr @ concat xs) @ zs" unfolding pad16_def by blast
  ultimately obtain r where r: "overwrite buf (dta_block es k) = (hdr @ concat xs) @ r"
    unfolding dta_block_def xs_def [symmetric] hdr_def [symmetric] using assms(1) by (simp add: overwrite_fits)
  have "take 23 (drop (2 + 23 * i) ((hdr @ concat xs) @ r)) = take 23 (drop (23 * i) (concat xs))"
    by (rule after_header [OF lh]) (use i lc in linarith)
  also have "\<dots> = xs ! i" by (rule take_drop_concat [OF all i(1)])
  also have "\<dots> = es ! (k + i)"
  proof -
    have "k \<le> length es" using assms(3) by linarith
    then show ?thesis using assms(3) by (simp add: xs_def)
  qed
  finally show "take 23 (drop (2 + 23 * i) (overwrite buf (dta_block es k))) = es ! (k + i)" unfolding r .
  show "getWord (overwrite buf (dta_block es k)) 0 = of_nat (min (length es - k) 22)"
    unfolding r by (simp add: hdr_def getWord_def be16_bytes_def be16_bytes_be16)
qed

section \<open>A search\<close>

definition dta_fields :: "ram \<Rightarrow> DWORD \<Rightarrow> nat \<Rightarrow> WORD \<Rightarrow> WORD \<Rightarrow> bool" where
  "dta_fields m p k cur tot \<longleftrightarrow> mem_get m p 4 = be32_bytes p \<and> rd16 m (p + 4) = of_nat k \<and> rd16 m (p + 6) = cur \<and>
     rd16 m (p + 8) = tot \<and> m (p + 10) = 1"

definition buffered_entries :: "BYTE list \<Rightarrow> BYTE list list \<Rightarrow> nat \<Rightarrow> WORD \<Rightarrow> WORD \<Rightarrow> bool" where
  "buffered_entries buf es k cur tot \<longleftrightarrow> cur \<le> tot \<and> tot \<le> 22 \<and> k + (unat tot - unat cur) \<le> length es \<and>
     (\<forall>i < unat tot - unat cur. take 23 (drop (2 + 23 * (unat cur + i)) buf) = es ! (k + i))"

text \<open>
  A search with DTA \<open>p\<close> that finds \<open>es\<close> and has returned \<open>k\<close> entries. What is buffered for it counts only
  while the buffer is its own.
\<close>

definition search_at ::
  "('h \<Rightarrow> bool) \<Rightarrow> ('h \<Rightarrow> DWORD \<Rightarrow> BYTE list list option) \<Rightarrow> 'h gd \<Rightarrow> DWORD \<Rightarrow> BYTE list list \<Rightarrow> nat \<Rightarrow> bool" where
  "search_at iv found g p es k \<longleftrightarrow> drv_ok g \<and> length (pDtaBuffer g) = 512 \<and> p \<noteq> 0 \<and> iv (gd_host g) \<and>
     found (gd_host g) p = Some es \<and> (\<forall>e \<in> set es. length e = 23) \<and> length es < 65536 \<and> k \<le> length es \<and>
     (\<exists>cur tot. dta_fields (gd_ram g) p k cur tot \<and>
        (dtaBufferValidForPDta g = p \<longrightarrow> buffered_entries (pDtaBuffer g) es k cur tot))"

text \<open>What a call for the search at \<open>p\<close> leaves of everything else.\<close>

definition search_frame ::
  "('h \<Rightarrow> DWORD \<Rightarrow> BYTE list list option) \<Rightarrow> DWORD \<Rightarrow> 'h gd \<Rightarrow> 'h gd \<Rightarrow> bool" where
  "search_frame found p g g' \<longleftrightarrow> (\<forall>b. 44 \<le> unat (b - p) \<longrightarrow> gd_ram g' b = gd_ram g b) \<and>
     (\<forall>q. q \<noteq> p \<longrightarrow> found (gd_host g') q = found (gd_host g) q) \<and> tosDta g' = tosDta g \<and>
     fsnextIsForUs g' = fsnextIsForUs g \<and> dtaBufferValidForPDta g' = p"

text \<open>Writing inside the DTA.\<close>

lemma poke_simps [simp]:
  "drv_ok (poke a xs g) = drv_ok g" "pDtaBuffer (poke a xs g) = pDtaBuffer g" "gd_host (poke a xs g) = gd_host g"
  "pDta (poke a xs g) = pDta g" "tosDta (poke a xs g) = tosDta g" "fsnextIsForUs (poke a xs g) = fsnextIsForUs g"
  "dtaBufferValidForPDta (poke a xs g) = dtaBufferValidForPDta g" "gd_ram (poke a xs g) = mem_put (gd_ram g) a xs"
  "commandLong (poke a xs g) = commandLong g"
  by (simp_all add: poke_def drv_ok_def)

lemma rd16_put:
  "rd16 (mem_put m a [x, y]) a = be16 x y"
  "b \<noteq> a \<Longrightarrow> b \<noteq> a + 1 \<Longrightarrow> b + 1 \<noteq> a \<Longrightarrow> b + 1 \<noteq> a + 1 \<Longrightarrow> rd16 (mem_put m a [x, y]) b = rd16 m b"
  by (simp_all add: rd16_def)

lemma put_outside:
  assumes "k + length xs \<le> 44" and "44 \<le> unat (b - p)"
  shows "mem_put m (p + of_nat k) xs b = m b"
proof -
  have "unat (b - (p + of_nat k)) = unat (b - p) - k"
  proof -
    have e: "b - (p + of_nat k) = b - p - of_nat k" by simp
    have k: "unat (of_nat k :: DWORD) = k" using assms by (simp add: unat_of_nat)
    then have "of_nat k \<le> b - p" using assms by (simp add: word_le_nat_alt)
    then have "unat (b - p - of_nat k) = unat (b - p) - unat (of_nat k :: DWORD)" by (rule unat_sub)
    then show ?thesis unfolding e k .
  qed
  then have "\<not> unat (b - (p + of_nat k)) < length xs" using assms by linarith
  moreover have "length xs \<le> 4294967296" using assms by simp
  ultimately show ?thesis by (simp only: mem_put_apply if_False)
qed

lemma mem_get_nth [simp]: "i < n \<Longrightarrow> mem_get m a n ! i = m (a + of_nat i)"
  by (simp add: mem_get_def)

lemma dta_put:
  assumes "dta_fields m p k cur tot"
  shows "dta_fields (mem_put m (p + 6) (be16_bytes x)) p k x tot"
    and "dta_fields (mem_put m (p + 8) [y, z]) p k cur (be16 y z)"
    and "dta_fields (mem_put m (p + 4) (be16_bytes (of_nat j))) p j cur tot"
    and "length ys = 23 \<Longrightarrow> dta_fields (mem_put m (p + 21) ys) p k cur tot"
  using assms by (simp_all add: dta_fields_def mem_get_def rd16_def mem_put_apply be16_bytes_def be16_bytes_be16 upt_rec)

lemma drv_ok_dta: "drv_ok (g\<lparr>pDtaBuffer := xs\<rparr>) = drv_ok g"
  by (simp add: drv_ok_def)

lemma hd_done_fields [simp]:
  "pDtaBuffer (hd_done h st g) = pDtaBuffer g" "gd_ram (hd_done h st g) = gd_ram g" "pDta (hd_done h st g) = pDta g"
  "tosDta (hd_done h st g) = tosDta g" "fsnextIsForUs (hd_done h st g) = fsnextIsForUs g"
  "dtaBufferValidForPDta (hd_done h st g) = dtaBufferValidForPDta g"
  by (simp_all add: hd_done_def)

text \<open>The bytes of a request to the host for the entries from the DTA's index on.\<close>

lemma dta_request:
  assumes "drv_ok g" and "dta_fields (gd_ram g) p k cur tot" and "q = mem_get (gd_ram g) p 6"
    and "cmd = (commandLong g)[5 := fn, 6 := q ! 0, 7 := q ! 1, 8 := q ! 2, 9 := q ! 3, 10 := q ! 4, 11 := q ! 5]"
  shows "drv_ok (g\<lparr>commandLong := cmd\<rparr>)" "long_cmd fn cmd" "drop_bit 5 (cmd ! 0) \<noteq> hd_hostId (hdIf g)"
    "getDword cmd 6 = p" "getWord cmd 10 = of_nat k"
proof -
  have l: "length (commandLong g) = 13" using assms(1) by (simp add: drv_ok_def long_cmd_def)
  have "take 5 cmd = take 5 (commandLong g)" by (simp add: assms(4) take_update_cancel)
  have "length cmd = 13" using l by (simp add: assms(4))
  note ok = drv_ok_long [OF assms(1) refl this \<open>take 5 cmd = _\<close>]
  have "cmd ! 5 = fn" using l by (simp add: assms(4))
  with ok show "drv_ok (g\<lparr>commandLong := cmd\<rparr>)" "long_cmd fn cmd" "drop_bit 5 (cmd ! 0) \<noteq> hd_hostId (hdIf g)" by simp_all
  have "map (\<lambda>i. mem_get (gd_ram g) p 4 ! i) [0, 1, 2, 3] = map (\<lambda>i. be32_bytes p ! i) [0, 1, 2, 3]"
    using assms(2) by (simp add: dta_fields_def)
  then have q: "[q ! 0, q ! 1, q ! 2, q ! 3] = be32_bytes p" by (simp add: assms(3) be32_bytes_def)
  then show "getDword cmd 6 = p" using l by (simp add: assms(4) getDword_def be32_bytes_def be32_bytes_be32)
  have "be16 (q ! 4) (q ! 5) = of_nat k" using assms(2) by (simp add: assms(3) dta_fields_def rd16_def add.assoc)
  then show "getWord cmd 10 = of_nat k" using l by (simp add: assms(4) getWord_def)
qed

lemma hd_read_dta_ok:
  assumes "dev (gd_host g) True (commandLong g) (pDtaBuffer g) 1 = (h', True, st, ds)"
    and "drop_bit 5 (commandLong g ! 0) \<noteq> hd_hostId (hdIf g)"
  shows "hd_read_dta dev g = (hd_done h' st g)\<lparr>pDtaBuffer := overwrite (pDtaBuffer g) ds\<rparr>"
proof -
  have "hddIfCmd_withRetries_lock dev True (commandLong g) (pDtaBuffer g) 1 g = (hd_done h' st g, ds)"
    by (rule hd_ok) (use assms in simp_all)
  then show ?thesis by (simp add: hd_read_dta_def)
qed

lemma getNext_request:
  assumes "drv_ok g" and "dta_fields (gd_ram g) p k cur tot" and "pDta g = p"
  obtains g2 where "getNextDTAsFromHost dev g = (let g = hd_read_dta dev g2 in if \<not> hd_success (hdIf g) \<or> hd_status (hdIf g) \<noteq> E_OK
      then (g, False) else (poke (pDta g + 8) [pDtaBuffer g ! 0, pDtaBuffer g ! 1] g, True))"
    and "drv_ok g2" and "long_cmd 0x4f (commandLong g2)" and "drop_bit 5 (commandLong g2 ! 0) \<noteq> hd_hostId (hdIf g2)"
    and "getDword (commandLong g2) 6 = p" and "getWord (commandLong g2) 10 = of_nat k" and "pDtaBuffer g2 = pDtaBuffer g"
    and "gd_host g2 = gd_host g" and "pDta g2 = p" and "tosDta g2 = tosDta g" and "fsnextIsForUs g2 = fsnextIsForUs g"
    and "dtaBufferValidForPDta g2 = p" and "dta_fields (gd_ram g2) p k 0 0"
    and "\<And>b. 44 \<le> unat (b - p) \<Longrightarrow> gd_ram g2 b = gd_ram g b"
proof -
  let ?g1 = "poke (p + 8) [0, 0] (poke (p + 6) [0, 0] g)"
  have z: "be16_bytes 0 = [0, 0]" by (simp add: be16_bytes_def)
  have f1: "dta_fields (gd_ram ?g1) p k 0 0"
    using dta_put(2) [OF dta_put(1) [OF assms(2), of 0], of 0 0] by (simp add: z be16_def)
  define q where "q = mem_get (gd_ram ?g1) p 6"
  define cmd where "cmd = (commandLong ?g1)[5 := 0x4f, 6 := q ! 0, 7 := q ! 1, 8 := q ! 2, 9 := q ! 3, 10 := q ! 4, 11 := q ! 5]"
  define g2 where "g2 = ?g1\<lparr>commandLong := cmd, dtaBufferValidForPDta := p\<rparr>"
  have "drv_ok ?g1" using assms(1) by simp
  note r = dta_request [OF this f1 q_def cmd_def]
  have out: "gd_ram g2 b = gd_ram g b" if "44 \<le> unat (b - p)" for b
    using that put_outside [of 6 "[0, 0]" b p] put_outside [of 8 "[0, 0]" b p] by (simp add: g2_def)
  show ?thesis
  proof (rule that [of g2])
    show "getNextDTAsFromHost dev g = (let g = hd_read_dta dev g2 in if \<not> hd_success (hdIf g) \<or> hd_status (hdIf g) \<noteq> E_OK
      then (g, False) else (poke (pDta g + 8) [pDtaBuffer g ! 0, pDtaBuffer g ! 1] g, True))"
      unfolding getNextDTAsFromHost_def Let_def assms(3) poke_simps q_def [unfolded poke_simps, symmetric]
      unfolding cmd_def [unfolded poke_simps, symmetric] using assms(3) by (simp add: g2_def poke_def)
    show "drv_ok g2" using r(1) by (simp add: g2_def drv_ok_def)
    show "dta_fields (gd_ram g2) p k 0 0" using f1 by (simp add: g2_def)
  qed (use r assms(3) out in \<open>simp_all add: g2_def poke_def\<close>)
qed

section \<open>Asking the host\<close>

context dir_server
begin

lemma getNext_ok:
  assumes "search_at fs_ok found g p es k" and "pDta g = p" and "k < length es" and "n = of_nat (min (length es - k) 22)"
  obtains g' where "getNextDTAsFromHost dev g = (g', True)" and "drv_ok g'" and "length (pDtaBuffer g') = 512"
    and "fs_ok (gd_host g')" and "found (gd_host g') = found (gd_host g)" and "pDta g' = p" and "tosDta g' = tosDta g"
    and "fsnextIsForUs g' = fsnextIsForUs g" and "dtaBufferValidForPDta g' = p" and "dta_fields (gd_ram g') p k 0 n"
    and "buffered_entries (pDtaBuffer g') es k 0 n" and "\<And>b. 44 \<le> unat (b - p) \<Longrightarrow> gd_ram g' b = gd_ram g b"
proof -
  have ok: "drv_ok g" and len: "length (pDtaBuffer g) = 512" and fs: "fs_ok (gd_host g)"
    and es: "found (gd_host g) p = Some es" "\<forall>e \<in> set es. length e = 23" "length es < 65536"
    using assms(1) by (simp_all add: search_at_def)
  obtain cur tot where f: "dta_fields (gd_ram g) p k cur tot" using assms(1) by (auto simp: search_at_def)
  obtain g2 where g2: "getNextDTAsFromHost dev g = (let g = hd_read_dta dev g2 in if \<not> hd_success (hdIf g) \<or> hd_status (hdIf g) \<noteq> E_OK
      then (g, False) else (poke (pDta g + 8) [pDtaBuffer g ! 0, pDtaBuffer g ! 1] g, True))"
    "drv_ok g2" "long_cmd 0x4f (commandLong g2)" "drop_bit 5 (commandLong g2 ! 0) \<noteq> hd_hostId (hdIf g2)"
    "getDword (commandLong g2) 6 = p" "getWord (commandLong g2) 10 = of_nat k" "pDtaBuffer g2 = pDtaBuffer g"
    "gd_host g2 = gd_host g" "pDta g2 = p" "tosDta g2 = tosDta g" "fsnextIsForUs g2 = fsnextIsForUs g"
    "dtaBufferValidForPDta g2 = p" "dta_fields (gd_ram g2) p k 0 0"
    "\<And>b. 44 \<le> unat (b - p) \<Longrightarrow> gd_ram g2 b = gd_ram g b"
    using getNext_request [where dev = dev, OF ok f assms(2)] by blast
  have uk: "unat (of_nat k :: WORD) = k" using assms(3) es(3) by (simp add: unat_of_nat)
  have kk: "unat (getWord (commandLong g2) 10) < length es" "k = unat (getWord (commandLong g2) 10)"
    using assms(3) g2(6) uk by simp_all
  have hf: "found (gd_host g2) (getDword (commandLong g2) 6) = Some es" using g2(5,8) es(1) by simp
  have "fs_ok (gd_host g2)" using fs g2(8) by simp
  from next_law [OF g2(3) this hf es(2) kk, of "pDtaBuffer g2" 1] obtain h' where
    d: "dev (gd_host g2) True (commandLong g2) (pDtaBuffer g2) 1 = (h', True, E_OK, dta_block es k)"
    and h: "fs_ok h'" "found h' = found (gd_host g)"
    unfolding dta_block_def g2(8) by blast
  note rd = hd_read_dta_ok [where dev = dev, OF d g2(4), unfolded g2(7)]
  let ?buf = "overwrite (pDtaBuffer g) (dta_block es k)"
  let ?g3 = "poke (p + 8) [?buf ! 0, ?buf ! 1] (hd_read_dta dev g2)"
  have e: "getNextDTAsFromHost dev g = (?g3, True)"
    unfolding g2(1) by (simp add: Let_def rd g2)
  have lb: "length ?buf = 512" using len by simp
  have w: "be16 (?buf ! 0) (?buf ! 1) = n"
    using dta_block_entries(2) [OF len es(2), of 0 k] assms(3,4) by (simp add: getWord_def)
  have f3: "dta_fields (gd_ram ?g3) p k 0 n"
    using dta_put(2) [OF g2(13), of "?buf ! 0" "?buf ! 1", unfolded w] by (simp add: rd g2)
  have un: "unat n = min (length es - k) 22" using assms(4) by (simp add: unat_of_nat)
  have b3: "buffered_entries ?buf es k 0 n"
    unfolding buffered_entries_def using un dta_block_entries(1) [OF len es(2)] assms(3)
    by (simp add: word_le_nat_alt)
  have m: "gd_ram ?g3 b = gd_ram g b" if "44 \<le> unat (b - p)" for b
    using that put_outside [of 8 "[?buf ! 0, ?buf ! 1]" b p] g2(14) by (simp add: rd)
  have ok3: "drv_ok ?g3" unfolding poke_simps rd drv_ok_dta using g2(2) by simp
  show ?thesis
    by (rule that [OF e ok3 _ _ _ _ _ _ _ f3 _ m])
      (use lb h b3 assms(2) in \<open>simp_all add: rd g2\<close>)
qed

lemma getNext_end:
  assumes "search_at fs_ok found g p es (length es)" and "pDta g = p"
  obtains g' where "getNextDTAsFromHost dev g = (g', False)" and "drv_ok g'" and "length (pDtaBuffer g') = 512"
    and "fs_ok (gd_host g')" and "found (gd_host g') = (found (gd_host g))(p := None)" and "pDta g' = p" and "tosDta g' = tosDta g"
    and "fsnextIsForUs g' = fsnextIsForUs g" and "dtaBufferValidForPDta g' = p" and "dta_fields (gd_ram g') p (length es) 0 0"
    and "\<And>b. 44 \<le> unat (b - p) \<Longrightarrow> gd_ram g' b = gd_ram g b"
proof -
  have ok: "drv_ok g" and len: "length (pDtaBuffer g) = 512" and fs: "fs_ok (gd_host g)" and p: "p \<noteq> 0"
    and es: "found (gd_host g) p = Some es" "length es < 65536"
    using assms(1) by (simp_all add: search_at_def)
  obtain cur tot where f: "dta_fields (gd_ram g) p (length es) cur tot" using assms(1) by (auto simp: search_at_def)
  obtain g2 where g2: "getNextDTAsFromHost dev g = (let g = hd_read_dta dev g2 in if \<not> hd_success (hdIf g) \<or> hd_status (hdIf g) \<noteq> E_OK
      then (g, False) else (poke (pDta g + 8) [pDtaBuffer g ! 0, pDtaBuffer g ! 1] g, True))"
    "drv_ok g2" "long_cmd 0x4f (commandLong g2)" "drop_bit 5 (commandLong g2 ! 0) \<noteq> hd_hostId (hdIf g2)"
    "getDword (commandLong g2) 6 = p" "getWord (commandLong g2) 10 = of_nat (length es)" "pDtaBuffer g2 = pDtaBuffer g"
    "gd_host g2 = gd_host g" "pDta g2 = p" "tosDta g2 = tosDta g" "fsnextIsForUs g2 = fsnextIsForUs g"
    "dtaBufferValidForPDta g2 = p" "dta_fields (gd_ram g2) p (length es) 0 0"
    "\<And>b. 44 \<le> unat (b - p) \<Longrightarrow> gd_ram g2 b = gd_ram g b"
    using getNext_request [where dev = dev, OF ok f assms(2)] by blast
  have l: "unat (getWord (commandLong g2) 10) = length es" using g2(6) es(2) by (simp add: unat_of_nat)
  have "fs_ok (gd_host g2)" "found (gd_host g2) p = Some es" using fs g2(8) es(1) by simp_all
  from end_law [OF g2(3) this(1) g2(5) [symmetric] p this(2) l, of "pDtaBuffer g2" 1] obtain h' where
    d: "dev (gd_host g2) True (commandLong g2) (pDtaBuffer g2) 1 = (h', True, ENMFIL, [])"
    and h: "fs_ok h'" "found h' = (found (gd_host g))(p := None)"
    unfolding g2(8) by blast
  note rd = hd_read_dta_ok [where dev = dev, OF d g2(4), unfolded g2(7)]
  have e: "getNextDTAsFromHost dev g = (hd_read_dta dev g2, False)"
    unfolding g2(1) by (simp add: Let_def rd)
  have "drv_ok (hd_read_dta dev g2)" unfolding rd drv_ok_dta using g2(2) by simp
  then show ?thesis by (rule that [OF e]) (use len h g2 in \<open>simp_all add: rd\<close>)
qed

text \<open>The next entry is in the buffer.\<close>

lemma copy_dta_ok:
  assumes "drv_ok g" and "length (pDtaBuffer g) = 512" and "fs_ok (gd_host g)" and "found (gd_host g) p = Some es"
    and "\<forall>e \<in> set es. length e = 23" and "length es < 65536" and "pDta g = p" and "p \<noteq> 0" and "dtaBufferValidForPDta g = p"
    and "dta_fields (gd_ram g) p k cur tot" and "buffered_entries (pDtaBuffer g) es k cur tot" and "cur < tot"
  obtains g' where "copy_dta dev g = (g', Ret 0)" and "search_at fs_ok found g' p es (Suc k)"
    and "mem_get (gd_ram g') (p + 21) 23 = es ! k" and "search_frame found p g g'" and "pDta g' = p"
proof -
  have c: "unat cur < unat tot" "unat tot \<le> 22" using assms(11,12) by (simp_all add: buffered_entries_def word_less_nat_alt word_le_nat_alt)
  let ?x = "take 23 (drop (2 + 23 * unat cur) (pDtaBuffer g))"
  have x: "?x = es ! k" using assms(11) c unfolding buffered_entries_def by (metis add.right_neutral zero_less_diff)
  have "length ?x = 23" using c assms(2) by simp
  have "k + (unat tot - unat cur) \<le> length es" using assms(11) by (simp only: buffered_entries_def)
  then have k: "k < length es" using c by linarith
  let ?g1 = "poke (p + 6) (be16_bytes (cur + 1)) g"
  let ?g2 = "poke (p + 4) (be16_bytes (of_nat (Suc k))) ?g1"
  let ?g3 = "poke (p + 21) ?x ?g2"
  have f1: "dta_fields (gd_ram ?g1) p k (cur + 1) tot" using dta_put(1) [OF assms(10)] by simp
  have f2: "dta_fields (gd_ram ?g2) p (Suc k) (cur + 1) tot" using dta_put(3) [OF f1, of "Suc k"] by simp
  have f3: "dta_fields (gd_ram ?g3) p (Suc k) (cur + 1) tot" using dta_put(4) [OF f2 \<open>length ?x = 23\<close>] by simp
  have i: "rd16 (gd_ram ?g1) (p + 4) + 1 = of_nat (Suc k)" using f1 by (simp add: dta_fields_def)
  have o: "\<not> 2 + 23 * unat cur + 23 > length (pDtaBuffer g)" using c assms(2) by simp
  have e: "copy_dta dev g = (?g3, Ret 0)"
  proof -
    have "rd16 (gd_ram g) (p + 6) = cur" "rd16 (gd_ram g) (p + 8) = tot" using assms(10) by (simp_all add: dta_fields_def)
    moreover have "\<not> tot \<le> cur" using assms(12) by simp
    moreover have "pDta ?g1 = p" using assms(7) by simp
    ultimately show ?thesis using o i assms(7) by (simp only: copy_dta_def Let_def if_False poke_simps)
  qed
  have u: "unat (cur + 1) = Suc (unat cur)" using c by (simp add: unat_word_ariths)
  have b: "buffered_entries (pDtaBuffer g) es (Suc k) (cur + 1) tot"
    unfolding buffered_entries_def
  proof (intro conjI allI impI)
    show "Suc k + (unat tot - unat (cur + 1)) \<le> length es"
      using \<open>k + (unat tot - unat cur) \<le> length es\<close> c u by linarith
  next
    fix j assume "j < unat tot - unat (cur + 1)"
    then have "Suc j < unat tot - unat cur" using u by linarith
    then have "take 23 (drop (2 + 23 * (unat cur + Suc j)) (pDtaBuffer g)) = es ! (k + Suc j)"
      using assms(11) unfolding buffered_entries_def by blast
    then show "take 23 (drop (2 + 23 * (unat (cur + 1) + j)) (pDtaBuffer g)) = es ! (Suc k + j)" by (simp add: u)
  qed (use c u in \<open>simp_all add: word_le_nat_alt\<close>)
  have s: "search_at fs_ok found ?g3 p es (Suc k)"
    unfolding search_at_def using assms(1-6,8) f3 b k by (auto simp del: of_nat_Suc)
  have m: "mem_get (gd_ram ?g3) (p + 21) 23 = es ! k" using mem_get_put [of ?x 23] \<open>length ?x = 23\<close> x by simp
  have out: "gd_ram ?g3 b = gd_ram g b" if "44 \<le> unat (b - p)" for b
    using that put_outside [of 6 "be16_bytes (cur + 1)" b p] put_outside [of 4 "be16_bytes (of_nat (Suc k))" b p]
      put_outside [of 21 ?x b p] \<open>length ?x = 23\<close>
    by (simp add: be16_bytes_def)
  have fr: "search_frame found p g ?g3" using out assms(9) by (simp add: search_frame_def)
  show ?thesis by (rule that [OF e s m fr]) (use assms(7) in simp)
qed

lemma search_frame_trans:
  assumes "search_frame found p g1 g2" and "\<And>b. 44 \<le> unat (b - p) \<Longrightarrow> gd_ram g1 b = gd_ram g b"
    and "found (gd_host g1) = found (gd_host g)" and "tosDta g1 = tosDta g" and "fsnextIsForUs g1 = fsnextIsForUs g"
  shows "search_frame found p g g2"
  using assms by (simp add: search_frame_def)

text \<open>Fsnext while entries are left: the next one, whether it is in the buffer or not.\<close>

lemma fsnext_next:
  assumes "search_at fs_ok found g p es k" and "fsnextIsForUs g" and "tosDta g = p" and "k < length es"
  shows "\<exists>g'. custom_fsnext dev g = (g', Ret 0) \<and> search_at fs_ok found g' p es (Suc k) \<and>
    mem_get (gd_ram g') (p + 21) 23 = es ! k \<and> search_frame found p g g'"
proof -
  let ?g = "g\<lparr>pDta := p\<rparr>"
  have s: "search_at fs_ok found ?g p es k" using assms(1) by (simp add: search_at_def drv_ok_def)
  then have es: "\<forall>e \<in> set es. length e = 23" "length es < 65536" "p \<noteq> 0" "found (gd_host g) p = Some es"
    by (simp_all add: search_at_def)
  define n :: WORD where "n = of_nat (min (length es - k) 22)"
  have "unat n = min (length es - k) 22" by (simp add: n_def unat_of_nat)
  then have n0: "0 < n" using assms(4) by (simp add: word_less_nat_alt)
  then have n0': "\<not> n \<le> 0" by simp
  show ?thesis
  proof (cases "\<exists>cur tot. dta_fields (gd_ram g) p k cur tot \<and> dtaBufferValidForPDta g = p \<and> cur < tot")
    case True
    then obtain cur tot where f: "dta_fields (gd_ram g) p k cur tot" "dtaBufferValidForPDta g = p" "cur < tot" by blast
    have "\<exists>c t. dta_fields (gd_ram g) p k c t \<and> buffered_entries (pDtaBuffer g) es k c t"
      using assms(1) f(2) unfolding search_at_def by blast
    then have b: "buffered_entries (pDtaBuffer g) es k cur tot" using f(1) by (auto simp: dta_fields_def)
    have "drv_ok ?g" "length (pDtaBuffer ?g) = 512" "fs_ok (gd_host ?g)" "found (gd_host ?g) p = Some es"
      using s by (simp_all add: search_at_def)
    moreover have x: "pDta ?g = p" "dtaBufferValidForPDta ?g = p" "dta_fields (gd_ram ?g) p k cur tot"
      "buffered_entries (pDtaBuffer ?g) es k cur tot"
      using f b by simp_all
    ultimately obtain g' where
      c: "copy_dta dev ?g = (g', Ret 0)" "search_at fs_ok found g' p es (Suc k)" "mem_get (gd_ram g') (p + 21) 23 = es ! k"
      "search_frame found p ?g g'"
      using copy_dta_ok [OF _ _ _ _ es(1,2) x(1) es(3) x(2-4) f(3)] by blast
    have "rd16 (gd_ram g) (p + 6) = cur" "rd16 (gd_ram g) (p + 8) = tot" using f(1) by (simp_all add: dta_fields_def)
    moreover have "\<not> tot \<le> cur" using f(3) by simp
    ultimately have "custom_fsnext dev g = copy_dta dev ?g"
      using assms(2,3) f(2) by (simp add: custom_fsnext_def copyNextDtaToAtari_def Let_def)
    moreover have "search_frame found p g g'" using c(4) by (simp add: search_frame_def)
    ultimately show ?thesis using c by auto
  next
    case False
    obtain g1 where g1: "getNextDTAsFromHost dev ?g = (g1, True)" "drv_ok g1" "length (pDtaBuffer g1) = 512" "fs_ok (gd_host g1)"
      "found (gd_host g1) = found (gd_host ?g)" "pDta g1 = p" "tosDta g1 = tosDta ?g" "fsnextIsForUs g1 = fsnextIsForUs ?g"
      "dtaBufferValidForPDta g1 = p" "dta_fields (gd_ram g1) p k 0 n" "buffered_entries (pDtaBuffer g1) es k 0 n"
      "\<And>b. 44 \<le> unat (b - p) \<Longrightarrow> gd_ram g1 b = gd_ram ?g b"
      using getNext_ok [OF s _ assms(4) n_def] by auto
    have "found (gd_host g1) p = Some es" using g1(5) es(4) by simp
    from copy_dta_ok [OF g1(2-4) this es(1,2) g1(6) es(3) g1(9-11) n0] obtain g' where
      c: "copy_dta dev g1 = (g', Ret 0)" "search_at fs_ok found g' p es (Suc k)" "mem_get (gd_ram g') (p + 21) 23 = es ! k"
      "search_frame found p g1 g'" by blast
    have fr: "search_frame found p g g'" by (rule search_frame_trans [OF c(4)]) (use g1 in simp_all)
    have t: "tosDta g1 = p" using g1(7) assms(3) by simp
    have "g1\<lparr>pDta := p\<rparr> = g1" using g1(6) by (cases g1) simp
    then have cp: "copy_dta dev (g1\<lparr>pDta := p\<rparr>) = copy_dta dev g1" by (simp only:)
    have r: "rd16 (gd_ram g1) (p + 6) = 0" "rd16 (gd_ram g1) (p + 8) = n" using g1(10) by (simp_all add: dta_fields_def)
    have "custom_fsnext dev g = copy_dta dev g1"
    proof (cases "dtaBufferValidForPDta g = p")
      case True
      obtain cur tot where f: "dta_fields (gd_ram g) p k cur tot" using assms(1) unfolding search_at_def by blast
      then have "\<not> cur < tot" using False True by blast
      then have "rd16 (gd_ram g) (p + 8) \<le> rd16 (gd_ram g) (p + 6)" "gd_ram g (p + 10) = 1" using f by (simp_all add: dta_fields_def)
      then show ?thesis using assms(2,3) True g1(1) by (simp add: custom_fsnext_def copyNextDtaToAtari_def Let_def)
    next
      case F: False
      then show ?thesis using assms(2,3) g1(1,6) t r n0' cp by (simp add: custom_fsnext_def copyNextDtaToAtari_def Let_def)
    qed
    then show ?thesis using c fr by auto
  qed
qed

lemma last_ok:
  assumes "drv_ok g" and "fs_ok (gd_host g)" and "dta_fields (gd_ram g) p k cur tot" and "pDta g = p" and "p \<noteq> 0"
  obtains g' where "onFsnext_last dev g = g'" and "drv_ok g'" and "length (pDtaBuffer g') = length (pDtaBuffer g)"
    and "fs_ok (gd_host g')" and "found (gd_host g') = (found (gd_host g))(p := None)" and "gd_ram g' = gd_ram g" and "pDta g' = p"
    and "tosDta g' = tosDta g" and "fsnextIsForUs g' = fsnextIsForUs g" and "dtaBufferValidForPDta g' = dtaBufferValidForPDta g"
proof -
  define q where "q = mem_get (gd_ram g) p 6"
  have q4: "mem_get (gd_ram g) p 4 ! i = q ! i" if "i < 4" for i using that by (simp add: q_def)
  define cmd where "cmd = (commandLong g)[5 := 0x64, 6 := q ! 0, 7 := q ! 1, 8 := q ! 2, 9 := q ! 3]"
  have l: "length (commandLong g) = 13" using assms(1) by (simp add: drv_ok_def long_cmd_def)
  have "take 5 cmd = take 5 (commandLong g)" by (simp add: cmd_def take_update_cancel)
  moreover have lc: "length cmd = 13" using l by (simp add: cmd_def)
  ultimately have ok: "drv_ok (g\<lparr>commandLong := cmd\<rparr>)" "long_cmd (cmd ! 5) cmd" "drop_bit 5 (cmd ! 0) \<noteq> hd_hostId (hdIf g)"
    using drv_ok_long [OF assms(1) refl, of cmd] by blast+
  have fn: "cmd ! 5 = 0x64" using l by (simp add: cmd_def)
  define cmd6 where "cmd6 = (commandLong g)[5 := 0x64, 6 := q ! 0, 7 := q ! 1, 8 := q ! 2, 9 := q ! 3, 10 := q ! 4, 11 := q ! 5]"
  have "getDword cmd6 6 = p" by (rule dta_request(4) [OF assms(1,3) q_def cmd6_def])
  then have p: "p = getDword cmd 6" using l by (simp add: cmd6_def cmd_def getDword_def)
  from last_law [OF ok(2) [unfolded fn] assms(2) p assms(5), of "pDtaBuffer g" 1] obtain h' st where
    d: "dev (gd_host g) True cmd (pDtaBuffer g) 1 = (h', True, st, [])" and h: "fs_ok h'" "found h' = (found (gd_host g))(p := None)"
    by blast
  let ?g = "g\<lparr>commandLong := cmd\<rparr>"
  have "hddIfCmd_withRetries_lock dev True cmd (pDtaBuffer g) 1 ?g = (hd_done h' st ?g, [])"
    by (rule hd_ok) (use d ok(3) in simp_all)
  moreover have "onFsnext_last dev g = hd_read_dta dev ?g"
    by (simp add: onFsnext_last_def Let_def assms(4) cmd_def q_def)
  ultimately have e: "onFsnext_last dev g = (hd_done h' st ?g)\<lparr>pDtaBuffer := overwrite (pDtaBuffer g) []\<rparr>"
    by (simp add: hd_read_dta_def)
  have "drv_ok ((hd_done h' st ?g)\<lparr>pDtaBuffer := overwrite (pDtaBuffer g) []\<rparr>)" unfolding drv_ok_dta using ok(1) by simp
  then show ?thesis by (rule that [OF e]) (use h assms(4) in simp_all)
qed

text \<open>Fsnext after the last one: the search is over, for the caller and for the host.\<close>

lemma fsnext_end:
  assumes "search_at fs_ok found g p es (length es)" and "fsnextIsForUs g" and "tosDta g = p"
  shows "\<exists>g'. custom_fsnext dev g = (g', Ret (extendByteToDword ENMFIL)) \<and> drv_ok g' \<and> fs_ok (gd_host g') \<and>
    found (gd_host g') = (found (gd_host g))(p := None) \<and> search_frame found p g g'"
proof -
  let ?g = "g\<lparr>pDta := p\<rparr>"
  have s: "search_at fs_ok found ?g p es (length es)" using assms(1) by (simp add: search_at_def drv_ok_def)
  then have p: "p \<noteq> 0" by (simp add: search_at_def)
  have pd: "pDta ?g = p" by simp
  obtain g1 where g1: "getNextDTAsFromHost dev ?g = (g1, False)" "drv_ok g1" "length (pDtaBuffer g1) = 512" "fs_ok (gd_host g1)"
    "found (gd_host g1) = (found (gd_host ?g))(p := None)" "pDta g1 = p" "tosDta g1 = tosDta ?g" "fsnextIsForUs g1 = fsnextIsForUs ?g"
    "dtaBufferValidForPDta g1 = p" "dta_fields (gd_ram g1) p (length es) 0 0" "\<And>b. 44 \<le> unat (b - p) \<Longrightarrow> gd_ram g1 b = gd_ram ?g b"
    by (rule getNext_end [OF s pd]) (rule that)
  obtain g2 where g2: "onFsnext_last dev g1 = g2" "drv_ok g2" "length (pDtaBuffer g2) = length (pDtaBuffer g1)"
    "fs_ok (gd_host g2)" "found (gd_host g2) = (found (gd_host g1))(p := None)"
    "gd_ram g2 = gd_ram g1" "pDta g2 = p" "tosDta g2 = tosDta g1" "fsnextIsForUs g2 = fsnextIsForUs g1"
    "dtaBufferValidForPDta g2 = dtaBufferValidForPDta g1"
    by (rule last_ok [OF g1(2,4,10,6) p])
  have "custom_fsnext dev g = no_more_stop dev g1"
  proof (cases "dtaBufferValidForPDta g = p")
    case True
    with assms(1) obtain cur tot where f: "dta_fields (gd_ram g) p (length es) cur tot"
      and b: "buffered_entries (pDtaBuffer g) es (length es) cur tot"
      unfolding search_at_def by blast
    have "\<not> cur < tot" using b by (simp add: buffered_entries_def word_less_nat_alt)
    then have "rd16 (gd_ram g) (p + 8) \<le> rd16 (gd_ram g) (p + 6)" "gd_ram g (p + 10) = 1" using f by (simp_all add: dta_fields_def)
    then show ?thesis using assms(2,3) True g1(1) by (simp add: custom_fsnext_def copyNextDtaToAtari_def Let_def)
  next
    case False
    then show ?thesis using assms(2,3) g1(1) by (simp add: custom_fsnext_def Let_def)
  qed
  then have e: "custom_fsnext dev g = (poke (p + 10) [0] g2, Ret (extendByteToDword ENMFIL))"
    using g2(1,7) by (simp add: no_more_stop_def Let_def)
  have out: "mem_put (gd_ram g2) (p + 10) [0] b = gd_ram g b" if "44 \<le> unat (b - p)" for b
    using put_outside [of 10 "[0]" b p] that g1(11) g2(6) by simp
  show ?thesis unfolding e search_frame_def using g1 g2 out by simp
qed

end

end
