(* ===== verification/GdFind.thy ===== *)
theory GdFind
  imports GdNext
begin

text \<open>
  Programs that list directories: a loop over Fsnext sees every entry once and in order and ends, and
  searches with different DTAs do not disturb each other however their calls interleave.
\<close>

section \<open>Programs\<close>

text \<open>Fsetdta, then Fsnext.\<close>

definition fsnext_at :: "'h device \<Rightarrow> DWORD \<Rightarrow> 'h gd \<Rightarrow> 'h gd \<times> gd_result" where
  "fsnext_at dev p g = custom_fsnext dev (g\<lparr>pDta := p, tosDta := p\<rparr>)"

lemma fsnext_at_calls: "rd32 (gd_ram g) sp = p \<Longrightarrow> fsnext_at dev p g = custom_fsnext dev (fst (custom_fsetdta sp g))"
  by (simp add: fsnext_at_def custom_fsetdta_def Let_def)

text \<open>The loop of a program that lists a directory, on at most \<open>n\<close> calls.\<close>

fun list_dir :: "'h device \<Rightarrow> DWORD \<Rightarrow> nat \<Rightarrow> 'h gd \<Rightarrow> 'h gd \<times> BYTE list list \<times> gd_result option" where
  "list_dir dev p 0 g = (g, [], None)"
| "list_dir dev p (Suc n) g =
     (let (g, r) = fsnext_at dev p g
      in if r = Ret 0 then let (g', es, r) = list_dir dev p n g in (g', mem_get (gd_ram g) (p + 21) 23 # es, r)
         else (g, [], Some r))"

text \<open>A schedule of calls for several DTAs, with the result and the entry of each.\<close>

fun list_dirs :: "'h device \<Rightarrow> DWORD list \<Rightarrow> 'h gd \<Rightarrow> 'h gd \<times> (DWORD \<times> gd_result \<times> BYTE list) list" where
  "list_dirs dev [] g = (g, [])"
| "list_dirs dev (p # ps) g =
     (let (g, r) = fsnext_at dev p g; e = mem_get (gd_ram g) (p + 21) 23; (g', es) = list_dirs dev ps g
      in (g', (p, r, e) # es))"

fun delivered :: "(DWORD \<Rightarrow> BYTE list list) \<Rightarrow> (DWORD \<Rightarrow> nat) \<Rightarrow> DWORD list \<Rightarrow> (DWORD \<times> gd_result \<times> BYTE list) list" where
  "delivered es k [] = []"
| "delivered es k (p # ps) = (p, Ret 0, es p ! k p) # delivered es (k(p := Suc (k p))) ps"

section \<open>One search\<close>

lemma search_at_dta [simp]: "search_at iv fnd (g\<lparr>pDta := x, tosDta := y\<rparr>) p es k = search_at iv fnd g p es k"
  by (simp add: search_at_def drv_ok_def)

lemma search_frame_dta [simp]:
  "search_frame fnd p (g\<lparr>pDta := x, tosDta := y\<rparr>) g' \<longleftrightarrow>
    (\<forall>b. 44 \<le> unat (b - p) \<longrightarrow> gd_ram g' b = gd_ram g b) \<and> (\<forall>q. q \<noteq> p \<longrightarrow> fnd (gd_host g') q = fnd (gd_host g) q) \<and>
     tosDta g' = y \<and> fsnextIsForUs g' = fsnextIsForUs g \<and> dtaBufferValidForPDta g' = p"
  by (auto simp: search_frame_def)

context dir_server
begin

lemma fsnext_at_next:
  assumes "search_at fs_ok found g p es k" and "fsnextIsForUs g" and "k < length es"
  obtains g' where "fsnext_at dev p g = (g', Ret 0)" and "search_at fs_ok found g' p es (Suc k)"
    and "mem_get (gd_ram g') (p + 21) 23 = es ! k" and "fsnextIsForUs g'"
    and "search_frame found p (g\<lparr>pDta := p, tosDta := p\<rparr>) g'"
  using fsnext_next [of "g\<lparr>pDta := p, tosDta := p\<rparr>" p es k] assms by (auto simp: fsnext_at_def)

lemma list_dir_ok:
  assumes "search_at fs_ok found g p es k" and "fsnextIsForUs g" and "length es - k < n"
  shows "\<exists>g'. list_dir dev p n g = (g', drop k es, Some (Ret (extendByteToDword ENMFIL))) \<and> found (gd_host g') p = None"
  using assms
proof (induction n arbitrary: g k)
  case (Suc n)
  have k: "k \<le> length es" using Suc.prems(1) by (simp add: search_at_def)
  show ?case
  proof (cases "k = length es")
    case True
    have "\<exists>g'. fsnext_at dev p g = (g', Ret (extendByteToDword ENMFIL)) \<and> found (gd_host g') p = None"
      using fsnext_end [of "g\<lparr>pDta := p, tosDta := p\<rparr>" p es] Suc.prems True by (auto simp: fsnext_at_def)
    moreover have "extendByteToDword ENMFIL \<noteq> 0" by (simp add: extendByteToDword_def)
    ultimately show ?thesis using True by (auto simp: Let_def)
  next
    case False
    then have "k < length es" using k by simp
    from fsnext_at_next [OF Suc.prems(1,2) this] obtain g1 where
      1: "fsnext_at dev p g = (g1, Ret 0)" "search_at fs_ok found g1 p es (Suc k)" "mem_get (gd_ram g1) (p + 21) 23 = es ! k"
      "fsnextIsForUs g1" by blast
    have "length es - Suc k < n" using Suc.prems(3) \<open>k < length es\<close> by linarith
    from Suc.IH [OF 1(2,4) this] obtain g' where
      "list_dir dev p n g1 = (g', drop (Suc k) es, Some (Ret (extendByteToDword ENMFIL)))" "found (gd_host g') p = None" by blast
    then show ?thesis using 1 \<open>k < length es\<close> by (auto simp: Cons_nth_drop_Suc)
  qed
qed simp

section \<open>Several searches\<close>

text \<open>A call for one search leaves another one, with a DTA that does not overlap, where it was.\<close>

lemma search_kept:
  assumes "search_at fs_ok found g q es j" and "search_at fs_ok found g' p es' k" and "q \<noteq> p"
    and "search_frame found p (g\<lparr>pDta := x, tosDta := y\<rparr>) g'" and "\<forall>i < 44. 44 \<le> unat (q + of_nat i - p)"
  shows "search_at fs_ok found g' q es j"
proof -
  obtain cur tot where f: "dta_fields (gd_ram g) q j cur tot" using assms(1) by (auto simp: search_at_def)
  have m: "gd_ram g' (q + of_nat i) = gd_ram g (q + of_nat i)" if "i < 44" for i using assms(4,5) that by simp
  have "gd_ram g' q = gd_ram g q" using m [of 0] by simp
  moreover have "gd_ram g' (q + numeral n) = gd_ram g (q + numeral n)" if "numeral n < (44 :: nat)" for n
    using m [of "numeral n"] that by simp
  moreover have "gd_ram g' (numeral n + q) = gd_ram g (numeral n + q)" if "numeral n < (44 :: nat)" for n
    using m [of "numeral n"] that by (simp add: add.commute)
  moreover have "gd_ram g' (q + 1) = gd_ram g (q + 1)" using m [of 1] by simp
  ultimately have "dta_fields (gd_ram g') q j cur tot"
    using f by (simp add: dta_fields_def mem_get_def rd16_def upt_rec)
  then show ?thesis using assms(1-4) by (auto simp: search_at_def)
qed

lemma list_dirs_ok:
  assumes "\<forall>p \<in> S. search_at fs_ok found g p (es p) (k p)" and "fsnextIsForUs g" and "set ps \<subseteq> S"
    and "\<forall>p \<in> S. \<forall>q \<in> S. q \<noteq> p \<longrightarrow> (\<forall>i < 44. 44 \<le> unat (q + of_nat i - p))"
    and "\<forall>p \<in> S. k p + count_list ps p \<le> length (es p)"
  shows "snd (list_dirs dev ps g) = delivered es k ps"
  using assms
proof (induction ps arbitrary: g k)
  case (Cons p ps)
  have p: "p \<in> S" "search_at fs_ok found g p (es p) (k p)" "k p < length (es p)" using Cons.prems by fastforce+
  from fsnext_at_next [OF p(2) Cons.prems(2) p(3)] obtain g1 where
    1: "fsnext_at dev p g = (g1, Ret 0)" "search_at fs_ok found g1 p (es p) (Suc (k p))"
    "mem_get (gd_ram g1) (p + 21) 23 = es p ! k p" "fsnextIsForUs g1" "search_frame found p (g\<lparr>pDta := p, tosDta := p\<rparr>) g1"
    by blast
  define k' where "k' = k(p := Suc (k p))"
  have kp: "k' p = Suc (k p)" "q \<noteq> p \<Longrightarrow> k' q = k q" for q by (simp_all add: k'_def)
  have "search_at fs_ok found g1 q (es q) (k' q)" if "q \<in> S" for q
  proof (cases "q = p")
    case False
    with search_kept [OF _ 1(2) False 1(5)] that Cons.prems(1,4) p(1) show ?thesis by (simp add: kp)
  qed (use 1(2) in \<open>simp add: kp\<close>)
  moreover have "\<forall>q \<in> S. k' q + count_list ps q \<le> length (es q)"
  proof
    fix q assume "q \<in> S"
    then show "k' q + count_list ps q \<le> length (es q)" using Cons.prems(5) by (cases "q = p") (auto simp: kp)
  qed
  ultimately have "snd (list_dirs dev ps g1) = delivered es k' ps"
    using Cons.IH [of g1 k'] Cons.prems(3,4) 1(4) by simp
  then show ?case using 1(1,3) by (cases "list_dirs dev ps g1") (simp add: k'_def)
qed simp

text \<open>The first entry, when nothing is buffered.\<close>

lemma first_entry:
  assumes "search_at fs_ok found g p es 0" and "dta_fields (gd_ram g) p 0 0 0" and "tosDta g = p" and "0 < length es"
  obtains g' where "copyNextDtaToAtari dev g = (g', Ret 0)" and "search_at fs_ok found g' p es 1"
    and "mem_get (gd_ram g') (p + 21) 23 = es ! 0" and "search_frame found p g g'"
proof -
  let ?g = "g\<lparr>pDta := p\<rparr>"
  have s: "search_at fs_ok found ?g p es 0" using assms(1) by (simp add: search_at_def drv_ok_def)
  then have es: "\<forall>e \<in> set es. length e = 23" "length es < 65536" "p \<noteq> 0" "found (gd_host g) p = Some es"
    by (simp_all add: search_at_def)
  define n :: WORD where "n = of_nat (min (length es - 0) 22)"
  have "unat n = min (length es) 22" by (simp add: n_def unat_of_nat)
  then have n0: "0 < n" using assms(4) by (simp add: word_less_nat_alt)
  have pd: "pDta ?g = p" by simp
  obtain g1 where g1: "getNextDTAsFromHost dev ?g = (g1, True)" "drv_ok g1" "length (pDtaBuffer g1) = 512" "fs_ok (gd_host g1)"
    "found (gd_host g1) = found (gd_host ?g)" "pDta g1 = p" "tosDta g1 = tosDta ?g" "fsnextIsForUs g1 = fsnextIsForUs ?g"
    "dtaBufferValidForPDta g1 = p" "dta_fields (gd_ram g1) p 0 0 n" "buffered_entries (pDtaBuffer g1) es 0 0 n"
    "\<And>b. 44 \<le> unat (b - p) \<Longrightarrow> gd_ram g1 b = gd_ram ?g b"
    by (rule getNext_ok [OF s pd assms(4) n_def]) (rule that)
  have "found (gd_host g1) p = Some es" using g1(5) es(4) by simp
  from copy_dta_ok [OF g1(2-4) this es(1,2) g1(6) es(3) g1(9-11) n0] obtain g' where
    c: "copy_dta dev g1 = (g', Ret 0)" "search_at fs_ok found g' p es (Suc 0)" "mem_get (gd_ram g') (p + 21) 23 = es ! 0"
    "search_frame found p g1 g'" by blast
  have fr: "search_frame found p g g'" by (rule search_frame_trans [OF c(4)]) (use g1 in simp_all)
  have "rd16 (gd_ram g) (p + 8) \<le> rd16 (gd_ram g) (p + 6)" "gd_ram g (p + 10) = 1" using assms(2) by (simp_all add: dta_fields_def)
  then have "copyNextDtaToAtari dev g = copy_dta dev g1" using assms(3) g1(1) by (simp add: copyNextDtaToAtari_def Let_def)
  with c fr show ?thesis by (intro that [of g']) simp_all
qed

end

end
