(* ===== verification/GdFirst.thy ===== *)
theory GdFirst
  imports GdFind
begin

text \<open>
  Fsfirst, and directory searches as a whole: what a program sees from Fsfirst to the end of a search.
\<close>

section \<open>A new search at the host\<close>

lemma option_eqI: "(\<And>x. a = Some x \<longleftrightarrow> b = Some x) \<Longrightarrow> a = b"
  by (cases a; cases b) auto

lemma host_found_iff:
  assumes "finds_inv h"
  shows "host_found h q = Some es \<longleftrightarrow>
    q \<noteq> 0 \<and> (\<exists>i < length (h_finds h). fs_dta (h_finds h ! i) = q \<and> fs_entries (h_finds h ! i) = es)"
    (is "_ \<longleftrightarrow> q \<noteq> 0 \<and> ?P")
proof (cases "q = 0")
  case False
  have "host_found h q = Some es \<longleftrightarrow> ?P"
  proof
    assume "host_found h q = Some es"
    then obtain i where i: "getFindStorageIndexByDta (h_finds h) q = Some i" "es = fs_entries (h_finds h ! i)"
      using False by (auto simp: host_found_def)
    then show ?P using find_storage [OF i(1)] by blast
  next
    assume ?P
    then show "host_found h q = Some es" using find_storage_unique [OF assms False] False by (auto simp: host_found_def)
  qed
  with False show ?thesis by simp
qed (simp add: host_found_def)

lemma spare_storage:
  assumes "finds_inv h" and "h' = h\<lparr>h_finds := h_finds h @ [fs_cleared]\<rparr>"
  shows "finds_inv h'" and "host_found h' = host_found h"
proof -
  have l: "length (h_finds h') = Suc (length (h_finds h))" using assms(2) by simp
  have n: "h_finds h' ! i = h_finds h ! i" if "i < length (h_finds h)" for i using that assms(2) by (simp add: nth_append)
  have z: "fs_dta (h_finds h' ! length (h_finds h)) = 0" using assms(2) by (simp add: fs_cleared_def)
  show i: "finds_inv h'"
    unfolding finds_inv_def l
  proof (intro allI impI)
    fix i j
    assume a: "i < Suc (length (h_finds h))" "j < Suc (length (h_finds h))" "fs_dta (h_finds h' ! i) = fs_dta (h_finds h' ! j)"
      "fs_dta (h_finds h' ! i) \<noteq> 0"
    then have "i < length (h_finds h)" "j < length (h_finds h)" using z by (auto simp: less_Suc_eq)
    then show "i = j" using a assms(1) n by (simp add: finds_inv_def)
  qed
  show "host_found h' = host_found h"
  proof (rule ext, rule option_eqI)
    fix q es
    show "host_found h' q = Some es \<longleftrightarrow> host_found h q = Some es"
      unfolding host_found_iff [OF i] host_found_iff [OF assms(1)] l using n z by (auto simp: less_Suc_eq)
  qed
qed

lemma new_search:
  assumes "finds_inv h" and "p \<noteq> 0"
    and "(case getFindStorageIndexByDta (h_finds h) p of Some i \<Rightarrow> Some (h_finds h, i)
      | None \<Rightarrow> getEmptyFindStorageIndex (h_finds h)) = Some (fss, i)"
    and "h' = h\<lparr>h_finds := fss[i := \<lparr>fs_dta = p, fs_entries = es\<rparr>]\<rparr>"
  shows "finds_inv h'" and "host_found h' = (host_found h)(p \<mapsto> es)"
proof -
  have s: "i < length fss \<and> (fs_dta (fss ! i) = p \<or> fs_dta (fss ! i) = 0) \<and> (\<forall>j < length fss. j \<noteq> i \<longrightarrow> fs_dta (fss ! j) \<noteq> p) \<and>
    (fss = h_finds h \<or> fss = h_finds h @ [fs_cleared])"
  proof (cases "getFindStorageIndexByDta (h_finds h) p")
    case (Some j)
    then have "fss = h_finds h" "i = j" using assms(3) by simp_all
    then show ?thesis using find_storage [OF Some] assms(1,2) by (auto simp: finds_inv_def)
  next
    case None
    then have n: "\<forall>j < length (h_finds h). fs_dta (h_finds h ! j) \<noteq> p" by (simp add: find_storage_None)
    have "getEmptyFindStorageIndex (h_finds h) = Some (fss, i)" using None assms(3) by simp
    then consider "getFindStorageIndexByDta (h_finds h) 0 = Some i" "fss = h_finds h" |
      "fss = h_finds h @ [fs_cleared]" "i = length (h_finds h)"
      by (auto simp: getEmptyFindStorageIndex_def split: option.splits if_splits)
    then show ?thesis
      by cases (use n find_storage [of "h_finds h" 0 i] in \<open>auto simp: nth_append fs_cleared_def\<close>)
  qed
  let ?h1 = "h\<lparr>h_finds := fss\<rparr>"
  have "?h1 = h \<or> ?h1 = h\<lparr>h_finds := h_finds h @ [fs_cleared]\<rparr>" using s by auto
  then have i1: "finds_inv ?h1" and f1: "host_found ?h1 = host_found h"
    using spare_storage [OF assms(1) refl] assms(1) by auto
  show i2: "finds_inv h'" using i1 s assms(4) by (auto simp: finds_inv_def nth_list_update)
  show "host_found h' = (host_found h)(p \<mapsto> es)"
  proof (rule ext, rule option_eqI)
    fix q xs
    show "host_found h' q = Some xs \<longleftrightarrow> ((host_found h)(p \<mapsto> es)) q = Some xs"
    proof (cases "q = p")
      case True
      have "host_found h' q = Some xs \<longleftrightarrow> xs = es"
        unfolding host_found_iff [OF i2] using s assms(2,4) True by (auto simp: nth_list_update)
      then show ?thesis using True by auto
    next
      case False
      have "host_found h' q = Some xs \<longleftrightarrow> host_found ?h1 q = Some xs"
        unfolding host_found_iff [OF i2] host_found_iff [OF i1] using s assms(4) False by (auto simp: nth_list_update)
      then show ?thesis using False f1 by simp
    qed
  qed
qed

section \<open>Fsfirst\<close>

text \<open>The parameters of Fsfirst as the host gets them: the DTA, the attributes and the name.\<close>

lemma fsfirst_params:
  assumes "length buf = 512" and "length nm \<le> 507" and "nm = s @ [0]" and "0 \<notin> set s"
    and "d = buf_put (overwrite buf (be32_bytes p @ [a])) 5 nm"
  shows "length d = 512" and "getDword d 0 = p" and "d ! 4 = a" and "takeWhile (\<lambda>x. x \<noteq> 0) (drop 5 d) = s"
proof -
  have "overwrite buf (be32_bytes p @ [a]) = be32_bytes p @ a # drop 5 buf"
    using assms(1) by (simp add: overwrite_def be32_bytes_def eval_nat_numeral)
  then have d: "d = be32_bytes p @ a # (s @ 0 # drop (length s + 1) (drop 5 buf))"
    using assms by (simp add: buf_put_def overwrite_def be32_bytes_def)
  show "length d = 512" using assms(1) by (simp add: assms(5))
  show "getDword d 0 = p" unfolding d by (simp add: be32_bytes_def getDword_def be32_bytes_be32)
  show "d ! 4 = a" unfolding d by (simp add: be32_bytes_def)
  have "takeWhile (\<lambda>x. x \<noteq> 0) (s @ 0 # r) = s" for r using c_string_append [OF assms(4)] by (simp add: c_string_def)
  then show "takeWhile (\<lambda>x. x \<noteq> 0) (drop 5 d) = s" unfolding d by (simp add: be32_bytes_def)
qed

lemma dta_init: "dta_fields (mem_put m p (be32_bytes p @ [0, 0, 0, 0, 0, 0, 1])) p 0 0 0"
  by (simp add: dta_fields_def mem_get_def rd16_def mem_put_apply be32_bytes_def be16_def upt_rec)

text \<open>What a program must have for a search: the driver's drive, a name that fits, and a free find storage.\<close>

definition fsfirst_ready ::
  "host_env \<Rightarrow> ce_host gd \<Rightarrow> DWORD \<Rightarrow> DWORD \<Rightarrow> BYTE list \<Rightarrow> BYTE list list \<Rightarrow> bool" where
  "fsfirst_ready env g sp p s es \<longleftrightarrow> drv_ok g \<and> length (pDtaBuffer g) = 512 \<and> finds_inv (gd_host g) \<and> tosDta g = p \<and> p \<noteq> 0 \<and>
     drive_known g (getDriveFromPath (rd32 (gd_ram g) sp) g) \<and>
     strncpy_bytes (mem_put (gd_ram g) p (be32_bytes p @ [0, 0, 0, 0, 0, 0, 1])) (rd32 (gd_ram g) sp) 511 = s @ [0] \<and>
     0 \<notin> set s \<and> length s \<le> 506 \<and> he_look env (ucast (rd16 (gd_ram g) (sp + 4))) s = Inr es \<and> es \<noteq> [] \<and>
     (\<forall>e \<in> set es. length e = 23) \<and> length es < 65536 \<and>
     (getFindStorageIndexByDta (h_finds (gd_host g)) p \<noteq> None \<or> getEmptyFindStorageIndex (h_finds (gd_host g)) \<noteq> None)"

lemma fsfirst_ok:
  assumes "fsfirst_ready env g sp p s es"
  shows "\<exists>g'. custom_fsfirst (host_dev env rest) sp g = (g', Ret 0) \<and> search_at finds_inv host_found g' p es 1 \<and>
    mem_get (gd_ram g') (p + 21) 23 = es ! 0 \<and> fsnextIsForUs g' \<and> tosDta g' = p"
proof -
  let ?dev = "host_dev env rest"
  define fspec where "fspec = rd32 (gd_ram g) sp"
  define attribs where "attribs = rd16 (gd_ram g) (sp + 4)"
  note r = assms [unfolded fsfirst_ready_def, folded fspec_def attribs_def]
  define g1 where "g1 = set_short 0x4e 0 (poke p (be32_bytes p @ [0, 0, 0, 0, 0, 0, 1]) (g\<lparr>fsnextIsForUs := True, pDta := p\<rparr>))"
  define d where "d = buf_put (overwrite (pDmaBuffer g1) (mem_get (gd_ram g1) p 4 @ [ucast attribs])) 5 (s @ [0])"
  have g1: "gd_ram g1 = mem_put (gd_ram g) p (be32_bytes p @ [0, 0, 0, 0, 0, 0, 1])" "pDmaBuffer g1 = pDmaBuffer g" "gd_host g1 = gd_host g"
    "pDta g1 = p" "tosDta g1 = tosDta g" "fsnextIsForUs g1" "pDtaBuffer g1 = pDtaBuffer g"
    by (simp_all add: g1_def set_short_def poke_def)
  have f1: "dta_fields (gd_ram g1) p 0 0 0" unfolding g1 by (rule dta_init)
  then have m: "mem_get (gd_ram g1) p 4 = be32_bytes p" by (simp add: dta_fields_def)
  have "drv_ok (poke p (be32_bytes p @ [0, 0, 0, 0, 0, 0, 1]) (g\<lparr>fsnextIsForUs := True, pDta := p\<rparr>))"
    using r by (simp add: drv_ok_def poke_def)
  note sh = drv_ok_short [OF this, where fn = "0x4e" and a = "0", folded g1_def]
  have lb: "length (pDmaBuffer g1) = 512" using sh(1) by (simp add: drv_ok_def)
  have ls: "length (s @ [0 :: BYTE]) \<le> 507" using r by simp
  note pa = fsfirst_params [OF lb ls refl _ d_def [unfolded m]]
  have z: "0 \<notin> set s" using r by simp
  obtain fss i where st: "(case getFindStorageIndexByDta (h_finds (gd_host g)) p of Some i \<Rightarrow> Some (h_finds (gd_host g), i)
      | None \<Rightarrow> getEmptyFindStorageIndex (h_finds (gd_host g))) = Some (fss, i)"
  proof (cases "getFindStorageIndexByDta (h_finds (gd_host g)) p")
    case None
    with r obtain x where "getEmptyFindStorageIndex (h_finds (gd_host g)) = Some x" by auto
    with None that [of "fst x" "snd x"] show ?thesis by simp
  qed (use that in simp)
  define h where "h = (gd_host g)\<lparr>h_finds := fss[i := \<lparr>fs_dta = p, fs_entries = es\<rparr>]\<rparr>"
  have fi: "finds_inv (gd_host g)" "p \<noteq> 0" using r by simp_all
  note h = new_search [OF fi st h_def]
  have "onFsfirst (he_look env) d (h_finds (gd_host g)) = (h_finds h, True, E_OK, [])"
    unfolding onFsfirst_def Let_def pa(2) [OF z] pa(3) [OF z] pa(4) [OF z] using pa(1) [OF z] r st by (simp add: h_def)
  moreover have "gd_host (g1\<lparr>pDmaBuffer := d\<rparr>) = gd_host g" "commandShort (g1\<lparr>pDmaBuffer := d\<rparr>) = commandShort g1" using g1 by simp_all
  ultimately have dv: "?dev (gd_host (g1\<lparr>pDmaBuffer := d\<rparr>)) False (commandShort (g1\<lparr>pDmaBuffer := d\<rparr>)) (pDmaBuffer (g1\<lparr>pDmaBuffer := d\<rparr>)) 1
      = (h, True, E_OK, [])"
    using sh(2) by (simp add: host_dev_def short_cmd_def Let_def finds_answer_def h_def)
  have ok2: "drv_ok (g1\<lparr>pDmaBuffer := d\<rparr>)" by (rule drv_ok_dma) (use sh(1) pa(1) [OF z] in simp_all)
  define g3 where "g3 = hd_done h E_OK (g1\<lparr>pDmaBuffer := d\<rparr>)"
  have wr: "hd_write_short ?dev (g1\<lparr>pDmaBuffer := d\<rparr>) = g3"
    unfolding g3_def by (rule hd_write_short_ok [where dev = ?dev, OF ok2 dv])
  have f3: "dta_fields (gd_ram g3) p 0 0 0" using f1 by (simp add: g3_def)
  have "buffered_entries (pDtaBuffer g3) es 0 0 0" by (simp add: buffered_entries_def)
  with f3 have "\<exists>cur tot. dta_fields (gd_ram g3) p 0 cur tot \<and>
      (dtaBufferValidForPDta g3 = p \<longrightarrow> buffered_entries (pDtaBuffer g3) es 0 cur tot)" by blast
  moreover have "drv_ok g3" "length (pDtaBuffer g3) = 512" "p \<noteq> 0" "finds_inv (gd_host g3)" "host_found (gd_host g3) p = Some es"
    "\<forall>e \<in> set es. length e = 23" "length es < 65536"
    using ok2 h r g1 by (simp_all add: g3_def)
  ultimately have s3: "search_at finds_inv host_found g3 p es 0" by (simp add: search_at_def)
  have t3: "tosDta g3 = p" "fsnextIsForUs g3" using g1 r by (simp_all add: g3_def)
  obtain g4 where g4: "copyNextDtaToAtari ?dev g3 = (g4, Ret 0)" "search_at finds_inv host_found g4 p es 1"
    "mem_get (gd_ram g4) (p + 21) 23 = es ! 0" "search_frame host_found p g3 g4"
    by (rule host_dir.first_entry [OF s3 f3 t3(1)]) (use r in auto)
  have "custom_fsfirst ?dev sp g = (g4, Ret 0)"
  proof -
    have ours: "isOurDrive ?dev (getDriveFromPath fspec g) False g = (g, True)" using r by (intro drive_known_ours) simp
    have p1: "tosDta g = p" using r by simp
    have nm: "strncpy_bytes (gd_ram g1) fspec 511 = s @ [0]" unfolding g1(1) using r by simp
    have ln: "\<not> 512 < 5 + length (s @ [0 :: BYTE])" using ls by simp
    have un: "unhandled g3 = False" "hd_status (hdIf g3) = E_OK" by (simp_all add: g3_def unhandled_def)
    have e: "set_short 0x4e 0 (poke (pDta (g\<lparr>fsnextIsForUs := True, pDta := tosDta g\<rparr>))
        (be32_bytes (pDta (g\<lparr>fsnextIsForUs := True, pDta := tosDta g\<rparr>)) @ [0, 0, 0, 0, 0, 0, 1])
        (g\<lparr>fsnextIsForUs := True, pDta := tosDta g\<rparr>)) = g1"
      by (simp add: g1_def p1)
    show ?thesis
      unfolding custom_fsfirst_def Let_def fspec_def [symmetric] attribs_def [symmetric] ours split e g1(4)
      using nm ln un g4(1) wr by (simp add: d_def ext_result_def extendByteToDword_def del: length_append)
  qed
  then show ?thesis using g4 t3 by (auto simp: search_frame_def)
qed

section \<open>Properties\<close>

text \<open>
  C20: a program that searches a directory with Fsfirst and then calls Fsnext until it fails gets every
  entry that the host found, once and in the host's order, then ENMFIL after exactly as many calls as
  there are entries, and the host's find storage is free again; for any number of entries up to 65535 and
  whatever was searched with the DTA before.
\<close>

theorem directory_listed:
  assumes "fsfirst_ready env g sp p s es" and "dev = host_dev env rest"
  shows "\<exists>g1 g'. custom_fsfirst dev sp g = (g1, Ret 0) \<and> mem_get (gd_ram g1) (p + 21) 23 = es ! 0 \<and>
    list_dir dev p (length es) g1 = (g', drop 1 es, Some (Ret (extendByteToDword ENMFIL))) \<and> host_found (gd_host g') p = None"
proof -
  from fsfirst_ok [OF assms(1), of rest] assms(2) obtain g1 where
    1: "custom_fsfirst dev sp g = (g1, Ret 0)" "search_at finds_inv host_found g1 p es 1"
    "mem_get (gd_ram g1) (p + 21) 23 = es ! 0" "fsnextIsForUs g1"
    by auto
  have "length es - 1 < length es" using assms(1) by (cases es) (simp_all add: fsfirst_ready_def)
  from host_dir.list_dir_ok [OF 1(2,4) this, of env rest] 1 show ?thesis unfolding assms(2) by blast
qed

definition env2 :: host_env where
  "env2 = env0\<lparr>he_look := (\<lambda>a p. if p = [0x43, 0x3a, 0x5c, 0x58] then Inr [replicate 23 1, replicate 23 2] else Inl EFILNF)\<rparr>"

definition gd2 :: "ce_host gd" where
  "gd2 = (gd0 host0 [0, 0, 0x10, 8, 0, 0, 0, 0, 0x43, 0x3a, 0x5c, 0x58, 0])\<lparr>ceDrives := 4\<rparr>"

lemma directory_listed_witness:
  "\<exists>g1 g'. custom_fsfirst (host_dev env2 no_rest) 0x1000 gd2 = (g1, Ret 0) \<and> mem_get (gd_ram g1) 0x815 23 = replicate 23 1 \<and>
    list_dir (host_dev env2 no_rest) 0x800 2 g1 = (g', [replicate 23 2], Some (Ret (extendByteToDword ENMFIL)))"
proof -
  have ram: "gd_ram gd2 = mem_put (\<lambda>_. 0) 0x1000 [0, 0, 0x10, 8, 0, 0, 0, 0, 0x43, 0x3a, 0x5c, 0x58, 0]"
    by (simp add: gd2_def gd0_def)
  have p: "rd32 (gd_ram gd2) 0x1000 = 0x1008" "rd16 (gd_ram gd2) (0x1000 + 4) = 0"
    by (simp_all add: ram rd16_def rd32_def be16_def be32_def)
  have drv: "getDriveFromPath 0x1008 gd2 = 2" by (rule path_on_C [OF _ _ _ _ _ ram]) simp_all
  have known: "drive_known gd2 2"
    by (simp add: drive_known_def ram rd32_def be32_def) (simp add: gd2_def gd0_def)
  have name: "strncpy_bytes (mem_put (gd_ram gd2) 0x800 (be32_bytes 0x800 @ [0, 0, 0, 0, 0, 0, 1])) 0x1008 511 =
      [0x43, 0x3a, 0x5c, 0x58] @ [0]"
    by (simp add: strncpy_step ram be32_bytes_def)
  have "drv_ok gd2" using drv_ok_gd0 by (simp add: gd2_def drv_ok_def)
  then have "fsfirst_ready env2 gd2 0x1000 0x800 [0x43, 0x3a, 0x5c, 0x58] [replicate 23 1, replicate 23 2]"
    unfolding fsfirst_ready_def p
    using drv known name
    by (simp add: env2_def finds_inv_def gd0_def gd2_def host0_def getFindStorageIndexByDta_def getEmptyFindStorageIndex_def)
  from directory_listed [OF this refl, of no_rest] show ?thesis
    by (auto simp del: list_dir.simps simp flip: numeral_2_eq_2)
qed

text \<open>
  C21: searches with different, not overlapping DTAs can be interleaved in any way: however the calls of
  Fsetdta and Fsnext for them alternate, each call succeeds while its search has entries left and returns
  the next entry of its own search, although all share one buffer in the driver.
\<close>

theorem interleaved_searches:
  assumes "\<forall>p \<in> S. search_at finds_inv host_found g p (es p) (k p)" and "fsnextIsForUs g" and "set ps \<subseteq> S"
    and "\<forall>p \<in> S. \<forall>q \<in> S. q \<noteq> p \<longrightarrow> (\<forall>i < 44. 44 \<le> unat (q + of_nat i - p))"
    and "\<forall>p \<in> S. k p + count_list ps p \<le> length (es p)"
  shows "snd (list_dirs (host_dev env rest) ps g) = delivered es k ps"
  using host_dir.list_dirs_ok [OF assms] .

definition host3 :: ce_host where
  "host3 = host0\<lparr>h_finds := [\<lparr>fs_dta = 0x800, fs_entries = [replicate 23 1, replicate 23 2]\<rparr>,
     \<lparr>fs_dta = 0x900, fs_entries = [replicate 23 3]\<rparr>]\<rparr>"

definition gd3 :: "ce_host gd" where
  "gd3 = (gd0 host3 [])\<lparr>gd_ram := mem_put (mem_put (\<lambda>_. 0) 0x800 (be32_bytes 0x800 @ [0, 0, 0, 0, 0, 0, 1])) 0x900
     (be32_bytes 0x900 @ [0, 0, 0, 0, 0, 0, 1]), fsnextIsForUs := True\<rparr>"

lemma interleaved_searches_witness:
  "snd (list_dirs (host_dev env0 no_rest) [0x800, 0x900, 0x800] gd3) =
    [(0x800, Ret 0, replicate 23 1), (0x900, Ret 0, replicate 23 3), (0x800, Ret 0, replicate 23 2)]"
proof -
  let ?es = "\<lambda>p :: DWORD. if p = 0x800 then [replicate 23 1, replicate 23 2] else [replicate 23 3 :: BYTE list]"
  have ram: "gd_ram gd3 = mem_put (mem_put (\<lambda>_. 0) 0x800 (be32_bytes 0x800 @ [0, 0, 0, 0, 0, 0, 1])) 0x900
     (be32_bytes 0x900 @ [0, 0, 0, 0, 0, 0, 1])" by (simp add: gd3_def)
  have "dta_fields (gd_ram gd3) 0x900 0 0 0" unfolding ram by (rule dta_init)
  moreover have "dta_fields (gd_ram gd3) 0x800 0 0 0"
    by (simp add: ram dta_fields_def mem_get_def rd16_def be32_bytes_def be16_def upt_rec)
  moreover have "drv_ok gd3" using drv_ok_gd0 by (simp add: gd3_def drv_ok_def)
  moreover have "finds_inv host3" by (auto simp: finds_inv_def host3_def less_Suc_eq)
  moreover have "host_found host3 0x800 = Some (?es 0x800)" "host_found host3 0x900 = Some (?es 0x900)"
    by (simp_all add: host_found_def host3_def getFindStorageIndexByDta_def upt_rec)
  moreover have "gd_host gd3 = host3" "length (pDtaBuffer gd3) = 512" "dtaBufferValidForPDta gd3 = 0"
    by (simp_all add: gd3_def gd0_def)
  ultimately have s: "\<forall>p \<in> {0x800, 0x900}. search_at finds_inv host_found gd3 p (?es p) ((\<lambda>_. 0) p)"
    by (auto simp: search_at_def)
  have a: "(0x900 + of_nat i - 0x800 :: DWORD) = of_nat (256 + i)" "(0x800 + of_nat i - 0x900 :: DWORD) = of_nat (4294967040 + i)" for i
    by simp_all
  have apart: "44 \<le> unat (0x900 + of_nat i - 0x800 :: DWORD)" "44 \<le> unat (0x800 + of_nat i - 0x900 :: DWORD)" if "i < 44" for i
    unfolding a using that by (simp_all add: unat_of_nat del: of_nat_add)
  have "fsnextIsForUs gd3" by (simp add: gd3_def)
  from interleaved_searches [OF s this, of "[0x800, 0x900, 0x800]" env0 no_rest] apart show ?thesis by simp
qed

end
