(* ===== verification/HostMfm.thy ===== *)
theory HostMfm
  imports Prelude
begin

text \<open>
  The host's floppy images and their encoding as MFM times (ce_main_app/floppy: floppyimage.cpp,
  floppyimagest.cpp, mfmcachedimage.cpp). The static variables of the encoder's functions and the
  member CRC are the state; a buffer with its count is the list of the bytes stored so far. The memory
  from the image's data on is a function, so that what is read past its end stays visible. Reading the
  image file is the argument of \<open>open_st\<close>; the pauses and the end of the program while encoding
  are left out.
\<close>

section \<open>Image files\<close>

record FloppyImage =
  fi_open :: bool
  fi_tracksNo :: int
  fi_sidesNo :: int
  fi_sectorsPerTrack :: int
  fi_isInit :: bool
  fi_size :: int
  fi_data :: "int \<Rightarrow> BYTE"

definition image_getParams :: "FloppyImage \<Rightarrow> bool \<times> int \<times> int \<times> int" where
  "image_getParams img = (if \<not> fi_open img then (False, 0, 0, 0)
     else (True, fi_tracksNo img, fi_sidesNo img, fi_sectorsPerTrack img))"

definition sector_offset :: "FloppyImage \<Rightarrow> int \<Rightarrow> int \<Rightarrow> int \<Rightarrow> int" where
  "sector_offset img track side sectorNo =
     (track * (fi_sidesNo img * fi_sectorsPerTrack img) + side * fi_sectorsPerTrack img + (sectorNo - 1)) * 512"

definition readSector :: "FloppyImage \<Rightarrow> int \<Rightarrow> int \<Rightarrow> int \<Rightarrow> BYTE list option" where
  "readSector img track side sectorNo =
     (if \<not> fi_open img then None
      else if sectorNo < 1 \<or> sectorNo > fi_sectorsPerTrack img then None
      else Some (map (\<lambda>i. fi_data img (sector_offset img track side sectorNo + int i)) [0..<512]))"

definition find_params :: "int \<Rightarrow> int \<Rightarrow> (int \<times> int) option" where
  "find_params sides cnt =
     find (\<lambda>(track, spt). sides * track * spt = cnt) (List.product [75..85] [5..15])"

definition calcParams :: "FloppyImage \<Rightarrow> FloppyImage \<times> bool" where
  "calcParams img =
     (let img = img\<lparr>fi_isInit := False\<rparr>; cnt = fi_size img div 512
      in if cnt = 1440
         then (img\<lparr>fi_tracksNo := 80, fi_sidesNo := 2, fi_sectorsPerTrack := 9, fi_isInit := True\<rparr>, True)
         else (let img = img\<lparr>fi_sidesNo := (if cnt < 750 then 1 else 2)\<rparr>
               in case find_params (fi_sidesNo img) cnt of
                    Some (track, spt) \<Rightarrow>
                      (img\<lparr>fi_tracksNo := track, fi_sectorsPerTrack := spt, fi_isInit := True\<rparr>, True)
                  | None \<Rightarrow> (img, False)))"

text \<open>
  \<open>file\<close> is what the file system gives for the name: nothing, or the bytes of the file and whether
  \<open>fread\<close> delivers all of them.
\<close>

definition loadImageIntoMemory :: "BYTE list \<Rightarrow> bool \<Rightarrow> FloppyImage \<Rightarrow> FloppyImage \<times> bool" where
  "loadImageIntoMemory file readOk img =
     (if \<not> readOk then (img\<lparr>fi_size := 0\<rparr>, False)
      else (img\<lparr>fi_size := int (length file),
                fi_data := (\<lambda>i. if 0 \<le> i \<and> i < int (length file) then file ! nat i else fi_data img i)\<rparr>, True))"

definition image_close :: "FloppyImage \<Rightarrow> FloppyImage" where
  "image_close img = (if \<not> fi_open img then img
     else img\<lparr>fi_open := False, fi_isInit := False, fi_size := 0\<rparr>)"

definition image_open :: "(BYTE list \<times> bool) option \<Rightarrow> FloppyImage \<Rightarrow> FloppyImage" where
  "image_open file img = (image_close img)\<lparr>fi_open := (file \<noteq> None)\<rparr>"

definition open_st :: "(BYTE list \<times> bool) option \<Rightarrow> FloppyImage \<Rightarrow> FloppyImage \<times> bool" where
  "open_st file img =
     (let img = image_open file img
      in case file of
           None \<Rightarrow> (img, False)
         | Some (bytes, readOk) \<Rightarrow>
             (case loadImageIntoMemory bytes readOk img of
                (img, ok) \<Rightarrow> if \<not> ok then (image_close img, False) else (fst (calcParams img), True)))"

section \<open>The encoder\<close>

record mfmenc =
  mf_prevBit :: BYTE
  mf_changes :: BYTE
  mf_times :: BYTE
  mf_timesCnt :: BYTE
  mf_CRC :: WORD
  mf_bfr :: "BYTE list"

abbreviation (input) MFM_4US :: BYTE where "MFM_4US \<equiv> 1"
abbreviation (input) MFM_6US :: BYTE where "MFM_6US \<equiv> 2"
abbreviation (input) MFM_8US :: BYTE where "MFM_8US \<equiv> 3"

definition appendTime :: "BYTE \<Rightarrow> mfmenc \<Rightarrow> mfmenc" where
  "appendTime time s =
     (let s = s\<lparr>mf_times := push_bit 2 (mf_times s) OR time, mf_timesCnt := mf_timesCnt s + 1\<rparr>
      in if mf_timesCnt s = 4 then s\<lparr>mf_timesCnt := 0, mf_bfr := mf_bfr s @ [mf_times s]\<rparr> else s)"

definition change_time :: "BYTE \<Rightarrow> BYTE option" where
  "change_time changes =
     (if changes = 0x05 then Some MFM_4US else if changes = 0x09 then Some MFM_6US
      else if changes = 0x11 then Some MFM_8US else None)"

definition appendChange :: "BYTE \<Rightarrow> mfmenc \<Rightarrow> mfmenc" where
  "appendChange chg s =
     (let s = s\<lparr>mf_changes := push_bit 1 (mf_changes s) OR chg\<rparr>
      in if mf_changes s = 0 \<or> mf_changes s = 1 then s
         else if chg \<noteq> 1 then s
         else case change_time (mf_changes s) of
                None \<Rightarrow> s
              | Some time \<Rightarrow> appendTime time (s\<lparr>mf_changes := 0x01\<rparr>))"

fun fdc_crc_bits :: "nat \<Rightarrow> BYTE \<Rightarrow> WORD \<Rightarrow> WORD" where
  "fdc_crc_bits 0 data crc = crc"
| "fdc_crc_bits (Suc n) data crc =
     fdc_crc_bits n data
       (push_bit 1 crc XOR
        (if (drop_bit 8 crc XOR push_bit (7 - n) (ucast data)) AND 0x0080 \<noteq> 0 then 0x1021 else 0))"

definition fdc_add_to_crc :: "WORD \<Rightarrow> BYTE \<Rightarrow> WORD" where
  "fdc_add_to_crc crc data = fdc_crc_bits 8 data crc"

definition append_bit :: "BYTE \<Rightarrow> mfmenc \<Rightarrow> mfmenc" where
  "append_bit bt s =
     (let s = (if bt = 0
               then if mf_prevBit s = 0 then appendChange 0 (appendChange 1 s)
                    else appendChange 0 (appendChange 0 s)
               else appendChange 1 (appendChange 0 s))
      in s\<lparr>mf_prevBit := bt\<rparr>)"

fun append_bits :: "nat \<Rightarrow> BYTE \<Rightarrow> mfmenc \<Rightarrow> mfmenc" where
  "append_bits 0 val s = s"
| "append_bits (Suc n) val s = append_bits n (push_bit 1 val) (append_bit (val AND 0x80) s)"

definition appendByteToStream :: "BYTE \<Rightarrow> bool \<Rightarrow> mfmenc \<Rightarrow> mfmenc" where
  "appendByteToStream val doCalcCrc s =
     append_bits 8 val (if doCalcCrc then s\<lparr>mf_CRC := fdc_add_to_crc (mf_CRC s) val\<rparr> else s)"

fun append_repeat :: "nat \<Rightarrow> BYTE \<Rightarrow> mfmenc \<Rightarrow> mfmenc" where
  "append_repeat 0 val s = s"
| "append_repeat (Suc n) val s = append_repeat n val (appendByteToStream val True s)"

definition appendRawByte :: "BYTE \<Rightarrow> mfmenc \<Rightarrow> mfmenc" where
  "appendRawByte val s = s\<lparr>mf_bfr := mf_bfr s @ [val]\<rparr>"

definition appendZeroIfNeededToMakeEven :: "mfmenc \<Rightarrow> mfmenc" where
  "appendZeroIfNeededToMakeEven s = (if odd (length (mf_bfr s)) then appendRawByte 0x00 s else s)"

definition appendA1MarkToStream :: "mfmenc \<Rightarrow> mfmenc" where
  "appendA1MarkToStream s =
     (let s = fold appendChange [0,1,0,0,0, 1,0,0, 1,0,0,0, 1,0,0,1] s
      in s\<lparr>mf_CRC := fdc_add_to_crc (mf_CRC s) 0xa1\<rparr>)"

definition appendCurrentSectorCommand :: "int \<Rightarrow> int \<Rightarrow> int \<Rightarrow> mfmenc \<Rightarrow> mfmenc" where
  "appendCurrentSectorCommand track side sector s =
     appendRawByte (word_of_int sector) (appendRawByte (word_of_int track)
       (appendRawByte (word_of_int side) (appendRawByte 0x50 s)))"

abbreviation (input) HIBYTE :: "WORD \<Rightarrow> BYTE" where "HIBYTE w \<equiv> ucast (drop_bit 8 w AND 0xFF)"
abbreviation (input) LOBYTE :: "WORD \<Rightarrow> BYTE" where "LOBYTE w \<equiv> ucast w"

definition append_crc :: "mfmenc \<Rightarrow> mfmenc" where
  "append_crc s =
     (let s = appendByteToStream (HIBYTE (mf_CRC s)) False s
      in appendByteToStream (LOBYTE (mf_CRC s)) False s)"

definition append_marks :: "mfmenc \<Rightarrow> mfmenc" where
  "append_marks s =
     appendA1MarkToStream (appendA1MarkToStream (appendA1MarkToStream (s\<lparr>mf_CRC := 0xffff\<rparr>)))"

definition append_header :: "int \<Rightarrow> int \<Rightarrow> int \<Rightarrow> mfmenc \<Rightarrow> mfmenc" where
  "append_header track side sector s =
     (let s = append_repeat 12 0 s;
          s = append_marks s;
          s = appendByteToStream 0xfe True s;
          s = appendByteToStream (word_of_int track) True s;
          s = appendByteToStream (word_of_int side) True s;
          s = appendByteToStream (word_of_int sector) True s;
          s = appendByteToStream 0x02 True s
      in append_crc s)"

definition append_data :: "BYTE list \<Rightarrow> mfmenc \<Rightarrow> mfmenc" where
  "append_data data s =
     (let s = append_repeat 22 0x4e s;
          s = append_repeat 12 0 s;
          s = append_marks s;
          s = appendByteToStream 0xfb True s;
          s = fold (\<lambda>b. appendByteToStream b True) data s;
          s = append_crc s
      in append_repeat 40 0x4e s)"

text \<open>
  The function stores at \<open>buffer + countInTrack\<close> and counts from 0: the result's buffer holds the
  sector's bytes alone.
\<close>

definition createMfmStream :: "FloppyImage \<Rightarrow> int \<Rightarrow> int \<Rightarrow> int \<Rightarrow> mfmenc \<Rightarrow> mfmenc \<times> bool" where
  "createMfmStream img side track sector s =
     (let s = s\<lparr>mf_bfr := []\<rparr>
      in case readSector img track side sector of
           None \<Rightarrow> (s, False)
         | Some data \<Rightarrow>
             (append_data data (append_header track side sector (appendCurrentSectorCommand track side sector s)), True))"

definition encode_sector :: "FloppyImage \<Rightarrow> int \<Rightarrow> int \<Rightarrow> bool \<Rightarrow> int \<Rightarrow> mfmenc \<Rightarrow> mfmenc" where
  "encode_sector img side track bufferOfBytes sect s =
     (let s = (if \<not> bufferOfBytes then appendZeroIfNeededToMakeEven s else s);
          s' = fst (createMfmStream img side track sect s)
      in s'\<lparr>mf_bfr := mf_bfr s @ mf_bfr s'\<rparr>)"

definition encodeSingleTrack :: "FloppyImage \<Rightarrow> int \<Rightarrow> int \<Rightarrow> int \<Rightarrow> bool \<Rightarrow> mfmenc \<Rightarrow> mfmenc" where
  "encodeSingleTrack img side track sectorsPerTrack bufferOfBytes s =
     (let s = append_repeat 60 0x4e (s\<lparr>mf_bfr := []\<rparr>);
          s = fold (encode_sector img side track bufferOfBytes) [1..sectorsPerTrack] s;
          s = (if \<not> bufferOfBytes then appendZeroIfNeededToMakeEven s else s)
      in appendRawByte 0x00 (appendRawByte 0xF0 s))"

section \<open>The cached image\<close>

text \<open>
  A track is none, or a block of 15000 bytes. The buffer of one track has 20480 bytes on the stack; a
  track that does not fit the buffer or the block is written past its end.
\<close>

datatype overrun = BufferOverrun | BlockOverrun

record TCachedTrack =
  ct_mfmStream :: "BYTE list option"
  ct_bytesInStream :: int

record MfmCachedImage =
  mc_newContent :: bool
  mc_gotImage :: bool
  mc_tracks :: int
  mc_sides :: int
  mc_spt :: int
  mc_cache :: "TCachedTrack list"
  mc_enc :: mfmenc

abbreviation (input) MAX_TRACKS :: int where "MAX_TRACKS \<equiv> 170"

abbreviation (input) no_track :: TCachedTrack where
  "no_track \<equiv> \<lparr>ct_mfmStream = None, ct_bytesInStream = 0\<rparr>"

definition initTracks :: "MfmCachedImage \<Rightarrow> MfmCachedImage" where
  "initTracks c = c\<lparr>mc_cache := replicate 170 no_track\<rparr>"

definition deleteCachedImage :: "MfmCachedImage \<Rightarrow> MfmCachedImage" where
  "deleteCachedImage c = (if \<not> mc_gotImage c then c
     else c\<lparr>mc_cache := replicate 170 no_track, mc_gotImage := False\<rparr>)"

fun swap_pairs :: "'a list \<Rightarrow> 'a list" where
  "swap_pairs (x # y # xs) = y # x # swap_pairs xs"
| "swap_pairs xs = xs"

definition store_track :: "bool \<Rightarrow> BYTE list \<Rightarrow> TCachedTrack" where
  "store_track bufferOfBytes buffer =
     (let block = overwrite (replicate 15000 0) buffer
      in \<lparr>ct_mfmStream = Some (if bufferOfBytes then swap_pairs block else block),
          ct_bytesInStream = int (length buffer)\<rparr>)"

definition encode_track :: "FloppyImage \<Rightarrow> int \<Rightarrow> bool \<Rightarrow> int \<times> int \<Rightarrow> MfmCachedImage \<Rightarrow> overrun + MfmCachedImage" where
  "encode_track img spt bufferOfBytes ts c =
     (let (t, s) = ts;
          e = encodeSingleTrack img s t spt bufferOfBytes (mc_enc c);
          c = c\<lparr>mc_enc := e\<rparr>; index = t * 2 + s
      in if length (mf_bfr e) > 20480 then Inl BufferOverrun
         else if index \<ge> MAX_TRACKS then Inr c
         else if length (mf_bfr e) > 15000 then Inl BlockOverrun
         else Inr (c\<lparr>mc_cache := (mc_cache c)[nat index := store_track bufferOfBytes (mf_bfr e)]\<rparr>))"

fun encode_tracks :: "FloppyImage \<Rightarrow> int \<Rightarrow> bool \<Rightarrow> (int \<times> int) list \<Rightarrow> MfmCachedImage \<Rightarrow> overrun + MfmCachedImage" where
  "encode_tracks img spt bufferOfBytes [] c = Inr c"
| "encode_tracks img spt bufferOfBytes (ts # tss) c =
     (case encode_track img spt bufferOfBytes ts c of
        Inl e \<Rightarrow> Inl e
      | Inr c \<Rightarrow> encode_tracks img spt bufferOfBytes tss c)"

definition encodeAndCacheImage :: "FloppyImage \<Rightarrow> bool \<Rightarrow> MfmCachedImage \<Rightarrow> overrun + MfmCachedImage" where
  "encodeAndCacheImage img bufferOfBytes c =
     (let c = (if mc_gotImage c then deleteCachedImage c else c)
      in if \<not> fi_open img then Inr c
         else (let (_, tracksNo, sides, spt) = image_getParams img;
                   c = c\<lparr>mc_tracks := tracksNo, mc_sides := sides, mc_spt := spt\<rparr>
               in case encode_tracks img spt bufferOfBytes (List.product [0..tracksNo - 1] [0..sides - 1]) c of
                    Inl e \<Rightarrow> Inl e
                  | Inr c \<Rightarrow> Inr (c\<lparr>mc_newContent := True, mc_gotImage := True\<rparr>)))"

definition getEncodedTrack :: "int \<Rightarrow> int \<Rightarrow> MfmCachedImage \<Rightarrow> BYTE list option \<times> int" where
  "getEncodedTrack track side c =
     (if \<not> mc_gotImage c then (None, 0)
      else if track < 0 \<or> track > 85 \<or> side < 0 \<or> side > 1 then (None, 0)
      else (let index = track * 2 + side
            in if index \<ge> MAX_TRACKS then (None, 0)
               else (ct_mfmStream (mc_cache c ! nat index), ct_bytesInStream (mc_cache c ! nat index))))"

definition copy_track :: "MfmCachedImage \<Rightarrow> int \<times> int \<Rightarrow> MfmCachedImage \<Rightarrow> MfmCachedImage" where
  "copy_track other st c =
     (let (side, track) = st; (src, bytesInBuffer) = getEncodedTrack track side other; index = track * 2 + side
      in if index \<ge> MAX_TRACKS then c
         else (let dest = mc_cache c ! nat index;
                   dest' = (case src of
                       None \<Rightarrow> (case ct_mfmStream dest of
                           Some _ \<Rightarrow> \<lparr>ct_mfmStream = Some (replicate 15000 0), ct_bytesInStream = 0\<rparr>
                         | None \<Rightarrow> dest)
                     | Some bytes \<Rightarrow>
                         (let block = (case ct_mfmStream dest of Some b \<Rightarrow> b | None \<Rightarrow> replicate 15000 0)
                          in \<lparr>ct_mfmStream = Some (overwrite block (take (nat bytesInBuffer) bytes)),
                              ct_bytesInStream = bytesInBuffer\<rparr>))
               in c\<lparr>mc_cache := (mc_cache c)[nat index := dest']\<rparr>))"

definition copyFromOther :: "MfmCachedImage \<Rightarrow> MfmCachedImage \<Rightarrow> MfmCachedImage" where
  "copyFromOther other c =
     (let c = initTracks c;
          c = c\<lparr>mc_tracks := mc_tracks other, mc_sides := mc_sides other, mc_spt := mc_spt other, mc_gotImage := True\<rparr>;
          c = fold (copy_track other) (List.product [0..1] [0..mc_tracks c - 1]) c
      in c\<lparr>mc_newContent := True\<rparr>)"

end
