(* ===== verification/HostMfmDec.thy ===== *)
theory HostMfmDec
  imports HostMfm
begin

text \<open>
  The host's decoder of MFM times (ce_main_app/floppy/mfmdecoder.cpp): members and static variables as
  one state, the decoded bytes as the list stored so far.
\<close>

section \<open>The decoder\<close>

record MfmDecoder =
  md_decoded :: "BYTE list"
  md_bitCount :: int
  md_patCount :: int
  md_byte :: BYTE
  md_a1Cnt :: DWORD
  md_c2Cnt :: DWORD
  md_syncDetector :: DWORD
  md_pattern :: BYTE

definition addNormalBit :: "BYTE \<Rightarrow> MfmDecoder \<Rightarrow> MfmDecoder" where
  "addNormalBit bt d =
     (let d = d\<lparr>md_byte := push_bit 1 (md_byte d) OR bt, md_bitCount := md_bitCount d + 1\<rparr>
      in if md_bitCount d = 8 then d\<lparr>md_bitCount := 0, md_decoded := md_decoded d @ [md_byte d]\<rparr> else d)"

definition appendPatternBit :: "BYTE \<Rightarrow> MfmDecoder \<Rightarrow> MfmDecoder" where
  "appendPatternBit bt d =
     (let d = d\<lparr>md_pattern := (push_bit 1 (md_pattern d) OR bt) AND 0x03, md_patCount := md_patCount d + 1\<rparr>
      in if md_patCount d = 2
         then (let d = d\<lparr>md_patCount := 0\<rparr>
               in if md_pattern d = 2 then addNormalBit 0 d
                  else if md_pattern d = 0 then addNormalBit 0 d
                  else if md_pattern d = 1 then addNormalBit 1 d
                  else addNormalBit 0 d)
         else d)"

definition appendToSync :: "DWORD \<Rightarrow> MfmDecoder \<Rightarrow> MfmDecoder" where
  "appendToSync val d =
     (let d = d\<lparr>md_syncDetector := push_bit 4 (md_syncDetector d) OR val\<rparr>;
          d = (if md_syncDetector d AND 0xfffff = 0x46866 then d\<lparr>md_c2Cnt := md_c2Cnt d + 1\<rparr> else d)
      in if md_syncDetector d AND 0xffff = 0x8686
         then d\<lparr>md_syncDetector := 0, md_a1Cnt := md_a1Cnt d + 1, md_bitCount := 7, md_patCount := 1\<rparr>
         else d)"

definition append_time :: "BYTE \<Rightarrow> MfmDecoder \<Rightarrow> MfmDecoder" where
  "append_time time d =
     (if time = MFM_4US then appendToSync 4 (appendPatternBit 0 (appendPatternBit 1 d))
      else if time = MFM_6US
      then appendToSync 6 (appendPatternBit 0 (appendPatternBit 0 (appendPatternBit 1 d)))
      else if time = MFM_8US
      then appendToSync 8 (appendPatternBit 0 (appendPatternBit 0 (appendPatternBit 0 (appendPatternBit 1 d))))
      else d)"

fun append_times :: "nat \<Rightarrow> BYTE \<Rightarrow> MfmDecoder \<Rightarrow> MfmDecoder" where
  "append_times 0 val d = d"
| "append_times (Suc n) val d = append_times n (push_bit 2 val) (append_time (drop_bit 6 val) d)"

definition appendEncodedByte :: "BYTE \<Rightarrow> MfmDecoder \<Rightarrow> MfmDecoder" where
  "appendEncodedByte val d = append_times 4 val d"

fun decode_bytes :: "BYTE list \<Rightarrow> MfmDecoder \<Rightarrow> MfmDecoder" where
  "decode_bytes [] d = d"
| "decode_bytes (b # bs) d =
     (if b = 0 then decode_bytes bs d
      else if b = 0x50 then decode_bytes (drop 3 bs) d
      else decode_bytes bs (appendEncodedByte b d))"

definition decodeStream :: "BYTE list \<Rightarrow> MfmDecoder \<Rightarrow> MfmDecoder" where
  "decodeStream inStream d = decode_bytes inStream (d\<lparr>md_decoded := [], md_a1Cnt := 0, md_c2Cnt := 0\<rparr>)"

text \<open>A decoder before its first stream: the constructor's values and the zeros of static variables.\<close>

definition new_decoder :: MfmDecoder where
  "new_decoder = \<lparr>md_decoded = [], md_bitCount = 0, md_patCount = 0, md_byte = 0, md_a1Cnt = 0,
     md_c2Cnt = 0, md_syncDetector = 0, md_pattern = 0\<rparr>"

definition new_encoder :: "mfmenc \<Rightarrow> bool" where
  "new_encoder s \<longleftrightarrow> mf_prevBit s = 0 \<and> mf_changes s = 0 \<and> mf_times s = 0 \<and> mf_timesCnt s = 0"

end
