(* ===== verification/HostMfmLine.thy ===== *)
theory HostMfmLine
  imports HostMfmDec FranzStream
begin

text \<open>
  What the encoder emits: at every bit the cells stored so far are in one of five states, which fix the
  times that the next bit adds; four times make a byte of the stream.
\<close>

section \<open>The state of the line\<close>

text \<open>
  Nothing yet; after a 0 that follows a 0 or starts the line; after a 0 that follows a 1; after a 1;
  after an A1 mark, which leaves \<open>prevBit\<close> as it was.
\<close>

datatype line = Fresh | Zero | OneZero | One | Mark

fun line_of :: "line \<Rightarrow> mfmenc \<Rightarrow> bool" where
  "line_of Fresh s \<longleftrightarrow> mf_prevBit s = 0 \<and> mf_changes s = 0"
| "line_of Zero s \<longleftrightarrow> mf_prevBit s = 0 \<and> mf_changes s = 2"
| "line_of OneZero s \<longleftrightarrow> mf_prevBit s = 0 \<and> mf_changes s = 4"
| "line_of One s \<longleftrightarrow> mf_prevBit s = 0x80 \<and> mf_changes s = 1"
| "line_of Mark s \<longleftrightarrow> mf_prevBit s = 0 \<and> mf_changes s = 1"

fun bit_next :: "line \<Rightarrow> bool \<Rightarrow> line" where
  "bit_next One False = OneZero"
| "bit_next _ False = Zero"
| "bit_next _ True = One"

fun bit_times :: "line \<Rightarrow> bool \<Rightarrow> BYTE list" where
  "bit_times Fresh _ = []"
| "bit_times Zero False = [1]"
| "bit_times Zero True = [2]"
| "bit_times OneZero False = [2]"
| "bit_times OneZero True = [3]"
| "bit_times One False = []"
| "bit_times One True = [1]"
| "bit_times Mark _ = [1]"

fun bits_next :: "line \<Rightarrow> bool list \<Rightarrow> line" where
  "bits_next l [] = l"
| "bits_next l (b # bs) = bits_next (bit_next l b) bs"

fun bits_times :: "line \<Rightarrow> bool list \<Rightarrow> BYTE list" where
  "bits_times l [] = []"
| "bits_times l (b # bs) = bit_times l b @ bits_times (bit_next l b) bs"

lemma bits_next_append: "bits_next l (bs @ cs) = bits_next (bits_next l bs) cs"
  by (induction bs arbitrary: l) simp_all

lemma bits_times_append: "bits_times l (bs @ cs) = bits_times l bs @ bits_times (bits_next l bs) cs"
  by (induction bs arbitrary: l) simp_all

definition bits8 :: "BYTE \<Rightarrow> bool list" where
  "bits8 b = map (\<lambda>i. bit b (7 - i)) [0..<8]"

section \<open>Packing\<close>

text \<open>The part of the state that packs times, and the same operation on it.\<close>

definition pk :: "mfmenc \<Rightarrow> BYTE \<times> BYTE \<times> BYTE list" where
  "pk s = (mf_times s, mf_timesCnt s, mf_bfr s)"

fun pk_time :: "BYTE \<Rightarrow> BYTE \<times> BYTE \<times> BYTE list \<Rightarrow> BYTE \<times> BYTE \<times> BYTE list" where
  "pk_time t (ts, n, bs) =
     (let ts = push_bit 2 ts OR t in if n + 1 = 4 then (ts, 0, bs @ [ts]) else (ts, n + 1, bs))"

lemma pk_appendTime: "pk (appendTime t s) = pk_time t (pk s)"
  by (simp add: pk_def appendTime_def Let_def)

lemma line_appendTime [simp]: "line_of l (appendTime t s) = line_of l s" "mf_CRC (appendTime t s) = mf_CRC s"
  "mf_prevBit (appendTime t s) = mf_prevBit s" "mf_changes (appendTime t s) = mf_changes s"
  by (cases l; simp add: appendTime_def Let_def) (simp_all add: appendTime_def Let_def)

lemma pk_upd [simp]: "pk (s\<lparr>mf_prevBit := p\<rparr>) = pk s" "pk (s\<lparr>mf_changes := c\<rparr>) = pk s" "pk (s\<lparr>mf_CRC := r\<rparr>) = pk s"
  by (simp_all add: pk_def)

lemma line_upd [simp]: "line_of l (s\<lparr>mf_CRC := r\<rparr>) = line_of l s" "line_of l (s\<lparr>mf_bfr := b\<rparr>) = line_of l s"
  by (cases l; simp)+

text \<open>One change, by the cells since the last 1.\<close>

lemma change_0: "appendChange 0 s = s\<lparr>mf_changes := push_bit 1 (mf_changes s)\<rparr>"
  by (simp add: appendChange_def Let_def)

lemma change_1:
  "mf_changes s = 0 \<Longrightarrow> appendChange 1 s = s\<lparr>mf_changes := 1\<rparr>"
  "mf_changes s = 2 \<Longrightarrow> appendChange 1 s = appendTime 1 (s\<lparr>mf_changes := 1\<rparr>)"
  "mf_changes s = 4 \<Longrightarrow> appendChange 1 s = appendTime 2 (s\<lparr>mf_changes := 1\<rparr>)"
  "mf_changes s = 8 \<Longrightarrow> appendChange 1 s = appendTime 3 (s\<lparr>mf_changes := 1\<rparr>)"
  by (simp_all add: appendChange_def Let_def change_time_def)

lemma append_bit_line:
  assumes "line_of l s" and "l = Mark \<longrightarrow> b"
  shows "line_of (bit_next l b) (append_bit (if b then 0x80 else 0) s) \<and>
         pk (append_bit (if b then 0x80 else 0) s) = fold pk_time (bit_times l b) (pk s) \<and>
         mf_CRC (append_bit (if b then 0x80 else 0) s) = mf_CRC s"
  using assms
  by (cases l; cases b) (simp_all add: append_bit_def Let_def change_0 change_1 pk_appendTime)

lemma bit_128: "bit (0x80 :: BYTE) n \<longleftrightarrow> n = 7"
proof -
  have "bit (push_bit 7 (1 :: BYTE)) n \<longleftrightarrow> n = 7" by (simp only: bit_push_bit_iff bit_1_iff) auto
  then show ?thesis by simp
qed

lemma top_bit: "v AND 0x80 = (if bit v 7 then 0x80 else (0 :: BYTE))"
proof (rule bit_word_eqI)
  fix n
  show "bit (v AND 0x80) n = bit (if bit v 7 then 0x80 else (0 :: BYTE)) n"
    by (cases "bit v 7"; simp only: bit_and_iff bit_128 if_True if_False bit_0_eq bot_apply; auto)
qed

lemma bits_from:
  assumes "n \<le> 7"
  shows "map (\<lambda>i. bit v (7 - i)) [0..<Suc n] = bit v 7 # map (\<lambda>i. bit (push_bit 1 (v :: BYTE)) (7 - i)) [0..<n]"
proof -
  have "bit (push_bit 1 v) (7 - i) = bit v (7 - Suc i)" if "i < n" for i
    using that assms by (subst bit_push_bit_iff) auto
  then have "map (\<lambda>i. bit (push_bit 1 v) (7 - i)) [0..<n] = map ((\<lambda>i. bit v (7 - i)) \<circ> Suc) [0..<n]" by simp
  also have "\<dots> = map (\<lambda>i. bit v (7 - i)) [Suc 0..<Suc n]" by (simp only: map_map [symmetric] map_Suc_upt)
  finally show ?thesis by (subst upt_conv_Cons) simp_all
qed

lemma append_bits_line:
  assumes "line_of l s" and "l = Mark \<longrightarrow> 0 < n \<and> bit v 7" and "n \<le> 8"
  shows "line_of (bits_next l (map (\<lambda>i. bit v (7 - i)) [0..<n])) (append_bits n v s) \<and>
         pk (append_bits n v s) = fold pk_time (bits_times l (map (\<lambda>i. bit v (7 - i)) [0..<n])) (pk s) \<and>
         mf_CRC (append_bits n v s) = mf_CRC s"
  using assms
proof (induction n arbitrary: l v s)
  case 0
  then show ?case by simp
next
  case (Suc n)
  let ?s = "append_bit (if bit v 7 then 0x80 else 0) s"
  from Suc.prems append_bit_line [of l s "bit v 7"]
  have b: "line_of (bit_next l (bit v 7)) ?s" "pk ?s = fold pk_time (bit_times l (bit v 7)) (pk s)" "mf_CRC ?s = mf_CRC s"
    by auto
  have m: "bit_next l (bit v 7) \<noteq> Mark" by (cases l; cases "bit v 7") simp_all
  from Suc.prems(3) have n: "n \<le> 7" by simp
  then have n8: "n \<le> 8" by simp
  have t: "append_bits (Suc n) v s = append_bits n (push_bit 1 v) ?s" by (simp only: append_bits.simps top_bit)
  show ?case
    unfolding t bits_from [OF n] bits_next.simps bits_times.simps fold_append comp_apply b(2,3) [symmetric]
    by (rule Suc.IH [OF b(1) _ n8]) (simp add: m)
qed

text \<open>A byte, and the check sum it leaves.\<close>

lemma append_byte_line:
  assumes "line_of l s" and "l = Mark \<longrightarrow> bit v 7"
  shows "line_of (bits_next l (bits8 v)) (appendByteToStream v c s)"
    and "pk (appendByteToStream v c s) = fold pk_time (bits_times l (bits8 v)) (pk s)"
    and "mf_CRC (appendByteToStream v c s) = (if c then fdc_add_to_crc (mf_CRC s) v else mf_CRC s)"
  using append_bits_line [of l "if c then s\<lparr>mf_CRC := fdc_add_to_crc (mf_CRC s) v\<rparr> else s" 8 v] assms
  by (simp_all add: appendByteToStream_def bits8_def del: append_bits.simps)

section \<open>Bytes and marks\<close>

datatype sym = Byte BYTE | A1

fun sym_ok :: "line \<Rightarrow> sym \<Rightarrow> bool" where
  "sym_ok l (Byte v) \<longleftrightarrow> (l = Mark \<longrightarrow> bit v 7)"
| "sym_ok l A1 \<longleftrightarrow> l = Zero \<or> l = Mark"

fun sym_next :: "line \<Rightarrow> sym \<Rightarrow> line" where
  "sym_next l (Byte v) = bits_next l (bits8 v)"
| "sym_next l A1 = Mark"

fun sym_times :: "line \<Rightarrow> sym \<Rightarrow> BYTE list" where
  "sym_times l (Byte v) = bits_times l (bits8 v)"
| "sym_times l A1 = [if l = Zero then 2 else 1, 3, 2, 3, 2]"

fun syms_ok :: "line \<Rightarrow> sym list \<Rightarrow> bool" where
  "syms_ok l [] = True"
| "syms_ok l (x # xs) = (sym_ok l x \<and> syms_ok (sym_next l x) xs)"

fun syms_next :: "line \<Rightarrow> sym list \<Rightarrow> line" where
  "syms_next l [] = l"
| "syms_next l (x # xs) = syms_next (sym_next l x) xs"

fun syms_times :: "line \<Rightarrow> sym list \<Rightarrow> BYTE list" where
  "syms_times l [] = []"
| "syms_times l (x # xs) = sym_times l x @ syms_times (sym_next l x) xs"

lemma syms_append [simp]:
  "syms_ok l (xs @ ys) \<longleftrightarrow> syms_ok l xs \<and> syms_ok (syms_next l xs) ys"
  "syms_next l (xs @ ys) = syms_next (syms_next l xs) ys"
  "syms_times l (xs @ ys) = syms_times l xs @ syms_times (syms_next l xs) ys"
  by (induction xs arbitrary: l) simp_all

definition emits :: "mfmenc \<Rightarrow> sym list \<Rightarrow> mfmenc \<Rightarrow> bool" where
  "emits s xs s' \<longleftrightarrow> (\<forall>l. line_of l s \<longrightarrow> syms_ok l xs \<longrightarrow>
     line_of (syms_next l xs) s' \<and> pk s' = fold pk_time (syms_times l xs) (pk s))"

lemma emits_trans: "emits s xs s' \<Longrightarrow> emits s' ys s'' \<Longrightarrow> emits s (xs @ ys) s''"
  unfolding emits_def by (metis syms_append fold_append comp_apply)

lemma emits_CRC [simp]: "emits (s\<lparr>mf_CRC := r\<rparr>) xs s' = emits s xs s'"
  by (simp add: emits_def)

lemma emits_byte: "emits s [Byte v] (appendByteToStream v c s)"
  using append_byte_line by (simp add: emits_def)

lemma crc_byte [simp]: "mf_CRC (appendByteToStream v c s) = (if c then fdc_add_to_crc (mf_CRC s) v else mf_CRC s)"
proof -
  have ch: "mf_CRC (appendChange x t) = mf_CRC t" for x t
    by (simp add: appendChange_def Let_def split: option.split)
  have "mf_CRC (append_bits n w t) = mf_CRC t" for n w t
    by (induction n arbitrary: w t) (simp_all add: append_bit_def Let_def ch)
  then show ?thesis by (simp add: appendByteToStream_def del: append_bits.simps)
qed

lemma emits_mark: "emits s [A1] (appendA1MarkToStream s)"
  unfolding emits_def
proof (intro allI impI)
  fix l assume l: "line_of l s" and "syms_ok l [A1]"
  then have "l = Zero \<or> l = Mark" by simp
  with l show "line_of (syms_next l [A1]) (appendA1MarkToStream s) \<and>
      pk (appendA1MarkToStream s) = fold pk_time (syms_times l [A1]) (pk s)"
    by (elim disjE) (simp_all add: appendA1MarkToStream_def Let_def change_0 change_1 pk_appendTime)
qed

lemma crc_mark [simp]: "mf_CRC (appendA1MarkToStream s) = fdc_add_to_crc (mf_CRC s) 0xa1"
proof -
  have "mf_CRC (appendChange x t) = mf_CRC t" for x t
    by (simp add: appendChange_def Let_def split: option.split)
  then show ?thesis by (simp add: appendA1MarkToStream_def Let_def)
qed

lemma emits_fold:
  "emits s (map Byte vs) (fold (\<lambda>b. appendByteToStream b True) vs s)"
  "mf_CRC (fold (\<lambda>b. appendByteToStream b True) vs s) = foldl fdc_add_to_crc (mf_CRC s) vs"
proof (induction vs arbitrary: s)
  case Nil
  { case 1 then show ?case by (simp add: emits_def) next case 2 then show ?case by simp }
next
  case (Cons v vs)
  { case 1 show ?case using emits_trans [OF emits_byte [of s v True] Cons(1)] by simp
  next case 2 show ?case using Cons(2) by simp }
qed

lemma repeat_fold: "append_repeat n v s = fold (\<lambda>b. appendByteToStream b True) (replicate n v) s"
  by (induction n arbitrary: s) simp_all

lemma emits_repeat: "emits s (replicate n (Byte v)) (append_repeat n v s)"
  using emits_fold(1) [of s "replicate n v"] by (simp add: repeat_fold)

section \<open>The layout of a sector\<close>

text \<open>The check sum over a field: the three marks and the bytes that follow.\<close>

definition field_crc :: "BYTE list \<Rightarrow> WORD" where
  "field_crc bs = foldl fdc_add_to_crc 0xffff ([0xa1, 0xa1, 0xa1] @ bs)"

definition field :: "BYTE list \<Rightarrow> sym list" where
  "field bs = [A1, A1, A1] @ map Byte bs @ [Byte (HIBYTE (field_crc bs)), Byte (LOBYTE (field_crc bs))]"

definition id_bytes :: "int \<Rightarrow> int \<Rightarrow> int \<Rightarrow> BYTE list" where
  "id_bytes track side sector = [0xfe, word_of_int track, word_of_int side, word_of_int sector, 0x02]"

definition sector_syms :: "int \<Rightarrow> int \<Rightarrow> int \<Rightarrow> BYTE list \<Rightarrow> sym list" where
  "sector_syms track side sector data =
     replicate 12 (Byte 0) @ field (id_bytes track side sector) @
     replicate 22 (Byte 0x4e) @ replicate 12 (Byte 0) @ field (0xfb # data) @ replicate 40 (Byte 0x4e)"

lemma emits_field:
  "emits s (field bs) (append_crc (fold (\<lambda>b. appendByteToStream b True) bs (append_marks s)))"
proof -
  let ?m = "append_marks s"
  let ?d = "fold (\<lambda>b. appendByteToStream b True) bs ?m"
  have "mf_CRC ?m = foldl fdc_add_to_crc 0xffff [0xa1, 0xa1, 0xa1]" by (simp add: append_marks_def)
  then have c: "mf_CRC ?d = field_crc bs" by (simp add: emits_fold(2) field_crc_def)
  have m: "emits s ([A1] @ [A1] @ [A1]) ?m"
    unfolding append_marks_def
    by (rule emits_trans, rule emits_mark [of "s\<lparr>mf_CRC := 0xffff\<rparr>", simplified emits_CRC], rule emits_trans, rule emits_mark, rule emits_mark)
  have "emits ?d ([Byte (HIBYTE (field_crc bs))] @ [Byte (LOBYTE (field_crc bs))]) (append_crc ?d)"
    unfolding append_crc_def Let_def c
    using emits_trans [OF emits_byte emits_byte] by (simp add: c)
  then have "emits s (([A1] @ [A1] @ [A1]) @ map Byte bs @ [Byte (HIBYTE (field_crc bs))] @ [Byte (LOBYTE (field_crc bs))]) (append_crc ?d)"
    by (intro emits_trans [OF m] emits_trans [OF emits_fold(1)])
  then show ?thesis by (simp add: field_def)
qed

lemma emits_sector:
  "emits s (sector_syms track side sector data) (append_data data (append_header track side sector s))"
proof -
  have h: "append_header track side sector s =
      append_crc (fold (\<lambda>b. appendByteToStream b True) (id_bytes track side sector) (append_marks (append_repeat 12 0 s)))"
    by (simp add: append_header_def id_bytes_def Let_def)
  have d: "append_data data t = append_repeat 40 0x4e (append_crc
      (fold (\<lambda>b. appendByteToStream b True) (0xfb # data) (append_marks (append_repeat 12 0 (append_repeat 22 0x4e t)))))" for t
    by (simp add: append_data_def Let_def del: append_repeat.simps)
  show ?thesis
    unfolding sector_syms_def h d
    by (intro emits_trans [OF emits_repeat] emits_trans [OF emits_field] emits_repeat)
qed

end
