(* ===== verification/HostMfmTrack.thy ===== *)
theory HostMfmTrack
  imports HostMfmLine
begin

text \<open>
  A whole track: the bytes of its stream are sector commands, empty bytes and bytes of four times, and
  the times are those of the track's layout.
\<close>

section \<open>Four times to a byte\<close>

fun packed :: "BYTE \<times> BYTE \<times> BYTE list \<Rightarrow> mfm_item list \<Rightarrow> BYTE list \<Rightarrow> bool" where
  "packed (x, n, bfr) its ts \<longleftrightarrow> bfr = concat (map mfm_enc its) \<and> list_all mfm_valid its \<and>
     (\<exists>y p. unat n = length p \<and> length p < 4 \<and> set p \<subseteq> {1, 2, 3} \<and>
        x = foldl (\<lambda>x t. push_bit 2 x OR t) y p \<and> concat (map mfm_codes (mfm_data its)) @ p = ts)"

lemma code_bits:
  assumes "t \<in> {1, 2, 3 :: BYTE}"
  shows "bit t i \<longleftrightarrow> i < 2 \<and> bit t i"
proof -
  from assms have "take_bit 2 t = t" by (auto simp: take_bit_eq_mask mask_eq_exp_minus_1)
  then show ?thesis by (metis bit_take_bit_iff)
qed

lemma bit_push_code:
  assumes "t \<in> {1, 2, 3 :: BYTE}" and "n < 8"
  shows "bit (push_bit 2 x OR t) n \<longleftrightarrow> (if n < 2 then bit t n else bit x (n - 2))"
  using code_bits [OF assms(1), of n] assms(2) by (simp only: bit_or_iff bit_push_bit_iff) auto

lemma code_at:
  assumes "k < 4"
  shows "bit (drop_bit 6 (push_bit (2 * k) (x :: BYTE))) i \<longleftrightarrow> i < 2 \<and> bit x (6 + i - 2 * k)"
  using assms by (simp only: bit_drop_bit_eq comp_apply bit_push_bit_iff) auto

lemma four_times:
  assumes "set [a, b, c, d] \<subseteq> {1, 2, 3}"
  shows "mfm_codes (foldl (\<lambda>x t. push_bit 2 x OR t) y [a, b, c, d]) = [a, b, c, d]"
    and "valid_mfm (foldl (\<lambda>x t. push_bit 2 x OR t) y [a, b, c, d])"
proof -
  let ?x = "foldl (\<lambda>x t. push_bit 2 x OR t) y [a, b, c, d]"
  from assms have abcd: "a \<in> {1, 2, 3}" "b \<in> {1, 2, 3}" "c \<in> {1, 2, 3}" "d \<in> {1, 2, 3}" by simp_all
  have code: "drop_bit 6 (push_bit (2 * k) ?x) = t" if "k < 4" "t \<in> {1, 2, 3}" "bit ?x (6 - 2 * k) = bit t 0" "bit ?x (7 - 2 * k) = bit t 1" for k t
  proof (rule bit_word_eqI)
    fix i
    show "bit (drop_bit 6 (push_bit (2 * k) ?x)) i = bit t i"
    proof (cases "i < 2")
      case True
      then have "i = 0 \<or> i = 1" by auto
      with that show ?thesis unfolding code_at [OF that(1)] by auto
    next
      case False
      then show ?thesis using code_bits [OF that(2), of i] unfolding code_at [OF that(1)] by simp
    qed
  qed
  note b = bit_push_code [OF abcd(1)] bit_push_code [OF abcd(2)] bit_push_code [OF abcd(3)] bit_push_code [OF abcd(4)]
  have "bit ?x 6 = bit a 0" "bit ?x 7 = bit a 1" "bit ?x 4 = bit b 0" "bit ?x 5 = bit b 1"
    "bit ?x 2 = bit c 0" "bit ?x 3 = bit c 1" "bit ?x 0 = bit d 0" "bit ?x 1 = bit d 1"
    by (simp_all only: foldl.simps b) simp_all
  with code [of 0 a] code [of 1 b] code [of 2 c] code [of 3 d] abcd
  show m: "mfm_codes ?x = [a, b, c, d]" by (simp add: mfm_codes_def upt_rec del: foldl.simps)
  with assms show "valid_mfm ?x" by (auto simp: valid_mfm_def simp del: foldl.simps)
qed

lemma data_append: "mfm_data (xs @ ys) = mfm_data xs @ mfm_data ys"
  by (rule mfm_data_append)

lemma packed_time:
  assumes "packed q its ts" and "t \<in> {1, 2, 3}"
  shows "\<exists>its'. packed (pk_time t q) (its @ its') (ts @ [t])"
proof -
  obtain x n bfr where q: "q = (x, n, bfr)" by (cases q) auto
  with assms obtain y p where p: "bfr = concat (map mfm_enc its)" "list_all mfm_valid its" "unat n = length p" "length p < 4"
    "set p \<subseteq> {1, 2, 3}" "x = foldl (\<lambda>x t. push_bit 2 x OR t) y p" "concat (map mfm_codes (mfm_data its)) @ p = ts" by auto
  have u: "unat (n + 1) = Suc (length p)" using p(3,4) by (simp add: unat_Suc_8)
  let ?x = "foldl (\<lambda>x t. push_bit 2 x OR t) y (p @ [t])"
  show ?thesis
  proof (cases "length p = 3")
    case True
    then obtain a b c where abc: "p = [a, b, c]" by (auto simp: numeral_3_eq_3 length_Suc_conv)
    from True u have "unat (n + 1) = unat (4 :: BYTE)" by simp
    then have n: "n + 1 = 4" by (simp only: word_unat_eq_iff)
    have s: "set [a, b, c, t] \<subseteq> {1, 2, 3}" using p(5) assms(2) abc by simp
    have "packed (pk_time t q) (its @ [Data ?x]) (ts @ [t])"
      using p four_times [OF s, of y] abc n by (simp add: q Let_def data_append del: foldl.simps) (simp add: exI [of _ "[]"])
    then show ?thesis by blast
  next
    case False
    with p(4) u have "unat (n + 1) \<noteq> unat (4 :: BYTE)" by simp
    then have n: "n + 1 \<noteq> 4" by metis
    have "packed (pk_time t q) (its @ []) (ts @ [t])"
      using p False n u assms(2) by (auto simp: q Let_def intro!: exI [of _ y] exI [of _ "p @ [t]"])
    then show ?thesis by blast
  qed
qed

lemma packed_times:
  "packed q its ts \<Longrightarrow> set us \<subseteq> {1, 2, 3} \<Longrightarrow> \<exists>its'. packed (fold pk_time us q) (its @ its') (ts @ us)"
proof (induction us arbitrary: q its ts)
  case Nil
  then have "packed (fold pk_time [] q) (its @ []) (ts @ [])" by (simp del: packed.simps)
  then show ?case by blast
next
  case (Cons t us)
  from Cons.prems packed_time [of q its ts t] obtain its1 where 1: "packed (pk_time t q) (its @ its1) (ts @ [t])" by auto
  from Cons.prems(2) have "set us \<subseteq> {1, 2, 3}" by simp
  from Cons.IH [OF 1 this] obtain its2
    where "packed (fold pk_time us (pk_time t q)) ((its @ its1) @ its2) ((ts @ [t]) @ us)" by blast
  then have "packed (fold pk_time (t # us) q) (its @ (its1 @ its2)) (ts @ t # us)" by (simp del: packed.simps pk_time.simps)
  then show ?case by blast
qed

lemma packed_raw:
  "packed (x, n, bfr) its ts \<Longrightarrow> packed (x, n, bfr @ [0x50, s, t, k]) (its @ [Sector s t k]) ts"
  "packed (x, n, bfr) its ts \<Longrightarrow> packed (x, n, bfr @ [0]) (its @ [Skip]) ts"
  by (auto simp: data_append)

lemma fold_pk_prefix:
  "fold pk_time us (x, n, pre @ b) = (let (x', n', b') = fold pk_time us (x, n, b) in (x', n', pre @ b'))"
proof (induction us arbitrary: x n b)
  case (Cons t us)
  obtain x' n' b' where "pk_time t (x, n, b) = (x', n', b')" by (metis prod_cases3)
  moreover from this have "pk_time t (x, n, pre @ b) = (x', n', pre @ b')" by (auto simp: Let_def split: if_splits)
  ultimately show ?case using Cons by simp
qed simp

section \<open>One sector\<close>

lemma times_valid: "set (syms_times l xs) \<subseteq> {1, 2, 3}"
proof (induction xs arbitrary: l)
  case (Cons x xs)
  have "set (bit_times l b) \<subseteq> {1, 2, 3}" for l b by (cases l; cases b) auto
  then have "set (bits_times l bs) \<subseteq> {1, 2, 3}" for l bs by (induction bs arbitrary: l) auto
  then have "set (sym_times l x) \<subseteq> {1, 2, 3}" by (cases x) auto
  with Cons show ?case by simp
qed simp

lemma byte_next: "bits_next l (bits8 v) \<noteq> Mark"
proof -
  have b: "bit_next l b \<noteq> Mark" for l b by (cases l; cases b) simp_all
  have "bits_next l (bs @ [b]) \<noteq> Mark" for bs b by (simp add: bits_next_append b)
  moreover have "bits8 v = map (\<lambda>i. bit v (7 - i)) [0..<7] @ [bit v 0]" by (simp add: bits8_def upt_rec)
  ultimately show ?thesis by metis
qed

lemma bytes_ok [simp]:
  "l \<noteq> Mark \<Longrightarrow> syms_ok l (map Byte vs)"
  "l \<noteq> Mark \<Longrightarrow> syms_next l (map Byte vs) \<noteq> Mark"
  by (induction vs arbitrary: l) (simp_all add: byte_next)

lemma repeat_ok [simp]:
  "l \<noteq> Mark \<Longrightarrow> syms_ok l (replicate n (Byte v))"
  "l \<noteq> Mark \<Longrightarrow> syms_next l (replicate n (Byte v)) \<noteq> Mark"
  using bytes_ok [of l "replicate n v"] by simp_all

lemma zeros_next: "0 < n \<Longrightarrow> l \<noteq> Mark \<Longrightarrow> syms_next l (replicate n (Byte 0)) = Zero"
proof (induction n arbitrary: l)
  case (Suc n)
  have "bits_next l (bits8 0) = Zero" by (cases l) (simp_all add: bits8_def upt_rec)
  with Suc show ?case by (cases n) simp_all
qed simp

lemma field_ok:
  assumes "bit v 7"
  shows "syms_ok Zero (field (v # bs))" and "syms_next Zero (field (v # bs)) \<noteq> Mark"
  using assms by (simp_all add: field_def byte_next)

lemma sector_ok:
  assumes "l \<noteq> Mark"
  shows "syms_ok l (sector_syms track side sector data) \<and> syms_next l (sector_syms track side sector data) \<noteq> Mark"
proof -
  have b: "bit (0xfe :: BYTE) 7" "bit (0xfb :: BYTE) 7" by simp_all
  show ?thesis using assms
    by (simp add: sector_syms_def zeros_next id_bytes_def field_ok [OF b(1)] field_ok [OF b(2)])
qed

end
