(* ===== verification/HostMfmFlux.thy ===== *)
theory HostMfmFlux
  imports HostMfmTrack
begin

text \<open>
  A track as the encoder stores it: items of the stream that Franz reads, whose times are those of the
  track's layout, whatever earlier tracks have left in the static variables.
\<close>

section \<open>The layout of a track\<close>

definition sector_data :: "FloppyImage \<Rightarrow> int \<Rightarrow> int \<Rightarrow> int \<Rightarrow> BYTE list" where
  "sector_data img track side sect = map (\<lambda>i. fi_data img (sector_offset img track side sect + int i)) [0..<512]"

definition sectors_syms :: "FloppyImage \<Rightarrow> int \<Rightarrow> int \<Rightarrow> int list \<Rightarrow> sym list" where
  "sectors_syms img track side ks = concat (map (\<lambda>k. sector_syms track side k (sector_data img track side k)) ks)"

definition track_syms :: "FloppyImage \<Rightarrow> int \<Rightarrow> int \<Rightarrow> int \<Rightarrow> sym list" where
  "track_syms img track side spt = replicate 60 (Byte 0x4e) @ sectors_syms img track side [1..spt]"

lemma readSector_data:
  "fi_open img \<Longrightarrow> 1 \<le> k \<Longrightarrow> k \<le> fi_sectorsPerTrack img \<Longrightarrow> readSector img track side k = Some (sector_data img track side k)"
  by (simp add: readSector_def sector_data_def)

lemma sectors_ok:
  "l \<noteq> Mark \<Longrightarrow> syms_ok l (sectors_syms img track side ks) \<and> syms_next l (sectors_syms img track side ks) \<noteq> Mark"
proof (induction ks arbitrary: l)
  case (Cons k ks)
  then show ?case using sector_ok [of l track side k "sector_data img track side k"]
    by (simp add: sectors_syms_def)
qed (simp add: sectors_syms_def)

section \<open>Encoding a sector\<close>

text \<open>What the static variables may hold between two tracks.\<close>

definition enc_ok :: "mfmenc \<Rightarrow> bool" where
  "enc_ok s \<longleftrightarrow> (\<exists>l. l \<noteq> Mark \<and> line_of l s) \<and> (\<exists>p. packed (mf_times s, mf_timesCnt s, []) [] p)"

lemma line_raw [simp]: "line_of l (s\<lparr>mf_bfr := b\<rparr>) = line_of l s" "line_of l (appendRawByte v s) = line_of l s"
  by (cases l; simp add: appendRawByte_def)+

lemma pk_raw: "pk (appendRawByte v s) = (mf_times s, mf_timesCnt s, mf_bfr s @ [v])"
  by (simp add: pk_def appendRawByte_def)

lemma pad_eq:
  "(if \<not> bob then appendZeroIfNeededToMakeEven s else s) =
     s\<lparr>mf_bfr := mf_bfr s @ (if \<not> bob \<and> odd (length (mf_bfr s)) then [0] else [])\<rparr>"
  by (simp add: appendZeroIfNeededToMakeEven_def appendRawByte_def)

lemma encode_sector_pk:
  fixes img track side k data bob
  assumes "line_of l s" and "l \<noteq> Mark" and "readSector img track side k = Some data"
  defines "S \<equiv> sector_syms track side k data" and "s' \<equiv> encode_sector img side track bob k s"
  defines "pad \<equiv> if \<not> bob \<and> odd (length (mf_bfr s)) then [0] else []"
  shows "line_of (syms_next l S) s'"
    and "pk s' = fold pk_time (syms_times l S) (mf_times s, mf_timesCnt s,
       (mf_bfr s @ pad) @ [0x50, word_of_int side, word_of_int track, word_of_int k])"
proof -
  let ?s = "s\<lparr>mf_bfr := mf_bfr s @ pad\<rparr>"
  let ?c = "appendCurrentSectorCommand track side k (?s\<lparr>mf_bfr := []\<rparr>)"
  have c: "pk ?c = (mf_times s, mf_timesCnt s, [0x50, word_of_int side, word_of_int track, word_of_int k])"
    by (simp add: appendCurrentSectorCommand_def pk_raw) (simp add: appendRawByte_def)
  have lc: "line_of l ?c" using assms(1) by (simp add: appendCurrentSectorCommand_def)
  let ?e = "append_data data (append_header track side k ?c)"
  have e: "fst (createMfmStream img side track k ?s) = ?e"
    using assms(3) by (simp add: createMfmStream_def Let_def)
  then have s': "s' = ?e\<lparr>mf_bfr := mf_bfr ?s @ mf_bfr ?e\<rparr>"
    by (simp only: s'_def encode_sector_def Let_def pad_eq [of bob s, folded pad_def])
  have "line_of (syms_next l S) ?e" and pe: "pk ?e = fold pk_time (syms_times l S) (pk ?c)"
    using emits_sector [of ?c track side k data] lc sector_ok [OF assms(2)] by (auto simp: emits_def S_def)
  then show "line_of (syms_next l S) s'" by (simp add: s')
  have "pk s' = (let (x, n, b) = pk ?e in (x, n, (mf_bfr s @ pad) @ b))" by (simp add: s' pk_def)
  also have "\<dots> = fold pk_time (syms_times l S) (mf_times s, mf_timesCnt s,
       (mf_bfr s @ pad) @ [0x50, word_of_int side, word_of_int track, word_of_int k])"
    by (simp only: pe c fold_pk_prefix)
  finally show "pk s' = fold pk_time (syms_times l S) (mf_times s, mf_timesCnt s,
       (mf_bfr s @ pad) @ [0x50, word_of_int side, word_of_int track, word_of_int k])" .
qed

lemma packed_pad:
  "packed (x, n, bfr) its ts \<Longrightarrow> \<exists>its'. packed (x, n, bfr @ (if c then [0] else [])) (its @ its') ts"
  using packed_raw(2) [of x n bfr its ts] by (cases c) (auto simp del: packed.simps intro: exI [of _ "[]"])

lemma encode_sector_packed:
  assumes "line_of l s" and "l \<noteq> Mark" and "readSector img track side k = Some data" and "packed (pk s) its ts"
  shows "\<exists>its'. packed (pk (encode_sector img side track bob k s)) (its @ its')
           (ts @ syms_times l (sector_syms track side k data))"
proof -
  from assms(4) have "packed (mf_times s, mf_timesCnt s, mf_bfr s) its ts" by (simp only: pk_def)
  from packed_pad [OF this, of "\<not> bob \<and> odd (length (mf_bfr s))"] obtain its1
    where 1: "packed (mf_times s, mf_timesCnt s, mf_bfr s @ (if \<not> bob \<and> odd (length (mf_bfr s)) then [0] else [])) (its @ its1) ts"
    by blast
  from packed_times [OF packed_raw(1) [OF 1] times_valid] obtain its2
    where 2: "packed (pk (encode_sector img side track bob k s))
      (((its @ its1) @ [Sector (word_of_int side) (word_of_int track) (word_of_int k)]) @ its2)
      (ts @ syms_times l (sector_syms track side k data))"
    unfolding encode_sector_pk(2) [OF assms(1-3)] by blast
  then show ?thesis unfolding append_assoc by blast
qed

lemma encode_sectors:
  assumes "line_of l s" and "l \<noteq> Mark" and "packed (pk s) its ts" and "fi_open img"
    and "\<forall>k\<in>set ks. 1 \<le> k \<and> k \<le> fi_sectorsPerTrack img"
  shows "line_of (syms_next l (sectors_syms img track side ks)) (fold (encode_sector img side track bob) ks s) \<and>
    (\<exists>its'. packed (pk (fold (encode_sector img side track bob) ks s)) (its @ its')
       (ts @ syms_times l (sectors_syms img track side ks)))"
  using assms
proof (induction ks arbitrary: l s its ts)
  case Nil
  then have "packed (pk s) (its @ []) (ts @ [])" by (simp del: packed.simps)
  then have "\<exists>its'. packed (pk s) (its @ its') (ts @ [])" by blast
  with Nil show ?case by (simp add: sectors_syms_def del: packed.simps append_Nil2)
next
  case (Cons k ks)
  let ?d = "sector_data img track side k" and ?s = "encode_sector img side track bob k s"
  let ?l = "syms_next l (sector_syms track side k ?d)"
  from Cons.prems have r: "readSector img track side k = Some ?d" by (simp add: readSector_data)
  note 1 = encode_sector_pk(1) [OF Cons.prems(1,2) r, of bob]
  from encode_sector_packed [OF Cons.prems(1,2) r Cons.prems(3)] obtain its1
    where 2: "packed (pk ?s) (its @ its1) (ts @ syms_times l (sector_syms track side k ?d))" by blast
  have m: "?l \<noteq> Mark" using sector_ok [OF Cons.prems(2)] by blast
  have ks: "\<forall>k\<in>set ks. 1 \<le> k \<and> k \<le> fi_sectorsPerTrack img" using Cons.prems(5) by simp
  from Cons.IH [OF 1 m 2 Cons.prems(4) ks] obtain its2 where
    "line_of (syms_next ?l (sectors_syms img track side ks)) (fold (encode_sector img side track bob) ks ?s)"
    "packed (pk (fold (encode_sector img side track bob) ks ?s)) ((its @ its1) @ its2)
       ((ts @ syms_times l (sector_syms track side k ?d)) @ syms_times ?l (sectors_syms img track side ks))" by blast
  moreover have "sectors_syms img track side (k # ks) = sector_syms track side k ?d @ sectors_syms img track side ks"
    by (simp add: sectors_syms_def)
  ultimately show ?case
    unfolding append_assoc by (auto simp del: packed.simps)
qed

section \<open>Encoding a track\<close>

lemma encode_track_packed:
  fixes img track side spt bob
  assumes "line_of l s" and "l \<noteq> Mark" and "packed (mf_times s, mf_timesCnt s, []) [] p"
    and "fi_open img" and "spt \<le> fi_sectorsPerTrack img"
  defines "s' \<equiv> encodeSingleTrack img side track spt bob s"
  shows "line_of (syms_next l (track_syms img track side spt)) s' \<and>
    (\<exists>its bfr. mf_bfr s' = bfr @ [0xF0, 0] \<and>
       packed (mf_times s', mf_timesCnt s', bfr) its (p @ syms_times l (track_syms img track side spt)))"
proof -
  let ?g = "append_repeat 60 0x4e (s\<lparr>mf_bfr := []\<rparr>)" and ?gs = "replicate 60 (Byte 0x4e)"
  have g: "line_of (syms_next l ?gs) ?g" "pk ?g = fold pk_time (syms_times l ?gs) (mf_times s, mf_timesCnt s, [])"
    using emits_repeat [of "s\<lparr>mf_bfr := []\<rparr>" 60 "0x4e"] assms(1,2)
    by (simp_all add: emits_def pk_def del: append_repeat.simps)
  from packed_times [OF assms(3) times_valid] obtain its0
    where p0: "packed (pk ?g) ([] @ its0) (p @ syms_times l ?gs)" unfolding g(2) by blast
  have m: "syms_next l ?gs \<noteq> Mark" using assms(2) by simp
  let ?f = "fold (encode_sector img side track bob) [1..spt] ?g"
  have ks: "\<forall>k\<in>set [1..spt]. 1 \<le> k \<and> k \<le> fi_sectorsPerTrack img" using assms(5) by auto
  from encode_sectors [OF g(1) m p0 assms(4) ks, where track = track and side = side and bob = bob] obtain its1
    where f: "line_of (syms_next l (track_syms img track side spt)) ?f"
      "packed (mf_times ?f, mf_timesCnt ?f, mf_bfr ?f) (its0 @ its1) (p @ syms_times l (track_syms img track side spt))"
    unfolding pk_def by (auto simp: track_syms_def simp del: packed.simps append_repeat.simps)
  let ?pad = "if \<not> bob \<and> odd (length (mf_bfr ?f)) then [0] else []"
  from packed_pad [OF f(2)] obtain its2
    where "packed (mf_times ?f, mf_timesCnt ?f, mf_bfr ?f @ ?pad) ((its0 @ its1) @ its2) (p @ syms_times l (track_syms img track side spt))"
    by blast
  moreover have "s' = ?f\<lparr>mf_bfr := (mf_bfr ?f @ ?pad) @ [0xF0, 0]\<rparr>"
    unfolding s'_def encodeSingleTrack_def Let_def pad_eq by (simp add: appendRawByte_def del: append_repeat.simps)
  ultimately show ?thesis using f(1) by (auto simp del: packed.simps append_repeat.simps)
qed

end
