(* ===== verification/HostMfmTrip.thy ===== *)
theory HostMfmTrip
  imports HostMfmFlux
begin

text \<open>
  The decoder on an encoded track: the first A1 mark aligns it from any state, and from there on it
  stores the bytes of the layout, two bytes or less behind the encoder.
\<close>

section \<open>Bits and halves of bits\<close>

fun core_bit :: "bool \<Rightarrow> BYTE \<times> int \<times> BYTE list \<Rightarrow> BYTE \<times> int \<times> BYTE list" where
  "core_bit b (x, n, ys) =
     (let x = push_bit 1 x OR of_bool b in if n + 1 = 8 then (x, 0, ys @ [x]) else (x, n + 1, ys))"

definition dcore :: "MfmDecoder \<Rightarrow> BYTE \<times> int \<times> BYTE list" where
  "dcore d = (md_byte d, md_bitCount d, md_decoded d)"

text \<open>The decoder has stored the clock half of a bit, a 0, or no half.\<close>

definition half_of :: "bool \<Rightarrow> MfmDecoder \<Rightarrow> bool" where
  "half_of h d \<longleftrightarrow> (if h then md_patCount d = 1 \<and> even (md_pattern d) else md_patCount d = 0)"

definition sync_val :: "MfmDecoder \<Rightarrow> nat" where
  "sync_val d = unat (md_syncDetector d) mod 65536"

lemma addNormalBit_core [simp]:
  "dcore (addNormalBit (of_bool b) d) = core_bit b (dcore d)"
  "md_patCount (addNormalBit x d) = md_patCount d" "md_pattern (addNormalBit x d) = md_pattern d"
  "md_syncDetector (addNormalBit x d) = md_syncDetector d"
  by (simp_all add: addNormalBit_def dcore_def Let_def)

lemma addNormalBit_core_01 [simp]:
  "dcore (addNormalBit 0 d) = core_bit False (dcore d)" "dcore (addNormalBit 1 d) = core_bit True (dcore d)"
  using addNormalBit_core(1) [of False d] addNormalBit_core(1) [of True d] by simp_all

lemma dcore_upd [simp]: "dcore (d\<lparr>md_pattern := p\<rparr>) = dcore d" "dcore (d\<lparr>md_patCount := n\<rparr>) = dcore d"
  "dcore (d\<lparr>md_syncDetector := s\<rparr>) = dcore d" "dcore (d\<lparr>md_c2Cnt := c\<rparr>) = dcore d" "dcore (d\<lparr>md_a1Cnt := c\<rparr>) = dcore d"
  by (simp_all add: dcore_def)

lemma pattern_low:
  "even ((push_bit 1 p OR 0) AND (3 :: BYTE))" "odd ((push_bit 1 p OR 1) AND (3 :: BYTE))"
  "even p \<Longrightarrow> (push_bit 1 p OR 1) AND (3 :: BYTE) = 1" "(push_bit 1 p OR 0) AND (3 :: BYTE) \<noteq> 1"
proof -
  have 3: "bit (3 :: BYTE) i \<longleftrightarrow> i < 2" for i
  proof -
    have "(3 :: BYTE) = mask 2" by (simp add: mask_eq_exp_minus_1)
    then show ?thesis by (simp only: bit_mask_iff) auto
  qed
  show e: "even ((push_bit 1 p OR 0) AND (3 :: BYTE))" "odd ((push_bit 1 p OR 1) AND (3 :: BYTE))"
    by (simp_all add: even_and_iff even_or_iff)
  then show "(push_bit 1 p OR 0) AND (3 :: BYTE) \<noteq> 1" by (metis odd_one)
  assume "even p"
  then have "\<not> bit p 0" by (simp add: bit_0)
  then have "bit ((push_bit 1 p OR 1) AND (3 :: BYTE)) i = bit (1 :: BYTE) i" for i
    by (simp only: bit_and_iff bit_or_iff bit_push_bit_iff 3 bit_1_iff) (cases "i = 0"; cases "i = 1"; auto)
  then show "(push_bit 1 p OR 1) AND (3 :: BYTE) = 1" by (intro bit_word_eqI)
qed

lemma pattern_low2: "even (p * 2 AND (3 :: BYTE))" "p * 2 AND (3 :: BYTE) \<noteq> 1"
  "even p \<Longrightarrow> (p * 2 OR 1) AND (3 :: BYTE) = 1"
proof -
  have "push_bit 1 p OR 0 = p * 2" "push_bit 1 p = p * 2" by simp_all
  then show "even (p * 2 AND (3 :: BYTE))" "p * 2 AND (3 :: BYTE) \<noteq> 1" "even p \<Longrightarrow> (p * 2 OR 1) AND (3 :: BYTE) = 1"
    using pattern_low [of p] by metis+
qed

lemma pattern_steps:
  "md_patCount d = 0 \<Longrightarrow> half_of True (appendPatternBit 0 d) \<and> dcore (appendPatternBit 0 d) = dcore d"
  "md_patCount d = 0 \<Longrightarrow> md_patCount (appendPatternBit 1 d) = 1 \<and> dcore (appendPatternBit 1 d) = dcore d"
  "md_patCount d = 1 \<Longrightarrow> md_patCount (appendPatternBit 0 d) = 0 \<and> dcore (appendPatternBit 0 d) = core_bit False (dcore d)"
  "half_of True d \<Longrightarrow> md_patCount (appendPatternBit 1 d) = 0 \<and> dcore (appendPatternBit 1 d) = core_bit True (dcore d)"
  by (simp_all add: appendPatternBit_def half_of_def Let_def pattern_low2)

lemma pattern_sync [simp]: "md_syncDetector (appendPatternBit b d) = md_syncDetector d"
  by (simp add: appendPatternBit_def Let_def)

lemma pattern_even: "even (md_pattern (appendPatternBit 0 d))"
  by (simp add: appendPatternBit_def Let_def pattern_low2)

section \<open>One time\<close>

fun time_bits :: "bool \<Rightarrow> BYTE \<Rightarrow> bool list" where
  "time_bits h t = (if h then if t = 1 then [True] else [True, False]
                    else if t = 3 then [False, False] else [False])"

fun time_half :: "bool \<Rightarrow> BYTE \<Rightarrow> bool" where
  "time_half h t = (if t = 2 then \<not> h else h)"

fun time_nibble :: "BYTE \<Rightarrow> nat" where
  "time_nibble t = (if t = 1 then 4 else if t = 2 then 6 else 8)"

definition time_pattern :: "BYTE \<Rightarrow> MfmDecoder \<Rightarrow> MfmDecoder" where
  "time_pattern t d = fold appendPatternBit (if t = 1 then [1, 0] else if t = 2 then [1, 0, 0] else [1, 0, 0, 0]) d"

lemma append_time_split:
  "t \<in> {1, 2, 3} \<Longrightarrow> append_time t d = appendToSync (of_nat (time_nibble t)) (time_pattern t d)"
  by (auto simp: append_time_def time_pattern_def)

lemma time_pattern_core:
  assumes "t \<in> {1, 2, 3}" and "half_of h d"
  shows "dcore (time_pattern t d) = fold core_bit (time_bits h t) (dcore d) \<and> half_of (time_half h t) (time_pattern t d)"
proof -
  have 0: "half_of False d \<longleftrightarrow> md_patCount d = 0" "half_of True d \<Longrightarrow> md_patCount d = 1" for d by (simp_all add: half_of_def)
  show ?thesis
  proof (cases h)
    case True
    with assms have h: "half_of True d" by simp
    note a = pattern_steps(4) [OF h]
    note b = pattern_steps(1) [OF a [THEN conjunct1]]
    note c = pattern_steps(3) [OF 0(2) [OF b [THEN conjunct1]]]
    note e = pattern_steps(1) [OF c [THEN conjunct1]]
    from assms(1) True a b c e show ?thesis by (auto simp: time_pattern_def 0(1))
  next
    case False
    with assms have h: "md_patCount d = 0" by (simp add: half_of_def)
    note a = pattern_steps(2) [OF h]
    note b = pattern_steps(3) [OF a [THEN conjunct1]]
    note c = pattern_steps(1) [OF b [THEN conjunct1]]
    note e = pattern_steps(3) [OF 0(2) [OF c [THEN conjunct1]]]
    from assms(1) False a b c e show ?thesis by (auto simp: time_pattern_def 0(1))
  qed
qed

lemma time_pattern_other:
  "sync_val (time_pattern t d) = sync_val d" "even (md_pattern (time_pattern t d))"
  by (simp_all add: time_pattern_def sync_val_def pattern_even)

lemma sync_shift:
  fixes s :: DWORD
  assumes "v < 16"
  shows "unat (push_bit 4 s OR of_nat v) mod 65536 = 16 * (unat s mod 65536 mod 4096) + v"
proof -
  have v: "take_bit 4 (of_nat v :: DWORD) = of_nat v"
    using assms take_bit_nat_eq_self [of v 4] by (simp only: of_nat_take_bit [symmetric]) simp
  have i: "bit (of_nat v :: DWORD) i \<Longrightarrow> i < 4" for i
    by (metis v bit_take_bit_iff)
  have "push_bit 4 s AND of_nat v = 0"
    by (rule bit_word_eqI) (use i in \<open>force simp only: bit_and_iff bit_push_bit_iff bit_0_eq bot_apply bot_bool_def not_le [symmetric]\<close>)
  then have "push_bit 4 s OR of_nat v = push_bit 4 s + of_nat v" by (rule disjunctive_add_eq_or [symmetric])
  also have "\<dots> = of_nat (16 * unat s + v)" by (simp add: push_bit_eq_mult)
  finally have "unat (push_bit 4 s OR of_nat v) = (16 * unat s + v) mod 2 ^ 32" by (simp only: unat_of_nat) simp
  then have "unat (push_bit 4 s OR of_nat v) mod 65536 = (16 * unat s + v) mod 65536" by (simp add: mod_mod_cancel)
  also have "16 * unat s + v = (16 * (unat s mod 4096) + v) + 65536 * (unat s div 4096)"
    using div_mult_mod_eq [of "unat s" 4096] by linarith
  also have "\<dots> mod 65536 = (16 * (unat s mod 4096) + v) mod 65536" by (rule mod_mult_self2)
  also have "\<dots> = 16 * (unat s mod 4096) + v"
  proof (rule mod_less)
    have "unat s mod 4096 < 4096" by simp
    with assms show "16 * (unat s mod 4096) + v < 65536" by linarith
  qed
  finally show ?thesis by (simp add: mod_mod_cancel)
qed

lemma appendToSync_val:
  assumes "v < 16" and "q = 16 * (sync_val d mod 4096) + v"
  shows "q \<noteq> 0x8686 \<Longrightarrow> sync_val (appendToSync (of_nat v) d) = q \<and> dcore (appendToSync (of_nat v) d) = dcore d \<and>
      half_of h (appendToSync (of_nat v) d) = half_of h d"
    and "q = 0x8686 \<Longrightarrow> sync_val (appendToSync (of_nat v) d) = 0 \<and>
      dcore (appendToSync (of_nat v) d) = (md_byte d, 7, md_decoded d) \<and>
      (even (md_pattern d) \<longrightarrow> half_of True (appendToSync (of_nat v) d))"
proof -
  let ?s = "push_bit 4 (md_syncDetector d) OR of_nat v :: DWORD"
  have q: "unat ?s mod 65536 = q" unfolding assms(2) sync_val_def by (rule sync_shift [OF assms(1)])
  have m: "(0xffff :: DWORD) = mask 16" by (simp add: mask_eq_exp_minus_1)
  have "unat (?s AND 0xffff) = q" unfolding m unat_and_mask using q by simp
  moreover have "unat (?s AND 0xffff) = unat (0x8686 :: DWORD) \<longleftrightarrow> ?s AND 0xffff = 0x8686" by (simp only: word_unat_eq_iff)
  ultimately have f: "?s AND 0xffff = 0x8686 \<longleftrightarrow> q = 0x8686" by simp
  show "q \<noteq> 0x8686 \<Longrightarrow> sync_val (appendToSync (of_nat v) d) = q \<and> dcore (appendToSync (of_nat v) d) = dcore d \<and>
      half_of h (appendToSync (of_nat v) d) = half_of h d"
    using f q by (simp add: appendToSync_def Let_def sync_val_def half_of_def)
  show "q = 0x8686 \<Longrightarrow> sync_val (appendToSync (of_nat v) d) = 0 \<and>
      dcore (appendToSync (of_nat v) d) = (md_byte d, 7, md_decoded d) \<and>
      (even (md_pattern d) \<longrightarrow> half_of True (appendToSync (of_nat v) d))"
    using f by (simp add: appendToSync_def Let_def sync_val_def half_of_def dcore_def)
qed

lemma time_codes: "t \<in> {1, 2, 3} \<Longrightarrow> time_nibble t < 16"
  by auto

text \<open>One time: the bits it completes, and the four times that the detector remembers.\<close>

lemma append_time_step:
  assumes "t \<in> {1, 2, 3}" and "half_of h d" and "q = 16 * (sync_val d mod 4096) + time_nibble t" and "q \<noteq> 0x8686"
  shows "dcore (append_time t d) = fold core_bit (time_bits h t) (dcore d) \<and>
    half_of (time_half h t) (append_time t d) \<and> sync_val (append_time t d) = q"
  unfolding append_time_split [OF assms(1)]
  using time_pattern_core [OF assms(1,2)] time_pattern_other [of t d] assms(3,4)
    appendToSync_val(1) [OF time_codes [OF assms(1)], of q "time_pattern t d" "time_half h t"]
  by simp

lemma append_time_sync:
  assumes "t \<in> {1, 2, 3}" and "half_of h d" and "16 * (sync_val d mod 4096) + time_nibble t = 0x8686"
    and "fold core_bit (time_bits h t) (dcore d) = (x, 7, ys)"
  shows "dcore (append_time t d) = (x, 7, ys) \<and> half_of True (append_time t d) \<and> sync_val (append_time t d) = 0"
  unfolding append_time_split [OF assms(1)]
  using time_pattern_core [OF assms(1,2)] time_pattern_other [of t d] assms(3,4)
    appendToSync_val(2) [OF time_codes [OF assms(1)], of "0x8686" "time_pattern t d"]
  by (simp add: dcore_def)

lemma append_time_any:
  assumes "t \<in> {1, 2, 3}" and "q = 16 * (sync_val d mod 4096) + time_nibble t"
  shows "q \<noteq> 0x8686 \<Longrightarrow> sync_val (append_time t d) = q"
    and "q = 0x8686 \<Longrightarrow> sync_val (append_time t d) = 0 \<and> half_of True (append_time t d) \<and>
      (\<exists>x ys. dcore (append_time t d) = (x, 7, ys))"
  unfolding append_time_split [OF assms(1)]
  using time_pattern_other [of t d] assms(2) appendToSync_val [OF time_codes [OF assms(1)], of q "time_pattern t d"]
  by (auto simp: dcore_def)

section \<open>The decoder follows the line\<close>

text \<open>The bits whose cells the decoder has not seen yet, and what the detector can hold.\<close>

fun lag :: "line \<Rightarrow> bool list" where
  "lag Zero = [False]"
| "lag OneZero = [True, False]"
| "lag _ = [True]"

definition sync_ok :: "line \<Rightarrow> nat \<Rightarrow> bool" where
  "sync_ok l q \<longleftrightarrow> q mod 4096 \<noteq> 0x868 \<and> (q mod 256 = 0x86 \<longrightarrow> l = Zero) \<and> (q mod 16 = 8 \<longrightarrow> l \<noteq> Zero)"

definition sim :: "line \<Rightarrow> bool list \<Rightarrow> BYTE \<times> int \<times> BYTE list \<Rightarrow> MfmDecoder \<Rightarrow> bool" where
  "sim l bs c d \<longleftrightarrow> (\<exists>cs. bs = cs @ lag l \<and> dcore d = fold core_bit cs c) \<and> half_of (l \<noteq> Zero) d \<and>
     sync_ok l (sync_val d) \<and> l \<noteq> Fresh"

lemma next_vals:
  "(16 * (q mod 4096) + v) mod 16 = v mod 16"
  "v < 16 \<Longrightarrow> (16 * (q mod 4096) + v) mod 256 = 16 * (q mod 16) + (v :: nat)"
  "v < 16 \<Longrightarrow> (16 * (q mod 4096) + v) mod 4096 = 16 * (q mod 256) + v"
proof -
  show "(16 * (q mod 4096) + v) mod 16 = v mod 16" by simp
  assume v: "v < 16"
  have "(16 * (q mod 4096)) mod 256 = 16 * (q mod 4096 mod 16)"
    using mult_mod_right [of 16 "q mod 4096" 16] by simp
  then have "(16 * (q mod 4096)) mod 256 = 16 * (q mod 16)" by (simp add: mod_mod_cancel)
  then have "(16 * (q mod 4096) + v) mod 256 = (16 * (q mod 16) + v) mod 256" by (metis mod_add_left_eq)
  also have "\<dots> = 16 * (q mod 16) + v"
  proof (rule mod_less)
    have "q mod 16 < 16" by simp
    with v show "16 * (q mod 16) + v < 256" by linarith
  qed
  finally show "(16 * (q mod 4096) + v) mod 256 = 16 * (q mod 16) + v" .
  have "(16 * (q mod 4096)) mod 4096 = 16 * (q mod 4096 mod 256)"
    using mult_mod_right [of 16 "q mod 4096" 256] by simp
  then have "(16 * (q mod 4096)) mod 4096 = 16 * (q mod 256)" by (simp add: mod_mod_cancel)
  then have "(16 * (q mod 4096) + v) mod 4096 = (16 * (q mod 256) + v) mod 4096" by (metis mod_add_left_eq)
  also have "\<dots> = 16 * (q mod 256) + v"
  proof (rule mod_less)
    have "q mod 256 < 256" by simp
    with v show "16 * (q mod 256) + v < 4096" by linarith
  qed
  finally show "(16 * (q mod 4096) + v) mod 4096 = 16 * (q mod 256) + v" .
qed

lemma odd_vals: "8 * x \<noteq> (65 :: nat)" "8 * x \<noteq> (63 :: nat)" "4 * x \<noteq> (537 :: nat)" "8 * x \<noteq> (1073 :: nat)"
  "8 * x \<noteq> (17215 :: nat)" "8 * x \<noteq> (17217 :: nat)" "4 * x \<noteq> (8609 :: nat)"
  by presburger+

lemma sync_next:
  assumes "sync_ok l q"
  shows "16 * (q mod 4096) + 4 \<noteq> (0x8686 :: nat)" "l' \<noteq> Fresh \<Longrightarrow> sync_ok l' (16 * (q mod 4096) + 4)"
    "16 * (q mod 4096) + 6 \<noteq> (0x8686 :: nat)" "l \<noteq> Zero \<Longrightarrow> sync_ok Zero (16 * (q mod 4096) + 6)"
    "l = Zero \<Longrightarrow> sync_ok l' (16 * (q mod 4096) + 6)"
    "16 * (q mod 4096) + 8 \<noteq> (0x8686 :: nat)" "l \<noteq> Zero \<Longrightarrow> l' \<noteq> Zero \<Longrightarrow> sync_ok l' (16 * (q mod 4096) + 8)"
  using assms odd_vals unfolding sync_ok_def next_vals(1)
  by (auto simp: next_vals(2,3))

lemma sim_bit:
  assumes "sim l bs c d" and "l = Mark \<longrightarrow> b"
  shows "sim (bit_next l b) (bs @ [b]) c (fold append_time (bit_times l b) d)"
proof -
  from assms obtain cs where cs: "bs = cs @ lag l" "dcore d = fold core_bit cs c" "half_of (l \<noteq> Zero) d"
    "sync_ok l (sync_val d)" "l \<noteq> Fresh" by (auto simp: sim_def)
  note s = sync_next [OF cs(4)]
  note st = append_time_step [OF _ cs(3) refl]
  show ?thesis
  proof (cases "(l, b)" rule: bit_times.cases)
    case 1 with cs(5) show ?thesis by simp
  next
    case 2 with st [of 1] s(1,2) cs show ?thesis by (auto simp: sim_def)
  next
    case 3 with st [of 2] s(3,5) cs show ?thesis by (auto simp: sim_def)
  next
    case 4 with st [of 2] s(3,4) cs show ?thesis by (auto simp: sim_def intro!: exI [of _ "cs @ [True, False]"])
  next
    case 5 with st [of 3] s(6,7) cs show ?thesis by (auto simp: sim_def intro!: exI [of _ "cs @ [True, False]"])
  next
    case 6 with cs show ?thesis by (auto simp: sim_def sync_ok_def)
  next
    case 7 with st [of 1] s(1,2) cs show ?thesis by (auto simp: sim_def)
  next
    case 8 with assms(2) st [of 1] s(1,2) cs show ?thesis by (auto simp: sim_def)
  qed
qed

lemma sim_bits:
  "sim l bs c d \<Longrightarrow> l = Mark \<longrightarrow> xs = [] \<or> hd xs \<Longrightarrow> sim (bits_next l xs) (bs @ xs) c (fold append_time (bits_times l xs) d)"
proof (induction xs arbitrary: l bs d)
  case (Cons b xs)
  have "bit_next l b \<noteq> Mark" by (cases l; cases b) simp_all
  with Cons.IH [OF sim_bit [of l bs c d b]] Cons.prems show ?case by simp
qed simp

lemma length_bits8 [simp]: "length (bits8 v) = 8"
  by (simp add: bits8_def)

lemma hd_bits8: "hd (bits8 v) = bit v 7"
  by (simp add: bits8_def upt_rec)

lemma sim_byte:
  assumes "sim l bs c d" and "l = Mark \<longrightarrow> bit v 7"
  shows "sim (bits_next l (bits8 v)) (bs @ bits8 v) c (fold append_time (bits_times l (bits8 v)) d)"
  using sim_bits [OF assms(1), of "bits8 v"] assms(2) by (simp add: hd_bits8)

text \<open>The count of the bits of a started byte.\<close>

lemma core_count:
  assumes "0 \<le> n" and "n < 8"
  shows "\<exists>y zs. fold core_bit bs (x, n, ys) = (y, (n + int (length bs)) mod 8, ys @ zs)"
  using assms
proof (induction bs arbitrary: x n ys)
  case Nil
  then show ?case by simp
next
  case (Cons b bs)
  show ?case
  proof (cases "n = 7")
    case True
    let ?x = "push_bit 1 x OR of_bool b"
    obtain y zs where "fold core_bit bs (?x, 0, ys @ [?x]) = (y, (0 + int (length bs)) mod 8, (ys @ [?x]) @ zs)"
      using Cons.IH [of 0 ?x "ys @ [?x]"] by auto
    moreover have "(7 + int (length (b # bs))) mod 8 = int (length bs) mod 8" by simp
    ultimately have "fold core_bit (b # bs) (x, n, ys) = (y, (n + int (length (b # bs))) mod 8, ys @ ([?x] @ zs))"
      using True by (simp add: Let_def)
    then show ?thesis by blast
  next
    case False
    with Cons.IH [of "n + 1"] Cons.prems show ?thesis by (simp add: Let_def algebra_simps)
  qed
qed

lemma sim_mark:
  assumes "sim l bs (x, 7, ys) d" and "l = Zero \<or> l = Mark" and "length bs mod 8 = 1"
  shows "sim Mark (bs @ bits8 0xa1) (x, 7, ys) (fold append_time (sym_times l A1) d)"
proof -
  from assms(1) obtain cs where cs: "bs = cs @ lag l" "dcore d = fold core_bit cs (x, 7, ys)" "half_of (l \<noteq> Zero) d"
    "sync_ok l (sync_val d)" by (auto simp: sim_def)
  define q1 where "q1 = 16 * (sync_val d mod 4096) + time_nibble (if l = Zero then 2 else 1)"
  let ?d1 = "append_time (if l = Zero then 2 else 1) d"
  let ?c1 = "cs @ lag l"
  have q1: "q1 \<noteq> 0x8686" "q1 mod 256 \<noteq> 0x86" "q1 mod 16 \<noteq> 8"
    using cs(4) assms(2) sync_next(1,3) [OF cs(4)] odd_vals unfolding q1_def
    by (auto simp: next_vals sync_ok_def)
  have d1: "dcore ?d1 = fold core_bit ?c1 (x, 7, ys)" "half_of True ?d1" "sync_val ?d1 = q1"
    using append_time_step [OF _ cs(3) q1_def q1(1)] assms(2) cs(2) by auto
  define q2 where "q2 = 16 * (q1 mod 4096) + 8"
  let ?d2 = "append_time 3 ?d1"
  have q2: "q2 \<noteq> 0x8686" "q2 mod 4096 \<noteq> 0x868" "q2 mod 16 = 8"
    using q1 odd_vals unfolding q2_def by (auto simp: next_vals)
  have d2: "dcore ?d2 = fold core_bit (?c1 @ [True, False]) (x, 7, ys)" "half_of True ?d2" "sync_val ?d2 = q2"
    using append_time_step [OF _ d1(2), of 3 q2] d1(1,3) q2(1) by (simp_all add: q2_def)
  define q3 where "q3 = 16 * (q2 mod 4096) + 6"
  let ?d3 = "append_time 2 ?d2"
  have q3: "q3 \<noteq> 0x8686" "q3 mod 256 = 0x86"
    using q2 unfolding q3_def by (auto simp: next_vals)
  have d3: "dcore ?d3 = fold core_bit (?c1 @ [True, False, True, False]) (x, 7, ys)" "half_of False ?d3" "sync_val ?d3 = q3"
    using append_time_step [OF _ d2(2), of 2 q3] d2(1,3) q3(1) by (simp_all add: q3_def)
  define q4 where "q4 = 16 * (q3 mod 4096) + 8"
  let ?d4 = "append_time 3 ?d3"
  have q4: "q4 \<noteq> 0x8686" "q4 mod 4096 = 0x868"
    using q3 odd_vals unfolding q4_def by (auto simp: next_vals)
  have d4: "dcore ?d4 = fold core_bit (?c1 @ [True, False, True, False, False, False]) (x, 7, ys)" "half_of False ?d4" "sync_val ?d4 = q4"
    using append_time_step [OF _ d3(2), of 3 q4] d3(1,3) q4(1) by (simp_all add: q4_def)
  let ?c5 = "?c1 @ [True, False, True, False, False, False, False]"
  have "(7 + int (length ?c5)) mod 8 = 7" using assms(3) unfolding cs(1) by (simp add: zmod_int) presburger
  then obtain y zs where c5: "fold core_bit ?c5 (x, 7, ys) = (y, 7, ys @ zs)"
    using core_count [of 7 ?c5 x ys] by auto
  let ?d5 = "append_time 2 ?d4"
  have "dcore ?d5 = (y, 7, ys @ zs) \<and> half_of True ?d5 \<and> sync_val ?d5 = 0"
    by (rule append_time_sync [OF _ d4(2)]) (use q4(2) d4(1,3) c5 in simp_all)
  moreover have "bs @ bits8 0xa1 = ?c5 @ [True]" unfolding cs(1) by (simp add: bits8_def upt_rec)
  ultimately show ?thesis using c5 by (auto simp: sim_def sync_ok_def)
qed

end
