(* ===== verification/HostMfmRound.thy ===== *)
theory HostMfmRound
  imports HostMfmTrip
begin

text \<open>
  The round trip of a track: what the decoder stores of a stream that the encoder has written.
\<close>

section \<open>Symbols\<close>

fun sym_byte :: "sym \<Rightarrow> BYTE" where
  "sym_byte (Byte v) = v"
| "sym_byte A1 = 0xa1"

lemma sim_sym:
  assumes "sim l bs (x, 7, ys) d" and "sym_ok l s" and "length bs mod 8 = 1"
  shows "sim (sym_next l s) (bs @ bits8 (sym_byte s)) (x, 7, ys) (fold append_time (sym_times l s) d)"
  using assms sim_byte sim_mark by (cases s) auto

lemma sim_syms:
  assumes "sim l bs (x, 7, ys) d" and "syms_ok l ss" and "length bs mod 8 = 1"
  shows "sim (syms_next l ss) (bs @ concat (map (bits8 \<circ> sym_byte) ss)) (x, 7, ys) (fold append_time (syms_times l ss) d)"
  using assms
proof (induction ss arbitrary: l bs d)
  case (Cons s ss)
  have "length (bs @ bits8 (sym_byte s)) mod 8 = 1" using Cons.prems(3) by (simp add: mod_add_right_eq [symmetric])
  with Cons.IH [OF sim_sym [OF Cons.prems(1) _ Cons.prems(3)]] Cons.prems(2) show ?case by simp
qed simp

definition shift_in :: "BYTE \<Rightarrow> bool \<Rightarrow> BYTE" where
  "shift_in x b = push_bit 1 x OR of_bool b"

lemma bit_shift_in: "i < 8 \<Longrightarrow> bit (shift_in x b) i \<longleftrightarrow> (if i = 0 then b else bit x (i - 1))"
proof -
  assume i: "i < 8"
  have "bit (push_bit 1 x) i \<longleftrightarrow> 1 \<le> i \<and> bit x (i - 1)" using i by (simp only: bit_push_bit_iff) simp
  moreover have "bit (of_bool b :: BYTE) i \<longleftrightarrow> b \<and> i = 0" by (cases b) (simp_all add: bit_1_iff)
  ultimately show ?thesis by (simp only: shift_in_def bit_or_iff) (cases i; simp)
qed

lemma bits8_word: "foldl shift_in x (bits8 v) = v"
proof (rule bit_word_eqI)
  fix i :: nat
  assume "i < LENGTH(8)"
  then have "i = 0 \<or> i = 1 \<or> i = 2 \<or> i = 3 \<or> i = 4 \<or> i = 5 \<or> i = 6 \<or> i = 7" by simp presburger
  then show "bit (foldl shift_in x (bits8 v)) i = bit v i"
    by (elim disjE) (simp_all add: bits8_def upt_rec bit_shift_in)
qed

lemma core_started:
  "0 \<le> n \<Longrightarrow> n + int (length bs) < 8 \<Longrightarrow> fold core_bit bs (x, n, ys) = (foldl shift_in x bs, n + int (length bs), ys)"
  by (induction bs arbitrary: x n) (simp_all add: shift_in_def)

lemma core_byte: "fold core_bit (bits8 v) (x, 0, ys) = (v, 0, ys @ [v])"
proof -
  obtain bs b where v: "bits8 v = bs @ [b]" "length bs = 7"
    by (rule that [of "butlast (bits8 v)" "last (bits8 v)"]) (simp_all add: bits8_def)
  have "shift_in (foldl shift_in x bs) b = v" using bits8_word [of x v] unfolding v(1) by simp
  then show ?thesis using core_started [of 0 bs x ys] v by (simp add: shift_in_def Let_def)
qed

lemma core_bytes: "\<exists>x'. fold core_bit (concat (map bits8 vs)) (x, 0, ys) = (x', 0, ys @ vs)"
proof (induction vs arbitrary: x ys)
  case (Cons v vs)
  then show ?case by (simp add: core_byte) (metis append_Cons append_Nil append_assoc)
qed simp

section \<open>The first mark\<close>

lemma sync_four: "16 * x + 4 \<noteq> (0x8686 :: nat)"
  by presburger

lemma first_mark:
  "\<exists>x ys. sim Mark [True] (x, 7, ys) (fold append_time [1, 1, 1, 1, 2, 3, 2, 3, 2] d)"
proof -
  define q where "q t d = 16 * (sync_val d mod 4096) + time_nibble t" for t d
  have st: "sync_val (append_time t d) = q t d" if "t \<in> {1, 2, 3}" "q t d \<noteq> 0x8686" for t d
    using append_time_any(1) [OF that(1) _ that(2)] by (simp add: q_def)
  have ones: "sync_val (append_time 1 d) = 16 * (sync_val d mod 4096) + 4" for d
    using st [of 1 d] sync_four by (simp add: q_def)
  let ?d4 = "fold append_time [1, 1, 1, 1] d"
  have "sync_val (append_time 1 d) mod 16 = 4" by (simp add: ones)
  then have "sync_val (append_time 1 (append_time 1 d)) mod 256 = 0x44" by (simp add: ones [of "append_time 1 d"] next_vals)
  then have "sync_val (append_time 1 (append_time 1 (append_time 1 d))) mod 4096 = 0x444"
    by (simp add: ones [of "append_time 1 (append_time 1 d)"] next_vals)
  then have 4: "sync_val ?d4 = 0x4444" by (simp add: ones [of "append_time 1 (append_time 1 (append_time 1 d))"])
  have 5: "sync_val (append_time 2 ?d4) = 0x4446" using st [of 2 ?d4] 4 by (simp add: q_def)
  let ?d6 = "append_time 3 (append_time 2 ?d4)"
  have 6: "sync_val ?d6 = 0x4468" using st [of 3 "append_time 2 ?d4"] 5 by (simp add: q_def)
  have 7: "sync_val (append_time 2 ?d6) = 0x4686" using st [of 2 ?d6] 6 by (simp add: q_def)
  let ?d8 = "append_time 3 (append_time 2 ?d6)"
  have 8: "sync_val ?d8 = 0x6868" using st [of 3 "append_time 2 ?d6"] 7 by (simp add: q_def)
  have "sync_val (append_time 2 ?d8) = 0 \<and> half_of True (append_time 2 ?d8) \<and> (\<exists>x ys. dcore (append_time 2 ?d8) = (x, 7, ys))"
    by (rule append_time_any(2) [OF _ refl]) (use 8 in simp_all)
  then show ?thesis by (auto simp: sim_def sync_ok_def)
qed

section \<open>Bytes of the stream\<close>

lemma encoded_byte: "appendEncodedByte b d = fold append_time (mfm_codes b) d"
proof -
  have "append_times n (push_bit (2 * k) b) d = fold append_time (map (\<lambda>i. drop_bit 6 (push_bit (2 * i) b)) [k..<k + n]) d" for n k d
  proof (induction n arbitrary: k d)
    case (Suc n)
    have "[k..<k + Suc n] = k # [Suc k..<Suc k + n]" by (simp add: upt_conv_Cons)
    moreover have "push_bit 2 (push_bit (2 * k) b) = push_bit (2 * Suc k) b" by simp
    ultimately show ?case using Suc [of "Suc k"] by (simp only: append_times.simps list.map fold_simps)
  qed simp
  from this [of 4 0 d] show ?thesis by (simp add: appendEncodedByte_def mfm_codes_def del: append_times.simps)
qed

lemma decode_items:
  "list_all mfm_valid its \<Longrightarrow> decode_bytes (concat (map mfm_enc its) @ rest) d =
     decode_bytes rest (fold append_time (concat (map mfm_codes (mfm_data its))) d)"
proof (induction its arbitrary: d)
  case (Cons i its)
  then show ?case by (cases i) (auto simp: encoded_byte dest: valid_mfm_not_command)
qed simp

text \<open>Decoded bytes stay.\<close>

lemma decoded_grows: "\<exists>zs. md_decoded (fold append_time ts d) = md_decoded d @ zs"
proof (induction ts arbitrary: d)
  case (Cons t ts)
  have n: "\<exists>zs. md_decoded (addNormalBit b e) = md_decoded e @ zs" for b e
    by (simp add: addNormalBit_def Let_def)
  have p: "\<exists>zs. md_decoded (appendPatternBit b e) = md_decoded e @ zs" for b e
  proof -
    have "\<exists>p c x. appendPatternBit b e = (e\<lparr>md_pattern := p, md_patCount := c\<rparr>) \<or>
        appendPatternBit b e = addNormalBit x (e\<lparr>md_pattern := p, md_patCount := c\<rparr>)"
      by (simp add: appendPatternBit_def Let_def) blast
    then obtain p c x where "appendPatternBit b e = (e\<lparr>md_pattern := p, md_patCount := c\<rparr>) \<or>
        appendPatternBit b e = addNormalBit x (e\<lparr>md_pattern := p, md_patCount := c\<rparr>)" by blast
    then show ?thesis using n [of x "e\<lparr>md_pattern := p, md_patCount := c\<rparr>"] by auto
  qed
  have "\<exists>zs. md_decoded (fold appendPatternBit bs e) = md_decoded e @ zs" for bs e
  proof (induction bs arbitrary: e)
    case (Cons b bs)
    from p [of b e] Cons [of "appendPatternBit b e"] show ?case by auto
  qed simp
  moreover have "append_time t d = d \<or> (\<exists>v bs. append_time t d = appendToSync v (fold appendPatternBit bs d))"
    unfolding append_time_def by (metis fold_simps)
  moreover have "md_decoded (appendToSync v e) = md_decoded e" for v e by (simp add: appendToSync_def Let_def)
  ultimately obtain zs where "md_decoded (append_time t d) = md_decoded d @ zs" by (metis append_Nil2)
  with Cons [of "append_time t d"] show ?case by auto
qed simp

section \<open>The round trip\<close>

lemma sim_decoded:
  assumes "sim l (True # concat (map bits8 vs)) (x, 7, ys) d" and "vs \<noteq> []"
  shows "\<exists>junk. md_decoded d = junk @ butlast vs"
proof -
  from assms(1) obtain cs where cs: "True # concat (map bits8 vs) = cs @ lag l" "dcore d = fold core_bit cs (x, 7, ys)"
    by (auto simp: sim_def)
  have vs: "vs = butlast vs @ [last vs]" using assms(2) by simp
  have v: "concat (map bits8 vs) = concat (map bits8 (butlast vs)) @ bits8 (last vs)"
    using arg_cong [OF vs, of "\<lambda>vs. concat (map bits8 vs)"] by (simp only: map_append concat_append list.map concat.simps append_Nil2)
  have ll: "length (lag l) \<le> 2" "lag l \<noteq> []" by (cases l; simp)+
  let ?b = "take (8 - length (lag l)) (bits8 (last vs))"
  have "length cs = 1 + length (concat (map bits8 (butlast vs))) + (8 - length (lag l))"
    using arg_cong [OF cs(1), of length] ll v by simp
  moreover have "cs = take (length cs) (True # concat (map bits8 vs))" unfolding cs(1) by simp
  ultimately have c: "cs = True # concat (map bits8 (butlast vs)) @ ?b" using ll(1) v by simp
  let ?x = "push_bit 1 x OR 1"
  obtain x' where x': "fold core_bit (concat (map bits8 (butlast vs))) (?x, 0, ys @ [?x]) = (x', 0, (ys @ [?x]) @ butlast vs)"
    using core_bytes [of "butlast vs" ?x "ys @ [?x]"] by auto
  have "fold core_bit cs (x, 7, ys) = fold core_bit ?b (x', 0, (ys @ [?x]) @ butlast vs)"
    unfolding c using x' by (simp add: Let_def)
  also have "length ?b < 8" using ll(2) by (cases "lag l") simp_all
  then have "snd (snd (fold core_bit ?b (x', 0, (ys @ [?x]) @ butlast vs))) = (ys @ [?x]) @ butlast vs"
    by (simp add: core_started)
  finally have "md_decoded d = (ys @ [?x]) @ butlast vs" using cs(2) by (simp add: dcore_def) (metis snd_conv)
  then show ?thesis by blast
qed

text \<open>Lengths of the times of a byte.\<close>

lemma two_bits: "l \<noteq> Fresh \<Longrightarrow> 1 \<le> length (bits_times l [a, b])"
  by (cases l; cases a; cases b) simp_all

lemma next_not_fresh: "bit_next l b \<noteq> Fresh"
  by (cases l; cases b) simp_all

lemma syms_not_fresh: "l \<noteq> Fresh \<Longrightarrow> syms_next l ss \<noteq> Fresh"
proof (induction ss arbitrary: l)
  case (Cons s ss)
  have b: "l \<noteq> Fresh \<Longrightarrow> bits_next l bs \<noteq> Fresh" for l bs
    by (induction bs arbitrary: l) (simp_all add: next_not_fresh)
  with Cons show ?case by (cases s) simp_all
qed simp

lemma byte_min: "l \<noteq> Fresh \<Longrightarrow> 4 \<le> length (bits_times l (bits8 v))"
proof -
  assume l: "l \<noteq> Fresh"
  obtain a b c d e f g h where v: "bits8 v = [a, b] @ [c, d] @ [e, f] @ [g, h]" by (simp add: bits8_def upt_rec)
  have nf: "bits_next l [x, y] \<noteq> Fresh" for l x y by (simp add: next_not_fresh)
  show ?thesis
    unfolding v bits_times_append length_append
    using two_bits [OF l, of a b] two_bits [OF nf, of l a b c d]
      two_bits [OF nf, of "bits_next l [a, b]" c d e f] two_bits [OF nf, of "bits_next (bits_next l [a, b]) [c, d]" e f g h]
    by linarith
qed

lemma zeros_times:
  assumes "l \<noteq> Mark"
  shows "\<exists>ts. syms_times l (replicate 12 (Byte 0)) = ts @ [1, 1, 1, 1]"
proof -
  have "syms_times l (replicate 12 (Byte 0)) = syms_times l (replicate 11 (Byte 0) @ [Byte 0])"
    by (simp add: replicate_append_same [symmetric] numeral_eq_Suc)
  also have "\<dots> = syms_times l (replicate 11 (Byte 0)) @ [1, 1, 1, 1] @ [1, 1, 1, 1]"
    using zeros_next [of 11 l] assms by (simp add: bits8_def upt_rec)
  finally show ?thesis by (metis append_assoc)
qed

lemma sectors_split:
  fixes img track side spt
  assumes "1 \<le> spt"
  defines "S \<equiv> sectors_syms img track side [1..spt]"
  shows "S = replicate 12 (Byte 0) @ [A1] @ drop 13 S" and "drop 13 S = butlast (drop 13 S) @ [Byte 0x4e]"
proof -
  have f: "[1..spt] = 1 # [2..spt]" using assms(1) by (simp add: upto_rec1)
  define F where "F = sector_syms track side 1 (sector_data img track side 1)"
  have "S = F @ sectors_syms img track side [2..spt]" by (simp add: S_def f F_def sectors_syms_def)
  moreover obtain xs where "F = replicate 12 (Byte 0) @ [A1] @ xs" by (simp add: F_def sector_syms_def field_def)
  ultimately obtain ys where ys: "S = replicate 12 (Byte 0) @ [A1] @ ys" by simp
  then show 1: "S = replicate 12 (Byte 0) @ [A1] @ drop 13 S" by simp
  have l: "[1..spt] = [1..spt - 1] @ [spt]" using assms(1) by (simp add: upto_rec2)
  have "40 = Suc 39" by simp
  then have "replicate 40 (Byte 0x4e) = replicate 39 (Byte 0x4e) @ [Byte 0x4e]"
    by (simp only: replicate_Suc replicate_append_same)
  then obtain zs where zs: "S = zs @ [Byte 0x4e]"
    by (simp add: S_def l sectors_syms_def sector_syms_def del: replicate_Suc)
  have ne: "ys \<noteq> []"
  proof
    assume "ys = []"
    with ys zs show False by simp
  qed
  with ys zs have "last ys = Byte 0x4e" by (metis append_is_Nil_conv last_appendR last_snoc)
  with ne have "ys = butlast ys @ [Byte 0x4e]" by (metis append_butlast_last_id)
  moreover have "drop 13 S = ys" using ys by simp
  ultimately show "drop 13 S = butlast (drop 13 S) @ [Byte 0x4e]" by simp
qed

lemma append_short:
  assumes "xs @ ps = ys @ zs" and "length ps \<le> length zs"
  shows "\<exists>us. xs = ys @ us"
proof -
  from assms have "length ys \<le> length xs" by (metis add_le_cancel_right length_append nat_add_left_cancel_le le_add1 le_trans add_le_mono)
  with assms(1) have "xs = ys @ drop (length ys) xs"
    by (metis append_eq_append_conv_if append_take_drop_id)
  then show ?thesis by blast
qed

text \<open>The bytes of a track from its second A1 mark on.\<close>

definition layout :: "FloppyImage \<Rightarrow> int \<Rightarrow> int \<Rightarrow> int \<Rightarrow> BYTE list" where
  "layout img track side spt = map sym_byte (drop 13 (sectors_syms img track side [1..spt]))"

text \<open>All times of a track but three or less are enough to decode its layout but two bytes.\<close>

lemma times_decoded:
  fixes img track side
  assumes "l \<noteq> Mark" and "1 \<le> spt" and "C @ p' = p @ syms_times l (track_syms img track side spt)" and "length p' < 4"
  shows "\<exists>junk rest. md_decoded (fold append_time C d) =
    junk @ take (length (layout img track side spt) - 2) (layout img track side spt) @ rest"
proof -
  define R where "R = drop 13 (sectors_syms img track side [1..spt])"
  let ?g = "replicate 60 (Byte 0x4e)" and ?z = "replicate 12 (Byte 0)"
  note sp = sectors_split [OF assms(2), of img track side, folded R_def]
  have g: "syms_next l ?g \<noteq> Mark" using assms(1) by simp
  then have z: "syms_next (syms_next l ?g) ?z = Zero" by (simp add: zeros_next del: replicate.simps)
  from zeros_times [OF g] obtain ts where ts: "syms_times (syms_next l ?g) ?z = ts @ [1, 1, 1, 1]" by blast
  have ok: "syms_ok Mark R"
  proof -
    have "syms_ok (syms_next l ?g) (sectors_syms img track side [1..spt])" using sectors_ok [OF g] by blast
    then have "syms_ok (syms_next l ?g) (?z @ [A1] @ R)" using sp(1) by simp
    then show ?thesis unfolding syms_append by simp
  qed
  let ?X = "p @ syms_times l ?g @ ts" and ?M = "[1, 1, 1, 1, 2, 3, 2, 3, 2] :: BYTE list"
  let ?l = "syms_next Mark (butlast R)"
  have T: "syms_times l (track_syms img track side spt) =
      syms_times l ?g @ ts @ ?M @ syms_times Mark (butlast R) @ bits_times ?l (bits8 0x4e)"
  proof -
    have "track_syms img track side spt = ?g @ ?z @ [A1] @ butlast R @ [Byte 0x4e]"
      unfolding track_syms_def using sp by metis
    then show ?thesis by (simp add: z ts del: replicate.simps)
  qed
  have "?l \<noteq> Fresh" by (rule syms_not_fresh) simp
  then have "length p' \<le> length (bits_times ?l (bits8 0x4e))" using byte_min [of ?l "0x4e"] assms(4) by simp
  moreover have "C @ p' = (?X @ ?M @ syms_times Mark (butlast R)) @ bits_times ?l (bits8 0x4e)"
    unfolding assms(3) T by simp
  ultimately obtain us where C: "C = (?X @ ?M @ syms_times Mark (butlast R)) @ us"
    using append_short by blast
  let ?d1 = "fold append_time ?M (fold append_time ?X d)"
  let ?d2 = "fold append_time (syms_times Mark (butlast R)) ?d1"
  from first_mark [of "fold append_time ?X d"] obtain x ys where s1: "sim Mark [True] (x, 7, ys) ?d1" by blast
  have okb: "syms_ok Mark (butlast R)"
    using ok sp(2) syms_append(1) by metis
  have "sim ?l ([True] @ concat (map (bits8 \<circ> sym_byte) (butlast R))) (x, 7, ys) ?d2"
    by (rule sim_syms [OF s1 okb]) simp
  then have s2: "sim ?l (True # concat (map bits8 (map sym_byte (butlast R)))) (x, 7, ys) ?d2" by simp
  have L: "take (length (layout img track side spt) - 2) (layout img track side spt) = butlast (map sym_byte (butlast R))"
    unfolding layout_def R_def [symmetric] by (simp add: map_butlast [symmetric] butlast_conv_take take_map numeral_2_eq_2 min_def)
  have "\<exists>junk. md_decoded ?d2 = junk @ butlast (map sym_byte (butlast R))"
  proof (cases "butlast R = []")
    case True
    then show ?thesis by simp
  next
    case False
    then show ?thesis using sim_decoded [OF s2] by simp
  qed
  moreover obtain zs where "md_decoded (fold append_time us ?d2) = md_decoded ?d2 @ zs"
    using decoded_grows by blast
  moreover have "fold append_time C d = fold append_time us ?d2" unfolding C by simp
  ultimately show ?thesis unfolding L by (metis append_assoc)
qed

text \<open>
  C12: the decoder gets every sector of an encoded track back. Whatever earlier tracks have left in the
  encoder's static variables and whatever the decoder has seen before, the bytes it stores hold the
  track's layout from the second A1 mark of the first sector on (the ID and data fields of all sectors,
  with their check sums and gaps) without a gap, up to the last two bytes of the last gap.
\<close>

theorem mfm_track_decoded:
  assumes "enc_ok s" and "fi_open img" and "1 \<le> spt" and "spt \<le> fi_sectorsPerTrack img"
  shows "\<exists>junk rest. md_decoded (decodeStream (mf_bfr (encodeSingleTrack img side track spt bob s)) d) =
    junk @ take (length (layout img track side spt) - 2) (layout img track side spt) @ rest"
proof -
  from assms(1) obtain l p where lp: "l \<noteq> Mark" "line_of l s" "packed (mf_times s, mf_timesCnt s, []) [] p"
    by (auto simp: enc_ok_def simp del: packed.simps)
  obtain its bfr where e: "mf_bfr (encodeSingleTrack img side track spt bob s) = bfr @ [0xF0, 0]"
    "packed (mf_times (encodeSingleTrack img side track spt bob s), mf_timesCnt (encodeSingleTrack img side track spt bob s), bfr)
       its (p @ syms_times l (track_syms img track side spt))"
    using encode_track_packed [OF lp(2,1,3) assms(2,4), of track side bob] by blast
  let ?C = "concat (map mfm_codes (mfm_data its))"
  let ?d = "d\<lparr>md_decoded := [], md_a1Cnt := 0, md_c2Cnt := 0\<rparr>"
  from e(2) obtain p' where p': "?C @ p' = p @ syms_times l (track_syms img track side spt)" "length p' < 4"
    and b: "bfr = concat (map mfm_enc its)" "list_all mfm_valid its" by auto
  have "decodeStream (mf_bfr (encodeSingleTrack img side track spt bob s)) d =
      fold append_time (mfm_codes 0xF0) (fold append_time ?C ?d)"
    unfolding e(1) b(1) decodeStream_def decode_items [OF b(2)] by (simp add: encoded_byte)
  with times_decoded [OF lp(1) assms(3) p', of ?d] decoded_grows [of "mfm_codes 0xF0" "fold append_time ?C ?d"]
  show ?thesis by (metis append_assoc)
qed

end
