(* ===== verification/HostFloppy.thy ===== *)
theory HostFloppy
  imports HostMfmRound
begin

text \<open>
  Images as the host keeps them: the parameters that the size of an ST file gives, how long an encoded
  track can be, and what the cache holds after an image was encoded or copied.
\<close>

section \<open>Parameters of an ST image\<close>

lemma find_SomeD: "find P xs = Some x \<Longrightarrow> P x \<and> x \<in> set xs"
  by (induction xs) (auto split: if_splits)

lemma find_params_sound:
  assumes "find_params sides cnt = Some (track, spt)"
  shows "sides * track * spt = cnt \<and> 75 \<le> track \<and> track \<le> 85 \<and> 5 \<le> spt \<and> spt \<le> 15"
  using find_SomeD [OF assms [unfolded find_params_def]] by (auto simp: set_product)

definition params_sound :: "FloppyImage \<Rightarrow> bool" where
  "params_sound img \<longleftrightarrow> 75 \<le> fi_tracksNo img \<and> fi_tracksNo img \<le> 85 \<and>
     1 \<le> fi_sidesNo img \<and> fi_sidesNo img \<le> 2 \<and> 5 \<le> fi_sectorsPerTrack img \<and> fi_sectorsPerTrack img \<le> 15 \<and>
     fi_tracksNo img * fi_sidesNo img * fi_sectorsPerTrack img = fi_size img div 512"

lemma calcParams_sound:
  "fi_isInit (fst (calcParams img)) \<Longrightarrow> params_sound (fst (calcParams img))"
  by (auto simp: calcParams_def Let_def params_sound_def ac_simps split: option.splits if_splits dest!: find_params_sound)

lemma calcParams_keeps [simp]:
  "fi_open (fst (calcParams img)) = fi_open img" "fi_size (fst (calcParams img)) = fi_size img"
  "fi_data (fst (calcParams img)) = fi_data img"
  by (simp_all add: calcParams_def Let_def split: option.split)

lemma sector_bound:
  fixes t s k T S P :: int
  assumes "0 \<le> t" "t < T" "0 \<le> s" "s < S" "1 \<le> k" "k \<le> P"
  shows "0 \<le> t * (S * P) + s * P + (k - 1)" and "t * (S * P) + s * P + (k - 1) < T * S * P"
proof -
  have P: "0 \<le> P" using assms by simp
  have "0 \<le> t * (S * P)" "0 \<le> s * P" using assms P by (intro mult_nonneg_nonneg; simp)+
  then show "0 \<le> t * (S * P) + s * P + (k - 1)" using assms by simp
  have "t * (S * P) \<le> (T - 1) * (S * P)" using assms P by (intro mult_right_mono mult_nonneg_nonneg) auto
  moreover have "s * P \<le> (S - 1) * P" using assms P by (intro mult_right_mono) auto
  ultimately have "t * (S * P) + s * P + (k - 1) < (T - 1) * (S * P) + (S - 1) * P + P" using assms by linarith
  also have "\<dots> = T * S * P" by (simp add: algebra_simps)
  finally show "t * (S * P) + s * P + (k - 1) < T * S * P" .
qed

text \<open>
  C23: parameters that are guessed from the size of an ST file are those of a real disk, and with them
  every sector that can be asked for is read inside the file, at its place in it.
\<close>

theorem image_params_type:
  assumes "open_st (Some (bytes, readOk)) img = (img', True)" and "fi_isInit img'"
    and "0 \<le> t" "t < fi_tracksNo img'" "0 \<le> s" "s < fi_sidesNo img'" "1 \<le> k" "k \<le> fi_sectorsPerTrack img'"
  shows "params_sound img' \<and>
    (let offset = sector_offset img' t s k
     in 0 \<le> offset \<and> offset + 512 \<le> int (length bytes) \<and>
        readSector img' t s k = Some (take 512 (drop (nat offset) bytes)))"
proof -
  from assms(1) obtain img0 where i: "img' = fst (calcParams img0)" "fi_open img0" "fi_size img0 = int (length bytes)"
    "\<And>i. 0 \<le> i \<Longrightarrow> i < int (length bytes) \<Longrightarrow> fi_data img0 i = bytes ! nat i"
    by (auto simp: open_st_def Let_def loadImageIntoMemory_def image_open_def split: if_splits)
  from assms(2) have p: "params_sound img'" unfolding i(1) by (rule calcParams_sound)
  let ?o = "sector_offset img' t s k"
  note sb = sector_bound [OF assms(3-8)]
  have o: "0 \<le> ?o" using sb(1) by (simp add: sector_offset_def)
  have "?o + 512 \<le> 512 * (fi_tracksNo img' * fi_sidesNo img' * fi_sectorsPerTrack img')"
    using sb(2) by (simp add: sector_offset_def)
  also have "\<dots> = 512 * (fi_size img' div 512)" using p by (simp add: params_sound_def)
  finally have l: "?o + 512 \<le> int (length bytes)" using i(1,3) by simp
  have "readSector img' t s k = Some (map (\<lambda>j. fi_data img0 (?o + int j)) [0..<512])"
    using assms(7,8) i(1,2) by (simp add: readSector_def)
  also have "map (\<lambda>j. fi_data img0 (?o + int j)) [0..<512] = take 512 (drop (nat ?o) bytes)"
    using o l by (intro nth_equalityI) (auto simp: i(4) nat_add_distrib)
  finally show ?thesis using p o l by (simp add: Let_def)
qed

section \<open>The length of a track\<close>

text \<open>Four times the bytes stored, and the times that wait for a fourth.\<close>

definition quarters :: "mfmenc \<Rightarrow> nat" where
  "quarters s = 4 * length (mf_bfr s) + unat (mf_timesCnt s)"

fun pk_quarters :: "BYTE \<times> BYTE \<times> BYTE list \<Rightarrow> nat" where
  "pk_quarters (x, n, b) = 4 * length b + unat n"

lemma pk_quarters_pk: "pk_quarters (pk s) = quarters s"
  by (simp add: pk_def quarters_def)

lemma pk_times_quarters:
  "unat (fst (snd q)) < 4 \<Longrightarrow> pk_quarters (fold pk_time us q) = pk_quarters q + length us \<and> unat (fst (snd (fold pk_time us q))) < 4"
proof (induction us arbitrary: q)
  case (Cons t us)
  obtain x n b where q: "q = (x, n, b)" by (cases q) auto
  have u: "unat (n + 1) = Suc (unat n)" using Cons.prems q by (simp add: unat_Suc_8)
  have "pk_quarters (pk_time t q) = Suc (pk_quarters q) \<and> unat (fst (snd (pk_time t q))) < 4"
  proof (cases "n + 1 = 4")
    case True
    then have "unat n = 3" using u by simp
    with True show ?thesis by (simp add: q Let_def)
  next
    case False
    then have "unat (n + 1) \<noteq> unat (4 :: BYTE)" using word_unat_eq_iff by metis
    with False u Cons.prems show ?thesis by (simp add: q Let_def)
  qed
  with Cons.IH [of "pk_time t q"] show ?case by simp
qed simp

lemma encode_sector_quarters:
  assumes "line_of l s" and "l \<noteq> Mark" and "readSector img track side k = Some data" and "unat (mf_timesCnt s) < 4"
  shows "quarters (encode_sector img side track bob k s) = quarters s + length (syms_times l (sector_syms track side k data)) +
      (if \<not> bob \<and> odd (length (mf_bfr s)) then 20 else 16)"
    and "unat (mf_timesCnt (encode_sector img side track bob k s)) < 4"
proof -
  let ?pad = "if \<not> bob \<and> odd (length (mf_bfr s)) then [0] else [] :: BYTE list"
  let ?q = "(mf_times s, mf_timesCnt s, (mf_bfr s @ ?pad) @ [0x50, word_of_int side, word_of_int track, word_of_int k])"
  note e = encode_sector_pk(2) [OF assms(1-3), of bob]
  have "quarters (encode_sector img side track bob k s) = pk_quarters ?q + length (syms_times l (sector_syms track side k data))"
    unfolding pk_quarters_pk [symmetric] e using pk_times_quarters [of ?q] assms(4) by simp
  then show "quarters (encode_sector img side track bob k s) = quarters s + length (syms_times l (sector_syms track side k data)) +
      (if \<not> bob \<and> odd (length (mf_bfr s)) then 20 else 16)" by (simp add: quarters_def)
  have "unat (fst (snd (pk (encode_sector img side track bob k s)))) < 4"
    unfolding e using pk_times_quarters [of ?q] assms(4) by simp
  then show "unat (mf_timesCnt (encode_sector img side track bob k s)) < 4" by (simp add: pk_def)
qed

lemma encode_sectors_quarters:
  fixes img track side bob
  assumes "line_of l s" and "l \<noteq> Mark" and "unat (mf_timesCnt s) < 4" and "fi_open img"
    and "\<forall>k\<in>set ks. 1 \<le> k \<and> k \<le> fi_sectorsPerTrack img"
  defines "T \<equiv> length (syms_times l (sectors_syms img track side ks))"
    and "s' \<equiv> fold (encode_sector img side track bob) ks s"
  shows "quarters s + T + 16 * length ks \<le> quarters s' \<and> quarters s' \<le> quarters s + T + 20 * length ks \<and>
    (bob \<longrightarrow> quarters s' = quarters s + T + 16 * length ks) \<and> unat (mf_timesCnt s') < 4"
  using assms(1-5) unfolding T_def s'_def
proof (induction ks arbitrary: l s)
  case Nil
  then show ?case by (simp add: sectors_syms_def)
next
  case (Cons k ks)
  let ?d = "sector_data img track side k"
  let ?l = "syms_next l (sector_syms track side k ?d)"
  from Cons.prems have r: "readSector img track side k = Some ?d" by (simp add: readSector_data)
  note e = encode_sector_quarters [OF Cons.prems(1,2) r Cons.prems(3), of bob]
  have m: "?l \<noteq> Mark" using sector_ok [OF Cons.prems(2)] by blast
  have ks: "\<forall>k\<in>set ks. 1 \<le> k \<and> k \<le> fi_sectorsPerTrack img" using Cons.prems(5) by simp
  note ih = Cons.IH [OF encode_sector_pk(1) [OF Cons.prems(1,2) r, of bob] m e(2) Cons.prems(4) ks]
  have "syms_times l (sectors_syms img track side (k # ks)) =
      syms_times l (sector_syms track side k ?d) @ syms_times ?l (sectors_syms img track side ks)"
    by (simp add: sectors_syms_def)
  with ih e(1) show ?case by (auto split: if_splits)
qed

lemma bits_max: "length (bits_times l bs) \<le> length bs"
proof (induction bs arbitrary: l)
  case (Cons b bs)
  have "length (bit_times l b) \<le> 1" by (cases l; cases b) simp_all
  with Cons [of "bit_next l b"] show ?case by simp
qed simp

lemma syms_max: "length (syms_times l ss) \<le> 8 * length ss"
proof (induction ss arbitrary: l)
  case (Cons s ss)
  have "length (sym_times l s) \<le> 8" using bits_max [of l] by (cases s) (auto intro: le_trans [OF bits_max])
  with Cons [of "sym_next l s"] show ?case by simp
qed simp

lemma length_sectors: "length (sectors_syms img track side ks) = 614 * length ks"
  by (induction ks) (simp_all add: sectors_syms_def sector_syms_def field_def id_bytes_def sector_data_def)

lemma encode_track_length:
  fixes img track side spt bob s
  assumes "line_of l s" and "l \<noteq> Mark" and "unat (mf_timesCnt s) < 4" and "fi_open img" and "spt \<le> fi_sectorsPerTrack img"
  defines "g \<equiv> replicate 60 (Byte 0x4e)" and "n \<equiv> length (mf_bfr (encodeSingleTrack img side track spt bob s))"
  defines "T \<equiv> length (syms_times (syms_next l g) (sectors_syms img track side [1..spt]))"
  shows "4 * n \<le> 3 + 480 + T + 20 * nat spt + 12" and "length (syms_times l g) + T + 16 * nat spt + 8 \<le> 4 * n + 3"
proof -
  let ?g = "append_repeat 60 0x4e (s\<lparr>mf_bfr := []\<rparr>)"
  have gl: "line_of (syms_next l g) ?g" and gp: "pk ?g = fold pk_time (syms_times l g) (mf_times s, mf_timesCnt s, [])"
    using emits_repeat [of "s\<lparr>mf_bfr := []\<rparr>" 60 "0x4e"] assms(1,2)
    by (simp_all add: emits_def pk_def g_def del: append_repeat.simps)
  have gq: "quarters ?g = unat (mf_timesCnt s) + length (syms_times l g)" "unat (mf_timesCnt ?g) < 4"
    using pk_times_quarters [of "(mf_times s, mf_timesCnt s, [])" "syms_times l g"] assms(3)
    unfolding gp [symmetric] by (simp_all add: pk_quarters_pk) (simp add: pk_def)
  have m: "syms_next l g \<noteq> Mark" using assms(2) by (simp add: g_def)
  let ?f = "fold (encode_sector img side track bob) [1..spt] ?g"
  have ks: "\<forall>k\<in>set [1..spt]. 1 \<le> k \<and> k \<le> fi_sectorsPerTrack img" using assms(5) by auto
  have f: "quarters ?g + T + 16 * nat spt \<le> quarters ?f" "quarters ?f \<le> quarters ?g + T + 20 * nat spt" "unat (mf_timesCnt ?f) < 4"
    using encode_sectors_quarters [OF gl m gq(2) assms(4) ks, of track side bob] by (auto simp: T_def)
  have n: "n = length (mf_bfr ?f) + (if \<not> bob \<and> odd (length (mf_bfr ?f)) then 1 else 0) + 2"
    unfolding n_def encodeSingleTrack_def Let_def pad_eq
    by (cases bob) (simp_all add: appendRawByte_def del: append_repeat.simps)
  have "length (syms_times l g) \<le> 480" using syms_max [of l g] by (simp add: g_def)
  with f gq assms(3) show "4 * n \<le> 3 + 480 + T + 20 * nat spt + 12" "length (syms_times l g) + T + 16 * nat spt + 8 \<le> 4 * n + 3"
    unfolding n quarters_def by (auto simp del: append_repeat.simps)
qed

lemma packed_count: "packed (x, n, b) its p \<Longrightarrow> unat n < 4"
  by auto

lemma track_fits:
  assumes "enc_ok s" and "fi_open img" and "spt \<le> fi_sectorsPerTrack img"
  shows "length (mf_bfr (encodeSingleTrack img side track spt bob s)) \<le> 123 + 1233 * nat spt"
proof -
  from assms(1) obtain l p where lp: "l \<noteq> Mark" "line_of l s" "packed (mf_times s, mf_timesCnt s, []) [] p"
    by (auto simp: enc_ok_def simp del: packed.simps)
  let ?T = "syms_times (syms_next l (replicate 60 (Byte 0x4e))) (sectors_syms img track side [1..spt])"
  have "length ?T \<le> 8 * (614 * nat spt)"
    using syms_max [of _ "sectors_syms img track side [1..spt]"] by (simp add: length_sectors)
  with encode_track_length(1) [OF lp(2,1) packed_count [OF lp(3)] assms(2,3), where track = track and side = side and bob = bob]
  show ?thesis by simp
qed

end
