(* ===== verification/HostCache.thy ===== *)
theory HostCache
  imports HostFloppy
begin

text \<open>
  The cache of encoded tracks: which images fit it, what it holds after an image was encoded, and what a
  copy of it holds.
\<close>

section \<open>The encoder between tracks\<close>

lemma enc_ok_track:
  assumes "enc_ok s" and "fi_open img" and "spt \<le> fi_sectorsPerTrack img"
  shows "enc_ok (encodeSingleTrack img side track spt bob s)"
proof -
  from assms(1) obtain l p where lp: "l \<noteq> Mark" "line_of l s" "packed (mf_times s, mf_timesCnt s, []) [] p"
    by (auto simp: enc_ok_def simp del: packed.simps)
  let ?e = "encodeSingleTrack img side track spt bob s"
  obtain its bfr where e: "line_of (syms_next l (track_syms img track side spt)) ?e"
    "packed (mf_times ?e, mf_timesCnt ?e, bfr) its (p @ syms_times l (track_syms img track side spt))"
    using encode_track_packed [OF lp(2,1,3) assms(2,3), of track side bob] by blast
  have "syms_next l (replicate 60 (Byte 0x4e)) \<noteq> Mark" using lp(1) by simp
  from sectors_ok [OF this, of img track side "[1..spt]"] have "syms_next l (track_syms img track side spt) \<noteq> Mark"
    unfolding track_syms_def syms_append by blast
  moreover from e(2) have "\<exists>p. packed (mf_times ?e, mf_timesCnt ?e, []) [] p" by auto
  ultimately show ?thesis using e(1) unfolding enc_ok_def by blast
qed

lemma enc_ok_bfr [simp]: "enc_ok (s\<lparr>mf_CRC := r\<rparr>) = enc_ok s"
  by (simp add: enc_ok_def del: packed.simps)

lemma new_encoder_ok: "new_encoder s \<Longrightarrow> enc_ok s"
  by (auto simp: new_encoder_def enc_ok_def intro!: exI [of _ Fresh])

section \<open>Encoding an image\<close>

text \<open>An image whose tracks fit, and a cache that holds a track as the encoder wrote it.\<close>

definition image_fits :: "FloppyImage \<Rightarrow> bool" where
  "image_fits img \<longleftrightarrow> fi_open img \<and> fi_tracksNo img \<le> 85 \<and> fi_sidesNo img \<le> 2 \<and> fi_sectorsPerTrack img \<le> 12"

definition cached_track :: "FloppyImage \<Rightarrow> bool \<Rightarrow> int \<times> int \<Rightarrow> TCachedTrack \<Rightarrow> bool" where
  "cached_track img bob ts ct \<longleftrightarrow> (\<exists>e. enc_ok e \<and>
     ct = store_track bob (mf_bfr (encodeSingleTrack img (snd ts) (fst ts) (fi_sectorsPerTrack img) bob e)))"

definition cache_index :: "int \<times> int \<Rightarrow> nat" where
  "cache_index ts = nat (fst ts * 2 + snd ts)"

definition on_disk :: "int \<times> int \<Rightarrow> bool" where
  "on_disk ts \<longleftrightarrow> 0 \<le> fst ts \<and> fst ts < 85 \<and> 0 \<le> snd ts \<and> snd ts < 2"

lemma cache_index_inj: "on_disk a \<Longrightarrow> on_disk b \<Longrightarrow> cache_index a = cache_index b \<longleftrightarrow> a = b"
  by (cases a; cases b) (simp add: on_disk_def cache_index_def eq_nat_nat_iff; presburger)

lemma cache_index_less: "on_disk a \<Longrightarrow> cache_index a < 170"
  by (auto simp: on_disk_def cache_index_def)

lemma encode_tracks_cached:
  assumes "image_fits img" and "enc_ok (mc_enc c)" and "length (mc_cache c) = 170" and "\<forall>ts\<in>set tss. on_disk ts"
    and "\<forall>ts. on_disk ts \<and> ts \<in> set done \<longrightarrow> cached_track img bob ts (mc_cache c ! cache_index ts)"
    and "\<forall>ts. on_disk ts \<and> ts \<notin> set done \<longrightarrow> mc_cache c ! cache_index ts = no_track"
  shows "\<exists>c'. encode_tracks img (fi_sectorsPerTrack img) bob tss c = Inr c' \<and> enc_ok (mc_enc c') \<and> length (mc_cache c') = 170 \<and>
    mc_tracks c' = mc_tracks c \<and> mc_sides c' = mc_sides c \<and> mc_spt c' = mc_spt c \<and>
    (\<forall>ts. on_disk ts \<and> ts \<in> set (done @ tss) \<longrightarrow> cached_track img bob ts (mc_cache c' ! cache_index ts)) \<and>
    (\<forall>ts. on_disk ts \<and> ts \<notin> set (done @ tss) \<longrightarrow> mc_cache c' ! cache_index ts = no_track)"
  using assms
proof (induction tss arbitrary: c "done")
  case Nil
  then show ?case by simp
next
  case (Cons ts tss)
  let ?e = "encodeSingleTrack img (snd ts) (fst ts) (fi_sectorsPerTrack img) bob (mc_enc c)"
  let ?c = "c\<lparr>mc_enc := ?e, mc_cache := (mc_cache c)[cache_index ts := store_track bob (mf_bfr ?e)]\<rparr>"
  from Cons.prems(1) have img: "fi_open img" "fi_sectorsPerTrack img \<le> 12" by (simp_all add: image_fits_def)
  from Cons.prems(4) have d: "on_disk ts" by simp
  then have i: "fst ts * 2 + snd ts < 170" by (simp add: on_disk_def)
  have len: "length (mf_bfr ?e) \<le> 15000"
    using track_fits [OF Cons.prems(2) img(1) order_refl, of "snd ts" "fst ts" bob] img(2) by linarith
  have st: "encode_track img (fi_sectorsPerTrack img) bob ts c = Inr ?c"
    using i len by (simp add: encode_track_def Let_def case_prod_beta cache_index_def)
  have new: "mc_cache ?c ! cache_index ts' = (if ts' = ts then store_track bob (mf_bfr ?e) else mc_cache c ! cache_index ts')"
    if "on_disk ts'" for ts'
    using cache_index_inj [OF d that] cache_index_less [OF d] Cons.prems(3) by (auto simp: nth_list_update)
  have "\<exists>c'. encode_tracks img (fi_sectorsPerTrack img) bob tss ?c = Inr c' \<and> enc_ok (mc_enc c') \<and> length (mc_cache c') = 170 \<and>
    mc_tracks c' = mc_tracks ?c \<and> mc_sides c' = mc_sides ?c \<and> mc_spt c' = mc_spt ?c \<and>
    (\<forall>ts'. on_disk ts' \<and> ts' \<in> set ((ts # done) @ tss) \<longrightarrow> cached_track img bob ts' (mc_cache c' ! cache_index ts')) \<and>
    (\<forall>ts'. on_disk ts' \<and> ts' \<notin> set ((ts # done) @ tss) \<longrightarrow> mc_cache c' ! cache_index ts' = no_track)"
  proof (rule Cons.IH [OF Cons.prems(1)])
    show "enc_ok (mc_enc ?c)" using enc_ok_track [OF Cons.prems(2) img(1) order_refl] by simp
    show "length (mc_cache ?c) = 170" "\<forall>ts\<in>set tss. on_disk ts" using Cons.prems(3,4) by simp_all
    have "cached_track img bob ts (store_track bob (mf_bfr ?e))" using Cons.prems(2) by (auto simp: cached_track_def)
    then show "\<forall>ts'. on_disk ts' \<and> ts' \<in> set (ts # done) \<longrightarrow> cached_track img bob ts' (mc_cache ?c ! cache_index ts')"
      using new Cons.prems(5) by simp
    show "\<forall>ts'. on_disk ts' \<and> ts' \<notin> set (ts # done) \<longrightarrow> mc_cache ?c ! cache_index ts' = no_track"
      using new Cons.prems(6) by simp
  qed
  then show ?case by (simp add: st)
qed

text \<open>What a cache holds of an image: every track of it, and nothing else.\<close>

definition holds_image :: "FloppyImage \<Rightarrow> bool \<Rightarrow> MfmCachedImage \<Rightarrow> bool" where
  "holds_image img bob c \<longleftrightarrow> mc_gotImage c \<and> length (mc_cache c) = 170 \<and>
     mc_tracks c = fi_tracksNo img \<and> mc_sides c = fi_sidesNo img \<and> mc_spt c = fi_sectorsPerTrack img \<and>
     (\<forall>t s. 0 \<le> t \<and> t < 85 \<and> 0 \<le> s \<and> s < 2 \<longrightarrow>
        (if t < fi_tracksNo img \<and> s < fi_sidesNo img then cached_track img bob (t, s) (mc_cache c ! cache_index (t, s))
         else mc_cache c ! cache_index (t, s) = no_track))"

definition cache_ok :: "MfmCachedImage \<Rightarrow> bool" where
  "cache_ok c \<longleftrightarrow> enc_ok (mc_enc c) \<and> length (mc_cache c) = 170 \<and>
     (\<not> mc_gotImage c \<longrightarrow> mc_cache c = replicate 170 no_track)"

lemma image_cached:
  assumes "image_fits img" and "cache_ok c"
  shows "\<exists>c'. encodeAndCacheImage img bob c = Inr c' \<and> cache_ok c' \<and> holds_image img bob c'"
proof -
  define c0 where "c0 = (if mc_gotImage c then deleteCachedImage c else c)"
  define c1 where "c1 = c0\<lparr>mc_tracks := fi_tracksNo img, mc_sides := fi_sidesNo img, mc_spt := fi_sectorsPerTrack img\<rparr>"
  define tss where "tss = List.product [0..fi_tracksNo img - 1] [0..fi_sidesNo img - 1]"
  have c0: "mc_cache c0 = replicate 170 no_track" "enc_ok (mc_enc c0)"
    using assms(2) by (auto simp: c0_def cache_ok_def deleteCachedImage_def)
  then have c1: "mc_cache c1 = replicate 170 no_track" "enc_ok (mc_enc c1)" by (simp_all add: c1_def)
  have tss: "\<forall>ts\<in>set tss. on_disk ts" using assms(1) by (auto simp: tss_def on_disk_def image_fits_def)
  have no: "\<forall>ts. on_disk ts \<and> ts \<notin> set [] \<longrightarrow> mc_cache c1 ! cache_index ts = no_track"
    using cache_index_less c1(1) by simp
  obtain c' where c': "encode_tracks img (fi_sectorsPerTrack img) bob tss c1 = Inr c'" "enc_ok (mc_enc c')" "length (mc_cache c') = 170"
    "mc_tracks c' = mc_tracks c1" "mc_sides c' = mc_sides c1" "mc_spt c' = mc_spt c1"
    "\<forall>ts. on_disk ts \<and> ts \<in> set tss \<longrightarrow> cached_track img bob ts (mc_cache c' ! cache_index ts)"
    "\<forall>ts. on_disk ts \<and> ts \<notin> set tss \<longrightarrow> mc_cache c' ! cache_index ts = no_track"
    using encode_tracks_cached [OF assms(1) c1(2) _ tss _ no, of bob] c1(1) by auto
  have open1: "fi_open img" using assms(1) by (simp add: image_fits_def)
  have e: "encodeAndCacheImage img bob c = Inr (c'\<lparr>mc_newContent := True, mc_gotImage := True\<rparr>)"
    using c'(1) open1 unfolding encodeAndCacheImage_def c0_def [symmetric] Let_def
    by (simp add: image_getParams_def c1_def tss_def)
  moreover have "cache_ok (c'\<lparr>mc_newContent := True, mc_gotImage := True\<rparr>)" using c'(2,3) by (simp add: cache_ok_def)
  moreover have "holds_image img bob (c'\<lparr>mc_newContent := True, mc_gotImage := True\<rparr>)"
    using c'(3-8) by (auto simp: holds_image_def c1_def on_disk_def tss_def)
  ultimately show ?thesis by blast
qed

text \<open>Any image that is encoded without an overrun, fitting or not, leaves the cache's encoder in order.\<close>

lemma encode_tracks_ok:
  assumes "encode_tracks img (fi_sectorsPerTrack img) bob tss c = Inr c'" and "fi_open img" and "enc_ok (mc_enc c)"
  shows "enc_ok (mc_enc c') \<and> length (mc_cache c') = length (mc_cache c)"
  using assms
proof (induction tss arbitrary: c)
  case (Cons ts tss)
  from Cons.prems(1) obtain c1 where c1: "encode_track img (fi_sectorsPerTrack img) bob ts c = Inr c1"
    "encode_tracks img (fi_sectorsPerTrack img) bob tss c1 = Inr c'" by (auto split: sum.splits)
  have "enc_ok (mc_enc c1)" "length (mc_cache c1) = length (mc_cache c)"
    using c1(1) enc_ok_track [OF Cons.prems(3,2) order_refl]
    by (auto simp: encode_track_def Let_def case_prod_beta split: if_splits)
  with Cons.IH [OF c1(2) Cons.prems(2)] show ?case by simp
qed simp

lemma encode_keeps_ok:
  assumes "encodeAndCacheImage img bob c = Inr c'" and "fi_open img" and "cache_ok c"
  shows "cache_ok c'"
proof -
  define c0 where "c0 = (if mc_gotImage c then deleteCachedImage c else c)"
  have c0: "enc_ok (mc_enc c0)" "length (mc_cache c0) = 170" using assms(3) by (auto simp: c0_def cache_ok_def deleteCachedImage_def)
  let ?c1 = "c0\<lparr>mc_tracks := fi_tracksNo img, mc_sides := fi_sidesNo img, mc_spt := fi_sectorsPerTrack img\<rparr>"
  from assms(1,2) obtain c2 where c2: "encode_tracks img (fi_sectorsPerTrack img) bob
      (List.product [0..fi_tracksNo img - 1] [0..fi_sidesNo img - 1]) ?c1 = Inr c2"
    and c': "c' = c2\<lparr>mc_newContent := True, mc_gotImage := True\<rparr>"
    unfolding encodeAndCacheImage_def c0_def [symmetric] Let_def by (auto simp: image_getParams_def split: sum.splits)
  from encode_tracks_ok [OF c2 assms(2)] c0 show ?thesis unfolding c' by (simp add: cache_ok_def)
qed

section \<open>A copy of a cache\<close>

lemma swap_pairs_inv [simp]: "swap_pairs (swap_pairs xs) = xs"
  by (induction xs rule: swap_pairs.induct) simp_all

lemma length_swap_pairs [simp]: "length (swap_pairs xs) = length xs"
  by (induction xs rule: swap_pairs.induct) simp_all

lemma swap_pairs_append: "even (length xs) \<Longrightarrow> swap_pairs (xs @ ys) = swap_pairs xs @ swap_pairs ys"
  by (induction xs rule: swap_pairs.induct) simp_all

lemma swap_zeros: "swap_pairs (replicate n 0) = replicate n (0 :: 'a :: zero)"
proof (induction n rule: less_induct)
  case (less n)
  show ?case
  proof (cases "n < 2")
    case True
    then show ?thesis by (cases n) (simp_all add: less_Suc_eq)
  next
    case False
    then obtain m where "n = Suc (Suc m)" by (metis add_2_eq_Suc le_Suc_ex not_less)
    with less show ?thesis by simp
  qed
qed

lemma swap_zero_tail:
  assumes "length xs < n" and "even n"
  shows "\<exists>ys. swap_pairs (xs @ replicate (n - length xs) 0) = ys @ replicate (n - Suc (length xs)) (0 :: 'a :: zero) \<and>
    length ys = Suc (length xs)"
proof -
  let ?m = "n - Suc (length xs)"
  have "n - length xs = Suc ?m" using assms(1) by simp
  then have r: "replicate (n - length xs) (0 :: 'a) = [0] @ replicate ?m 0" by simp
  show ?thesis
  proof (cases "even (length xs)")
    case True
    then have "swap_pairs (xs @ replicate (n - length xs) 0) = swap_pairs xs @ replicate (n - length xs) 0"
      by (simp only: swap_pairs_append swap_zeros)
    also have "\<dots> = (swap_pairs xs @ [0]) @ replicate ?m 0" unfolding r by simp
    finally show ?thesis by (intro exI [of _ "swap_pairs xs @ [0]"]) simp
  next
    case False
    then have e: "even (length (xs @ [0 :: 'a]))" by simp
    have "swap_pairs (xs @ replicate (n - length xs) 0) = swap_pairs ((xs @ [0]) @ replicate ?m 0)" unfolding r by simp
    also have "\<dots> = swap_pairs (xs @ [0]) @ replicate ?m 0" by (simp only: swap_pairs_append [OF e] swap_zeros)
    finally show ?thesis by (intro exI [of _ "swap_pairs (xs @ [0])"]) simp
  qed
qed

text \<open>A block keeps all it holds when the counted bytes are copied to a new block: the last byte is 0.\<close>

lemma block_copied:
  assumes "xs = ys @ [0]" and "length xs \<le> 15000"
  defines "B \<equiv> overwrite (replicate 15000 0) (xs :: BYTE list)"
  shows "overwrite (replicate 15000 0) (take (length xs) B) = B"
    and "overwrite (replicate 15000 0) (take (length xs) (swap_pairs B)) = swap_pairs B"
proof -
  have B: "B = xs @ replicate (15000 - length xs) 0" using assms(2) by (simp add: B_def overwrite_def)
  have o: "overwrite (replicate 15000 0) (take n C) = C" if "C = zs @ replicate (15000 - length zs) (0 :: BYTE)" "length zs \<le> n" "n \<le> 15000" for C zs n
  proof -
    have "take n C = zs @ replicate (n - length zs) 0" using that by simp
    then have "overwrite (replicate 15000 0) (take n C) = zs @ replicate (n - length zs + (15000 - n)) 0"
      using that by (simp add: overwrite_def replicate_add [symmetric])
    also have "n - length zs + (15000 - n) = 15000 - length zs" using that by simp
    finally show ?thesis using that(1) by simp
  qed
  show "overwrite (replicate 15000 0) (take (length xs) B) = B" by (rule o [OF B]) (use assms(2) in simp_all)
  have l: "length ys < 15000" "15000 - length ys = Suc (15000 - length xs)" using assms(1,2) by simp_all
  then have By: "B = ys @ replicate (15000 - length ys) 0" unfolding B assms(1) l(2) by simp
  obtain zs where zs: "swap_pairs B = zs @ replicate (15000 - Suc (length ys)) 0" "length zs = Suc (length ys)"
    using swap_zero_tail [OF l(1)] unfolding By by (metis even_numeral)
  have "swap_pairs B = zs @ replicate (15000 - length zs) 0" unfolding zs ..
  then show "overwrite (replicate 15000 0) (take (length xs) (swap_pairs B)) = swap_pairs B"
    by (rule o) (use zs(2) assms(1,2) in simp_all)
qed

lemma encoded_tail:
  assumes "enc_ok s" and "fi_open img" and "spt \<le> fi_sectorsPerTrack img"
  shows "\<exists>b. mf_bfr (encodeSingleTrack img side track spt bob s) = (b @ [0xF0]) @ [0]"
proof -
  from assms(1) obtain l p where "l \<noteq> Mark" "line_of l s" "packed (mf_times s, mf_timesCnt s, []) [] p"
    by (auto simp: enc_ok_def simp del: packed.simps)
  from encode_track_packed [OF this(2,1,3) assms(2,3), of track side bob] show ?thesis by auto
qed

lemma cached_copy:
  assumes "image_fits img" and "cached_track img bob ts ct"
  obtains B where "ct_mfmStream ct = Some B" and "ct_bytesInStream ct \<le> 15000" and "0 \<le> ct_bytesInStream ct"
    and "overwrite (replicate 15000 0) (take (nat (ct_bytesInStream ct)) B) = B"
proof -
  from assms(2) obtain e where e: "enc_ok e"
    "ct = store_track bob (mf_bfr (encodeSingleTrack img (snd ts) (fst ts) (fi_sectorsPerTrack img) bob e))"
    by (auto simp: cached_track_def)
  let ?b = "mf_bfr (encodeSingleTrack img (snd ts) (fst ts) (fi_sectorsPerTrack img) bob e)"
  from assms(1) have img: "fi_open img" "fi_sectorsPerTrack img \<le> 12" by (simp_all add: image_fits_def)
  obtain ys where ys: "?b = ys @ [0]" using encoded_tail [OF e(1) img(1) order_refl] by blast
  have len: "length ?b \<le> 15000" using track_fits [OF e(1) img(1) order_refl, of "snd ts" "fst ts" bob] img(2) by linarith
  note bc = block_copied [OF ys len]
  show ?thesis
    using bc len e(2) by (intro that [of "the (ct_mfmStream ct)"]) (auto simp: store_track_def Let_def)
qed

lemma holds_cases:
  assumes "holds_image img bob c" and "on_disk ts"
  shows "cached_track img bob ts (mc_cache c ! cache_index ts) \<or> mc_cache c ! cache_index ts = no_track"
proof -
  obtain t s where ts: "ts = (t, s)" by (cases ts) auto
  from assms have "0 \<le> t \<and> t < 85 \<and> 0 \<le> s \<and> s < 2" by (simp add: ts on_disk_def)
  with assms(1) have "if t < fi_tracksNo img \<and> s < fi_sidesNo img then cached_track img bob (t, s) (mc_cache c ! cache_index (t, s))
      else mc_cache c ! cache_index (t, s) = no_track" unfolding holds_image_def by blast
  then show ?thesis unfolding ts by (metis (full_types))
qed

lemma copy_tracks:
  assumes "image_fits img" and "holds_image img bob other" and "length (mc_cache c) = 170" and "\<forall>st\<in>set sts. on_disk (snd st, fst st)"
    and "\<forall>ts. on_disk ts \<longrightarrow> mc_cache c ! cache_index ts = no_track \<or> mc_cache c ! cache_index ts = mc_cache other ! cache_index ts"
  shows "length (mc_cache (fold (copy_track other) sts c)) = 170 \<and>
    mc_tracks (fold (copy_track other) sts c) = mc_tracks c \<and> mc_sides (fold (copy_track other) sts c) = mc_sides c \<and>
    mc_spt (fold (copy_track other) sts c) = mc_spt c \<and> mc_gotImage (fold (copy_track other) sts c) = mc_gotImage c \<and>
    (\<forall>ts. on_disk ts \<longrightarrow> mc_cache (fold (copy_track other) sts c) ! cache_index ts =
       (if (snd ts, fst ts) \<in> set sts then mc_cache other ! cache_index ts else mc_cache c ! cache_index ts))"
  using assms
proof (induction sts arbitrary: c)
  case Nil
  then show ?case by simp
next
  case (Cons st sts)
  let ?ts = "(snd st, fst st)" and ?c = "copy_track other st c"
  let ?src = "mc_cache other ! cache_index ?ts" and ?dest = "mc_cache c ! cache_index ?ts"
  from Cons.prems(4) have d: "on_disk ?ts" by simp
  then have i: "\<not> snd st * 2 + fst st \<ge> 170" "cache_index ?ts = nat (snd st * 2 + fst st)" by (auto simp: on_disk_def cache_index_def)
  have g: "getEncodedTrack (snd st) (fst st) other = (ct_mfmStream ?src, ct_bytesInStream ?src)"
    using d i Cons.prems(2) by (simp add: getEncodedTrack_def on_disk_def holds_image_def Let_def)
  have src: "cached_track img bob ?ts ?src \<or> ?src = no_track"
    by (rule holds_cases [OF Cons.prems(2) d])
  have "?c = c\<lparr>mc_cache := (mc_cache c)[cache_index ?ts := ?src]\<rparr>"
  proof (cases "?src = no_track")
    case True
    with Cons.prems(5) d have "?dest = no_track" by force
    with True show ?thesis using i g by (simp add: copy_track_def case_prod_beta Let_def)
  next
    case False
    with src have "cached_track img bob ?ts ?src" by simp
    from cached_copy [OF Cons.prems(1) this] obtain B where B0: "ct_mfmStream ?src = Some B"
      "overwrite (replicate 15000 0) (take (nat (ct_bytesInStream ?src)) B) = B" by blast
    then obtain n where B: "?src = \<lparr>ct_mfmStream = Some B, ct_bytesInStream = n\<rparr>"
      "overwrite (replicate 15000 0) (take (nat n) B) = B" by (cases ?src) auto
    from Cons.prems(5) d consider "?dest = no_track" | "?dest = ?src" by blast
    then show ?thesis
    proof cases
      case 1
      with B show ?thesis using i g by (simp add: copy_track_def case_prod_beta Let_def)
    next
      case 2
      have "overwrite B (take (nat n) B) = B"
        by (simp add: overwrite_def)
      with 2 B show ?thesis using i g by (simp add: copy_track_def case_prod_beta Let_def)
    qed
  qed
  moreover have "mc_cache (c\<lparr>mc_cache := (mc_cache c)[cache_index ?ts := ?src]\<rparr>) ! cache_index ts =
      (if ts = ?ts then ?src else mc_cache c ! cache_index ts)" if "on_disk ts" for ts
    using cache_index_inj [OF d that] cache_index_less [OF d] Cons.prems(3) by (auto simp: nth_list_update)
  ultimately have c: "length (mc_cache ?c) = 170" "mc_tracks ?c = mc_tracks c" "mc_sides ?c = mc_sides c" "mc_spt ?c = mc_spt c"
    "mc_gotImage ?c = mc_gotImage c"
    "\<And>ts. on_disk ts \<Longrightarrow> mc_cache ?c ! cache_index ts = (if ts = ?ts then ?src else mc_cache c ! cache_index ts)"
    using Cons.prems(3) by simp_all
  have "\<forall>ts. on_disk ts \<longrightarrow> mc_cache ?c ! cache_index ts = no_track \<or> mc_cache ?c ! cache_index ts = mc_cache other ! cache_index ts"
    using c(6) Cons.prems(5) by simp
  with Cons.IH [OF Cons.prems(1,2) c(1)] Cons.prems(4) c(2-6) show ?case by auto
qed

lemma image_copied:
  assumes "image_fits img" and "holds_image img bob other"
  shows "holds_image img bob (copyFromOther other c)"
proof -
  let ?c = "(initTracks c)\<lparr>mc_tracks := mc_tracks other, mc_sides := mc_sides other, mc_spt := mc_spt other, mc_gotImage := True\<rparr>"
  let ?sts = "List.product [0..1] [0..mc_tracks other - 1]"
  have t: "mc_tracks other = fi_tracksNo img" using assms(2) by (simp add: holds_image_def)
  have l: "length (mc_cache ?c) = 170" by (simp add: initTracks_def)
  have d: "\<forall>st\<in>set ?sts. on_disk (snd st, fst st)" using assms(1) t by (auto simp: on_disk_def image_fits_def)
  have n: "mc_cache ?c ! cache_index ts = no_track" if "on_disk ts" for ts using cache_index_less [OF that] by (simp add: initTracks_def)
  then have "\<forall>ts. on_disk ts \<longrightarrow> mc_cache ?c ! cache_index ts = no_track \<or> mc_cache ?c ! cache_index ts = mc_cache other ! cache_index ts"
    by blast
  note cp = copy_tracks [OF assms l d this]
  have ch: "mc_cache (fold (copy_track other) ?sts ?c) ! cache_index (t, s) = mc_cache other ! cache_index (t, s)"
    if "0 \<le> t" "t < 85" "0 \<le> s" "s < 2" for t s
  proof -
    have o: "on_disk (t, s)" using that by (simp add: on_disk_def)
    show ?thesis
    proof (cases "t < fi_tracksNo img")
      case True
      with that t have "(s, t) \<in> set ?sts" by auto
      with cp o show ?thesis by auto
    next
      case False
      then have "(s, t) \<notin> set ?sts" using t by auto
      with cp o n have "mc_cache (fold (copy_track other) ?sts ?c) ! cache_index (t, s) = no_track" by auto
      moreover have "mc_cache other ! cache_index (t, s) = no_track" using assms(2) that False by (simp add: holds_image_def)
      ultimately show ?thesis by simp
    qed
  qed
  have e: "copyFromOther other c = (fold (copy_track other) ?sts ?c)\<lparr>mc_newContent := True\<rparr>"
    by (simp add: copyFromOther_def Let_def)
  show ?thesis unfolding e holds_image_def
    using assms(2) cp ch by (simp add: holds_image_def initTracks_def)
qed

end
