(* ===== verification/HostSilo.thy ===== *)
theory HostSilo
  imports HostCache
begin

text \<open>
  The slots with floppy images and the thread that encodes them (ce_main_app/floppy/imagesilo.cpp), and
  the track that the core thread sends to Franz (handleSendTrack in ccorethread.cpp). Opening an image
  file is the parameter \<open>getImage\<close>; the copy of file names to the settings file and to the display
  is left out.
\<close>

section \<open>Slots, requests and the thread\<close>

record SiloSlot =
  sl_imageFile :: string
  sl_hostDestPath :: string
  sl_atariSrcPath :: string
  sl_hostSrcPath :: string
  sl_encImage :: MfmCachedImage

record EncodeRequest =
  er_slotIndex :: int
  er_filename :: string

text \<open>
  The thread's own cache is \<open>si_encImage\<close>; the request it has taken from the queue is
  \<open>si_working\<close>. A request's pointer \<open>encImg\<close> is the cache of the slot it names.
\<close>

record silo =
  si_slots :: "SiloSlot list"
  si_currentSlot :: int
  si_floppyImages :: "string list"
  si_selected :: int
  si_queue :: "EncodeRequest list"
  si_working :: "EncodeRequest option"
  si_encImage :: MfmCachedImage
  si_encodingRunning :: bool

abbreviation (input) EMPTY_IMAGE_SLOT :: int where "EMPTY_IMAGE_SLOT \<equiv> 3"

definition slot_upd :: "int \<Rightarrow> (SiloSlot \<Rightarrow> SiloSlot) \<Rightarrow> silo \<Rightarrow> silo" where
  "slot_upd i f z = z\<lparr>si_slots := (si_slots z)[nat i := f (si_slots z ! nat i)]\<rparr>"

definition addEncodeRequest :: "EncodeRequest \<Rightarrow> silo \<Rightarrow> silo" where
  "addEncodeRequest er z = z\<lparr>si_encodingRunning := True, si_queue := si_queue z @ [er]\<rparr>"

definition silo_add :: "int \<Rightarrow> string \<Rightarrow> string \<Rightarrow> string \<Rightarrow> string \<Rightarrow> silo \<Rightarrow> silo" where
  "silo_add positionIndex filename hostDestPath atariSrcPath hostSrcPath z =
     (if positionIndex < 0 \<or> positionIndex > 2 then z
      else (let z = slot_upd positionIndex (\<lambda>s. s\<lparr>sl_imageFile := filename, sl_hostDestPath := hostDestPath,
                      sl_atariSrcPath := atariSrcPath, sl_hostSrcPath := hostSrcPath\<rparr>) z;
                z = z\<lparr>si_floppyImages := (si_floppyImages z)[nat positionIndex := filename]\<rparr>
            in addEncodeRequest \<lparr>er_slotIndex = positionIndex, er_filename = hostDestPath\<rparr> z))"

definition swap_slots :: "int \<Rightarrow> int \<Rightarrow> silo \<Rightarrow> silo" where
  "swap_slots ia ib z =
     (let a = si_slots z ! nat ia; b = si_slots z ! nat ib;
          a' = a\<lparr>sl_imageFile := sl_imageFile b, sl_hostDestPath := sl_hostDestPath b,
                 sl_atariSrcPath := sl_atariSrcPath b, sl_hostSrcPath := sl_hostSrcPath b\<rparr>;
          b' = b\<lparr>sl_imageFile := sl_imageFile a, sl_hostDestPath := sl_hostDestPath a,
                 sl_atariSrcPath := sl_atariSrcPath a, sl_hostSrcPath := sl_hostSrcPath a\<rparr>
      in z\<lparr>si_slots := (si_slots z)[nat ia := a', nat ib := b']\<rparr>)"

definition silo_swap :: "int \<Rightarrow> silo \<Rightarrow> silo" where
  "silo_swap index z =
     (if index < 0 \<or> index > 2 then z
      else (let z = (if index = 0 then swap_slots 0 1 z else if index = 1 then swap_slots 1 2 z else swap_slots 2 0 z)
            in z\<lparr>si_floppyImages := map (\<lambda>i. sl_imageFile (si_slots z ! i)) [0..<3]\<rparr>))"

definition clearSlot :: "int \<Rightarrow> silo \<Rightarrow> silo" where
  "clearSlot index z =
     (let z = slot_upd index (\<lambda>s. s\<lparr>sl_imageFile := [], sl_hostDestPath := [], sl_atariSrcPath := [], sl_hostSrcPath := []\<rparr>) z
      in if index \<ge> 0 \<and> index < 3 then z\<lparr>si_floppyImages := (si_floppyImages z)[nat index := []]\<rparr> else z)"

definition silo_remove :: "int \<Rightarrow> silo \<Rightarrow> silo" where
  "silo_remove index z =
     (if index < 0 \<or> index > 2 then z
      else (let z = z\<lparr>si_floppyImages := (si_floppyImages z)[nat index := []]\<rparr>
            in if sl_imageFile (si_slots z ! nat index) = [] then z else clearSlot index z))"

definition getSlotBitmap :: "silo \<Rightarrow> BYTE" where
  "getSlotBitmap z = fold (\<lambda>i bmp. if sl_imageFile (si_slots z ! i) \<noteq> [] then bmp OR push_bit i 1 else bmp) [0..<3] 0"

definition setCurrentSlot :: "int \<Rightarrow> silo \<Rightarrow> silo" where
  "setCurrentSlot index z =
     (let z = (if index \<ge> 0 \<and> index \<le> 2 then z\<lparr>si_currentSlot := index, si_selected := index\<rparr>
               else z\<lparr>si_currentSlot := EMPTY_IMAGE_SLOT, si_selected := - 1\<rparr>)
      in slot_upd (si_currentSlot z) (\<lambda>s. s\<lparr>sl_encImage := (sl_encImage s)\<lparr>mc_newContent := False\<rparr>\<rparr>) z)"

definition containsImage :: "string \<Rightarrow> silo \<Rightarrow> bool" where
  "containsImage filename z \<longleftrightarrow> (\<exists>i\<in>set [0..<3]. sl_imageFile (si_slots z ! i) = filename)"

definition currentSlotHasNewContent :: "silo \<Rightarrow> silo \<times> bool" where
  "currentSlotHasNewContent z =
     (if mc_newContent (sl_encImage (si_slots z ! nat (si_currentSlot z)))
      then (slot_upd (si_currentSlot z) (\<lambda>s. s\<lparr>sl_encImage := (sl_encImage s)\<lparr>mc_newContent := False\<rparr>\<rparr>) z, True)
      else (z, False))"

definition silo_encImage :: "silo \<Rightarrow> MfmCachedImage" where
  "silo_encImage z = sl_encImage (si_slots z ! nat (si_currentSlot z))"

definition silo_getEncodedTrack :: "int \<Rightarrow> int \<Rightarrow> silo \<Rightarrow> BYTE list option \<times> int" where
  "silo_getEncodedTrack track side z = getEncodedTrack track side (silo_encImage z)"

definition emptyTrack :: "BYTE list" where
  "emptyTrack = concat (replicate 5000 [0xa9, 0x6a, 0x96])"

text \<open>
  The constructor; \<open>res\<close> tells whether the empty image was created, \<open>slots\<close> holds the new caches.
\<close>

definition new_cache :: "MfmCachedImage \<Rightarrow> bool" where
  "new_cache c \<longleftrightarrow> new_encoder (mc_enc c) \<and> \<not> mc_gotImage c \<and> mc_cache c = replicate 170 no_track \<and>
     mc_tracks c = 0 \<and> mc_sides c = 0 \<and> mc_spt c = 0 \<and> \<not> mc_newContent c"

definition empty_image_path :: string where
  "empty_image_path = ''/tmp/emptyimage.st''"

definition new_silo :: "bool \<Rightarrow> MfmCachedImage \<Rightarrow> silo" where
  "new_silo res c =
     (let s = \<lparr>sl_imageFile = [], sl_hostDestPath = [], sl_atariSrcPath = [], sl_hostSrcPath = [], sl_encImage = c\<rparr>;
          z = \<lparr>si_slots = replicate 4 s, si_currentSlot = EMPTY_IMAGE_SLOT, si_floppyImages = replicate 3 [], si_selected = - 1,
               si_queue = [], si_working = None, si_encImage = c, si_encodingRunning = False\<rparr>
      in if res then addEncodeRequest \<lparr>er_slotIndex = EMPTY_IMAGE_SLOT, er_filename = empty_image_path\<rparr> z else z)"

section \<open>The encoding thread\<close>

text \<open>One pass of \<open>run\<close>: the oldest request is taken under the lock, and then encoded and copied.\<close>

definition run_take :: "silo \<Rightarrow> silo" where
  "run_take z =
     (case si_queue z of [] \<Rightarrow> z
      | er # q \<Rightarrow> z\<lparr>si_encodingRunning := True, si_queue := q, si_working := Some er\<rparr>)"

definition run_encode :: "(string \<Rightarrow> FloppyImage option) \<Rightarrow> silo \<Rightarrow> overrun + silo" where
  "run_encode getImage z =
     (case si_working z of None \<Rightarrow> Inr z
      | Some er \<Rightarrow>
          (let z' = z\<lparr>si_encodingRunning := False, si_working := None\<rparr>
           in case getImage (er_filename er) of None \<Rightarrow> Inr z'
              | Some img \<Rightarrow>
                  if \<not> fi_open img then Inr z'
                  else (case encodeAndCacheImage img True (si_encImage z) of
                          Inl e \<Rightarrow> Inl e
                        | Inr c \<Rightarrow> Inr (slot_upd (er_slotIndex er) (\<lambda>s. s\<lparr>sl_encImage := copyFromOther c (sl_encImage s)\<rparr>)
                                        (z'\<lparr>si_encImage := c\<rparr>)))))"

section \<open>Sending a track to Franz\<close>

text \<open>
  What the core thread passes to \<open>txRx\<close> after Franz has named a side and a track: a pointer, none if
  the cache has no such track, and the count.
\<close>

definition handleSendTrack :: "BYTE \<Rightarrow> BYTE \<Rightarrow> silo \<Rightarrow> BYTE list option \<times> int" where
  "handleSendTrack b0 b1 z =
     (let side = uint b0; track = uint b1;
          remaining = 15000 - (4 * 2) - 2;
          tr = mc_tracks (silo_encImage z)
      in if side < 0 \<or> side > 1 \<or> track < 0 \<or> track \<ge> tr then (Some emptyTrack, remaining)
         else (fst (silo_getEncodedTrack track side z), remaining))"

text \<open>
  Franz's DMA stores the words that arrive high byte first with the low byte first; the words of the
  header and of the request's answer, ten bytes of zeros, come before the track.
\<close>

definition franz_receives :: "BYTE list \<times> int \<Rightarrow> BYTE list" where
  "franz_receives m = swap_pairs (replicate 10 0 @ take (nat (snd m)) (fst m))"

section \<open>Runs of the two threads\<close>

text \<open>
  Steps of the core thread and of the encoding thread in any order, each with the encoding requests it
  makes: the slot and the file. An encoding that writes past the end of a block has no next step.
\<close>

inductive silo_step :: "(string \<Rightarrow> FloppyImage option) \<Rightarrow> silo \<Rightarrow> (int \<times> string) list \<Rightarrow> silo \<Rightarrow> bool" for getImage where
  step_add: "silo_step getImage z (if 0 \<le> i \<and> i \<le> 2 then [(i, dest)] else []) (silo_add i file dest atari src z)"
| step_swap: "silo_step getImage z [] (silo_swap i z)"
| step_remove: "silo_step getImage z [] (silo_remove i z)"
| step_current: "silo_step getImage z [] (setCurrentSlot i z)"
| step_new: "silo_step getImage z [] (fst (currentSlotHasNewContent z))"
| step_take: "si_working z = None \<Longrightarrow> silo_step getImage z [] (run_take z)"
| step_encode: "run_encode getImage z = Inr z' \<Longrightarrow> silo_step getImage z [] z'"

inductive silo_run :: "(string \<Rightarrow> FloppyImage option) \<Rightarrow> (int \<times> string) list \<Rightarrow> silo \<Rightarrow> bool" for getImage where
  run_new: "new_cache c \<Longrightarrow> silo_run getImage (if res then [(EMPTY_IMAGE_SLOT, empty_image_path)] else []) (new_silo res c)"
| run_step: "silo_run getImage reqs z \<Longrightarrow> silo_step getImage z rs z' \<Longrightarrow> silo_run getImage (reqs @ rs) z'"

text \<open>The file that was put in a slot last, as the run's requests tell it.\<close>

definition last_file :: "int \<Rightarrow> (int \<times> string) list \<Rightarrow> string option" where
  "last_file i reqs = map_of (rev reqs) i"

lemma last_file_simps [simp]: "last_file i [] = None" "last_file i (reqs @ [(j, fn)]) = (if i = j then Some fn else last_file i reqs)"
  by (simp_all add: last_file_def)

text \<open>The requests that are not done yet, oldest first, and those for one slot.\<close>

definition pending :: "silo \<Rightarrow> EncodeRequest list" where
  "pending z = (case si_working z of None \<Rightarrow> [] | Some er \<Rightarrow> [er]) @ si_queue z"

definition pending_for :: "int \<Rightarrow> silo \<Rightarrow> EncodeRequest list" where
  "pending_for i z = filter (\<lambda>er. er_slotIndex er = i) (pending z)"

abbreviation (input) slot_cache :: "silo \<Rightarrow> int \<Rightarrow> MfmCachedImage" where
  "slot_cache z i \<equiv> sl_encImage (si_slots z ! nat i)"

text \<open>
  A slot that was ever filled waits for the encoding of the file put in it last, or, if that file is an
  image that can be opened and fits, its cache holds that image.
\<close>

definition slot_ok :: "(string \<Rightarrow> FloppyImage option) \<Rightarrow> (int \<times> string) list \<Rightarrow> silo \<Rightarrow> int \<Rightarrow> bool" where
  "slot_ok getImage reqs z i \<longleftrightarrow>
     (if pending_for i z = []
      then \<forall>fn img. last_file i reqs = Some fn \<and> getImage fn = Some img \<and> image_fits img \<longrightarrow> holds_image img True (slot_cache z i)
      else last_file i reqs = Some (er_filename (last (pending_for i z))))"

definition silo_inv :: "(string \<Rightarrow> FloppyImage option) \<Rightarrow> (int \<times> string) list \<Rightarrow> silo \<Rightarrow> bool" where
  "silo_inv getImage reqs z \<longleftrightarrow> length (si_slots z) = 4 \<and> cache_ok (si_encImage z) \<and>
     0 \<le> si_currentSlot z \<and> si_currentSlot z \<le> 3 \<and>
     (\<forall>er\<in>set (pending z). 0 \<le> er_slotIndex er \<and> er_slotIndex er \<le> 3) \<and>
     (\<forall>i. 0 \<le> i \<and> i \<le> 3 \<longrightarrow> slot_ok getImage reqs z i)"

lemma silo_invD:
  assumes "silo_inv getImage reqs z"
  shows "length (si_slots z) = 4" "cache_ok (si_encImage z)" "0 \<le> si_currentSlot z" "si_currentSlot z \<le> 3"
    "er \<in> set (pending z) \<Longrightarrow> 0 \<le> er_slotIndex er \<and> er_slotIndex er \<le> 3" "0 \<le> i \<Longrightarrow> i \<le> 3 \<Longrightarrow> slot_ok getImage reqs z i"
  using assms by (simp_all add: silo_inv_def)

text \<open>A step that makes no request and keeps what the caches hold keeps the invariant, whatever it does to the names.\<close>

lemma inv_same:
  assumes "silo_inv getImage reqs z" and "length (si_slots z') = 4" and "pending z' = pending z" and "si_encImage z' = si_encImage z"
    and "0 \<le> si_currentSlot z'" and "si_currentSlot z' \<le> 3"
    and "\<And>i img. 0 \<le> i \<Longrightarrow> i \<le> 3 \<Longrightarrow> holds_image img True (slot_cache z' i) = holds_image img True (slot_cache z i)"
  shows "silo_inv getImage reqs z'"
proof -
  have "pending_for i z' = pending_for i z" for i by (simp add: pending_for_def assms(3))
  then have "slot_ok getImage reqs z' i = slot_ok getImage reqs z i" if "0 \<le> i" "i \<le> 3" for i
    using assms(7) [OF that] by (simp add: slot_ok_def)
  with assms(1-6) show ?thesis by (simp add: silo_inv_def)
qed

lemma slot_nth:
  "length (si_slots z) = 4 \<Longrightarrow> 0 \<le> i \<Longrightarrow> i \<le> 3 \<Longrightarrow> 0 \<le> j \<Longrightarrow>
   si_slots (slot_upd i f z) ! nat j = (if j = i then f (si_slots z ! nat i) else si_slots z ! nat j)"
  by (auto simp: slot_upd_def nth_list_update)

lemma holds_new [simp]: "holds_image img bob (c\<lparr>mc_newContent := b\<rparr>) = holds_image img bob c"
  by (simp add: holds_image_def)

lemma pending_slot_upd [simp]: "pending (slot_upd i f z) = pending z" "pending_for j (slot_upd i f z) = pending_for j z"
  by (simp_all add: pending_for_def pending_def slot_upd_def)

lemma slot_upd_other [simp]: "length (si_slots (slot_upd i f z)) = length (si_slots z)" "si_encImage (slot_upd i f z) = si_encImage z"
  "si_currentSlot (slot_upd i f z) = si_currentSlot z"
  by (simp_all add: slot_upd_def)

lemma upd_keeps: "(\<And>x. g (f x) = g x) \<Longrightarrow> g (xs[i := f (xs ! i)] ! j) = g (xs ! j)"
  by (cases "i < length xs") (auto simp: nth_list_update list_update_beyond)

lemma slot_upd_cache:
  "(\<And>s. P (sl_encImage (f s)) = P (sl_encImage s)) \<Longrightarrow> P (sl_encImage (si_slots (slot_upd i f z) ! j)) = P (sl_encImage (si_slots z ! j))"
  using upd_keeps [of "\<lambda>s. P (sl_encImage s)" f] by (simp add: slot_upd_def)

lemma slot_upd_names [simp]:
  "(\<And>s. sl_encImage (f s) = sl_encImage s) \<Longrightarrow> sl_encImage (si_slots (slot_upd i f z) ! j) = sl_encImage (si_slots z ! j)"
  by (rule slot_upd_cache [where P = "\<lambda>c. c = _", THEN iffD2]) simp_all

lemma inv_new: "new_cache c \<Longrightarrow> silo_inv getImage (if res then [(EMPTY_IMAGE_SLOT, empty_image_path)] else []) (new_silo res c)"
  by (auto simp: new_silo_def Let_def silo_inv_def pending_def pending_for_def addEncodeRequest_def slot_ok_def cache_ok_def
      new_cache_def new_encoder_ok last_file_def)

lemma inv_add:
  assumes "silo_inv getImage reqs z"
  shows "silo_inv getImage (reqs @ (if 0 \<le> i \<and> i \<le> 2 then [(i, dest)] else [])) (silo_add i file dest atari src z)"
proof (cases "i < 0 \<or> i > 2")
  case True
  with assms show ?thesis by (auto simp: silo_add_def)
next
  case False
  let ?er = "\<lparr>er_slotIndex = i, er_filename = dest\<rparr>" and ?z = "silo_add i file dest atari src z"
  note inv = silo_invD [OF assms]
  have p: "pending ?z = pending z @ [?er]" using False
    by (simp add: silo_add_def Let_def addEncodeRequest_def pending_def slot_upd_def)
  then have pf: "pending_for j ?z = pending_for j z @ (if j = i then [?er] else [])" for j by (simp add: pending_for_def)
  have s: "slot_cache ?z j = slot_cache z j" for j
    using False by (simp add: silo_add_def Let_def addEncodeRequest_def)
  have "slot_ok getImage (reqs @ [(i, dest)]) ?z j" if "0 \<le> j" "j \<le> 3" for j
    using inv(6) [OF that] s by (cases "j = i") (auto simp: slot_ok_def pf)
  moreover have "length (si_slots ?z) = 4" "si_encImage ?z = si_encImage z" "si_currentSlot ?z = si_currentSlot z"
    using inv(1) False by (simp_all add: silo_add_def Let_def addEncodeRequest_def slot_upd_def)
  ultimately show ?thesis using assms False by (auto simp: silo_inv_def p)
qed

text \<open>A swap and a removal of a slot change the names and leave the caches.\<close>

lemma swap_slots_cache:
  "ia < length (si_slots z) \<Longrightarrow> ib < length (si_slots z) \<Longrightarrow>
   sl_encImage (si_slots (swap_slots (int ia) (int ib) z) ! j) = sl_encImage (si_slots z ! j)"
  by (cases "j < length (si_slots z)") (auto simp: swap_slots_def Let_def nth_list_update list_update_beyond)

lemma swap_cache:
  assumes "length (si_slots z) = 4"
  shows "sl_encImage (si_slots (silo_swap i z) ! j) = sl_encImage (si_slots z ! j)"
    and "length (si_slots (silo_swap i z)) = 4" and "pending (silo_swap i z) = pending z"
    and "si_encImage (silo_swap i z) = si_encImage z" and "si_currentSlot (silo_swap i z) = si_currentSlot z"
proof -
  show "sl_encImage (si_slots (silo_swap i z) ! j) = sl_encImage (si_slots z ! j)"
    using swap_slots_cache [of 0 z 1 j] swap_slots_cache [of 1 z 2 j] swap_slots_cache [of 2 z 0 j] assms
    by (simp add: silo_swap_def Let_def)
qed (use assms in \<open>simp_all add: silo_swap_def swap_slots_def Let_def pending_def\<close>)

lemma inv_swap:
  assumes "silo_inv getImage reqs z"
  shows "silo_inv getImage reqs (silo_swap i z)"
proof -
  note inv = silo_invD [OF assms]
  note sc = swap_cache [OF inv(1), of i]
  show ?thesis by (rule inv_same [OF assms sc(2-4)]) (simp_all only: sc(1,5) inv(3,4))
qed

lemma inv_remove:
  assumes "silo_inv getImage reqs z"
  shows "silo_inv getImage reqs (silo_remove i z)"
proof (rule inv_same [OF assms])
  show "holds_image img True (slot_cache (silo_remove i z) j) = holds_image img True (slot_cache z j)"
    for j img by (simp add: silo_remove_def clearSlot_def Let_def)
qed (use silo_invD [OF assms] in \<open>simp_all add: silo_remove_def Let_def clearSlot_def pending_def slot_upd_def\<close>)

text \<open>The flag for new content of a slot plays no part.\<close>

lemma inv_flag:
  assumes "silo_inv getImage reqs z"
  shows "silo_inv getImage reqs (slot_upd i (\<lambda>s. s\<lparr>sl_encImage := (sl_encImage s)\<lparr>mc_newContent := b\<rparr>\<rparr>) z)"
  by (rule inv_same [OF assms]; (rule slot_upd_cache [where P = "holds_image _ True"])?) (simp_all add: silo_invD [OF assms])

lemma inv_current:
  assumes "silo_inv getImage reqs z"
  shows "silo_inv getImage reqs (setCurrentSlot i z)"
  unfolding setCurrentSlot_def Let_def
  by (rule inv_flag, rule inv_same [OF assms]) (use silo_invD [OF assms] in \<open>auto simp: pending_def\<close>)

lemma inv_newContent: "silo_inv getImage reqs z \<Longrightarrow> silo_inv getImage reqs (fst (currentSlotHasNewContent z))"
  unfolding currentSlotHasNewContent_def by (auto intro: inv_flag)

lemma inv_take:
  assumes "silo_inv getImage reqs z" and "si_working z = None"
  shows "silo_inv getImage reqs (run_take z)"
proof (rule inv_same [OF assms(1)])
  show "pending (run_take z) = pending z" using assms(2) by (simp add: run_take_def pending_def split: list.split)
qed (use silo_invD [OF assms(1)] in \<open>simp_all add: run_take_def split: list.split\<close>)

text \<open>
  The oldest request is done: the cache of its slot then holds its image, if that could be opened and
  fits. Another image leaves the thread's encoder in order too.
\<close>

lemma inv_encode:
  assumes "silo_inv getImage reqs z" and "run_encode getImage z = Inr z'"
  shows "silo_inv getImage reqs z'"
proof (cases "si_working z")
  case None
  with assms show ?thesis by (simp add: run_encode_def)
next
  case (Some er)
  note inv = silo_invD [OF assms(1)]
  let ?i = "er_slotIndex er"
  from assms(2) Some have p: "pending z = er # pending z'"
    by (auto simp: run_encode_def Let_def pending_def slot_upd_def split: option.splits if_splits sum.splits)
  then have er: "0 \<le> ?i" "?i \<le> 3" using inv(5) [of er] by simp_all
  have pf: "pending_for j z = (if j = ?i then er # pending_for j z' else pending_for j z')" for j
    unfolding pending_for_def p by simp
  have other: "slot_cache z' j = slot_cache z j" if "0 \<le> j" "j \<noteq> ?i" for j
    using assms(2) Some that er inv(1)
    by (auto simp: run_encode_def Let_def slot_upd_def nat_eq_iff2 split: option.splits if_splits sum.splits)
  have own: "holds_image img True (slot_cache z' ?i)" if "getImage (er_filename er) = Some img" "image_fits img" for img
  proof -
    from image_cached [OF that(2) inv(2), of True] obtain c
      where c: "encodeAndCacheImage img True (si_encImage z) = Inr c" "holds_image img True c" by blast
    have "nat ?i < 4" using er by linarith
    then have "slot_cache z' ?i = copyFromOther c (slot_cache z ?i)"
      using assms(2) Some that c(1) inv(1) by (auto simp: run_encode_def Let_def image_fits_def slot_upd_def)
    with image_copied [OF that(2) c(2)] show ?thesis by simp
  qed
  have "slot_ok getImage reqs z' j" if j: "0 \<le> j" "j \<le> 3" for j
  proof (cases "j = ?i")
    case False
    then have "pending_for j z' = pending_for j z" using pf [of j] by simp
    with inv(6) [OF j] other [OF j(1) False] show ?thesis by (simp only: slot_ok_def)
  next
    case True
    with inv(6) [OF j] pf [of j] own show ?thesis by (auto simp: slot_ok_def)
  qed
  moreover have "cache_ok (si_encImage z')"
    using assms(2) Some inv(2) encode_keeps_ok
    by (fastforce simp: run_encode_def Let_def slot_upd_def split: option.splits if_splits sum.splits)
  moreover have "length (si_slots z') = 4" "si_currentSlot z' = si_currentSlot z"
    using assms(2) Some inv(1) by (auto simp: run_encode_def Let_def slot_upd_def split: option.splits if_splits sum.splits)
  ultimately show ?thesis using inv(3,4,5) p by (simp add: silo_inv_def)
qed

lemma silo_run_inv: "silo_run getImage reqs z \<Longrightarrow> silo_inv getImage reqs z"
proof (induction rule: silo_run.induct)
  case (run_new c res)
  then show ?case by (rule inv_new)
next
  case (run_step reqs z rs z')
  from run_step.hyps(2) run_step.IH show ?case
    by cases (simp_all only: append_Nil2 inv_add inv_swap inv_remove inv_current inv_newContent inv_take inv_encode)
qed

text \<open>A slot with no request waiting holds the image that was put in it last.\<close>

lemma slot_holds:
  assumes "silo_run getImage reqs z" and "0 \<le> i" and "i \<le> 3" and "pending_for i z = []"
    and "last_file i reqs = Some fn" and "getImage fn = Some img" and "image_fits img"
  shows "holds_image img True (slot_cache z i)"
  using silo_invD(6) [OF silo_run_inv [OF assms(1)] assms(2,3)] assms(4-) by (simp add: slot_ok_def)

end
