(* ===== verification/HostDisk.thy ===== *)
theory HostDisk
  imports HostSilo
begin

text \<open>
  From an image file to the times of the flux: the host's slots, its encoder, the message to Franz and
  Franz's reading of the track, put together.
\<close>

section \<open>What Franz reads\<close>

lemma swap_take: "even n \<Longrightarrow> swap_pairs (take n xs) = take n (swap_pairs xs)"
proof (induction xs arbitrary: n rule: swap_pairs.induct, goal_cases)
  case (1 x y xs n)
  show ?case
  proof (cases n)
    case (Suc m)
    with 1 show ?thesis by (cases m) simp_all
  qed simp
next
  case (3 v n)
  then show ?case by (cases n) (auto elim: oddE)
qed simp

lemma skips: "concat (map mfm_enc (replicate n Skip)) = replicate n 0" "mfm_data (replicate n Skip @ its) = mfm_data its"
  "list_all mfm_valid (replicate n Skip)"
  by (induction n) simp_all

lemma track_received:
  assumes "image_fits img" and "1 \<le> fi_sectorsPerTrack img" and "cached_track img True (t, s) ct"
    and "ct_mfmStream ct = Some B" and "readTrackData f = franz_receives (B, 14990)" and "inIndexGet f = 0"
  shows "\<exists>k junk rest. md_decoded (fold append_time (concat (map mfm_codes (snd (mfm_take k f)))) d) =
    junk @ take (length (layout img t s (fi_sectorsPerTrack img)) - 2) (layout img t s (fi_sectorsPerTrack img)) @ rest"
proof -
  let ?spt = "fi_sectorsPerTrack img"
  from assms(3) obtain e where e: "enc_ok e" "ct = store_track True (mf_bfr (encodeSingleTrack img s t ?spt True e))"
    by (auto simp: cached_track_def)
  let ?b = "mf_bfr (encodeSingleTrack img s t ?spt True e)"
  from assms(1) have img: "fi_open img" "?spt \<le> 12" by (simp_all add: image_fits_def)
  have len: "length ?b \<le> 14989" using track_fits [OF e(1) img(1) order_refl, of s t True] img(2) by linarith
  from e(1) obtain l p where lp: "l \<noteq> Mark" "line_of l e" "packed (mf_times e, mf_timesCnt e, []) [] p"
    by (auto simp: enc_ok_def simp del: packed.simps)
  obtain its bfr where b: "?b = bfr @ [0xF0, 0]"
    "packed (mf_times (encodeSingleTrack img s t ?spt True e), mf_timesCnt (encodeSingleTrack img s t ?spt True e), bfr)
       its (p @ syms_times l (track_syms img t s ?spt))"
    using encode_track_packed [OF lp(2,1,3) img(1) order_refl, of t s True] by blast
  from b(2) obtain p' where p': "concat (map mfm_codes (mfm_data its)) @ p' = p @ syms_times l (track_syms img t s ?spt)" "length p' < 4"
    and its: "bfr = concat (map mfm_enc its)" "list_all mfm_valid its" by auto
  let ?pad = "replicate (14990 - length ?b) 0 :: BYTE list"
  have "B = swap_pairs (?b @ replicate (15000 - length ?b) 0)"
    using e(2) assms(4) len by (simp add: store_track_def Let_def overwrite_def)
  then have "swap_pairs (take 14990 B) = take 14990 (?b @ replicate (15000 - length ?b) 0)" by (simp add: swap_take)
  also have "\<dots> = ?b @ ?pad" using len by simp
  finally have "readTrackData f = replicate 10 0 @ ?b @ ?pad"
    unfolding assms(5) franz_receives_def by (simp add: swap_pairs_append swap_zeros del: replicate.simps)
  then have r: "readTrackData f = concat (map mfm_enc (replicate 10 Skip @ its)) @ ([0xF0, 0] @ ?pad)"
    unfolding b(1) its(1) by (simp add: skips del: replicate.simps)
  have "length (readTrackData f) = 15000"
    unfolding \<open>readTrackData f = replicate 10 0 @ ?b @ ?pad\<close> using len by simp
  then have at: "track_at f (replicate 10 Skip @ its) ([0xF0, 0] @ ?pad)"
    using r assms(6) by (simp add: track_at_def del: replicate.simps)
  have v: "list_all mfm_valid (replicate 10 Skip @ its)" using its(2) skips(3) by simp
  have "snd (mfm_take (length (mfm_data its)) f) = mfm_data its"
    using mfm_take_items [OF at v, of "length (mfm_data its)"] by (simp add: skips del: replicate.simps)
  then show ?thesis using times_decoded [OF lp(1) assms(2) p', of d] by metis
qed

section \<open>The whole way\<close>

text \<open>
  C2: whatever the core thread and the encoding thread have done, swaps and removals of slots among it:
  when the file that was put in the selected slot last is an image that can be opened, with at most 85
  tracks, 2 sides and 12 sectors, and no request waits for the slot, then a track of the image that Franz
  asks for is sent from that file: the bytes Franz reads out of it decode, from any state of a decoder, to
  the track's layout with the data of the file's sectors. Nothing is assumed of the files of other slots
  and other requests; a run ends where an image that does not fit is written past the end of a block.
  The slot's name plays no part, a swap changes it and not the tracks.
\<close>

theorem disk_reaches_drive:
  assumes "silo_run getImage reqs z" and "pending_for (si_currentSlot z) z = []"
    and "last_file (si_currentSlot z) reqs = Some fn" and "getImage fn = Some img" and "image_fits img"
    and "1 \<le> fi_sectorsPerTrack img" and "uint side < fi_sidesNo img" and "uint track < fi_tracksNo img"
    and "handleSendTrack side track z = (sent, n)"
    and "readTrackData f = franz_receives (the sent, n)" and "inIndexGet f = 0"
  shows "\<exists>k junk rest. md_decoded (fold append_time (concat (map mfm_codes (snd (mfm_take k f)))) d) =
    junk @ take (length (layout img (uint track) (uint side) (fi_sectorsPerTrack img)) - 2)
      (layout img (uint track) (uint side) (fi_sectorsPerTrack img)) @ rest"
proof -
  have h: "holds_image img True (silo_encImage z)"
    unfolding silo_encImage_def by (rule slot_holds [OF assms(1) silo_invD(3,4) [OF silo_run_inv [OF assms(1)]] assms(2-5)])
  from assms(5,7,8) have ts: "uint side < 2" "uint track < 85" by (simp_all add: image_fits_def)
  let ?ct = "mc_cache (silo_encImage z) ! cache_index (uint track, uint side)"
  have ct: "cached_track img True (uint track, uint side) ?ct" using h ts assms(7,8) by (simp add: holds_image_def)
  from cached_copy [OF assms(5) ct] obtain B where B: "ct_mfmStream ?ct = Some B" by blast
  have "handleSendTrack side track z = (Some B, 14990)"
    using h ts assms(8) B by (simp add: handleSendTrack_def Let_def silo_getEncodedTrack_def getEncodedTrack_def holds_image_def cache_index_def)
  with assms(9) have "sent = Some B" "n = 14990" by simp_all
  with track_received [OF assms(5,6) ct B _ assms(11)] assms(10) show ?thesis by simp
qed

text \<open>
  A single sided image has no stream for the second side, which is asked for all the same: the core
  thread passes no pointer to the transfer, for a track that it has found to be in range.
\<close>

lemma second_side_null:
  assumes "silo_run getImage reqs z" and "pending_for (si_currentSlot z) z = []"
    and "last_file (si_currentSlot z) reqs = Some fn" and "getImage fn = Some img" and "image_fits img"
    and "fi_sidesNo img = 1" and "uint track < fi_tracksNo img"
  shows "handleSendTrack 1 track z = (None, 14990)"
proof -
  have h: "holds_image img True (silo_encImage z)"
    unfolding silo_encImage_def by (rule slot_holds [OF assms(1) silo_invD(3,4) [OF silo_run_inv [OF assms(1)]] assms(2-5)])
  have t: "uint track < 85" using assms(5,7) by (simp add: image_fits_def)
  have "mc_cache (silo_encImage z) ! cache_index (uint track, 1) = no_track" using h t assms(6) by (simp add: holds_image_def)
  then show ?thesis using h t assms(7)
    by (simp add: handleSendTrack_def Let_def silo_getEncodedTrack_def getEncodedTrack_def holds_image_def cache_index_def)
qed

text \<open>
  C36: a swap of two slots takes the names and leaves the encoded images: when the first slot carries the
  name of the file put in it last, and no request waits, then after the swap it carries the second file's
  name and the first file's tracks, with no request to encode it again.
\<close>

theorem swap_keeps_tracks:
  assumes "silo_run getImage reqs z" and "pending z = []"
    and "last_file 0 reqs = Some (sl_hostDestPath (si_slots z ! 0))"
    and "getImage (sl_hostDestPath (si_slots z ! 0)) = Some img" and "image_fits img"
  shows "sl_hostDestPath (si_slots (silo_swap 0 z) ! 0) = sl_hostDestPath (si_slots z ! 1) \<and>
    sl_hostDestPath (si_slots (silo_swap 0 z) ! 1) = sl_hostDestPath (si_slots z ! 0) \<and>
    holds_image img True (sl_encImage (si_slots (silo_swap 0 z) ! 0)) \<and> pending (silo_swap 0 z) = []"
proof -
  note len = silo_invD(1) [OF silo_run_inv [OF assms(1)]]
  have "pending_for 0 z = []" by (simp add: pending_for_def assms(2))
  from slot_holds [OF assms(1) _ _ this assms(3-5)] have "holds_image img True (sl_encImage (si_slots z ! 0))" by simp
  then show ?thesis using len assms(2) by (simp add: silo_swap_def swap_slots_def Let_def pending_def)
qed

section \<open>Images that do not fit\<close>

lemma bits_min: "l \<noteq> Fresh \<Longrightarrow> 4 \<le> length (sym_times l s)"
  by (cases s) (simp_all add: byte_min)

lemma syms_min: "l \<noteq> Fresh \<Longrightarrow> 4 * length ss \<le> length (syms_times l ss)"
proof (induction ss arbitrary: l)
  case (Cons s ss)
  have "sym_next l s \<noteq> Fresh" using syms_not_fresh [OF Cons.prems, of "[s]"] by simp
  with Cons.IH [of "sym_next l s"] bits_min [OF Cons.prems, of s] show ?case by simp
qed simp

lemma zeros_min:
  assumes "l \<noteq> Fresh" and "l \<noteq> Mark"
  shows "8 * n \<le> length (syms_times l (replicate n (Byte 0))) + 1"
proof (cases n)
  case (Suc m)
  have first: "7 \<le> length (bits_times l (bits8 0))" "bits_next l (bits8 0) = Zero"
    using assms by (cases l; simp add: bits8_def upt_rec)+
  have "length (syms_times Zero (replicate m (Byte 0))) = 8 * m" for m
    by (induction m) (simp_all add: bits8_def upt_rec)
  with first Suc show ?thesis by simp
qed simp

lemma zero_sector_min:
  assumes "l \<noteq> Fresh" and "l \<noteq> Mark"
  shows "4600 \<le> length (syms_times l (sector_syms track side k (replicate 512 0)))"
proof -
  define H where "H = field (id_bytes track side k) @ replicate 22 (Byte 0x4e)"
  define F where "F = [A1, A1, A1, Byte 0xfb]"
  define C where "C = [Byte (HIBYTE (field_crc (0xfb # replicate 512 0))), Byte (LOBYTE (field_crc (0xfb # replicate 512 0)))] @ replicate 40 (Byte 0x4e)"
  let ?z = "\<lambda>n. replicate n (Byte 0)"
  have S: "sector_syms track side k (replicate 512 0) = ?z 12 @ H @ ?z 12 @ F @ ?z 512 @ C"
    unfolding sector_syms_def H_def F_def C_def field_def by (simp del: replicate.simps)
  have len: "length H = 32" "length C = 42" by (simp_all add: H_def C_def field_def id_bytes_def)
  note nf = syms_not_fresh
  let ?l1 = "syms_next l (?z 12)" and ?l2 = "syms_next (syms_next l (?z 12)) H"
  let ?l3 = "syms_next ?l2 (?z 12)"
  let ?l4 = "syms_next ?l3 F"
  let ?l5 = "syms_next ?l4 (?z 512)"
  note n1 = nf [OF assms(1), of "?z 12"]
  note n2 = nf [OF n1, of H]
  note n3 = nf [OF n2, of "?z 12"]
  note n4 = nf [OF n3, of F]
  note n = n1 n2 n3 n4 nf [OF n4, of "?z 512"]
  have z1: "?l1 = Zero" by (rule zeros_next) (use assms in simp_all)
  have "bit (0xfe :: BYTE) 7" by simp
  from field_ok(2) [OF this] have m2: "?l2 \<noteq> Mark" unfolding z1 H_def id_bytes_def syms_append by simp
  have z3: "?l3 = Zero" by (rule zeros_next) (use m2 in simp_all)
  have m4: "?l4 \<noteq> Mark" unfolding z3 F_def by (simp add: byte_next)
  have "19 \<le> length (syms_times ?l3 F)" using byte_min [of Mark "0xfb"] unfolding z3 F_def by simp
  moreover have "8 * 12 \<le> length (syms_times l (?z 12)) + 1" by (rule zeros_min [OF assms])
  moreover have "4 * 32 \<le> length (syms_times ?l1 H)" using syms_min [OF n(1), of H] len by simp
  moreover have "8 * 12 \<le> length (syms_times ?l2 (?z 12)) + 1" by (rule zeros_min [OF n(2) m2])
  moreover have "8 * 512 \<le> length (syms_times ?l4 (?z 512)) + 1" by (rule zeros_min [OF n(4) m4])
  moreover have "4 * 42 \<le> length (syms_times ?l5 C)" using syms_min [OF n(5), of C] len by simp
  ultimately show ?thesis unfolding S syms_append length_append by linarith
qed

lemma zero_sectors_min:
  assumes "l \<noteq> Fresh" and "l \<noteq> Mark" and "\<forall>k\<in>set ks. sector_data img track side k = replicate 512 0"
  shows "4600 * length ks \<le> length (syms_times l (sectors_syms img track side ks))"
  using assms
proof (induction ks arbitrary: l)
  case (Cons k ks)
  let ?S = "sector_syms track side k (replicate 512 0)"
  have "syms_next l ?S \<noteq> Fresh" "syms_next l ?S \<noteq> Mark"
    using syms_not_fresh [OF Cons.prems(1)] sector_ok [OF Cons.prems(2)] by blast+
  from Cons.IH [OF this] Cons.prems(3)
  have "4600 * length ks \<le> length (syms_times (syms_next l ?S) (sectors_syms img track side ks))" by simp
  moreover have "syms_times l (sectors_syms img track side (k # ks)) = syms_times l ?S @ syms_times (syms_next l ?S) (sectors_syms img track side ks)"
    using Cons.prems(3) by (simp add: sectors_syms_def)
  ultimately show ?case using zero_sector_min [OF Cons.prems(1,2), of track side k] by simp
qed simp

lemma long_track:
  assumes "enc_ok s" and "fi_open img" and "fi_sectorsPerTrack img = 13"
    and "\<forall>k\<in>set [1..13]. sector_data img track side k = replicate 512 0"
  shows "15000 < length (mf_bfr (encodeSingleTrack img side track 13 bob s))"
    and "length (mf_bfr (encodeSingleTrack img side track 13 bob s)) \<le> 20480"
proof -
  from assms(1) obtain l p where lp: "l \<noteq> Mark" "line_of l s" "packed (mf_times s, mf_timesCnt s, []) [] p"
    by (auto simp: enc_ok_def simp del: packed.simps)
  let ?g = "replicate 60 (Byte 0x4e)"
  have "syms_next l ?g = syms_next (bits_next l (bits8 0x4e)) (replicate 59 (Byte 0x4e))"
    by (simp add: numeral_eq_Suc)
  moreover have "bits_next l (bits8 0x4e) \<noteq> Fresh" by (cases l; simp add: bits8_def upt_rec next_not_fresh)
  ultimately have g: "syms_next l ?g \<noteq> Fresh" using syms_not_fresh by metis
  have m: "syms_next l ?g \<noteq> Mark" using lp(1) by simp
  have "4600 * length [1..13 :: int] \<le> length (syms_times (syms_next l ?g) (sectors_syms img track side [1..13]))"
    by (rule zero_sectors_min [OF g m assms(4)])
  then have "4600 * 13 \<le> length (syms_times (syms_next l ?g) (sectors_syms img track side [1..13]))" by simp
  with encode_track_length(2) [OF lp(2,1) packed_count [OF lp(3)] assms(2), of 13 track side bob] assms(3)
  show "15000 < length (mf_bfr (encodeSingleTrack img side track 13 bob s))" by simp
  show "length (mf_bfr (encodeSingleTrack img side track 13 bob s)) \<le> 20480"
    using track_fits [OF assms(1,2), of 13 side track bob] assms(3) by simp
qed

lemma long_image:
  assumes "cache_ok c" and "fi_open img" and "fi_sectorsPerTrack img = 13" and "1 \<le> fi_tracksNo img" and "1 \<le> fi_sidesNo img"
    and "\<forall>k\<in>set [1..13]. sector_data img 0 0 k = replicate 512 0"
  shows "encodeAndCacheImage img bob c = Inl BlockOverrun"
proof -
  obtain tss where tss: "List.product [0..fi_tracksNo img - 1] [0..fi_sidesNo img - 1] = (0, 0) # tss"
    using assms(4,5) by (simp add: upto_rec1)
  have e: "enc_ok (mc_enc c1) \<Longrightarrow> encode_tracks img 13 bob ((0, 0) # tss) c1 = Inl BlockOverrun" for c1
    using long_track [OF _ assms(2,3,6), of "mc_enc c1" bob] by (simp add: encode_track_def Let_def)
  have "enc_ok (mc_enc c)" "enc_ok (mc_enc (deleteCachedImage c))"
    using assms(1) by (simp_all add: cache_ok_def deleteCachedImage_def)
  then show ?thesis using assms(2,3) e unfolding encodeAndCacheImage_def Let_def
    by (simp add: image_getParams_def tss)
qed

text \<open>
  C37: an image of 13 sectors per track, as it is guessed from the size of a file (78 tracks of two sides
  have 2028 sectors), does not fit: its first track of zeros is longer than the 15000 bytes of the block
  it is copied to, so encoding the image writes past the end of the block.
\<close>

theorem thirteen_sectors_overrun:
  assumes "open_st (Some (replicate (2028 * 512) 0, True)) img = (img', ok)" and "cache_ok c"
  shows "fi_tracksNo img' = 78 \<and> fi_sidesNo img' = 2 \<and> fi_sectorsPerTrack img' = 13 \<and>
    encodeAndCacheImage img' bob c = Inl BlockOverrun"
proof -
  let ?n = "2028 * 512 :: nat"
  let ?bs = "replicate ?n 0 :: BYTE list"
  have f: "find_params 2 2028 = Some (78, 13)" by code_simp
  from assms(1) obtain img0 where i: "img' = fst (calcParams img0)" "fi_open img0" "fi_size img0 = int ?n"
    "\<And>i. 0 \<le> i \<Longrightarrow> i < int ?n \<Longrightarrow> fi_data img0 i = 0"
    by (auto simp: open_st_def Let_def loadImageIntoMemory_def image_open_def simp del: replicate.simps)
  have p: "fi_tracksNo img' = 78" "fi_sidesNo img' = 2" "fi_sectorsPerTrack img' = 13"
    unfolding i(1) using i(3) f by (simp_all add: calcParams_def Let_def)
  have o: "fi_open img'" using i(1,2) by simp
  have "\<forall>k\<in>set [1..13]. sector_data img' 0 0 k = replicate 512 0"
  proof
    fix k :: int assume "k \<in> set [1..13]"
    then have "0 \<le> sector_offset img' 0 0 k" "sector_offset img' 0 0 k + 512 \<le> int ?n"
      by (auto simp: sector_offset_def)
    then have "fi_data img' (sector_offset img' 0 0 k + int j) = 0" if "j < 512" for j
      using i(1,4) that by simp
    then show "sector_data img' 0 0 k = replicate 512 0"
      unfolding sector_data_def by (intro nth_equalityI) simp_all
  qed
  from long_image [OF assms(2) o p(3) _ _ this, of bob] p show ?thesis by simp
qed

end
