(* ===== verification/HostMsa.thy ===== *)
theory HostMsa
  imports HostDisk
begin

text \<open>
  MSA images (ce_main_app/floppy/msa.cpp, floppyimagemsa.cpp): the file is a list of bytes, reading past
  its end and writing past a block are results of their own. The workspace that a file is built in is a
  memory whose first contents are what \<open>malloc\<close> gives.
\<close>

section \<open>Uncompressing\<close>

datatype msa_result = MsaNull | MsaImage "BYTE list" | MsaOverread | MsaOverrun

text \<open>The loop over one compressed track: \<open>n\<close> of \<open>tot\<close> bytes are there.\<close>

function msa_runs :: "int \<Rightarrow> int \<Rightarrow> BYTE list \<Rightarrow> (BYTE list \<times> BYTE list) option" where
  "msa_runs tot n bs =
     (if n < tot
      then (case bs of
              [] \<Rightarrow> None
            | b # bs \<Rightarrow>
                if b \<noteq> 0xE5 then map_option (\<lambda>(out, rest). (b # out, rest)) (msa_runs tot (n + 1) bs)
                else (case bs of
                        d # h # l # bs \<Rightarrow>
                          (let run = uint (be16 h l); run = (if run + n > tot then tot - n else run)
                           in map_option (\<lambda>(out, rest). (replicate (nat run) d @ out, rest)) (msa_runs tot (n + run) bs))
                      | _ \<Rightarrow> None))
      else Some ([], bs))"
  by pat_completeness auto
termination by (relation "measure (\<lambda>(tot, n, bs). length bs)") auto

declare msa_runs.simps [simp del]

text \<open>One track: a word with its length, and its bytes or its runs.\<close>

definition msa_track :: "int \<Rightarrow> BYTE list \<Rightarrow> (BYTE list \<times> BYTE list) option" where
  "msa_track tot bs =
     (case bs of
        h # l # bs \<Rightarrow>
          if uint (be16 h l) = tot
          then (if int (length bs) < tot then None else Some (take (nat tot) bs, drop (nat tot) bs))
          else msa_runs tot 0 bs
      | _ \<Rightarrow> None)"

fun msa_tracks :: "nat \<Rightarrow> int \<Rightarrow> BYTE list \<Rightarrow> BYTE list option" where
  "msa_tracks 0 tot bs = Some []"
| "msa_tracks (Suc k) tot bs =
     (case msa_track tot bs of None \<Rightarrow> None
      | Some (out, rest) \<Rightarrow> map_option (\<lambda>outs. out @ outs) (msa_tracks k tot rest))"

definition MSA_UnCompress :: "BYTE list \<Rightarrow> msa_result" where
  "MSA_UnCompress file =
     (case file of
        i1 # i0 # p1 # p0 # s1 # s0 # a1 # a0 # e1 # e0 # bs \<Rightarrow>
          if be16 i1 i0 \<noteq> 0x0E0F then MsaNull
          else (let spt = sint (be16 p1 p0); sides = sint (be16 s1 s0);
                    starting = sint (be16 a1 a0); ending = sint (be16 e1 e0);
                    size = sint (word_of_int ((ending - starting + 1) * spt * (sides + 1) * 512) :: DWORD)
                in if size < 0 then MsaNull
                   else (case msa_tracks (nat (ending - starting + 1) * nat (sides + 1)) (512 * spt) bs of
                           None \<Rightarrow> MsaOverread
                         | Some out \<Rightarrow> if int (length out) > size then MsaOverrun else MsaImage out))
      | _ \<Rightarrow> MsaOverread)"

section \<open>Compressing\<close>

definition MSA_FindRunOfBytes :: "BYTE list \<Rightarrow> nat" where
  "MSA_FindRunOfBytes buf =
     (let bMarker = (buf \<noteq> [] \<and> hd buf = 0xE5)
      in if length buf < 2 then (if length buf = 1 \<and> bMarker then 1 else 0)
         else (let nTotalRun = Suc (length (takeWhile (\<lambda>x. x = hd buf) (tl buf)))
               in if nTotalRun < 4 \<and> \<not> bMarker then 0 else nTotalRun))"

function msa_pack :: "BYTE list \<Rightarrow> BYTE list" where
  "msa_pack buf =
     (if buf = [] then []
      else (let nBytesRun = MSA_FindRunOfBytes buf
            in if nBytesRun = 0 then hd buf # msa_pack (tl buf)
               else 0xE5 # hd buf # be16_bytes (of_nat nBytesRun) @ msa_pack (drop nBytesRun buf)))"
  by pat_completeness auto
termination by (relation "measure length") auto

declare msa_pack.simps [simp del]

definition ws_put :: "(nat \<Rightarrow> BYTE) \<Rightarrow> nat \<Rightarrow> BYTE list \<Rightarrow> nat \<Rightarrow> BYTE" where
  "ws_put m p bs = (\<lambda>i. if p \<le> i \<and> i < p + length bs then bs ! (i - p) else m i)"

text \<open>
  One track at the position \<open>p\<close> of the workspace: its packed bytes follow two bytes that are left out;
  the length is stored where the packed bytes end.
\<close>

definition write_track :: "BYTE list \<Rightarrow> (nat \<Rightarrow> BYTE) \<times> nat \<Rightarrow> (nat \<Rightarrow> BYTE) \<times> nat" where
  "write_track tr mp =
     (let (m, p) = mp;
          out = msa_pack tr;
          m = ws_put m (p + 2) out;
          q = p + 2 + length out
      in if length out mod 65536 < length tr then (ws_put m q (be16_bytes (of_nat (length out))), q)
         else (let m = ws_put m q (be16_bytes (of_nat (length tr)))
               in (ws_put m (p + 2) tr, p + 2 + length tr)))"

definition DoubleCheckFormat :: "int \<Rightarrow> WORD \<Rightarrow> WORD \<Rightarrow> WORD \<times> WORD" where
  "DoubleCheckFormat nDiskSize nSides nSectorsPerTrack =
     (let sides = (if nDiskSize < 500 * 1024 then 1 else 2);
          tot = nDiskSize div 512;
          spt = (case find (\<lambda>(k, t). tot = t * k * sides) (List.product [9..12] [80..84]) of
                   Some (k, t) \<Rightarrow> word_of_int k
                 | None \<Rightarrow> nSectorsPerTrack)
      in (word_of_int sides, spt))"

definition FindDiskDetails :: "BYTE list \<Rightarrow> WORD \<times> WORD" where
  "FindDiskDetails img =
     (let nSectorsPerTrack = be16 (img ! 25) (img ! 24);
          nSides = be16 (img ! 27) (img ! 26);
          nSectorsPerDisk = uint (img ! 19) + 256 * uint (img ! 20)
      in if nSectorsPerDisk \<noteq> int (length img) div 512 then DoubleCheckFormat (int (length img)) nSides nSectorsPerTrack
         else (nSides, nSectorsPerTrack))"

text \<open>
  The file that is saved; none when the details give no sectors or no sides (the division traps). The
  tracks and their sides are consecutive in the image.
\<close>

definition MSA_WriteDisk :: "(nat \<Rightarrow> BYTE) \<Rightarrow> BYTE list \<Rightarrow> BYTE list option" where
  "MSA_WriteDisk malloced img =
     (let (nSides, spt) = FindDiskDetails img
      in if spt = 0 \<or> nSides = 0 then None
         else (let nTracks = length img div 512 div unat spt div unat nSides;
                   nBytesPerTrack = unat (512 * spt);
                   header = be16_bytes 0x0E0F @ be16_bytes spt @ be16_bytes (nSides - 1) @ be16_bytes 0 @
                            be16_bytes (of_nat nTracks - 1);
                   tracks = map (\<lambda>k. take nBytesPerTrack (drop (k * nBytesPerTrack) img)) [0..<nTracks * unat nSides];
                   (m, p) = fold write_track tracks (ws_put malloced 0 header, 10)
               in Some (map m [0..<p])))"

text \<open>Opening an MSA file: the parameters are read from the header, the file is then uncompressed.\<close>

definition open_msa :: "(BYTE list \<times> bool) option \<Rightarrow> FloppyImage \<Rightarrow> (FloppyImage \<times> bool) option" where
  "open_msa file img =
     (let img = image_open file img
      in case file of
           None \<Rightarrow> Some (img, False)
         | Some (bytes, readOk) \<Rightarrow>
             (let hdr = (\<lambda>i. uint (be16 (bytes ! (2 * i)) (bytes ! Suc (2 * i))))
              in if length bytes < 10 then None
                 else if hdr 0 \<noteq> 0x0e0f then Some (image_close img, False)
                 else (let img = img\<lparr>fi_tracksNo := hdr 4 - hdr 3 + 1, fi_sidesNo := hdr 2 + 1,
                                     fi_sectorsPerTrack := hdr 1, fi_isInit := True\<rparr>
                       in case loadImageIntoMemory bytes readOk img of
                            (img, ok) \<Rightarrow>
                              if \<not> ok then Some (image_close img, False)
                              else (case MSA_UnCompress bytes of
                                      MsaNull \<Rightarrow> Some (image_close (img\<lparr>fi_size := 0\<rparr>), False)
                                    | MsaImage out \<Rightarrow> Some (fst (loadImageIntoMemory out True img), True)
                                    | _ \<Rightarrow> None))))"

section \<open>Sizes\<close>

lemma runs_length:
  "msa_runs tot n bs = Some (out, rest) \<Longrightarrow> 0 \<le> n \<Longrightarrow> n \<le> tot \<Longrightarrow> int (length out) = tot - n"
proof (induction tot n bs arbitrary: out rest rule: msa_runs.induct)
  case (1 tot n bs)
  show ?case
  proof (cases "n < tot")
    case False
    with 1 show ?thesis by (simp add: msa_runs.simps [of tot n])
  next
    case True
    with "1.prems"(1) obtain b bs' where bs: "bs = b # bs'" by (cases bs) (simp_all add: msa_runs.simps [of tot n])
    show ?thesis
    proof (cases "b = 0xE5")
      case False
      with "1.prems"(1) True bs obtain o' where "msa_runs tot (n + 1) bs' = Some (o', rest)" "out = b # o'"
        by (auto simp: msa_runs.simps [of tot n])
      with "1.IH"(1) [OF True bs False] "1.prems"(2) True show ?thesis by fastforce
    next
      case E5: True
      with "1.prems"(1) True bs obtain d h l bs'' where bs'': "bs' = d # h # l # bs''"
        by (auto simp: msa_runs.simps [of tot n] split: list.splits)
      let ?run = "if uint (be16 h l) + n > tot then tot - n else uint (be16 h l)"
      from "1.prems"(1) True bs E5 bs'' obtain o' where o: "msa_runs tot (n + ?run) bs'' = Some (o', rest)" "out = replicate (nat ?run) d @ o'"
        by (auto simp: msa_runs.simps [of tot n] Let_def split: if_splits)
      have r: "0 \<le> ?run" "n + ?run \<le> tot" using True by simp_all
      have "int (length o') = tot - (n + ?run)"
        by (rule "1.IH"(2) [OF True bs _ bs'' refl refl refl refl o(1)]) (use E5 r "1.prems"(2) in auto)
      with o(2) r show ?thesis by simp
    qed
  qed
qed

lemma track_length:
  assumes "msa_track tot bs = Some (out, rest)" and "0 \<le> tot"
  shows "int (length out) = tot"
proof -
  from assms(1) obtain h l bs' where bs: "bs = h # l # bs'" by (auto simp: msa_track_def split: list.splits)
  show ?thesis
  proof (cases "uint (be16 h l) = tot \<and> \<not> int (length bs') < tot")
    case True
    with assms(1) bs have "out = take (nat tot) bs'" by (simp only: msa_track_def list.case if_True if_False) simp
    with True assms(2) show ?thesis by (simp add: min_def le_nat_iff)
  next
    case False
    with assms(1) bs have "msa_runs tot 0 bs' = Some (out, rest)" by (auto simp: msa_track_def split: if_splits)
    with assms(2) show ?thesis using runs_length by fastforce
  qed
qed

lemma tracks_length:
  "msa_tracks k tot bs = Some out \<Longrightarrow> 0 \<le> tot \<Longrightarrow> int (length out) = int k * tot"
proof (induction k arbitrary: bs out)
  case (Suc k)
  then obtain o1 rest o2 where "msa_track tot bs = Some (o1, rest)" "msa_tracks k tot rest = Some o2" "out = o1 @ o2"
    by (auto split: option.splits)
  with Suc.IH [of rest o2] Suc.prems(2) track_length [of tot bs o1 rest] show ?case by (simp add: algebra_simps)
qed simp

section \<open>Round trip of a track\<close>

lemma find_run_0: "buf \<noteq> [] \<Longrightarrow> MSA_FindRunOfBytes buf = 0 \<Longrightarrow> hd buf \<noteq> 0xE5"
  by (cases buf rule: remdups_adj.cases) (auto simp: MSA_FindRunOfBytes_def Let_def split: if_splits)

lemma find_run:
  assumes "buf \<noteq> []" and "MSA_FindRunOfBytes buf = Suc r"
  shows "Suc r \<le> length buf" and "take (Suc r) buf = replicate (Suc r) (hd buf)"
proof -
  obtain x xs where buf: "buf = x # xs" using assms(1) by (cases buf) auto
  have tw: "take (length (takeWhile P ys)) ys = takeWhile P ys" for P and ys :: "BYTE list" by (metis takeWhile_eq_take)
  have rep: "takeWhile (\<lambda>y. y = x) ys = replicate (length (takeWhile (\<lambda>y. y = x) ys)) x" for ys
    by (induction ys) auto
  have r: "r = 0 \<or> r = length (takeWhile (\<lambda>y. y = x) xs)"
    using assms(2) by (auto simp: MSA_FindRunOfBytes_def buf Let_def split: if_splits)
  then show "Suc r \<le> length buf" using length_takeWhile_le [of "\<lambda>y. y = x" xs] by (auto simp: buf)
  from r show "take (Suc r) buf = replicate (Suc r) (hd buf)" using tw rep by (auto simp: buf)
qed

lemma runs_pack:
  assumes "int (length tr) = tot - n" and "0 \<le> n" and "tot < 65536"
  shows "msa_runs tot n (msa_pack tr @ rest) = Some (tr, rest)"
  using assms
proof (induction tr arbitrary: n rule: msa_pack.induct)
  case (1 tr)
  show ?case
  proof (cases "tr = []")
    case True
    with "1.prems" show ?thesis by (simp add: msa_pack.simps msa_runs.simps)
  next
    case False
    then have n: "n < tot" using "1.prems"(1) by (cases tr) simp_all
    show ?thesis
    proof (cases "MSA_FindRunOfBytes tr")
      case 0
      have t: "tr = hd tr # tl tr" using False by simp
      have "msa_runs tot (n + 1) (msa_pack (tl tr) @ rest) = Some (tl tr, rest)"
        by (rule "1.IH"(1) [OF False refl 0]) (use "1.prems" False in \<open>cases tr; simp\<close>)+
      then show ?thesis using n find_run_0 [OF False 0] False 0
        by (subst msa_pack.simps, subst msa_runs.simps) (simp add: Let_def)
    next
      case (Suc r)
      note fr = find_run [OF False Suc]
      have "Suc r < 65536" using fr(1) "1.prems" by simp
      then have u: "uint (word_of_nat (Suc r) :: WORD) = int (Suc r)" by (simp add: unsigned_of_nat take_bit_nat_eq_self del: of_nat_Suc)
      have "msa_runs tot (n + int (Suc r)) (msa_pack (drop (Suc r) tr) @ rest) = Some (drop (Suc r) tr, rest)"
        using "1.IH"(2) [OF False refl, unfolded Suc] fr(1) "1.prems" by simp
      moreover have "msa_pack tr = 0xE5 # hd tr # be16_bytes (word_of_nat (Suc r)) @ msa_pack (drop (Suc r) tr)"
        using False Suc by (subst msa_pack.simps) (simp add: Let_def)
      moreover have "int (Suc r) + n \<le> tot" using fr(1) "1.prems" by simp
      moreover have "tr = replicate (Suc r) (hd tr) @ drop (Suc r) tr" using fr(2) by (metis append_take_drop_id)
      ultimately show ?thesis using n u
        by (subst msa_runs.simps) (simp add: be16_bytes_def be16_bytes_be16 Let_def del: of_nat_Suc replicate.simps)
    qed
  qed
qed

section \<open>The file that is written\<close>

lemma put_at: "p \<le> i \<Longrightarrow> i < p + length bs \<Longrightarrow> ws_put m p bs i = bs ! (i - p)"
  and put_before: "i < p \<Longrightarrow> ws_put m p bs i = m i"
  and put_after: "p + length bs \<le> i \<Longrightarrow> ws_put m p bs i = m i"
  by (simp_all add: ws_put_def)

lemma put_region: "map (ws_put m p bs) [p..<p + length bs] = bs"
  by (rule nth_equalityI) (simp_all add: ws_put_def)

lemma length_be16 [simp]: "length (be16_bytes w) = 2"
  by (simp add: be16_bytes_def)

lemma write_track_keeps:
  assumes "write_track tr (m, p) = (m', p')"
  shows "i < p + 2 \<Longrightarrow> m' i = m i" and "p + 2 \<le> p'"
  using assms by (auto simp: write_track_def Let_def ws_put_def split: if_splits)

lemma write_tracks_keep:
  "fold write_track trs (m, p) = (m', p') \<Longrightarrow> p \<le> p' \<and> (\<forall>i < p + 2. m' i = m i)"
proof (induction trs arbitrary: m p)
  case (Cons tr trs)
  obtain m1 p1 where w: "write_track tr (m, p) = (m1, p1)" by (cases "write_track tr (m, p)") auto
  with Cons.prems Cons.IH [of m1 p1] write_track_keeps [OF w] show ?case by auto
qed simp

lemma write_packed:
  assumes "length (msa_pack tr) < length tr" and "length tr < 65536"
    and "write_track tr (m, p) = (m', p')"
  shows "p' = p + 2 + length (msa_pack tr)" and "map m' [p + 2..<p'] = msa_pack tr"
    and "uint (be16 (m' p') (m' (p' + 1))) = int (length (msa_pack tr))"
proof -
  let ?out = "msa_pack tr" and ?q = "p + 2 + length (msa_pack tr)"
  have m': "p' = ?q" "m' = ws_put (ws_put m (p + 2) ?out) ?q (be16_bytes (of_nat (length ?out)))"
    using assms by (auto simp: write_track_def Let_def)
  show "p' = ?q" by (rule m'(1))
  have "map m' [p + 2..<p'] = map (ws_put m (p + 2) ?out) [p + 2..<p']" 
    unfolding m' by (rule map_cong [OF refl]) (rule put_before, auto)
  then show "map m' [p + 2..<p'] = ?out" unfolding m'(1) by (simp only: put_region)
  have "uint (word_of_nat (length ?out) :: WORD) = int (length ?out)"
    using assms(1,2) by (simp add: unsigned_of_nat take_bit_nat_eq_self)
  then show "uint (be16 (m' p') (m' (p' + 1))) = int (length ?out)"
    unfolding m' by (simp add: put_at be16_bytes_def be16_bytes_be16)
qed

lemma file_tracks:
  assumes "\<forall>tr\<in>set trs. length tr = nat tot \<and> length (msa_pack tr) < length tr" and "0 \<le> tot" and "tot < 65536"
    and "fold write_track trs (m, p) = (m', p')" and "uint (be16 (m p) (m (p + 1))) \<noteq> tot"
  shows "msa_tracks (length trs) tot (map m' [p..<p'] @ rest) = Some (concat trs)"
  using assms
proof (induction trs arbitrary: m p)
  case (Cons tr trs)
  obtain m1 p1 where w: "write_track tr (m, p) = (m1, p1)" by (cases "write_track tr (m, p)") auto
  from Cons.prems have tr: "length tr = nat tot" "length (msa_pack tr) < length tr" and t: "length tr < 65536" by auto
  note wp = write_packed [OF tr(2) t w]
  have f: "fold write_track trs (m1, p1) = (m', p')" using Cons.prems(4) w by simp
  note k = write_tracks_keep [OF f] and k1 = write_track_keeps [OF w]
  have "uint (be16 (m1 p1) (m1 (p1 + 1))) \<noteq> tot" using wp(3) tr Cons.prems(2) by simp
  then have ih: "msa_tracks (length trs) tot (map m' [p1..<p'] @ rest) = Some (concat trs)"
    using Cons.prems(1) by (intro Cons.IH [OF _ Cons.prems(2,3) f]) auto
  have "[p..<p'] = [p, p + 1] @ [p + 2..<p1] @ [p1..<p']"
    using k k1(2) upt_add_eq_append [of "p + 2" p1 "p' - p1"] by (simp add: upt_conv_Cons)
  moreover have "map m' [p + 2..<p1] = msa_pack tr"
    using k wp(2) by (metis (no_types, lifting) atLeastLessThan_iff list.map_cong0 set_upt trans_less_add1)
  ultimately have fl: "map m' [p..<p'] @ rest = m p # m (p + 1) # msa_pack tr @ map m' [p1..<p'] @ rest"
    using k k1 by simp
  have "msa_runs tot 0 (msa_pack tr @ map m' [p1..<p'] @ rest) = Some (tr, map m' [p1..<p'] @ rest)"
    by (rule runs_pack) (use tr Cons.prems(2,3) in simp_all)
  with ih Cons.prems(5) show ?case unfolding fl by (simp add: msa_track_def)
qed simp

section \<open>Round trip of an image\<close>

definition img_track :: "BYTE list \<Rightarrow> nat \<Rightarrow> nat \<Rightarrow> BYTE list" where
  "img_track img n k = take n (drop (k * n) img)"

lemma concat_tracks: "length img = k * n \<Longrightarrow> concat (map (img_track img n) [0..<k]) = img"
proof (induction k arbitrary: img)
  case (Suc k)
  have "map (img_track img n) [0..<Suc k] = take n img # map (img_track (drop n img) n) [0..<k]"
    by (subst upt_conv_Cons, simp, subst map_Suc_upt [symmetric]) (simp add: img_track_def ac_simps)
  moreover have "concat (map (img_track (drop n img) n) [0..<k]) = drop n img" using Suc.prems by (intro Suc.IH) simp
  ultimately show ?case by simp
qed simp

lemma track_full: "length img = K * n \<Longrightarrow> k < K \<Longrightarrow> length (img_track img n k) = n"
proof -
  assume "length img = K * n" "k < K"
  then have "(k + 1) * n \<le> length img" using mult_le_mono1 [of "k + 1" K n] by simp
  then show ?thesis by (simp add: img_track_def)
qed

lemma word16_nat: "k < 65536 \<Longrightarrow> unat (of_nat k :: WORD) = k"
  by (simp add: unsigned_of_nat take_bit_nat_eq_self)

lemma sint16: "unat (w :: WORD) < 32768 \<Longrightarrow> sint w = int (unat w)"
proof -
  assume "unat w < 32768"
  then have "uint w < 32768" unfolding uint_nat by linarith
  then have "signed_take_bit (LENGTH(16) - Suc 0) (uint w) = uint w"
    by (intro signed_take_bit_int_eq_self) (simp_all add: order_trans [OF _ uint_nonnegative])
  then show ?thesis unfolding sint_uint uint_nat .
qed

text \<open>The parts of a file for an image of whole tracks.\<close>

lemma write_disk_parts:
  assumes "FindDiskDetails img = (nSides, spt)" and "0 < unat spt" "unat spt \<le> 63" and "0 < unat nSides" "unat nSides \<le> 2"
    and "length img = T * unat nSides * (512 * unat spt)" and "0 < T" "T \<le> 100"
  defines "n \<equiv> 512 * unat spt" and "K \<equiv> T * unat nSides"
  obtains m p where "fold write_track (map (img_track img n) [0..<K]) (ws_put malloced 0
      (be16_bytes 0x0E0F @ be16_bytes spt @ be16_bytes (nSides - 1) @ be16_bytes 0 @ be16_bytes (of_nat T - 1)), 10) = (m, p)"
    and "MSA_WriteDisk malloced img = Some (map m [0..<p])" and "10 \<le> p"
    and "\<And>rest. MSA_UnCompress (map m [0..<10] @ rest) =
      (case msa_tracks K (int n) rest of None \<Rightarrow> MsaOverread | Some out \<Rightarrow> if length out > K * n then MsaOverrun else MsaImage out)"
proof -
  let ?h = "be16_bytes 0x0E0F @ be16_bytes spt @ be16_bytes (nSides - 1) @ be16_bytes 0 @ be16_bytes (of_nat T - 1)"
  have nz: "spt \<noteq> 0" "nSides \<noteq> 0" using assms(2,4) by auto
  have n: "unat (512 * spt) = n" using assms(3) by (simp add: unat_word_ariths n_def)
  have len: "length img div 512 = T * unat nSides * unat spt" using assms(6) by simp
  have T: "length img div 512 div unat spt div unat nSides = T" using assms(2,4) by (simp add: len)
  obtain m p where f: "fold write_track (map (img_track img n) [0..<K]) (ws_put malloced 0 ?h, 10) = (m, p)"
    by (cases "fold write_track (map (img_track img n) [0..<K]) (ws_put malloced 0 ?h, 10)") auto
  have w: "MSA_WriteDisk malloced img = Some (map m [0..<p])"
    using f nz unfolding MSA_WriteDisk_def assms(1) Let_def prod.case T n K_def img_track_def by simp
  note k = write_tracks_keep [OF f]
  have "map m [0..<10] = map (ws_put malloced 0 ?h) [0..<0 + length ?h]" using k by (intro map_cong) simp_all
  then have h: "map m [0..<10] = ?h" by (simp only: put_region)
  have s: "unat (nSides - 1) = unat nSides - 1" using nz(2) by (rule unat_pred)
  have t: "unat (of_nat T - 1 :: WORD) = T - 1"
  proof -
    have "unat (of_nat T :: WORD) = T" using assms(8) by (intro word16_nat) simp
    then have "of_nat T \<noteq> (0 :: WORD)" using assms(7) by (metis less_irrefl unsigned_0)
    then show ?thesis using unat_pred [of "of_nat T :: WORD"] word16_nat [of T] assms(8) by simp
  qed
  have "MSA_UnCompress (map m [0..<10] @ rest) =
      (case msa_tracks K (int n) rest of None \<Rightarrow> MsaOverread | Some out \<Rightarrow> if length out > K * n then MsaOverrun else MsaImage out)" for rest
  proof -
    have si: "sint spt = int (unat spt)" "sint (nSides - 1) = int (unat nSides) - 1" "sint (of_nat T - 1 :: WORD) = int T - 1" "sint (0 :: WORD) = 0"
      using sint16 [of spt] sint16 [of "nSides - 1"] sint16 [of "of_nat T - 1"] s t assms by simp_all
    have b: "T * unat spt * unat nSides * 512 < 2147483648"
    proof -
      have "T * unat spt \<le> 100 * 63" using assms(8,3) by (rule mult_le_mono)
      then have "T * unat spt * unat nSides \<le> 100 * 63 * 2" using assms(5) by (rule mult_le_mono)
      then have "T * unat spt * unat nSides * 512 \<le> 100 * 63 * 2 * 512" by (rule mult_le_mono1)
      then show ?thesis by (rule le_less_trans) simp
    qed
    have sz: "sint (word_of_int (int (T * unat spt * unat nSides * 512)) :: DWORD) = int (T * unat spt * unat nSides * 512)"
    proof -
      have "signed_take_bit 31 (int (T * unat spt * unat nSides * 512)) = int (T * unat spt * unat nSides * 512)"
      proof (rule signed_take_bit_int_eq_self)
        show "- (2 ^ 31) \<le> int (T * unat spt * unat nSides * 512)" by (rule order_trans [OF _ of_nat_0_le_iff]) simp
        from b have "int (T * unat spt * unat nSides * 512) < int 2147483648" by (simp only: of_nat_less_iff)
        then show "int (T * unat spt * unat nSides * 512) < 2 ^ 31" by (simp only: of_nat_numeral) simp
      qed
      then show ?thesis by (simp only: signed_of_int) simp
    qed
    have e: "(int T - 1 - 0 + 1) * int (unat spt) * (int (unat nSides) - 1 + 1) * 512 = int (T * unat spt * unat nSides * 512)" by simp
    have kn: "nat (int T - 1 - 0 + 1) * nat (int (unat nSides) - 1 + 1) = K" "512 * int (unat spt) = int n"
      "T * unat spt * unat nSides * 512 = K * n" by (simp_all add: K_def n_def)
    show ?thesis unfolding h
      unfolding be16_bytes_def MSA_UnCompress_def append.simps list.case be16_bytes_be16 Let_def si e [unfolded kn(3)] sz [unfolded kn(3)] kn(1,2)
      by (simp del: of_nat_mult split: option.split)
  qed
  then show ?thesis using that f w k by blast
qed

text \<open>
  C24: an image that is saved as an MSA file is read back from it, when every track takes less room packed
  than as it is and the two bytes before the first track do not happen to hold the size of a track.
\<close>

theorem msa_round_trip:
  assumes "FindDiskDetails img = (nSides, spt)" and "0 < unat spt" "unat spt \<le> 63" and "0 < unat nSides" "unat nSides \<le> 2"
    and "length img = T * unat nSides * (512 * unat spt)" and "0 < T" "T \<le> 100"
    and "\<forall>k < T * unat nSides. length (msa_pack (img_track img (512 * unat spt) k)) < 512 * unat spt"
    and "be16 (malloced 10) (malloced 11) \<noteq> 512 * spt"
  shows "\<exists>saved. MSA_WriteDisk malloced img = Some saved \<and> MSA_UnCompress saved = MsaImage img"
proof -
  let ?n = "512 * unat spt" and ?K = "T * unat nSides"
  obtain m p where w: "fold write_track (map (img_track img ?n) [0..<?K]) (ws_put malloced 0
      (be16_bytes 0x0E0F @ be16_bytes spt @ be16_bytes (nSides - 1) @ be16_bytes 0 @ be16_bytes (of_nat T - 1)), 10) = (m, p)"
    and f: "MSA_WriteDisk malloced img = Some (map m [0..<p])" and p: "10 \<le> p"
    and u: "\<And>rest. MSA_UnCompress (map m [0..<10] @ rest) =
      (case msa_tracks ?K (int ?n) rest of None \<Rightarrow> MsaOverread | Some out \<Rightarrow> if length out > ?K * ?n then MsaOverrun else MsaImage out)"
    using write_disk_parts [OF assms(1-8), where malloced = malloced] by blast
  have n: "unat (512 * spt) = ?n" using assms(3) by (simp add: unat_word_ariths)
  have "uint (be16 (malloced 10) (malloced 11)) \<noteq> int ?n"
  proof
    assume "uint (be16 (malloced 10) (malloced 11)) = int ?n"
    then have "unat (be16 (malloced 10) (malloced 11)) = unat (512 * spt)" unfolding n uint_nat by (simp only: of_nat_eq_iff)
    with assms(10) show False by (simp only: word_unat_eq_iff)
  qed
  then have g: "uint (be16 (ws_put malloced 0 (be16_bytes 0x0E0F @ be16_bytes spt @ be16_bytes (nSides - 1) @ be16_bytes 0 @ be16_bytes (of_nat T - 1)) 10)
      (ws_put malloced 0 (be16_bytes 0x0E0F @ be16_bytes spt @ be16_bytes (nSides - 1) @ be16_bytes 0 @ be16_bytes (of_nat T - 1)) (10 + 1))) \<noteq> int ?n"
    by (simp add: put_after)
  have t: "\<forall>tr\<in>set (map (img_track img ?n) [0..<?K]). length tr = nat (int ?n) \<and> length (msa_pack tr) < length tr"
    using assms(9) track_full [OF assms(6)] by (auto simp del: of_nat_mult)
  have "msa_tracks ?K (int ?n) (map m [10..<p] @ []) = Some (concat (map (img_track img ?n) [0..<?K]))"
  proof -
    have "?n < 65536" using assms(3) by simp
    then have "int ?n < 65536" by linarith
    from file_tracks [OF t of_nat_0_le_iff this w g, of "[]"] show ?thesis by (simp only: length_map length_upt diff_zero)
  qed
  then have "MSA_UnCompress (map m [0..<10] @ map m [10..<p]) = MsaImage img"
    unfolding u using concat_tracks [OF assms(6)] assms(6) by simp
  moreover have "map m [0..<10] @ map m [10..<p] = map m [0..<p]"
    using upt_add_eq_append [of 0 10 "p - 10"] p by simp
  ultimately show ?thesis using f by metis
qed

lemma track_marker:
  assumes "msa_track tot (a # b # 0xE5 # d # h # l # bs) = Some (out, rest)" and "uint (be16 a b) \<noteq> tot" and "0 < tot" and "be16 h l \<noteq> 0"
  shows "\<exists>ys. out = d # ys"
proof -
  define run where "run = (if uint (be16 h l) > tot then tot else uint (be16 h l))"
  have "uint (be16 h l) \<noteq> 0" using assms(4) by (simp add: uint_0_iff)
  then have "0 < uint (be16 h l)" using uint_nonnegative [of "be16 h l"] by linarith
  with assms(3) have "0 < run" by (simp add: run_def)
  then obtain q where q: "nat run = Suc q" by (cases "nat run") auto
  from assms(1-3) obtain o' where "out = replicate (nat run) d @ o'"
    by (auto simp: msa_track_def msa_runs.simps [of tot 0] Let_def run_def split: if_splits)
  with q show ?thesis by simp
qed

text \<open>
  C39: the length of a packed track is stored behind the track, not before it. A first track that does not
  shrink and starts with a marker is then taken for a packed one when the file is read: the image is not
  read back, whatever its other tracks are.
\<close>

theorem msa_length_misplaced:
  assumes "FindDiskDetails img = (nSides, spt)" and "0 < unat spt" "unat spt \<le> 63" and "0 < unat nSides" "unat nSides \<le> 2"
    and "length img = T * unat nSides * (512 * unat spt)" and "0 < T" "T \<le> 100"
    and "length (msa_pack (take (512 * unat spt) img)) mod 65536 \<ge> 512 * unat spt"
    and "take 4 img = [0xE5, d, h, l]" and "d \<noteq> 0xE5" and "be16 h l \<noteq> 0"
    and "be16 (malloced 10) (malloced 11) \<noteq> 512 * spt"
  shows "\<exists>saved. MSA_WriteDisk malloced img = Some saved \<and> MSA_UnCompress saved \<noteq> MsaImage img"
proof -
  let ?n = "512 * unat spt" and ?K = "T * unat nSides"
  let ?h = "be16_bytes 0x0E0F @ be16_bytes spt @ be16_bytes (nSides - 1) @ be16_bytes 0 @ be16_bytes (of_nat T - 1)"
  obtain m p where w: "fold write_track (map (img_track img ?n) [0..<?K]) (ws_put malloced 0 ?h, 10) = (m, p)"
    and f: "MSA_WriteDisk malloced img = Some (map m [0..<p])" and p: "10 \<le> p"
    and u: "\<And>rest. MSA_UnCompress (map m [0..<10] @ rest) =
      (case msa_tracks ?K (int ?n) rest of None \<Rightarrow> MsaOverread | Some out \<Rightarrow> if length out > ?K * ?n then MsaOverrun else MsaImage out)"
    using write_disk_parts [OF assms(1-8), where malloced = malloced] by blast
  have n: "unat (512 * spt) = ?n" using assms(3) by (simp add: unat_word_ariths)
  have word: "uint (be16 (malloced 10) (malloced 11)) \<noteq> int ?n"
  proof
    assume "uint (be16 (malloced 10) (malloced 11)) = int ?n"
    then have "unat (be16 (malloced 10) (malloced 11)) = unat (512 * spt)" unfolding n uint_nat by (simp only: of_nat_eq_iff)
    with assms(13) show False by (simp only: word_unat_eq_iff)
  qed
  have "0 < ?K" using assms(4,7) by simp
  then have K1: "[0..<?K] = 0 # [1..<?K]" by (simp add: upt_conv_Cons)
  obtain K' where K2: "?K = Suc K'" using \<open>0 < ?K\<close> by (cases ?K) auto
  have t0: "img_track img ?n 0 = take ?n img" by (simp add: img_track_def)
  have len: "length (take ?n img) = ?n" using track_full [OF assms(6), of 0] \<open>0 < ?K\<close> by (simp add: img_track_def)
  define m1 where "m1 = ws_put (ws_put (ws_put malloced 0 ?h) 12 (msa_pack (take ?n img)))
    (12 + length (msa_pack (take ?n img))) (be16_bytes (of_nat ?n))"
  have nl: "\<not> length (msa_pack (take ?n img)) mod 65536 < ?n" using assms(9) by simp
  have w1: "write_track (take ?n img) (ws_put malloced 0 ?h, 10) = (ws_put m1 12 (take ?n img), 12 + ?n)"
    unfolding write_track_def Let_def prod.case len m1_def using nl by (simp only: if_False) simp
  have m1: "m1 10 = malloced 10" "m1 11 = malloced 11" by (simp_all add: m1_def put_before put_after)
  have w2: "fold write_track (map (img_track img ?n) [1..<?K]) (ws_put m1 12 (take ?n img), 12 + ?n) = (m, p)"
    using w unfolding K1 list.map fold_simps t0 w1 .
  note k = write_tracks_keep [OF w2]
  have tk: "m (12 + i) = img ! i" if "i < ?n" for i using k that len by (simp add: put_at)
  have i4: "img ! 0 = 0xE5" "img ! 1 = d" "img ! 2 = h" "img ! 3 = l" and l4: "4 \<le> length img"
  proof -
    have "length (take 4 img) = 4" using assms(10) by simp
    then show "4 \<le> length img" by simp
    have "take 4 img ! i = img ! i" if "i < 4" for i using that by simp
    from this [of 0] this [of 1] this [of 2] this [of 3]
    show "img ! 0 = 0xE5" "img ! 1 = d" "img ! 2 = h" "img ! 3 = l" unfolding assms(10) by simp_all
  qed
  have "m 10 = malloced 10" "m 11 = malloced 11" using k m1 by (simp_all add: put_before)
  moreover have "[10..<p] = [10, 11, 12, 13, 14, 15] @ [16..<p]" using k assms(2) by (simp add: upt_conv_Cons)
  ultimately have bs: "map m [10..<p] = malloced 10 # malloced 11 # 0xE5 # d # h # l # map m [16..<p]"
    using tk [of 0] tk [of 1] tk [of 2] tk [of 3] i4 assms(2) by simp
  have "msa_tracks ?K (int ?n) (map m [10..<p]) \<noteq> Some img"
  proof
    assume "msa_tracks ?K (int ?n) (map m [10..<p]) = Some img"
    then obtain out rest outs where o: "msa_track (int ?n) (map m [10..<p]) = Some (out, rest)" "img = out @ outs"
      unfolding K2 by (auto split: option.splits)
    from o(1) [unfolded bs] word _ assms(12) have "\<exists>ys. out = d # ys" by (rule track_marker) (use assms(2) in linarith)
    then have "img ! 0 = d" using o(2) by auto
    with i4(1) assms(11) show False by simp
  qed
  then have "MSA_UnCompress (map m [0..<10] @ map m [10..<p]) \<noteq> MsaImage img"
    unfolding u by (auto split: option.splits)
  moreover have "map m [0..<10] @ map m [10..<p] = map m [0..<p]"
    using upt_add_eq_append [of 0 10 "p - 10"] p by simp
  ultimately show ?thesis using f by metis
qed

end
