(* ===== verification/HostCrc.thy ===== *)
theory HostCrc
  imports HostFloppy
begin

text \<open>
  The check sum of the fields of a sector: the code's loop as a shift register that takes one bit after
  the other, and what that register holds, stated with polynomials over two elements and without the
  code: the CRC of the floppy controller, \<open>x^16 + x^12 + x^5 + 1\<close> with all ones at the start.
\<close>

section \<open>A shift register\<close>

text \<open>One bit of data, highest first, into the register.\<close>

definition crc_bit :: "bool \<Rightarrow> WORD \<Rightarrow> WORD" where
  "crc_bit b crc = (if bit crc 15 \<noteq> b then push_bit 1 crc XOR 0x1021 else push_bit 1 crc)"

lemma and_80: "(x :: WORD) AND 0x0080 \<noteq> 0 \<longleftrightarrow> bit x 7"
proof -
  have "(0x0080 :: WORD) = push_bit 7 1" by simp
  then have m: "bit (0x0080 :: WORD) i \<longleftrightarrow> i = 7" for i by (simp only: bit_push_bit_iff bit_1_iff) auto
  show ?thesis
  proof
    assume "x AND 0x0080 \<noteq> 0"
    then obtain i where "bit (x AND 0x0080) i" by (metis bit_eqI bit_0_eq bot_apply bot_bool_def)
    then show "bit x 7" using m [of i] by (simp only: bit_and_iff) auto
  next
    assume "bit x 7"
    then have "bit (x AND 0x0080) 7" using m [of 7] by (simp only: bit_and_iff)
    then show "x AND 0x0080 \<noteq> 0" by (metis bit_0_eq bot_apply bot_bool_def)
  qed
qed

lemma crc_step:
  assumes "n < 8"
  shows "push_bit 1 crc XOR (if (drop_bit 8 crc XOR push_bit (7 - n) (ucast (data :: BYTE))) AND 0x0080 \<noteq> 0 then 0x1021 else 0) =
    crc_bit (bit data n) crc"
proof -
  have "bit (drop_bit 8 crc XOR push_bit (7 - n) (ucast data)) 7 \<longleftrightarrow> bit crc 15 \<noteq> bit data n"
    using assms by (simp add: bit_xor_iff bit_drop_bit_eq bit_push_bit_iff bit_ucast_iff)
  then show ?thesis unfolding and_80 by (simp add: crc_bit_def)
qed

lemma crc_bits: "n \<le> 8 \<Longrightarrow> fdc_crc_bits n data crc = fold crc_bit (map (bit data) (rev [0..<n])) crc"
proof (induction n arbitrary: crc)
  case (Suc n)
  then have "fdc_crc_bits (Suc n) data crc = fdc_crc_bits n data (crc_bit (bit data n) crc)"
    using crc_step [of n crc data] by (simp only: fdc_crc_bits.simps)
  with Suc show ?case by simp
qed simp

lemma crc_byte_bits: "fdc_add_to_crc crc data = fold crc_bit (bits8 data) crc"
proof -
  have "map (bit data) (rev [0..<8]) = bits8 data"
    by (rule nth_equalityI) (simp_all add: bits8_def rev_nth)
  then show ?thesis using crc_bits [of 8 data crc] by (simp add: fdc_add_to_crc_def)
qed

section \<open>Polynomials\<close>

text \<open>
  A polynomial over two elements is the number that has its coefficients as binary digits. Sums and
  differences are \<open>XOR\<close>; the product adds shifted copies of the second factor.
\<close>

fun gf2_times :: "nat \<Rightarrow> nat \<Rightarrow> nat" where
  "gf2_times a b = (if a = 0 then 0 else (if odd a then b else 0) XOR push_bit 1 (gf2_times (a div 2) b))"

declare gf2_times.simps [simp del]

definition crc_polynomial :: nat where
  "crc_polynomial = 2 ^ 16 + 2 ^ 12 + 2 ^ 5 + 1"

text \<open>Bytes as a polynomial, the first byte with the highest powers.\<close>

definition be_value :: "BYTE list \<Rightarrow> nat" where
  "be_value bs = foldl (\<lambda>v b. v * 256 + unat b) 0 bs"

lemma times_0 [simp]: "gf2_times 0 b = 0"
  by (simp add: gf2_times.simps)

lemma times_step: "gf2_times a b = (if odd a then b else 0) XOR push_bit 1 (gf2_times (a div 2) b)"
  by (subst gf2_times.simps) simp

lemma times_double: "gf2_times (2 * a + of_bool c) b = (if c then b else 0) XOR push_bit 1 (gf2_times a b)"
  by (subst times_step) simp

lemma times_xor: "gf2_times (a XOR a') b = gf2_times a b XOR gf2_times a' b"
proof (induction a arbitrary: a' rule: less_induct)
  case (less a)
  show ?case
  proof (cases "a = 0")
    case False
    have "drop_bit 1 (a XOR a') = drop_bit 1 a XOR drop_bit 1 a'" by (rule drop_bit_xor)
    then have d: "(a XOR a') div 2 = (a div 2) XOR (a' div 2)" by (simp only: One_nat_def drop_bit_Suc drop_bit_0 id_apply)
    have "a div 2 < a" using False by simp
    from less.IH [OF this, of "a' div 2"]
    have "gf2_times ((a XOR a') div 2) b = gf2_times (a div 2) b XOR gf2_times (a' div 2) b" unfolding d .
    moreover have "(if odd (a XOR a') then b else 0) = (if odd a then b else 0) XOR (if odd a' then b else 0)"
      by (simp add: even_xor_iff)
    ultimately have "gf2_times (a XOR a') b =
        ((if odd a then b else 0) XOR (if odd a' then b else 0)) XOR push_bit 1 (gf2_times (a div 2) b XOR gf2_times (a' div 2) b)"
      by (subst times_step) (simp only:)
    then show ?thesis by (simp only: push_bit_xor xor.left_commute xor.assoc xor.commute times_step [of a b] times_step [of a' b])
  qed simp
qed

lemma times_degree: "q \<noteq> 0 \<Longrightarrow> 2 ^ 16 \<le> gf2_times q crc_polynomial"
proof (induction q rule: less_induct)
  case (less q)
  show ?case
  proof (cases "q div 2 = 0")
    case True
    with less.prems have "q = 1" by simp
    then show ?thesis by (simp add: crc_polynomial_def gf2_times.simps [of "Suc 0"])
  next
    case False
    then have "2 ^ 16 \<le> gf2_times (q div 2) crc_polynomial" using less.IH [of "q div 2"] less.prems by simp
    then have "0 < drop_bit 17 (push_bit 1 (gf2_times (q div 2) crc_polynomial))"
      by (simp add: drop_bit_eq_div push_bit_eq_mult)
    moreover have "drop_bit 17 (if odd q then crc_polynomial else 0) = 0" by (simp add: crc_polynomial_def drop_bit_eq_div)
    ultimately have "0 < drop_bit 17 (gf2_times q crc_polynomial)" by (subst times_step) (simp only: drop_bit_xor xor_self_eq xor.left_neutral)
    then show ?thesis by (simp add: drop_bit_eq_div)
  qed
qed

section \<open>The register holds a remainder\<close>

definition bits_value :: "bool list \<Rightarrow> nat \<Rightarrow> nat" where
  "bits_value = fold (\<lambda>b v. 2 * v + of_bool b)"

lemma byte_value: "bits_value (bits8 b) v = v * 256 + unat b"
proof -
  let ?bits = "[bit b 0, bit b 1, bit b 2, bit b 3, bit b 4, bit b 5, bit b 6, bit b 7]"
  have "map (bit (unat b)) [0..<8] = ?bits" by (simp add: bit_unsigned_iff upt_rec numeral_eq_Suc)
  moreover have "unat b = horner_sum of_bool 2 (map (bit (unat b)) [0..<8])"
    by (simp only: horner_sum_bit_eq_take_bit) (simp add: take_bit_nat_eq_self)
  ultimately have u: "unat b = horner_sum of_bool 2 ?bits" by simp
  have "bits8 b = rev ?bits" by (simp add: bits8_def upt_rec numeral_eq_Suc)
  then show ?thesis unfolding u bits_value_def by simp
qed

text \<open>One more digit of the message: the register follows the remainder.\<close>

lemma register_double: "push_bit 1 (unat crc) = (if bit crc 15 then push_bit 16 1 else 0) XOR unat (push_bit 1 (crc :: WORD))"
proof (rule bit_eqI)
  fix n
  have "bit (push_bit 1 (unat crc)) n \<longleftrightarrow> 1 \<le> n \<and> bit crc (n - 1)" by (simp only: bit_push_bit_iff_nat bit_unsigned_iff) simp
  moreover have "bit (unat (push_bit 1 crc)) n \<longleftrightarrow> n < 16 \<and> 1 \<le> n \<and> bit crc (n - 1)"
    by (simp only: bit_unsigned_iff bit_push_bit_iff) auto
  moreover have "bit ((if bit crc 15 then push_bit 16 1 else 0) :: nat) n \<longleftrightarrow> bit crc 15 \<and> n = 16"
    by (simp only: bit_push_bit_iff_nat bit_1_iff bit_0_eq if_distrib [where f = bit] if_distribR) auto
  moreover have "bit crc (n - 1) \<Longrightarrow> n - 1 < 16" using bit_imp_le_length [of crc "n - 1"] by simp
  then have "(1 \<le> n \<and> bit crc (n - 1)) = ((bit crc 15 \<and> n = 16) \<noteq> (n < 16 \<and> 1 \<le> n \<and> bit crc (n - 1)))"
    by (cases "n = 16") auto
  ultimately show "bit (push_bit 1 (unat crc)) n \<longleftrightarrow> bit ((if bit crc 15 then push_bit 16 1 else 0) XOR unat (push_bit 1 crc)) n"
    by (simp only: bit_xor_iff)
qed

lemma double_digit: "push_bit 16 (2 * m + of_bool b) = push_bit 1 (push_bit 16 m) XOR (if b then push_bit 16 1 else (0 :: nat))"
proof -
  have "2 * m + of_bool b = push_bit 1 m XOR of_bool b" by (cases b) (simp_all add: xor_Suc_0_eq push_bit_eq_mult)
  then show ?thesis by (cases b) (simp_all only: push_bit_xor push_bit_push_bit of_bool_eq add.commute [of 1] if_True if_False push_bit_of_0)
qed

lemma xor_left [simp]: "(a :: nat) XOR (a XOR b) = b"
  by (simp flip: xor.assoc)

lemma crc_bit_remainder:
  assumes "push_bit 16 m XOR p = gf2_times q crc_polynomial XOR unat crc"
  shows "\<exists>q'. push_bit 16 (2 * m + of_bool b) XOR push_bit 1 p = gf2_times q' crc_polynomial XOR unat (crc_bit b crc)"
proof -
  let ?c = "bit crc 15 \<noteq> b" and ?s = "push_bit 1 crc"
  define S where "S = unat ?s"
  define G where "G = push_bit 1 (gf2_times q crc_polynomial)"
  define P :: nat where "P = push_bit 16 1"
  have "push_bit 1 (push_bit 16 m XOR p) = G XOR ((if bit crc 15 then P else 0) XOR S)"
    unfolding assms by (simp only: push_bit_xor register_double G_def P_def S_def)
  moreover have "push_bit 16 (2 * m + of_bool b) XOR push_bit 1 p = push_bit 1 (push_bit 16 m XOR p) XOR (if b then P else 0)"
    by (simp only: double_digit push_bit_xor P_def xor.assoc xor.commute xor.left_commute)
  ultimately have l: "push_bit 16 (2 * m + of_bool b) XOR push_bit 1 p =
      (G XOR ((if bit crc 15 then P else 0) XOR S)) XOR (if b then P else 0)" by simp
  define Q :: nat where "Q = 0x1021"
  have poly: "crc_polynomial = P XOR Q" by (simp add: crc_polynomial_def P_def Q_def)
  have n: "unat (crc_bit b crc) = S XOR (if ?c then Q else 0)"
    by (simp add: crc_bit_def unsigned_xor_eq S_def Q_def)
  have t: "gf2_times (2 * q + of_bool ?c) crc_polynomial = (if ?c then P XOR Q else 0) XOR G"
    by (simp only: times_double G_def) (simp only: poly)
  have "push_bit 16 (2 * m + of_bool b) XOR push_bit 1 p = gf2_times (2 * q + of_bool ?c) crc_polynomial XOR unat (crc_bit b crc)"
    unfolding l n t by (cases b; cases "bit crc 15") (simp_all add: xor.commute xor.assoc xor.left_commute)
  then show ?thesis by blast
qed

lemma crc_bits_remainder:
  "push_bit 16 m XOR p = gf2_times q crc_polynomial XOR unat crc \<Longrightarrow>
   \<exists>q'. push_bit 16 (bits_value bits m) XOR push_bit (length bits) p = gf2_times q' crc_polynomial XOR unat (fold crc_bit bits crc)"
proof (induction bits arbitrary: m p q crc)
  case (Cons b bits)
  from crc_bit_remainder [OF Cons.prems, of b] obtain q' where
    "push_bit 16 (2 * m + of_bool b) XOR push_bit 1 p = gf2_times q' crc_polynomial XOR unat (crc_bit b crc)" by blast
  from Cons.IH [OF this] show ?case by (simp add: bits_value_def push_bit_push_bit)
qed (auto simp: bits_value_def)

lemma crc_bytes_remainder:
  "push_bit 16 m XOR p = gf2_times q crc_polynomial XOR unat crc \<Longrightarrow>
   \<exists>q'. push_bit 16 (foldl (\<lambda>v b. v * 256 + unat b) m bs) XOR push_bit (8 * length bs) p =
     gf2_times q' crc_polynomial XOR unat (foldl fdc_add_to_crc crc bs)"
proof (induction bs arbitrary: m p q crc)
  case (Cons b bs)
  from crc_bits_remainder [OF Cons.prems, of "bits8 b"] obtain q' where
    "push_bit 16 (m * 256 + unat b) XOR push_bit 8 p = gf2_times q' crc_polynomial XOR unat (fdc_add_to_crc crc b)"
    unfolding byte_value crc_byte_bits by (auto simp: bits8_def)
  from Cons.IH [OF this] show ?case by (simp add: push_bit_push_bit add.commute)
qed auto

text \<open>The check sum of a field is the remainder of the marks and bytes, with the preset of ones, shifted by 16.\<close>

lemma field_remainder:
  "\<exists>q. push_bit 16 (be_value ([0xa1, 0xa1, 0xa1] @ bs)) XOR push_bit (8 * (3 + length bs)) 0xffff =
     gf2_times q crc_polynomial XOR unat (field_crc bs)"
proof -
  have "push_bit 16 0 XOR 0xffff = gf2_times 0 crc_polynomial XOR unat (0xffff :: WORD)" by simp
  from crc_bytes_remainder [OF this, of "[0xa1, 0xa1, 0xa1] @ bs"] show ?thesis
    by (simp add: be_value_def field_crc_def)
qed

lemma high_byte: "HIBYTE w = ucast (drop_bit 8 w)"
proof -
  have "(0xFF :: WORD) = mask 8" by (simp add: mask_eq_exp_minus_1)
  then show ?thesis by (intro bit_word_eqI) (simp only: bit_ucast_iff bit_and_iff bit_mask_iff, simp)
qed

lemma be16_parts: "ucast (drop_bit 8 (be16 hi lo)) = hi" "ucast (be16 hi lo) = lo"
  by (rule bit_word_eqI, auto simp: be16_def bit_simps dest: bit_imp_le_length)+

lemma be16_less: "unat hi * 256 + unat (lo :: BYTE) < (65536 :: nat)" for hi :: BYTE
proof -
  have "unat hi < 256" "unat lo < 256" using unsigned_less [of hi] unsigned_less [of lo] by simp_all
  then show ?thesis by linarith
qed

lemma unat_be16: "unat (be16 hi lo) = unat hi * 256 + unat lo"
proof -
  have "push_bit 8 (ucast hi) AND ucast lo = (0 :: WORD)"
    by (rule bit_word_eqI) (auto simp: bit_simps dest: bit_imp_le_length)
  then have "be16 hi lo = push_bit 8 (ucast hi) + ucast lo" by (simp add: be16_def disjunctive_add_eq_or)
  then have "unat (be16 hi lo) = (unat hi * 256 + unat lo) mod 65536"
    by (simp add: push_bit_eq_mult unat_word_ariths unsigned_ucast_eq take_bit_nat_eq_self)
  then show ?thesis using be16_less [of hi lo] by (simp only: mod_less)
qed

text \<open>
  C38: the check sum of a field is what a controller of floppy disks tests for, stated without the code:
  two bytes after three marks \<open>A1\<close> and any bytes make a multiple of \<open>x^16 + x^12 + x^5 + 1\<close>, when ones are
  added to the first sixteen digits, exactly when they are the bytes the code appends, high byte first.
\<close>

theorem crc_is_remainder:
  "(\<exists>q. be_value ([0xa1, 0xa1, 0xa1] @ bs @ [hi, lo]) XOR push_bit (8 * (3 + length bs)) 0xffff =
      gf2_times q (2 ^ 16 + 2 ^ 12 + 2 ^ 5 + 1)) \<longleftrightarrow>
   hi = HIBYTE (field_crc bs) \<and> lo = LOBYTE (field_crc bs)"
proof -
  let ?G = crc_polynomial and ?M = "be_value ([0xa1, 0xa1, 0xa1] @ bs)" and ?P = "push_bit (8 * (3 + length bs)) 0xffff :: nat"
  define c where "c = unat hi * 256 + unat lo"
  define r where "r = unat (field_crc bs)"
  have lt: "c < 2 ^ 16" "r < 2 ^ 16" using be16_less [of hi lo] unsigned_less [of "field_crc bs"] by (simp_all add: c_def r_def)
  obtain q where q: "push_bit 16 ?M XOR ?P = gf2_times q ?G XOR r" using field_remainder unfolding r_def by blast
  have "be_value ([0xa1, 0xa1, 0xa1] @ bs @ [hi, lo]) = push_bit 16 ?M + c"
    by (simp add: be_value_def c_def push_bit_eq_mult)
  also have "\<dots> = push_bit 16 ?M XOR c"
  proof (rule disjunctive_add_eq_xor)
    show "push_bit 16 ?M AND c = 0"
    proof (rule bit_eqI)
      fix n
      have "\<not> bit c n" if "16 \<le> n" using lt(1) that by (metis take_bit_nat_eq_self bit_take_bit_iff linorder_not_less)
      then show "bit (push_bit 16 ?M AND c) n \<longleftrightarrow> bit 0 n" by (auto simp only: bit_and_iff bit_push_bit_iff_nat bit_0_eq bot_apply bot_bool_def)
    qed
  qed
  finally have v: "be_value ([0xa1, 0xa1, 0xa1] @ bs @ [hi, lo]) XOR ?P = gf2_times q ?G XOR (r XOR c)"
    by (simp only: xor.assoc [symmetric] flip: q) (simp only: xor.assoc xor.commute xor.left_commute xor_left)
  have "(\<exists>q'. gf2_times q ?G XOR (r XOR c) = gf2_times q' ?G) \<longleftrightarrow> c = r"
  proof
    assume "\<exists>q'. gf2_times q ?G XOR (r XOR c) = gf2_times q' ?G"
    then obtain q' where q': "gf2_times q ?G XOR (r XOR c) = gf2_times q' ?G" ..
    then have rc: "r XOR c = gf2_times (q XOR q') ?G" unfolding times_xor by (simp only: xor_left flip: q')
    moreover have "take_bit 16 (r XOR c) = r XOR c" unfolding take_bit_xor using lt by (simp only: take_bit_nat_eq_self)
    then have "r XOR c < 2 ^ 16" by (simp only: take_bit_nat_eq_self_iff)
    ultimately have "q XOR q' = 0" using times_degree [of "q XOR q'"] by linarith
    with rc have "r XOR c = 0" by simp
    then have "r XOR (r XOR c) = r" by simp
    then show "c = r" by (simp only: xor_left)
  qed auto
  moreover have "c = r \<longleftrightarrow> hi = HIBYTE (field_crc bs) \<and> lo = LOBYTE (field_crc bs)"
  proof -
    have "hi = HIBYTE (field_crc bs) \<and> lo = LOBYTE (field_crc bs) \<longleftrightarrow> be16 hi lo = field_crc bs"
      using high_byte [of "field_crc bs"] be16_bytes_be16 [of "field_crc bs"] be16_parts [of hi lo] by metis
    also have "\<dots> \<longleftrightarrow> unat (be16 hi lo) = r" unfolding r_def by (rule word_unat_eq_iff)
    finally show ?thesis unfolding c_def unat_be16 by simp
  qed
  ultimately show ?thesis unfolding v crc_polynomial_def [symmetric] by simp
qed

text \<open>The header of the first sector of a disk: track 0, side 0, sector 1, size 2, check sum CA 6F.\<close>

lemma crc_is_remainder_witness:
  "(\<exists>q. be_value ([0xa1, 0xa1, 0xa1] @ [0xfe, 0, 0, 1, 2] @ [0xca, 0x6f]) XOR push_bit (8 * (3 + length [0xfe, 0, 0, 1, 2 :: BYTE])) 0xffff =
      gf2_times q (2 ^ 16 + 2 ^ 12 + 2 ^ 5 + 1)) \<and>
   (\<nexists>q. be_value ([0xa1, 0xa1, 0xa1] @ [0xfe, 0, 0, 1, 2] @ [0xca, 0x6e]) XOR push_bit (8 * (3 + length [0xfe, 0, 0, 1, 2 :: BYTE])) 0xffff =
      gf2_times q (2 ^ 16 + 2 ^ 12 + 2 ^ 5 + 1))"
proof -
  have "0xca = HIBYTE (field_crc [0xfe, 0, 0, 1, 2])" "0x6f = LOBYTE (field_crc [0xfe, 0, 0, 1, 2])" by code_simp+
  moreover have "(0x6e :: BYTE) \<noteq> 0x6f" by simp
  ultimately show ?thesis unfolding crc_is_remainder by metis
qed

end
