(* ===== verification/HostDiskEx.thy ===== *)
theory HostDiskEx
  imports HostMsa HostCrc FranzWitness
begin

text \<open>
  The floppy images on concrete data: an image of a disk, a slot that is filled and encoded, files of an
  exact size, and the properties of the images applied to them.
\<close>

section \<open>An image and its slot\<close>

definition ex_image :: "int \<Rightarrow> FloppyImage" where
  "ex_image sides = \<lparr>fi_open = True, fi_tracksNo = 80, fi_sidesNo = sides, fi_sectorsPerTrack = 9, fi_isInit = True,
     fi_size = 80 * sides * 9 * 512, fi_data = (\<lambda>i. word_of_int (i div 512))\<rparr>"

definition ex_encoder :: mfmenc where
  "ex_encoder = \<lparr>mf_prevBit = 0, mf_changes = 0, mf_times = 0, mf_timesCnt = 0, mf_CRC = 0, mf_bfr = []\<rparr>"

definition ex_cache :: MfmCachedImage where
  "ex_cache = \<lparr>mc_newContent = False, mc_gotImage = False, mc_tracks = 0, mc_sides = 0, mc_spt = 0,
     mc_cache = replicate 170 no_track, mc_enc = ex_encoder\<rparr>"

definition ex_decoder :: MfmDecoder where
  "ex_decoder = \<lparr>md_decoded = [], md_bitCount = 0, md_patCount = 0, md_byte = 0, md_a1Cnt = 0, md_c2Cnt = 0,
     md_syncDetector = 0, md_pattern = 0\<rparr>"

lemma ex_encoder_ok: "new_encoder ex_encoder" "enc_ok ex_encoder"
proof -
  show "new_encoder ex_encoder" by (simp add: ex_encoder_def new_encoder_def)
  then show "enc_ok ex_encoder" by (rule new_encoder_ok)
qed

lemma ex_cache_ok: "new_cache ex_cache" "cache_ok ex_cache"
  by (simp_all add: ex_cache_def new_cache_def cache_ok_def ex_encoder_ok)

text \<open>One file is an image, no other file can be opened.\<close>

definition ex_files :: "int \<Rightarrow> string \<Rightarrow> FloppyImage option" where
  "ex_files sides fn = (if fn = ''/tmp/a.st'' then Some (ex_image sides) else None)"

lemma ex_fits: "sides \<le> 2 \<Longrightarrow> image_fits (ex_image sides)"
  by (simp add: image_fits_def ex_image_def)

lemma encode_keeps:
  assumes "run_encode getImage z = Inr z'" and "si_working z = Some er"
  shows "pending z' = si_queue z" and "sl_hostDestPath (si_slots z' ! 0) = sl_hostDestPath (si_slots z ! 0)"
  using assms
  by (auto simp: run_encode_def Let_def pending_def slot_upd_def upd_keeps split: option.splits if_splits sum.splits)

text \<open>The empty image is put in the last slot and cannot be opened; then a file is put in the first slot, encoded and selected.\<close>

lemma ex_encoded:
  assumes "sides \<le> 2"
  shows "\<exists>z. silo_run (ex_files sides) [(3, empty_image_path), (0, ''/tmp/a.st'')] z \<and> si_currentSlot z = 0 \<and>
    sl_hostDestPath (si_slots z ! 0) = ''/tmp/a.st'' \<and> pending z = []"
proof -
  let ?I = "ex_files sides" and ?z0 = "new_silo True ex_cache"
  have p: "empty_image_path \<noteq> ''/tmp/a.st''" by (simp add: empty_image_path_def)
  define z1 where "z1 = (run_take ?z0)\<lparr>si_encodingRunning := False, si_working := None\<rparr>"
  define z2 where "z2 = silo_add 0 ''a.st'' ''/tmp/a.st'' [] [] z1"
  define z3 where "z3 = run_take z2"
  have r0: "silo_run ?I [(3, empty_image_path)] ?z0" using run_new [OF ex_cache_ok(1), of ?I True] by simp
  have w: "si_working ?z0 = None" "run_encode ?I (run_take ?z0) = Inr z1"
    using p by (simp_all add: new_silo_def Let_def addEncodeRequest_def run_take_def run_encode_def ex_files_def z1_def)
  have r1: "silo_run ?I [(3, empty_image_path)] z1"
    using run_step [OF run_step [OF r0 step_take [OF w(1)]] step_encode [OF w(2)]] by simp
  have r2: "silo_run ?I [(3, empty_image_path), (0, ''/tmp/a.st'')] z2"
    using run_step [OF r1 step_add [of ?I z1 0 "''/tmp/a.st''" "''a.st''" "[]" "[]"]] by (simp add: z2_def)
  have z2: "si_working z2 = None" "si_queue z2 = [\<lparr>er_slotIndex = 0, er_filename = ''/tmp/a.st''\<rparr>]"
    "sl_hostDestPath (si_slots z2 ! 0) = ''/tmp/a.st''"
    by (simp_all add: z2_def z1_def silo_add_def Let_def addEncodeRequest_def new_silo_def slot_upd_def run_take_def)
  have r3: "silo_run ?I [(3, empty_image_path), (0, ''/tmp/a.st'')] z3"
    using run_step [OF r2 step_take [OF z2(1)]] by (simp add: z3_def)
  have z3: "si_working z3 = Some \<lparr>er_slotIndex = 0, er_filename = ''/tmp/a.st''\<rparr>" "si_queue z3 = []" "si_slots z3 = si_slots z2"
    using z2(2) by (simp_all add: z3_def run_take_def)
  obtain c where "encodeAndCacheImage (ex_image sides) True (si_encImage z3) = Inr c"
    using image_cached [OF ex_fits [OF assms] silo_invD(2) [OF silo_run_inv [OF r3]]] by blast
  then have "\<exists>z4. run_encode ?I z3 = Inr z4"
    using z3(1) by (simp add: run_encode_def Let_def ex_files_def)
  then obtain z4 where z4: "run_encode ?I z3 = Inr z4" ..
  note k = encode_keeps [OF z4 z3(1)]
  have r4: "silo_run ?I [(3, empty_image_path), (0, ''/tmp/a.st'')] z4" using run_step [OF r3 step_encode [OF z4]] by simp
  have r5: "silo_run ?I [(3, empty_image_path), (0, ''/tmp/a.st'')] (setCurrentSlot 0 z4)"
    using run_step [OF r4 step_current] by simp
  have "length (si_slots z4) = 4" by (rule silo_invD(1) [OF silo_run_inv [OF r4]])
  then have "si_currentSlot (setCurrentSlot 0 z4) = 0" "sl_hostDestPath (si_slots (setCurrentSlot 0 z4) ! 0) = ''/tmp/a.st''"
    "pending (setCurrentSlot 0 z4) = []"
    using k z3(2,3) z2(3) by (simp_all add: setCurrentSlot_def Let_def slot_upd_def pending_def)
  with r5 show ?thesis by blast
qed

lemma ex_last [simp]: "last_file 0 [(3, empty_image_path), (0, ''/tmp/a.st'')] = Some ''/tmp/a.st''"
  by (simp add: last_file_def)

section \<open>Tracks\<close>

theorem mfm_track_decoded_witness:
  "\<exists>junk rest. md_decoded (decodeStream (mf_bfr (encodeSingleTrack (ex_image 2) 1 79 9 True ex_encoder)) ex_decoder) =
    junk @ take (length (layout (ex_image 2) 79 1 9) - 2) (layout (ex_image 2) 79 1 9) @ rest"
  by (rule mfm_track_decoded [OF ex_encoder_ok(2)]) (simp_all add: ex_image_def)

text \<open>The run goes on with a swap: the selected slot has no name then, and its track is still that of the file.\<close>

theorem disk_reaches_drive_witness:
  "\<exists>z B k junk rest. silo_run (ex_files 2) [(3, empty_image_path), (0, ''/tmp/a.st'')] z \<and> handleSendTrack 1 40 z = (B, 14990) \<and>
    md_decoded (fold append_time (concat (map mfm_codes
      (snd (mfm_take k (franz_off\<lparr>readTrackData := franz_receives (the B, 14990)\<rparr>))))) ex_decoder) =
    junk @ take (length (layout (ex_image 2) 40 1 9) - 2) (layout (ex_image 2) 40 1 9) @ rest"
proof -
  let ?I = "ex_files 2"
  obtain y where y: "silo_run ?I [(3, empty_image_path), (0, ''/tmp/a.st'')] y" "si_currentSlot y = 0" "pending y = []"
    using ex_encoded [of 2] by auto
  define z where "z = silo_swap 0 y"
  have z: "silo_run ?I [(3, empty_image_path), (0, ''/tmp/a.st'')] z" using run_step [OF y(1) step_swap [of ?I y 0]] by (simp add: z_def)
  have z0: "si_currentSlot z = 0" "pending z = []"
    using swap_cache(3,5) [OF silo_invD(1) [OF silo_run_inv [OF y(1)]], of 0] y(2,3) by (simp_all add: z_def)
  define B where "B = fst (handleSendTrack 1 40 z)"
  have h: "handleSendTrack 1 40 z = (B, 14990)" by (simp add: B_def handleSendTrack_def Let_def)
  let ?f = "franz_off\<lparr>readTrackData := franz_receives (the B, 14990)\<rparr>"
  have i: "fi_sectorsPerTrack (ex_image 2) = 9" "fi_sidesNo (ex_image 2) = 2" "fi_tracksNo (ex_image 2) = 80"
    by (simp_all add: ex_image_def)
  have "\<exists>k junk rest. md_decoded (fold append_time (concat (map mfm_codes (snd (mfm_take k ?f)))) ex_decoder) =
    junk @ take (length (layout (ex_image 2) (uint (40 :: BYTE)) (uint (1 :: BYTE)) (fi_sectorsPerTrack (ex_image 2))) - 2)
      (layout (ex_image 2) (uint (40 :: BYTE)) (uint (1 :: BYTE)) (fi_sectorsPerTrack (ex_image 2))) @ rest"
    by (rule disk_reaches_drive [OF z _ _ _ _ _ _ _ h, where fn = "''/tmp/a.st''"])
      (simp_all add: z0 i pending_for_def franz_off_def ex_files_def ex_fits)
  then obtain k junk rest where
    "md_decoded (fold append_time (concat (map mfm_codes (snd (mfm_take k ?f)))) ex_decoder) =
      junk @ take (length (layout (ex_image 2) 40 1 9) - 2) (layout (ex_image 2) 40 1 9) @ rest" unfolding i by auto
  with z h show ?thesis by blast
qed

theorem second_side_null_witness:
  "\<exists>z. silo_run (ex_files 1) [(3, empty_image_path), (0, ''/tmp/a.st'')] z \<and> handleSendTrack 1 5 z = (None, 14990)"
proof -
  obtain z where z: "silo_run (ex_files 1) [(3, empty_image_path), (0, ''/tmp/a.st'')] z" "si_currentSlot z = 0" "pending z = []"
    using ex_encoded [of 1] by auto
  have "handleSendTrack 1 5 z = (None, 14990)"
    by (rule second_side_null [OF z(1), where img = "ex_image 1" and fn = "''/tmp/a.st''"])
      (simp_all add: z pending_for_def ex_image_def image_fits_def ex_files_def)
  with z(1) show ?thesis by blast
qed

theorem swap_keeps_tracks_witness:
  "\<exists>z. silo_run (ex_files 2) [(3, empty_image_path), (0, ''/tmp/a.st'')] z \<and> sl_hostDestPath (si_slots z ! 0) = ''/tmp/a.st'' \<and>
    sl_hostDestPath (si_slots (silo_swap 0 z) ! 1) = ''/tmp/a.st'' \<and>
    holds_image (ex_image 2) True (sl_encImage (si_slots (silo_swap 0 z) ! 0)) \<and> pending (silo_swap 0 z) = []"
proof -
  obtain z where z: "silo_run (ex_files 2) [(3, empty_image_path), (0, ''/tmp/a.st'')] z"
    "sl_hostDestPath (si_slots z ! 0) = ''/tmp/a.st''" "pending z = []"
    using ex_encoded [of 2] by auto
  have "last_file 0 [(3, empty_image_path), (0, ''/tmp/a.st'')] = Some (sl_hostDestPath (si_slots z ! 0))"
    "ex_files 2 (sl_hostDestPath (si_slots z ! 0)) = Some (ex_image 2)" "image_fits (ex_image 2)"
    by (simp_all add: z ex_files_def ex_fits)
  from swap_keeps_tracks [OF z(1,3) this] show ?thesis using z by auto
qed

section \<open>Files\<close>

theorem image_params_type_witness:
  "\<exists>img. open_st (Some (replicate (1440 * 512) 7, True)) (ex_image 2) = (img, True) \<and> params_sound img \<and>
    readSector img 79 1 9 = Some (take 512 (drop (nat (sector_offset img 79 1 9)) (replicate (1440 * 512) 7)))"
proof -
  let ?bs = "replicate (1440 * 512) 7 :: BYTE list"
  obtain img ok where img: "open_st (Some (?bs, True)) (ex_image 2) = (img, ok)" by fastforce
  then obtain i0 where "img = fst (calcParams i0)" "fi_size i0 = 1440 * 512" "ok"
    by (auto simp: open_st_def Let_def loadImageIntoMemory_def simp del: replicate.simps)
  then have "fi_isInit img" "fi_tracksNo img = 80" "fi_sidesNo img = 2" "fi_sectorsPerTrack img = 9" ok
    by (simp_all add: calcParams_def Let_def)
  with image_params_type [of ?bs True "ex_image 2" img 79 1 9] img show ?thesis by (auto simp: Let_def)
qed

theorem thirteen_sectors_overrun_witness:
  "\<exists>img. open_st (Some (replicate (2028 * 512) 0, True)) (ex_image 2) = (img, True) \<and>
    encodeAndCacheImage img True ex_cache = Inl BlockOverrun"
proof -
  let ?bs = "replicate (2028 * 512) 0 :: BYTE list"
  obtain img ok where img: "open_st (Some (?bs, True)) (ex_image 2) = (img, ok)" by fastforce
  moreover have ok using img by (auto simp: open_st_def Let_def loadImageIntoMemory_def simp del: replicate.simps)
  ultimately show ?thesis using thirteen_sectors_overrun [OF img ex_cache_ok(2), of True] by auto
qed

section \<open>MSA files\<close>

text \<open>A disk of one track with one sector: the sizes are found in its boot sector, the rest is zero.\<close>

definition ex_boot :: "BYTE list" where
  "ex_boot = (replicate 512 0)[19 := 1, 24 := 1, 26 := 1]"

lemma ex_boot_details: "FindDiskDetails ex_boot = (1, 1)"
  by (simp add: FindDiskDetails_def ex_boot_def Let_def be16_def del: replicate.simps)

lemma pack_single: "a \<noteq> 0xE5 \<Longrightarrow> ys = [] \<or> hd ys \<noteq> a \<Longrightarrow> msa_pack (a # ys) = a # msa_pack ys"
  by (subst msa_pack.simps, cases ys) (simp_all add: MSA_FindRunOfBytes_def Let_def)

lemma pack_run:
  assumes "4 \<le> n" and "ys = [] \<or> hd ys \<noteq> a"
  shows "msa_pack (replicate n a @ ys) = 0xE5 # a # be16_bytes (of_nat n) @ msa_pack ys"
proof -
  obtain m where n: "n = Suc m" "3 \<le> m" using assms(1) by (cases n) auto
  have t: "takeWhile (\<lambda>x. x = a) (replicate m a @ ys) = replicate m a" using assms(2) by (cases ys) (auto simp: takeWhile_append)
  have "MSA_FindRunOfBytes (replicate n a @ ys) = n" using n t by (simp add: MSA_FindRunOfBytes_def Let_def)
  then show ?thesis using n by (subst msa_pack.simps) (simp add: Let_def)
qed

lemma pack_plain: "distinct_adj xs \<Longrightarrow> 0xE5 \<notin> set xs \<Longrightarrow> msa_pack xs = xs"
proof (induction xs)
  case (Cons x xs)
  then have "xs = [] \<or> hd xs \<noteq> x" by (cases xs) auto
  with Cons show ?case by (subst pack_single) (auto simp: distinct_adj_Cons)
qed (simp add: msa_pack.simps)

theorem msa_round_trip_witness:
  "\<exists>saved. MSA_WriteDisk (\<lambda>_. 0) ex_boot = Some saved \<and> MSA_UnCompress saved = MsaImage ex_boot"
proof -
  have "ex_boot = replicate 19 0 @ 1 # replicate 4 0 @ 1 # 0 # 1 # replicate 485 0" by (simp add: ex_boot_def numeral_eq_Suc)
  then have "length (msa_pack ex_boot) < 512"
    using pack_run [of 485 "[]" "0 :: BYTE"] pack_run [of 4 "1 # 0 # 1 # replicate 485 0" "0 :: BYTE"]
      pack_run [of 19 "1 # replicate 4 0 @ 1 # 0 # 1 # replicate 485 0" "0 :: BYTE"]
    by (simp add: pack_single hd_replicate msa_pack.simps [of "[]"] be16_bytes_def del: replicate.simps)
  moreover have "length ex_boot = 512" by (simp add: ex_boot_def)
  ultimately show ?thesis
    by (intro msa_round_trip [OF ex_boot_details, where T = 1]) (simp_all add: img_track_def be16_def)
qed

text \<open>A sector that starts with the marker and has no two equal bytes in a row.\<close>

definition ex_marked :: "BYTE list" where
  "ex_marked = [0xE5, 1, 0, 5] @ concat (replicate 254 [1, 0])"

lemma pairs_adj: "distinct_adj (concat (replicate n [1, 0 :: BYTE]))" "n \<noteq> 0 \<Longrightarrow> hd (concat (replicate n [1, 0 :: BYTE])) = 1"
  "set (concat (replicate n [1, 0 :: BYTE])) \<subseteq> {0, 1}"
proof -
  show h: "hd (concat (replicate n [1, 0 :: BYTE])) = 1" if "n \<noteq> 0" for n using that by (cases n) auto
  show "distinct_adj (concat (replicate n [1, 0 :: BYTE]))" by (induction n) (use h in \<open>auto simp: distinct_adj_Cons\<close>)
qed auto

theorem msa_length_misplaced_witness:
  "\<exists>saved. MSA_WriteDisk (\<lambda>_. 0) ex_marked = Some saved \<and> MSA_UnCompress saved \<noteq> MsaImage ex_marked"
proof -
  let ?p = "concat (replicate 254 [1, 0 :: BYTE])"
  have l: "length ex_marked = 512" by (simp add: ex_marked_def length_concat sum_list_replicate del: replicate.simps)
  have d: "FindDiskDetails ex_marked = (1, 1)"
    unfolding ex_marked_def by code_simp
  have "msa_pack (1 # 0 # 5 # ?p) = 1 # 0 # 5 # ?p"
    by (rule pack_plain) (use pairs_adj [of 254] in \<open>auto simp: distinct_adj_Cons simp del: replicate.simps\<close>)
  then have "msa_pack ex_marked = 0xE5 # 0xE5 # 0 # 1 # 1 # 0 # 5 # ?p"
    unfolding ex_marked_def
    by (simp add: msa_pack.simps [of "0xE5 # _"] MSA_FindRunOfBytes_def Let_def be16_bytes_def del: replicate.simps)
  then have "length (msa_pack ex_marked) = 515" by (simp add: length_concat sum_list_replicate del: replicate.simps)
  with l show ?thesis
    by (intro msa_length_misplaced [OF d, where T = 1 and d = 1 and h = 0 and l = 5]) (simp_all add: ex_marked_def be16_def)
qed

end
