(* ===== verification/HostSpi.thy ===== *)
theory HostSpi
  imports Prelude
begin

text \<open>
  The host's side of the SPI link (src/ce_main_app/conspi.cpp): headers, the limit of the bytes that are
  left in a packet, and the wait for an attention signal.

  Inputs are lists: \<open>atn_pin\<close> answers the looks at the attention pin, \<open>ms_over\<close> the looks at the clock
  during a wait, \<open>sigint\<close> those at \<open>sigintReceived\<close>, and \<open>miso\<close> holds the bytes shifted in. An exhausted list
  means no attention, the end of the wait, no signal and zeros. \<open>mosi\<close> logs the bytes shifted out;
  \<open>overrun\<close> says that a transfer was longer than its buffer.
\<close>

section \<open>State\<close>

datatype spi_cs = SPI_CS_HANS | SPI_CS_FRANZ

record conspi =
  remainingPacketLength :: WORD
  atn_pin :: "bool list"
  ms_over :: "bool list"
  sigint :: "bool list"
  miso :: "BYTE list"
  mosi :: "BYTE list"
  overrun :: bool

abbreviation NO_REMAINING_LENGTH :: WORD where "NO_REMAINING_LENGTH \<equiv> 0xffff"
abbreviation PADDINGBUFFER_SIZE :: nat where "PADDINGBUFFER_SIZE \<equiv> 20480"
abbreviation ATN_ANY :: BYTE where "ATN_ANY \<equiv> 0xff"

definition look_atn :: "conspi \<Rightarrow> conspi \<times> bool" where
  "look_atn s = (case atn_pin s of [] \<Rightarrow> (s, False) | b # bs \<Rightarrow> (s\<lparr>atn_pin := bs\<rparr>, b))"

definition look_clock :: "conspi \<Rightarrow> conspi \<times> bool" where
  "look_clock s = (case ms_over s of [] \<Rightarrow> (s, True) | b # bs \<Rightarrow> (s\<lparr>ms_over := bs\<rparr>, b))"

definition look_sigint :: "conspi \<Rightarrow> conspi \<times> bool" where
  "look_sigint s = (case sigint s of [] \<Rightarrow> (s, False) | b # bs \<Rightarrow> (s\<lparr>sigint := bs\<rparr>, b))"

text \<open>The transfer of the hardware: \<open>n\<close> bytes in both directions.\<close>

definition spi_tx_rx :: "nat \<Rightarrow> BYTE list \<Rightarrow> conspi \<Rightarrow> conspi \<times> BYTE list" where
  "spi_tx_rx n tx s =
     (s\<lparr>mosi := mosi s @ take n (tx @ replicate n 0), miso := drop n (miso s), overrun := (overrun s \<or> length tx < n)\<rparr>,
      take n (miso s @ replicate n 0))"

section \<open>Transfers and limits\<close>

definition txRx :: "nat \<Rightarrow> BYTE list \<Rightarrow> conspi \<Rightarrow> conspi \<times> BYTE list" where
  "txRx count sendBuffer s =
     (let count = (if count = 0xffff then unat (remainingPacketLength s) else count);
          limited = (remainingPacketLength s \<noteq> NO_REMAINING_LENGTH);
          count = (if limited \<and> count > unat (remainingPacketLength s) then unat (remainingPacketLength s) else count);
          (s, rx) = spi_tx_rx count sendBuffer s
      in (if limited then s\<lparr>remainingPacketLength := remainingPacketLength s - of_nat count\<rparr> else s, rx))"

definition swapWord :: "WORD \<Rightarrow> WORD" where
  "swapWord val = push_bit 8 val OR drop_bit 8 val"

text \<open>A word of a byte buffer as the little-endian host reads it.\<close>

definition le16_at :: "BYTE list \<Rightarrow> nat \<Rightarrow> WORD" where
  "le16_at b i = be16 (b ! (2 * i + 1)) (b ! (2 * i))"

definition cut_header :: "WORD \<Rightarrow> WORD" where
  "cut_header len = (let len = len * 2 in if len \<ge> 8 then len - 8 else 0)"

definition setRemainingTxRxLen :: "WORD \<Rightarrow> WORD \<Rightarrow> conspi \<Rightarrow> conspi" where
  "setRemainingTxRxLen txLen rxLen s =
     (if txLen = NO_REMAINING_LENGTH \<and> rxLen = NO_REMAINING_LENGTH
      then let s = (if remainingPacketLength s \<noteq> 0 \<and> remainingPacketLength s \<noteq> NO_REMAINING_LENGTH
                    then fst (txRx (unat (remainingPacketLength s)) (replicate PADDINGBUFFER_SIZE 0) s) else s)
           in s\<lparr>remainingPacketLength := NO_REMAINING_LENGTH\<rparr>
      else let txLen = cut_header txLen; rxLen = cut_header rxLen
           in s\<lparr>remainingPacketLength := (if txLen \<ge> rxLen then txLen else rxLen)\<rparr>)"

definition applyNoTxRxLimis :: "conspi \<Rightarrow> conspi" where
  "applyNoTxRxLimis s = setRemainingTxRxLen NO_REMAINING_LENGTH NO_REMAINING_LENGTH s"

definition max_words :: "spi_cs \<Rightarrow> WORD" where
  "max_words cs = (case cs of SPI_CS_HANS \<Rightarrow> 1024 | SPI_CS_FRANZ \<Rightarrow> 20480)"

definition applyTxRxLimits :: "spi_cs \<Rightarrow> BYTE list \<Rightarrow> conspi \<Rightarrow> conspi" where
  "applyTxRxLimits cs inBuff s =
     (let txLen = swapWord (le16_at inBuff 2); rxLen = swapWord (le16_at inBuff 3); m = max_words cs;
          (txLen, rxLen) = (if txLen > m \<or> rxLen > m then (min txLen m, min rxLen m) else (txLen, rxLen))
      in setRemainingTxRxLen txLen rxLen s)"

section \<open>Headers\<close>

text \<open>The synchronisation with at most \<open>n\<close> more words; the flag says that it has not been given up.\<close>

fun read_sync :: "nat \<Rightarrow> BYTE list \<Rightarrow> conspi \<Rightarrow> conspi \<times> BYTE list \<times> bool" where
  "read_sync 0 b s = (s, b, False)"
| "read_sync (Suc n) b s =
     (let (s, sig) = look_sigint s
      in if sig then (s, b, True)
         else let (s, b) = txRx 2 [0, 0] s in if le16_at b 0 = 0xfeca then (s, b, True) else read_sync n b s)"

definition readHeader :: "spi_cs \<Rightarrow> conspi \<Rightarrow> conspi \<times> BYTE list \<times> bool" where
  "readHeader cs s =
     (let (s, b, ok) = read_sync 10000 [0, 0] s
      in if \<not> ok then (s, b @ replicate 6 0, False)
         else let (s, rest) = txRx 6 (replicate 6 0) s; inBuf = b @ overwrite (replicate 6 0) rest
              in (applyTxRxLimits cs inBuf s, inBuf, True))"

function wait_pin :: "conspi \<Rightarrow> conspi \<times> bool" where
  "wait_pin s =
     (case ms_over s of
        [] \<Rightarrow> (s, False)
      | over # ms \<Rightarrow>
          let s = s\<lparr>ms_over := ms\<rparr>
          in if over then (s, False) else let (s, up) = look_atn s in if up then (s, True) else wait_pin s)"
  by pat_completeness auto
termination
  by (relation "measure (\<lambda>s. length (ms_over s))") (auto simp: look_atn_def split: list.splits)

declare wait_pin.simps [simp del]

definition waitForATN :: "spi_cs \<Rightarrow> BYTE \<Rightarrow> conspi \<Rightarrow> conspi \<times> BYTE list \<times> bool" where
  "waitForATN cs atnCode s =
     (let s = applyNoTxRxLimis s
      in if atnCode = ATN_ANY
         then let (s, up) = look_atn s in if \<not> up then (s, replicate 8 0, False) else readHeader cs s
         else let (s, up) = wait_pin s
              in if \<not> up then (s, replicate 8 0, False)
                 else let (s, inBuf, ok) = readHeader cs s
                      in if \<not> ok then (s, inBuf, False) else (s, inBuf, inBuf ! 3 = atnCode))"

end
