(* ===== verification/HostTrans.thy ===== *)
theory HostTrans
  imports HostSpi
begin

text \<open>
  The host's data and status of one command of the Atari (src/ce_main_app/acsidatatrans.cpp) and the copy
  of the last command and its answer for retries (retrymodule.cpp). The objects for the communication and
  the retries are set, the branches for the emulated hardware are not compiled in. The received bytes of
  the transfers that only send are not kept.
\<close>

section \<open>retrymodule.cpp\<close>

datatype data_dir = DATA_DIRECTION_UNKNOWN | DATA_DIRECTION_READ | DATA_DIRECTION_WRITE

record RetryModule =
  rt_fullCmd :: "BYTE list"
  rt_isIcd :: bool
  rt_justCmd :: BYTE
  rt_tag1 :: BYTE
  rt_tag2 :: BYTE
  rt_module :: BYTE
  rt_dataDirection :: data_dir
  rt_count :: DWORD
  rt_buffer :: "BYTE list"
  rt_statusWasSet :: bool
  rt_status :: BYTE

abbreviation ACSI_CMD_SIZE :: nat where "ACSI_CMD_SIZE \<equiv> 14"
abbreviation ACSI_BUFFER_SIZE :: nat where "ACSI_BUFFER_SIZE \<equiv> 1048576"

definition gotThisCmd :: "BYTE list \<Rightarrow> bool \<Rightarrow> RetryModule \<Rightarrow> bool" where
  "gotThisCmd fullCmd isIcd r =
     (let commandLength = (if isIcd then 11 else 6) in take commandLength (rt_fullCmd r) = take commandLength fullCmd)"

definition makeCmdCopy :: "BYTE list \<Rightarrow> bool \<Rightarrow> BYTE \<Rightarrow> BYTE \<Rightarrow> BYTE \<Rightarrow> BYTE \<Rightarrow> RetryModule \<Rightarrow> RetryModule" where
  "makeCmdCopy fullCmd isIcd justCmd tag1 tag2 modul r =
     r\<lparr>rt_fullCmd := overwrite (rt_fullCmd r) (take ACSI_CMD_SIZE fullCmd), rt_isIcd := isIcd, rt_justCmd := justCmd, rt_tag1 := tag1,
       rt_tag2 := tag2, rt_module := modul\<rparr>"

text \<open>Copying \<open>count\<close> bytes, at most a whole buffer.\<close>

definition copy_buffer :: "DWORD \<Rightarrow> BYTE list \<Rightarrow> BYTE list \<Rightarrow> BYTE list" where
  "copy_buffer count src dst = overwrite dst (take (min (unat count) ACSI_BUFFER_SIZE) src)"

definition copyDataAndStatus :: "data_dir \<Rightarrow> DWORD \<Rightarrow> BYTE list \<Rightarrow> bool \<Rightarrow> BYTE \<Rightarrow> RetryModule \<Rightarrow> RetryModule" where
  "copyDataAndStatus dir count buffer statusWasSet status r =
     (let r = r\<lparr>rt_dataDirection := dir, rt_count := count, rt_statusWasSet := statusWasSet, rt_status := status\<rparr>
      in if dir = DATA_DIRECTION_READ then r\<lparr>rt_buffer := copy_buffer count buffer (rt_buffer r)\<rparr> else r)"

section \<open>acsidatatrans.cpp\<close>

record datatrans =
  dt_com :: conspi
  dt_retry :: RetryModule
  dt_buffer :: "BYTE list"
  dt_count :: DWORD
  dt_status :: BYTE
  dt_statusWasSet :: bool
  dt_dataDirection :: data_dir
  txBuffer :: "BYTE list"
  rxBuffer :: "BYTE list"
  dumpNextData :: bool

abbreviation ATN_READ_MORE_DATA :: BYTE where "ATN_READ_MORE_DATA \<equiv> 3"
abbreviation ATN_WRITE_MORE_DATA :: BYTE where "ATN_WRITE_MORE_DATA \<equiv> 4"
abbreviation ATN_GET_STATUS :: BYTE where "ATN_GET_STATUS \<equiv> 5"
abbreviation CMD_DATA_WRITE :: BYTE where "CMD_DATA_WRITE \<equiv> 0x20"
abbreviation CMD_DATA_READ_WITH_STATUS :: BYTE where "CMD_DATA_READ_WITH_STATUS \<equiv> 0x30"
abbreviation CMD_SEND_STATUS :: BYTE where "CMD_SEND_STATUS \<equiv> 0x40"
abbreviation CMD_DATA_READ_WITHOUT_STATUS :: BYTE where "CMD_DATA_READ_WITHOUT_STATUS \<equiv> 0x50"
abbreviation CMD_DATA_MARKER :: BYTE where "CMD_DATA_MARKER \<equiv> 0xda"
abbreviation COMMAND_SIZE :: nat where "COMMAND_SIZE \<equiv> 10"

subsection \<open>Collecting data\<close>

definition clear :: "bool \<Rightarrow> datatrans \<Rightarrow> datatrans" where
  "clear clearAlsoDataDirection d =
     (let d = d\<lparr>dt_count := 0, dt_status := 0, dt_statusWasSet := False\<rparr>;
          d = (if clearAlsoDataDirection then d\<lparr>dt_dataDirection := DATA_DIRECTION_READ\<rparr> else d)
      in d\<lparr>dumpNextData := False\<rparr>)"

definition setStatus :: "BYTE \<Rightarrow> datatrans \<Rightarrow> datatrans" where
  "setStatus stat d = d\<lparr>dt_status := stat, dt_statusWasSet := True\<rparr>"

definition addDataByte :: "BYTE \<Rightarrow> datatrans \<Rightarrow> datatrans" where
  "addDataByte val d = d\<lparr>dt_buffer := (dt_buffer d)[unat (dt_count d) := val], dt_count := dt_count d + 1\<rparr>"

definition put_bytes :: "BYTE list \<Rightarrow> datatrans \<Rightarrow> datatrans" where
  "put_bytes bs d = d\<lparr>dt_buffer := take (unat (dt_count d)) (dt_buffer d) @ overwrite (drop (unat (dt_count d)) (dt_buffer d)) bs\<rparr>"

definition addDataDword :: "DWORD \<Rightarrow> datatrans \<Rightarrow> datatrans" where
  "addDataDword val d = (put_bytes (be32_bytes val) d)\<lparr>dt_count := dt_count d + 4\<rparr>"

definition addDataWord :: "WORD \<Rightarrow> datatrans \<Rightarrow> datatrans" where
  "addDataWord val d = (put_bytes (be16_bytes val) d)\<lparr>dt_count := dt_count d + 2\<rparr>"

definition padDataToMul16 :: "datatrans \<Rightarrow> datatrans" where
  "padDataToMul16 d =
     (let m = unat (dt_count d) mod 16; pad = 16 - m
      in if m \<noteq> 0 then (put_bytes (replicate pad 0) d)\<lparr>dt_count := dt_count d + of_nat pad\<rparr> else d)"

definition addDataBfr :: "BYTE list \<Rightarrow> bool \<Rightarrow> datatrans \<Rightarrow> datatrans" where
  "addDataBfr data padToMul16 d =
     (let d = (put_bytes data d)\<lparr>dt_count := dt_count d + of_nat (length data)\<rparr> in if padToMul16 then padDataToMul16 d else d)"

text \<open>The string without its terminator.\<close>

definition addDataCString :: "BYTE list \<Rightarrow> bool \<Rightarrow> datatrans \<Rightarrow> datatrans" where
  "addDataCString str padToMul16 d = addDataBfr (str @ [0]) padToMul16 d"

definition addZerosUntilSize :: "DWORD \<Rightarrow> datatrans \<Rightarrow> datatrans" where
  "addZerosUntilSize finalBufferCnt d = (addDataByte 0 ^^ (unat finalBufferCnt - unat (dt_count d))) d"

definition dumpDataOnce :: "datatrans \<Rightarrow> datatrans" where
  "dumpDataOnce d = d\<lparr>dumpNextData := True\<rparr>"

subsection \<open>Sending\<close>

text \<open>A transfer whose received bytes go into \<open>rxBuffer\<close>.\<close>

definition com_txRx :: "nat \<Rightarrow> BYTE list \<Rightarrow> datatrans \<Rightarrow> datatrans" where
  "com_txRx n tx d = (let (c, rx) = txRx n tx (dt_com d) in d\<lparr>dt_com := c, rxBuffer := overwrite (rxBuffer d) rx\<rparr>)"

definition devCommand :: "BYTE \<Rightarrow> DWORD \<Rightarrow> BYTE \<Rightarrow> BYTE list" where
  "devCommand c cnt st = [0, 0, 0, c, ucast (drop_bit 16 cnt), ucast (drop_bit 8 cnt), ucast (cnt AND 0xff), st, 0, 0]"

definition sendData_start :: "DWORD \<Rightarrow> BYTE \<Rightarrow> bool \<Rightarrow> datatrans \<Rightarrow> datatrans \<times> bool" where
  "sendData_start cnt scsiStatus withStatus d =
     (if cnt > 0xffffff then (d, False)
      else (d\<lparr>dt_com := fst (txRx COMMAND_SIZE
              (devCommand (if withStatus then CMD_DATA_READ_WITH_STATUS else CMD_DATA_READ_WITHOUT_STATUS) cnt scsiStatus) (dt_com d))\<rparr>, True))"

definition wait_hans :: "BYTE \<Rightarrow> datatrans \<Rightarrow> datatrans \<times> bool" where
  "wait_hans atn d = (case waitForATN SPI_CS_HANS atn (dt_com d) of (c, _, ok) \<Rightarrow> (d\<lparr>dt_com := c\<rparr>, ok))"

function send_blocks :: "BYTE list \<Rightarrow> nat \<Rightarrow> datatrans \<Rightarrow> datatrans \<times> bool" where
  "send_blocks pData dataCount d =
     (if dataCount = 0 then (d, True)
      else let (d, res) = wait_hans ATN_READ_MORE_DATA d
           in if \<not> res then (clear True d, False)
              else let cntNow = (if dataCount > 512 then 512 else dataCount);
                       d = d\<lparr>txBuffer := overwrite (txBuffer d) (take 2 (txBuffer d) @ take cntNow pData)\<rparr>;
                       d = com_txRx (cntNow + 4) (txBuffer d) d
                   in send_blocks (drop cntNow pData) (dataCount - cntNow) d)"
  by pat_completeness auto
termination by (relation "measure (\<lambda>(_, n, _). n)") auto

declare send_blocks.simps [simp del]

definition sendData_transferBlock :: "BYTE list \<Rightarrow> DWORD \<Rightarrow> datatrans \<Rightarrow> datatrans \<times> bool" where
  "sendData_transferBlock pData dataCount d =
     (let d = d\<lparr>txBuffer := (txBuffer d)[0 := 0, 1 := CMD_DATA_MARKER]\<rparr>;
          dataCount = (if dataCount AND 1 \<noteq> 0 then dataCount + 1 else dataCount)
      in send_blocks pData (unat dataCount) d)"

definition sendStatusToHans :: "BYTE \<Rightarrow> datatrans \<Rightarrow> datatrans" where
  "sendStatusToHans statusByte d =
     (let (d, res) = wait_hans ATN_GET_STATUS d
      in if \<not> res then clear True d
         else let d = d\<lparr>txBuffer := overwrite (txBuffer d) (replicate 16 0)\<rparr>;
                  d = d\<lparr>txBuffer := (txBuffer d)[1 := CMD_SEND_STATUS, 2 := statusByte]\<rparr>
              in com_txRx 8 (txBuffer d) d)"

definition restoreDataAndStatus :: "datatrans \<Rightarrow> datatrans" where
  "restoreDataAndStatus d =
     (let r = dt_retry d;
          d = d\<lparr>dt_dataDirection := rt_dataDirection r, dt_count := rt_count r, dt_statusWasSet := rt_statusWasSet r, dt_status := rt_status r\<rparr>
      in if rt_dataDirection r = DATA_DIRECTION_READ then d\<lparr>dt_buffer := copy_buffer (rt_count r) (rt_buffer r) (dt_buffer d)\<rparr> else d)"

definition sendDataAndStatus :: "bool \<Rightarrow> datatrans \<Rightarrow> datatrans" where
  "sendDataAndStatus fromRetryModule d =
     (let d = (if fromRetryModule then restoreDataAndStatus d
               else d\<lparr>dt_retry := copyDataAndStatus (dt_dataDirection d) (dt_count d) (dt_buffer d) (dt_statusWasSet d) (dt_status d) (dt_retry d)\<rparr>)
      in if dt_dataDirection d = DATA_DIRECTION_WRITE then sendStatusToHans (dt_status d) d
         else if dt_count d = 0 \<and> \<not> dt_statusWasSet d then d
         else let (d, res) = sendData_start (dt_count d) (dt_status d) True (d\<lparr>dumpNextData := False\<rparr>)
              in if \<not> res then d else fst (sendData_transferBlock (dt_buffer d) (dt_count d) d))"

subsection \<open>Receiving\<close>

definition recvData_start :: "DWORD \<Rightarrow> datatrans \<Rightarrow> datatrans \<times> bool" where
  "recvData_start cnt d =
     (if cnt > 0xffffff then (d, False)
      else (d\<lparr>dt_dataDirection := DATA_DIRECTION_WRITE,
              dt_com := fst (txRx COMMAND_SIZE (devCommand CMD_DATA_WRITE cnt 0xff) (dt_com d))\<rparr>, True))"

function recv_blocks :: "nat \<Rightarrow> datatrans \<Rightarrow> datatrans \<times> BYTE list \<times> bool" where
  "recv_blocks dataCount d =
     (if dataCount = 0 then (d, [], True)
      else let subCount = (if dataCount > 512 then 512 else dataCount);
               (d, res) = wait_hans ATN_WRITE_MORE_DATA d
           in if \<not> res then (clear False d, [], False)
              else let d = com_txRx (subCount + 8 - 4) (txBuffer d) d;
                       piece = take subCount (drop 2 (rxBuffer d));
                       (d, rest, res) = recv_blocks (dataCount - subCount) d
                   in (d, piece @ rest, res))"
  by pat_completeness auto
termination by (relation "measure fst") auto

declare recv_blocks.simps [simp del]

text \<open>The result carries the bytes stored at \<open>pData\<close>.\<close>

definition recvData_transferBlock :: "DWORD \<Rightarrow> datatrans \<Rightarrow> datatrans \<times> BYTE list \<times> bool" where
  "recvData_transferBlock dataCount d = recv_blocks (unat dataCount) (d\<lparr>txBuffer := replicate 600 0\<rparr>)"

definition recvData :: "DWORD \<Rightarrow> datatrans \<Rightarrow> datatrans \<times> BYTE list \<times> bool" where
  "recvData cnt d =
     (let (d, res) = recvData_start cnt (d\<lparr>dt_dataDirection := DATA_DIRECTION_WRITE\<rparr>)
      in if \<not> res then (d, [], False) else recvData_transferBlock cnt d)"

end
