(* ===== verification/HansBus.thy ===== *)
theory HansBus
  imports Prelude
begin

text \<open>
  Hans, the firmware of the ACSI/SCSI processor (src/ce_hans_fw): its variables and inputs, the byte
  transfers on the Atari's bus (bridge.c) and the block transfer to the Atari (datatransfer.c).

  The outside world is a set of input lists, one entry per observation: \<open>strobes\<close> answers every wait for
  CS or ACK with the byte the Atari put on the bus (or fetched, the value is then not used) or with
  \<open>None\<close> when timer 3 runs out first; \<open>tim\<close> answers the polls of timer 3 elsewhere, \<open>tim2\<close> those of timer 2;
  \<open>card_in\<close> is what the SD card shifts out, byte by byte; \<open>host_in\<close> tells for every wait for the SPI
  transfer with the Raspberry Pi what it received or that it is not complete. An exhausted list means a
  time-out, a card that sends 0xff, a host that does not answer. The logs \<open>bus_out\<close>, \<open>card_out\<close> and
  \<open>host_out\<close> hold what the firmware did.
\<close>

section \<open>Types\<close>

abbreviation E_TimeOut :: BYTE where "E_TimeOut \<equiv> 0"
abbreviation BR_OK :: BYTE where "BR_OK \<equiv> 1"

datatype bus_ev = Status BYTE | MsgIn BYTE | Data BYTE | BusReset

datatype card_ev = CS bool | Tx BYTE

datatype host_ev = Done "WORD list" | Wait

datatype rx_buf = RxCmd | RxRd nat | RxSmall

datatype hmode = MODE_UNKNOWN | MODE_WITH_RPI | MODE_SOLO

datatype hstate = STATE_GET_COMMAND | STATE_WAIT_COMMAND_RESPONSE | STATE_DATA_READ_WITH_STATUS |
  STATE_DATA_READ_WITHOUT_STATUS | STATE_DATA_WRITE | STATE_READ_STATUS

record TDevice =
  Type :: BYTE
  IsInit :: bool
  MediaChanged :: bool
  BCapacity :: DWORD
  SCapacity :: DWORD
  LastStatus :: BYTE
  SCSI_SK :: BYTE
  SCSI_ASC :: BYTE
  SCSI_ASCQ :: BYTE

text \<open>The buffers of blocks: \<open>next\<close> always points to the other one of two.\<close>

record TReadBuffer =
  rb_buffer :: "WORD list"
  rb_count :: WORD
  rb_dataBytesCount :: WORD

record TWriteBuffer =
  wr_buffer :: "WORD list"
  wr_count :: WORD

record hleds =
  goingSolo :: WORD
  showingSelectedFddImage :: WORD
  startingRecoveryCommand :: WORD
  led_nev :: WORD
  led_prev :: WORD

record hans =
  strobes :: "BYTE option list"
  first_cmd :: "BYTE option"
  tim :: "bool list"
  tim2 :: "bool list"
  card_in :: "BYTE list"
  cuts :: "nat list"
  host_in :: "host_ev list"
  spi1_ok :: "bool list"
  xilinx_in :: "BYTE list"
  bus_out :: "bus_ev list"
  card_out :: "card_ev list"
  host_out :: "(WORD list \<times> WORD) list"
  rnw :: bool
  tim3_arr :: WORD
  gpio_leds :: WORD
  card_detect :: bool
  flash_ok :: "bool list"
  ee_status :: WORD
  ee_value :: WORD
  hstate :: hstate
  dataCnt :: DWORD
  statusByte :: BYTE
  sendFw :: bool
  atnFw :: "WORD list"
  atnCommand :: "WORD list"
  atnMore :: "WORD list"
  atnStatus :: "WORD list"
  seqNo :: WORD
  wrBufs :: "TWriteBuffer list"
  rdBufs :: "TReadBuffer list"
  smallDataBuffer :: "WORD list"
  cmdBuffer :: "WORD list"
  cmd :: "BYTE list"
  cmdLen :: BYTE
  brStat :: BYTE
  lastScsiStatusByte :: BYTE
  pioReadFailed :: bool
  enabledIDs :: "bool list"
  sdCardID :: BYTE
  sdCard :: TDevice
  sdErrorCountRead :: WORD
  sdErrorCountWrite :: WORD
  spiRxBuff :: "BYTE list list"
  spi2_pend :: "(BYTE list \<times> nat) option"
  spiIdle :: bool
  spiTXidle :: bool
  spiRXidle :: bool
  spi_rx :: "(rx_buf \<times> WORD)"
  currentLed :: BYTE
  enabledImgs :: "bool list"
  firstConfigReceived :: bool
  shouldProcessCommands :: bool
  prevBtnPressTime :: WORD
  prevIsCardInserted :: bool
  cardDetectTime :: WORD
  cardInsertChanged :: bool
  xilinxHwFw :: BYTE
  hwVersion :: BYTE
  isAcsiNotScsi :: bool
  xilinxBusIdle :: BYTE
  timeOutCount :: BYTE
  hmode :: hmode
  leds :: hleds
  btnDownTime :: BYTE
  recoveryLevel_toHost :: BYTE
  config_acsi :: WORD
  config_fdd :: WORD

section \<open>Inputs and outputs\<close>

definition emit :: "bus_ev \<Rightarrow> hans \<Rightarrow> hans" where
  "emit e h = h\<lparr>bus_out := bus_out h @ [e]\<rparr>"

definition strobe :: "hans \<Rightarrow> hans \<times> BYTE option" where
  "strobe h = (case strobes h of [] \<Rightarrow> (h, None) | x # xs \<Rightarrow> (h\<lparr>strobes := xs\<rparr>, x))"

definition h_timeout :: "hans \<Rightarrow> hans \<times> bool" where
  "h_timeout h = (case tim h of [] \<Rightarrow> (h, True) | x # xs \<Rightarrow> (h\<lparr>tim := xs\<rparr>, x))"

definition tim2_flag :: "hans \<Rightarrow> hans \<times> bool" where
  "tim2_flag h = (case tim2 h of [] \<Rightarrow> (h, False) | x # xs \<Rightarrow> (h\<lparr>tim2 := xs\<rparr>, x))"

section \<open>bridge.c\<close>

definition PIO_gotFirstCmdByte :: "hans \<Rightarrow> bool" where
  "PIO_gotFirstCmdByte h \<longleftrightarrow> first_cmd h \<noteq> None"

definition PIO_writeFirst :: "hans \<Rightarrow> hans \<times> BYTE" where
  "PIO_writeFirst h =
     (h\<lparr>rnw := False, brStat := BR_OK, first_cmd := None\<rparr>, case first_cmd h of None \<Rightarrow> 0 | Some b \<Rightarrow> b)"

definition PIO_write :: "hans \<Rightarrow> hans \<times> BYTE" where
  "PIO_write h = (case strobe h of (h, Some b) \<Rightarrow> (h, b) | (h, None) \<Rightarrow> (h\<lparr>brStat := E_TimeOut\<rparr>, 0))"

text \<open>A byte the Atari fetches at its next strobe.\<close>

definition give :: "bus_ev \<Rightarrow> hans \<Rightarrow> hans" where
  "give e h = (case strobe h of (h, Some _) \<Rightarrow> emit e h | (h, None) \<Rightarrow> h\<lparr>brStat := E_TimeOut\<rparr>)"

definition PIO_read_solely :: "BYTE \<Rightarrow> hans \<Rightarrow> hans" where
  "PIO_read_solely val h = give (Status val) (h\<lparr>rnw := True\<rparr>)"

definition MSG_read :: "BYTE \<Rightarrow> hans \<Rightarrow> hans" where
  "MSG_read val h = give (MsgIn val) (h\<lparr>rnw := True\<rparr>)"

definition DMA_read :: "BYTE \<Rightarrow> hans \<Rightarrow> hans" where
  "DMA_read val h = give (Data val) h"

definition DMA_write :: "hans \<Rightarrow> hans \<times> BYTE" where
  "DMA_write h = (case strobe h of (h, Some b) \<Rightarrow> (h, b) | (h, None) \<Rightarrow> (h\<lparr>brStat := E_TimeOut\<rparr>, 0))"

definition resetXilinx :: "hans \<Rightarrow> hans" where
  "resetXilinx h = emit BusReset (h\<lparr>rnw := False, first_cmd := None, brStat := BR_OK\<rparr>)"

definition PIO_read :: "BYTE \<Rightarrow> hans \<Rightarrow> hans" where
  "PIO_read st h =
     (let h = h\<lparr>pioReadFailed := False\<rparr>;
          h = (if brStat h \<noteq> E_TimeOut then PIO_read_solely st (h\<lparr>lastScsiStatusByte := st\<rparr>) else h);
          h = (if \<not> isAcsiNotScsi h \<and> brStat h \<noteq> E_TimeOut then MSG_read 0 h else h);
          h = (if brStat h \<noteq> BR_OK then h\<lparr>pioReadFailed := True\<rparr> else h)
      in (resetXilinx h)\<lparr>rnw := False\<rparr>)"

section \<open>datatransfer.c\<close>

text \<open>\<open>READ_WORD\<close> and \<open>READ_BYTE\<close>: the result says whether the Atari took the bytes.\<close>

definition READ_HALF :: "BYTE \<Rightarrow> hans \<Rightarrow> hans \<times> bool" where
  "READ_HALF b h = (case strobe h of (h, Some _) \<Rightarrow> (emit (Data b) h, True) | (h, None) \<Rightarrow> (h\<lparr>brStat := E_TimeOut\<rparr>, False))"

definition READ_WORD :: "WORD \<Rightarrow> hans \<Rightarrow> hans \<times> bool" where
  "READ_WORD w h = (case READ_HALF (ucast (drop_bit 8 w)) h of (h, ok) \<Rightarrow> if ok then READ_HALF (ucast w) h else (h, False))"

definition READ_BYTE :: "WORD \<Rightarrow> hans \<Rightarrow> hans \<times> bool" where
  "READ_BYTE w h = READ_HALF (ucast (drop_bit 8 w)) h"

fun READ_WORDs :: "WORD list \<Rightarrow> hans \<Rightarrow> hans \<times> bool" where
  "READ_WORDs [] h = (h, True)"
| "READ_WORDs (w # ws) h = (case READ_WORD w h of (h, ok) \<Rightarrow> if ok then READ_WORDs ws h else (h, False))"

text \<open>The words from \<open>pData\<close> on; behind the end of the list is memory that the model does not have.\<close>

function dataReadCloop :: "WORD list \<Rightarrow> nat \<Rightarrow> hans \<Rightarrow> hans \<times> bool" where
  "dataReadCloop pData cnt h =
     (if cnt = 0 then (h, True)
      else if cnt \<ge> 16
      then (case READ_WORDs (take 8 pData) h of (h, ok) \<Rightarrow> if ok then dataReadCloop (drop 8 pData) (cnt - 16) h else (h, False))
      else if cnt \<ge> 2
      then (case READ_WORD (hd pData) h of (h, ok) \<Rightarrow> if ok then dataReadCloop (tl pData) (cnt - 2) h else (h, False))
      else (case READ_BYTE (hd pData) h of (h, ok) \<Rightarrow> if ok then dataReadCloop (tl pData) (cnt - 1) h else (h, False)))"
  by pat_completeness auto
termination by (relation "measure (\<lambda>(_, cnt, _). cnt)") auto

declare dataReadCloop.simps [simp del]

section \<open>What the transfers do\<close>

text \<open>The bytes of a list of words in the order they go over the bus.\<close>

definition word_bytes :: "WORD list \<Rightarrow> BYTE list" where
  "word_bytes ws = concat (map be16_bytes ws)"

lemma word_bytes_simps [simp]:
  "word_bytes [] = []" "word_bytes (w # ws) = be16_bytes w @ word_bytes ws" "word_bytes (us @ vs) = word_bytes us @ word_bytes vs"
  "length (word_bytes ws) = 2 * length ws"
  by (simp_all add: word_bytes_def be16_bytes_def length_concat comp_def sum_list_triv)

text \<open>The Atari answers the next \<open>n\<close> strobes.\<close>

definition answers :: "nat \<Rightarrow> hans \<Rightarrow> bool" where
  "answers n h \<longleftrightarrow> n \<le> length (strobes h) \<and> None \<notin> set (take n (strobes h))"

definition given :: "bus_ev list \<Rightarrow> hans \<Rightarrow> hans" where
  "given es h = h\<lparr>strobes := drop (length es) (strobes h), bus_out := bus_out h @ es\<rparr>"

lemma given_simps [simp]: "given [] h = h" "given es (given ds h) = given (ds @ es) h"
  by (simp_all add: given_def add.commute)

lemma answers_given [simp]: "answers (length es + n) h \<Longrightarrow> answers n (given es h)"
  by (auto simp: answers_def given_def take_add)

lemma answers_le: "answers n h \<Longrightarrow> m \<le> n \<Longrightarrow> answers m h"
  by (auto simp: answers_def) (meson in_mono set_take_subset_set_take)

lemma answers_strobe:
  assumes "answers (Suc n) h"
  obtains x xs where "strobes h = Some x # xs"
proof (cases "strobes h")
  case (Cons y ys)
  with assms have "None \<noteq> y" by (simp add: answers_def)
  then obtain x where "y = Some x" by (cases y) simp_all
  then show ?thesis using that Cons by simp
qed (use assms in \<open>simp add: answers_def\<close>)

lemma give_ok:
  assumes "answers (Suc n) h"
  shows "give e h = given [e] h" and "READ_HALF b h = (given [Data b] h, True)"
proof -
  obtain x xs where "strobes h = Some x # xs" by (rule answers_strobe [OF assms])
  then show "give e h = given [e] h" "READ_HALF b h = (given [Data b] h, True)"
    by (simp_all add: give_def READ_HALF_def strobe_def given_def emit_def)
qed

lemmas READ_HALF_ok = give_ok(2)

lemma READ_WORD_ok:
  assumes "answers (n + 2) h"
  shows "READ_WORD w h = (given (map Data (be16_bytes w)) h, True)"
proof -
  have 1: "answers (Suc (Suc n)) h" using assms by simp
  then have "answers (length [Data (ucast (drop_bit 8 w))] + Suc n) h" by simp
  then have "answers (Suc n) (given [Data (ucast (drop_bit 8 w))] h)" by (rule answers_given)
  from READ_HALF_ok [OF 1] READ_HALF_ok [OF this] show ?thesis by (simp add: READ_WORD_def be16_bytes_def)
qed

lemma READ_WORDs_ok:
  "answers (n + 2 * length ws) h \<Longrightarrow> READ_WORDs ws h = (given (map Data (word_bytes ws)) h, True)"
proof (induction ws arbitrary: h)
  case (Cons w ws)
  have "answers (n + 2 * length ws + 2) h" using Cons.prems by (simp add: add.commute)
  note r = READ_WORD_ok [OF this, of w]
  have "answers (length (map Data (be16_bytes w)) + (n + 2 * length ws)) h" using Cons.prems by (simp add: be16_bytes_def add.commute)
  from Cons.IH [OF answers_given [OF this]] r show ?case by simp
qed simp

text \<open>The block transfer gives the Atari the first bytes of the words, in order.\<close>

lemma dataReadCloop_ok:
  "answers n h \<Longrightarrow> n \<le> 2 * length pData \<Longrightarrow> dataReadCloop pData n h = (given (map Data (take n (word_bytes pData))) h, True)"
proof (induction pData n h rule: dataReadCloop.induct)
  case (1 pData n h)
  consider "n = 0" | "16 \<le> n" | "2 \<le> n" "n < 16" | "n = 1" by linarith
  then show ?case
  proof cases
    case 2
    let ?ws = "take 8 pData" and ?vs = "drop 8 pData"
    have l: "length ?ws = 8" using 1(5) 2 by simp
    have "answers (n - 16 + 2 * length ?ws) h" using 1(4) 2 l by simp
    note r = READ_WORDs_ok [OF this]
    have "answers (length (map Data (word_bytes ?ws)) + (n - 16)) h" using 1(4) 2 l by simp
    note a = answers_given [OF this]
    have "dataReadCloop ?vs (n - 16) (given (map Data (word_bytes ?ws)) h) =
        (given (map Data (take (n - 16) (word_bytes ?vs))) (given (map Data (word_bytes ?ws)) h), True)"
      by (rule 1(1) [OF _ _ r [symmetric] _ a]) (use 1(5) 2 in simp_all)
    moreover have "take n (word_bytes pData) = word_bytes ?ws @ take (n - 16) (word_bytes ?vs)"
    proof -
      have "word_bytes pData = word_bytes ?ws @ word_bytes ?vs" by (metis append_take_drop_id word_bytes_simps(3))
      then show ?thesis using l 2 by simp
    qed
    ultimately show ?thesis using 2 r by (subst dataReadCloop.simps) simp
  next
    case 3
    then obtain w ws where p: "pData = w # ws" using 1(5) by (cases pData) auto
    have "n - 2 + 2 = n" using 3 by simp
    then have "answers (n - 2 + 2) h" using 1(4) by (simp only:)
    note r = READ_WORD_ok [OF this, of w]
    have "length (map Data (be16_bytes w)) + (n - 2) = n" using 3 by (simp add: be16_bytes_def)
    then have "answers (length (map Data (be16_bytes w)) + (n - 2)) h" using 1(4) by (simp only:)
    note a = answers_given [OF this]
    have "dataReadCloop ws (n - 2) (given (map Data (be16_bytes w)) h) =
        (given (map Data (take (n - 2) (word_bytes ws))) (given (map Data (be16_bytes w)) h), True)"
      by (rule 1(2) [of _ True, unfolded p list.sel, OF _ _ _ r [symmetric] _ a]) (use 1(5) 3 p in simp_all)
    moreover have "take n (word_bytes pData) = be16_bytes w @ take (n - 2) (word_bytes ws)"
    proof -
      obtain k where "n = Suc (Suc k)" using 3 by (metis Suc_diff_Suc Suc_1 add_2_eq_Suc le_add_diff_inverse)
      then show ?thesis by (simp add: p be16_bytes_def)
    qed
    ultimately show ?thesis using 3 r p by (subst dataReadCloop.simps) simp
  next
    case 4
    then obtain w ws where p: "pData = w # ws" using 1(5) by (cases pData) auto
    have "answers (Suc 0) h" using 1(4) 4 by simp
    note r = READ_HALF_ok [OF this, of "ucast (drop_bit 8 w)"]
    show ?thesis using 4 r p
      by (subst dataReadCloop.simps) (simp add: READ_BYTE_def be16_bytes_def dataReadCloop.simps)
  qed (simp add: dataReadCloop.simps)
qed

end
