(* ===== verification/HansSpi.thy ===== *)
theory HansSpi
  imports HansBus
begin

text \<open>
  Transfers between Hans and the Raspberry Pi (the SPI functions of src/ce_hans_fw/main.c). A transfer
  runs while the firmware does other things; what it received is taken from \<open>host_in\<close> at the next wait for
  it. The words 2 and 3 of a message are set by every transfer before it is sent, the copies in the
  message buffers are not kept.
\<close>

abbreviation ATN_SYNC_WORD :: WORD where "ATN_SYNC_WORD \<equiv> 0xcafe"

section \<open>Interrupts\<close>

text \<open>The transmitting and the receiving channel are done.\<close>

definition hans_DMA1_Channel3_IRQHandler :: "hans \<Rightarrow> hans" where
  "hans_DMA1_Channel3_IRQHandler h =
     (let h = h\<lparr>spiTXidle := True\<rparr> in if spiRXidle h then h\<lparr>spiIdle := True, timeOutCount := 0\<rparr> else h)"

definition hans_DMA1_Channel2_IRQHandler :: "hans \<Rightarrow> hans" where
  "hans_DMA1_Channel2_IRQHandler h =
     (let h = h\<lparr>spiRXidle := True\<rparr> in if spiTXidle h then h\<lparr>spiIdle := True, timeOutCount := 0\<rparr> else h)"

definition rx_store :: "WORD list \<Rightarrow> hans \<Rightarrow> hans" where
  "rx_store ws h =
     (let ws = take (unat (snd (spi_rx h))) ws
      in case fst (spi_rx h) of
           RxCmd \<Rightarrow> h\<lparr>cmdBuffer := overwrite (cmdBuffer h) ws\<rparr>
         | RxSmall \<Rightarrow> h\<lparr>smallDataBuffer := overwrite (smallDataBuffer h) ws\<rparr>
         | RxRd i \<Rightarrow> h\<lparr>rdBufs := (rdBufs h)[i := (rdBufs h ! i)\<lparr>rb_buffer := overwrite (rb_buffer (rdBufs h ! i)) ws\<rparr>]\<rparr>)"

definition spi_complete :: "WORD list \<Rightarrow> hans \<Rightarrow> hans" where
  "spi_complete ws h = hans_DMA1_Channel2_IRQHandler (rx_store ws (hans_DMA1_Channel3_IRQHandler h))"

text \<open>Looking at \<open>spiDmaIsIdle\<close>.\<close>

definition spi_idle :: "hans \<Rightarrow> hans \<times> bool" where
  "spi_idle h =
     (if spiIdle h then (h, True)
      else case host_in h of
             [] \<Rightarrow> (h, False)
           | Wait # es \<Rightarrow> (h\<lparr>host_in := es\<rparr>, False)
           | Done ws # es \<Rightarrow> (spi_complete ws (h\<lparr>host_in := es\<rparr>), True))"

section \<open>Transfers\<close>

definition hans_spiDma_waitForFinish :: "hans \<Rightarrow> hans \<times> bool" where
  "hans_spiDma_waitForFinish h = (case spi_idle h of (h, True) \<Rightarrow> (h, True) | (h, False) \<Rightarrow> (h\<lparr>spiIdle := True\<rparr>, False))"

definition waitForSPIidle :: "hans \<Rightarrow> hans \<times> bool" where
  "waitForSPIidle h = (case spi1_ok h of [] \<Rightarrow> (h, True) | b # bs \<Rightarrow> (h\<lparr>spi1_ok := bs\<rparr>, b))"

definition hans_spiDma_txRx :: "WORD \<Rightarrow> WORD list \<Rightarrow> WORD \<Rightarrow> rx_buf \<Rightarrow> hans \<Rightarrow> hans \<times> bool" where
  "hans_spiDma_txRx txCount txBfr rxCount rx h =
     (let tx = txBfr[2 := txCount, 3 := rxCount];
          (h, waitForFinishOk) = hans_spiDma_waitForFinish h;
          (h, waitForSpiIdleOk) = waitForSPIidle h;
          h = h\<lparr>spiTXidle := (txCount = 0), spiRXidle := (rxCount = 0), spiIdle := False, spi_rx := (rx, rxCount),
                host_out := host_out h @ [(take (unat txCount) tx, rxCount)]\<rparr>
      in (h, waitForFinishOk \<and> waitForSpiIdleOk))"

section \<open>Messages\<close>

definition hans_setupAtnBuffers :: "hans \<Rightarrow> hans" where
  "hans_setupAtnBuffers h =
     h\<lparr>atnFw := (atnFw h)[0 := ATN_SYNC_WORD, 1 := 1, 4 := 0xa017, 5 := 0x0413, 9 := 0],
       atnCommand := (atnCommand h)[0 := ATN_SYNC_WORD, 1 := 2, 11 := 0],
       atnMore := (atnMore h)[0 := ATN_SYNC_WORD, 1 := 3, 5 := 0],
       wrBufs := map (\<lambda>b. b\<lparr>wr_buffer := (wr_buffer b)[0 := ATN_SYNC_WORD, 1 := 4]\<rparr>) (wrBufs h),
       atnStatus := (atnStatus h)[0 := ATN_SYNC_WORD, 1 := 5, 4 := 0]\<rparr>"

definition sendFwToHost :: "hans \<Rightarrow> hans" where
  "sendFwToHost h =
     (let h = h\<lparr>sendFw := False\<rparr>;
          h = h\<lparr>atnFw := (atnFw h)[6 := push_bit 8 (ucast (currentLed h)) OR ucast (xilinxHwFw h), 7 := config_acsi h,
                  8 := (config_fdd h AND 0xff00) OR ucast (recoveryLevel_toHost h)], recoveryLevel_toHost := 0\<rparr>;
          (h, _) = hans_spiDma_txRx 10 (atnFw h) 10 RxCmd h
      in h\<lparr>shouldProcessCommands := True\<rparr>)"

end
