(* ===== verification/HansMmc.thy ===== *)
theory HansMmc
  imports HansSpi
begin

text \<open>
  The SD card behind Hans' second SPI interface (src/ce_hans_fw/mmc.c, mmc_datatransfer.c): commands,
  initialisation, capacity, and the transfers of sectors between card and Atari. A DMA transfer with the
  card is held in \<open>spi2_pend\<close> until the firmware waits for it; when it is stopped instead, \<open>cuts\<close> tells how
  many bytes were exchanged by then.
\<close>

section \<open>Bytes and commands\<close>

abbreviation DEVICETYPE_NOTHING :: BYTE where "DEVICETYPE_NOTHING \<equiv> 0"
abbreviation DEVICETYPE_MMC :: BYTE where "DEVICETYPE_MMC \<equiv> 1"
abbreviation DEVICETYPE_SD :: BYTE where "DEVICETYPE_SD \<equiv> 2"
abbreviation DEVICETYPE_SDHC :: BYTE where "DEVICETYPE_SDHC \<equiv> 3"
abbreviation MMC_STARTBLOCK_READ :: BYTE where "MMC_STARTBLOCK_READ \<equiv> 0xFE"

definition spi2_TxRx :: "BYTE \<Rightarrow> hans \<Rightarrow> hans \<times> BYTE" where
  "spi2_TxRx b h =
     (let h' = h\<lparr>card_out := card_out h @ [Tx b]\<rparr>
      in case card_in h of [] \<Rightarrow> (h', 0xff) | x # xs \<Rightarrow> (h'\<lparr>card_in := xs\<rparr>, x))"

fun spi2_xfer :: "BYTE list \<Rightarrow> hans \<Rightarrow> hans \<times> BYTE list" where
  "spi2_xfer [] h = (h, [])"
| "spi2_xfer (b # bs) h = (let (h, x) = spi2_TxRx b h; (h, xs) = spi2_xfer bs h in (h, x # xs))"

definition spi2_send :: "BYTE list \<Rightarrow> hans \<Rightarrow> hans" where
  "spi2_send bs h = fst (spi2_xfer bs h)"

definition spiCS :: "bool \<Rightarrow> hans \<Rightarrow> hans" where
  "spiCS b h = h\<lparr>card_out := card_out h @ [CS b]\<rparr>"

text \<open>Waiting for a response: one byte, and at most \<open>n\<close> more.\<close>

fun response :: "nat \<Rightarrow> hans \<Rightarrow> hans \<times> BYTE" where
  "response 0 h = spi2_TxRx 0xff h"
| "response (Suc n) h =
     (let (h, r1) = spi2_TxRx 0xff h
      in if r1 \<noteq> 0xff then (h, r1)
         else let (h, t) = h_timeout h in if t then (h, r1) else response n h)"

definition mmcCommand :: "BYTE \<Rightarrow> DWORD \<Rightarrow> hans \<Rightarrow> hans \<times> BYTE" where
  "mmcCommand c arg h =
     response 0xffff (spi2_send ([0xff, c OR 0x40] @ be32_bytes arg @ [if c = 8 then 0x86 else 0x95]) h)"

definition mmcSendCommand :: "BYTE \<Rightarrow> DWORD \<Rightarrow> hans \<Rightarrow> hans \<times> BYTE" where
  "mmcSendCommand c arg h =
     (let (h, r1) = mmcCommand c arg (spi2_send [0xff] (spiCS False h)) in (spiCS True (spi2_send [0xff] h), r1))"

definition mmcSendCommand5B :: "BYTE \<Rightarrow> DWORD \<Rightarrow> hans \<Rightarrow> hans \<times> BYTE list" where
  "mmcSendCommand5B c arg h =
     (let (h, r1) = mmcCommand c arg (spi2_send [0xff] (spiCS False h));
          (h, xs) = spi2_xfer (replicate 4 0xff) h
      in (spiCS True (spi2_send [0xff] h), r1 # xs))"

fun mmcCmdLow_loop :: "nat \<Rightarrow> BYTE \<Rightarrow> DWORD \<Rightarrow> BYTE \<Rightarrow> hans \<Rightarrow> hans \<times> BYTE" where
  "mmcCmdLow_loop n c arg val h =
     (let (h, r1) = mmcSendCommand c arg h; h = spi2_send [0xff] h
      in case n of
           0 \<Rightarrow> (h, 0xff)
         | Suc n \<Rightarrow> let (h, t) = h_timeout h
                     in if t then (h, 0xff) else if r1 = val then (h, r1) else mmcCmdLow_loop n c arg val h)"

definition mmcCmdLow :: "BYTE \<Rightarrow> DWORD \<Rightarrow> BYTE \<Rightarrow> hans \<Rightarrow> hans \<times> BYTE" where
  "mmcCmdLow c arg val h =
     (let (h, r1) = mmcCmdLow_loop 0xffff c arg val (spiCS False h)
      in (spiCS True (spi2_send (replicate 10 0xff) h), r1))"

section \<open>Waiting for the card\<close>

text \<open>A loop that reads until \<open>tok\<close> comes or timer 3 runs out, with \<open>f\<close> run for every other byte.\<close>

fun wait_tok :: "bool list \<Rightarrow> (hans \<Rightarrow> hans) \<Rightarrow> BYTE \<Rightarrow> hans \<Rightarrow> hans \<times> bool" where
  "wait_tok ts f tok h =
     (let (h, r) = spi2_TxRx 0xff h
      in if r = tok then (h\<lparr>tim := ts\<rparr>, True)
         else let h = f h
              in case ts of
                   [] \<Rightarrow> (h\<lparr>tim := []\<rparr>, False)
                 | t # ts \<Rightarrow> if t then (h\<lparr>tim := ts\<rparr>, False) else wait_tok ts f tok h)"

declare wait_tok.simps [simp del] mmcCmdLow_loop.simps [simp del]

definition WAIT_FOR_CARD_NOT_BUSY :: "hans \<Rightarrow> hans \<times> bool" where
  "WAIT_FOR_CARD_NOT_BUSY h = wait_tok (tim h) (\<lambda>h. h) 0xff h"

text \<open>The firmware still tells the host that it is alive.\<close>

definition fw_alive :: "hans \<Rightarrow> hans" where
  "fw_alive h =
     (if hmode h = MODE_SOLO then h
      else let (h, idle) = spi_idle h
           in if \<not> idle then h else let (h, t) = tim2_flag h in if t then sendFwToHost h else h)"

definition waitForCardNotBusy :: "hans \<Rightarrow> hans \<times> bool" where
  "waitForCardNotBusy h = (let (h, ok) = wait_tok (tim h) fw_alive 0xff h in (h, \<not> ok))"

text \<open>At most \<open>n\<close> bytes until the start of a block.\<close>

fun startblock_quick :: "nat \<Rightarrow> hans \<Rightarrow> hans \<times> bool" where
  "startblock_quick 0 h = (h, False)"
| "startblock_quick (Suc n) h =
     (let (h, r) = spi2_TxRx 0xff h in if r = MMC_STARTBLOCK_READ then (h, True) else startblock_quick n h)"

fun startblock :: "nat \<Rightarrow> hans \<Rightarrow> hans \<times> bool" where
  "startblock 0 h = (h, False)"
| "startblock (Suc n) h =
     (let (h, r) = spi2_TxRx 0xff h
      in if r = MMC_STARTBLOCK_READ then (h, True)
         else let (h, t) = h_timeout h in if t then (h, False) else startblock n h)"

section \<open>Initialisation\<close>

definition card_address :: "DWORD \<Rightarrow> hans \<Rightarrow> DWORD" where
  "card_address sector h = (if Type (sdCard h) \<noteq> DEVICETYPE_SDHC then push_bit 9 sector else sector)"

definition isCardInserted :: "hans \<Rightarrow> bool" where
  "isCardInserted h = card_detect h"

definition sdCardZeroInitStruct :: "hans \<Rightarrow> hans" where
  "sdCardZeroInitStruct h =
     h\<lparr>sdCard := (sdCard h)\<lparr>IsInit := False, Type := DEVICETYPE_NOTHING, MediaChanged := False, BCapacity := 0, SCapacity := 0\<rparr>\<rparr>"

definition tryToEmptySdCardBuffer :: "hans \<Rightarrow> hans" where
  "tryToEmptySdCardBuffer h =
     spi2_send [0xff, 0xff] (spiCS True (spi2_send (replicate 1024 0xff) (spiCS False (spi2_send [0xff, 0xff] h))))"

fun acmd41_hc :: "nat \<Rightarrow> hans \<Rightarrow> hans \<times> bool" where
  "acmd41_hc 0 h = (h, False)"
| "acmd41_hc (Suc retry) h =
     (let (h, t) = h_timeout h
      in if t then (h, False)
         else let (h, r1) = mmcSendCommand 55 0 h
              in if r1 \<noteq> 1 then (h, False)
                 else let (h, r1) = mmcSendCommand 41 0x40000000 h
                      in if r1 = 0 then (h, retry \<noteq> 0)
                         else let (h, t) = h_timeout h in if t then (h, False) else acmd41_hc retry h)"

text \<open>The result says whether the card is an SD card.\<close>

fun acmd41 :: "nat \<Rightarrow> hans \<Rightarrow> hans \<times> bool" where
  "acmd41 0 h = (h, False)"
| "acmd41 (Suc retry) h =
     (let (h, r1) = mmcSendCommand 55 0 h
      in if r1 \<noteq> 1 then (h, False)
         else let (h, r1) = mmcSendCommand 41 0 h
              in if r1 = 0 then (h, True)
                 else let (h, t) = h_timeout h in if t then (h, False) else acmd41 retry h)"

definition mmcReset_sdhc :: "hans \<Rightarrow> hans \<times> BYTE" where
  "mmcReset_sdhc h =
     (let (h, buff) = mmcSendCommand5B 8 0x1AA h
      in if buff ! 0 = 1 \<and> buff ! 3 = 1 \<and> buff ! 4 = 0xaa
         then let (h, ok) = acmd41_hc 0xffff h
              in if ok then let (h, buff) = mmcSendCommand5B 58 0 h
                            in if buff ! 0 = 0 then (h, if buff ! 1 AND 0x40 \<noteq> 0 then DEVICETYPE_SDHC else DEVICETYPE_SD)
                               else (h, DEVICETYPE_NOTHING)
                 else (h, DEVICETYPE_NOTHING)
         else (h, DEVICETYPE_NOTHING))"

definition mmcReset :: "hans \<Rightarrow> hans \<times> BYTE" where
  "mmcReset h =
     (let (h, r1) = mmcSendCommand 0 0 (spi2_send (replicate 10 0xff) (spiCS True h))
      in if r1 \<noteq> 1 then (h, DEVICETYPE_NOTHING)
         else let (h, kind) = mmcReset_sdhc h
              in if kind = DEVICETYPE_SDHC then (h, DEVICETYPE_SDHC)
                 else let (h, isSD) = (if kind = DEVICETYPE_SD then (h, True) else acmd41 0xffff h);
                          (h, r1) = (if isSD then (h, 0) else mmcCmdLow 1 0 0 h)
                      in if r1 \<noteq> 0 then (h, DEVICETYPE_NOTHING)
                         else (fst (mmcSendCommand 16 512 h), if isSD then DEVICETYPE_SD else DEVICETYPE_MMC))"

definition mmcReadJustForTest :: "DWORD \<Rightarrow> hans \<Rightarrow> hans \<times> BYTE" where
  "mmcReadJustForTest sector h =
     (let h = spiCS False h; (h, r1) = mmcCommand 17 (card_address sector h) h
      in if r1 \<noteq> 0 then (spiCS True (spi2_send [0xff] h), r1)
         else let (h, ok) = startblock 0x000fffff h
              in if \<not> ok then (spiCS True (spi2_send [0xff] h), 0xff)
                 else (spiCS True (spi2_send (replicate (512 + 3) 0xff) h), 0))"

section \<open>Capacity\<close>

fun csd_start :: "nat \<Rightarrow> BYTE \<Rightarrow> hans \<Rightarrow> hans \<times> BYTE" where
  "csd_start 0 byte h = (h, byte)"
| "csd_start (Suc n) byte h =
     (let (h, byte) = spi2_TxRx 0xff h in if byte = MMC_STARTBLOCK_READ then (h, byte) else csd_start n byte h)"

definition MMC_CardType :: "hans \<Rightarrow> hans \<times> BYTE \<times> BYTE list" where
  "MMC_CardType h =
     (let (h, byte) = mmcCommand 9 0 (spiCS False h)
      in if byte \<noteq> 0 then (spi2_send [0xff] (spiCS True h), byte, [])
         else let (h, byte) = csd_start 16 byte h
              in if byte \<noteq> MMC_STARTBLOCK_READ then (spi2_send [0xff] (spiCS True h), byte, [])
                 else let (h, buff) = spi2_xfer (replicate 16 0xff) h
                      in (spi2_send [0xff] (spiCS True h), 0, buff))"

definition SDHC_sectors :: "BYTE list \<Rightarrow> DWORD" where
  "SDHC_sectors buff =
     (if buff ! 5 AND 0x0F \<noteq> 9 then 0xffffffff
      else push_bit 10 ((push_bit 16 (ucast (buff ! 7 AND 0x3F)) OR push_bit 8 (ucast (buff ! 8)) OR ucast (buff ! 9)) + 1))"

text \<open>
  A block length below 9 makes the last shift count negative; the processor's shift by register then
  gives 0.
\<close>

definition MMC_sectors :: "BYTE list \<Rightarrow> DWORD" where
  "MMC_sectors buff =
     (let blk_len = 0x0F AND buff ! 5;
          data = push_bit 6 (buff ! 6 AND 0x03) OR drop_bit 2 (buff ! 7);
          c_size = push_bit 4 (ucast data :: DWORD);
          data = push_bit 2 (buff ! 7) OR drop_bit 6 (buff ! 8 AND 0xC0);
          c_size = c_size OR ucast data;
          multi = push_bit 1 (buff ! 9 AND 0x03) OR drop_bit 7 (buff ! 10 AND 0x80);
          sectors = push_bit (unat multi + 2) (c_size + 1)
      in if blk_len \<noteq> 9 then push_bit (if blk_len < 9 then 32 else unat blk_len - 9) sectors else sectors)"

definition SDHC_Capacity :: "hans \<Rightarrow> hans \<times> DWORD" where
  "SDHC_Capacity h = (let (h, byte, buff) = MMC_CardType h in (h, if byte \<noteq> 0 then 0xffffffff else SDHC_sectors buff))"

definition MMC_Capacity :: "hans \<Rightarrow> hans \<times> DWORD" where
  "MMC_Capacity h = (let (h, byte, buff) = MMC_CardType h in (h, if byte \<noteq> 0 then 0xffffffff else MMC_sectors buff))"

fun sdCardInit_loop :: "nat \<Rightarrow> hans \<Rightarrow> hans" where
  "sdCardInit_loop 0 h = h"
| "sdCardInit_loop (Suc n) h =
     (if \<not> isCardInserted h then h
      else let (h, res) = mmcReset h
           in if res = DEVICETYPE_NOTHING then sdCardInit_loop n h
              else let (h, stat) = mmcReadJustForTest 0 h
                   in if stat \<noteq> 0 then sdCardInit_loop n h
                      else let (h, dRes) = (if res = DEVICETYPE_SDHC then SDHC_Capacity h else MMC_Capacity h)
                           in if dRes = 0xffffffff then sdCardInit_loop n h
                              else tryToEmptySdCardBuffer (h\<lparr>sdCard := (sdCard h)\<lparr>Type := res, SCapacity := dRes,
                                     BCapacity := push_bit 9 dRes, IsInit := True, MediaChanged := True\<rparr>\<rparr>))"

definition sdCardInit :: "hans \<Rightarrow> hans" where
  "sdCardInit h =
     (if \<not> isCardInserted h then sdCardZeroInitStruct h
      else if IsInit (sdCard h) then h
      else sdCardInit_loop 5 h)"

end
