(* ===== verification/HansCard.thy ===== *)
theory HansCard
  imports HansMmc
begin

text \<open>
  Sectors between the SD card and the Atari (src/ce_hans_fw/mmc_datatransfer.c, mmcCompare of mmc.c).
  The buffers 0 and 1 are \<open>spiRxBuff1\<close> and \<open>spiRxBuff2\<close>, 2 is \<open>spiRxDummy\<close>.
\<close>

section \<open>DMA with the card\<close>

definition spi2Dma_txRx :: "BYTE list \<Rightarrow> nat \<Rightarrow> hans \<Rightarrow> hans" where
  "spi2Dma_txRx tx b h = h\<lparr>spi2_pend := Some (tx, b)\<rparr>"

definition spi2_run :: "BYTE list \<Rightarrow> nat \<Rightarrow> hans \<Rightarrow> hans" where
  "spi2_run tx b h =
     (let (h, rx) = spi2_xfer tx h in h\<lparr>spiRxBuff := (spiRxBuff h)[b := overwrite (spiRxBuff h ! b) rx], spi2_pend := None\<rparr>)"

definition waitForSpi2Finish :: "hans \<Rightarrow> hans" where
  "waitForSpi2Finish h = (case spi2_pend h of None \<Rightarrow> h | Some (tx, b) \<Rightarrow> spi2_run tx b h)"

definition stopSpi2Dma :: "hans \<Rightarrow> hans" where
  "stopSpi2Dma h =
     (case spi2_pend h of None \<Rightarrow> h
      | Some (tx, b) \<Rightarrow>
          (case cuts h of [] \<Rightarrow> spi2_run [] b h | n # ns \<Rightarrow> spi2_run (take n tx) b (h\<lparr>cuts := ns\<rparr>)))"

section \<open>Timer\<close>

definition timerSetup_cmdTimeoutChangeLength :: "WORD \<Rightarrow> hans \<Rightarrow> hans" where
  "timerSetup_cmdTimeoutChangeLength newPeriod h = h\<lparr>tim3_arr := newPeriod\<rparr>"

abbreviation CMD_TIMEOUT_SHORT :: WORD where "CMD_TIMEOUT_SHORT \<equiv> 549"

definition longTimeout_basedOnSectorCount :: "WORD \<Rightarrow> hans \<Rightarrow> hans" where
  "longTimeout_basedOnSectorCount sectorCount h =
     (let mbCount = ucast (drop_bit 11 sectorCount) + 1 :: DWORD;
          timeoutSecs = mbCount * 3;
          timeoutPeriod = timeoutSecs * 1098;
          timeoutPeriod = (if timeoutPeriod < 0xffff then timeoutPeriod else 0xffff)
      in timerSetup_cmdTimeoutChangeLength (ucast timeoutPeriod) h)"

section \<open>Reading\<close>

text \<open>\<open>READ_BYTE_BFR\<close> for the bytes of a sector; an error from before shows after the first byte.\<close>

fun READ_BYTE_BFRs :: "BYTE list \<Rightarrow> bool \<Rightarrow> hans \<Rightarrow> hans \<times> bool" where
  "READ_BYTE_BFRs [] err h = (h, err)"
| "READ_BYTE_BFRs (b # bs) err h =
     (let (h, ok) = READ_HALF b h in if err \<or> \<not> ok then (h, True) else READ_BYTE_BFRs bs err h)"

datatype rd_start = Started | Failed BYTE

fun read_start :: "nat \<Rightarrow> DWORD \<Rightarrow> hans \<Rightarrow> hans \<times> rd_start" where
  "read_start 0 sector h = (h, Failed 0xff)"
| "read_start (Suc retries) sector h =
     (let (h, t) = h_timeout h
      in if t then (h, Failed 0xff)
         else let (h, r1) = mmcCommand 18 sector (spiCS False h)
              in if r1 \<noteq> 0 then (spiCS True (spi2_send [0xff] h), Failed r1)
                 else let (h, good) = startblock_quick 0xffff h
                      in if good then (h, Started)
                         else read_start retries sector (spi2_send [0xff, 0xff] (spiCS True h)))"

text \<open>One sector, with \<open>follow\<close> when another one follows; \<open>b\<close> is the buffer it arrives in.\<close>

definition read_sector :: "bool \<Rightarrow> nat \<Rightarrow> hans \<Rightarrow> hans \<times> bool" where
  "read_sector follow b h =
     (let h = waitForSpi2Finish (fw_alive h);
          (h, err) = (if \<not> follow then (h, False)
                      else let h = spi2_send [0xff, 0xff] h;
                               (h, ok) = wait_tok (tim h) (\<lambda>h. h) MMC_STARTBLOCK_READ h
                           in (spi2Dma_txRx (replicate 512 0xff) (1 - b) h, \<not> ok))
      in READ_BYTE_BFRs (take 512 (spiRxBuff h ! b)) err h)"

fun read_sectors :: "nat \<Rightarrow> nat \<Rightarrow> hans \<Rightarrow> hans \<times> bool" where
  "read_sectors 0 b h = (h, False)"
| "read_sectors (Suc n) b h =
     (let (h, err) = read_sector (n \<noteq> 0) b h in if err then (h, True) else read_sectors n (1 - b) h)"

definition mmcRead_dma :: "DWORD \<Rightarrow> WORD \<Rightarrow> hans \<Rightarrow> hans \<times> BYTE" where
  "mmcRead_dma sector count h =
     (case read_start 5 (card_address sector h) (h\<lparr>rnw := True\<rparr>) of
        (h, Failed r) \<Rightarrow> (h, r)
      | (h, Started) \<Rightarrow>
          let h = spi2Dma_txRx (replicate 512 0xff) 0 h;
              (h, err) = read_sectors (unat count) 0 h;
              (h, _) = mmcCommand 12 0 (stopSpi2Dma h);
              h = spiCS True (spi2_send [0xff] h)
          in (h, if err then 0xff else 0))"

section \<open>Writing\<close>

text \<open>Bytes from the Atari into a buffer from position \<open>i\<close> on; the result says whether one failed.\<close>

fun take_bytes :: "nat \<Rightarrow> nat \<Rightarrow> nat \<Rightarrow> hans \<Rightarrow> hans \<times> bool" where
  "take_bytes 0 i b h = (h, False)"
| "take_bytes (Suc n) i b h =
     (let (h, r1) = DMA_write h;
          h = h\<lparr>spiRxBuff := (spiRxBuff h)[b := (spiRxBuff h ! b)[i := r1]]\<rparr>
      in if brStat h \<noteq> BR_OK then (h, True) else take_bytes n (Suc i) b h)"

fun write_sectors :: "nat \<Rightarrow> nat \<Rightarrow> DWORD \<Rightarrow> hans \<Rightarrow> hans \<times> bool" where
  "write_sectors 0 b thisSector h = (h, False)"
| "write_sectors (Suc n) b thisSector h =
     (let h = fw_alive h
      in if thisSector \<ge> SCapacity (sdCard h) then (h, True)
         else let h = h\<lparr>spiRxBuff := (spiRxBuff h)[b := (spiRxBuff h ! b)[0 := 0xFC]]\<rparr>;
                  (h, err) = take_bytes 512 1 b h
              in if err then (h, True)
                 else let h = h\<lparr>spiRxBuff := (spiRxBuff h)[b := (spiRxBuff h ! b)[513 := 0xff, 514 := 0xff]]\<rparr>;
                          (h, err) = waitForCardNotBusy (waitForSpi2Finish h)
                      in if err then (h, True)
                         else write_sectors n (1 - b) (thisSector + 1) (spi2Dma_txRx (take 515 (spiRxBuff h ! b)) 2 h))"

definition mmcWrite_dma :: "DWORD \<Rightarrow> WORD \<Rightarrow> hans \<Rightarrow> hans \<times> BYTE" where
  "mmcWrite_dma sector count h =
     (let (h, r1) = mmcCommand 25 (card_address sector h) (spiCS False h)
      in if r1 \<noteq> 0 then (spiCS True (spi2_send [0xff] h), r1)
         else let (h, e1) = write_sectors (unat count) 0 sector (h\<lparr>rnw := False\<rparr>);
                  (h, ok2) = WAIT_FOR_CARD_NOT_BUSY (waitForSpi2Finish h);
                  (h, ok3) = WAIT_FOR_CARD_NOT_BUSY (spi2_send [0xFD] h);
                  (h, ok4) = (if Type (sdCard h) = DEVICETYPE_MMC
                              then WAIT_FOR_CARD_NOT_BUSY (fst (mmcCommand 12 0 h)) else (h, True));
                  h = spiCS True (spi2_send [0xff] h)
              in (h, if e1 \<or> \<not> ok2 \<or> \<not> ok3 \<or> \<not> ok4 then 0xff else 0))"

section \<open>Comparing\<close>

text \<open>The bytes that are left of the sector.\<close>

fun compare_bytes :: "nat \<Rightarrow> hans \<Rightarrow> hans" where
  "compare_bytes 0 h = h"
| "compare_bytes (Suc n) h =
     (let (h, byteSD) = spi2_TxRx 0xff h; (h, byteST) = DMA_write h
      in if brStat h \<noteq> BR_OK \<or> byteST \<noteq> byteSD then spi2_send (replicate (Suc n) 0xff) h else compare_bytes n h)"

definition mmcCompare :: "DWORD \<Rightarrow> hans \<Rightarrow> hans \<times> BYTE" where
  "mmcCompare sector h =
     (let h = spiCS False h; (h, r1) = mmcCommand 17 (card_address sector h) h
      in if r1 \<noteq> 0 then (spiCS True (spi2_send [0xff] h), r1)
         else let (h, ok) = startblock 0x000fffff h
              in if \<not> ok then (spiCS True (spi2_send [0xff] h), 0xff)
                 else let h = compare_bytes 512 (h\<lparr>rnw := False\<rparr>);
                          h = spi2_send (replicate 3 0xff) (spiCS True (spi2_send (replicate 3 0xff) h))
                      in (h, if brStat h \<noteq> BR_OK then 0xff else 0))"

fun compare_sectors :: "nat \<Rightarrow> DWORD \<Rightarrow> hans \<Rightarrow> hans \<times> BYTE" where
  "compare_sectors 0 sector h = (h, 0)"
| "compare_sectors (Suc n) sector h =
     (let (h, res) = mmcCompare sector h in if res \<noteq> 0 then (h, 0xff) else compare_sectors n (sector + 1) h)"

definition mmcCompareMore :: "DWORD \<Rightarrow> WORD \<Rightarrow> hans \<Rightarrow> hans \<times> BYTE" where
  "mmcCompareMore sector count h = compare_sectors (unat count) sector h"

end
