(* ===== verification/HansScsi.thy ===== *)
theory HansScsi
  imports HansCard
begin

text \<open>
  SCSI commands for the SD card (src/ce_hans_fw/scsi.c), the commands of a CosmosEx that works alone
  (cosmosolo.c) and the variable in flash memory (eeprom.c). The commands of the flash library succeed or
  fail as \<open>flash_ok\<close> says.
\<close>

section \<open>eeprom.c\<close>

definition flash_op :: "(hans \<Rightarrow> hans) \<Rightarrow> hans \<Rightarrow> hans \<times> bool" where
  "flash_op f h = (case flash_ok h of [] \<Rightarrow> (f h, True) | b # bs \<Rightarrow> let h = h\<lparr>flash_ok := bs\<rparr> in if b then (f h, True) else (h, False))"

definition EE_ReadVariable :: "WORD \<Rightarrow> hans \<Rightarrow> WORD" where
  "EE_ReadVariable defVal h = (if ee_status h = 0 then ee_value h else defVal)"

definition EE_WriteVariable :: "WORD \<Rightarrow> hans \<Rightarrow> hans" where
  "EE_WriteVariable newValue h =
     (if ee_status h = 0 \<and> ee_value h = newValue then h
      else let (h, ok) = flash_op (\<lambda>h. h\<lparr>ee_status := 0xffff, ee_value := 0xffff\<rparr>) h
           in if \<not> ok then h
              else let (h, ok) = flash_op (\<lambda>h. h\<lparr>ee_status := 0\<rparr>) h
                   in if \<not> ok then h else fst (flash_op (\<lambda>h. h\<lparr>ee_value := newValue\<rparr>) h))"

section \<open>Status and sense data\<close>

definition set_sense :: "BYTE \<Rightarrow> BYTE \<Rightarrow> BYTE \<Rightarrow> hans \<Rightarrow> hans" where
  "set_sense st sk asc h = h\<lparr>sdCard := (sdCard h)\<lparr>LastStatus := st, SCSI_SK := sk, SCSI_ASC := asc, SCSI_ASCQ := 0\<rparr>\<rparr>"

definition send_LastStatus :: "hans \<Rightarrow> hans" where
  "send_LastStatus h = PIO_read (LastStatus (sdCard h)) h"

definition scsi_sendOKstatus :: "hans \<Rightarrow> hans" where
  "scsi_sendOKstatus h = send_LastStatus (set_sense 0 0 0 h)"

definition scsi_returnStatusAccordingToIsInit :: "hans \<Rightarrow> hans" where
  "scsi_returnStatusAccordingToIsInit h =
     (if IsInit (sdCard h) then scsi_sendOKstatus h else send_LastStatus (set_sense 2 2 0x3A h))"

definition scsi_returnLUNnotSupported :: "hans \<Rightarrow> hans" where
  "scsi_returnLUNnotSupported h = send_LastStatus (set_sense 2 5 0x25 h)"

definition scsi_returnUnitAttention :: "hans \<Rightarrow> hans" where
  "scsi_returnUnitAttention h = send_LastStatus (set_sense 2 6 0x28 (h\<lparr>sdCard := (sdCard h)\<lparr>MediaChanged := False\<rparr>\<rparr>))"

definition scsi_clearTheUnitAttention :: "hans \<Rightarrow> hans" where
  "scsi_clearTheUnitAttention h = (let h = set_sense 0 0 0 h in h\<lparr>sdCard := (sdCard h)\<lparr>MediaChanged := False\<rparr>\<rparr>)"

definition ICD7_to_SCSI6 :: "hans \<Rightarrow> hans" where
  "ICD7_to_SCSI6 h = h\<lparr>cmd := map (\<lambda>i. if i < 6 then cmd h ! (i + 1) else cmd h ! i) [0..<14]\<rparr>"

section \<open>Data to the Atari\<close>

fun DMA_reads :: "BYTE list \<Rightarrow> hans \<Rightarrow> hans \<times> bool" where
  "DMA_reads [] h = (h, True)"
| "DMA_reads (b # bs) h = (let h = DMA_read b h in if brStat h \<noteq> BR_OK then (h, False) else DMA_reads bs h)"

definition SCSI_ReadCapacity :: "hans \<Rightarrow> hans" where
  "SCSI_ReadCapacity h =
     (let cap = SCapacity (sdCard h) - 1;
          bs = (if IsInit (sdCard h) then be32_bytes cap else [0, 0, 0, 0])
      in scsi_sendOKstatus (fold DMA_read (bs @ [0, 0, 2, 0]) (h\<lparr>rnw := True\<rparr>)))"

definition sense_byte :: "BYTE \<Rightarrow> BYTE \<Rightarrow> BYTE \<Rightarrow> BYTE \<Rightarrow> nat \<Rightarrow> BYTE" where
  "sense_byte xx sk asc ascq i =
     (if i = 0 then 0xf0 else if i = 2 then sk else if i = 7 then xx - 7 else if i = 12 then asc
      else if i = 13 then ascq else 0)"

definition SCSI_RequestSense :: "BYTE \<Rightarrow> hans \<Rightarrow> hans" where
  "SCSI_RequestSense lun h =
     (let h = (if MediaChanged (sdCard h) then scsi_clearTheUnitAttention h else h);
          d = sdCard h;
          xx = cmd h ! 4;
          f = (if lun = 0 then sense_byte xx (SCSI_SK d) (SCSI_ASC d) (SCSI_ASCQ d) else sense_byte xx 5 0x25 0);
          (h, ok) = DMA_reads (map f [0..<unat xx]) (h\<lparr>rnw := True\<rparr>)
      in if ok then scsi_sendOKstatus h else h)"

text \<open>\<open>JOOKIE  \<close>, the names \<open>CosmosEx \<close> and \<open>CosmoSolo\<close>, \<open> SD   \<close>, the version \<open>2.11\<close> and the date \<open>04/13/17\<close>.\<close>

definition inquiryData :: "BYTE \<Rightarrow> bool \<Rightarrow> BYTE \<Rightarrow> BYTE list" where
  "inquiryData firstByte rpi cardId =
     [firstByte, 0x80, 0x02, 0x02, 0x27, 0x00, 0x00, 0x00, 0x4a, 0x4f, 0x4f, 0x4b, 0x49, 0x45, 0x20, 0x20] @
     (if rpi then [0x43, 0x6f, 0x73, 0x6d, 0x6f, 0x73, 0x45, 0x78, 0x20] else [0x43, 0x6f, 0x73, 0x6d, 0x6f, 0x53, 0x6f, 0x6c, 0x6f]) @
     [0x30 + cardId, 0x20, 0x53, 0x44, 0x20, 0x20, 0x20] @
     [0x32, 0x2e, 0x31, 0x31, 0x30, 0x34, 0x2f, 0x31, 0x33, 0x2f, 0x31, 0x37]"

definition SCSI_Inquiry :: "BYTE \<Rightarrow> hans \<Rightarrow> hans" where
  "SCSI_Inquiry lun h =
     (let firstByte = (if lun = 0 then 0 else 0x7f);
          h = (if MediaChanged (sdCard h) then scsi_clearTheUnitAttention h else h)
      in if cmd h ! 1 AND 1 \<noteq> 0 then send_LastStatus (set_sense 2 5 0x24 h)
         else let inq = inquiryData firstByte (firstConfigReceived h) (sdCardID h);
                  (h, ok) = DMA_reads (map (\<lambda>i. if i \<le> 43 then inq ! i else 0) [0..<unat (cmd h ! 4)]) (h\<lparr>rnw := True\<rparr>)
              in if ok then scsi_sendOKstatus h else h)"

definition SCSI_FormatUnit :: "hans \<Rightarrow> hans" where
  "SCSI_FormatUnit h = scsi_sendOKstatus h"

section \<open>Reading, writing and verifying\<close>

definition rw_start :: "BYTE \<Rightarrow> hans \<Rightarrow> DWORD" where
  "rw_start justCmd h =
     (if justCmd \<in> {0x0a, 0x08} then be32 0 (cmd h ! 1 AND 0x1f) (cmd h ! 2) (cmd h ! 3)
      else if justCmd \<in> {0x2a, 0x28, 0x2f} then be32 (cmd h ! 3) (cmd h ! 4) (cmd h ! 5) (cmd h ! 6) else 0)"

definition rw_count :: "BYTE \<Rightarrow> hans \<Rightarrow> WORD" where
  "rw_count justCmd h =
     (if justCmd \<in> {0x0a, 0x08} then (if cmd h ! 4 = 0 then 256 else ucast (cmd h ! 4))
      else if justCmd \<in> {0x2a, 0x28, 0x2f} then be16 (cmd h ! 8) (cmd h ! 9) else 0)"

definition rw_status :: "BYTE \<Rightarrow> BYTE \<Rightarrow> hans \<Rightarrow> hans" where
  "rw_status res sk h =
     (if res = 0 then scsi_sendOKstatus h
      else send_LastStatus (h\<lparr>sdCard := (sdCard h)\<lparr>LastStatus := 2, SCSI_SK := sk\<rparr>\<rparr>))"

definition processScsiRW :: "BYTE \<Rightarrow> hans \<Rightarrow> hans" where
  "processScsiRW justCmd h =
     (let sectorStart = rw_start justCmd h; sectorCount = rw_count justCmd h;
          sectorEnd = sectorStart + ucast sectorCount - 1
      in if sectorCount \<noteq> 0 \<and> (sectorStart \<ge> SCapacity (sdCard h) \<or> sectorEnd \<ge> SCapacity (sdCard h))
         then send_LastStatus (set_sense 2 5 0x21 h)
         else if justCmd \<in> {0x08, 0x28}
         then let (h, res) = mmcRead_dma sectorStart sectorCount (longTimeout_basedOnSectorCount sectorCount h);
                  h = rw_status res 3 (timerSetup_cmdTimeoutChangeLength CMD_TIMEOUT_SHORT h)
              in if res \<noteq> 0 \<or> pioReadFailed h then h\<lparr>sdErrorCountRead := sdErrorCountRead h + 1\<rparr> else h
         else if justCmd \<in> {0x0a, 0x2a}
         then let (h, res) = mmcWrite_dma sectorStart sectorCount (longTimeout_basedOnSectorCount sectorCount h);
                  h = rw_status res 3 (timerSetup_cmdTimeoutChangeLength CMD_TIMEOUT_SHORT h)
              in if res \<noteq> 0 \<or> pioReadFailed h then h\<lparr>sdErrorCountWrite := sdErrorCountWrite h + 1\<rparr> else h
         else if justCmd = 0x2f
         then let (h, res) = mmcCompareMore sectorStart sectorCount (longTimeout_basedOnSectorCount sectorCount h)
              in rw_status res 0x0e (timerSetup_cmdTimeoutChangeLength CMD_TIMEOUT_SHORT h)
         else h)"

section \<open>The other commands\<close>

definition processScsiOther :: "BYTE \<Rightarrow> bool \<Rightarrow> BYTE \<Rightarrow> hans \<Rightarrow> hans" where
  "processScsiOther justCmd isIcd lun h =
     (if justCmd \<in> {0x1d, 0x16, 0x17, 0x00} then scsi_returnStatusAccordingToIsInit h
      else if justCmd = 0x03 then SCSI_RequestSense lun h
      else if justCmd = 0x04 then SCSI_FormatUnit h
      else if justCmd = 0x25 then SCSI_ReadCapacity h
      else if justCmd = 0x12 then SCSI_Inquiry lun (if isIcd then ICD7_to_SCSI6 h else h)
      else send_LastStatus (set_sense 2 5 0x20 h))"

definition processScsiLocaly :: "BYTE \<Rightarrow> bool \<Rightarrow> hans \<Rightarrow> hans" where
  "processScsiLocaly justCmd isIcd h =
     (let lun = drop_bit 5 (if isIcd then cmd h ! 2 else cmd h ! 1)
      in if lun \<noteq> 0 \<and> justCmd \<noteq> 0x03 \<and> justCmd \<noteq> 0x12 then scsi_returnLUNnotSupported h
         else if \<not> IsInit (sdCard h) \<and> justCmd \<in> {0x08, 0x28, 0x0a, 0x2a, 0x04, 0x25} then scsi_returnStatusAccordingToIsInit h
         else if MediaChanged (sdCard h) \<and> justCmd \<noteq> 0x12 \<and> justCmd \<noteq> 0x03 then scsi_returnUnitAttention h
         else if justCmd \<in> {0x0a, 0x08, 0x2a, 0x28, 0x2f} then processScsiRW justCmd h
         else processScsiOther justCmd isIcd lun h)"

section \<open>cosmosolo.c\<close>

definition updateEnabledIDsInSoloMode :: "hans \<Rightarrow> hans" where
  "updateEnabledIDsInSoloMode h =
     (if hmode h \<noteq> MODE_SOLO then h else h\<lparr>enabledIDs := map (\<lambda>i. of_nat i = sdCardID h) [0..<8]\<rparr>)"

definition cosmoSoloSetNewId :: "hans \<Rightarrow> hans \<times> bool" where
  "cosmoSoloSetNewId h =
     (if cmd h ! 3 = sdCardID h \<and> cmd h ! 4 \<le> 7
      then let h = h\<lparr>sdCardID := cmd h ! 4\<rparr>
           in (updateEnabledIDsInSoloMode (EE_WriteVariable (ucast (sdCardID h)) h), True)
      else (h, False))"

text \<open>The test words: one per two bytes.\<close>

fun solo_read_words :: "nat \<Rightarrow> WORD \<Rightarrow> WORD \<Rightarrow> hans \<Rightarrow> hans \<times> bool" where
  "solo_read_words 0 counter x h = (h, True)"
| "solo_read_words (Suc n) counter x h =
     (let (h, ok) = DMA_reads (be16_bytes (counter XOR x)) h
      in if ok then solo_read_words n (counter + 1) x h else (h, False))"

fun solo_write_words :: "nat \<Rightarrow> WORD \<Rightarrow> WORD \<Rightarrow> bool \<Rightarrow> hans \<Rightarrow> hans \<times> bool" where
  "solo_write_words 0 counter x good h = (h, good)"
| "solo_write_words (Suc n) counter x good h =
     (let (h, hiByte) = DMA_write h
      in if brStat h \<noteq> BR_OK then (h, False)
         else let (h, loByte) = DMA_write h
              in if brStat h \<noteq> BR_OK then (h, False)
                 else solo_write_words n (counter + 1) x (good \<and> be16 hiByte loByte = counter XOR x) h)"

definition soloTestReadNotWrite :: "bool \<Rightarrow> hans \<Rightarrow> hans \<times> bool" where
  "soloTestReadNotWrite rd h =
     (let byteCount = be32 0 (cmd h ! 6) (cmd h ! 7) (cmd h ! 8);
          xorVal = be16 (cmd h ! 9) (cmd h ! 10);
          n = (unat byteCount + 1) div 2
      in if rd then solo_read_words n 0 xorVal (h\<lparr>rnw := True\<rparr>) else solo_write_words n 0 xorVal True (h\<lparr>rnw := False\<rparr>))"

definition solo_ids :: "hans \<Rightarrow> BYTE list" where
  "solo_ids h =
     map (\<lambda>i. if enabledIDs h ! i then (if of_nat i = sdCardID h then 1 else 3) else 0) [0..<8] @
     [fold (\<lambda>i bits. if enabledIDs h ! i then bits OR push_bit i 1 else bits) [0..<8] 0,
      sdCardID h, (if IsInit (sdCard h) then 1 else 0)] @
     be16_bytes (sdErrorCountWrite h) @ be16_bytes (sdErrorCountRead h) @
     (if IsInit (sdCard h) then be32_bytes (SCapacity (sdCard h)) else [0, 0, 0, 0]) @ replicate 13 0"

definition soloTestGetACSIids :: "hans \<Rightarrow> hans \<times> bool" where
  "soloTestGetACSIids h =
     (let h = (if cmd h ! 6 = 0x52 then h\<lparr>sdErrorCountWrite := 0, sdErrorCountRead := 0\<rparr> else h)
      in DMA_reads (solo_ids h) (h\<lparr>rnw := True\<rparr>))"

definition processCosmoSoloCommands :: "bool \<Rightarrow> hans \<Rightarrow> hans" where
  "processCosmoSoloCommands isIcd h =
     (let (h, good) =
        (if isIcd
         then if cmd h ! 5 = 0x90 then soloTestReadNotWrite True h
              else if cmd h ! 5 = 0x91 then soloTestReadNotWrite False h
              else if cmd h ! 5 = 0x92 then soloTestGetACSIids h
              else (h, False)
         else cosmoSoloSetNewId h)
      in if good then scsi_sendOKstatus h else PIO_read 2 h)"

end
