(* ===== verification/HansMain.thy ===== *)
theory HansMain
  imports HansScsi
begin

text \<open>
  The main program of Hans (src/ce_hans_fw/main.c): commands from the Atari, the data and status phases
  with the Raspberry Pi at the other end, the host's commands, button and LEDs, and the main loop.
\<close>

section \<open>LEDs and configuration\<close>

abbreviation LED1 :: WORD where "LED1 \<equiv> 0x0800"
abbreviation LED2 :: WORD where "LED2 \<equiv> 0x1000"
abbreviation LED3 :: WORD where "LED3 \<equiv> 0x8000"

definition updateLEDs :: "hans \<Rightarrow> hans" where
  "updateLEDs h =
     (let l = leds h;
          nev = (if hmode h = MODE_WITH_RPI
                 then if btnDownTime h \<ge> 2 then startingRecoveryCommand l else showingSelectedFddImage l
                 else goingSolo l)
      in if led_prev l \<noteq> nev then h\<lparr>leds := l\<lparr>led_nev := nev, led_prev := nev\<rparr>, gpio_leds := nev\<rparr>
         else h\<lparr>leds := l\<lparr>led_nev := nev\<rparr>\<rparr>)"

definition serveButtonForRecoveryCmd :: "bool \<Rightarrow> hans \<Rightarrow> hans" where
  "serveButtonForRecoveryCmd pressed h =
     (if \<not> pressed
      then let h = (if btnDownTime h \<ge> 5
                    then h\<lparr>leds := (leds h)\<lparr>startingRecoveryCommand := 0\<rparr>,
                           recoveryLevel_toHost := (if btnDownTime h \<ge> 15 then 3 else if btnDownTime h \<ge> 10 then 2 else 1) + 0x51\<rparr>
                    else h)
           in h\<lparr>btnDownTime := 0\<rparr>
      else let t = btnDownTime h + 1; t = (if t > 15 then 15 else t);
               l = leds h;
               l = (if t \<ge> 15 then l\<lparr>startingRecoveryCommand := LED1 OR LED2 OR LED3\<rparr>
                    else if t \<ge> 10 then l\<lparr>startingRecoveryCommand := LED1 OR LED2\<rparr>
                    else if t \<ge> 5 then l\<lparr>startingRecoveryCommand := LED1\<rparr> else l)
           in h\<lparr>btnDownTime := t, leds := l\<rparr>)"

text \<open>At most \<open>n\<close> steps to an enabled image.\<close>

fun fixLeds_loop :: "nat \<Rightarrow> hans \<Rightarrow> hans" where
  "fixLeds_loop 0 h = h\<lparr>currentLed := 0xff\<rparr>"
| "fixLeds_loop (Suc n) h =
     (if currentLed h = 0xff then h
      else if enabledImgs h ! unat (currentLed h) then h
      else let led = currentLed h + 1 in fixLeds_loop n (h\<lparr>currentLed := (if led > 2 then 0xff else led)\<rparr>))"

definition fixLedsByEnabledImgs :: "hans \<Rightarrow> hans" where
  "fixLedsByEnabledImgs h = fixLeds_loop 3 h"

definition showCurrentLED :: "hans \<Rightarrow> hans" where
  "showCurrentLED h =
     h\<lparr>leds := (leds h)\<lparr>showingSelectedFddImage :=
         (if currentLed h = 0 then LED1 else if currentLed h = 1 then LED2 else if currentLed h = 2 then LED3 else 0)\<rparr>\<rparr>"

definition onButtonPress :: "WORD \<Rightarrow> hans \<Rightarrow> hans" where
  "onButtonPress cnt h =
     (if cnt - prevBtnPressTime h < 500 then h
      else let led = currentLed h + 1
           in showCurrentLED (fixLedsByEnabledImgs (h\<lparr>prevBtnPressTime := cnt, currentLed := (if led > 2 then 0xff else led)\<rparr>)))"

definition handleAcsiConfig :: "BYTE \<Rightarrow> BYTE \<Rightarrow> hans \<Rightarrow> hans" where
  "handleAcsiConfig acsiIds sdId h =
     (let h = showCurrentLED (h\<lparr>firstConfigReceived := True, hmode := MODE_WITH_RPI\<rparr>);
          h = h\<lparr>enabledIDs := map (\<lambda>j. acsiIds AND push_bit j 1 \<noteq> 0) [0..<8], sdCardID := sdId\<rparr>
      in EE_WriteVariable (ucast sdId) h)"

definition handleFddConfig :: "BYTE \<Rightarrow> hans \<Rightarrow> hans" where
  "handleFddConfig imgs h =
     showCurrentLED (fixLedsByEnabledImgs (h\<lparr>enabledImgs := map (\<lambda>j. imgs AND push_bit j 1 \<noteq> 0) [0..<3]\<rparr>))"

definition handleFddSwitch :: "BYTE \<Rightarrow> hans \<Rightarrow> hans" where
  "handleFddSwitch img h =
     (let h = (if img < 3 \<and> enabledImgs h ! unat img then h\<lparr>currentLed := img\<rparr> else h);
          h = (if img = 0xff then h\<lparr>currentLed := img\<rparr> else h)
      in showCurrentLED h)"

section \<open>Commands from the host\<close>

definition clear_words :: "nat list \<Rightarrow> hans \<Rightarrow> hans" where
  "clear_words is h = h\<lparr>cmdBuffer := fold (\<lambda>i b. b[i := 0]) is (cmdBuffer h)\<rparr>"

definition data_count :: "nat \<Rightarrow> hans \<Rightarrow> DWORD" where
  "data_count i h = push_bit 8 (ucast (cmdBuffer h ! (i + 1))) OR ucast (drop_bit 8 (cmdBuffer h ! (i + 2)))"

text \<open>
  From word \<open>i\<close> of the buffer on. A command whose parameters would be behind the buffer's 16 words makes
  the code read and clear other variables: the result is \<open>None\<close>.
\<close>

function processHostCommands_from :: "nat \<Rightarrow> hans \<Rightarrow> hans option" where
  "processHostCommands_from i h =
     (if i \<ge> 16 then Some h
      else let c = cmdBuffer h ! i; w1 = cmdBuffer h ! (i + 1); w2 = cmdBuffer h ! (i + 2)
           in if c = 0x10
              then if i + 2 \<ge> 16 then None
                   else let h = handleFddConfig (ucast (drop_bit 8 w2)) (handleAcsiConfig (ucast (drop_bit 8 w1)) (ucast w1) h)
                        in processHostCommands_from (i + 3) (clear_words [i, i + 1, i + 2] (h\<lparr>config_acsi := w1, config_fdd := w2 AND 0xff00\<rparr>))
              else if c = 0x80
              then if i + 1 \<ge> 16 then None
                   else let h = handleFddSwitch (ucast w1) (handleFddConfig (ucast (drop_bit 8 w1)) h)
                        in processHostCommands_from (i + 2) (clear_words [i, i + 1] (h\<lparr>config_fdd := w1 AND 0xff00\<rparr>))
              else if c = 0x20 \<or> c = 0x30 \<or> c = 0x50
              then if i + 2 \<ge> 16 then None
                   else let h = h\<lparr>dataCnt := data_count i h, statusByte := ucast w2,
                                  hstate := (if c = 0x20 then STATE_DATA_WRITE
                                             else if c = 0x30 then STATE_DATA_READ_WITH_STATUS
                                             else STATE_DATA_READ_WITHOUT_STATUS)\<rparr>
                        in processHostCommands_from (i + 3) (clear_words [i, i + 1, i + 2] h)
              else processHostCommands_from (i + 1) h)"
  by pat_completeness auto
termination by (relation "measure (\<lambda>(i, _). 16 - i)") auto

declare processHostCommands_from.simps [simp del]

definition processHostCommands :: "hans \<Rightarrow> hans option" where
  "processHostCommands h = processHostCommands_from 0 h"

section \<open>Commands from the Atari\<close>

definition acsi_cmdLen :: "BYTE \<Rightarrow> BYTE \<Rightarrow> BYTE" where
  "acsi_cmdLen c0 c1 =
     (if c0 AND 0x1f = 0x1f
      then let g = drop_bit 5 (c1 AND 0xe0) in if g = 1 \<or> g = 2 then 11 else if g = 5 then 13 else 7
      else 6)"

definition getCmdLengthFromCmdBytesAcsi :: "hans \<Rightarrow> hans" where
  "getCmdLengthFromCmdBytesAcsi h = h\<lparr>cmdLen := acsi_cmdLen (cmd h ! 0) (cmd h ! 1)\<rparr>"

definition scsi_cmdLen :: "BYTE \<Rightarrow> BYTE" where
  "scsi_cmdLen c =
     (let g = drop_bit 5 (c AND 0xe0)
      in if g = 1 \<or> g = 2 then 10 else if g = 4 then 16 else if g = 5 then 12 else 6)"

definition getCmdLengthFromCmdBytesScsi :: "BYTE \<Rightarrow> hans \<Rightarrow> hans" where
  "getCmdLengthFromCmdBytesScsi c h = h\<lparr>cmdLen := scsi_cmdLen c\<rparr>"

text \<open>
  The outcome of receiving a command: it was received, it failed or is not for this device, or a byte went
  behind the 14 bytes of \<open>cmd\<close>.
\<close>

datatype got = Good | Bad | Overflow

text \<open>The bytes from index \<open>i\<close> on; \<open>len_at\<close> is the index after which the length is known.\<close>

function get_bytes :: "nat \<Rightarrow> nat \<Rightarrow> (hans \<Rightarrow> hans) \<Rightarrow> hans \<Rightarrow> hans \<times> got" where
  "get_bytes i len_at setLen h =
     (if i \<ge> 16 \<or> i \<ge> unat (cmdLen h) then (h, Good)
      else let (h, b) = PIO_write h
           in if i \<ge> 14 then (h, Overflow)
              else let h = h\<lparr>cmd := (cmd h)[i := b]\<rparr>
                   in if brStat h \<noteq> BR_OK then (resetXilinx h, Bad)
                      else get_bytes (i + 1) len_at setLen (if i = len_at then setLen h else h))"
  by pat_completeness auto
termination by (relation "measure (\<lambda>(i, _). 16 - i)") auto

declare get_bytes.simps [simp del]

definition onGetCommandAcsi :: "hans \<Rightarrow> hans \<times> got" where
  "onGetCommandAcsi h =
     (let (h, b) = PIO_writeFirst h;
          h = h\<lparr>cmd := (cmd h)[0 := b]\<rparr>;
          ident = drop_bit 5 b AND 0x07
      in if \<not> enabledIDs h ! unat ident then (h, Bad)
         else get_bytes 1 1 getCmdLengthFromCmdBytesAcsi (h\<lparr>cmdLen := 6\<rparr>))"

definition onGetCommandScsi :: "hans \<Rightarrow> hans \<times> got" where
  "onGetCommandScsi h =
     (let (h, sel) = PIO_writeFirst h
      in case List.find (\<lambda>i. sel AND push_bit i 1 \<noteq> 0 \<and> enabledIDs h ! i) [0..<8] of
           None \<Rightarrow> (h, Bad)
         | Some ident \<Rightarrow>
             let (h, g) = get_bytes 0 0 (\<lambda>h. getCmdLengthFromCmdBytesScsi (cmd h ! 0) h) (h\<lparr>cmdLen := 6\<rparr>)
             in if g \<noteq> Good then (h, g)
                else let h = (if cmdLen h > 6
                              then h\<lparr>cmd := 0x1f # take 13 (cmd h), cmdLen := cmdLen h + 1\<rparr> else h)
                     in (h\<lparr>cmd := (cmd h)[0 := cmd h ! 0 OR push_bit 5 (of_nat ident)]\<rparr>, Good))"

text \<open>Whether the command was processed here.\<close>

definition tryProcessLocally :: "hans \<Rightarrow> hans \<times> bool" where
  "tryProcessLocally h =
     (let ident = drop_bit 5 (cmd h ! 0) AND 0x07;
          isIcd = (cmd h ! 0 AND 0x1f = 0x1f);
          justCmd = (if isIcd then cmd h ! 1 else cmd h ! 0 AND 0x1f);
          cmdIsForCE = (if isIcd then justCmd = 0xa0 else justCmd = 0);
          (tag1, tag2) = (if isIcd then (cmd h ! 2, cmd h ! 3) else (cmd h ! 1, cmd h ! 2))
      in if firstConfigReceived h \<and> cmdIsForCE \<and> tag1 = 0x43 \<and> tag2 = 0x45 then (h, False)
         else if cmdIsForCE \<and> tag1 = 0x43 \<and> tag2 = 0x53 then (processCosmoSoloCommands isIcd h, True)
         else if ident = sdCardID h then (processScsiLocaly justCmd isIcd h, True)
         else (h, False))"

definition command_words :: "BYTE list \<Rightarrow> WORD list" where
  "command_words c = map (\<lambda>i. be16 (c ! (2 * i)) (c ! (2 * i + 1))) [0..<7]"

text \<open>None: a byte of the command overwrote the variables behind \<open>cmd\<close>.\<close>

definition onGetCommand :: "hans \<Rightarrow> hans option" where
  "onGetCommand h =
     (let (h, g) = (if isAcsiNotScsi h then onGetCommandAcsi h else onGetCommandScsi h)
      in case g of
           Overflow \<Rightarrow> None
         | Bad \<Rightarrow> Some h
         | Good \<Rightarrow>
             let ident = drop_bit 5 (cmd h ! 0) AND 0x07;
                 (h, loc) = (if enabledIDs h ! unat ident then tryProcessLocally h else (h, False))
             in if loc \<or> hmode h = MODE_SOLO then Some h
                else let h = h\<lparr>atnCommand := take 4 (atnCommand h) @ command_words (cmd h) @ drop 11 (atnCommand h)\<rparr>;
                         (h, _) = hans_spiDma_txRx 12 (atnCommand h) 16 RxCmd h
                     in Some (h\<lparr>hstate := STATE_WAIT_COMMAND_RESPONSE, shouldProcessCommands := True\<rparr>))"

end
