(* ===== verification/HansData.thy ===== *)
theory HansData
  imports HansMain
begin

text \<open>
  Data and status phases with the Raspberry Pi, the processing of one command from the Atari and the main
  loop of Hans (src/ce_hans_fw/main.c, continued). \<open>None\<close> stands for an access outside an array.
\<close>

section \<open>Reading\<close>

definition startSpiDmaForDataRead :: "DWORD \<Rightarrow> nat \<Rightarrow> hans \<Rightarrow> hans" where
  "startSpiDmaForDataRead cnt b h =
     (let subCount = (if cnt < 512 then cnt else 512);
          recvCount = subCount div 2 + (subCount AND 1) + 6;
          h = h\<lparr>rdBufs := (rdBufs h)[b := (rdBufs h ! b)\<lparr>rb_dataBytesCount := ucast subCount, rb_count := ucast recvCount\<rparr>]\<rparr>;
          h = h\<lparr>atnMore := (atnMore h)[4 := seqNo h], seqNo := seqNo h + 1\<rparr>
      in fst (hans_spiDma_txRx 6 (atnMore h) (ucast recvCount) (RxRd b) h))"

text \<open>The words after the data marker.\<close>

fun after_marker :: "WORD list \<Rightarrow> WORD list option" where
  "after_marker [] = None"
| "after_marker (w # ws) = (if w = 0xda then Some ws else after_marker ws)"

definition find_data :: "TReadBuffer \<Rightarrow> WORD list option" where
  "find_data b = map_option (\<lambda>ws. ws @ drop (unat (rb_count b)) (rb_buffer b)) (after_marker (take (unat (rb_count b)) (rb_buffer b)))"

text \<open>The next block is requested before the current one is sent.\<close>

definition request_next :: "nat \<Rightarrow> hans \<Rightarrow> hans" where
  "request_next b h =
     (if dataCnt h > 0
      then let h = startSpiDmaForDataRead (dataCnt h) b h
           in h\<lparr>dataCnt := dataCnt h - ucast (rb_dataBytesCount (rdBufs h ! b))\<rparr>
      else h)"

fun read_blocks :: "nat \<Rightarrow> nat \<Rightarrow> bool \<Rightarrow> hans \<Rightarrow> hans option" where
  "read_blocks 0 b withStatus h =
     Some (if withStatus then PIO_read (statusByte h) (h\<lparr>hstate := STATE_GET_COMMAND\<rparr>) else h\<lparr>hstate := STATE_READ_STATUS\<rparr>)"
| "read_blocks (Suc n) b withStatus h =
     (let (h, idle) = spi_idle h
      in if \<not> idle then Some (h\<lparr>spiIdle := True, rnw := False\<rparr>)
         else let h = request_next (1 - b) h; rb = rdBufs h ! b
              in case find_data rb of
                   None \<Rightarrow> Some (if withStatus then PIO_read 2 h else h)
                 | Some pData \<Rightarrow>
                     if 2 * length pData < unat (rb_dataBytesCount rb) then None
                     else let (h, ok) = dataReadCloop pData (unat (rb_dataBytesCount rb)) h
                          in if ok then read_blocks n (1 - b) withStatus h else Some (h\<lparr>rnw := False\<rparr>))"

definition onDataRead :: "bool \<Rightarrow> hans \<Rightarrow> hans option" where
  "onDataRead withStatus h =
     (let h = h\<lparr>seqNo := 0, hstate := STATE_GET_COMMAND\<rparr>
      in if dataCnt h = 0 \<and> withStatus then Some (PIO_read (statusByte h) h)
         else let loopCount = unat (dataCnt h) div 512 + (if unat (dataCnt h) mod 512 \<noteq> 0 then 1 else 0);
                  h = startSpiDmaForDataRead (dataCnt h) 0 h;
                  h = h\<lparr>dataCnt := dataCnt h - ucast (rb_dataBytesCount (rdBufs h ! 0)), rnw := True\<rparr>
              in read_blocks loopCount 0 withStatus h)"

section \<open>Writing\<close>

definition put_word :: "nat \<Rightarrow> nat \<Rightarrow> WORD \<Rightarrow> hans \<Rightarrow> hans" where
  "put_word b index w h = h\<lparr>wrBufs := (wrBufs h)[b := (wrBufs h ! b)\<lparr>wr_buffer := (wr_buffer (wrBufs h ! b))[index := w]\<rparr>]\<rparr>"

text \<open>The words of a block from \<open>index\<close> on; the result is the index behind them, or None after a time-out.\<close>

fun get_words :: "nat \<Rightarrow> nat \<Rightarrow> nat \<Rightarrow> nat \<Rightarrow> hans \<Rightarrow> hans \<times> nat option" where
  "get_words 0 subCount index b h = (h, Some index)"
| "get_words (Suc n) subCount index b h =
     (let (h, hi) = DMA_write h
      in if brStat h = E_TimeOut then (h, None)
         else if subCount - 1 = 0 then (put_word b index (push_bit 8 (ucast hi)) h, Some (index + 1))
         else let (h, lo) = DMA_write h
              in if brStat h = E_TimeOut then (h, None)
                 else get_words n (subCount - 2) (index + 1) b (put_word b index (be16 hi lo) h))"

function write_blocks :: "bool \<Rightarrow> nat \<Rightarrow> nat \<Rightarrow> hans \<Rightarrow> hans" where
  "write_blocks firstLoop b cnt h =
     (if cnt = 0 then h\<lparr>dataCnt := 0, hstate := STATE_READ_STATUS\<rparr>
      else let subCount = (if cnt > 512 then 512 else cnt);
               h = h\<lparr>dataCnt := of_nat (cnt - subCount)\<rparr>;
               h = (put_word b 4 (seqNo h) h)\<lparr>seqNo := seqNo h + 1\<rparr>;
               (h, r) = get_words (subCount div 2 + subCount mod 2) subCount 5 b h
           in case r of
                None \<Rightarrow> h\<lparr>hstate := STATE_GET_COMMAND\<rparr>
              | Some index \<Rightarrow>
                  let h = put_word b index 0 h;
                      h = h\<lparr>wrBufs := (wrBufs h)[b := (wrBufs h ! b)\<lparr>wr_count := of_nat (index + 1)\<rparr>]\<rparr>;
                      (h, ok) = hans_spiDma_txRx (wr_count (wrBufs h ! b)) (wr_buffer (wrBufs h ! b)) 1 RxSmall h
                  in if \<not> firstLoop \<and> \<not> ok then h\<lparr>hstate := STATE_GET_COMMAND\<rparr>
                     else write_blocks False (1 - b) (cnt - subCount) h)"
  by pat_completeness auto
termination by (relation "measure (\<lambda>(_, _, cnt, _). cnt)") auto

declare write_blocks.simps [simp del]

definition onDataWrite :: "hans \<Rightarrow> hans" where
  "onDataWrite h = write_blocks True 0 (unat (dataCnt h)) (h\<lparr>seqNo := 0, rnw := False\<rparr>)"

section \<open>Status\<close>

definition find_status :: "WORD list \<Rightarrow> BYTE" where
  "find_status ws = (case List.find (\<lambda>i. ws ! i = 0x40) [0..<8] of None \<Rightarrow> 0xff | Some i \<Rightarrow> ucast (drop_bit 8 (ws ! (i + 1))))"

definition onReadStatus :: "hans \<Rightarrow> hans" where
  "onReadStatus h =
     (let (h, _) = hans_spiDma_txRx 5 (atnStatus h) 8 RxCmd h;
          (h, _) = hans_spiDma_waitForFinish h
      in (PIO_read (find_status (cmdBuffer h)) h)\<lparr>hstate := STATE_GET_COMMAND\<rparr>)"

section \<open>One command of the Atari\<close>

definition long_phase :: "(hans \<Rightarrow> hans option) \<Rightarrow> hans \<Rightarrow> hans option" where
  "long_phase f h =
     map_option (timerSetup_cmdTimeoutChangeLength CMD_TIMEOUT_SHORT)
       (f (longTimeout_basedOnSectorCount (ucast (drop_bit 9 (dataCnt h))) h))"

text \<open>One pass of the loop; the flag says that it ended the loop.\<close>

definition acsi_pass :: "hans \<Rightarrow> (hans \<times> bool) option" where
  "acsi_pass h =
     (case (if hstate h = STATE_GET_COMMAND \<and> PIO_gotFirstCmdByte h then onGetCommand h else Some h) of
        None \<Rightarrow> None
      | Some h \<Rightarrow>
          if hstate h = STATE_DATA_READ_WITH_STATUS \<or> hstate h = STATE_DATA_READ_WITHOUT_STATUS
          then map_option (\<lambda>h. (h, True)) (long_phase (onDataRead (hstate h = STATE_DATA_READ_WITH_STATUS)) h)
          else case (if hstate h = STATE_DATA_WRITE then long_phase (\<lambda>h. Some (onDataWrite h)) h else Some h) of
                 None \<Rightarrow> None
               | Some h \<Rightarrow>
                   if hstate h = STATE_READ_STATUS then Some (onReadStatus h, True)
                   else let (h, idle) = spi_idle h
                        in case (if idle \<and> shouldProcessCommands h
                                 then map_option (\<lambda>h. h\<lparr>shouldProcessCommands := False\<rparr>) (processHostCommands h) else Some h) of
                             None \<Rightarrow> None
                           | Some h \<Rightarrow>
                               let (h, t) = h_timeout h
                               in if t then Some (h\<lparr>hstate := STATE_GET_COMMAND\<rparr>, True)
                                  else Some (h, hstate h = STATE_GET_COMMAND))"

text \<open>The loop: \<open>None\<close> when it does not end, \<open>Some None\<close> after an access outside an array.\<close>

partial_function (option) acsi_loop :: "hans \<Rightarrow> hans option option" where
  "acsi_loop h =
     (case acsi_pass h of
        None \<Rightarrow> Some None
      | Some (h, fin) \<Rightarrow> if fin then Some (Some h) else acsi_loop h)"

definition getXilinxStatus :: "hans \<Rightarrow> hans" where
  "getXilinxStatus h =
     (let (h, val) = (case xilinx_in h of [] \<Rightarrow> (h, 0) | x # xs \<Rightarrow> (h\<lparr>xilinx_in := xs\<rparr>, x));
          h = h\<lparr>rnw := False, xilinxBusIdle := drop_bit 7 val, xilinxHwFw := val AND 0x7f,
                hwVersion := drop_bit 4 (val AND 0x7f)\<rparr>
      in h\<lparr>isAcsiNotScsi := \<not> (hwVersion h = 2 \<and> xilinxHwFw h AND 0x03 = 2)\<rparr>)"

definition isBusIdle :: "hans \<Rightarrow> hans \<times> bool" where
  "isBusIdle h = (let h = getXilinxStatus h in (h, xilinxBusIdle h \<noteq> 0))"

definition after_command :: "hans \<Rightarrow> hans" where
  "after_command h =
     (let h = (if brStat h \<noteq> BR_OK then resetXilinx h else h)
      in if isAcsiNotScsi h then h
         else let (h, idle) = isBusIdle h in if idle then h else resetXilinx h)"

definition handleAcsiCommand :: "hans \<Rightarrow> hans option option" where
  "handleAcsiCommand h = map_option (map_option after_command) (acsi_loop h)"

section \<open>The main loop\<close>

text \<open>What an iteration of the main loop sees: timer 1, the card switch, the button and its edge.\<close>

record hans_in =
  in_tim1 :: WORD
  in_card :: bool
  in_first :: "BYTE option"
  in_pressed :: bool
  in_button :: bool

definition main_card :: "WORD \<Rightarrow> bool \<Rightarrow> hans \<Rightarrow> hans" where
  "main_card t ins h =
     (let h = h\<lparr>card_detect := ins\<rparr>;
          h = (if prevIsCardInserted h \<noteq> isCardInserted h
               then h\<lparr>prevIsCardInserted := isCardInserted h, cardInsertChanged := True, cardDetectTime := t\<rparr> else h)
      in if cardInsertChanged h \<and> t - cardDetectTime h \<ge> 1000 then sdCardInit (h\<lparr>cardInsertChanged := False\<rparr>) else h)"

definition main_stuck :: "hans \<Rightarrow> hans" where
  "main_stuck h =
     (let (h, idle) = spi_idle h
      in if idle then h
         else let (h, t) = h_timeout h
              in if \<not> t then h
                 else let h = h\<lparr>spiIdle := True, hstate := STATE_GET_COMMAND\<rparr>
                      in if hmode h \<noteq> MODE_UNKNOWN then h
                         else let h = h\<lparr>timeOutCount := timeOutCount h + 1\<rparr>; c = timeOutCount h
                              in h\<lparr>leds := (leds h)\<lparr>goingSolo := (if c = 1 then LED1 else if c = 2 then LED2
                                    else if c = 3 then LED3 else goingSolo (leds h))\<rparr>\<rparr>)"

definition main_solo :: "hans \<Rightarrow> hans" where
  "main_solo h =
     (if hmode h = MODE_UNKNOWN \<and> timeOutCount h \<ge> 3
      then let h = h\<lparr>leds := (leds h)\<lparr>goingSolo := LED1 OR LED2 OR LED3\<rparr>, hmode := MODE_SOLO, hstate := STATE_GET_COMMAND, sendFw := False\<rparr>;
               h = h\<lparr>sdCardID := ucast (EE_ReadVariable (if isAcsiNotScsi h then 0 else 1) h)\<rparr>;
               h = (if \<not> isAcsiNotScsi h \<and> sdCardID h = 0 then h\<lparr>sdCardID := 1\<rparr> else h)
           in updateEnabledIDsInSoloMode h
      else h)"

definition main_host :: "hans_in \<Rightarrow> hans \<Rightarrow> hans option" where
  "main_host i h =
     (let (h, idle) = spi_idle h
      in case (if idle \<and> shouldProcessCommands h
               then map_option (\<lambda>h. h\<lparr>shouldProcessCommands := False\<rparr>) (processHostCommands h) else Some h) of
           None \<Rightarrow> None
         | Some h \<Rightarrow>
             let (h, idle) = spi_idle h;
                 h = (if idle \<and> sendFw h then sendFwToHost (serveButtonForRecoveryCmd (in_pressed i) h) else h);
                 h = (if in_button i then onButtonPress (in_tim1 i) h else h);
                 (h, t) = tim2_flag h
             in Some (if t then h\<lparr>sendFw := True\<rparr> else h))"

definition hans_main_iter :: "hans_in \<Rightarrow> hans \<Rightarrow> hans option option" where
  "hans_main_iter i h =
     (let h = main_card (in_tim1 i) (in_card i) (updateLEDs h);
          h = (case in_first i of None \<Rightarrow> h | Some b \<Rightarrow> h\<lparr>first_cmd := Some b\<rparr>)
      in case (if PIO_gotFirstCmdByte h then handleAcsiCommand h else Some (Some h)) of
           None \<Rightarrow> None
         | Some None \<Rightarrow> Some None
         | Some (Some h) \<Rightarrow>
             let h = main_solo (main_stuck h)
             in if hmode h = MODE_SOLO then Some (Some h) else Some (main_host i h))"

definition hans_init :: "bool \<Rightarrow> hans \<Rightarrow> hans" where
  "hans_init ins h =
     (let h = h\<lparr>hstate := STATE_GET_COMMAND, sendFw := False, firstConfigReceived := False\<rparr>;
          h = hans_setupAtnBuffers h;
          h = h\<lparr>spiIdle := True, spiTXidle := True, spiRXidle := True, currentLed := 0xff, shouldProcessCommands := False,
                rnw := False, first_cmd := None, enabledIDs := replicate 8 False, sdCardID := 0xff,
                enabledImgs := (enabledImgs h)[1 := False, 2 := False], prevBtnPressTime := 0, cardInsertChanged := False,
                cardDetectTime := 0, card_detect := ins, prevIsCardInserted := ins\<rparr>;
          h = (if ins then let h = sdCardInit h in h\<lparr>sdCard := (sdCard h)\<lparr>MediaChanged := False\<rparr>\<rparr> else sdCardZeroInitStruct h)
      in resetXilinx (getXilinxStatus h))"

end
