(* ===== verification/HansCmd.thy ===== *)
theory HansCmd
  imports HansData
begin

text \<open>
  Commands from the bus: what the receivers of ACSI and SCSI commands leave in \<open>cmd\<close>.
\<close>

section \<open>Power on\<close>

text \<open>The variables as the C start-up code leaves them, with no input.\<close>

definition hans_zero :: hans where
  "hans_zero =
     \<lparr>strobes = [], first_cmd = None, tim = [], tim2 = [], card_in = [], cuts = [], host_in = [], spi1_ok = [], xilinx_in = [], bus_out = [],
      card_out = [], host_out = [], rnw = False, tim3_arr = 0, gpio_leds = 0, card_detect = False, flash_ok = [], ee_status = 0, ee_value = 0,
      hstate = STATE_GET_COMMAND, dataCnt = 0, statusByte = 0, sendFw = False, atnFw = replicate 10 0, atnCommand = replicate 12 0,
      atnMore = replicate 6 0, atnStatus = replicate 5 0, seqNo = 0, wrBufs = replicate 2 \<lparr>wr_buffer = replicate 275 0, wr_count = 0\<rparr>,
      rdBufs = replicate 2 \<lparr>rb_buffer = replicate 275 0, rb_count = 0, rb_dataBytesCount = 0\<rparr>, smallDataBuffer = replicate 2 0,
      cmdBuffer = replicate 16 0, cmd = replicate 14 0, cmdLen = 0, brStat = 0, lastScsiStatusByte = 0, pioReadFailed = False,
      enabledIDs = replicate 8 False, sdCardID = 0,
      sdCard = \<lparr>Type = 0, IsInit = False, MediaChanged = False, BCapacity = 0, SCapacity = 0, LastStatus = 0, SCSI_SK = 0, SCSI_ASC = 0, SCSI_ASCQ = 0\<rparr>,
      sdErrorCountRead = 0, sdErrorCountWrite = 0, spiRxBuff = replicate 3 (replicate 520 0), spi2_pend = None, spiIdle = False, spiTXidle = False,
      spiRXidle = False, spi_rx = (RxSmall, 0), currentLed = 0, enabledImgs = replicate 3 False, firstConfigReceived = False,
      shouldProcessCommands = False, prevBtnPressTime = 0, prevIsCardInserted = False, cardDetectTime = 0, cardInsertChanged = False, xilinxHwFw = 0,
      hwVersion = 0, isAcsiNotScsi = False, xilinxBusIdle = 0, timeOutCount = 0, hmode = MODE_UNKNOWN,
      leds = \<lparr>goingSolo = 0, showingSelectedFddImage = 0, startingRecoveryCommand = 0, led_nev = 0, led_prev = 0\<rparr>, btnDownTime = 0,
      recoveryLevel_toHost = 0, config_acsi = 0, config_fdd = 0\<rparr>"

section \<open>Receiving bytes\<close>

lemma PIO_write_next:
  "strobes h = Some b # ss \<Longrightarrow> PIO_write h = (h\<lparr>strobes := ss\<rparr>, b)"
  by (simp add: PIO_write_def strobe_def)

text \<open>The length is known and all bytes that are left arrive.\<close>

lemma get_bytes_rest:
  assumes "i + length bs = unat (cmdLen h)" and "unat (cmdLen h) \<le> 14" and "len_at < i" and "strobes h = map Some bs @ ss"
    and "brStat h = BR_OK" and "length (cmd h) = 14"
  shows "get_bytes i len_at f h = (h\<lparr>strobes := ss, cmd := take i (cmd h) @ bs @ drop (i + length bs) (cmd h)\<rparr>, Good)"
  using assms
proof (induction bs arbitrary: i h)
  case Nil
  then show ?case by (subst get_bytes.simps) simp
next
  case (Cons b bs)
  let ?h = "h\<lparr>strobes := map Some bs @ ss, cmd := (cmd h)[i := b]\<rparr>"
  have i: "i < unat (cmdLen h)" "i < 14" using Cons.prems(1,2) by simp_all
  have "get_bytes i len_at f h = get_bytes (i + 1) len_at f ?h"
    using i Cons.prems(3-5) by (subst get_bytes.simps) (simp add: PIO_write_next [of _ b "map Some bs @ ss"])
  also have "\<dots> = (?h\<lparr>strobes := ss, cmd := take (i + 1) (cmd ?h) @ bs @ drop (i + 1 + length bs) (cmd ?h)\<rparr>, Good)"
    by (rule Cons.IH) (use Cons.prems in simp_all)
  also have "take (i + 1) (cmd ?h) @ bs @ drop (i + 1 + length bs) (cmd ?h) = take i (cmd h) @ (b # bs) @ drop (i + length (b # bs)) (cmd h)"
    using i Cons.prems(6) by (simp add: take_Suc_conv_app_nth drop_update_cancel)
  finally show ?case by simp
qed

text \<open>A length of 16 makes the byte after 14 go behind the array.\<close>

lemma get_bytes_overflow:
  assumes "i + length bs = 15" and "i \<le> 14" and "cmdLen h = 16" and "len_at < i" and "strobes h = map Some bs @ ss" and "brStat h = BR_OK"
  shows "snd (get_bytes i len_at f h) = Overflow"
  using assms
proof (induction bs arbitrary: i h)
  case (Cons b bs)
  show ?case
  proof (cases "i = 14")
    case True
    then show ?thesis using Cons.prems by (subst get_bytes.simps) (simp add: PIO_write_next [of _ b "map Some bs @ ss"])
  next
    case False
    let ?h = "h\<lparr>strobes := map Some bs @ ss, cmd := (cmd h)[i := b]\<rparr>"
    have "get_bytes i len_at f h = get_bytes (i + 1) len_at f ?h"
      using False Cons.prems by (subst get_bytes.simps) (simp add: PIO_write_next [of _ b "map Some bs @ ss"])
    moreover have "snd (get_bytes (i + 1) len_at f ?h) = Overflow" by (rule Cons.IH) (use Cons.prems False in simp_all)
    ultimately show ?thesis by simp
  qed
qed simp

text \<open>The byte that tells the length.\<close>

lemma get_bytes_len:
  assumes "strobes h = Some b # ss" and "brStat h = BR_OK" and "i < unat (cmdLen h)" and "i < 14"
  shows "get_bytes i i f h = get_bytes (i + 1) i f (f (h\<lparr>strobes := ss, cmd := (cmd h)[i := b]\<rparr>))"
  using assms by (subst get_bytes.simps) (simp add: PIO_write_next)

section \<open>The two buses\<close>

text \<open>The command of a SCSI device in the form in which the ACSI bus transfers it.\<close>

definition acsi_form :: "nat \<Rightarrow> BYTE list \<Rightarrow> BYTE list" where
  "acsi_form ident bs =
     (if scsi_cmdLen (hd bs) > 6 then (0x1f OR push_bit 5 (of_nat ident)) # bs
      else (hd bs OR push_bit 5 (of_nat ident)) # tl bs)"

definition selects :: "BYTE \<Rightarrow> hans \<Rightarrow> nat \<Rightarrow> bool" where
  "selects sel h ident \<longleftrightarrow> List.find (\<lambda>i. sel AND push_bit i 1 \<noteq> 0 \<and> enabledIDs h ! i) [0..<8] = Some ident"

lemma selects_range:
  assumes "selects sel h ident"
  shows "ident < 8" and "enabledIDs h ! ident"
  using assms by (auto simp: selects_def find_Some_iff)

lemma drop_bit_5_less: "unat (drop_bit 5 (c :: BYTE)) < 8"
  using unat_word8_lt [of c] by (subst unat_drop_bit_eq, subst drop_bit_eq_div) (rule less_mult_imp_div_less, simp)

lemma top_bits: "(b :: BYTE) AND 0xe0 = push_bit 5 (drop_bit 5 b)"
proof -
  have "b AND NOT (mask 5) = push_bit 5 (drop_bit 5 b)" by (rule bit_word_eqI) (auto simp: bit_simps)
  moreover have "NOT (mask 5) = (0xe0 :: BYTE)" by (simp add: mask_eq_exp_minus_1)
  ultimately show ?thesis by simp
qed

lemma low_bits:
  assumes "drop_bit 5 (b :: BYTE) = 0"
  shows "b AND 0xe0 = 0" and "b AND 0x1f = b"
proof -
  show "b AND 0xe0 = 0" by (simp add: top_bits assms)
  have "(b AND 0xe0) OR (b AND 0x1f) = b AND (0xe0 OR 0x1f)" by (simp only: bit.conj_disj_distrib)
  also have "0xe0 OR 0x1f = (-1 :: BYTE)" by simp
  finally show "b AND 0x1f = b" using \<open>b AND 0xe0 = 0\<close> by simp
qed

lemma group_bits: "drop_bit 5 ((c :: BYTE) AND 0xe0) = drop_bit 5 c"
proof -
  have "drop_bit 5 (c AND 0xe0) = drop_bit 5 c AND mask 3" by (simp add: mask_eq_exp_minus_1)
  moreover have "unat (drop_bit 5 c) < 8" by (rule drop_bit_5_less)
  ultimately show ?thesis by (simp add: word_unat_eq_iff unat_and_mask)
qed

lemma scsi_lengths:
  assumes "drop_bit 5 c \<in> {0, 1, 2, 5 :: BYTE}"
  shows "scsi_cmdLen c = (if drop_bit 5 c = 0 then 6 else if drop_bit 5 c = 5 then 12 else 10)"
  using assms by (auto simp: scsi_cmdLen_def group_bits)

lemma scsi_received:
  assumes "first_cmd h = Some sel" and "selects sel h ident" and "length bs = unat (scsi_cmdLen (hd bs))"
    and "drop_bit 5 (hd bs) \<in> {0, 1, 2, 5}" and "strobes h = map Some bs @ ss" and "length (cmd h) = 14"
  obtains h' where "onGetCommandScsi h = (h', Good)" and "take (unat (cmdLen h')) (cmd h') = acsi_form ident bs"
    and "unat (cmdLen h') = length (acsi_form ident bs)" and "strobes h' = ss"
proof -
  define n where "n = length bs"
  have n: "n \<in> {6, 10, 12}" "unat (scsi_cmdLen (hd bs)) = n" using assms(3,4) by (auto simp: n_def scsi_lengths)
  then obtain b cs where bs: "bs = b # cs" by (cases bs) (auto simp: n_def)
  let ?h = "h\<lparr>rnw := False, brStat := BR_OK, first_cmd := None, cmdLen := 6\<rparr>"
  let ?g = "getCmdLengthFromCmdBytesScsi b (?h\<lparr>strobes := map Some cs @ ss, cmd := (cmd ?h)[0 := b]\<rparr>)"
  let ?f = "\<lambda>h. getCmdLengthFromCmdBytesScsi (cmd h ! 0) h"
  have "get_bytes 0 0 ?f ?h = get_bytes (0 + 1) 0 ?f (?f (?h\<lparr>strobes := map Some cs @ ss, cmd := (cmd ?h)[0 := b]\<rparr>))"
    by (rule get_bytes_len) (use assms(5) in \<open>simp_all add: bs\<close>)
  also have "\<dots> = (?g\<lparr>strobes := ss, cmd := take 1 (cmd ?g) @ cs @ drop (1 + length cs) (cmd ?g)\<rparr>, Good)"
    using n assms(6) by (subst get_bytes_rest [where bs = cs and ss = ss]) (auto simp: bs n_def getCmdLengthFromCmdBytesScsi_def)
  also have "take 1 (cmd ?g) @ cs @ drop (1 + length cs) (cmd ?g) = bs @ drop n (cmd h)"
    using assms(6) by (cases "cmd h") (auto simp: getCmdLengthFromCmdBytesScsi_def bs n_def)
  finally have r: "get_bytes 0 0 ?f ?h = (?g\<lparr>strobes := ss, cmd := bs @ drop n (cmd h)\<rparr>, Good)" .
  have e: "PIO_writeFirst h = (h\<lparr>rnw := False, brStat := BR_OK, first_cmd := None\<rparr>, sel)" using assms(1) by (simp add: PIO_writeFirst_def)
  have f: "List.find (\<lambda>i. sel AND push_bit i 1 \<noteq> 0 \<and> enabledIDs (h\<lparr>rnw := False, brStat := BR_OK, first_cmd := None\<rparr>) ! i) [0..<8] = Some ident"
    using assms(2) by (simp add: selects_def)
  let ?r = "?g\<lparr>strobes := ss, cmd := bs @ drop n (cmd h)\<rparr>"
  have cl: "cmdLen ?r = scsi_cmdLen b" by (simp add: getCmdLengthFromCmdBytesScsi_def)
  define r' where "r' = (if cmdLen ?r > 6 then ?r\<lparr>cmd := 0x1f # take 13 (cmd ?r), cmdLen := cmdLen ?r + 1\<rparr> else ?r)"
  have e: "onGetCommandScsi h = (r'\<lparr>cmd := (cmd r')[0 := cmd r' ! 0 OR push_bit 5 (of_nat ident)]\<rparr>, Good)"
    unfolding onGetCommandScsi_def e Let_def split f option.case r r'_def by (simp add: getCmdLengthFromCmdBytesScsi_def)
  show ?thesis
  proof (cases "n = 6")
    case True
    then have l: "scsi_cmdLen b = 6" using n(2) by (simp add: bs word_unat_eq_iff)
    then have "r' = ?r" by (simp add: r'_def getCmdLengthFromCmdBytesScsi_def)
    then show ?thesis using True n(2)
      by (intro that [OF e]) (simp_all add: getCmdLengthFromCmdBytesScsi_def acsi_form_def bs l n_def)
  next
    case False
    then have l: "scsi_cmdLen b > 6" "unat (scsi_cmdLen b + 1) = n + 1" using n
      by (auto simp: bs word_less_nat_alt unat_word_ariths)
    then have r': "r' = ?r\<lparr>cmd := 0x1f # take 13 (bs @ drop n (cmd h)), cmdLen := scsi_cmdLen b + 1\<rparr>"
      by (simp add: r'_def getCmdLengthFromCmdBytesScsi_def)
    show ?thesis using l n
      by (intro that [OF e]) (auto simp: r' getCmdLengthFromCmdBytesScsi_def acsi_form_def bs n_def)
  qed
qed

lemma acsi_first:
  assumes "ident < 8" and "x AND 0xe0 = (0 :: BYTE)"
  shows "unat (drop_bit 5 (x OR push_bit 5 (of_nat ident)) AND 0x07) = ident"
    and "(x OR push_bit 5 (of_nat ident)) AND 0x1f = x AND 0x1f"
proof -
  have "ident \<in> {0, 1, 2, 3, 4, 5, 6, 7}" using assms(1) by auto
  moreover have "drop_bit 5 x AND 7 = drop_bit 5 (x AND 0xe0)" by simp
  then have "drop_bit 5 x AND 7 = 0" by (simp only: assms(2)) simp
  ultimately show "unat (drop_bit 5 (x OR push_bit 5 (of_nat ident)) AND 0x07) = ident"
    by (auto simp: bit.conj_disj_distrib2)
  show "(x OR push_bit 5 (of_nat ident)) AND 0x1f = x AND 0x1f"
    using \<open>ident \<in> _\<close> by (auto simp: or_other_bits)
qed

lemma acsi_received:
  assumes "ident < 8" and "enabledIDs h ! ident" and "length bs = unat (scsi_cmdLen (hd bs))"
    and "drop_bit 5 (hd bs) \<in> {0, 1, 2, 5}" and "hd bs \<noteq> 0x1f" and "length (cmd h) = 14"
    and "first_cmd h = Some (hd (acsi_form ident bs))" and "strobes h = map Some (tl (acsi_form ident bs)) @ ss"
  obtains h' where "onGetCommandAcsi h = (h', Good)" and "take (unat (cmdLen h')) (cmd h') = acsi_form ident bs"
    and "unat (cmdLen h') = length (acsi_form ident bs)" and "strobes h' = ss"
proof -
  define cs where "cs = acsi_form ident bs"
  have l: "length bs \<in> {6, 10, 12}" using assms(3,4) by (auto simp: scsi_lengths)
  then obtain b bs' where bs: "bs = b # bs'" by (cases bs) auto
  have six: "(scsi_cmdLen b > 6) = (length bs \<noteq> 6)" using l assms(3) by (auto simp: bs word_less_nat_alt)
  obtain x y ys where cs: "cs = x # y # ys" and lc: "length cs = (if length bs = 6 then 6 else length bs + 1)"
    using l six by (cases bs') (auto simp: cs_def acsi_form_def bs)
  have "acsi_cmdLen x y = of_nat (length cs) \<and> unat (drop_bit 5 x AND 0x07) = ident"
  proof (cases "length bs = 6")
    case True
    then have "drop_bit 5 b = 0" using assms(3,4) by (auto simp: bs scsi_lengths split: if_splits)
    note z = low_bits [OF this]
    have "x = b OR push_bit 5 (of_nat ident)" using cs True six by (simp add: cs_def acsi_form_def bs)
    then show ?thesis using acsi_first [OF assms(1) z(1)] z(2) assms(5) True lc by (simp add: acsi_cmdLen_def bs)
  next
    case False
    have x: "x = 0x1f OR push_bit 5 (of_nat ident)" "y = b" using cs False six by (simp_all add: cs_def acsi_form_def bs)
    have z: "(0x1f :: BYTE) AND 0xe0 = 0" by simp
    have g: "drop_bit 5 b \<in> {0, 1, 2, 5}" using assms(4) by (simp add: bs)
    have n: "length bs = unat (scsi_cmdLen b)" using assms(3) by (simp add: bs)
    have "acsi_cmdLen x y = (if drop_bit 5 b = 5 then 13 else 11) \<and> length cs = (if drop_bit 5 b = 5 then 13 else 11)"
      unfolding acsi_cmdLen_def x acsi_first(2) [OF assms(1) z] group_bits Let_def lc if_not_P [OF False] n scsi_lengths [OF g]
      using False g unfolding n scsi_lengths [OF g] by (elim insertE) simp_all
    then have "acsi_cmdLen x y = of_nat (length cs)" by simp
    then show ?thesis using acsi_first [OF assms(1) z] x by simp
  qed
  then have len: "acsi_cmdLen x y = of_nat (length cs)" and id: "unat (drop_bit 5 x AND 0x07) = ident" by simp_all
  have lr: "length cs \<in> {6, 11, 13}" "length ys + 2 = length cs" using l lc cs by auto
  then have u: "unat (of_nat (length cs) :: BYTE) = length cs" by auto
  let ?h = "h\<lparr>rnw := False, brStat := BR_OK, first_cmd := None, cmd := (cmd h)[0 := x], cmdLen := 6\<rparr>"
  let ?g = "?h\<lparr>strobes := map Some ys @ ss, cmd := (cmd h)[0 := x, 1 := y], cmdLen := of_nat (length cs)\<rparr>"
  have g: "getCmdLengthFromCmdBytesAcsi (?h\<lparr>strobes := map Some ys @ ss, cmd := (cmd ?h)[1 := y]\<rparr>) = ?g"
    using assms(6) by (simp add: getCmdLengthFromCmdBytesAcsi_def len [symmetric])
  have e: "PIO_writeFirst h = (h\<lparr>rnw := False, brStat := BR_OK, first_cmd := None\<rparr>, x)"
    using assms(7) cs by (simp add: PIO_writeFirst_def cs_def)
  have "onGetCommandAcsi h = get_bytes 1 1 getCmdLengthFromCmdBytesAcsi ?h"
    using assms(2) id by (simp add: onGetCommandAcsi_def e)
  also have "\<dots> = get_bytes (1 + 1) 1 getCmdLengthFromCmdBytesAcsi ?g"
    unfolding g [symmetric] by (rule get_bytes_len) (use assms(8) cs in \<open>simp_all add: cs_def\<close>)
  also have "\<dots> = (?g\<lparr>strobes := ss, cmd := take (1 + 1) (cmd ?g) @ ys @ drop (1 + 1 + length ys) (cmd ?g)\<rparr>, Good)"
  proof (rule get_bytes_rest)
    show "1 + 1 + length ys = unat (cmdLen ?g)" "unat (cmdLen ?g) \<le> 14" using u lr by auto
  qed (use assms(6) in simp_all)
  also have "take (1 + 1) (cmd ?g) @ ys @ drop (1 + 1 + length ys) (cmd ?g) = cs @ drop (length cs) (cmd h)"
  proof -
    obtain c d ds where "cmd h = c # d # ds" using assms(6) by (cases "cmd h"; cases "tl (cmd h)") auto
    then show ?thesis using lr(2) by (simp add: cs)
  qed
  finally show ?thesis
    by (rule that) (use u in \<open>simp_all add: cs_def [symmetric]\<close>)
qed

text \<open>
  C32: the two receivers agree. A command of the groups 0, 1, 2 and 5 that the Atari sends to the lowest
  selected and enabled device of the SCSI bus leaves the same bytes and the same length in \<open>cmd\<close> as its
  ACSI form (one byte, or 0x1f and the whole command, with the ID in the three top bits), after exactly
  as many handshakes as the command has bytes.
\<close>

theorem scsi_acsi_equivalence:
  assumes "first_cmd h = Some sel" and "selects sel h ident" and "length bs = unat (scsi_cmdLen (hd bs))"
    and "drop_bit 5 (hd bs) \<in> {0, 1, 2, 5}" and "hd bs \<noteq> 0x1f" and "strobes h = map Some bs @ ss" and "length (cmd h) = 14"
    and "ha = h\<lparr>first_cmd := Some (hd (acsi_form ident bs)), strobes := map Some (tl (acsi_form ident bs)) @ ss\<rparr>"
  shows "\<exists>h1 h2. onGetCommandScsi h = (h1, Good) \<and> onGetCommandAcsi ha = (h2, Good) \<and> cmdLen h1 = cmdLen h2 \<and>
    take (unat (cmdLen h1)) (cmd h1) = acsi_form ident bs \<and> take (unat (cmdLen h2)) (cmd h2) = acsi_form ident bs \<and>
    unat (cmdLen h1) = length (acsi_form ident bs) \<and> strobes h1 = ss \<and> strobes h2 = ss"
proof -
  obtain h1 where h1: "onGetCommandScsi h = (h1, Good)" "take (unat (cmdLen h1)) (cmd h1) = acsi_form ident bs"
    "unat (cmdLen h1) = length (acsi_form ident bs)" "strobes h1 = ss"
    by (rule scsi_received [OF assms(1-4,6,7)])
  have "enabledIDs ha ! ident" "length (cmd ha) = 14" "first_cmd ha = Some (hd (acsi_form ident bs))"
    "strobes ha = map Some (tl (acsi_form ident bs)) @ ss"
    using selects_range [OF assms(2)] assms(7,8) by simp_all
  then obtain h2 where h2: "onGetCommandAcsi ha = (h2, Good)" "take (unat (cmdLen h2)) (cmd h2) = acsi_form ident bs"
    "unat (cmdLen h2) = length (acsi_form ident bs)" "strobes h2 = ss"
    using acsi_received [OF selects_range(1) [OF assms(2)] _ assms(3-5)] by metis
  from h1 h2 show ?thesis by (metis word_unat_eq_iff)
qed

text \<open>
  A SCSI command of 16 bytes does not fit into \<open>cmd\<close>: its 15th byte is stored behind the array.
\<close>

lemma long_command_overflows:
  assumes "\<not> isAcsiNotScsi h" and "first_cmd h = Some sel" and "selects sel h ident" and "length bs = 15"
    and "drop_bit 5 (hd bs) = 4" and "strobes h = map Some bs @ ss" and "length (cmd h) = 14"
  shows "onGetCommand h = None"
proof -
  obtain b cs where bs: "bs = b # cs" using assms(4) by (cases bs) auto
  have l: "scsi_cmdLen b = 16" using assms(5) by (simp add: scsi_cmdLen_def group_bits bs)
  let ?h = "h\<lparr>rnw := False, brStat := BR_OK, first_cmd := None, cmdLen := 6\<rparr>"
  let ?f = "\<lambda>h. getCmdLengthFromCmdBytesScsi (cmd h ! 0) h"
  let ?g = "?f (?h\<lparr>strobes := map Some cs @ ss, cmd := (cmd ?h)[0 := b]\<rparr>)"
  have "get_bytes 0 0 ?f ?h = get_bytes (0 + 1) 0 ?f ?g"
    by (rule get_bytes_len) (use assms(6) in \<open>simp_all add: bs\<close>)
  moreover have "snd (get_bytes (0 + 1) 0 ?f ?g) = Overflow"
    by (rule get_bytes_overflow [where bs = cs and ss = ss])
      (use assms(4,7) l in \<open>simp_all add: bs getCmdLengthFromCmdBytesScsi_def\<close>)
  ultimately have "snd (get_bytes 0 0 ?f ?h) = Overflow" by (simp only:)
  then obtain r where r: "get_bytes 0 0 ?f ?h = (r, Overflow)" by (cases "get_bytes 0 0 ?f ?h") (simp only: snd_conv)
  have e: "PIO_writeFirst h = (h\<lparr>rnw := False, brStat := BR_OK, first_cmd := None\<rparr>, sel)" using assms(2) by (simp add: PIO_writeFirst_def)
  have f: "List.find (\<lambda>i. sel AND push_bit i 1 \<noteq> 0 \<and> enabledIDs (h\<lparr>rnw := False, brStat := BR_OK, first_cmd := None\<rparr>) ! i) [0..<8] = Some ident"
    using assms(3) by (simp add: selects_def)
  have "onGetCommandScsi h = (r, Overflow)"
    unfolding onGetCommandScsi_def e Let_def split f option.case r by simp
  then show ?thesis using assms(1) by (simp add: onGetCommand_def)
qed

definition scsi_example :: "BYTE list \<Rightarrow> hans" where
  "scsi_example bs = hans_zero\<lparr>enabledIDs := map (\<lambda>i. i = 2) [0..<8], first_cmd := Some 0x84, strobes := map Some bs\<rparr>"

lemma scsi_example_simps:
  "selects 0x84 (scsi_example bs) 2" "first_cmd (scsi_example bs) = Some 0x84" "strobes (scsi_example bs) = map Some bs"
  "length (cmd (scsi_example bs)) = 14" "\<not> isAcsiNotScsi (scsi_example bs)"
  by (simp_all add: scsi_example_def hans_zero_def selects_def upt_rec)

lemma scsi_acsi_equivalence_witness:
  "\<exists>h1 h2. onGetCommandScsi (scsi_example [0x28, 0, 0, 0, 0, 1, 0, 0, 2, 0]) = (h1, Good) \<and>
     onGetCommandAcsi ((scsi_example [0x28, 0, 0, 0, 0, 1, 0, 0, 2, 0])\<lparr>first_cmd := Some 0x5f,
       strobes := map Some [0x28, 0, 0, 0, 0, 1, 0, 0, 2, 0]\<rparr>) = (h2, Good) \<and>
     take (unat (cmdLen h1)) (cmd h1) = [0x5f, 0x28, 0, 0, 0, 0, 1, 0, 0, 2, 0] \<and> cmdLen h1 = cmdLen h2"
proof -
  define bs :: "BYTE list" where "bs = [0x28, 0, 0, 0, 0, 1, 0, 0, 2, 0]"
  have l: "scsi_cmdLen (hd bs) = 10" "drop_bit 5 (hd bs) \<in> {0, 1, 2, 5}" "hd bs \<noteq> 0x1f" "length bs = 10"
    by (simp_all add: bs_def scsi_cmdLen_def)
  have a: "acsi_form 2 bs = 0x5f # bs" using l(1) by (simp add: acsi_form_def)
  have "\<exists>h1 h2. onGetCommandScsi (scsi_example bs) = (h1, Good) \<and>
    onGetCommandAcsi ((scsi_example bs)\<lparr>first_cmd := Some (hd (acsi_form 2 bs)), strobes := map Some (tl (acsi_form 2 bs)) @ []\<rparr>) = (h2, Good) \<and>
    cmdLen h1 = cmdLen h2 \<and> take (unat (cmdLen h1)) (cmd h1) = acsi_form 2 bs \<and> take (unat (cmdLen h2)) (cmd h2) = acsi_form 2 bs \<and>
    unat (cmdLen h1) = length (acsi_form 2 bs) \<and> strobes h1 = [] \<and> strobes h2 = []"
    by (rule scsi_acsi_equivalence [OF scsi_example_simps(2,1) _ l(2,3) _ scsi_example_simps(4) refl])
      (simp_all add: l scsi_example_simps)
  then show ?thesis unfolding a by (auto simp: bs_def)
qed

lemma long_command_overflows_witness: "onGetCommand (scsi_example (0x88 # replicate 14 0)) = None"
  by (rule long_command_overflows [OF scsi_example_simps(5,2,1), where ss = "[]" and bs = "0x88 # replicate 14 0"])
    (simp_all add: scsi_example_simps)

end
