(* ===== verification/HansRead.thy ===== *)
theory HansRead
  imports HansData
begin

text \<open>
  The data phase of a read: what the host sends in blocks of at most 512 bytes after a marker arrives at
  the Atari in order and complete, while the next block is already on its way.
\<close>

section \<open>Transfers that start at once\<close>

lemma txRx_idle:
  assumes "spiIdle h"
  shows "hans_spiDma_txRx n tx m rx h =
    (h\<lparr>spi1_ok := tl (spi1_ok h), spiTXidle := (n = 0), spiRXidle := (m = 0), spiIdle := False, spi_rx := (rx, m),
       host_out := host_out h @ [(take (unat n) (tx[2 := n, 3 := m]), m)]\<rparr>, spi1_ok h = [] \<or> hd (spi1_ok h))"
  using assms
  by (simp add: hans_spiDma_txRx_def hans_spiDma_waitForFinish_def spi_idle_def waitForSPIidle_def Let_def split: list.split)

lemma spi_idle_done:
  assumes "\<not> spiIdle h" and "host_in h = Done ws # es"
  shows "spi_idle h = (spi_complete ws (h\<lparr>host_in := es\<rparr>), True)"
  using assms by (simp add: spi_idle_def)

section \<open>Blocks\<close>

text \<open>The words that are received for \<open>n\<close> bytes.\<close>

definition block_words :: "nat \<Rightarrow> nat" where
  "block_words n = n div 2 + n mod 2 + 6"

text \<open>A block of the host: words without the marker, the marker, the data, and more words.\<close>

definition carries :: "WORD list \<Rightarrow> BYTE list \<Rightarrow> bool" where
  "carries ws xs \<longleftrightarrow> length ws = block_words (length xs) \<and>
     (\<exists>hdr dat. ws = hdr @ 0xda # dat \<and> 0xda \<notin> set hdr \<and> length xs \<le> 2 * length dat \<and> take (length xs) (word_bytes dat) = xs)"

function chunks :: "'a list \<Rightarrow> 'a list list" where
  "chunks xs = (if xs = [] then [] else take 512 xs # chunks (drop 512 xs))"
  by pat_completeness auto
termination by (relation "measure length") auto

declare chunks.simps [simp del]

lemma chunks_simps [simp]: "chunks [] = []" "xs \<noteq> [] \<Longrightarrow> chunks xs = take 512 xs # chunks (drop 512 xs)"
  by (subst chunks.simps; simp)+

definition blocks_of :: "nat \<Rightarrow> nat" where
  "blocks_of n = n div 512 + (if n mod 512 \<noteq> 0 then 1 else 0)"

lemma blocks_of_rec: "0 < n \<Longrightarrow> blocks_of n = Suc (blocks_of (n - 512))"
proof (cases "n < 512")
  case False
  then obtain m where "n = 512 + m" by (metis le_iff_add not_less)
  then show ?thesis by (simp add: blocks_of_def)
qed (simp add: blocks_of_def)

lemma after_marker_append: "0xda \<notin> set hdr \<Longrightarrow> after_marker (hdr @ 0xda # dat) = Some dat"
  by (induction hdr) auto

lemma find_data_carries:
  assumes "carries ws xs" and "rb_buffer b = ws @ r" and "unat (rb_count b) = length ws"
  obtains p where "find_data b = Some p" and "length xs \<le> 2 * length p" and "take (length xs) (word_bytes p) = xs"
proof -
  obtain hdr dat where w: "ws = hdr @ 0xda # dat" "0xda \<notin> set hdr" "length xs \<le> 2 * length dat" "take (length xs) (word_bytes dat) = xs"
    using assms(1) by (auto simp: carries_def)
  have "find_data b = Some (dat @ r)"
    using assms(2,3) after_marker_append [OF w(2), of dat] by (simp add: find_data_def w(1))
  then show ?thesis by (rule that) (use w in simp_all)
qed

section \<open>The loop\<close>

text \<open>A transfer into buffer \<open>b\<close> for the first block of \<open>xs\<close> is on its way.\<close>

definition reading :: "hans \<Rightarrow> nat \<Rightarrow> BYTE list \<Rightarrow> bool" where
  "reading h b xs \<longleftrightarrow> b < 2 \<and> length (rdBufs h) = 2 \<and> (\<forall>r \<in> set (rdBufs h). length (rb_buffer r) = 275) \<and>
     length xs < 16777216 \<and> \<not> spiIdle h \<and> dataCnt h = of_nat (length xs - 512) \<and>
     rb_dataBytesCount (rdBufs h ! b) = of_nat (min 512 (length xs)) \<and>
     rb_count (rdBufs h ! b) = of_nat (block_words (min 512 (length xs))) \<and>
     spi_rx h = (RxRd b, of_nat (block_words (min 512 (length xs))))"

text \<open>The messages that ask the host for blocks.\<close>

definition request :: "WORD \<Rightarrow> nat \<Rightarrow> WORD list \<times> WORD" where
  "request seq m = ([ATN_SYNC_WORD, 3, 6, of_nat (block_words m), seq, 0], of_nat (block_words m))"

fun requests :: "WORD \<Rightarrow> BYTE list list \<Rightarrow> (WORD list \<times> WORD) list" where
  "requests seq [] = []"
| "requests seq (c # cs) = request seq (length c) # requests (seq + 1) cs"

definition more_ok :: "hans \<Rightarrow> bool" where
  "more_ok h \<longleftrightarrow> length (atnMore h) = 6 \<and> take 2 (atnMore h) = [ATN_SYNC_WORD, 3] \<and> atnMore h ! 5 = 0"

lemma request_taken:
  assumes "more_ok h"
  shows "take 6 (((atnMore h)[4 := seq])[2 := 6, 3 := of_nat (block_words m)]) = fst (request seq m)" and "more_ok (h\<lparr>atnMore := (atnMore h)[4 := seq]\<rparr>)"
proof -
  obtain x y where t: "take 2 (atnMore h) = [x, y]" "x = ATN_SYNC_WORD" "y = 3" using assms by (simp add: more_ok_def)
  obtain a where a: "drop 2 (atnMore h) = a" by blast
  have "length a = 4" using assms a by (auto simp: more_ok_def)
  then obtain p q r z where "a = [p, q, r, z]" by (auto simp: length_Suc_conv numeral_eq_Suc)
  then have m: "atnMore h = [x, y, p, q, r, z]" using t a by (metis append_Cons append_Nil append_take_drop_id)
  then have "z = 0" using assms by (simp add: more_ok_def)
  then show "take 6 (((atnMore h)[4 := seq])[2 := 6, 3 := of_nat (block_words m)]) = fst (request seq m)"
    "more_ok (h\<lparr>atnMore := (atnMore h)[4 := seq]\<rparr>)"
    using t by (simp_all add: m request_def more_ok_def)
qed

text \<open>What a request adds to the messages for the host.\<close>

definition asks :: "hans \<Rightarrow> hans \<Rightarrow> BYTE list list \<Rightarrow> bool" where
  "asks h h' cs \<longleftrightarrow> (more_ok h \<longrightarrow> more_ok h' \<and> host_out h' = host_out h @ requests (seqNo h) cs \<and> seqNo h' = seqNo h + of_nat (length cs))"

lemma asks_trans: "asks h h1 cs \<Longrightarrow> asks h1 h2 ds \<Longrightarrow> asks h h2 (cs @ ds)"
proof -
  have r: "requests seq (cs @ ds) = requests seq cs @ requests (seq + of_nat (length cs)) ds" for seq
    by (induction cs arbitrary: seq) (simp_all add: ac_simps)
  assume "asks h h1 cs" "asks h1 h2 ds"
  then show ?thesis by (auto simp: asks_def r)
qed

lemma asks_none: "atnMore h' = atnMore h \<Longrightarrow> host_out h' = host_out h \<Longrightarrow> seqNo h' = seqNo h \<Longrightarrow> asks h h' []"
  by (simp add: asks_def more_ok_def)

definition kept_read where
  "kept_read h = (brStat h, statusByte h, isAcsiNotScsi h, hstate h, enabledIDs h, sdCard h, cmd h)"

lemma recv_words:
  assumes "m \<le> 512"
  shows "(of_nat m :: DWORD) div 2 + (of_nat m AND 1) + 6 = of_nat (block_words m)"
proof -
  have u: "unat (of_nat m :: DWORD) = m" using assms by (simp add: unat_of_nat)
  have "(of_nat m :: DWORD) div 2 = of_nat (m div 2)" by (simp add: word_unat_eq_iff unat_div u unat_of_nat) (use assms in simp)
  moreover have "(of_nat m AND 1 :: DWORD) = of_nat (m mod 2)"
  proof -
    have "m mod 2 < 2" by simp
    then have "unat (of_nat (m mod 2) :: DWORD) = m mod 2" by (simp only: unat_of_nat) simp
    then show ?thesis using unat_and_mask [of "of_nat m :: DWORD" 1] by (simp add: word_unat_eq_iff u)
  qed
  ultimately show ?thesis by (simp add: block_words_def)
qed

lemma ucast_of_nat_small:
  "m < 65536 \<Longrightarrow> (ucast (of_nat m :: DWORD) :: WORD) = of_nat m" "m < 65536 \<Longrightarrow> (ucast (of_nat m :: WORD) :: DWORD) = of_nat m"
  by (simp_all add: word_unat_eq_iff unat_of_nat)

lemma all_update: "\<forall>r \<in> set rs. P r \<Longrightarrow> P x \<Longrightarrow> \<forall>r \<in> set (rs[b := x]). P r"
  using set_update_subset_insert [of rs b x] by auto

lemma start_read:
  assumes "spiIdle h" and "b < 2" and "length (rdBufs h) = 2" and "\<forall>r \<in> set (rdBufs h). length (rb_buffer r) = 275"
    and "length xs < 16777216"
    and "g = startSpiDmaForDataRead (of_nat (length xs)) b h"
    and "g' = g\<lparr>dataCnt := of_nat (length xs) - ucast (rb_dataBytesCount (rdBufs g ! b))\<rparr>"
  shows "reading g' b xs" and "kept_read g' = kept_read h" and "strobes g' = strobes h" and "bus_out g' = bus_out h"
    and "host_in g' = host_in h" and "rdBufs g' ! (1 - b) = rdBufs h ! (1 - b)" and "rnw g' = rnw h"
    and "asks h g' [take 512 xs]"
proof -
  define m where "m = min 512 (length xs)"
  have m: "m \<le> 512" by (simp add: m_def)
  have u: "unat (of_nat (length xs) :: DWORD) = length xs" using assms(5) by (simp add: unat_of_nat)
  have s: "(if (of_nat (length xs) :: DWORD) < 512 then of_nat (length xs) else 512 :: DWORD) = of_nat m"
    using u by (simp add: m_def word_less_nat_alt min_def)
  have bl: "b < length (rdBufs h)" "1 - b \<noteq> b" using assms(2,3) by (simp, presburger)
  have bm: "block_words m < 65536" using m by (simp add: block_words_def)
  have w: "ucast (of_nat m :: DWORD) = (of_nat m :: WORD)" "ucast (of_nat (block_words m) :: DWORD) = (of_nat (block_words m) :: WORD)"
    using m bm by (simp_all add: ucast_of_nat_small)
  have g: "g = (let h = h\<lparr>rdBufs := (rdBufs h)[b := (rdBufs h ! b)\<lparr>rb_dataBytesCount := of_nat m, rb_count := of_nat (block_words m)\<rparr>],
      atnMore := (atnMore h)[4 := seqNo h], seqNo := seqNo h + 1\<rparr> in fst (hans_spiDma_txRx 6 (atnMore h) (of_nat (block_words m)) (RxRd b) h))"
    unfolding assms(6) startSpiDmaForDataRead_def Let_def s recv_words [OF m] w by simp
  have nz: "of_nat (block_words m) \<noteq> (0 :: WORD)"
  proof -
    have "unat (of_nat (block_words m) :: WORD) = block_words m" using bm by (simp add: unat_of_nat)
    then show ?thesis by (auto simp: block_words_def)
  qed
  note t = txRx_idle [of "h\<lparr>rdBufs := (rdBufs h)[b := (rdBufs h ! b)\<lparr>rb_dataBytesCount := of_nat m, rb_count := of_nat (block_words m)\<rparr>],
      atnMore := (atnMore h)[4 := seqNo h], seqNo := seqNo h + 1\<rparr>"]
  have d: "(of_nat (length xs) :: DWORD) - ucast (of_nat m :: WORD) = of_nat (length xs - 512)"
  proof -
    have "ucast (of_nat m :: WORD) = (of_nat m :: DWORD)" using m by (simp add: ucast_of_nat_small)
    moreover have "(of_nat (length xs) :: DWORD) - of_nat m = of_nat (length xs - 512)"
      by (cases "length xs \<le> 512") (simp_all add: m_def)
    ultimately show ?thesis by simp
  qed
  have "length (rb_buffer ((rdBufs h ! b)\<lparr>rb_dataBytesCount := of_nat m, rb_count := of_nat (block_words m)\<rparr>)) = 275"
    using assms(4) bl by simp
  note bufs = all_update [OF assms(4) this, of b]
  show "asks h g' [take 512 xs]"
  proof -
    have lm: "length (take 512 xs) = m" by (simp add: m_def min.commute)
    have "asks h g' [take 512 xs] = asks h (h\<lparr>atnMore := (atnMore h)[4 := seqNo h], seqNo := seqNo h + 1,
        host_out := host_out h @ [(take 6 (((atnMore h)[4 := seqNo h])[2 := 6, 3 := of_nat (block_words m)]), of_nat (block_words m))]\<rparr>) [take 512 xs]"
      using assms(1) by (simp add: assms(7) g Let_def t asks_def more_ok_def)
    also have "\<dots>"
      unfolding asks_def
    proof
      assume k: "more_ok h"
      from request_taken(1) [OF k, where seq = "seqNo h" and m = m] request_taken(2) [OF k, where seq = "seqNo h"]
      show "more_ok (h\<lparr>atnMore := (atnMore h)[4 := seqNo h], seqNo := seqNo h + 1,
          host_out := host_out h @ [(take 6 (((atnMore h)[4 := seqNo h])[2 := 6, 3 := of_nat (block_words m)]), of_nat (block_words m))]\<rparr>) \<and>
        host_out (h\<lparr>atnMore := (atnMore h)[4 := seqNo h], seqNo := seqNo h + 1,
          host_out := host_out h @ [(take 6 (((atnMore h)[4 := seqNo h])[2 := 6, 3 := of_nat (block_words m)]), of_nat (block_words m))]\<rparr>) =
          host_out h @ requests (seqNo h) [take 512 xs] \<and>
        seqNo (h\<lparr>atnMore := (atnMore h)[4 := seqNo h], seqNo := seqNo h + 1,
          host_out := host_out h @ [(take 6 (((atnMore h)[4 := seqNo h])[2 := 6, 3 := of_nat (block_words m)]), of_nat (block_words m))]\<rparr>) =
          seqNo h + of_nat (length [take 512 xs])"
        by (simp add: lm more_ok_def del: length_take) (simp add: request_def)
    qed
    finally show ?thesis .
  qed
  show "reading g' b xs" "kept_read g' = kept_read h" "strobes g' = strobes h" "bus_out g' = bus_out h"
    "host_in g' = host_in h" "rdBufs g' ! (1 - b) = rdBufs h ! (1 - b)" "rnw g' = rnw h"
    using assms(1-3,5) bl nz d bufs
    by (simp_all add: reading_def kept_read_def assms(7) g Let_def t m_def [symmetric])
qed

lemma complete_read:
  assumes "reading h b xs" and "length ws = block_words (min 512 (length xs))" and "g = spi_complete ws (h\<lparr>host_in := es\<rparr>)"
  shows "spiIdle g" and "kept_read g = kept_read h" and "strobes g = strobes h" and "bus_out g = bus_out h" and "host_in g = es"
    and "dataCnt g = dataCnt h" and "rnw g = rnw h"
    and "rdBufs g = (rdBufs h)[b := (rdBufs h ! b)\<lparr>rb_buffer := ws @ drop (length ws) (rb_buffer (rdBufs h ! b))\<rparr>]"
    and "asks h g []"
proof -
  have "rb_buffer (rdBufs h ! b) \<in> rb_buffer ` set (rdBufs h)" using assms(1) by (simp add: reading_def)
  then have l: "length (rb_buffer (rdBufs h ! b)) = 275" using assms(1) by (auto simp: reading_def)
  have m: "min 512 (length xs) \<le> 512" by simp
  then have bw: "block_words (min 512 (length xs)) \<le> 262" by (simp add: block_words_def) presburger
  then have u: "unat (of_nat (block_words (min 512 (length xs))) :: WORD) = block_words (min 512 (length xs))"
    by (simp add: unat_of_nat)
  have o: "overwrite (rb_buffer (rdBufs h ! b)) ws = ws @ drop (length ws) (rb_buffer (rdBufs h ! b))"
    using l bw assms(2) by (simp add: overwrite_def)
  have r: "spi_rx h = (RxRd b, of_nat (block_words (min 512 (length xs))))" using assms(1) by (simp add: reading_def)
  show "spiIdle g" "kept_read g = kept_read h" "strobes g = strobes h" "bus_out g = bus_out h" "host_in g = es"
    "dataCnt g = dataCnt h" "rnw g = rnw h"
    "rdBufs g = (rdBufs h)[b := (rdBufs h ! b)\<lparr>rb_buffer := ws @ drop (length ws) (rb_buffer (rdBufs h ! b))\<rparr>]"
    using r u o assms(2)
    by (simp_all add: assms(3) spi_complete_def rx_store_def hans_DMA1_Channel2_IRQHandler_def hans_DMA1_Channel3_IRQHandler_def
        Let_def kept_read_def)
  show "asks h g []"
    by (rule asks_none)
      (simp_all add: assms(3) spi_complete_def rx_store_def hans_DMA1_Channel2_IRQHandler_def hans_DMA1_Channel3_IRQHandler_def Let_def r)
qed

lemma given_kept [simp]:
  "kept_read (given es h) = kept_read h" "rdBufs (given es h) = rdBufs h" "host_in (given es h) = host_in h"
  "spiIdle (given es h) = spiIdle h" "dataCnt (given es h) = dataCnt h" "spi_rx (given es h) = spi_rx h" "rnw (given es h) = rnw h"
  "bus_out (given es h) = bus_out h @ es" "strobes (given es h) = drop (length es) (strobes h)"
  "asks g (given es h) cs = asks g h cs"
  by (simp_all add: given_def kept_read_def asks_def more_ok_def)

lemma reading_given [simp]:
  "reading (given es h) b xs = reading h b xs" "reading (h\<lparr>rnw := x\<rparr>) b xs = reading h b xs"
  by (simp_all add: reading_def)

text \<open>One pass: the block that has arrived is sent and the next one requested.\<close>

lemma read_step:
  assumes "reading h b xs" and "xs \<noteq> []" and "host_in h = Done ws # es" and "carries ws (take 512 xs)"
    and "answers (length (take 512 xs)) h"
  obtains h' where "read_blocks (Suc n) b st h = read_blocks n (1 - b) st h'"
    and "if drop 512 xs = [] then spiIdle h' \<and> dataCnt h' = 0 else reading h' (1 - b) (drop 512 xs)"
    and "kept_read h' = kept_read h" and "strobes h' = drop (length (take 512 xs)) (strobes h)"
    and "bus_out h' = bus_out h @ map Data (take 512 xs)" and "host_in h' = es" and "rnw h' = rnw h"
    and "asks h h' (if drop 512 xs = [] then [] else [take 512 (drop 512 xs)])"
proof -
  have lw: "length ws = block_words (min 512 (length xs))" using assms(4) by (simp add: carries_def min.commute)
  let ?g = "spi_complete ws (h\<lparr>host_in := es\<rparr>)"
  note g = complete_read [OF assms(1) lw refl, of es]
  have ni: "\<not> spiIdle h" using assms(1) by (simp add: reading_def)
  have b: "b < 2" "length (rdBufs h) = 2" "length xs < 16777216" "dataCnt h = of_nat (length xs - 512)"
    and bufs: "\<forall>r \<in> set (rdBufs h). length (rb_buffer r) = 275" using assms(1) by (simp_all add: reading_def)
  have bw: "block_words (min 512 (length xs)) \<le> 262" by (simp add: block_words_def) presburger
  have bufs': "\<forall>r \<in> set (rdBufs ?g). length (rb_buffer r) = 275"
    unfolding g(8) by (rule all_update [OF bufs]) (use bufs b lw bw in simp)
  define g2 where "g2 = request_next (1 - b) ?g"
  have d0: "(dataCnt ?g > 0) = (drop 512 xs \<noteq> [])"
  proof -
    have "unat (of_nat (length xs - 512) :: DWORD) = length xs - 512" using b(3) by (simp add: unat_of_nat)
    then show ?thesis unfolding g(6) b(4) by (simp add: word_less_nat_alt not_le)
  qed
  have g2: "if drop 512 xs = [] then spiIdle g2 \<and> dataCnt g2 = 0 else reading g2 (1 - b) (drop 512 xs)"
    "kept_read g2 = kept_read h" "strobes g2 = strobes h" "bus_out g2 = bus_out h" "host_in g2 = es" "rdBufs g2 ! b = rdBufs ?g ! b"
    "rnw g2 = rnw h" "asks h g2 (if drop 512 xs = [] then [] else [take 512 (drop 512 xs)])"
  proof -
    consider "drop 512 xs = []" | "drop 512 xs \<noteq> []" by blast
    then have "(if drop 512 xs = [] then spiIdle g2 \<and> dataCnt g2 = 0 else reading g2 (1 - b) (drop 512 xs)) \<and>
      kept_read g2 = kept_read h \<and> strobes g2 = strobes h \<and> bus_out g2 = bus_out h \<and> host_in g2 = es \<and> rdBufs g2 ! b = rdBufs ?g ! b \<and>
      rnw g2 = rnw h \<and> asks h g2 (if drop 512 xs = [] then [] else [take 512 (drop 512 xs)])"
    proof cases
      case 1
      then have "\<not> dataCnt ?g > 0" using d0 by simp
      then have "g2 = ?g" "dataCnt ?g = 0" by (simp_all add: g2_def request_next_def word_gt_0)
      then show ?thesis using 1 g by simp
    next
      case 2
      have dc: "dataCnt ?g = of_nat (length (drop 512 xs))" by (simp add: g(6) b(4))
      have e: "g2 = (startSpiDmaForDataRead (of_nat (length (drop 512 xs))) (1 - b) ?g)\<lparr>dataCnt := of_nat (length (drop 512 xs)) -
          ucast (rb_dataBytesCount (rdBufs (startSpiDmaForDataRead (of_nat (length (drop 512 xs))) (1 - b) ?g) ! (1 - b)))\<rparr>"
      proof -
        have "dataCnt (startSpiDmaForDataRead (of_nat (length (drop 512 xs))) (1 - b) ?g) = dataCnt ?g"
          using g(1) by (simp add: startSpiDmaForDataRead_def Let_def txRx_idle)
        then show ?thesis unfolding g2_def request_next_def using 2 d0 by (simp only: if_True Let_def dc simp_thms)
      qed
      have l: "1 - b < 2" "length (rdBufs ?g) = 2" "length (drop 512 xs) < 16777216" using b by (simp_all add: g(8))
      have "1 - (1 - b) = b" using b(1) by simp
      moreover note start_read [OF g(1) l(1,2) bufs' l(3) refl e]
      moreover have "asks h g2 ([] @ [take 512 (drop 512 xs)])" by (rule asks_trans [OF g(9) start_read(8) [OF g(1) l(1,2) bufs' l(3) refl e]])
      ultimately show ?thesis using 2 g by simp
    qed
    then show "if drop 512 xs = [] then spiIdle g2 \<and> dataCnt g2 = 0 else reading g2 (1 - b) (drop 512 xs)"
      "kept_read g2 = kept_read h" "strobes g2 = strobes h" "bus_out g2 = bus_out h" "host_in g2 = es" "rdBufs g2 ! b = rdBufs ?g ! b"
      "rnw g2 = rnw h" "asks h g2 (if drop 512 xs = [] then [] else [take 512 (drop 512 xs)])"
      by blast+
  qed
  have rb: "rb_buffer (rdBufs ?g ! b) = ws @ drop (length ws) (rb_buffer (rdBufs h ! b))"
    "unat (rb_count (rdBufs ?g ! b)) = length ws" "unat (rb_dataBytesCount (rdBufs ?g ! b)) = length (take 512 xs)"
    using assms(1) b lw bw by (simp_all add: g(8) reading_def unat_of_nat min.commute)
  obtain p where p: "find_data (rdBufs ?g ! b) = Some p" "length (take 512 xs) \<le> 2 * length p"
    "take (length (take 512 xs)) (word_bytes p) = take 512 xs"
    by (rule find_data_carries [OF assms(4) rb(1,2)])
  have a: "answers (length (take 512 xs)) g2" using assms(5) g2(3) by (simp add: answers_def)
  have dl: "dataReadCloop p (length (take 512 xs)) g2 = (given (map Data (take 512 xs)) g2, True)"
    using dataReadCloop_ok [OF a p(2)] p(3) by simp
  have nb: "\<not> 2 * length p < length (take 512 xs)" using p(2) by (simp only: not_less)
  have "read_blocks (Suc n) b st h = read_blocks n (1 - b) st (given (map Data (take 512 xs)) g2)"
    unfolding read_blocks.simps spi_idle_done [OF ni assms(3)] Let_def split g2_def [symmetric] g2(6) p(1) option.case rb(3)
    using nb dl by (simp del: length_take)
  then show ?thesis
  proof (rule that)
    show "if drop 512 xs = [] then spiIdle (given (map Data (take 512 xs)) g2) \<and> dataCnt (given (map Data (take 512 xs)) g2) = 0
      else reading (given (map Data (take 512 xs)) g2) (1 - b) (drop 512 xs)" using g2(1) by (simp only: reading_given given_kept)
  qed (use g2 in simp_all)
qed

lemma read_blocks_ok:
  assumes "reading h b xs" and "host_in h = map Done blks @ es" and "list_all2 carries blks (chunks xs)" and "xs \<noteq> []"
    and "answers (length xs) h"
  shows "\<exists>h'. read_blocks (blocks_of (length xs)) b st h = read_blocks 0 b st h' \<and> spiIdle h' \<and> kept_read h' = kept_read h \<and>
    strobes h' = drop (length xs) (strobes h) \<and> bus_out h' = bus_out h @ map Data xs \<and> host_in h' = es \<and> dataCnt h' = 0 \<and> rnw h' = rnw h \<and>
    asks h h' (chunks (drop 512 xs))"
  using assms
proof (induction xs arbitrary: h b blks rule: chunks.induct)
  case (1 xs)
  obtain ws blks' where blks: "blks = ws # blks'" "carries ws (take 512 xs)" "list_all2 carries blks' (chunks (drop 512 xs))"
    using 1(4,5) by (cases blks) auto
  have hi: "host_in h = Done ws # (map Done blks' @ es)" using 1(3) by (simp add: blks(1))
  have a: "answers (length (take 512 xs)) h" by (rule answers_le [OF 1(6)]) simp
  have n: "blocks_of (length xs) = Suc (blocks_of (length xs - 512))" using 1(5) by (intro blocks_of_rec) simp
  obtain h1 where h1: "read_blocks (blocks_of (length xs)) b st h = read_blocks (blocks_of (length xs - 512)) (1 - b) st h1"
    "if drop 512 xs = [] then spiIdle h1 \<and> dataCnt h1 = 0 else reading h1 (1 - b) (drop 512 xs)" "kept_read h1 = kept_read h"
    "strobes h1 = drop (length (take 512 xs)) (strobes h)" "bus_out h1 = bus_out h @ map Data (take 512 xs)"
    "host_in h1 = map Done blks' @ es" "rnw h1 = rnw h" "asks h h1 (if drop 512 xs = [] then [] else [take 512 (drop 512 xs)])"
    unfolding n by (rule read_step [OF 1(2,5) hi blks(2) a, where n = "blocks_of (length xs - 512)" and st = st]) (rule that [unfolded n])
  have z: "read_blocks 0 c st x = read_blocks 0 d st x" for c d x by simp
  show ?case
  proof (cases "drop 512 xs = []")
    case True
    then have "blks' = []" using blks(3) by simp
    moreover have "blocks_of (length xs - 512) = 0" using True by (simp add: blocks_of_def)
    moreover have "take 512 xs = xs" using True by simp
    ultimately show ?thesis using h1 True z by (intro exI [of _ h1]) simp
  next
    case False
    have a1: "answers (length (drop 512 xs)) h1"
    proof -
      have "answers (length (take 512 xs) + length (drop 512 xs)) h" using 1(6) by (simp add: min_def)
      then show ?thesis using h1(4) by (auto simp: answers_def take_add)
    qed
    from 1(1) [OF 1(5), of h1 "1 - b" blks'] h1 False blks(3) a1 obtain h' where
      "read_blocks (blocks_of (length xs - 512)) (1 - b) st h1 = read_blocks 0 (1 - b) st h'" "spiIdle h'" "kept_read h' = kept_read h1"
      "strobes h' = drop (length (drop 512 xs)) (strobes h1)" "bus_out h' = bus_out h1 @ map Data (drop 512 xs)" "host_in h' = es"
      "dataCnt h' = 0" "rnw h' = rnw h1" and k: "asks h1 h' (chunks (drop 512 (drop 512 xs)))"
      by auto
    moreover have "asks h h' ([take 512 (drop 512 xs)] @ chunks (drop 512 (drop 512 xs)))"
      by (rule asks_trans [OF _ k]) (use h1(8) False in simp)
    moreover have "chunks (drop 512 xs) = [take 512 (drop 512 xs)] @ chunks (drop 512 (drop 512 xs))" using False by simp
    moreover have "drop (length (drop 512 xs)) (drop (length (take 512 xs)) s) = drop (length xs) s" for s :: "BYTE option list"
      by (simp add: min_def)
    ultimately show ?thesis using h1 z by (intro exI [of _ h']) (simp del: drop_drop length_take length_drop flip: map_append)
  qed
qed

section \<open>The phase\<close>

lemma onDataRead_blocks:
  assumes "spiIdle h" and "length (rdBufs h) = 2" and "\<forall>r \<in> set (rdBufs h). length (rb_buffer r) = 275"
    and "dataCnt h = of_nat (length xs)" and "length xs < 16777216" and "xs \<noteq> []"
    and "host_in h = map Done blks @ es" and "list_all2 carries blks (chunks xs)" and "answers (length xs) h"
  shows "\<exists>h'. onDataRead st h = read_blocks 0 0 st h' \<and> spiIdle h' \<and> kept_read h' = kept_read (h\<lparr>hstate := STATE_GET_COMMAND\<rparr>) \<and>
    strobes h' = drop (length xs) (strobes h) \<and> bus_out h' = bus_out h @ map Data xs \<and> host_in h' = es \<and> rnw h' \<and>
    asks (h\<lparr>seqNo := 0\<rparr>) h' (chunks xs)"
proof -
  let ?h = "h\<lparr>seqNo := 0, hstate := STATE_GET_COMMAND\<rparr>"
  let ?g = "startSpiDmaForDataRead (of_nat (length xs)) 0 ?h"
  let ?g1 = "?g\<lparr>dataCnt := of_nat (length xs) - ucast (rb_dataBytesCount (rdBufs ?g ! 0))\<rparr>"
  have u: "unat (of_nat (length xs) :: DWORD) = length xs" using assms(5) by (simp add: unat_of_nat)
  have nz: "(of_nat (length xs) :: DWORD) \<noteq> 0" using u assms(6) by (metis length_0_conv unsigned_0)
  have "dataCnt ?g = of_nat (length xs)" using assms(1,4) by (simp add: startSpiDmaForDataRead_def Let_def txRx_idle)
  then have e: "onDataRead st h = read_blocks (blocks_of (length xs)) 0 st (?g1\<lparr>rnw := True\<rparr>)"
    using assms(4) nz u by (simp add: onDataRead_def Let_def blocks_of_def)
  have z: "spiIdle ?h" "(0 :: nat) < 2" "length (rdBufs ?h) = 2" "\<forall>r \<in> set (rdBufs ?h). length (rb_buffer r) = 275"
    using assms by simp_all
  note g = start_read [OF z assms(5) refl refl]
  have r: "reading (?g1\<lparr>rnw := True\<rparr>) 0 xs" using g(1) reading_given(2) by blast
  have f: "host_in (?g1\<lparr>rnw := True\<rparr>) = map Done blks @ es" "strobes (?g1\<lparr>rnw := True\<rparr>) = strobes h"
    "bus_out (?g1\<lparr>rnw := True\<rparr>) = bus_out h" "kept_read (?g1\<lparr>rnw := True\<rparr>) = kept_read (h\<lparr>hstate := STATE_GET_COMMAND\<rparr>)"
    using g assms(7) by (simp_all add: kept_read_def)
  have a: "answers (length xs) (?g1\<lparr>rnw := True\<rparr>)" using assms(9) f(2) by (simp add: answers_def)
  have "asks ?h ?g1 [take 512 xs]" by (rule g(8))
  then have "asks (h\<lparr>seqNo := 0\<rparr>) (?g1\<lparr>rnw := True\<rparr>) [take 512 xs]" by (simp add: asks_def more_ok_def)
  note k = asks_trans [OF this]
  have c: "chunks xs = [take 512 xs] @ chunks (drop 512 xs)" using assms(6) by simp
  from read_blocks_ok [OF r f(1) assms(8,6) a, of st] k show ?thesis unfolding e f c by (auto simp del: chunks_simps)
qed

end
