(* ===== verification/HansLaws.thy ===== *)
theory HansLaws
  imports HansCmd HansRead
begin

text \<open>
  Status bytes, the checks of READ and WRITE, sense data, the ID in flash memory and the capacity of a card.
\<close>

section \<open>A status byte\<close>

definition status_evs :: "bool \<Rightarrow> BYTE \<Rightarrow> bus_ev list" where
  "status_evs acsi st = Status st # (if acsi then [] else [MsgIn 0]) @ [BusReset]"

text \<open>The handshakes of a status phase.\<close>

definition status_acks :: "bool \<Rightarrow> nat" where
  "status_acks acsi = (if acsi then 1 else 2)"

lemma given_fields [simp]:
  "isAcsiNotScsi (given es h) = isAcsiNotScsi h" "brStat (given es h) = brStat h" "sdCard (given es h) = sdCard h"
  "cmd (given es h) = cmd h" "pioReadFailed (given es h) = pioReadFailed h" "hstate (given es h) = hstate h"
  by (simp_all add: given_def)

lemma PIO_read_ok:
  assumes "brStat h = BR_OK" and "answers (status_acks (isAcsiNotScsi h)) h"
  shows "PIO_read st h = h\<lparr>strobes := drop (status_acks (isAcsiNotScsi h)) (strobes h),
    bus_out := bus_out h @ status_evs (isAcsiNotScsi h) st, lastScsiStatusByte := st, pioReadFailed := False, rnw := False,
    first_cmd := None, brStat := BR_OK\<rparr>"
proof -
  obtain x xs where s: "strobes h = Some x # xs"
    using assms(2) by (cases "isAcsiNotScsi h") (auto simp: status_acks_def numeral_2_eq_2 elim: answers_strobe)
  show ?thesis
  proof (cases "isAcsiNotScsi h")
    case True
    then show ?thesis using assms(1) s
      by (simp add: PIO_read_def PIO_read_solely_def give_def strobe_def emit_def resetXilinx_def status_evs_def status_acks_def)
  next
    case False
    then obtain y ys where "xs = Some y # ys"
      using assms(2) s by (cases xs; cases "hd xs") (auto simp: status_acks_def answers_def numeral_2_eq_2)
    then show ?thesis using assms(1) s False
      by (simp add: PIO_read_def PIO_read_solely_def MSG_read_def give_def strobe_def emit_def resetXilinx_def status_evs_def status_acks_def)
  qed
qed

lemma DMA_reads_ok:
  assumes "brStat h = BR_OK" and "answers (length bs + n) h"
  shows "DMA_reads bs h = (given (map Data bs) h, True)"
  using assms
proof (induction bs arbitrary: h)
  case (Cons b bs)
  have a: "answers (Suc (length bs + n)) h" using Cons.prems(2) by simp
  have "answers (length [Data b] + (length bs + n)) h" using a by simp
  from Cons.IH [OF _ answers_given [OF this]] Cons.prems(1) give_ok(1) [OF a] show ?case
    by (simp add: DMA_read_def)
qed simp

section \<open>READ, WRITE and VERIFY outside the card\<close>

definition rw_cmds :: "BYTE set" where
  "rw_cmds = {0x0a, 0x08, 0x2a, 0x28, 0x2f}"

text \<open>The condition of the code, with a sum that does not wrap when the capacity is below the limit.\<close>

lemma range_check:
  assumes "unat cap \<le> 4294901760" and "unat (n :: WORD) \<noteq> 0"
  shows "((s :: DWORD) \<ge> cap \<or> s + ucast n - 1 \<ge> cap) = (unat s + unat n > unat cap)"
proof (cases "s \<ge> cap")
  case True
  then show ?thesis using assms(2) by (simp add: word_le_nat_alt)
next
  case False
  then have s: "unat s < unat cap" by (simp add: word_le_nat_alt not_le)
  have n: "unat n < 65536" by (rule unat_word16_lt)
  have sum: "unat s + unat n < 4294967296" using s n assms(1) by linarith
  have u: "unat (s + ucast n) = unat s + unat n" using sum by (simp add: unat_word_ariths)
  have "s + ucast n \<noteq> 0" using u assms(2) by (metis add_is_0 unsigned_0)
  from unat_pred [OF this] have "unat (s + ucast n - 1) = unat s + unat n - 1" by (simp only: u)
  then show ?thesis using False s assms(2) by (auto simp: word_le_nat_alt)
qed

text \<open>
  C31: READ, WRITE and VERIFY of sectors that are not all on the card are refused with CHECK CONDITION and
  the sense data ILLEGAL REQUEST, LBA OUT OF RANGE, and the card sees no byte of them. The sum of first
  sector and count does not wrap around for cards of less than 2 TB less 32 MB.
\<close>

theorem out_of_range_refused:
  assumes "justCmd \<in> rw_cmds" and "unat (SCapacity (sdCard h)) \<le> 4294901760" and "rw_count justCmd h \<noteq> 0"
    and "unat (rw_start justCmd h) + unat (rw_count justCmd h) > unat (SCapacity (sdCard h))"
    and "brStat h = BR_OK" and "answers (status_acks (isAcsiNotScsi h)) h"
  shows "\<exists>h'. processScsiRW justCmd h = h' \<and> card_out h' = card_out h \<and> card_in h' = card_in h \<and>
    bus_out h' = bus_out h @ status_evs (isAcsiNotScsi h) 2 \<and> strobes h' = drop (status_acks (isAcsiNotScsi h)) (strobes h) \<and>
    sdCard h' = (sdCard h)\<lparr>LastStatus := 2, SCSI_SK := 5, SCSI_ASC := 0x21, SCSI_ASCQ := 0\<rparr>"
proof -
  have "unat (rw_count justCmd h) \<noteq> 0" using assms(3) by (simp add: unat_eq_0)
  note r = range_check [OF assms(2) this, of "rw_start justCmd h"]
  have "processScsiRW justCmd h = send_LastStatus (set_sense 2 5 0x21 h)"
    unfolding processScsiRW_def Let_def using assms(3,4) r by simp
  moreover have "PIO_read 2 (set_sense 2 5 0x21 h) = (let g = set_sense 2 5 0x21 h in
    g\<lparr>strobes := drop (status_acks (isAcsiNotScsi g)) (strobes g),
    bus_out := bus_out g @ status_evs (isAcsiNotScsi g) 2, lastScsiStatusByte := 2, pioReadFailed := False, rnw := False,
    first_cmd := None, brStat := BR_OK\<rparr>)"
    unfolding Let_def by (rule PIO_read_ok) (use assms(5,6) in \<open>simp_all add: set_sense_def answers_def\<close>)
  ultimately show ?thesis by (simp add: send_LastStatus_def set_sense_def)
qed

section \<open>REQUEST SENSE\<close>

text \<open>
  REQUEST SENSE for logical unit 0 hands out the sense key and code that the last command left (no
  sense when the medium has been changed, whose attention it clears): as many bytes as the command allows,
  with the key in byte 2, the code in byte 12 and the qualifier in byte 13, then the status GOOD; after it
  there is no sense any more. For another logical unit it reports that the unit is not supported.
\<close>

lemma request_sense:
  assumes "brStat h = BR_OK" and "n = unat (cmd h ! 4)" and "answers (n + status_acks (isAcsiNotScsi h)) h"
    and "d = (if lun \<noteq> 0 then (5, 0x25, 0) else if MediaChanged (sdCard h) then (0, 0, 0)
          else (SCSI_SK (sdCard h), SCSI_ASC (sdCard h), SCSI_ASCQ (sdCard h)))"
    and "bs = map (\<lambda>i. if i = 0 then 0xf0 else if i = 2 then fst d else if i = 7 then cmd h ! 4 - 7
          else if i = 12 then fst (snd d) else if i = 13 then snd (snd d) else 0) [0..<n]"
  shows "bus_out (SCSI_RequestSense lun h) = bus_out h @ map Data bs @ status_evs (isAcsiNotScsi h) 0 \<and>
    sdCard (SCSI_RequestSense lun h) =
      (sdCard h)\<lparr>LastStatus := 0, SCSI_SK := 0, SCSI_ASC := 0, SCSI_ASCQ := 0, MediaChanged := False\<rparr> \<and>
    strobes (SCSI_RequestSense lun h) = drop (n + status_acks (isAcsiNotScsi h)) (strobes h)"
proof -
  define g where "g = (if MediaChanged (sdCard h) then scsi_clearTheUnitAttention h else h)\<lparr>rnw := True\<rparr>"
  have g: "brStat g = BR_OK" "strobes g = strobes h" "bus_out g = bus_out h" "isAcsiNotScsi g = isAcsiNotScsi h"
    "sdCard g = (if MediaChanged (sdCard h) then (sdCard h)\<lparr>LastStatus := 0, SCSI_SK := 0, SCSI_ASC := 0, SCSI_ASCQ := 0, MediaChanged := False\<rparr> else sdCard h)"
    "cmd g = cmd h"
    using assms(1) by (simp_all add: g_def scsi_clearTheUnitAttention_def set_sense_def Let_def)
  have m: "\<not> MediaChanged (sdCard g)" by (simp add: g(5))
  have l: "length bs = n" by (simp add: assms(5))
  have bs: "map (if lun = 0 then sense_byte (cmd h ! 4) (SCSI_SK (sdCard g)) (SCSI_ASC (sdCard g)) (SCSI_ASCQ (sdCard g))
      else sense_byte (cmd h ! 4) 5 0x25 0) [0..<n] = bs"
    unfolding assms(4,5) by (rule map_cong [OF refl]) (auto simp: sense_byte_def g(5))
  have "answers (length bs + status_acks (isAcsiNotScsi h)) g" using assms(3) g(2) l by (simp add: answers_def)
  note r = DMA_reads_ok [OF g(1) this]
  have e: "SCSI_RequestSense lun h = scsi_sendOKstatus (given (map Data bs) g)"
  proof -
    have "SCSI_RequestSense lun h = (let (h, ok) = DMA_reads bs g in if ok then scsi_sendOKstatus h else h)"
      unfolding bs [symmetric] SCSI_RequestSense_def Let_def assms(2) by (simp add: g_def scsi_clearTheUnitAttention_def set_sense_def)
    then show ?thesis using r by simp
  qed
  let ?g = "set_sense 0 0 0 (given (map Data bs) g)"
  have "answers (status_acks (isAcsiNotScsi ?g)) ?g"
    using assms(3) g(2,4) l by (auto simp: answers_def set_sense_def given_def take_add)
  moreover have "brStat ?g = BR_OK" using g(1) by (simp add: set_sense_def)
  ultimately have e: "SCSI_RequestSense lun h = ?g\<lparr>strobes := drop (status_acks (isAcsiNotScsi ?g)) (strobes ?g),
    bus_out := bus_out ?g @ status_evs (isAcsiNotScsi ?g) 0, lastScsiStatusByte := 0, pioReadFailed := False, rnw := False,
    first_cmd := None, brStat := BR_OK\<rparr>"
    unfolding e scsi_sendOKstatus_def send_LastStatus_def by (subst PIO_read_ok [symmetric]) (simp_all add: set_sense_def)
  show ?thesis
    using m by (simp add: e set_sense_def g l add.commute)
qed

section \<open>The ID in flash memory\<close>

lemma flash_op_ok: "False \<notin> set (flash_ok h) \<Longrightarrow> flash_op f h = (f (h\<lparr>flash_ok := tl (flash_ok h)\<rparr>), True)"
proof (cases "flash_ok h")
  case Nil
  then have e: "h\<lparr>flash_ok := []\<rparr> = h" by (cases h) simp
  show ?thesis unfolding flash_op_def Nil by (simp only: list.case list.sel e)
qed (auto simp: flash_op_def Let_def)

lemma tl_ok: "False \<notin> set xs \<Longrightarrow> False \<notin> set (tl xs)"
  by (cases xs) auto

lemma EE_WriteVariable_ok:
  assumes "False \<notin> set (flash_ok h)"
  obtains xs where "EE_WriteVariable v h = h\<lparr>flash_ok := xs, ee_status := 0, ee_value := v\<rparr>"
proof (cases "ee_status h = 0 \<and> ee_value h = v")
  case True
  then have "EE_WriteVariable v h = h\<lparr>flash_ok := flash_ok h, ee_status := 0, ee_value := v\<rparr>"
    by (simp add: EE_WriteVariable_def)
  then show ?thesis by (rule that)
next
  case False
  note ok = assms tl_ok [OF assms] tl_ok [OF tl_ok [OF assms]]
  have "EE_WriteVariable v h = h\<lparr>flash_ok := tl (tl (tl (flash_ok h))), ee_status := 0, ee_value := v\<rparr>"
    unfolding EE_WriteVariable_def if_not_P [OF False] by (simp add: flash_op_ok ok)
  then show ?thesis by (rule that)
qed

text \<open>
  C35: the ID that the CosmoSolo command sets for the SD card survives a restart. When every operation of
  the flash memory succeeds, a device that later decides to work alone, after however many other states
  but with the same flash contents, answers to exactly the new ID (on the SCSI bus to 1 when the new ID
  is 0, which is the initiator's).
\<close>

theorem solo_id_survives_restart:
  assumes "cosmoSoloSetNewId h = (h1, True)" and "False \<notin> set (flash_ok h)"
    and "ee_status g = ee_status h1" and "ee_value g = ee_value h1" and "hmode g = MODE_UNKNOWN" and "timeOutCount g \<ge> 3"
    and "newId = (if \<not> isAcsiNotScsi g \<and> cmd h ! 4 = 0 then 1 else cmd h ! 4)"
  shows "hmode (main_solo g) = MODE_SOLO \<and> sdCardID (main_solo g) = newId \<and>
    enabledIDs (main_solo g) = map (\<lambda>i. of_nat i = newId) [0..<8] \<and> count_list (enabledIDs (main_solo g)) True = 1"
proof -
  have c: "cmd h ! 3 = sdCardID h" "cmd h ! 4 \<le> 7" using assms(1) by (simp_all add: cosmoSoloSetNewId_def split: if_splits)
  have h1: "h1 = updateEnabledIDsInSoloMode (EE_WriteVariable (ucast (cmd h ! 4)) (h\<lparr>sdCardID := cmd h ! 4\<rparr>))"
    using assms(1) c by (simp add: cosmoSoloSetNewId_def)
  have "False \<notin> set (flash_ok (h\<lparr>sdCardID := cmd h ! 4\<rparr>))" using assms(2) by simp
  then obtain xs where e: "EE_WriteVariable (ucast (cmd h ! 4)) (h\<lparr>sdCardID := cmd h ! 4\<rparr>) =
      h\<lparr>sdCardID := cmd h ! 4, flash_ok := xs, ee_status := 0, ee_value := ucast (cmd h ! 4)\<rparr>"
    by (rule EE_WriteVariable_ok)
  have g: "ee_status g = 0" "ee_value g = ucast (cmd h ! 4)"
    using assms(3,4) unfolding h1 e by (simp_all add: updateEnabledIDsInSoloMode_def)
  have u: "ucast (ucast (cmd h ! 4) :: WORD) = cmd h ! 4" by (simp add: word_unat_eq_iff)
  have m: "hmode (main_solo g) = MODE_SOLO" "sdCardID (main_solo g) = newId" and
    en: "enabledIDs (main_solo g) = map (\<lambda>i. of_nat i = newId) [0..<8]"
    using assms(5-7) by (simp_all add: main_solo_def Let_def EE_ReadVariable_def g u updateEnabledIDsInSoloMode_def)
  have "unat newId \<le> 7" using c(2) by (simp add: assms(7) word_le_nat_alt)
  then have "unat newId \<in> {0, 1, 2, 3, 4, 5, 6, 7}" by auto
  then have "newId \<in> {0, 1, 2, 3, 4, 5, 6, 7}" by (auto simp: word_unat_eq_iff)
  then have "count_list (enabledIDs (main_solo g)) True = 1" unfolding en by (auto simp: upt_rec)
  then show ?thesis using m en by simp
qed

section \<open>The capacity of a card\<close>

definition csd_number :: "BYTE list \<Rightarrow> nat" where
  "csd_number buff = foldl (\<lambda>n b. n * 256 + unat b) 0 buff"

definition csd_bits :: "nat \<Rightarrow> nat \<Rightarrow> BYTE list \<Rightarrow> nat" where
  "csd_bits hi lo buff = csd_number buff div 2 ^ lo mod 2 ^ (hi + 1 - lo)"

lemma csd_number_append: "csd_number (xs @ ys) = csd_number xs * 256 ^ length ys + csd_number ys"
proof (induction ys rule: rev_induct)
  case (snoc y ys)
  then show ?case by (simp add: csd_number_def algebra_simps flip: append_assoc)
qed (simp add: csd_number_def)

lemma csd_number_less: "csd_number xs < 256 ^ length xs"
proof (induction xs rule: rev_induct)
  case (snoc x xs)
  have "csd_number (xs @ [x]) = csd_number xs * 256 + unat x" by (simp add: csd_number_def)
  moreover have "unat x < 256" by (rule unat_word8_lt)
  moreover have "csd_number xs * 256 + 256 \<le> 256 ^ length xs * 256" using snoc by (metis Suc_leI mult.commute mult_Suc_right mult_le_mono2 add.commute)
  ultimately have "csd_number (xs @ [x]) < 256 ^ length xs * 256" by linarith
  then show ?case by (simp add: mult.commute)
qed (simp add: csd_number_def)

lemma csd_number_div: "csd_number buff div 256 ^ k = csd_number (take (length buff - k) buff)" if "k \<le> length buff"
proof -
  have "csd_number buff = csd_number (take (length buff - k) buff) * 256 ^ k + csd_number (drop (length buff - k) buff)"
    using csd_number_append [of "take (length buff - k) buff" "drop (length buff - k) buff"] that by simp
  moreover have "csd_number (drop (length buff - k) buff) < 256 ^ k"
    using csd_number_less [of "drop (length buff - k) buff"] that by simp
  ultimately show ?thesis by simp
qed

lemma top_of_last: "(k::nat) < n \<Longrightarrow> (a * n + k) mod n = k" "0 < m \<Longrightarrow> (a * (n * m) + k) div m = a * n + k div (m::nat)"
proof -
  show "(a * n + k) mod n = k" if "k < n" using that by simp
  have e: "a * (n * m) + k = k + (a * n) * m" by (simp add: algebra_simps)
  show "(a * (n * m) + k) div m = a * n + k div m" if "0 < m"
    unfolding e by (rule div_mult_self1) (use that in simp)
qed

lemma mult_field: "((N * 256 + x) * 256 + y) div 128 mod 8 = (x mod 4) * 2 + y div (128::nat)" if "y < 256"
proof -
  have "((N * 256 + x) * 256 + y) div 128 = (N * 256 + x) * 2 + y div 128" using top_of_last(2) [of 128 "N * 256 + x" 2 y] by simp
  moreover obtain q r where q: "x div 4 = q" "x mod 4 = r" "x = q * 4 + r" using div_mult_mod_eq [of x 4] by metis
  have "(N * 256 + x) * 2 + y div 128 = (N * 64 + x div 4) * 8 + ((x mod 4) * 2 + y div 128)"
    unfolding q(1,2) by (simp add: q(3))
  moreover have "(x mod 4) * 2 + y div 128 < 8"
    using that mod_less_divisor [of 4 x] less_mult_imp_div_less [of y 2 128] by simp
  ultimately show ?thesis by (simp only: top_of_last(1))
qed

lemma size_field:
  "(((N * 256 + x) * 256 + y) * 256 + z) div 64 mod 4096 = (x mod 4) * 1024 + y * 4 + z div (64::nat)" if "y < 256" "z < 256"
proof -
  have "(((N * 256 + x) * 256 + y) * 256 + z) div 64 = ((N * 256 + x) * 256 + y) * 4 + z div 64"
    using top_of_last(2) [of 64 "(N * 256 + x) * 256 + y" 4 z] by simp
  moreover obtain q r where q: "x div 4 = q" "x mod 4 = r" "x = q * 4 + r" using div_mult_mod_eq [of x 4] by metis
  have "((N * 256 + x) * 256 + y) * 4 + z div 64 = (N * 64 + x div 4) * 4096 + ((x mod 4) * 1024 + y * 4 + z div 64)"
    unfolding q(1,2) by (simp add: q(3))
  moreover have "(x mod 4) * 1024 + y * 4 + z div 64 < 4096"
    using that mod_less_divisor [of 4 x] less_mult_imp_div_less [of z 4 64] by simp
  ultimately show ?thesis by (simp only: top_of_last(1))
qed

lemma csd_fields:
  assumes "length buff = 16"
  shows "csd_bits 83 80 buff = unat (buff ! 5) mod 16"
    and "csd_bits 49 47 buff = (unat (buff ! 9) mod 4) * 2 + unat (buff ! 10) div 128"
    and "csd_bits 73 62 buff = (unat (buff ! 6) mod 4) * 1024 + unat (buff ! 7) * 4 + unat (buff ! 8) div 64"
proof -
  have t: "take (Suc n) buff = take n buff @ [buff ! n]" if "n < 16" for n using that assms by (simp add: take_Suc_conv_app_nth)
  have s: "csd_number (xs @ [x]) = csd_number xs * 256 + unat x" for xs x by (simp add: csd_number_def)
  have "csd_number buff div 2 ^ 80 = csd_number (take 6 buff)" using csd_number_div [of 10 buff] assms by simp
  also have "\<dots> = csd_number (take 5 buff) * 256 + unat (buff ! 5)" using t [of 5] s by simp
  also have "\<dots> = unat (buff ! 5) + (csd_number (take 5 buff) * 16) * 16" by simp
  finally have "csd_number buff div 2 ^ 80 mod 16 = unat (buff ! 5) mod 16" by (simp only: mod_mult_self1)
  then show "csd_bits 83 80 buff = unat (buff ! 5) mod 16" unfolding csd_bits_def by simp
  have "csd_number buff div 2 ^ 47 = csd_number buff div 2 ^ 40 div 2 ^ 7" by (simp add: div_mult2_eq [symmetric])
  also have "csd_number buff div 2 ^ 40 = csd_number (take 11 buff)" using csd_number_div [of 5 buff] assms by simp
  also have "\<dots> = (csd_number (take 9 buff) * 256 + unat (buff ! 9)) * 256 + unat (buff ! 10)" using t [of 9] t [of 10] s by (simp del: append_assoc)
  finally show "csd_bits 49 47 buff = (unat (buff ! 9) mod 4) * 2 + unat (buff ! 10) div 128"
    using mult_field [OF unat_word8_lt, of "csd_number (take 9 buff)" "unat (buff ! 9)" "buff ! 10"] by (simp add: csd_bits_def)
  have "csd_number buff div 2 ^ 62 = csd_number buff div 2 ^ 56 div 2 ^ 6" by (simp add: div_mult2_eq [symmetric])
  also have "csd_number buff div 2 ^ 56 = csd_number (take 9 buff)" using csd_number_div [of 7 buff] assms by simp
  also have "\<dots> = ((csd_number (take 6 buff) * 256 + unat (buff ! 6)) * 256 + unat (buff ! 7)) * 256 + unat (buff ! 8)"
    using t [of 6] t [of 7] t [of 8] s by (simp del: append_assoc)
  finally show "csd_bits 73 62 buff = (unat (buff ! 6) mod 4) * 1024 + unat (buff ! 7) * 4 + unat (buff ! 8) div 64"
    using size_field [OF unat_word8_lt unat_word8_lt, of "csd_number (take 6 buff)" "unat (buff ! 6)" "buff ! 7" "buff ! 8"]
    by (simp add: csd_bits_def)
qed

lemma c_size_word:
  fixes x y z :: BYTE
  shows "push_bit 4 (ucast (push_bit 6 (x AND 0x03) OR drop_bit 2 y)) OR ucast (push_bit 2 y OR drop_bit 6 (z AND 0xC0)) =
    (of_nat (unat x mod 4 * 1024 + unat y * 4 + unat z div 64) :: DWORD)"
proof -
  have z: "drop_bit 6 (z AND 0xC0) = drop_bit 6 z"
  proof -
    have "drop_bit 6 (z AND 0xC0) = drop_bit 6 z AND mask 2" by (simp add: mask_eq_exp_minus_1)
    moreover have "unat (drop_bit 6 z) < 4"
      using unat_word8_lt [of z] by (subst unat_drop_bit_eq, subst drop_bit_eq_div) (rule less_mult_imp_div_less, simp)
    ultimately show ?thesis by (simp add: word_unat_eq_iff unat_and_mask)
  qed
  have m: "(0x03 :: BYTE) = mask 2" by (simp add: mask_eq_exp_minus_1)
  have a: "push_bit 4 (ucast (push_bit 6 (x AND mask 2) OR drop_bit 2 y)) OR ucast (push_bit 2 y OR drop_bit 6 z) =
    push_bit 10 (ucast (x AND mask 2)) OR push_bit 2 (ucast y) OR (ucast (drop_bit 6 z) :: DWORD)" (is "?l = ?r")
  proof (rule bit_word_eqI)
    fix n assume "n < LENGTH(32)"
    then have "n \<in> set [0..<32]" by simp
    moreover have "\<forall>n \<in> set [0..<32]. bit ?l n = bit ?r n" by (simp add: upt_rec bit_simps)
    ultimately show "bit ?l n = bit ?r n" by blast
  qed
  have b: "push_bit 10 (ucast (x AND mask 2)) OR push_bit 2 (ucast y) OR (ucast (drop_bit 6 z) :: DWORD) =
    push_bit 10 (ucast (x AND mask 2)) + push_bit 2 (ucast y) + ucast (drop_bit 6 z)"
  proof -
    have y: "\<not> bit y (n - 2)" if "10 \<le> n" for n using that bit_imp_le_length [of y "n - 2"] by auto
    have z: "\<not> bit z (6 + n)" if "2 \<le> n" for n using that bit_imp_le_length [of z "6 + n"] by auto
    let ?a = "push_bit 10 (ucast (x AND mask 2)) :: DWORD" and ?b = "push_bit 2 (ucast y) :: DWORD" and ?c = "ucast (drop_bit 6 z) :: DWORD"
    have "?a + ?b = ?a OR ?b" by (rule disjunctive_add_eq_or) (auto simp: bit_eq_iff bit_simps y)
    moreover have "(?a OR ?b) + ?c = (?a OR ?b) OR ?c" by (rule disjunctive_add_eq_or) (auto simp: bit_eq_iff bit_simps z)
    ultimately show ?thesis by (simp only: or.assoc)
  qed
  have "ucast (x AND mask 2) = (of_nat (unat x mod 4) :: DWORD)" "ucast y = (of_nat (unat y) :: DWORD)"
    "ucast (drop_bit 6 z) = (of_nat (unat z div 64) :: DWORD)"
    using le_less_trans [OF div_le_dividend unat_word8_lt, of z 64]
    by (simp_all add: word_unat_eq_iff unat_and_mask unat_of_nat unat_drop_bit_eq drop_bit_eq_div unat_div del: unat_word8_lt)
  then show ?thesis unfolding m z a b by (simp add: push_bit_eq_mult algebra_simps)
qed

lemma multi_word:
  fixes x y :: BYTE
  shows "unat (push_bit 1 (x AND 0x03) OR drop_bit 7 (y AND 0x80)) = unat x mod 4 * 2 + unat y div 128"
proof -
  have l: "unat (drop_bit 7 y) < 2"
    using unat_word8_lt [of y] by (subst unat_drop_bit_eq, subst drop_bit_eq_div) (rule less_mult_imp_div_less, simp)
  have "drop_bit 7 (y AND 0x80) = drop_bit 7 y AND mask 1" by (simp add: mask_eq_exp_minus_1)
  then have y: "drop_bit 7 (y AND 0x80) = drop_bit 7 y"
    by (simp only: word_unat_eq_iff unat_and_mask) (use l in simp)
  have m: "(0x03 :: BYTE) = mask 2" by (simp add: mask_eq_exp_minus_1)
  have "\<not> bit y (7 + n)" if "1 \<le> n" for n using that bit_imp_le_length [of y "7 + n"] by auto
  moreover have "bit (push_bit 1 (x AND mask 2)) n \<Longrightarrow> 1 \<le> n" for n unfolding bit_push_bit_iff by blast
  ultimately have "push_bit 1 (x AND mask 2) + drop_bit 7 y = push_bit 1 (x AND mask 2) OR drop_bit 7 y"
    by (intro disjunctive_add_eq_or bit_word_eqI) (auto simp only: bit_and_iff bit_drop_bit_eq comp_apply bit_0_eq bot_apply bot_bool_def)
  moreover have "unat (push_bit 1 (x AND mask 2)) = unat x mod 4 * 2" "unat (drop_bit 7 y) = unat y div 128"
    using le_less_trans [OF div_le_dividend unat_word8_lt, of y 128]
    by (simp_all add: push_bit_eq_mult unat_word_ariths unat_and_mask unat_drop_bit_eq drop_bit_eq_div del: unat_word8_lt)
  moreover have "unat (push_bit 1 (x AND mask 2) + drop_bit 7 y) = unat (push_bit 1 (x AND mask 2)) + unat (drop_bit 7 y)"
    using l mod_less_divisor [of 4 "unat x"] calculation(2) by (simp only: unat_word_ariths) simp
  ultimately show ?thesis unfolding m y by (simp only:)
qed

text \<open>
  The sector count that the driver computes in bytes and shifts from the card's CSD register is the
  one of the standard: (C_SIZE + 1) * 2 ^ (C_SIZE_MULT + 2) blocks of 2 ^ READ_BL_LEN bytes, as sectors of
  512 bytes, with C_SIZE, C_SIZE_MULT and READ_BL_LEN the numbers in bits 73 to 62, 49 to 47 and 83 to 80.
\<close>

lemma capacity_formula:
  assumes "length buff = 16" and "buff ! 5 AND 0x0F \<ge> 9"
  shows "MMC_sectors buff = of_nat ((csd_bits 73 62 buff + 1) * 2 ^ (csd_bits 49 47 buff + 2) * 2 ^ csd_bits 83 80 buff div 512)"
proof -
  define n where "n = unat (buff ! 6) mod 4 * 1024 + unat (buff ! 7) * 4 + unat (buff ! 8) div 64"
  define k where "k = unat (buff ! 9) mod 4 * 2 + unat (buff ! 10) div 128"
  define l where "l = unat (buff ! 5) mod 16"
  have b: "unat (0x0F AND buff ! 5) = l" using unat_and_mask [of "buff ! 5" 4] by (simp add: l_def mask_eq_exp_minus_1 and.commute)
  have l: "9 \<le> l" using assms(2) b by (simp add: word_le_nat_alt and.commute)
  have s: "MMC_sectors buff = push_bit (l - 9) (push_bit (k + 2) (of_nat n + 1))"
  proof (cases "l = 9")
    case True
    then have "0x0F AND buff ! 5 = 9" using b by (simp add: word_unat_eq_iff)
    then show ?thesis unfolding MMC_sectors_def Let_def c_size_word multi_word n_def [symmetric] k_def [symmetric] using True by simp
  next
    case False
    have "0x0F AND buff ! 5 \<noteq> 9" using False b by auto
    moreover have "\<not> 0x0F AND buff ! 5 < 9" using l b by (simp add: word_less_nat_alt)
    ultimately show ?thesis unfolding MMC_sectors_def Let_def c_size_word multi_word n_def [symmetric] k_def [symmetric] b by simp
  qed
  obtain j where j: "l = j + 9" using l by (metis le_add_diff_inverse2)
  have "(n + 1) * 2 ^ (k + 2) * 2 ^ l = (n + 1) * 2 ^ (k + 2) * 2 ^ j * 512" by (simp add: j power_add)
  then have "(n + 1) * 2 ^ (k + 2) * 2 ^ l div 512 = (n + 1) * 2 ^ (k + 2) * 2 ^ (l - 9)" by (simp only: j) simp
  then show ?thesis
    unfolding s csd_fields [OF assms(1)] n_def [symmetric] k_def [symmetric] l_def [symmetric] by (simp add: push_bit_eq_mult algebra_simps)
qed

section \<open>Instances\<close>

definition card_example :: "BYTE list \<Rightarrow> nat \<Rightarrow> hans" where
  "card_example c n = hans_zero\<lparr>brStat := BR_OK, isAcsiNotScsi := True, strobes := replicate n (Some 0), cmd := c @ replicate (14 - length c) 0,
     sdCard := (sdCard hans_zero)\<lparr>IsInit := True, Type := 3, SCapacity := 1000, SCSI_SK := 5, SCSI_ASC := 0x21\<rparr>\<rparr>"

lemma out_of_range_refused_witness:
  "\<exists>h'. processScsiRW 0x28 (card_example [0x1f, 0x28, 0, 0, 0, 3, 0xe7, 0, 0, 2] 1) = h' \<and> card_out h' = [] \<and>
     bus_out h' = [Status 2, BusReset]"
proof -
  define h where "h = card_example [0x1f, 0x28, 0, 0, 0, 3, 0xe7, 0, 0, 2] 1"
  have f: "rw_start 0x28 h = 999" "rw_count 0x28 h = 2" "SCapacity (sdCard h) = 1000" "brStat h = BR_OK" "isAcsiNotScsi h" "answers 1 h"
    "card_out h = []" "bus_out h = []"
    by (simp_all add: h_def card_example_def hans_zero_def rw_start_def rw_count_def be32_def be16_def answers_def)
  have "\<exists>h'. processScsiRW 0x28 h = h' \<and> card_out h' = card_out h \<and> card_in h' = card_in h \<and>
    bus_out h' = bus_out h @ status_evs (isAcsiNotScsi h) 2 \<and> strobes h' = drop (status_acks (isAcsiNotScsi h)) (strobes h) \<and>
    sdCard h' = (sdCard h)\<lparr>LastStatus := 2, SCSI_SK := 5, SCSI_ASC := 0x21, SCSI_ASCQ := 0\<rparr>"
    by (rule out_of_range_refused) (use f in \<open>simp_all add: rw_cmds_def status_acks_def\<close>)
  then show ?thesis unfolding h_def [symmetric] using f by (simp add: status_evs_def)
qed

lemma request_sense_witness:
  "bus_out (SCSI_RequestSense 0 (card_example [3, 0, 0, 0, 13] 14)) =
     map Data [0xf0, 0, 5, 0, 0, 0, 0, 6, 0, 0, 0, 0, 0x21] @ [Status 0, BusReset]"
proof -
  let ?h = "card_example [3, 0, 0, 0, 13] 14"
  have "brStat ?h = BR_OK" "13 = unat (cmd ?h ! 4)" "answers (13 + status_acks (isAcsiNotScsi ?h)) ?h" "\<not> MediaChanged (sdCard ?h)"
    "SCSI_SK (sdCard ?h) = 5" "SCSI_ASC (sdCard ?h) = 0x21" "SCSI_ASCQ (sdCard ?h) = 0" "isAcsiNotScsi ?h" "bus_out ?h = []" "cmd ?h ! 4 = 13"
    by (simp_all add: card_example_def hans_zero_def answers_def status_acks_def)
  then show ?thesis using request_sense [OF _ _ _ refl refl, of ?h 13 0] by (simp add: upt_rec status_evs_def)
qed

lemma solo_id_survives_restart_witness:
  "let h = hans_zero\<lparr>cmd := [0, 0x43, 0x53, 0, 5] @ replicate 9 0\<rparr>; h1 = fst (cosmoSoloSetNewId h);
       g = hans_zero\<lparr>ee_status := ee_status h1, ee_value := ee_value h1, timeOutCount := 3\<rparr>
   in sdCardID (main_solo g) = 5 \<and> hmode (main_solo g) = MODE_SOLO"
proof -
  define h where "h = hans_zero\<lparr>cmd := [0, 0x43, 0x53, 0, 5] @ replicate 9 0\<rparr>"
  define h1 where "h1 = fst (cosmoSoloSetNewId h)"
  let ?g = "hans_zero\<lparr>ee_status := ee_status h1, ee_value := ee_value h1, timeOutCount := 3\<rparr>"
  have "cosmoSoloSetNewId h = (h1, True)" by (simp add: cosmoSoloSetNewId_def h1_def h_def hans_zero_def)
  moreover have "False \<notin> set (flash_ok h)" "cmd h ! 4 = 5" "hmode ?g = MODE_UNKNOWN" by (simp_all add: h_def hans_zero_def)
  ultimately have "hmode (main_solo ?g) = MODE_SOLO \<and> sdCardID (main_solo ?g) = 5 \<and>
    enabledIDs (main_solo ?g) = map (\<lambda>i. of_nat i = (5 :: BYTE)) [0..<8] \<and> count_list (enabledIDs (main_solo ?g)) True = 1"
    by (intro solo_id_survives_restart [where h = h]) simp_all
  then show ?thesis unfolding h_def [symmetric] Let_def h1_def [symmetric] by simp
qed

lemma capacity_formula_witness:
  "MMC_sectors [0, 0, 0, 0, 0, 0x59, 0x83, 0xff, 0xc0, 3, 0x80, 0, 0, 0, 0, 0] = 0x200000"
  using capacity_formula [of "[0, 0, 0, 0, 0, 0x59, 0x83, 0xff, 0xc0, 3, 0x80, 0, 0, 0, 0, 0]"]
  by (simp add: csd_fields)

end
