(* ===== verification/HansHost.thy ===== *)
theory HansHost
  imports HansLaws
begin

text \<open>
  The data and status phases of a command that the Raspberry Pi processes, seen from the Atari.
\<close>

section \<open>Reading\<close>

lemma kept_read_fields:
  assumes "kept_read h' = kept_read h"
  shows "brStat h' = brStat h" "statusByte h' = statusByte h" "isAcsiNotScsi h' = isAcsiNotScsi h" "hstate h' = hstate h"
  using assms by (simp_all add: kept_read_def)

lemma read_delivered:
  assumes "spiIdle h" and "length (rdBufs h) = 2" and "\<forall>r \<in> set (rdBufs h). length (rb_buffer r) = 275"
    and "dataCnt h = of_nat (length xs)" and "length xs < 16777216" and "xs \<noteq> []"
    and "host_in h = map Done blks @ es" and "list_all2 carries blks (chunks xs)"
    and "answers (length xs + status_acks (isAcsiNotScsi h)) h" and "brStat h = BR_OK"
  shows "\<exists>h'. onDataRead True h = Some h' \<and>
    bus_out h' = bus_out h @ map Data xs @ status_evs (isAcsiNotScsi h) (statusByte h) \<and>
    strobes h' = drop (length xs + status_acks (isAcsiNotScsi h)) (strobes h) \<and> host_in h' = es \<and>
    hstate h' = STATE_GET_COMMAND \<and> brStat h' = BR_OK \<and> spiIdle h' \<and> asks (h\<lparr>seqNo := 0\<rparr>) h' (chunks xs)"
proof -
  have "answers (length xs) h" by (rule answers_le [OF assms(9)]) simp
  from onDataRead_blocks [OF assms(1-8) this, of True] obtain h' where
    r: "onDataRead True h = read_blocks 0 0 True h'" and i: "spiIdle h'" and k: "kept_read h' = kept_read (h\<lparr>hstate := STATE_GET_COMMAND\<rparr>)"
    and s: "strobes h' = drop (length xs) (strobes h)" and b: "bus_out h' = bus_out h @ map Data xs" and e: "host_in h' = es" and a: "asks (h\<lparr>seqNo := 0\<rparr>) h' (chunks xs)"
    by blast
  note f = kept_read_fields [OF k, simplified]
  let ?g = "h'\<lparr>hstate := STATE_GET_COMMAND\<rparr>"
  have "answers (status_acks (isAcsiNotScsi ?g)) ?g" using assms(9) s f by (auto simp: answers_def take_add)
  then have p: "PIO_read (statusByte h') ?g = ?g\<lparr>strobes := drop (status_acks (isAcsiNotScsi ?g)) (strobes ?g),
    bus_out := bus_out ?g @ status_evs (isAcsiNotScsi ?g) (statusByte h'), lastScsiStatusByte := statusByte h', pioReadFailed := False,
    rnw := False, first_cmd := None, brStat := BR_OK\<rparr>"
    by (intro PIO_read_ok) (use f assms(10) in simp_all)
  show ?thesis unfolding r read_blocks.simps using p i s b e f a by (simp add: add.commute asks_def more_ok_def)
qed

text \<open>
  C13: a read is delivered completely. When the host answers the requests with blocks that hold, behind a
  marker, the bytes of \<open>xs\<close> in pieces of 512 and the Atari takes every byte, then it gets exactly these
  bytes in order, the status byte of the host after them, and the bus is free again; the device then
  waits for the next command.
\<close>

theorem host_read_delivered:
  assumes "spiIdle h" and "length (rdBufs h) = 2" and "\<forall>r \<in> set (rdBufs h). length (rb_buffer r) = 275"
    and "dataCnt h = of_nat (length xs)" and "length xs < 16777216" and "xs \<noteq> []"
    and "host_in h = map Done blks @ es" and "list_all2 carries blks (chunks xs)"
    and "answers (length xs + status_acks (isAcsiNotScsi h)) h" and "brStat h = BR_OK"
  shows "\<exists>h'. onDataRead True h = Some h' \<and>
    bus_out h' = bus_out h @ map Data xs @ status_evs (isAcsiNotScsi h) (statusByte h) \<and>
    strobes h' = drop (length xs + status_acks (isAcsiNotScsi h)) (strobes h) \<and> host_in h' = es \<and>
    hstate h' = STATE_GET_COMMAND \<and> brStat h' = BR_OK \<and> spiIdle h'"
  using read_delivered [OF assms] by blast

text \<open>
  After a read for which the host sends the status separately, the loop over the phases of the command
  ends in the state of the status phase without having sent a status or asked the host for one.
\<close>

lemma read_without_status_stops:
  assumes "hstate h = STATE_DATA_READ_WITHOUT_STATUS"
    and "spiIdle h" and "length (rdBufs h) = 2" and "\<forall>r \<in> set (rdBufs h). length (rb_buffer r) = 275"
    and "dataCnt h = of_nat (length xs)" and "length xs < 16777216" and "xs \<noteq> []"
    and "host_in h = map Done blks @ es" and "list_all2 carries blks (chunks xs)" and "answers (length xs) h"
  shows "\<exists>h'. acsi_loop h = Some (Some h') \<and> hstate h' = STATE_READ_STATUS \<and> bus_out h' = bus_out h @ map Data xs"
proof -
  let ?l = "longTimeout_basedOnSectorCount (ucast (drop_bit 9 (dataCnt h))) h"
  have l: "hstate ?l = hstate h" "spiIdle ?l = spiIdle h" "rdBufs ?l = rdBufs h" "dataCnt ?l = dataCnt h" "host_in ?l = host_in h"
    "strobes ?l = strobes h" "bus_out ?l = bus_out h"
    by (simp_all add: longTimeout_basedOnSectorCount_def timerSetup_cmdTimeoutChangeLength_def Let_def)
  have "answers (length xs) ?l" using assms(10) l by (simp add: answers_def)
  from onDataRead_blocks [of ?l xs blks es, unfolded l, OF assms(2-9) this, of False] obtain h' where
    r: "onDataRead False ?l = read_blocks 0 0 False h'" and b: "bus_out h' = bus_out h @ map Data xs" by blast
  have p: "acsi_pass h = Some (timerSetup_cmdTimeoutChangeLength CMD_TIMEOUT_SHORT (h'\<lparr>hstate := STATE_READ_STATUS\<rparr>), True)"
    using assms(1) r by (simp add: acsi_pass_def long_phase_def)
  show ?thesis
    by (subst acsi_loop.simps) (simp add: p timerSetup_cmdTimeoutChangeLength_def b)
qed

section \<open>Writing\<close>

fun words_of :: "BYTE list \<Rightarrow> WORD list" where
  "words_of (a # b # bs) = be16 a b # words_of bs"
| "words_of [a] = [push_bit 8 (ucast a)]"
| "words_of [] = []"

lemma length_words_of: "length (words_of bs) = length bs div 2 + length bs mod 2"
  by (induction bs rule: words_of.induct) auto

lemma bytes_of_be16: "be16_bytes (be16 a b) = [a, b]"
proof -
  have "ucast (drop_bit 8 (be16 a b)) = a" "ucast (be16 a b) = b"
    by (rule bit_word_eqI; auto simp: be16_def bit_simps dest: bit_imp_le_length)+
  then show ?thesis by (simp add: be16_bytes_def)
qed

text \<open>The words carry the bytes.\<close>

lemma word_bytes_words_of: "take (length bs) (word_bytes (words_of bs)) = bs"
proof (induction bs rule: words_of.induct)
  case (2 a)
  have "be16_bytes (push_bit 8 (ucast a)) = [a, 0]" using bytes_of_be16 [of a 0] by (simp add: be16_def)
  then show ?case by simp
qed (simp_all add: bytes_of_be16)

definition splice :: "nat \<Rightarrow> 'a list \<Rightarrow> 'a list \<Rightarrow> 'a list" where
  "splice i ws buf = take i buf @ ws @ drop (i + length ws) buf"

lemma length_splice [simp]: "i + length ws \<le> length buf \<Longrightarrow> length (splice i ws buf) = length buf"
  by (simp add: splice_def)

lemma splice_append:
  assumes "i + length us + length vs \<le> length buf"
  shows "splice (i + length us) vs (splice i us buf) = splice i (us @ vs) buf"
proof -
  define a where "a = take i buf"
  have "length a = i" using assms by (simp add: a_def)
  then show ?thesis by (simp add: splice_def a_def [symmetric] ac_simps)
qed

definition set_wr :: "nat \<Rightarrow> nat \<Rightarrow> WORD list \<Rightarrow> hans \<Rightarrow> hans" where
  "set_wr b i ws h = h\<lparr>wrBufs := (wrBufs h)[b := (wrBufs h ! b)\<lparr>wr_buffer := splice i ws (wr_buffer (wrBufs h ! b))\<rparr>]\<rparr>"

lemma put_word_set:
  assumes "i < length (wr_buffer (wrBufs h ! b))"
  shows "put_word b i w h = set_wr b i [w] h"
  using assms by (simp add: put_word_def set_wr_def splice_def upd_conv_take_nth_drop)

lemma set_wr_append:
  assumes "b < length (wrBufs h)" and "i + length us + length vs \<le> length (wr_buffer (wrBufs h ! b))"
  shows "set_wr b (i + length us) vs (set_wr b i us h) = set_wr b i (us @ vs) h"
  using assms by (simp add: set_wr_def splice_append)

lemma DMA_write_next: "strobes h = Some b # ss \<Longrightarrow> DMA_write h = (h\<lparr>strobes := ss\<rparr>, b)"
  by (simp add: DMA_write_def strobe_def)

lemma get_words_ok:
  assumes "strobes h = map Some bs @ ss" and "brStat h = BR_OK" and "b < length (wrBufs h)"
    and "i + length (words_of bs) \<le> length (wr_buffer (wrBufs h ! b))" and "bs \<noteq> []"
  shows "get_words (length (words_of bs)) (length bs) i b h =
    ((set_wr b i (words_of bs) h)\<lparr>strobes := ss\<rparr>, Some (i + length (words_of bs)))"
  using assms
proof (induction bs arbitrary: i h rule: words_of.induct)
  case (1 x y bs)
  let ?h = "h\<lparr>strobes := map Some bs @ ss\<rparr>"
  let ?p = "put_word b i (be16 x y) ?h"
  have p: "?p = set_wr b i [be16 x y] ?h" by (rule put_word_set) (use 1(5) in simp)
  have f: "strobes ?p = map Some bs @ ss" "brStat ?p = BR_OK" "b < length (wrBufs ?p)"
    "length (wr_buffer (wrBufs ?p ! b)) = length (wr_buffer (wrBufs h ! b))"
    using 1(3,4) by (simp_all add: put_word_def)
  have "get_words (length (words_of (x # y # bs))) (length (x # y # bs)) i b h =
      get_words (length (words_of bs)) (length bs) (i + 1) b ?p"
    using 1(2,3) by (simp add: DMA_write_next [of _ x "Some y # map Some bs @ ss"] DMA_write_next [of _ y "map Some bs @ ss"])
  also have "\<dots> = ((set_wr b i (words_of (x # y # bs)) h)\<lparr>strobes := ss\<rparr>, Some (i + length (words_of (x # y # bs))))"
  proof (cases "bs = []")
    case True
    then show ?thesis unfolding p by (simp add: set_wr_def)
  next
    case False
    have "i + 1 + length (words_of bs) \<le> length (wr_buffer (wrBufs ?p ! b))" using 1(5) f(4) by simp
    note r = 1(1) [OF f(1-3) this False]
    have "set_wr b (i + length [be16 x y]) (words_of bs) (set_wr b i [be16 x y] ?h) = set_wr b i ([be16 x y] @ words_of bs) ?h"
      by (rule set_wr_append) (use 1(4,5) in simp_all)
    then have "set_wr b (i + 1) (words_of bs) ?p = set_wr b i (be16 x y # words_of bs) ?h" unfolding p by simp
    then show ?thesis unfolding r by (simp add: set_wr_def)
  qed
  finally show ?case .
next
  case (2 x)
  have p: "put_word b i (push_bit 8 (ucast x)) (h\<lparr>strobes := ss\<rparr>) = set_wr b i [push_bit 8 (ucast x)] (h\<lparr>strobes := ss\<rparr>)"
    by (rule put_word_set) (use 2 in simp)
  show ?case using 2(1,2) by (simp add: DMA_write_next [of _ x ss] p) (simp add: set_wr_def)
qed simp

text \<open>What a transfer to the host leaves as it was, apart from the log of messages.\<close>

definition kept_write where
  "kept_write h = (strobes h, bus_out h, seqNo h, wrBufs h, brStat h, hstate h, isAcsiNotScsi h, atnStatus h, length (cmdBuffer h))"

text \<open>What the next phase needs of the state before a write.\<close>

definition for_status where
  "for_status h = (isAcsiNotScsi h, atnStatus h, length (cmdBuffer h))"

lemma spi_idle_write:
  assumes "if spiIdle h then host_in h = es else \<exists>ws. host_in h = Done ws # es"
  obtains g where "spi_idle h = (g, True)" and "kept_write g = kept_write h" and "host_out g = host_out h" and "spi1_ok g = spi1_ok h"
    and "host_in g = es"
proof (cases "spiIdle h")
  case True
  then show ?thesis using assms that [of h] by (simp add: spi_idle_def)
next
  case False
  then obtain ws where ws: "host_in h = Done ws # es" using assms by auto
  show ?thesis
  proof (rule that)
    show "spi_idle h = (spi_complete ws (h\<lparr>host_in := es\<rparr>), True)" by (rule spi_idle_done [OF False ws])
  qed (simp_all add: spi_complete_def rx_store_def hans_DMA1_Channel2_IRQHandler_def hans_DMA1_Channel3_IRQHandler_def
      Let_def kept_write_def split: rx_buf.split)
qed

lemma txRx_write:
  assumes "if spiIdle h then host_in h = es else \<exists>ws. host_in h = Done ws # es" and "False \<notin> set (spi1_ok h)"
  obtains g where "hans_spiDma_txRx n tx m rx h = (g, True)" and "kept_write g = kept_write h" and "\<not> spiIdle g"
    and "host_out g = host_out h @ [(take (unat n) (tx[2 := n, 3 := m]), m)]" and "host_in g = es" and "False \<notin> set (spi1_ok g)"
    and "spi_rx g = (rx, m)"
proof -
  obtain k where k: "spi_idle h = (k, True)" "kept_write k = kept_write h" "host_out k = host_out h" "spi1_ok k = spi1_ok h" "host_in k = es"
    by (rule spi_idle_write [OF assms(1)])
  show ?thesis
  proof (cases "spi1_ok k")
    case Nil
    then show ?thesis
      using k by (intro that [of "fst (hans_spiDma_txRx n tx m rx h)"]) (simp_all add: hans_spiDma_txRx_def hans_spiDma_waitForFinish_def waitForSPIidle_def kept_write_def)
  next
    case (Cons x xs)
    then have "x" "False \<notin> set xs" using assms(2) k(4) by auto
    then show ?thesis using k(1-3,5) Cons
      by (intro that [of "fst (hans_spiDma_txRx n tx m rx h)"]) (simp_all add: hans_spiDma_txRx_def hans_spiDma_waitForFinish_def waitForSPIidle_def kept_write_def)
  qed
qed

text \<open>The message for a piece of the data with its number.\<close>

definition write_message :: "WORD \<Rightarrow> BYTE list \<Rightarrow> WORD list" where
  "write_message seq bs = [ATN_SYNC_WORD, 4, of_nat (length (words_of bs) + 6), 1, seq] @ words_of bs @ [0]"

definition wr_ok :: "hans \<Rightarrow> bool" where
  "wr_ok h \<longleftrightarrow> length (wrBufs h) = 2 \<and> (\<forall>w \<in> set (wrBufs h). length (wr_buffer w) = 275 \<and> take 2 (wr_buffer w) = [ATN_SYNC_WORD, 4])"

lemma wr_ok_nth:
  assumes "wr_ok h" and "b < 2"
  shows "length (wr_buffer (wrBufs h ! b)) = 275" and "take 2 (wr_buffer (wrBufs h ! b)) = [ATN_SYNC_WORD, 4]"
proof -
  have "wrBufs h ! b \<in> set (wrBufs h)" using assms by (simp add: wr_ok_def)
  then show "length (wr_buffer (wrBufs h ! b)) = 275" "take 2 (wr_buffer (wrBufs h ! b)) = [ATN_SYNC_WORD, 4]"
    using assms(1) by (simp_all add: wr_ok_def)
qed

lemma message_taken:
  assumes "length buf = 275" and "take 2 buf = [ATN_SYNC_WORD, 4]" and "length (words_of c) \<le> 256"
  shows "take (length (words_of c) + 6) ((splice 5 (words_of c @ [0]) (buf[4 := s]))[2 := of_nat (length (words_of c) + 6), 3 := 1]) =
    write_message s c"
proof -
  obtain x y bs where "buf = x # y # bs" using assms(1) by (cases buf; cases "tl buf") auto
  moreover then obtain z u v ws where "bs = z # u # v # ws"
    using assms(1) by (cases bs; cases "tl bs"; cases "tl (tl bs)") auto
  ultimately have "(splice 5 (words_of c @ [0]) (buf[4 := s]))[2 := of_nat (length (words_of c) + 6), 3 := 1] =
      write_message s c @ drop (6 + length (words_of c)) (buf[4 := s])"
    using assms(2) by (simp add: splice_def write_message_def)
  moreover have "length (write_message s c) = length (words_of c) + 6" by (simp add: write_message_def)
  ultimately show ?thesis by simp
qed

text \<open>One pass of the loop.\<close>

lemma write_step:
  assumes "wr_ok h" and "b < 2" and "brStat h = BR_OK" and "False \<notin> set (spi1_ok h)"
    and "if spiIdle h then host_in h = es else \<exists>ws. host_in h = Done ws # es"
    and "0 < n" and "strobes h = map Some c @ ss" and "length c = min 512 n"
  obtains h' where "write_blocks first b n h = write_blocks False (1 - b) (n - 512) h'"
    and "wr_ok h'" and "brStat h' = BR_OK" and "False \<notin> set (spi1_ok h')" and "\<not> spiIdle h'" and "host_in h' = es"
    and "strobes h' = ss" and "bus_out h' = bus_out h" and "seqNo h' = seqNo h + 1" and "host_out h' = host_out h @ [(write_message (seqNo h) c, 1)]"
    and "for_status h' = for_status h"
proof -
  define m where "m = (if n > 512 then 512 else n)"
  have m: "m = length c" "n - m = n - 512" using assms(8) by (simp_all add: m_def)
  have w: "m div 2 + m mod 2 = length (words_of c)" by (simp add: m length_words_of)
  have wl: "length (words_of c) \<le> 256" 
  proof -
    have "length c \<le> 512" using assms(8) by simp
    then show ?thesis unfolding length_words_of by presburger
  qed
  let ?buf = "(wr_buffer (wrBufs h ! b))[4 := seqNo h]" and ?ws = "words_of c"
  note buf = wr_ok_nth [OF assms(1,2)]
  have lb: "b < length (wrBufs h)" using assms(1,2) by (simp add: wr_ok_def)
  have lw: "5 + length (?ws @ [0]) \<le> length ?buf" using buf wl by simp
  define g0 where "g0 = h\<lparr>dataCnt := of_nat (n - m)\<rparr>"
  define g1 where "g1 = put_word b 4 (seqNo g0) g0"
  define h1 where "h1 = g1\<lparr>seqNo := seqNo g0 + 1\<rparr>"
  have h1: "strobes h1 = map Some c @ ss" "brStat h1 = BR_OK" "b < length (wrBufs h1)" "wr_buffer (wrBufs h1 ! b) = ?buf"
    using assms(3,7) lb by (simp_all add: h1_def g0_def g1_def put_word_def)
  have cn: "c \<noteq> []" using assms(6,8) by auto
  have "5 + length ?ws \<le> length (wr_buffer (wrBufs h1 ! b))" using lw h1(4) by simp
  note r = get_words_ok [OF h1(1-3) this cn]
  define h2 where "h2 = (set_wr b 5 (?ws @ [0]) h1)\<lparr>strobes := ss\<rparr>"
  have h2: "put_word b (5 + length ?ws) 0 ((set_wr b 5 ?ws h1)\<lparr>strobes := ss\<rparr>) = h2"
  proof -
    have "put_word b (5 + length ?ws) 0 (set_wr b 5 ?ws h1) = set_wr b (5 + length ?ws) [0] (set_wr b 5 ?ws h1)"
      by (rule put_word_set) (use lw h1(3,4) in \<open>simp add: set_wr_def\<close>)
    also have "\<dots> = set_wr b 5 (?ws @ [0]) h1" by (rule set_wr_append) (use lw h1(3,4) in simp_all)
    finally have e: "put_word b (5 + length ?ws) 0 (set_wr b 5 ?ws h1) = set_wr b 5 (?ws @ [0]) h1" .
    have "put_word b k w (x\<lparr>strobes := ss\<rparr>) = (put_word b k w x)\<lparr>strobes := ss\<rparr>" for k w x by (simp add: put_word_def)
    then show ?thesis unfolding h2_def by (simp only: e)
  qed
  define h3 where "h3 = h2\<lparr>wrBufs := (wrBufs h2)[b := (wrBufs h2 ! b)\<lparr>wr_count := of_nat (5 + length ?ws + 1)\<rparr>]\<rparr>"
  have h3: "wr_count (wrBufs h3 ! b) = of_nat (length ?ws + 6)" "wr_buffer (wrBufs h3 ! b) = splice 5 (?ws @ [0]) ?buf"
    "spiIdle h3 = spiIdle h" "host_in h3 = host_in h" "spi1_ok h3 = spi1_ok h" "strobes h3 = ss" "brStat h3 = BR_OK" "bus_out h3 = bus_out h"
    "seqNo h3 = seqNo h + 1" "host_out h3 = host_out h" "for_status h3 = for_status h"
    using lb h1 by (simp_all add: h3_def h2_def set_wr_def h1_def g0_def g1_def put_word_def assms(3) for_status_def)
  have wr3: "wr_ok h3"
  proof -
    have "length (wrBufs h3) = 2" using assms(1) by (simp add: h3_def h2_def set_wr_def h1_def g0_def g1_def put_word_def wr_ok_def)
    moreover have "wrBufs h3 ! (1 - b) = wrBufs h ! (1 - b)" using assms(2)
      by (cases "b = 0") (simp_all add: h3_def h2_def set_wr_def h1_def g0_def g1_def put_word_def)
    moreover have "take 2 (splice 5 (?ws @ [0]) ?buf) = [ATN_SYNC_WORD, 4]" using buf by (simp add: splice_def)
    moreover have "length (splice 5 (?ws @ [0]) ?buf) = 275" using lw buf by simp
    moreover have "w = wrBufs h3 ! b \<or> w = wrBufs h3 ! (1 - b)" if "w \<in> set (wrBufs h3)" for w
    proof -
      obtain i where "i < 2" "w = wrBufs h3 ! i" using \<open>w \<in> _\<close> \<open>length (wrBufs h3) = 2\<close> by (metis in_set_conv_nth)
      moreover have "i = b \<or> i = 1 - b" using \<open>i < 2\<close> assms(2) by auto
      ultimately show ?thesis by blast
    qed
    moreover have "1 - b < 2" by simp
    ultimately show ?thesis using wr_ok_nth [OF assms(1), of "1 - b"] h3(2) unfolding wr_ok_def by metis
  qed
  obtain g where g: "hans_spiDma_txRx (wr_count (wrBufs h3 ! b)) (wr_buffer (wrBufs h3 ! b)) 1 RxSmall h3 = (g, True)"
    "kept_write g = kept_write h3" "\<not> spiIdle g" "host_out g = host_out h3 @
      [(take (unat (wr_count (wrBufs h3 ! b))) ((wr_buffer (wrBufs h3 ! b))[2 := wr_count (wrBufs h3 ! b), 3 := 1]), 1)]"
    "host_in g = es" "False \<notin> set (spi1_ok g)" "spi_rx g = (RxSmall, 1)"
    by (rule txRx_write [of h3 es]) (use assms(4,5) h3 in simp_all)
  have u: "unat (of_nat (length ?ws + 6) :: WORD) = length ?ws + 6" by (simp only: unat_of_nat) (use wl in simp)
  have ho: "host_out g = host_out h @ [(write_message (seqNo h) c, 1)]"
    unfolding g(4) h3(1,2,10) u using message_taken [OF buf wl] by simp
  have n0: "n \<noteq> 0" using assms(6) by simp
  have "write_blocks first b n h = write_blocks False (1 - b) (n - 512) g"
    unfolding write_blocks.simps [of first b n h] if_not_P [OF n0] Let_def
    unfolding m_def [symmetric] w
    unfolding g0_def [symmetric] unfolding g1_def [symmetric] unfolding h1_def [symmetric]
    unfolding r [folded m(1)] split option.case h2
    unfolding h3_def [symmetric] g(1) using m(2) by simp
  then show ?thesis
    using g h3 wr3 ho by (intro that [of g]) (simp_all add: kept_write_def wr_ok_def for_status_def)
qed

lemma length_chunks: "length (chunks xs) = blocks_of (length xs)"
proof (induction xs rule: chunks.induct)
  case (1 xs)
  show ?case
  proof (cases "xs = []")
    case False
    then have "blocks_of (length xs) = Suc (blocks_of (length xs - 512))" by (intro blocks_of_rec) simp
    then show ?thesis using 1 False by simp
  qed (simp add: blocks_of_def)
qed

text \<open>The messages of a whole write.\<close>

fun write_messages :: "WORD \<Rightarrow> BYTE list list \<Rightarrow> (WORD list \<times> WORD) list" where
  "write_messages s [] = []"
| "write_messages s (c # cs) = (write_message s c, 1) # write_messages (s + 1) cs"

lemma write_blocks_ok:
  assumes "wr_ok h" and "b < 2" and "brStat h = BR_OK" and "False \<notin> set (spi1_ok h)"
    and "if spiIdle h then host_in h = map Done (tl blks) @ es else host_in h = map Done blks @ es"
    and "length blks = blocks_of (length xs)" and "strobes h = map Some xs @ ss"
  shows "\<exists>h'. write_blocks first b (length xs) h = h'\<lparr>dataCnt := 0, hstate := STATE_READ_STATUS\<rparr> \<and> host_in h' = es \<and> strobes h' = ss \<and>
    bus_out h' = bus_out h \<and> brStat h' = BR_OK \<and> host_out h' = host_out h @ write_messages (seqNo h) (chunks xs) \<and>
    for_status h' = for_status h \<and> False \<notin> set (spi1_ok h') \<and> (xs \<noteq> [] \<longrightarrow> \<not> spiIdle h')"
  using assms
proof (induction xs arbitrary: h b blks first rule: chunks.induct)
  case (1 xs)
  show ?case
  proof (cases "xs = []")
    case True
    then show ?thesis using 1(2-) by (intro exI [of _ h]) (subst write_blocks.simps, auto simp: blocks_of_def split: if_splits)
  next
    case False
    then have n: "0 < length xs" by simp
    have nb: "blocks_of (length xs) = Suc (blocks_of (length (drop 512 xs)))" using blocks_of_rec [OF n] by simp
    then obtain ws blks' where blks: "blks = ws # blks'" "length blks' = blocks_of (length (drop 512 xs))" using 1(7) by (cases blks) auto
    have hi: "if spiIdle h then host_in h = map Done blks' @ es else \<exists>ws. host_in h = Done ws # map Done blks' @ es"
      using 1(6) by (auto simp: blks(1) split: if_splits)
    have "map Some xs @ ss = map Some (take 512 xs) @ map Some (drop 512 xs) @ ss"
      by (metis append.assoc append_take_drop_id map_append)
    then have st: "strobes h = map Some (take 512 xs) @ map Some (drop 512 xs) @ ss" using 1(8) by simp
    obtain h1 where h1: "write_blocks first b (length xs) h = write_blocks False (1 - b) (length xs - 512) h1"
      "wr_ok h1" "brStat h1 = BR_OK" "False \<notin> set (spi1_ok h1)" "\<not> spiIdle h1" "host_in h1 = map Done blks' @ es"
      "strobes h1 = map Some (drop 512 xs) @ ss" "bus_out h1 = bus_out h" "seqNo h1 = seqNo h + 1"
      "host_out h1 = host_out h @ [(write_message (seqNo h) (take 512 xs), 1)]" "for_status h1 = for_status h"
      by (rule write_step [OF 1(2-5) hi n st]) (simp add: min.commute)
    have "\<exists>h'. write_blocks False (1 - b) (length (drop 512 xs)) h1 = h'\<lparr>dataCnt := 0, hstate := STATE_READ_STATUS\<rparr> \<and> host_in h' = es \<and>
      strobes h' = ss \<and> bus_out h' = bus_out h1 \<and> brStat h' = BR_OK \<and>
      host_out h' = host_out h1 @ write_messages (seqNo h1) (chunks (drop 512 xs)) \<and>
      for_status h' = for_status h1 \<and> False \<notin> set (spi1_ok h') \<and> (drop 512 xs \<noteq> [] \<longrightarrow> \<not> spiIdle h')"
      by (rule 1(1) [OF False h1(2) _ h1(3,4) _ blks(2) h1(7)]) (use h1 in simp_all)
    then obtain h' where h': "write_blocks False (1 - b) (length (drop 512 xs)) h1 = h'\<lparr>dataCnt := 0, hstate := STATE_READ_STATUS\<rparr>" "host_in h' = es"
      "strobes h' = ss" "bus_out h' = bus_out h1" "brStat h' = BR_OK" "host_out h' = host_out h1 @ write_messages (seqNo h1) (chunks (drop 512 xs))"
      "for_status h' = for_status h1" "False \<notin> set (spi1_ok h')" "drop 512 xs \<noteq> [] \<longrightarrow> \<not> spiIdle h'" by blast
    have "\<not> spiIdle h'"
    proof (cases "drop 512 xs = []")
      case True
      then have "h1 \<lparr>dataCnt := 0, hstate := STATE_READ_STATUS\<rparr> = h'\<lparr>dataCnt := 0, hstate := STATE_READ_STATUS\<rparr>"
        using h'(1) by (simp add: write_blocks.simps [of False "Suc 0 - b" 0])
      from arg_cong [OF this, of spiIdle] h1(5) show ?thesis by simp
    qed (use h'(9) in blast)
    then show ?thesis using h1 h' False by auto
  qed
qed

lemma write_delivered:
  assumes "wr_ok h" and "brStat h = BR_OK" and "False \<notin> set (spi1_ok h)" and "spiIdle h"
    and "dataCnt h = of_nat (length xs)" and "length xs < 16777216" and "xs \<noteq> []"
    and "host_in h = map Done blks @ es" and "Suc (length blks) = length (chunks xs)" and "strobes h = map Some xs @ ss"
  shows "hstate (onDataWrite h) = STATE_READ_STATUS \<and> bus_out (onDataWrite h) = bus_out h \<and> strobes (onDataWrite h) = ss \<and>
    host_in (onDataWrite h) = es \<and> host_out (onDataWrite h) = host_out h @ write_messages 0 (chunks xs) \<and>
    brStat (onDataWrite h) = BR_OK \<and> for_status (onDataWrite h) = for_status h \<and> False \<notin> set (spi1_ok (onDataWrite h)) \<and> \<not> spiIdle (onDataWrite h)"
proof -
  have u: "unat (dataCnt h) = length xs" using assms(5,6) by (simp add: unat_of_nat)
  let ?h = "h\<lparr>seqNo := 0, rnw := False\<rparr>"
  have "length ([] # blks) = blocks_of (length xs)" using assms(9) by (simp add: length_chunks)
  then have "\<exists>h'. write_blocks True 0 (length xs) ?h = h'\<lparr>dataCnt := 0, hstate := STATE_READ_STATUS\<rparr> \<and> host_in h' = es \<and> strobes h' = ss \<and>
    bus_out h' = bus_out ?h \<and> brStat h' = BR_OK \<and> host_out h' = host_out ?h @ write_messages (seqNo ?h) (chunks xs) \<and>
    for_status h' = for_status ?h \<and> False \<notin> set (spi1_ok h') \<and> (xs \<noteq> [] \<longrightarrow> \<not> spiIdle h')"
    by (intro write_blocks_ok [where blks = "[] # blks"]) (use assms in \<open>simp_all add: wr_ok_def\<close>)
  then show ?thesis using assms(7) unfolding onDataWrite_def u by (auto simp: for_status_def)
qed

text \<open>
  C14: a write reaches the host completely. When the Atari sends the bytes of \<open>xs\<close>, the host gets them in
  pieces of 512 bytes, each in a message with its number from 0 on, in the order in which they were sent,
  and the device goes on to ask for the status; nothing is sent to the Atari in between.
\<close>

theorem host_write_delivered:
  assumes "wr_ok h" and "brStat h = BR_OK" and "False \<notin> set (spi1_ok h)" and "spiIdle h"
    and "dataCnt h = of_nat (length xs)" and "length xs < 16777216" and "xs \<noteq> []"
    and "host_in h = map Done blks @ es" and "Suc (length blks) = length (chunks xs)" and "strobes h = map Some xs @ ss"
  shows "\<exists>h'. onDataWrite h = h' \<and> hstate h' = STATE_READ_STATUS \<and> bus_out h' = bus_out h \<and> strobes h' = ss \<and> host_in h' = es \<and>
    host_out h' = host_out h @ write_messages 0 (chunks xs)"
  using write_delivered [OF assms] by blast

section \<open>Instances\<close>

definition host_example :: "BYTE option list \<Rightarrow> host_ev list \<Rightarrow> nat \<Rightarrow> hans" where
  "host_example ss es n = (hans_setupAtnBuffers hans_zero)\<lparr>spiIdle := True, isAcsiNotScsi := True, brStat := BR_OK, strobes := ss, host_in := es,
     dataCnt := of_nat n\<rparr>"

lemma host_example_simps:
  "spiIdle (host_example ss es n)" "length (rdBufs (host_example ss es n)) = 2"
  "\<forall>r \<in> set (rdBufs (host_example ss es n)). length (rb_buffer r) = 275" "dataCnt (host_example ss es n) = of_nat n"
  "host_in (host_example ss es n) = es" "isAcsiNotScsi (host_example ss es n)" "brStat (host_example ss es n) = BR_OK"
  "strobes (host_example ss es n) = ss" "statusByte (host_example ss es n) = 0" "bus_out (host_example ss es n) = []"
  "host_out (host_example ss es n) = []" "spi1_ok (host_example ss es n) = []" "wr_ok (host_example ss es n)"
proof -
  have "take 2 ((replicate 275 0)[0 := ATN_SYNC_WORD, 1 := 4]) = [ATN_SYNC_WORD, 4]"
    by (simp add: take_update_swap) (simp add: numeral_2_eq_2)
  then show "wr_ok (host_example ss es n)" by (simp add: host_example_def hans_setupAtnBuffers_def hans_zero_def wr_ok_def)
qed (simp_all add: host_example_def hans_setupAtnBuffers_def hans_zero_def)

definition block_example :: "WORD list" where
  "block_example = [0, 0, 0, 0, 0, 0xda, 0x0102, 0x0300]"

lemma block_example_carries: "list_all2 carries [block_example] (chunks [1, 2, 3])"
proof -
  have "block_example = [0, 0, 0, 0, 0] @ 0xda # [0x0102, 0x0300]" by (simp add: block_example_def)
  moreover have "take 3 (word_bytes [0x0102, 0x0300]) = [1, 2, 3]" by (simp add: be16_bytes_def)
  moreover have "length block_example = block_words 3" by (simp add: block_example_def block_words_def)
  ultimately have "\<exists>hdr dat. block_example = hdr @ 0xda # dat \<and> 0xda \<notin> set hdr \<and> 3 \<le> 2 * length dat \<and> take 3 (word_bytes dat) = [1, 2, 3]"
    by (intro exI [of _ "[0x0102, 0x0300] :: WORD list"] exI [of _ "[0, 0, 0, 0, 0] :: WORD list"] conjI) (simp_all del: word_bytes_simps)
  then have "carries block_example [1, 2, 3]" using \<open>length block_example = _\<close> unfolding carries_def by (simp add: numeral_3_eq_3)
  then show ?thesis by simp
qed

lemma host_read_delivered_witness:
  "\<exists>h'. onDataRead True (host_example (replicate 4 (Some 0)) [Done block_example] 3) = Some h' \<and>
     bus_out h' = [Data 1, Data 2, Data 3, Status 0, BusReset] \<and> hstate h' = STATE_GET_COMMAND"
proof -
  let ?h = "host_example (replicate 4 (Some 0)) [Done block_example] 3"
  have "\<exists>h'. onDataRead True ?h = Some h' \<and> bus_out h' = bus_out ?h @ map Data [1, 2, 3] @ status_evs (isAcsiNotScsi ?h) (statusByte ?h) \<and>
    strobes h' = drop (length [1, 2, 3 :: BYTE] + status_acks (isAcsiNotScsi ?h)) (strobes ?h) \<and> host_in h' = [] \<and>
    hstate h' = STATE_GET_COMMAND \<and> brStat h' = BR_OK \<and> spiIdle h'"
    by (rule host_read_delivered [where blks = "[block_example]"])
      (use block_example_carries in \<open>simp_all add: host_example_simps answers_def status_acks_def\<close>)
  then show ?thesis by (auto simp: host_example_simps status_evs_def)
qed

lemma read_without_status_stops_witness:
  "\<exists>h'. acsi_loop ((host_example (replicate 3 (Some 0)) [Done block_example] 3)\<lparr>hstate := STATE_DATA_READ_WITHOUT_STATUS\<rparr>) = Some (Some h') \<and>
     hstate h' = STATE_READ_STATUS \<and> bus_out h' = [Data 1, Data 2, Data 3]"
proof -
  let ?h = "(host_example (replicate 3 (Some 0)) [Done block_example] 3)\<lparr>hstate := STATE_DATA_READ_WITHOUT_STATUS\<rparr>"
  have "\<exists>h'. acsi_loop ?h = Some (Some h') \<and> hstate h' = STATE_READ_STATUS \<and> bus_out h' = bus_out ?h @ map Data [1, 2, 3]"
    by (rule read_without_status_stops [where blks = "[block_example]" and es = "[]"])
      (use block_example_carries in \<open>simp_all add: host_example_simps answers_def\<close>)
  then show ?thesis by (auto simp: host_example_simps)
qed

lemma host_write_delivered_witness:
  "\<exists>h'. onDataWrite (host_example [Some 1, Some 2, Some 3] [] 3) = h' \<and> hstate h' = STATE_READ_STATUS \<and>
     host_out h' = [([0xcafe, 4, 8, 1, 0, 0x0102, 0x0300, 0], 1)]"
proof -
  let ?h = "host_example [Some 1, Some 2, Some 3] [] 3"
  have "\<exists>h'. onDataWrite ?h = h' \<and> hstate h' = STATE_READ_STATUS \<and> bus_out h' = bus_out ?h \<and> strobes h' = [] \<and> host_in h' = [] \<and>
    host_out h' = host_out ?h @ write_messages 0 (chunks [1, 2, 3])"
    by (rule host_write_delivered [where blks = "[]"]) (simp_all add: host_example_simps)
  then show ?thesis by (auto simp: host_example_simps write_message_def be16_def)
qed

end
