(* ===== verification/HansSd.thy ===== *)
theory HansSd
  imports HansHost
begin

text \<open>
  Sectors between the SD card and the Atari: what the card shifts out arrives at the Atari, what the Atari
  sends arrives at the card, and what VERIFY says about the two.
\<close>

section \<open>The card's side\<close>

text \<open>Timer 3 does not run out at the next \<open>n\<close> polls.\<close>

definition quiet :: "nat \<Rightarrow> bool list \<Rightarrow> bool" where
  "quiet n ts \<longleftrightarrow> n \<le> length ts \<and> True \<notin> set (take n ts)"

lemma quiet_Suc: "quiet (Suc n) ts \<Longrightarrow> \<exists>us. ts = False # us \<and> quiet n us"
  by (cases ts) (auto simp: quiet_def)

lemma quiet_le: "quiet n ts \<Longrightarrow> m \<le> n \<Longrightarrow> quiet m ts"
  by (auto simp: quiet_def) (meson in_mono set_take_subset_set_take)

lemma quiet_drop: "quiet (m + n) ts \<Longrightarrow> quiet n (drop m ts)"
  by (auto simp: quiet_def take_add)

text \<open>The firmware has read up to \<open>r\<close>, sent \<open>out\<close> and polled \<open>k\<close> times.\<close>

definition card_did :: "BYTE list \<Rightarrow> BYTE list \<Rightarrow> nat \<Rightarrow> hans \<Rightarrow> hans" where
  "card_did r out k h = h\<lparr>card_in := r, card_out := card_out h @ map Tx out, tim := drop k (tim h)\<rparr>"

lemma card_did_fields [simp]:
  "card_in (card_did r out k h) = r" "card_out (card_did r out k h) = card_out h @ map Tx out" "tim (card_did r out k h) = drop k (tim h)"
  "strobes (card_did r out k h) = strobes h" "bus_out (card_did r out k h) = bus_out h" "brStat (card_did r out k h) = brStat h"
  "spiRxBuff (card_did r out k h) = spiRxBuff h" "spi2_pend (card_did r out k h) = spi2_pend h" "sdCard (card_did r out k h) = sdCard h"
  "isAcsiNotScsi (card_did r out k h) = isAcsiNotScsi h"
  "card_did r' out' k' (card_did r out k h) = card_did r' (out @ out') (k' + k) h"
  by (simp_all add: card_did_def)

lemma spiCS_fields [simp]:
  "card_in (spiCS b h) = card_in h" "card_out (spiCS b h) = card_out h @ [CS b]" "tim (spiCS b h) = tim h"
  "strobes (spiCS b h) = strobes h" "bus_out (spiCS b h) = bus_out h" "brStat (spiCS b h) = brStat h"
  "spiRxBuff (spiCS b h) = spiRxBuff h" "spi2_pend (spiCS b h) = spi2_pend h" "sdCard (spiCS b h) = sdCard h"
  "isAcsiNotScsi (spiCS b h) = isAcsiNotScsi h"
  by (simp_all add: spiCS_def)

lemma TxRx_did: "card_in h = x # r \<Longrightarrow> spi2_TxRx b h = (card_did r [b] 0 h, x)"
  by (simp add: spi2_TxRx_def card_did_def)

lemma xfer_did: "card_in h = xs @ r \<Longrightarrow> length xs = length bs \<Longrightarrow> bs \<noteq> [] \<Longrightarrow> spi2_xfer bs h = (card_did r bs 0 h, xs)"
proof (induction bs arbitrary: h xs)
  case (Cons b bs)
  then obtain x ys where xs: "xs = x # ys" by (cases xs) auto
  then have t: "spi2_TxRx b h = (card_did (ys @ r) [b] 0 h, x)" using Cons.prems by (simp add: TxRx_did)
  show ?case
  proof (cases "bs = []")
    case True
    then show ?thesis using Cons.prems xs t by simp
  next
    case False
    then show ?thesis using Cons.IH [of "card_did (ys @ r) [b] 0 h" ys] Cons.prems xs t by simp
  qed
qed simp

lemma send_did: "card_in h = xs @ r \<Longrightarrow> length xs = length bs \<Longrightarrow> bs \<noteq> [] \<Longrightarrow> spi2_send bs h = card_did r bs 0 h"
  by (simp add: spi2_send_def xfer_did)

lemma timeout_quiet: "quiet (Suc n) (tim h) \<Longrightarrow> h_timeout h = (h\<lparr>tim := drop 1 (tim h)\<rparr>, False)"
  using quiet_Suc [of n "tim h"] by (auto simp: h_timeout_def)

lemma did_poll: "(card_did r out k h)\<lparr>tim := drop 1 (tim (card_did r out k h))\<rparr> = card_did r out (Suc k) h"
  by (simp add: card_did_def)

lemma response_did:
  assumes "card_in h = replicate a 0xff @ b # r" and "b \<noteq> 0xff" and "a \<le> n" and "quiet a (tim h)"
  shows "response n h = (card_did r (replicate (Suc a) 0xff) a h, b)"
  using assms
proof (induction a arbitrary: h n)
  case 0
  then have t: "spi2_TxRx 0xff h = (card_did r [0xff] 0 h, b)" by (simp add: TxRx_did)
  show ?case using t 0(2) by (cases n) simp_all
next
  case (Suc a)
  then obtain m where n: "n = Suc m" by (cases n) auto
  have t: "spi2_TxRx 0xff h = (card_did (replicate a 0xff @ b # r) [0xff] 0 h, 0xff)" using Suc.prems by (simp add: TxRx_did)
  have "quiet (Suc a) (tim (card_did (replicate a 0xff @ b # r) [0xff] 0 h))" using Suc.prems by simp
  note p = timeout_quiet [OF this, unfolded did_poll]
  have "quiet a (tim (card_did (replicate a 0xff @ b # r) [0xff] 1 h))" using Suc.prems quiet_drop [of 1 a] by simp
  with Suc.IH [of "card_did (replicate a 0xff @ b # r) [0xff] 1 h" m] Suc.prems n t p show ?case
    by (simp add: replicate_app_Cons_same)
qed

lemma startblock_quick_did:
  assumes "card_in h = pre @ 0xFE # r" and "0xFE \<notin> set pre" and "length pre < n"
  shows "startblock_quick n h = (card_did r (replicate (Suc (length pre)) 0xff) 0 h, True)"
  using assms
proof (induction pre arbitrary: h n)
  case Nil
  then show ?case by (cases n) (simp_all add: TxRx_did)
next
  case (Cons x pre)
  then obtain m where n: "n = Suc m" by (cases n) auto
  have t: "spi2_TxRx 0xff h = (card_did (pre @ 0xFE # r) [0xff] 0 h, x)" using Cons.prems by (simp add: TxRx_did)
  with Cons.IH [of "card_did (pre @ 0xFE # r) [0xff] 0 h" m] Cons.prems n show ?case by simp
qed

lemma startblock_did:
  assumes "card_in h = pre @ 0xFE # r" and "0xFE \<notin> set pre" and "length pre < n" and "quiet (length pre) (tim h)"
  shows "startblock n h = (card_did r (replicate (Suc (length pre)) 0xff) (length pre) h, True)"
  using assms
proof (induction pre arbitrary: h n)
  case Nil
  then show ?case by (cases n) (simp_all add: TxRx_did)
next
  case (Cons x pre)
  then obtain m where n: "n = Suc m" by (cases n) auto
  let ?h = "card_did (pre @ 0xFE # r) [0xff] 0 h"
  have t: "spi2_TxRx 0xff h = (?h, x)" using Cons.prems by (simp add: TxRx_did)
  have "quiet (Suc (length pre)) (tim ?h)" using Cons.prems by simp
  note p = timeout_quiet [OF this, unfolded did_poll]
  have "quiet (length pre) (tim (card_did (pre @ 0xFE # r) [0xff] 1 h))" using Cons.prems quiet_drop [of 1 "length pre"] by simp
  with Cons.IH [of "card_did (pre @ 0xFE # r) [0xff] 1 h" m] Cons.prems n t p show ?case by simp
qed

lemma wait_tok_did:
  assumes "card_in h = pre @ tok # r" and "tok \<notin> set pre" and "quiet (length pre) ts"
  shows "wait_tok ts (\<lambda>h. h) tok h = ((card_did r (replicate (Suc (length pre)) 0xff) 0 h)\<lparr>tim := drop (length pre) ts\<rparr>, True)"
  using assms
proof (induction pre arbitrary: h ts)
  case Nil
  then show ?case by (subst wait_tok.simps) (simp add: TxRx_did)
next
  case (Cons x pre)
  have t: "spi2_TxRx 0xff h = (card_did (pre @ tok # r) [0xff] 0 h, x)" using Cons.prems by (simp add: TxRx_did)
  have "x \<noteq> tok" using Cons.prems(2) by auto
  moreover obtain us where us: "ts = False # us" "quiet (length pre) us" using Cons.prems quiet_Suc [of "length pre" ts] by auto
  ultimately show ?case using Cons.IH [of "card_did (pre @ tok # r) [0xff] 0 h" us] Cons.prems us t
    by (subst wait_tok.simps) simp
qed

lemma command_did:
  assumes "card_in h = p @ replicate a 0xff @ b # r" and "length p = 7" and "b \<noteq> 0xff" and "a \<le> 0xffff" and "quiet a (tim h)"
  shows "mmcCommand c arg h = (card_did r ([0xff, c OR 0x40] @ be32_bytes arg @ [if c = 8 then 0x86 else 0x95] @ replicate (Suc a) 0xff) a h, b)"
proof -
  let ?out = "[0xff, c OR 0x40] @ be32_bytes arg @ [if c = 8 then 0x86 else 0x95]"
  have "spi2_send ?out h = card_did (replicate a 0xff @ b # r) ?out 0 h"
    by (rule send_did [OF assms(1)]) (use assms(2) in \<open>simp_all add: be32_bytes_def\<close>)
  moreover have "response 0xffff (card_did (replicate a 0xff @ b # r) ?out 0 h) =
      (card_did r (replicate (Suc a) 0xff) a (card_did (replicate a 0xff @ b # r) ?out 0 h), b)"
    by (rule response_did) (use assms in simp_all)
  ultimately show ?thesis by (simp add: mmcCommand_def)
qed

section \<open>VERIFY\<close>

lemma spi2_send_brStat [simp]: "brStat (spi2_send bs k) = brStat k"
proof (induction bs arbitrary: k)
  case (Cons b bs)
  then show ?case by (cases "card_in k") (simp_all add: spi2_send_def spi2_TxRx_def Let_def split_beta)
qed (simp add: spi2_send_def)

lemma compare_bytes_brStat:
  assumes "strobes h = map Some xs @ ss" and "n \<le> length xs" and "brStat h = BR_OK"
  shows "brStat (compare_bytes n h) = BR_OK"
  using assms
proof (induction n arbitrary: h xs)
  case (Suc n)
  then obtain x ys where xs: "xs = x # ys" by (cases xs) auto
  obtain g b where g: "spi2_TxRx 0xff h = (g, b)" "strobes g = strobes h" "brStat g = brStat h"
    by (cases "card_in h") (auto simp: spi2_TxRx_def)
  have d: "DMA_write g = (g\<lparr>strobes := map Some ys @ ss\<rparr>, x)" using DMA_write_next [of g x] g Suc.prems xs by simp
  show ?case using g d Suc.prems xs Suc.IH [of "g\<lparr>strobes := map Some ys @ ss\<rparr>" ys] by simp
qed simp

text \<open>
  VERIFY cannot fail on a difference. When the card delivers a sector and the Atari its 512 bytes, the
  comparison returns success whatever the two sectors are.
\<close>

lemma verify_ignores_differences:
  assumes "card_in h = p @ replicate a 0xff @ 0 # pre @ 0xFE # r" and "length p = 7" and "a \<le> 0xffff" and "0xFE \<notin> set pre"
    and "length pre < 0x000fffff" and "quiet (a + length pre) (tim h)" and "strobes h = map Some xs @ ss" and "length xs = 512" and "brStat h = BR_OK"
  shows "snd (mmcCompare sector h) = 0"
proof -
  let ?h = "spiCS False h"
  have cs: "card_in ?h = card_in h" "tim ?h = tim h" "strobes ?h = strobes h" "brStat ?h = brStat h" by simp_all
  have "mmcCommand 17 (card_address sector ?h) ?h =
    (card_did (pre @ 0xFE # r) ([0xff, 17 OR 0x40] @ be32_bytes (card_address sector ?h) @ [if (17 :: BYTE) = 8 then 0x86 else 0x95] @ replicate (Suc a) 0xff) a ?h, 0)"
    by (rule command_did) (use assms cs quiet_le [OF assms(6), of a] in simp_all)
  moreover define g where "g = card_did (pre @ 0xFE # r) ([0xff, 17 OR 0x40] @ be32_bytes (card_address sector ?h) @ [if (17 :: BYTE) = 8 then 0x86 else 0x95] @ replicate (Suc a) 0xff) a ?h"
  ultimately have c: "mmcCommand 17 (card_address sector ?h) ?h = (g, 0)" by simp
  have "startblock 0x000fffff g = (card_did r (replicate (Suc (length pre)) 0xff) (length pre) g, True)"
    by (rule startblock_did) (use assms cs quiet_drop [OF assms(6)] in \<open>simp_all add: g_def\<close>)
  moreover have "strobes g = map Some xs @ ss" "brStat g = BR_OK" using assms cs by (simp_all add: g_def)
  moreover then have "brStat (compare_bytes 512 ((card_did r (replicate (Suc (length pre)) 0xff) (length pre) g)\<lparr>rnw := False\<rparr>)) = BR_OK"
    by (intro compare_bytes_brStat [where xs = xs and ss = ss]) (use assms(8) in simp_all)
  ultimately show ?thesis using c by (simp add: mmcCompare_def Let_def split_beta)
qed

section \<open>What the card transfers leave alone\<close>

definition bus_view where
  "bus_view h = (strobes h, bus_out h, brStat h, isAcsiNotScsi h, sdCard h, spiRxBuff h, spi2_pend h)"

definition card_view where
  "card_view h = (card_in h, card_out h, tim h, bus_view h)"

lemma card_view_idle [simp]: "card_view (fst (spi_idle g)) = card_view g"
  by (simp add: spi_idle_def spi_complete_def rx_store_def hans_DMA1_Channel2_IRQHandler_def hans_DMA1_Channel3_IRQHandler_def
      Let_def card_view_def bus_view_def split: list.split host_ev.split rx_buf.split)

lemma card_view_updates [simp]:
  "card_view (g\<lparr>spiIdle := b\<rparr>) = card_view g" "card_view (g\<lparr>shouldProcessCommands := b\<rparr>) = card_view g"
  "card_view (g\<lparr>sendFw := b\<rparr>) = card_view g" "card_view (g\<lparr>atnFw := ws\<rparr>) = card_view g"
  "card_view (g\<lparr>recoveryLevel_toHost := l\<rparr>) = card_view g" "card_view (g\<lparr>tim2 := bs\<rparr>) = card_view g" "card_view (g\<lparr>spi1_ok := bs\<rparr>) = card_view g"
  "card_view (g\<lparr>spiTXidle := x, spiRXidle := y, spiIdle := z, spi_rx := r, host_out := o'\<rparr>) = card_view g"
  by (simp_all add: card_view_def bus_view_def)

lemma card_view_txRx [simp]: "card_view (fst (hans_spiDma_txRx n tx m rx h)) = card_view h"
proof -
  have w: "card_view (fst (hans_spiDma_waitForFinish g)) = card_view g" for g
  proof -
    obtain k b where k: "spi_idle g = (k, b)" by fastforce
    then have "card_view k = card_view g" using card_view_idle [of g] by simp
    then show ?thesis using k by (cases b) (simp_all add: hans_spiDma_waitForFinish_def)
  qed
  have "card_view (fst (waitForSPIidle g)) = card_view g" for g by (simp add: waitForSPIidle_def split: list.split)
  then show ?thesis using w by (simp add: hans_spiDma_txRx_def Let_def split_beta)
qed

lemma card_view_fw_alive: "card_view (fw_alive h) = card_view h"
proof -
  have t: "card_view (fst (tim2_flag g)) = card_view g" for g by (simp add: tim2_flag_def split: list.split)
  have s: "card_view (sendFwToHost g) = card_view g" for g by (simp add: sendFwToHost_def Let_def split_beta)
  show ?thesis by (simp add: fw_alive_def Let_def split_beta t s)
qed

lemma card_view_eqD:
  assumes "card_view g = card_view h"
  shows "card_in g = card_in h" "card_out g = card_out h" "tim g = tim h" "strobes g = strobes h" "bus_out g = bus_out h" "brStat g = brStat h"
    "isAcsiNotScsi g = isAcsiNotScsi h" "sdCard g = sdCard h" "spiRxBuff g = spiRxBuff h" "spi2_pend g = spi2_pend h"
  using assms by (simp_all add: card_view_def bus_view_def)

lemmas fw_alive_fields [simp] = card_view_eqD [OF card_view_fw_alive]

text \<open>Whatever the card answers, a command only talks to the card.\<close>

definition grows :: "hans \<Rightarrow> hans \<Rightarrow> bool" where
  "grows h g \<longleftrightarrow> bus_view g = bus_view h \<and> (\<exists>es. card_out g = card_out h @ es)"

lemma grows_refl [simp]: "grows h h"
  by (simp add: grows_def)

lemma grows_trans [trans]: "grows h g \<Longrightarrow> grows g k \<Longrightarrow> grows h k"
  by (auto simp: grows_def)

lemma grows_TxRx: "grows h (fst (spi2_TxRx b h))"
  by (auto simp: grows_def bus_view_def spi2_TxRx_def Let_def split: list.split)

lemma grows_send: "grows h (spi2_send bs h)"
proof (induction bs arbitrary: h)
  case (Cons b bs)
  then show ?case using grows_trans [OF grows_TxRx Cons.IH] by (simp add: spi2_send_def Let_def split_beta)
qed (simp add: spi2_send_def)

lemma grows_response: "grows h (fst (response n h))"
proof (induction n arbitrary: h)
  case 0
  then show ?case by (simp add: grows_TxRx)
next
  case (Suc n)
  have t: "grows g (fst (h_timeout g))" for g by (simp add: h_timeout_def grows_def bus_view_def split: list.split)
  show ?case
    using grows_TxRx [where h = h and b = "0xff"] grows_trans [OF grows_TxRx t] grows_trans [OF grows_trans [OF grows_TxRx t] Suc.IH]
    by (simp add: Let_def split_beta)
qed

lemma grows_command: "grows h (fst (mmcCommand c arg h))"
  unfolding mmcCommand_def by (rule grows_trans [OF grows_send grows_response])

section \<open>Reading sectors\<close>

text \<open>
  What the card shifts out: for every sector a gap (check bytes of the sector before, then bytes that do
  not start a block), the start of the block and 512 bytes.
\<close>

fun sector_stream :: "(BYTE list \<times> BYTE list) list \<Rightarrow> BYTE list" where
  "sector_stream [] = []"
| "sector_stream ((gap, d) # gs) = gap @ 0xFE # d @ sector_stream gs"

definition gap_ok :: "BYTE list \<times> BYTE list \<Rightarrow> bool" where
  "gap_ok g \<longleftrightarrow> length (snd g) = 512 \<and> 2 \<le> length (fst g) \<and> 0xFE \<notin> set (drop 2 (fst g))"

definition bufs_ok :: "hans \<Rightarrow> bool" where
  "bufs_ok h \<longleftrightarrow> length (spiRxBuff h) = 3 \<and> (\<forall>x \<in> set (spiRxBuff h). length x = 520)"

lemma answers_drop: "answers (m + n) h \<Longrightarrow> strobes g = drop m (strobes h) \<Longrightarrow> answers n g"
  by (auto simp: answers_def take_add)

lemma READ_BYTE_BFRs_ok: "answers (length bs + n) h \<Longrightarrow> READ_BYTE_BFRs bs False h = (given (map Data bs) h, False)"
proof (induction bs arbitrary: h)
  case (Cons b bs)
  have "answers (Suc (length bs + n)) h" using Cons.prems by simp
  note r = READ_HALF_ok [OF this, of b]
  have "answers (length [Data b] + (length bs + n)) h" using Cons.prems by simp
  from Cons.IH [OF answers_given [OF this]] r show ?case by simp
qed simp

lemma spi2_run_did:
  assumes "bufs_ok h" and "b < 3" and "card_in h = d @ r" and "length d = 512"
  shows "spi2_run (replicate 512 0xff) b h =
    (card_did r (replicate 512 0xff) 0 h)\<lparr>spiRxBuff := (spiRxBuff h)[b := d @ drop 512 (spiRxBuff h ! b)], spi2_pend := None\<rparr>"
proof -
  have "spiRxBuff h ! b \<in> set (spiRxBuff h)" using assms(1,2) by (simp add: bufs_ok_def)
  then have "length (spiRxBuff h ! b) = 520" using assms(1) by (simp add: bufs_ok_def)
  then have "overwrite (spiRxBuff h ! b) d = d @ drop 512 (spiRxBuff h ! b)" using assms(4) by (simp add: overwrite_def)
  moreover have "spi2_xfer (replicate 512 0xff) h = (card_did r (replicate 512 0xff) 0 h, d)"
    by (rule xfer_did [OF assms(3)]) (use assms(4) in simp_all)
  ultimately show ?thesis by (simp add: spi2_run_def)
qed

lemma read_sector_did:
  assumes "bufs_ok h" and "b < 2" and "spi2_pend h = Some (replicate 512 0xff, b)" and "card_in h = d @ rest" and "length d = 512"
    and "answers (512 + m) h" and "follow \<longrightarrow> rest = gap @ 0xFE # r \<and> 2 \<le> length gap \<and> 0xFE \<notin> set (drop 2 gap) \<and> quiet (length gap - 2 + k) (tim h)"
    and "\<not> follow \<longrightarrow> r = rest"
  obtains h' where "read_sector follow b h = (h', False)" and "bufs_ok h'" and "card_in h' = r" and "bus_out h' = bus_out h @ map Data d"
    and "strobes h' = drop 512 (strobes h)" and "spi2_pend h' = (if follow then Some (replicate 512 0xff, 1 - b) else None)"
    and "tim h' = (if follow then drop (length gap - 2) (tim h) else tim h)" and "brStat h' = brStat h"
    and "isAcsiNotScsi h' = isAcsiNotScsi h" and "sdCard h' = sdCard h" and "\<exists>es. card_out h' = card_out h @ es"
proof -
  define g where "g = waitForSpi2Finish (fw_alive h)"
  have "bufs_ok (fw_alive h)" using assms(1) by (simp add: bufs_ok_def)
  then have "g = (card_did rest (replicate 512 0xff) 0 (fw_alive h))\<lparr>spiRxBuff := (spiRxBuff h)[b := d @ drop 512 (spiRxBuff h ! b)], spi2_pend := None\<rparr>"
    using assms(2-5) spi2_run_did [of "fw_alive h" b d rest] by (simp add: g_def waitForSpi2Finish_def)
  then have g: "card_in g = rest" "bus_out g = bus_out h" "strobes g = strobes h" "spi2_pend g = None" "tim g = tim h" "brStat g = brStat h"
    "isAcsiNotScsi g = isAcsiNotScsi h" "sdCard g = sdCard h" "card_out g = card_out h @ map Tx (replicate 512 0xff)"
    "spiRxBuff g = (spiRxBuff h)[b := d @ drop 512 (spiRxBuff h ! b)]"
    by simp_all
  have b: "length (d @ drop 512 (spiRxBuff h ! b)) = 520"
  proof -
    have "spiRxBuff h ! b \<in> set (spiRxBuff h)" using assms(1,2) by (simp add: bufs_ok_def)
    then show ?thesis using assms(1,5) by (simp add: bufs_ok_def)
  qed
  have "\<forall>x \<in> set (spiRxBuff g). length x = 520" unfolding g(10)
    by (rule all_update [where P = "\<lambda>x. length x = 520", OF _ b]) (use assms(1) in \<open>simp add: bufs_ok_def\<close>)
  then have bg: "bufs_ok g" using assms(1) by (simp add: bufs_ok_def g(10))
  have t: "take 512 (spiRxBuff g ! b) = d" using assms(1,2,5) by (simp add: g(10) bufs_ok_def)
  show ?thesis
  proof (cases follow)
    case False
    have "READ_BYTE_BFRs d False g = (given (map Data d) g, False)"
      by (rule READ_BYTE_BFRs_ok [of d m]) (use assms(5,6) g(3) in \<open>simp add: answers_def\<close>)
    then have "read_sector follow b h = (given (map Data d) g, False)" using False t by (simp add: read_sector_def g_def [symmetric])
    then show ?thesis
      by (rule that) (use False g bg assms(5,8) in \<open>simp_all add: bufs_ok_def given_def\<close>)
  next
    case True
    then have q: "rest = gap @ 0xFE # r" "2 \<le> length gap" "0xFE \<notin> set (drop 2 gap)" "quiet (length gap - 2 + k) (tim h)" using assms(7) by auto
    have "card_in g = take 2 gap @ drop 2 gap @ 0xFE # r" by (simp add: g(1) q(1) flip: append_assoc)
    then have s: "spi2_send [0xff, 0xff] g = card_did (drop 2 gap @ 0xFE # r) [0xff, 0xff] 0 g"
      by (rule send_did) (use q(2) in simp_all)
    define g1 where "g1 = card_did (drop 2 gap @ 0xFE # r) [0xff, 0xff] 0 g"
    define g2 where "g2 = (card_did r (replicate (Suc (length (drop 2 gap))) 0xff) 0 g1)\<lparr>tim := drop (length (drop 2 gap)) (tim g1)\<rparr>"
    have w: "wait_tok (tim g1) (\<lambda>h. h) 0xFE g1 = (g2, True)" unfolding g2_def
      by (rule wait_tok_did) (use q g(5) quiet_le [OF q(4)] in \<open>simp_all add: g1_def\<close>)
    let ?g = "spi2Dma_txRx (replicate 512 0xff) (1 - b) g2"
    have gt: "take 512 (spiRxBuff ?g ! b) = d" using t by (simp add: spi2Dma_txRx_def g2_def g1_def)
    have "READ_BYTE_BFRs d False ?g = (given (map Data d) ?g, False)"
      by (rule READ_BYTE_BFRs_ok [of d m]) (use assms(5,6) g(3) in \<open>simp add: answers_def spi2Dma_txRx_def g2_def g1_def\<close>)
    then have "read_sector follow b h = (given (map Data d) ?g, False)"
      using True gt w s by (simp add: read_sector_def g_def [symmetric] g1_def [symmetric])
    then show ?thesis
      by (rule that) (use True g bg assms(5) in \<open>simp_all add: bufs_ok_def given_def spi2Dma_txRx_def g2_def g1_def\<close>)
  qed
qed

lemma read_sectors_did:
  assumes "bufs_ok h" and "b < 2" and "spi2_pend h = Some (replicate 512 0xff, b)" and "card_in h = d @ sector_stream gs @ r"
    and "length d = 512" and "list_all gap_ok gs" and "answers (512 * Suc (length gs) + m) h" and "quiet (length (sector_stream gs)) (tim h)"
  shows "\<exists>h'. read_sectors (Suc (length gs)) b h = (h', False) \<and> card_in h' = r \<and> bus_out h' = bus_out h @ map Data (d @ concat (map snd gs)) \<and>
    strobes h' = drop (512 * Suc (length gs)) (strobes h) \<and> spi2_pend h' = None \<and> brStat h' = brStat h \<and>
    isAcsiNotScsi h' = isAcsiNotScsi h \<and> sdCard h' = sdCard h \<and> (\<exists>es. card_out h' = card_out h @ es)"
  using assms
proof (induction gs arbitrary: h b d)
  case Nil
  have "card_in h = d @ r" using Nil by simp
  moreover have "answers (512 + m) h" using Nil(7) by simp
  ultimately obtain h' where "read_sector False b h = (h', False)" "card_in h' = r" "bus_out h' = bus_out h @ map Data d"
    "strobes h' = drop 512 (strobes h)" "spi2_pend h' = None" "brStat h' = brStat h" "isAcsiNotScsi h' = isAcsiNotScsi h"
    "sdCard h' = sdCard h" "\<exists>es. card_out h' = card_out h @ es"
    by (rule read_sector_did [where follow = False and r = r and gap = "[]" and k = 0, OF Nil(1-3) _ Nil(5)]) simp_all
  then show ?case by simp
next
  case (Cons x gs)
  obtain gap e where x: "x = (gap, e)" by (cases x)
  have "gap_ok (gap, e)" and gs: "list_all gap_ok gs" using Cons.prems(6) by (simp_all add: x)
  then have gp: "length e = 512" "2 \<le> length gap" "0xFE \<notin> set (drop 2 gap)" by (simp_all add: gap_ok_def)
  have a: "answers (512 + (512 * Suc (length gs) + m)) h" using Cons.prems(7) by (simp add: ac_simps)
  have ci: "card_in h = d @ (gap @ 0xFE # e @ sector_stream gs @ r)" using Cons.prems(4) by (simp add: x)
  have q: "quiet (length gap - 2 + length (sector_stream gs)) (tim h)" by (rule quiet_le [OF Cons.prems(8)]) (simp add: x)
  obtain h1 where h1: "read_sector True b h = (h1, False)" "bufs_ok h1" "card_in h1 = e @ sector_stream gs @ r" "bus_out h1 = bus_out h @ map Data d"
    "strobes h1 = drop 512 (strobes h)" "spi2_pend h1 = Some (replicate 512 0xff, 1 - b)" "tim h1 = drop (length gap - 2) (tim h)"
    "brStat h1 = brStat h" "isAcsiNotScsi h1 = isAcsiNotScsi h" "sdCard h1 = sdCard h" "\<exists>es. card_out h1 = card_out h @ es"
    by (rule read_sector_did [where follow = True and gap = gap and r = "e @ sector_stream gs @ r" and k = "length (sector_stream gs)",
          OF Cons.prems(1-3) ci Cons.prems(5) a]) (use gp q in simp_all)
  have a1: "answers (512 * Suc (length gs) + m) h1" by (rule answers_drop [OF a h1(5)])
  have q1: "quiet (length (sector_stream gs)) (tim h1)" unfolding h1(7) by (rule quiet_drop [OF q])
  have b1: "1 - b < 2" by simp
  obtain h' where
    "read_sectors (Suc (length gs)) (1 - b) h1 = (h', False)" "card_in h' = r" "bus_out h' = bus_out h1 @ map Data (e @ concat (map snd gs))"
    "strobes h' = drop (512 * Suc (length gs)) (strobes h1)" "spi2_pend h' = None" "brStat h' = brStat h1"
    "isAcsiNotScsi h' = isAcsiNotScsi h1" "sdCard h' = sdCard h1" "\<exists>es. card_out h' = card_out h1 @ es"
    using Cons.IH [OF h1(2) b1 h1(6,3) gp(1) gs a1 q1] by blast
  then show ?case using h1 by (intro exI [of _ h']) (auto simp: x ac_simps)
qed

text \<open>
  The answers of a card to a READ of the sectors \<open>d # map snd gs\<close>: seven bytes during the command, its
  response 0 after \<open>a\<close> bytes, the sectors, and anything after them.
\<close>

definition read_reply :: "nat \<Rightarrow> BYTE list \<Rightarrow> BYTE list \<Rightarrow> (BYTE list \<times> BYTE list) list \<Rightarrow> BYTE list \<Rightarrow> BYTE list \<Rightarrow> bool" where
  "read_reply a gap d gs r bs \<longleftrightarrow> (\<exists>p. length p = 7 \<and> bs = p @ replicate a 0xff @ 0 # gap @ 0xFE # d @ sector_stream gs @ r) \<and>
     a \<le> 0xffff \<and> 0xFE \<notin> set gap \<and> length gap < 0xffff \<and> length d = 512 \<and> list_all gap_ok gs"

definition read_command :: "DWORD \<Rightarrow> card_ev list" where
  "read_command addr = CS False # map Tx ([0xff, 18 OR 0x40] @ be32_bytes addr @ [0x95])"

lemma mmcRead_dma_did:
  assumes "bufs_ok h" and "read_reply a gap d gs r (card_in h)" and "unat count = Suc (length gs)"
    and "answers (512 * Suc (length gs) + m) h" and "quiet (Suc a + length (sector_stream gs)) (tim h)"
  obtains h' where "mmcRead_dma sector count h = (h', 0)" and "bus_out h' = bus_out h @ map Data (d @ concat (map snd gs))"
    and "strobes h' = drop (512 * Suc (length gs)) (strobes h)" and "brStat h' = brStat h" and "isAcsiNotScsi h' = isAcsiNotScsi h"
    and "sdCard h' = sdCard h" and "\<exists>es. card_out h' = card_out h @ read_command (card_address sector h) @ es"
proof -
  obtain p where p: "length p = 7" "card_in h = p @ replicate a 0xff @ 0 # gap @ 0xFE # d @ sector_stream gs @ r" and
    ok: "a \<le> 0xffff" "0xFE \<notin> set gap" "length gap < 0xffff" "length d = 512" "list_all gap_ok gs"
    using assms(2) by (auto simp: read_reply_def)
  let ?s = "card_address sector h" and ?t = "h\<lparr>rnw := True\<rparr>"
  let ?h = "spiCS False (?t\<lparr>tim := drop 1 (tim ?t)\<rparr>)"
  let ?out = "[0xff, 18 OR 0x40] @ be32_bytes ?s @ [if (18 :: BYTE) = 8 then 0x86 else 0x95] @ replicate (Suc a) 0xff"
  have "quiet (Suc (a + length (sector_stream gs))) (tim ?t)" using assms(5) by simp
  note t = timeout_quiet [OF this]
  have q: "quiet (a + length (sector_stream gs)) (tim ?h)" using assms(5) quiet_drop [of 1 "a + length (sector_stream gs)" "tim h"] by simp
  have c: "mmcCommand 18 ?s ?h = (card_did (gap @ 0xFE # d @ sector_stream gs @ r) ?out a ?h, 0)"
    by (rule command_did [OF _ p(1)]) (use p(2) ok quiet_le [OF q] in simp_all)
  define g where "g = card_did (gap @ 0xFE # d @ sector_stream gs @ r) ?out a ?h"
  have b: "startblock_quick 0xffff g = (card_did (d @ sector_stream gs @ r) (replicate (Suc (length gap)) 0xff) 0 g, True)"
    by (rule startblock_quick_did) (use ok in \<open>simp_all add: g_def\<close>)
  define g1 where "g1 = card_did (d @ sector_stream gs @ r) (replicate (Suc (length gap)) 0xff) 0 g"
  have "read_start (Suc 4) ?s ?t = (g1, Started)"
    unfolding read_start.simps Let_def t split if_False c unfolding g_def [symmetric] b g1_def [symmetric] by simp
  moreover have "Suc 4 = 5" by simp
  ultimately have s: "read_start 5 ?s ?t = (g1, Started)" by (simp only:)
  let ?g = "spi2Dma_txRx (replicate 512 0xff) 0 g1"
  have f: "bufs_ok ?g" "spi2_pend ?g = Some (replicate 512 0xff, 0)" "card_in ?g = d @ sector_stream gs @ r" "strobes ?g = strobes h"
    "tim ?g = drop a (tim ?h)" "bus_out ?g = bus_out h" "brStat ?g = brStat h" "isAcsiNotScsi ?g = isAcsiNotScsi h" "sdCard ?g = sdCard h"
    using assms(1) by (simp_all add: spi2Dma_txRx_def g1_def g_def bufs_ok_def)
  have fo: "card_out ?g = card_out h @ read_command ?s @ map Tx (replicate (Suc a) 0xff @ replicate (Suc (length gap)) 0xff)"
    by (simp add: spi2Dma_txRx_def g1_def g_def read_command_def)
  have ans: "answers (512 * Suc (length gs) + m) ?g" using assms(4) f(4) by (simp add: answers_def)
  have qg: "quiet (length (sector_stream gs)) (tim ?g)" unfolding f(5) by (rule quiet_drop [OF q])
  from read_sectors_did [OF f(1) _ f(2,3) ok(4,5) ans qg] obtain k where
    k: "read_sectors (Suc (length gs)) 0 ?g = (k, False)" "bus_out k = bus_out h @ map Data (d @ concat (map snd gs))"
    "strobes k = drop (512 * Suc (length gs)) (strobes h)" "spi2_pend k = None" "brStat k = brStat h" "isAcsiNotScsi k = isAcsiNotScsi h"
    "sdCard k = sdCard h" "\<exists>es. card_out k = card_out ?g @ es"
    using f by auto
  let ?k = "spiCS True (spi2_send [0xff] (fst (mmcCommand 12 0 k)))"
  have "stopSpi2Dma k = k" using k(4) by (simp add: stopSpi2Dma_def)
  then have r: "mmcRead_dma sector count h = (?k, 0)"
    using s k(1) assms(3) by (simp add: mmcRead_dma_def card_address_def split_beta)
  have gr: "grows k (spi2_send [0xff] (fst (mmcCommand 12 0 k)))" by (rule grows_trans [OF grows_command grows_send])
  show ?thesis
  proof (rule that [OF r])
    show "\<exists>es. card_out ?k = card_out h @ read_command (card_address sector h) @ es"
      using gr k(8) by (auto simp: grows_def fo)
  qed (use gr k in \<open>simp_all add: grows_def bus_view_def\<close>)
qed

lemma card_address_timer: "card_address s (h\<lparr>tim3_arr := x\<rparr>) = card_address s h"
  by (simp add: card_address_def)

lemma in_range_not_refused:
  assumes "unat cap \<le> 4294901760" and "unat (n :: WORD) = Suc k" and "unat s + Suc k \<le> unat cap"
  shows "\<not> ((s :: DWORD) \<ge> cap \<or> s + ucast n - 1 \<ge> cap)"
  using range_check [OF assms(1), of n s] assms(2,3) by simp

lemma status_after_transfer:
  assumes "brStat h = BR_OK" and "answers (status_acks (isAcsiNotScsi h)) h"
  shows "bus_out (rw_status 0 sk (timerSetup_cmdTimeoutChangeLength t h)) = bus_out h @ status_evs (isAcsiNotScsi h) 0"
    and "pioReadFailed (rw_status 0 sk (timerSetup_cmdTimeoutChangeLength t h)) = False"
    and "card_out (rw_status 0 sk (timerSetup_cmdTimeoutChangeLength t h)) = card_out h"
    and "LastStatus (sdCard (rw_status 0 sk (timerSetup_cmdTimeoutChangeLength t h))) = 0"
proof -
  let ?g = "set_sense 0 0 0 (h\<lparr>tim3_arr := t\<rparr>)"
  have "PIO_read 0 ?g = ?g\<lparr>strobes := drop (status_acks (isAcsiNotScsi ?g)) (strobes ?g),
    bus_out := bus_out ?g @ status_evs (isAcsiNotScsi ?g) 0, lastScsiStatusByte := 0, pioReadFailed := False, rnw := False,
    first_cmd := None, brStat := BR_OK\<rparr>"
    by (rule PIO_read_ok) (use assms in \<open>simp_all add: set_sense_def answers_def\<close>)
  then have e: "rw_status 0 sk (timerSetup_cmdTimeoutChangeLength t h) = ?g\<lparr>strobes := drop (status_acks (isAcsiNotScsi ?g)) (strobes ?g),
    bus_out := bus_out ?g @ status_evs (isAcsiNotScsi ?g) 0, lastScsiStatusByte := 0, pioReadFailed := False, rnw := False,
    first_cmd := None, brStat := BR_OK\<rparr>"
    by (simp add: rw_status_def timerSetup_cmdTimeoutChangeLength_def scsi_sendOKstatus_def send_LastStatus_def set_sense_def)
  show "bus_out (rw_status 0 sk (timerSetup_cmdTimeoutChangeLength t h)) = bus_out h @ status_evs (isAcsiNotScsi h) 0"
    "pioReadFailed (rw_status 0 sk (timerSetup_cmdTimeoutChangeLength t h)) = False"
    "card_out (rw_status 0 sk (timerSetup_cmdTimeoutChangeLength t h)) = card_out h"
    "LastStatus (sdCard (rw_status 0 sk (timerSetup_cmdTimeoutChangeLength t h))) = 0"
    unfolding e by (simp_all add: set_sense_def)
qed

text \<open>
  C15: READ delivers the card's sectors. When the command is for sectors on the card, the card answers the
  command for the address of the first one with the sectors in order, each after its start token, and
  the Atari takes every byte, then the Atari gets the bytes of all sectors in order and then the status
  GOOD; the first thing that the card sees is that command.
\<close>

theorem sd_read_delivered:
  assumes "justCmd \<in> {0x08, 0x28}" and "unat (rw_count justCmd h) = Suc (length gs)"
    and "unat (rw_start justCmd h) + Suc (length gs) \<le> unat (SCapacity (sdCard h))" and "unat (SCapacity (sdCard h)) \<le> 4294901760"
    and "bufs_ok h" and "read_reply a gap d gs r (card_in h)" and "quiet (Suc a + length (sector_stream gs)) (tim h)"
    and "answers (512 * Suc (length gs) + status_acks (isAcsiNotScsi h)) h" and "brStat h = BR_OK"
  shows "\<exists>h'. processScsiRW justCmd h = h' \<and>
    bus_out h' = bus_out h @ map Data (d @ concat (map snd gs)) @ status_evs (isAcsiNotScsi h) 0 \<and>
    (\<exists>es. card_out h' = card_out h @ read_command (card_address (rw_start justCmd h) h) @ es) \<and> LastStatus (sdCard h') = 0"
proof -
  let ?l = "longTimeout_basedOnSectorCount (rw_count justCmd h) h"
  obtain x where l: "?l = h\<lparr>tim3_arr := x\<rparr>"
    by (simp add: longTimeout_basedOnSectorCount_def timerSetup_cmdTimeoutChangeLength_def Let_def)
  have "bufs_ok ?l" "read_reply a gap d gs r (card_in ?l)" "answers (512 * Suc (length gs) + status_acks (isAcsiNotScsi h)) ?l"
    "quiet (Suc a + length (sector_stream gs)) (tim ?l)"
    using assms(5-8) unfolding l by (simp_all add: bufs_ok_def answers_def)
  then obtain k where k: "mmcRead_dma (rw_start justCmd h) (rw_count justCmd h) ?l = (k, 0)"
    "bus_out k = bus_out ?l @ map Data (d @ concat (map snd gs))" "strobes k = drop (512 * Suc (length gs)) (strobes ?l)" "brStat k = brStat ?l"
    "isAcsiNotScsi k = isAcsiNotScsi ?l" "sdCard k = sdCard ?l"
    "\<exists>es. card_out k = card_out ?l @ read_command (card_address (rw_start justCmd h) ?l) @ es"
    using mmcRead_dma_did [OF _ _ assms(2)] by metis
  have a: "answers (status_acks (isAcsiNotScsi k)) k" using answers_drop [OF assms(8), of k] k(3,5) unfolding l by simp
  have b: "brStat k = BR_OK" using k(4) assms(9) unfolding l by simp
  note s = status_after_transfer [OF b a, of 3 CMD_TIMEOUT_SHORT]
  have "processScsiRW justCmd h = rw_status 0 3 (timerSetup_cmdTimeoutChangeLength CMD_TIMEOUT_SHORT k)"
    using in_range_not_refused [OF assms(4,2,3)] assms(1) k(1) s(2) unfolding processScsiRW_def Let_def by auto
  then show ?thesis using s k unfolding l by (auto simp: card_address_timer)
qed

end
