(* ===== verification/HansSdWrite.thy ===== *)
theory HansSdWrite
  imports HansSd
begin

text \<open>
  WRITE: the card, seen as a receiver of a multiple block write, stores exactly the sectors that the Atari
  sends.
\<close>

section \<open>The receiver\<close>

text \<open>A card skips what is not a token, stores 512 bytes after 0xFC, ignores their check and stops at 0xFD.\<close>

function card_receives :: "BYTE list \<Rightarrow> BYTE list list" where
  "card_receives bs =
     (case bs of [] \<Rightarrow> []
      | b # r \<Rightarrow> if b = 0xFC then take 512 r # card_receives (drop 514 r) else if b = 0xFD then [] else card_receives r)"
  by pat_completeness auto
termination by (relation "measure length") auto

declare card_receives.simps [simp del]

lemma card_receives_polls [simp]: "card_receives (replicate n 0xff @ bs) = card_receives bs"
proof (induction n)
  case (Suc n)
  then show ?case by (subst card_receives.simps) simp
qed simp

lemma card_receives_poll [simp]: "card_receives (0xff # bs) = card_receives bs"
  using card_receives_polls [of 1 bs] by simp

definition card_block :: "BYTE list \<Rightarrow> BYTE list" where
  "card_block d = 0xFC # d @ [0xff, 0xff]"

lemma card_receives_block [simp]:
  "length d = 512 \<Longrightarrow> card_receives (card_block d @ bs) = d # card_receives bs"
  by (subst card_receives.simps) (simp add: card_block_def)

lemma card_receives_stop [simp]: "card_receives (0xFD # bs) = []"
  by (subst card_receives.simps) simp

section \<open>A sector into the buffer\<close>

lemma take_bytes_ok:
  assumes "strobes h = map Some d @ ss" and "brStat h = BR_OK" and "b < length (spiRxBuff h)"
    and "i + length d \<le> length (spiRxBuff h ! b)"
  shows "take_bytes (length d) i b h = (h\<lparr>strobes := ss, spiRxBuff := (spiRxBuff h)[b := splice i d (spiRxBuff h ! b)]\<rparr>, False)"
  using assms
proof (induction d arbitrary: h i)
  case Nil
  then have "splice i [] (spiRxBuff h ! b) = spiRxBuff h ! b" by (simp add: splice_def)
  moreover have "h\<lparr>strobes := strobes h, spiRxBuff := spiRxBuff h\<rparr> = h" by (cases h) simp
  ultimately show ?case using Nil by simp
next
  case (Cons x d)
  let ?h = "h\<lparr>strobes := map Some d @ ss, spiRxBuff := (spiRxBuff h)[b := (spiRxBuff h ! b)[i := x]]\<rparr>"
  have x: "(spiRxBuff h ! b)[i := x] = splice i [x] (spiRxBuff h ! b)" using Cons.prems(4) by (simp add: splice_def upd_conv_take_nth_drop)
  have "splice (Suc i) d (splice i [x] (spiRxBuff h ! b)) = splice i (x # d) (spiRxBuff h ! b)"
    using splice_append [of i "[x]" d "spiRxBuff h ! b"] Cons.prems(4) by simp
  then have "take_bytes (length d) (Suc i) b ?h =
      (?h\<lparr>strobes := ss, spiRxBuff := (spiRxBuff h)[b := splice i (x # d) (spiRxBuff h ! b)]\<rparr>, False)"
    using Cons.IH [of ?h "Suc i"] Cons.prems by (simp add: x)
  then show ?case using Cons.prems by (simp add: DMA_write_next [of h x] Let_def)
qed

lemma wait_tok_alive:
  assumes "card_in h = pre @ tok # r" and "tok \<notin> set pre" and "quiet (length pre) ts"
  obtains g where "wait_tok ts fw_alive tok h = (g, True)" and "card_in g = r"
    and "card_out g = card_out h @ map Tx (replicate (Suc (length pre)) 0xff)" and "tim g = drop (length pre) ts" and "bus_view g = bus_view h"
proof -
  have "\<exists>g. wait_tok ts fw_alive tok h = (g, True) \<and> card_in g = r \<and>
    card_out g = card_out h @ map Tx (replicate (Suc (length pre)) 0xff) \<and> tim g = drop (length pre) ts \<and> bus_view g = bus_view h"
    using assms
  proof (induction pre arbitrary: h ts)
    case Nil
    then show ?case by (subst wait_tok.simps) (simp add: TxRx_did bus_view_def)
  next
    case (Cons x pre)
    let ?h = "card_did (pre @ tok # r) [0xff] 0 h"
    have t: "spi2_TxRx 0xff h = (?h, x)" using Cons.prems by (simp add: TxRx_did)
    have x: "x \<noteq> tok" using Cons.prems(2) by auto
    obtain us where us: "ts = False # us" "quiet (length pre) us" using Cons.prems quiet_Suc [of "length pre" ts] by auto
    have "card_in (fw_alive ?h) = pre @ tok # r" by simp
    from Cons.IH [OF this _ us(2)] Cons.prems(2) obtain g where g: "wait_tok us fw_alive tok (fw_alive ?h) = (g, True)" "card_in g = r"
      "card_out g = card_out (fw_alive ?h) @ map Tx (replicate (Suc (length pre)) 0xff)" "tim g = drop (length pre) us"
      "bus_view g = bus_view (fw_alive ?h)" by auto
    moreover have "bus_view (fw_alive ?h) = bus_view h" by (simp add: bus_view_def)
    ultimately show ?case using t x us(1) by (intro exI [of _ g]) (subst wait_tok.simps, simp)
  qed
  then show ?thesis using that by blast
qed

section \<open>The loop\<close>

text \<open>The bytes of the transfer to the card that is under way.\<close>

definition sd_pending :: "hans \<Rightarrow> BYTE list \<Rightarrow> bool" where
  "sd_pending h px \<longleftrightarrow> spi2_pend h = (if px = [] then None else Some (px, 2))"

lemma overwrite_kept_length: "\<forall>x \<in> set xs. length x = n \<Longrightarrow> \<forall>x \<in> set (xs[k := overwrite (xs ! k) y]). length x = n"
proof (cases "k < length xs")
  case True
  assume a: "\<forall>x \<in> set xs. length x = n"
  then have "length (overwrite (xs ! k) y) = n" using True by simp
  then show ?thesis by (rule all_update [where P = "\<lambda>x. length x = n", OF a])
qed (simp add: list_update_beyond)

lemma finish_sd_pending:
  assumes "sd_pending h px" and "bufs_ok h" and "card_in h = e @ r" and "length e = length px"
  obtains g where "waitForSpi2Finish h = g" and "card_in g = r" and "card_out g = card_out h @ map Tx px" and "spi2_pend g = None"
    and "bufs_ok g" and "\<And>b. b < 2 \<Longrightarrow> spiRxBuff g ! b = spiRxBuff h ! b" and "strobes g = strobes h" and "bus_out g = bus_out h"
    and "brStat g = brStat h" and "isAcsiNotScsi g = isAcsiNotScsi h" and "sdCard g = sdCard h" and "tim g = tim h"
proof (cases "px = []")
  case True
  then show ?thesis using assms that [of h] by (simp add: sd_pending_def waitForSpi2Finish_def)
next
  case False
  have x: "spi2_xfer px h = (card_did r px 0 h, e)" by (rule xfer_did [OF assms(3,4) False])
  have w: "waitForSpi2Finish h = (card_did r px 0 h)\<lparr>spiRxBuff := (spiRxBuff h)[2 := overwrite (spiRxBuff h ! 2) e], spi2_pend := None\<rparr>"
    using assms(1) False x by (simp add: sd_pending_def waitForSpi2Finish_def spi2_run_def)
  have "\<forall>x \<in> set ((spiRxBuff h)[2 := overwrite (spiRxBuff h ! 2) e]). length x = 520"
    using assms(2) by (intro overwrite_kept_length) (simp add: bufs_ok_def)
  then show ?thesis using w assms(2) by (intro that [OF w]) (simp_all add: bufs_ok_def)
qed

text \<open>
  What the card shifts out: for every sector, the bytes during the transfer of the one before (none for
  the first one) and bytes other than 0xff while it is busy, then 0xff.
\<close>

fun busy_ok :: "nat \<Rightarrow> (BYTE list \<times> BYTE list) list \<Rightarrow> bool" where
  "busy_ok n [] = True"
| "busy_ok n ((e, b) # es) \<longleftrightarrow> length e = n \<and> 0xff \<notin> set b \<and> busy_ok 515 es"

fun busy_stream :: "(BYTE list \<times> BYTE list) list \<Rightarrow> BYTE list" where
  "busy_stream [] = []"
| "busy_stream ((e, b) # es) = e @ b @ 0xff # busy_stream es"

lemma write_sectors_did:
  assumes "bufs_ok h" and "b < 2" and "sd_pending h px" and "length es = length ds" and "busy_ok (length px) es" and "card_in h = busy_stream es @ r"
    and "strobes h = map Some (concat ds) @ ss" and "\<forall>d \<in> set ds. length d = 512" and "unat sec + length ds \<le> unat (SCapacity (sdCard h))"
    and "quiet (length (busy_stream es) + m) (tim h)" and "brStat h = BR_OK" and "ds \<noteq> []"
    and "\<And>xs. card_receives (px @ xs) = pd @ card_receives xs"
  shows "\<exists>h' out. write_sectors (length ds) b sec h = (h', False) \<and> card_in h' = r \<and> card_out h' = card_out h @ map Tx out \<and>
    sd_pending h' (card_block (last ds)) \<and> bufs_ok h' \<and> strobes h' = ss \<and> bus_out h' = bus_out h \<and> brStat h' = BR_OK \<and>
    isAcsiNotScsi h' = isAcsiNotScsi h \<and> sdCard h' = sdCard h \<and> quiet m (tim h') \<and> (\<forall>xs. card_receives (out @ xs) = pd @ butlast ds @ card_receives xs)"
  using assms
proof (induction ds arbitrary: h b px es sec pd)
  case (Cons d ds)
  obtain e y es' where es: "es = (e, y) # es'" "length es' = length ds" using Cons.prems(4) by (cases es) auto
  have eok: "length e = length px" "0xff \<notin> set y" "busy_ok 515 es'" using Cons.prems(5) by (simp_all add: es)
  have ld: "length d = 512" using Cons.prems(8) by simp
  have lb: "b < length (spiRxBuff h)" "length (spiRxBuff h ! b) = 520"
  proof -
    show "b < length (spiRxBuff h)" using Cons.prems(1,2) by (simp add: bufs_ok_def)
    then have "spiRxBuff h ! b \<in> set (spiRxBuff h)" by simp
    then show "length (spiRxBuff h ! b) = 520" using Cons.prems(1) by (simp add: bufs_ok_def)
  qed
  define h1 where "h1 = (fw_alive h)\<lparr>spiRxBuff := (spiRxBuff h)[b := (spiRxBuff h ! b)[0 := 0xFC]]\<rparr>"
  define h2 where "h2 = h1\<lparr>strobes := map Some (concat ds) @ ss, spiRxBuff := (spiRxBuff h1)[b := splice 1 d (spiRxBuff h1 ! b)]\<rparr>"
  define h3 where "h3 = h2\<lparr>spiRxBuff := (spiRxBuff h2)[b := (spiRxBuff h2 ! b)[513 := 0xff, 514 := 0xff]]\<rparr>"
  have nr: "\<not> sec \<ge> SCapacity (sdCard (fw_alive h))" using Cons.prems(9) by (simp add: word_le_nat_alt)
  have t: "take_bytes 512 1 b h1 = (h2, False)"
    using take_bytes_ok [of h1 d "map Some (concat ds) @ ss" b 1] Cons.prems(7,11) lb ld by (simp add: h1_def h2_def)
  have f3: "card_in h3 = e @ y @ 0xff # busy_stream es' @ r" "card_out h3 = card_out h" "tim h3 = tim h" "sd_pending h3 px"
    "strobes h3 = map Some (concat ds) @ ss" "bus_out h3 = bus_out h" "brStat h3 = BR_OK" "isAcsiNotScsi h3 = isAcsiNotScsi h" "sdCard h3 = sdCard h"
    using Cons.prems(3,6,11) by (simp_all add: h3_def h2_def h1_def sd_pending_def es)
  let ?buf = "(splice 1 d ((spiRxBuff h ! b)[0 := 0xFC]))[513 := 0xff, 514 := 0xff]"
  have sb: "spiRxBuff h3 = (spiRxBuff h)[b := ?buf]" using lb by (simp add: h3_def h2_def h1_def)
  have lbuf: "length ?buf = 520" using lb ld by simp
  have b3: "bufs_ok h3"
  proof -
    have "\<forall>x \<in> set (spiRxBuff h3). length x = 520" unfolding sb
      by (rule all_update [where P = "\<lambda>x. length x = 520", OF _ lbuf]) (use Cons.prems(1) in \<open>simp add: bufs_ok_def\<close>)
    then show ?thesis using Cons.prems(1) by (simp add: bufs_ok_def sb)
  qed
  have cb: "take 515 ?buf = card_block d"
  proof -
    obtain x0 xs where xs: "spiRxBuff h ! b = x0 # xs" "length xs = 519" using lb(2) by (cases "spiRxBuff h ! b") auto
    have "length (drop 512 xs) = 7" using xs(2) by simp
    then obtain u v w where w: "drop 512 xs = u # v # w" by (cases "drop 512 xs"; cases "tl (drop 512 xs)") auto
    define c where "c = 0xFC # d"
    have p: "length c = 513" by (simp add: c_def ld)
    have "splice 1 d ((spiRxBuff h ! b)[0 := 0xFC]) = c @ u # v # w" using w by (simp add: splice_def xs(1) ld c_def)
    then have "?buf = c @ 0xff # 0xff # w" by (simp add: list_update_append p)
    moreover have "take 515 (c @ 0xff # 0xff # w) = c @ [0xff, 0xff]" by (simp add: p)
    ultimately show ?thesis by (simp add: card_block_def c_def)
  qed
  obtain g where g: "waitForSpi2Finish h3 = g" "card_in g = y @ 0xff # busy_stream es' @ r" "card_out g = card_out h3 @ map Tx px" "spi2_pend g = None"
    "bufs_ok g" "\<And>b. b < 2 \<Longrightarrow> spiRxBuff g ! b = spiRxBuff h3 ! b" "strobes g = strobes h3" "bus_out g = bus_out h3"
    "brStat g = brStat h3" "isAcsiNotScsi g = isAcsiNotScsi h3" "sdCard g = sdCard h3" "tim g = tim h3"
    by (rule finish_sd_pending [OF f3(4) b3 f3(1) eok(1)]) blast
  have q: "quiet (length y + (length (busy_stream es') + m)) (tim g)"
    by (rule quiet_le [of "length (busy_stream es) + m"]) (use Cons.prems(10) g(12) f3(3) in \<open>simp_all add: es\<close>)
  obtain k where k: "wait_tok (tim g) fw_alive 0xff g = (k, True)" "card_in k = busy_stream es' @ r"
    "card_out k = card_out g @ map Tx (replicate (Suc (length y)) 0xff)" "tim k = drop (length y) (tim g)" "bus_view k = bus_view g"
    by (rule wait_tok_alive [OF g(2) eok(2), of "tim g"]) (use quiet_le [OF q] in auto)
  have kf: "strobes k = strobes g" "bus_out k = bus_out g" "brStat k = brStat g" "isAcsiNotScsi k = isAcsiNotScsi g" "sdCard k = sdCard g"
    "spiRxBuff k = spiRxBuff g" "spi2_pend k = spi2_pend g"
    using k(5) by (simp_all add: bus_view_def)
  let ?k = "spi2Dma_txRx (take 515 (spiRxBuff k ! b)) 2 k"
  have tk: "take 515 (spiRxBuff k ! b) = card_block d" using g(6) [OF Cons.prems(2)] kf(6) sb lb(1) cb by simp
  have step: "write_sectors (length (d # ds)) b sec h = write_sectors (length ds) (1 - b) (sec + 1) ?k"
    using nr t k(1) g(1) by (simp add: Let_def h1_def [symmetric] h3_def [symmetric] waitForCardNotBusy_def)
  have rec: "card_receives ((px @ replicate (Suc (length y)) 0xff) @ xs) = pd @ card_receives xs" for xs
    using Cons.prems(13) by simp
  have out1: "card_out ?k = card_out h @ map Tx (px @ replicate (Suc (length y)) 0xff)" using k(3) g(3) f3(2) by (simp add: spi2Dma_txRx_def)
  show ?case
  proof (cases "ds = []")
    case True
    then have e0: "es' = []" using es(2) by simp
    have "quiet m (tim ?k)" using quiet_drop [OF q] k(4) e0 by (simp add: spi2Dma_txRx_def)
    moreover have "sd_pending ?k (card_block d)" by (simp add: sd_pending_def spi2Dma_txRx_def tk card_block_def)
    moreover have "bufs_ok ?k" using g(5) kf(6) by (simp add: bufs_ok_def spi2Dma_txRx_def)
    ultimately show ?thesis using step out1 rec k(2) kf g f3 e0 True
      by (intro exI [of _ ?k] exI [of _ "px @ replicate (Suc (length y)) 0xff"]) (simp add: spi2Dma_txRx_def)
  next
    case False
    have ne: "length (card_block d) = 515" using ld by (simp add: card_block_def)
    have "\<exists>h' out. write_sectors (length ds) (1 - b) (sec + 1) ?k = (h', False) \<and> card_in h' = r \<and> card_out h' = card_out ?k @ map Tx out \<and>
      sd_pending h' (card_block (last ds)) \<and> bufs_ok h' \<and> strobes h' = ss \<and> bus_out h' = bus_out ?k \<and> brStat h' = BR_OK \<and>
      isAcsiNotScsi h' = isAcsiNotScsi ?k \<and> sdCard h' = sdCard ?k \<and> quiet m (tim h') \<and>
      (\<forall>xs. card_receives (out @ xs) = [d] @ butlast ds @ card_receives xs)"
    proof (rule Cons.IH [where px = "card_block d" and es = es'])
      show "bufs_ok ?k" using g(5) kf(6) by (simp add: bufs_ok_def spi2Dma_txRx_def)
      show "sd_pending ?k (card_block d)" by (simp add: sd_pending_def spi2Dma_txRx_def tk card_block_def)
      show "busy_ok (length (card_block d)) es'" using eok(3) by (simp add: ne)
      show "quiet (length (busy_stream es') + m) (tim ?k)" using quiet_drop [OF q] k(4) by (simp add: spi2Dma_txRx_def)
      show "unat (sec + 1) + length ds \<le> unat (SCapacity (sdCard ?k))"
      proof -
        have "unat sec + 1 < 4294967296" using Cons.prems(9) unat_word32_lt [of "SCapacity (sdCard h)"] by (simp del: unat_word32_lt)
        then have "unat (sec + 1) = unat sec + 1" by (simp add: unat_word_ariths)
        then show ?thesis using Cons.prems(9) kf(5) g(11) f3(9) by (simp add: spi2Dma_txRx_def)
      qed
    qed (use Cons.prems(2,8) es(2) k(2) kf g f3 False ld in \<open>simp_all add: spi2Dma_txRx_def\<close>)
    then obtain h' out where h': "write_sectors (length ds) (1 - b) (sec + 1) ?k = (h', False)" "card_in h' = r" "card_out h' = card_out ?k @ map Tx out"
      "sd_pending h' (card_block (last ds))" "bufs_ok h'" "strobes h' = ss" "bus_out h' = bus_out ?k" "brStat h' = BR_OK"
      "isAcsiNotScsi h' = isAcsiNotScsi ?k" "sdCard h' = sdCard ?k" "quiet m (tim h')"
      "\<forall>xs. card_receives (out @ xs) = [d] @ butlast ds @ card_receives xs" by blast
    have "card_receives ((px @ replicate (Suc (length y)) 0xff @ out) @ xs) = pd @ (d # butlast ds) @ card_receives xs" for xs
      using rec [of "out @ xs"] h'(12) by simp
    then show ?thesis using step h' out1 False kf g f3
      by (intro exI [of _ h'] exI [of _ "px @ replicate (Suc (length y)) 0xff @ out"]) (simp add: spi2Dma_txRx_def)
  qed
qed simp

section \<open>The whole command\<close>

definition write_reply :: "nat \<Rightarrow> (BYTE list \<times> BYTE list) list \<Rightarrow> BYTE list \<Rightarrow> BYTE list \<Rightarrow> BYTE list \<Rightarrow> BYTE list \<Rightarrow> bool" where
  "write_reply a es y z r bs \<longleftrightarrow>
     (\<exists>p e x. length p = 7 \<and> length e = 515 \<and> bs = p @ replicate a 0xff @ 0 # busy_stream es @ e @ y @ 0xff # x # z @ 0xff # r) \<and>
     a \<le> 0xffff \<and> busy_ok 0 es \<and> 0xff \<notin> set y \<and> 0xff \<notin> set z"

definition write_command :: "DWORD \<Rightarrow> card_ev list" where
  "write_command addr = CS False # map Tx ([0xff, 25 OR 0x40] @ be32_bytes addr @ [0x95])"

lemma not_busy_did:
  assumes "card_in h = pre @ 0xff # r" and "0xff \<notin> set pre" and "quiet (length pre) (tim h)"
  shows "WAIT_FOR_CARD_NOT_BUSY h = (card_did r (replicate (Suc (length pre)) 0xff) (length pre) h, True)"
  using wait_tok_did [OF assms] by (simp add: WAIT_FOR_CARD_NOT_BUSY_def card_did_def)

lemma card_did_view [simp]: "bus_view (card_did r out k h) = bus_view h"
  by (simp add: bus_view_def)

lemma mmcWrite_dma_did:
  assumes "bufs_ok h" and "write_reply a es y z r (card_in h)" and "unat count = length ds" and "ds \<noteq> []" and "\<forall>d \<in> set ds. length d = 512"
    and "length es = length ds" and "strobes h = map Some (concat ds) @ ss" and "unat sector + length ds \<le> unat (SCapacity (sdCard h))"
    and "quiet (a + length (busy_stream es) + length y + length z) (tim h)" and "brStat h = BR_OK" and "spi2_pend h = None"
    and "Type (sdCard h) \<noteq> DEVICETYPE_MMC"
  obtains h' out where "mmcWrite_dma sector count h = (h', 0)" and "bus_out h' = bus_out h" and "strobes h' = ss" and "brStat h' = BR_OK"
    and "isAcsiNotScsi h' = isAcsiNotScsi h" and "sdCard h' = sdCard h"
    and "card_out h' = card_out h @ write_command (card_address sector h) @ map Tx out @ [CS True]" and "card_receives out = ds"
proof -
  obtain p e x where p: "length p = 7" "length e = 515" "card_in h = p @ replicate a 0xff @ 0 # busy_stream es @ e @ y @ 0xff # x # z @ 0xff # r"
    and ok: "a \<le> 0xffff" "busy_ok 0 es" "0xff \<notin> set y" "0xff \<notin> set z"
    using assms(2) by (auto simp: write_reply_def)
  let ?s = "card_address sector h" and ?h = "spiCS False h"
  let ?r = "busy_stream es @ e @ y @ 0xff # x # z @ 0xff # r"
  let ?out = "[0xff, 25 OR 0x40] @ be32_bytes ?s @ [if (25 :: BYTE) = 8 then 0x86 else 0x95] @ replicate (Suc a) 0xff"
  have q: "quiet (a + (length (busy_stream es) + (length y + length z))) (tim ?h)" using assms(9) by (simp add: ac_simps)
  have c: "mmcCommand 25 ?s ?h = (card_did ?r ?out a ?h, 0)"
    by (rule command_did [OF _ p(1)]) (use p(3) ok quiet_le [OF q] in simp_all)
  define g where "g = (card_did ?r ?out a ?h)\<lparr>rnw := False\<rparr>"
  have gf: "card_in g = busy_stream es @ (e @ y @ 0xff # x # z @ 0xff # r)" "card_out g = card_out h @ write_command ?s @ map Tx (replicate (Suc a) 0xff)"
    "strobes g = map Some (concat ds) @ ss" "brStat g = BR_OK" "bus_out g = bus_out h" "isAcsiNotScsi g = isAcsiNotScsi h" "sdCard g = sdCard h"
    "tim g = drop a (tim ?h)" "sd_pending g []" "bufs_ok g"
    using assms(1,7,10,11) by (simp_all add: g_def write_command_def sd_pending_def bufs_ok_def)
  have qg: "quiet (length (busy_stream es) + (length y + length z)) (tim g)" unfolding gf(8) by (rule quiet_drop [OF q])
  have "\<exists>k out. write_sectors (length ds) 0 sector g = (k, False) \<and> card_in k = e @ y @ 0xff # x # z @ 0xff # r \<and> card_out k = card_out g @ map Tx out \<and>
    sd_pending k (card_block (last ds)) \<and> bufs_ok k \<and> strobes k = ss \<and> bus_out k = bus_out g \<and> brStat k = BR_OK \<and>
    isAcsiNotScsi k = isAcsiNotScsi g \<and> sdCard k = sdCard g \<and> quiet (length y + length z) (tim k) \<and>
    (\<forall>xs. card_receives (out @ xs) = [] @ butlast ds @ card_receives xs)"
    by (rule write_sectors_did [where px = "[]" and es = es, OF gf(10) _ gf(9) assms(6) _ gf(1,3) assms(5) _ qg gf(4) assms(4)])
      (use ok(2) gf(7) assms(8) in simp_all)
  then obtain k out where k: "write_sectors (length ds) 0 sector g = (k, False)" "card_in k = e @ y @ 0xff # x # z @ 0xff # r"
    "card_out k = card_out g @ map Tx out" "sd_pending k (card_block (last ds))" "bufs_ok k" "strobes k = ss" "bus_out k = bus_out g" "brStat k = BR_OK"
    "isAcsiNotScsi k = isAcsiNotScsi g" "sdCard k = sdCard g" "quiet (length y + length z) (tim k)"
    "\<forall>xs. card_receives (out @ xs) = [] @ butlast ds @ card_receives xs" by blast
  have ll: "length (last ds) = 512" using assms(4,5) by simp
  then have "length e = length (card_block (last ds))" using p(2) by (simp add: card_block_def)
  then obtain k1 where k1: "waitForSpi2Finish k = k1" "card_in k1 = y @ 0xff # x # z @ 0xff # r" "card_out k1 = card_out k @ map Tx (card_block (last ds))"
    "strobes k1 = strobes k" "bus_out k1 = bus_out k" "brStat k1 = brStat k" "isAcsiNotScsi k1 = isAcsiNotScsi k" "sdCard k1 = sdCard k" "tim k1 = tim k"
    by (rule finish_sd_pending [OF k(4,5,2)]) blast
  define k2 where "k2 = card_did (x # z @ 0xff # r) (replicate (Suc (length y)) 0xff) (length y) k1"
  have w2: "WAIT_FOR_CARD_NOT_BUSY k1 = (k2, True)" unfolding k2_def
    by (rule not_busy_did [OF k1(2) ok(3)]) (use quiet_le [OF k(11)] k1(9) in simp)
  have s3: "spi2_send [0xFD] k2 = card_did (z @ 0xff # r) [0xFD] 0 k2" by (rule send_did [of _ "[x]"]) (simp_all add: k2_def)
  define k3 where "k3 = card_did r (replicate (Suc (length z)) 0xff) (length z) (card_did (z @ 0xff # r) [0xFD] 0 k2)"
  have w3: "WAIT_FOR_CARD_NOT_BUSY (card_did (z @ 0xff # r) [0xFD] 0 k2) = (k3, True)" unfolding k3_def
    by (rule not_busy_did [OF _ ok(4)]) (use quiet_drop [OF k(11)] k1(9) in \<open>simp_all add: k2_def\<close>)
  obtain k4 where k4: "spi2_send [0xff] k3 = k4" "bus_view k4 = bus_view k3" "card_out k4 = card_out k3 @ [Tx 0xff]"
    by (cases "card_in k3") (auto simp: spi2_send_def spi2_TxRx_def bus_view_def Let_def)
  have f4: "strobes k4 = strobes k" "bus_out k4 = bus_out k" "brStat k4 = brStat k" "isAcsiNotScsi k4 = isAcsiNotScsi k" "sdCard k4 = sdCard k"
    using k4(2) k1 by (simp_all add: k3_def k2_def bus_view_def)
  let ?o = "replicate (Suc a) 0xff @ out @ card_block (last ds) @ replicate (Suc (length y)) 0xff @ 0xFD # replicate (Suc (length z)) 0xff @ [0xff]"
  show ?thesis
  proof (rule that)
    have t3: "Type (sdCard k3) \<noteq> DEVICETYPE_MMC" using assms(12) k1(8) k(10) gf(7) by (simp add: k3_def k2_def)
    have "card_address sector ?h = ?s" by (simp add: card_address_def)
    then show "mmcWrite_dma sector count h = (spiCS True k4, 0)"
      unfolding mmcWrite_dma_def Let_def assms(3) using c k(1) k1(1) w2 s3 w3 t3 k4(1) by (simp add: g_def)
    show "card_out (spiCS True k4) = card_out h @ write_command (card_address sector h) @ map Tx ?o @ [CS True]"
      using k4(3) k1(3) k(3) gf(2) by (simp add: k3_def k2_def)
    show "card_receives ?o = ds" using k(12) ll assms(4) by (simp del: replicate.simps)
  qed (use f4 k gf in simp_all)
qed

text \<open>
  C16: WRITE stores what the Atari sends. When the command is for sectors on an SD card, the Atari sends their
  bytes and the card is ready after a while for each of them, then the card is given the command for
  the address of the first sector, what it receives after it are exactly the sectors in order, closed by the
  stop token, and the Atari gets the status GOOD and nothing else.
\<close>

theorem sd_write_stored:
  assumes "justCmd \<in> {0x0a, 0x2a}" and "unat (rw_count justCmd h) = length ds" and "ds \<noteq> []" and "\<forall>d \<in> set ds. length d = 512"
    and "unat (rw_start justCmd h) + length ds \<le> unat (SCapacity (sdCard h))" and "unat (SCapacity (sdCard h)) \<le> 4294901760"
    and "bufs_ok h" and "spi2_pend h = None" and "Type (sdCard h) \<noteq> DEVICETYPE_MMC" and "length es = length ds"
    and "write_reply a es y z r (card_in h)" and "quiet (a + length (busy_stream es) + length y + length z) (tim h)"
    and "strobes h = map Some (concat ds) @ ss" and "length ss \<ge> status_acks (isAcsiNotScsi h)"
    and "None \<notin> set (take (status_acks (isAcsiNotScsi h)) ss)" and "brStat h = BR_OK"
  shows "\<exists>h' out. processScsiRW justCmd h = h' \<and> bus_out h' = bus_out h @ status_evs (isAcsiNotScsi h) 0 \<and> LastStatus (sdCard h') = 0 \<and>
    card_out h' = card_out h @ write_command (card_address (rw_start justCmd h) h) @ map Tx out @ [CS True] \<and> card_receives out = ds"
proof -
  let ?l = "longTimeout_basedOnSectorCount (rw_count justCmd h) h"
  obtain x where l: "?l = h\<lparr>tim3_arr := x\<rparr>"
    by (simp add: longTimeout_basedOnSectorCount_def timerSetup_cmdTimeoutChangeLength_def Let_def)
  obtain k out where k: "mmcWrite_dma (rw_start justCmd h) (rw_count justCmd h) ?l = (k, 0)" "bus_out k = bus_out ?l" "strobes k = ss" "brStat k = BR_OK"
    "isAcsiNotScsi k = isAcsiNotScsi ?l" "sdCard k = sdCard ?l"
    "card_out k = card_out ?l @ write_command (card_address (rw_start justCmd h) ?l) @ map Tx out @ [CS True]" "card_receives out = ds"
    by (rule mmcWrite_dma_did [of ?l a es y z r "rw_count justCmd h" ds ss "rw_start justCmd h"])
      (use assms in \<open>simp_all add: l bufs_ok_def\<close>)
  have a: "answers (status_acks (isAcsiNotScsi k)) k" using assms(14,15) k(3,5) by (simp add: answers_def l)
  note s = status_after_transfer [OF k(4) a, of 3 CMD_TIMEOUT_SHORT]
  obtain n where n: "length ds = Suc n" using assms(3) by (cases ds) auto
  have "processScsiRW justCmd h = rw_status 0 3 (timerSetup_cmdTimeoutChangeLength CMD_TIMEOUT_SHORT k)"
    using in_range_not_refused [OF assms(6) assms(2)[unfolded n] assms(5)[unfolded n]] assms(1) k(1) s(2) unfolding processScsiRW_def Let_def by auto
  then show ?thesis using s k unfolding l by (auto simp: card_address_timer)
qed

end
