(* ===== verification/HansSdEx.thy ===== *)
theory HansSdEx
  imports HansSdWrite
begin

text \<open>Instances of the theorems on READ, WRITE and VERIFY.\<close>

definition sd_example :: "BYTE list \<Rightarrow> BYTE option list \<Rightarrow> BYTE list \<Rightarrow> hans" where
  "sd_example c ss cs = hans_zero\<lparr>brStat := BR_OK, isAcsiNotScsi := True, strobes := ss, cmd := c @ replicate (14 - length c) 0, card_in := cs,
     tim := replicate 600 False, sdCard := (sdCard hans_zero)\<lparr>IsInit := True, Type := 3, SCapacity := 1000\<rparr>\<rparr>"

lemma sd_example_simps [simp]:
  "brStat (sd_example c ss cs) = BR_OK" "isAcsiNotScsi (sd_example c ss cs)" "strobes (sd_example c ss cs) = ss"
  "cmd (sd_example c ss cs) = c @ replicate (14 - length c) 0" "card_in (sd_example c ss cs) = cs" "tim (sd_example c ss cs) = replicate 600 False"
  "SCapacity (sdCard (sd_example c ss cs)) = 1000" "Type (sdCard (sd_example c ss cs)) = 3" "bus_out (sd_example c ss cs) = []"
  "card_out (sd_example c ss cs) = []" "bufs_ok (sd_example c ss cs)" "spi2_pend (sd_example c ss cs) = None"
  by (simp_all add: sd_example_def hans_zero_def bufs_ok_def)

lemma quiet_example: "n \<le> 600 \<Longrightarrow> quiet n (replicate 600 False)"
  by (simp add: quiet_def)

lemma verify_ignores_differences_witness:
  "snd (mmcCompare 5 (sd_example [] (replicate 512 (Some 1)) (replicate 7 0xff @ 0 # 0xff # 0xFE # replicate 512 2))) = 0"
  by (rule verify_ignores_differences [where p = "replicate 7 0xff" and a = 0 and pre = "[0xff]" and r = "replicate 512 2"
        and xs = "replicate 512 1" and ss = "[]"]) (simp_all add: quiet_example)

definition read_example :: hans where
  "read_example = sd_example [8, 0, 0, 7, 2] (replicate 1025 (Some 0))
     (replicate 7 0xff @ 0 # 0xff # 0xFE # replicate 512 3 @ sector_stream [([1, 2, 0xff], replicate 512 4)])"

lemma sd_read_delivered_witness:
  "\<exists>h'. processScsiRW 8 read_example = h' \<and> bus_out h' = map Data (replicate 512 3 @ replicate 512 4) @ [Status 0, BusReset]"
proof -
  have f: "rw_count 8 read_example = 2" "rw_start 8 read_example = 7" "bufs_ok read_example" "tim read_example = replicate 600 False"
    "SCapacity (sdCard read_example) = 1000" "isAcsiNotScsi read_example" "brStat read_example = BR_OK" "bus_out read_example = []"
    "strobes read_example = replicate 1025 (Some 0)"
    by (simp_all add: read_example_def rw_count_def rw_start_def be32_def)
  have "read_reply 0 [0xff] (replicate 512 3) [([1, 2, 0xff], replicate 512 4)] [] (card_in read_example)"
    unfolding read_reply_def read_example_def by (auto simp: gap_ok_def intro!: exI [of _ "replicate 7 0xff"])
  moreover have "answers (512 * Suc (length [([1, 2, 0xff :: BYTE], replicate 512 (4 :: BYTE))]) + status_acks (isAcsiNotScsi read_example)) read_example"
    using f by (simp add: answers_def status_acks_def)
  ultimately have "\<exists>h'. processScsiRW 8 read_example = h' \<and>
    bus_out h' = bus_out read_example @ map Data (replicate 512 3 @ concat (map snd [([1, 2, 0xff :: BYTE], replicate 512 4)])) @ status_evs (isAcsiNotScsi read_example) 0 \<and>
    (\<exists>es. card_out h' = card_out read_example @ read_command (card_address (rw_start 8 read_example) read_example) @ es) \<and> LastStatus (sdCard h') = 0"
    by (intro sd_read_delivered [where a = 0 and gap = "[0xff]" and r = "[]" and gs = "[([1, 2, 0xff], replicate 512 4)]"])
      (use f in \<open>simp_all add: quiet_example\<close>)
  then show ?thesis using f by (auto simp: status_evs_def)
qed

definition write_example :: hans where
  "write_example = sd_example [10, 0, 0, 7, 1] (replicate 513 (Some 5)) (replicate 7 0xff @ 0 # busy_stream [([], [])] @ replicate 515 0xff @ 0xff # 0 # 0xff # [])"

lemma sd_write_stored_witness:
  "\<exists>h' out. processScsiRW 10 write_example = h' \<and> bus_out h' = [Status 0, BusReset] \<and>
     card_out h' = write_command 7 @ map Tx out @ [CS True] \<and> card_receives out = [replicate 512 5]"
proof -
  have f: "rw_count 10 write_example = 1" "rw_start 10 write_example = 7" "bufs_ok write_example" "tim write_example = replicate 600 False"
    "SCapacity (sdCard write_example) = 1000" "Type (sdCard write_example) = 3" "isAcsiNotScsi write_example" "brStat write_example = BR_OK"
    "bus_out write_example = []" "card_out write_example = []" "spi2_pend write_example = None" "strobes write_example = replicate 513 (Some 5)"
    by (simp_all add: write_example_def rw_count_def rw_start_def be32_def)
  have "write_reply 0 [([], [])] [] [] [] (card_in write_example)"
    unfolding write_reply_def write_example_def
    by (intro conjI exI [of _ "replicate 7 0xff"] exI [of _ "replicate 515 0xff"] exI [of _ 0]) simp_all
  moreover have "strobes write_example = map Some (concat [replicate 512 5]) @ [Some 5]"
    unfolding f(12) using replicate_add [of 512 1 "Some (5 :: BYTE)"] by simp
  ultimately have "\<exists>h' out. processScsiRW 10 write_example = h' \<and> bus_out h' = bus_out write_example @ status_evs (isAcsiNotScsi write_example) 0 \<and>
    LastStatus (sdCard h') = 0 \<and>
    card_out h' = card_out write_example @ write_command (card_address (rw_start 10 write_example) write_example) @ map Tx out @ [CS True] \<and>
    card_receives out = [replicate 512 5]"
    by (intro sd_write_stored [where a = 0 and y = "[]" and z = "[]" and r = "[]" and es = "[([], [])]" and ss = "[Some 5]"])
      (use f in \<open>simp_all add: quiet_example status_acks_def\<close>)
  then show ?thesis using f by (auto simp: status_evs_def card_address_def)
qed

end
