(* ===== verification/HansFrame.thy ===== *)
theory HansFrame
  imports HansSdEx
begin

text \<open>
  What the operations of Hans keep: a contract for a property of the state, proved once for every
  operation, and used for the sizes of the arrays, the number of polls of the timer that are left, the
  state of the command loop and the LEDs.
\<close>

section \<open>Sizes\<close>

definition hans_sizes :: "hans \<Rightarrow> bool" where
  "hans_sizes h \<longleftrightarrow> length (enabledIDs h) = 8 \<and> length (cmd h) = 14 \<and> length (cmdBuffer h) = 16 \<and> length (atnFw h) = 10 \<and>
     length (atnCommand h) = 12 \<and> length (atnMore h) = 6 \<and> length (atnStatus h) = 5 \<and> length (smallDataBuffer h) = 2 \<and>
     map (\<lambda>b. length (wr_buffer b)) (wrBufs h) = [275, 275] \<and> map (\<lambda>b. length (rb_buffer b)) (rdBufs h) = [275, 275] \<and>
     map length (spiRxBuff h) = [520, 520, 520] \<and> length (enabledImgs h) = 3"

section \<open>The contract\<close>

locale hans_io =
  fixes P :: "hans \<Rightarrow> bool"
  assumes sizes: "P h \<Longrightarrow> hans_sizes h"
    and P_strobes: "P h \<Longrightarrow> P (h\<lparr>strobes := x1\<rparr>)"
    and P_first_cmd: "P h \<Longrightarrow> P (h\<lparr>first_cmd := x2\<rparr>)"
    and P_tim: "P h \<Longrightarrow> length x3 \<le> length (tim h) \<Longrightarrow> P (h\<lparr>tim := x3\<rparr>)"
    and P_tim2: "P h \<Longrightarrow> P (h\<lparr>tim2 := x4\<rparr>)"
    and P_card_in: "P h \<Longrightarrow> P (h\<lparr>card_in := x5\<rparr>)"
    and P_cuts: "P h \<Longrightarrow> P (h\<lparr>cuts := x6\<rparr>)"
    and P_host_in: "P h \<Longrightarrow> P (h\<lparr>host_in := x7\<rparr>)"
    and P_spi1_ok: "P h \<Longrightarrow> P (h\<lparr>spi1_ok := x8\<rparr>)"
    and P_xilinx_in: "P h \<Longrightarrow> P (h\<lparr>xilinx_in := x9\<rparr>)"
    and P_bus_out: "P h \<Longrightarrow> P (h\<lparr>bus_out := y1\<rparr>)"
    and P_card_out: "P h \<Longrightarrow> P (h\<lparr>card_out := y2\<rparr>)"
    and P_host_out: "P h \<Longrightarrow> P (h\<lparr>host_out := y3\<rparr>)"
    and P_rnw: "P h \<Longrightarrow> P (h\<lparr>rnw := y4\<rparr>)"
    and P_tim3_arr: "P h \<Longrightarrow> P (h\<lparr>tim3_arr := y5\<rparr>)"
    and P_flash_ok: "P h \<Longrightarrow> P (h\<lparr>flash_ok := y6\<rparr>)"
    and P_ee_status: "P h \<Longrightarrow> P (h\<lparr>ee_status := y7\<rparr>)"
    and P_ee_value: "P h \<Longrightarrow> P (h\<lparr>ee_value := y8\<rparr>)"
    and P_dataCnt: "P h \<Longrightarrow> P (h\<lparr>dataCnt := y9\<rparr>)"
    and P_sendFw: "P h \<Longrightarrow> P (h\<lparr>sendFw := z1\<rparr>)"
    and P_atnFw: "P h \<Longrightarrow> length z2 = 10 \<Longrightarrow> P (h\<lparr>atnFw := z2\<rparr>)"
    and P_atnCommand: "P h \<Longrightarrow> length z3 = 12 \<Longrightarrow> P (h\<lparr>atnCommand := z3\<rparr>)"
    and P_atnMore: "P h \<Longrightarrow> length z4 = 6 \<Longrightarrow> P (h\<lparr>atnMore := z4\<rparr>)"
    and P_seqNo: "P h \<Longrightarrow> P (h\<lparr>seqNo := z5\<rparr>)"
    and P_wrBufs: "P h \<Longrightarrow> map (\<lambda>b. length (wr_buffer b)) z6 = [275, 275] \<Longrightarrow> P (h\<lparr>wrBufs := z6\<rparr>)"
    and P_rdBufs: "P h \<Longrightarrow> map (\<lambda>b. length (rb_buffer b)) z7 = [275, 275] \<Longrightarrow> P (h\<lparr>rdBufs := z7\<rparr>)"
    and P_small: "P h \<Longrightarrow> length z8 = 2 \<Longrightarrow> P (h\<lparr>smallDataBuffer := z8\<rparr>)"
    and P_cmdBuffer: "P h \<Longrightarrow> length z9 = 16 \<Longrightarrow> P (h\<lparr>cmdBuffer := z9\<rparr>)"
    and P_cmd: "P h \<Longrightarrow> length u1 = 14 \<Longrightarrow> P (h\<lparr>cmd := u1\<rparr>)"
    and P_cmdLen: "P h \<Longrightarrow> P (h\<lparr>cmdLen := u2\<rparr>)"
    and P_brStat: "P h \<Longrightarrow> P (h\<lparr>brStat := u3\<rparr>)"
    and P_lastScsi: "P h \<Longrightarrow> P (h\<lparr>lastScsiStatusByte := u4\<rparr>)"
    and P_pioReadFailed: "P h \<Longrightarrow> P (h\<lparr>pioReadFailed := u5\<rparr>)"
    and P_enabledIDs: "P h \<Longrightarrow> length u6 = 8 \<Longrightarrow> P (h\<lparr>enabledIDs := u6\<rparr>)"
    and P_sdCardID: "P h \<Longrightarrow> P (h\<lparr>sdCardID := u7\<rparr>)"
    and P_sdCard: "P h \<Longrightarrow> P (h\<lparr>sdCard := u8\<rparr>)"
    and P_errRead: "P h \<Longrightarrow> P (h\<lparr>sdErrorCountRead := u9\<rparr>)"
    and P_errWrite: "P h \<Longrightarrow> P (h\<lparr>sdErrorCountWrite := v1\<rparr>)"
    and P_spiRxBuff: "P h \<Longrightarrow> map length v2 = [520, 520, 520] \<Longrightarrow> P (h\<lparr>spiRxBuff := v2\<rparr>)"
    and P_spi2_pend: "P h \<Longrightarrow> P (h\<lparr>spi2_pend := v3\<rparr>)"
    and P_spiIdle: "P h \<Longrightarrow> P (h\<lparr>spiIdle := v4\<rparr>)"
    and P_spiTXidle: "P h \<Longrightarrow> P (h\<lparr>spiTXidle := v5\<rparr>)"
    and P_spiRXidle: "P h \<Longrightarrow> P (h\<lparr>spiRXidle := v6\<rparr>)"
    and P_spi_rx: "P h \<Longrightarrow> P (h\<lparr>spi_rx := v7\<rparr>)"
    and P_should: "P h \<Longrightarrow> P (h\<lparr>shouldProcessCommands := v8\<rparr>)"
    and P_xilinxHwFw: "P h \<Longrightarrow> P (h\<lparr>xilinxHwFw := v9\<rparr>)"
    and P_hwVersion: "P h \<Longrightarrow> P (h\<lparr>hwVersion := w1\<rparr>)"
    and P_isAcsi: "P h \<Longrightarrow> P (h\<lparr>isAcsiNotScsi := w2\<rparr>)"
    and P_busIdle: "P h \<Longrightarrow> P (h\<lparr>xilinxBusIdle := w3\<rparr>)"
    and P_timeOutCount: "P h \<Longrightarrow> P (h\<lparr>timeOutCount := w4\<rparr>)"
    and P_recovery: "P h \<Longrightarrow> P (h\<lparr>recoveryLevel_toHost := w5\<rparr>)"
    and P_statusByte: "P h \<Longrightarrow> P (h\<lparr>statusByte := w6\<rparr>)"
begin

lemmas P_updates [simp] = P_strobes P_first_cmd P_tim P_tim2 P_card_in P_cuts P_host_in P_spi1_ok P_xilinx_in P_bus_out P_card_out P_host_out
  P_rnw P_tim3_arr P_flash_ok P_ee_status P_ee_value P_dataCnt P_sendFw P_atnFw P_atnCommand P_atnMore P_seqNo P_wrBufs P_rdBufs P_small
  P_cmdBuffer P_cmd P_cmdLen P_brStat P_lastScsi P_pioReadFailed P_enabledIDs P_sdCardID P_sdCard P_errRead P_errWrite P_spiRxBuff P_spi2_pend
  P_spiIdle P_spiTXidle P_spiRXidle P_spi_rx P_should P_xilinxHwFw P_hwVersion P_isAcsi P_busIdle P_timeOutCount P_recovery P_statusByte

lemma P_lengths [simp]:
  assumes "P h"
  shows "length (cmd h) = 14" "length (cmdBuffer h) = 16" "length (atnFw h) = 10" "length (atnCommand h) = 12" "length (atnMore h) = 6"
    "length (smallDataBuffer h) = 2" "length (enabledIDs h) = 8" "map (\<lambda>b. length (wr_buffer b)) (wrBufs h) = [275, 275]"
    "map (\<lambda>b. length (rb_buffer b)) (rdBufs h) = [275, 275]" "map length (spiRxBuff h) = [520, 520, 520]"
  using sizes [OF assms] by (simp_all add: hans_sizes_def)

subsection \<open>Bus\<close>

lemma P_emit [simp]: "P h \<Longrightarrow> P (emit e h)"
  by (simp add: emit_def)

lemma P_strobe [simp]: "P h \<Longrightarrow> P (fst (strobe h))"
  by (simp add: strobe_def split: list.split)

lemma P_timeout [simp]: "P h \<Longrightarrow> P (fst (h_timeout h))"
  by (simp add: h_timeout_def split: list.split)

lemma P_tim2_flag [simp]: "P h \<Longrightarrow> P (fst (tim2_flag h))"
  by (simp add: tim2_flag_def split: list.split)

lemma P_bytes [simp]:
  assumes "P h"
  shows "P (fst (PIO_writeFirst h))" "P (fst (PIO_write h))" "P (give e h)" "P (fst (DMA_write h))" "P (fst (READ_HALF b h))" "P (resetXilinx h)"
  using assms
  by (simp_all add: PIO_writeFirst_def PIO_write_def give_def DMA_write_def READ_HALF_def resetXilinx_def split_beta split: option.split)

lemma P_reads [simp]:
  assumes "P h"
  shows "P (PIO_read_solely b h)" "P (MSG_read b h)" "P (DMA_read b h)" "P (PIO_read b h)"
  using assms by (simp_all add: PIO_read_solely_def MSG_read_def DMA_read_def PIO_read_def Let_def)

lemma P_words [simp]:
  assumes "P h"
  shows "P (fst (READ_WORD w h))" "P (fst (READ_BYTE w h))"
  using assms by (simp_all add: READ_WORD_def READ_BYTE_def split_beta)

lemma P_READ_WORDs [simp]: "P h \<Longrightarrow> P (fst (READ_WORDs ws h))"
  by (induction ws arbitrary: h) (simp_all add: split_beta)

lemma P_dataReadCloop [simp]: "P h \<Longrightarrow> P (fst (dataReadCloop ws n h))"
proof (induction n arbitrary: ws h rule: less_induct)
  case (less n)
  then show ?case by (subst dataReadCloop.simps) (simp add: split_beta)
qed

subsection \<open>Messages\<close>

lemma P_irqs [simp]: "P h \<Longrightarrow> P (hans_DMA1_Channel3_IRQHandler h)" "P h \<Longrightarrow> P (hans_DMA1_Channel2_IRQHandler h)"
  by (simp_all add: hans_DMA1_Channel3_IRQHandler_def hans_DMA1_Channel2_IRQHandler_def Let_def)

lemma P_rx_store [simp]: "P h \<Longrightarrow> P (rx_store ws h)"
  by (simp add: rx_store_def Let_def map_update_same split: rx_buf.split)

lemma P_spi_idle [simp]: "P h \<Longrightarrow> P (fst (spi_idle h))"
  by (simp add: spi_idle_def spi_complete_def split: list.split host_ev.split)

lemma P_spi_wait [simp]: "P h \<Longrightarrow> P (fst (hans_spiDma_waitForFinish h))" "P h \<Longrightarrow> P (fst (waitForSPIidle h))"
  by (simp_all add: hans_spiDma_waitForFinish_def waitForSPIidle_def split_beta split: bool.split list.split)

lemma P_txRx [simp]: "P h \<Longrightarrow> P (fst (hans_spiDma_txRx n tx m rx h))"
  by (simp add: hans_spiDma_txRx_def Let_def split_beta)

lemma P_sendFw_alive [simp]: "P h \<Longrightarrow> P (sendFwToHost h)" "P h \<Longrightarrow> P (fw_alive h)"
  by (simp_all add: sendFwToHost_def fw_alive_def Let_def split_beta)

subsection \<open>Card\<close>

lemma P_card_bytes [simp]: "P h \<Longrightarrow> P (fst (spi2_TxRx b h))" "P h \<Longrightarrow> P (spiCS c h)"
  by (simp_all add: spi2_TxRx_def spiCS_def Let_def split: list.split)

lemma P_xfer [simp]: "P h \<Longrightarrow> P (fst (spi2_xfer bs h))"
  by (induction bs arbitrary: h) (simp_all add: Let_def split_beta)

lemma P_send [simp]: "P h \<Longrightarrow> P (spi2_send bs h)"
  by (simp add: spi2_send_def)

lemma P_response [simp]: "P h \<Longrightarrow> P (fst (response n h))"
  by (induction n arbitrary: h) (simp_all add: Let_def split_beta)

lemma P_commands [simp]:
  assumes "P h"
  shows "P (fst (mmcCommand c arg h))" "P (fst (mmcSendCommand c arg h))" "P (fst (mmcSendCommand5B c arg h))"
  using assms by (simp_all add: mmcCommand_def mmcSendCommand_def mmcSendCommand5B_def Let_def split_beta)

lemma P_cmdLow [simp]: "P h \<Longrightarrow> P (fst (mmcCmdLow_loop n c arg v h))"
proof (induction n arbitrary: h)
  case 0
  then show ?case by (subst mmcCmdLow_loop.simps) (simp add: Let_def split_beta)
next
  case (Suc n)
  then show ?case by (subst mmcCmdLow_loop.simps) (simp add: Let_def split_beta)
qed

lemma P_mmcCmdLow [simp]: "P h \<Longrightarrow> P (fst (mmcCmdLow c arg v h))"
  by (simp add: mmcCmdLow_def Let_def split_beta)

lemma P_wait_tok:
  assumes "\<And>g. P g \<Longrightarrow> P (f g)" and "\<And>g. tim (f g) = tim g"
  shows "P h \<Longrightarrow> length ts \<le> length (tim h) \<Longrightarrow> P (fst (wait_tok ts f tok h))"
proof (induction ts arbitrary: h)
  case Nil
  then show ?case by (subst wait_tok.simps) (simp add: Let_def split_beta assms)
next
  case (Cons t ts)
  have "tim (fst (spi2_TxRx 0xff h)) = tim h" by (simp add: spi2_TxRx_def Let_def split: list.split)
  with Cons show ?case by (subst wait_tok.simps) (simp add: Let_def split_beta assms)
qed

lemma P_waits [simp]:
  assumes "P h"
  shows "P (fst (WAIT_FOR_CARD_NOT_BUSY h))" "P (fst (waitForCardNotBusy h))" "P (fst (wait_tok (tim h) (\<lambda>h. h) tok h))"
  using assms by (simp_all add: WAIT_FOR_CARD_NOT_BUSY_def waitForCardNotBusy_def split_beta P_wait_tok)

lemma P_startblock [simp]: "P h \<Longrightarrow> P (fst (startblock_quick n h))" "P h \<Longrightarrow> P (fst (startblock n h))"
  by (induction n arbitrary: h) (simp_all add: Let_def split_beta)

lemma P_init_struct [simp]: "P h \<Longrightarrow> P (sdCardZeroInitStruct h)" "P h \<Longrightarrow> P (tryToEmptySdCardBuffer h)"
  by (simp_all add: sdCardZeroInitStruct_def tryToEmptySdCardBuffer_def)

lemma P_acmd41 [simp]: "P h \<Longrightarrow> P (fst (acmd41_hc n h))" "P h \<Longrightarrow> P (fst (acmd41 n h))"
proof -
  show "P (fst (acmd41_hc n h))" if "P h" for n h using that by (induction n arbitrary: h) (simp_all add: Let_def split_beta)
  show "P (fst (acmd41 n h))" if "P h" for n h using that by (induction n arbitrary: h) (simp_all add: Let_def split_beta)
qed

lemma P_mmcReset [simp]: "P h \<Longrightarrow> P (fst (mmcReset_sdhc h))" "P h \<Longrightarrow> P (fst (mmcReset h))"
proof -
  show r: "P (fst (mmcReset_sdhc h))" if "P h" for h using that by (simp add: mmcReset_sdhc_def Let_def split_beta)
  show "P (fst (mmcReset h))" if "P h" using that by (simp add: mmcReset_def Let_def split_beta r)
qed

lemma P_test_read [simp]: "P h \<Longrightarrow> P (fst (mmcReadJustForTest sector h))"
  by (simp add: mmcReadJustForTest_def Let_def split_beta)

lemma P_csd_start [simp]: "P h \<Longrightarrow> P (fst (csd_start n b h))"
  by (induction n arbitrary: h b) (simp_all add: Let_def split_beta)

lemma P_capacity [simp]:
  assumes "P h"
  shows "P (fst (MMC_CardType h))" "P (fst (SDHC_Capacity h))" "P (fst (MMC_Capacity h))"
  using assms by (simp_all add: MMC_CardType_def SDHC_Capacity_def MMC_Capacity_def Let_def split_beta)

lemma P_sdCardInit_loop [simp]: "P h \<Longrightarrow> P (sdCardInit_loop n h)"
  by (induction n arbitrary: h) (simp_all add: Let_def split_beta)

lemma P_sdCardInit [simp]: "P h \<Longrightarrow> P (sdCardInit h)"
  by (simp add: sdCardInit_def)

lemma P_spi2 [simp]:
  assumes "P h"
  shows "P (spi2Dma_txRx tx b h)" "P (spi2_run tx b h)" "P (waitForSpi2Finish h)" "P (stopSpi2Dma h)"
proof -
  have r: "P (spi2_run tx b h)" if "P h" for tx b h
    using that by (simp add: spi2_run_def Let_def split_beta map_update_same)
  show "P (spi2_run tx b h)" by (simp add: r assms)
  show "P (spi2Dma_txRx tx b h)" "P (waitForSpi2Finish h)" "P (stopSpi2Dma h)"
    using assms by (simp_all add: spi2Dma_txRx_def waitForSpi2Finish_def stopSpi2Dma_def r split: option.split prod.split list.split)
qed

lemma P_timer [simp]: "P h \<Longrightarrow> P (timerSetup_cmdTimeoutChangeLength t h)" "P h \<Longrightarrow> P (longTimeout_basedOnSectorCount n h)"
  by (simp_all add: timerSetup_cmdTimeoutChangeLength_def longTimeout_basedOnSectorCount_def Let_def)

lemma P_READ_BYTE_BFRs [simp]: "P h \<Longrightarrow> P (fst (READ_BYTE_BFRs bs err h))"
  by (induction bs arbitrary: h err) (simp_all add: Let_def split_beta)

lemma P_read_start [simp]: "P h \<Longrightarrow> P (fst (read_start n sector h))"
  by (induction n arbitrary: h) (simp_all add: Let_def split_beta)

lemma P_read_sector [simp]: "P h \<Longrightarrow> P (fst (read_sector follow b h))"
  by (simp add: read_sector_def Let_def split_beta)

lemma P_read_sectors [simp]: "P h \<Longrightarrow> P (fst (read_sectors n b h))"
  by (induction n arbitrary: h b) (simp_all add: Let_def split_beta)

lemma P_mmcRead [simp]: "P h \<Longrightarrow> P (fst (mmcRead_dma sector n h))"
  by (simp add: mmcRead_dma_def Let_def split_beta split: rd_start.split)

lemma P_take_bytes [simp]: "P h \<Longrightarrow> P (fst (take_bytes n i b h))"
  by (induction n arbitrary: h i) (simp_all add: Let_def split_beta map_update_same)

lemma P_write_sectors [simp]: "P h \<Longrightarrow> P (fst (write_sectors n b sec h))"
  by (induction n arbitrary: h b sec) (simp_all add: Let_def split_beta map_update_same)

lemma P_mmcWrite [simp]: "P h \<Longrightarrow> P (fst (mmcWrite_dma sector n h))"
  by (simp add: mmcWrite_dma_def Let_def split_beta)

lemma P_compare_bytes [simp]: "P h \<Longrightarrow> P (compare_bytes n h)"
  by (induction n arbitrary: h) (simp_all add: Let_def split_beta del: replicate.simps)

lemma P_mmcCompare [simp]: "P h \<Longrightarrow> P (fst (mmcCompare sector h))"
  by (simp add: mmcCompare_def Let_def split_beta)

lemma P_compareMore [simp]: "P h \<Longrightarrow> P (fst (compare_sectors n sector h))" "P h \<Longrightarrow> P (fst (mmcCompareMore sector k h))"
proof -
  show c: "P (fst (compare_sectors n sector h))" if "P h" for n sector h
    using that by (induction n arbitrary: h sector) (simp_all add: Let_def split_beta)
  show "P (fst (mmcCompareMore sector k h))" if "P h" using that by (simp add: mmcCompareMore_def c)
qed

subsection \<open>Commands for the card\<close>

lemma P_flash_op [simp]:
  assumes "P h" and "\<And>g. P g \<Longrightarrow> P (f g)"
  shows "P (fst (flash_op f h))"
  using assms by (simp add: flash_op_def Let_def split: list.split)

lemma P_EE_Write [simp]: "P h \<Longrightarrow> P (EE_WriteVariable w h)"
  by (simp add: EE_WriteVariable_def split_beta)

lemma P_status [simp]:
  assumes "P h"
  shows "P (set_sense a b c h)" "P (send_LastStatus h)" "P (scsi_sendOKstatus h)" "P (scsi_returnStatusAccordingToIsInit h)"
    "P (scsi_returnLUNnotSupported h)" "P (scsi_returnUnitAttention h)" "P (scsi_clearTheUnitAttention h)"
  using assms
  by (simp_all add: set_sense_def send_LastStatus_def scsi_sendOKstatus_def scsi_returnStatusAccordingToIsInit_def
      scsi_returnLUNnotSupported_def scsi_returnUnitAttention_def scsi_clearTheUnitAttention_def Let_def)

lemma P_icd [simp]: "P h \<Longrightarrow> P (ICD7_to_SCSI6 h)"
  by (simp add: ICD7_to_SCSI6_def)

lemma P_DMA_reads [simp]: "P h \<Longrightarrow> P (fst (DMA_reads bs h))"
  by (induction bs arbitrary: h) (simp_all add: Let_def)

lemma P_fold_read [simp]: "P h \<Longrightarrow> P (fold DMA_read bs h)"
  by (induction bs arbitrary: h) simp_all

lemma P_scsi_small [simp]:
  assumes "P h"
  shows "P (SCSI_ReadCapacity h)" "P (SCSI_RequestSense lun h)" "P (SCSI_Inquiry lun h)" "P (SCSI_FormatUnit h)" "P (rw_status r sk h)"
  using assms
  by (simp_all add: SCSI_ReadCapacity_def SCSI_RequestSense_def SCSI_Inquiry_def SCSI_FormatUnit_def rw_status_def Let_def split_beta)

lemma P_RW [simp]: "P h \<Longrightarrow> P (processScsiRW c h)"
  by (simp add: processScsiRW_def Let_def split_beta)

lemma P_scsi [simp]: "P h \<Longrightarrow> P (processScsiOther c icd lun h)" "P h \<Longrightarrow> P (processScsiLocaly c icd h)"
  by (simp_all add: processScsiOther_def processScsiLocaly_def Let_def)

lemma P_enabled [simp]: "P h \<Longrightarrow> P (updateEnabledIDsInSoloMode h)"
  by (simp add: updateEnabledIDsInSoloMode_def)

lemma P_new_id [simp]: "P h \<Longrightarrow> P (fst (cosmoSoloSetNewId h))"
  by (simp add: cosmoSoloSetNewId_def Let_def)

lemma P_solo_words [simp]: "P h \<Longrightarrow> P (fst (solo_read_words n c x h))"
  by (induction n arbitrary: h c) (simp_all add: Let_def split_beta)

lemma P_solo_write [simp]: "P h \<Longrightarrow> P (fst (solo_write_words n c x g h))"
  by (induction n arbitrary: h c g) (simp_all add: Let_def split_beta)

lemma P_solo [simp]: "P h \<Longrightarrow> P (processCosmoSoloCommands icd h)"
  by (simp add: processCosmoSoloCommands_def soloTestReadNotWrite_def soloTestGetACSIids_def Let_def split_beta)

subsection \<open>Commands from the Atari\<close>

lemma P_get_bytes:
  assumes "\<And>g. P g \<Longrightarrow> P (f g)"
  shows "P h \<Longrightarrow> P (fst (get_bytes i k f h))"
proof (induction "16 - i" arbitrary: i h rule: less_induct)
  case less
  then show ?case by (subst get_bytes.simps) (simp add: Let_def split_beta assms)
qed

lemma P_getCommand [simp]:
  assumes "P h"
  shows "P (fst (onGetCommandAcsi h))" "P (fst (onGetCommandScsi h))"
  using assms
  by (simp_all add: onGetCommandAcsi_def onGetCommandScsi_def getCmdLengthFromCmdBytesAcsi_def getCmdLengthFromCmdBytesScsi_def
      P_get_bytes Let_def split_beta split: option.split)

lemma P_tryProcessLocally [simp]: "P h \<Longrightarrow> P (fst (tryProcessLocally h))"
  by (simp add: tryProcessLocally_def Let_def split_beta)

subsection \<open>Data and status\<close>

lemma P_start_read [simp]: "P h \<Longrightarrow> P (startSpiDmaForDataRead cnt b h)" "P h \<Longrightarrow> P (request_next b h)"
proof -
  show r: "P (startSpiDmaForDataRead cnt b h)" if "P h" for cnt b h
    using that by (simp add: startSpiDmaForDataRead_def Let_def map_update_same)
  show "P (request_next b h)" if "P h" using that by (simp add: request_next_def Let_def r)
qed

lemma P_put_word [simp]: "P h \<Longrightarrow> P (put_word b i w h)"
  by (simp add: put_word_def map_update_same)

lemma P_get_words [simp]: "P h \<Longrightarrow> P (fst (get_words n c i b h))"
  by (induction n arbitrary: h c i) (simp_all add: Let_def split_beta)

lemma P_status_of_bus [simp]: "P h \<Longrightarrow> P (getXilinxStatus h)" "P h \<Longrightarrow> P (fst (isBusIdle h))" "P h \<Longrightarrow> P (after_command h)"
  by (simp_all add: getXilinxStatus_def isBusIdle_def after_command_def Let_def split_beta split: list.split)

lemma P_clear_words [simp]:
  assumes "P h"
  shows "P (clear_words is h)"
proof -
  have "length (fold (\<lambda>i b. b[i := 0]) is (c :: WORD list)) = length c" for c by (induction "is" arbitrary: c) simp_all
  then show ?thesis using assms by (simp add: clear_words_def)
qed

end

end
