(* ===== verification/HansKept.thy ===== *)
theory HansKept
  imports HansFrame
begin

text \<open>
  The contract of the operations of Hans, extended to the main loop, and its instances: the sizes of the
  arrays with the remaining polls of the timer, and the image that the LEDs show.
\<close>

section \<open>Optional results\<close>

lemma pred_option_case:
  "pred_option P x \<Longrightarrow> (\<And>y. P y \<Longrightarrow> pred_option Q (f y)) \<Longrightarrow> pred_option Q (case x of None \<Rightarrow> None | Some y \<Rightarrow> f y)"
  by (cases x) simp_all

lemma pred_option_map: "pred_option Q (map_option f x) = pred_option (\<lambda>y. Q (f y)) x"
  by (cases x) simp_all

text \<open>The end of a pass of the command loop: the host's commands and the timer.\<close>

definition pass_end :: "hans \<Rightarrow> (hans \<times> bool) option" where
  "pass_end h =
     (let (h, idle) = spi_idle h
      in case (if idle \<and> shouldProcessCommands h
               then map_option (\<lambda>h. h\<lparr>shouldProcessCommands := False\<rparr>) (processHostCommands h) else Some h) of
           None \<Rightarrow> None
         | Some h \<Rightarrow>
             let (h, t) = h_timeout h
             in if t then Some (h\<lparr>hstate := STATE_GET_COMMAND\<rparr>, True) else Some (h, hstate h = STATE_GET_COMMAND))"

lemma acsi_pass_end:
  "acsi_pass h =
     (case (if hstate h = STATE_GET_COMMAND \<and> PIO_gotFirstCmdByte h then onGetCommand h else Some h) of
        None \<Rightarrow> None
      | Some h \<Rightarrow>
          if hstate h = STATE_DATA_READ_WITH_STATUS \<or> hstate h = STATE_DATA_READ_WITHOUT_STATUS
          then map_option (\<lambda>h. (h, True)) (long_phase (onDataRead (hstate h = STATE_DATA_READ_WITH_STATUS)) h)
          else case (if hstate h = STATE_DATA_WRITE then long_phase (\<lambda>h. Some (onDataWrite h)) h else Some h) of
                 None \<Rightarrow> None
               | Some h \<Rightarrow> if hstate h = STATE_READ_STATUS then Some (onReadStatus h, True) else pass_end h)"
  by (simp only: acsi_pass_def pass_end_def)

section \<open>The contract of the main loop\<close>

locale hans_kept = hans_io +
  assumes P_hstate [simp]: "P h \<Longrightarrow> P (h\<lparr>hstate := x1\<rparr>)"
    and P_leds [simp]: "P h \<Longrightarrow> showingSelectedFddImage x2 = showingSelectedFddImage (leds h) \<Longrightarrow> P (h\<lparr>leds := x2\<rparr>)"
    and P_show [simp]: "P h \<Longrightarrow> P (showCurrentLED h)"
    and P_gpio [simp]: "P h \<Longrightarrow> P (h\<lparr>gpio_leds := x3\<rparr>)"
    and P_config_acsi [simp]: "P h \<Longrightarrow> P (h\<lparr>config_acsi := x4\<rparr>)"
    and P_config_fdd [simp]: "P h \<Longrightarrow> P (h\<lparr>config_fdd := x5\<rparr>)"
    and P_btnDownTime [simp]: "P h \<Longrightarrow> P (h\<lparr>btnDownTime := x6\<rparr>)"
    and P_solo_mode [simp]: "P h \<Longrightarrow> hmode h = MODE_UNKNOWN \<Longrightarrow> P (h\<lparr>hmode := MODE_SOLO\<rparr>)"
    and P_first_config [simp]: "P h \<Longrightarrow> P (h\<lparr>firstConfigReceived := True, hmode := MODE_WITH_RPI\<rparr>)"
    and P_card_detect [simp]: "P h \<Longrightarrow> P (h\<lparr>card_detect := x9\<rparr>)"
    and P_prevInserted [simp]: "P h \<Longrightarrow> P (h\<lparr>prevIsCardInserted := y1\<rparr>)"
    and P_detectTime [simp]: "P h \<Longrightarrow> P (h\<lparr>cardDetectTime := y2\<rparr>)"
    and P_insertChanged [simp]: "P h \<Longrightarrow> P (h\<lparr>cardInsertChanged := y3\<rparr>)"
    and P_fdd [simp]: "P h \<Longrightarrow> P (handleFddConfig b1 h)"
    and P_switch [simp]: "P h \<Longrightarrow> P (handleFddSwitch b2 h)"
    and P_button [simp]: "P h \<Longrightarrow> P (onButtonPress w1 h)"
begin

lemma P_updateLEDs [simp]: "P h \<Longrightarrow> P (updateLEDs h)" "P h \<Longrightarrow> P (serveButtonForRecoveryCmd q h)"
  by (simp_all add: updateLEDs_def serveButtonForRecoveryCmd_def Let_def)

lemma P_acsiConfig [simp]: "P h \<Longrightarrow> P (handleAcsiConfig a b h)"
  by (simp add: handleAcsiConfig_def Let_def)

lemma P_processHost_from: "P h \<Longrightarrow> pred_option P (processHostCommands_from i h)"
proof (induction "16 - i" arbitrary: i h rule: less_induct)
  case less
  show ?case
  proof (cases "i \<ge> 16")
    case True
    then show ?thesis using less.prems by (subst processHostCommands_from.simps) simp
  next
    case False
    have IH: "P g \<Longrightarrow> pred_option P (processHostCommands_from j g)" if "i < j" for j g
      using False that by (intro less.hyps) simp_all
    show ?thesis
      using less.prems by (subst processHostCommands_from.simps) (simp add: Let_def IH)
  qed
qed

lemma P_processHost: "P h \<Longrightarrow> pred_option P (processHostCommands h)"
  by (simp add: processHostCommands_def P_processHost_from)

lemma P_host_done: "P h \<Longrightarrow> pred_option (\<lambda>g. P (g\<lparr>shouldProcessCommands := False\<rparr>)) (processHostCommands h)"
  using P_processHost [of h] by (rule option.pred_mono_strong) simp_all

lemma P_onGetCommand: "P h \<Longrightarrow> pred_option P (onGetCommand h)"
  by (simp add: onGetCommand_def Let_def split_beta command_words_def split: got.split)

lemma P_read_blocks: "P h \<Longrightarrow> pred_option P (read_blocks n b w h)"
proof (induction n arbitrary: b h)
  case 0
  then show ?case by simp
next
  case (Suc n)
  then show ?case by (simp add: Let_def split_beta split: option.split)
qed

lemma P_onDataRead: "P h \<Longrightarrow> pred_option P (onDataRead w h)"
  by (simp add: onDataRead_def Let_def P_read_blocks)

lemma P_write_blocks: "P h \<Longrightarrow> P (write_blocks f b n h)"
proof (induction n arbitrary: f b h rule: less_induct)
  case (less n)
  show ?case
  proof (cases "n = 0")
    case True
    then show ?thesis using less.prems by (subst write_blocks.simps) simp
  next
    case False
    have IH: "P g \<Longrightarrow> P (write_blocks False c (n - min 512 n) g)" for g c
      using False by (intro less.IH) (simp_all add: min_def)
    have m: "(if n > 512 then 512 else n) = min 512 n" by simp
    show ?thesis
      using less.prems by (subst write_blocks.simps) (simp only: m Let_def, simp add: split_beta map_update_same IH split: option.split)
  qed
qed

lemma P_onDataWrite [simp]: "P h \<Longrightarrow> P (onDataWrite h)"
  by (simp add: onDataWrite_def P_write_blocks)

lemma P_onReadStatus [simp]: "P h \<Longrightarrow> P (onReadStatus h)"
  by (simp add: onReadStatus_def Let_def split_beta)

lemma P_long_phase:
  assumes "P h" and "\<And>g. P g \<Longrightarrow> pred_option P (f g)"
  shows "pred_option P (long_phase f h)"
proof -
  have "pred_option P (f (longTimeout_basedOnSectorCount (ucast (drop_bit 9 (dataCnt h))) h))" using assms by simp
  then show ?thesis unfolding long_phase_def
    by (cases "f (longTimeout_basedOnSectorCount (ucast (drop_bit 9 (dataCnt h))) h)") simp_all
qed

lemma P_pass_end: "P h \<Longrightarrow> pred_option (\<lambda>r. P (fst r)) (pass_end h)"
  unfolding pass_end_def Let_def split_beta
  by (rule pred_option_case [where P = P]) (simp_all add: P_host_done pred_option_map)

lemma P_acsi_pass: "P h \<Longrightarrow> pred_option (\<lambda>r. P (fst r)) (acsi_pass h)"
  unfolding acsi_pass_end
  by (rule pred_option_case [where P = P], simp add: P_onGetCommand)
    (auto intro!: pred_option_case [where P = P] simp: P_long_phase P_onDataRead P_pass_end option.pred_map comp_def)

lemma P_main_card [simp]: "P h \<Longrightarrow> P (main_card t ins h)"
  by (simp add: main_card_def Let_def)

lemma P_main_stuck [simp]: "P h \<Longrightarrow> P (main_stuck h)"
  by (simp add: main_stuck_def Let_def split_beta)

lemma P_main_solo [simp]: "P h \<Longrightarrow> P (main_solo h)"
  by (simp add: main_solo_def Let_def)

lemma P_main_host: "P h \<Longrightarrow> pred_option P (main_host i h)"
  unfolding main_host_def Let_def split_beta
  by (rule pred_option_case [where P = P]) (simp_all add: P_host_done pred_option_map)

end

section \<open>The image that the LEDs show\<close>

definition led_ok :: "hans \<Rightarrow> bool" where
  "led_ok h \<longleftrightarrow> currentLed h = 0xff \<or> currentLed h < 3 \<and> enabledImgs h ! unat (currentLed h)"

definition led_range :: "hans \<Rightarrow> bool" where
  "led_range h \<longleftrightarrow> currentLed h = 0xff \<or> currentLed h < 3"

lemma led_next: "currentLed h < 3 \<Longrightarrow> led_range (h\<lparr>currentLed := (if currentLed h + 1 > 2 then 0xff else currentLed h + 1)\<rparr>)"
  by (auto simp: led_range_def word_less_nat_alt word_le_nat_alt unat_word_ariths)

lemma fixLeds_ok: "led_range h \<Longrightarrow> led_ok (fixLeds_loop n h)"
proof (induction n arbitrary: h)
  case 0
  then show ?case by (simp add: led_ok_def)
next
  case (Suc n)
  show ?case
  proof (cases "currentLed h = 0xff \<or> enabledImgs h ! unat (currentLed h)")
    case True
    then show ?thesis using Suc.prems by (auto simp: led_ok_def led_range_def)
  next
    case False
    then have "led_range (h\<lparr>currentLed := (if currentLed h + 1 > 2 then 0xff else currentLed h + 1)\<rparr>)"
      using Suc.prems by (intro led_next) (simp add: led_range_def)
    then show ?thesis using False Suc.IH by (simp add: Let_def)
  qed
qed

lemma fixLeds_led: "\<exists>c. fixLeds_loop n h = h\<lparr>currentLed := c\<rparr>"
proof (induction n arbitrary: h)
  case 0
  then show ?case by auto
next
  case (Suc n)
  have same: "h = h\<lparr>currentLed := currentLed h\<rparr>" by (cases h) simp
  obtain c where "fixLeds_loop n (h\<lparr>currentLed := (if currentLed h + 1 > 2 then 0xff else currentLed h + 1)\<rparr>) = h\<lparr>currentLed := c\<rparr>"
    using Suc.IH [of "h\<lparr>currentLed := (if currentLed h + 1 > 2 then 0xff else currentLed h + 1)\<rparr>"] by auto
  then have "fixLeds_loop (Suc n) h = h \<or> fixLeds_loop (Suc n) h = h\<lparr>currentLed := c\<rparr>" by (simp add: Let_def)
  then show ?case using same by metis
qed

lemma hans_sizes_updates [simp]:
  "hans_sizes (h\<lparr>strobes := x1\<rparr>) = hans_sizes h" "hans_sizes (h\<lparr>first_cmd := x2\<rparr>) = hans_sizes h"
  "hans_sizes (h\<lparr>tim := x3\<rparr>) = hans_sizes h" "hans_sizes (h\<lparr>tim2 := x4\<rparr>) = hans_sizes h"
  "hans_sizes (h\<lparr>card_in := x5\<rparr>) = hans_sizes h" "hans_sizes (h\<lparr>cuts := x6\<rparr>) = hans_sizes h"
  "hans_sizes (h\<lparr>host_in := x7\<rparr>) = hans_sizes h" "hans_sizes (h\<lparr>spi1_ok := x8\<rparr>) = hans_sizes h"
  "hans_sizes (h\<lparr>xilinx_in := x9\<rparr>) = hans_sizes h" "hans_sizes (h\<lparr>bus_out := y1\<rparr>) = hans_sizes h"
  "hans_sizes (h\<lparr>card_out := y2\<rparr>) = hans_sizes h" "hans_sizes (h\<lparr>host_out := y3\<rparr>) = hans_sizes h"
  "hans_sizes (h\<lparr>rnw := y4\<rparr>) = hans_sizes h" "hans_sizes (h\<lparr>tim3_arr := y5\<rparr>) = hans_sizes h"
  "hans_sizes (h\<lparr>flash_ok := y6\<rparr>) = hans_sizes h" "hans_sizes (h\<lparr>ee_status := y7\<rparr>) = hans_sizes h"
  "hans_sizes (h\<lparr>ee_value := y8\<rparr>) = hans_sizes h" "hans_sizes (h\<lparr>dataCnt := y9\<rparr>) = hans_sizes h"
  "hans_sizes (h\<lparr>sendFw := z1\<rparr>) = hans_sizes h" "hans_sizes (h\<lparr>seqNo := z5\<rparr>) = hans_sizes h"
  "hans_sizes (h\<lparr>cmdLen := u2\<rparr>) = hans_sizes h" "hans_sizes (h\<lparr>brStat := u3\<rparr>) = hans_sizes h"
  "hans_sizes (h\<lparr>lastScsiStatusByte := u4\<rparr>) = hans_sizes h"
  "hans_sizes (h\<lparr>pioReadFailed := u5\<rparr>) = hans_sizes h" "hans_sizes (h\<lparr>sdCardID := u7\<rparr>) = hans_sizes h"
  "hans_sizes (h\<lparr>sdCard := u8\<rparr>) = hans_sizes h"
  "hans_sizes (h\<lparr>sdErrorCountRead := u9\<rparr>) = hans_sizes h"
  "hans_sizes (h\<lparr>sdErrorCountWrite := v1\<rparr>) = hans_sizes h"
  "hans_sizes (h\<lparr>spi2_pend := v3\<rparr>) = hans_sizes h" "hans_sizes (h\<lparr>spiIdle := v4\<rparr>) = hans_sizes h"
  "hans_sizes (h\<lparr>spiTXidle := v5\<rparr>) = hans_sizes h" "hans_sizes (h\<lparr>spiRXidle := v6\<rparr>) = hans_sizes h"
  "hans_sizes (h\<lparr>spi_rx := v7\<rparr>) = hans_sizes h"
  "hans_sizes (h\<lparr>shouldProcessCommands := v8\<rparr>) = hans_sizes h"
  "hans_sizes (h\<lparr>xilinxHwFw := v9\<rparr>) = hans_sizes h" "hans_sizes (h\<lparr>hwVersion := w1\<rparr>) = hans_sizes h"
  "hans_sizes (h\<lparr>isAcsiNotScsi := w2\<rparr>) = hans_sizes h"
  "hans_sizes (h\<lparr>xilinxBusIdle := w3\<rparr>) = hans_sizes h"
  "hans_sizes (h\<lparr>timeOutCount := w4\<rparr>) = hans_sizes h"
  "hans_sizes (h\<lparr>recoveryLevel_toHost := w5\<rparr>) = hans_sizes h"
  "hans_sizes (h\<lparr>statusByte := w6\<rparr>) = hans_sizes h" "hans_sizes (h\<lparr>hstate := qb\<rparr>) = hans_sizes h"
  "hans_sizes (h\<lparr>leds := qc\<rparr>) = hans_sizes h" "hans_sizes (h\<lparr>gpio_leds := qd\<rparr>) = hans_sizes h"
  "hans_sizes (h\<lparr>config_acsi := qe\<rparr>) = hans_sizes h" "hans_sizes (h\<lparr>config_fdd := qf\<rparr>) = hans_sizes h"
  "hans_sizes (h\<lparr>btnDownTime := qg\<rparr>) = hans_sizes h" "hans_sizes (h\<lparr>hmode := qh\<rparr>) = hans_sizes h"
  "hans_sizes (h\<lparr>firstConfigReceived := qi\<rparr>) = hans_sizes h"
  "hans_sizes (h\<lparr>card_detect := qj\<rparr>) = hans_sizes h"
  "hans_sizes (h\<lparr>prevIsCardInserted := qk\<rparr>) = hans_sizes h"
  "hans_sizes (h\<lparr>cardDetectTime := ql\<rparr>) = hans_sizes h"
  "hans_sizes (h\<lparr>cardInsertChanged := qm\<rparr>) = hans_sizes h"
  "hans_sizes (h\<lparr>currentLed := qn\<rparr>) = hans_sizes h"
  "hans_sizes (h\<lparr>prevBtnPressTime := qo\<rparr>) = hans_sizes h"
  by (simp_all add: hans_sizes_def)

lemma hans_sizes_arrays [simp]:
  "hans_sizes h \<Longrightarrow> length z2 = 10 \<Longrightarrow> hans_sizes (h\<lparr>atnFw := z2\<rparr>)"
  "hans_sizes h \<Longrightarrow> length z3 = 12 \<Longrightarrow> hans_sizes (h\<lparr>atnCommand := z3\<rparr>)"
  "hans_sizes h \<Longrightarrow> length z4 = 6 \<Longrightarrow> hans_sizes (h\<lparr>atnMore := z4\<rparr>)"
  "hans_sizes h \<Longrightarrow> map (\<lambda>b. length (wr_buffer b)) z6 = [275, 275] \<Longrightarrow> hans_sizes (h\<lparr>wrBufs := z6\<rparr>)"
  "hans_sizes h \<Longrightarrow> map (\<lambda>b. length (rb_buffer b)) z7 = [275, 275] \<Longrightarrow> hans_sizes (h\<lparr>rdBufs := z7\<rparr>)"
  "hans_sizes h \<Longrightarrow> length z8 = 2 \<Longrightarrow> hans_sizes (h\<lparr>smallDataBuffer := z8\<rparr>)"
  "hans_sizes h \<Longrightarrow> length z9 = 16 \<Longrightarrow> hans_sizes (h\<lparr>cmdBuffer := z9\<rparr>)"
  "hans_sizes h \<Longrightarrow> length u1 = 14 \<Longrightarrow> hans_sizes (h\<lparr>cmd := u1\<rparr>)"
  "hans_sizes h \<Longrightarrow> length u6 = 8 \<Longrightarrow> hans_sizes (h\<lparr>enabledIDs := u6\<rparr>)"
  "hans_sizes h \<Longrightarrow> map length v2 = [520, 520, 520] \<Longrightarrow> hans_sizes (h\<lparr>spiRxBuff := v2\<rparr>)"
  by (simp_all add: hans_sizes_def)

lemma setup_sizes: "hans_sizes h \<Longrightarrow> hans_sizes (hans_setupAtnBuffers h)"
  by (simp add: hans_setupAtnBuffers_def hans_sizes_def comp_def)

lemma setup_keeps: "firstConfigReceived (hans_setupAtnBuffers h) = firstConfigReceived h" "leds (hans_setupAtnBuffers h) = leds h"
  by (simp_all add: hans_setupAtnBuffers_def)

lemma sizes_imgs: "hans_sizes h \<Longrightarrow> length e = 3 \<Longrightarrow> hans_sizes (h\<lparr>enabledImgs := e\<rparr>)" "hans_sizes h \<Longrightarrow> length (enabledImgs h) = 3"
  by (simp_all add: hans_sizes_def)

lemma fixLeds_keeps [simp]:
  "tim (fixLeds_loop n h) = tim h" "hans_sizes (fixLeds_loop n h) = hans_sizes h"
  using fixLeds_led [of n h] by auto

lemma show_keeps [simp]:
  "tim (showCurrentLED h) = tim h" "hans_sizes (showCurrentLED h) = hans_sizes h" "led_ok (showCurrentLED h) = led_ok h"
  by (simp_all add: showCurrentLED_def hans_sizes_def led_ok_def)

lemma led_ok_range: "led_ok h \<Longrightarrow> led_range h"
  by (auto simp: led_ok_def led_range_def)

lemma fdd_keeps [simp]:
  "tim (handleFddConfig b h) = tim h" "hans_sizes h \<Longrightarrow> hans_sizes (handleFddConfig b h)" "led_ok h \<Longrightarrow> led_ok (handleFddConfig b h)"
proof -
  show "tim (handleFddConfig b h) = tim h" by (simp add: handleFddConfig_def fixLedsByEnabledImgs_def)
  show "hans_sizes (handleFddConfig b h)" if "hans_sizes h"
    using that by (simp add: handleFddConfig_def fixLedsByEnabledImgs_def) (simp add: hans_sizes_def)
  show "led_ok (handleFddConfig b h)" if "led_ok h"
    using led_ok_range [OF that] by (simp add: handleFddConfig_def fixLedsByEnabledImgs_def fixLeds_ok led_range_def)
qed

lemma switch_keeps [simp]:
  "tim (handleFddSwitch b h) = tim h" "hans_sizes h \<Longrightarrow> hans_sizes (handleFddSwitch b h)" "led_ok h \<Longrightarrow> led_ok (handleFddSwitch b h)"
  by (simp_all add: handleFddSwitch_def Let_def) (simp_all add: hans_sizes_def led_ok_def)

lemma button_keeps [simp]:
  "tim (onButtonPress t h) = tim h" "hans_sizes h \<Longrightarrow> hans_sizes (onButtonPress t h)" "led_ok h \<Longrightarrow> led_ok (onButtonPress t h)"
proof -
  show "tim (onButtonPress t h) = tim h" by (simp add: onButtonPress_def fixLedsByEnabledImgs_def Let_def)
  show "hans_sizes (onButtonPress t h)" if "hans_sizes h"
    using that by (simp add: onButtonPress_def fixLedsByEnabledImgs_def Let_def)
  show "led_ok (onButtonPress t h)" if "led_ok h"
  proof -
    have "led_range (h\<lparr>prevBtnPressTime := t, currentLed := (if currentLed h + 1 > 2 then 0xff else currentLed h + 1)\<rparr>)"
      using led_ok_range [OF that]
      by (auto simp: led_range_def word_less_nat_alt word_le_nat_alt unat_word_ariths)
    from fixLeds_ok [OF this, of 3] show ?thesis using that by (simp add: onButtonPress_def fixLedsByEnabledImgs_def Let_def)
  qed
qed

section \<open>The instances\<close>

interpretation state: hans_io "\<lambda>h. hans_sizes h \<and> hstate h = s" for s
  by unfold_locales simp_all

interpretation clock: hans_kept "\<lambda>h. hans_sizes h \<and> length (tim h) \<le> n" for n
  by unfold_locales (simp_all add: fdd_keeps switch_keeps button_keeps)

declare state.P_lengths [simp del] clock.P_lengths [simp del]

text \<open>The LEDs show the selected image, the selected image is there, and a configuration has come from a host only.\<close>

definition led_of :: "BYTE \<Rightarrow> WORD" where
  "led_of n = (if n = 0 then LED1 else if n = 1 then LED2 else if n = 2 then LED3 else 0)"

definition hans_ok :: "hans \<Rightarrow> bool" where
  "hans_ok h \<longleftrightarrow> hans_sizes h \<and> led_ok h \<and> showingSelectedFddImage (leds h) = led_of (currentLed h) \<and>
     (firstConfigReceived h \<longrightarrow> hmode h = MODE_WITH_RPI)"

lemma shown: "showingSelectedFddImage (leds (showCurrentLED h)) = led_of (currentLed (showCurrentLED h))"
  by (simp add: showCurrentLED_def led_of_def)

lemma mode_keeps [simp]:
  "firstConfigReceived (showCurrentLED h) = firstConfigReceived h" "hmode (showCurrentLED h) = hmode h"
  "firstConfigReceived (fixLeds_loop n h) = firstConfigReceived h" "hmode (fixLeds_loop n h) = hmode h"
  using fixLeds_led [of n h] by (auto simp: showCurrentLED_def)

lemma switch_ok:
  "hans_ok h \<Longrightarrow> hans_ok (handleFddConfig b h)" "hans_ok h \<Longrightarrow> hans_ok (handleFddSwitch b h)" "hans_ok h \<Longrightarrow> hans_ok (onButtonPress t h)"
    "hans_ok h \<Longrightarrow> hans_ok (showCurrentLED h)"
proof -
  assume h: "hans_ok h"
  have a: "hans_sizes h" "led_ok h" and m: "firstConfigReceived h \<longrightarrow> hmode h = MODE_WITH_RPI" and s: "showingSelectedFddImage (leds h) = led_of (currentLed h)"
    using h by (simp_all add: hans_ok_def)
  show "hans_ok (handleFddConfig b h)"
    using m fdd_keeps(2) [OF a(1)] fdd_keeps(3) [OF a(2)]
    by (simp add: hans_ok_def) (simp add: handleFddConfig_def shown fixLedsByEnabledImgs_def)
  show "hans_ok (handleFddSwitch b h)"
    using m switch_keeps(2) [OF a(1)] switch_keeps(3) [OF a(2)]
    by (simp add: hans_ok_def) (simp add: handleFddSwitch_def Let_def shown)
  show "hans_ok (onButtonPress t h)"
    using m s button_keeps(2) [OF a(1)] button_keeps(3) [OF a(2)]
    by (simp add: hans_ok_def) (simp add: onButtonPress_def Let_def shown fixLedsByEnabledImgs_def)
  show "hans_ok (showCurrentLED h)" using a m by (simp add: hans_ok_def shown)
qed

interpretation main: hans_kept hans_ok
proof unfold_locales
  show "hans_sizes h" if "hans_ok h" for h using that by (simp add: hans_ok_def)
qed (simp_all add: switch_ok, simp_all add: hans_ok_def led_ok_def)

end
