(* ===== verification/HansOver.thy ===== *)
theory HansOver
  imports HansKept
begin

text \<open>
  The three ways in which a command makes the code of Hans leave an array, which the model marks with
  \<open>None\<close>: a SCSI command longer than its buffer, a command of the host at the end of its buffer, and a data
  block whose marker comes too late. Where the model says \<open>None\<close>, one of them is the cause.
\<close>

section \<open>A long command\<close>

text \<open>A SCSI command of group 4 has 16 bytes; the buffer \<open>cmd\<close> has 14. The first byte follows the selection.\<close>

definition long_command :: "hans \<Rightarrow> bool" where
  "long_command h \<longleftrightarrow> \<not> isAcsiNotScsi h \<and> snd (PIO_write (fst (PIO_writeFirst h))) AND 0xe0 = 0x80"

lemma write_cmdLen [simp]:
  "cmdLen (fst (PIO_write h)) = cmdLen h" "snd (PIO_write (h\<lparr>cmdLen := x\<rparr>)) = snd (PIO_write h)" "cmd (fst (PIO_write h)) = cmd h"
  "cmd (fst (PIO_writeFirst h)) = cmd h"
  by (simp_all add: PIO_write_def PIO_writeFirst_def give_def READ_HALF_def strobe_def emit_def split_beta Let_def split: list.split option.split)

lemma get_bytes_past_buffer: "get_bytes i len_at setLen h = (g, Overflow) \<Longrightarrow> len_at < i \<Longrightarrow> 14 < unat (cmdLen h)"
proof (induction "16 - i" arbitrary: i h rule: less_induct)
  case less
  have IH: "get_bytes (i + 1) len_at setLen k = (g, Overflow) \<Longrightarrow> i < 16 \<Longrightarrow> 14 < unat (cmdLen k)" for k
    using less.hyps [of "i + 1" k] less.prems(2) by simp
  show ?case
    using less.prems IH [of "fst (PIO_write h)\<lparr>cmd := (cmd h)[i := snd (PIO_write h)]\<rparr>"]
    by (subst (asm) get_bytes.simps) (auto simp: split_beta Let_def split: if_split_asm)
qed

lemma acsi_len: "acsi_cmdLen c0 c1 \<le> 13"
  by (simp add: acsi_cmdLen_def Let_def)

lemma scsi_len: "14 < unat (scsi_cmdLen c) \<Longrightarrow> c AND 0xe0 = 0x80"
proof -
  assume "14 < unat (scsi_cmdLen c)"
  then have g: "drop_bit 5 (c AND 0xe0) = 4" by (auto simp: scsi_cmdLen_def Let_def split: if_split_asm)
  have "push_bit 5 (drop_bit 5 (c AND 0xe0)) = c AND 0xe0"
  proof (rule bit_word_eqI)
    fix n
    have "bit (0xe0 :: BYTE) n \<Longrightarrow> 5 \<le> n" by (cases "n < 5") (auto simp: numeral_eq_Suc less_Suc_eq)
    then show "bit (push_bit 5 (drop_bit 5 (c AND 0xe0))) n \<longleftrightarrow> bit (c AND 0xe0) n"
      by (auto simp: bit_simps dest: bit_imp_le_length)
  qed
  then show "c AND 0xe0 = 0x80" unfolding g by simp
qed

lemma get_none: "onGetCommand h = None \<longleftrightarrow> snd (if isAcsiNotScsi h then onGetCommandAcsi h else onGetCommandScsi h) = Overflow"
proof -
  obtain k g where k: "(if isAcsiNotScsi h then onGetCommandAcsi h else onGetCommandScsi h) = (k, g)" by force
  show ?thesis unfolding onGetCommand_def k by (cases g) (simp_all add: Let_def split_beta)
qed

lemma get_overflow:
  assumes "hans_sizes h" and "onGetCommand h = None"
  shows "long_command h"
proof -
  have len: "length (cmd h) = 14" using assms(1) by (simp add: hans_sizes_def)
  show ?thesis
  proof (cases "isAcsiNotScsi h")
    case True
    define h1 where "h1 = fst (PIO_writeFirst h)"
    have "snd (onGetCommandAcsi h) \<noteq> Overflow"
    proof
      assume "snd (onGetCommandAcsi h) = Overflow"
      then obtain k g where "get_bytes 1 1 getCmdLengthFromCmdBytesAcsi k = (g, Overflow)" "cmdLen k = 6"
        by (auto simp: onGetCommandAcsi_def split_beta Let_def prod_eq_iff split: if_split_asm)
      then obtain k where "get_bytes 2 1 getCmdLengthFromCmdBytesAcsi (getCmdLengthFromCmdBytesAcsi k) = (g, Overflow)"
        by (subst (asm) get_bytes.simps) (auto simp: split_beta Let_def numeral_2_eq_2 split: if_split_asm)
      from get_bytes_past_buffer [OF this] acsi_len [of "cmd k ! 0" "cmd k ! 1"] show False
        by (simp add: getCmdLengthFromCmdBytesAcsi_def word_le_nat_alt)
    qed
    with assms(2) True show ?thesis by (simp add: get_none)
  next
    case False
    define h1 where "h1 = fst (PIO_writeFirst h)"
    let ?set = "\<lambda>h. getCmdLengthFromCmdBytesScsi (cmd h ! 0) h"
    let ?b = "snd (PIO_write h1)"
    have "snd (onGetCommandScsi h) = Overflow"
      using assms(2) False by (simp add: get_none)
    then obtain g where "get_bytes 0 0 ?set (h1\<lparr>cmdLen := 6\<rparr>) = (g, Overflow)"
      by (auto simp: onGetCommandScsi_def split_beta Let_def h1_def prod_eq_iff split: option.split_asm if_split_asm)
    then obtain k where "get_bytes 1 0 ?set (getCmdLengthFromCmdBytesScsi ?b k) = (g, Overflow)"
      using len by (subst (asm) get_bytes.simps) (auto simp: split_beta Let_def h1_def split: if_split_asm)
    from get_bytes_past_buffer [OF this] have "14 < unat (scsi_cmdLen ?b)" by (simp add: getCmdLengthFromCmdBytesScsi_def)
    with False scsi_len show ?thesis by (simp add: long_command_def h1_def)
  qed
qed

section \<open>A late command of the host\<close>

text \<open>A command word so near to the end of the buffer that its parameters would be behind it.\<close>

definition late_command :: "WORD list \<Rightarrow> bool" where
  "late_command ws \<longleftrightarrow> ws ! 14 \<in> {0x10, 0x20, 0x30, 0x50} \<or> ws ! 15 \<in> {0x10, 0x20, 0x30, 0x50, 0x80}"

lemma flash_cmdBuffer: "(\<And>k. cmdBuffer (f k) = cmdBuffer k) \<Longrightarrow> cmdBuffer (fst (flash_op f h)) = cmdBuffer h"
  by (simp add: flash_op_def split_beta Let_def split: list.split)

lemma config_cmdBuffer [simp]:
  "cmdBuffer (handleFddConfig b h) = cmdBuffer h" "cmdBuffer (handleFddSwitch b h) = cmdBuffer h"
  "cmdBuffer (handleAcsiConfig a b h) = cmdBuffer h"
proof -
  have f: "cmdBuffer (fixLeds_loop n h) = cmdBuffer h" for n h using fixLeds_led [of n h] by auto
  show "cmdBuffer (handleFddConfig b h) = cmdBuffer h" "cmdBuffer (handleFddSwitch b h) = cmdBuffer h"
    by (simp_all add: handleFddConfig_def handleFddSwitch_def fixLedsByEnabledImgs_def showCurrentLED_def Let_def f)
  show "cmdBuffer (handleAcsiConfig a b h) = cmdBuffer h"
    by (simp add: handleAcsiConfig_def EE_WriteVariable_def showCurrentLED_def Let_def split_beta flash_cmdBuffer)
qed

lemma cleared_nth: "fold (\<lambda>i b. b[i := 0]) is b ! j = 0 \<or> fold (\<lambda>i b. b[i := 0]) is b ! j = (b :: WORD list) ! j"
proof (induction "is" arbitrary: b)
  case (Cons i "is")
  have "b[i := 0] ! j = 0 \<or> b[i := 0] ! j = b ! j"
    by (cases "i = j"; cases "i < length b") (simp_all add: list_update_beyond)
  with Cons.IH [of "b[i := 0]"] show ?case by auto
qed simp

lemma late_cleared:
  assumes "late_command (cmdBuffer (clear_words is h))"
  shows "late_command (cmdBuffer h)"
  using cleared_nth [of "is" "cmdBuffer h" 14] cleared_nth [of "is" "cmdBuffer h" 15] assms
  by (elim disjE) (simp_all add: late_command_def clear_words_def)

lemma host_fits: "\<not> late_command (cmdBuffer h) \<Longrightarrow> \<exists>g. processHostCommands_from i h = Some g"
proof (induction "16 - i" arbitrary: i h rule: less_induct)
  case less
  show ?case
  proof (cases "i \<ge> 16")
    case True
    then show ?thesis by (subst processHostCommands_from.simps) simp
  next
    case False
    have IH: "\<exists>g. processHostCommands_from j k = Some g" if "i < j" "\<not> late_command (cmdBuffer k)" for j k
      using False that by (intro less.hyps) simp_all
    have cl: "\<not> late_command (cmdBuffer (clear_words ns k))" if "\<not> late_command (cmdBuffer k)" for ns k
      using late_cleared that by blast
    have c: "\<not> ((cmdBuffer h ! i = 0x10 \<or> cmdBuffer h ! i = 0x20 \<or> cmdBuffer h ! i = 0x30 \<or> cmdBuffer h ! i = 0x50) \<and> i + 2 \<ge> 16)"
      "\<not> (cmdBuffer h ! i = 0x80 \<and> i + 1 \<ge> 16)"
    proof -
      have "i = 14 \<or> i = 15" if "i + 2 \<ge> 16" using that False by linarith
      moreover have "i = 15" if "i + 1 \<ge> 16" using that False by linarith
      ultimately show "\<not> ((cmdBuffer h ! i = 0x10 \<or> cmdBuffer h ! i = 0x20 \<or> cmdBuffer h ! i = 0x30 \<or> cmdBuffer h ! i = 0x50) \<and> i + 2 \<ge> 16)"
        "\<not> (cmdBuffer h ! i = 0x80 \<and> i + 1 \<ge> 16)" using less.prems unfolding late_command_def by auto
    qed
    show ?thesis
      using c less.prems by (subst processHostCommands_from.simps) (auto simp add: Let_def IH cl)
  qed
qed

lemma host_overflow: "processHostCommands h = None \<Longrightarrow> late_command (cmdBuffer h)"
  using host_fits [of h 0] by (auto simp: processHostCommands_def)

section \<open>A late marker\<close>

definition short_block :: "TReadBuffer \<Rightarrow> bool" where
  "short_block rb \<longleftrightarrow> (\<exists>ws. find_data rb = Some ws \<and> 2 * length ws < unat (rb_dataBytesCount rb))"

text \<open>The blocks that are looked at while data is read: \<open>block_seen n b h rb\<close> for the next \<open>n\<close> blocks, the first in buffer \<open>b\<close>.\<close>

inductive block_seen :: "nat \<Rightarrow> nat \<Rightarrow> hans \<Rightarrow> TReadBuffer \<Rightarrow> bool" where
  seen_now: "spi_idle h = (g, True) \<Longrightarrow> block_seen (Suc n) b h (rdBufs (request_next (1 - b) g) ! b)"
| seen_later: "spi_idle h = (g, True) \<Longrightarrow> k = request_next (1 - b) g \<Longrightarrow> find_data (rdBufs k ! b) = Some ws \<Longrightarrow>
    dataReadCloop ws (unat (rb_dataBytesCount (rdBufs k ! b))) k = (h', True) \<Longrightarrow> block_seen n (1 - b) h' rb \<Longrightarrow> block_seen (Suc n) b h rb"

definition short_read :: "hans \<Rightarrow> bool" where
  "short_read h \<longleftrightarrow>
     (let h = startSpiDmaForDataRead (dataCnt h) 0 (h\<lparr>seqNo := 0, hstate := STATE_GET_COMMAND\<rparr>);
          h' = h\<lparr>dataCnt := dataCnt h - ucast (rb_dataBytesCount (rdBufs h ! 0)), rnw := True\<rparr>
      in \<exists>n rb. block_seen n 0 h' rb \<and> short_block rb)"

lemma blocks_overflow: "read_blocks n b w h = None \<Longrightarrow> \<exists>rb. block_seen n b h rb \<and> short_block rb"
proof (induction n arbitrary: b h)
  case (Suc n)
  obtain g where g: "spi_idle h = (g, True)" using Suc.prems by (cases "spi_idle h") (auto split: if_split_asm)
  define k where "k = request_next (1 - b) g"
  from Suc.prems g obtain ws where ws: "find_data (rdBufs k ! b) = Some ws"
    by (auto simp: k_def Let_def split: option.split_asm)
  show ?case
  proof (cases "2 * length ws < unat (rb_dataBytesCount (rdBufs k ! b))")
    case True
    then show ?thesis using seen_now [OF g] ws unfolding short_block_def k_def by blast
  next
    case False
    then obtain h' where h': "dataReadCloop ws (unat (rb_dataBytesCount (rdBufs k ! b))) k = (h', True)" "read_blocks n (1 - b) w h' = None"
      using Suc.prems g ws by (auto simp: Let_def k_def [symmetric] split_beta prod_eq_iff simp del: One_nat_def split: if_split_asm)
    from Suc.IH [OF h'(2)] seen_later [OF g k_def ws h'(1)] show ?thesis by blast
  qed
qed simp

lemma read_overflow: "onDataRead w h = None \<Longrightarrow> short_read h"
proof -
  assume n: "onDataRead w h = None"
  define k where "k = startSpiDmaForDataRead (dataCnt h) 0 (h\<lparr>seqNo := 0, hstate := STATE_GET_COMMAND\<rparr>)"
  define k' where "k' = k\<lparr>dataCnt := dataCnt k - ucast (rb_dataBytesCount (rdBufs k ! 0)), rnw := True\<rparr>"
  from n obtain m where "read_blocks m 0 w k' = None"
    unfolding onDataRead_def Let_def k'_def k_def by (simp split: if_split_asm)
  from blocks_overflow [OF this] show "short_read h"
    unfolding short_read_def Let_def k_def [symmetric] k'_def [symmetric] by blast
qed

section \<open>A pass, a command and the main loop\<close>

text \<open>The cause for a pass of the command loop that leaves an array.\<close>

definition pass_overrun :: "hans \<Rightarrow> bool" where
  "pass_overrun h \<longleftrightarrow>
     (case (if hstate h = STATE_GET_COMMAND \<and> PIO_gotFirstCmdByte h then onGetCommand h else Some h) of
        None \<Rightarrow> long_command h
      | Some h \<Rightarrow>
          if hstate h = STATE_DATA_READ_WITH_STATUS \<or> hstate h = STATE_DATA_READ_WITHOUT_STATUS
          then short_read (longTimeout_basedOnSectorCount (ucast (drop_bit 9 (dataCnt h))) h)
          else case (if hstate h = STATE_DATA_WRITE then long_phase (\<lambda>h. Some (onDataWrite h)) h else Some h) of
                 None \<Rightarrow> False
               | Some h \<Rightarrow> late_command (cmdBuffer (fst (spi_idle h))))"

lemma pass_none:
  assumes "hans_sizes h" and "acsi_pass h = None"
  shows "pass_overrun h"
proof -
  let ?o = "if hstate h = STATE_GET_COMMAND \<and> PIO_gotFirstCmdByte h then onGetCommand h else Some h"
  show ?thesis
  proof (cases ?o)
    case None
    then have "long_command h" using get_overflow [OF assms(1)] by (simp split: if_split_asm)
    with None show ?thesis unfolding pass_overrun_def by simp
  next
    case (Some g)
    show ?thesis
    proof (cases "hstate g = STATE_DATA_READ_WITH_STATUS \<or> hstate g = STATE_DATA_READ_WITHOUT_STATUS")
      case True
      then have "long_phase (onDataRead (hstate g = STATE_DATA_READ_WITH_STATUS)) g = None"
        using assms(2) Some unfolding acsi_pass_end by simp
      then have "short_read (longTimeout_basedOnSectorCount (ucast (drop_bit 9 (dataCnt g))) g)"
        by (simp add: long_phase_def read_overflow)
      with Some True show ?thesis unfolding pass_overrun_def by simp
    next
      case False
      let ?w = "if hstate g = STATE_DATA_WRITE then long_phase (\<lambda>h. Some (onDataWrite h)) g else Some g"
      obtain k where k: "?w = Some k" by (cases ?w) (simp_all add: long_phase_def split: if_split_asm)
      then have "pass_end k = None" using assms(2) Some False unfolding acsi_pass_end by (simp split: if_split_asm)
      then have "processHostCommands (fst (spi_idle k)) = None"
        by (auto simp: pass_end_def split_beta Let_def split: if_split_asm option.split_asm)
      then have "late_command (cmdBuffer (fst (spi_idle k)))" by (rule host_overflow)
      with Some False k show ?thesis unfolding pass_overrun_def by simp
    qed
  qed
qed

text \<open>The states from which a pass of the loop starts.\<close>

inductive acsi_visits :: "hans \<Rightarrow> hans \<Rightarrow> bool" where
  visit_now: "acsi_visits h h"
| visit_later: "acsi_pass h = Some (g, False) \<Longrightarrow> acsi_visits g k \<Longrightarrow> acsi_visits h k"

definition command_overrun :: "hans \<Rightarrow> bool" where
  "command_overrun h \<longleftrightarrow> (\<exists>k. acsi_visits h k \<and> pass_overrun k)"

definition iter_overrun :: "hans_in \<Rightarrow> hans \<Rightarrow> bool" where
  "iter_overrun i h \<longleftrightarrow>
     (let h = main_card (in_tim1 i) (in_card i) (updateLEDs h);
          h = (case in_first i of None \<Rightarrow> h | Some b \<Rightarrow> h\<lparr>first_cmd := Some b\<rparr>)
      in case (if PIO_gotFirstCmdByte h then handleAcsiCommand h else Some (Some h)) of
           None \<Rightarrow> False
         | Some None \<Rightarrow> command_overrun h
         | Some (Some h) \<Rightarrow> late_command (cmdBuffer (fst (spi_idle (main_solo (main_stuck h))))))"

end
