(* ===== verification/HansRuns.thy ===== *)
theory HansRuns
  imports HansOver
begin

text \<open>
  The command loop of Hans ends, and every iteration of the main loop ends: with the arrays at their sizes
  and an LED that shows an image that is there, or with one of the overruns of HansOver.
\<close>

section \<open>The command loop\<close>

lemma pass_end_shrinks: "pass_end h = Some (g, False) \<Longrightarrow> hans_sizes h \<Longrightarrow> length (tim g) < length (tim h)"
proof -
  assume e: "pass_end h = Some (g, False)" and h: "hans_sizes h"
  obtain k where t: "h_timeout k = (g, False)" and k: "length (tim k) \<le> length (tim h)"
  proof -
    let ?h = "fst (spi_idle h)"
    have p: "hans_sizes ?h \<and> length (tim ?h) \<le> length (tim h)" by (rule clock.P_spi_idle) (simp add: h)
    let ?o = "if snd (spi_idle h) \<and> shouldProcessCommands ?h
        then map_option (\<lambda>h. h\<lparr>shouldProcessCommands := False\<rparr>) (processHostCommands ?h) else Some ?h"
    have q: "pred_option (\<lambda>h'. hans_sizes h' \<and> length (tim h') \<le> length (tim h)) ?o"
      using p clock.P_host_done [OF p] by (simp add: pred_option_map)
    show ?thesis
    proof (cases ?o)
      case None
      then show ?thesis using e by (simp add: pass_end_def split_beta)
    next
      case (Some k)
      then have "length (tim k) \<le> length (tim h)" using q by simp
      moreover have "h_timeout k = (g, False)"
        using e Some by (auto simp: pass_end_def split_beta Let_def prod_eq_iff split: if_split_asm)
      ultimately show ?thesis using that by blast
    qed
  qed
  from t have "length (tim g) < length (tim k)" by (auto simp: h_timeout_def split: list.split_asm)
  with k show ?thesis by simp
qed

lemma acsi_pass_shrinks: "acsi_pass h = Some (g, False) \<Longrightarrow> hans_sizes h \<Longrightarrow> length (tim g) < length (tim h)"
proof -
  assume e: "acsi_pass h = Some (g, False)" and h: "hans_sizes h"
  let ?P = "\<lambda>h'. hans_sizes h' \<and> length (tim h') \<le> length (tim h)"
  let ?o = "if hstate h = STATE_GET_COMMAND \<and> PIO_gotFirstCmdByte h then onGetCommand h else Some h"
  have "pred_option ?P ?o" using clock.P_onGetCommand [of h "length (tim h)"] h by simp
  then obtain k where k: "?o = Some k" "?P k" using e by (cases ?o) (simp_all add: acsi_pass_end)
  let ?o2 = "if hstate k = STATE_DATA_WRITE then long_phase (\<lambda>h. Some (onDataWrite h)) k else Some k"
  have "pred_option ?P (long_phase (\<lambda>h. Some (onDataWrite h)) k)"
    by (rule clock.P_long_phase [OF k(2)]) (simp only: option.pred_inject, rule clock.P_onDataWrite)
  then have "pred_option ?P ?o2" using k(2) by simp
  then obtain k2 where k2: "?o2 = Some k2" "?P k2"
    using e k(1) by (cases ?o2) (auto simp: acsi_pass_end split: if_split_asm)
  have "pass_end k2 = Some (g, False)" using e k(1) k2(1) by (auto simp: acsi_pass_end split: if_split_asm)
  from pass_end_shrinks [OF this] k2(2) show ?thesis by simp
qed

lemma acsi_loop_ends:
  assumes "hans_sizes h"
  shows "\<exists>r. acsi_loop h = Some r"
  using assms
proof (induction "length (tim h)" arbitrary: h rule: less_induct)
  case less
  show ?case
  proof (cases "acsi_pass h")
    case None
    then show ?thesis by (subst acsi_loop.simps) simp
  next
    case (Some p)
    obtain g fin where p: "p = (g, fin)" by (cases p)
    have g: "hans_sizes g" using clock.P_acsi_pass [of h "length (tim h)"] less.prems Some p by simp
    show ?thesis
    proof (cases fin)
      case True
      then show ?thesis using Some p by (subst acsi_loop.simps) simp
    next
      case False
      then have "length (tim g) < length (tim h)" using acsi_pass_shrinks Some p less.prems by simp
      from less.hyps [OF this g] show ?thesis using Some p False by (subst acsi_loop.simps) simp
    qed
  qed
qed

lemma acsi_loop_result:
  assumes pass: "\<And>h. P h \<Longrightarrow> pred_option (\<lambda>r. P (fst r) \<and> (snd r \<longrightarrow> Q (fst r))) (acsi_pass h)" and h: "P h" and r: "acsi_loop h = Some r"
  shows "pred_option (\<lambda>g. P g \<and> Q g) r"
proof -
  have "P h \<longrightarrow> pred_option (\<lambda>g. P g \<and> Q g) r"
  proof (rule acsi_loop.raw_induct [OF _ r])
    fix loop h r
    assume IH: "\<And>h r. loop h = Some r \<Longrightarrow> P h \<longrightarrow> pred_option (\<lambda>g. P g \<and> Q g) r"
      and e: "(case acsi_pass h of None \<Rightarrow> Some None | Some (h, fin) \<Rightarrow> if fin then Some (Some h) else loop h) = Some r"
    show "P h \<longrightarrow> pred_option (\<lambda>g. P g \<and> Q g) r"
    proof
      assume "P h"
      from pass [OF this] e IH show "pred_option (\<lambda>g. P g \<and> Q g) r"
        by (auto split: option.split_asm prod.split_asm if_split_asm)
    qed
  qed
  with h show ?thesis by simp
qed

subsection \<open>The state at the end\<close>

definition ended :: "hans \<Rightarrow> bool" where
  "ended h \<longleftrightarrow> hstate h = STATE_GET_COMMAND \<or> hstate h = STATE_READ_STATUS"

lemma read_blocks_ended: "hans_sizes h \<Longrightarrow> hstate h = STATE_GET_COMMAND \<Longrightarrow> pred_option ended (read_blocks n b w h)"
proof (induction n arbitrary: b h)
  case 0
  then show ?case using state.P_reads [of "h\<lparr>hstate := STATE_GET_COMMAND\<rparr>" STATE_GET_COMMAND] by (simp add: ended_def)
next
  case (Suc n)
  define h1 where "h1 = fst (spi_idle h)"
  have h1: "hans_sizes h1 \<and> hstate h1 = STATE_GET_COMMAND" unfolding h1_def by (rule state.P_spi_idle) (simp add: Suc.prems)
  define h2 where "h2 = request_next (1 - b) h1"
  have h2: "hans_sizes h2 \<and> hstate h2 = STATE_GET_COMMAND" unfolding h2_def by (rule state.P_start_read) (rule h1)
  have h3: "hans_sizes (fst (dataReadCloop p k h2)) \<and> hstate (fst (dataReadCloop p k h2)) = STATE_GET_COMMAND" for p k
    by (rule state.P_dataReadCloop) (rule h2)
  have h4: "hans_sizes (PIO_read x h2) \<and> hstate (PIO_read x h2) = STATE_GET_COMMAND" for x
    by (rule state.P_reads) (rule h2)
  show ?case
    unfolding read_blocks.simps split_beta h1_def [symmetric] Let_def h2_def [symmetric]
    using h1 h2 h3 h4 Suc.IH by (auto simp: ended_def split: option.split)
qed

lemma ended_timer: "ended (timerSetup_cmdTimeoutChangeLength t h) = ended h" "hstate (longTimeout_basedOnSectorCount n h) = hstate h"
  by (simp_all add: ended_def timerSetup_cmdTimeoutChangeLength_def longTimeout_basedOnSectorCount_def Let_def)

lemma onDataRead_ended: "hans_sizes h \<Longrightarrow> pred_option ended (onDataRead w h)"
proof -
  assume h: "hans_sizes h"
  define h1 where "h1 = h\<lparr>seqNo := 0, hstate := STATE_GET_COMMAND\<rparr>"
  have h1: "hans_sizes h1 \<and> hstate h1 = STATE_GET_COMMAND" by (simp add: h1_def h)
  have a: "hans_sizes (PIO_read x h1) \<and> hstate (PIO_read x h1) = STATE_GET_COMMAND" for x
    by (rule state.P_reads) (rule h1)
  have b: "hans_sizes (startSpiDmaForDataRead n 0 h1) \<and> hstate (startSpiDmaForDataRead n 0 h1) = STATE_GET_COMMAND" for n
    by (rule state.P_start_read) (rule h1)
  show ?thesis
    unfolding onDataRead_def Let_def h1_def [symmetric]
    using a b by (simp add: read_blocks_ended) (simp add: ended_def)
qed

lemma long_phase_ended:
  assumes "hans_sizes h" and "\<And>g. hans_sizes g \<Longrightarrow> pred_option ended (f g)"
  shows "pred_option ended (long_phase f h)"
proof -
  have "hans_sizes (longTimeout_basedOnSectorCount n h)" for n
    using clock.P_timer(2) [of h "length (tim h)"] assms(1) by simp
  then show ?thesis using assms(2) by (simp add: long_phase_def pred_option_map ended_timer)
qed

lemma pass_end_ended: "pass_end h = Some (g, True) \<Longrightarrow> ended g"
  by (auto simp: pass_end_def ended_def split_beta Let_def split: option.split_asm if_split_asm)

lemma onReadStatus_ended: "ended (onReadStatus h)"
  by (simp add: onReadStatus_def ended_def split_beta Let_def)

lemma acsi_pass_ended:
  assumes "hans_sizes h"
  shows "pred_option (\<lambda>r. snd r \<longrightarrow> ended (fst r)) (acsi_pass h)"
proof -
  have o: "pred_option hans_sizes (if hstate h = STATE_GET_COMMAND \<and> PIO_gotFirstCmdByte h then onGetCommand h else Some h)"
  proof (cases "onGetCommand h")
    case (Some g)
    then show ?thesis using clock.P_onGetCommand [of h "length (tim h)"] assms by simp
  qed (simp add: assms)
  have w: "pred_option (\<lambda>_. True) x" for x :: "hans option" by (cases x) simp_all
  show ?thesis
    unfolding acsi_pass_end
  proof (rule pred_option_case [OF o])
    fix g
    assume g: "hans_sizes g"
    have r: "pred_option ended (long_phase (onDataRead q) g)" for q by (rule long_phase_ended [OF g onDataRead_ended])
    show "pred_option (\<lambda>r. snd r \<longrightarrow> ended (fst r))
        (if hstate g = STATE_DATA_READ_WITH_STATUS \<or> hstate g = STATE_DATA_READ_WITHOUT_STATUS
         then map_option (\<lambda>h. (h, True)) (long_phase (onDataRead (hstate g = STATE_DATA_READ_WITH_STATUS)) g)
         else case (if hstate g = STATE_DATA_WRITE then long_phase (\<lambda>h. Some (onDataWrite h)) g else Some g) of
                None \<Rightarrow> None
              | Some h \<Rightarrow> if hstate h = STATE_READ_STATUS then Some (onReadStatus h, True) else pass_end h)" (is "pred_option _ ?o")
    proof (cases "hstate g = STATE_DATA_READ_WITH_STATUS \<or> hstate g = STATE_DATA_READ_WITHOUT_STATUS")
      case True
      then show ?thesis using r [of "hstate g = STATE_DATA_READ_WITH_STATUS"] by (simp add: pred_option_map)
    next
      case False
      have "pred_option (\<lambda>r. snd r \<longrightarrow> ended (fst r)) (pass_end k)" for k
        using pass_end_ended [of k] by (cases "pass_end k") auto
      then have "pred_option (\<lambda>r. snd r \<longrightarrow> ended (fst r)) (case (if hstate g = STATE_DATA_WRITE then long_phase (\<lambda>h. Some (onDataWrite h)) g else Some g) of
                None \<Rightarrow> None
              | Some h \<Rightarrow> if hstate h = STATE_READ_STATUS then Some (onReadStatus h, True) else pass_end h)"
        by (intro pred_option_case [OF w]) (simp add: onReadStatus_ended)
      then show ?thesis using False by simp
    qed
  qed
qed

lemma ended_after: "hans_sizes h \<Longrightarrow> ended h \<Longrightarrow> ended (after_command h)"
  using state.P_status_of_bus(3) [of h "hstate h"] by (simp add: ended_def)

lemma acsi_loop_overrun: "hans_sizes h \<Longrightarrow> acsi_loop h = Some None \<Longrightarrow> command_overrun h"
proof (induction "length (tim h)" arbitrary: h rule: less_induct)
  case less
  show ?case
  proof (cases "acsi_pass h")
    case None
    with pass_none [OF less.prems(1)] show ?thesis unfolding command_overrun_def by (blast intro: visit_now)
  next
    case (Some p)
    then obtain g where g: "acsi_pass h = Some (g, False)" "acsi_loop g = Some None"
      using less.prems(2) by (subst (asm) acsi_loop.simps) (cases p, auto split: if_split_asm)
    have "hans_sizes g" using clock.P_acsi_pass [of h "length (tim h)"] less.prems(1) g(1) by simp
    from less.hyps [OF acsi_pass_shrinks [OF g(1) less.prems(1)] this g(2)] show ?thesis
      unfolding command_overrun_def using visit_later [OF g(1)] by blast
  qed
qed

text \<open>
  C5: The handling of a command from the Atari always ends, whatever the Atari, the Raspberry Pi and the
  card do, because every pass that does not end it uses up a poll of the command timer. Unless it leaves an
  array on the way, all arrays have kept their sizes at the end and Hans is back in the state that waits for
  a command or in the one that waits for the host's status. It leaves an array only where a pass of the loop
  takes a SCSI command whose first byte is of group 4, with its 16 bytes for a buffer of 14, or finds a
  command of the host so late in the message that its parameters are behind it, or a block of data whose
  marker leaves less than the block's bytes before the end of the buffer.
\<close>

theorem command_ends:
  assumes "hans_sizes h"
  shows "\<exists>r. handleAcsiCommand h = Some r \<and>
    (case r of None \<Rightarrow> command_overrun h | Some g \<Rightarrow> hans_sizes g \<and> ended g \<and> length (tim g) \<le> length (tim h))"
proof -
  obtain r where r: "acsi_loop h = Some r" using acsi_loop_ends [OF assms] by blast
  let ?P = "\<lambda>g. hans_sizes g \<and> length (tim g) \<le> length (tim h)"
  have e: "pred_option (\<lambda>g. ?P g \<and> ended g) r"
  proof (rule acsi_loop_result [where P = ?P and Q = ended, OF _ _ r])
    fix k
    assume k: "?P k"
    show "pred_option (\<lambda>r. ?P (fst r) \<and> (snd r \<longrightarrow> ended (fst r))) (acsi_pass k)"
      using clock.P_acsi_pass [OF k] acsi_pass_ended [of k] k by (cases "acsi_pass k") simp_all
  qed (simp add: assms)
  show ?thesis
  proof (cases r)
    case None
    then show ?thesis using r acsi_loop_overrun [OF assms] by (simp add: handleAcsiCommand_def)
  next
    case (Some g)
    then show ?thesis using r e clock.P_status_of_bus(3) [of g "length (tim h)"] ended_after [of g] by (simp add: handleAcsiCommand_def)
  qed
qed

section \<open>The main loop\<close>

fun hans_main_loop :: "hans_in list \<Rightarrow> hans \<Rightarrow> hans option option" where
  "hans_main_loop [] h = Some (Some h)"
| "hans_main_loop (i # is) h =
     (case hans_main_iter i h of
        None \<Rightarrow> None
      | Some None \<Rightarrow> Some None
      | Some (Some h) \<Rightarrow> hans_main_loop is h)"

text \<open>An iteration that leaves an array, from the start of the loop.\<close>

fun loop_overrun :: "hans_in list \<Rightarrow> hans \<Rightarrow> bool" where
  "loop_overrun [] h = False"
| "loop_overrun (i # is) h =
     (iter_overrun i h \<or> (case hans_main_iter i h of Some (Some h) \<Rightarrow> loop_overrun is h | _ \<Rightarrow> False))"

lemma main_iter_ok:
  "hans_ok h \<Longrightarrow> \<exists>r. hans_main_iter i h = Some r \<and> (case r of None \<Rightarrow> iter_overrun i h | Some g \<Rightarrow> hans_ok g)"
proof -
  assume h: "hans_ok h"
  define k where "k = (case in_first i of None \<Rightarrow> main_card (in_tim1 i) (in_card i) (updateLEDs h)
    | Some b \<Rightarrow> main_card (in_tim1 i) (in_card i) (updateLEDs h)\<lparr>first_cmd := Some b\<rparr>)"
  have k: "hans_ok k" by (simp add: k_def h split: option.split)
  have c: "\<exists>r. (if PIO_gotFirstCmdByte k then handleAcsiCommand k else Some (Some k)) = Some r \<and> pred_option hans_ok r"
  proof (cases "PIO_gotFirstCmdByte k")
    case True
    obtain r where r: "acsi_loop k = Some r" using acsi_loop_ends [OF main.sizes [OF k]] by blast
    have "pred_option (\<lambda>g. hans_ok g \<and> True) r"
      by (rule acsi_loop_result [where P = hans_ok, OF _ k r]) (simp add: main.P_acsi_pass)
    then show ?thesis using True r by (cases r) (simp_all add: handleAcsiCommand_def)
  qed (simp add: k)
  then obtain r where r: "(if PIO_gotFirstCmdByte k then handleAcsiCommand k else Some (Some k)) = Some r" and "pred_option hans_ok r" by blast
  moreover have "hans_ok g'" if "hans_ok g" "main_host i (main_solo (main_stuck g)) = Some g'" for g g'
    using main.P_main_host [of "main_solo (main_stuck g)" i] that by simp
  moreover have "late_command (cmdBuffer (fst (spi_idle g)))" if "main_host i g = None" for g
    using that by (auto simp: main_host_def split_beta Let_def host_overflow split: option.split_asm if_split_asm)
  moreover have "command_overrun k" if "r = None"
    using r that acsi_loop_overrun [OF main.sizes [OF k]] by (auto simp: handleAcsiCommand_def split: if_split_asm)
  ultimately show ?thesis
    unfolding hans_main_iter_def iter_overrun_def Let_def k_def [symmetric] r
    by (cases r) (auto simp: split: option.split)
qed

lemma main_loop_ok:
  "hans_ok h \<Longrightarrow> \<exists>r. hans_main_loop is h = Some r \<and> (case r of None \<Rightarrow> loop_overrun is h | Some g \<Rightarrow> hans_ok g)"
proof (induction "is" arbitrary: h)
  case Nil
  then show ?case by simp
next
  case (Cons i "is")
  from main_iter_ok [OF Cons.prems] obtain r where r: "hans_main_iter i h = Some r" "case r of None \<Rightarrow> iter_overrun i h | Some g \<Rightarrow> hans_ok g"
    by blast
  show ?case
  proof (cases r)
    case None
    then show ?thesis using r by simp
  next
    case (Some g)
    then obtain r' where "hans_main_loop is g = Some r'" "case r' of None \<Rightarrow> loop_overrun is g | Some a \<Rightarrow> hans_ok a"
      using Cons.IH [of g] r(2) by auto
    then show ?thesis using r(1) Some by (auto split: option.split)
  qed
qed

lemma init_ok:
  assumes "hans_sizes h" "showingSelectedFddImage (leds h) = 0"
  shows "hans_ok (hans_init ins h)"
proof -
  define h1 where "h1 = hans_setupAtnBuffers (h\<lparr>hstate := STATE_GET_COMMAND, sendFw := False, firstConfigReceived := False\<rparr>)"
  have s: "hans_sizes h1" unfolding h1_def by (rule setup_sizes) (simp add: assms)
  have k: "firstConfigReceived h1 = False" "showingSelectedFddImage (leds h1) = 0" by (simp_all add: h1_def setup_keeps assms)
  define h2 where "h2 = h1\<lparr>spiIdle := True, spiTXidle := True, spiRXidle := True, currentLed := 0xff, shouldProcessCommands := False,
                rnw := False, first_cmd := None, enabledIDs := replicate 8 False, sdCardID := 0xff,
                enabledImgs := (enabledImgs h1)[1 := False, 2 := False], prevBtnPressTime := 0, cardInsertChanged := False,
                cardDetectTime := 0, card_detect := ins, prevIsCardInserted := ins\<rparr>"
  have "hans_sizes h2" unfolding h2_def using s by (simp add: sizes_imgs)
  then have "hans_ok h2" using k by (simp add: hans_ok_def led_ok_def led_of_def h2_def)
  then show ?thesis
    unfolding hans_init_def Let_def h1_def [symmetric] h2_def [symmetric] by simp
qed

text \<open>
  C6: From its start on, and for every sequence of events of the button, the card and the buses, every
  iteration of the main loop of Hans ends. As long as no iteration has left an array in one of the three ways
  of a command (a SCSI command of group 4, a late command of the host, a late data marker; the host's
  commands are also taken outside a command of the Atari), all arrays have their sizes, the selected floppy
  image is one of the configured ones (or none), the LEDs show it, and a configuration has been received only
  when the device is in the mode that works with a Raspberry Pi.
\<close>

theorem main_loop_invariant:
  assumes "hans_sizes h" "showingSelectedFddImage (leds h) = 0"
  shows "\<exists>r. hans_main_loop is (hans_init ins h) = Some r \<and>
    (case r of None \<Rightarrow> loop_overrun is (hans_init ins h)
     | Some g \<Rightarrow> hans_sizes g \<and> led_ok g \<and> showingSelectedFddImage (leds g) = led_of (currentLed g) \<and>
         (firstConfigReceived g \<longrightarrow> hmode g = MODE_WITH_RPI))"
proof -
  have "hans_ok (hans_init ins h)" by (rule init_ok [OF assms])
  from main_loop_ok [OF this] show ?thesis unfolding hans_ok_def .
qed

section \<open>Witnesses\<close>

lemma zero_sizes: "hans_sizes hans_zero"
  by (simp add: hans_sizes_def hans_zero_def numeral_2_eq_2 numeral_3_eq_3)

text \<open>No overrun: a first byte for a device that is not there, with nothing in the host's buffer.\<close>

lemma no_late [simp]: "\<not> late_command (replicate 16 0)"
  by (simp add: late_command_def)

lemma quiet_command:
  assumes "hstate h = STATE_GET_COMMAND" and "PIO_gotFirstCmdByte h" and "enabledIDs h = replicate 8 False" and "tim h = []"
    and "cmdBuffer h = replicate 16 0" and "host_in h = []" and "\<not> shouldProcessCommands h"
  shows "\<not> command_overrun h"
proof -
  have e: "\<not> enabledIDs h ! unat (drop_bit 5 b AND (0x07 :: BYTE))" for b
  proof -
    have "(0x07 :: BYTE) = mask 3" by (simp add: mask_eq_exp_minus_1)
    then have "unat (drop_bit 5 b AND (0x07 :: BYTE)) = unat (drop_bit 5 b) mod 2 ^ 3" by (simp only: unat_and_mask)
    then have "unat (drop_bit 5 b AND (0x07 :: BYTE)) < 8" by simp
    then show ?thesis by (simp add: assms(3) del: replicate.simps)
  qed
  define w where "w = fst (PIO_writeFirst h)"
  have w: "enabledIDs w = enabledIDs h" "hstate w = hstate h" "tim w = []" "cmdBuffer w = replicate 16 0" "host_in w = []"
    "shouldProcessCommands w = shouldProcessCommands h" using assms by (simp_all add: w_def PIO_writeFirst_def)
  have none: "List.find (\<lambda>i. sel AND push_bit i 1 \<noteq> 0 \<and> enabledIDs w ! i) [0..<8] = None" for sel :: BYTE
    using assms(3) by (auto simp: find_None_iff w(1) simp del: replicate.simps)
  obtain c where c: "onGetCommand h = Some (w\<lparr>cmd := c\<rparr>)"
  proof (cases "isAcsiNotScsi h")
    case True
    then have "onGetCommand h = Some (w\<lparr>cmd := (cmd w)[0 := snd (PIO_writeFirst h)]\<rparr>)"
      using e w(1) by (simp add: onGetCommand_def onGetCommandAcsi_def Let_def split_beta w_def)
    then show ?thesis using that by blast
  next
    case False
    then have "onGetCommand h = Some w" using none by (simp add: onGetCommand_def onGetCommandScsi_def Let_def split_beta w_def)
    then show ?thesis using that [of "cmd w"] by simp
  qed
  let ?k = "w\<lparr>cmd := c\<rparr>"
  have i: "fst (spi_idle ?k) = ?k" by (simp add: spi_idle_def w)
  have "\<not> pass_overrun h" using assms(1,2) c i w by (simp add: pass_overrun_def del: replicate.simps)
  moreover have "\<not> (\<exists>g. acsi_pass h = Some (g, False))"
    using assms(1,2,7) c i w by (auto simp: acsi_pass_end pass_end_def split_beta Let_def h_timeout_def)
  ultimately show ?thesis unfolding command_overrun_def by (auto elim: acsi_visits.cases)
qed

lemma command_ends_witness:
  "\<exists>g. handleAcsiCommand (hans_zero\<lparr>first_cmd := Some 0\<rparr>) = Some (Some g) \<and> hans_sizes g \<and> ended g \<and> length (tim g) \<le> 0"
proof -
  let ?h = "hans_zero\<lparr>first_cmd := Some 0\<rparr>"
  have "hans_sizes ?h" by (simp add: zero_sizes)
  from command_ends [OF this] obtain r where r: "handleAcsiCommand ?h = Some r"
    "case r of None \<Rightarrow> command_overrun ?h | Some g \<Rightarrow> hans_sizes g \<and> ended g \<and> length (tim g) \<le> length (tim ?h)" by blast
  have "\<not> command_overrun ?h" by (rule quiet_command) (simp_all add: hans_zero_def PIO_gotFirstCmdByte_def del: replicate.simps)
  with r show ?thesis by (cases r) (simp_all add: hans_zero_def)
qed

lemma main_loop_invariant_witness:
  "\<exists>g. hans_main_loop [\<lparr>in_tim1 = 0, in_card = False, in_first = None, in_pressed = False, in_button = True\<rparr>] (hans_init False hans_zero) =
      Some (Some g) \<and> hans_sizes g \<and> led_ok g \<and> showingSelectedFddImage (leds g) = led_of (currentLed g) \<and>
      (firstConfigReceived g \<longrightarrow> hmode g = MODE_WITH_RPI)"
proof -
  let ?is = "[\<lparr>in_tim1 = 0, in_card = False, in_first = None, in_pressed = False, in_button = True\<rparr>]"
  have s: "showingSelectedFddImage (leds hans_zero) = 0" by (simp add: hans_zero_def)
  from main_loop_invariant [OF zero_sizes s, of ?is False] obtain r where r: "hans_main_loop ?is (hans_init False hans_zero) = Some r"
    "case r of None \<Rightarrow> loop_overrun ?is (hans_init False hans_zero)
     | Some g \<Rightarrow> hans_sizes g \<and> led_ok g \<and> showingSelectedFddImage (leds g) = led_of (currentLed g) \<and>
         (firstConfigReceived g \<longrightarrow> hmode g = MODE_WITH_RPI)" by blast
  define k where "k = main_card 0 False (updateLEDs (hans_init False hans_zero))"
  have k: "cmdBuffer k = replicate 16 0" "spiIdle k" "first_cmd k = None" "timeOutCount k = 0"
    by (simp_all add: k_def main_card_def updateLEDs_def hans_init_def hans_setupAtnBuffers_def sdCardZeroInitStruct_def resetXilinx_def
        getXilinxStatus_def isCardInserted_def Let_def hans_zero_def emit_def del: replicate.simps)
  have "\<not> iter_overrun (hd ?is) (hans_init False hans_zero)"
    using k by (simp add: iter_overrun_def Let_def k_def [symmetric] PIO_gotFirstCmdByte_def main_stuck_def main_solo_def spi_idle_def del: replicate.simps)
  then have "\<not> loop_overrun ?is (hans_init False hans_zero)" by (auto split: option.splits)
  with r show ?thesis by (cases r) simp_all
qed

end
