(* ===== verification/HostHans.thy ===== *)
theory HostHans
  imports HostTrans HansRuns
begin

text \<open>
  The host and Hans together: what the host's code shifts out while it answers the messages of Hans is
  what Hans needs to deliver the data and the status to the Atari.
\<close>

section \<open>Transfers\<close>

lemma txRx_free:
  assumes "remainingPacketLength s = NO_REMAINING_LENGTH" and "n \<noteq> 0xffff" and "n \<le> length tx" and "n \<le> length (miso s)"
  shows "txRx n tx s = (s\<lparr>mosi := mosi s @ take n tx, miso := drop n (miso s)\<rparr>, take n (miso s))"
  using assms by (simp add: txRx_def spi_tx_rx_def)

lemma txRx_limited:
  assumes "remainingPacketLength s = of_nat r" and "r < 65535" and "n \<le> r" and "n \<le> length tx" and "n \<le> length (miso s)"
  shows "txRx n tx s = (s\<lparr>mosi := mosi s @ take n tx, miso := drop n (miso s), remainingPacketLength := of_nat (r - n)\<rparr>, take n (miso s))"
proof -
  have u: "unat (of_nat r :: WORD) = r" using assms(2) by (simp add: unat_of_nat)
  have "of_nat r \<noteq> (0xffff :: WORD)" using u assms(2) by auto
  then show ?thesis using assms u by (simp add: txRx_def spi_tx_rx_def)
qed

section \<open>Headers\<close>

lemma be16_split: "be16 (ucast (drop_bit 8 w)) (ucast w) = w"
  by (rule bit_word_eqI) (auto simp: be16_def bit_simps)

lemma swap_be16: "swapWord (be16 a b) = be16 b a"
  by (rule bit_word_eqI) (auto simp: swapWord_def be16_def bit_simps dest: bit_imp_le_length)

lemma cut_header_words:
  assumes "n \<le> 1024"
  shows "cut_header (of_nat n) = of_nat (2 * n - 8)"
proof -
  have u: "unat (of_nat n * 2 :: WORD) = 2 * n" using assms by (simp add: unat_word_ariths unat_of_nat)
  have e: "(of_nat n * 2 :: WORD) = of_nat (2 * n)" by simp
  show ?thesis
  proof (cases "4 \<le> n")
    case True
    then have "8 \<le> (of_nat n * 2 :: WORD)" using u by (simp add: word_le_nat_alt)
    moreover have "(of_nat (2 * n - 8) :: WORD) = of_nat (2 * n) - 8" using True by simp
    ultimately show ?thesis unfolding cut_header_def Let_def e by simp
  next
    case False
    then have "\<not> 8 \<le> (of_nat n * 2 :: WORD)" using u by (simp add: word_le_nat_alt)
    then show ?thesis using False by (simp add: cut_header_def)
  qed
qed

definition header :: "WORD \<Rightarrow> nat \<Rightarrow> nat \<Rightarrow> BYTE list" where
  "header c t r = word_bytes [ATN_SYNC_WORD, c, of_nat t, of_nat r]"

lemma header_bytes:
  "header c t r = [0xca, 0xfe, ucast (drop_bit 8 c), ucast c] @ be16_bytes (of_nat t) @ be16_bytes (of_nat r)"
  by (simp add: header_def be16_bytes_def)

lemma read_sync_ok:
  assumes "remainingPacketLength s = NO_REMAINING_LENGTH" and "sigint s = []" and "miso s = 0xca # 0xfe # bs" and "0 < n"
  shows "read_sync n b s = (s\<lparr>mosi := mosi s @ [0, 0], miso := bs\<rparr>, [0xca, 0xfe], True)"
proof -
  obtain m where n: "n = Suc m" using assms(4) by (cases n) simp_all
  have "le16_at [0xca, 0xfe] 0 = 0xfeca" by (simp add: le16_at_def be16_def)
  then show ?thesis using assms by (simp add: n look_sigint_def txRx_free)
qed

lemma applyTxRxLimits_ok:
  assumes "t \<le> 1024" and "r \<le> 1024"
  shows "applyTxRxLimits SPI_CS_HANS (header c t r) s = s\<lparr>remainingPacketLength := of_nat (max (2 * t - 8) (2 * r - 8))\<rparr>"
proof -
  have w: "swapWord (le16_at (header c t r) 2) = of_nat t" "swapWord (le16_at (header c t r) 3) = of_nat r"
    by (simp_all add: le16_at_def header_bytes be16_bytes_def swap_be16 be16_split)
  have u: "unat (of_nat t :: WORD) = t" "unat (of_nat r :: WORD) = r" using assms by (simp_all add: unat_of_nat)
  have "\<not> (of_nat t :: WORD) > 1024" "\<not> (of_nat r :: WORD) > 1024" using u assms by (simp_all add: word_less_nat_alt)
  moreover have "of_nat t \<noteq> (0xffff :: WORD)" using u assms by auto
  moreover have "(of_nat (2 * r - 8) :: WORD) \<le> of_nat (2 * t - 8) \<longleftrightarrow> 2 * r - 8 \<le> 2 * t - 8"
    using assms by (simp add: word_le_nat_alt unat_of_nat)
  ultimately show ?thesis
    by (simp add: applyTxRxLimits_def w max_words_def setRemainingTxRxLen_def cut_header_words assms max_def)
qed

lemma readHeader_ok:
  assumes "remainingPacketLength s = NO_REMAINING_LENGTH" and "sigint s = []" and "miso s = header c t r @ bs"
    and "t \<le> 1024" and "r \<le> 1024"
  shows "readHeader SPI_CS_HANS s =
    (s\<lparr>mosi := mosi s @ replicate 8 0, miso := bs, remainingPacketLength := of_nat (max (2 * t - 8) (2 * r - 8))\<rparr>, header c t r, True)"
proof -
  define k where "k = drop 2 (header c t r)"
  have h: "header c t r = 0xca # 0xfe # k" "length k = 6" by (simp_all add: k_def header_bytes be16_bytes_def)
  have m: "miso s = 0xca # 0xfe # (k @ bs)" using assms(3) h(1) by simp
  let ?s = "s\<lparr>mosi := mosi s @ [0, 0], miso := k @ bs\<rparr>"
  have sync: "read_sync 10000 [0, 0] s = (?s, [0xca, 0xfe], True)" by (rule read_sync_ok [OF assms(1,2) m]) simp
  have tx: "txRx 6 (replicate 6 0) ?s = (?s\<lparr>mosi := mosi ?s @ replicate 6 0, miso := bs\<rparr>, k)"
    using txRx_free [of ?s 6 "replicate 6 0"] assms(1) h(2) by simp
  have o: "[0xca, 0xfe] @ overwrite (replicate 6 0) k = header c t r" using h by (simp add: overwrite_def)
  have z: "replicate 8 0 = [0, 0] @ replicate 6 (0 :: BYTE)" by (simp add: numeral_eq_Suc)
  show ?thesis
    unfolding readHeader_def sync tx Let_def split o
    by (simp add: applyTxRxLimits_ok [OF assms(4,5)] z)
qed

lemma wait_pin_ok:
  "ms_over s = replicate (Suc k) False @ ms \<Longrightarrow> atn_pin s = replicate k False @ True # pins \<Longrightarrow>
    wait_pin s = (s\<lparr>ms_over := ms, atn_pin := pins\<rparr>, True)"
proof (induction k arbitrary: s)
  case 0
  then show ?case by (subst wait_pin.simps) (simp add: look_atn_def)
next
  case (Suc k)
  then show ?case by (subst wait_pin.simps) (simp add: look_atn_def)
qed

text \<open>The signal comes up after \<open>k\<close> looks at the pin.\<close>

lemma wait_hans_ok:
  assumes "remainingPacketLength s \<in> {0, NO_REMAINING_LENGTH}" and "sigint s = []" and "miso s = header (ucast code) t r @ bs"
    and "t \<le> 1024" and "r \<le> 1024" and "code \<noteq> ATN_ANY"
    and "ms_over s = replicate (Suc k) False @ ms" and "atn_pin s = replicate k False @ True # pins"
  shows "waitForATN SPI_CS_HANS code s =
    (s\<lparr>ms_over := ms, atn_pin := pins, mosi := mosi s @ replicate 8 0, miso := bs,
       remainingPacketLength := of_nat (max (2 * t - 8) (2 * r - 8))\<rparr>, header (ucast code) t r, True)"
proof -
  have a: "applyNoTxRxLimis s = s\<lparr>remainingPacketLength := NO_REMAINING_LENGTH\<rparr>"
    using assms(1) by (auto simp: applyNoTxRxLimis_def setRemainingTxRxLen_def)
  let ?s = "s\<lparr>remainingPacketLength := NO_REMAINING_LENGTH\<rparr>"
  have p: "wait_pin ?s = (?s\<lparr>ms_over := ms, atn_pin := pins\<rparr>, True)" by (rule wait_pin_ok) (use assms(7,8) in simp_all)
  have "ucast (ucast code :: WORD) = code" by (rule bit_word_eqI) (auto simp: bit_simps)
  then have c: "header (ucast code) t r ! 3 = code" by (simp add: header_bytes)
  show ?thesis
    unfolding waitForATN_def Let_def a p split using assms(6)
    by (simp add: readHeader_ok [OF _ _ _ assms(4,5)] assms(2,3) c)
qed

section \<open>Data blocks\<close>

text \<open>
  The bytes that Hans shifts out for a message that asks for a number of words: the message, and whatever
  follows it while the words arrive.
\<close>

definition on_wire :: "WORD list \<times> WORD \<Rightarrow> BYTE list \<Rightarrow> bool" where
  "on_wire m bs \<longleftrightarrow> length bs = 2 * max (length (fst m)) (unat (snd m)) \<and> take (2 * length (fst m)) bs = word_bytes (fst m)"

text \<open>The looks at the clock and at the pin during waits that see the pin after some looks.\<close>

definition looks :: "nat list \<Rightarrow> bool list" where
  "looks ks = concat (map (\<lambda>k. replicate (Suc k) False) ks)"

definition pins :: "nat list \<Rightarrow> bool list" where
  "pins ks = concat (map (\<lambda>k. replicate k False @ [True]) ks)"

lemma request_on_wire:
  assumes "on_wire (request seq m) bs" and "m \<le> 512"
  obtains r where "bs = header 3 6 (block_words m) @ r" and "length r = 2 * (m div 2 + m mod 2) + 4"
proof -
  have b: "block_words m = m div 2 + m mod 2 + 6" "block_words m < 65536" using assms(2) by (simp_all add: block_words_def)
  have u: "unat (of_nat (block_words m) :: WORD) = block_words m" using b(2) by (simp add: unat_of_nat)
  have "6 \<le> block_words m" using b(1) by simp
  then have l: "length bs = 2 * block_words m" and t: "take 12 bs = word_bytes (fst (request seq m))"
    using assms(1) by (simp_all add: on_wire_def u request_def max_def)
  have "take 8 bs = take 8 (take 12 bs)" by simp
  also have "\<dots> = header 3 6 (block_words m)" unfolding t by (simp add: request_def header_def be16_bytes_def)
  finally have "bs = header 3 6 (block_words m) @ drop 8 bs" by (metis append_take_drop_id)
  moreover have "length (drop 8 bs) = 2 * (m div 2 + m mod 2) + 4" using l b(1) by simp
  ultimately show ?thesis by (rule that)
qed

definition tx_ok :: "datatrans \<Rightarrow> bool" where
  "tx_ok d \<longleftrightarrow> length (txBuffer d) = 600 \<and> take 2 (txBuffer d) = [0, CMD_DATA_MARKER]"

lemma words_of_append: "even (length us) \<Longrightarrow> words_of (us @ vs) = words_of us @ words_of vs"
  by (induction us rule: words_of.induct) auto

lemma zeros: "replicate 8 0 = [0, 0, 0, 0, 0, 0, 0, 0 :: BYTE]" "replicate 4 0 = [0, 0, 0, 0 :: WORD]"
  by (simp_all add: numeral_eq_Suc)

text \<open>A block of the host carries its data.\<close>

lemma block_carries:
  assumes "length dat = m" and "m = length c + length c mod 2" and "take (length c) dat = c" and "length tl2 = 2"
  shows "carries (words_of (replicate 8 0 @ [0, CMD_DATA_MARKER] @ dat @ tl2)) c"
proof -
  have "words_of (replicate 8 0 @ [0, CMD_DATA_MARKER] @ dat @ tl2) = words_of (replicate 8 0) @ words_of ([0, CMD_DATA_MARKER] @ dat @ tl2)"
    by (rule words_of_append) simp
  also have "\<dots> = replicate 4 0 @ 0xda # words_of (dat @ tl2)" by (simp add: zeros be16_def)
  finally have w: "words_of (replicate 8 0 @ [0, CMD_DATA_MARKER] @ dat @ tl2) = replicate 4 0 @ 0xda # words_of (dat @ tl2)" .
  have l: "length (words_of (dat @ tl2)) = m div 2 + 1" using assms(1,2,4) by (simp add: length_words_of)
  have "take (length c) (take (length (dat @ tl2)) (word_bytes (words_of (dat @ tl2)))) = take (length c) (dat @ tl2)"
    by (simp only: word_bytes_words_of)
  then have "take (length c) (word_bytes (words_of (dat @ tl2))) = c" using assms by (simp add: min_def)
  moreover have "length c \<le> 2 * length (words_of (dat @ tl2))" using l assms(2) by presburger
  moreover have "(0xda :: WORD) \<notin> set (replicate 4 0)" by simp
  moreover have "length (words_of (replicate 8 0 @ [0, CMD_DATA_MARKER] @ dat @ tl2)) = block_words (length c)"
    unfolding w using l assms(2) by (simp add: block_words_def) presburger
  ultimately show ?thesis unfolding carries_def using w by blast
qed

text \<open>What the waits of a transfer find.\<close>

definition ready :: "nat list \<Rightarrow> BYTE list \<Rightarrow> conspi \<Rightarrow> bool" where
  "ready ks bs s \<longleftrightarrow> remainingPacketLength s \<in> {0, NO_REMAINING_LENGTH} \<and> sigint s = [] \<and> (\<exists>ms ps us. ms_over s = looks ks @ ms \<and>
     atn_pin s = pins ks @ ps \<and> miso s = bs @ us)"

lemma send_step:
  assumes "ready (k # ks) (bs @ rest) (dt_com d)" and "tx_ok d" and "on_wire (request seq m) bs" and "m \<le> 512" and "0 < m"
    and "m + m mod 2 \<le> length pData" and "m + m mod 2 = min 512 n"
  obtains d' tl2 where "send_blocks pData n d = send_blocks (drop (min 512 n) pData) (n - min 512 n) d'"
    and "ready ks rest (dt_com d')" and "tx_ok d'" and "length tl2 = 2"
    and "mosi (dt_com d') = mosi (dt_com d) @ replicate 8 0 @ [0, CMD_DATA_MARKER] @ take (m + m mod 2) pData @ tl2"
    and "dt_retry d' = dt_retry d"
proof -
  define s where "s = dt_com d"
  define q where "q = m + m mod 2"
  have q: "q \<le> 512" "0 < q" "q = min 512 n" "q \<le> length pData" using assms(4-7) by (simp_all add: q_def)
  have q2: "2 * (m div 2 + m mod 2) = q" by (simp add: q_def)
  obtain r where r: "bs = header 3 6 (block_words m) @ r" "length r = q + 4"
    by (rule request_on_wire [OF assms(3,4)]) (simp only: q2)
  obtain ms ps us where s: "remainingPacketLength s \<in> {0, NO_REMAINING_LENGTH}" "sigint s = []" "ms_over s = replicate (Suc k) False @ looks ks @ ms"
    "atn_pin s = replicate k False @ True # pins ks @ ps" "miso s = header (ucast ATN_READ_MORE_DATA) 6 (block_words m) @ r @ rest @ us"
    using assms(1) r(1) by (auto simp: ready_def s_def looks_def pins_def)
  define s1 where "s1 = s\<lparr>ms_over := looks ks @ ms, atn_pin := pins ks @ ps, mosi := mosi s @ replicate 8 0, miso := r @ rest @ us,
    remainingPacketLength := of_nat (q + 4)\<rparr>"
  have bw: "block_words m \<le> 1024" "max (2 * 6 - 8) (2 * block_words m - 8) = q + 4" using assms(4) q2 by (simp_all add: block_words_def)
  have w: "wait_hans ATN_READ_MORE_DATA d = (d\<lparr>dt_com := s1\<rparr>, True)"
    unfolding wait_hans_def s_def [symmetric]
    using wait_hans_ok [OF s(1,2,5) _ bw(1) _ s(3,4)] unfolding bw(2) by (simp add: s1_def)
  define t where "t = overwrite (txBuffer d) (take 2 (txBuffer d) @ take q pData)"
  have lt: "length (txBuffer d) = 600" "take 2 (txBuffer d) = [0, CMD_DATA_MARKER]" using assms(2) by (simp_all add: tx_ok_def)
  have t: "t = [0, CMD_DATA_MARKER] @ take q pData @ drop (q + 2) (txBuffer d)" "length t = 600"
    using lt q by (simp_all add: t_def overwrite_def)
  define tl2 where "tl2 = take 2 (drop (q + 2) (txBuffer d))"
  have tk: "take (q + 4) t = [0, CMD_DATA_MARKER] @ take q pData @ tl2"
  proof -
    have "q + 4 = Suc (Suc (q + 2))" by simp
    then show ?thesis using q(4) by (simp only: t(1) tl2_def append.simps take_Suc_Cons take_append) simp
  qed
  let ?d = "d\<lparr>dt_com := s1, txBuffer := t\<rparr>"
  have x: "txRx (q + 4) t s1 = (s1\<lparr>mosi := mosi s1 @ take (q + 4) t, miso := rest @ us, remainingPacketLength := 0\<rparr>, r)"
    using txRx_limited [of s1 "q + 4" "q + 4" t] q t(2) r(2) by (simp add: s1_def)
  define d' where "d' = com_txRx (q + 4) t ?d"
  have d': "d' = ?d\<lparr>dt_com := s1\<lparr>mosi := mosi s1 @ take (q + 4) t, miso := rest @ us, remainingPacketLength := 0\<rparr>, rxBuffer := overwrite (rxBuffer d) r\<rparr>"
    by (simp add: d'_def com_txRx_def x)
  have n: "n \<noteq> 0" "(if n > 512 then 512 else n) = q" using q(2,3) by auto
  show ?thesis
  proof (rule that)
    show "send_blocks pData n d = send_blocks (drop (min 512 n) pData) (n - min 512 n) d'"
      unfolding send_blocks.simps [of pData n d] w using n by (simp add: Let_def t_def [symmetric] d'_def q(3) [symmetric])
    show "ready ks rest (dt_com d')" using s(2) by (auto simp: ready_def d' s1_def)
    show "tx_ok d'" using t by (simp add: tx_ok_def d')
    show "length tl2 = 2" using lt q by (simp add: tl2_def)
    show "mosi (dt_com d') = mosi (dt_com d) @ replicate 8 0 @ [0, CMD_DATA_MARKER] @ take (m + m mod 2) pData @ tl2"
      unfolding d' using tk by (simp add: s1_def s_def q_def)
    show "dt_retry d' = dt_retry d" by (simp add: d')
  qed
qed

text \<open>All blocks.\<close>

lemma send_blocks_ok:
  assumes "ready ks (concat ws) (dt_com d)" and "length ks = length ws" and "tx_ok d"
    and "list_all2 on_wire (requests seq (chunks xs)) ws"
    and "length xs + length xs mod 2 \<le> length pData" and "take (length xs) pData = xs"
  shows "\<exists>d' blks. send_blocks pData (length xs + length xs mod 2) d = (d', True) \<and> mosi (dt_com d') = mosi (dt_com d) @ concat blks \<and>
    list_all2 carries (map words_of blks) (chunks xs) \<and> map length blks = map (\<lambda>c. 2 * block_words (length c)) (chunks xs) \<and>
    dt_retry d' = dt_retry d"
  using assms
proof (induction xs arbitrary: ks ws d seq pData rule: chunks.induct)
  case (1 xs)
  show ?case
  proof (cases "xs = []")
    case True
    then show ?thesis by (subst send_blocks.simps) simp
  next
    case False
    define n where "n = length xs + length xs mod 2"
    define c where "c = take 512 xs"
    obtain w ws' where w: "ws = w # ws'" "on_wire (request seq (length c)) w" "list_all2 on_wire (requests (seq + 1) (chunks (drop 512 xs))) ws'"
      using 1(5) False by (cases ws) (auto simp: c_def)
    obtain k ks' where k: "ks = k # ks'" using 1(3) w(1) by (cases ks) auto
    have m: "length c \<le> 512" "0 < length c" "length c + length c mod 2 \<le> length pData" "length c + length c mod 2 = min 512 n"
      using False 1(6) by (simp_all add: c_def n_def) presburger+
    have r: "ready (k # ks') (w @ concat ws') (dt_com d)" using 1(2) k w(1) by simp
    obtain d1 tl2 where d1: "send_blocks pData n d = send_blocks (drop (min 512 n) pData) (n - min 512 n) d1"
      "ready ks' (concat ws') (dt_com d1)" "tx_ok d1" "length tl2 = 2"
      "mosi (dt_com d1) = mosi (dt_com d) @ replicate 8 0 @ [0, CMD_DATA_MARKER] @ take (length c + length c mod 2) pData @ tl2"
      "dt_retry d1 = dt_retry d"
      by (rule send_step [OF r 1(4) w(2) m]) (rule that)
    define blk where "blk = replicate 8 0 @ [0, CMD_DATA_MARKER] @ take (length c + length c mod 2) pData @ tl2"
    have tc: "take (length c) (take (length c + length c mod 2) pData) = c"
    proof -
      have "take (length c) pData = take (length c) (take (length xs) pData)" by (simp add: c_def min_def)
      then show ?thesis unfolding 1(7) by (simp add: c_def min_def)
    qed
    have b: "carries (words_of blk) c" unfolding blk_def by (rule block_carries [OF _ refl tc d1(4)]) (use m(3) in simp)
    have lb: "length blk = 2 * block_words (length c)"
    proof -
      have "length (take (length c + length c mod 2) pData) = length c + length c mod 2" using m(3) by (simp only: length_take min.absorb2)
      then have "length blk = 12 + (length c + length c mod 2)" using d1(4) by (simp add: blk_def del: length_take)
      also have "\<dots> = 2 * block_words (length c)" unfolding block_words_def by presburger
      finally show ?thesis .
    qed
    have nx: "n - min 512 n = length (drop 512 xs) + length (drop 512 xs) mod 2"
    proof (cases "length xs \<le> 512")
      case True
      have "j + j mod 2 \<le> 512" if "j \<le> 512" for j :: nat using that by presburger
      then have "n \<le> 512" using True unfolding n_def by blast
      then show ?thesis using True by simp
    next
      case False
      then obtain j where "length xs = 512 + j" by (metis le_iff_add nat_le_linear)
      moreover have "(512 + j) mod 2 = j mod 2" by presburger
      ultimately show ?thesis by (simp add: n_def)
    qed
    show ?thesis
    proof (cases "drop 512 xs = []")
      case True
      then have "chunks xs = [c]" using False by (simp add: c_def)
      moreover have "n - min 512 n = 0" unfolding nx True by simp
      then have "send_blocks pData n d = (d1, True)" unfolding d1(1) by (subst send_blocks.simps) simp
      ultimately show ?thesis unfolding n_def [symmetric] using d1(5,6) b lb blk_def
        by (intro exI [of _ d1] exI [of _ "[blk]"]) simp
    next
      case F: False
      have m512: "min 512 n = 512" using F by (simp add: n_def)
      have p: "length (drop 512 xs) + length (drop 512 xs) mod 2 \<le> length (drop 512 pData)"
      proof -
        have "n - min 512 n \<le> length (drop 512 pData)" using 1(6) by (simp add: n_def [symmetric] m512)
        then show ?thesis unfolding nx .
      qed
      have tp: "take (length (drop 512 xs)) (drop 512 pData) = drop 512 xs"
        using arg_cong [OF 1(7), of "drop 512"] by (simp add: drop_take)
      have lk: "length ks' = length ws'" using 1(3) k w(1) by simp
      obtain d' blks where d': "send_blocks (drop 512 pData) (length (drop 512 xs) + length (drop 512 xs) mod 2) d1 = (d', True)"
        "mosi (dt_com d') = mosi (dt_com d1) @ concat blks" "list_all2 carries (map words_of blks) (chunks (drop 512 xs))"
        "map length blks = map (\<lambda>c. 2 * block_words (length c)) (chunks (drop 512 xs))" "dt_retry d' = dt_retry d1"
        using 1(1) [OF False d1(2) lk d1(3) w(3) p tp] by blast
      have "chunks xs = c # chunks (drop 512 xs)" using False by (simp add: c_def)
      moreover have "send_blocks pData n d = (d', True)" unfolding d1(1) nx unfolding m512 by (rule d'(1))
      ultimately show ?thesis unfolding n_def [symmetric] using d'(2-5) d1(5,6) b lb
        by (intro exI [of _ d'] exI [of _ "blk # blks"]) (simp add: blk_def)
    qed
  qed
qed

section \<open>A whole answer\<close>

text \<open>Data of \<open>xs\<close> in a read, with a status, while the last ten bytes of the command's packet are left.\<close>

definition answering :: "datatrans \<Rightarrow> BYTE list \<Rightarrow> BYTE \<Rightarrow> bool" where
  "answering d xs st \<longleftrightarrow> dt_dataDirection d = DATA_DIRECTION_READ \<and> xs \<noteq> [] \<and> length xs < 16777216 \<and>
     dt_count d = of_nat (length xs) \<and> take (length xs) (dt_buffer d) = xs \<and> length xs + length xs mod 2 \<le> length (dt_buffer d) \<and>
     dt_status d = st \<and> length (txBuffer d) = 600 \<and> remainingPacketLength (dt_com d) = 10 \<and> sigint (dt_com d) = []"

text \<open>What Hans shifts out while the answer is sent: the rest of the command's packet and its requests.\<close>

definition asked :: "BYTE list \<Rightarrow> nat list \<Rightarrow> conspi \<Rightarrow> bool" where
  "asked xs ks s \<longleftrightarrow> (\<exists>com ws us ms ps. miso s = com @ concat ws @ us \<and> length com = 10 \<and> list_all2 on_wire (requests 0 (chunks xs)) ws \<and>
     length ks = length ws \<and> ms_over s = looks ks @ ms \<and> atn_pin s = pins ks @ ps)"

lemma even_count:
  assumes "n < 16777216"
  shows "unat (if (of_nat n :: DWORD) AND 1 \<noteq> 0 then of_nat n + 1 else of_nat n :: DWORD) = n + n mod 2"
proof -
  have u: "unat (of_nat n :: DWORD) = n" using assms by (simp add: unat_of_nat)
  have a: "unat ((of_nat n :: DWORD) AND 1) = n mod 2" using unat_and_mask [of "of_nat n :: DWORD" 1] u by simp
  show ?thesis
  proof (cases "n mod 2 = 0")
    case True
    then have "(of_nat n :: DWORD) AND 1 = 0" using a by (simp add: unat_eq_zero)
    then show ?thesis using u True by simp
  next
    case False
    then have "(of_nat n :: DWORD) AND 1 \<noteq> 0" using a by (auto simp: unat_eq_zero)
    moreover have "unat (of_nat n + 1 :: DWORD) = n + 1" using assms by (simp add: unat_word_ariths u)
    moreover have "n mod 2 = 1" using False by presburger
    ultimately show ?thesis by simp
  qed
qed

lemma answer_sent:
  assumes "answering d xs st" and "asked xs ks (dt_com d)"
  shows "\<exists>blks. mosi (dt_com (sendDataAndStatus False d)) =
      mosi (dt_com d) @ devCommand CMD_DATA_READ_WITH_STATUS (of_nat (length xs)) st @ concat blks \<and>
    list_all2 carries (map words_of blks) (chunks xs) \<and> map length blks = map (\<lambda>c. 2 * block_words (length c)) (chunks xs)"
proof -
  define s where "s = dt_com d"
  define n where "n = (of_nat (length xs) :: DWORD)"
  note a = assms(1) [unfolded answering_def s_def [symmetric] n_def [symmetric]]
  obtain com ws us ms ps where q: "miso s = com @ concat ws @ us" "length com = 10" "list_all2 on_wire (requests 0 (chunks xs)) ws"
    "length ks = length ws" "ms_over s = looks ks @ ms" "atn_pin s = pins ks @ ps"
    using assms(2) by (auto simp: asked_def s_def)
  let ?cmd = "devCommand CMD_DATA_READ_WITH_STATUS n st"
  define s1 where "s1 = s\<lparr>mosi := mosi s @ ?cmd, miso := concat ws @ us, remainingPacketLength := 0\<rparr>"
  have x: "txRx COMMAND_SIZE ?cmd s = (s1, com)"
    using txRx_limited [of s 10 COMMAND_SIZE ?cmd] a q(1,2) by (simp add: s1_def devCommand_def)
  have u: "unat n = length xs" using a by (simp add: n_def unat_of_nat)
  have small: "\<not> n > 0xffffff" using a u by (simp add: word_less_nat_alt)
  have nz: "n \<noteq> 0" using u a by auto
  define d1 where "d1 = d\<lparr>dt_retry := copyDataAndStatus DATA_DIRECTION_READ n (dt_buffer d) (dt_statusWasSet d) st (dt_retry d)\<rparr>"
  define d2 where "d2 = d1\<lparr>dumpNextData := False, dt_com := s1\<rparr>"
  define d3 where "d3 = d2\<lparr>txBuffer := (txBuffer d2)[0 := 0, 1 := CMD_DATA_MARKER]\<rparr>"
  have st: "sendData_start n st True (d1\<lparr>dumpNextData := False\<rparr>) = (d2, True)"
    using small x by (simp add: sendData_start_def d2_def d1_def s_def [symmetric])
  have c: "unat (if n AND 1 \<noteq> 0 then n + 1 else n) = length xs + length xs mod 2" using even_count [of "length xs"] a unfolding n_def by blast
  have tb: "sendData_transferBlock (dt_buffer d) n d2 = send_blocks (dt_buffer d) (length xs + length xs mod 2) d3"
    unfolding sendData_transferBlock_def Let_def c d3_def ..
  have "dt_buffer d2 = dt_buffer d" "dt_count d2 = n" using a by (simp_all add: d2_def d1_def)
  then have "sendDataAndStatus False d = fst (sendData_transferBlock (dt_buffer d) n d2)"
    using a nz st by (simp add: sendDataAndStatus_def Let_def d1_def)
  then have e: "sendDataAndStatus False d = fst (send_blocks (dt_buffer d) (length xs + length xs mod 2) d3)" unfolding tb .
  have "take 2 (txBuffer d3) = [0, CMD_DATA_MARKER]" "length (txBuffer d3) = 600"
    using a by (simp_all add: d3_def d2_def d1_def take_update_swap) (cases "txBuffer d", simp, cases "tl (txBuffer d)", simp_all add: numeral_2_eq_2)
  then have t: "tx_ok d3" by (simp add: tx_ok_def)
  have "ready ks (concat ws) (dt_com d3)" using q a by (auto simp: ready_def d3_def d2_def s1_def)
  moreover have "length xs + length xs mod 2 \<le> length (dt_buffer d)" "take (length xs) (dt_buffer d) = xs" using a by blast+
  ultimately obtain d' blks where
    r: "send_blocks (dt_buffer d) (length xs + length xs mod 2) d3 = (d', True)" "mosi (dt_com d') = mosi (dt_com d3) @ concat blks"
      "list_all2 carries (map words_of blks) (chunks xs)" "map length blks = map (\<lambda>c. 2 * block_words (length c)) (chunks xs)"
    using send_blocks_ok [OF _ q(4) t q(3)] by blast
  then show ?thesis unfolding e n_def [symmetric] by (intro exI [of _ blks]) (simp add: d3_def d2_def s1_def s_def)
qed

section \<open>Hans\<close>

lemma skip_words:
  assumes "\<And>j. i \<le> j \<Longrightarrow> j < i + n \<Longrightarrow> cmdBuffer h ! j = 0" and "i + n \<le> 16"
  shows "processHostCommands_from i h = processHostCommands_from (i + n) h"
  using assms
proof (induction n)
  case (Suc n)
  have "processHostCommands_from i h = processHostCommands_from (i + n) h" by (rule Suc.IH) (use Suc.prems in simp_all)
  moreover have "cmdBuffer h ! (i + n) = 0" "\<not> 16 \<le> i + n" using Suc.prems by simp_all
  then have "processHostCommands_from (i + n) h = processHostCommands_from (i + Suc n) h"
    by (subst processHostCommands_from.simps) simp
  ultimately show ?case by simp
qed simp

text \<open>The packet in which the host starts the data phase.\<close>

definition start_packet :: "BYTE \<Rightarrow> nat \<Rightarrow> BYTE \<Rightarrow> BYTE list" where
  "start_packet c n st = replicate 22 0 @ devCommand c (of_nat n) st"

definition start_state :: "BYTE \<Rightarrow> hstate" where
  "start_state c = (if c = CMD_DATA_WRITE then STATE_DATA_WRITE else STATE_DATA_READ_WITH_STATUS)"

lemma start_words:
  "words_of (start_packet c n st) = replicate 11 0 @ [0, ucast c, be16 (ucast (drop_bit 16 (of_nat n :: DWORD))) (ucast (drop_bit 8 (of_nat n :: DWORD))),
     be16 (ucast (of_nat n AND 0xff :: DWORD)) st, 0]"
proof -
  have "replicate 22 0 = [0, 0, 0, 0, 0, 0, 0, 0, 0, 0, 0, 0, 0, 0, 0, 0, 0, 0, 0, 0, 0, 0 :: BYTE]"
    "replicate 11 0 = [0, 0, 0, 0, 0, 0, 0, 0, 0, 0, 0 :: WORD]"
    by (simp_all add: numeral_eq_Suc)
  then show ?thesis by (simp add: start_packet_def devCommand_def be16_def)
qed

lemma count_bytes:
  assumes "w \<le> (0xffffff :: DWORD)"
  shows "push_bit 8 (ucast (be16 (ucast (drop_bit 16 w)) (ucast (drop_bit 8 w)))) OR ucast (drop_bit 8 (be16 (ucast (w AND 0xff)) st)) = w"
proof -
  have w: "unat w < 2 ^ 24" using assms by (simp add: word_le_nat_alt)
  have high: "\<not> bit w i" if "24 \<le> i" for i
  proof -
    have "(2 :: nat) ^ 24 \<le> 2 ^ i" using that by (rule power_increasing) simp
    then have "unat w < 2 ^ i" using w by linarith
    then have "\<not> bit (unat w) i" by (simp add: bit_iff_odd)
    then show ?thesis by (simp add: bit_unsigned_iff)
  qed
  have "w AND 0xff = take_bit 8 w" by (simp add: take_bit_eq_mask mask_eq_exp_minus_1)
  then have lo: "ucast (w AND 0xff) = (ucast w :: BYTE)" by (simp only:) (rule bit_word_eqI, auto simp: bit_simps)
  show ?thesis
    unfolding lo
  proof (rule bit_word_eqI)
    fix n
    assume "n < LENGTH(32)"
    consider "n < 8" | "8 \<le> n" "n < 16" | "16 \<le> n" "n < 24" | "24 \<le> n" by linarith
    then show "bit (push_bit 8 (ucast (be16 (ucast (drop_bit 16 w)) (ucast (drop_bit 8 w)))) OR ucast (drop_bit 8 (be16 (ucast w) st)) :: DWORD) n = bit w n"
      by cases (use \<open>n < LENGTH(32)\<close> high [of n] in \<open>auto simp: be16_def bit_simps dest: bit_imp_le_length\<close>)
  qed
qed

text \<open>Hans after he has passed a command on: he waits for the host's answer in \<open>cmdBuffer\<close>.\<close>

definition awaiting :: "hans \<Rightarrow> bool" where
  "awaiting h \<longleftrightarrow> hstate h = STATE_WAIT_COMMAND_RESPONSE \<and> \<not> spiIdle h \<and> spi_rx h = (RxCmd, 16) \<and> shouldProcessCommands h \<and>
     length (cmdBuffer h) = 16 \<and> length (rdBufs h) = 2 \<and> (\<forall>r \<in> set (rdBufs h). length (rb_buffer r) = 275) \<and> more_ok h \<and>
     (\<exists>ts. tim h = False # ts) \<and> brStat h = BR_OK"

lemma start_processed:
  assumes "length (cmdBuffer h) = 16" and "cmdBuffer h = words_of (start_packet c n st)" and "n < 16777216"
    and "c \<in> {CMD_DATA_WRITE, CMD_DATA_READ_WITH_STATUS}"
  shows "\<exists>cb. processHostCommands h = Some (h\<lparr>dataCnt := of_nat n, statusByte := st, hstate := start_state c, cmdBuffer := cb\<rparr>) \<and> length cb = 16"
proof -
  define w where "w = (of_nat n :: DWORD)"
  note b = assms(2) [unfolded start_words w_def [symmetric]]
  have u: "unat w = n" using assms(3) by (simp add: w_def unat_of_nat)
  then have "w \<le> 0xffffff" using assms(3) by (simp add: word_le_nat_alt)
  note cb = count_bytes [OF this, of st]
  have i: "cmdBuffer h ! 12 = ucast c" "cmdBuffer h ! 13 = be16 (ucast (drop_bit 16 w)) (ucast (drop_bit 8 w))"
    "cmdBuffer h ! 14 = be16 (ucast (w AND 0xff)) st" "cmdBuffer h ! 15 = 0"
    by (simp_all add: b nth_append)
  have "cmdBuffer h ! j = 0" if "j < 12" for j
    using that by (cases "j = 11") (simp_all add: b nth_append)
  then have "processHostCommands h = processHostCommands_from 12 h"
    unfolding processHostCommands_def using skip_words [of 0 12 h] by simp
  also have "\<dots> = processHostCommands_from 15
      (clear_words [12, 13, 14] (h\<lparr>dataCnt := data_count 12 h, statusByte := ucast (cmdBuffer h ! 14), hstate := start_state c\<rparr>))"
    using assms(4) by (subst processHostCommands_from.simps) (auto simp add: i(1) start_state_def)
  also have "\<dots> = Some (clear_words [12, 13, 14] (h\<lparr>dataCnt := data_count 12 h, statusByte := ucast (cmdBuffer h ! 14), hstate := start_state c\<rparr>))"
    (is "processHostCommands_from 15 ?g = _")
  proof -
    have "cmdBuffer ?g ! 15 = 0" using i(4) assms(1) by (simp add: clear_words_def)
    then show ?thesis by (subst processHostCommands_from.simps) (subst processHostCommands_from.simps, simp)
  qed
  also have "data_count 12 h = w" using cb by (simp add: data_count_def i)
  also have "ucast (cmdBuffer h ! 14) = st" unfolding i(3) by (rule bit_word_eqI) (auto simp: be16_def bit_simps dest: bit_imp_le_length)
  finally show ?thesis using assms(1)
    by (intro exI [of _ "(cmdBuffer h)[12 := 0, 13 := 0, 14 := 0]"]) (simp add: clear_words_def w_def)
qed

text \<open>The answer has arrived and its data phase begins.\<close>

lemma start_pass:
  assumes "awaiting h" and "host_in h = Done (words_of (start_packet c n st)) # es" and "n < 16777216"
    and "c \<in> {CMD_DATA_WRITE, CMD_DATA_READ_WITH_STATUS}"
  shows "\<exists>g. acsi_pass h = Some (g, False) \<and> hstate g = start_state c \<and> spiIdle g \<and> length (rdBufs g) = 2 \<and>
    (\<forall>r \<in> set (rdBufs g). length (rb_buffer r) = 275) \<and> more_ok g \<and> dataCnt g = of_nat n \<and> statusByte g = st \<and> host_in g = es \<and>
    brStat g = BR_OK \<and> strobes g = strobes h \<and> bus_out g = bus_out h \<and> host_out g = host_out h \<and> isAcsiNotScsi g = isAcsiNotScsi h \<and>
    wrBufs g = wrBufs h \<and> atnStatus g = atnStatus h \<and> spi1_ok g = spi1_ok h \<and> length (cmdBuffer g) = 16"
proof -
  let ?ws = "words_of (start_packet c n st)"
  obtain ts where a: "hstate h = STATE_WAIT_COMMAND_RESPONSE" "\<not> spiIdle h" "spi_rx h = (RxCmd, 16)" "shouldProcessCommands h"
     "length (cmdBuffer h) = 16" "length (rdBufs h) = 2" "\<forall>r \<in> set (rdBufs h). length (rb_buffer r) = 275" "more_ok h"
     "tim h = False # ts" "brStat h = BR_OK"
    using assms(1) by (auto simp: awaiting_def)
  have lw: "length ?ws = 16" by (simp add: start_words)
  define g0 where "g0 = spi_complete ?ws (h\<lparr>host_in := es\<rparr>)"
  have idle: "spi_idle h = (g0, True)" unfolding g0_def by (rule spi_idle_done [OF a(2) assms(2)])
  have g0: "spiIdle g0" "cmdBuffer g0 = ?ws" "rdBufs g0 = rdBufs h" "more_ok g0 = more_ok h" "host_in g0 = es" "brStat g0 = brStat h"
    "strobes g0 = strobes h" "bus_out g0 = bus_out h" "host_out g0 = host_out h" "isAcsiNotScsi g0 = isAcsiNotScsi h" "tim g0 = tim h"
    "shouldProcessCommands g0 = shouldProcessCommands h" "wrBufs g0 = wrBufs h" "atnStatus g0 = atnStatus h" "spi1_ok g0 = spi1_ok h"
    using a(3,5) lw
    by (simp_all add: g0_def spi_complete_def rx_store_def hans_DMA1_Channel2_IRQHandler_def hans_DMA1_Channel3_IRQHandler_def Let_def
        overwrite_def more_ok_def)
  have "length (cmdBuffer g0) = 16" using lw g0(2) by simp
  from start_processed [OF this g0(2) assms(3,4)] obtain cb where
    p: "processHostCommands g0 = Some (g0\<lparr>dataCnt := of_nat n, statusByte := st, hstate := start_state c, cmdBuffer := cb\<rparr>)" "length cb = 16" by blast
  let ?g = "g0\<lparr>dataCnt := of_nat n, statusByte := st, hstate := start_state c, cmdBuffer := cb, shouldProcessCommands := False, tim := ts\<rparr>"
  have "pass_end h = Some (?g, False)"
    using a(4,9) g0 by (simp add: pass_end_def idle p(1) h_timeout_def start_state_def)
  then have "acsi_pass h = Some (?g, False)" using a(1) by (simp add: acsi_pass_end)
  then show ?thesis using a g0 p(2) by (intro exI [of _ ?g]) (simp add: more_ok_def)
qed

text \<open>The packets of a stream of bytes.\<close>

fun cut :: "nat list \<Rightarrow> 'a list \<Rightarrow> 'a list list" where
  "cut [] xs = []"
| "cut (n # ns) xs = take n xs # cut ns (drop n xs)"

lemma cut_concat: "map length bs = ns \<Longrightarrow> cut ns (concat bs) = bs"
  by (induction bs arbitrary: ns) auto

definition sent :: "datatrans \<Rightarrow> BYTE list" where
  "sent d = drop (length (mosi (dt_com d))) (mosi (dt_com (sendDataAndStatus False d)))"

text \<open>What arrives at Hans: after the 22 zeros of the header and the command the bytes of the host, as 16-bit words.\<close>

definition packets :: "BYTE list \<Rightarrow> datatrans \<Rightarrow> WORD list list" where
  "packets xs d = map words_of (cut (32 # map (\<lambda>m. 2 * unat (snd m)) (requests 0 (chunks xs))) (replicate 22 0 @ sent d))"

lemma requests_sizes: "(\<And>c. c \<in> set cs \<Longrightarrow> length c \<le> 512) \<Longrightarrow>
    map (\<lambda>m. 2 * unat (snd m)) (requests seq cs) = map (\<lambda>c. 2 * block_words (length c)) cs"
proof (induction cs arbitrary: seq)
  case (Cons c cs)
  have "block_words (length c) < 65536" using Cons.prems [of c] by (simp add: block_words_def)
  then show ?case using Cons by (simp add: request_def unat_of_nat)
qed simp

lemma chunk_sizes: "c \<in> set (chunks xs) \<Longrightarrow> length c \<le> 512"
proof (induction xs rule: chunks.induct)
  case (1 xs)
  then show ?case by (cases "xs = []") auto
qed

text \<open>
  C9: the host and Hans together deliver an answer. The host answers a command with the data \<open>xs\<close> and a
  status, while Hans waits for the answer, and each side receives what the other one sends: Hans gets the
  packets of 16-bit words that the bytes of the host make up, the host gets the messages by which Hans asks for
  the blocks. If the host sees the attention signals in time and the Atari takes every byte, then the Atari gets
  exactly \<open>xs\<close> and the status, Hans has sent exactly the messages that the host has answered, and waits for
  the next command.
\<close>

theorem host_answer_reaches_atari:
  assumes "answering d xs st" and "asked xs ks (dt_com d)"
    and "awaiting h" and "host_in h = map Done (packets xs d) @ es" and "answers (length xs + status_acks (isAcsiNotScsi h)) h"
  shows "\<exists>h'. acsi_loop h = Some (Some h') \<and> bus_out h' = bus_out h @ map Data xs @ status_evs (isAcsiNotScsi h) st \<and>
    host_out h' = host_out h @ requests 0 (chunks xs) \<and> host_in h' = es \<and> hstate h' = STATE_GET_COMMAND"
proof -
  obtain blks where blks: "mosi (dt_com (sendDataAndStatus False d)) =
      mosi (dt_com d) @ devCommand CMD_DATA_READ_WITH_STATUS (of_nat (length xs)) st @ concat blks"
    "list_all2 carries (map words_of blks) (chunks xs)" "map length blks = map (\<lambda>c. 2 * block_words (length c)) (chunks xs)"
    using answer_sent [OF assms(1,2)] by blast
  have xs: "length xs < 16777216" "xs \<noteq> []" using assms(1) by (simp_all add: answering_def)
  have l: "length (start_packet CMD_DATA_READ_WITH_STATUS (length xs) st) = 32" by (simp add: start_packet_def devCommand_def)
  have "replicate 22 0 @ sent d = concat (start_packet CMD_DATA_READ_WITH_STATUS (length xs) st # blks)"
    by (simp add: sent_def blks(1) start_packet_def)
  moreover have "map length (start_packet CMD_DATA_READ_WITH_STATUS (length xs) st # blks) = 32 # map (\<lambda>m. 2 * unat (snd m)) (requests 0 (chunks xs))"
    using blks(3) l requests_sizes [of "chunks xs" 0, OF chunk_sizes] by simp
  ultimately have "packets xs d = map words_of (start_packet CMD_DATA_READ_WITH_STATUS (length xs) st # blks)"
    unfolding packets_def by (simp only: cut_concat)
  then have hi: "host_in h = Done (words_of (start_packet CMD_DATA_READ_WITH_STATUS (length xs) st)) # (map Done (map words_of blks) @ es)" using assms(4) by simp
  obtain g where g: "acsi_pass h = Some (g, False)" "hstate g = STATE_DATA_READ_WITH_STATUS" "spiIdle g" "length (rdBufs g) = 2"
    "\<forall>r \<in> set (rdBufs g). length (rb_buffer r) = 275" "more_ok g" "dataCnt g = of_nat (length xs)" "statusByte g = st"
    "host_in g = map Done (map words_of blks) @ es" "brStat g = BR_OK" "strobes g = strobes h" "bus_out g = bus_out h" "host_out g = host_out h"
    "isAcsiNotScsi g = isAcsiNotScsi h"
    using start_pass [OF assms(3) hi xs(1)] by (auto simp: start_state_def)
  let ?l = "longTimeout_basedOnSectorCount (ucast (drop_bit 9 (dataCnt g))) g"
  have t: "hstate ?l = hstate g" "spiIdle ?l = spiIdle g" "rdBufs ?l = rdBufs g" "dataCnt ?l = dataCnt g" "host_in ?l = host_in g"
    "strobes ?l = strobes g" "bus_out ?l = bus_out g" "host_out ?l = host_out g" "isAcsiNotScsi ?l = isAcsiNotScsi g"
    "statusByte ?l = statusByte g" "brStat ?l = brStat g" "more_ok ?l = more_ok g"
    by (simp_all add: longTimeout_basedOnSectorCount_def timerSetup_cmdTimeoutChangeLength_def Let_def more_ok_def)
  have an: "answers (length xs + status_acks (isAcsiNotScsi ?l)) ?l" using assms(5) t g by (simp add: answers_def)
  from read_delivered [of ?l xs "map words_of blks" es, unfolded t(1-8,10-12), OF g(3-5,7) xs g(9) blks(2) an g(10)] obtain h' where
    r: "onDataRead True ?l = Some h'" "bus_out h' = bus_out g @ map Data xs @ status_evs (isAcsiNotScsi ?l) (statusByte g)"
      "host_in h' = es" "hstate h' = STATE_GET_COMMAND" "asks (?l\<lparr>seqNo := 0\<rparr>) h' (chunks xs)" by blast
  have ho: "host_out h' = host_out g @ requests 0 (chunks xs)" using r(5) g(6) t(8,12) by (simp add: asks_def more_ok_def)
  have p: "acsi_pass g = Some (timerSetup_cmdTimeoutChangeLength CMD_TIMEOUT_SHORT h', True)"
    using g(2) r(1) by (simp add: acsi_pass_def long_phase_def)
  have "acsi_loop h = acsi_loop g" by (subst acsi_loop.simps) (simp add: g(1))
  also have "\<dots> = Some (Some (timerSetup_cmdTimeoutChangeLength CMD_TIMEOUT_SHORT h'))" by (subst acsi_loop.simps) (simp add: p)
  finally show ?thesis
    using r ho g t by (simp add: timerSetup_cmdTimeoutChangeLength_def)
qed

section \<open>An instance\<close>

definition com_example :: conspi where
  "com_example = \<lparr>remainingPacketLength = 10, atn_pin = [True], ms_over = [False], sigint = [],
     miso = replicate 10 0 @ word_bytes [0xcafe, 3, 6, 8, 0, 0] @ replicate 4 0, mosi = [], overrun = False\<rparr>"

definition retry_zero :: RetryModule where
  "retry_zero = \<lparr>rt_fullCmd = replicate 14 0, rt_isIcd = False, rt_justCmd = 0, rt_tag1 = 0, rt_tag2 = 0, rt_module = 0,
     rt_dataDirection = DATA_DIRECTION_UNKNOWN, rt_count = 0, rt_buffer = [], rt_statusWasSet = False, rt_status = 0\<rparr>"

definition trans_example :: datatrans where
  "trans_example = \<lparr>dt_com = com_example, dt_retry = retry_zero, dt_buffer = [1, 2, 3, 0], dt_count = 3, dt_status = 2, dt_statusWasSet = True,
     dt_dataDirection = DATA_DIRECTION_READ, txBuffer = replicate 600 0, rxBuffer = replicate 600 0, dumpNextData = False\<rparr>"

definition hans_example :: hans where
  "hans_example = (host_example (replicate 4 (Some 0)) (map Done (packets [1, 2, 3] trans_example)) 0)\<lparr>hstate := STATE_WAIT_COMMAND_RESPONSE,
     spiIdle := False, spi_rx := (RxCmd, 16), shouldProcessCommands := True, tim := [False]\<rparr>"

lemma host_answer_reaches_atari_witness:
  "\<exists>h'. acsi_loop hans_example = Some (Some h') \<and> bus_out h' = [Data 1, Data 2, Data 3, Status 2, BusReset] \<and>
     host_out h' = [([0xcafe, 3, 6, 8, 0, 0], 8)]"
proof -
  have a: "answering trans_example [1, 2, 3] 2" by (simp add: answering_def trans_example_def com_example_def)
  have r: "requests 0 (chunks [1, 2, 3]) = [([0xcafe, 3, 6, 8, 0, 0], 8)]" by (simp add: request_def block_words_def)
  have "on_wire ([0xcafe, 3, 6, 8, 0, 0], 8) (word_bytes [0xcafe, 3, 6, 8, 0, 0] @ replicate 4 0)" by (simp add: on_wire_def be16_bytes_def)
  then have "asked [1, 2, 3] [0] (dt_com trans_example)"
    unfolding asked_def r
    by (intro exI [of _ "replicate 10 0"] exI [of _ "[word_bytes [0xcafe, 3, 6, 8, 0, 0] @ replicate 4 0]"] exI [of _ "[]"])
      (simp add: trans_example_def com_example_def looks_def pins_def)
  note t = host_answer_reaches_atari [OF a this, of hans_example "[]"]
  have "take 2 ((replicate 6 0)[0 := ATN_SYNC_WORD, 1 := 3, 5 := 0]) = [ATN_SYNC_WORD, 3]" by (simp add: numeral_eq_Suc)
  then have "awaiting hans_example" "answers (Suc (Suc (Suc (Suc 0)))) hans_example" "isAcsiNotScsi hans_example" "bus_out hans_example = []" "host_out hans_example = []"
    "host_in hans_example = map Done (packets [1, 2, 3] trans_example)"
    by (simp_all add: awaiting_def hans_example_def host_example_def hans_setupAtnBuffers_def hans_zero_def more_ok_def answers_def)
  with t show ?thesis unfolding r by (auto simp: status_evs_def status_acks_def)
qed

end
