(* ===== verification/HostCore.thy ===== *)
theory HostCore
  imports HostTrans
begin

text \<open>
  The host's handling of one command of the Atari (\<open>CCoreThread::handleAcsiCommand\<close> in
  src/ce_main_app/ccorethread.cpp) with the retries, and the drive functions of the translated disk as an
  example of a module behind it. The other modules and the SCSI devices are parameters: functions on the state of
  the modules and the data transporter.
\<close>

section \<open>Dispatch\<close>

type_synonym 's handler = "BYTE list \<Rightarrow> 's \<times> datatrans \<Rightarrow> 's \<times> datatrans"

record 's core =
  core_dt :: datatrans
  core_mod :: 's
  acsiIDdevType :: "BYTE list"

abbreviation DEVTYPE_OFF :: BYTE where "DEVTYPE_OFF \<equiv> 0"
abbreviation SCSI_ST_CHECK_CONDITION :: BYTE where "SCSI_ST_CHECK_CONDITION \<equiv> 2"

definition run_on :: "('s \<times> datatrans \<Rightarrow> 's \<times> datatrans) \<Rightarrow> 's core \<Rightarrow> 's core" where
  "run_on f c = (case f (core_mod c, core_dt c) of (s, d) \<Rightarrow> c\<lparr>core_mod := s, core_dt := d\<rparr>)"

definition hostmods :: "BYTE set" where
  "hostmods = {1, 3, 4, 5, 6}"

definition dispatch :: "(BYTE \<Rightarrow> 's handler) \<Rightarrow> 's handler \<Rightarrow> BYTE list \<Rightarrow> bool \<Rightarrow> BYTE \<Rightarrow> BYTE \<Rightarrow> BYTE \<Rightarrow> BYTE \<Rightarrow> 's core \<Rightarrow> 's core" where
  "dispatch mods scsi bufIn isIcd justCmd tag1 tag2 modul c =
     (if justCmd = 0 \<and> tag1 = 0x43 \<and> tag2 = 0x45 \<and> modul \<in> hostmods
      then run_on (mods modul (if isIcd then drop 1 bufIn else bufIn)) c
      else run_on (scsi bufIn) c)"

definition with_retry :: "(RetryModule \<Rightarrow> RetryModule) \<Rightarrow> 's core \<Rightarrow> 's core" where
  "with_retry f c = c\<lparr>core_dt := (core_dt c)\<lparr>dt_retry := f (dt_retry (core_dt c))\<rparr>\<rparr>"

definition core_handleAcsiCommand :: "(BYTE \<Rightarrow> 's handler) \<Rightarrow> 's handler \<Rightarrow> 's core \<Rightarrow> 's core" where
  "core_handleAcsiCommand mods scsi c =
     (let (com, rx) = txRx 14 (replicate 14 0) (dt_com (core_dt c));
          bufIn = overwrite (replicate 14 0) rx;
          c = c\<lparr>core_dt := (core_dt c)\<lparr>dt_com := com\<rparr>\<rparr>;
          acsiId = unat (drop_bit 5 (bufIn ! 0))
      in if acsiIDdevType c ! acsiId = DEVTYPE_OFF
         then c\<lparr>core_dt := sendDataAndStatus False (setStatus SCSI_ST_CHECK_CONDITION (core_dt c))\<rparr>
         else let isIcd = (bufIn ! 0 AND 0x1f = 0x1f);
                  pCmd = (if isIcd then drop 1 bufIn else bufIn);
                  justCmd = pCmd ! 0 AND 0x1f; tag1 = pCmd ! 1; tag2 = pCmd ! 2; modul = pCmd ! 3
              in if justCmd = 0 \<and> tag1 = 0x43 \<and> tag2 = 0x45 \<and> modul AND 0x80 \<noteq> 0
                 then let modul = modul AND 0x7f;
                          bufIn = (if isIcd then bufIn[4 := bufIn ! 4 AND 0x7f] else bufIn[3 := bufIn ! 3 AND 0x7f]);
                          r = dt_retry (core_dt c)
                      in if gotThisCmd bufIn isIcd r
                         then if rt_dataDirection r = DATA_DIRECTION_READ
                              then c\<lparr>core_dt := sendDataAndStatus True (core_dt c)\<rparr>
                              else dispatch mods scsi (rt_fullCmd r) (rt_isIcd r) (rt_justCmd r) (rt_tag1 r) (rt_tag2 r) (rt_module r) c
                         else dispatch mods scsi bufIn isIcd justCmd tag1 tag2 modul
                                (with_retry (makeCmdCopy bufIn isIcd justCmd tag1 tag2 modul) c)
                 else dispatch mods scsi bufIn isIcd justCmd tag1 tag2 modul
                        (with_retry (makeCmdCopy bufIn isIcd justCmd tag1 tag2 modul) c))"

section \<open>What sending keeps\<close>

lemma com_txRx_keeps [simp]:
  "dt_retry (com_txRx n tx d) = dt_retry d" "dt_buffer (com_txRx n tx d) = dt_buffer d" "txBuffer (com_txRx n tx d) = txBuffer d"
  by (simp_all add: com_txRx_def split_beta Let_def)

lemma wait_hans_keeps [simp]:
  "dt_retry (fst (wait_hans a d)) = dt_retry d" "dt_buffer (fst (wait_hans a d)) = dt_buffer d" "txBuffer (fst (wait_hans a d)) = txBuffer d"
  by (simp_all add: wait_hans_def split_beta)

lemma clear_keeps [simp]:
  "dt_retry (clear b d) = dt_retry d" "dt_buffer (clear b d) = dt_buffer d" "txBuffer (clear b d) = txBuffer d"
  by (simp_all add: clear_def Let_def)

lemma send_blocks_keeps:
  "dt_retry (fst (send_blocks p n d)) = dt_retry d \<and> dt_buffer (fst (send_blocks p n d)) = dt_buffer d \<and>
   length (txBuffer (fst (send_blocks p n d))) = length (txBuffer d)"
proof (induction n arbitrary: p d rule: less_induct)
  case (less n)
  show ?case
  proof (cases "n = 0")
    case True
    then show ?thesis by (subst (1 2 3) send_blocks.simps) simp
  next
    case False
    have IH: "dt_retry (fst (send_blocks p (n - min 512 n) d)) = dt_retry d \<and> dt_buffer (fst (send_blocks p (n - min 512 n) d)) = dt_buffer d \<and>
      length (txBuffer (fst (send_blocks p (n - min 512 n) d))) = length (txBuffer d)" for p d
      using False by (intro less.IH) (simp_all add: min_def)
    have m: "(if n > 512 then 512 else n) = min 512 n" by simp
    show ?thesis
      by (subst (1 2 3) send_blocks.simps) (simp only: m Let_def, simp add: split_beta IH)
  qed
qed

lemma send_keeps [simp]:
  "dt_retry (fst (sendData_transferBlock p n d)) = dt_retry d" "dt_buffer (fst (sendData_transferBlock p n d)) = dt_buffer d"
  "length (txBuffer (fst (sendData_transferBlock p n d))) = length (txBuffer d)"
  by (simp_all add: sendData_transferBlock_def Let_def send_blocks_keeps)

lemma sendStatus_keeps [simp]:
  "dt_retry (sendStatusToHans st d) = dt_retry d" "dt_buffer (sendStatusToHans st d) = dt_buffer d"
  "length (txBuffer (sendStatusToHans st d)) = length (txBuffer d)"
  by (simp_all add: sendStatusToHans_def split_beta Let_def)

lemma start_keeps [simp]:
  "dt_retry (fst (sendData_start n st b d)) = dt_retry d" "dt_buffer (fst (sendData_start n st b d)) = dt_buffer d"
  "txBuffer (fst (sendData_start n st b d)) = txBuffer d"
  by (simp_all add: sendData_start_def)

text \<open>Sending an answer leaves in the retry module what is sent, a retry leaves it as it is.\<close>

lemma send_retry:
  "dt_retry (sendDataAndStatus False d) = copyDataAndStatus (dt_dataDirection d) (dt_count d) (dt_buffer d) (dt_statusWasSet d) (dt_status d) (dt_retry d)"
  "dt_retry (sendDataAndStatus True d) = dt_retry d"
  by (simp_all add: sendDataAndStatus_def Let_def split_beta restoreDataAndStatus_def)

lemma send_buffer [simp]:
  "dt_buffer (sendDataAndStatus False d) = dt_buffer d" "length (dt_buffer (sendDataAndStatus b d)) = length (dt_buffer d)"
  "length (txBuffer (sendDataAndStatus b d)) = length (txBuffer d)"
  by (simp_all add: sendDataAndStatus_def Let_def split_beta restoreDataAndStatus_def copy_buffer_def)

end
