(* ===== verification/HostRetry.thy ===== *)
theory HostRetry
  imports HostCore GdIf
begin

text \<open>
  The retries of the driver and the retry module of the host together, over a link that loses commands
  and answers: a module whose command sends data runs once.
\<close>

section \<open>The contract of a module\<close>

text \<open>What the host answers is what is left in its retry module.\<close>

definition offered :: "RetryModule \<Rightarrow> data_dir \<times> BYTE list \<times> BYTE" where
  "offered r = (rt_dataDirection r, take (unat (rt_count r)) (rt_buffer r), rt_status r)"

definition cmd_of :: "RetryModule \<Rightarrow> BYTE list \<times> bool \<times> BYTE \<times> BYTE \<times> BYTE \<times> BYTE" where
  "cmd_of r = (rt_fullCmd r, rt_isIcd r, rt_justCmd r, rt_tag1 r, rt_tag2 r, rt_module r)"

definition dt_ok :: "datatrans \<Rightarrow> bool" where
  "dt_ok d \<longleftrightarrow> length (dt_buffer d) = ACSI_BUFFER_SIZE \<and> length (rt_buffer (dt_retry d)) = ACSI_BUFFER_SIZE \<and>
     length (rt_fullCmd (dt_retry d)) = ACSI_CMD_SIZE"

text \<open>
  A module that, for a command to it, computes a new state, data and a status and sends them, and does not touch the
  command in the retry module.
\<close>

locale sending_module =
  fixes m :: "BYTE \<Rightarrow> 's handler" and k :: BYTE and spec :: "BYTE list \<Rightarrow> 's \<Rightarrow> 's \<times> BYTE list \<times> BYTE"
  assumes sends: "\<lbrakk>p ! 1 = 0x43; p ! 2 = 0x45; p ! 3 = k; dt_ok d; spec p s = (t, bs, st); m k p (s, d) = (s', d')\<rbrakk> \<Longrightarrow>
    s' = t \<and> dt_ok d' \<and> cmd_of (dt_retry d') = cmd_of (dt_retry d) \<and> offered (dt_retry d') = (DATA_DIRECTION_READ, bs, st)"

section \<open>The link\<close>

text \<open>
  An attempt of the driver: the command is lost on its way, or it reaches the host, which then sees the link
  as given; then the Atari gets the answer or not.
\<close>

datatype attempt = Lost | Reaches conspi bool

text \<open>\<open>rest\<close> is what follows the command in the 14 bytes Hans passes on.\<close>

definition arrive :: "BYTE list \<Rightarrow> conspi \<Rightarrow> 's core \<Rightarrow> 's core" where
  "arrive cmd com c = c\<lparr>core_dt := (core_dt c)\<lparr>dt_com := com\<lparr>miso := cmd @ miso com, remainingPacketLength := 24\<rparr>\<rparr>\<rparr>"

definition lossy_link :: "(BYTE \<Rightarrow> 's handler) \<Rightarrow> 's handler \<Rightarrow> BYTE list \<Rightarrow> (attempt list \<times> 's core) device" where
  "lossy_link mods scsi rest s rd cmd data n =
     (case s of (as, c) \<Rightarrow>
        case as of
          [] \<Rightarrow> (s, False, 0xff, [])
        | Lost # as \<Rightarrow> ((as, c), False, 0xff, [])
        | Reaches com ok # as \<Rightarrow>
            let c = core_handleAcsiCommand mods scsi (arrive (cmd @ rest) com c)
            in case offered (dt_retry (core_dt c)) of (_, bs, st) \<Rightarrow>
                 if ok then ((as, c), True, st, bs) else ((as, c), False, 0xff, []))"

lemma link_steps:
  "lossy_link mods scsi rest ([], c) rd cmd data n = (([], c), False, 0xff, [])"
  "lossy_link mods scsi rest (Lost # as, c) rd cmd data n = ((as, c), False, 0xff, [])"
  "lossy_link mods scsi rest (Reaches com ok # as, c) rd cmd data n =
     (let c = core_handleAcsiCommand mods scsi (arrive (cmd @ rest) com c)
      in case offered (dt_retry (core_dt c)) of (_, bs, st) \<Rightarrow> if ok then ((as, c), True, st, bs) else ((as, c), False, 0xff, []))"
  by (simp_all add: lossy_link_def)

section \<open>Commands\<close>

definition mod_cmd :: "BYTE \<Rightarrow> BYTE list \<Rightarrow> bool" where
  "mod_cmd k cmd \<longleftrightarrow> k \<in> hostmods \<and>
     (if length cmd = 6 then cmd ! 0 AND 0x1f = 0 \<and> cmd ! 1 = 0x43 \<and> cmd ! 2 = 0x45 \<and> cmd ! 3 = k
      else 11 \<le> length cmd \<and> length cmd \<le> 14 \<and> cmd ! 0 AND 0x1f = 0x1f \<and> cmd ! 1 AND 0x1f = 0 \<and> cmd ! 2 = 0x43 \<and> cmd ! 3 = 0x45 \<and>
        cmd ! 4 = k)"

definition cmd_icd :: "BYTE list \<Rightarrow> bool" where
  "cmd_icd cmd \<longleftrightarrow> length cmd \<noteq> 6"

definition cmd_p :: "BYTE list \<Rightarrow> BYTE list \<Rightarrow> BYTE list" where
  "cmd_p cmd rest = (if cmd_icd cmd then drop 1 (cmd @ rest) else cmd @ rest)"

lemma hostmod_bits: "k \<in> hostmods \<Longrightarrow> k AND 0x80 = 0 \<and> (k OR 0x80) AND 0x80 \<noteq> 0 \<and> (k OR 0x80) AND 0x7f = k"
  by (auto simp: hostmods_def)

text \<open>The fields of a command and of its retry.\<close>

lemma cmd_fields:
  assumes "mod_cmd k cmd" and "length (cmd @ rest) = 14"
  shows "((cmd @ rest) ! 0 AND 0x1f = 0x1f) = cmd_icd cmd" and "(retry_cmd cmd @ rest) ! 0 = (cmd @ rest) ! 0" and "length (retry_cmd cmd @ rest) = 14"
    and "cmd_p cmd rest ! 0 AND 0x1f = 0" and "cmd_p cmd rest ! 1 = 0x43" and "cmd_p cmd rest ! 2 = 0x45" and "cmd_p cmd rest ! 3 \<in> hostmods"
    and "(cmd @ rest) ! 0 = cmd ! 0"
    and "(if cmd_icd cmd then drop 1 (retry_cmd cmd @ rest) else retry_cmd cmd @ rest) = (cmd_p cmd rest)[3 := cmd_p cmd rest ! 3 OR 0x80]"
    and "(if cmd_icd cmd then (retry_cmd cmd @ rest)[4 := (retry_cmd cmd @ rest) ! 4 AND 0x7f]
          else (retry_cmd cmd @ rest)[3 := (retry_cmd cmd @ rest) ! 3 AND 0x7f]) = cmd @ rest"
    and "4 \<le> length (cmd_p cmd rest)" and "cmd_p cmd rest ! 3 = k"
proof -
  have "6 \<le> length cmd" using assms(1) by (auto simp: mod_cmd_def split: if_splits)
  then obtain x0 x1 x2 x3 x4 ys where c: "cmd = x0 # x1 # x2 # x3 # x4 # ys"
    by (auto simp: numeral_eq_Suc Suc_le_length_iff)
  have z: "x AND 0x1f = 0 \<Longrightarrow> x AND 0x1f \<noteq> 0x1f" for x :: BYTE by simp
  have bits: "k \<in> hostmods \<Longrightarrow> (k OR 0x80) AND 0x7f = k" for k using hostmod_bits by blast
  show "((cmd @ rest) ! 0 AND 0x1f = 0x1f) = cmd_icd cmd" "(retry_cmd cmd @ rest) ! 0 = (cmd @ rest) ! 0" "length (retry_cmd cmd @ rest) = 14"
    "cmd_p cmd rest ! 0 AND 0x1f = 0" "cmd_p cmd rest ! 1 = 0x43" "cmd_p cmd rest ! 2 = 0x45" "cmd_p cmd rest ! 3 \<in> hostmods"
    "(cmd @ rest) ! 0 = cmd ! 0"
    "(if cmd_icd cmd then drop 1 (retry_cmd cmd @ rest) else retry_cmd cmd @ rest) = (cmd_p cmd rest)[3 := cmd_p cmd rest ! 3 OR 0x80]"
    "(if cmd_icd cmd then (retry_cmd cmd @ rest)[4 := (retry_cmd cmd @ rest) ! 4 AND 0x7f]
      else (retry_cmd cmd @ rest)[3 := (retry_cmd cmd @ rest) ! 3 AND 0x7f]) = cmd @ rest"
    "4 \<le> length (cmd_p cmd rest)" "cmd_p cmd rest ! 3 = k"
    using assms bits z [of x0] by (auto simp: c mod_cmd_def cmd_icd_def cmd_p_def retry_cmd_def numeral_eq_Suc split: if_splits)
qed

section \<open>One attempt\<close>

lemma arrives:
  assumes "length b = 14"
  shows "\<exists>com'. txRx 14 (replicate 14 0) (com\<lparr>miso := b @ miso com, remainingPacketLength := 24\<rparr>) = (com', b)"
  using assms by (simp add: txRx_def spi_tx_rx_def Let_def)

definition enabled_id :: "BYTE list \<Rightarrow> 's core \<Rightarrow> bool" where
  "enabled_id cmd c \<longleftrightarrow> acsiIDdevType c ! unat (drop_bit 5 (cmd ! 0)) \<noteq> DEVTYPE_OFF"

text \<open>The host keeps the answer to the command.\<close>

definition answered :: "BYTE list \<Rightarrow> BYTE list \<Rightarrow> BYTE \<Rightarrow> 's core \<Rightarrow> bool" where
  "answered b bs st c \<longleftrightarrow> dt_ok (core_dt c) \<and> rt_fullCmd (dt_retry (core_dt c)) = b \<and>
     offered (dt_retry (core_dt c)) = (DATA_DIRECTION_READ, bs, st)"

definition known :: "BYTE list \<Rightarrow> bool \<Rightarrow> 's core \<Rightarrow> bool" where
  "known b icd c \<longleftrightarrow> gotThisCmd b icd (dt_retry (core_dt c))"

text \<open>The host keeps an answer to a command that it takes for this one; of a short command it compares six bytes.\<close>

definition kept :: "BYTE list \<Rightarrow> bool \<Rightarrow> BYTE list \<Rightarrow> BYTE \<Rightarrow> 's core \<Rightarrow> bool" where
  "kept b icd bs st c \<longleftrightarrow> dt_ok (core_dt c) \<and> known b icd c \<and> offered (dt_retry (core_dt c)) = (DATA_DIRECTION_READ, bs, st)"

lemma answered_kept: "answered b bs st c \<Longrightarrow> kept b icd bs st c"
  by (simp add: answered_def kept_def known_def gotThisCmd_def Let_def)

lemma core_step:
  assumes "txRx 14 (replicate 14 0) (dt_com (core_dt c)) = (com', b)" and "length b = 14" and "acsiIDdevType c ! unat (drop_bit 5 (b ! 0)) \<noteq> DEVTYPE_OFF"
    and icd: "(b ! 0 AND 0x1f = 0x1f) = icd" and p: "(if icd then drop 1 b else b) = p"
    and f: "p ! 0 AND 0x1f = 0" "p ! 1 = 0x43" "p ! 2 = 0x45"
    and c0: "c0 = c\<lparr>core_dt := (core_dt c)\<lparr>dt_com := com'\<rparr>\<rparr>" and b': "b' = (if icd then b[4 := b ! 4 AND 0x7f] else b[3 := b ! 3 AND 0x7f])"
    and run: "\<And>b k. run b k = dispatch m scsi b icd 0 0x43 0x45 k (with_retry (makeCmdCopy b icd 0 0x43 0x45 k) c0)"
  shows "p ! 3 AND 0x80 = 0 \<Longrightarrow> core_handleAcsiCommand m scsi c = run b (p ! 3)"
    and "p ! 3 AND 0x80 \<noteq> 0 \<Longrightarrow> \<not> known b' icd c \<Longrightarrow> core_handleAcsiCommand m scsi c = run b' (p ! 3 AND 0x7f)"
    and "p ! 3 AND 0x80 \<noteq> 0 \<Longrightarrow> known b' icd c \<Longrightarrow> rt_dataDirection (dt_retry (core_dt c)) = DATA_DIRECTION_READ \<Longrightarrow>
      core_handleAcsiCommand m scsi c = c0\<lparr>core_dt := sendDataAndStatus True (core_dt c0)\<rparr>"
proof -
  have o: "overwrite (replicate 14 0) b = b" using assms(2) by (simp add: overwrite_def)
  note u = core_handleAcsiCommand_def [of m scsi c, unfolded assms(1) Let_def split o icd p f c0 [symmetric] b' [symmetric]]
  have r: "dt_retry (core_dt c0) = dt_retry (core_dt c)" "acsiIDdevType c0 = acsiIDdevType c" by (simp_all add: c0)
  show "core_handleAcsiCommand m scsi c = run b (p ! 3)" if "p ! 3 AND 0x80 = 0"
    unfolding u run using that assms(3) r by simp
  show "core_handleAcsiCommand m scsi c = run b' (p ! 3 AND 0x7f)" if "p ! 3 AND 0x80 \<noteq> 0" "\<not> known b' icd c"
    unfolding u run using that assms(3) r by (simp add: known_def)
  show "core_handleAcsiCommand m scsi c = c0\<lparr>core_dt := sendDataAndStatus True (core_dt c0)\<rparr>"
    if "p ! 3 AND 0x80 \<noteq> 0" "known b' icd c" "rt_dataDirection (dt_retry (core_dt c)) = DATA_DIRECTION_READ"
    unfolding u using that assms(3) r by (simp add: known_def)
qed

context sending_module
begin

lemma ran:
  assumes "dt_ok (core_dt c)" and "p ! 1 = 0x43" and "p ! 2 = 0x45" and "p ! 3 \<in> hostmods" and "length b = 14"
    and "spec p (core_mod c) = (t, bs, st)"
    and "c' = dispatch m scsi b icd 0 0x43 0x45 (p ! 3) (with_retry (makeCmdCopy b icd 0 0x43 0x45 (p ! 3)) c)"
    and "p = (if icd then drop 1 b else b)" and "p ! 3 = k"
  shows "core_mod c' = t \<and> answered b bs st c' \<and> acsiIDdevType c' = acsiIDdevType c"
proof -
  let ?c = "with_retry (makeCmdCopy b icd 0 0x43 0x45 (p ! 3)) c"
  have ok: "dt_ok (core_dt ?c)" using assms(1) by (simp add: with_retry_def makeCmdCopy_def dt_ok_def)
  have f: "rt_fullCmd (dt_retry (core_dt ?c)) = b"
    using assms(1,5) by (simp add: with_retry_def makeCmdCopy_def dt_ok_def overwrite_def)
  have s: "core_mod ?c = core_mod c" by (simp add: with_retry_def)
  obtain s' d' where m: "m (p ! 3) p (core_mod c, core_dt ?c) = (s', d')" by force
  have c': "c' = ?c\<lparr>core_mod := s', core_dt := d'\<rparr>"
    unfolding assms(7) dispatch_def using assms(4) by (simp add: run_on_def s m flip: assms(8))
  have mk: "m k p (core_mod c, core_dt ?c) = (s', d')" by (subst assms(9) [symmetric]) (rule m)
  from sends [OF assms(2,3,9) ok assms(6) mk] have r: "s' = t" "dt_ok d'" "cmd_of (dt_retry d') = cmd_of (dt_retry (core_dt ?c))"
    "offered (dt_retry d') = (DATA_DIRECTION_READ, bs, st)" by blast+
  then show ?thesis using f by (simp add: c' answered_def cmd_of_def with_retry_def)
qed

text \<open>A command that is new to the retry module, or not marked as a retry, runs in its module.\<close>

lemma attempt_runs:
  assumes "mod_cmd k cmd" and "length (cmd @ rest) = 14" and "enabled_id cmd c" and "dt_ok (core_dt c)"
    and "b = cmd @ rest \<or> b = retry_cmd cmd @ rest \<and> \<not> known (cmd @ rest) (cmd_icd cmd) c"
    and "spec (cmd_p cmd rest) (core_mod c) = (t, bs, st)"
    and "c' = core_handleAcsiCommand m scsi (arrive b com c)"
  shows "core_mod c' = t \<and> answered (cmd @ rest) bs st c' \<and> acsiIDdevType c' = acsiIDdevType c"
proof -
  let ?p = "cmd_p cmd rest" and ?icd = "cmd_icd cmd"
  note f = cmd_fields [OF assms(1,2)]
  have lb: "length b = 14" using assms(2,5) f(3) by auto
  obtain com' where x: "txRx 14 (replicate 14 0) (com\<lparr>miso := b @ miso com, remainingPacketLength := 24\<rparr>) = (com', b)"
    using arrives [OF lb] by blast
  define ca where "ca = arrive b com c"
  have ca: "dt_com (core_dt ca) = com\<lparr>miso := b @ miso com, remainingPacketLength := 24\<rparr>" "acsiIDdevType ca = acsiIDdevType c"
    "core_mod ca = core_mod c" "dt_retry (core_dt ca) = dt_retry (core_dt c)" "dt_buffer (core_dt ca) = dt_buffer (core_dt c)"
    by (simp_all add: ca_def arrive_def)
  define c0 where "c0 = ca\<lparr>core_dt := (core_dt ca)\<lparr>dt_com := com'\<rparr>\<rparr>"
  have c0: "core_mod c0 = core_mod c" "dt_ok (core_dt c0)" "acsiIDdevType c0 = acsiIDdevType c" using assms(4) ca by (simp_all add: c0_def dt_ok_def)
  have i: "b ! 0 = cmd ! 0" using assms(5) f(2,8) by auto
  then have en: "acsiIDdevType ca ! unat (drop_bit 5 (b ! 0)) \<noteq> DEVTYPE_OFF" "(b ! 0 AND 0x1f = 0x1f) = ?icd"
    using assms(3) f(1,8) ca(2) by (simp_all add: enabled_id_def)
  have p: "?p = (if ?icd then drop 1 (cmd @ rest) else cmd @ rest)" by (simp add: cmd_p_def)
  define run where "run = (\<lambda>b k. dispatch m scsi b ?icd 0 0x43 0x45 k (with_retry (makeCmdCopy b ?icd 0 0x43 0x45 k) c0))"
  have k: "?p ! 3 AND 0x80 = 0" "(?p ! 3 OR 0x80) AND 0x80 \<noteq> 0" "(?p ! 3 OR 0x80) AND 0x7f = ?p ! 3" using hostmod_bits [OF f(7)] by blast+
  have "c' = run (cmd @ rest) (?p ! 3)"
    using assms(5)
  proof
    assume b: "b = cmd @ rest"
    show ?thesis
      unfolding assms(7) ca_def [symmetric]
      using core_step(1) [where b = b and c = ca and com' = com' and icd = ?icd and p = ?p and run = run and m = m and scsi = scsi and b' = "if ?icd then b[4 := b ! 4 AND 0x7f] else b[3 := b ! 3 AND 0x7f]",
          OF _ lb en _ f(4-6) c0_def refl] x k(1) p
      by (simp add: ca(1) run_def flip: b)
  next
    assume r: "b = retry_cmd cmd @ rest \<and> \<not> known (cmd @ rest) ?icd c"
    have q: "(if ?icd then drop 1 b else b) = ?p[3 := ?p ! 3 OR 0x80]" unfolding conjunct1 [OF r] by (rule f(9))
    have b': "cmd @ rest = (if ?icd then b[4 := b ! 4 AND 0x7f] else b[3 := b ! 3 AND 0x7f])" unfolding conjunct1 [OF r] by (rule f(10) [symmetric])
    have q3: "?p[3 := ?p ! 3 OR 0x80] ! 3 = ?p ! 3 OR 0x80" using f(11) by simp
    show ?thesis
      unfolding assms(7) ca_def [symmetric]
      using core_step(2) [where b = b and c = ca and com' = com' and icd = ?icd and p = "?p[3 := ?p ! 3 OR 0x80]" and run = run and m = m and scsi = scsi and b' = "cmd @ rest",
          OF _ lb en q _ _ _ c0_def b'] x k f(4-6) r q3
      by (simp add: ca(1,4) run_def known_def)
  qed
  then show ?thesis
    using ran [OF c0(2) f(5,6,7) assms(2) _ _ p f(12), of t bs st c' scsi] assms(6) c0 by (simp add: run_def)
qed

text \<open>A retry of a command whose answer is kept sends the answer again.\<close>

lemma attempt_repeats:
  assumes "mod_cmd k cmd" and "length (cmd @ rest) = 14" and "enabled_id cmd c" and "kept (cmd @ rest) (cmd_icd cmd) bs st c"
    and "c' = core_handleAcsiCommand m scsi (arrive (retry_cmd cmd @ rest) com c)"
  shows "core_mod c' = core_mod c \<and> kept (cmd @ rest) (cmd_icd cmd) bs st c' \<and> acsiIDdevType c' = acsiIDdevType c"
proof -
  let ?p = "cmd_p cmd rest" and ?icd = "cmd_icd cmd" and ?b = "retry_cmd cmd @ rest"
  note f = cmd_fields [OF assms(1,2)]
  obtain com' where x: "txRx 14 (replicate 14 0) (com\<lparr>miso := ?b @ miso com, remainingPacketLength := 24\<rparr>) = (com', ?b)"
    using arrives [OF f(3)] by blast
  define ca where "ca = arrive ?b com c"
  have ca: "dt_com (core_dt ca) = com\<lparr>miso := ?b @ miso com, remainingPacketLength := 24\<rparr>" "acsiIDdevType ca = acsiIDdevType c"
    "core_mod ca = core_mod c" "dt_retry (core_dt ca) = dt_retry (core_dt c)" "dt_buffer (core_dt ca) = dt_buffer (core_dt c)"
    by (simp_all add: ca_def arrive_def)
  define c0 where "c0 = ca\<lparr>core_dt := (core_dt ca)\<lparr>dt_com := com'\<rparr>\<rparr>"
  have en: "acsiIDdevType ca ! unat (drop_bit 5 (?b ! 0)) \<noteq> DEVTYPE_OFF" "(?b ! 0 AND 0x1f = 0x1f) = ?icd"
    using assms(3) f(1,2,8) ca(2) by (simp_all add: enabled_id_def)
  have k: "(?p ! 3 OR 0x80) AND 0x80 \<noteq> 0" using hostmod_bits [OF f(7)] by blast
  have q3: "?p[3 := ?p ! 3 OR 0x80] ! 3 = ?p ! 3 OR 0x80" using f(11) by simp
  have kn: "known (cmd @ rest) ?icd ca" using assms(4) by (simp add: kept_def known_def ca(4))
  have dir: "rt_dataDirection (dt_retry (core_dt ca)) = DATA_DIRECTION_READ" using assms(4) by (simp add: kept_def offered_def ca(4))
  have "c' = c0\<lparr>core_dt := sendDataAndStatus True (core_dt c0)\<rparr>"
    unfolding assms(5) ca_def [symmetric]
    using core_step(3) [where b = ?b and c = ca and com' = com' and icd = ?icd and p = "?p[3 := ?p ! 3 OR 0x80]" and m = m and scsi = scsi and b' = "cmd @ rest"
        and run = "\<lambda>b k. dispatch m scsi b ?icd 0 0x43 0x45 k (with_retry (makeCmdCopy b ?icd 0 0x43 0x45 k) c0)",
        OF _ f(3) en f(9) _ _ _ c0_def f(10) [symmetric] refl] x k f(4-6) q3 kn dir
    by (simp add: ca(1))
  then show ?thesis using assms(2,4) ca by (simp add: c0_def kept_def known_def dt_ok_def send_retry)
qed

end

section \<open>All attempts\<close>

definition got_through :: "attempt \<Rightarrow> bool" where
  "got_through a = (case a of Lost \<Rightarrow> False | Reaches _ ok \<Rightarrow> ok)"

text \<open>The attempts that are made: up to the first that gets through, at most \<open>n\<close>.\<close>

fun tried :: "nat \<Rightarrow> attempt list \<Rightarrow> attempt list" where
  "tried 0 as = []"
| "tried (Suc n) [] = []"
| "tried (Suc n) (a # as) = a # (if got_through a then [] else tried n as)"

text \<open>The result of the attempts \<open>ts\<close>: the answer if one got through.\<close>

definition result_ok :: "attempt list \<Rightarrow> BYTE list \<Rightarrow> BYTE \<Rightarrow> bool \<times> BYTE \<times> BYTE list \<Rightarrow> bool" where
  "result_ok ts bs st r = (case r of (ok, st', ds) \<Rightarrow> ok = (\<exists>a \<in> set ts. got_through a) \<and> (ok \<longrightarrow> st' = st \<and> ds = bs) \<and> (\<not> ok \<longrightarrow> ds = []))"

lemma result_ok_simps [simp]:
  "result_ok [] bs st (False, x, [])" "result_ok (Lost # ts) bs st r = result_ok ts bs st r"
  "result_ok (Reaches com False # ts) bs st r = result_ok ts bs st r" "result_ok [Reaches com True] bs st (True, st, bs)"
  by (simp_all add: result_ok_def got_through_def)

lemma overlay_empty [simp]: "overlay [] ds = ds"
  by (simp add: overlay_def)

context sending_module
begin

lemma retries_answered:
  assumes "mod_cmd k cmd" and "length (cmd @ rest) = 14" and "enabled_id cmd c" and "kept (cmd @ rest) (cmd_icd cmd) bs st c"
    and "until_ok (lossy_link m scsi rest) True (replicate n (retry_cmd cmd)) data nn ((as, c), False, x, []) = ((as', c'), r)"
  shows "core_mod c' = core_mod c \<and> result_ok (tried n as) bs st r"
  using assms(3-5)
proof (induction n arbitrary: as c x)
  case 0
  then show ?case by (auto simp: result_ok_def)
next
  case (Suc n)
  show ?case
  proof (cases as)
    case Nil
    have "until_ok (lossy_link m scsi rest) True (replicate n (retry_cmd cmd)) data nn (([], c), False, 0xff, []) = ((as', c'), r)"
      using Suc.prems(3) by (simp add: Nil link_steps)
    from Suc.IH [OF Suc.prems(1,2) this] show ?thesis by (cases n) (simp_all add: Nil)
  next
    case (Cons a bs')
    show ?thesis
    proof (cases a)
      case Lost
      have "until_ok (lossy_link m scsi rest) True (replicate n (retry_cmd cmd)) data nn ((bs', c), False, 0xff, []) = ((as', c'), r)"
        using Suc.prems(3) by (simp add: Cons Lost link_steps)
      from Suc.IH [OF Suc.prems(1,2) this] show ?thesis by (simp add: Cons Lost got_through_def)
    next
      case (Reaches com ok)
      define c1 where "c1 = core_handleAcsiCommand m scsi (arrive (retry_cmd cmd @ rest) com c)"
      note c1 = attempt_repeats [OF assms(1,2) Suc.prems(1,2) c1_def]
      have o: "offered (dt_retry (core_dt c1)) = (DATA_DIRECTION_READ, bs, st)" using c1 by (simp add: kept_def)
      have en: "enabled_id cmd c1" using c1 Suc.prems(1) by (simp add: enabled_id_def)
      show ?thesis
      proof (cases ok)
        case True
        then have "((as', c'), r) = ((bs', c1), True, st, bs)"
          using Suc.prems(3) o by (simp add: Cons Reaches link_steps c1_def [symmetric])
        then show ?thesis using c1 True by (simp add: Cons Reaches got_through_def)
      next
        case False
        then have "until_ok (lossy_link m scsi rest) True (replicate n (retry_cmd cmd)) data nn ((bs', c1), False, 0xff, []) = ((as', c'), r)"
          using Suc.prems(3) o by (simp add: Cons Reaches link_steps c1_def [symmetric])
        from Suc.IH [OF en _ this] c1 False show ?thesis by (simp add: Cons Reaches got_through_def)
      qed
    qed
  qed
qed

lemma retries_new:
  assumes "mod_cmd k cmd" and "length (cmd @ rest) = 14" and "enabled_id cmd c" and "dt_ok (core_dt c)" and "\<not> known (cmd @ rest) (cmd_icd cmd) c"
    and "spec (cmd_p cmd rest) (core_mod c) = (t, bs, st)"
    and "until_ok (lossy_link m scsi rest) True (replicate n (retry_cmd cmd)) data nn ((as, c), False, x, []) = ((as', c'), r)"
  shows "core_mod c' = (if \<exists>a \<in> set (tried n as). a \<noteq> Lost then t else core_mod c) \<and> result_ok (tried n as) bs st r"
  using assms(7)
proof (induction n arbitrary: as x)
  case 0
  then show ?case by (auto simp: result_ok_def)
next
  case (Suc n)
  show ?case
  proof (cases as)
    case Nil
    have "until_ok (lossy_link m scsi rest) True (replicate n (retry_cmd cmd)) data nn (([], c), False, 0xff, []) = ((as', c'), r)"
      using Suc.prems by (simp add: Nil link_steps)
    from Suc.IH [OF this] show ?thesis by (cases n) (simp_all add: Nil)
  next
    case (Cons a bs')
    show ?thesis
    proof (cases a)
      case Lost
      have "until_ok (lossy_link m scsi rest) True (replicate n (retry_cmd cmd)) data nn ((bs', c), False, 0xff, []) = ((as', c'), r)"
        using Suc.prems by (simp add: Cons Lost link_steps)
      from Suc.IH [OF this] show ?thesis by (simp add: Cons Lost got_through_def)
    next
      case (Reaches com ok)
      define c1 where "c1 = core_handleAcsiCommand m scsi (arrive (retry_cmd cmd @ rest) com c)"
      have "retry_cmd cmd @ rest = cmd @ rest \<or> retry_cmd cmd @ rest = retry_cmd cmd @ rest \<and> \<not> known (cmd @ rest) (cmd_icd cmd) c"
        using assms(5) by blast
      note c1 = attempt_runs [OF assms(1-4) this assms(6) c1_def]
      have o: "offered (dt_retry (core_dt c1)) = (DATA_DIRECTION_READ, bs, st)" using c1 by (simp add: answered_def)
      have en: "enabled_id cmd c1" using c1 assms(3) by (simp add: enabled_id_def)
      show ?thesis
      proof (cases ok)
        case True
        then have "((as', c'), r) = ((bs', c1), True, st, bs)"
          using Suc.prems o by (simp add: Cons Reaches link_steps c1_def [symmetric])
        then show ?thesis using c1 True by (simp add: Cons Reaches got_through_def)
      next
        case False
        then have "until_ok (lossy_link m scsi rest) True (replicate n (retry_cmd cmd)) data nn ((bs', c1), False, 0xff, []) = ((as', c'), r)"
          using Suc.prems o by (simp add: Cons Reaches link_steps c1_def [symmetric])
        note u = this
      have an: "kept (cmd @ rest) (cmd_icd cmd) bs st c1" using c1 answered_kept by blast
      from retries_answered [OF assms(1,2) en an u] c1 False show ?thesis by (simp add: Cons Reaches got_through_def)
      qed
    qed
  qed
qed

lemma command_tried:
  assumes "mod_cmd k cmd" and "length (cmd @ rest) = 14" and "enabled_id cmd c" and "dt_ok (core_dt c)"
    and "\<not> known (cmd @ rest) (cmd_icd cmd) c \<or> (\<exists>com ok as'. as = Reaches com ok # as')"
    and "spec (cmd_p cmd rest) (core_mod c) = (t, bs, st)"
    and "until_ok (lossy_link m scsi rest) True (cmd # replicate n (retry_cmd cmd)) data nn ((as, c), x, y, []) = ((as', c'), r)"
  shows "core_mod c' = (if \<exists>a \<in> set (tried (Suc n) as). a \<noteq> Lost then t else core_mod c) \<and> result_ok (tried (Suc n) as) bs st r"
proof (cases as)
  case Nil
  then have "until_ok (lossy_link m scsi rest) True (replicate n (retry_cmd cmd)) data nn (([], c), False, 0xff, []) = ((as', c'), r)"
    using assms(7) by (simp add: link_steps)
  from retries_new [OF assms(1-4) _ assms(6) this] Nil assms(5) show ?thesis by (cases n) simp_all
next
  case (Cons a as2)
  show ?thesis
  proof (cases a)
    case Lost
    then have "until_ok (lossy_link m scsi rest) True (replicate n (retry_cmd cmd)) data nn ((as2, c), False, 0xff, []) = ((as', c'), r)"
      using assms(7) by (simp add: Cons link_steps)
    from retries_new [OF assms(1-4) _ assms(6) this] assms(5) show ?thesis by (simp add: Cons Lost got_through_def)
  next
    case (Reaches com ok)
    define c1 where "c1 = core_handleAcsiCommand m scsi (arrive (cmd @ rest) com c)"
    have "cmd @ rest = cmd @ rest \<or> cmd @ rest = retry_cmd cmd @ rest \<and> \<not> known (cmd @ rest) (cmd_icd cmd) c" by blast
    note c1 = attempt_runs [OF assms(1-4) this assms(6) c1_def]
    have o: "offered (dt_retry (core_dt c1)) = (DATA_DIRECTION_READ, bs, st)" using c1 by (simp add: answered_def)
    have en: "enabled_id cmd c1" using c1 assms(3) by (simp add: enabled_id_def)
    show ?thesis
    proof (cases ok)
      case True
      then have "((as', c'), r) = ((as2, c1), True, st, bs)"
        using assms(7) o by (simp add: Cons Reaches link_steps c1_def [symmetric])
      then show ?thesis using c1 True by (simp add: Cons Reaches got_through_def)
    next
      case False
      then have "until_ok (lossy_link m scsi rest) True (replicate n (retry_cmd cmd)) data nn ((as2, c1), False, 0xff, []) = ((as', c'), r)"
        using assms(7) o by (simp add: Cons Reaches link_steps c1_def [symmetric])
      note u = this
      have an: "kept (cmd @ rest) (cmd_icd cmd) bs st c1" using c1 answered_kept by blast
      from retries_answered [OF assms(1,2) en an u] c1 False show ?thesis by (simp add: Cons Reaches got_through_def)
    qed
  qed
qed

text \<open>
  A command that repeats the host's last one and does not reach the host at first is not run: what comes
  through is the answer to the earlier command.
\<close>

lemma repetition_tried:
  assumes "mod_cmd k cmd" and "length (cmd @ rest) = 14" and "enabled_id cmd c" and "kept (cmd @ rest) (cmd_icd cmd) bs st c"
    and "\<nexists>com ok as'. as = Reaches com ok # as'"
    and "until_ok (lossy_link m scsi rest) True (cmd # replicate n (retry_cmd cmd)) data nn ((as, c), x, y, []) = ((as', c'), r)"
  shows "core_mod c' = core_mod c \<and> result_ok (tried (Suc n) as) bs st r"
proof (cases as)
  case Nil
  then have "until_ok (lossy_link m scsi rest) True (replicate n (retry_cmd cmd)) data nn (([], c), False, 0xff, []) = ((as', c'), r)"
    using assms(6) by (simp add: link_steps)
  from retries_answered [OF assms(1-4) this] Nil show ?thesis by (cases n) simp_all
next
  case (Cons a as2)
  then have a: "a = Lost" using assms(5) by (cases a) simp_all
  then have "until_ok (lossy_link m scsi rest) True (replicate n (retry_cmd cmd)) data nn ((as2, c), False, 0xff, []) = ((as', c'), r)"
    using assms(6) by (simp add: Cons link_steps)
  from retries_answered [OF assms(1-4) this] show ?thesis by (simp add: Cons a got_through_def)
qed

end

section \<open>The driver and the host\<close>

text \<open>The case in which the host takes the retries of a command for those of an earlier one.\<close>

definition lost_repetition :: "BYTE list \<Rightarrow> bool \<Rightarrow> attempt list \<Rightarrow> 's core \<Rightarrow> bool" where
  "lost_repetition b icd as c \<longleftrightarrow> known b icd c \<and> (\<nexists>com ok as'. as = Reaches com ok # as')"


end
