(* ===== verification/HostDrives.thy ===== *)
theory HostDrives
  imports HostRetry GdSpec
begin

text \<open>
  The drive functions of the translated disk (src/ce_main_app/translated) behind the host's command handling: the
  dispatch of its commands, the identification, \<open>Dsetdrv\<close> and \<open>Dgetdrv\<close>. The other functions are a table, a
  parameter of the dispatch; every function that only collects data and a status gives a module that keeps
  the contract of the retries.
\<close>

section \<open>The translated disk\<close>

record drives =
  currentDriveLetter :: BYTE
  currentDriveIndex :: BYTE
  conf_enabled :: "bool list"

abbreviation EINVFN :: BYTE where "EINVFN \<equiv> 0xe0"

definition getDrivesBitmap :: "drives \<Rightarrow> WORD" where
  "getDrivesBitmap s =
     fold (\<lambda>i drives. let drives = (if i = 0 \<or> i = 1 then drives OR push_bit i 1 else drives)
                     in if conf_enabled s ! i then drives OR push_bit i 1 else drives) [0..<16] 0"

definition onDsetdrv :: "drives handler" where
  "onDsetdrv cmd s =
     (case s of (s, d) \<Rightarrow>
        let newDrive = cmd ! 5
        in if newDrive > 15 then (s, setStatus E_NOTHANDLED d)
           else if newDrive < 2
           then (s\<lparr>currentDriveLetter := 0x41 + newDrive, currentDriveIndex := newDrive\<rparr>, setStatus E_NOTHANDLED d)
           else if conf_enabled s ! unat newDrive
           then let s = s\<lparr>currentDriveLetter := 0x41 + newDrive, currentDriveIndex := newDrive\<rparr>
                in (s, setStatus 0 (padDataToMul16 (addDataWord (getDrivesBitmap s) d)))
           else (s, setStatus E_NOTHANDLED d))"

definition onDgetdrv :: "drives handler" where
  "onDgetdrv cmd s =
     (case s of (s, d) \<Rightarrow>
        if conf_enabled s ! unat (currentDriveIndex s) then (s, setStatus (currentDriveIndex s) d) else (s, setStatus E_NOTHANDLED d))"

text \<open>The text \<open>CosmosEx translated disk\<close>.\<close>

definition identity :: "BYTE list" where
  "identity = [0x43, 0x6f, 0x73, 0x6d, 0x6f, 0x73, 0x45, 0x78, 0x20, 0x74, 0x72, 0x61, 0x6e, 0x73, 0x6c, 0x61, 0x74, 0x65, 0x64, 0x20,
     0x64, 0x69, 0x73, 0x6b]"

definition onIdentify :: "'s handler" where
  "onIdentify cmd s = (case s of (s, d) \<Rightarrow> (s, setStatus 0 (addDataBfr identity True d)))"

definition onInvalid :: "'s handler" where
  "onInvalid cmd s = (case s of (s, d) \<Rightarrow> (s, setStatus EINVFN d))"

definition processCommand :: "(BYTE \<Rightarrow> 's handler option) \<Rightarrow> 's handler" where
  "processCommand functions cmd s =
     (case s of (s, d) \<Rightarrow>
        let d = clear True d
        in if cmd ! 1 \<noteq> 0x43 \<or> cmd ! 2 \<noteq> 0x45 \<or> cmd ! 3 \<noteq> 3 then (s, d)
           else let f = (case functions (cmd ! 4) of Some f \<Rightarrow> f | None \<Rightarrow> onInvalid); (s, d) = f cmd (s, d)
                in (s, sendDataAndStatus False d))"

definition drive_functions :: "BYTE \<Rightarrow> drives handler option" where
  "drive_functions fn = (if fn = 0x00 then Some onIdentify else if fn = 0x0e then Some onDsetdrv else if fn = 0x19 then Some onDgetdrv else None)"

section \<open>Functions that collect an answer\<close>

definition collecting :: "datatrans \<Rightarrow> bool" where
  "collecting d \<longleftrightarrow> dt_ok d \<and> dt_dataDirection d = DATA_DIRECTION_READ"

text \<open>What has been collected.\<close>

definition collected :: "datatrans \<Rightarrow> BYTE list \<times> BYTE" where
  "collected d = (take (unat (dt_count d)) (dt_buffer d), dt_status d)"

text \<open>A function that computes its answer from the command and the state only, and leaves the retry module alone.\<close>

definition collects :: "'s handler \<Rightarrow> (BYTE list \<Rightarrow> 's \<Rightarrow> 's \<times> BYTE list \<times> BYTE) \<Rightarrow> bool" where
  "collects f sp \<longleftrightarrow> (\<forall>p s d s' d' t bs st. collecting d \<longrightarrow> dt_count d = 0 \<longrightarrow> sp p s = (t, bs, st) \<longrightarrow> f p (s, d) = (s', d') \<longrightarrow>
     s' = t \<and> collecting d' \<and> dt_retry d' = dt_retry d \<and> unat (dt_count d') \<le> ACSI_BUFFER_SIZE \<and> collected d' = (bs, st))"

lemma copied:
  assumes "n \<le> N" "length a = N" "length b = N"
  shows "take n (overwrite b (take (min n N) a)) = take n a"
  using assms by (simp add: overwrite_def min_def)

lemma sent_offered:
  assumes "collecting d" and "unat (dt_count d) \<le> ACSI_BUFFER_SIZE"
  shows "offered (dt_retry (sendDataAndStatus False d)) = (DATA_DIRECTION_READ, collected d)"
    and "cmd_of (dt_retry (sendDataAndStatus False d)) = cmd_of (dt_retry d)" and "dt_ok (sendDataAndStatus False d)"
proof -
  define n where "n = unat (dt_count d)"
  have l: "length (dt_buffer d) = ACSI_BUFFER_SIZE" "length (rt_buffer (dt_retry d)) = ACSI_BUFFER_SIZE" "length (rt_fullCmd (dt_retry d)) = 14"
    "dt_dataDirection d = DATA_DIRECTION_READ" using assms(1) by (simp_all add: collecting_def dt_ok_def)
  have n: "n \<le> ACSI_BUFFER_SIZE" using assms(2) by (simp add: n_def)
  let ?b = "copy_buffer (dt_count d) (dt_buffer d) (rt_buffer (dt_retry d))"
  have b: "take n ?b = take n (dt_buffer d)" "length ?b = ACSI_BUFFER_SIZE"
    unfolding copy_buffer_def n_def [symmetric] by (rule copied [OF n l(1,2)], simp only: length_overwrite l)
  show "offered (dt_retry (sendDataAndStatus False d)) = (DATA_DIRECTION_READ, collected d)"
    "cmd_of (dt_retry (sendDataAndStatus False d)) = cmd_of (dt_retry d)" "dt_ok (sendDataAndStatus False d)"
    using l b unfolding n_def
    by (simp_all add: send_retry copyDataAndStatus_def Let_def offered_def collected_def cmd_of_def dt_ok_def)
qed

text \<open>The computed answers of a table of functions.\<close>

definition answer_of :: "(BYTE \<Rightarrow> (BYTE list \<Rightarrow> 's \<Rightarrow> 's \<times> BYTE list \<times> BYTE) option) \<Rightarrow> BYTE list \<Rightarrow> 's \<Rightarrow> 's \<times> BYTE list \<times> BYTE" where
  "answer_of specs cmd s = (case specs (cmd ! 4) of Some f \<Rightarrow> f cmd s | None \<Rightarrow> (s, [], EINVFN))"

lemma collects_status:
  assumes "\<And>p s d. f p (s, d) = (g p s, setStatus (h p s) d)"
  shows "collects f (\<lambda>p s. (g p s, [], h p s))"
  unfolding collects_def by (simp add: assms collecting_def collected_def dt_ok_def setStatus_def)

lemma processCommand_sends:
  assumes "\<And>fn. rel_option collects (functions fn) (specs fn)"
  shows "sending_module (\<lambda>_. processCommand functions) 3 (answer_of specs)"
proof
  fix p :: "BYTE list" and d d' and s t s' :: 'a and bs st
  assume p: "p ! 1 = 0x43" "p ! 2 = 0x45" "p ! 3 = 3" and d: "dt_ok d" and sp: "answer_of specs p s = (t, bs, st)"
    and m: "processCommand functions p (s, d) = (s', d')"
  let ?f = "case functions (p ! 4) of Some f \<Rightarrow> f | None \<Rightarrow> onInvalid"
  have "collects ?f (\<lambda>cmd s. case specs (p ! 4) of Some f \<Rightarrow> f cmd s | None \<Rightarrow> (s, [], EINVFN))"
    using assms [of "p ! 4"] collects_status [of onInvalid "\<lambda>_ s. s" "\<lambda>_ _. EINVFN"]
    by (cases "functions (p ! 4)"; cases "specs (p ! 4)") (simp_all add: onInvalid_def)
  moreover have "collecting (clear True d)" using d by (simp add: collecting_def dt_ok_def) (simp add: clear_def Let_def)
  moreover have "dt_count (clear True d) = 0" by (simp add: clear_def Let_def)
  moreover obtain s1 d1 where f: "?f p (s, clear True d) = (s1, d1)" by force
  ultimately have r: "s1 = t" "collecting d1" "dt_retry d1 = dt_retry d" "unat (dt_count d1) \<le> ACSI_BUFFER_SIZE" "collected d1 = (bs, st)"
    using sp unfolding collects_def answer_of_def by (metis clear_keeps(1))+
  have "(s', d') = (s1, sendDataAndStatus False d1)" using m p f by (simp add: processCommand_def Let_def)
  then show "s' = t \<and> dt_ok d' \<and> cmd_of (dt_retry d') = cmd_of (dt_retry d) \<and> offered (dt_retry d') = (DATA_DIRECTION_READ, bs, st)"
    using r sent_offered [OF r(2,4)] by simp
qed

section \<open>The drive functions\<close>

lemma take_put:
  assumes "n + length bs \<le> length buf"
  shows "take (n + length bs) (take n buf @ overwrite (drop n buf) bs) = take n buf @ bs"
    and "length (take n buf @ overwrite (drop n buf) bs) = length buf"
  using assms by (simp_all add: overwrite_def)

lemma put_collected:
  assumes "collecting d" and "unat (dt_count d) + length bs \<le> ACSI_BUFFER_SIZE" and "d' = (put_bytes bs d)\<lparr>dt_count := dt_count d + of_nat (length bs)\<rparr>"
  shows "collecting d'" and "dt_retry d' = dt_retry d" and "unat (dt_count d') = unat (dt_count d) + length bs"
    and "collected d' = (fst (collected d) @ bs, dt_status d)"
proof -
  have l: "length (dt_buffer d) = ACSI_BUFFER_SIZE" using assms(1) by (simp add: collecting_def dt_ok_def)
  then have n: "unat (dt_count d) + length bs \<le> length (dt_buffer d)" using assms(2) by simp
  have "unat (of_nat (length bs) :: DWORD) = length bs" using assms(2) by (simp add: unat_of_nat)
  then show u: "unat (dt_count d') = unat (dt_count d) + length bs" using assms(2) by (simp add: assms(3) unat_word_ariths put_bytes_def)
  show "collecting d'" using assms(1) l take_put(2) [OF n] by (simp add: assms(3) collecting_def dt_ok_def put_bytes_def)
  show "dt_retry d' = dt_retry d" by (simp add: assms(3) put_bytes_def)
  have "dt_buffer d' = take (unat (dt_count d)) (dt_buffer d) @ overwrite (drop (unat (dt_count d)) (dt_buffer d)) bs" "dt_status d' = dt_status d"
    by (simp_all add: assms(3) put_bytes_def)
  then show "collected d' = (fst (collected d) @ bs, dt_status d)" unfolding collected_def u using take_put(1) [OF n] by simp
qed

lemma pad_collected:
  assumes "collecting d" and "unat (dt_count d) + 16 \<le> ACSI_BUFFER_SIZE" and "d' = padDataToMul16 d"
  shows "collecting d' \<and> dt_retry d' = dt_retry d \<and> unat (dt_count d') \<le> ACSI_BUFFER_SIZE \<and> collected d' = (pad16 (fst (collected d)), dt_status d)"
proof -
  define n where "n = unat (dt_count d) mod 16"
  have "length (dt_buffer d) = ACSI_BUFFER_SIZE" using assms(1) by (simp add: collecting_def dt_ok_def)
  then have f: "length (fst (collected d)) = unat (dt_count d)" using assms(2) by (simp add: collected_def)
  have n: "n < 16" by (simp add: n_def)
  show ?thesis
  proof (cases "n = 0")
    case True
    then have "d' = d" by (simp add: assms(3) padDataToMul16_def Let_def n_def)
    moreover have "pad16 (fst (collected d)) = fst (collected d)" using True f by (simp add: pad16_def n_def)
    ultimately show ?thesis using assms(1,2) by (simp add: collected_def)
  next
    case False
    have d': "d' = (put_bytes (replicate (16 - n) 0) d)\<lparr>dt_count := dt_count d + of_nat (length (replicate (16 - n) (0 :: BYTE)))\<rparr>"
      using False by (simp add: assms(3) padDataToMul16_def Let_def n_def)
    have le: "unat (dt_count d) + length (replicate (16 - n) (0 :: BYTE)) \<le> ACSI_BUFFER_SIZE" using assms(2) by simp
    note p = put_collected [OF assms(1) le d']
    have "(16 - n) mod 16 = 16 - n" using False n by simp
    then have "pad16 (fst (collected d)) = fst (collected d) @ replicate (16 - n) 0" using f by (simp add: pad16_def n_def)
    then show ?thesis using p le by simp
  qed
qed

definition drive_specs :: "BYTE \<Rightarrow> (BYTE list \<Rightarrow> drives \<Rightarrow> drives \<times> BYTE list \<times> BYTE) option" where
  "drive_specs fn =
     (if fn = 0x00 then Some (\<lambda>p s. (s, pad16 identity, 0))
      else if fn = 0x0e
      then Some (\<lambda>p s. let n = p ! 5; t = s\<lparr>currentDriveLetter := 0x41 + n, currentDriveIndex := n\<rparr>
                       in if n > 15 then (s, [], E_NOTHANDLED) else if n < 2 then (t, [], E_NOTHANDLED)
                          else if conf_enabled s ! unat n then (t, pad16 (be16_bytes (getDrivesBitmap t)), 0) else (s, [], E_NOTHANDLED))
      else if fn = 0x19
      then Some (\<lambda>p s. (s, [], if conf_enabled s ! unat (currentDriveIndex s) then currentDriveIndex s else E_NOTHANDLED))
      else None)"

lemma status_collects [simp]:
  "dt_retry (setStatus st d) = dt_retry d" "collecting (setStatus st d) = collecting d" "dt_count (setStatus st d) = dt_count d"
  "collected (setStatus st d) = (fst (collected d), st)"
  by (simp_all add: setStatus_def collecting_def dt_ok_def collected_def)

lemma empty_collected: "dt_count d = 0 \<Longrightarrow> fst (collected d) = []"
  by (simp add: collected_def)

lemma bytes_collected:
  assumes "collecting d" and "dt_count d = 0" and "length bs \<le> 512"
    and "d1 = (put_bytes bs d)\<lparr>dt_count := dt_count d + of_nat (length bs)\<rparr>"
  shows "collecting (padDataToMul16 d1) \<and> dt_retry (padDataToMul16 d1) = dt_retry d \<and> unat (dt_count (padDataToMul16 d1)) \<le> ACSI_BUFFER_SIZE \<and>
    fst (collected (padDataToMul16 d1)) = pad16 bs"
proof -
  note p = put_collected [OF assms(1) _ assms(4)]
  have p: "collecting d1" "dt_retry d1 = dt_retry d" "unat (dt_count d1) = length bs" "fst (collected d1) = bs"
    using p assms(2,3) empty_collected [OF assms(2)] by simp_all
  from pad_collected [OF p(1) _ refl] p assms(3) show ?thesis by simp
qed

lemma drives_collect: "rel_option collects (drive_functions fn) (drive_specs fn)"
proof -
  have "collects onIdentify (\<lambda>p (s :: drives). (s, pad16 identity, 0))"
    unfolding collects_def
  proof (intro allI impI)
    fix p :: "BYTE list" and s s' t :: drives and d d' and bs :: "BYTE list" and st :: BYTE
    assume d: "collecting d" "dt_count d = 0" and sp: "(s, pad16 identity, 0) = (t, bs, st)" and f: "onIdentify p (s, d) = (s', d')"
    have "length identity \<le> 512" by (simp add: identity_def)
    from bytes_collected [OF d this refl] sp f show "s' = t \<and> collecting d' \<and> dt_retry d' = dt_retry d \<and> unat (dt_count d') \<le> ACSI_BUFFER_SIZE \<and> collected d' = (bs, st)"
      by (auto simp: onIdentify_def addDataBfr_def)
  qed
  moreover have "collects onDsetdrv (the (drive_specs 0x0e))"
    unfolding collects_def
  proof (intro allI impI)
    fix p :: "BYTE list" and s s' t :: drives and d d' and bs :: "BYTE list" and st :: BYTE
    assume d: "collecting d" "dt_count d = 0" and sp: "the (drive_specs 0x0e) p s = (t, bs, st)" and f: "onDsetdrv p (s, d) = (s', d')"
    let ?t = "s\<lparr>currentDriveLetter := 0x41 + p ! 5, currentDriveIndex := p ! 5\<rparr>"
    have "length (be16_bytes (getDrivesBitmap ?t)) \<le> 512" by (simp add: be16_bytes_def)
    note b = bytes_collected [OF d this refl]
    have w: "addDataWord (getDrivesBitmap ?t) d = (put_bytes (be16_bytes (getDrivesBitmap ?t)) d)\<lparr>dt_count := dt_count d + of_nat (length (be16_bytes (getDrivesBitmap ?t)))\<rparr>"
      by (simp add: addDataWord_def be16_bytes_def)
    show "s' = t \<and> collecting d' \<and> dt_retry d' = dt_retry d \<and> unat (dt_count d') \<le> ACSI_BUFFER_SIZE \<and> collected d' = (bs, st)"
      using sp f b [folded w] d empty_collected [OF d(2)]
      by (auto simp: onDsetdrv_def drive_specs_def Let_def split: if_split_asm)
  qed
  moreover have "collects onDgetdrv (\<lambda>p s. (s, [], if conf_enabled s ! unat (currentDriveIndex s) then currentDriveIndex s else E_NOTHANDLED))"
    by (rule collects_status) (simp add: onDgetdrv_def)
  ultimately show ?thesis by (auto simp: drive_functions_def drive_specs_def)
qed

interpretation drives: sending_module "\<lambda>_. processCommand drive_functions" 3 "answer_of drive_specs"
  by (rule processCommand_sends) (rule drives_collect)

section \<open>An instance\<close>

text \<open>\<open>Dsetdrv\<close> of drive C: the first attempt is lost, the answer to the second, another attempt is lost, the fourth gets through.\<close>

definition drives_example :: drives where
  "drives_example = \<lparr>currentDriveLetter = 0x41, currentDriveIndex = 0, conf_enabled = [False, False, True] @ replicate 13 False\<rparr>"

definition spi_example :: conspi where
  "spi_example = \<lparr>remainingPacketLength = 0, atn_pin = [], ms_over = [], sigint = [], miso = [], mosi = [], overrun = False\<rparr>"

definition core_example :: "drives core" where
  "core_example = \<lparr>core_dt = \<lparr>dt_com = spi_example,
       dt_retry = \<lparr>rt_fullCmd = replicate 14 0, rt_isIcd = False, rt_justCmd = 0, rt_tag1 = 0, rt_tag2 = 0, rt_module = 0,
         rt_dataDirection = DATA_DIRECTION_UNKNOWN, rt_count = 0, rt_buffer = replicate ACSI_BUFFER_SIZE 0, rt_statusWasSet = False, rt_status = 0\<rparr>,
       dt_buffer = replicate ACSI_BUFFER_SIZE 0, dt_count = 0, dt_status = 0, dt_statusWasSet = False, dt_dataDirection = DATA_DIRECTION_READ,
       txBuffer = replicate 600 0, rxBuffer = replicate 600 0, dumpNextData = False\<rparr>,
     core_mod = drives_example, acsiIDdevType = replicate 8 3\<rparr>"

definition script_example :: "attempt list" where
  "script_example = [Lost, Reaches spi_example False, Lost, Reaches spi_example True]"

text \<open>The same command again while the host keeps the answer to it; the first attempt is lost.\<close>

definition repeat_example :: "drives core" where
  "repeat_example = core_example\<lparr>core_dt := (core_dt core_example)\<lparr>dt_retry := (dt_retry (core_dt core_example))
     \<lparr>rt_fullCmd := [0, 0x43, 0x45, 3, 0x0e, 2] @ replicate 8 0, rt_dataDirection := DATA_DIRECTION_READ, rt_count := 2,
       rt_buffer := [9, 9] @ replicate (ACSI_BUFFER_SIZE - 2) 0, rt_status := 5\<rparr>\<rparr>\<rparr>"

definition repeat_script :: "attempt list" where
  "repeat_script = [Lost, Reaches spi_example True]"

lemma gd0_driver:
  fixes h :: "'h"
  shows "gd_host (gd0 h []) = h" "drop_bit 5 ([0, 0x43, 0x45, 3, 0x0e, 2 :: BYTE] ! 0) \<noteq> hd_hostId (hdIf (gd0 h []))"
    "hd_maxRetries (hdIf (gd0 h [])) = 16"
  by (simp_all add: gd0_def)

lemma Dsetdrv_command:
  "mod_cmd 3 [0, 0x43, 0x45, 3, 0x0e, 2]" "length ([0, 0x43, 0x45, 3, 0x0e, 2 :: BYTE] @ replicate 8 0) = 14"
  "answer_of drive_specs (cmd_p [0, 0x43, 0x45, 3, 0x0e, 2] (replicate 8 0)) drives_example =
     (drives_example\<lparr>currentDriveLetter := 0x43, currentDriveIndex := 2\<rparr>, pad16 [0, 7], 0)"
proof -
  have "getDrivesBitmap (drives_example\<lparr>currentDriveLetter := 0x43, currentDriveIndex := 2\<rparr>) = 7"
    by (simp add: getDrivesBitmap_def drives_example_def upt_rec Let_def)
  then show "answer_of drive_specs (cmd_p [0, 0x43, 0x45, 3, 0x0e, 2] (replicate 8 0)) drives_example =
     (drives_example\<lparr>currentDriveLetter := 0x43, currentDriveIndex := 2\<rparr>, pad16 [0, 7], 0)"
    by (simp add: cmd_p_def cmd_icd_def answer_of_def drive_specs_def be16_bytes_def drives_example_def)
qed (simp_all add: mod_cmd_def hostmods_def)


end
