(* ===== verification/HostMedia.thy ===== *)
theory HostMedia
  imports Prelude
begin

text \<open>
  The media behind the host's SCSI devices (src/ce_main_app/native: nomedia.cpp, testmedia.cpp, sdmedia.cpp,
  imagefilemedia.cpp, devicemedia.cpp, translatedbootmedia.cpp). A buffer that sectors are read to is an
  argument and a result. An open file is its bytes; reading and writing of an open image file succeed as
  far as the file reaches, a device does not grow. Logging and the choice between \<open>lseek\<close> and its system
  call are left out.
\<close>

section \<open>Files\<close>

definition os_read :: "nat \<Rightarrow> nat \<Rightarrow> BYTE list \<Rightarrow> BYTE list" where
  "os_read pos n file = take n (drop pos file)"

definition os_write :: "nat \<Rightarrow> BYTE list \<Rightarrow> BYTE list \<Rightarrow> BYTE list" where
  "os_write pos bs file = take pos (file @ replicate (pos - length file) 0) @ bs @ drop (pos + length bs) file"

definition store_at :: "nat \<Rightarrow> BYTE list \<Rightarrow> BYTE list \<Rightarrow> BYTE list" where
  "store_at pos bs buf = take pos buf @ overwrite (drop pos buf) bs"

section \<open>SD card, image file and device\<close>

record sdmedia =
  sd_capacityInSectors :: int
  sd_mediaChangedFlag :: bool

record filemedia =
  im_BCapacity :: int
  im_SCapacity :: int
  im_changed :: bool
  im_fd :: "BYTE list option"

text \<open>The bytes of an open device and whether it was opened for writing.\<close>

record devmedia =
  dm_BCapacity :: int
  dm_SCapacity :: int
  dm_changed :: bool
  dm_fdes :: "(BYTE list \<times> bool) option"

definition new_sd :: sdmedia where
  "new_sd = \<lparr>sd_capacityInSectors = 0, sd_mediaChangedFlag = False\<rparr>"

definition sd_setCurrentCapacity :: "DWORD \<Rightarrow> sdmedia \<Rightarrow> sdmedia" where
  "sd_setCurrentCapacity sectors m =
     (if sd_capacityInSectors m \<noteq> uint sectors then m\<lparr>sd_capacityInSectors := uint sectors, sd_mediaChangedFlag := True\<rparr> else m)"

text \<open>
  \<open>file\<close> is what opening the path gives; a file that is created is filled with 2048 sectors of zeros.
\<close>

definition image_iopen :: "BYTE list option \<Rightarrow> bool \<Rightarrow> bool \<Rightarrow> filemedia \<times> bool" where
  "image_iopen file createIfNotExists canCreate =
     (let fd = (case file of Some bs \<Rightarrow> Some bs
                | None \<Rightarrow> if createIfNotExists \<and> canCreate then Some (replicate (2048 * 512) 0) else None)
      in case fd of
           None \<Rightarrow> (\<lparr>im_BCapacity = 0, im_SCapacity = 0, im_changed = False, im_fd = None\<rparr>, False)
         | Some bs \<Rightarrow> (\<lparr>im_BCapacity = int (length bs), im_SCapacity = int (length bs) div 512, im_changed = False, im_fd = Some bs\<rparr>, True))"

definition image_iclose :: "filemedia \<Rightarrow> filemedia" where
  "image_iclose m = m\<lparr>im_BCapacity := 0, im_SCapacity := 0, im_changed := False, im_fd := None\<rparr>"

definition image_readSectors :: "int \<Rightarrow> nat \<Rightarrow> BYTE list \<Rightarrow> filemedia \<Rightarrow> BYTE list \<times> bool" where
  "image_readSectors sectorNo count bfr m =
     (case im_fd m of None \<Rightarrow> (bfr, False)
      | Some file \<Rightarrow>
          if sectorNo \<ge> im_SCapacity m then (bfr, False)
          else (let got = os_read (nat (sectorNo * 512)) (count * 512) file
                in (overwrite bfr got, length got = count * 512)))"

definition image_writeSectors :: "int \<Rightarrow> nat \<Rightarrow> BYTE list \<Rightarrow> filemedia \<Rightarrow> filemedia \<times> bool" where
  "image_writeSectors sectorNo count bfr m =
     (case im_fd m of None \<Rightarrow> (m, False)
      | Some file \<Rightarrow>
          if sectorNo \<ge> im_SCapacity m then (m, False)
          else (m\<lparr>im_fd := Some (os_write (nat (sectorNo * 512)) (take (count * 512) bfr) file)\<rparr>, True))"

text \<open>\<open>dev\<close>: the bytes, whether it can be written, and what the driver says of its sectors.\<close>

definition device_iopen :: "(BYTE list \<times> bool) option \<Rightarrow> DWORD option \<Rightarrow> devmedia \<times> bool" where
  "device_iopen dev sz =
     (case dev of
        None \<Rightarrow> (\<lparr>dm_BCapacity = 0, dm_SCapacity = 0, dm_changed = False, dm_fdes = None\<rparr>, False)
      | Some f \<Rightarrow>
          (case sz of
             None \<Rightarrow> (\<lparr>dm_BCapacity = 0, dm_SCapacity = 0, dm_changed = False, dm_fdes = Some f\<rparr>, False)
           | Some s \<Rightarrow> (\<lparr>dm_BCapacity = uint s * 512, dm_SCapacity = uint s, dm_changed = False, dm_fdes = Some f\<rparr>, True)))"

definition device_readSectors :: "int \<Rightarrow> nat \<Rightarrow> BYTE list \<Rightarrow> devmedia \<Rightarrow> BYTE list \<times> bool" where
  "device_readSectors sectorNo count bfr m =
     (case dm_fdes m of None \<Rightarrow> (bfr, False)
      | Some (dev, w) \<Rightarrow>
          (let got = os_read (nat (sectorNo * 512)) (count * 512) dev
           in (overwrite bfr got, length got = count * 512)))"

definition device_writeSectors :: "int \<Rightarrow> nat \<Rightarrow> BYTE list \<Rightarrow> devmedia \<Rightarrow> devmedia \<times> bool" where
  "device_writeSectors sectorNo count bfr m =
     (case dm_fdes m of None \<Rightarrow> (m, False)
      | Some (dev, w) \<Rightarrow>
          if \<not> w then (m, False)
          else (let pos = nat (sectorNo * 512); room = length dev - pos; put = take (min room (count * 512)) bfr
                in (m\<lparr>dm_fdes := Some (if put = [] then dev else os_write pos put dev, w)\<rparr>, length put = count * 512)))"

section \<open>The boot image of the translated disk\<close>

abbreviation (input) TRANSLATEDBOOTMEDIA_SIZE :: nat where "TRANSLATEDBOOTMEDIA_SIZE \<equiv> 131072"

text \<open>What the host's files hold and which bus the firmware has reported.\<close>

record hostenv =
  he_hddIsAcsi :: bool
  he_bs_l1 :: "BYTE list option"
  he_bs_l2 :: "BYTE list option"
  he_ce_dd :: "BYTE list option"

record bootmedia =
  tb_ifaceIsAcsi :: bool
  tb_BCapacity :: int
  tb_SCapacity :: int
  tb_gotImage :: bool
  tb_imageBuffer :: "BYTE list"
  tb_lastUsedAcsiId :: BYTE

definition boot_sum :: "nat \<Rightarrow> BYTE list \<Rightarrow> WORD" where
  "boot_sum n bfr = fold (\<lambda>i sum. sum + be16 (bfr ! (2 * i)) (bfr ! (2 * i + 1))) [0..<n] 0"

definition calculateChecksum :: "BYTE list \<Rightarrow> BYTE list" where
  "calculateChecksum bfr =
     (let cs = 0x1234 - boot_sum 255 bfr in bfr[510 := ucast (drop_bit 8 cs), 511 := ucast cs])"

definition getConfigPosition :: "BYTE list \<Rightarrow> nat option" where
  "getConfigPosition bfr = find (\<lambda>i. bfr ! i = 0x58 \<and> bfr ! (i + 1) = 0x58) [0..<512]"

definition updateBootsectorConfigWithACSIid :: "hostenv \<Rightarrow> BYTE \<Rightarrow> bootmedia \<Rightarrow> bootmedia" where
  "updateBootsectorConfigWithACSIid env acsiId t =
     (let t = t\<lparr>tb_lastUsedAcsiId := acsiId\<rparr>
      in case getConfigPosition (tb_imageBuffer t) of None \<Rightarrow> t
         | Some pos \<Rightarrow>
             (let hdd_id = (if he_hddIsAcsi env then acsiId else acsiId + 8)
              in t\<lparr>tb_imageBuffer := calculateChecksum ((tb_imageBuffer t)[pos + 6 := hdd_id])\<rparr>))"

definition dword_at :: "BYTE list \<Rightarrow> nat \<Rightarrow> DWORD" where
  "dword_at bfr i = be32 (bfr ! i) (bfr ! (i + 1)) (bfr ! (i + 2)) (bfr ! (i + 3))"

definition updateBootsectorConfig :: "hostenv \<Rightarrow> bootmedia \<Rightarrow> bootmedia" where
  "updateBootsectorConfig env t =
     (let b = tb_imageBuffer t;
          totalSize = dword_at b 1026 + dword_at b 1030 + dword_at b 1034;
          totalSize = (totalSize div 1024 + 2) * 1024
      in case getConfigPosition b of None \<Rightarrow> t
         | Some pos \<Rightarrow>
             (let b = store_at (pos + 2) (be32_bytes totalSize) (b[pos + 7 := word_of_int (tb_SCapacity t - 1)])
              in updateBootsectorConfigWithACSIid env (tb_lastUsedAcsiId t) (t\<lparr>tb_imageBuffer := calculateChecksum b\<rparr>)))"

text \<open>
  The driver is read in blocks of 512 bytes until a block is not full. Blocks behind the buffer are left
  out here; the code writes them past its end.
\<close>

fun load_driver :: "nat \<Rightarrow> nat \<Rightarrow> BYTE list \<Rightarrow> BYTE list \<Rightarrow> BYTE list" where
  "load_driver 0 offset file b = b"
| "load_driver (Suc n) offset file b =
     load_driver n (offset + 512) (drop 512 file) (store_at offset (overwrite (replicate 512 0) (take 512 file)) b)"

definition loadDataIntoBuffer :: "hostenv \<Rightarrow> bootmedia \<Rightarrow> bootmedia \<times> bool" where
  "loadDataIntoBuffer env t =
     (case he_bs_l1 env of None \<Rightarrow> (t, False)
      | Some l1 \<Rightarrow>
          (let t = t\<lparr>tb_imageBuffer := store_at 0 (take 512 l1) (tb_imageBuffer t)\<rparr>
           in if length l1 < 512 then (t, False)
              else (let t = t\<lparr>tb_ifaceIsAcsi := he_hddIsAcsi env\<rparr>
                    in case he_bs_l2 env of None \<Rightarrow> (t, False)
                       | Some l2 \<Rightarrow>
                           (let t = t\<lparr>tb_imageBuffer := store_at 512 (take 512 l2) (tb_imageBuffer t)\<rparr>
                            in if length l2 < 512 then (t, False)
                               else (case he_ce_dd env of None \<Rightarrow> (t, False)
                                     | Some prg \<Rightarrow>
                                         (let n = length prg div 512 + 1;
                                              t = t\<lparr>tb_imageBuffer := load_driver n 1024 prg (tb_imageBuffer t),
                                                    tb_SCapacity := int (2 + n), tb_BCapacity := int (2 + n) * 512\<rparr>
                                          in (updateBootsectorConfig env t, True)))))))"

definition new_boot :: "hostenv \<Rightarrow> bool \<Rightarrow> bootmedia" where
  "new_boot env acsi =
     (let t = \<lparr>tb_ifaceIsAcsi = acsi, tb_BCapacity = int TRANSLATEDBOOTMEDIA_SIZE, tb_SCapacity = int TRANSLATEDBOOTMEDIA_SIZE div 512,
               tb_gotImage = False, tb_imageBuffer = replicate TRANSLATEDBOOTMEDIA_SIZE 0, tb_lastUsedAcsiId = 0xff\<rparr>
      in case loadDataIntoBuffer env t of (t, res) \<Rightarrow> if res then t\<lparr>tb_gotImage := True\<rparr> else t)"

definition boot_readSectors :: "hostenv \<Rightarrow> int \<Rightarrow> nat \<Rightarrow> BYTE list \<Rightarrow> bootmedia \<Rightarrow> bootmedia \<times> BYTE list \<times> bool" where
  "boot_readSectors env sectorNo count bfr t =
     (if \<not> tb_gotImage t then (t, bfr, False)
      else if sectorNo \<ge> tb_SCapacity t then (t, bfr, False)
      else (let t = (if sectorNo = 0 \<and> tb_ifaceIsAcsi t \<noteq> he_hddIsAcsi env then fst (loadDataIntoBuffer env t) else t);
                bfr = overwrite bfr (replicate (count * 512) 0);
                remaining = nat (tb_SCapacity t - sectorNo);
                n = (if count > remaining then remaining else count)
            in (t, overwrite bfr (take (n * 512) (drop (nat sectorNo * 512) (tb_imageBuffer t))), True)))"

section \<open>The interface\<close>

datatype media = NoMedia | TestMedia | SdMedia sdmedia | ImageFileMedia filemedia | DeviceMedia devmedia | TranslatedBootMedia bootmedia

fun media_isInit :: "media \<Rightarrow> bool" where
  "media_isInit NoMedia = True"
| "media_isInit TestMedia = True"
| "media_isInit (SdMedia m) = (sd_capacityInSectors m \<noteq> 0)"
| "media_isInit (ImageFileMedia m) = (im_fd m \<noteq> None)"
| "media_isInit (DeviceMedia m) = (dm_fdes m \<noteq> None)"
| "media_isInit (TranslatedBootMedia m) = tb_gotImage m"

fun mediaChanged :: "media \<Rightarrow> bool" where
  "mediaChanged (SdMedia m) = sd_mediaChangedFlag m"
| "mediaChanged (ImageFileMedia m) = im_changed m"
| "mediaChanged (DeviceMedia m) = dm_changed m"
| "mediaChanged _ = False"

fun setMediaChanged :: "bool \<Rightarrow> media \<Rightarrow> media" where
  "setMediaChanged c (SdMedia m) = SdMedia (m\<lparr>sd_mediaChangedFlag := c\<rparr>)"
| "setMediaChanged c (ImageFileMedia m) = ImageFileMedia (m\<lparr>im_changed := c\<rparr>)"
| "setMediaChanged c (DeviceMedia m) = DeviceMedia (m\<lparr>dm_changed := c\<rparr>)"
| "setMediaChanged c m = m"

text \<open>The sectors; the bytes are not used by the devices.\<close>

fun getCapacity :: "media \<Rightarrow> int" where
  "getCapacity NoMedia = 0"
| "getCapacity TestMedia = 1"
| "getCapacity (SdMedia m) = sd_capacityInSectors m"
| "getCapacity (ImageFileMedia m) = im_SCapacity m"
| "getCapacity (DeviceMedia m) = dm_SCapacity m"
| "getCapacity (TranslatedBootMedia m) = tb_SCapacity m"

fun media_readSectors :: "hostenv \<Rightarrow> int \<Rightarrow> nat \<Rightarrow> BYTE list \<Rightarrow> media \<Rightarrow> media \<times> BYTE list \<times> bool" where
  "media_readSectors env sectorNo count bfr NoMedia = (NoMedia, bfr, True)"
| "media_readSectors env sectorNo count bfr TestMedia = (TestMedia, overwrite bfr (map of_nat [0..<count * 512]), True)"
| "media_readSectors env sectorNo count bfr (SdMedia m) = (SdMedia m, bfr, False)"
| "media_readSectors env sectorNo count bfr (ImageFileMedia m) = (ImageFileMedia m, image_readSectors sectorNo count bfr m)"
| "media_readSectors env sectorNo count bfr (DeviceMedia m) = (DeviceMedia m, device_readSectors sectorNo count bfr m)"
| "media_readSectors env sectorNo count bfr (TranslatedBootMedia m) = apfst TranslatedBootMedia (boot_readSectors env sectorNo count bfr m)"

fun media_writeSectors :: "int \<Rightarrow> nat \<Rightarrow> BYTE list \<Rightarrow> media \<Rightarrow> media \<times> bool" where
  "media_writeSectors sectorNo count bfr NoMedia = (NoMedia, True)"
| "media_writeSectors sectorNo count bfr TestMedia = (TestMedia, True)"
| "media_writeSectors sectorNo count bfr (SdMedia m) = (SdMedia m, False)"
| "media_writeSectors sectorNo count bfr (ImageFileMedia m) = apfst ImageFileMedia (image_writeSectors sectorNo count bfr m)"
| "media_writeSectors sectorNo count bfr (DeviceMedia m) = apfst DeviceMedia (device_writeSectors sectorNo count bfr m)"
| "media_writeSectors sectorNo count bfr (TranslatedBootMedia m) = (TranslatedBootMedia m, False)"

end
