(* ===== verification/HostScsi.thy ===== *)
theory HostScsi
  imports HostCore HostMedia
begin

text \<open>
  The host's SCSI devices (src/ce_main_app/native: scsi.cpp, scsi_rw.cpp, scsi_helpers.cpp): one command of
  the Atari on the medium that is attached to its ID. The state and the data transporter are passed as a
  pair; \<open>cmd\<close> holds the bytes of the command. The pointer \<open>dataMedia\<close> of a command is the one of the
  attached medium, whose objects are members of the class or, for images and devices, owned by their slot.
  A \<open>char\<close> has no sign, as on the host's processor.
\<close>

section \<open>State\<close>

datatype mediaptr = MediaNull | PtrNoMedia | PtrTestMedia | PtrTranBoot | PtrSdMedia | Allocated media

record TScsiConf =
  ac_hostPath :: string
  ac_hostSourceType :: int
  ac_accessType :: int
  ac_dataMedia :: mediaptr
  ac_dynamic :: bool
  ac_devInfoIndex :: int

record TDevInfo =
  di_attachedMediaIndex :: int
  di_accessType :: int
  di_LastStatus :: BYTE
  di_ASC :: BYTE
  di_ASCQ :: BYTE
  di_SK :: BYTE

record scsi =
  sc_attachedMedia :: "TScsiConf list"
  sc_devInfo :: "TDevInfo list"
  sc_tranBootMedia :: bootmedia
  sc_sdMedia :: sdmedia
  sc_dataBuffer :: "BYTE list"
  sc_dataBuffer2 :: "BYTE list"
  sc_notJustStatus :: bool
  sc_acsiId :: nat
  sc_acsiIDdevType :: "BYTE list"
  sc_sdCardAcsiId :: BYTE
  sc_env :: hostenv

abbreviation (input) SCSI_ACCESSTYPE_FULL :: int where "SCSI_ACCESSTYPE_FULL \<equiv> 0"
abbreviation (input) SCSI_ACCESSTYPE_READ_ONLY :: int where "SCSI_ACCESSTYPE_READ_ONLY \<equiv> 1"
abbreviation (input) SCSI_ACCESSTYPE_NO_DATA :: int where "SCSI_ACCESSTYPE_NO_DATA \<equiv> 2"
abbreviation (input) SOURCETYPE_NONE :: int where "SOURCETYPE_NONE \<equiv> 0"
abbreviation (input) SOURCETYPE_IMAGE :: int where "SOURCETYPE_IMAGE \<equiv> 1"
abbreviation (input) SOURCETYPE_IMAGE_TRANSLATEDBOOT :: int where "SOURCETYPE_IMAGE_TRANSLATEDBOOT \<equiv> 2"
abbreviation (input) SOURCETYPE_DEVICE :: int where "SOURCETYPE_DEVICE \<equiv> 3"
abbreviation (input) SOURCETYPE_SD_CARD :: int where "SOURCETYPE_SD_CARD \<equiv> 4"
abbreviation (input) SOURCETYPE_TESTMEDIA :: int where "SOURCETYPE_TESTMEDIA \<equiv> 100"
abbreviation (input) SCSI_BUFFER_SIZE :: nat where "SCSI_BUFFER_SIZE \<equiv> 1048576"
abbreviation (input) BUFFER_SIZE_SECTORS :: nat where "BUFFER_SIZE_SECTORS \<equiv> 2048"

type_synonym scsi_state = "scsi \<times> datatrans"

definition dev_info :: "scsi \<Rightarrow> TDevInfo" where
  "dev_info z = sc_devInfo z ! sc_acsiId z"

definition media_slot :: "scsi \<Rightarrow> nat" where
  "media_slot z = nat (di_attachedMediaIndex (dev_info z))"

definition deref :: "scsi \<Rightarrow> mediaptr \<Rightarrow> media option" where
  "deref z p = (case p of MediaNull \<Rightarrow> None | PtrNoMedia \<Rightarrow> Some NoMedia | PtrTestMedia \<Rightarrow> Some TestMedia
     | PtrTranBoot \<Rightarrow> Some (TranslatedBootMedia (sc_tranBootMedia z)) | PtrSdMedia \<Rightarrow> Some (SdMedia (sc_sdMedia z)) | Allocated m \<Rightarrow> Some m)"

definition dataMedia :: "scsi \<Rightarrow> media option" where
  "dataMedia z = (if di_attachedMediaIndex (dev_info z) \<noteq> - 1 then deref z (ac_dataMedia (sc_attachedMedia z ! media_slot z)) else None)"

definition the_media :: "scsi \<Rightarrow> media" where
  "the_media z = the (dataMedia z)"

text \<open>What a call through the pointer leaves in the object.\<close>

definition set_media :: "media \<Rightarrow> scsi \<Rightarrow> scsi" where
  "set_media m z =
     (case ac_dataMedia (sc_attachedMedia z ! media_slot z) of
        Allocated _ \<Rightarrow> z\<lparr>sc_attachedMedia := (sc_attachedMedia z)[media_slot z := (sc_attachedMedia z ! media_slot z)\<lparr>ac_dataMedia := Allocated m\<rparr>]\<rparr>
      | PtrTranBoot \<Rightarrow> (case m of TranslatedBootMedia t \<Rightarrow> z\<lparr>sc_tranBootMedia := t\<rparr> | _ \<Rightarrow> z)
      | PtrSdMedia \<Rightarrow> (case m of SdMedia s \<Rightarrow> z\<lparr>sc_sdMedia := s\<rparr> | _ \<Rightarrow> z)
      | _ \<Rightarrow> z)"

section \<open>Status and sense\<close>

definition storeSenseAndSendStatus :: "BYTE \<Rightarrow> BYTE \<Rightarrow> BYTE \<Rightarrow> BYTE \<Rightarrow> scsi_state \<Rightarrow> scsi_state" where
  "storeSenseAndSendStatus status senseKey additionalSenseCode ascq zd =
     (case zd of (z, d) \<Rightarrow>
        (z\<lparr>sc_devInfo := (sc_devInfo z)[sc_acsiId z := (dev_info z)\<lparr>di_LastStatus := status, di_SK := senseKey,
             di_ASC := additionalSenseCode, di_ASCQ := ascq\<rparr>]\<rparr>,
         setStatus status d))"

definition returnInvalidCommand :: "scsi_state \<Rightarrow> scsi_state" where
  "returnInvalidCommand = storeSenseAndSendStatus 2 5 0x20 0"

definition SendOKstatus :: "scsi_state \<Rightarrow> scsi_state" where
  "SendOKstatus = storeSenseAndSendStatus 0 0 0 0"

definition clear_changed :: "scsi_state \<Rightarrow> scsi_state" where
  "clear_changed zd = (case zd of (z, d) \<Rightarrow> (set_media (setMediaChanged False (the_media z)) z, d))"

definition ReturnUnitAttention :: "scsi_state \<Rightarrow> scsi_state" where
  "ReturnUnitAttention zd = storeSenseAndSendStatus 2 6 0x28 0 (clear_changed zd)"

definition ClearTheUnitAttention :: "scsi_state \<Rightarrow> scsi_state" where
  "ClearTheUnitAttention zd = clear_changed (storeSenseAndSendStatus 0 0 0 0 zd)"

definition ReturnStatusAccordingToIsInit :: "scsi_state \<Rightarrow> scsi_state" where
  "ReturnStatusAccordingToIsInit zd =
     (if media_isInit (the_media (fst zd)) then SendOKstatus zd else storeSenseAndSendStatus 2 2 0x3a 0 zd)"

definition isICDcommand :: "BYTE list \<Rightarrow> bool" where
  "isICDcommand cmd \<longleftrightarrow> cmd ! 0 AND 0x1f = 0x1f"

definition Scsi_ICD7_to_SCSI6 :: "BYTE list \<Rightarrow> BYTE list" where
  "Scsi_ICD7_to_SCSI6 cmd = cmd[0 := cmd ! 1, 1 := cmd ! 2, 2 := cmd ! 3, 3 := cmd ! 4, 4 := cmd ! 5, 5 := cmd ! 6]"

section \<open>Reading and writing\<close>

definition z_read :: "DWORD \<Rightarrow> nat \<Rightarrow> scsi \<Rightarrow> scsi \<times> bool" where
  "z_read start n z =
     (case media_readSectors (sc_env z) (uint start) n (sc_dataBuffer z) (the_media z) of
        (m, b, ok) \<Rightarrow> ((set_media m z)\<lparr>sc_dataBuffer := b\<rparr>, ok))"

definition z_read2 :: "DWORD \<Rightarrow> nat \<Rightarrow> scsi \<Rightarrow> scsi \<times> bool" where
  "z_read2 start n z =
     (case media_readSectors (sc_env z) (uint start) n (sc_dataBuffer2 z) (the_media z) of
        (m, b, ok) \<Rightarrow> ((set_media m z)\<lparr>sc_dataBuffer2 := b\<rparr>, ok))"

definition z_write :: "DWORD \<Rightarrow> nat \<Rightarrow> scsi \<Rightarrow> scsi \<times> bool" where
  "z_write start n z =
     (case media_writeSectors (uint start) n (sc_dataBuffer z) (the_media z) of (m, ok) \<Rightarrow> (set_media m z, ok))"

definition z_recv :: "BYTE list \<Rightarrow> scsi \<Rightarrow> scsi" where
  "z_recv bs z = z\<lparr>sc_dataBuffer := overwrite (sc_dataBuffer z) bs\<rparr>"

definition readSectors_small :: "DWORD \<Rightarrow> DWORD \<Rightarrow> scsi_state \<Rightarrow> scsi_state \<times> bool" where
  "readSectors_small startSectorNo sectorCount zd =
     (case zd of (z, d) \<Rightarrow>
        case z_read startSectorNo (unat sectorCount) z of
          (z, res) \<Rightarrow> if \<not> res then ((z, d), False)
                     else ((z, addDataBfr (take (unat (sectorCount * 512)) (sc_dataBuffer z)) True d), True))"

function read_loop :: "DWORD \<Rightarrow> nat \<Rightarrow> scsi_state \<Rightarrow> scsi_state \<times> bool" where
  "read_loop startSectorNo sectorCount (z, d) =
     (if sectorCount = 0 then ((z, d), True)
      else let sectorCountNow = (if sectorCount < BUFFER_SIZE_SECTORS then sectorCount else BUFFER_SIZE_SECTORS);
               (z, res) = z_read startSectorNo sectorCountNow z
           in if \<not> res then ((z, d), False)
              else let (d, res) = sendData_transferBlock (sc_dataBuffer z) (of_nat (sectorCountNow * 512)) d
                   in if \<not> res then ((z, d), False)
                      else read_loop (startSectorNo + of_nat sectorCountNow) (sectorCount - sectorCountNow) (z, d))"
  by pat_completeness auto
termination by (relation "measure (\<lambda>(_, n, _). n)") auto

declare read_loop.simps [simp del]

definition readSectors_big :: "DWORD \<Rightarrow> DWORD \<Rightarrow> scsi_state \<Rightarrow> scsi_state \<times> bool" where
  "readSectors_big startSectorNo sectorCount zd =
     (case zd of (z, d) \<Rightarrow>
        let z = z\<lparr>sc_notJustStatus := False\<rparr>;
            (d, res) = sendData_start (sectorCount * 512) 0 False d
        in if \<not> res then ((z, d), False) else read_loop startSectorNo (unat sectorCount) (z, d))"

definition writeSectors_small :: "DWORD \<Rightarrow> DWORD \<Rightarrow> scsi_state \<Rightarrow> scsi_state \<times> bool" where
  "writeSectors_small startSectorNo sectorCount zd =
     (case zd of (z, d) \<Rightarrow>
        case recvData (sectorCount * 512) d of
          (d, bs, res) \<Rightarrow>
            (let z = z_recv bs z
             in if \<not> res then ((z, d), False)
                else (case z_write startSectorNo (unat sectorCount) z of (z, res) \<Rightarrow> ((z, d), res))))"

function write_loop :: "DWORD \<Rightarrow> nat \<Rightarrow> scsi_state \<Rightarrow> scsi_state \<times> bool" where
  "write_loop startSectorNo sectorCount (z, d) =
     (if sectorCount = 0 then ((z, d), True)
      else let sectorCountNow = (if sectorCount < BUFFER_SIZE_SECTORS then sectorCount else BUFFER_SIZE_SECTORS);
               (d, bs, res) = recvData_transferBlock (of_nat (sectorCountNow * 512)) d;
               z = z_recv bs z
           in if \<not> res then ((z, d), False)
              else let (z, res) = z_write startSectorNo sectorCountNow z
                   in if \<not> res then ((z, d), False)
                      else write_loop (startSectorNo + of_nat sectorCountNow) (sectorCount - sectorCountNow) (z, d))"
  by pat_completeness auto
termination by (relation "measure (\<lambda>(_, n, _). n)") auto

declare write_loop.simps [simp del]

definition writeSectors_big :: "DWORD \<Rightarrow> DWORD \<Rightarrow> scsi_state \<Rightarrow> scsi_state \<times> bool" where
  "writeSectors_big startSectorNo sectorCount zd =
     (case zd of (z, d) \<Rightarrow>
        let z = z\<lparr>sc_notJustStatus := False\<rparr>;
            (d, res) = recvData_start (sectorCount * 512) d
        in if \<not> res then ((z, d), False) else write_loop startSectorNo (unat sectorCount) (z, d))"

function compare_loop :: "DWORD \<Rightarrow> nat \<Rightarrow> scsi_state \<Rightarrow> scsi_state \<times> bool" where
  "compare_loop startSectorNo sectorCount (z, d) =
     (if sectorCount = 0 then ((z, d), True)
      else let sectorCountNow = (if sectorCount < BUFFER_SIZE_SECTORS then sectorCount else BUFFER_SIZE_SECTORS);
               (d, bs, res) = recvData_transferBlock (of_nat (sectorCountNow * 512)) d;
               z = z_recv bs z
           in if \<not> res then ((z, d), False)
              else let (z, res) = z_read2 startSectorNo sectorCountNow z
                   in if \<not> res then ((z, d), False)
                      else if take (sectorCountNow * 512) (sc_dataBuffer z) \<noteq> take (sectorCountNow * 512) (sc_dataBuffer2 z) then ((z, d), False)
                      else compare_loop (startSectorNo + of_nat sectorCountNow) (sectorCount - sectorCountNow) (z, d))"
  by pat_completeness auto
termination by (relation "measure (\<lambda>(_, n, _). n)") auto

declare compare_loop.simps [simp del]

definition compareSectors :: "DWORD \<Rightarrow> DWORD \<Rightarrow> scsi_state \<Rightarrow> scsi_state \<times> bool" where
  "compareSectors startSectorNo sectorCount zd =
     (case zd of (z, d) \<Rightarrow>
        let (d, res) = recvData_start (sectorCount * 512) d
        in if \<not> res then ((z, d), False) else compare_loop startSectorNo (unat sectorCount) (z, d))"

definition readWriteGeneric :: "bool \<Rightarrow> DWORD \<Rightarrow> DWORD \<Rightarrow> scsi_state \<Rightarrow> scsi_state" where
  "readWriteGeneric readNotWrite startingSector sectorCount zd =
     (if sectorCount * 512 > 0xffffff then storeSenseAndSendStatus 2 5 0 0 zd
      else if uint (startingSector + sectorCount - 1) > getCapacity (the_media (fst zd)) then storeSenseAndSendStatus 2 5 0x21 0 zd
      else (let (zd, res) = (if sectorCount < 2048
                 then (if readNotWrite then readSectors_small startingSector sectorCount zd else writeSectors_small startingSector sectorCount zd)
                 else (if readNotWrite then readSectors_big startingSector sectorCount zd else writeSectors_big startingSector sectorCount zd))
            in if res then SendOKstatus zd else storeSenseAndSendStatus 2 3 0 0 zd))"

definition start6 :: "BYTE list \<Rightarrow> DWORD" where
  "start6 cmd = push_bit 8 (push_bit 8 (ucast (cmd ! 1 AND 0x1f)) OR ucast (cmd ! 2)) OR ucast (cmd ! 3)"

definition count6 :: "BYTE list \<Rightarrow> WORD" where
  "count6 cmd = (let sectorCount = ucast (cmd ! 4) in if sectorCount = 0 then 256 else sectorCount)"

definition start10 :: "BYTE list \<Rightarrow> DWORD" where
  "start10 cmd = push_bit 8 (push_bit 8 (push_bit 8 (ucast (cmd ! 3)) OR ucast (cmd ! 4)) OR ucast (cmd ! 5)) OR ucast (cmd ! 6)"

definition count10 :: "BYTE list \<Rightarrow> WORD" where
  "count10 cmd = push_bit 8 (ucast (cmd ! 8)) OR ucast (cmd ! 9)"

definition SCSI_ReadWrite6 :: "BYTE list \<Rightarrow> bool \<Rightarrow> scsi_state \<Rightarrow> scsi_state" where
  "SCSI_ReadWrite6 cmd readNotWrite = readWriteGeneric readNotWrite (start6 cmd) (ucast (count6 cmd))"

definition SCSI_ReadWrite10 :: "BYTE list \<Rightarrow> bool \<Rightarrow> scsi_state \<Rightarrow> scsi_state" where
  "SCSI_ReadWrite10 cmd readNotWrite = readWriteGeneric readNotWrite (start10 cmd) (ucast (count10 cmd))"

definition SCSI_Verify :: "BYTE list \<Rightarrow> scsi_state \<Rightarrow> scsi_state" where
  "SCSI_Verify cmd zd =
     (if cmd ! 2 AND 0x02 = 0x02
      then (let (zd, res) = compareSectors (start10 cmd) (ucast (count10 cmd)) zd
            in if \<not> res then storeSenseAndSendStatus 2 0x0e 0x1d 0 zd else SendOKstatus zd)
      else SendOKstatus zd)"

section \<open>The other commands\<close>

fun erase_loop :: "nat \<Rightarrow> DWORD \<Rightarrow> scsi \<Rightarrow> scsi \<times> bool" where
  "erase_loop 0 i z = (z, True)"
| "erase_loop (Suc n) i z = (case z_write i 1 z of (z, res) \<Rightarrow> if \<not> res then (z, False) else erase_loop n (i + 1) z)"

definition eraseMedia :: "scsi \<Rightarrow> scsi \<times> bool" where
  "eraseMedia z = erase_loop 100 0 (z\<lparr>sc_dataBuffer := overwrite (sc_dataBuffer z) (replicate 512 0)\<rparr>)"

definition Scsi_FormatUnit :: "scsi_state \<Rightarrow> scsi_state" where
  "Scsi_FormatUnit zd =
     (case zd of (z, d) \<Rightarrow>
        case eraseMedia z of (z, res) \<Rightarrow> if res then SendOKstatus (z, d) else storeSenseAndSendStatus 2 3 0 0 (z, d))"

text \<open>The four characters of the type of the medium, a number if it has no name.\<close>

fun digits :: "nat \<Rightarrow> BYTE list" where
  "digits n = (if n < 10 then [0x30 + of_nat n] else digits (n div 10) @ [0x30 + of_nat (n mod 10)])"

declare digits.simps [simp del]

definition type_str :: "int \<Rightarrow> BYTE list" where
  "type_str t =
     (if t = SOURCETYPE_IMAGE then [0x49, 0x4d, 0x47, 0x20]
      else if t = SOURCETYPE_IMAGE_TRANSLATEDBOOT then [0x43, 0x45, 0x44, 0x44]
      else if t = SOURCETYPE_DEVICE then [0x52, 0x41, 0x57, 0x20]
      else if t = SOURCETYPE_SD_CARD then [0x53, 0x44, 0x20, 0x20]
      else let ds = (if t < 0 then 0x2d # digits (nat (- t)) else digits (nat t))
           in take 4 (replicate (4 - length ds) 0x20 @ ds))"

text \<open>JOOKIE, CosmosEx and the ID, the type, version 2.20 and the date 05/10/18.\<close>

definition inquiry_data :: "BYTE \<Rightarrow> nat \<Rightarrow> BYTE list \<Rightarrow> BYTE list" where
  "inquiry_data lun acsiId typ =
     [if lun = 0 then 0 else 0x7f, 0x80, 0x02, 0x02, 0x27, 0, 0, 0,
      0x4a, 0x4f, 0x4f, 0x4b, 0x49, 0x45, 0x20, 0x20,
      0x43, 0x6f, 0x73, 0x6d, 0x6f, 0x73, 0x45, 0x78, 0x20, 0x30 + of_nat acsiId, 0x20] @ typ @ [0x20,
      0x32, 0x2e, 0x32, 0x30, 0x30, 0x35, 0x2f, 0x31, 0x30, 0x2f, 0x31, 0x38]"

definition Scsi_Inquiry :: "BYTE list \<Rightarrow> BYTE \<Rightarrow> scsi_state \<Rightarrow> scsi_state" where
  "Scsi_Inquiry cmd lun zd =
     (let zd = (if mediaChanged (the_media (fst zd)) then ClearTheUnitAttention zd else zd)
      in if cmd ! 1 AND 0x01 \<noteq> 0 then storeSenseAndSendStatus 2 5 0x24 0 zd
         else (case zd of (z, d) \<Rightarrow>
                 let typ = (if di_attachedMediaIndex (dev_info z) \<noteq> - 1
                            then type_str (ac_hostSourceType (sc_attachedMedia z ! media_slot z)) else replicate 4 0x20);
                     inquiryLength = unat (cmd ! 4); dat = inquiry_data lun (sc_acsiId z) typ;
                     d = (if inquiryLength \<le> 44 then addDataBfr (take inquiryLength dat) False d
                          else (addDataByte 0 ^^ (inquiryLength - 44)) (addDataBfr dat False d))
                 in SendOKstatus (z, d)))"

definition page_control :: "BYTE list" where
  "page_control = [0x0a, 0x06, 0, 0, 0, 0, 0, 0]"

definition page_medium :: "BYTE list" where
  "page_medium = [0x0b, 0x06, 0, 0, 0, 0, 0, 0]"

definition mode_byte :: "BYTE \<Rightarrow> nat \<Rightarrow> BYTE" where
  "mode_byte PageCode i =
     (let len = (if PageCode = 0x0a \<or> PageCode = 0x0b then 8 else if PageCode = 0x3f then 16 else 0);
          val = (if i = 0 then 3 + len else 0);
          val = (if PageCode = 0x0a \<and> 4 \<le> i \<and> i \<le> 11 then page_control ! (i - 4) else val);
          val = (if PageCode = 0x0b \<and> 4 \<le> i \<and> i \<le> 11 then page_medium ! (i - 4) else val)
      in if PageCode = 0x3f
         then (let val = (if 4 \<le> i \<and> i \<le> 11 then page_control ! (i - 4) else val)
               in if 12 \<le> i \<and> i \<le> 19 then page_medium ! (i - 12) else val)
         else val)"

definition add_bytes :: "BYTE list \<Rightarrow> datatrans \<Rightarrow> datatrans" where
  "add_bytes bs d = fold addDataByte bs d"

definition Scsi_ModeSense6 :: "BYTE list \<Rightarrow> scsi_state \<Rightarrow> scsi_state" where
  "Scsi_ModeSense6 cmd zd =
     (let PageCode = cmd ! 2 AND 0x3f
      in if PageCode \<noteq> 0x0a \<and> PageCode \<noteq> 0x0b \<and> PageCode \<noteq> 0x3f then storeSenseAndSendStatus 2 5 0x24 0 zd
         else (case zd of (z, d) \<Rightarrow> SendOKstatus (z, add_bytes (map (mode_byte PageCode) [0..<unat (cmd ! 4)]) d)))"

definition Scsi_sense_byte :: "BYTE \<Rightarrow> BYTE \<Rightarrow> BYTE \<Rightarrow> BYTE \<Rightarrow> nat \<Rightarrow> BYTE" where
  "Scsi_sense_byte sk asc ascq xx i =
     (if i = 0 then 0xf0 else if i = 2 then sk else if i = 7 then xx - 7 else if i = 12 then asc else if i = 13 then ascq else 0)"

definition Scsi_RequestSense :: "BYTE list \<Rightarrow> BYTE \<Rightarrow> scsi_state \<Rightarrow> scsi_state" where
  "Scsi_RequestSense cmd lun zd =
     (case (if mediaChanged (the_media (fst zd)) then ClearTheUnitAttention zd else zd) of
        (z, d) \<Rightarrow>
          (let xx = cmd ! 4; (sk, asc, ascq) = (if lun = 0 then (di_SK (dev_info z), di_ASC (dev_info z), di_ASCQ (dev_info z)) else (5, 0x25, 0))
           in SendOKstatus (z, add_bytes (map (Scsi_sense_byte sk asc ascq xx) [0..<unat xx]) d)))"

definition Scsi_ReadCapacity :: "scsi_state \<Rightarrow> scsi_state" where
  "Scsi_ReadCapacity zd =
     (case zd of (z, d) \<Rightarrow>
        let cap = (word_of_int (getCapacity (the_media z) - 1) :: DWORD);
            bs = (if media_isInit (the_media z)
                  then [ucast (drop_bit 24 cap AND 0xff), ucast (drop_bit 16 cap AND 0xff), ucast (drop_bit 8 cap AND 0xff), ucast (cap AND 0xff)]
                  else [0, 0, 0, 0])
        in SendOKstatus (z, add_bytes (bs @ [0, 0, 2, 0]) d))"

section \<open>Commands\<close>

definition ProcScsi6 :: "BYTE list \<Rightarrow> BYTE \<Rightarrow> BYTE \<Rightarrow> scsi_state \<Rightarrow> scsi_state" where
  "ProcScsi6 cmd lun justCmd zd =
     (let m = the_media (fst zd); acc = di_accessType (dev_info (fst zd))
      in if \<not> media_isInit m \<and> (justCmd = 0x04 \<or> justCmd = 0x08 \<or> justCmd = 0x0a) then ReturnStatusAccordingToIsInit zd
         else if mediaChanged m \<and> justCmd \<noteq> 0x12 \<and> justCmd \<noteq> 0x03 then ReturnUnitAttention zd
         else if acc = SCSI_ACCESSTYPE_READ_ONLY \<and> (justCmd = 0x04 \<or> justCmd = 0x0a) then returnInvalidCommand zd
         else if acc = SCSI_ACCESSTYPE_NO_DATA \<and> (justCmd = 0x04 \<or> justCmd = 0x0a \<or> justCmd = 0x08) then returnInvalidCommand zd
         else if justCmd = 0x1d \<or> justCmd = 0x16 \<or> justCmd = 0x17 \<or> justCmd = 0x00 then ReturnStatusAccordingToIsInit zd
         else if justCmd = 0x1a then Scsi_ModeSense6 cmd zd
         else if justCmd = 0x03 then Scsi_RequestSense cmd lun zd
         else if justCmd = 0x12 then Scsi_Inquiry cmd lun zd
         else if justCmd = 0x04 then Scsi_FormatUnit zd
         else if justCmd = 0x08 then SCSI_ReadWrite6 cmd True zd
         else if justCmd = 0x0a then SCSI_ReadWrite6 cmd False zd
         else returnInvalidCommand zd)"

definition ProcICD :: "BYTE list \<Rightarrow> BYTE \<Rightarrow> BYTE \<Rightarrow> scsi_state \<Rightarrow> scsi_state" where
  "ProcICD cmd lun justCmd zd =
     (let m = the_media (fst zd); acc = di_accessType (dev_info (fst zd))
      in if \<not> media_isInit m \<and> (justCmd = 0x28 \<or> justCmd = 0x2a \<or> justCmd = 0x25) then ReturnStatusAccordingToIsInit zd
         else if mediaChanged m \<and> justCmd \<noteq> 0x12 then ReturnUnitAttention zd
         else if acc = SCSI_ACCESSTYPE_READ_ONLY \<and> justCmd = 0x2a then returnInvalidCommand zd
         else if acc = SCSI_ACCESSTYPE_NO_DATA \<and> (justCmd = 0x2a \<or> justCmd = 0x28 \<or> justCmd = 0x2f) then returnInvalidCommand zd
         else if justCmd = 0x25 then Scsi_ReadCapacity zd
         else if justCmd = 0x12 then Scsi_Inquiry (Scsi_ICD7_to_SCSI6 cmd) lun zd
         else if justCmd = 0x28 then SCSI_ReadWrite10 cmd True zd
         else if justCmd = 0x2a then SCSI_ReadWrite10 cmd False zd
         else if justCmd = 0x2f then SCSI_Verify cmd zd
         else returnInvalidCommand zd)"

definition scsi_lun :: "BYTE list \<Rightarrow> BYTE" where
  "scsi_lun cmd = (if isICDcommand cmd then drop_bit 5 (cmd ! 2) else drop_bit 5 (cmd ! 1))"

definition scsi_justCmd :: "BYTE list \<Rightarrow> BYTE" where
  "scsi_justCmd cmd = (if isICDcommand cmd then cmd ! 1 else cmd ! 0 AND 0x1f)"

definition run_command :: "BYTE list \<Rightarrow> scsi_state \<Rightarrow> scsi_state" where
  "run_command cmd zd =
     (let lun = scsi_lun cmd; justCmd = scsi_justCmd cmd
      in if lun \<noteq> 0
         then (if justCmd = 0x03 then Scsi_RequestSense cmd lun zd
               else if justCmd = 0x12 then Scsi_Inquiry cmd lun zd
               else storeSenseAndSendStatus 2 5 0x25 0 zd)
         else if isICDcommand cmd then ProcICD cmd lun justCmd zd else ProcScsi6 cmd lun justCmd zd)"

definition Scsi_processCommand :: "scsi handler" where
  "Scsi_processCommand cmd zd =
     (case zd of (z, d) \<Rightarrow>
        let z = z\<lparr>sc_acsiId := unat (drop_bit 5 (cmd ! 0))\<rparr>; d = clear True d
        in if dataMedia z = None then (z, sendDataAndStatus False (setStatus SCSI_ST_CHECK_CONDITION d))
           else (case run_command cmd (z\<lparr>sc_notJustStatus := True\<rparr>, d) of
                   (z, d) \<Rightarrow> if sc_notJustStatus z then (z, sendDataAndStatus False d)
                             else (z, sendStatusToHans (di_LastStatus (dev_info z)) d)))"

end
