(* ===== verification/HostAttach.thy ===== *)
theory HostAttach
  imports HostScsi
begin

text \<open>
  Attaching media to the host's SCSI IDs (scsi.cpp): nine slots for media, eight IDs that point to slots,
  and slots that point back. What opening an image or a device gives is a parameter.
\<close>

section \<open>Slots and IDs\<close>

record hostfiles =
  hf_image :: "string \<Rightarrow> BYTE list option"
  hf_device :: "string \<Rightarrow> (BYTE list \<times> bool) option"
  hf_device_sectors :: "string \<Rightarrow> DWORD option"

definition empty_conf :: TScsiConf where
  "empty_conf = \<lparr>ac_hostPath = [], ac_hostSourceType = SOURCETYPE_NONE, ac_accessType = SCSI_ACCESSTYPE_NO_DATA, ac_dataMedia = MediaNull,
     ac_dynamic = False, ac_devInfoIndex = - 1\<rparr>"

definition initializeAttachedMediaVars :: "int \<Rightarrow> scsi \<Rightarrow> scsi" where
  "initializeAttachedMediaVars index z =
     (if index < 0 \<or> index \<ge> 9 then z else z\<lparr>sc_attachedMedia := (sc_attachedMedia z)[nat index := empty_conf]\<rparr>)"

definition detachMediaFromACSIidByIndex :: "int \<Rightarrow> scsi \<Rightarrow> scsi" where
  "detachMediaFromACSIidByIndex index z =
     (if index < 0 \<or> index \<ge> 8 then z
      else (let di = sc_devInfo z ! nat index
            in if di_attachedMediaIndex di = - 1 then z
               else (let z = initializeAttachedMediaVars (di_attachedMediaIndex di) z
                     in z\<lparr>sc_devInfo := (sc_devInfo z)[nat index := di\<lparr>di_attachedMediaIndex := - 1, di_accessType := SCSI_ACCESSTYPE_NO_DATA\<rparr>]\<rparr>)))"

definition dettachByIndex :: "int \<Rightarrow> scsi \<Rightarrow> scsi" where
  "dettachByIndex index z =
     (if index < 0 \<or> index \<ge> 9 then z
      else (let ind2 = ac_devInfoIndex (sc_attachedMedia z ! nat index);
                z = (if ind2 \<noteq> - 1 then detachMediaFromACSIidByIndex ind2 z else z)
            in initializeAttachedMediaVars index z))"

definition find_slot_by :: "(TScsiConf \<Rightarrow> bool) \<Rightarrow> scsi \<Rightarrow> int" where
  "find_slot_by P z = (case find (\<lambda>i. P (sc_attachedMedia z ! i)) [0..<9] of Some i \<Rightarrow> int i | None \<Rightarrow> - 1)"

definition findAttachedMediaByHostPath :: "string \<Rightarrow> scsi \<Rightarrow> int" where
  "findAttachedMediaByHostPath hostPath = find_slot_by (\<lambda>a. ac_hostPath a = hostPath)"

definition findEmptyAttachSlot :: "scsi \<Rightarrow> int" where
  "findEmptyAttachSlot = find_slot_by (\<lambda>a. ac_dataMedia a = MediaNull)"

definition dettachBySourceType :: "int \<Rightarrow> scsi \<Rightarrow> scsi" where
  "dettachBySourceType hostSourceType z =
     (let i = find_slot_by (\<lambda>a. ac_hostSourceType a = hostSourceType) z in if i = - 1 then z else dettachByIndex i z)"

definition dettachFromHostPath :: "string \<Rightarrow> scsi \<Rightarrow> scsi" where
  "dettachFromHostPath hostPath z =
     (let index = findAttachedMediaByHostPath hostPath z in if index = - 1 then z else dettachByIndex index z)"

definition detachAll :: "scsi \<Rightarrow> scsi" where
  "detachAll z = fold detachMediaFromACSIidByIndex [0..7] z"

definition detachAllUsbMedia :: "scsi \<Rightarrow> scsi" where
  "detachAllUsbMedia z =
     fold (\<lambda>i z. let k = di_attachedMediaIndex (sc_devInfo z ! nat i)
                 in if k = - 1 then z
                    else if ac_hostSourceType (sc_attachedMedia z ! nat k) \<noteq> SOURCETYPE_DEVICE then z
                    else detachMediaFromACSIidByIndex i z) [0..7] z"

section \<open>Attaching\<close>

abbreviation (input) DEVTYPE_SD :: BYTE where "DEVTYPE_SD \<equiv> 1"
abbreviation (input) DEVTYPE_RAW :: BYTE where "DEVTYPE_RAW \<equiv> 2"
abbreviation (input) DEVTYPE_TRANSLATED :: BYTE where "DEVTYPE_TRANSLATED \<equiv> 3"

definition canAttach :: "BYTE \<Rightarrow> int \<Rightarrow> bool" where
  "canAttach devType hostSourceType =
     (if devType = DEVTYPE_SD then hostSourceType = SOURCETYPE_SD_CARD
      else if devType = DEVTYPE_RAW then hostSourceType \<noteq> SOURCETYPE_SD_CARD \<and> hostSourceType \<noteq> SOURCETYPE_IMAGE_TRANSLATEDBOOT
      else if devType = DEVTYPE_TRANSLATED then hostSourceType = SOURCETYPE_IMAGE_TRANSLATEDBOOT
      else False)"

definition attachMediaToACSIid :: "int \<Rightarrow> int \<Rightarrow> int \<Rightarrow> scsi \<Rightarrow> scsi \<times> bool" where
  "attachMediaToACSIid mediaIndex hostSourceType accessType z =
     (case find (\<lambda>i. di_attachedMediaIndex (sc_devInfo z ! i) = - 1 \<and> canAttach (sc_acsiIDdevType z ! i) hostSourceType) [0..<8] of
        None \<Rightarrow> (z, False)
      | Some i \<Rightarrow>
          (let z = z\<lparr>sc_devInfo := (sc_devInfo z)[i := (sc_devInfo z ! i)\<lparr>di_attachedMediaIndex := mediaIndex, di_accessType := accessType\<rparr>],
                     sc_attachedMedia := (sc_attachedMedia z)[nat mediaIndex := (sc_attachedMedia z ! nat mediaIndex)\<lparr>ac_devInfoIndex := int i\<rparr>]\<rparr>
           in (if hostSourceType = SOURCETYPE_IMAGE_TRANSLATEDBOOT
               then z\<lparr>sc_tranBootMedia := updateBootsectorConfigWithACSIid (sc_env z) (of_nat i) (sc_tranBootMedia z)\<rparr> else z, True)))"

text \<open>The new contents of a slot, none when the medium cannot be opened.\<close>

definition new_conf :: "hostfiles \<Rightarrow> string \<Rightarrow> int \<Rightarrow> int \<Rightarrow> TScsiConf \<Rightarrow> TScsiConf option" where
  "new_conf hf hostPath hostSourceType accessType a =
     (let a' = a\<lparr>ac_hostPath := hostPath, ac_hostSourceType := hostSourceType, ac_dynamic := False\<rparr>
      in if hostSourceType = SOURCETYPE_SD_CARD then Some (a'\<lparr>ac_dataMedia := PtrSdMedia, ac_accessType := SCSI_ACCESSTYPE_FULL\<rparr>)
         else if hostSourceType = SOURCETYPE_NONE then Some (a'\<lparr>ac_dataMedia := PtrNoMedia, ac_accessType := SCSI_ACCESSTYPE_NO_DATA\<rparr>)
         else if hostSourceType = SOURCETYPE_IMAGE
         then (case image_iopen (hf_image hf hostPath) False False of
                 (m, ok) \<Rightarrow> if ok then Some (a'\<lparr>ac_dataMedia := Allocated (ImageFileMedia m), ac_accessType := accessType, ac_dynamic := True\<rparr>) else None)
         else if hostSourceType = SOURCETYPE_IMAGE_TRANSLATEDBOOT
         then Some (a'\<lparr>ac_dataMedia := PtrTranBoot, ac_accessType := SCSI_ACCESSTYPE_READ_ONLY\<rparr>)
         else if hostSourceType = SOURCETYPE_DEVICE
         then (case device_iopen (hf_device hf hostPath) (hf_device_sectors hf hostPath) of
                 (m, ok) \<Rightarrow> if ok then Some (a'\<lparr>ac_dataMedia := Allocated (DeviceMedia m), ac_accessType := SCSI_ACCESSTYPE_FULL, ac_dynamic := True\<rparr>) else None)
         else if hostSourceType = SOURCETYPE_TESTMEDIA then Some (a'\<lparr>ac_dataMedia := PtrTestMedia, ac_accessType := SCSI_ACCESSTYPE_FULL\<rparr>)
         else Some a)"

definition attachToHostPath :: "hostfiles \<Rightarrow> string \<Rightarrow> int \<Rightarrow> int \<Rightarrow> scsi \<Rightarrow> scsi \<times> bool" where
  "attachToHostPath hf hostPath hostSourceType accessType z =
     (let z = (if hostSourceType = SOURCETYPE_IMAGE_TRANSLATEDBOOT then dettachBySourceType SOURCETYPE_IMAGE_TRANSLATEDBOOT z else z);
          index = findAttachedMediaByHostPath hostPath z
      in if index \<noteq> - 1
         then (if ac_devInfoIndex (sc_attachedMedia z ! nat index) = - 1 then attachMediaToACSIid index hostSourceType accessType z else (z, True))
         else (let index = findEmptyAttachSlot z
               in if index = - 1 then (z, False)
                  else (let a = sc_attachedMedia z ! nat index
                        in case new_conf hf hostPath hostSourceType accessType a of
                             None \<Rightarrow> (z\<lparr>sc_attachedMedia := (sc_attachedMedia z)[nat index := a\<lparr>ac_dynamic := False\<rparr>]\<rparr>, False)
                           | Some a' \<Rightarrow> attachMediaToACSIid index hostSourceType accessType (z\<lparr>sc_attachedMedia := (sc_attachedMedia z)[nat index := a']\<rparr>))))"

text \<open>The settings: the types of the IDs, the ID of the SD card, and the image with its access.\<close>

definition sd_path :: string where "sd_path = ''SD_CARD''"
definition boot_path :: string where "boot_path = ''TRANSLATED BOOT MEDIA''"

fun trim_end :: "string \<Rightarrow> string" where
  "trim_end s = (if s = [] then [] else if last s = CHR 0x0a \<or> last s = CHR '' '' then trim_end (butlast s) else s)"

declare trim_end.simps [simp del]

definition image_setting :: "string \<Rightarrow> string \<times> int" where
  "image_setting s =
     (let img = trim_end s; word = rev (takeWhile (\<lambda>c. c \<noteq> CHR '' '') (rev img))
      in if length word < length img \<and> word \<in> {''READ_ONLY'', ''READONLY'', ''RO''}
         then (take (length img - length word - 1) img, SCSI_ACCESSTYPE_READ_ONLY) else (img, SCSI_ACCESSTYPE_FULL))"

definition scsi_loadSettings :: "hostfiles \<Rightarrow> BYTE list \<Rightarrow> BYTE \<Rightarrow> string \<Rightarrow> scsi \<Rightarrow> scsi" where
  "scsi_loadSettings hf devTypes sdId hddimage z =
     (let z = detachAll (z\<lparr>sc_acsiIDdevType := devTypes, sc_sdCardAcsiId := sdId\<rparr>);
          z = (if sdId \<noteq> 0xff then fst (attachToHostPath hf sd_path SOURCETYPE_SD_CARD SCSI_ACCESSTYPE_FULL z) else z);
          z = fst (attachToHostPath hf boot_path SOURCETYPE_IMAGE_TRANSLATEDBOOT SCSI_ACCESSTYPE_FULL z)
      in if trim_end hddimage = [] then z
         else (case image_setting hddimage of (img, acc) \<Rightarrow> fst (attachToHostPath hf img SOURCETYPE_IMAGE acc z)))"

definition new_scsi :: "hostfiles \<Rightarrow> BYTE list \<Rightarrow> BYTE \<Rightarrow> string \<Rightarrow> hostenv \<Rightarrow> bool \<Rightarrow> TDevInfo \<Rightarrow> scsi" where
  "new_scsi hf devTypes sdId hddimage env acsi di =
     scsi_loadSettings hf devTypes sdId hddimage
       \<lparr>sc_attachedMedia = replicate 9 empty_conf,
        sc_devInfo = replicate 8 (di\<lparr>di_attachedMediaIndex := - 1, di_accessType := SCSI_ACCESSTYPE_NO_DATA\<rparr>),
        sc_tranBootMedia = new_boot env acsi, sc_sdMedia = new_sd, sc_dataBuffer = replicate SCSI_BUFFER_SIZE 0,
        sc_dataBuffer2 = replicate SCSI_BUFFER_SIZE 0, sc_notJustStatus = True, sc_acsiId = 0, sc_acsiIDdevType = devTypes,
        sc_sdCardAcsiId = sdId, sc_env = env\<rparr>"

definition updateTranslatedBootMedia :: "scsi \<Rightarrow> scsi" where
  "updateTranslatedBootMedia z =
     (case find (\<lambda>i. sc_acsiIDdevType z ! i = DEVTYPE_TRANSLATED) [0..<8] of None \<Rightarrow> z
      | Some i \<Rightarrow> z\<lparr>sc_tranBootMedia := updateBootsectorConfigWithACSIid (sc_env z) (of_nat i) (sc_tranBootMedia z)\<rparr>)"

end
