(* ===== verification/HostScsiKept.thy ===== *)
theory HostScsiKept
  imports HostAttach
begin

text \<open>
  What a SCSI command of the host keeps: a locale for facts about the state that survive each small step
  of a command, with the steps that write a medium apart, and its instances for the links between slots
  and IDs and for the contents of the media.
\<close>

section \<open>The contract\<close>

locale scsi_frame =
  fixes P :: "scsi \<Rightarrow> bool" and w :: bool
  assumes sense: "P z \<Longrightarrow> P (z\<lparr>sc_devInfo := (sc_devInfo z)[sc_acsiId z := (dev_info z)\<lparr>di_LastStatus := a, di_SK := b, di_ASC := c, di_ASCQ := e\<rparr>]\<rparr>)"
    and changed: "P z \<Longrightarrow> P (set_media (setMediaChanged False (the_media z)) z)"
    and read: "P z \<Longrightarrow> P (set_media (fst (media_readSectors env s n bs (the_media z))) z)"
    and written: "P z \<Longrightarrow> w \<Longrightarrow> P (set_media (fst (media_writeSectors s n bs (the_media z))) z)"
    and buffers: "P z \<Longrightarrow> P (z\<lparr>sc_dataBuffer := bs\<rparr>)" "P z \<Longrightarrow> P (z\<lparr>sc_dataBuffer2 := bs\<rparr>)"
    and flag: "P z \<Longrightarrow> P (z\<lparr>sc_notJustStatus := f\<rparr>)"
begin

lemma store [simp]: "P (fst zd) \<Longrightarrow> P (fst (storeSenseAndSendStatus a b c e zd))"
  by (cases zd) (simp add: storeSenseAndSendStatus_def sense)

lemma unchanged [simp]: "P (fst zd) \<Longrightarrow> P (fst (clear_changed zd))"
  by (cases zd) (simp add: clear_changed_def changed)

lemma replies [simp]:
  assumes "P (fst zd)"
  shows "P (fst (SendOKstatus zd))" "P (fst (returnInvalidCommand zd))" "P (fst (ReturnUnitAttention zd))" "P (fst (ClearTheUnitAttention zd))"
    "P (fst (ReturnStatusAccordingToIsInit zd))"
  using assms by (simp_all add: SendOKstatus_def returnInvalidCommand_def ReturnUnitAttention_def ClearTheUnitAttention_def
      ReturnStatusAccordingToIsInit_def)

lemma moves [simp]:
  "P z \<Longrightarrow> P (fst (z_read s n z))" "P z \<Longrightarrow> P (fst (z_read2 s n z))" "P z \<Longrightarrow> P (z_recv bs z)" "P z \<Longrightarrow> w \<Longrightarrow> P (fst (z_write s n z))"
  using read [of z "sc_env z" "uint s" n "sc_dataBuffer z"] read [of z "sc_env z" "uint s" n "sc_dataBuffer2 z"]
    written [of z "uint s" n "sc_dataBuffer z"]
  by (auto simp: z_read_def z_read2_def z_recv_def z_write_def buffers split: prod.split)

lemma read_loop_P: "P z \<Longrightarrow> P (fst (fst (read_loop s n (z, d))))"
proof (induction n arbitrary: s z d rule: less_induct)
  case (less n)
  define m where "m = (if n < BUFFER_SIZE_SECTORS then n else BUFFER_SIZE_SECTORS)"
  have IH: "n \<noteq> 0 \<Longrightarrow> P z \<Longrightarrow> P (fst (fst (read_loop s (n - m) (z, d))))" for s z d
    by (rule less.IH) (auto simp: m_def)
  show ?case using less.prems moves(1) [OF less.prems, of s m]
    by (subst read_loop.simps) (simp only: m_def [symmetric] Let_def, simp add: split_beta IH)
qed

lemma write_loop_P: "P z \<Longrightarrow> w \<Longrightarrow> P (fst (fst (write_loop s n (z, d))))"
proof (induction n arbitrary: s z d rule: less_induct)
  case (less n)
  define m where "m = (if n < BUFFER_SIZE_SECTORS then n else BUFFER_SIZE_SECTORS)"
  have IH: "n \<noteq> 0 \<Longrightarrow> P z \<Longrightarrow> P (fst (fst (write_loop s (n - m) (z, d))))" for s z d
    by (rule less.IH) (use less.prems(2) in \<open>auto simp: m_def\<close>)
  have "P (z_recv bs z)" "P (fst (z_write s m (z_recv bs z)))" for bs using less.prems by simp_all
  then show ?case using less.prems
    by (subst write_loop.simps) (simp only: m_def [symmetric] Let_def, simp add: split_beta IH)
qed

lemma compare_loop_P: "P z \<Longrightarrow> P (fst (fst (compare_loop s n (z, d))))"
proof (induction n arbitrary: s z d rule: less_induct)
  case (less n)
  define m where "m = (if n < BUFFER_SIZE_SECTORS then n else BUFFER_SIZE_SECTORS)"
  have IH: "n \<noteq> 0 \<Longrightarrow> P z \<Longrightarrow> P (fst (fst (compare_loop s (n - m) (z, d))))" for s z d
    by (rule less.IH) (auto simp: m_def)
  have "P (z_recv bs z)" "P (fst (z_read2 s m (z_recv bs z)))" for bs using less.prems by simp_all
  then show ?case using less.prems
    by (subst compare_loop.simps) (simp only: m_def [symmetric] Let_def, simp add: split_beta IH)
qed

lemma reads_P:
  assumes "P z"
  shows "P (fst (fst (readSectors_small s n (z, d))))" "P (fst (fst (readSectors_big s n (z, d))))" "P (fst (fst (compareSectors s n (z, d))))"
  using assms moves(1) [OF assms, of s "unat n"]
  by (simp_all add: readSectors_small_def readSectors_big_def compareSectors_def Let_def read_loop_P compare_loop_P flag split_beta)

lemma writes_P:
  assumes "P z" and w
  shows "P (fst (fst (writeSectors_small s n (z, d))))" "P (fst (fst (writeSectors_big s n (z, d))))"
  using assms by (simp_all add: writeSectors_small_def writeSectors_big_def Let_def write_loop_P flag split_beta)

lemmas transfers = reads_P [of "fst zd" _ _ "snd zd" for zd, simplified] writes_P [of "fst zd" _ _ "snd zd" for zd, simplified]

lemma erase_P: "P z \<Longrightarrow> w \<Longrightarrow> P (fst (erase_loop n i z))"
proof (induction n arbitrary: i z)
  case (Suc n)
  then show ?case using moves(4) [of z i 1] by (simp add: split_beta)
qed simp

lemma rw_P: "P (fst zd) \<Longrightarrow> r \<or> w \<Longrightarrow> P (fst (readWriteGeneric r s n zd))"
  by (auto simp: readWriteGeneric_def split_beta Let_def transfers)

lemma format_P: "P (fst zd) \<Longrightarrow> w \<Longrightarrow> P (fst (Scsi_FormatUnit zd))"
  using erase_P [of "(fst zd)\<lparr>sc_dataBuffer := overwrite (sc_dataBuffer (fst zd)) (replicate 512 0)\<rparr>" 100 0]
  by (auto simp: Scsi_FormatUnit_def eraseMedia_def buffers split_beta)

lemma other_commands:
  assumes "P (fst zd)"
  shows "P (fst (Scsi_Inquiry cmd lun zd))" "P (fst (Scsi_ModeSense6 cmd zd))" "P (fst (Scsi_RequestSense cmd lun zd))"
    "P (fst (Scsi_ReadCapacity zd))" "P (fst (SCSI_Verify cmd zd))"
  using assms replies(4) [OF assms] transfers(3) [of zd]
  by (auto simp: Scsi_Inquiry_def Scsi_ModeSense6_def Scsi_RequestSense_def Scsi_ReadCapacity_def SCSI_Verify_def Let_def split_beta)

lemma run_command_P:
  assumes "P z" and "w \<or> di_accessType (dev_info z) \<in> {SCSI_ACCESSTYPE_READ_ONLY, SCSI_ACCESSTYPE_NO_DATA}"
  shows "P (fst (run_command cmd (z, d)))"
proof -
  have P: "P (fst (z, d))" using assms(1) by simp
  show ?thesis
  proof (cases w)
    case True
    with P show ?thesis
      by (simp add: run_command_def Let_def ProcScsi6_def ProcICD_def SCSI_ReadWrite6_def SCSI_ReadWrite10_def rw_P format_P other_commands)
  next
    case False
    with P assms(2) show ?thesis
      by (auto simp: run_command_def Let_def ProcScsi6_def ProcICD_def SCSI_ReadWrite6_def SCSI_ReadWrite10_def rw_P other_commands)
  qed
qed

end

section \<open>Contents of media\<close>

fun media_bytes :: "media \<Rightarrow> BYTE list option" where
  "media_bytes (ImageFileMedia m) = im_fd m"
| "media_bytes (DeviceMedia m) = map_option fst (dm_fdes m)"
| "media_bytes _ = None"

definition slot_bytes :: "scsi \<Rightarrow> nat \<Rightarrow> BYTE list option" where
  "slot_bytes z k = (case ac_dataMedia (sc_attachedMedia z ! k) of Allocated m \<Rightarrow> media_bytes m | _ \<Rightarrow> None)"

lemma bytes_kept [simp]:
  "media_bytes (setMediaChanged c m) = media_bytes m" "media_bytes (fst (media_readSectors env s n bs m)) = media_bytes m"
  by (cases m; simp add: apfst_def map_prod_def split_beta)+

lemma slot_bytes_set:
  assumes "k \<noteq> media_slot z \<or> (di_attachedMediaIndex (dev_info z) \<noteq> - 1 \<and> media_bytes m = media_bytes (the_media z))"
  shows "slot_bytes (set_media m z) k = slot_bytes z k"
  using assms
  by (cases "k = media_slot z \<and> k < length (sc_attachedMedia z)")
    (auto simp: slot_bytes_def set_media_def the_media_def dataMedia_def deref_def list_update_beyond split: mediaptr.split media.split)

lemma set_media_ids [simp]:
  "sc_acsiId (set_media m z) = sc_acsiId z" "sc_devInfo (set_media m z) = sc_devInfo z" "sc_notJustStatus (set_media m z) = sc_notJustStatus z"
  "sc_env (set_media m z) = sc_env z" "sc_dataBuffer (set_media m z) = sc_dataBuffer z" "sc_dataBuffer2 (set_media m z) = sc_dataBuffer2 z"
  "dev_info (set_media m z) = dev_info z" "media_slot (set_media m z) = media_slot z"
  by (simp_all add: set_media_def media_slot_def dev_info_def split: mediaptr.split media.split)

definition own_medium :: "nat \<Rightarrow> int \<Rightarrow> bool \<Rightarrow> (nat \<Rightarrow> BYTE list option) \<Rightarrow> scsi \<Rightarrow> bool" where
  "own_medium i s prot B z \<longleftrightarrow> sc_acsiId z = i \<and> di_attachedMediaIndex (dev_info z) = s \<and> s \<noteq> - 1 \<and>
     (\<forall>k. k \<noteq> nat s \<or> prot \<longrightarrow> slot_bytes z k = B k)"

interpretation own: scsi_frame "own_medium i s prot B" "\<not> prot" for i s prot B
proof
  fix z a b c e
  assume "own_medium i s prot B z"
  then show "own_medium i s prot B (z\<lparr>sc_devInfo := (sc_devInfo z)[sc_acsiId z := (dev_info z)\<lparr>di_LastStatus := a, di_SK := b, di_ASC := c, di_ASCQ := e\<rparr>]\<rparr>)"
    by (cases "sc_acsiId z < length (sc_devInfo z)") (auto simp: own_medium_def dev_info_def slot_bytes_def list_update_beyond)
next
  fix z assume "own_medium i s prot B z"
  then show "own_medium i s prot B (set_media (setMediaChanged False (the_media z)) z)"
    by (simp add: own_medium_def slot_bytes_set)
next
  fix z env t n bs assume "own_medium i s prot B z"
  then show "own_medium i s prot B (set_media (fst (media_readSectors env t n bs (the_media z))) z)"
    by (simp add: own_medium_def slot_bytes_set)
next
  fix z t n bs assume "own_medium i s prot B z" "\<not> prot"
  then show "own_medium i s prot B (set_media (fst (media_writeSectors t n bs (the_media z))) z)"
    by (auto simp: own_medium_def slot_bytes_set media_slot_def)
qed (auto simp: own_medium_def dev_info_def slot_bytes_def)

text \<open>
  C7: a command changes the contents of no medium but the one that is attached to its own ID, and not of
  that one either when the ID is attached for reading only or without data.
\<close>

theorem only_own_medium_written:
  assumes "i = unat (drop_bit 5 (cmd ! 0))"
    and "k \<noteq> nat (di_attachedMediaIndex (sc_devInfo z ! i)) \<or>
      di_accessType (sc_devInfo z ! i) = SCSI_ACCESSTYPE_READ_ONLY \<or> di_accessType (sc_devInfo z ! i) = SCSI_ACCESSTYPE_NO_DATA"
  shows "slot_bytes (fst (Scsi_processCommand cmd (z, d))) k = slot_bytes z k"
proof -
  let ?z = "z\<lparr>sc_acsiId := i\<rparr>" and ?d = "clear True d"
  define prot where "prot \<longleftrightarrow> di_accessType (sc_devInfo z ! i) = SCSI_ACCESSTYPE_READ_ONLY \<or> di_accessType (sc_devInfo z ! i) = SCSI_ACCESSTYPE_NO_DATA"
  show ?thesis
  proof (cases "dataMedia ?z = None")
    case True
    then show ?thesis unfolding Scsi_processCommand_def assms(1) [symmetric] by (simp add: Let_def slot_bytes_def)
  next
    case False
    define z1 where "z1 = ?z\<lparr>sc_notJustStatus := True\<rparr>"
    have dev: "dev_info z1 = sc_devInfo z ! i" "slot_bytes z1 = slot_bytes z" by (simp_all add: z1_def dev_info_def slot_bytes_def fun_eq_iff)
    have "di_attachedMediaIndex (sc_devInfo z ! i) \<noteq> - 1" using False by (auto simp: dataMedia_def dev_info_def)
    then have "own_medium i (di_attachedMediaIndex (sc_devInfo z ! i)) prot (slot_bytes z) z1"
      using dev by (simp add: own_medium_def) (simp add: z1_def)
    then have "own_medium i (di_attachedMediaIndex (sc_devInfo z ! i)) prot (slot_bytes z) (fst (run_command cmd (z1, ?d)))"
      by (rule own.run_command_P) (auto simp: dev prot_def)
    then have "slot_bytes (fst (run_command cmd (z1, ?d))) k = slot_bytes z k"
      using assms(2) by (auto simp: own_medium_def prot_def)
    then show ?thesis using False unfolding Scsi_processCommand_def assms(1) [symmetric] z1_def by (simp only: prod.case Let_def if_False) (simp add: split_beta)
  qed
qed

section \<open>Slots and IDs\<close>

definition id_slot :: "scsi \<Rightarrow> nat \<Rightarrow> int" where
  "id_slot z i = di_attachedMediaIndex (sc_devInfo z ! i)"

definition slot_id :: "scsi \<Rightarrow> nat \<Rightarrow> int" where
  "slot_id z k = ac_devInfoIndex (sc_attachedMedia z ! k)"

fun ptr_kind :: "mediaptr \<Rightarrow> mediaptr" where
  "ptr_kind (Allocated m) = Allocated NoMedia"
| "ptr_kind p = p"

definition links :: "scsi \<Rightarrow> (string \<times> mediaptr \<times> bool \<times> int) list \<times> int list" where
  "links z = (map (\<lambda>a. (ac_hostPath a, ptr_kind (ac_dataMedia a), ac_dynamic a, ac_devInfoIndex a)) (sc_attachedMedia z),
     map di_attachedMediaIndex (sc_devInfo z))"

definition links_ok :: "(string \<times> mediaptr \<times> bool \<times> int) list \<times> int list \<Rightarrow> bool" where
  "links_ok l \<longleftrightarrow> length (fst l) = 9 \<and> length (snd l) = 8 \<and>
     (\<forall>i<8. snd l ! i \<noteq> - 1 \<longrightarrow> 0 \<le> snd l ! i \<and> snd l ! i < 9 \<and>
        (case fst l ! nat (snd l ! i) of (_, p, _, j) \<Rightarrow> j = int i \<and> p \<noteq> MediaNull)) \<and>
     (\<forall>k<9. case fst l ! k of (path, p, dyn, j) \<Rightarrow>
        (j \<noteq> - 1 \<longrightarrow> 0 \<le> j \<and> j < 8 \<and> snd l ! nat j = int k) \<and> (dyn \<longleftrightarrow> p = Allocated NoMedia) \<and> (p = MediaNull \<longrightarrow> path = []))"

lemma links_set [simp]: "links (set_media m z) = links z"
  by (auto simp: links_def set_media_def split: mediaptr.split media.split intro!: map_update_same)

interpretation linked: scsi_frame "\<lambda>z. links z = l" True for l
proof
  fix z a b c e
  assume "links z = l"
  moreover have "map di_attachedMediaIndex ((sc_devInfo z)[sc_acsiId z := (dev_info z)\<lparr>di_LastStatus := a, di_SK := b, di_ASC := c, di_ASCQ := e\<rparr>]) =
      map di_attachedMediaIndex (sc_devInfo z)" by (rule map_update_same) (simp add: dev_info_def)
  ultimately show "links (z\<lparr>sc_devInfo := (sc_devInfo z)[sc_acsiId z := (dev_info z)\<lparr>di_LastStatus := a, di_SK := b, di_ASC := c, di_ASCQ := e\<rparr>]\<rparr>) = l"
    by (simp add: links_def)
qed (simp_all add: links_def [of "_\<lparr>sc_dataBuffer := _\<rparr>"] links_def [of "_\<lparr>sc_dataBuffer2 := _\<rparr>"] links_def [of "_\<lparr>sc_notJustStatus := _\<rparr>"], simp_all add: links_def)

lemma command_links: "links (fst (Scsi_processCommand cmd (z, d))) = links z"
proof -
  let ?z = "z\<lparr>sc_acsiId := unat (drop_bit 5 (cmd ! 0))\<rparr>"
  have "links ?z = links z" "links (?z\<lparr>sc_notJustStatus := True\<rparr>) = links z" by (simp_all add: links_def)
  with linked.run_command_P [of "?z\<lparr>sc_notJustStatus := True\<rparr>" "links z" cmd "clear True d"] show ?thesis
    by (simp add: Scsi_processCommand_def Let_def split_beta)
qed

end
