(* ===== verification/HostLinks.thy ===== *)
theory HostLinks
  imports HostScsiKept
begin

text \<open>
  Slots and SCSI IDs point to each other: the invariant over attaching, detaching, new settings and
  commands, in any order.
\<close>

section \<open>Detaching\<close>

definition ids_ok :: "scsi \<Rightarrow> bool" where
  "ids_ok z \<longleftrightarrow> links_ok (links z)"

lemma ids_okI:
  assumes "length (sc_attachedMedia z) = 9" and "length (sc_devInfo z) = 8"
    and "\<And>i. i < 8 \<Longrightarrow> id_slot z i \<noteq> - 1 \<Longrightarrow> 0 \<le> id_slot z i \<and> id_slot z i < 9 \<and> slot_id z (nat (id_slot z i)) = int i \<and>
       ac_dataMedia (sc_attachedMedia z ! nat (id_slot z i)) \<noteq> MediaNull"
    and "\<And>k. k < 9 \<Longrightarrow> slot_id z k \<noteq> - 1 \<Longrightarrow> 0 \<le> slot_id z k \<and> slot_id z k < 8 \<and> id_slot z (nat (slot_id z k)) = int k"
    and "\<And>k. k < 9 \<Longrightarrow> ac_dynamic (sc_attachedMedia z ! k) \<longleftrightarrow> ptr_kind (ac_dataMedia (sc_attachedMedia z ! k)) = Allocated NoMedia"
    and "\<And>k. k < 9 \<Longrightarrow> ac_dataMedia (sc_attachedMedia z ! k) = MediaNull \<Longrightarrow> ac_hostPath (sc_attachedMedia z ! k) = []"
  shows "ids_ok z"
  using assms unfolding ids_ok_def links_ok_def links_def id_slot_def slot_id_def
  by (auto simp: nat_less_iff elim: ptr_kind.elims)

lemma kind_null [simp]: "ptr_kind p = MediaNull \<longleftrightarrow> p = MediaNull"
  by (cases p) simp_all

lemma ids_okD:
  assumes "ids_ok z"
  shows "length (sc_attachedMedia z) = 9" "length (sc_devInfo z) = 8"
    "i < 8 \<Longrightarrow> id_slot z i \<noteq> - 1 \<Longrightarrow> 0 \<le> id_slot z i \<and> id_slot z i < 9 \<and> slot_id z (nat (id_slot z i)) = int i \<and>
       ac_dataMedia (sc_attachedMedia z ! nat (id_slot z i)) \<noteq> MediaNull"
    "k < 9 \<Longrightarrow> slot_id z k \<noteq> - 1 \<Longrightarrow> 0 \<le> slot_id z k \<and> slot_id z k < 8 \<and> id_slot z (nat (slot_id z k)) = int k"
    "k < 9 \<Longrightarrow> ac_dynamic (sc_attachedMedia z ! k) \<longleftrightarrow> ptr_kind (ac_dataMedia (sc_attachedMedia z ! k)) = Allocated NoMedia"
    "k < 9 \<Longrightarrow> ac_dataMedia (sc_attachedMedia z ! k) = MediaNull \<Longrightarrow> ac_hostPath (sc_attachedMedia z ! k) = []"
  using assms unfolding ids_ok_def links_ok_def links_def id_slot_def slot_id_def
  by (auto simp: nat_less_iff)

lemma empty_conf_fields [simp]:
  "ac_devInfoIndex empty_conf = - 1" "ac_dataMedia empty_conf = MediaNull" "ac_dynamic empty_conf = False" "ac_hostPath empty_conf = []"
  by (simp_all add: empty_conf_def)

lemma upd_nth: "k < length xs \<Longrightarrow> xs[k := a] ! j = (if j = k then a else xs ! j)"
  by (simp add: nth_list_update)

text \<open>A slot that no ID points to can be emptied.\<close>

lemma ids_ok_free:
  assumes "ids_ok z" and "slot_id z (nat k) = - 1"
  shows "ids_ok (initializeAttachedMediaVars k z)"
proof (cases "k < 0 \<or> k \<ge> 9")
  case True
  with assms(1) show ?thesis by (auto simp: initializeAttachedMediaVars_def)
next
  case False
  note ok = ids_okD [OF assms(1)]
  have no: "id_slot z i \<noteq> - 1 \<Longrightarrow> nat (id_slot z i) \<noteq> nat k" if "i < 8" for i using ok(3) [OF that] assms(2) by auto
  have s: "slot_id (initializeAttachedMediaVars k z) j = (if j = nat k then - 1 else slot_id z j)" if "j < 9" for j
    using False ok(1) that by (auto simp: initializeAttachedMediaVars_def slot_id_def nth_list_update)
  have i: "id_slot (initializeAttachedMediaVars k z) = id_slot z"
    by (simp add: initializeAttachedMediaVars_def id_slot_def fun_eq_iff)
  have a: "sc_attachedMedia (initializeAttachedMediaVars k z) = (sc_attachedMedia z)[nat k := empty_conf]"
    "sc_devInfo (initializeAttachedMediaVars k z) = sc_devInfo z" using False by (simp_all add: initializeAttachedMediaVars_def)
  have at: "sc_attachedMedia (initializeAttachedMediaVars k z) ! j = (if j = nat k then empty_conf else sc_attachedMedia z ! j)" for j
    unfolding a by (rule upd_nth) (use False ok(1) in auto)
  show ?thesis
  proof (rule ids_okI, goal_cases)
    case (3 j)
    with ok(3) [of j] no [of j] show ?case unfolding i at using s [of "nat (id_slot z j)"] by (auto simp: nat_less_iff)
  next
    case (4 j)
    with ok(4) [of j] s [of j] show ?case unfolding i by (auto split: if_splits)
  next
    case (5 j) then show ?case using ok(5) [of j] by (simp add: at)
  next
    case (6 j) then show ?case using ok(6) [of j] by (simp add: at split: if_splits)
  qed (simp_all add: a ok(1,2))
qed

lemma ids_ok_detach_id:
  assumes "ids_ok z"
  shows "ids_ok (detachMediaFromACSIidByIndex i z)"
proof (cases "i < 0 \<or> i \<ge> 8 \<or> id_slot z (nat i) = - 1")
  case True
  with assms show ?thesis by (auto simp: detachMediaFromACSIidByIndex_def Let_def id_slot_def)
next
  case False
  note ok = ids_okD [OF assms]
  let ?k = "nat (id_slot z (nat i))" and ?z = "detachMediaFromACSIidByIndex i z"
  have k: "0 \<le> id_slot z (nat i)" "id_slot z (nat i) < 9" "slot_id z ?k = i" using ok(3) [of "nat i"] False by auto
  have a: "sc_attachedMedia ?z = (sc_attachedMedia z)[?k := empty_conf]"
    "sc_devInfo ?z = (sc_devInfo z)[nat i := (sc_devInfo z ! nat i)\<lparr>di_attachedMediaIndex := - 1, di_accessType := SCSI_ACCESSTYPE_NO_DATA\<rparr>]"
    using False k(1,2) by (simp_all add: detachMediaFromACSIidByIndex_def Let_def initializeAttachedMediaVars_def id_slot_def)
  have s: "slot_id ?z j = (if j = ?k then - 1 else slot_id z j)" if "j < 9" for j
    using upd_nth [of ?k "sc_attachedMedia z"] k(1,2) ok(1) by (simp add: slot_id_def a nat_less_iff)
  have d: "id_slot ?z j = (if j = nat i then - 1 else id_slot z j)" if "j < 8" for j
    using upd_nth [of "nat i" "sc_devInfo z"] False ok(2) by (simp add: id_slot_def a nat_less_iff)
  have other: "nat (id_slot z j) \<noteq> ?k" if "j < 8" "j \<noteq> nat i" "id_slot z j \<noteq> - 1" for j
    using ok(3) [OF that(1,3)] k(3) that(2) by (metis nat_int)
  have at: "sc_attachedMedia ?z ! j = (if j = ?k then empty_conf else sc_attachedMedia z ! j)" for j
    unfolding a by (rule upd_nth) (use k(1,2) ok(1) in \<open>simp add: nat_less_iff\<close>)
  show ?thesis
  proof (rule ids_okI, goal_cases)
    case (3 j)
    then have "j \<noteq> nat i" "id_slot z j \<noteq> - 1" "id_slot ?z j = id_slot z j" using d [of j] by (auto split: if_splits)
    moreover from this(2) have "nat (id_slot z j) < 9" "nat (id_slot z j) \<noteq> ?k" using ok(3) [of j] other [of j] calculation(1) 3(1) by (simp_all add: nat_less_iff)
    ultimately show ?case using ok(3) [of j] 3(1) by (simp add: s at)
  next
    case (4 j)
    then have j: "slot_id z j \<noteq> - 1" "slot_id ?z j = slot_id z j" "j \<noteq> ?k" using s [of j] by (auto split: if_splits)
    have "nat (slot_id z j) \<noteq> nat i"
    proof
      assume "nat (slot_id z j) = nat i"
      with ok(4) [OF 4(1) j(1)] have "id_slot z (nat i) = int j" by simp
      with j(3) show False by simp
    qed
    with ok(4) [OF 4(1) j(1)] d [of "nat (slot_id z j)"] j(2) show ?case by auto
  next
    case (5 j) then show ?case using ok(5) [of j] by (simp add: at)
  next
    case (6 j) then show ?case using ok(6) [of j] by (simp add: at split: if_splits)
  qed (simp_all add: a ok(1,2))
qed

lemma ids_ok_detach_slot:
  assumes "ids_ok z"
  shows "ids_ok (dettachByIndex k z)"
proof (cases "k < 0 \<or> k \<ge> 9")
  case True
  with assms show ?thesis by (auto simp: dettachByIndex_def)
next
  case False
  note ok = ids_okD [OF assms]
  let ?i = "slot_id z (nat k)"
  show ?thesis
  proof (cases "?i = - 1")
    case True
    with False ids_ok_free [OF assms, of k] show ?thesis by (simp add: dettachByIndex_def Let_def slot_id_def)
  next
    case i: False
    have f: "0 \<le> ?i" "?i < 8" "id_slot z (nat ?i) = k" using ok(4) [of "nat k"] False i by auto
    have "nat k < length (sc_attachedMedia z)" using False ok(1) by (simp add: nat_less_iff)
    then have "slot_id (detachMediaFromACSIidByIndex ?i z) (nat k) = - 1"
      using f False by (simp add: slot_id_def detachMediaFromACSIidByIndex_def Let_def initializeAttachedMediaVars_def id_slot_def)
    with ids_ok_free [OF ids_ok_detach_id [OF assms, of ?i], of k] False i show ?thesis
      by (simp add: dettachByIndex_def Let_def slot_id_def)
  qed
qed

lemma ids_ok_detach:
  assumes "ids_ok z"
  shows "ids_ok (dettachFromHostPath p z)" "ids_ok (dettachBySourceType t z)" "ids_ok (detachAll z)" "ids_ok (detachAllUsbMedia z)"
proof -
  show "ids_ok (dettachFromHostPath p z)" "ids_ok (dettachBySourceType t z)"
    using assms ids_ok_detach_slot by (simp_all add: dettachFromHostPath_def dettachBySourceType_def Let_def)
  have "ids_ok (fold f is z)" if "\<And>i z. ids_ok z \<Longrightarrow> ids_ok (f i z)" for f and "is" :: "int list"
    using assms by (induction "is" arbitrary: z) (simp_all add: that)
  then show "ids_ok (detachAll z)" "ids_ok (detachAllUsbMedia z)"
    unfolding detachAll_def detachAllUsbMedia_def using ids_ok_detach_id by (simp_all add: Let_def)
qed

section \<open>Attaching\<close>

lemma found_slot:
  assumes "find_slot_by P z = k" and "k \<noteq> - 1"
  shows "0 \<le> k" "k < 9" "P (sc_attachedMedia z ! nat k)"
  using assms by (auto simp: find_slot_by_def find_Some_iff split: option.splits)

lemma links_boot [simp]: "ids_ok (z\<lparr>sc_tranBootMedia := t\<rparr>) = ids_ok z"
  by (simp add: ids_ok_def links_def)

lemma ids_ok_attach_id:
  assumes "ids_ok z" and "0 \<le> k" "k < 9" and "slot_id z (nat k) = - 1" and "ac_dataMedia (sc_attachedMedia z ! nat k) \<noteq> MediaNull"
  shows "ids_ok (fst (attachMediaToACSIid k t acc z))"
proof (cases "find (\<lambda>i. di_attachedMediaIndex (sc_devInfo z ! i) = - 1 \<and> canAttach (sc_acsiIDdevType z ! i) t) [0..<8]")
  case None
  with assms(1) show ?thesis by (simp add: attachMediaToACSIid_def)
next
  case (Some i)
  then have i: "i < 8" "id_slot z i = - 1" by (auto simp: find_Some_iff id_slot_def)
  note ok = ids_okD [OF assms(1)]
  define z1 where "z1 = z\<lparr>sc_devInfo := (sc_devInfo z)[i := (sc_devInfo z ! i)\<lparr>di_attachedMediaIndex := k, di_accessType := acc\<rparr>],
     sc_attachedMedia := (sc_attachedMedia z)[nat k := (sc_attachedMedia z ! nat k)\<lparr>ac_devInfoIndex := int i\<rparr>]\<rparr>"
  have at: "sc_attachedMedia z1 ! j = (if j = nat k then (sc_attachedMedia z ! nat k)\<lparr>ac_devInfoIndex := int i\<rparr> else sc_attachedMedia z ! j)" for j
    unfolding z1_def using assms(2,3) ok(1) by (simp add: upd_nth)
  have s: "slot_id z1 j = (if j = nat k then int i else slot_id z j)" for j by (simp add: slot_id_def at)
  have d: "id_slot z1 j = (if j = i then k else id_slot z j)" for j using i(1) ok(2) by (simp add: z1_def id_slot_def upd_nth)
  have "ids_ok z1"
  proof (rule ids_okI, goal_cases)
    case (3 j)
    show ?case
    proof (cases "j = i")
      case True
      then show ?thesis using assms(2,3,5) by (simp add: d s at)
    next
      case False
      then have j: "id_slot z1 j = id_slot z j" by (simp add: d)
      with ok(3) [of j] 3 have "nat (id_slot z j) \<noteq> nat k" using assms(4) by auto
      with j ok(3) [of j] 3 show ?thesis by (simp add: s at)
    qed
  next
    case (4 j)
    show ?case
    proof (cases "j = nat k")
      case True
      then show ?thesis using i assms(2) by (simp add: d s)
    next
      case False
      then have j: "slot_id z1 j = slot_id z j" by (simp add: s)
      with ok(4) [of j] 4 have "nat (slot_id z j) \<noteq> i" using i(2) by auto
      with j ok(4) [of j] 4 show ?thesis by (simp add: d)
    qed
  next
    case (5 j) then show ?case using ok(5) [of j] by (cases "j = nat k") (simp_all add: at)
  next
    case (6 j) then show ?case using ok(6) [of j] by (cases "j = nat k") (simp_all add: at)
  qed (simp_all add: z1_def ok(1,2))
  with Some show ?thesis by (simp add: attachMediaToACSIid_def z1_def [symmetric])
qed

definition known_types :: "int set" where
  "known_types = {SOURCETYPE_NONE, SOURCETYPE_IMAGE, SOURCETYPE_IMAGE_TRANSLATEDBOOT, SOURCETYPE_DEVICE, SOURCETYPE_SD_CARD, SOURCETYPE_TESTMEDIA}"

lemma new_conf_fields:
  assumes "new_conf hf path t acc a = Some a'" and "t \<in> known_types"
  shows "ac_devInfoIndex a' = ac_devInfoIndex a" "ac_dataMedia a' \<noteq> MediaNull" "ac_dynamic a' \<longleftrightarrow> ptr_kind (ac_dataMedia a') = Allocated NoMedia"
  using assms by (auto simp: new_conf_def known_types_def Let_def split: if_splits prod.splits)

lemma ids_ok_slot:
  assumes "ids_ok z" and "k < 9" and "ac_dataMedia (sc_attachedMedia z ! k) = MediaNull"
    and "ac_devInfoIndex a' = ac_devInfoIndex (sc_attachedMedia z ! k)" and "ac_dynamic a' \<longleftrightarrow> ptr_kind (ac_dataMedia a') = Allocated NoMedia"
    and "ac_dataMedia a' = MediaNull \<Longrightarrow> ac_hostPath a' = []"
  shows "ids_ok (z\<lparr>sc_attachedMedia := (sc_attachedMedia z)[k := a']\<rparr>)" and "slot_id z k = - 1"
proof -
  note ok = ids_okD [OF assms(1)]
  show free: "slot_id z k = - 1" using ok(3) [of "nat (slot_id z k)"] ok(4) [OF assms(2)] assms(3) by fastforce
  let ?z = "z\<lparr>sc_attachedMedia := (sc_attachedMedia z)[k := a']\<rparr>"
  have at: "sc_attachedMedia ?z ! j = (if j = k then a' else sc_attachedMedia z ! j)" for j using assms(2) ok(1) by (simp add: upd_nth)
  have s: "slot_id ?z j = slot_id z j" for j unfolding slot_id_def at using assms(4) by simp
  have d: "id_slot ?z j = id_slot z j" for j by (simp add: id_slot_def)
  show "ids_ok ?z"
  proof (rule ids_okI, goal_cases)
    case (3 j)
    then have "id_slot z j \<noteq> - 1" by (simp add: d)
    with ok(3) [OF 3(1)] assms(3) have "nat (id_slot z j) \<noteq> k" by auto
    with ok(3) [OF 3(1) \<open>id_slot z j \<noteq> - 1\<close>] show ?case unfolding s d at by simp
  next
    case (4 j) then show ?case using ok(4) [of j] by (simp add: s d)
  next
    case (5 j) then show ?case using ok(5) [of j] assms(5) unfolding at by simp
  next
    case (6 j) then show ?case using ok(6) [of j] assms(6) unfolding at by (simp split: if_splits)
  qed (simp_all add: ok(1,2))
qed

lemma ids_ok_attach:
  assumes "ids_ok z" and "path \<noteq> []" and "t \<in> known_types"
  shows "ids_ok (fst (attachToHostPath hf path t acc z))"
proof -
  define z0 where "z0 = (if t = SOURCETYPE_IMAGE_TRANSLATEDBOOT then dettachBySourceType SOURCETYPE_IMAGE_TRANSLATEDBOOT z else z)"
  have z0: "ids_ok z0" using assms(1) ids_ok_detach by (simp add: z0_def)
  note ok = ids_okD [OF z0]
  let ?k = "findAttachedMediaByHostPath path z0" and ?e = "findEmptyAttachSlot z0"
  let ?a = "sc_attachedMedia z0 ! nat ?e"
  show ?thesis
  proof (cases "?k = - 1")
    case False
    note f = found_slot [OF refl, of "\<lambda>a. ac_hostPath a = path" z0, folded findAttachedMediaByHostPath_def, OF False]
    have "ac_dataMedia (sc_attachedMedia z0 ! nat ?k) \<noteq> MediaNull" using ok(6) [of "nat ?k"] f assms(2) by (metis nat_less_iff of_nat_numeral)
    with ids_ok_attach_id [OF z0 f(1,2)] False z0 show ?thesis
      by (simp add: attachToHostPath_def z0_def [symmetric] Let_def slot_id_def)
  next
    case True
    show ?thesis
    proof (cases "?e = - 1")
      case e: True
      with True z0 show ?thesis by (simp add: attachToHostPath_def z0_def [symmetric] Let_def)
    next
      case e: False
      note f = found_slot [OF refl, of "\<lambda>a. ac_dataMedia a = MediaNull" z0, folded findEmptyAttachSlot_def, OF e]
      have k: "nat ?e < 9" using f by simp
      have p: "ac_hostPath ?a = []" by (rule ok(6) [OF k f(3)])
      show ?thesis
      proof (cases "new_conf hf path t acc ?a")
        case None
        have "ids_ok (z0\<lparr>sc_attachedMedia := (sc_attachedMedia z0)[nat ?e := ?a\<lparr>ac_dynamic := False\<rparr>]\<rparr>)"
          by (rule ids_ok_slot(1) [OF z0 k f(3)]) (use f(3) p in simp_all)
        with None True e show ?thesis by (simp add: attachToHostPath_def z0_def [symmetric] Let_def)
      next
        case (Some a')
        note n = new_conf_fields [OF Some assms(3)]
        let ?z = "z0\<lparr>sc_attachedMedia := (sc_attachedMedia z0)[nat ?e := a']\<rparr>"
        have z: "ids_ok ?z" "slot_id z0 (nat ?e) = - 1" by (rule ids_ok_slot [OF z0 k f(3) n(1,3)], use n(2) in simp)+
        have "slot_id ?z (nat ?e) = - 1" "ac_dataMedia (sc_attachedMedia ?z ! nat ?e) \<noteq> MediaNull"
          using z(2) n(1,2) k ok(1) by (simp_all add: slot_id_def)
        from ids_ok_attach_id [OF z(1) f(1,2) this] Some True e show ?thesis
          by (simp add: attachToHostPath_def z0_def [symmetric] Let_def)
      qed
    qed
  qed
qed

section \<open>Runs\<close>

text \<open>
  What the host's threads do to the SCSI devices, one at a time (they hold a lock). A path that is attached
  is not empty; an empty one would find a free slot.
\<close>

inductive scsi_step :: "hostfiles \<Rightarrow> scsi \<Rightarrow> scsi \<Rightarrow> bool" for hf where
  attach: "path \<noteq> [] \<Longrightarrow> t \<in> known_types \<Longrightarrow> scsi_step hf z (fst (attachToHostPath hf path t acc z))"
| detach: "scsi_step hf z (dettachFromHostPath path z)"
| detach_all: "scsi_step hf z (detachAll z)"
| detach_usb: "scsi_step hf z (detachAllUsbMedia z)"
| settings: "fst (image_setting img) \<noteq> [] \<or> trim_end img = [] \<Longrightarrow> scsi_step hf z (scsi_loadSettings hf types sdId img z)"
| command: "scsi_step hf z (fst (Scsi_processCommand cmd (z, d)))"
| sd_card: "scsi_step hf z (z\<lparr>sc_sdMedia := sd_setCurrentCapacity sectors (sc_sdMedia z)\<rparr>)"
| bus: "scsi_step hf z (updateTranslatedBootMedia (z\<lparr>sc_env := (sc_env z)\<lparr>he_hddIsAcsi := b\<rparr>\<rparr>))"

inductive scsi_reach :: "hostfiles \<Rightarrow> scsi \<Rightarrow> bool" for hf where
  start: "fst (image_setting img) \<noteq> [] \<or> trim_end img = [] \<Longrightarrow> scsi_reach hf (new_scsi hf types sdId img env acsi di)"
| step: "scsi_reach hf z \<Longrightarrow> scsi_step hf z z' \<Longrightarrow> scsi_reach hf z'"

lemma ids_ok_settings:
  assumes "ids_ok z" and "fst (image_setting img) \<noteq> [] \<or> trim_end img = []"
  shows "ids_ok (scsi_loadSettings hf types sdId img z)"
proof -
  define z1 where "z1 = detachAll (z\<lparr>sc_acsiIDdevType := types, sc_sdCardAcsiId := sdId\<rparr>)"
  define z2 where "z2 = (if sdId \<noteq> 0xff then fst (attachToHostPath hf sd_path SOURCETYPE_SD_CARD SCSI_ACCESSTYPE_FULL z1) else z1)"
  define z3 where "z3 = fst (attachToHostPath hf boot_path SOURCETYPE_IMAGE_TRANSLATEDBOOT SCSI_ACCESSTYPE_FULL z2)"
  have "ids_ok (z\<lparr>sc_acsiIDdevType := types, sc_sdCardAcsiId := sdId\<rparr>)" using assms(1) by (simp add: ids_ok_def links_def)
  then have z1: "ids_ok z1" unfolding z1_def by (rule ids_ok_detach(3))
  have p: "sd_path \<noteq> []" "boot_path \<noteq> []" by (simp_all add: sd_path_def boot_path_def)
  have "ids_ok z2" unfolding z2_def using ids_ok_attach [OF z1 p(1)] z1 by (simp add: known_types_def)
  then have "ids_ok z3" unfolding z3_def by (rule ids_ok_attach [OF _ p(2)]) (simp add: known_types_def)
  with ids_ok_attach [OF this, of "fst (image_setting img)" SOURCETYPE_IMAGE] assms(2) show ?thesis
    by (auto simp: scsi_loadSettings_def z1_def [symmetric] z2_def [symmetric] z3_def [symmetric] Let_def known_types_def split_beta)
qed

lemma ids_ok_empty:
  assumes "sc_attachedMedia z = replicate 9 empty_conf" and "length (sc_devInfo z) = 8" and "\<And>i. i < 8 \<Longrightarrow> id_slot z i = - 1"
  shows "ids_ok z"
  by (rule ids_okI) (use assms in \<open>simp_all add: slot_id_def\<close>)

lemma ids_ok_command: "ids_ok z \<Longrightarrow> ids_ok (fst (Scsi_processCommand cmd (z, d)))"
  by (simp add: ids_ok_def command_links)

lemma ids_ok_other:
  assumes "ids_ok z"
  shows "ids_ok (z\<lparr>sc_sdMedia := s\<rparr>)" "ids_ok (updateTranslatedBootMedia (z\<lparr>sc_env := e\<rparr>))"
  using assms by (simp_all add: ids_ok_def links_def updateTranslatedBootMedia_def split: option.split)

lemma ids_ok_step:
  assumes "scsi_step hf z z'" and "ids_ok z"
  shows "ids_ok z'"
  using assms(1)
proof cases
  case (attach path t acc)
  then show ?thesis using ids_ok_attach [OF assms(2)] by blast
next
  case (settings img types sdId)
  then show ?thesis using ids_ok_settings [OF assms(2)] by blast
next
  case (command cmd d)
  then show ?thesis using ids_ok_command [OF assms(2)] by blast
next
  case (bus b)
  then show ?thesis using ids_ok_other(2) [OF assms(2)] by blast
qed (use ids_ok_detach [OF assms(2)] ids_ok_other(1) [OF assms(2)] in blast)+

lemma ids_ok_new:
  assumes "fst (image_setting img) \<noteq> [] \<or> trim_end img = []"
  shows "ids_ok (new_scsi hf types sdId img env acsi di)"
proof -
  define b :: "BYTE list" where "b = replicate SCSI_BUFFER_SIZE 0"
  show ?thesis unfolding new_scsi_def b_def [symmetric]
    by (rule ids_ok_settings [OF ids_ok_empty assms]) (simp_all add: id_slot_def)
qed

lemma scsi_reach_ids: "scsi_reach hf z \<Longrightarrow> ids_ok z"
  by (induction rule: scsi_reach.induct) (auto intro: ids_ok_new ids_ok_step)

text \<open>
  C8: in every state of the SCSI devices an ID points to a slot with a medium that points back to it, and
  no two IDs share a slot; a slot points back only to the ID that uses it; and exactly the media that were
  allocated are those that detaching deletes.
\<close>

theorem slots_and_ids:
  assumes "scsi_reach hf z"
  shows "(\<forall>i<8. id_slot z i \<noteq> - 1 \<longrightarrow> 0 \<le> id_slot z i \<and> id_slot z i < 9 \<and> slot_id z (nat (id_slot z i)) = int i \<and>
       deref z (ac_dataMedia (sc_attachedMedia z ! nat (id_slot z i))) \<noteq> None) \<and>
    (\<forall>i<8. \<forall>j<8. id_slot z i = id_slot z j \<and> id_slot z i \<noteq> - 1 \<longrightarrow> i = j) \<and>
    (\<forall>k<9. slot_id z k \<noteq> - 1 \<longrightarrow> 0 \<le> slot_id z k \<and> slot_id z k < 8 \<and> id_slot z (nat (slot_id z k)) = int k) \<and>
    (\<forall>k<9. ac_dynamic (sc_attachedMedia z ! k) \<longleftrightarrow> (\<exists>m. ac_dataMedia (sc_attachedMedia z ! k) = Allocated m))"
proof -
  note ok = ids_okD [OF scsi_reach_ids [OF assms]]
  have d: "deref z p \<noteq> None \<longleftrightarrow> p \<noteq> MediaNull" for p by (simp add: deref_def split: mediaptr.split)
  have k: "ptr_kind p = Allocated NoMedia \<longleftrightarrow> (\<exists>m. p = Allocated m)" for p by (cases p) simp_all
  have "i = j" if "i < 8" "j < 8" "id_slot z i = id_slot z j" "id_slot z i \<noteq> - 1" for i j
  proof -
    have "id_slot z j \<noteq> - 1" using that(3,4) by metis
    from ok(3) [OF that(2) this] ok(3) [OF that(1,4)] have "int i = int j" unfolding that(3) by linarith
    then show ?thesis by simp
  qed
  then show ?thesis unfolding d k [symmetric] using ok(3,4,5) by blast
qed

end
