(* ===== verification/HostScsiEx.thy ===== *)
theory HostScsiEx
  imports HostLinks
begin

text \<open>
  An instance of the host's SCSI devices: all IDs are raw, the settings name an image, and the files of the
  boot image are missing.
\<close>

section \<open>The devices after the start\<close>

definition image_path :: string where "image_path = ''/hdd.img''"

definition files_example :: hostfiles where
  "files_example = \<lparr>hf_image = (\<lambda>p. if p = image_path then Some (replicate 1024 7) else None), hf_device = (\<lambda>_. None),
     hf_device_sectors = (\<lambda>_. None)\<rparr>"

definition env_example :: hostenv where
  "env_example = \<lparr>he_hddIsAcsi = True, he_bs_l1 = None, he_bs_l2 = None, he_ce_dd = None\<rparr>"

definition dev_example :: TDevInfo where
  "dev_example = \<lparr>di_attachedMediaIndex = - 1, di_accessType = SCSI_ACCESSTYPE_NO_DATA, di_LastStatus = 0, di_ASC = 0, di_ASCQ = 0, di_SK = 0\<rparr>"

definition scsi_example :: scsi where
  "scsi_example = new_scsi files_example (replicate 8 DEVTYPE_RAW) 0xff image_path env_example True dev_example"

definition image_example :: filemedia where
  "image_example = \<lparr>im_BCapacity = 1024, im_SCapacity = 2, im_changed = False, im_fd = Some (replicate 1024 7)\<rparr>"

lemma setting_example: "trim_end image_path = image_path" "image_setting image_path = (image_path, SCSI_ACCESSTYPE_FULL)"
proof -
  show t: "trim_end image_path = image_path" by (subst trim_end.simps) (simp add: image_path_def)
  show "image_setting image_path = (image_path, SCSI_ACCESSTYPE_FULL)" unfolding image_setting_def t by (simp add: image_path_def)
qed

lemma image_opened: "image_iopen (hf_image files_example image_path) False False = (image_example, True)"
  by (simp add: image_iopen_def files_example_def image_example_def)

lemma scsi_example_eq:
  "sc_attachedMedia scsi_example =
     [empty_conf\<lparr>ac_hostPath := boot_path, ac_hostSourceType := SOURCETYPE_IMAGE_TRANSLATEDBOOT, ac_dataMedia := PtrTranBoot, ac_accessType := SCSI_ACCESSTYPE_READ_ONLY\<rparr>,
      empty_conf\<lparr>ac_hostPath := image_path, ac_hostSourceType := SOURCETYPE_IMAGE, ac_dataMedia := Allocated (ImageFileMedia image_example),
        ac_accessType := SCSI_ACCESSTYPE_FULL, ac_dynamic := True, ac_devInfoIndex := 0\<rparr>] @ replicate 7 empty_conf"
  "sc_devInfo scsi_example = dev_example\<lparr>di_attachedMediaIndex := 1, di_accessType := SCSI_ACCESSTYPE_FULL\<rparr> # replicate 7 dev_example"
  "sc_dataBuffer scsi_example = replicate SCSI_BUFFER_SIZE 0"
proof -
  define b :: "BYTE list" where "b = replicate SCSI_BUFFER_SIZE 0"
  define z0 where "z0 = \<lparr>sc_attachedMedia = replicate 9 empty_conf,
        sc_devInfo = replicate 8 dev_example,
        sc_tranBootMedia = new_boot env_example True, sc_sdMedia = new_sd, sc_dataBuffer = b,
        sc_dataBuffer2 = b, sc_notJustStatus = True, sc_acsiId = 0, sc_acsiIDdevType = replicate 8 DEVTYPE_RAW,
        sc_sdCardAcsiId = 0xff, sc_env = env_example\<rparr>"
  have d: "detachAll (z0\<lparr>sc_acsiIDdevType := replicate 8 DEVTYPE_RAW, sc_sdCardAcsiId := 0xff\<rparr>) = z0"
    by (simp add: detachAll_def detachMediaFromACSIidByIndex_def z0_def dev_example_def Let_def upto.simps)
  have r: "[0..<9] = [0, 1, 2, 3, 4, 5, 6, 7, 8 :: nat]" "[0..<8] = [0, 1, 2, 3, 4, 5, 6, 7 :: nat]" by (simp_all add: upt_rec)
  have bne: "boot_path \<noteq> []" "image_path \<noteq> []" "boot_path \<noteq> image_path" by (simp_all add: boot_path_def image_path_def)
  define z1 where "z1 = z0\<lparr>sc_attachedMedia := (empty_conf\<lparr>ac_hostPath := boot_path, ac_hostSourceType := SOURCETYPE_IMAGE_TRANSLATEDBOOT,
     ac_dataMedia := PtrTranBoot, ac_accessType := SCSI_ACCESSTYPE_READ_ONLY\<rparr>) # replicate 8 empty_conf\<rparr>"
  have boot: "fst (attachToHostPath files_example boot_path SOURCETYPE_IMAGE_TRANSLATEDBOOT SCSI_ACCESSTYPE_FULL z0) = z1"
    using bne
    by (simp add: attachToHostPath_def dettachBySourceType_def findAttachedMediaByHostPath_def findEmptyAttachSlot_def find_slot_by_def r
        new_conf_def attachMediaToACSIid_def z0_def z1_def empty_conf_def dev_example_def canAttach_def numeral_eq_Suc Let_def)
  define z2 where "z2 = z1\<lparr>sc_attachedMedia :=
     [empty_conf\<lparr>ac_hostPath := boot_path, ac_hostSourceType := SOURCETYPE_IMAGE_TRANSLATEDBOOT, ac_dataMedia := PtrTranBoot, ac_accessType := SCSI_ACCESSTYPE_READ_ONLY\<rparr>,
      empty_conf\<lparr>ac_hostPath := image_path, ac_hostSourceType := SOURCETYPE_IMAGE, ac_dataMedia := Allocated (ImageFileMedia image_example),
        ac_accessType := SCSI_ACCESSTYPE_FULL, ac_dynamic := True, ac_devInfoIndex := 0\<rparr>] @ replicate 7 empty_conf,
     sc_devInfo := dev_example\<lparr>di_attachedMediaIndex := 1, di_accessType := SCSI_ACCESSTYPE_FULL\<rparr> # replicate 7 dev_example\<rparr>"
  have img: "fst (attachToHostPath files_example image_path SOURCETYPE_IMAGE SCSI_ACCESSTYPE_FULL z1) = z2"
    using bne
    by (simp add: attachToHostPath_def findAttachedMediaByHostPath_def findEmptyAttachSlot_def find_slot_by_def r image_opened
        new_conf_def attachMediaToACSIid_def z0_def z1_def z2_def empty_conf_def dev_example_def canAttach_def numeral_eq_Suc Let_def)
  have "scsi_example = scsi_loadSettings files_example (replicate 8 DEVTYPE_RAW) 0xff image_path z0"
    unfolding scsi_example_def new_scsi_def z0_def b_def by (simp add: dev_example_def)
  also have "\<dots> = z2" unfolding scsi_loadSettings_def d using bne(2) by (simp add: boot img setting_example)
  finally have e: "scsi_example = z2" .
  show "sc_attachedMedia scsi_example =
     [empty_conf\<lparr>ac_hostPath := boot_path, ac_hostSourceType := SOURCETYPE_IMAGE_TRANSLATEDBOOT, ac_dataMedia := PtrTranBoot, ac_accessType := SCSI_ACCESSTYPE_READ_ONLY\<rparr>,
      empty_conf\<lparr>ac_hostPath := image_path, ac_hostSourceType := SOURCETYPE_IMAGE, ac_dataMedia := Allocated (ImageFileMedia image_example),
        ac_accessType := SCSI_ACCESSTYPE_FULL, ac_dynamic := True, ac_devInfoIndex := 0\<rparr>] @ replicate 7 empty_conf"
  "sc_devInfo scsi_example = dev_example\<lparr>di_attachedMediaIndex := 1, di_accessType := SCSI_ACCESSTYPE_FULL\<rparr> # replicate 7 dev_example"
  "sc_dataBuffer scsi_example = replicate SCSI_BUFFER_SIZE 0"
    unfolding e by (simp_all add: z2_def z1_def z0_def b_def)
qed

end
