(* ===== verification/HostScsiRw.thy ===== *)
theory HostScsiRw
  imports HostHans HostDrives HostScsiEx
begin

text \<open>
  Reading sectors through the host's SCSI devices: the contract of a medium that holds sectors, its
  instances, and the way of the sectors through the host and Hans to the Atari.
\<close>

section \<open>Media with sectors\<close>

locale sector_reads =
  fixes good :: "hostenv \<Rightarrow> media \<Rightarrow> bool" and bytes :: "media \<Rightarrow> BYTE list"
  assumes capacity: "good env m \<Longrightarrow> getCapacity m = int (length (bytes m) div 512)"
    and there: "good env m \<Longrightarrow> media_isInit m"
    and reads: "\<lbrakk>good env m; 0 < n; s + n \<le> length (bytes m) div 512; n * 512 \<le> length b\<rbrakk> \<Longrightarrow>
      media_readSectors env (int s) n b m = (m, overwrite b (take (n * 512) (drop (s * 512) (bytes m))), True)"

locale sector_store = sector_reads +
  assumes writes: "\<lbrakk>good env m; 0 < n; s + n \<le> length (bytes m) div 512; n * 512 \<le> length b\<rbrakk> \<Longrightarrow>
      \<exists>m'. media_writeSectors (int s) n b m = (m', True) \<and> good env m' \<and> bytes m' = splice (s * 512) (take (n * 512) b) (bytes m)"

fun readable :: "hostenv \<Rightarrow> media \<Rightarrow> bool" where
  "readable env (ImageFileMedia m) = (case im_fd m of None \<Rightarrow> False | Some f \<Rightarrow> im_SCapacity m = int (length f div 512))"
| "readable env (DeviceMedia m) = (case dm_fdes m of None \<Rightarrow> False | Some (f, w) \<Rightarrow> dm_SCapacity m = int (length f div 512))"
| "readable env (TranslatedBootMedia t) \<longleftrightarrow>
     tb_gotImage t \<and> tb_ifaceIsAcsi t = he_hddIsAcsi env \<and> 0 \<le> tb_SCapacity t \<and> nat (tb_SCapacity t) * 512 \<le> length (tb_imageBuffer t)"
| "readable env m = False"

fun contents :: "media \<Rightarrow> BYTE list" where
  "contents (ImageFileMedia m) = the (im_fd m)"
| "contents (DeviceMedia m) = fst (the (dm_fdes m))"
| "contents (TranslatedBootMedia t) = take (nat (tb_SCapacity t) * 512) (tb_imageBuffer t)"
| "contents m = []"

fun writable :: "hostenv \<Rightarrow> media \<Rightarrow> bool" where
  "writable env (ImageFileMedia m) = readable env (ImageFileMedia m)"
| "writable env (DeviceMedia m) \<longleftrightarrow> readable env (DeviceMedia m) \<and> snd (the (dm_fdes m))"
| "writable env m = False"

lemma writable_readable: "writable env m \<Longrightarrow> readable env m"
  by (cases m) simp_all

lemma overwrite_overwrite: "length us = length vs \<Longrightarrow> overwrite (overwrite b us) vs = overwrite b vs"
  by (simp add: overwrite_def min_def)

lemma sector_range:
  assumes "s + n \<le> length f div 512"
  shows "(s + n) * 512 \<le> length (f :: BYTE list)"
  using assms by (metis dual_order.trans div_times_less_eq_dividend mult_le_mono1)

interpretation readable: sector_reads readable contents
proof
  fix env m
  assume g: "readable env m"
  show "media_isInit m" "getCapacity m = int (length (contents m) div 512)"
    using g by (cases m; auto split: option.splits)+
next
  fix env m n s and b :: "BYTE list"
  assume g: "readable env m" and n: "0 < n" "s + n \<le> length (contents m) div 512" "n * 512 \<le> length b"
  note r = sector_range [OF n(2)]
  show "media_readSectors env (int s) n b m = (m, overwrite b (take (n * 512) (drop (s * 512) (contents m))), True)"
  proof (cases m)
    case (ImageFileMedia i)
    then show ?thesis using g n(1,2) r by (auto simp: image_readSectors_def os_read_def nat_mult_distrib split: option.splits)
  next
    case (DeviceMedia i)
    then show ?thesis using g n(1,2) r by (auto simp: device_readSectors_def os_read_def nat_mult_distrib split: option.splits)
  next
    case (TranslatedBootMedia t)
    have t: "tb_gotImage t" "tb_ifaceIsAcsi t = he_hddIsAcsi env" "0 \<le> tb_SCapacity t" "nat (tb_SCapacity t) * 512 \<le> length (tb_imageBuffer t)"
      using g TranslatedBootMedia by simp_all
    have c: "length (contents m) div 512 = nat (tb_SCapacity t)" using t(4) TranslatedBootMedia by simp
    then have s: "int s < tb_SCapacity t" "n \<le> nat (tb_SCapacity t - int s)" using n(1,2) t(3) by linarith+
    have d: "take (n * 512) (drop (s * 512) (contents m)) = take (n * 512) (drop (s * 512) (tb_imageBuffer t))"
      using r t(4) TranslatedBootMedia by (simp add: drop_take)
    have "length (take (n * 512) (drop (s * 512) (tb_imageBuffer t))) = n * 512"
      using r t(4) c n(2) by (simp add: le_diff_conv2)
    with s t TranslatedBootMedia show ?thesis unfolding d
      by (simp add: boot_readSectors_def Let_def overwrite_overwrite)
  qed (use g in simp_all)
qed

lemma os_write_inside: "pos + length bs \<le> length f \<Longrightarrow> os_write pos bs f = splice pos bs f"
  by (simp add: os_write_def splice_def)

interpretation writable: sector_store writable contents
proof
  fix env m n s and b :: "BYTE list"
  assume g: "writable env m"
  note g' = writable_readable [OF g]
  show "media_isInit m" "getCapacity m = int (length (contents m) div 512)" by (rule readable.there [OF g'], rule readable.capacity [OF g'])
  assume n: "0 < n" "s + n \<le> length (contents m) div 512" "n * 512 \<le> length b"
  show "media_readSectors env (int s) n b m = (m, overwrite b (take (n * 512) (drop (s * 512) (contents m))), True)"
    by (rule readable.reads [OF g' n])
  have r: "s * 512 + n * 512 \<le> length (contents m)" using sector_range [OF n(2)] by (simp add: algebra_simps)
  show "\<exists>m'. media_writeSectors (int s) n b m = (m', True) \<and> writable env m' \<and> contents m' = splice (s * 512) (take (n * 512) b) (contents m)"
  proof (cases m)
    case (ImageFileMedia i)
    then obtain f where f: "im_fd i = Some f" "im_SCapacity i = int (length f div 512)" "contents m = f" using g by (auto split: option.splits)
    have "s < length f div 512" using n(1,2) f(3) by simp
    then have "media_writeSectors (int s) n b m = (ImageFileMedia (i\<lparr>im_fd := Some (splice (s * 512) (take (n * 512) b) f)\<rparr>), True)"
      using f n r ImageFileMedia by (simp add: image_writeSectors_def nat_mult_distrib os_write_inside)
    then show ?thesis using f r n by simp
  next
    case (DeviceMedia i)
    then obtain f where f: "dm_fdes i = Some (f, True)" "dm_SCapacity i = int (length f div 512)" "contents m = f" using g by (auto split: option.splits)
    have p: "min (length f - s * 512) (n * 512) = n * 512" using r f(3) by simp
    have "take (n * 512) b \<noteq> []" using n(1,3) by auto
    then have "media_writeSectors (int s) n b m = (DeviceMedia (i\<lparr>dm_fdes := Some (splice (s * 512) (take (n * 512) b) f, True)\<rparr>), True)"
      using f n r DeviceMedia p by (auto simp add: device_writeSectors_def nat_mult_distrib os_write_inside Let_def)
    then show ?thesis using f r n by simp
  qed (use g in simp_all)
qed

section \<open>Commands\<close>

text \<open>What a command asks for: to read or to write, the first sector and the number of sectors.\<close>

definition rw_command :: "BYTE list \<Rightarrow> (bool \<times> DWORD \<times> DWORD) option" where
  "rw_command p =
     (if isICDcommand p
      then (if p ! 1 = 0x28 then Some (True, start10 p, ucast (count10 p))
            else if p ! 1 = 0x2a then Some (False, start10 p, ucast (count10 p)) else None)
      else (if p ! 0 AND 0x1f = 0x08 then Some (True, start6 p, ucast (count6 p))
            else if p ! 0 AND 0x1f = 0x0a then Some (False, start6 p, ucast (count6 p)) else None))"

text \<open>The devices while they process a command: the medium of its ID and the way it may be used.\<close>

definition addressed :: "BYTE list \<Rightarrow> scsi \<Rightarrow> scsi" where
  "addressed p z = z\<lparr>sc_acsiId := unat (drop_bit 5 (p ! 0)), sc_notJustStatus := True\<rparr>"

lemma addressed_fields [simp]:
  "sc_env (addressed p z) = sc_env z" "sc_dataBuffer (addressed p z) = sc_dataBuffer z" "sc_notJustStatus (addressed p z)"
  by (simp_all add: addressed_def)

text \<open>The command of \<open>p\<close> reaches the medium \<open>m\<close>.\<close>

definition reaches :: "BYTE list \<Rightarrow> scsi \<Rightarrow> media \<Rightarrow> bool" where
  "reaches p z m \<longleftrightarrow> dataMedia (addressed p z) = Some m \<and> scsi_lun p = 0 \<and> \<not> mediaChanged m \<and> media_isInit m \<and>
     length (sc_dataBuffer z) = SCSI_BUFFER_SIZE \<and> media_slot (addressed p z) < length (sc_attachedMedia z)"

definition access :: "BYTE list \<Rightarrow> scsi \<Rightarrow> int" where
  "access p z = di_accessType (dev_info (addressed p z))"

lemma processCommand_rw:
  assumes "reaches p z m" and "rw_command p = Some (r, start, cnt)"
    and "access p z = SCSI_ACCESSTYPE_FULL \<or> (r \<and> access p z = SCSI_ACCESSTYPE_READ_ONLY)"
  shows "Scsi_processCommand p (z, d) =
    (case readWriteGeneric r start cnt (addressed p z, clear True d) of
       (z, d) \<Rightarrow> if sc_notJustStatus z then (z, sendDataAndStatus False d) else (z, sendStatusToHans (di_LastStatus (dev_info z)) d))"
proof -
  let ?z = "addressed p z"
  have m: "the_media ?z = m" "dataMedia ?z = Some m" "scsi_lun p = 0" "\<not> mediaChanged m" "media_isInit m"
    using assms(1) by (simp_all add: reaches_def the_media_def)
  have a: "?z = z\<lparr>sc_acsiId := unat (drop_bit 5 (p ! 0)), sc_notJustStatus := True\<rparr>" by (simp add: addressed_def)
  have "dataMedia (z\<lparr>sc_acsiId := unat (drop_bit 5 (p ! 0))\<rparr>) = dataMedia ?z"
    by (simp add: addressed_def dataMedia_def dev_info_def media_slot_def deref_def split: mediaptr.split)
  then have d: "dataMedia (z\<lparr>sc_acsiId := unat (drop_bit 5 (p ! 0))\<rparr>) = Some m" using m(2) by simp
  have "run_command p (?z, e) = readWriteGeneric r start cnt (?z, e)" for e
    using assms(2,3) m
    by (auto simp: run_command_def Let_def rw_command_def scsi_justCmd_def ProcICD_def ProcScsi6_def SCSI_ReadWrite10_def SCSI_ReadWrite6_def
        access_def split: if_splits)
  then show ?thesis unfolding Scsi_processCommand_def Let_def split d a [symmetric] by simp
qed

text \<open>The checks of the range.\<close>

lemma rw_checks:
  fixes start cnt :: DWORD
  assumes "0 < unat cnt" "unat cnt < 2048" and "unat start + unat cnt \<le> k"
  shows "\<not> cnt * 512 > 0xffffff" "\<not> uint (start + cnt - 1) > int k" "cnt < 2048" "unat (cnt * 512) = unat cnt * 512"
proof -
  show u: "unat (cnt * 512) = unat cnt * 512" using assms(2) by (simp add: unat_word_ariths)
  then show "\<not> cnt * 512 > 0xffffff" using assms(2) by (simp add: word_less_nat_alt)
  show "cnt < 2048" using assms(2) by (simp add: word_less_nat_alt)
  have "uint (start + cnt - 1) \<le> uint start + uint cnt - 1"
  proof -
    have "uint (start + cnt - 1) = (uint start + uint cnt - 1) mod 2 ^ 32" by (simp add: uint_word_ariths mod_simps)
    moreover have "0 \<le> uint start + uint cnt - 1" using assms(1) by (simp add: unat_gt_0) (metis add_increasing int_one_le_iff_zero_less uint_nonnegative word_neq_0_conv uint_0_iff order_le_less)
    ultimately show ?thesis using zmod_le_nonneg_dividend by metis
  qed
  moreover have "uint start + uint cnt \<le> int k" using assms(3) by (simp only: uint_nat)
  ultimately show "\<not> uint (start + cnt - 1) > int k" by linarith
qed

lemma set_media_same:
  assumes "dataMedia z = Some m"
  shows "set_media m z = z"
proof -
  let ?a = "sc_attachedMedia z ! media_slot z"
  show ?thesis
  proof (cases "ac_dataMedia ?a")
    case (Allocated x)
    then have "?a\<lparr>ac_dataMedia := Allocated m\<rparr> = ?a" using assms by (cases ?a) (auto simp: dataMedia_def deref_def split: if_splits)
    then show ?thesis unfolding set_media_def Allocated mediaptr.case by simp
  qed (use assms in \<open>auto simp: dataMedia_def deref_def set_media_def split: if_splits\<close>)
qed

lemma overwritten_prefix: "length us \<le> length b \<Longrightarrow> take (length us) (overwrite b us) = us"
  by (simp add: overwrite_def)

context sector_reads
begin

lemma read_sectors:
  assumes "dataMedia z = Some m" and "good (sc_env z) m" and "0 < unat cnt" "unat cnt < 2048" and "unat start + unat cnt \<le> length (bytes m) div 512"
    and "length (sc_dataBuffer z) = SCSI_BUFFER_SIZE"
    and "xs = take (unat cnt * 512) (drop (unat start * 512) (bytes m))"
  shows "readWriteGeneric True start cnt (z, d) = SendOKstatus (z\<lparr>sc_dataBuffer := overwrite (sc_dataBuffer z) xs\<rparr>, addDataBfr xs True d)"
    and "length xs = unat cnt * 512"
proof -
  note c = rw_checks [OF assms(3-5)]
  have m: "the_media z = m" using assms(1) by (simp add: the_media_def)
  show l: "length xs = unat cnt * 512" using sector_range [OF assms(5)] by (simp add: assms(7))
  have b: "unat cnt * 512 \<le> length (sc_dataBuffer z)" using assms(4,6) by simp
  have "z_read start (unat cnt) z = (z\<lparr>sc_dataBuffer := overwrite (sc_dataBuffer z) xs\<rparr>, True)"
    using reads [OF assms(2,3,5) b] assms(1) by (simp add: z_read_def m set_media_same assms(7))
  moreover have "take (unat (cnt * 512)) (overwrite (sc_dataBuffer z) xs) = xs"
    using overwritten_prefix [of xs "sc_dataBuffer z"] b by (simp add: c(4) l)
  ultimately have "readSectors_small start cnt (z, d) = ((z\<lparr>sc_dataBuffer := overwrite (sc_dataBuffer z) xs\<rparr>, addDataBfr xs True d), True)"
    by (simp add: readSectors_small_def)
  with c show "readWriteGeneric True start cnt (z, d) = SendOKstatus (z\<lparr>sc_dataBuffer := overwrite (sc_dataBuffer z) xs\<rparr>, addDataBfr xs True d)"
    by (simp add: readWriteGeneric_def m capacity [OF assms(2)])
qed

end

section \<open>The answer to a read\<close>

lemma add_collects:
  assumes "collecting d" and "dt_count d = 0" and "length xs mod 16 = 0" and "length xs \<le> ACSI_BUFFER_SIZE" and "d' = addDataBfr xs True d"
  shows "collecting d'" "unat (dt_count d') = length xs" "take (length xs) (dt_buffer d') = xs" "dt_com d' = dt_com d" "txBuffer d' = txBuffer d"
proof -
  define d1 where "d1 = (put_bytes xs d)\<lparr>dt_count := dt_count d + of_nat (length xs)\<rparr>"
  have "unat (dt_count d) + length xs \<le> ACSI_BUFFER_SIZE" using assms(2,4) by simp
  note p = put_collected [OF assms(1) this d1_def]
  have u: "unat (dt_count d1) = length xs" using p(3) assms(2) by simp
  have "padDataToMul16 d1 = d1" using assms(3) u by (simp add: padDataToMul16_def)
  then have e: "d' = d1" by (simp add: assms(5) addDataBfr_def Let_def d1_def [symmetric])
  have "fst (collected d1) = xs" using p(4) assms(2) by (simp add: collected_def)
  then show "collecting d'" "unat (dt_count d') = length xs" "take (length xs) (dt_buffer d') = xs"
    using p u by (simp_all add: e collected_def)
  show "dt_com d' = dt_com d" "txBuffer d' = txBuffer d" by (simp_all add: e d1_def put_bytes_def)
qed

lemma read_answered:
  assumes "reaches p z m" and "rw_command p = Some (True, start, cnt)" and "access p z \<in> {SCSI_ACCESSTYPE_FULL, SCSI_ACCESSTYPE_READ_ONLY}"
    and "readable (sc_env z) m" and "0 < unat cnt" "unat cnt < 2048" and "unat start + unat cnt \<le> length (contents m) div 512"
    and "xs = take (unat cnt * 512) (drop (unat start * 512) (contents m))"
    and "dt_ok d" "length (txBuffer d) = 600" "remainingPacketLength (dt_com d) = 10" "sigint (dt_com d) = []"
  obtains z' d1 where "Scsi_processCommand p (z, d) = (z', sendDataAndStatus False d1)" and "answering d1 xs 0" and "dt_com d1 = dt_com d"
proof -
  let ?z = "addressed p z" and ?d = "clear True d"
  have a: "access p z = SCSI_ACCESSTYPE_FULL \<or> (True \<and> access p z = SCSI_ACCESSTYPE_READ_ONLY)" using assms(3) by auto
  have z: "dataMedia ?z = Some m" "readable (sc_env ?z) m" "length (sc_dataBuffer ?z) = SCSI_BUFFER_SIZE"
    using assms(1,4) by (simp_all add: reaches_def)
  note r = readable.read_sectors [OF z(1,2) assms(5-7) z(3) assms(8)]
  define d2 where "d2 = addDataBfr xs True ?d"
  have l: "length xs mod 16 = 0" "length xs \<le> ACSI_BUFFER_SIZE - 512" "xs \<noteq> []" using r(2) assms(5,6) by (auto simp: mult.commute [of _ 512] mod_mult_left_eq)
  have "collecting ?d" using assms(9) by (simp add: collecting_def dt_ok_def) (simp add: clear_def Let_def)
  moreover have "dt_count ?d = 0" by (simp add: clear_def Let_def)
  moreover have "length xs \<le> ACSI_BUFFER_SIZE" using l(2) by simp
  ultimately have d2: "collecting d2" "unat (dt_count d2) = length xs" "take (length xs) (dt_buffer d2) = xs" "dt_com d2 = dt_com ?d" "txBuffer d2 = txBuffer ?d"
    using add_collects [OF _ _ l(1) _ d2_def] by blast+
  have com: "dt_com ?d = dt_com d" by (simp add: clear_def Let_def)
  have cnt: "dt_count d2 = of_nat (length xs)" by (simp flip: d2(2))
  define d1 where "d1 = setStatus 0 d2"
  define z2 where "z2 = ?z\<lparr>sc_dataBuffer := overwrite (sc_dataBuffer ?z) xs\<rparr>"
  have "length xs + length xs mod 2 \<le> ACSI_BUFFER_SIZE" using l(2) by simp
  then have ans: "answering d1 xs 0"
    using d2 l cnt com assms(10-12) unfolding answering_def d1_def by (simp add: setStatus_def collecting_def dt_ok_def)
  have k: "sc_notJustStatus z2" by (simp add: z2_def)
  have s: "Scsi_processCommand p (z, d) = (fst (SendOKstatus (z2, d2)), sendDataAndStatus False d1)"
    unfolding processCommand_rw [OF assms(1,2) a] r(1) d2_def [symmetric] z2_def [symmetric]
    using k by (simp add: SendOKstatus_def storeSenseAndSendStatus_def d1_def)
  have "dt_com d1 = dt_com d" using d2(4) com by (simp add: d1_def setStatus_def)
  then show ?thesis by (rule that [OF s ans])
qed

section \<open>A command of the Atari\<close>

text \<open>The packet of a command and what the wait for the blocks finds behind it.\<close>

definition commanded :: "BYTE list \<Rightarrow> BYTE list list \<Rightarrow> nat list \<Rightarrow> conspi \<Rightarrow> bool" where
  "commanded p ws ks s \<longleftrightarrow> (\<exists>com us ms ps. miso s = p @ com @ concat ws @ us \<and> length com = 10 \<and> length ks = length ws \<and>
     ms_over s = looks ks @ ms \<and> atn_pin s = pins ks @ ps) \<and> length p = 14 \<and> remainingPacketLength s = 24 \<and> sigint s = []"

text \<open>The command arrives at the devices.\<close>

lemma core_rw:
  assumes "commanded p ws ks (dt_com (core_dt c))" and "acsiIDdevType c ! unat (drop_bit 5 (p ! 0)) \<noteq> DEVTYPE_OFF"
    and "rw_command p = Some r"
  obtains d where "core_handleAcsiCommand mods scsi c = run_on (scsi p) (c\<lparr>core_dt := d\<rparr>)"
    and "dt_com d = (dt_com (core_dt c))\<lparr>mosi := mosi (dt_com (core_dt c)) @ replicate 14 0, miso := drop 14 (miso (dt_com (core_dt c))),
       remainingPacketLength := 10\<rparr>"
    and "dt_ok (core_dt c) \<Longrightarrow> dt_ok d" and "txBuffer d = txBuffer (core_dt c)" and "rxBuffer d = rxBuffer (core_dt c)"
proof -
  define s where "s = dt_com (core_dt c)"
  obtain rest where s: "miso s = p @ rest" "length p = 14" "remainingPacketLength s = of_nat 24" "sigint s = []"
    using assms(1) by (auto simp: commanded_def s_def)
  define s1 where "s1 = s\<lparr>mosi := mosi s @ replicate 14 0, miso := drop 14 (miso s), remainingPacketLength := 10\<rparr>"
  have x: "txRx 14 (replicate 14 0) s = (s1, p)"
    using txRx_limited [OF s(3), of 14 "replicate 14 0"] s(1,2) by (simp add: s1_def)
  have o: "overwrite (replicate 14 0) p = p" using s(2) by (simp add: overwrite_def)
  define isIcd where "isIcd = (p ! 0 AND 0x1f = 0x1f)"
  define q where "q = (if isIcd then drop 1 p else p)"
  have q: "q ! 0 = (if isIcd then p ! 1 else p ! 0)" using s(2) by (simp add: q_def)
  have j: "q ! 0 AND 0x1f \<noteq> 0" using assms(3) unfolding q isIcd_def rw_command_def isICDcommand_def by (auto split: if_splits)
  define d where "d = (core_dt c)\<lparr>dt_com := s1, dt_retry := makeCmdCopy p isIcd (q ! 0 AND 0x1f) (q ! 1) (q ! 2) (q ! 3) (dt_retry (core_dt c))\<rparr>"
  have "core_handleAcsiCommand mods scsi c = run_on (scsi p) (c\<lparr>core_dt := d\<rparr>)"
    unfolding core_handleAcsiCommand_def s_def [symmetric] x Let_def split o isIcd_def [symmetric] q_def [symmetric]
    using assms(2) j by (simp add: with_retry_def dispatch_def d_def)
  then show ?thesis
    by (rule that) (simp_all add: d_def s1_def s_def dt_ok_def makeCmdCopy_def)
qed

text \<open>What Hans receives while the host processes a command: the packets that the bytes of the host make up.\<close>

definition wire_size :: "WORD list \<times> WORD \<Rightarrow> nat" where
  "wire_size m = 2 * max (length (fst m)) (unat (snd m))"

lemma requests_wire: "(\<And>c. c \<in> set cs \<Longrightarrow> length c \<le> 512) \<Longrightarrow> map wire_size (requests seq cs) = map (\<lambda>m. 2 * unat (snd m)) (requests seq cs)"
proof (induction cs arbitrary: seq)
  case (Cons c cs)
  have "block_words (length c) < 65536" using Cons.prems [of c] by (simp add: block_words_def)
  then have "unat (of_nat (block_words (length c)) :: WORD) = block_words (length c)" by (simp add: unat_of_nat)
  moreover have "6 \<le> block_words (length c)" by (simp add: block_words_def)
  ultimately show ?case using Cons by (simp add: wire_size_def request_def)
qed simp

definition hans_gets :: "nat list \<Rightarrow> conspi \<Rightarrow> conspi \<Rightarrow> WORD list list" where
  "hans_gets ns s s' = map words_of (cut (32 # ns) (replicate 8 0 @ drop (length (mosi s)) (mosi s')))"

text \<open>
  C1: the sectors of an image reach the Atari. The host gets a READ command (6 or 10 bytes long) for
  fewer than 2048 sectors that lie on the medium of the ID, an image, a device or the boot image, and Hans waits for its
  answer; each side receives what the other one sends. If the host sees the attention signals in time and the Atari takes
  every byte, then the Atari gets exactly the bytes of these sectors and the status for success.
\<close>

theorem sectors_reach_atari:
  assumes "rw_command p = Some (True, start, cnt)" and "reaches p (core_mod c) m" and "readable (sc_env (core_mod c)) m"
    and "access p (core_mod c) \<in> {SCSI_ACCESSTYPE_FULL, SCSI_ACCESSTYPE_READ_ONLY}" and "acsiIDdevType c ! unat (drop_bit 5 (p ! 0)) \<noteq> DEVTYPE_OFF"
    and "0 < unat cnt" "unat cnt < 2048" and "unat start + unat cnt \<le> length (contents m) div 512"
    and "xs = take (unat cnt * 512) (drop (unat start * 512) (contents m))"
    and "dt_ok (core_dt c)" "length (txBuffer (core_dt c)) = 600"
    and "commanded p ws ks (dt_com (core_dt c))" "list_all2 on_wire (requests 0 (chunks xs)) ws"
    and "awaiting h" and "answers (length xs + status_acks (isAcsiNotScsi h)) h"
    and "host_in h = map Done (hans_gets (map wire_size (requests 0 (chunks xs))) (dt_com (core_dt c))
      (dt_com (core_dt (core_handleAcsiCommand mods Scsi_processCommand c)))) @ es"
  shows "\<exists>h'. acsi_loop h = Some (Some h') \<and> bus_out h' = bus_out h @ map Data xs @ status_evs (isAcsiNotScsi h) 0 \<and>
    host_out h' = host_out h @ requests 0 (chunks xs) \<and> host_in h' = es \<and> hstate h' = STATE_GET_COMMAND"
proof -
  define s where "s = dt_com (core_dt c)"
  obtain d where d: "core_handleAcsiCommand mods Scsi_processCommand c = run_on (Scsi_processCommand p) (c\<lparr>core_dt := d\<rparr>)"
    "dt_com d = s\<lparr>mosi := mosi s @ replicate 14 0, miso := drop 14 (miso s), remainingPacketLength := 10\<rparr>" "dt_ok d" "txBuffer d = txBuffer (core_dt c)"
    using core_rw [OF assms(12,5,1), of mods Scsi_processCommand] assms(10) unfolding s_def by metis
  have s: "asked xs ks (dt_com d)" "sigint (dt_com d) = []"
  proof -
    obtain com us ms ps where q: "miso s = p @ com @ concat ws @ us" "length com = 10" "length ks = length ws" "ms_over s = looks ks @ ms"
      "atn_pin s = pins ks @ ps" "length p = 14" "sigint s = []"
      using assms(12) by (auto simp: commanded_def s_def)
    then show "asked xs ks (dt_com d)" unfolding d(2) asked_def using assms(13)
      by (intro exI [of _ com] exI [of _ ws] exI [of _ us] exI [of _ ms] exI [of _ ps]) simp
    show "sigint (dt_com d) = []" using q(7) d(2) by simp
  qed
  obtain z' d1 where r: "Scsi_processCommand p (core_mod c, d) = (z', sendDataAndStatus False d1)" "answering d1 xs 0" "dt_com d1 = dt_com d"
    by (rule read_answered [OF assms(2,1,4,3,6-9) d(3)]) (use d assms(11) s(2) in simp_all)
  have "core_dt (core_handleAcsiCommand mods Scsi_processCommand c) = sendDataAndStatus False d1" unfolding d(1) by (simp add: run_on_def r(1))
  moreover have rw: "map wire_size (requests 0 (chunks xs)) = map (\<lambda>m. 2 * unat (snd m)) (requests 0 (chunks xs))"
    by (rule requests_wire) (rule chunk_sizes)
  moreover have z: "replicate 22 0 = replicate 8 0 @ replicate 14 (0 :: BYTE)" by (simp flip: replicate_add)
  moreover obtain t where "mosi (dt_com (sendDataAndStatus False d1)) = mosi (dt_com d1) @ t" using answer_sent [OF r(2)] s(1) r(3) by force
  ultimately have "hans_gets (map wire_size (requests 0 (chunks xs))) (dt_com (core_dt c))
      (dt_com (core_dt (core_handleAcsiCommand mods Scsi_processCommand c))) = packets xs d1"
    unfolding rw hans_gets_def packets_def sent_def by (simp add: r(3) d(2) s_def)
  then show ?thesis using host_answer_reaches_atari [OF r(2) _ assms(14) _ assms(15)] s(1) r(3) assms(16) by simp
qed

end
