(* ===== verification/HostScsiWr.thy ===== *)
theory HostScsiWr
  imports HostScsiRw
begin

text \<open>
  Writing sectors through the host's SCSI devices: the way of the bytes from the Atari through Hans and
  the host to the medium, and of the status back.
\<close>

section \<open>Waits and transfers of the host\<close>

text \<open>What is left of a packet, and what the transfers and waits that follow find.\<close>

definition during :: "nat \<Rightarrow> nat list \<Rightarrow> BYTE list \<Rightarrow> conspi \<Rightarrow> bool" where
  "during r ks bs s \<longleftrightarrow> remainingPacketLength s = of_nat r \<and> sigint s = [] \<and> (\<exists>ms ps us. ms_over s = looks ks @ ms \<and>
     atn_pin s = pins ks @ ps \<and> miso s = bs @ us)"

lemma during_done: "during 0 ks bs s \<Longrightarrow> ready ks bs s"
  by (auto simp: during_def ready_def)

lemma wait_ready:
  assumes "ready (k # ks) (header (ucast code) t r @ bs) (dt_com d)" and "t \<le> 1024" "r \<le> 1024" and "code \<noteq> ATN_ANY"
  obtains s where "wait_hans code d = (d\<lparr>dt_com := s\<rparr>, True)" and "mosi s = mosi (dt_com d) @ replicate 8 0"
    and "during (max (2 * t - 8) (2 * r - 8)) ks bs s"
proof -
  define s where "s = dt_com d"
  obtain ms ps us where s: "remainingPacketLength s \<in> {0, NO_REMAINING_LENGTH}" "sigint s = []" "ms_over s = replicate (Suc k) False @ looks ks @ ms"
    "atn_pin s = replicate k False @ True # pins ks @ ps" "miso s = header (ucast code) t r @ bs @ us"
    using assms(1) by (auto simp: ready_def s_def looks_def pins_def)
  note w = wait_hans_ok [OF s(1,2,5) assms(2-4) s(3,4)]
  show ?thesis
    by (rule that [of "fst (waitForATN SPI_CS_HANS code s)"]) (use s w in \<open>auto simp: wait_hans_def s_def [symmetric] during_def\<close>)
qed

lemma txRx_during:
  assumes "during r ks (bs @ rest) (dt_com d)" and "length bs = n" "n \<le> r" "r < 65535" "n \<le> length tx"
  obtains s where "com_txRx n tx d = d\<lparr>dt_com := s, rxBuffer := overwrite (rxBuffer d) bs\<rparr>" and "mosi s = mosi (dt_com d) @ take n tx"
    and "during (r - n) ks rest s"
proof -
  define s where "s = dt_com d"
  obtain ms ps us where s: "remainingPacketLength s = of_nat r" "sigint s = []" "ms_over s = looks ks @ ms" "atn_pin s = pins ks @ ps"
    "miso s = bs @ rest @ us" using assms(1) by (auto simp: during_def s_def)
  have "n \<le> length (miso s)" using s(5) assms(2) by simp
  note x = txRx_limited [OF s(1) assms(4,3,5) this]
  have rx: "take n (miso s) = bs" using s(5) assms(2) by simp
  show ?thesis
    by (rule that [of "fst (txRx n tx s)"]) (use s x rx assms(2) in \<open>auto simp: com_txRx_def s_def [symmetric] during_def\<close>)
qed

section \<open>Receiving blocks\<close>

lemma word_bytes_even: "even (length bs) \<Longrightarrow> word_bytes (words_of bs) = bs"
  by (induction bs rule: words_of.induct) (auto simp: bytes_of_be16)

lemma write_message_bytes:
  assumes "even (length c)"
  shows "word_bytes (write_message seq c) = header 4 (length c div 2 + 6) 1 @ be16_bytes seq @ c @ [0, 0]"
proof -
  have "length (words_of c) = length c div 2" using assms by (simp add: length_words_of)
  then show ?thesis using word_bytes_even [OF assms] by (simp add: write_message_def header_def be16_bytes_def)
qed

lemma recv_step:
  assumes "ready (k # ks) (word_bytes (write_message seq c) @ rest) (dt_com d)" and "even (length c)" and "c \<noteq> []" "length c \<le> 512"
    and "length (txBuffer d) = 600" "length (rxBuffer d) = 600" and "length c = min 512 n"
  obtains s b rx where "recv_blocks n d = (case recv_blocks (n - length c) (d\<lparr>dt_com := s, rxBuffer := rx\<rparr>) of (d, bs, res) \<Rightarrow> (d, c @ bs, res))"
    and "mosi s = mosi (dt_com d) @ b" and "length b = wire_size (write_message seq c, 1)" and "length rx = 600" and "ready ks rest s"
proof -
  have n: "n \<noteq> 0" "(if n > 512 then 512 else n) = length c"
    using assms(3,7) by (cases "n = 0"; simp add: min_def split: if_splits)+
  have h: "ready (k # ks) (header (ucast ATN_WRITE_MORE_DATA) (length c div 2 + 6) 1 @ be16_bytes seq @ c @ [0, 0] @ rest) (dt_com d)"
    using assms(1) write_message_bytes [OF assms(2)] by simp
  have m: "max (2 * (length c div 2 + 6) - 8) (2 * 1 - 8) = length c + 4" using assms(2) by auto
  obtain s1 where s1: "wait_hans ATN_WRITE_MORE_DATA d = (d\<lparr>dt_com := s1\<rparr>, True)" "mosi s1 = mosi (dt_com d) @ replicate 8 0"
    "during (length c + 4) ks (be16_bytes seq @ c @ [0, 0] @ rest) s1"
    by (rule wait_ready [OF h, unfolded m]) (use assms(4) in simp_all)
  have d1: "during (length c + 4) ks ((be16_bytes seq @ c @ [0, 0]) @ rest) (dt_com (d\<lparr>dt_com := s1\<rparr>))" using s1(3) by simp
  have n4: "length c + 8 - 4 = length c + 4" by simp
  obtain s2 where "com_txRx (length c + 4) (txBuffer d) (d\<lparr>dt_com := s1\<rparr>) =
      d\<lparr>dt_com := s1, dt_com := s2, rxBuffer := overwrite (rxBuffer (d\<lparr>dt_com := s1\<rparr>)) (be16_bytes seq @ c @ [0, 0])\<rparr>"
    "mosi s2 = mosi (dt_com (d\<lparr>dt_com := s1\<rparr>)) @ take (length c + 4) (txBuffer d)" "during 0 ks rest s2"
    by (rule txRx_during [OF d1, of "length c + 4" "txBuffer d", unfolded diff_self_eq_0]) (use assms(4,5) in \<open>simp_all add: be16_bytes_def\<close>)
  then have s2: "com_txRx (length c + 8 - 4) (txBuffer d) (d\<lparr>dt_com := s1\<rparr>) =
      d\<lparr>dt_com := s2, rxBuffer := overwrite (rxBuffer d) (be16_bytes seq @ c @ [0, 0])\<rparr>"
    "mosi s2 = mosi s1 @ take (length c + 4) (txBuffer d)" "during 0 ks rest s2"
    unfolding n4 by simp_all
  define rx where "rx = overwrite (rxBuffer d) (be16_bytes seq @ c @ [0, 0])"
  have p: "take (length c) (drop 2 rx) = c" using assms(4,6) by (simp add: rx_def overwrite_def be16_bytes_def)
  show ?thesis
  proof (rule that)
    show "recv_blocks n d = (case recv_blocks (n - length c) (d\<lparr>dt_com := s2, rxBuffer := rx\<rparr>) of (d, bs, res) \<Rightarrow> (d, c @ bs, res))"
      unfolding recv_blocks.simps [of n d] n(2) s1(1) Let_def split rx_def [symmetric] using n(1) s2(1) p
      by (simp add: rx_def [symmetric] split_beta)
    show "mosi s2 = mosi (dt_com d) @ replicate 8 0 @ take (length c + 4) (txBuffer d)" using s1(2) s2(2) by simp
    show "length (replicate 8 (0 :: BYTE) @ take (length c + 4) (txBuffer d)) = wire_size (write_message seq c, 1)"
      using assms(2,4,5) by (auto simp: wire_size_def write_message_def length_words_of)
    show "length rx = 600" using assms(6) by (simp add: rx_def)
    show "ready ks rest s2" by (rule during_done [OF s2(3)])
  qed
qed

lemma recv_blocks_ok:
  assumes "ready (ks @ js) (concat (map (\<lambda>m. word_bytes (fst m)) (write_messages seq (chunks xs))) @ rest) (dt_com d)"
    and "length ks = length (chunks xs)" and "even (length xs)" and "length (txBuffer d) = 600" "length (rxBuffer d) = 600"
  shows "\<exists>s rx blks. recv_blocks (length xs) d = (d\<lparr>dt_com := s, rxBuffer := rx\<rparr>, xs, True) \<and> mosi s = mosi (dt_com d) @ concat blks \<and>
    map length blks = map wire_size (write_messages seq (chunks xs)) \<and> length rx = 600 \<and> ready js rest s"
  using assms
proof (induction xs arbitrary: ks d seq rule: chunks.induct)
  case (1 xs)
  show ?case
  proof (cases "xs = []")
    case True
    then show ?thesis using 1(2,3,6) by (subst recv_blocks.simps) (intro exI [of _ "dt_com d"] exI [of _ "rxBuffer d"] exI [of _ "[]"], simp)
  next
    case False
    define c where "c = take 512 xs"
    obtain k ks' where k: "ks = k # ks'" "length ks' = length (chunks (drop 512 xs))" using 1(3) False by (cases ks) auto
    have c: "even (length c)" "c \<noteq> []" "length c \<le> 512" "length c = min 512 (length xs)"
      using 1(4) False by (auto simp: c_def min_def)
    have r: "ready (k # ks' @ js) (word_bytes (write_message seq c) @
        concat (map (\<lambda>m. word_bytes (fst m)) (write_messages (seq + 1) (chunks (drop 512 xs)))) @ rest) (dt_com d)"
      using 1(2) k(1) False by (simp add: c_def)
    obtain s b rx where s: "recv_blocks (length xs) d =
        (case recv_blocks (length xs - length c) (d\<lparr>dt_com := s, rxBuffer := rx\<rparr>) of (d, bs, res) \<Rightarrow> (d, c @ bs, res))"
      "mosi s = mosi (dt_com d) @ b" "length b = wire_size (write_message seq c, 1)" "length rx = 600"
      "ready (ks' @ js) (concat (map (\<lambda>m. word_bytes (fst m)) (write_messages (seq + 1) (chunks (drop 512 xs)))) @ rest) s"
      by (rule recv_step [OF r c(1-3) 1(5,6) c(4)])
    have l: "length xs - length c = length (drop 512 xs)" using c(4) by simp
    have "even (length (drop 512 xs))" using 1(4) by simp
    from 1(1) [OF False _ k(2) this, of "seq + 1" "d\<lparr>dt_com := s, rxBuffer := rx\<rparr>"] s(4,5) 1(5)
    obtain s' rx' blks where s': "recv_blocks (length (drop 512 xs)) (d\<lparr>dt_com := s, rxBuffer := rx\<rparr>) = (d\<lparr>dt_com := s', rxBuffer := rx'\<rparr>, drop 512 xs, True)"
      "mosi s' = mosi s @ concat blks" "map length blks = map wire_size (write_messages (seq + 1) (chunks (drop 512 xs)))" "length rx' = 600" "ready js rest s'"
      by auto
    then show ?thesis using s(1-3) False unfolding l
      by (intro exI [of _ s'] exI [of _ rx'] exI [of _ "b # blks"]) (simp add: c_def)
  qed
qed

section \<open>The host's part of a write\<close>

lemma recvData_ok:
  assumes "remainingPacketLength (dt_com d) = 10" and "sigint (dt_com d) = []" and "length com = 10"
    and "miso (dt_com d) = com @ concat (map (\<lambda>m. word_bytes (fst m)) (write_messages 0 (chunks xs))) @ rest @ us"
    and "ms_over (dt_com d) = looks (ks @ js) @ ms" and "atn_pin (dt_com d) = pins (ks @ js) @ ps"
    and "length ks = length (chunks xs)" and "even (length xs)" and "length (rxBuffer d) = 600" and "unat n = length xs" and "n \<le> 0xffffff"
  obtains s rx blks where "recvData n d = (d\<lparr>dt_dataDirection := DATA_DIRECTION_WRITE, dt_com := s, txBuffer := replicate 600 0, rxBuffer := rx\<rparr>, xs, True)"
    and "mosi s = mosi (dt_com d) @ devCommand CMD_DATA_WRITE n 0xff @ concat blks"
    and "map length blks = map wire_size (write_messages 0 (chunks xs))" and "ready js rest s"
proof -
  define s where "s = dt_com d"
  define bs where "bs = concat (map (\<lambda>m. word_bytes (fst m)) (write_messages 0 (chunks xs)))"
  note a = assms(1,2,4-6) [folded s_def bs_def]
  let ?cmd = "devCommand CMD_DATA_WRITE n 0xff"
  define s1 where "s1 = s\<lparr>mosi := mosi s @ ?cmd, miso := bs @ rest @ us, remainingPacketLength := 0\<rparr>"
  have x: "fst (txRx COMMAND_SIZE ?cmd s) = s1"
    using txRx_limited [of s 10 COMMAND_SIZE ?cmd] a assms(3) by (simp add: s1_def devCommand_def)
  let ?d = "d\<lparr>dt_dataDirection := DATA_DIRECTION_WRITE, dt_com := s1\<rparr>"
  have r: "ready (ks @ js) (bs @ rest) (dt_com (?d\<lparr>txBuffer := replicate 600 0\<rparr>))"
    using a by (auto simp: ready_def s1_def)
  obtain s' rx blks where r: "recv_blocks (length xs) (?d\<lparr>txBuffer := replicate 600 0\<rparr>) = (?d\<lparr>txBuffer := replicate 600 0, dt_com := s', rxBuffer := rx\<rparr>, xs, True)"
    "mosi s' = mosi s1 @ concat blks" "map length blks = map wire_size (write_messages 0 (chunks xs))" "ready js rest s'"
    using recv_blocks_ok [OF r [unfolded bs_def] assms(7,8)] assms(9) by auto
  have "recvData n d = (?d\<lparr>txBuffer := replicate 600 0, dt_com := s', rxBuffer := rx\<rparr>, xs, True)"
    using assms(10,11) x r(1) by (simp add: recvData_def recvData_start_def recvData_transferBlock_def s_def)
  then show ?thesis using r by (intro that [where s = s' and rx = rx and blks = blks]) (simp_all add: s1_def s_def)
qed

definition status_message :: "WORD list \<times> WORD" where
  "status_message = ([ATN_SYNC_WORD, 5, 5, 8, 0], 8)"

definition status_bytes :: "BYTE \<Rightarrow> BYTE list" where
  "status_bytes st = replicate 8 0 @ [0, CMD_SEND_STATUS, st, 0, 0, 0, 0, 0]"

lemma status_answered:
  assumes "ready [k] w (dt_com d)" and "on_wire status_message w" and "length (txBuffer d) = 600"
  shows "mosi (dt_com (sendStatusToHans st d)) = mosi (dt_com d) @ status_bytes st"
proof -
  have w: "length w = 16" "take 10 w = header 5 5 8 @ [0, 0]"
    using assms(2) by (simp_all add: on_wire_def status_message_def header_def be16_bytes_def)
  have "take 8 w = take 8 (take 10 w)" by simp
  also have "\<dots> = header 5 5 8" unfolding w(2) by (simp add: header_def be16_bytes_def)
  finally have e: "header 5 5 8 @ drop 8 w = w" by (metis append_take_drop_id)
  have u: "ucast ATN_GET_STATUS = (5 :: WORD)" by simp
  have r: "ready [k] (header (ucast ATN_GET_STATUS) 5 8 @ drop 8 w) (dt_com d)" unfolding u e by (rule assms(1))
  obtain s where s: "wait_hans ATN_GET_STATUS d = (d\<lparr>dt_com := s\<rparr>, True)" "mosi s = mosi (dt_com d) @ replicate 8 0" "during 8 [] (drop 8 w @ []) s"
    by (rule wait_ready [OF r]) simp_all
  define t where "t = (overwrite (txBuffer d) (replicate 16 0))[1 := CMD_SEND_STATUS, 2 := st]"
  have t: "length t = 600" "take 8 t = [0, CMD_SEND_STATUS, st, 0, 0, 0, 0, 0]"
    using assms(3) by (simp_all add: t_def overwrite_def numeral_eq_Suc)
  let ?d = "d\<lparr>dt_com := s, txBuffer := t\<rparr>"
  have "during 8 [] (drop 8 w @ []) (dt_com ?d)" using s(3) by simp
  then obtain s2 where "com_txRx 8 t ?d = ?d\<lparr>dt_com := s2, rxBuffer := overwrite (rxBuffer ?d) (drop 8 w)\<rparr>" "mosi s2 = mosi (dt_com ?d) @ take 8 t"
    by (rule txRx_during [where n = 8 and tx = t]) (use w t in simp_all)
  moreover have "sendStatusToHans st d = com_txRx 8 t ?d" using s(1) by (simp add: sendStatusToHans_def t_def)
  ultimately show ?thesis using s(2) t(2) by (simp add: status_bytes_def)
qed

context sector_store
begin

lemma write_sectors:
  assumes "dataMedia z = Some m" and "good (sc_env z) m" and "0 < unat cnt" "unat cnt < 2048" and "unat start + unat cnt \<le> length (bytes m) div 512"
    and "length (sc_dataBuffer z) = SCSI_BUFFER_SIZE" and "recvData (cnt * 512) d = (d', xs, True)" and "length xs = unat cnt * 512"
  obtains m' where "readWriteGeneric False start cnt (z, d) = SendOKstatus (set_media m' (z\<lparr>sc_dataBuffer := overwrite (sc_dataBuffer z) xs\<rparr>), d')"
    and "bytes m' = splice (unat start * 512) xs (bytes m)"
proof -
  note c = rw_checks [OF assms(3-5)]
  let ?z = "z\<lparr>sc_dataBuffer := overwrite (sc_dataBuffer z) xs\<rparr>"
  have m: "the_media z = m" using assms(1) by (simp add: the_media_def)
  have mz: "the_media ?z = the_media z" unfolding the_media_def dataMedia_def deref_def dev_info_def media_slot_def by (simp split: mediaptr.split)
  have b: "unat cnt * 512 \<le> length (sc_dataBuffer ?z)" using assms(4,6) by simp
  obtain m' where m': "media_writeSectors (int (unat start)) (unat cnt) (sc_dataBuffer ?z) m = (m', True)"
    "bytes m' = splice (unat start * 512) (take (unat cnt * 512) (sc_dataBuffer ?z)) (bytes m)"
    using writes [OF assms(2,3,5) b] by blast
  have t: "take (unat cnt * 512) (sc_dataBuffer ?z) = xs" using overwritten_prefix [of xs "sc_dataBuffer z"] assms(4,6,8) by simp
  have "writeSectors_small start cnt (z, d) = ((set_media m' ?z, d'), True)"
    using m'(1) m mz assms(7) by (simp add: writeSectors_small_def z_recv_def z_write_def Let_def)
  with c have "readWriteGeneric False start cnt (z, d) = SendOKstatus (set_media m' ?z, d')"
    by (simp add: readWriteGeneric_def m capacity [OF assms(2)])
  then show ?thesis using m'(2) unfolding t by (rule that)
qed

end

lemma writable_stored:
  assumes "dataMedia z = Some m" and "writable env m" and "media_slot z < length (sc_attachedMedia z)"
  shows "dataMedia (fst (SendOKstatus (set_media m' (z\<lparr>sc_dataBuffer := b\<rparr>), d))) = Some m'"
proof -
  let ?z = "z\<lparr>sc_dataBuffer := b\<rparr>"
  obtain x where p: "di_attachedMediaIndex (dev_info z) \<noteq> - 1" "ac_dataMedia (sc_attachedMedia z ! media_slot z) = Allocated x"
    using assms(1,2) by (auto simp: dataMedia_def deref_def split: if_splits mediaptr.splits)
  have f: "media_slot ?z = media_slot z" "dev_info ?z = dev_info z" by (simp_all add: media_slot_def dev_info_def)
  have s: "set_media m' ?z = ?z\<lparr>sc_attachedMedia := (sc_attachedMedia z)[media_slot z := (sc_attachedMedia z ! media_slot z)\<lparr>ac_dataMedia := Allocated m'\<rparr>]\<rparr>"
    using p(2) by (simp add: set_media_def f)
  have "dataMedia (set_media m' ?z) = Some m'" unfolding s using p(1) assms(3)
    by (simp add: dataMedia_def media_slot_def dev_info_def deref_def)
  moreover have "dataMedia (fst (SendOKstatus (y, d))) = dataMedia y" for y
    by (cases "sc_acsiId y < length (sc_devInfo y)")
      (simp_all add: SendOKstatus_def storeSenseAndSendStatus_def dataMedia_def media_slot_def dev_info_def deref_def list_update_beyond split: mediaptr.split)
  ultimately show ?thesis by simp
qed

section \<open>Hans's part of a write\<close>

lemma find_status_ok:
  assumes "length cb = 16" and "ws = words_of (status_bytes st)"
  shows "find_status (overwrite cb (take 8 ws)) = st"
proof -
  have w: "ws = [0, 0, 0, 0, 0x40, be16 st 0, 0, 0]" by (simp add: assms(2) status_bytes_def zeros be16_def)
  have u: "[0..<8] = [0, 1, 2, 3, 4, 5, 6, 7 :: nat]" by (simp add: upt_rec)
  have "ucast (drop_bit 8 (be16 st 0)) = st" by (rule bit_word_eqI) (auto simp: be16_def bit_simps dest: bit_imp_le_length)
  then show ?thesis using assms(1) by (simp add: find_status_def u w overwrite_def)
qed

lemma onReadStatus_ok:
  assumes "\<not> spiIdle h" and "host_in h = Done w # Done (words_of (status_bytes st)) # es" and "False \<notin> set (spi1_ok h)"
    and "take 2 (atnStatus h) = [ATN_SYNC_WORD, 5]" "length (atnStatus h) = 5" "atnStatus h ! 4 = 0" and "length (cmdBuffer h) = 16" and "brStat h = BR_OK"
    and "answers (status_acks (isAcsiNotScsi h)) h"
  shows "bus_out (onReadStatus h) = bus_out h @ status_evs (isAcsiNotScsi h) st" and "host_in (onReadStatus h) = es"
    and "host_out (onReadStatus h) = host_out h @ [status_message]" and "hstate (onReadStatus h) = STATE_GET_COMMAND"
proof -
  let ?ws = "words_of (status_bytes st)"
  obtain g where g: "hans_spiDma_txRx 5 (atnStatus h) 8 RxCmd h = (g, True)" "kept_write g = kept_write h" "\<not> spiIdle g"
    "host_out g = host_out h @ [(take (unat (5 :: WORD)) ((atnStatus h)[2 := 5, 3 := 8]), 8)]" "host_in g = Done ?ws # es" "False \<notin> set (spi1_ok g)"
    "spi_rx g = (RxCmd, 8)"
    by (rule txRx_write [of h "Done ?ws # es" 5 "atnStatus h" 8 RxCmd]) (use assms(1-3) in simp_all)
  have k: "strobes g = strobes h" "bus_out g = bus_out h" "brStat g = BR_OK" "isAcsiNotScsi g = isAcsiNotScsi h" "length (cmdBuffer g) = 16"
    using g(2) assms(7,8) by (simp_all add: kept_write_def)
  define f where "f = spi_complete ?ws (g\<lparr>host_in := es\<rparr>)"
  have f: "hans_spiDma_waitForFinish g = (f, True)"
    using spi_idle_done [OF g(3,5)] by (simp add: hans_spiDma_waitForFinish_def f_def)
  have f': "strobes f = strobes h" "bus_out f = bus_out h" "brStat f = BR_OK" "isAcsiNotScsi f = isAcsiNotScsi h" "host_in f = es" "host_out f = host_out g"
    "cmdBuffer f = overwrite (cmdBuffer g) (take 8 ?ws)"
    using k g(7) by (simp_all add: f_def spi_complete_def rx_store_def hans_DMA1_Channel2_IRQHandler_def hans_DMA1_Channel3_IRQHandler_def Let_def)
  have "find_status (cmdBuffer f) = st" unfolding f'(7) by (rule find_status_ok [OF k(5) refl])
  moreover have "answers (status_acks (isAcsiNotScsi f)) f" using assms(9) f' by (simp add: answers_def)
  ultimately have r: "onReadStatus h = (f\<lparr>strobes := drop (status_acks (isAcsiNotScsi f)) (strobes f), bus_out := bus_out f @ status_evs (isAcsiNotScsi f) st,
      lastScsiStatusByte := st, pioReadFailed := False, rnw := False, first_cmd := None, brStat := BR_OK\<rparr>)\<lparr>hstate := STATE_GET_COMMAND\<rparr>"
    using PIO_read_ok [OF f'(3)] by (simp add: onReadStatus_def g(1) f)
  obtain a b c where "atnStatus h = [ATN_SYNC_WORD, 5, a, b, c]" using assms(4,5)
    by (cases "atnStatus h"; cases "tl (atnStatus h)"; cases "tl (tl (atnStatus h))"; cases "tl (tl (tl (atnStatus h)))"; cases "tl (tl (tl (tl (atnStatus h))))") auto
  then have "host_out g = host_out h @ [status_message]" using assms(6) g(4) by (simp add: status_message_def)
  then show "bus_out (onReadStatus h) = bus_out h @ status_evs (isAcsiNotScsi h) st" and "host_in (onReadStatus h) = es"
    and "host_out (onReadStatus h) = host_out h @ [status_message]" and "hstate (onReadStatus h) = STATE_GET_COMMAND"
    by (simp_all add: r f')
qed

text \<open>Hans as he waits for the host's answer, with the buffers for writes and for the status.\<close>

definition awaiting_write :: "hans \<Rightarrow> bool" where
  "awaiting_write h \<longleftrightarrow> awaiting h \<and> wr_ok h \<and> False \<notin> set (spi1_ok h) \<and> take 2 (atnStatus h) = [ATN_SYNC_WORD, 5] \<and>
     length (atnStatus h) = 5 \<and> atnStatus h ! 4 = 0"

lemma write_phases:
  assumes "awaiting_write h" and "length xs < 16777216" and "xs \<noteq> []" and "strobes h = map Some xs @ ss"
    and "status_acks (isAcsiNotScsi h) \<le> length ss" "None \<notin> set (take (status_acks (isAcsiNotScsi h)) ss)"
    and "host_in h = map Done (words_of (start_packet CMD_DATA_WRITE (length xs) 0xff) # blks @ [words_of (status_bytes st)]) @ es"
    and "length blks = length (chunks xs)"
  shows "\<exists>h'. acsi_loop h = Some (Some h') \<and> bus_out h' = bus_out h @ status_evs (isAcsiNotScsi h) st \<and>
    host_out h' = host_out h @ write_messages 0 (chunks xs) @ [status_message] \<and> host_in h' = es \<and> hstate h' = STATE_GET_COMMAND"
proof -
  note a = assms(1) [unfolded awaiting_write_def]
  have b0: "blks = butlast blks @ [last blks]" using assms(3,8) by (cases blks rule: rev_cases) auto
  have hi: "host_in h = Done (words_of (start_packet CMD_DATA_WRITE (length xs) 0xff)) #
      (map Done (butlast blks) @ Done (last blks) # Done (words_of (status_bytes st)) # es)"
    unfolding assms(7) by (subst b0) simp
  obtain g where g: "acsi_pass h = Some (g, False)" "hstate g = STATE_DATA_WRITE" "spiIdle g" "dataCnt g = of_nat (length xs)"
    "host_in g = map Done (butlast blks) @ Done (last blks) # Done (words_of (status_bytes st)) # es" "brStat g = BR_OK" "strobes g = strobes h"
    "bus_out g = bus_out h" "host_out g = host_out h" "isAcsiNotScsi g = isAcsiNotScsi h" "wrBufs g = wrBufs h" "atnStatus g = atnStatus h"
    "spi1_ok g = spi1_ok h" "length (cmdBuffer g) = 16"
    using start_pass [OF conjunct1 [OF a] hi assms(2)] by (auto simp: start_state_def)
  define l where "l = longTimeout_basedOnSectorCount (ucast (drop_bit 9 (dataCnt g))) g"
  have l: "spiIdle l" "dataCnt l = of_nat (length xs)" "host_in l = host_in g" "brStat l = BR_OK" "strobes l = map Some xs @ ss" "bus_out l = bus_out h"
    "host_out l = host_out h" "for_status l = for_status g" "wr_ok l" "False \<notin> set (spi1_ok l)"
    using g a assms(4) by (simp_all add: l_def longTimeout_basedOnSectorCount_def timerSetup_cmdTimeoutChangeLength_def Let_def for_status_def wr_ok_def)
  have "Suc (length (butlast blks)) = length (chunks xs)" using assms(3,8) by (cases blks rule: rev_cases) auto
  note w = write_delivered [OF l(9,4,10,1,2) assms(2,3) l(3) [unfolded g(5)] this l(5)]
  define k where "k = timerSetup_cmdTimeoutChangeLength CMD_TIMEOUT_SHORT (onDataWrite l)"
  have k: "hstate k = STATE_READ_STATUS" "bus_out k = bus_out h" "strobes k = ss" "host_in k = Done (last blks) # Done (words_of (status_bytes st)) # es"
    "host_out k = host_out h @ write_messages 0 (chunks xs)" "brStat k = BR_OK" "False \<notin> set (spi1_ok k)" "\<not> spiIdle k"
    "isAcsiNotScsi k = isAcsiNotScsi h" "atnStatus k = atnStatus h" "length (cmdBuffer k) = 16"
    using w l g by (simp_all add: k_def timerSetup_cmdTimeoutChangeLength_def for_status_def)
  have "answers (status_acks (isAcsiNotScsi k)) k" using assms(5,6) k(3,9) by (simp add: answers_def)
  note r = onReadStatus_ok [OF k(8,4,7) _ _ _ k(11,6) this, unfolded k(10)]
  have "acsi_pass g = Some (onReadStatus k, True)"
    using g(2) k(1) by (simp add: acsi_pass_def long_phase_def l_def [symmetric] k_def [symmetric])
  then have "acsi_loop g = Some (Some (onReadStatus k))" by (subst acsi_loop.simps) simp
  moreover have "acsi_loop h = acsi_loop g" by (subst acsi_loop.simps) (simp add: g(1))
  ultimately show ?thesis using r a k by auto
qed

section \<open>A whole write\<close>

lemma write_answered:
  assumes "reaches p z m" and "rw_command p = Some (False, start, cnt)" and "access p z = SCSI_ACCESSTYPE_FULL" and "writable (sc_env z) m"
    and "0 < unat cnt" "unat cnt < 2048" and "unat start + unat cnt \<le> length (contents m) div 512" and "length xs = unat cnt * 512"
    and "recvData (cnt * 512) (clear True d) = (d', xs, True)" and "dt_dataDirection d' = DATA_DIRECTION_WRITE"
  obtains z' m' d1 where "Scsi_processCommand p (z, d) = (z', sendStatusToHans 0 d1)" and "dt_com d1 = dt_com d'" and "txBuffer d1 = txBuffer d'"
    and "dataMedia z' = Some m'" and "contents m' = splice (unat start * 512) xs (contents m)"
proof -
  let ?z = "addressed p z"
  have a: "access p z = SCSI_ACCESSTYPE_FULL \<or> (False \<and> access p z = SCSI_ACCESSTYPE_READ_ONLY)" using assms(3) by simp
  have z: "dataMedia ?z = Some m" "writable (sc_env ?z) m" "length (sc_dataBuffer ?z) = SCSI_BUFFER_SIZE" "media_slot ?z < length (sc_attachedMedia ?z)"
    using assms(1,4) by (simp_all add: reaches_def) (simp add: addressed_def)
  let ?zb = "?z\<lparr>sc_dataBuffer := overwrite (sc_dataBuffer ?z) xs\<rparr>"
  obtain m' where m': "readWriteGeneric False start cnt (?z, clear True d) = SendOKstatus (set_media m' ?zb, d')"
    "contents m' = splice (unat start * 512) xs (contents m)"
    by (rule writable.write_sectors [OF z(1,2) assms(5-7) z(3) assms(9,8)])
  have dm: "dataMedia (fst (SendOKstatus (set_media m' ?zb, d'))) = Some m'" by (rule writable_stored [OF z(1,2,4)])
  define d1 where "d1 = (setStatus 0 d')\<lparr>dt_retry := copyDataAndStatus DATA_DIRECTION_WRITE (dt_count d') (dt_buffer d') True 0 (dt_retry d')\<rparr>"
  have "sc_notJustStatus (set_media m' ?zb)" by simp
  then have "Scsi_processCommand p (z, d) = (fst (SendOKstatus (set_media m' ?zb, d')), sendStatusToHans 0 d1)"
    unfolding processCommand_rw [OF assms(1,2) a] m'(1) using assms(10)
    by (simp add: SendOKstatus_def storeSenseAndSendStatus_def sendDataAndStatus_def Let_def d1_def setStatus_def)
  then show ?thesis by (rule that) (use dm m'(2) in \<open>simp_all add: d1_def setStatus_def\<close>)
qed

text \<open>
  C3: the sectors the Atari writes are stored. The host gets a WRITE command (6 or 10 bytes long) for fewer than 2048
  sectors of an image or a device, Hans waits for its answer, and each side receives what the other one sends. If the host
  sees the attention signals in time and the Atari sends every byte, then the medium holds the bytes at these sectors and is
  unchanged elsewhere, and the Atari gets the status for success.
\<close>

theorem written_sectors_stored:
  assumes "rw_command p = Some (False, start, cnt)" and "reaches p (core_mod c) m" and "writable (sc_env (core_mod c)) m"
    and "access p (core_mod c) = SCSI_ACCESSTYPE_FULL" and "acsiIDdevType c ! unat (drop_bit 5 (p ! 0)) \<noteq> DEVTYPE_OFF"
    and "0 < unat cnt" "unat cnt < 2048" and "unat start + unat cnt \<le> length (contents m) div 512" and "length xs = unat cnt * 512"
    and "dt_ok (core_dt c)" "length (rxBuffer (core_dt c)) = 600"
    and "commanded p (map (\<lambda>m. word_bytes (fst m)) (write_messages 0 (chunks xs)) @ [w]) ks (dt_com (core_dt c))" and "on_wire status_message w"
    and "awaiting_write h" and "strobes h = map Some xs @ ss" and "status_acks (isAcsiNotScsi h) \<le> length ss"
    and "None \<notin> set (take (status_acks (isAcsiNotScsi h)) ss)"
    and "c' = core_handleAcsiCommand mods Scsi_processCommand c"
    and "host_in h = map Done (hans_gets (map wire_size (write_messages 0 (chunks xs) @ [status_message])) (dt_com (core_dt c)) (dt_com (core_dt c'))) @ es"
  shows "(\<exists>m'. dataMedia (core_mod c') = Some m' \<and> contents m' = splice (unat start * 512) xs (contents m)) \<and>
    (\<exists>h'. acsi_loop h = Some (Some h') \<and> bus_out h' = bus_out h @ status_evs (isAcsiNotScsi h) 0 \<and>
      host_out h' = host_out h @ write_messages 0 (chunks xs) @ [status_message] \<and> host_in h' = es \<and> hstate h' = STATE_GET_COMMAND)"
proof -
  define s where "s = dt_com (core_dt c)"
  let ?msgs = "map (\<lambda>m. word_bytes (fst m)) (write_messages 0 (chunks xs))"
  obtain d where d: "c' = run_on (Scsi_processCommand p) (c\<lparr>core_dt := d\<rparr>)"
    "dt_com d = s\<lparr>mosi := mosi s @ replicate 14 0, miso := drop 14 (miso s), remainingPacketLength := 10\<rparr>" "rxBuffer d = rxBuffer (core_dt c)"
    using core_rw [OF assms(12,5,1), of mods Scsi_processCommand] unfolding s_def assms(18) by metis
  obtain com us ms ps where q: "miso s = p @ com @ concat (?msgs @ [w]) @ us" "length com = 10" "length ks = length (?msgs @ [w])" "ms_over s = looks ks @ ms"
    "atn_pin s = pins ks @ ps" "length p = 14" "sigint s = []"
    using assms(12) by (auto simp: commanded_def s_def)
  have lm: "length (write_messages n cs) = length cs" for n cs by (induction cs arbitrary: n) simp_all
  obtain ks1 k where k: "ks = ks1 @ [k]" "length ks1 = length (chunks xs)" using q(3) by (cases ks rule: rev_cases) (auto simp: lm)
  have n: "unat (cnt * 512) = length xs" "cnt * 512 \<le> 0xffffff" using rw_checks [OF assms(6-8)] assms(9) by simp_all
  have cl: "dt_com (clear True d) = dt_com d" "rxBuffer (clear True d) = rxBuffer d" by (simp_all add: clear_def Let_def)
  have ev: "even (length xs)" "xs \<noteq> []" "length xs < 16777216" using assms(6,7,9) by auto
  obtain s' rx blks where r: "recvData (cnt * 512) (clear True d) =
      ((clear True d)\<lparr>dt_dataDirection := DATA_DIRECTION_WRITE, dt_com := s', txBuffer := replicate 600 0, rxBuffer := rx\<rparr>, xs, True)"
    "mosi s' = mosi (dt_com (clear True d)) @ devCommand CMD_DATA_WRITE (cnt * 512) 0xff @ concat blks"
    "map length blks = map wire_size (write_messages 0 (chunks xs))" "ready [k] w s'"
    by (rule recvData_ok [of "clear True d" com xs w us ks1 "[k]" ms ps "cnt * 512"])
      (use q k n ev d(2,3) cl assms(11) in simp_all)
  obtain z' m' d1 where z: "Scsi_processCommand p (core_mod c, d) = (z', sendStatusToHans 0 d1)" "dt_com d1 = s'" "txBuffer d1 = replicate 600 0"
    "dataMedia z' = Some m'" "contents m' = splice (unat start * 512) xs (contents m)"
    by (rule write_answered [OF assms(2,1,4,3,6-9) r(1)]) simp_all
  have c': "core_mod c' = z'" "core_dt c' = sendStatusToHans 0 d1" unfolding d(1) by (simp_all add: run_on_def z(1))
  have "mosi (dt_com (core_dt c')) = mosi s' @ status_bytes 0"
    unfolding c'(2) z(2) [symmetric] by (rule status_answered) (use r(4) z(2,3) assms(13) in simp_all)
  then have mo: "mosi (dt_com (core_dt c')) = mosi s @ replicate 14 0 @ devCommand CMD_DATA_WRITE (cnt * 512) 0xff @ concat (blks @ [status_bytes 0])"
    using r(2) by (simp add: cl d(2))
  have u: "(of_nat (length xs) :: DWORD) = cnt * 512" by (simp flip: n(1))
  have z22: "replicate 22 0 = replicate 8 0 @ replicate 14 (0 :: BYTE)" by (simp flip: replicate_add)
  have "replicate 8 0 @ drop (length (mosi s)) (mosi (dt_com (core_dt c'))) =
      concat (start_packet CMD_DATA_WRITE (length xs) 0xff # blks @ [status_bytes 0])"
    unfolding mo start_packet_def u z22 by simp
  moreover have "length (start_packet CMD_DATA_WRITE (length xs) 0xff) = 32" by (simp add: start_packet_def devCommand_def)
  moreover have "wire_size status_message = length (status_bytes 0)" by (simp add: wire_size_def status_message_def status_bytes_def)
  ultimately have "hans_gets (map wire_size (write_messages 0 (chunks xs) @ [status_message])) s (dt_com (core_dt c')) =
      map words_of (start_packet CMD_DATA_WRITE (length xs) 0xff # blks @ [status_bytes 0])"
    unfolding hans_gets_def using r(3) by (simp only:) (rule arg_cong [where f = "map words_of"], rule cut_concat, simp)
  then have hi: "host_in h = map Done (words_of (start_packet CMD_DATA_WRITE (length xs) 0xff) # map words_of blks @ [words_of (status_bytes 0)]) @ es"
    using assms(19) by (simp add: s_def)
  have "length (map words_of blks) = length (chunks xs)" using arg_cong [OF r(3), of length] by (simp add: lm)
  from write_phases [OF assms(14) ev(3,2) assms(15-17) hi this] show ?thesis using z(4,5) c'(1) by blast
qed

end
