(* ===== verification/HostBoot.thy ===== *)
theory HostBoot
  imports HostScsiWr
begin

text \<open>
  The checksum of the boot sector of the translated disk, and a write that ends behind an image.
\<close>

section \<open>Checksum\<close>

lemma boot_sum_cong:
  assumes "\<And>i. i < 2 * n \<Longrightarrow> b ! i = b' ! i"
  shows "boot_sum n b = boot_sum n b'"
  unfolding boot_sum_def by (rule fold_cong) (use assms in auto)

lemma boot_sum_Suc: "boot_sum (Suc n) b = boot_sum n b + be16 (b ! (2 * n)) (b ! (2 * n + 1))"
  by (simp add: boot_sum_def)

lemma checksum_sum:
  assumes "512 \<le> length b"
  shows "boot_sum 256 (calculateChecksum b) = 0x1234" and "length (calculateChecksum b) = length b"
    and "i \<noteq> 510 \<Longrightarrow> i \<noteq> 511 \<Longrightarrow> calculateChecksum b ! i = b ! i"
proof -
  define cs where "cs = 0x1234 - boot_sum 255 b"
  have c: "calculateChecksum b = b[510 := ucast (drop_bit 8 cs), 511 := ucast cs]" by (simp add: calculateChecksum_def cs_def Let_def)
  have "boot_sum 255 (calculateChecksum b) = boot_sum 255 b" by (rule boot_sum_cong) (simp add: c)
  moreover have "be16 (calculateChecksum b ! 510) (calculateChecksum b ! 511) = cs" using assms by (simp add: c be16_split)
  ultimately show "boot_sum 256 (calculateChecksum b) = 0x1234" using boot_sum_Suc [of 255 "calculateChecksum b"] by (simp add: cs_def)
  show "length (calculateChecksum b) = length b" "i \<noteq> 510 \<Longrightarrow> i \<noteq> 511 \<Longrightarrow> calculateChecksum b ! i = b ! i" by (simp_all add: c)
qed

text \<open>
  C22: after the boot medium has got its ID, its boot sector is one that the Atari starts: the big-endian
  words of the first 512 bytes add up to 0x1234. It holds the ID, from 8 on for a SCSI bus, behind the
  marker of its configuration, and nothing else of the image has changed.
\<close>

theorem boot_sector_sum:
  assumes "getConfigPosition (tb_imageBuffer t) = Some pos" and "pos + 6 < 510" and "512 \<le> length (tb_imageBuffer t)"
    and "b' = tb_imageBuffer (updateBootsectorConfigWithACSIid env acsiId t)"
  shows "boot_sum 256 b' = 0x1234 \<and> b' ! (pos + 6) = (if he_hddIsAcsi env then acsiId else acsiId + 8) \<and> length b' = length (tb_imageBuffer t) \<and>
    (\<forall>i. i \<noteq> pos + 6 \<and> i \<noteq> 510 \<and> i \<noteq> 511 \<longrightarrow> b' ! i = tb_imageBuffer t ! i)"
proof -
  let ?b = "(tb_imageBuffer t)[pos + 6 := if he_hddIsAcsi env then acsiId else acsiId + 8]"
  have b: "b' = calculateChecksum ?b" using assms(1) by (simp add: assms(4) updateBootsectorConfigWithACSIid_def Let_def)
  have l: "512 \<le> length ?b" using assms(3) by simp
  show ?thesis unfolding b using checksum_sum [OF l] assms(2,3) by simp
qed

lemma boot_sector_sum_witness:
  "boot_sum 256 (tb_imageBuffer (updateBootsectorConfigWithACSIid \<lparr>he_hddIsAcsi = False, he_bs_l1 = None, he_bs_l2 = None, he_ce_dd = None\<rparr> 2
     \<lparr>tb_ifaceIsAcsi = True, tb_BCapacity = 512, tb_SCapacity = 1, tb_gotImage = True, tb_imageBuffer = [0x58, 0x58] @ replicate 510 0, tb_lastUsedAcsiId = 0xff\<rparr>)) = 0x1234"
proof -
  let ?t = "\<lparr>tb_ifaceIsAcsi = True, tb_BCapacity = 512, tb_SCapacity = 1, tb_gotImage = True, tb_imageBuffer = [0x58, 0x58] @ replicate 510 0, tb_lastUsedAcsiId = 0xff\<rparr>"
  have "getConfigPosition (tb_imageBuffer ?t) = Some 0" by (simp add: getConfigPosition_def find_Some_iff) (rule exI [of _ 0], simp)
  from boot_sector_sum [OF this _ _ refl] show ?thesis by simp
qed

section \<open>Writing past the end\<close>

text \<open>
  C40: the range check lets a WRITE pass that ends one sector behind an image: the image file grows by a
  sector and the status is that of success.
\<close>

theorem write_past_end_grows:
  assumes "dataMedia z = Some (ImageFileMedia i)" and "im_fd i = Some f" and "im_SCapacity i = int k" and "length f = k * 512"
    and "unat start < k" and "unat start + unat cnt = k + 1" and "unat cnt < 2048" and "length (sc_dataBuffer z) = SCSI_BUFFER_SIZE"
    and "recvData (cnt * 512) d = (d', xs, True)" and "length xs = unat cnt * 512"
  shows "\<exists>i' f'. readWriteGeneric False start cnt (z, d) = SendOKstatus (set_media (ImageFileMedia i') (z\<lparr>sc_dataBuffer := overwrite (sc_dataBuffer z) xs\<rparr>), d') \<and>
    im_fd i' = Some f' \<and> length f' = (k + 1) * 512 \<and> drop (unat start * 512) f' = xs"
proof -
  have n: "0 < unat cnt" using assms(5,6) by simp
  have c: "\<not> cnt * 512 > 0xffffff" "cnt < 2048" "unat (cnt * 512) = unat cnt * 512"
    using rw_checks [OF n assms(7), of start "k + 1"] assms(6) by simp_all
  have "\<not> uint (start + cnt - 1) > int k"
  proof -
    have "uint (start + cnt - 1) = (uint start + uint cnt - 1) mod 2 ^ 32" by (simp add: uint_word_ariths mod_simps)
    moreover have "uint start + uint cnt - 1 = int k" using assms(6) unfolding uint_nat by linarith
    ultimately have "uint (start + cnt - 1) = int k mod 2 ^ 32" by simp
    also have "\<dots> \<le> int k" by (rule zmod_le_nonneg_dividend) simp
    finally show ?thesis by simp
  qed
  let ?z = "z\<lparr>sc_dataBuffer := overwrite (sc_dataBuffer z) xs\<rparr>"
  let ?f = "take (unat start * 512) f @ xs"
  have m: "the_media z = ImageFileMedia i" using assms(1) by (simp add: the_media_def)
  have mz: "the_media ?z = the_media z" unfolding the_media_def dataMedia_def deref_def dev_info_def media_slot_def by (simp split: mediaptr.split)
  have t: "take (unat cnt * 512) (sc_dataBuffer ?z) = xs" using overwritten_prefix [of xs "sc_dataBuffer z"] assms(7,8,10) by simp
  have le: "unat start * 512 \<le> length f" "length f \<le> unat start * 512 + length xs"
    using assms(4-6,10) by (simp_all add: algebra_simps)
  have os: "os_write (unat start * 512) xs f = ?f" using le by (simp add: os_write_def)
  have "media_writeSectors (uint start) (unat cnt) (sc_dataBuffer ?z) (the_media ?z) = (ImageFileMedia (i\<lparr>im_fd := Some ?f\<rparr>), True)"
  proof -
    have "\<not> int k \<le> uint start" using assms(5) unfolding uint_nat by linarith
    then show ?thesis unfolding mz m using assms(2,3) t os by (simp add: image_writeSectors_def nat_mult_distrib)
  qed
  then have "writeSectors_small start cnt (z, d) = ((set_media (ImageFileMedia (i\<lparr>im_fd := Some ?f\<rparr>)) ?z, d'), True)"
    using assms(9) by (simp add: writeSectors_small_def z_recv_def z_write_def)
  then have "readWriteGeneric False start cnt (z, d) = SendOKstatus (set_media (ImageFileMedia (i\<lparr>im_fd := Some ?f\<rparr>)) ?z, d')"
    using c \<open>\<not> uint (start + cnt - 1) > int k\<close> assms(3) by (simp add: readWriteGeneric_def m)
  moreover have "length ?f = (k + 1) * 512" 
  proof -
    have "length ?f = (unat start + unat cnt) * 512" using assms(10) le by (simp add: add_mult_distrib)
    then show ?thesis unfolding assms(6) .
  qed
  moreover have "drop (unat start * 512) ?f = xs" using le by simp
  ultimately show ?thesis by (intro exI [of _ "i\<lparr>im_fd := Some ?f\<rparr>"] exI [of _ ?f]) simp
qed

end
