(* ===== verification/HostScsiWit.thy ===== *)
theory HostScsiWit
  imports HostBoot
begin

text \<open>
  Commands on the instance of the host's SCSI devices.
\<close>

section \<open>Protected media and links\<close>

lemma only_own_medium_written_witness:
  "slot_bytes (fst (Scsi_processCommand [0x0a, 0, 0, 0, 1, 0]
     (scsi_example\<lparr>sc_devInfo := replicate 8 (dev_example\<lparr>di_attachedMediaIndex := 1, di_accessType := SCSI_ACCESSTYPE_READ_ONLY\<rparr>)\<rparr>, trans_example))) 1 =
   Some (replicate 1024 7)"
proof -
  let ?z = "scsi_example\<lparr>sc_devInfo := replicate 8 (dev_example\<lparr>di_attachedMediaIndex := 1, di_accessType := SCSI_ACCESSTYPE_READ_ONLY\<rparr>)\<rparr>"
  have "slot_bytes (fst (Scsi_processCommand [0x0a, 0, 0, 0, 1, 0] (?z, trans_example))) 1 = slot_bytes ?z 1"
    by (rule only_own_medium_written [OF refl]) simp
  also have "\<dots> = Some (replicate 1024 7)" by (simp add: slot_bytes_def scsi_example_eq image_example_def)
  finally show ?thesis .
qed

lemma slots_and_ids_witness:
  "id_slot scsi_example 0 = 1 \<and> slot_id scsi_example (nat (id_slot scsi_example 0)) = 0"
proof -
  have "scsi_reach files_example scsi_example" unfolding scsi_example_def
    by (rule scsi_reach.start) (subst setting_example, simp add: image_path_def)
  from slots_and_ids [OF this] have "\<forall>i<8. id_slot scsi_example i \<noteq> - 1 \<longrightarrow> slot_id scsi_example (nat (id_slot scsi_example i)) = int i" by blast
  moreover have "id_slot scsi_example 0 = 1" by (simp add: id_slot_def scsi_example_eq(2))
  ultimately show ?thesis by (metis int_ops(1) one_neq_neg_one zero_less_numeral)
qed

section \<open>A read\<close>

definition block7 :: "BYTE list" where
  "block7 = replicate 512 7"

definition read_cmd :: "BYTE list" where
  "read_cmd = [8, 0, 0, 1, 1, 0, 0, 0, 0, 0, 0, 0, 0, 0]"

definition read_req :: "BYTE list" where
  "read_req = word_bytes [0xcafe, 3, 6, 262, 0, 0] @ replicate 512 0"

definition core_scsi :: "BYTE list \<Rightarrow> nat \<Rightarrow> scsi core" where
  "core_scsi bs n = \<lparr>core_dt = trans_example\<lparr>dt_com := com_example\<lparr>remainingPacketLength := 24, atn_pin := replicate n True, ms_over := replicate n False,
       miso := bs\<rparr>, dt_retry := retry_zero\<lparr>rt_buffer := replicate ACSI_BUFFER_SIZE 0\<rparr>, dt_buffer := replicate ACSI_BUFFER_SIZE 0\<rparr>,
     core_mod = scsi_example, acsiIDdevType = replicate 8 2\<rparr>"

lemma core_scsi_fields:
  "core_mod (core_scsi bs n) = scsi_example" "acsiIDdevType (core_scsi bs n) = replicate 8 2" "dt_ok (core_dt (core_scsi bs n))"
  "length (txBuffer (core_dt (core_scsi bs n))) = 600" "length (rxBuffer (core_dt (core_scsi bs n))) = 600"
  "dt_com (core_dt (core_scsi bs n)) = com_example\<lparr>remainingPacketLength := 24, atn_pin := replicate n True, ms_over := replicate n False, miso := bs\<rparr>"
  by (simp_all add: core_scsi_def trans_example_def dt_ok_def retry_zero_def)

lemma example_reached:
  assumes "p ! 0 = 8 \<or> p ! 0 = 10" and "p ! 1 = 0"
  shows "reaches p scsi_example (ImageFileMedia image_example)" "access p scsi_example = SCSI_ACCESSTYPE_FULL"
    "readable (sc_env scsi_example) (ImageFileMedia image_example)" "writable (sc_env scsi_example) (ImageFileMedia image_example)"
proof -
  define b :: "BYTE list" where "b = replicate SCSI_BUFFER_SIZE 0"
  have l: "length b = SCSI_BUFFER_SIZE" by (simp add: b_def)
  have d: "sc_dataBuffer scsi_example = b" by (simp add: scsi_example_eq b_def)
  show "reaches p scsi_example (ImageFileMedia image_example)" "access p scsi_example = SCSI_ACCESSTYPE_FULL"
    using assms l
    by (auto simp: reaches_def access_def addressed_def dataMedia_def dev_info_def media_slot_def deref_def scsi_example_eq(1,2) d scsi_lun_def
        isICDcommand_def image_example_def)
  show "readable (sc_env scsi_example) (ImageFileMedia image_example)" "writable (sc_env scsi_example) (ImageFileMedia image_example)"
    by (simp_all add: image_example_def)
qed

lemma one_chunk: "xs \<noteq> [] \<Longrightarrow> length xs \<le> 512 \<Longrightarrow> chunks xs = [xs]"
  by simp

lemma looks_one: "looks [0] = [False]" "pins [0] = [True]" "looks [0, 0] = [False, False]" "pins [0, 0] = [True, True]"
  by (simp_all add: looks_def pins_def)

definition hans_reading :: "WORD list list \<Rightarrow> hans" where
  "hans_reading ws = (host_example (replicate 513 (Some 0)) (map Done ws) 0)\<lparr>hstate := STATE_WAIT_COMMAND_RESPONSE,
     spiIdle := False, spi_rx := (RxCmd, 16), shouldProcessCommands := True, tim := [False]\<rparr>"

lemma atn_more_example: "take 2 ((replicate 6 0)[0 := ATN_SYNC_WORD, 1 := 3, 5 := 0]) = [ATN_SYNC_WORD, 3]"
  by (simp add: numeral_eq_Suc)

text \<open>READ(6) of the second sector: the Atari gets 512 bytes with the value 7.\<close>

lemma sectors_reach_atari_witness:
  "\<exists>ws h'. acsi_loop (hans_reading ws) = Some (Some h') \<and> bus_out h' = map Data block7 @ [Status 0, BusReset]"
proof -
  let ?c = "core_scsi (read_cmd @ replicate 10 0 @ read_req) 1"
  let ?ns = "map wire_size (requests 0 (chunks block7))"
  let ?ws = "hans_gets ?ns (dt_com (core_dt ?c)) (dt_com (core_dt (core_handleAcsiCommand (\<lambda>_ _ zd. zd) Scsi_processCommand ?c)))"
  let ?h = "hans_reading ?ws"
  have l: "length block7 = 512" "block7 \<noteq> []" by (simp_all add: block7_def)
  have rq: "requests 0 (chunks block7) = [([0xcafe, 3, 6, 262, 0, 0], 262)]"
    unfolding one_chunk [OF l(2), simplified l(1), simplified] by (simp add: request_def block_words_def l)
  have p: "read_cmd ! 0 = 8" "read_cmd ! 1 = 0" "length read_cmd = 14" by (simp_all add: read_cmd_def)
  have "read_cmd ! 0 = 8 \<or> read_cmd ! 0 = 10" using p(1) by simp
  note e = example_reached [OF this p(2)]
  have rw: "rw_command read_cmd = Some (True, 1, 1)"
    by (simp add: rw_command_def read_cmd_def isICDcommand_def start6_def count6_def Let_def)
  have cm: "commanded read_cmd [read_req] [0] (dt_com (core_dt ?c))"
    unfolding commanded_def core_scsi_fields
    by (intro conjI exI [of _ "replicate 10 0"] exI [of _ "[]"]) (simp_all add: p com_example_def looks_one)
  have ow: "list_all2 on_wire (requests 0 (chunks block7)) [read_req]"
    unfolding rq by (simp add: on_wire_def read_req_def be16_bytes_def)
  have xs: "block7 = take (unat (1 :: DWORD) * 512) (drop (unat (1 :: DWORD) * 512) (contents (ImageFileMedia image_example)))"
    by (simp add: block7_def image_example_def)
  have h: "awaiting ?h" "answers (length block7 + status_acks (isAcsiNotScsi ?h)) ?h" "isAcsiNotScsi ?h" "bus_out ?h = []" "host_in ?h = map Done ?ws @ []"
    using l atn_more_example
    by (simp_all add: awaiting_def hans_reading_def host_example_def hans_setupAtnBuffers_def hans_zero_def more_ok_def answers_def status_acks_def)
  have "acsiIDdevType ?c ! unat (drop_bit 5 (read_cmd ! 0)) \<noteq> DEVTYPE_OFF" by (simp add: core_scsi_fields p)
  note t = sectors_reach_atari [OF rw _ _ _ this _ _ _ xs _ _ cm ow h(1,2,5)]
  have "\<exists>h'. acsi_loop ?h = Some (Some h') \<and> bus_out h' = bus_out ?h @ map Data block7 @ status_evs (isAcsiNotScsi ?h) 0 \<and>
    host_out h' = host_out ?h @ requests 0 (chunks block7) \<and> host_in h' = [] \<and> hstate h' = STATE_GET_COMMAND"
    by (rule t) (use e core_scsi_fields in \<open>simp_all add: image_example_def\<close>)
  then show ?thesis using h(3,4) by (auto simp: status_evs_def)
qed

section \<open>Writes\<close>

definition block9 :: "BYTE list" where
  "block9 = replicate 512 9"

definition write_cmd :: "BYTE list" where
  "write_cmd = [10, 0, 0, 1, 1, 0, 0, 0, 0, 0, 0, 0, 0, 0]"

definition status_req :: "BYTE list" where
  "status_req = word_bytes [0xcafe, 5, 5, 8, 0] @ replicate 6 0"

definition hans_writing :: "WORD list list \<Rightarrow> hans" where
  "hans_writing ws = (host_example (map Some block9 @ [Some 0]) (map Done ws) 0)\<lparr>hstate := STATE_WAIT_COMMAND_RESPONSE,
     spiIdle := False, spi_rx := (RxCmd, 16), shouldProcessCommands := True, tim := [False]\<rparr>"

lemma hans_writing_ok:
  "awaiting_write (hans_writing ws)" "strobes (hans_writing ws) = map Some block9 @ [Some 0]" "isAcsiNotScsi (hans_writing ws)"
  "bus_out (hans_writing ws) = []" "host_in (hans_writing ws) = map Done ws"
proof -
  have a: "take 2 ((replicate 5 0)[0 := ATN_SYNC_WORD, 1 := 5, 4 := 0]) = [ATN_SYNC_WORD, 5]" by (simp add: numeral_eq_Suc)
  have "take 2 ((replicate 275 0)[0 := ATN_SYNC_WORD, 1 := 4]) = [ATN_SYNC_WORD, 4]"
    by (simp add: take_update_swap) (simp add: numeral_2_eq_2)
  then show "awaiting_write (hans_writing ws)" using a atn_more_example
    by (simp add: awaiting_write_def awaiting_def hans_writing_def host_example_def hans_setupAtnBuffers_def hans_zero_def more_ok_def wr_ok_def)
qed (simp_all add: hans_writing_def host_example_def hans_setupAtnBuffers_def hans_zero_def)

text \<open>WRITE(6) of the second sector: the image holds the new bytes there, and the Atari gets the status 0.\<close>

lemma written_sectors_stored_witness:
  "\<exists>ws m' h'. dataMedia (core_mod (core_handleAcsiCommand (\<lambda>_ _ zd. zd) Scsi_processCommand
      (core_scsi (write_cmd @ replicate 10 0 @ word_bytes (write_message 0 block9) @ status_req) 2))) = Some m' \<and>
    contents m' = replicate 512 7 @ replicate 512 9 \<and> acsi_loop (hans_writing ws) = Some (Some h') \<and> bus_out h' = [Status 0, BusReset]"
proof -
  let ?c = "core_scsi (write_cmd @ replicate 10 0 @ word_bytes (write_message 0 block9) @ status_req) 2"
  let ?c' = "core_handleAcsiCommand (\<lambda>_ _ zd. zd) Scsi_processCommand ?c"
  let ?ws = "hans_gets (map wire_size (write_messages 0 (chunks block9) @ [status_message])) (dt_com (core_dt ?c)) (dt_com (core_dt ?c'))"
  let ?h = "hans_writing ?ws"
  have l: "length block9 = 512" "block9 \<noteq> []" by (simp_all add: block9_def)
  have ch: "chunks block9 = [block9]" using one_chunk [OF l(2)] l(1) by simp
  have p: "write_cmd ! 0 = 10" "write_cmd ! 1 = 0" "length write_cmd = 14" by (simp_all add: write_cmd_def)
  have "write_cmd ! 0 = 8 \<or> write_cmd ! 0 = 10" using p(1) by simp
  note e = example_reached [OF this p(2)]
  have rw: "rw_command write_cmd = Some (False, 1, 1)"
    by (simp add: rw_command_def write_cmd_def isICDcommand_def start6_def count6_def Let_def)
  have two: "replicate 2 b = [b, b]" for b :: bool by (simp add: numeral_2_eq_2)
  have cm: "commanded write_cmd (map (\<lambda>m. word_bytes (fst m)) (write_messages 0 (chunks block9)) @ [status_req]) [0, 0] (dt_com (core_dt ?c))"
    unfolding commanded_def core_scsi_fields ch
    by (intro conjI exI [of _ "replicate 10 0"] exI [of _ "[]"]) (simp_all add: p com_example_def looks_one two)
  have ow: "on_wire status_message status_req" by (simp add: on_wire_def status_message_def status_req_def be16_bytes_def)
  have "acsiIDdevType ?c ! unat (drop_bit 5 (write_cmd ! 0)) \<noteq> DEVTYPE_OFF" by (simp add: core_scsi_fields p)
  note t = written_sectors_stored [OF rw _ _ _ this _ _ _ _ _ _ cm ow hans_writing_ok(1,2) _ _ refl]
  have "(\<exists>m'. dataMedia (core_mod ?c') = Some m' \<and> contents m' = splice (unat (1 :: DWORD) * 512) block9 (contents (ImageFileMedia image_example))) \<and>
    (\<exists>h'. acsi_loop ?h = Some (Some h') \<and> bus_out h' = bus_out ?h @ status_evs (isAcsiNotScsi ?h) 0 \<and>
      host_out h' = host_out ?h @ write_messages 0 (chunks block9) @ [status_message] \<and> host_in h' = [] \<and> hstate h' = STATE_GET_COMMAND)"
    by (rule t) (use e core_scsi_fields hans_writing_ok l in \<open>simp_all add: image_example_def status_acks_def\<close>)
  moreover have "splice (unat (1 :: DWORD) * 512) block9 (contents (ImageFileMedia image_example)) = replicate 512 7 @ replicate 512 9"
    by (simp add: splice_def image_example_def block9_def)
  ultimately show ?thesis using hans_writing_ok(3,4) by (auto simp: status_evs_def)
qed

text \<open>A WRITE of two sectors from the last sector of the image on.\<close>

definition blocks9 :: "BYTE list" where
  "blocks9 = replicate 1024 9"

definition trans_writing :: datatrans where
  "trans_writing = trans_example\<lparr>dt_com := com_example\<lparr>atn_pin := [True, True], ms_over := [False, False],
     miso := replicate 10 0 @ concat (map (\<lambda>m. word_bytes (fst m)) (write_messages 0 (chunks blocks9)))\<rparr>\<rparr>"

lemma write_past_end_grows_witness:
  "\<exists>i' f'. fst (readWriteGeneric False 1 2 (addressed write_cmd scsi_example, trans_writing)) =
      fst (SendOKstatus (set_media (ImageFileMedia i') ((addressed write_cmd scsi_example)\<lparr>sc_dataBuffer :=
        overwrite (sc_dataBuffer scsi_example) blocks9\<rparr>), trans_writing)) \<and>
    im_fd i' = Some f' \<and> length f' = 3 * 512 \<and> drop 512 f' = blocks9"
proof -
  let ?z = "addressed write_cmd scsi_example"
  have l: "length blocks9 = 1024" by (simp add: blocks9_def)
  have "write_cmd ! 0 = 8 \<or> write_cmd ! 0 = 10" "write_cmd ! 1 = 0" by (simp_all add: write_cmd_def)
  note e = example_reached(1) [OF this, unfolded reaches_def]
  have c: "length (chunks blocks9) = 2" by (simp add: length_chunks l blocks_of_def)
  obtain s rx blks where "recvData (2 * 512) trans_writing =
      (trans_writing\<lparr>dt_dataDirection := DATA_DIRECTION_WRITE, dt_com := s, txBuffer := replicate 600 0, rxBuffer := rx\<rparr>, blocks9, True)"
    by (rule recvData_ok [of trans_writing "replicate 10 0" blocks9 "[]" "[]" "[0, 0]" "[]" "[]" "[]" "2 * 512"])
      (simp_all add: trans_writing_def com_example_def trans_example_def looks_one c l)
  note t = write_past_end_grows [OF _ _ _ _ _ _ _ _ this, of ?z image_example "replicate 1024 7" 2 1]
  have "\<exists>i' f'. readWriteGeneric False 1 2 (?z, trans_writing) = SendOKstatus (set_media (ImageFileMedia i') (?z\<lparr>sc_dataBuffer := overwrite (sc_dataBuffer ?z) blocks9\<rparr>),
      trans_writing\<lparr>dt_dataDirection := DATA_DIRECTION_WRITE, dt_com := s, txBuffer := replicate 600 0, rxBuffer := rx\<rparr>) \<and>
    im_fd i' = Some f' \<and> length f' = (2 + 1) * 512 \<and> drop (unat (1 :: DWORD) * 512) f' = blocks9"
    by (rule t) (use e l in \<open>simp_all add: image_example_def\<close>)
  then show ?thesis by (auto simp: SendOKstatus_def storeSenseAndSendStatus_def)
qed

end
