(* ===== verification/Spec2Isabelle.thy ===== *)
theory Spec2Isabelle
  imports FranzWitness GdFirst HostDiskEx HostScsiWit
begin

text \<open>
  CosmosEx: hard disk, floppy and network devices for Atari ST, TT and Falcon computers.

  \<^bold>\<open>The program.\<close> A CosmosEx is three processors beside the Atari. Hans (src/ce_hans_fw) sits on the
  Atari's ACSI or SCSI bus: it receives commands, serves an SD card itself and passes the other commands
  to the host. Franz (src/ce_franz_fw) plays a floppy drive: it turns the MFM times of a track into pulses
  and the pulses that the Atari writes into words, and passes keyboard bytes. The host (src/ce_main_app,
  on a Raspberry Pi) is connected to both by SPI: it processes the commands, with SCSI devices on images
  and devices, a disk whose files are the host's files (translated disk), and floppy images that are
  encoded for Franz. On the Atari runs a GEMDOS driver (src/ce_dd_prg), whose file functions are commands on
  the bus to the translated disk.

  \<^bold>\<open>How the parts meet.\<close> A command goes from the driver (hdd_if.c) over the bus to Hans (main.c, bridge.c),
  from there as a message to the host (conspi.cpp, acsidatatrans.cpp), there through the dispatch with its
  retries (ccorethread.cpp, retrymodule.cpp) to a module or to the SCSI devices (native/), and its data
  and status come back in numbered blocks of at most 512 bytes that Hans asks for. A track goes from an image
  file (floppyimage.cpp, msa.cpp) through the encoder (mfmcachedimage.cpp), the slots (imagesilo.cpp) and
  the core thread to Franz, who plays it.

  \<^bold>\<open>Conventions.\<close> Names are those of the code; a suffix or prefix is added where two files use one name.
  C integers are words of their width, so that they wrap as in the code. The world outside of a processor is
  part of its state as lists of what it will see (register values, bytes shifted in, answers of a pin, looks
  at a clock) and logs of what it sends; an exhausted list means a timeout, no signal or zeros, as each
  theory says. A read or write outside an array, where the code goes on with other memory, is a result of its
  own (\<open>None\<close>, \<open>Overflow\<close>, a flag \<open>overrun\<close>), so that a theorem about a result also says that this does not
  happen. Objects that the code has only one of are part of the state they are used in.

  \<^bold>\<open>Prelude.\<close> Types of machine words, sequences of big-endian bytes, the Atari's memory, and lemmas on lists
  and words; \<open>step_defs\<close> and \<open>inv_rules\<close> collect the definitions of small steps and the preservation
  lemmas of the invariants.

  \<^bold>\<open>Franz\<close> (src/ce_franz_fw/main.c). CircBuf: the circular buffers, with the contract \<open>bounded_queue\<close>, a
  queue with a number of places. FranzUart: the serial interrupts. FranzState, FranzMfm, FranzMain: globals, MFM
  streams, the main loop with its transfers and interrupts. FranzStream: what is played. FranzPulse: what is
  captured, by a timer that starts over after 255, so that of most captured words a pulse or two are lost.
  FranzInv, FranzRun: the step relation of iterations and interrupts and its invariant, by rule
  induction. FranzWitness: the state after the start and concrete instances.

  \<^bold>\<open>The driver\<close> (src/ce_dd_prg). GdIf: the globals, the command with its retries (hdd_if.c), its string
  functions. GdRw: reading and writing with buffers per file (gemdos_rw.c). GdDirs, GdFiles: bios.c and the
  handlers of gemdos.c. The device behind the bus is a function and a parameter. GdServer: the contract
  \<open>file_server\<close> of the commands on open files, under which GdRead, GdBig, GdWrite and GdSeek prove
  the driver's functions correct against a file of bytes with a position. GdHost: the host's handlers
  (translateddisk_gemdos.cpp), which are proved to keep that contract. GdSpec, GdSession, GdReopen:
  driver and host together, up to closing and opening again; long reads to an odd address with buffered
  data are excluded, as the code goes wrong there, and a seek inside the buffered data is stated apart. GdSearch: the contract \<open>dir_server\<close> of searches;
  GdNext, GdFind, GdFirst: what a program that lists directories sees. GdMore: retries, the wait for a mount and further
  functions.

  \<^bold>\<open>Hans\<close> (src/ce_hans_fw). HansBus: state, bytes on the bus (bridge.c). HansSpi: messages to the host. HansMmc,
  HansCard: the SD card (mmc.c, mmc_datatransfer.c). HansScsi: SCSI commands for the card, the commands of a
  device without a host (scsi.c, cosmosolo.c, eeprom.c). HansMain, HansData: the main program. HansCmd,
  HansRead, HansHost, HansLaws, HansSd, HansSdWrite: what arrives where, and what is refused. HansFrame and
  HansKept: the contracts \<open>hans_io\<close> and \<open>hans_kept\<close> of predicates that all operations keep, proved
  once and instantiated for array sizes, the polls of the timer that are left and the LEDs. HansOver: the three ways in
  which a command leaves an array (a SCSI command of group 4, a command or a data marker of the host too late in its
  message). HansRuns: every command and every iteration ends, in one of these ways or with the sizes kept. The loop over the phases is a partial function, so that this is a
  theorem and not built in; it holds because every pass looks at the timer, whose list is finite.

  \<^bold>\<open>The host and the bus.\<close> HostSpi (conspi.cpp): headers, found by at most 10000 words of synchronisation, and
  the limits of a packet. HostTrans: data and status of a command, sent and received in blocks of 512 bytes from
  a buffer of 1 MB. HostHans: the answer of the host and the requests of Hans, each side reading what the
  other one shifts out. HostCore, HostRetry: the dispatch and its contract \<open>sending_module\<close>; a link that
  loses commands and answers, over which the driver's retries run a command once, but for a command that
  repeats the last one and whose first attempt is lost, which is not run. HostDrives: drive functions
  of the translated disk as such a module.

  \<^bold>\<open>SCSI devices\<close> (src/ce_main_app/native). HostMedia: SD card, image file, device, boot image and the two dummies
  behind the interface \<open>IMedia\<close>. HostScsi: the commands (scsi.cpp, scsi_rw.cpp, scsi_helpers.cpp) with
  their sense data; the loops for 2048 sectors and more move 1 MB at a time. HostAttach: nine slots and
  eight IDs. HostScsiKept: the contract \<open>scsi_frame\<close> of facts that commands keep, with its instances: the
  contents of the other media, and the links. HostLinks: slots and IDs point to each other in every run.
  HostScsiRw, HostScsiWr: the contracts \<open>sector_reads\<close> and \<open>sector_store\<close> of media with sectors, and the way of
  sectors between the medium and the Atari through both processors. HostBoot: the boot sector's checksum and
  a write past the end. HostScsiEx, HostScsiWit: a concrete configuration.

  \<^bold>\<open>Floppy images\<close> (src/ce_main_app/floppy). HostMfm: images, encoder and cache; a track has a block of 15000
  bytes, and is built in a buffer of 20480 bytes. HostMfmDec: the decoder. HostMfmLine, HostMfmTrack, HostMfmFlux,
  HostMfmTrip, HostMfmRound: the encoder emits the line code of the track's layout, and the decoder
  returns it. HostFloppy, HostCache: the parameters of images and which of them fit. HostSilo: slots, the encoding
  thread and the message to Franz as a step relation, whose steps carry the files that are put in slots; swaps and
  removals of slots are steps too, and no file is assumed to open or to fit. HostDisk: from the image file to the
  bytes that Franz plays, and what a swap leaves behind. HostMsa: compressed images. HostCrc: the checksum as
  a remainder of polynomials, which is stated without the code. HostDiskEx: concrete images.

  \<^bold>\<open>Assumptions.\<close> The bus between driver and Hans is the parameter of the driver's model; the theorems that join
  driver and host let a command reach the host's handlers unchanged, or lose commands and answers in the
  theorems on retries. The two sides of the SPI link see each other's bytes; the attention signal is seen before
  the wait ends. Operations that the code runs under one lock are single steps. The files of the host are bytes
  in memory; what opening or searching gives is an input. The theorems on reading and writing
  sectors hold for fewer than 2048 sectors in a command, which are moved as one piece.

  \<^bold>\<open>Not modelled.\<close> The vendor library of the microcontrollers and their pin set-up; the low level buses of the
  Atari, the installation of the driver and the start of programs, which live in registers, trap vectors and base
  pages of the 68000; how the translated disk maps names to the host's files (short names, mounting) and its
  functions on paths beyond what the driver sees; the choice and transfer of floppy images; keyboards, mice and
  joysticks of the host; the network adapter and its library on the Atari; screens, displays, settings, the web
  interface and services of the host, which are input and output by the operating system; tools and test
  programs; and code for other devices in the repository.
\<close>

end
